(* ===== verification/Yas_Prelude.thy ===== *)
theory Yas_Prelude
  imports Main "HOL-Library.Word"
begin

text \<open>
  The prelude of the development: the machine-integer and byte types the Rust sources use,
  the error monad that models \<^verbatim>\<open>Result\<close> and the \<^verbatim>\<open>?\<close> operator, the state-and-error monad
  that models a cursor over bytes, little-endian words (\<^verbatim>\<open>to_le_bytes\<close>,
  \<^verbatim>\<open>from_le_bytes\<close>), the UTF-8 check of \<^verbatim>\<open>core::str::from_utf8\<close>, checked arithmetic,
  and the two interfaces every wire codec of the crate is an instance of.
\<close>

unbundle bit_operations_syntax

type_synonym u8 = "8 word"
type_synonym u16 = "16 word"
type_synonym u32 = "32 word"
type_synonym u64 = "64 word"
type_synonym bytes = "8 word list"

named_theorems rd_iff \<open>when a reader step succeeds, as an equation on its input\<close>
named_theorems rd_stable \<open>readers that leave the bytes after the ones they consume alone\<close>
named_theorems enc_iff \<open>when an encoder step succeeds, and with which bytes\<close>

section \<open>Results\<close>

text \<open>\<open>Inl\<close> is \<^verbatim>\<open>Err\<close>, \<open>Inr\<close> is \<^verbatim>\<open>Ok\<close>; \<open>ebind m f\<close> is \<^verbatim>\<open>f(m?)\<close>.\<close>

definition ebind :: "'e + 'a \<Rightarrow> ('a \<Rightarrow> 'e + 'b) \<Rightarrow> 'e + 'b" where
  "ebind m f = (case m of Inl e \<Rightarrow> Inl e | Inr a \<Rightarrow> f a)"

definition is_ok :: "'e + 'a \<Rightarrow> bool" where
  "is_ok m = (case m of Inl _ \<Rightarrow> False | Inr _ \<Rightarrow> True)"

lemma ebind_simps [simp]:
  "ebind (Inl e) f = Inl e"
  "ebind (Inr a) f = f a"
  by (simp_all add: ebind_def)

lemma ebind_Inr_iff [enc_iff]:
  "ebind m f = Inr b \<longleftrightarrow> (\<exists>a. m = Inr a \<and> f a = Inr b)"
  by (cases m) auto

lemma is_ok_simps [simp]: "\<not> is_ok (Inl e)" "is_ok (Inr a)"
  by (simp_all add: is_ok_def)

lemma is_ok_iff: "is_ok m \<longleftrightarrow> (\<exists>a. m = Inr a)"
  by (cases m) auto

lemma if_Inl_Inr_iff [enc_iff]:
  "(if c then Inl e else m) = Inr b \<longleftrightarrow> \<not> c \<and> m = Inr b"
  "(if c then m else Inl e) = Inr b \<longleftrightarrow> c \<and> m = Inr b"
  by auto

section \<open>Readers\<close>

text \<open>
  A reader takes a cursor state and returns an error or a value with the next state; the
  first error ends the whole read, as \<^verbatim>\<open>?\<close> does.
\<close>

definition rbind ::
  "('s \<Rightarrow> 'e + 'a \<times> 's) \<Rightarrow> ('a \<Rightarrow> 's \<Rightarrow> 'e + 'b \<times> 's) \<Rightarrow> 's \<Rightarrow> 'e + 'b \<times> 's" where
  "rbind m f s = (case m s of Inl e \<Rightarrow> Inl e | Inr (a, t) \<Rightarrow> f a t)"

definition rret :: "'a \<Rightarrow> 's \<Rightarrow> 'e + 'a \<times> 's" where
  "rret a s = Inr (a, s)"

definition rfail :: "'e \<Rightarrow> 's \<Rightarrow> 'e + 'a \<times> 's" where
  "rfail e s = Inl e"

text \<open>A computation that does not move the cursor, run in the middle of a read.\<close>

definition rlift :: "'e + 'a \<Rightarrow> 's \<Rightarrow> 'e + 'a \<times> 's" where
  "rlift m s = (case m of Inl e \<Rightarrow> Inl e | Inr a \<Rightarrow> Inr (a, s))"

text \<open>The value of a whole read, without the cursor it leaves.\<close>

definition rrun :: "('s \<Rightarrow> 'e + 'a \<times> 's) \<Rightarrow> 's \<Rightarrow> 'e + 'a" where
  "rrun m s = (case m s of Inl e \<Rightarrow> Inl e | Inr (a, _) \<Rightarrow> Inr a)"

text \<open>Repeats a reader \<open>n\<close> times and collects the values.\<close>

fun rrepeat :: "nat \<Rightarrow> ('s \<Rightarrow> 'e + 'a \<times> 's) \<Rightarrow> 's \<Rightarrow> 'e + 'a list \<times> 's" where
  "rrepeat 0 m = rret []"
| "rrepeat (Suc n) m = rbind m (\<lambda>x. rbind (rrepeat n m) (\<lambda>xs. rret (x # xs)))"

lemma rbind_Inr_iff [rd_iff]:
  "rbind m f s = Inr y \<longleftrightarrow> (\<exists>a t. m s = Inr (a, t) \<and> f a t = Inr y)"
  by (auto simp: rbind_def split: sum.splits prod.splits)

lemma rret_Inr_iff [rd_iff]: "rret a s = Inr (b, t) \<longleftrightarrow> b = a \<and> t = s"
  by (auto simp: rret_def)

lemma rfail_Inr_iff [rd_iff]: "rfail e s = Inr y \<longleftrightarrow> False"
  by (simp add: rfail_def)

lemma rlift_Inr_iff [rd_iff]: "rlift m s = Inr (a, t) \<longleftrightarrow> m = Inr a \<and> t = s"
  by (auto simp: rlift_def split: sum.splits)

lemma rrun_Inr_iff [rd_iff]: "rrun m s = Inr a \<longleftrightarrow> (\<exists>t. m s = Inr (a, t))"
  by (auto simp: rrun_def split: sum.splits prod.splits)

lemma rbind_simps [simp]:
  "m s = Inl e \<Longrightarrow> rbind m f s = Inl e"
  "m s = Inr (a, t) \<Longrightarrow> rbind m f s = f a t"
  by (simp_all add: rbind_def)

lemma rrun_simps [simp]:
  "m s = Inl e \<Longrightarrow> rrun m s = Inl e"
  "m s = Inr (a, t) \<Longrightarrow> rrun m s = Inr a"
  by (simp_all add: rrun_def)

lemma if_reader_iff [rd_iff]:
  "(if c then m else n) s = Inr y \<longleftrightarrow> c \<and> m s = Inr y \<or> \<not> c \<and> n s = Inr y"
  by simp

lemma case_option_reader_iff [rd_iff]:
  "(case v of None \<Rightarrow> m | Some x \<Rightarrow> f x) s = Inr y \<longleftrightarrow>
     v = None \<and> m s = Inr y \<or> (\<exists>x. v = Some x \<and> f x s = Inr y)"
  by (cases v) auto

text \<open>
  A reader over bytes is \<^emph>\<open>stable\<close> when bytes added after the end of its input are left
  over untouched: it reads a self-delimiting value.
\<close>

definition stable :: "(bytes \<Rightarrow> 'e + 'a \<times> bytes) \<Rightarrow> bool" where
  "stable m \<longleftrightarrow> (\<forall>b a r t. m b = Inr (a, r) \<longrightarrow> m (b @ t) = Inr (a, r @ t))"

lemma stableD: "stable m \<Longrightarrow> m b = Inr (a, r) \<Longrightarrow> m (b @ t) = Inr (a, r @ t)"
  by (auto simp: stable_def)

lemma stable_rret [rd_stable]: "stable (rret a)"
  by (simp add: stable_def rret_def)

lemma stable_rfail [rd_stable]: "stable (rfail e)"
  by (simp add: stable_def rfail_def)

lemma stable_rlift [rd_stable]: "stable (rlift m)"
  by (auto simp: stable_def rlift_def split: sum.splits)

lemma stable_rbind [rd_stable]:
  assumes "stable m" and "\<And>a. stable (f a)"
  shows "stable (rbind m f)"
  unfolding stable_def
proof (intro allI impI)
  fix b y r t
  assume "rbind m f b = Inr (y, r)"
  then obtain a c where m: "m b = Inr (a, c)" and f: "f a c = Inr (y, r)"
    by (auto simp: rbind_Inr_iff)
  from stableD [OF assms(1) m] stableD [OF assms(2) f]
  show "rbind m f (b @ t) = Inr (y, r @ t)" by simp
qed

lemma stable_if [rd_stable]: "stable m \<Longrightarrow> stable n \<Longrightarrow> stable (if c then m else n)"
  by simp

lemma stable_case_option [rd_stable]:
  "stable m \<Longrightarrow> (\<And>x. stable (f x)) \<Longrightarrow> stable (case v of None \<Rightarrow> m | Some x \<Rightarrow> f x)"
  by (cases v) auto

lemma stable_rrepeat [rd_stable]: "stable m \<Longrightarrow> stable (rrepeat n m)"
  by (induction n) (auto intro!: rd_stable)

section \<open>Little-endian words\<close>

definition le_bytes :: "nat \<Rightarrow> 'a::len word \<Rightarrow> bytes" where
  "le_bytes n w = map (\<lambda>i. ucast (drop_bit (8 * i) w)) [0..<n]"

fun from_le :: "bytes \<Rightarrow> 'a::len word" where
  "from_le [] = 0"
| "from_le (b # bs) = ucast b OR push_bit 8 (from_le bs)"

lemma length_le_bytes [simp]: "length (le_bytes n w) = n"
  by (simp add: le_bytes_def)

lemma le_bytes_0 [simp]: "le_bytes 0 w = []"
  by (simp add: le_bytes_def)

lemma le_bytes_Suc: "le_bytes (Suc n) w = ucast w # le_bytes n (drop_bit 8 w)"
proof -
  have "[0..<Suc n] = 0 # map Suc [0..<n]"
    by (simp add: map_Suc_upt upt_conv_Cons)
  then show ?thesis
    by (simp add: le_bytes_def ac_simps)
qed

lemma from_le_le_bytes:
  "from_le (le_bytes n w) = (take_bit (8 * n) w :: 'a::len word)"
proof (induction n arbitrary: w)
  case 0
  then show ?case by simp
next
  case (Suc n)
  show ?case
  proof (rule bit_word_eqI)
    fix i assume "i < LENGTH('a)"
    then show "bit (from_le (le_bytes (Suc n) w) :: 'a word) i \<longleftrightarrow> bit (take_bit (8 * Suc n) w) i"
      by (cases "i < 8")
        (auto simp: le_bytes_Suc Suc bit_or_iff bit_push_bit_iff bit_ucast_iff
          bit_take_bit_iff bit_drop_bit_eq)
  qed
qed

lemma le_bytes_from_le:
  fixes bs :: bytes
  assumes "8 * length bs \<le> LENGTH('a::len)"
  shows "le_bytes (length bs) (from_le bs :: 'a word) = bs"
  using assms
proof (induction bs)
  case Nil
  then show ?case by simp
next
  case (Cons b bs)
  have b: "ucast (ucast b OR push_bit 8 (from_le bs :: 'a word)) = b"
  proof (rule bit_word_eqI)
    fix i assume i: "i < LENGTH(8)"
    with Cons.prems show "bit (ucast (ucast b OR push_bit 8 (from_le bs :: 'a word)) :: 8 word) i \<longleftrightarrow> bit b i"
      by (auto simp: bit_or_iff bit_push_bit_iff bit_ucast_iff)
  qed
  have top: "bit (from_le cs :: 'a word) i \<Longrightarrow> i < 8 * length cs" for cs i
  proof (induction cs arbitrary: i)
    case Nil
    then show ?case by simp
  next
    case (Cons c cs)
    from Cons.prems show ?case
    proof (cases "i < 8")
      case False
      with Cons.prems have "bit (from_le cs :: 'a word) (i - 8)"
        by (auto simp: bit_or_iff bit_push_bit_iff bit_ucast_iff dest: bit_imp_le_length)
      with Cons.IH False show ?thesis by fastforce
    qed simp
  qed
  have "drop_bit 8 (ucast b OR push_bit 8 (from_le bs :: 'a word)) = (from_le bs :: 'a word)"
  proof (rule bit_word_eqI)
    fix i assume "i < LENGTH('a)"
    show "bit (drop_bit 8 (ucast b OR push_bit 8 (from_le bs :: 'a word))) i
        \<longleftrightarrow> bit (from_le bs :: 'a word) i"
      using top [of bs i] Cons.prems
      by (auto simp: bit_or_iff bit_push_bit_iff bit_ucast_iff bit_drop_bit_eq dest: bit_imp_le_length)
  qed
  with b Cons show ?case
    by (simp add: le_bytes_Suc)
qed

section \<open>Big-endian words\<close>

definition be_bytes :: "nat \<Rightarrow> 'a::len word \<Rightarrow> bytes" where
  "be_bytes n w = rev (le_bytes n w)"

definition from_be :: "bytes \<Rightarrow> 'a::len word" where
  "from_be bs = from_le (rev bs)"

lemma length_be_bytes [simp]: "length (be_bytes n w) = n"
  by (simp add: be_bytes_def)

lemma from_be_be_bytes: "from_be (be_bytes n w) = (take_bit (8 * n) w :: 'a::len word)"
  by (simp add: from_be_def be_bytes_def from_le_le_bytes)

section \<open>UTF-8\<close>

text \<open>
  \<^verbatim>\<open>core::str::from_utf8\<close> accepts exactly the well-formed sequences: no overlong form, no
  surrogate, nothing above U+10FFFF. A Rust \<^verbatim>\<open>String\<close> is modelled as its bytes.
\<close>

definition utf8_cont :: "u8 \<Rightarrow> bool" where
  "utf8_cont b \<longleftrightarrow> 0x80 \<le> b \<and> b \<le> 0xBF"

fun utf8_valid :: "bytes \<Rightarrow> bool" where
  "utf8_valid [] = True"
| "utf8_valid (a # rest) =
     (if a < 0x80 then utf8_valid rest
      else if 0xC2 \<le> a \<and> a \<le> 0xDF then
        (case rest of b # r \<Rightarrow> utf8_cont b \<and> utf8_valid r | _ \<Rightarrow> False)
      else if 0xE0 \<le> a \<and> a \<le> 0xEF then
        (case rest of b # c # r \<Rightarrow>
            utf8_cont b \<and> (a = 0xE0 \<longrightarrow> 0xA0 \<le> b) \<and> (a = 0xED \<longrightarrow> b \<le> 0x9F)
            \<and> utf8_cont c \<and> utf8_valid r
         | _ \<Rightarrow> False)
      else if 0xF0 \<le> a \<and> a \<le> 0xF4 then
        (case rest of b # c # d # r \<Rightarrow>
            utf8_cont b \<and> (a = 0xF0 \<longrightarrow> 0x90 \<le> b) \<and> (a = 0xF4 \<longrightarrow> b \<le> 0x8F)
            \<and> utf8_cont c \<and> utf8_cont d \<and> utf8_valid r
         | _ \<Rightarrow> False)
      else False)"

section \<open>Checked and saturating arithmetic\<close>

text \<open>Rust's \<^verbatim>\<open>checked_add\<close> and \<^verbatim>\<open>checked_sub\<close> on unsigned integers.\<close>

definition checked_add :: "'a::len word \<Rightarrow> 'a word \<Rightarrow> 'a word option" where
  "checked_add a b = (if unat a + unat b < 2 ^ LENGTH('a) then Some (a + b) else None)"

definition checked_sub :: "'a::len word \<Rightarrow> 'a word \<Rightarrow> 'a word option" where
  "checked_sub a b = (if b \<le> a then Some (a - b) else None)"

lemma checked_add_Some_iff:
  "checked_add a b = Some c \<longleftrightarrow> unat c = unat a + unat b"
  for a b c :: "'a::len word"
proof -
  have "unat (a + b) = unat a + unat b" if "unat a + unat b < 2 ^ LENGTH('a)"
    using that by (simp add: unat_word_ariths)
  moreover have "unat c < 2 ^ LENGTH('a)" by (rule unsigned_less)
  ultimately show ?thesis
    unfolding checked_add_def by (auto simp del: unsigned_less simp: word_unat_eq_iff)
qed

lemma checked_sub_Some_iff:
  "checked_sub a b = Some c \<longleftrightarrow> unat a = unat b + unat c"
  for a b c :: "'a::len word"
proof -
  have "unat (a - b) = unat a - unat b" if "b \<le> a"
    using that by (rule unat_sub)
  moreover have "b \<le> a \<longleftrightarrow> unat b \<le> unat a" by (simp add: word_le_nat_alt)
  ultimately show ?thesis
    unfolding checked_sub_def by (auto simp: word_unat_eq_iff)
qed

text \<open>\<^verbatim>\<open>saturating_add\<close>, \<^verbatim>\<open>saturating_mul\<close>; \<open>- 1\<close> is the largest word.\<close>

definition saturating_add :: "'a::len word \<Rightarrow> 'a word \<Rightarrow> 'a word" where
  "saturating_add a b = (case checked_add a b of None \<Rightarrow> - 1 | Some c \<Rightarrow> c)"

definition saturating_mul :: "'a::len word \<Rightarrow> 'a word \<Rightarrow> 'a word" where
  "saturating_mul a b = (if unat a * unat b < 2 ^ LENGTH('a) then a * b else - 1)"

lemma unat_saturating_add: "unat (saturating_add a b) = min (unat a + unat b) (2 ^ LENGTH('a) - 1)"
  for a b :: "'a::len word"
proof (cases "unat a + unat b < 2 ^ LENGTH('a)")
  case True
  then have "unat (a + b) = unat a + unat b"
    by (simp add: unat_word_ariths)
  with True show ?thesis
    by (simp add: saturating_add_def checked_add_def min_def) arith
next
  case False
  have "unat (- 1 :: 'a word) = 2 ^ LENGTH('a) - 1"
    by (simp add: unsigned_minus_1_eq_mask mask_eq_exp_minus_1)
  moreover have "min (unat a + unat b) (2 ^ LENGTH('a) - 1) = 2 ^ LENGTH('a) - 1"
    using False by (intro min_absorb2) linarith
  ultimately show ?thesis
    using False by (simp add: saturating_add_def checked_add_def)
qed

lemma saturating_add_ge: "a \<le> saturating_add a b"
proof -
  have "unat a < 2 ^ LENGTH('a)"
    by (rule unsigned_less)
  then have "unat a \<le> 2 ^ LENGTH('a) - 1"
    by linarith
  then show ?thesis
    by (simp add: word_le_nat_alt unat_saturating_add)
qed

text \<open>Sizes of type \<^verbatim>\<open>usize\<close> and sums in 64 bits, kept as natural numbers below \<open>2 ^ 64\<close>.\<close>

definition checked_nat :: "nat \<Rightarrow> nat option" where
  "checked_nat n = (if n < 2 ^ 64 then Some n else None)"

fun checked_sum :: "nat \<Rightarrow> nat list \<Rightarrow> nat option" where
  "checked_sum acc [] = Some acc"
| "checked_sum acc (n # ns) = (case checked_nat (acc + n) of None \<Rightarrow> None | Some acc' \<Rightarrow> checked_sum acc' ns)"

lemma checked_sum_Some: "checked_sum acc ns = Some n \<Longrightarrow> n = acc + sum_list ns"
  by (induction ns arbitrary: acc) (fastforce simp: checked_nat_def split: if_splits)+

lemma checked_sum_less: "checked_sum acc ns = Some n \<Longrightarrow> acc < 2 ^ 64 \<Longrightarrow> n < 2 ^ 64"
  by (induction ns arbitrary: acc) (auto simp: checked_nat_def split: if_splits)

section \<open>Masks\<close>

lemma mask_and: "f AND m = f" if "f AND NOT m = 0" for f m :: "'w::len word"
proof (rule bit_word_eqI)
  fix n
  have "\<not> bit (f AND NOT m) n"
    by (simp only: that) simp
  moreover assume "n < LENGTH('w)"
  ultimately show "bit (f AND m) n \<longleftrightarrow> bit f n"
    by (auto simp: bit_simps)
qed

end
