(* ===== verification/Wire_Codec.thy ===== *)
theory Wire_Codec
  imports Yas_Prelude
begin

text \<open>
  The codec layer of the wire crate (\<^verbatim>\<open>crates/yas/src/codec.rs\<close>): the error type, the
  \<^verbatim>\<open>Decoder\<close> cursor with its typed reads, the \<^verbatim>\<open>put_*\<close> writers, and the extension
  lists that end almost every payload.

  The cursor appears twice. \<open>Decoder\<close> is the source's struct, an input with an offset, whose
  \<^verbatim>\<open>take\<close> adds with \<^verbatim>\<open>checked_add\<close> on a 64-bit \<^verbatim>\<open>usize\<close>. The readers \<open>dec_*\<close> keep
  only the bytes that remain. \<open>Decoder_take_refines\<close> and its companions show that the struct
  implements the readers on every input a Rust slice can hold, so the payload decoders of the
  other theories are written with the readers.

  Two interfaces organise the proofs. \<open>wire_item\<close> is a value inside a payload: its reader
  succeeds exactly on an encoding followed by anything. \<open>canonical_codec\<close> is a whole payload:
  its decoder succeeds exactly on the encodings of the values.
\<close>

section \<open>Errors\<close>

datatype error =
    Truncated
  | TrailingBytes nat
  | Invalid string
  | InvalidUtf8
  | LengthOverflow
  | LimitExceeded string u64 u64
  | UnsupportedCodec u16
  | Compression

type_synonym 'a result = "error + 'a"
type_synonym 'a reader = "bytes \<Rightarrow> error + 'a \<times> bytes"

section \<open>Interfaces\<close>

text \<open>
  An item: \<open>put\<close> encodes (or refuses) a value, \<open>get\<close> reads one, and \<open>ok\<close> says what every
  value of the Rust type satisfies that the HOL type does not (the length of an array, UTF-8 in
  a string).
\<close>

locale wire_item =
  fixes ok :: "'a \<Rightarrow> bool"
    and put :: "'a \<Rightarrow> error + bytes"
    and get :: "bytes \<Rightarrow> error + 'a \<times> bytes"
  assumes get_iff: "get b = Inr (x, r) \<longleftrightarrow> ok x \<and> (\<exists>p. put x = Inr p \<and> b = p @ r)"
begin

lemma get_put: "ok x \<Longrightarrow> put x = Inr p \<Longrightarrow> get (p @ r) = Inr (x, r)"
  by (simp add: get_iff)

lemma get_stable: "stable get"
  unfolding stable_def by (auto simp: get_iff)

lemma put_prefix_free:
  assumes "ok x" "ok y" "put x = Inr p" "put y = Inr q" "p @ r = q @ s"
  shows "x = y \<and> r = s"
proof -
  from assms have "get (p @ r) = Inr (x, r)" and "get (p @ r) = Inr (y, s)"
    by (simp_all add: get_iff)
  then show ?thesis by simp
qed

end

text \<open>An item whose encoder never refuses: the fixed-width fields.\<close>

locale wire_field =
  fixes fok :: "'a \<Rightarrow> bool"
    and fput :: "'a \<Rightarrow> bytes"
    and fget :: "bytes \<Rightarrow> error + 'a \<times> bytes"
  assumes fget_iff: "fget b = Inr (x, r) \<longleftrightarrow> fok x \<and> b = fput x @ r"
begin

lemma fget_put: "fok x \<Longrightarrow> fget (fput x @ r) = Inr (x, r)"
  by (simp add: fget_iff)

lemma fget_put_end: "fok x \<Longrightarrow> fget (fput x) = Inr (x, [])"
  using fget_put [of x "[]"] by simp

lemma rrepeat_fget_iff:
  "rrepeat n fget b = Inr (xs, r) \<longleftrightarrow>
     length xs = n \<and> list_all fok xs \<and> b = concat (map fput xs) @ r"
proof (induction n arbitrary: b xs)
  case 0
  then show ?case by (auto simp: rd_iff)
next
  case (Suc n)
  then show ?case
    by (cases xs) (auto simp: rd_iff fget_iff)
qed

end

sublocale wire_field \<subseteq> wire_item fok "\<lambda>x. Inr (fput x)" fget
  by unfold_locales (simp add: fget_iff)

text \<open>A whole payload: what is accepted is exactly what is produced.\<close>

locale canonical_codec =
  fixes ok :: "'a \<Rightarrow> bool"
    and enc :: "'a \<Rightarrow> error + bytes"
    and dec :: "bytes \<Rightarrow> error + 'a"
  assumes dec_iff: "dec b = Inr v \<longleftrightarrow> ok v \<and> enc v = Inr b"
begin

lemma round_trip: "ok v \<Longrightarrow> enc v = Inr b \<Longrightarrow> dec b = Inr v"
  by (simp add: dec_iff)

lemma canonical: "dec b = Inr v \<Longrightarrow> enc v = Inr b"
  by (simp add: dec_iff)

lemma enc_injective: "ok v \<Longrightarrow> ok w \<Longrightarrow> enc v = Inr b \<Longrightarrow> enc w = Inr b \<Longrightarrow> v = w"
  using round_trip [of v b] round_trip [of w b] by simp

lemma dec_injective: "dec b = Inr v \<Longrightarrow> dec c = Inr v \<Longrightarrow> b = c"
  by (simp add: dec_iff)

end

text \<open>A payload whose end is fixed by its own content: no accepted payload extends another.\<close>

locale self_delimiting_codec = canonical_codec +
  assumes trailing: "dec b = Inr v \<Longrightarrow> t \<noteq> [] \<Longrightarrow> \<not> is_ok (dec (b @ t))"
begin

lemma truncation:
  assumes "dec b = Inr v" and "n < length b"
  shows "\<not> is_ok (dec (take n b))"
proof
  assume "is_ok (dec (take n b))"
  then obtain w where "dec (take n b) = Inr w" by (auto simp: is_ok_iff)
  then have "\<not> is_ok (dec (take n b @ drop n b))"
    using assms(2) by (intro trailing) simp_all
  with assms(1) show False by simp
qed

end

section \<open>The decoder struct\<close>

record Decoder =
  d_input :: bytes
  d_offset :: nat

definition Decoder_new :: "bytes \<Rightarrow> Decoder" where
  "Decoder_new input = \<lparr>d_input = input, d_offset = 0\<rparr>"

definition Decoder_remaining :: "Decoder \<Rightarrow> nat" where
  "Decoder_remaining d = length (d_input d) - d_offset d"

definition Decoder_is_empty :: "Decoder \<Rightarrow> bool" where
  "Decoder_is_empty d \<longleftrightarrow> Decoder_remaining d = 0"

text \<open>\<^verbatim>\<open>take\<close>: the end of the slice is a checked \<^verbatim>\<open>usize\<close> addition, here 64 bits wide.\<close>

definition Decoder_take :: "nat \<Rightarrow> Decoder \<Rightarrow> error + bytes \<times> Decoder" where
  "Decoder_take len d =
     (if 2 ^ 64 \<le> d_offset d + len then Inl LengthOverflow
      else if length (d_input d) < d_offset d + len then Inl Truncated
      else Inr (take len (drop (d_offset d) (d_input d)), d\<lparr>d_offset := d_offset d + len\<rparr>))"

definition Decoder_rest :: "Decoder \<Rightarrow> error + bytes \<times> Decoder" where
  "Decoder_rest d = Inr (drop (d_offset d) (d_input d), d\<lparr>d_offset := length (d_input d)\<rparr>)"

definition Decoder_finish :: "Decoder \<Rightarrow> error + unit \<times> Decoder" where
  "Decoder_finish d =
     (if d_offset d = length (d_input d) then Inr ((), d)
      else Inl (TrailingBytes (Decoder_remaining d)))"

section \<open>Readers over the remaining bytes\<close>

definition dec_take :: "nat \<Rightarrow> bytes reader" where
  "dec_take len b = (if length b < len then Inl Truncated else Inr (take len b, drop len b))"

definition dec_rest :: "bytes reader" where
  "dec_rest b = Inr (b, [])"

text \<open>\<^verbatim>\<open>remaining()\<close> and \<^verbatim>\<open>is_empty()\<close>, read without moving.\<close>

definition dec_remaining :: "nat reader" where
  "dec_remaining b = Inr (length b, b)"

definition dec_finish :: "unit reader" where
  "dec_finish b = (if b = [] then Inr ((), b) else Inl (TrailingBytes (length b)))"

definition dec_u8 :: "u8 reader" where
  "dec_u8 = rbind (dec_take 1) (\<lambda>x. rret (hd x))"

definition dec_u16 :: "u16 reader" where
  "dec_u16 = rbind (dec_take 2) (\<lambda>x. rret (from_le x))"

definition dec_u32 :: "u32 reader" where
  "dec_u32 = rbind (dec_take 4) (\<lambda>x. rret (from_le x))"

definition dec_u64 :: "u64 reader" where
  "dec_u64 = rbind (dec_take 8) (\<lambda>x. rret (from_le x))"

text \<open>The signed reads reinterpret the same little-endian words.\<close>

definition dec_i16 :: "int reader" where
  "dec_i16 = rbind (dec_take 2) (\<lambda>x. rret (sint (from_le x :: u16)))"

definition dec_i32 :: "int reader" where
  "dec_i32 = rbind (dec_take 4) (\<lambda>x. rret (sint (from_le x :: u32)))"

definition dec_i64 :: "int reader" where
  "dec_i64 = rbind (dec_take 8) (\<lambda>x. rret (sint (from_le x :: u64)))"

definition dec_array_16 :: "bytes reader" where
  "dec_array_16 = dec_take 16"

definition dec_array_32 :: "bytes reader" where
  "dec_array_32 = dec_take 32"

definition dec_len_bytes_u16 :: "bytes reader" where
  "dec_len_bytes_u16 = rbind dec_u16 (\<lambda>len. dec_take (unat len))"

definition dec_len_bytes_u32 :: "bytes reader" where
  "dec_len_bytes_u32 = rbind dec_u32 (\<lambda>len. dec_take (unat len))"

definition dec_string_u16 :: "bytes reader" where
  "dec_string_u16 =
     rbind dec_len_bytes_u16 (\<lambda>b. if utf8_valid b then rret b else rfail InvalidUtf8)"

definition dec_string_u32 :: "bytes reader" where
  "dec_string_u32 =
     rbind dec_len_bytes_u32 (\<lambda>b. if utf8_valid b then rret b else rfail InvalidUtf8)"

section \<open>Writers\<close>

definition put_u8 :: "u8 \<Rightarrow> bytes" where
  "put_u8 x = [x]"

definition put_u16 :: "u16 \<Rightarrow> bytes" where
  "put_u16 x = le_bytes 2 x"

definition put_u32 :: "u32 \<Rightarrow> bytes" where
  "put_u32 x = le_bytes 4 x"

definition put_u64 :: "u64 \<Rightarrow> bytes" where
  "put_u64 x = le_bytes 8 x"

definition put_i16 :: "int \<Rightarrow> bytes" where
  "put_i16 x = le_bytes 2 (of_int x :: u16)"

definition put_i32 :: "int \<Rightarrow> bytes" where
  "put_i32 x = le_bytes 4 (of_int x :: u32)"

definition put_i64 :: "int \<Rightarrow> bytes" where
  "put_i64 x = le_bytes 8 (of_int x :: u64)"

definition put_len_u16 :: "nat \<Rightarrow> error + bytes" where
  "put_len_u16 len = (if len < 2 ^ 16 then Inr (put_u16 (of_nat len)) else Inl LengthOverflow)"

definition put_len_u32 :: "nat \<Rightarrow> error + bytes" where
  "put_len_u32 len = (if len < 2 ^ 32 then Inr (put_u32 (of_nat len)) else Inl LengthOverflow)"

definition put_bytes_u16 :: "bytes \<Rightarrow> error + bytes" where
  "put_bytes_u16 x = ebind (put_len_u16 (length x)) (\<lambda>l. Inr (l @ x))"

definition put_bytes_u32 :: "bytes \<Rightarrow> error + bytes" where
  "put_bytes_u32 x = ebind (put_len_u32 (length x)) (\<lambda>l. Inr (l @ x))"

definition put_string_u16 :: "bytes \<Rightarrow> error + bytes" where
  "put_string_u16 x = put_bytes_u16 x"

definition put_string_u32 :: "bytes \<Rightarrow> error + bytes" where
  "put_string_u32 x = put_bytes_u32 x"

section \<open>Extension lists\<close>

record Extension =
  e_tag :: u16
  e_required :: bool
  e_value :: bytes

type_synonym Extensions = "Extension list"

definition HARD_MAX_EXTENSION_ENTRIES :: nat where
  "HARD_MAX_EXTENSION_ENTRIES = 4096"

text \<open>The loop of \<^verbatim>\<open>Extensions::validate\<close>: tags strictly increase.\<close>

fun tags_increase :: "u16 option \<Rightarrow> Extensions \<Rightarrow> error + unit" where
  "tags_increase previous [] = Inr ()"
| "tags_increase previous (e # es) =
     (if (case previous of None \<Rightarrow> False | Some tag \<Rightarrow> e_tag e \<le> tag)
      then Inl (Invalid ''extension tag order'')
      else tags_increase (Some (e_tag e)) es)"

definition Extensions_validate :: "Extensions \<Rightarrow> error + unit" where
  "Extensions_validate es =
     (if HARD_MAX_EXTENSION_ENTRIES < length es
      then Inl (LimitExceeded ''extension entries'' (of_nat (length es))
                  (of_nat HARD_MAX_EXTENSION_ENTRIES))
      else tags_increase None es)"

definition Extension_encode :: "Extension \<Rightarrow> error + bytes" where
  "Extension_encode e =
     ebind (put_len_u32 (length (e_value e))) (\<lambda>len.
       Inr (put_u16 (e_tag e) @ put_u16 (of_bool (e_required e)) @ len @ e_value e))"

text \<open>Concatenates the encodings of a list, stopping at the first error.\<close>

fun encode_all :: "('a \<Rightarrow> error + bytes) \<Rightarrow> 'a list \<Rightarrow> error + bytes" where
  "encode_all f [] = Inr []"
| "encode_all f (x # xs) = ebind (f x) (\<lambda>b. ebind (encode_all f xs) (\<lambda>bs. Inr (b @ bs)))"

definition Extensions_encode_entries :: "Extensions \<Rightarrow> error + bytes" where
  "Extensions_encode_entries es =
     ebind (Extensions_validate es) (\<lambda>_. encode_all Extension_encode es)"

definition Extensions_encode_tail :: "Extensions \<Rightarrow> error + bytes" where
  "Extensions_encode_tail es =
     ebind (Extensions_encode_entries es) (\<lambda>entries.
     ebind (put_len_u32 (length entries)) (\<lambda>len. Inr (len @ entries)))"

text \<open>One turn of the loop of \<^verbatim>\<open>decode_entries\<close>, after its entry-count check.\<close>

definition decode_entry :: "u16 option \<Rightarrow> Extension reader" where
  "decode_entry previous =
     rbind dec_u16 (\<lambda>tag.
     if (case previous of None \<Rightarrow> False | Some old \<Rightarrow> tag \<le> old)
     then rfail (Invalid ''extension tag order'')
     else rbind dec_u16 (\<lambda>flags.
     if flags AND NOT 1 \<noteq> 0 then rfail (Invalid ''extension flags'')
     else rbind dec_len_bytes_u32 (\<lambda>v.
       rret \<lparr>e_tag = tag, e_required = (flags AND 1 \<noteq> 0), e_value = v\<rparr>)))"

lemma dec_take_length: "dec_take n b = Inr (x, r) \<Longrightarrow> length b = n + length r"
  by (auto simp: dec_take_def split: if_splits)

lemma decode_entry_shrinks: "decode_entry p b = Inr (e, r) \<Longrightarrow> length r < length b"
  by (auto simp: decode_entry_def dec_len_bytes_u32_def dec_u16_def dec_u32_def
      rbind_Inr_iff rret_Inr_iff rfail_def dest!: dec_take_length split: if_splits)

text \<open>The \<^verbatim>\<open>while\<close> loop of \<^verbatim>\<open>decode_entries\<close>.\<close>

function decode_entries_loop :: "Extensions \<Rightarrow> u16 option \<Rightarrow> bytes \<Rightarrow> error + Extensions" where
  "decode_entries_loop entries previous b =
     (if b = [] then Inr entries
      else if length entries = HARD_MAX_EXTENSION_ENTRIES
      then Inl (LimitExceeded ''extension entries'' (of_nat (length entries) + 1)
                  (of_nat HARD_MAX_EXTENSION_ENTRIES))
      else case decode_entry previous b of
             Inl e \<Rightarrow> Inl e
           | Inr (e, r) \<Rightarrow> decode_entries_loop (entries @ [e]) (Some (e_tag e)) r)"
  by pat_completeness auto
termination
  by (relation "measure (\<lambda>(_, _, b). length b)") (auto dest: decode_entry_shrinks)

declare decode_entries_loop.simps [simp del]

definition Extensions_decode_entries :: "bytes \<Rightarrow> error + Extensions" where
  "Extensions_decode_entries input = decode_entries_loop [] None input"

definition Extensions_decode :: "bytes \<Rightarrow> error + Extensions" where
  "Extensions_decode input =
     rrun (rbind dec_len_bytes_u32 (\<lambda>entries.
           rbind dec_finish (\<lambda>_. rlift (Extensions_decode_entries entries)))) input"

text \<open>\<^verbatim>\<open>Decoder::extensions\<close>.\<close>

definition dec_extensions :: "Extensions reader" where
  "dec_extensions = rbind dec_len_bytes_u32 (\<lambda>entries. rlift (Extensions_decode_entries entries))"

definition limit_u32 :: "u64 \<Rightarrow> u32 \<Rightarrow> Extension" where
  "limit_u32 tag v = \<lparr>e_tag = ucast tag, e_required = False, e_value = le_bytes 4 v\<rparr>"

definition limit_u64 :: "u64 \<Rightarrow> u64 \<Rightarrow> Extension" where
  "limit_u64 tag v = \<lparr>e_tag = ucast tag, e_required = False, e_value = le_bytes 8 v\<rparr>"

text \<open>\<^verbatim>\<open>extensions.0.iter().find(|e| e.tag == tag)\<close>.\<close>

definition find_extension :: "u16 \<Rightarrow> Extensions \<Rightarrow> Extension option" where
  "find_extension tag es = find (\<lambda>e. e_tag e = tag) es"

definition read_limit_u32 :: "Extensions \<Rightarrow> u64 \<Rightarrow> error + u32" where
  "read_limit_u32 es tag =
     (case find_extension (ucast tag) es of
        None \<Rightarrow> Inl (Invalid ''missing family limit'')
      | Some e \<Rightarrow> if length (e_value e) = 4 then Inr (from_le (e_value e))
                  else Inl (Invalid ''family limit length''))"

definition read_limit_u64 :: "Extensions \<Rightarrow> u64 \<Rightarrow> error + u64" where
  "read_limit_u64 es tag =
     (case find_extension (ucast tag) es of
        None \<Rightarrow> Inl (Invalid ''missing family limit'')
      | Some e \<Rightarrow> if length (e_value e) = 8 then Inr (from_le (e_value e))
                  else Inl (Invalid ''family limit length''))"

definition reject_unknown_required_extensions ::
  "Extensions \<Rightarrow> u16 list \<Rightarrow> string \<Rightarrow> error + unit" where
  "reject_unknown_required_extensions es known ctxt =
     ebind (Extensions_validate es) (\<lambda>_.
       if list_ex (\<lambda>e. e_required e \<and> e_tag e \<notin> set known) es then Inl (Invalid ctxt)
       else Inr ())"

section \<open>Reads and writes are inverse\<close>

lemma dec_take_iff [rd_iff]: "dec_take n b = Inr (x, r) \<longleftrightarrow> length x = n \<and> b = x @ r"
  by (auto simp: dec_take_def split: if_splits)

lemma dec_rest_iff [rd_iff]: "dec_rest b = Inr (x, r) \<longleftrightarrow> b = x \<and> r = []"
  by (auto simp: dec_rest_def)

lemma dec_remaining_iff [rd_iff]: "dec_remaining b = Inr (n, r) \<longleftrightarrow> n = length b \<and> r = b"
  by (auto simp: dec_remaining_def)

lemma dec_finish_iff [rd_iff]: "dec_finish b = Inr (u, r) \<longleftrightarrow> b = [] \<and> r = []"
  by (auto simp: dec_finish_def)

lemma le_field_iff:
  fixes x :: "'a::len word"
  assumes "LENGTH('a) = 8 * n"
  shows "rbind (dec_take n) (\<lambda>y. rret (from_le y)) b = Inr (x, r) \<longleftrightarrow> b = le_bytes n x @ r"
    (is "?lhs \<longleftrightarrow> ?rhs")
proof
  assume ?lhs
  then obtain y where y: "length y = n" "x = from_le y" "b = y @ r"
    by (auto simp: rd_iff)
  then show ?rhs using le_bytes_from_le [of y, where 'a = 'a] assms by simp
next
  assume ?rhs
  moreover have "from_le (le_bytes n x) = x"
    by (simp add: from_le_le_bytes assms [symmetric] take_bit_length_eq)
  ultimately show ?lhs by (auto simp: rd_iff)
qed

lemma dec_u8_iff [rd_iff]: "dec_u8 b = Inr (x, r) \<longleftrightarrow> b = put_u8 x @ r"
  by (auto simp: dec_u8_def put_u8_def rd_iff length_Suc_conv)

lemma dec_u16_iff [rd_iff]: "dec_u16 b = Inr (x, r) \<longleftrightarrow> b = put_u16 x @ r"
  unfolding dec_u16_def put_u16_def by (rule le_field_iff) simp

lemma dec_u32_iff [rd_iff]: "dec_u32 b = Inr (x, r) \<longleftrightarrow> b = put_u32 x @ r"
  unfolding dec_u32_def put_u32_def by (rule le_field_iff) simp

lemma dec_u64_iff [rd_iff]: "dec_u64 b = Inr (x, r) \<longleftrightarrow> b = put_u64 x @ r"
  unfolding dec_u64_def put_u64_def by (rule le_field_iff) simp

definition fits_i :: "nat \<Rightarrow> int \<Rightarrow> bool" where
  "fits_i n x \<longleftrightarrow> - (2 ^ (n - 1)) \<le> x \<and> x < 2 ^ (n - 1)"

lemma signed_field_iff:
  assumes "LENGTH('a::len) = 8 * n"
  shows "rbind (dec_take n) (\<lambda>y. rret (sint (from_le y :: 'a word))) b = Inr (x, r) \<longleftrightarrow>
    fits_i (8 * n) x \<and> b = le_bytes n (of_int x :: 'a word) @ r"
proof -
  have "rbind (dec_take n) (\<lambda>y. rret (sint (from_le y :: 'a word))) b = Inr (x, r) \<longleftrightarrow>
      (\<exists>w :: 'a word. rbind (dec_take n) (\<lambda>y. rret (from_le y)) b = Inr (w, r) \<and> x = sint w)"
    by (auto simp: rd_iff)
  also have "\<dots> \<longleftrightarrow> (\<exists>w :: 'a word. b = le_bytes n w @ r \<and> x = sint w)"
    by (simp only: le_field_iff [OF assms])
  also have "\<dots> \<longleftrightarrow> fits_i (8 * n) x \<and> b = le_bytes n (of_int x :: 'a word) @ r"
  proof -
    have "fits_i (8 * n) (sint w)" for w :: "'a word"
      using sint_greater_eq [of w] sint_less [of w] by (simp add: fits_i_def assms)
    moreover have "sint (of_int x :: 'a word) = x" if "fits_i (8 * n) x"
      using that by (simp add: sint_sbintrunc' signed_take_bit_int_eq_self fits_i_def assms)
    ultimately show ?thesis by (auto intro!: exI [of _ "of_int x"])
  qed
  finally show ?thesis .
qed

lemma dec_i16_iff [rd_iff]: "dec_i16 b = Inr (x, r) \<longleftrightarrow> fits_i 16 x \<and> b = put_i16 x @ r"
  unfolding dec_i16_def put_i16_def using signed_field_iff [where 'a = 16 and n = 2] by simp

lemma dec_i32_iff [rd_iff]: "dec_i32 b = Inr (x, r) \<longleftrightarrow> fits_i 32 x \<and> b = put_i32 x @ r"
  unfolding dec_i32_def put_i32_def using signed_field_iff [where 'a = 32 and n = 4] by simp

lemma dec_i64_iff [rd_iff]: "dec_i64 b = Inr (x, r) \<longleftrightarrow> fits_i 64 x \<and> b = put_i64 x @ r"
  unfolding dec_i64_def put_i64_def using signed_field_iff [where 'a = 64 and n = 8] by simp

lemma put_len_iff [enc_iff]:
  "put_len_u16 n = Inr b \<longleftrightarrow> n < 2 ^ 16 \<and> b = put_u16 (of_nat n)"
  "put_len_u32 n = Inr b \<longleftrightarrow> n < 2 ^ 32 \<and> b = put_u32 (of_nat n)"
  by (auto simp: put_len_u16_def put_len_u32_def)

lemma put_bytes_iff [enc_iff]:
  "put_bytes_u16 x = Inr b \<longleftrightarrow> length x < 2 ^ 16 \<and> b = put_u16 (of_nat (length x)) @ x"
  "put_bytes_u32 x = Inr b \<longleftrightarrow> length x < 2 ^ 32 \<and> b = put_u32 (of_nat (length x)) @ x"
  by (auto simp: put_bytes_u16_def put_bytes_u32_def enc_iff)

lemma put_string_iff [enc_iff]:
  "put_string_u16 x = Inr b \<longleftrightarrow> length x < 2 ^ 16 \<and> b = put_u16 (of_nat (length x)) @ x"
  "put_string_u32 x = Inr b \<longleftrightarrow> length x < 2 ^ 32 \<and> b = put_u32 (of_nat (length x)) @ x"
  by (auto simp: put_string_u16_def put_string_u32_def enc_iff)

lemma word_eq_of_nat_iff:
  "w = of_nat n \<and> n < 2 ^ LENGTH('a) \<longleftrightarrow> n = unat w" for w :: "'a::len word"
  using unsigned_less [of w, where 'a = nat] by (auto simp: unat_of_nat)

lemma dec_len_bytes_u16_iff [rd_iff]:
  "dec_len_bytes_u16 b = Inr (x, r) \<longleftrightarrow>
     length x < 2 ^ 16 \<and> b = put_u16 (of_nat (length x)) @ x @ r"
  using word_eq_of_nat_iff [where 'a = 16 and n = "length x"]
  by (auto simp: dec_len_bytes_u16_def rd_iff)

lemma dec_len_bytes_u32_iff [rd_iff]:
  "dec_len_bytes_u32 b = Inr (x, r) \<longleftrightarrow>
     length x < 2 ^ 32 \<and> b = put_u32 (of_nat (length x)) @ x @ r"
  using word_eq_of_nat_iff [where 'a = 32 and n = "length x"]
  by (auto simp: dec_len_bytes_u32_def rd_iff)

lemma dec_string_u16_iff [rd_iff]:
  "dec_string_u16 b = Inr (x, r) \<longleftrightarrow>
     utf8_valid x \<and> length x < 2 ^ 16 \<and> b = put_u16 (of_nat (length x)) @ x @ r"
  by (auto simp: dec_string_u16_def rd_iff)

lemma dec_string_u32_iff [rd_iff]:
  "dec_string_u32 b = Inr (x, r) \<longleftrightarrow>
     utf8_valid x \<and> length x < 2 ^ 32 \<and> b = put_u32 (of_nat (length x)) @ x @ r"
  by (auto simp: dec_string_u32_def rd_iff)

lemma length_put [simp]:
  "length (put_u8 a) = 1" "length (put_u16 c) = 2" "length (put_u32 d) = 4" "length (put_u64 f) = 8"
  by (simp_all add: put_u8_def put_u16_def put_u32_def put_u64_def)

lemma put_append_inject [simp]:
  "put_u8 a @ r = put_u8 b @ s \<longleftrightarrow> a = b \<and> r = s"
  "put_u16 c @ r = put_u16 d @ s \<longleftrightarrow> c = d \<and> r = s"
  "put_u32 e @ r = put_u32 f @ s \<longleftrightarrow> e = f \<and> r = s"
  "put_u64 g @ r = put_u64 h @ s \<longleftrightarrow> g = h \<and> r = s"
proof -
  show "put_u8 a @ r = put_u8 b @ s \<longleftrightarrow> a = b \<and> r = s"
    using dec_u8_iff [of "put_u8 a @ r"] by (metis Pair_inject old.sum.inject(2))
  show "put_u16 c @ r = put_u16 d @ s \<longleftrightarrow> c = d \<and> r = s"
    using dec_u16_iff [of "put_u16 c @ r"] by (metis Pair_inject old.sum.inject(2))
  show "put_u32 e @ r = put_u32 f @ s \<longleftrightarrow> e = f \<and> r = s"
    using dec_u32_iff [of "put_u32 e @ r"] by (metis Pair_inject old.sum.inject(2))
  show "put_u64 g @ r = put_u64 h @ s \<longleftrightarrow> g = h \<and> r = s"
    using dec_u64_iff [of "put_u64 g @ r"] by (metis Pair_inject old.sum.inject(2))
qed

lemma put_inject [simp]:
  "put_u8 a = put_u8 b \<longleftrightarrow> a = b"
  "put_u16 c = put_u16 d \<longleftrightarrow> c = d"
  "put_u32 e = put_u32 f \<longleftrightarrow> e = f"
  "put_u64 g = put_u64 h \<longleftrightarrow> g = h"
  using put_append_inject [where r = "[]" and s = "[]"] by simp_all

section \<open>Extension lists are canonical\<close>

lemma word_flag_cases:
  fixes w :: "'w::len word"
  shows "w AND NOT 1 = 0 \<longleftrightarrow> w = of_bool (w AND 1 \<noteq> 0)"
proof -
  have "w = (w AND NOT 1) OR (w AND 1)"
    by (simp add: bit.conj_disj_distrib [symmetric] or.commute)
  moreover have "w AND 1 = of_bool (w AND 1 \<noteq> 0)"
    by (simp add: and_one_eq)
  moreover have "of_bool P AND NOT 1 = (0 :: 'w word)" for P
    by simp
  ultimately show ?thesis
    by (metis or.left_neutral)
qed

lemma word_flag_iff: "w AND NOT 1 = 0 \<longleftrightarrow> w = 0 \<or> w = 1" for w :: "'w::len word"
  using word_flag_cases [of w] by (cases "w AND 1 = 0") auto

lemma word_flag_iff' [rd_iff]: "w AND - 2 = 0 \<longleftrightarrow> w = 0 \<or> w = 1" for w :: "'w::len word"
  using word_flag_iff [of w] by simp

lemma word8_two_flags: "(w :: u8) AND NOT (1 OR 2) = 0 \<longleftrightarrow> w = 0 \<or> w = 1 \<or> w = 2 \<or> w = 3"
  (is "?lhs \<longleftrightarrow> ?rhs")
proof
  assume ?lhs
  have "unat w = unat ((w AND NOT 3) OR (w AND 3))"
    by (simp add: bit.conj_disj_distrib [symmetric] or.commute)
  also from \<open>?lhs\<close> have "\<dots> = unat (w AND 3)" by simp
  also have "\<dots> \<le> unat (3 :: u8)"
    by (rule word_and_le1 [THEN word_le_nat_alt [THEN iffD1]])
  finally have "unat w \<le> 3" by simp
  then show ?rhs by (auto simp: word_unat_eq_iff)
next
  assume ?rhs
  then show ?lhs by auto
qed

lemma word8_two_flags' [rd_iff]: "(w :: u8) AND - 4 = 0 \<longleftrightarrow> w = 0 \<or> w = 1 \<or> w = 2 \<or> w = 3"
  using word8_two_flags [of w] by simp

definition after_tag :: "u16 option \<Rightarrow> Extension \<Rightarrow> bool" where
  "after_tag previous e \<longleftrightarrow> (case previous of None \<Rightarrow> True | Some tag \<Rightarrow> tag < e_tag e)"

lemma Extension_encode_iff [enc_iff]:
  "Extension_encode e = Inr q \<longleftrightarrow>
     length (e_value e) < 2 ^ 32 \<and>
     q = put_u16 (e_tag e) @ put_u16 (of_bool (e_required e))
           @ put_u32 (of_nat (length (e_value e))) @ e_value e"
  by (auto simp: Extension_encode_def enc_iff)

lemma decode_entry_iff:
  "decode_entry previous b = Inr (e, r) \<longleftrightarrow>
     after_tag previous e \<and> (\<exists>q. Extension_encode e = Inr q \<and> b = q @ r)"
proof (cases e)
  case (fields tag required v)
  have flag: "flags AND NOT 1 = 0 \<and> required = (flags AND 1 \<noteq> 0) \<longleftrightarrow> flags = of_bool required"
    for flags :: u16
    using word_flag_cases [of flags] by auto
  have "decode_entry previous b = Inr (e, r) \<longleftrightarrow>
      after_tag previous e \<and> (\<exists>flags. (flags AND NOT 1 = 0 \<and> required = (flags AND 1 \<noteq> 0))
         \<and> length v < 2 ^ 32
         \<and> b = put_u16 tag @ put_u16 flags @ put_u32 (of_nat (length v)) @ v @ r)"
    by (cases previous) (auto simp: decode_entry_def rd_iff after_tag_def fields not_le)
  then show ?thesis
    by (simp only: flag Extension_encode_iff) (auto simp: fields)
qed

lemma tags_increase_iff:
  "tags_increase previous (e # es) = Inr () \<longleftrightarrow>
     after_tag previous e \<and> tags_increase (Some (e_tag e)) es = Inr ()"
  by (auto simp: after_tag_def split: option.splits)

lemma encode_all_Cons_iff:
  "encode_all f (x # xs) = Inr b \<longleftrightarrow>
     (\<exists>p q. f x = Inr p \<and> encode_all f xs = Inr q \<and> b = p @ q)"
  by (auto simp: enc_iff)

lemma Extension_encode_nonempty: "Extension_encode e = Inr q \<Longrightarrow> q \<noteq> []"
  by (auto simp: enc_iff dest: arg_cong [of _ "[]" length])

lemma encode_all_Extension_Nil:
  "encode_all Extension_encode ys = Inr [] \<longleftrightarrow> ys = []"
  by (cases ys) (auto simp: encode_all_Cons_iff simp del: encode_all.simps(2)
      dest: Extension_encode_nonempty)

lemma decode_entries_loop_iff:
  assumes "length entries \<le> HARD_MAX_EXTENSION_ENTRIES"
  shows "decode_entries_loop entries previous b = Inr es \<longleftrightarrow>
     (\<exists>ys. es = entries @ ys \<and> length es \<le> HARD_MAX_EXTENSION_ENTRIES
        \<and> tags_increase previous ys = Inr () \<and> encode_all Extension_encode ys = Inr b)"
  using assms
proof (induction entries previous b rule: decode_entries_loop.induct)
  case (1 entries previous b)
  show ?case
  proof (cases "b = []")
    case True
    with "1.prems" show ?thesis
      by (auto simp: decode_entries_loop.simps [of entries previous "[]"] encode_all_Extension_Nil)
  next
    case nonempty: False
    show ?thesis
    proof (cases "length entries = HARD_MAX_EXTENSION_ENTRIES")
      case True
      with nonempty show ?thesis
        by (auto simp: decode_entries_loop.simps [of entries previous b])
    next
      case room: False
      have step: "decode_entries_loop entries previous b = Inr es \<longleftrightarrow>
          (\<exists>e r. decode_entry previous b = Inr (e, r)
             \<and> decode_entries_loop (entries @ [e]) (Some (e_tag e)) r = Inr es)"
        using nonempty room
        by (auto simp: decode_entries_loop.simps [of entries previous b] split: sum.splits)
      have IH: "decode_entries_loop (entries @ [e]) (Some (e_tag e)) r = Inr es \<longleftrightarrow>
          (\<exists>ys. es = (entries @ [e]) @ ys \<and> length es \<le> HARD_MAX_EXTENSION_ENTRIES
             \<and> tags_increase (Some (e_tag e)) ys = Inr () \<and> encode_all Extension_encode ys = Inr r)"
        if "decode_entry previous b = Inr (e, r)" for e r
        using "1.IH" [OF nonempty room that refl] "1.prems" room by simp
      have "decode_entries_loop entries previous b = Inr es \<longleftrightarrow>
          (\<exists>e ys. es = entries @ e # ys \<and> length es \<le> HARD_MAX_EXTENSION_ENTRIES
             \<and> tags_increase previous (e # ys) = Inr ()
             \<and> encode_all Extension_encode (e # ys) = Inr b)"
        unfolding step tags_increase_iff encode_all_Cons_iff
        using IH by (fastforce simp: decode_entry_iff)
      then show ?thesis
        using nonempty by (metis encode_all.simps(1) list.exhaust old.sum.inject(2))
    qed
  qed
qed

lemma Extensions_decode_entries_iff:
  "Extensions_decode_entries b = Inr es \<longleftrightarrow> Extensions_encode_entries es = Inr b"
  by (auto simp: Extensions_decode_entries_def decode_entries_loop_iff
      Extensions_encode_entries_def Extensions_validate_def enc_iff not_less)

lemma dec_extensions_iff [rd_iff]:
  "dec_extensions b = Inr (es, r) \<longleftrightarrow> (\<exists>t. Extensions_encode_tail es = Inr t \<and> b = t @ r)"
  by (auto simp: dec_extensions_def Extensions_encode_tail_def rd_iff enc_iff
      Extensions_decode_entries_iff)

lemma Extensions_decode_iff:
  "Extensions_decode b = Inr es \<longleftrightarrow> Extensions_encode_tail es = Inr b"
  by (auto simp: Extensions_decode_def Extensions_encode_tail_def rd_iff enc_iff
      Extensions_decode_entries_iff)

lemma Extensions_tail_valid: "Extensions_encode_tail es = Inr t \<Longrightarrow> Extensions_validate es = Inr ()"
  by (auto simp: Extensions_encode_tail_def Extensions_encode_entries_def enc_iff)

section \<open>The fields and items of the wire format\<close>

interpretation u8_field: wire_field "\<lambda>_. True" put_u8 dec_u8
  by unfold_locales (simp add: rd_iff)

interpretation u16_field: wire_field "\<lambda>_. True" put_u16 dec_u16
  by unfold_locales (simp add: rd_iff)

interpretation u32_field: wire_field "\<lambda>_. True" put_u32 dec_u32
  by unfold_locales (simp add: rd_iff)

interpretation u64_field: wire_field "\<lambda>_. True" put_u64 dec_u64
  by unfold_locales (simp add: rd_iff)

interpretation i16_field: wire_field "fits_i 16" put_i16 dec_i16
  by unfold_locales (simp add: rd_iff)

interpretation i32_field: wire_field "fits_i 32" put_i32 dec_i32
  by unfold_locales (simp add: rd_iff)

interpretation i64_field: wire_field "fits_i 64" put_i64 dec_i64
  by unfold_locales (simp add: rd_iff)

interpretation array_16_field: wire_field "\<lambda>x. length x = 16" "\<lambda>x. x" dec_array_16
  by unfold_locales (simp add: dec_array_16_def rd_iff)

interpretation array_32_field: wire_field "\<lambda>x. length x = 32" "\<lambda>x. x" dec_array_32
  by unfold_locales (simp add: dec_array_32_def rd_iff)

interpretation bytes_u16_item: wire_item "\<lambda>_. True" put_bytes_u16 dec_len_bytes_u16
  by unfold_locales (auto simp: rd_iff enc_iff)

interpretation bytes_u32_item: wire_item "\<lambda>_. True" put_bytes_u32 dec_len_bytes_u32
  by unfold_locales (auto simp: rd_iff enc_iff)

interpretation string_u16_item: wire_item utf8_valid put_string_u16 dec_string_u16
  by unfold_locales (auto simp: rd_iff enc_iff)

interpretation string_u32_item: wire_item utf8_valid put_string_u32 dec_string_u32
  by unfold_locales (auto simp: rd_iff enc_iff)

interpretation extensions_item: wire_item "\<lambda>_. True" Extensions_encode_tail dec_extensions
  by unfold_locales (auto simp: rd_iff)

lemma stable_dec_take [rd_stable]: "stable (dec_take n)"
  by (auto simp: stable_def dec_take_iff)

lemmas stable_fields [rd_stable] =
  u8_field.get_stable u16_field.get_stable u32_field.get_stable u64_field.get_stable
  i16_field.get_stable i32_field.get_stable i64_field.get_stable
  array_16_field.get_stable array_32_field.get_stable
  bytes_u16_item.get_stable bytes_u32_item.get_stable
  string_u16_item.get_stable string_u32_item.get_stable extensions_item.get_stable

text \<open>
  A payload decoder has the shape "read a body, check that nothing is left, then validate": bytes
  after an accepted payload are rejected when the body is stable.
\<close>

lemma framed_trailing:
  assumes dec: "dec = rrun (rbind body (\<lambda>v. rbind dec_finish (\<lambda>_. rlift (post v))))"
    and "stable body" and "dec b = Inr v" and "t \<noteq> []"
  shows "dec (b @ t) = Inl (TrailingBytes (length t))"
proof -
  from assms(3) obtain a where "body b = Inr (a, [])"
    by (auto simp: dec rd_iff)
  with assms(2) have "body (b @ t) = Inr (a, t)"
    using stableD by fastforce
  with assms(4) show ?thesis
    by (simp add: dec dec_finish_def)
qed

lemma framed_not_ok:
  assumes "dec = rrun (rbind body (\<lambda>v. rbind dec_finish (\<lambda>_. rlift (post v))))"
    and "stable body" and "dec b = Inr v" and "t \<noteq> []"
  shows "\<not> is_ok (dec (b @ t))"
  using framed_trailing [OF assms] by simp

interpretation Extensions_codec: self_delimiting_codec
  "\<lambda>_. True" Extensions_encode_tail Extensions_decode
proof unfold_locales
  show "Extensions_decode b = Inr v \<longleftrightarrow> True \<and> Extensions_encode_tail v = Inr b" for b v
    by (simp add: Extensions_decode_iff)
  show "\<not> is_ok (Extensions_decode (b @ t))"
    if "Extensions_decode b = Inr v" and "t \<noteq> []" for b v t
    using that
    by (intro framed_not_ok [where body = dec_len_bytes_u32 and post = Extensions_decode_entries])
      (auto simp: Extensions_decode_def fun_eq_iff intro: rd_stable)
qed

section \<open>The decoder struct implements the readers\<close>

definition Decoder_ok :: "Decoder \<Rightarrow> bool" where
  "Decoder_ok d \<longleftrightarrow> d_offset d \<le> length (d_input d) \<and> length (d_input d) < 2 ^ 63"

definition Decoder_bytes :: "Decoder \<Rightarrow> bytes" where
  "Decoder_bytes d = drop (d_offset d) (d_input d)"

text \<open>
  \<open>implements D m\<close>: on every cursor over a slice Rust can allocate (at most \<open>isize::MAX\<close>
  bytes), \<open>D\<close> and \<open>m\<close> fail alike or return the same value and leave the same bytes.
\<close>

definition implements :: "(Decoder \<Rightarrow> error + 'a \<times> Decoder) \<Rightarrow> 'a reader \<Rightarrow> bool" where
  "implements D m \<longleftrightarrow>
     (\<forall>d. Decoder_ok d \<longrightarrow>
        (case D d of
           Inl e \<Rightarrow> m (Decoder_bytes d) = Inl e
         | Inr (x, d') \<Rightarrow> Decoder_ok d' \<and> m (Decoder_bytes d) = Inr (x, Decoder_bytes d')))"

lemma implements_rbind:
  assumes "implements D m" and "\<And>a. implements (F a) (f a)"
  shows "implements (rbind D F) (rbind m f)"
  unfolding implements_def
proof (intro allI impI)
  fix d assume d: "Decoder_ok d"
  show "case rbind D F d of
      Inl e \<Rightarrow> rbind m f (Decoder_bytes d) = Inl e
    | Inr (x, d') \<Rightarrow> Decoder_ok d' \<and> rbind m f (Decoder_bytes d) = Inr (x, Decoder_bytes d')"
  proof (cases "D d")
    case (Inl e)
    with assms(1) d have "m (Decoder_bytes d) = Inl e"
      by (auto simp: implements_def)
    with Inl show ?thesis by simp
  next
    case (Inr p)
    obtain a d1 where p: "p = (a, d1)" by (cases p)
    with assms(1) d Inr have "Decoder_ok d1" and m: "m (Decoder_bytes d) = Inr (a, Decoder_bytes d1)"
      by (auto simp: implements_def)
    with assms(2) [of a] have "case F a d1 of
        Inl e \<Rightarrow> f a (Decoder_bytes d1) = Inl e
      | Inr (x, d') \<Rightarrow> Decoder_ok d' \<and> f a (Decoder_bytes d1) = Inr (x, Decoder_bytes d')"
      by (simp add: implements_def)
    with Inr p m show ?thesis by (auto split: sum.splits)
  qed
qed

lemma implements_rret: "implements (rret a) (rret a)"
  by (simp add: implements_def rret_def)

lemma implements_rfail: "implements (rfail e) (rfail e)"
  by (simp add: implements_def rfail_def)

lemma implements_rlift: "implements (rlift v) (rlift v)"
  by (cases v) (simp_all add: implements_def rlift_def)

lemma implements_if: "implements D m \<Longrightarrow> implements E n \<Longrightarrow>
    implements (if c then D else E) (if c then m else n)"
  by simp

lemma Decoder_take_implements: "len < 2 ^ 63 \<Longrightarrow> implements (Decoder_take len) (dec_take len)"
  by (auto simp: implements_def Decoder_take_def dec_take_def Decoder_ok_def Decoder_bytes_def
      add.commute not_less)

lemma Decoder_rest_implements: "implements Decoder_rest dec_rest"
  by (simp add: implements_def Decoder_rest_def dec_rest_def Decoder_ok_def Decoder_bytes_def)

lemma Decoder_finish_implements: "implements Decoder_finish dec_finish"
  by (auto simp: implements_def Decoder_finish_def dec_finish_def Decoder_ok_def Decoder_bytes_def
      Decoder_remaining_def)

text \<open>The typed reads of the struct, as its methods compose them from \<^verbatim>\<open>take\<close>.\<close>

definition Decoder_u16 :: "Decoder \<Rightarrow> error + u16 \<times> Decoder" where
  "Decoder_u16 = rbind (Decoder_take 2) (\<lambda>x. rret (from_le x))"

definition Decoder_u32 :: "Decoder \<Rightarrow> error + u32 \<times> Decoder" where
  "Decoder_u32 = rbind (Decoder_take 4) (\<lambda>x. rret (from_le x))"

definition Decoder_len_bytes_u32 :: "Decoder \<Rightarrow> error + bytes \<times> Decoder" where
  "Decoder_len_bytes_u32 = rbind Decoder_u32 (\<lambda>len. Decoder_take (unat len))"

definition Decoder_extensions :: "Decoder \<Rightarrow> error + Extensions \<times> Decoder" where
  "Decoder_extensions =
     rbind Decoder_len_bytes_u32 (\<lambda>entries. rlift (Extensions_decode_entries entries))"

lemma unat_u32_less: "unat (x :: u32) < 2 ^ 63"
  using unsigned_less [of x, where 'a = nat] by simp

lemma Decoder_extensions_implements: "implements Decoder_extensions dec_extensions"
  unfolding Decoder_extensions_def dec_extensions_def Decoder_len_bytes_u32_def
    dec_len_bytes_u32_def Decoder_u32_def dec_u32_def
  by (intro implements_rbind Decoder_take_implements implements_rret implements_rlift unat_u32_less)
    simp

section \<open>Properties\<close>

lemma tags_increase_sorted:
  "tags_increase previous es = Inr () \<longleftrightarrow>
     (\<forall>e\<in>set es. after_tag previous e) \<and> sorted_wrt (\<lambda>x y. e_tag x < e_tag y) es"
proof (induction es arbitrary: previous)
  case Nil
  then show ?case by simp
next
  case (Cons e es)
  have "after_tag previous x" if "after_tag previous e" and "after_tag (Some (e_tag e)) x" for x
    using that by (auto simp: after_tag_def split: option.splits)
  then show ?case
    unfolding tags_increase_iff Cons by (auto simp: after_tag_def)
qed

lemma Extensions_validate_iff:
  "Extensions_validate es = Inr () \<longleftrightarrow>
     length es \<le> HARD_MAX_EXTENSION_ENTRIES \<and> sorted_wrt (\<lambda>x y. e_tag x < e_tag y) es"
  by (auto simp: Extensions_validate_def tags_increase_sorted after_tag_def enc_iff)

lemma Extensions_decode_valid:
  "Extensions_decode b = Inr es \<Longrightarrow> Extensions_validate es = Inr ()"
  by (simp add: Extensions_decode_iff Extensions_tail_valid)

text \<open>
  An extension list has one encoding. \<open>Extensions_decode\<close> accepts a byte string exactly when it
  is what \<open>Extensions_encode_tail\<close> writes for the list it returns.
\<close>

theorem Extensions_canonical:
  "Extensions_decode b = Inr es \<longleftrightarrow> Extensions_encode_tail es = Inr b"
  using Extensions_codec.dec_iff by simp

text \<open>
  An accepted extension list has at most 4096 entries with strictly increasing tags, and no
  proper prefix of its encoding is accepted.
\<close>

theorem Extensions_accepted:
  assumes "Extensions_decode b = Inr es"
  shows "length es \<le> 4096 \<and> sorted_wrt (\<lambda>x y. e_tag x < e_tag y) es
    \<and> (\<forall>n. n < length b \<longrightarrow> \<not> is_ok (Extensions_decode (take n b)))"
  using Extensions_decode_valid [OF assms] Extensions_codec.truncation [OF assms]
  by (simp add: Extensions_validate_iff HARD_MAX_EXTENSION_ENTRIES_def)

definition ext_sample :: Extensions where
  "ext_sample = [\<lparr>e_tag = 1, e_required = False, e_value = [7]\<rparr>,
                 \<lparr>e_tag = 9, e_required = True, e_value = []\<rparr>]"

lemma ext_sample_encode:
  "Extensions_encode_tail ext_sample = Inr
     (put_u32 17 @ put_u16 1 @ put_u16 0 @ put_u32 1 @ [7] @ put_u16 9 @ put_u16 1 @ put_u32 0)"
  by (simp add: ext_sample_def Extensions_encode_tail_def Extensions_encode_entries_def
      Extensions_validate_def HARD_MAX_EXTENSION_ENTRIES_def Extension_encode_def put_len_u32_def word_le_nat_alt)

theorem Extensions_accepted_witness:
  "length ext_sample \<le> 4096 \<and> sorted_wrt (\<lambda>x y. e_tag x < e_tag y) ext_sample
    \<and> \<not> is_ok (Extensions_decode (take 13
        (put_u32 17 @ put_u16 1 @ put_u16 0 @ put_u32 1 @ [7] @ put_u16 9 @ put_u16 1 @ put_u32 0)))"
proof -
  note accepted = Extensions_accepted [OF Extensions_decode_iff [THEN iffD2], OF ext_sample_encode]
  from accepted [THEN conjunct2, THEN conjunct2, THEN spec, of 13]
  have "\<not> is_ok (Extensions_decode (take 13
      (put_u32 17 @ put_u16 1 @ put_u16 0 @ put_u32 1 @ [7] @ put_u16 9 @ put_u16 1 @ put_u32 0)))"
    by (rule mp) simp
  with accepted show ?thesis by blast
qed

text \<open>
  The cursor struct reads an extension list as the pure reader does. On every slice that Rust can
  allocate both fail with the same error, or return the same list and leave the same bytes.
\<close>

theorem Decoder_extensions_refines: "implements Decoder_extensions dec_extensions"
  by (rule Decoder_extensions_implements)

end
