(* ===== verification/Wire_State.thy ===== *)
theory Wire_State
  imports Wire_Codec
begin

text \<open>
  The catalogue-subscription payloads every family shares (\<^verbatim>\<open>crates/yas/src/state.rs\<close>): WATCH and
  its result, UNWATCH, the STATE event with its phases and typed records, and the
  acknowledgement that returns byte credit. Proved: the fixed payloads are canonical and
  self-delimiting; a STATE event round-trips; an accepted event satisfies the phase and revision
  rules; unknown optional records are skipped and unknown required ones refused, wherever they
  stand among the known ones.
\<close>

section \<open>WATCH\<close>

definition WATCH_RESUME :: u16 where "WATCH_RESUME = 1"

record Cursor =
  cu_boot_id :: bytes
  cu_revision :: u64

record Watch =
  w_initial_credit :: u64
  w_resume :: "Cursor option"
  w_extensions :: Extensions

definition Watch_ok :: "Watch \<Rightarrow> bool" where
  "Watch_ok w \<longleftrightarrow> (\<forall>c. w_resume w = Some c \<longrightarrow> length (cu_boot_id c) = 16)"

definition Watch_encode :: "Watch \<Rightarrow> error + bytes" where
  "Watch_encode w =
     ebind (case w_resume w of
              None \<Rightarrow> Inr []
            | Some c \<Rightarrow> if cu_revision c = 0 then Inl (Invalid ''zero state revision'')
                        else Inr (cu_boot_id c @ put_u64 (cu_revision c))) (\<lambda>cursor.
     ebind (Extensions_encode_tail (w_extensions w)) (\<lambda>tail.
       Inr (put_u16 (if w_resume w \<noteq> None then WATCH_RESUME else 0) @ put_u16 0
            @ put_u64 (w_initial_credit w) @ cursor @ tail)))"

definition Watch_body :: "Watch reader" where
  "Watch_body =
     rbind dec_u16 (\<lambda>flags.
     if flags AND NOT WATCH_RESUME \<noteq> 0 then rfail (Invalid ''WATCH flags or reserved field'')
     else rbind dec_u16 (\<lambda>reserved.
     if reserved \<noteq> 0 then rfail (Invalid ''WATCH flags or reserved field'')
     else rbind dec_u64 (\<lambda>initial_credit.
     rbind (if flags AND WATCH_RESUME \<noteq> 0
            then rbind dec_array_16 (\<lambda>boot_id. rbind dec_u64 (\<lambda>revision.
                   if revision = 0 then rfail (Invalid ''zero state revision'')
                   else rret (Some \<lparr>cu_boot_id = boot_id, cu_revision = revision\<rparr>)))
            else rret None) (\<lambda>resume.
     rbind dec_extensions (\<lambda>extensions.
       rret \<lparr>w_initial_credit = initial_credit, w_resume = resume, w_extensions = extensions\<rparr>)))))"

definition Watch_decode :: "bytes \<Rightarrow> error + Watch" where
  "Watch_decode = rrun (rbind Watch_body (\<lambda>v. rbind dec_finish (\<lambda>_. rlift (Inr v))))"

datatype WatchMode = ModeSnapshot | ModeReplay

fun WatchMode_wire :: "WatchMode \<Rightarrow> u8" where
  "WatchMode_wire ModeSnapshot = 0"
| "WatchMode_wire ModeReplay = 1"

definition WatchMode_try_from :: "u8 \<Rightarrow> error + WatchMode" where
  "WatchMode_try_from v =
     (if v = 0 then Inr ModeSnapshot else if v = 1 then Inr ModeReplay
      else Inl (Invalid ''WATCH result mode''))"

record WatchResult =
  wr_subscription_id :: u32
  wr_mode :: WatchMode
  wr_current_revision :: u64
  wr_extensions :: Extensions

definition WatchResult_encode :: "WatchResult \<Rightarrow> error + bytes" where
  "WatchResult_encode w =
     (if wr_subscription_id w = 0 \<or> wr_current_revision w = 0
      then Inl (Invalid ''WATCH result identity or revision'')
      else ebind (Extensions_encode_tail (wr_extensions w)) (\<lambda>tail.
        Inr (put_u32 (wr_subscription_id w) @ put_u8 (WatchMode_wire (wr_mode w)) @ [0, 0, 0]
             @ put_u64 (wr_current_revision w) @ tail)))"

definition WatchResult_body :: "WatchResult reader" where
  "WatchResult_body =
     rbind dec_u32 (\<lambda>subscription_id.
     rbind dec_u8 (\<lambda>m. rbind (rlift (WatchMode_try_from m)) (\<lambda>mode.
     rbind (dec_take 3) (\<lambda>reserved.
     if reserved \<noteq> [0, 0, 0] then rfail (Invalid ''WATCH result reserved bytes'')
     else rbind dec_u64 (\<lambda>current_revision.
     rbind dec_extensions (\<lambda>extensions.
       rret \<lparr>wr_subscription_id = subscription_id, wr_mode = mode,
             wr_current_revision = current_revision, wr_extensions = extensions\<rparr>))))))"

definition WatchResult_decode :: "bytes \<Rightarrow> error + WatchResult" where
  "WatchResult_decode =
     rrun (rbind WatchResult_body (\<lambda>v. rbind dec_finish (\<lambda>_.
       rlift (ebind (WatchResult_encode v) (\<lambda>_. Inr v)))))"

text \<open>UNWATCH: its only field is the subscription.\<close>

definition Unwatch_encode :: "u32 \<Rightarrow> error + bytes" where
  "Unwatch_encode subscription_id =
     (if subscription_id = 0 then Inl (Invalid ''zero subscription ID'')
      else Inr (put_u32 subscription_id))"

definition Unwatch_decode :: "bytes \<Rightarrow> error + u32" where
  "Unwatch_decode =
     rrun (rbind dec_u32 (\<lambda>v. rbind dec_finish (\<lambda>_.
       rlift (if v = 0 then Inl (Invalid ''zero subscription ID'') else Inr v))))"

record StateAck =
  sa_subscription_id :: u32
  sa_applied_revision :: u64
  sa_cumulative_byte_limit :: u64

definition StateAck_encode :: "StateAck \<Rightarrow> error + bytes" where
  "StateAck_encode a =
     (if sa_subscription_id a = 0 then Inl (Invalid ''zero subscription ID'')
      else Inr (put_u32 (sa_subscription_id a) @ put_u64 (sa_applied_revision a)
                @ put_u64 (sa_cumulative_byte_limit a)))"

definition StateAck_body :: "StateAck reader" where
  "StateAck_body =
     rbind dec_u32 (\<lambda>s. rbind dec_u64 (\<lambda>r. rbind dec_u64 (\<lambda>c.
       rret \<lparr>sa_subscription_id = s, sa_applied_revision = r, sa_cumulative_byte_limit = c\<rparr>)))"

definition StateAck_decode :: "bytes \<Rightarrow> error + StateAck" where
  "StateAck_decode =
     rrun (rbind StateAck_body (\<lambda>v. rbind dec_finish (\<lambda>_.
       rlift (if sa_subscription_id v = 0 then Inl (Invalid ''zero subscription ID'') else Inr v))))"

section \<open>STATE events\<close>

datatype Phase = SnapshotBegin | SnapshotRecords | SnapshotEnd | Delta | Reset

fun Phase_wire :: "Phase \<Rightarrow> u8" where
  "Phase_wire SnapshotBegin = 0"
| "Phase_wire SnapshotRecords = 1"
| "Phase_wire SnapshotEnd = 2"
| "Phase_wire Delta = 3"
| "Phase_wire Reset = 4"

definition Phase_try_from :: "u8 \<Rightarrow> error + Phase" where
  "Phase_try_from v =
     (if v = 0 then Inr SnapshotBegin else if v = 1 then Inr SnapshotRecords
      else if v = 2 then Inr SnapshotEnd else if v = 3 then Inr Delta
      else if v = 4 then Inr Reset else Inl (Invalid ''STATE phase''))"

datatype RecordKind = Add | Replace | Patch | Remove | Family u16

definition RECORD_REMOVE :: u16 where "RECORD_REMOVE = 3"

fun RecordKind_wire :: "RecordKind \<Rightarrow> u16" where
  "RecordKind_wire Add = 0"
| "RecordKind_wire Replace = 1"
| "RecordKind_wire Patch = 2"
| "RecordKind_wire Remove = 3"
| "RecordKind_wire (Family kind) = kind"

definition RecordKind_family :: "u16 \<Rightarrow> error + RecordKind" where
  "RecordKind_family kind =
     (if kind \<le> RECORD_REMOVE then Inl (Invalid ''family state record kind'')
      else Inr (Family kind))"

definition RecordKind_known :: "u16 \<Rightarrow> u16 list \<Rightarrow> RecordKind option" where
  "RecordKind_known v family_kinds =
     (if v = 0 then Some Add else if v = 1 then Some Replace else if v = 2 then Some Patch
      else if v = 3 then Some Remove else if v \<in> set family_kinds then Some (Family v) else None)"

record Record =
  r_kind :: RecordKind
  r_required :: bool
  r_body :: bytes

definition Record_encode :: "Record \<Rightarrow> error + bytes" where
  "Record_encode r =
     (if (case r_kind r of Family kind \<Rightarrow> kind \<le> RECORD_REMOVE | _ \<Rightarrow> False)
      then Inl (Invalid ''family state record kind'')
      else ebind (put_len_u32 (4 + length (r_body r))) (\<lambda>len.
        Inr (len @ put_u16 (RecordKind_wire (r_kind r)) @ put_u16 (of_bool (r_required r))
             @ r_body r)))"

record StateEvent =
  se_subscription_id :: u32
  se_phase :: Phase
  se_flags :: u8
  se_from_revision :: u64
  se_to_revision :: u64
  se_records :: "Record list"

definition HARD_MAX_TYPED_RECORDS :: nat where "HARD_MAX_TYPED_RECORDS = 4096"

definition revision_transition_ok :: "Phase \<Rightarrow> u64 \<Rightarrow> u64 \<Rightarrow> bool" where
  "revision_transition_ok phase from to =
     (case phase of
        SnapshotBegin \<Rightarrow> from = 0
      | SnapshotRecords \<Rightarrow> from = to
      | SnapshotEnd \<Rightarrow> from = to
      | Delta \<Rightarrow> from \<noteq> 0 \<and> from < to
      | Reset \<Rightarrow> from \<noteq> 0 \<and> from < to)"

definition StateEvent_validate :: "StateEvent \<Rightarrow> error + unit" where
  "StateEvent_validate e =
     (if se_subscription_id e = 0 \<or> se_to_revision e = 0
      then Inl (Invalid ''STATE identity or revision'')
      else if \<not> revision_transition_ok (se_phase e) (se_from_revision e) (se_to_revision e)
      then Inl (Invalid ''STATE revision transition'')
      else if (se_phase e = SnapshotBegin \<or> se_phase e = Reset) \<and> se_records e \<noteq> []
      then Inl (Invalid ''records in marker STATE event'')
      else if HARD_MAX_TYPED_RECORDS < length (se_records e)
      then Inl (LimitExceeded ''typed records'' (of_nat (length (se_records e)))
                  (of_nat HARD_MAX_TYPED_RECORDS))
      else Inr ())"

definition StateEvent_encode :: "StateEvent \<Rightarrow> error + bytes" where
  "StateEvent_encode e =
     ebind (StateEvent_validate e) (\<lambda>_.
     ebind (put_len_u16 (length (se_records e))) (\<lambda>count.
     ebind (encode_all Record_encode (se_records e)) (\<lambda>records.
       Inr (put_u32 (se_subscription_id e) @ put_u8 (Phase_wire (se_phase e))
            @ put_u8 (se_flags e) @ put_u16 0 @ put_u64 (se_from_revision e)
            @ put_u64 (se_to_revision e) @ count @ records))))"

text \<open>The inside of one record: kind, flags, then the body to its end.\<close>

definition decode_record_inner :: "u16 list \<Rightarrow> Record option reader" where
  "decode_record_inner family_kinds =
     rbind dec_u16 (\<lambda>raw_kind. rbind dec_u16 (\<lambda>record_flags.
     if record_flags AND NOT 1 \<noteq> 0 then rfail (Invalid ''state record flags'')
     else (case RecordKind_known raw_kind family_kinds of
             Some kind \<Rightarrow> rbind dec_rest (\<lambda>body. rbind dec_finish (\<lambda>_.
               rret (Some \<lparr>r_kind = kind, r_required = (record_flags AND 1 \<noteq> 0), r_body = body\<rparr>)))
           | None \<Rightarrow> if record_flags AND 1 = 0
                     then rbind dec_rest (\<lambda>_. rbind dec_finish (\<lambda>_. rret None))
                     else rfail (Invalid ''unknown required state record''))))"

definition decode_record :: "u16 list \<Rightarrow> Record option reader" where
  "decode_record family_kinds =
     rbind dec_u32 (\<lambda>record_len.
     if unat record_len < 4 then rfail (Invalid ''state record length'')
     else rbind (dec_take (unat record_len)) (\<lambda>record.
       rlift (rrun (decode_record_inner family_kinds) record)))"

text \<open>The records loop: a skipped record adds nothing.\<close>

fun decode_records :: "u16 list \<Rightarrow> nat \<Rightarrow> Record list reader" where
  "decode_records family_kinds 0 = rret []"
| "decode_records family_kinds (Suc n) =
     rbind (decode_record family_kinds) (\<lambda>first.
     rbind (decode_records family_kinds n) (\<lambda>rest.
       rret (case first of None \<Rightarrow> rest | Some r \<Rightarrow> r # rest)))"

definition StateEvent_body :: "u8 \<Rightarrow> u16 list \<Rightarrow> StateEvent reader" where
  "StateEvent_body allowed_flags family_kinds =
     rbind dec_u32 (\<lambda>subscription_id.
     rbind dec_u8 (\<lambda>p. rbind (rlift (Phase_try_from p)) (\<lambda>phase.
     rbind dec_u8 (\<lambda>flags.
     if flags AND NOT allowed_flags \<noteq> 0 then rfail (Invalid ''family STATE flags'')
     else rbind dec_u16 (\<lambda>reserved.
     if reserved \<noteq> 0 then rfail (Invalid ''STATE reserved field'')
     else rbind dec_u64 (\<lambda>from_revision.
     rbind dec_u64 (\<lambda>to_revision.
     rbind dec_u16 (\<lambda>record_count.
     if HARD_MAX_TYPED_RECORDS < unat record_count
     then rfail (LimitExceeded ''typed records'' (ucast record_count)
                  (of_nat HARD_MAX_TYPED_RECORDS))
     else rbind (decode_records family_kinds (unat record_count)) (\<lambda>records.
       rret \<lparr>se_subscription_id = subscription_id, se_phase = phase, se_flags = flags,
             se_from_revision = from_revision, se_to_revision = to_revision,
             se_records = records\<rparr>)))))))))"

definition StateEvent_decode_with :: "u8 \<Rightarrow> u16 list \<Rightarrow> bytes \<Rightarrow> error + StateEvent" where
  "StateEvent_decode_with allowed_flags family_kinds =
     rrun (rbind (StateEvent_body allowed_flags family_kinds) (\<lambda>v. rbind dec_finish (\<lambda>_.
       rlift (ebind (StateEvent_validate v) (\<lambda>_. Inr v)))))"

definition StateEvent_decode :: "bytes \<Rightarrow> error + StateEvent" where
  "StateEvent_decode = StateEvent_decode_with 255 []"

section \<open>The fixed payloads\<close>

lemma word_flag_bit: "(1 :: u16) AND 1 \<noteq> 0" "(0 :: u16) AND 1 = 0"
  by simp_all

lemma Watch_decode_iff: "Watch_decode b = Inr w \<longleftrightarrow> Watch_ok w \<and> Watch_encode w = Inr b"
proof (cases w)
  case (fields credit resume exts)
  show ?thesis
  proof (cases resume)
    case None
    then show ?thesis
      by (auto simp: Watch_decode_def Watch_body_def Watch_encode_def Watch_ok_def WATCH_RESUME_def
          fields rd_iff enc_iff)
  next
    case (Some c)
    then show ?thesis
      by (cases c)
        (auto simp: Watch_decode_def Watch_body_def Watch_encode_def Watch_ok_def WATCH_RESUME_def
          fields rd_iff enc_iff array_16_field.fget_iff)
  qed
qed

lemma WatchMode_try_from_iff: "WatchMode_try_from v = Inr m \<longleftrightarrow> v = WatchMode_wire m"
  by (cases m) (auto simp: WatchMode_try_from_def)

lemma WatchResult_decode_iff: "WatchResult_decode b = Inr w \<longleftrightarrow> WatchResult_encode w = Inr b"
  by (cases w)
    (auto simp: WatchResult_decode_def WatchResult_body_def WatchResult_encode_def rd_iff enc_iff
      WatchMode_try_from_iff)

lemma Unwatch_decode_iff: "Unwatch_decode b = Inr w \<longleftrightarrow> Unwatch_encode w = Inr b"
  by (auto simp: Unwatch_decode_def Unwatch_encode_def rd_iff enc_iff)

lemma StateAck_decode_iff: "StateAck_decode b = Inr w \<longleftrightarrow> StateAck_encode w = Inr b"
  by (cases w) (auto simp: StateAck_decode_def StateAck_body_def StateAck_encode_def rd_iff enc_iff)

lemma Watch_body_stable: "stable Watch_body"
  unfolding Watch_body_def by (intro rd_stable)

lemma WatchResult_body_stable: "stable WatchResult_body"
  unfolding WatchResult_body_def by (intro rd_stable)

lemma StateAck_body_stable: "stable StateAck_body"
  unfolding StateAck_body_def by (intro rd_stable)

interpretation Watch_codec: self_delimiting_codec Watch_ok Watch_encode Watch_decode
  by unfold_locales
    (auto simp: Watch_decode_iff
      dest!: framed_not_ok [OF Watch_decode_def Watch_body_stable, unfolded Watch_decode_iff, OF conjI])

interpretation WatchResult_codec: self_delimiting_codec
  "\<lambda>_. True" WatchResult_encode WatchResult_decode
  by unfold_locales (simp add: WatchResult_decode_iff,
    rule framed_not_ok [OF WatchResult_decode_def WatchResult_body_stable])

interpretation Unwatch_codec: self_delimiting_codec "\<lambda>_. True" Unwatch_encode Unwatch_decode
  by unfold_locales (simp add: Unwatch_decode_iff,
    rule framed_not_ok [OF Unwatch_decode_def u32_field.get_stable])

interpretation StateAck_codec: self_delimiting_codec "\<lambda>_. True" StateAck_encode StateAck_decode
  by unfold_locales (simp add: StateAck_decode_iff,
    rule framed_not_ok [OF StateAck_decode_def StateAck_body_stable])

section \<open>STATE records\<close>

text \<open>A record as it stands on the wire, before its kind is looked up.\<close>

record RawRecord =
  rr_kind :: u16
  rr_required :: bool
  rr_body :: bytes

definition raw_ok :: "RawRecord \<Rightarrow> bool" where
  "raw_ok r \<longleftrightarrow> 4 + length (rr_body r) < 2 ^ 32"

definition raw_encode :: "RawRecord \<Rightarrow> bytes" where
  "raw_encode r =
     put_u32 (of_nat (4 + length (rr_body r))) @ put_u16 (rr_kind r)
       @ put_u16 (of_bool (rr_required r)) @ rr_body r"

text \<open>What the decoder keeps of a raw record, and when it refuses one.\<close>

definition raw_keep :: "u16 list \<Rightarrow> RawRecord \<Rightarrow> Record option" where
  "raw_keep kinds r =
     map_option (\<lambda>k. \<lparr>r_kind = k, r_required = rr_required r, r_body = rr_body r\<rparr>)
       (RecordKind_known (rr_kind r) kinds)"

definition raw_admitted :: "u16 list \<Rightarrow> RawRecord \<Rightarrow> bool" where
  "raw_admitted kinds r \<longleftrightarrow> RecordKind_known (rr_kind r) kinds = None \<longrightarrow> \<not> rr_required r"

lemma decode_record_inner_iff:
  "rrun (decode_record_inner kinds) b = Inr x \<longleftrightarrow>
     (\<exists>k q body. b = put_u16 k @ put_u16 (of_bool q) @ body
        \<and> raw_admitted kinds \<lparr>rr_kind = k, rr_required = q, rr_body = body\<rparr>
        \<and> x = raw_keep kinds \<lparr>rr_kind = k, rr_required = q, rr_body = body\<rparr>)"
  (is "_ \<longleftrightarrow> (\<exists>k q body. ?P k q body)")
proof -
  have "rrun (decode_record_inner kinds) b = Inr x \<longleftrightarrow>
      (\<exists>k fl body. (fl = 0 \<or> fl = 1) \<and> b = put_u16 k @ put_u16 fl @ body
         \<and> raw_admitted kinds \<lparr>rr_kind = k, rr_required = (fl = 1), rr_body = body\<rparr>
         \<and> x = raw_keep kinds \<lparr>rr_kind = k, rr_required = (fl = 1), rr_body = body\<rparr>)"
    by (auto simp: decode_record_inner_def rd_iff raw_keep_def raw_admitted_def ex_disj_distrib)
  also have "\<dots> \<longleftrightarrow> (\<exists>k q body. ?P k q body)"
    by (auto 4 4)
  finally show ?thesis .
qed

lemma decode_record_iff:
  "decode_record kinds b = Inr (x, r) \<longleftrightarrow>
     (\<exists>raw. raw_ok raw \<and> raw_admitted kinds raw \<and> b = raw_encode raw @ r \<and> x = raw_keep kinds raw)"
proof -
  have len: "unat len = 4 + n \<longleftrightarrow> len = of_nat (4 + n) \<and> 4 + n < 2 ^ 32" for len :: u32 and n
    using word_eq_of_nat_iff [of len "4 + n"] by auto
  have "decode_record kinds b = Inr (x, r) \<longleftrightarrow>
      (\<exists>k q body len. unat len = 4 + length body
         \<and> b = put_u32 len @ put_u16 k @ put_u16 (of_bool q) @ body @ r
         \<and> raw_admitted kinds \<lparr>rr_kind = k, rr_required = q, rr_body = body\<rparr>
         \<and> x = raw_keep kinds \<lparr>rr_kind = k, rr_required = q, rr_body = body\<rparr>)"
    unfolding decode_record_def rbind_Inr_iff if_reader_iff rlift_Inr_iff decode_record_inner_iff
      dec_u32_iff dec_take_iff rfail_Inr_iff
    by (fastforce simp: add.commute)
  also have "\<dots> \<longleftrightarrow>
      (\<exists>k q body. 4 + length body < 2 ^ 32
         \<and> b = put_u32 (of_nat (4 + length body)) @ put_u16 k @ put_u16 (of_bool q) @ body @ r
         \<and> raw_admitted kinds \<lparr>rr_kind = k, rr_required = q, rr_body = body\<rparr>
         \<and> x = raw_keep kinds \<lparr>rr_kind = k, rr_required = q, rr_body = body\<rparr>)"
    unfolding len by blast
  also have "\<dots> \<longleftrightarrow> (\<exists>raw. raw_ok raw \<and> raw_admitted kinds raw \<and> b = raw_encode raw @ r
      \<and> x = raw_keep kinds raw)"
    by (subst RawRecord.splits(3)) (simp add: raw_ok_def raw_encode_def conj_ac)
  finally show ?thesis .
qed

lemma decode_records_iff:
  "decode_records kinds n b = Inr (rs, r) \<longleftrightarrow>
     (\<exists>raws. length raws = n \<and> list_all raw_ok raws \<and> list_all (raw_admitted kinds) raws
        \<and> b = concat (map raw_encode raws) @ r \<and> rs = List.map_filter (raw_keep kinds) raws)"
proof (induction n arbitrary: b rs)
  case 0
  show ?case by (auto simp: rd_iff)
next
  case (Suc n)
  have "decode_records kinds (Suc n) b = Inr (rs, r) \<longleftrightarrow>
      (\<exists>raw raws. length raws = n \<and> list_all raw_ok (raw # raws)
         \<and> list_all (raw_admitted kinds) (raw # raws)
         \<and> b = concat (map raw_encode (raw # raws)) @ r
         \<and> rs = List.map_filter (raw_keep kinds) (raw # raws))"
    by (auto simp: rd_iff decode_record_iff Suc List.map_filter_simps)
  also have "\<dots> \<longleftrightarrow> (\<exists>raws. length raws = Suc n \<and> list_all raw_ok raws
        \<and> list_all (raw_admitted kinds) raws
        \<and> b = concat (map raw_encode raws) @ r \<and> rs = List.map_filter (raw_keep kinds) raws)"
    unfolding length_Suc_conv by blast
  finally show ?case .
qed

section \<open>STATE events\<close>

definition StateEvent_header :: "StateEvent \<Rightarrow> nat \<Rightarrow> bytes" where
  "StateEvent_header e n =
     put_u32 (se_subscription_id e) @ put_u8 (Phase_wire (se_phase e)) @ put_u8 (se_flags e)
       @ put_u16 0 @ put_u64 (se_from_revision e) @ put_u64 (se_to_revision e)
       @ put_u16 (of_nat n)"

lemma Phase_try_from_iff: "Phase_try_from v = Inr p \<longleftrightarrow> v = Phase_wire p"
  by (cases p) (auto simp: Phase_try_from_def)

lemma record_count_iff:
  "n = unat (c :: u16) \<and> \<not> HARD_MAX_TYPED_RECORDS < unat c \<longleftrightarrow>
     c = of_nat n \<and> n \<le> HARD_MAX_TYPED_RECORDS"
  using word_eq_of_nat_iff [of c n] by (auto simp: HARD_MAX_TYPED_RECORDS_def)

lemma StateEvent_body_iff:
  "StateEvent_body allowed kinds b = Inr (e, r) \<longleftrightarrow>
     (\<exists>raws. se_flags e AND NOT allowed = 0 \<and> length raws \<le> HARD_MAX_TYPED_RECORDS
        \<and> list_all raw_ok raws \<and> list_all (raw_admitted kinds) raws
        \<and> se_records e = List.map_filter (raw_keep kinds) raws
        \<and> b = StateEvent_header e (length raws) @ concat (map raw_encode raws) @ r)"
proof (cases e)
  case (fields sub phase flags rev_from rev_to records)
  have "StateEvent_body allowed kinds b = Inr (e, r) \<longleftrightarrow>
     (\<exists>raws c. flags AND NOT allowed = 0
        \<and> (length raws = unat c \<and> \<not> HARD_MAX_TYPED_RECORDS < unat c)
        \<and> list_all raw_ok raws \<and> list_all (raw_admitted kinds) raws
        \<and> records = List.map_filter (raw_keep kinds) raws
        \<and> b = put_u32 sub @ put_u8 (Phase_wire phase) @ put_u8 flags @ put_u16 0
            @ put_u64 rev_from @ put_u64 rev_to @ put_u16 c @ concat (map raw_encode raws) @ r)"
    by (auto simp: StateEvent_body_def rd_iff Phase_try_from_iff decode_records_iff fields)
  then show ?thesis
    unfolding record_count_iff by (auto simp: fields StateEvent_header_def)
qed

lemma StateEvent_decode_with_iff:
  "StateEvent_decode_with allowed kinds b = Inr e \<longleftrightarrow>
     (\<exists>raws. se_flags e AND NOT allowed = 0 \<and> StateEvent_validate e = Inr ()
        \<and> length raws \<le> HARD_MAX_TYPED_RECORDS
        \<and> list_all raw_ok raws \<and> list_all (raw_admitted kinds) raws
        \<and> se_records e = List.map_filter (raw_keep kinds) raws
        \<and> b = StateEvent_header e (length raws) @ concat (map raw_encode raws))"
  by (auto simp: StateEvent_decode_with_def rd_iff enc_iff StateEvent_body_iff)

text \<open>A record whose kind the decoder knows.\<close>

fun kind_known :: "u16 list \<Rightarrow> RecordKind \<Rightarrow> bool" where
  "kind_known kinds (Family k) \<longleftrightarrow> k \<in> set kinds"
| "kind_known kinds _ \<longleftrightarrow> True"

definition to_raw :: "Record \<Rightarrow> RawRecord" where
  "to_raw r = \<lparr>rr_kind = RecordKind_wire (r_kind r), rr_required = r_required r, rr_body = r_body r\<rparr>"

lemma Record_encode_raw:
  "Record_encode r = Inr q \<Longrightarrow> raw_ok (to_raw r) \<and> q = raw_encode (to_raw r)"
  by (auto simp: Record_encode_def enc_iff to_raw_def raw_ok_def raw_encode_def)

lemma known_nonstandard: "\<not> k \<le> 3 \<Longrightarrow> k \<noteq> 0 \<and> k \<noteq> 1 \<and> k \<noteq> 2 \<and> k \<noteq> (3 :: u16)"
  by auto

lemma Record_encode_keep:
  "Record_encode r = Inr q \<Longrightarrow> kind_known kinds (r_kind r) \<Longrightarrow> raw_keep kinds (to_raw r) = Some r"
  by (cases "r_kind r")
    (auto simp: Record_encode_def enc_iff to_raw_def raw_keep_def RecordKind_known_def
      RECORD_REMOVE_def dest!: known_nonstandard)

lemma raw_keep_admitted: "raw_keep kinds r = Some x \<Longrightarrow> raw_admitted kinds r"
  by (auto simp: raw_keep_def raw_admitted_def)

lemma encode_all_raw:
  assumes "encode_all Record_encode rs = Inr q" and "list_all (\<lambda>r. kind_known kinds (r_kind r)) rs"
  shows "list_all raw_ok (map to_raw rs) \<and> list_all (raw_admitted kinds) (map to_raw rs)
    \<and> q = concat (map raw_encode (map to_raw rs))
    \<and> List.map_filter (raw_keep kinds) (map to_raw rs) = rs"
  using assms
proof (induction rs arbitrary: q)
  case Nil
  then show ?case by simp
next
  case (Cons r rs)
  then obtain p q' where p: "Record_encode r = Inr p" and q': "encode_all Record_encode rs = Inr q'"
    and q: "q = p @ q'"
    by (auto simp: enc_iff)
  with Cons.prems Record_encode_raw [OF p] Record_encode_keep [OF p, of kinds] Cons.IH [OF q']
  show ?case by (auto dest: raw_keep_admitted simp: List.map_filter_simps)
qed

lemma StateEvent_encode_iff [enc_iff]:
  "StateEvent_encode e = Inr b \<longleftrightarrow> StateEvent_validate e = Inr () \<and>
     (\<exists>q. length (se_records e) < 2 ^ 16 \<and> encode_all Record_encode (se_records e) = Inr q
        \<and> b = StateEvent_header e (length (se_records e)) @ q)"
  by (auto simp: StateEvent_encode_def enc_iff StateEvent_header_def)

lemma StateEvent_validate_records:
  "StateEvent_validate e = Inr () \<Longrightarrow> length (se_records e) \<le> HARD_MAX_TYPED_RECORDS"
  by (auto simp: StateEvent_validate_def split: if_splits)

lemma StateEvent_encode_decode:
  assumes "StateEvent_encode e = Inr b" and "se_flags e AND NOT allowed = 0"
    and "list_all (\<lambda>r. kind_known kinds (r_kind r)) (se_records e)"
  shows "StateEvent_decode_with allowed kinds b = Inr e"
proof -
  from assms(1) obtain q where v: "StateEvent_validate e = Inr ()"
    and q: "encode_all Record_encode (se_records e) = Inr q"
    and b: "b = StateEvent_header e (length (se_records e)) @ q"
    by (auto simp: enc_iff)
  show ?thesis
    unfolding StateEvent_decode_with_iff
    using encode_all_raw [OF q assms(3)] StateEvent_validate_records [OF v] v b assms(2)
    by (intro exI [of _ "map to_raw (se_records e)"]) simp
qed

section \<open>Properties\<close>

text \<open>
  What a STATE event decoder accepts. A payload is accepted exactly when it is a header followed by
  at most 4096 well-formed raw records, none of them required and of unknown kind, and the event of
  the known ones passes the phase and revision checks; the event returned holds the known records in
  their order.
\<close>

theorem StateEvent_accepts:
  "StateEvent_decode_with allowed kinds b = Inr e \<longleftrightarrow>
     (\<exists>raws. se_flags e AND NOT allowed = 0 \<and> StateEvent_validate e = Inr ()
        \<and> length raws \<le> HARD_MAX_TYPED_RECORDS
        \<and> list_all raw_ok raws \<and> list_all (raw_admitted kinds) raws
        \<and> se_records e = List.map_filter (raw_keep kinds) raws
        \<and> b = StateEvent_header e (length raws) @ concat (map raw_encode raws))"
  by (rule StateEvent_decode_with_iff)

text \<open>
  A STATE event round-trips. What the encoder writes, the decoder that allows the event's flags and
  knows its record kinds reads back unchanged.
\<close>

theorem StateEvent_round_trip:
  assumes "StateEvent_encode e = Inr b" and "se_flags e AND NOT allowed = 0"
    and "list_all (\<lambda>r. kind_known kinds (r_kind r)) (se_records e)"
  shows "StateEvent_decode_with allowed kinds b = Inr e"
  using assms by (rule StateEvent_encode_decode)

definition state_sample :: StateEvent where
  "state_sample = \<lparr>se_subscription_id = 7, se_phase = Delta, se_flags = 1, se_from_revision = 4,
     se_to_revision = 5, se_records = [\<lparr>r_kind = Add, r_required = True, r_body = [1, 2]\<rparr>,
       \<lparr>r_kind = Family 9, r_required = False, r_body = []\<rparr>]\<rparr>"

lemma state_sample_encode:
  "StateEvent_encode state_sample =
     Inr (StateEvent_header state_sample 2 @ raw_encode \<lparr>rr_kind = 0, rr_required = True, rr_body = [1, 2]\<rparr>
          @ raw_encode \<lparr>rr_kind = 9, rr_required = False, rr_body = []\<rparr>)"
  by (simp add: StateEvent_encode_def state_sample_def StateEvent_validate_def
      revision_transition_ok_def HARD_MAX_TYPED_RECORDS_def put_len_u16_def put_len_u32_def
      Record_encode_def RECORD_REMOVE_def word_le_nat_alt word_less_nat_alt StateEvent_header_def
      raw_encode_def)

theorem StateEvent_round_trip_witness:
  "StateEvent_decode_with 1 [9]
     (StateEvent_header state_sample 2 @ raw_encode \<lparr>rr_kind = 0, rr_required = True, rr_body = [1, 2]\<rparr>
      @ raw_encode \<lparr>rr_kind = 9, rr_required = False, rr_body = []\<rparr>) = Inr state_sample"
  by (rule StateEvent_round_trip [OF state_sample_encode]) (simp_all add: state_sample_def)

lemma map_filter_skip:
  "f x = None \<Longrightarrow> List.map_filter f (xs @ x # ys) = List.map_filter f (xs @ ys)"
  by (induction xs) (auto simp: List.map_filter_simps split: option.splits)

lemma StateEvent_decode_raw:
  assumes "list_all raw_ok raws" and "list_all (raw_admitted kinds) raws"
    and "length raws \<le> HARD_MAX_TYPED_RECORDS"
  shows "StateEvent_decode_with allowed kinds
      (StateEvent_header e (length raws) @ concat (map raw_encode raws)) = Inr e \<longleftrightarrow>
    se_flags e AND NOT allowed = 0 \<and> StateEvent_validate e = Inr ()
    \<and> se_records e = List.map_filter (raw_keep kinds) raws" (is "?dec \<longleftrightarrow> ?rhs")
proof
  assume ?dec
  then have valid: "StateEvent_validate e = Inr ()" and flags: "se_flags e AND NOT allowed = 0"
    and body: "StateEvent_body allowed kinds
      (StateEvent_header e (length raws) @ concat (map raw_encode raws)) = Inr (e, [])"
    by (auto simp: StateEvent_decode_with_def rd_iff enc_iff StateEvent_body_iff)
  have "StateEvent_body allowed kinds
      (StateEvent_header e (length raws) @ concat (map raw_encode raws))
      = Inr (e\<lparr>se_records := List.map_filter (raw_keep kinds) raws\<rparr>, [])"
    unfolding StateEvent_body_iff using assms flags
    by (intro exI [of _ raws]) (simp add: StateEvent_header_def)
  with body have "e = e\<lparr>se_records := List.map_filter (raw_keep kinds) raws\<rparr>" by simp
  then have "se_records e = List.map_filter (raw_keep kinds) raws"
    by (metis StateEvent.select_convs(6) StateEvent.surjective StateEvent.update_convs(6))
  with valid flags show ?rhs by blast
next
  assume ?rhs
  with assms show ?dec unfolding StateEvent_decode_with_iff by blast
qed

text \<open>
  Forward compatibility. An optional record of a kind the decoder does not know may stand anywhere
  among the others: the payload decodes to an event exactly when the payload without it does.
\<close>

theorem StateEvent_unknown_optional_skipped:
  assumes "RecordKind_known (rr_kind u) kinds = None" and "\<not> rr_required u"
    and "list_all raw_ok (xs @ u # ys)" and "list_all (raw_admitted kinds) (xs @ ys)"
    and "length (xs @ u # ys) \<le> HARD_MAX_TYPED_RECORDS"
  shows "StateEvent_decode_with allowed kinds
      (StateEvent_header e (length (xs @ u # ys)) @ concat (map raw_encode (xs @ u # ys))) = Inr e \<longleftrightarrow>
    StateEvent_decode_with allowed kinds
      (StateEvent_header e (length (xs @ ys)) @ concat (map raw_encode (xs @ ys))) = Inr e"
proof -
  have "raw_keep kinds u = None" using assms(1) by (simp add: raw_keep_def)
  then have same: "List.map_filter (raw_keep kinds) (xs @ u # ys)
      = List.map_filter (raw_keep kinds) (xs @ ys)"
    by (rule map_filter_skip)
  have ok: "list_all raw_ok (xs @ ys)" "list_all (raw_admitted kinds) (xs @ u # ys)"
    "length (xs @ ys) \<le> HARD_MAX_TYPED_RECORDS"
    using assms by (auto simp: raw_admitted_def)
  show ?thesis
    by (simp only: StateEvent_decode_raw [OF assms(3) ok(2) assms(5)]
        StateEvent_decode_raw [OF ok(1) assms(4) ok(3)] same)
qed

lemma state_sample_empty:
  "StateEvent_decode_with 1 [] (StateEvent_header (state_sample\<lparr>se_records := []\<rparr>) 0)
     = Inr (state_sample\<lparr>se_records := []\<rparr>)"
  using StateEvent_decode_raw [of "[]" "[]" 1 "state_sample\<lparr>se_records := []\<rparr>"]
  by (simp add: state_sample_def StateEvent_validate_def revision_transition_ok_def
      word_less_nat_alt)

theorem StateEvent_unknown_optional_skipped_witness:
  "StateEvent_decode_with 1 []
      (StateEvent_header (state_sample\<lparr>se_records := []\<rparr>) 1
       @ raw_encode \<lparr>rr_kind = 77, rr_required = False, rr_body = [3]\<rparr>)
      = Inr (state_sample\<lparr>se_records := []\<rparr>)"
  using StateEvent_unknown_optional_skipped
    [of "\<lparr>rr_kind = 77, rr_required = False, rr_body = [3]\<rparr>" "[]" "[]" "[]" 1
      "state_sample\<lparr>se_records := []\<rparr>"] state_sample_empty
  by (simp add: RecordKind_known_def raw_ok_def HARD_MAX_TYPED_RECORDS_def)

text \<open>
  WATCH, its result, UNWATCH and the STATE acknowledgement have one encoding each: a decoder accepts
  exactly the bytes the encoder writes for the value it returns.
\<close>

theorem State_payloads_canonical:
  "(Watch_decode b = Inr w \<longleftrightarrow> Watch_ok w \<and> Watch_encode w = Inr b) \<and>
   (WatchResult_decode b = Inr wr \<longleftrightarrow> WatchResult_encode wr = Inr b) \<and>
   (Unwatch_decode b = Inr u \<longleftrightarrow> Unwatch_encode u = Inr b) \<and>
   (StateAck_decode b = Inr a \<longleftrightarrow> StateAck_encode a = Inr b)"
  using Watch_codec.dec_iff WatchResult_codec.dec_iff Unwatch_codec.dec_iff StateAck_codec.dec_iff
  by simp

end
