(* ===== verification/Wire_Schema.thy ===== *)
theory Wire_Schema
  imports Wire_Codec
begin

text \<open>
  The protocol schema (\<^verbatim>\<open>crates/yas/src/generated.rs\<close> and the two lookups of
  \<^verbatim>\<open>crates/yas/src/lib.rs\<close>): the transport constants, and for each of the twenty families its
  operations with their class, kind, direction and frame policies, and its limits with their
  bounds. The layout strings, type and constant tables and golden vectors of the generated file
  are documentation and test data and are left out. The last section shows that the
  table is consistent, which is what the frame codec relies on when it turns the policies into
  sets of keys.
\<close>

section \<open>Transport constants\<close>

definition PREFACE :: bytes where "PREFACE = [89, 65, 83, 0, 1, 0, 13, 10]"
definition EVENT_HEADER_BYTES :: nat where "EVENT_HEADER_BYTES = 5"
definition CORRELATED_HEADER_BYTES :: nat where "CORRELATED_HEADER_BYTES = 9"
definition RECOMMENDED_WIRE_FRAME :: u32 where "RECOMMENDED_WIRE_FRAME = 1048576"
definition RECOMMENDED_DECODED_FRAME :: u32 where "RECOMMENDED_DECODED_FRAME = 4194304"
definition CLASS_MASK :: u8 where "CLASS_MASK = 3"
definition META_COMPRESSED :: u8 where "META_COMPRESSED = 4"
definition META_SENSITIVE :: u8 where "META_SENSITIVE = 8"
definition META_RESERVED :: u8 where "META_RESERVED = 240"
definition PRE_HELLO_MAX_FRAME :: u32 where "PRE_HELLO_MAX_FRAME = 65536"
definition HARD_MAX_WIRE_FRAME :: u32 where "HARD_MAX_WIRE_FRAME = 16777216"
definition HARD_MAX_DECODED_FRAME :: u32 where "HARD_MAX_DECODED_FRAME = 67108864"
definition HARD_MAX_BULK_CHUNK :: u32 where "HARD_MAX_BULK_CHUNK = 65536"
definition HARD_MAX_DATAGRAM :: u32 where "HARD_MAX_DATAGRAM = 65536"
definition HARD_MAX_BUFFERED :: u64 where "HARD_MAX_BUFFERED = 1073741824"

definition CLASS_EVENT :: u8 where "CLASS_EVENT = 0"
definition CLASS_REQUEST :: u8 where "CLASS_REQUEST = 1"
definition CLASS_RESULT :: u8 where "CLASS_RESULT = 2"

definition POLICY_ALLOWED :: u8 where "POLICY_ALLOWED = 0"
definition POLICY_REQUIRED :: u8 where "POLICY_REQUIRED = 1"
definition POLICY_FORBIDDEN :: u8 where "POLICY_FORBIDDEN = 2"

definition DATAGRAM_FORBIDDEN :: u8 where "DATAGRAM_FORBIDDEN = 0"
definition DATAGRAM_NET_NATIVE_FLOW :: u8 where "DATAGRAM_NET_NATIVE_FLOW = 1"
definition DATAGRAM_SURFACE_FRAME :: u8 where "DATAGRAM_SURFACE_FRAME = 2"
definition DATAGRAM_MEDIA_FRAME :: u8 where "DATAGRAM_MEDIA_FRAME = 3"

definition FAMILY_CORE :: u16 where "FAMILY_CORE = 0"
definition FAMILY_TRANSFER :: u16 where "FAMILY_TRANSFER = 1"
definition FAMILY_RELAY :: u16 where "FAMILY_RELAY = 2"
definition FAMILY_TERMINAL :: u16 where "FAMILY_TERMINAL = 0x10"
definition FAMILY_CLIENT :: u16 where "FAMILY_CLIENT = 0x11"
definition FAMILY_KV :: u16 where "FAMILY_KV = 0x33"
definition FAMILY_CHANNEL :: u16 where "FAMILY_CHANNEL = 0x42"

lemmas transport_consts =
  EVENT_HEADER_BYTES_def CORRELATED_HEADER_BYTES_def CLASS_MASK_def META_COMPRESSED_def
  META_SENSITIVE_def META_RESERVED_def CLASS_EVENT_def CLASS_REQUEST_def CLASS_RESULT_def

section \<open>Metadata\<close>

record OperationMetadata =
  om_name :: string
  om_class :: u8
  om_kind :: u16
  om_direction :: u8
  om_sensitive :: u8
  om_compression :: u8
  om_datagram :: u8

datatype LimitValueType = U32 | U64

fun LimitValueType_width :: "LimitValueType \<Rightarrow> nat" where
  "LimitValueType_width U32 = 4"
| "LimitValueType_width U64 = 8"

record LimitMetadata =
  lm_name :: string
  lm_tag :: u16
  lm_value_type :: LimitValueType
  lm_required :: bool
  lm_hard_min :: u64
  lm_hard_max :: u64

record FamilyMetadata =
  fm_name :: string
  fm_id :: u16
  fm_version :: u16
  fm_dependencies :: "u16 list"
  fm_operations :: "OperationMetadata list"
  fm_limits :: "LimitMetadata list"

text \<open>One row of an operation table and of a limit table, in the order of the fields.\<close>

definition op_row :: "string \<Rightarrow> u8 \<Rightarrow> u16 \<Rightarrow> u8 \<Rightarrow> u8 \<Rightarrow> u8 \<Rightarrow> u8 \<Rightarrow> OperationMetadata" where
  "op_row name cls kind direction sensitive compression datagram =
     \<lparr>om_name = name, om_class = cls, om_kind = kind, om_direction = direction,
      om_sensitive = sensitive, om_compression = compression, om_datagram = datagram\<rparr>"

definition limit_row :: "string \<Rightarrow> u16 \<Rightarrow> LimitValueType \<Rightarrow> bool \<Rightarrow> u64 \<Rightarrow> u64 \<Rightarrow> LimitMetadata" where
  "limit_row name tag value_type required hard_min hard_max =
     \<lparr>lm_name = name, lm_tag = tag, lm_value_type = value_type, lm_required = required,
      lm_hard_min = hard_min, lm_hard_max = hard_max\<rparr>"

section \<open>The tables\<close>

definition CORE_OPERATIONS :: "OperationMetadata list" where
  "CORE_OPERATIONS =
    [op_row ''HELLO'' 1 0 0 0 2 0,
     op_row ''PING'' 1 1 2 0 0 0,
     op_row ''CANCEL'' 1 2 2 0 0 0,
     op_row ''SESSION_INFO'' 1 3 0 0 0 0,
     op_row ''CLIENT_UPDATE'' 1 4 0 0 0 0,
     op_row ''SHUTDOWN'' 1 5 0 1 0 0,
     op_row ''GOAWAY'' 0 0 1 0 0 0,
     op_row ''SESSION_UPDATE'' 0 1 1 0 0 0,
     op_row ''FAMILY_UPDATE'' 0 2 1 0 0 0]"

definition CORE_LIMITS :: "LimitMetadata list" where
  "CORE_LIMITS =
    []"

definition TRANSFER_OPERATIONS :: "OperationMetadata list" where
  "TRANSFER_OPERATIONS =
    [op_row ''BYTE_DATA'' 0 0 2 0 2 0,
     op_row ''MESSAGE_DATA'' 0 1 2 0 2 0,
     op_row ''CREDIT'' 0 2 2 0 0 0,
     op_row ''CLOSE'' 0 3 2 0 0 0,
     op_row ''RESET'' 0 4 2 0 0 0]"

definition TRANSFER_LIMITS :: "LimitMetadata list" where
  "TRANSFER_LIMITS =
    []"

definition RELAY_OPERATIONS :: "OperationMetadata list" where
  "RELAY_OPERATIONS =
    [op_row ''WATCH'' 1 0 0 0 0 0,
     op_row ''UNWATCH'' 1 1 0 0 0 0,
     op_row ''CONNECT'' 1 2 0 1 0 0,
     op_row ''DISCONNECT'' 1 3 0 0 0 0,
     op_row ''STATE'' 0 0 1 0 0 0,
     op_row ''STATE_ACK'' 0 1 0 0 0 0]"

definition RELAY_LIMITS :: "LimitMetadata list" where
  "RELAY_LIMITS =
    [limit_row ''MAX_ROUTES'' 1 U32 True 1 65536,
     limit_row ''MAX_LINKS_PER_SESSION'' 2 U32 True 1 4096,
     limit_row ''MAX_PENDING_CONNECTS'' 3 U32 True 1 1024,
     limit_row ''MAX_EARLY_DATA'' 4 U32 True 0 65536,
     limit_row ''CONNECT_TIMEOUT_NS'' 5 U64 True 1 300000000000,
     limit_row ''MAX_BUFFERED_PER_LINK'' 6 U64 True 1 1073741824]"

definition TERMINAL_OPERATIONS :: "OperationMetadata list" where
  "TERMINAL_OPERATIONS =
    [op_row ''WATCH'' 1 0 0 0 0 0,
     op_row ''UNWATCH'' 1 1 0 0 0 0,
     op_row ''CREATE'' 1 2 0 1 0 0,
     op_row ''RESTART'' 1 3 0 1 0 0,
     op_row ''SIGNAL'' 1 4 0 0 0 0,
     op_row ''CLOSE'' 1 5 0 0 0 0,
     op_row ''SET_DEADLINE'' 1 6 0 0 0 0,
     op_row ''RESIZE'' 1 7 0 0 0 0,
     op_row ''SET_FOCUS'' 1 8 0 0 0 0,
     op_row ''SCROLL'' 1 9 0 0 0 0,
     op_row ''OPEN_VIEW'' 1 10 0 0 0 0,
     op_row ''CONFIGURE_VIEW'' 1 11 0 0 0 0,
     op_row ''RESET_VIEW'' 1 12 0 0 0 0,
     op_row ''READ'' 1 13 0 1 0 0,
     op_row ''SEARCH'' 1 14 0 1 0 0,
     op_row ''CWD'' 1 15 0 1 0 0,
     op_row ''JOURNAL'' 1 16 0 1 0 0,
     op_row ''OUTPUT'' 1 17 0 1 0 0,
     op_row ''WAIT'' 1 18 0 1 0 0,
     op_row ''COPY_RANGE'' 1 19 0 1 0 0,
     op_row ''CLOSE_VIEW'' 1 20 0 0 0 0,
     op_row ''SEARCH_CATALOG'' 1 21 0 1 0 0,
     op_row ''STATE'' 0 0 1 1 0 0,
     op_row ''STATE_ACK'' 0 1 0 0 0 0,
     op_row ''WRITE'' 0 16 0 1 0 0,
     op_row ''INPUT'' 0 17 0 1 0 0,
     op_row ''MOUSE'' 0 18 0 1 0 0,
     op_row ''WHEEL'' 0 19 0 1 0 0,
     op_row ''WHEEL_AT'' 0 20 0 1 0 0,
     op_row ''FRAME'' 0 32 1 1 2 0,
     op_row ''FRAME_CHUNK'' 0 33 1 1 2 0,
     op_row ''FRAME_ACK'' 0 34 0 0 0 0]"

definition TERMINAL_LIMITS :: "LimitMetadata list" where
  "TERMINAL_LIMITS =
    [limit_row ''MAX_TERMINALS_PER_SESSION'' 1 U32 True 1 65535,
     limit_row ''MAX_VIEWS_PER_SESSION'' 2 U32 True 1 4096,
     limit_row ''MAX_VIEW_ROWS'' 3 U32 True 1 4096,
     limit_row ''MAX_VIEW_COLS'' 4 U32 True 1 4096,
     limit_row ''MAX_INPUT_BYTES'' 5 U32 True 1 16384,
     limit_row ''MAX_INLINE_QUERY_BYTES'' 6 U32 True 1 32768,
     limit_row ''MAX_QUERY_RECORDS'' 7 U32 True 1 4096,
     limit_row ''MAX_HYPERLINK_URI_BYTES'' 8 U32 True 1 4096]"

definition CLIENT_OPERATIONS :: "OperationMetadata list" where
  "CLIENT_OPERATIONS =
    [op_row ''WATCH'' 1 0 0 0 0 0,
     op_row ''UNWATCH'' 1 1 0 0 0 0,
     op_row ''DISCONNECT'' 1 2 0 1 0 0,
     op_row ''STATE'' 0 0 1 1 0 0,
     op_row ''STATE_ACK'' 0 1 0 0 0 0]"

definition CLIENT_LIMITS :: "LimitMetadata list" where
  "CLIENT_LIMITS =
    [limit_row ''MAX_PUBLISHED_CLIENTS'' 1 U32 True 1 4096,
     limit_row ''MAX_ACTIVE_SUBSCRIPTIONS'' 2 U32 True 1 4096]"

definition SURFACE_OPERATIONS :: "OperationMetadata list" where
  "SURFACE_OPERATIONS =
    [op_row ''WATCH'' 1 0 0 0 0 0,
     op_row ''UNWATCH'' 1 1 0 0 0 0,
     op_row ''CREATE_APP_ENDPOINT'' 1 2 0 1 0 0,
     op_row ''OPEN_VIEW'' 1 3 0 0 0 0,
     op_row ''CONFIGURE_VIEW'' 1 4 0 0 0 0,
     op_row ''RESET_VIEW'' 1 5 0 0 0 0,
     op_row ''CLOSE_VIEW'' 1 6 0 0 0 0,
     op_row ''CAPTURE'' 1 7 0 1 0 0,
     op_row ''RESIZE'' 1 8 0 0 0 0,
     op_row ''FOCUS'' 1 9 0 0 0 0,
     op_row ''CLOSE'' 1 10 0 0 0 0,
     op_row ''RELEASE_APP_ENDPOINT'' 1 11 0 0 0 0,
     op_row ''STATE'' 0 0 1 1 0 0,
     op_row ''STATE_ACK'' 0 1 0 0 0 0,
     op_row ''KEY'' 0 16 0 1 0 0,
     op_row ''TEXT'' 0 17 0 1 0 0,
     op_row ''PREEDIT'' 0 18 0 1 0 0,
     op_row ''POINTER'' 0 19 0 1 0 0,
     op_row ''AXIS'' 0 20 0 1 0 0,
     op_row ''TOUCH'' 0 21 0 1 0 0,
     op_row ''FRAME_ACK'' 0 22 0 0 0 0,
     op_row ''FRAME'' 0 32 1 1 2 2,
     op_row ''REMOTE_INPUT'' 0 33 1 1 0 0]"

definition SURFACE_LIMITS :: "LimitMetadata list" where
  "SURFACE_LIMITS =
    [limit_row ''MAX_SURFACES_PER_SESSION'' 1 U32 True 1 4096,
     limit_row ''MAX_VIEWS_PER_SESSION'' 2 U32 True 1 4096,
     limit_row ''MAX_VIEW_DIMENSION'' 3 U32 True 1 4096,
     limit_row ''MAX_VIEW_PIXELS'' 4 U64 True 1 16777216,
     limit_row ''MAX_FRAME_RATE'' 5 U32 True 1 240,
     limit_row ''MAX_INLINE_CURSOR_BYTES'' 6 U32 True 1 32768,
     limit_row ''MAX_REMOTE_CONTACTS'' 7 U32 True 1 64,
     limit_row ''MAX_APP_ENDPOINTS_PER_SESSION'' 8 U32 True 1 1024,
     limit_row ''MAX_APP_ENDPOINT_LIFETIME_NS'' 9 U64 True 1 86400000000000]"

definition SELECTION_OPERATIONS :: "OperationMetadata list" where
  "SELECTION_OPERATIONS =
    [op_row ''WATCH'' 1 0 0 0 0 0,
     op_row ''UNWATCH'' 1 1 0 0 0 0,
     op_row ''SET'' 1 2 0 1 0 0,
     op_row ''SET_BEGIN'' 1 3 0 1 0 0,
     op_row ''SET_COMMIT'' 1 4 0 0 0 0,
     op_row ''GET'' 1 5 2 1 0 0,
     op_row ''CLEAR'' 1 6 0 0 0 0,
     op_row ''DRAG_BEGIN'' 1 7 0 1 0 0,
     op_row ''DRAG_DROP'' 1 8 0 1 0 0,
     op_row ''DRAG_CANCEL'' 1 9 0 0 0 0,
     op_row ''STATE'' 0 0 1 1 0 0,
     op_row ''STATE_ACK'' 0 1 0 0 0 0,
     op_row ''DRAG_ENTER'' 0 16 2 1 0 0,
     op_row ''DRAG_MOTION'' 0 17 2 1 0 0,
     op_row ''DRAG_LEAVE'' 0 18 2 1 0 0]"

definition SELECTION_LIMITS :: "LimitMetadata list" where
  "SELECTION_LIMITS =
    [limit_row ''MAX_INLINE_BYTES'' 1 U32 True 1 32768,
     limit_row ''MAX_ITEMS'' 2 U32 True 1 256,
     limit_row ''MAX_MIME_BYTES'' 3 U32 True 1 255,
     limit_row ''MAX_ITEM_NAME_BYTES'' 4 U32 True 1 1024,
     limit_row ''MAX_ACTIVE_DRAGS_PER_SESSION'' 5 U32 True 1 256,
     limit_row ''MAX_STAGES_PER_SESSION'' 6 U32 True 1 256,
     limit_row ''MAX_STAGED_BYTES_PER_STAGE'' 7 U64 True 1 1073741824,
     limit_row ''MAX_MUTATION_REPLAYS'' 8 U32 True 1 65536]"

definition DESKTOP_OPERATIONS :: "OperationMetadata list" where
  "DESKTOP_OPERATIONS =
    [op_row ''WATCH'' 1 0 0 0 0 0,
     op_row ''UNWATCH'' 1 1 0 0 0 0,
     op_row ''GET_MENU'' 1 2 0 1 0 0,
     op_row ''TRAY_ACTION'' 1 3 0 1 0 0,
     op_row ''NOTIFICATION_ACTION'' 1 4 0 1 0 0,
     op_row ''FETCH_ASSET'' 1 5 0 1 0 0,
     op_row ''STATE'' 0 0 1 1 0 0,
     op_row ''STATE_ACK'' 0 1 0 0 0 0]"

definition DESKTOP_LIMITS :: "LimitMetadata list" where
  "DESKTOP_LIMITS =
    [limit_row ''MAX_TRAY_ITEMS'' 1 U32 True 1 1024,
     limit_row ''MAX_NOTIFICATIONS'' 2 U32 True 1 4096,
     limit_row ''MAX_MENU_NODES'' 3 U32 True 1 4096,
     limit_row ''MAX_NOTIFICATION_ACTIONS'' 4 U32 True 1 256,
     limit_row ''MAX_INLINE_MENU_BYTES'' 5 U32 True 1 32768,
     limit_row ''MAX_INLINE_ASSET_BYTES'' 6 U32 True 1 32768]"

definition MEDIA_OPERATIONS :: "OperationMetadata list" where
  "MEDIA_OPERATIONS =
    [op_row ''WATCH'' 1 0 0 0 0 0,
     op_row ''UNWATCH'' 1 1 0 0 0 0,
     op_row ''OPEN_OUTPUT'' 1 2 0 1 0 0,
     op_row ''ACQUIRE_DEVICE'' 1 3 0 1 0 0,
     op_row ''RELEASE_DEVICE'' 1 4 0 1 0 0,
     op_row ''PORTAL_REPLY'' 1 5 0 1 0 0,
     op_row ''PLAYER_ACTION'' 1 6 0 1 0 0,
     op_row ''CLOSE_STREAM'' 1 7 0 1 0 0,
     op_row ''FETCH_ASSET'' 1 8 0 1 0 0,
     op_row ''PORTAL_CLOSE'' 1 9 0 1 0 0,
     op_row ''STATE'' 0 0 1 1 0 0,
     op_row ''STATE_ACK'' 0 1 0 0 0 0,
     op_row ''PORTAL_REQUEST'' 0 16 1 1 0 0,
     op_row ''FRAME'' 0 32 2 1 2 3,
     op_row ''FRAME_ACK'' 0 33 2 1 0 0,
     op_row ''STREAM_STATUS'' 0 34 1 1 0 0,
     op_row ''PLAYOUT_REPORT'' 0 35 0 1 0 0]"

definition MEDIA_LIMITS :: "LimitMetadata list" where
  "MEDIA_LIMITS =
    [limit_row ''MAX_DEVICES'' 1 U32 True 1 256,
     limit_row ''MAX_LEASES_PER_SESSION'' 2 U32 True 1 64,
     limit_row ''MAX_STREAMS_PER_SESSION'' 3 U32 True 1 256,
     limit_row ''MAX_PORTALS_PER_SESSION'' 4 U32 True 1 64,
     limit_row ''MAX_PLAYERS'' 5 U32 True 1 1024,
     limit_row ''MAX_FORMATS'' 6 U32 True 1 64,
     limit_row ''MAX_INLINE_METADATA_BYTES'' 7 U32 True 1 32768,
     limit_row ''MAX_INLINE_ASSET_BYTES'' 8 U32 True 1 32768,
     limit_row ''MAX_PORTAL_METADATA_BYTES'' 9 U32 True 1 32768,
     limit_row ''MAX_PORTAL_STRING_BYTES'' 10 U32 True 1 4096,
     limit_row ''MAX_PORTAL_BODY_BYTES'' 11 U32 True 1 16384,
     limit_row ''MAX_PORTAL_CHOICES'' 12 U32 True 1 16,
     limit_row ''MAX_PORTAL_CHOICE_OPTIONS'' 13 U32 True 1 16,
     limit_row ''MAX_SCREENCAST_CANDIDATES'' 14 U32 True 1 64]"

definition FONT_OPERATIONS :: "OperationMetadata list" where
  "FONT_OPERATIONS =
    [op_row ''WATCH'' 1 0 0 0 0 0,
     op_row ''UNWATCH'' 1 1 0 0 0 0,
     op_row ''DESCRIBE'' 1 2 0 0 0 0,
     op_row ''FETCH'' 1 3 0 0 0 0,
     op_row ''STATE'' 0 0 1 0 0 0,
     op_row ''STATE_ACK'' 0 1 0 0 0 0]"

definition FONT_LIMITS :: "LimitMetadata list" where
  "FONT_LIMITS =
    [limit_row ''MAX_FAMILIES'' 1 U32 True 1 65535,
     limit_row ''MAX_FACES_PER_FAMILY'' 2 U32 True 1 65535,
     limit_row ''MAX_DESCRIPTION_BYTES'' 3 U64 True 1 67108864,
     limit_row ''MAX_FACE_BYTES'' 4 U64 True 1 67108864,
     limit_row ''MAX_CONCURRENT_FETCHES'' 5 U32 True 1 1024,
     limit_row ''MAX_SCAN_DURATION_NS'' 6 U64 True 1 300000000000,
     limit_row ''REFRESH_INTERVAL_NS'' 7 U64 True 0 86400000000000]"

definition FS_OPERATIONS :: "OperationMetadata list" where
  "FS_OPERATIONS =
    [op_row ''OPEN'' 1 0 0 1 0 0,
     op_row ''CLOSE'' 1 1 0 1 0 0,
     op_row ''WATCH'' 1 2 0 1 0 0,
     op_row ''UNWATCH'' 1 3 0 1 0 0,
     op_row ''FETCH'' 1 4 0 1 0 0,
     op_row ''READ'' 1 5 0 1 0 0,
     op_row ''SEARCH'' 1 6 0 1 0 0,
     op_row ''INDEX'' 1 7 0 1 0 0,
     op_row ''GREP'' 1 8 0 1 0 0,
     op_row ''STAGE_WRITE'' 1 9 0 1 0 0,
     op_row ''COMMIT'' 1 10 0 1 0 0,
     op_row ''APPLY'' 1 11 0 1 0 0,
     op_row ''PUBLISH'' 1 12 0 1 0 0,
     op_row ''STATE'' 0 0 1 1 0 0,
     op_row ''STATE_ACK'' 0 1 0 0 0 0]"

definition FS_LIMITS :: "LimitMetadata list" where
  "FS_LIMITS =
    [limit_row ''MAX_ROOTS_PER_SESSION'' 1 U32 True 1 64,
     limit_row ''MAX_WATCHES_PER_ROOT'' 2 U32 True 1 32,
     limit_row ''MAX_PATH_COMPONENTS'' 3 U32 True 1 1024,
     limit_row ''MAX_COMPONENT_BYTES'' 4 U32 True 1 4096,
     limit_row ''MAX_PATH_BYTES'' 5 U32 True 1 65535,
     limit_row ''MAX_INLINE_BYTES'' 6 U32 True 1 32768,
     limit_row ''MAX_QUERY_RECORDS'' 7 U32 True 1 8192,
     limit_row ''MAX_QUERY_BYTES'' 8 U32 True 1 4194304,
     limit_row ''MAX_STAGES_PER_SESSION'' 9 U32 True 1 16,
     limit_row ''MAX_STAGED_BYTES'' 10 U64 True 1 67108864,
     limit_row ''MAX_BATCH_ITEMS'' 11 U32 True 1 256,
     limit_row ''MAX_QUERY_CONCURRENCY'' 12 U32 True 1 8,
     limit_row ''MAX_CATALOG_ENTRIES'' 13 U32 True 1 1000000,
     limit_row ''CAPABILITIES'' 14 U32 False 0 4294967295]"

definition GIT_OPERATIONS :: "OperationMetadata list" where
  "GIT_OPERATIONS =
    [op_row ''OPEN'' 1 0 0 1 0 0,
     op_row ''CLOSE'' 1 1 0 1 0 0,
     op_row ''WATCH'' 1 2 0 1 0 0,
     op_row ''UNWATCH'' 1 3 0 1 0 0,
     op_row ''QUERY'' 1 4 0 1 0 0,
     op_row ''WATCH_QUERY'' 1 5 0 1 0 0,
     op_row ''UNWATCH_QUERY'' 1 6 0 1 0 0,
     op_row ''FETCH'' 1 7 0 1 0 0,
     op_row ''STATE'' 0 0 1 1 0 0,
     op_row ''STATE_ACK'' 0 1 0 0 0 0,
     op_row ''QUERY_STATE'' 0 2 1 1 0 0,
     op_row ''QUERY_STATE_ACK'' 0 3 0 0 0 0,
     op_row ''PROGRESS'' 0 4 1 1 0 0,
     op_row ''CLOSED'' 0 5 1 1 0 0]"

definition GIT_LIMITS :: "LimitMetadata list" where
  "GIT_LIMITS =
    [limit_row ''MAX_REPOSITORIES_PER_SESSION'' 1 U32 True 1 64,
     limit_row ''MAX_WATCHES_PER_REPOSITORY'' 2 U32 True 1 32,
     limit_row ''MAX_WATCHED_QUERIES_PER_REPOSITORY'' 3 U32 True 1 16,
     limit_row ''MAX_QUERY_RECORDS'' 4 U32 True 1 4096,
     limit_row ''MAX_QUERY_BYTES'' 5 U32 True 1 4194304,
     limit_row ''MAX_CURSOR_BYTES'' 6 U32 True 1 4096,
     limit_row ''MAX_SPEC_BYTES'' 7 U32 True 1 4096,
     limit_row ''MAX_INLINE_BYTES'' 8 U32 True 1 32768,
     limit_row ''MAX_CONCURRENT_QUERIES'' 9 U32 True 1 8,
     limit_row ''MAX_CONCURRENT_FETCHES'' 10 U32 True 1 4]"

definition LSP_OPERATIONS :: "OperationMetadata list" where
  "LSP_OPERATIONS =
    [op_row ''OPEN'' 1 0 0 1 0 0,
     op_row ''CLOSE'' 1 1 0 1 0 0,
     op_row ''WATCH'' 1 2 0 1 0 0,
     op_row ''UNWATCH'' 1 3 0 1 0 0,
     op_row ''QUERY'' 1 4 0 1 0 0,
     op_row ''BUFFER_PUT'' 1 5 0 1 0 0,
     op_row ''BUFFER_BEGIN'' 1 6 0 1 0 0,
     op_row ''BUFFER_COMMIT'' 1 7 0 1 0 0,
     op_row ''BUFFER_CLOSE'' 1 8 0 1 0 0,
     op_row ''LIST_SERVERS'' 1 9 0 1 0 0,
     op_row ''STOP_SERVER'' 1 10 0 1 0 0,
     op_row ''STATE'' 0 0 1 1 0 0,
     op_row ''STATE_ACK'' 0 1 0 0 0 0,
     op_row ''CLOSED'' 0 2 1 1 0 0]"

definition LSP_LIMITS :: "LimitMetadata list" where
  "LSP_LIMITS =
    [limit_row ''MAX_WORKSPACES_PER_SESSION'' 1 U32 True 1 64,
     limit_row ''MAX_WATCHES_PER_WORKSPACE'' 2 U32 True 1 32,
     limit_row ''MAX_QUERY_RECORDS'' 3 U32 True 1 4096,
     limit_row ''MAX_QUERY_BYTES'' 4 U32 True 1 4194304,
     limit_row ''MAX_CURSOR_BYTES'' 5 U32 True 1 4096,
     limit_row ''MAX_INLINE_BUFFER_BYTES'' 6 U32 True 1 32768,
     limit_row ''MAX_BUFFER_BYTES'' 7 U64 True 1 67108864,
     limit_row ''MAX_BUFFERS_PER_WORKSPACE'' 8 U32 True 1 1024,
     limit_row ''MAX_STAGES_PER_SESSION'' 9 U32 True 1 16,
     limit_row ''MAX_DIAGNOSTICS_PER_FILE'' 10 U32 True 1 4096,
     limit_row ''MAX_SERVERS'' 11 U32 True 1 256,
     limit_row ''MAX_CONCURRENT_QUERIES'' 12 U32 True 1 8]"

definition KV_OPERATIONS :: "OperationMetadata list" where
  "KV_OPERATIONS =
    [op_row ''OPEN'' 1 0 0 1 0 0,
     op_row ''CLOSE'' 1 1 0 0 0 0,
     op_row ''WATCH'' 1 2 0 1 0 0,
     op_row ''UNWATCH'' 1 3 0 0 0 0,
     op_row ''GET'' 1 4 0 1 0 0,
     op_row ''STAGE_VALUE'' 1 5 0 1 0 0,
     op_row ''PUT'' 1 6 0 1 0 0,
     op_row ''DELETE'' 1 7 0 1 0 0,
     op_row ''BATCH'' 1 8 0 1 0 0,
     op_row ''STATE'' 0 0 1 1 0 0,
     op_row ''STATE_ACK'' 0 1 0 0 0 0]"

definition KV_LIMITS :: "LimitMetadata list" where
  "KV_LIMITS =
    [limit_row ''MAX_KEY_BYTES'' 1 U32 True 1 256,
     limit_row ''MAX_VALUE_BYTES'' 2 U64 True 0 4194304,
     limit_row ''MAX_INLINE_BYTES'' 3 U32 True 0 32768,
     limit_row ''MAX_ENTRIES'' 4 U32 True 1 16384,
     limit_row ''MAX_STORE_BYTES'' 5 U64 True 1 268435456,
     limit_row ''MAX_NAMESPACES_PER_SESSION'' 6 U32 True 1 16,
     limit_row ''MAX_STAGES_PER_SESSION'' 7 U32 True 1 16,
     limit_row ''MAX_STAGED_BYTES_PER_SESSION'' 8 U64 True 1 67108864,
     limit_row ''MAX_BATCH_ITEMS'' 9 U32 True 1 256]"

definition PROCESS_OPERATIONS :: "OperationMetadata list" where
  "PROCESS_OPERATIONS =
    [op_row ''WATCH'' 1 0 0 1 0 0,
     op_row ''UNWATCH'' 1 1 0 0 0 0,
     op_row ''SPAWN'' 1 2 0 1 0 0,
     op_row ''ATTACH'' 1 3 0 1 0 0,
     op_row ''CONTROL'' 1 4 0 1 0 0,
     op_row ''WAIT'' 1 5 0 1 0 0,
     op_row ''STATE'' 0 0 1 1 0 0,
     op_row ''STATE_ACK'' 0 1 0 0 0 0,
     op_row ''EXIT'' 0 2 1 1 0 0]"

definition PROCESS_LIMITS :: "LimitMetadata list" where
  "PROCESS_LIMITS =
    [limit_row ''MAX_ARGC'' 1 U32 True 1 1024,
     limit_row ''MAX_ARG_BYTES'' 2 U32 True 1 1048576,
     limit_row ''MAX_ENVC'' 3 U32 True 1 256,
     limit_row ''MAX_ENV_BYTES'' 4 U32 True 1 1048576,
     limit_row ''MAX_PROCESSES_PER_SESSION'' 5 U32 True 1 16,
     limit_row ''MAX_PROCESSES'' 6 U32 True 1 64,
     limit_row ''MAX_PENDING_SPAWNS'' 7 U32 True 1 8,
     limit_row ''MAX_STREAM_BUFFER_BYTES'' 8 U64 True 1 8388608,
     limit_row ''MAX_DETACHED_RETENTION_NS'' 9 U64 True 1 300000000000,
     limit_row ''MAX_MUTATION_REPLAYS'' 10 U32 True 1 65536,
     limit_row ''LAUNCHER_FLAGS'' 11 U32 False 0 12,
     limit_row ''MAX_PROCESSES_PER_SESSION_EXTENDED'' 12 U32 False 1 16384,
     limit_row ''MAX_PROCESSES_EXTENDED'' 13 U32 False 1 65536,
     limit_row ''MAX_PENDING_SPAWNS_EXTENDED'' 14 U32 False 1 4096,
     limit_row ''MAX_STREAM_BUFFER_BYTES_EXTENDED'' 15 U64 False 1 1073741824,
     limit_row ''MAX_ENVC_EXTENDED'' 16 U32 False 1 16384,
     limit_row ''MAX_PENDING_WAITS'' 17 U32 False 1 65536,
     limit_row ''MAX_PENDING_OPERATIONS'' 18 U32 False 1 16384,
     limit_row ''LAUNCHER_FLAGS_EXTENDED'' 19 U32 False 0 65535]"

definition NET_OPERATIONS :: "OperationMetadata list" where
  "NET_OPERATIONS =
    [op_row ''OPEN'' 1 0 0 1 0 0,
     op_row ''CLOSE'' 1 1 0 1 0 0,
     op_row ''DATAGRAM'' 0 0 2 1 2 1,
     op_row ''DATAGRAM_STATS'' 0 1 1 1 0 0]"

definition NET_LIMITS :: "LimitMetadata list" where
  "NET_LIMITS =
    [limit_row ''MAX_HOST_BYTES'' 1 U32 True 1 255,
     limit_row ''MAX_LOCAL_ADDRESS_BYTES'' 2 U32 True 1 4096,
     limit_row ''MAX_PIPE_NAME_BYTES'' 3 U32 True 1 4096,
     limit_row ''MAX_ALPN_PROTOCOLS'' 4 U32 True 1 16,
     limit_row ''MAX_ALPN_BYTES'' 5 U32 True 1 255,
     limit_row ''MAX_EARLY_DATA_BYTES'' 6 U32 True 0 16384,
     limit_row ''MAX_FLOWS_PER_SESSION'' 7 U32 True 1 256,
     limit_row ''MAX_PENDING_OPENS'' 8 U32 True 1 32,
     limit_row ''MAX_BUFFERED_PER_FLOW'' 9 U64 True 1 8388608,
     limit_row ''MAX_DATAGRAM_PAYLOAD'' 10 U32 True 1 65507,
     limit_row ''MAX_DATAGRAM_QUEUE'' 11 U32 True 1 256,
     limit_row ''CONNECT_TIMEOUT_NS'' 12 U64 True 1 10000000000,
     limit_row ''MAX_MUTATION_REPLAYS'' 13 U32 True 1 65536]"

definition CHANNEL_OPERATIONS :: "OperationMetadata list" where
  "CHANNEL_OPERATIONS =
    [op_row ''WATCH'' 1 0 0 1 0 0,
     op_row ''UNWATCH'' 1 1 0 0 0 0,
     op_row ''LISTEN'' 1 2 0 1 0 0,
     op_row ''CLOSE_LISTENER'' 1 3 0 0 0 0,
     op_row ''CONNECT'' 1 4 0 1 0 0,
     op_row ''STATE'' 0 0 1 1 0 0,
     op_row ''STATE_ACK'' 0 1 0 0 0 0,
     op_row ''ACCEPT'' 0 2 1 1 0 0]"

definition CHANNEL_LIMITS :: "LimitMetadata list" where
  "CHANNEL_LIMITS =
    [limit_row ''MAX_NAME_BYTES'' 1 U32 True 1 255,
     limit_row ''MAX_METADATA_BYTES'' 2 U32 True 0 65536,
     limit_row ''MAX_LISTENERS_PER_SESSION'' 3 U32 True 1 32,
     limit_row ''MAX_CHANNELS_PER_SESSION'' 4 U32 True 1 128,
     limit_row ''MAX_PENDING_CONNECTS'' 5 U32 True 1 32,
     limit_row ''MAX_MESSAGE_BYTES'' 6 U64 True 1 16777216,
     limit_row ''MAX_OPEN_MESSAGES'' 7 U32 True 1 16,
     limit_row ''CONNECT_TIMEOUT_NS'' 8 U64 True 1 30000000000,
     limit_row ''MAX_MUTATION_REPLAYS'' 9 U32 True 1 65536]"

definition EXTENSION_OPERATIONS :: "OperationMetadata list" where
  "EXTENSION_OPERATIONS =
    [op_row ''WATCH'' 1 0 0 1 0 0,
     op_row ''UNWATCH'' 1 1 0 0 0 0,
     op_row ''OBJECT_BEGIN'' 1 2 0 1 0 0,
     op_row ''OBJECT_COMMIT'' 1 3 0 1 0 0,
     op_row ''DEPLOY'' 1 4 0 1 0 0,
     op_row ''CONTROL'' 1 5 0 1 0 0,
     op_row ''FOLLOW'' 1 6 0 1 0 0,
     op_row ''DISCOVER_COMMANDS'' 1 7 0 1 0 0,
     op_row ''REGISTER_COMMAND'' 1 8 0 1 0 0,
     op_row ''STATE'' 0 0 1 1 0 0,
     op_row ''STATE_ACK'' 0 1 0 0 0 0,
     op_row ''ATTEMPT_CONTEXT'' 0 2 1 1 0 0,
     op_row ''ATTEMPT_OUTPUT'' 0 3 0 1 0 0]"

definition EXTENSION_LIMITS :: "LimitMetadata list" where
  "EXTENSION_LIMITS =
    [limit_row ''MAX_NAME_BYTES'' 1 U32 True 1 255,
     limit_row ''MAX_ARGS'' 2 U32 True 1 1024,
     limit_row ''MAX_ARGUMENT_BYTES'' 3 U64 True 1 1048576,
     limit_row ''MAX_OBJECT_BYTES'' 4 U64 True 1 67108864,
     limit_row ''MAX_OUTPUT_RECORD_BYTES'' 5 U32 True 1 1048576,
     limit_row ''MAX_COMMAND_DESCRIPTOR_BYTES'' 6 U32 True 1 65536,
     limit_row ''MAX_COMMAND_RECORDS'' 7 U32 True 1 32,
     limit_row ''MAX_DEFINITIONS'' 8 U32 True 1 1024,
     limit_row ''MAX_OBJECT_STAGES_PER_SESSION'' 9 U32 True 1 8,
     limit_row ''MAX_FOLLOWS_PER_SESSION'' 10 U32 True 1 128,
     limit_row ''MAX_RUNNING_ATTEMPTS'' 11 U32 True 1 32,
     limit_row ''MAX_MEMORY_BYTES'' 12 U64 True 1 134217728,
     limit_row ''MAX_JOB_BYTES'' 13 U64 True 1 67108864,
     limit_row ''MAX_MUTATION_REPLAYS'' 14 U32 True 1 65536]"

definition EVENTS_OPERATIONS :: "OperationMetadata list" where
  "EVENTS_OPERATIONS =
    [op_row ''GET_CONFIG'' 1 0 0 1 0 0,
     op_row ''SET_CONFIG'' 1 1 0 1 0 0,
     op_row ''DUMP'' 1 2 0 1 0 0,
     op_row ''START_STREAM'' 1 3 0 1 0 0,
     op_row ''STOP_STREAM'' 1 4 0 1 0 0,
     op_row ''START_RECORDING'' 1 5 0 1 0 0,
     op_row ''STOP_RECORDING'' 1 6 0 1 0 0,
     op_row ''LIST_RECORDINGS'' 1 7 0 1 0 0,
     op_row ''RECORD'' 0 0 1 1 2 0,
     op_row ''GAP'' 0 1 1 1 0 0,
     op_row ''STREAM_STOPPED'' 0 2 1 1 0 0]"

definition EVENTS_LIMITS :: "LimitMetadata list" where
  "EVENTS_LIMITS =
    [limit_row ''MIN_RING_BYTES'' 1 U64 True 4096 67104768,
     limit_row ''MAX_RING_BYTES'' 2 U64 True 4096 67104768,
     limit_row ''MAX_STREAMS_PER_SESSION'' 3 U32 True 1 16,
     limit_row ''MAX_RECORDINGS'' 4 U32 True 1 64,
     limit_row ''MAX_RECORDING_PATH_BYTES'' 5 U32 True 1 4096,
     limit_row ''MAX_LIVE_BATCH_BYTES'' 6 U32 True 1 65536,
     limit_row ''MAX_PENDING_DUMPS'' 7 U32 True 1 4,
     limit_row ''MAX_MUTATION_REPLAYS'' 8 U32 True 1 65536]"

definition ENV_OPERATIONS :: "OperationMetadata list" where
  "ENV_OPERATIONS =
    [op_row ''GET'' 1 0 0 1 0 0]"

definition ENV_LIMITS :: "LimitMetadata list" where
  "ENV_LIMITS =
    [limit_row ''MAX_KEY_BYTES'' 1 U32 True 1 4096,
     limit_row ''MAX_VALUE_BYTES'' 2 U32 True 0 1048576,
     limit_row ''MAX_ENTRIES'' 3 U32 True 1 8192,
     limit_row ''MAX_TOTAL_DATA_BYTES'' 4 U64 True 1 4194304,
     limit_row ''MAX_INLINE_BYTES'' 5 U32 True 1 32768,
     limit_row ''MAX_BATCH_BYTES'' 6 U32 True 1 1052686]"

definition FAMILIES :: "FamilyMetadata list" where
  "FAMILIES =
    [\<lparr>fm_name = ''yas.core'', fm_id = 0, fm_version = 1, fm_dependencies = [],
      fm_operations = CORE_OPERATIONS, fm_limits = CORE_LIMITS\<rparr>,
     \<lparr>fm_name = ''yas.transfer'', fm_id = 1, fm_version = 1, fm_dependencies = [],
      fm_operations = TRANSFER_OPERATIONS, fm_limits = TRANSFER_LIMITS\<rparr>,
     \<lparr>fm_name = ''yas.relay'', fm_id = 2, fm_version = 1, fm_dependencies = [1],
      fm_operations = RELAY_OPERATIONS, fm_limits = RELAY_LIMITS\<rparr>,
     \<lparr>fm_name = ''yas.terminal'', fm_id = 16, fm_version = 1, fm_dependencies = [1],
      fm_operations = TERMINAL_OPERATIONS, fm_limits = TERMINAL_LIMITS\<rparr>,
     \<lparr>fm_name = ''yas.client'', fm_id = 17, fm_version = 1, fm_dependencies = [],
      fm_operations = CLIENT_OPERATIONS, fm_limits = CLIENT_LIMITS\<rparr>,
     \<lparr>fm_name = ''yas.surface'', fm_id = 32, fm_version = 1, fm_dependencies = [1],
      fm_operations = SURFACE_OPERATIONS, fm_limits = SURFACE_LIMITS\<rparr>,
     \<lparr>fm_name = ''yas.selection'', fm_id = 33, fm_version = 1, fm_dependencies = [1],
      fm_operations = SELECTION_OPERATIONS, fm_limits = SELECTION_LIMITS\<rparr>,
     \<lparr>fm_name = ''yas.desktop'', fm_id = 34, fm_version = 1, fm_dependencies = [1],
      fm_operations = DESKTOP_OPERATIONS, fm_limits = DESKTOP_LIMITS\<rparr>,
     \<lparr>fm_name = ''yas.media'', fm_id = 35, fm_version = 1, fm_dependencies = [1],
      fm_operations = MEDIA_OPERATIONS, fm_limits = MEDIA_LIMITS\<rparr>,
     \<lparr>fm_name = ''yas.font'', fm_id = 36, fm_version = 1, fm_dependencies = [1],
      fm_operations = FONT_OPERATIONS, fm_limits = FONT_LIMITS\<rparr>,
     \<lparr>fm_name = ''yas.fs'', fm_id = 48, fm_version = 1, fm_dependencies = [1],
      fm_operations = FS_OPERATIONS, fm_limits = FS_LIMITS\<rparr>,
     \<lparr>fm_name = ''yas.git'', fm_id = 49, fm_version = 1, fm_dependencies = [1],
      fm_operations = GIT_OPERATIONS, fm_limits = GIT_LIMITS\<rparr>,
     \<lparr>fm_name = ''yas.lsp'', fm_id = 50, fm_version = 1, fm_dependencies = [1],
      fm_operations = LSP_OPERATIONS, fm_limits = LSP_LIMITS\<rparr>,
     \<lparr>fm_name = ''yas.kv'', fm_id = 51, fm_version = 1, fm_dependencies = [1],
      fm_operations = KV_OPERATIONS, fm_limits = KV_LIMITS\<rparr>,
     \<lparr>fm_name = ''yas.process'', fm_id = 64, fm_version = 1, fm_dependencies = [1],
      fm_operations = PROCESS_OPERATIONS, fm_limits = PROCESS_LIMITS\<rparr>,
     \<lparr>fm_name = ''yas.net'', fm_id = 65, fm_version = 1, fm_dependencies = [1],
      fm_operations = NET_OPERATIONS, fm_limits = NET_LIMITS\<rparr>,
     \<lparr>fm_name = ''yas.channel'', fm_id = 66, fm_version = 1, fm_dependencies = [1],
      fm_operations = CHANNEL_OPERATIONS, fm_limits = CHANNEL_LIMITS\<rparr>,
     \<lparr>fm_name = ''yas.extension'', fm_id = 67, fm_version = 1, fm_dependencies = [1, 66],
      fm_operations = EXTENSION_OPERATIONS, fm_limits = EXTENSION_LIMITS\<rparr>,
     \<lparr>fm_name = ''yas.events'', fm_id = 68, fm_version = 1, fm_dependencies = [1],
      fm_operations = EVENTS_OPERATIONS, fm_limits = EVENTS_LIMITS\<rparr>,
     \<lparr>fm_name = ''yas.env'', fm_id = 69, fm_version = 1, fm_dependencies = [1],
      fm_operations = ENV_OPERATIONS, fm_limits = ENV_LIMITS\<rparr>]"

section \<open>Lookups\<close>

definition family_metadata :: "u16 \<Rightarrow> u16 \<Rightarrow> FamilyMetadata option" where
  "family_metadata family_id version =
     find (\<lambda>f. fm_id f = family_id \<and> fm_version f = version) FAMILIES"

definition operation :: "u16 \<Rightarrow> u8 \<Rightarrow> u16 \<Rightarrow> OperationMetadata option" where
  "operation family_id cls kind =
     (case find (\<lambda>f. fm_id f = family_id) FAMILIES of
        None \<Rightarrow> None
      | Some f \<Rightarrow> find (\<lambda>p. om_class p = cls \<and> om_kind p = kind) (fm_operations f))"

section \<open>The table is consistent\<close>

text \<open>What one operation, one limit and one family of a well-formed schema satisfy.\<close>

definition operation_ok :: "u16 \<Rightarrow> OperationMetadata \<Rightarrow> bool" where
  "operation_ok family_id p \<longleftrightarrow>
     (om_class p = CLASS_EVENT \<or> om_class p = CLASS_REQUEST)
     \<and> om_sensitive p \<in> {POLICY_ALLOWED, POLICY_REQUIRED, POLICY_FORBIDDEN}
     \<and> om_compression p \<in> {POLICY_ALLOWED, POLICY_REQUIRED, POLICY_FORBIDDEN}
     \<and> om_datagram p \<in> {DATAGRAM_FORBIDDEN, DATAGRAM_NET_NATIVE_FLOW, DATAGRAM_SURFACE_FRAME,
                        DATAGRAM_MEDIA_FRAME}
     \<and> (om_datagram p \<noteq> DATAGRAM_FORBIDDEN \<longrightarrow>
          om_class p = CLASS_EVENT \<and> om_compression p = POLICY_FORBIDDEN
          \<and> family_id \<noteq> FAMILY_CORE \<and> family_id \<noteq> FAMILY_TRANSFER)"

definition limit_ok :: "LimitMetadata \<Rightarrow> bool" where
  "limit_ok l \<longleftrightarrow> lm_hard_min l \<le> lm_hard_max l
     \<and> (lm_value_type l = U32 \<longrightarrow> lm_hard_max l < 0x100000000)"

fun strictly_increasing :: "'a::linorder list \<Rightarrow> bool" where
  "strictly_increasing (x # y # zs) \<longleftrightarrow> x < y \<and> strictly_increasing (y # zs)"
| "strictly_increasing _ \<longleftrightarrow> True"

definition family_ok :: "FamilyMetadata \<Rightarrow> bool" where
  "family_ok f \<longleftrightarrow>
     list_all (operation_ok (fm_id f)) (fm_operations f)
     \<and> distinct (map (\<lambda>p. (om_class p, om_kind p)) (fm_operations f))
     \<and> list_all limit_ok (fm_limits f)
     \<and> strictly_increasing (map lm_tag (fm_limits f))
     \<and> list_all (\<lambda>d. d < fm_id f \<and> d \<in> set (map fm_id FAMILIES)) (fm_dependencies f)"

lemma FAMILIES_ids: "strictly_increasing (map fm_id FAMILIES)"
  by code_simp

lemma FAMILIES_ok: "list_all family_ok FAMILIES"
  by code_simp

end
