(* ===== verification/Wire_Transfer.thy ===== *)
theory Wire_Transfer
  imports Wire_Schema "HOL-Library.AList"
begin

text \<open>
  Bulk transfers (\<^verbatim>\<open>crates/yas/src/transfer.rs\<close>): the descriptor that opens a transfer, its
  upload-stage and message extensions, the BYTE_DATA, MESSAGE_DATA, CREDIT, CLOSE and RESET events,
  inline-or-transfer delivery, the reassembly state machine for MESSAGE fragments, and the rules by
  which a RESET disposes of an upload stage.
\<close>

section \<open>Constants\<close>

definition MAX_OPEN_MESSAGES_EXTENSION :: u16 where "MAX_OPEN_MESSAGES_EXTENSION = 1"
definition SENSITIVE_CONTENT_EXTENSION :: u16 where "SENSITIVE_CONTENT_EXTENSION = 2"
definition UPLOAD_STAGE_EXTENSION :: u16 where "UPLOAD_STAGE_EXTENSION = 3"
definition MAX_UPLOAD_STAGE_LIFETIME_NS :: u64 where "MAX_UPLOAD_STAGE_LIFETIME_NS = 3600000000000"
definition MESSAGE_START :: u8 where "MESSAGE_START = 1"
definition MESSAGE_END :: u8 where "MESSAGE_END = 2"
definition KIND_BYTE_DATA :: u16 where "KIND_BYTE_DATA = 0"
definition KIND_MESSAGE_DATA :: u16 where "KIND_MESSAGE_DATA = 1"
definition KIND_CREDIT :: u16 where "KIND_CREDIT = 2"
definition KIND_CLOSE :: u16 where "KIND_CLOSE = 3"
definition KIND_RESET :: u16 where "KIND_RESET = 4"

lemmas transfer_consts =
  HARD_MAX_BULK_CHUNK_def MAX_OPEN_MESSAGES_EXTENSION_def SENSITIVE_CONTENT_EXTENSION_def
  UPLOAD_STAGE_EXTENSION_def MESSAGE_START_def MESSAGE_END_def

section \<open>Upload stages\<close>

record UploadStage =
  us_staging_handle :: u64
  us_expires_server_ns :: u64

record UploadStageKey =
  uk_content_family :: u16
  uk_staging_handle :: u64

definition UploadStage_validate :: "UploadStage \<Rightarrow> error + unit" where
  "UploadStage_validate s =
     (if us_staging_handle s = 0 \<or> us_expires_server_ns s = 0
      then Inl (Invalid ''Transfer upload-stage extension'') else Inr ())"

definition UploadStage_validate_at :: "UploadStage \<Rightarrow> u64 \<Rightarrow> error + unit" where
  "UploadStage_validate_at s created_server_ns =
     ebind (UploadStage_validate s) (\<lambda>_.
       case checked_sub (us_expires_server_ns s) created_server_ns of
         None \<Rightarrow> Inl (Invalid ''Transfer upload-stage expiry'')
       | Some lifetime \<Rightarrow>
           if lifetime = 0 \<or> MAX_UPLOAD_STAGE_LIFETIME_NS < lifetime
           then Inl (Invalid ''Transfer upload-stage expiry'') else Inr ())"

definition UploadStage_is_expired_at :: "UploadStage \<Rightarrow> u64 \<Rightarrow> error + bool" where
  "UploadStage_is_expired_at s now_server_ns =
     ebind (UploadStage_validate s) (\<lambda>_. Inr (us_expires_server_ns s \<le> now_server_ns))"

definition UploadStage_extension :: "UploadStage \<Rightarrow> error + Extension" where
  "UploadStage_extension s =
     ebind (UploadStage_validate s) (\<lambda>_.
       Inr \<lparr>e_tag = UPLOAD_STAGE_EXTENSION, e_required = True,
            e_value = put_u64 (us_staging_handle s) @ put_u64 (us_expires_server_ns s)\<rparr>)"

section \<open>Descriptors\<close>

datatype Mode = Byte | Message

fun Mode_wire :: "Mode \<Rightarrow> u8" where
  "Mode_wire Byte = 0"
| "Mode_wire Message = 1"

definition Mode_try_from :: "u8 \<Rightarrow> error + Mode" where
  "Mode_try_from v =
     (if v = 0 then Inr Byte else if v = 1 then Inr Message else Inl (Invalid ''transfer mode''))"

record Direction =
  receiver_to_sender :: bool
  sender_to_receiver :: bool

definition RECEIVER_TO_SENDER :: Direction where
  "RECEIVER_TO_SENDER = \<lparr>receiver_to_sender = True, sender_to_receiver = False\<rparr>"

definition SENDER_TO_RECEIVER :: Direction where
  "SENDER_TO_RECEIVER = \<lparr>receiver_to_sender = False, sender_to_receiver = True\<rparr>"

definition BIDIRECTIONAL :: Direction where
  "BIDIRECTIONAL = \<lparr>receiver_to_sender = True, sender_to_receiver = True\<rparr>"

definition Direction_bits :: "Direction \<Rightarrow> u8" where
  "Direction_bits d = (of_bool (receiver_to_sender d) * 1) OR (of_bool (sender_to_receiver d) * 2)"

definition Direction_from_bits :: "u8 \<Rightarrow> error + Direction" where
  "Direction_from_bits bits =
     (if bits AND NOT (1 OR 2) \<noteq> 0 \<or> bits = 0 then Inl (Invalid ''transfer direction'')
      else Inr \<lparr>receiver_to_sender = (bits AND 1 \<noteq> 0), sender_to_receiver = (bits AND 2 \<noteq> 0)\<rparr>)"

record Descriptor =
  td_transfer_id :: u32
  td_mode :: Mode
  td_direction :: Direction
  td_receiver_send_credit :: u64
  td_sender_send_credit :: u64
  td_max_item_bytes :: u64
  td_max_chunk_bytes :: u32
  td_content_family :: u16
  td_content_kind :: u16
  td_content_version :: u16
  td_extensions :: Extensions

definition Descriptor_sensitive_content :: "Descriptor \<Rightarrow> error + bool" where
  "Descriptor_sensitive_content d =
     (case find_extension SENSITIVE_CONTENT_EXTENSION (td_extensions d) of
        None \<Rightarrow> Inr False
      | Some e \<Rightarrow> if \<not> e_required e \<or> e_value e \<noteq> []
                  then Inl (Invalid ''Transfer sensitive-content extension'') else Inr True)"

definition Descriptor_max_open_messages :: "Descriptor \<Rightarrow> error + u32" where
  "Descriptor_max_open_messages d =
     (case find_extension MAX_OPEN_MESSAGES_EXTENSION (td_extensions d) of
        None \<Rightarrow> Inr 1
      | Some e \<Rightarrow>
          if length (e_value e) \<noteq> 4 then Inl (Invalid ''Transfer max-open-messages extension'')
          else if (from_le (e_value e) :: u32) = 0
          then Inl (Invalid ''zero Transfer max-open-messages'')
          else Inr (from_le (e_value e)))"

definition Descriptor_upload_stage :: "Descriptor \<Rightarrow> error + UploadStage option" where
  "Descriptor_upload_stage d =
     (case find_extension UPLOAD_STAGE_EXTENSION (td_extensions d) of
        None \<Rightarrow> Inr None
      | Some e \<Rightarrow>
          if \<not> e_required e \<or> length (e_value e) \<noteq> 16
          then Inl (Invalid ''Transfer upload-stage extension'')
          else (let stage = \<lparr>us_staging_handle = from_le (take 8 (e_value e)),
                             us_expires_server_ns = from_le (drop 8 (e_value e))\<rparr>
                in ebind (UploadStage_validate stage) (\<lambda>_. Inr (Some stage))))"

definition Descriptor_upload_stage_key :: "Descriptor \<Rightarrow> error + UploadStageKey option" where
  "Descriptor_upload_stage_key d =
     ebind (Descriptor_upload_stage d) (\<lambda>s.
       Inr (map_option (\<lambda>stage. \<lparr>uk_content_family = td_content_family d,
                                 uk_staging_handle = us_staging_handle stage\<rparr>) s))"

definition Descriptor_require_upload_stage :: "Descriptor \<Rightarrow> u64 \<Rightarrow> error + UploadStage" where
  "Descriptor_require_upload_stage d staging_handle =
     ebind (Descriptor_upload_stage d) (\<lambda>s.
       case s of
         Some stage \<Rightarrow> if us_staging_handle stage = staging_handle then Inr stage
                       else Inl (Invalid ''Transfer upload-stage identity'')
       | None \<Rightarrow> Inl (Invalid ''Transfer upload-stage identity''))"

definition Descriptor_requires_sensitive_frame :: "Descriptor \<Rightarrow> u16 \<Rightarrow> error + bool" where
  "Descriptor_requires_sensitive_frame d kind =
     (if kind = KIND_BYTE_DATA \<or> kind = KIND_MESSAGE_DATA \<or> kind = KIND_CLOSE \<or> kind = KIND_RESET
      then Descriptor_sensitive_content d
      else if kind = KIND_CREDIT then Inr False
      else Inl (Invalid ''Transfer event kind''))"

definition Descriptor_validate :: "Descriptor \<Rightarrow> error + unit" where
  "Descriptor_validate d =
     (if td_transfer_id d = 0 then Inl (Invalid ''zero transfer ID'')
      else if \<not> receiver_to_sender (td_direction d) \<and> td_receiver_send_credit d \<noteq> 0
      then Inl (Invalid ''credit for disallowed transfer direction'')
      else if \<not> sender_to_receiver (td_direction d) \<and> td_sender_send_credit d \<noteq> 0
      then Inl (Invalid ''credit for disallowed transfer direction'')
      else if td_mode d = Byte \<and> td_max_item_bytes d \<noteq> 0
      then Inl (Invalid ''BYTE max item bytes'')
      else if td_mode d = Message \<and> td_max_item_bytes d = 0
      then Inl (Invalid ''MESSAGE max item bytes'')
      else if td_max_chunk_bytes d = 0 \<or> HARD_MAX_BULK_CHUNK < td_max_chunk_bytes d
      then Inl (Invalid ''transfer max chunk bytes'')
      else
        ebind (reject_unknown_required_extensions (td_extensions d)
                 [MAX_OPEN_MESSAGES_EXTENSION, SENSITIVE_CONTENT_EXTENSION, UPLOAD_STAGE_EXTENSION]
                 ''unknown required Transfer descriptor extension'') (\<lambda>_.
        if td_mode d = Byte
           \<and> list_ex (\<lambda>e. e_tag e = MAX_OPEN_MESSAGES_EXTENSION) (td_extensions d)
        then Inl (Invalid ''BYTE max-open-messages extension'')
        else
        ebind (Descriptor_max_open_messages d) (\<lambda>_.
        ebind (Descriptor_sensitive_content d) (\<lambda>sensitive.
        ebind (Descriptor_upload_stage d) (\<lambda>stage.
        if stage \<noteq> None
           \<and> (td_mode d \<noteq> Byte \<or> td_direction d \<noteq> RECEIVER_TO_SENDER
              \<or> td_sender_send_credit d \<noteq> 0 \<or> \<not> sensitive)
        then Inl (Invalid ''Transfer upload-stage descriptor'')
        else Inr ())))))"

definition Descriptor_encode :: "Descriptor \<Rightarrow> error + bytes" where
  "Descriptor_encode d =
     ebind (Descriptor_validate d) (\<lambda>_.
     ebind (Extensions_encode_tail (td_extensions d)) (\<lambda>tail.
       Inr (put_u32 (td_transfer_id d) @ put_u8 (Mode_wire (td_mode d))
            @ put_u8 (Direction_bits (td_direction d)) @ put_u16 0
            @ put_u64 (td_receiver_send_credit d) @ put_u64 (td_sender_send_credit d)
            @ put_u64 (td_max_item_bytes d) @ put_u32 (td_max_chunk_bytes d)
            @ put_u16 (td_content_family d) @ put_u16 (td_content_kind d)
            @ put_u16 (td_content_version d) @ tail)))"

definition Descriptor_body :: "Descriptor reader" where
  "Descriptor_body =
     rbind dec_u32 (\<lambda>transfer_id.
     rbind dec_u8 (\<lambda>m. rbind (rlift (Mode_try_from m)) (\<lambda>mode.
     rbind dec_u8 (\<lambda>bits. rbind (rlift (Direction_from_bits bits)) (\<lambda>direction.
     rbind dec_u16 (\<lambda>flags.
     if flags \<noteq> 0 then rfail (Invalid ''transfer descriptor flags'')
     else
     rbind dec_u64 (\<lambda>receiver_send_credit. rbind dec_u64 (\<lambda>sender_send_credit.
     rbind dec_u64 (\<lambda>max_item_bytes. rbind dec_u32 (\<lambda>max_chunk_bytes.
     rbind dec_u16 (\<lambda>content_family. rbind dec_u16 (\<lambda>content_kind.
     rbind dec_u16 (\<lambda>content_version. rbind dec_extensions (\<lambda>extensions.
       rret \<lparr>td_transfer_id = transfer_id, td_mode = mode, td_direction = direction,
             td_receiver_send_credit = receiver_send_credit,
             td_sender_send_credit = sender_send_credit, td_max_item_bytes = max_item_bytes,
             td_max_chunk_bytes = max_chunk_bytes, td_content_family = content_family,
             td_content_kind = content_kind, td_content_version = content_version,
             td_extensions = extensions\<rparr>))))))))))))))"

definition Descriptor_decode :: "bytes \<Rightarrow> error + Descriptor" where
  "Descriptor_decode =
     rrun (rbind Descriptor_body (\<lambda>v. rbind dec_finish (\<lambda>_.
       rlift (ebind (Descriptor_validate v) (\<lambda>_. Inr v)))))"

section \<open>Delivery\<close>

datatype Delivery = Inline bytes | Transfer Descriptor

record InlineOrTransfer =
  it_byte_len :: u64
  it_content_hash :: bytes
  it_delivery :: Delivery

definition InlineOrTransfer_ok :: "InlineOrTransfer \<Rightarrow> bool" where
  "InlineOrTransfer_ok v \<longleftrightarrow> length (it_content_hash v) = 32"

definition InlineOrTransfer_encode :: "InlineOrTransfer \<Rightarrow> error + bytes" where
  "InlineOrTransfer_encode v =
     (case it_delivery v of
        Inline bs \<Rightarrow>
          if of_nat (length bs) = it_byte_len v
          then ebind (put_len_u32 (length bs)) (\<lambda>len.
                 Inr (put_u8 0 @ [0, 0, 0] @ put_u64 (it_byte_len v) @ it_content_hash v @ len @ bs))
          else Inl (Invalid ''inline delivery length'')
      | Transfer d \<Rightarrow>
          if td_mode d = Byte \<and> td_max_item_bytes d = 0
          then ebind (Descriptor_encode d) (\<lambda>body.
                 Inr (put_u8 1 @ [0, 0, 0] @ put_u64 (it_byte_len v) @ it_content_hash v @ body))
          else Inl (Invalid ''non-BYTE delivery transfer''))"

definition InlineOrTransfer_body :: "InlineOrTransfer reader" where
  "InlineOrTransfer_body =
     rbind dec_u8 (\<lambda>kind. rbind (dec_take 3) (\<lambda>reserved.
     if reserved \<noteq> [0, 0, 0] then rfail (Invalid ''delivery reserved bytes'')
     else rbind dec_u64 (\<lambda>byte_len. rbind dec_array_32 (\<lambda>content_hash.
     rbind (if kind = 0 then rbind dec_len_bytes_u32 (\<lambda>bs. rret (Inline bs))
            else if kind = 1
            then rbind dec_rest (\<lambda>rest. rbind (rlift (Descriptor_decode rest)) (\<lambda>d. rret (Transfer d)))
            else rfail (Invalid ''delivery kind'')) (\<lambda>delivery.
       rret \<lparr>it_byte_len = byte_len, it_content_hash = content_hash, it_delivery = delivery\<rparr>)))))"

definition InlineOrTransfer_decode :: "bytes \<Rightarrow> error + InlineOrTransfer" where
  "InlineOrTransfer_decode =
     rrun (rbind InlineOrTransfer_body (\<lambda>v. rbind dec_finish (\<lambda>_.
       rlift (ebind (InlineOrTransfer_encode v) (\<lambda>_. Inr v)))))"

section \<open>Events\<close>

record ByteData =
  bd_transfer_id :: u32
  bd_offset :: u64
  bd_data :: bytes

definition ByteData_encode :: "ByteData \<Rightarrow> error + bytes" where
  "ByteData_encode v =
     (if bd_transfer_id v = 0 \<or> bd_data v = [] \<or> unat HARD_MAX_BULK_CHUNK < length (bd_data v)
      then Inl (Invalid ''BYTE_DATA'')
      else Inr (put_u32 (bd_transfer_id v) @ put_u64 (bd_offset v) @ bd_data v))"

definition ByteData_body :: "ByteData reader" where
  "ByteData_body =
     rbind dec_u32 (\<lambda>transfer_id. rbind dec_u64 (\<lambda>offset. rbind dec_rest (\<lambda>data.
       rret \<lparr>bd_transfer_id = transfer_id, bd_offset = offset, bd_data = data\<rparr>)))"

definition ByteData_decode :: "bytes \<Rightarrow> error + ByteData" where
  "ByteData_decode =
     rrun (rbind ByteData_body (\<lambda>v. rbind dec_finish (\<lambda>_.
       rlift (ebind (ByteData_encode v) (\<lambda>_. Inr v)))))"

record MessageData =
  md_transfer_id :: u32
  md_sequence :: u64
  md_fragment_offset :: u64
  md_start :: bool
  md_end :: bool
  md_data :: bytes

definition MessageData_encode :: "MessageData \<Rightarrow> error + bytes" where
  "MessageData_encode v =
     (if md_transfer_id v = 0 \<or> md_data v = [] \<or> unat HARD_MAX_BULK_CHUNK < length (md_data v)
      then Inl (Invalid ''MESSAGE_DATA'')
      else Inr (put_u32 (md_transfer_id v) @ put_u64 (md_sequence v)
                @ put_u64 (md_fragment_offset v)
                @ put_u8 ((of_bool (md_start v) * MESSAGE_START) OR (of_bool (md_end v) * MESSAGE_END))
                @ [0, 0, 0] @ md_data v))"

definition MessageData_body :: "MessageData reader" where
  "MessageData_body =
     rbind dec_u32 (\<lambda>transfer_id. rbind dec_u64 (\<lambda>sequence. rbind dec_u64 (\<lambda>fragment_offset.
     rbind dec_u8 (\<lambda>flags.
     if flags AND NOT (MESSAGE_START OR MESSAGE_END) \<noteq> 0
     then rfail (Invalid ''MESSAGE_DATA flags or reserved bytes'')
     else rbind (dec_take 3) (\<lambda>reserved.
     if reserved \<noteq> [0, 0, 0] then rfail (Invalid ''MESSAGE_DATA flags or reserved bytes'')
     else rbind dec_rest (\<lambda>data.
       rret \<lparr>md_transfer_id = transfer_id, md_sequence = sequence,
             md_fragment_offset = fragment_offset, md_start = (flags AND MESSAGE_START \<noteq> 0),
             md_end = (flags AND MESSAGE_END \<noteq> 0), md_data = data\<rparr>))))))"

definition MessageData_decode :: "bytes \<Rightarrow> error + MessageData" where
  "MessageData_decode =
     rrun (rbind MessageData_body (\<lambda>v. rbind dec_finish (\<lambda>_.
       rlift (ebind (MessageData_encode v) (\<lambda>_. Inr v)))))"

record Credit =
  cr_transfer_id :: u32
  cr_cumulative_limit :: u64

definition Credit_encode :: "Credit \<Rightarrow> error + bytes" where
  "Credit_encode v =
     (if cr_transfer_id v = 0 then Inl (Invalid ''zero transfer ID'')
      else Inr (put_u32 (cr_transfer_id v) @ put_u64 (cr_cumulative_limit v)))"

definition Credit_body :: "Credit reader" where
  "Credit_body =
     rbind dec_u32 (\<lambda>transfer_id. rbind dec_u64 (\<lambda>cumulative_limit.
       rret \<lparr>cr_transfer_id = transfer_id, cr_cumulative_limit = cumulative_limit\<rparr>))"

definition Credit_decode :: "bytes \<Rightarrow> error + Credit" where
  "Credit_decode =
     rrun (rbind Credit_body (\<lambda>v. rbind dec_finish (\<lambda>_.
       rlift (if cr_transfer_id v = 0 then Inl (Invalid ''zero transfer ID'') else Inr v))))"

record Close =
  cl_transfer_id :: u32
  cl_final_data_bytes :: u64
  cl_status :: u16
  cl_detail :: bytes

definition Close_encode :: "Close \<Rightarrow> error + bytes" where
  "Close_encode v =
     (if cl_transfer_id v = 0 then Inl (Invalid ''zero transfer ID'')
      else ebind (put_len_u32 (length (cl_detail v))) (\<lambda>len.
        Inr (put_u32 (cl_transfer_id v) @ put_u64 (cl_final_data_bytes v) @ put_u16 (cl_status v)
             @ put_u16 0 @ len @ cl_detail v)))"

definition Close_body :: "Close reader" where
  "Close_body =
     rbind dec_u32 (\<lambda>transfer_id. rbind dec_u64 (\<lambda>final_data_bytes. rbind dec_u16 (\<lambda>status.
     rbind dec_u16 (\<lambda>reserved.
     if reserved \<noteq> 0 then rfail (Invalid ''CLOSE reserved field'')
     else rbind dec_len_bytes_u32 (\<lambda>detail.
       rret \<lparr>cl_transfer_id = transfer_id, cl_final_data_bytes = final_data_bytes,
             cl_status = status, cl_detail = detail\<rparr>)))))"

definition Close_decode :: "bytes \<Rightarrow> error + Close" where
  "Close_decode =
     rrun (rbind Close_body (\<lambda>v. rbind dec_finish (\<lambda>_.
       rlift (if cl_transfer_id v = 0 then Inl (Invalid ''zero transfer ID'') else Inr v))))"

record Reset =
  rs_transfer_id :: u32
  rs_status :: u16
  rs_detail :: bytes

definition Reset_encode :: "Reset \<Rightarrow> error + bytes" where
  "Reset_encode v =
     (if rs_transfer_id v = 0 then Inl (Invalid ''zero transfer ID'')
      else ebind (put_len_u32 (length (rs_detail v))) (\<lambda>len.
        Inr (put_u32 (rs_transfer_id v) @ put_u16 (rs_status v) @ put_u16 0 @ len @ rs_detail v)))"

definition Reset_body :: "Reset reader" where
  "Reset_body =
     rbind dec_u32 (\<lambda>transfer_id. rbind dec_u16 (\<lambda>status. rbind dec_u16 (\<lambda>reserved.
     if reserved \<noteq> 0 then rfail (Invalid ''RESET reserved field'')
     else rbind dec_len_bytes_u32 (\<lambda>detail.
       rret \<lparr>rs_transfer_id = transfer_id, rs_status = status, rs_detail = detail\<rparr>))))"

definition Reset_decode :: "bytes \<Rightarrow> error + Reset" where
  "Reset_decode =
     rrun (rbind Reset_body (\<lambda>v. rbind dec_finish (\<lambda>_.
       rlift (if rs_transfer_id v = 0 then Inl (Invalid ''zero transfer ID'') else Inr v))))"

definition Reset_disposed_upload_stage :: "Reset \<Rightarrow> Descriptor \<Rightarrow> error + UploadStage option" where
  "Reset_disposed_upload_stage r d =
     (if rs_transfer_id r \<noteq> td_transfer_id d then Inl (Invalid ''Transfer RESET descriptor mismatch'')
      else ebind (Descriptor_validate d) (\<lambda>_. Descriptor_upload_stage d))"

definition Reset_disposed_upload_stage_key ::
  "Reset \<Rightarrow> Descriptor \<Rightarrow> error + UploadStageKey option" where
  "Reset_disposed_upload_stage_key r d =
     (if rs_transfer_id r \<noteq> td_transfer_id d then Inl (Invalid ''Transfer RESET descriptor mismatch'')
      else ebind (Descriptor_validate d) (\<lambda>_. Descriptor_upload_stage_key d))"

definition Reset_disposed_upload_stage_from ::
  "Reset \<Rightarrow> u64 \<Rightarrow> Descriptor list \<Rightarrow> error + UploadStage option" where
  "Reset_disposed_upload_stage_from r staging_handle descriptors =
     (case find (\<lambda>d. td_transfer_id d = rs_transfer_id r) descriptors of
        None \<Rightarrow> Inr None
      | Some d \<Rightarrow>
          ebind (Reset_disposed_upload_stage r d) (\<lambda>s.
            case s of
              None \<Rightarrow> Inl (Invalid ''Transfer RESET missing upload stage'')
            | Some stage \<Rightarrow>
                if us_staging_handle stage \<noteq> staging_handle
                then Inl (Invalid ''Transfer RESET upload-stage identity'')
                else Inr (Some stage)))"

section \<open>MESSAGE reassembly\<close>

text \<open>
  The receive side of one MESSAGE direction. The open messages are the source's \<^verbatim>\<open>BTreeMap\<close>
  from sequence number to the next expected offset, here an association list with distinct keys.
\<close>

record MessageReceiver =
  mr_max_item_bytes :: u64
  mr_max_open_messages :: u32
  mr_open :: "(u64 \<times> u64) list"

definition MessageReceiver_new :: "Descriptor \<Rightarrow> error + MessageReceiver" where
  "MessageReceiver_new d =
     ebind (Descriptor_validate d) (\<lambda>_.
       if td_mode d \<noteq> Message then Inl (Invalid ''MESSAGE receiver for BYTE transfer'')
       else ebind (Descriptor_max_open_messages d) (\<lambda>n.
         Inr \<lparr>mr_max_item_bytes = td_max_item_bytes d, mr_max_open_messages = n, mr_open = []\<rparr>))"

text \<open>
  \<^verbatim>\<open>accept\<close> returns the receiver it leaves with its result, also on an error: a continuation that
  passes the item limit is refused after its offset has been advanced in place.
\<close>

definition MessageReceiver_accept ::
  "MessageReceiver \<Rightarrow> MessageData \<Rightarrow> MessageReceiver \<times> (error + bool)" where
  "MessageReceiver_accept m f =
     (if md_data f = [] then (m, Inl (Invalid ''empty MESSAGE_DATA fragment''))
      else let data_len = of_nat (length (md_data f)) :: u64 in
      if md_start f then
        (if md_fragment_offset f \<noteq> 0 \<or> map_of (mr_open m) (md_sequence f) \<noteq> None
         then (m, Inl (Invalid ''MESSAGE START''))
         else if unat (mr_max_open_messages m) \<le> length (mr_open m)
         then (m, Inl (Invalid ''too many open messages''))
         else if mr_max_item_bytes m < data_len
         then (m, Inl (LimitExceeded ''Transfer message item'' data_len (mr_max_item_bytes m)))
         else if md_end f then (m, Inr True)
         else (m\<lparr>mr_open := AList.update (md_sequence f) data_len (mr_open m)\<rparr>, Inr False))
      else
        (case map_of (mr_open m) (md_sequence f) of
           None \<Rightarrow> (m, Inl (Invalid ''MESSAGE fragment without START''))
         | Some offset \<Rightarrow>
             if md_fragment_offset f \<noteq> offset then (m, Inl (Invalid ''MESSAGE fragment offset''))
             else (case checked_add offset data_len of
                     None \<Rightarrow> (m, Inl LengthOverflow)
                   | Some after \<Rightarrow>
                       let m' = m\<lparr>mr_open := AList.update (md_sequence f) after (mr_open m)\<rparr> in
                       if mr_max_item_bytes m < after
                       then (m', Inl (LimitExceeded ''Transfer message item'' after
                                        (mr_max_item_bytes m)))
                       else if md_end f
                       then (m'\<lparr>mr_open := AList.delete (md_sequence f) (mr_open m')\<rparr>, Inr True)
                       else (m', Inr False))))"

definition MessageReceiver_open_messages :: "MessageReceiver \<Rightarrow> nat" where
  "MessageReceiver_open_messages m = length (mr_open m)"

section \<open>The payloads are canonical\<close>

lemma Mode_try_from_iff: "Mode_try_from v = Inr m \<longleftrightarrow> v = Mode_wire m"
  by (cases m) (auto simp: Mode_try_from_def)

definition Direction_nonempty :: "Direction \<Rightarrow> bool" where
  "Direction_nonempty d \<longleftrightarrow> receiver_to_sender d \<or> sender_to_receiver d"

lemma Direction_from_bits_iff:
  "Direction_from_bits bits = Inr d \<longleftrightarrow> bits = Direction_bits d \<and> Direction_nonempty d"
proof (cases d)
  case (fields r2s s2r)
  have "Direction_from_bits bits = Inr d \<longleftrightarrow>
      (bits = 1 \<or> bits = 2 \<or> bits = 3)
      \<and> r2s = (bits AND 1 \<noteq> 0) \<and> s2r = (bits AND 2 \<noteq> 0)"
    by (auto simp: Direction_from_bits_def fields rd_iff split: if_splits)
  then show ?thesis
    by (cases r2s; cases s2r) (auto simp: fields Direction_bits_def Direction_nonempty_def)
qed

lemma Descriptor_decode_iff:
  "Descriptor_decode b = Inr d \<longleftrightarrow> Direction_nonempty (td_direction d) \<and> Descriptor_encode d = Inr b"
  by (cases d)
    (auto simp: Descriptor_decode_def Descriptor_body_def Descriptor_encode_def rd_iff enc_iff
      Mode_try_from_iff Direction_from_bits_iff)

lemma Descriptor_body_stable: "stable Descriptor_body"
  unfolding Descriptor_body_def by (intro rd_stable)

interpretation Descriptor_codec: self_delimiting_codec
  "\<lambda>d. Direction_nonempty (td_direction d)" Descriptor_encode Descriptor_decode
  by unfold_locales (rule Descriptor_decode_iff,
    rule framed_not_ok [OF Descriptor_decode_def Descriptor_body_stable])

definition Delivery_ok :: "InlineOrTransfer \<Rightarrow> bool" where
  "Delivery_ok v \<longleftrightarrow> InlineOrTransfer_ok v \<and>
     (case it_delivery v of Inline _ \<Rightarrow> True | Transfer d \<Rightarrow> Direction_nonempty (td_direction d))"

lemma InlineOrTransfer_decode_iff:
  "InlineOrTransfer_decode b = Inr v \<longleftrightarrow> Delivery_ok v \<and> InlineOrTransfer_encode v = Inr b"
proof (cases v)
  case (fields byte_len hash delivery)
  show ?thesis
    by (cases delivery)
      (auto simp: InlineOrTransfer_decode_def InlineOrTransfer_body_def InlineOrTransfer_encode_def
        Delivery_ok_def InlineOrTransfer_ok_def fields rd_iff enc_iff array_32_field.fget_iff
        Descriptor_decode_iff)
qed

interpretation InlineOrTransfer_codec: canonical_codec
  Delivery_ok InlineOrTransfer_encode InlineOrTransfer_decode
  by unfold_locales (rule InlineOrTransfer_decode_iff)

lemma ByteData_decode_iff: "ByteData_decode b = Inr v \<longleftrightarrow> ByteData_encode v = Inr b"
  by (cases v) (auto simp: ByteData_decode_def ByteData_body_def ByteData_encode_def rd_iff enc_iff)

lemma MessageData_decode_iff: "MessageData_decode b = Inr v \<longleftrightarrow> MessageData_encode v = Inr b"
proof (cases v)
  case (fields tid seqno off st en data)
  show ?thesis
    by (cases st; cases en)
      (auto simp: MessageData_decode_def MessageData_body_def MessageData_encode_def fields rd_iff
        enc_iff transfer_consts)
qed

lemma Credit_decode_iff: "Credit_decode b = Inr v \<longleftrightarrow> Credit_encode v = Inr b"
  by (cases v) (auto simp: Credit_decode_def Credit_body_def Credit_encode_def rd_iff enc_iff)

lemma Close_decode_iff: "Close_decode b = Inr v \<longleftrightarrow> Close_encode v = Inr b"
  by (cases v) (auto simp: Close_decode_def Close_body_def Close_encode_def rd_iff enc_iff)

lemma Reset_decode_iff: "Reset_decode b = Inr v \<longleftrightarrow> Reset_encode v = Inr b"
  by (cases v) (auto simp: Reset_decode_def Reset_body_def Reset_encode_def rd_iff enc_iff)

interpretation ByteData_codec: canonical_codec "\<lambda>_. True" ByteData_encode ByteData_decode
  by unfold_locales (simp add: ByteData_decode_iff)

interpretation MessageData_codec: canonical_codec "\<lambda>_. True" MessageData_encode MessageData_decode
  by unfold_locales (simp add: MessageData_decode_iff)

lemma Credit_body_stable: "stable Credit_body"
  unfolding Credit_body_def by (intro rd_stable)

lemma Close_body_stable: "stable Close_body"
  unfolding Close_body_def by (intro rd_stable)

lemma Reset_body_stable: "stable Reset_body"
  unfolding Reset_body_def by (intro rd_stable)

interpretation Credit_codec: self_delimiting_codec "\<lambda>_. True" Credit_encode Credit_decode
  by unfold_locales (simp add: Credit_decode_iff,
    rule framed_not_ok [OF Credit_decode_def Credit_body_stable])

interpretation Close_codec: self_delimiting_codec "\<lambda>_. True" Close_encode Close_decode
  by unfold_locales (simp add: Close_decode_iff,
    rule framed_not_ok [OF Close_decode_def Close_body_stable])

interpretation Reset_codec: self_delimiting_codec "\<lambda>_. True" Reset_encode Reset_decode
  by unfold_locales (simp add: Reset_decode_iff,
    rule framed_not_ok [OF Reset_decode_def Reset_body_stable])

section \<open>Upload stages\<close>

lemma UploadStage_validate_at_iff:
  "UploadStage_validate_at s t = Inr () \<longleftrightarrow>
     us_staging_handle s \<noteq> 0 \<and> unat t < unat (us_expires_server_ns s)
     \<and> unat (us_expires_server_ns s) \<le> unat t + unat MAX_UPLOAD_STAGE_LIFETIME_NS"
proof (cases "checked_sub (us_expires_server_ns s) t")
  case None
  then have "unat (us_expires_server_ns s) < unat t"
    by (simp add: checked_sub_def word_le_nat_alt split: if_splits)
  with None show ?thesis
    by (auto simp: UploadStage_validate_at_def enc_iff)
next
  case (Some l)
  then have l: "unat (us_expires_server_ns s) = unat t + unat l"
    by (simp add: checked_sub_Some_iff)
  have "us_expires_server_ns s \<noteq> 0" if "0 < unat l"
    using l that by (metis add_is_0 less_irrefl unat_0)
  with Some l show ?thesis
    by (auto simp: UploadStage_validate_at_def UploadStage_validate_def enc_iff word_less_nat_alt
        unat_gt_0 not_less)
qed

lemma find_extension_single:
  "find_extension (e_tag e) (xs @ e # ys) = Some e" if "\<forall>x\<in>set xs. e_tag x \<noteq> e_tag e"
  using that by (induction xs) (auto simp: find_extension_def)

lemma from_le_put_u64 [simp]: "from_le (put_u64 x) = x"
  using take_bit_length_eq [of x] by (simp add: put_u64_def from_le_le_bytes)

lemma from_le_put_u32 [simp]: "from_le (put_u32 x) = x"
  using take_bit_length_eq [of x] by (simp add: put_u32_def from_le_le_bytes)

lemma Descriptor_upload_stage_extension:
  assumes "UploadStage_extension s = Inr e"
    and "find_extension UPLOAD_STAGE_EXTENSION (td_extensions d) = Some e"
  shows "Descriptor_upload_stage d = Inr (Some s)"
  using assms
  by (cases s) (auto simp: UploadStage_extension_def Descriptor_upload_stage_def enc_iff Let_def)

lemma Descriptor_validate_upload:
  assumes "Descriptor_validate d = Inr ()" and "Descriptor_upload_stage d = Inr (Some stage)"
  shows "td_mode d = Byte \<and> td_direction d = RECEIVER_TO_SENDER \<and> td_sender_send_credit d = 0
    \<and> Descriptor_sensitive_content d = Inr True"
  using assms by (auto simp: Descriptor_validate_def enc_iff split: if_splits)

lemma Reset_disposed_from_iff:
  "Reset_disposed_upload_stage_from r handle ds = Inr (Some stage) \<longleftrightarrow>
     us_staging_handle stage = handle \<and>
     (\<exists>d. find (\<lambda>d. td_transfer_id d = rs_transfer_id r) ds = Some d
        \<and> Descriptor_validate d = Inr () \<and> Descriptor_upload_stage d = Inr (Some stage))"
proof (cases "find (\<lambda>d. td_transfer_id d = rs_transfer_id r) ds")
  case None
  then show ?thesis by (simp add: Reset_disposed_upload_stage_from_def)
next
  case (Some d)
  then have "td_transfer_id d = rs_transfer_id r" by (auto simp: find_Some_iff)
  with Some show ?thesis
    by (cases "Descriptor_validate d"; cases "Descriptor_upload_stage d")
      (auto simp: Reset_disposed_upload_stage_from_def Reset_disposed_upload_stage_def
        split: option.splits)
qed

section \<open>MESSAGE reassembly\<close>

definition MessageReceiver_inv :: "MessageReceiver \<Rightarrow> bool" where
  "MessageReceiver_inv m \<longleftrightarrow>
     distinct (map fst (mr_open m)) \<and> length (mr_open m) \<le> unat (mr_max_open_messages m)"

lemma length_update:
  "length (AList.update k v xs) = (if map_of xs k = None then Suc (length xs) else length xs)"
  by (induction xs) auto

lemma length_delete_le: "length (AList.delete k xs) \<le> length xs"
  by (simp add: AList.delete_eq)

lemma MessageReceiver_inv_update:
  assumes "MessageReceiver_inv m"
    and "map_of (mr_open m) k \<noteq> None \<or> length (mr_open m) < unat (mr_max_open_messages m)"
  shows "MessageReceiver_inv (m\<lparr>mr_open := AList.update k v (mr_open m)\<rparr>)"
  using assms by (auto simp: MessageReceiver_inv_def length_update distinct_update)

lemma MessageReceiver_inv_delete:
  "MessageReceiver_inv m \<Longrightarrow> MessageReceiver_inv (m\<lparr>mr_open := AList.delete k (mr_open m)\<rparr>)"
  using length_delete_le [of k "mr_open m"]
  by (auto simp: MessageReceiver_inv_def distinct_delete)

lemma MessageReceiver_accept_inv:
  assumes "MessageReceiver_inv m" and "MessageReceiver_accept m f = (m', res)"
  shows "MessageReceiver_inv m' \<and> mr_max_item_bytes m' = mr_max_item_bytes m
    \<and> mr_max_open_messages m' = mr_max_open_messages m"
proof (cases "map_of (mr_open m) (md_sequence f)")
  case None
  with assms show ?thesis
    by (auto simp: MessageReceiver_accept_def Let_def not_le
        intro: MessageReceiver_inv_update split: if_splits)
next
  case (Some offset)
  have upd: "MessageReceiver_inv (m\<lparr>mr_open := AList.update (md_sequence f) v (mr_open m)\<rparr>)" for v
    using assms(1) Some by (intro MessageReceiver_inv_update) simp_all
  have del: "MessageReceiver_inv (m\<lparr>mr_open := AList.delete (md_sequence f)
      (AList.update (md_sequence f) v (mr_open m))\<rparr>)" for v
    using MessageReceiver_inv_delete [OF upd, of "md_sequence f" v] by simp
  from assms Some upd del show ?thesis
    by (auto simp: MessageReceiver_accept_def Let_def split: if_splits option.splits)
qed

text \<open>
  The specification: the receiver keeps, for each open message, the bytes received so far.
  \<open>assemble\<close> says what a fragment does to them and which message, if any, it completes.
\<close>

type_synonym buffers = "u64 \<Rightarrow> bytes option"

definition assemble :: "buffers \<Rightarrow> MessageData \<Rightarrow> buffers \<times> bytes option" where
  "assemble B f =
     (let msg = (if md_start f then [] else the (B (md_sequence f))) @ md_data f in
      if md_end f then (B(md_sequence f := None), Some msg)
      else (B(md_sequence f := Some msg), None))"

definition receives :: "MessageReceiver \<Rightarrow> buffers \<Rightarrow> bool" where
  "receives m B \<longleftrightarrow>
     (\<forall>s. map_option unat (map_of (mr_open m) s) = map_option length (B s))"

lemma receivesD:
  assumes "receives m B"
  shows "map_of (mr_open m) s = None \<longleftrightarrow> B s = None"
    and "map_of (mr_open m) s = Some n \<Longrightarrow> \<exists>b. B s = Some b \<and> length b = unat n"
proof -
  from assms have s: "map_option unat (map_of (mr_open m) s) = map_option length (B s)"
    by (simp add: receives_def)
  then show "map_of (mr_open m) s = None \<longleftrightarrow> B s = None" by (metis map_option_is_None)
  show "\<exists>b. B s = Some b \<and> length b = unat n" if "map_of (mr_open m) s = Some n"
    using s that by (cases "B s") auto
qed

lemma receives_update:
  "receives m B \<Longrightarrow> unat v = length b \<Longrightarrow>
     receives (m\<lparr>mr_open := AList.update k v (mr_open m)\<rparr>) (B(k := Some b))"
  by (simp add: receives_def update_conv')

lemma receives_delete:
  "receives m B \<Longrightarrow> receives (m\<lparr>mr_open := AList.delete k (mr_open m)\<rparr>) (B(k := None))"
  by (simp add: receives_def delete_conv')

lemma unat_of_nat_u64: "n < 2 ^ 64 \<Longrightarrow> unat (of_nat n :: u64) = n"
  by (simp add: unat_of_nat)

lemma accept_start_simulates:
  assumes "receives m B" and "MessageReceiver_accept m f = (m', Inr finished)"
    and "length (md_data f) < 2 ^ 64" and "md_start f"
  shows "B (md_sequence f) = None \<and> md_fragment_offset f = 0
    \<and> length (md_data f) \<le> unat (mr_max_item_bytes m) \<and> finished = md_end f
    \<and> receives m' (fst (assemble B f))"
proof -
  have len: "unat (of_nat (length (md_data f)) :: u64) = length (md_data f)"
    using assms(3) by (rule unat_of_nat_u64)
  from assms(2,4) have none: "map_of (mr_open m) (md_sequence f) = None"
    and off: "md_fragment_offset f = 0" and size: "length (md_data f) \<le> unat (mr_max_item_bytes m)"
    and fin: "finished = md_end f"
    and m': "m' = (if md_end f then m else
        m\<lparr>mr_open := AList.update (md_sequence f) (of_nat (length (md_data f))) (mr_open m)\<rparr>)"
    by (auto simp: MessageReceiver_accept_def Let_def word_less_nat_alt len not_less split: if_splits)
  from none receivesD(1) [OF assms(1)] have B: "B (md_sequence f) = None" by blast
  have "receives m' (fst (assemble B f))"
    using assms(1,4) B len receives_update [OF assms(1) len]
    by (auto simp: m' assemble_def Let_def fun_upd_idem)
  with B off size fin show ?thesis by blast
qed

lemma accept_continue_simulates:
  assumes "receives m B" and "MessageReceiver_accept m f = (m', Inr finished)"
    and "length (md_data f) < 2 ^ 64" and "\<not> md_start f"
  shows "\<exists>b. B (md_sequence f) = Some b \<and> unat (md_fragment_offset f) = length b
    \<and> length (b @ md_data f) \<le> unat (mr_max_item_bytes m) \<and> finished = md_end f
    \<and> receives m' (fst (assemble B f))"
proof -
  have len: "unat (of_nat (length (md_data f)) :: u64) = length (md_data f)"
    using assms(3) by (rule unat_of_nat_u64)
  from assms(2,4) obtain after where
    open_at: "map_of (mr_open m) (md_sequence f) = Some (md_fragment_offset f)"
    and add: "checked_add (md_fragment_offset f) (of_nat (length (md_data f))) = Some after"
    and size: "unat after \<le> unat (mr_max_item_bytes m)" and fin: "finished = md_end f"
    and m': "m' = (let n = m\<lparr>mr_open := AList.update (md_sequence f) after (mr_open m)\<rparr> in
        if md_end f then n\<lparr>mr_open := AList.delete (md_sequence f) (mr_open n)\<rparr> else n)"
    by (auto simp: MessageReceiver_accept_def Let_def word_less_nat_alt not_less
        split: if_splits option.splits)
  from receivesD(2) [OF assms(1) open_at] obtain b where
    b: "B (md_sequence f) = Some b" and lb: "length b = unat (md_fragment_offset f)"
    by blast
  from add have "unat after = length (b @ md_data f)"
    by (simp add: checked_add_Some_iff len lb)
  note upd = receives_update [OF assms(1) this, of "md_sequence f"]
  have "receives m' (fst (assemble B f))"
    using upd receives_delete [OF upd, of "md_sequence f"] assms(4) b
    by (auto simp: m' assemble_def Let_def)
  with b lb size fin \<open>unat after = length (b @ md_data f)\<close> show ?thesis by auto
qed

section \<open>Runs of the receiver\<close>

text \<open>Feeding fragments in order; the first refusal ends the transfer.\<close>

fun accept_all :: "MessageReceiver \<Rightarrow> MessageData list \<Rightarrow> error + MessageReceiver \<times> bool list" where
  "accept_all m [] = Inr (m, [])"
| "accept_all m (f # fs) =
     (case MessageReceiver_accept m f of
        (_, Inl e) \<Rightarrow> Inl e
      | (m', Inr finished) \<Rightarrow> ebind (accept_all m' fs) (\<lambda>(n, done). Inr (n, finished # done)))"

fun assemble_all :: "buffers \<Rightarrow> MessageData list \<Rightarrow> buffers \<times> bytes option list" where
  "assemble_all B [] = (B, [])"
| "assemble_all B (f # fs) =
     (let (B', out) = assemble B f; (C, outs) = assemble_all B' fs in (C, out # outs))"

lemma accept_simulates:
  assumes "receives m B" and "MessageReceiver_accept m f = (m', Inr finished)"
    and "length (md_data f) < 2 ^ 64"
  shows "receives m' (fst (assemble B f)) \<and> finished = (snd (assemble B f) \<noteq> None)
    \<and> (\<forall>msg. snd (assemble B f) = Some msg \<longrightarrow> length msg \<le> unat (mr_max_item_bytes m))"
proof (cases "md_start f")
  case True
  from accept_start_simulates [OF assms True] True show ?thesis
    by (auto simp: assemble_def Let_def)
next
  case False
  from accept_continue_simulates [OF assms False] False show ?thesis
    by (auto simp: assemble_def Let_def)
qed

lemma accept_all_simulates:
  assumes "receives m B" and "MessageReceiver_inv m" and "accept_all m fs = Inr (m', done)"
    and "list_all (\<lambda>f. length (md_data f) < 2 ^ 64) fs"
  shows "receives m' (fst (assemble_all B fs)) \<and> MessageReceiver_inv m'
    \<and> mr_max_open_messages m' = mr_max_open_messages m
    \<and> done = map (\<lambda>out. out \<noteq> None) (snd (assemble_all B fs))
    \<and> (\<forall>msg. Some msg \<in> set (snd (assemble_all B fs)) \<longrightarrow> length msg \<le> unat (mr_max_item_bytes m))"
  using assms
proof (induction fs arbitrary: m B m' "done")
  case Nil
  then show ?case by simp
next
  case (Cons f fs)
  from Cons.prems(3) obtain m1 fin n d where
    step: "MessageReceiver_accept m f = (m1, Inr fin)"
    and rest: "accept_all m1 fs = Inr (n, d)" and res: "m' = n" "done = fin # d"
    by (auto simp: enc_iff split: prod.splits sum.splits)
  from Cons.prems(4) have len: "length (md_data f) < 2 ^ 64"
    and lens: "list_all (\<lambda>f. length (md_data f) < 2 ^ 64) fs" by simp_all
  note sim = accept_simulates [OF Cons.prems(1) step len]
  note inv = MessageReceiver_accept_inv [OF Cons.prems(2) step]
  from sim inv have "receives m1 (fst (assemble B f))" and "MessageReceiver_inv m1" by blast+
  from Cons.IH [OF this rest lens] sim inv
  show ?case
    by (auto simp: res Let_def split_beta)
qed

text \<open>
  The fragments that belong where they come: each has data, the first of a message starts it at offset 0 while fewer than \<open>n\<close> are open,
  every other one continues a message that is open, at the number of bytes there are of it, and none makes a message longer than \<open>item\<close> bytes.
\<close>

definition so_far :: "buffers \<Rightarrow> MessageData \<Rightarrow> bytes" where
  "so_far B f = (if md_start f then [] else the (B (md_sequence f)))"

definition fits_next :: "nat \<Rightarrow> nat \<Rightarrow> buffers \<Rightarrow> MessageData \<Rightarrow> bool" where
  "fits_next item n B f \<longleftrightarrow> md_data f \<noteq> [] \<and> unat (md_fragment_offset f) = length (so_far B f)
     \<and> (if md_start f then B (md_sequence f) = None \<and> card (dom B) < n else B (md_sequence f) \<noteq> None)
     \<and> length (so_far B f @ md_data f) \<le> item"

fun in_order :: "nat \<Rightarrow> nat \<Rightarrow> buffers \<Rightarrow> MessageData list \<Rightarrow> bool" where
  "in_order item n B [] \<longleftrightarrow> True"
| "in_order item n B (f # fs) \<longleftrightarrow> fits_next item n B f \<and> in_order item n (fst (assemble B f)) fs"

lemma receives_card:
  assumes "receives m B" and "MessageReceiver_inv m"
  shows "card (dom B) = length (mr_open m)"
proof -
  have "dom B = dom (map_of (mr_open m))"
    using receivesD(1) [OF assms(1)] by (simp add: dom_def)
  then have "dom B = set (map fst (mr_open m))"
    by (simp add: dom_map_of_conv_image_fst)
  then show ?thesis
    using assms(2) distinct_card [of "map fst (mr_open m)"] by (simp add: MessageReceiver_inv_def)
qed

lemma accept_iff:
  assumes "receives m B" and "MessageReceiver_inv m" and "length (md_data f) < 2 ^ 64"
  shows "(\<exists>m' finished. MessageReceiver_accept m f = (m', Inr finished)) \<longleftrightarrow>
    fits_next (unat (mr_max_item_bytes m)) (unat (mr_max_open_messages m)) B f"
proof -
  have len: "unat (of_nat (length (md_data f)) :: u64) = length (md_data f)"
    using assms(3) by (rule unat_of_nat_u64)
  have zero: "md_fragment_offset f = 0 \<longleftrightarrow> unat (md_fragment_offset f) = 0"
    by (simp add: unat_eq_0)
  show ?thesis
  proof (cases "md_start f")
    case True
    then show ?thesis
      using receivesD(1) [OF assms(1), of "md_sequence f"]
      by (auto simp: MessageReceiver_accept_def fits_next_def so_far_def Let_def word_less_nat_alt len zero receives_card [OF assms(1,2)] not_less)
  next
    case False
    show ?thesis
    proof (cases "map_of (mr_open m) (md_sequence f)")
      case None
      then show ?thesis
        using False receivesD(1) [OF assms(1), of "md_sequence f"] by (simp add: MessageReceiver_accept_def fits_next_def Let_def)
    next
      case (Some next_offset)
      obtain b where b: "B (md_sequence f) = Some b" "length b = unat next_offset"
        using receivesD(2) [OF assms(1) Some] by blast
      have same: "md_fragment_offset f = next_offset \<longleftrightarrow> unat (md_fragment_offset f) = length b"
        by (simp add: b(2) word_unat_eq_iff)
      have room: "(\<exists>after. checked_add next_offset (of_nat (length (md_data f))) = Some after \<and> \<not> mr_max_item_bytes m < after) \<longleftrightarrow>
          length b + length (md_data f) \<le> unat (mr_max_item_bytes m)"
        using unsigned_less [of "mr_max_item_bytes m", where ?'a = nat]
        by (auto simp: checked_add_def word_less_nat_alt len b(2) unat_plus_if' split: if_splits)
      show ?thesis
        using False Some b room
        by (auto simp: MessageReceiver_accept_def fits_next_def so_far_def Let_def same split: option.splits if_splits)
    qed
  qed
qed

lemma accept_all_iff:
  assumes "receives m B" and "MessageReceiver_inv m" and "list_all (\<lambda>f. length (md_data f) < 2 ^ 64) fs"
  shows "(\<exists>m' done. accept_all m fs = Inr (m', done)) \<longleftrightarrow>
    in_order (unat (mr_max_item_bytes m)) (unat (mr_max_open_messages m)) B fs"
  using assms
proof (induction fs arbitrary: m B)
  case (Cons f fs)
  have len: "length (md_data f) < 2 ^ 64" "list_all (\<lambda>f. length (md_data f) < 2 ^ 64) fs"
    using Cons.prems(3) by simp_all
  show ?case
  proof (cases "\<exists>m1 fin. MessageReceiver_accept m f = (m1, Inr fin)")
    case True
    then obtain m1 fin where step: "MessageReceiver_accept m f = (m1, Inr fin)"
      by blast
    have "receives m1 (fst (assemble B f))" "MessageReceiver_inv m1"
      "mr_max_open_messages m1 = mr_max_open_messages m" "mr_max_item_bytes m1 = mr_max_item_bytes m"
      using accept_simulates [OF Cons.prems(1) step len(1)] MessageReceiver_accept_inv [OF Cons.prems(2) step] by auto
    then show ?thesis
      using Cons.IH [of m1 "fst (assemble B f)"] accept_iff [OF Cons.prems(1,2) len(1)] len(2) step
      by (auto simp: enc_iff)
  next
    case False
    then obtain m1 e where "MessageReceiver_accept m f = (m1, Inl e)"
      by (metis old.sum.exhaust surj_pair)
    then show ?thesis
      using False accept_iff [OF Cons.prems(1,2) len(1)] by simp
  qed
qed simp

text \<open>A sender that follows the protocol: the fragments of one message, cut into chunks.\<close>

fun continuation :: "u32 \<Rightarrow> u64 \<Rightarrow> u64 \<Rightarrow> bytes list \<Rightarrow> MessageData list" where
  "continuation tid s offset [] = []"
| "continuation tid s offset (c # cs) =
     \<lparr>md_transfer_id = tid, md_sequence = s, md_fragment_offset = offset, md_start = False,
      md_end = (cs = []), md_data = c\<rparr> # continuation tid s (offset + of_nat (length c)) cs"

definition fragments :: "u32 \<Rightarrow> u64 \<Rightarrow> bytes \<Rightarrow> bytes list \<Rightarrow> MessageData list" where
  "fragments tid s c cs =
     \<lparr>md_transfer_id = tid, md_sequence = s, md_fragment_offset = 0, md_start = True,
      md_end = (cs = []), md_data = c\<rparr> # continuation tid s (of_nat (length c)) cs"

lemma checked_add_of_nat:
  fixes a :: u64
  assumes "n < 2 ^ 64"
  shows "checked_add a (of_nat n) = (if unat a + n < 2 ^ 64 then Some (a + of_nat n) else None)"
  using assms by (simp add: checked_add_def unat_of_nat_u64)

lemma unat_add_of_nat: "unat (a :: u64) + n < 2 ^ 64 \<Longrightarrow> unat (a + of_nat n) = unat a + n"
  by (simp add: unat_word_ariths unat_of_nat_u64)

lemma accept_continuation:
  assumes "map_of (mr_open m) s = Some offset" and "c \<noteq> []"
    and "unat offset + length c \<le> unat (mr_max_item_bytes m)"
  shows "MessageReceiver_accept m \<lparr>md_transfer_id = tid, md_sequence = s,
      md_fragment_offset = offset, md_start = False, md_end = e, md_data = c\<rparr> =
    (let m' = m\<lparr>mr_open := AList.update s (offset + of_nat (length c)) (mr_open m)\<rparr> in
     if e then (m'\<lparr>mr_open := AList.delete s (mr_open m')\<rparr>, Inr True) else (m', Inr False))"
proof -
  have b: "unat offset + length c < 2 ^ 64"
    using assms(3) unsigned_less [of "mr_max_item_bytes m", where 'a = nat] by simp
  then have n: "length c < 2 ^ 64" by simp
  have "\<not> mr_max_item_bytes m < offset + of_nat (length c)"
    using assms(3) b by (simp add: word_less_nat_alt unat_add_of_nat)
  with assms(1,2) b show ?thesis
    by (simp add: MessageReceiver_accept_def Let_def checked_add_of_nat [OF n])
qed

lemma accept_all_continuation:
  assumes "cs \<noteq> []" and "list_all (\<lambda>c. c \<noteq> []) cs" and "map_of (mr_open m) s = Some offset"
    and "unat offset + length (concat cs) \<le> unat (mr_max_item_bytes m)"
  shows "\<exists>m'. accept_all m (continuation tid s offset cs)
        = Inr (m', replicate (length cs - 1) False @ [True])
      \<and> map_of (mr_open m') = (map_of (mr_open m))(s := None)"
  using assms
proof (induction cs arbitrary: m offset)
  case Nil
  then show ?case by simp
next
  case (Cons c cs)
  have fits: "unat offset + length c \<le> unat (mr_max_item_bytes m)" and c: "c \<noteq> []"
    using Cons.prems by simp_all
  have b: "unat offset + length c < 2 ^ 64"
    using fits unsigned_less [of "mr_max_item_bytes m", where 'a = nat] by simp
  note step = accept_continuation [OF Cons.prems(3) c fits, of tid]
  show ?case
  proof (cases "cs = []")
    case True
    with step show ?thesis
      by (simp add: Let_def delete_conv' update_conv' fun_eq_iff)
  next
    case False
    let ?m = "m\<lparr>mr_open := AList.update s (offset + of_nat (length c)) (mr_open m)\<rparr>"
    have "\<exists>m'. accept_all ?m (continuation tid s (offset + of_nat (length c)) cs)
        = Inr (m', replicate (length cs - 1) False @ [True])
      \<and> map_of (mr_open m') = (map_of (mr_open ?m))(s := None)"
      using False Cons.prems b by (intro Cons.IH) (auto simp: update_conv' unat_add_of_nat)
    moreover have "replicate (length cs) False = False # replicate (length cs - 1) False"
      using False by (cases cs) simp_all
    ultimately show ?thesis
      using False step by (auto simp: update_conv')
  qed
qed

lemma accept_all_fragments:
  assumes "list_all (\<lambda>c. c \<noteq> []) (c # cs)" and "map_of (mr_open m) s = None"
    and "length (mr_open m) < unat (mr_max_open_messages m)"
    and "length (concat (c # cs)) \<le> unat (mr_max_item_bytes m)"
  shows "\<exists>m'. accept_all m (fragments tid s c cs) = Inr (m', replicate (length cs) False @ [True])
      \<and> map_of (mr_open m') = map_of (mr_open m)"
proof -
  have n: "length c < 2 ^ 64"
    using assms(4) unsigned_less [of "mr_max_item_bytes m", where 'a = nat] by simp
  have fits: "\<not> mr_max_item_bytes m < of_nat (length c)"
    using assms(4) by (simp add: word_less_nat_alt unat_of_nat_u64 [OF n])
  let ?m = "m\<lparr>mr_open := AList.update s (of_nat (length c)) (mr_open m)\<rparr>"
  have start: "MessageReceiver_accept m \<lparr>md_transfer_id = tid, md_sequence = s,
      md_fragment_offset = 0, md_start = True, md_end = e, md_data = c\<rparr> =
    (if e then (m, Inr True) else (?m, Inr False))" for e
    using assms fits by (simp add: MessageReceiver_accept_def Let_def)
  show ?thesis
  proof (cases "cs = []")
    case True
    with start show ?thesis by (simp add: fragments_def)
  next
    case False
    have "\<exists>m'. accept_all ?m (continuation tid s (of_nat (length c)) cs)
        = Inr (m', replicate (length cs - 1) False @ [True])
      \<and> map_of (mr_open m') = (map_of (mr_open ?m))(s := None)"
      using False assms by (intro accept_all_continuation) (auto simp: update_conv' unat_of_nat_u64 [OF n])
    moreover have "replicate (length cs) False = False # replicate (length cs - 1) False"
      using False by (cases cs) simp_all
    ultimately show ?thesis
      using False start assms(2) by (auto simp: fragments_def update_conv' fun_upd_idem)
  qed
qed

section \<open>Properties\<close>

lemma MessageReceiver_new_iff:
  "MessageReceiver_new d = Inr m \<longleftrightarrow> Descriptor_validate d = Inr () \<and> td_mode d = Message
     \<and> (\<exists>n. Descriptor_max_open_messages d = Inr n
          \<and> m = \<lparr>mr_max_item_bytes = td_max_item_bytes d, mr_max_open_messages = n, mr_open = []\<rparr>)"
  by (auto simp: MessageReceiver_new_def enc_iff)

text \<open>
  C17: the MESSAGE receiver reassembles.  A fresh receiver accepts a sequence of fragments, in any interleaving of messages, exactly when each
  fragment belongs where it comes: a message starts at offset 0 while the descriptor allows another open one, is continued at the number of bytes there are of it,
  without gap, overlap or exchange, and stays within the item limit.  It then reports a message complete exactly when the specification that stores
  the bytes completes one; its offsets are the lengths of the stored prefixes; no completed message is
  longer than the descriptor's item limit and no more messages are open than it allows.
\<close>

theorem MessageReceiver_reassembles:
  assumes "MessageReceiver_new d = Inr m" and "Descriptor_max_open_messages d = Inr n"
    and "list_all (\<lambda>f. length (md_data f) < 2 ^ 64) fs"
  shows "((\<exists>m' done. accept_all m fs = Inr (m', done)) \<longleftrightarrow> in_order (unat (td_max_item_bytes d)) (unat n) (\<lambda>_. None) fs)
    \<and> (\<forall>m' done. accept_all m fs = Inr (m', done) \<longrightarrow>
         receives m' (fst (assemble_all (\<lambda>_. None) fs))
         \<and> done = map (\<lambda>out. out \<noteq> None) (snd (assemble_all (\<lambda>_. None) fs))
         \<and> (\<forall>msg. Some msg \<in> set (snd (assemble_all (\<lambda>_. None) fs)) \<longrightarrow> length msg \<le> unat (td_max_item_bytes d))
         \<and> MessageReceiver_open_messages m' \<le> unat n)"
proof -
  have m: "m = \<lparr>mr_max_item_bytes = td_max_item_bytes d, mr_max_open_messages = n, mr_open = []\<rparr>"
    using assms(1,2) unfolding MessageReceiver_new_iff by auto
  have fresh: "receives m (\<lambda>_. None)" "MessageReceiver_inv m"
    by (simp_all add: m receives_def MessageReceiver_inv_def)
  show ?thesis
    using accept_all_iff [OF fresh assms(3)] accept_all_simulates [OF fresh _ assms(3)]
    by (auto simp: m MessageReceiver_inv_def MessageReceiver_open_messages_def)
qed

definition message_descriptor :: Descriptor where
  "message_descriptor = \<lparr>td_transfer_id = 5, td_mode = Message, td_direction = SENDER_TO_RECEIVER,
     td_receiver_send_credit = 0, td_sender_send_credit = 64, td_max_item_bytes = 8,
     td_max_chunk_bytes = 4, td_content_family = 2, td_content_kind = 0, td_content_version = 1,
     td_extensions = [\<lparr>e_tag = 1, e_required = False, e_value = put_u32 2\<rparr>]\<rparr>"

definition message_receiver :: MessageReceiver where
  "message_receiver = \<lparr>mr_max_item_bytes = 8, mr_max_open_messages = 2, mr_open = []\<rparr>"

lemma message_receiver_new: "MessageReceiver_new message_descriptor = Inr message_receiver"
  by (simp add: MessageReceiver_new_iff message_descriptor_def message_receiver_def
      Descriptor_validate_def Descriptor_max_open_messages_def Descriptor_sensitive_content_def
      Descriptor_upload_stage_def reject_unknown_required_extensions_def find_extension_def
      transfer_consts SENDER_TO_RECEIVER_def word_less_nat_alt Extensions_validate_def
      HARD_MAX_EXTENSION_ENTRIES_def)

definition interleaved_fragments :: "MessageData list" where
  "interleaved_fragments =
     [\<lparr>md_transfer_id = 5, md_sequence = 10, md_fragment_offset = 0, md_start = True, md_end = False,
       md_data = [1, 2]\<rparr>,
      \<lparr>md_transfer_id = 5, md_sequence = 11, md_fragment_offset = 0, md_start = True, md_end = True,
       md_data = [9]\<rparr>,
      \<lparr>md_transfer_id = 5, md_sequence = 10, md_fragment_offset = 2, md_start = False, md_end = True,
       md_data = [3]\<rparr>]"

lemma interleaved_accepted:
  "accept_all message_receiver interleaved_fragments = Inr (message_receiver, [False, True, True])"
  by (simp add: interleaved_fragments_def message_receiver_def MessageReceiver_accept_def Let_def
      word_less_nat_alt checked_add_def)

lemma message_descriptor_open: "Descriptor_max_open_messages message_descriptor = Inr 2"
  using message_receiver_new by (auto simp: MessageReceiver_new_iff message_receiver_def)

text \<open>The second fragment of message 10 with a gap before it.\<close>

definition gapped_fragments :: "MessageData list" where
  "gapped_fragments = interleaved_fragments[2 := (interleaved_fragments ! 2)\<lparr>md_fragment_offset := 3\<rparr>]"

theorem MessageReceiver_reassembles_witness:
  "snd (assemble_all (\<lambda>_. None) interleaved_fragments) = [None, Some [9], Some [1, 2, 3]]
   \<and> [False, True, True] = map (\<lambda>out. out \<noteq> None) (snd (assemble_all (\<lambda>_. None) interleaved_fragments))
   \<and> in_order 8 2 (\<lambda>_. None) interleaved_fragments
   \<and> \<not> (\<exists>m' done. accept_all message_receiver gapped_fragments = Inr (m', done))"
proof -
  have accepted: "list_all (\<lambda>f. length (md_data f) < 2 ^ 64) interleaved_fragments"
    "list_all (\<lambda>f. length (md_data f) < 2 ^ 64) gapped_fragments"
    by (simp_all add: gapped_fragments_def interleaved_fragments_def)
  have "\<not> in_order 8 2 (\<lambda>_. None) gapped_fragments"
    by (simp add: gapped_fragments_def interleaved_fragments_def fits_next_def so_far_def assemble_def Let_def)
  then have "\<not> (\<exists>m' done. accept_all message_receiver gapped_fragments = Inr (m', done))"
    using MessageReceiver_reassembles [OF message_receiver_new message_descriptor_open accepted(2)] by (simp add: message_descriptor_def)
  moreover have "snd (assemble_all (\<lambda>_. None) interleaved_fragments) = [None, Some [9], Some [1, 2, 3]]"
    by (simp add: interleaved_fragments_def assemble_def Let_def)
  ultimately show ?thesis
    using MessageReceiver_reassembles [OF message_receiver_new message_descriptor_open accepted(1)] interleaved_accepted
    by (auto simp: message_descriptor_def)
qed

text \<open>
  The receiver makes progress. The fragments of a message cut into non-empty chunks, sent in order
  with their running offsets, are all accepted by a receiver with a free slot whose item limit the
  message fits; exactly the last one completes it, and the slot is free again afterwards.
\<close>

theorem MessageReceiver_accepts_fragments:
  assumes "list_all (\<lambda>c. c \<noteq> []) (c # cs)" and "map_of (mr_open m) s = None"
    and "length (mr_open m) < unat (mr_max_open_messages m)"
    and "length (concat (c # cs)) \<le> unat (mr_max_item_bytes m)"
  shows "\<exists>m'. accept_all m (fragments tid s c cs) = Inr (m', replicate (length cs) False @ [True])
      \<and> map_of (mr_open m') = map_of (mr_open m)"
  using assms by (rule accept_all_fragments)

theorem MessageReceiver_accepts_fragments_witness:
  "\<exists>m'. accept_all message_receiver (fragments 5 3 [1, 2, 3] [[4, 5], [6, 7, 8]])
       = Inr (m', [False, False, True])
     \<and> map_of (mr_open m') = map_of (mr_open message_receiver)"
  using MessageReceiver_accepts_fragments
    [of "[1, 2, 3]" "[[4, 5], [6, 7, 8]]" message_receiver 3 5]
  by (simp add: message_receiver_def)

text \<open>
  A transfer descriptor has one encoding. The decoder accepts a byte string exactly when it is the
  encoding of the descriptor it returns and that descriptor allows at least one direction.
\<close>

theorem Descriptor_canonical:
  "Descriptor_decode b = Inr d \<longleftrightarrow> Direction_nonempty (td_direction d) \<and> Descriptor_encode d = Inr b"
  by (rule Descriptor_codec.dec_iff)

lemma Direction_from_bits_0: "Direction_from_bits 0 = Inl (Invalid ''transfer direction'')"
  by (simp add: Direction_from_bits_def)

text \<open>
  The encoder accepts a descriptor without any direction (the default of \<open>Direction\<close>), but the decoder
  refuses what it wrote.
\<close>

theorem Descriptor_empty_direction:
  assumes "Descriptor_encode d = Inr b" and "\<not> Direction_nonempty (td_direction d)"
  shows "Descriptor_decode b = Inl (Invalid ''transfer direction'')"
proof -
  have "Direction_bits (td_direction d) = 0"
    using assms(2) by (simp add: Direction_nonempty_def Direction_bits_def)
  with assms(1) obtain t where
    b: "b = put_u32 (td_transfer_id d) @ put_u8 (Mode_wire (td_mode d)) @ put_u8 0 @ t"
    by (auto simp: Descriptor_encode_def enc_iff)
  have "Mode_try_from (Mode_wire (td_mode d)) = Inr (td_mode d)" by (simp add: Mode_try_from_iff)
  then show ?thesis
    by (simp add: b Descriptor_decode_def Descriptor_body_def rrun_def rbind_def rlift_def
        u32_field.fget_put u8_field.fget_put Direction_from_bits_0)
qed

definition no_direction :: Descriptor where
  "no_direction = message_descriptor\<lparr>td_direction := \<lparr>receiver_to_sender = False, sender_to_receiver = False\<rparr>,
     td_sender_send_credit := 0, td_extensions := []\<rparr>"

lemma no_direction_encode: "is_ok (Descriptor_encode no_direction)"
  by (simp add: no_direction_def message_descriptor_def Descriptor_encode_def
      Descriptor_validate_def Descriptor_max_open_messages_def Descriptor_sensitive_content_def
      Descriptor_upload_stage_def reject_unknown_required_extensions_def find_extension_def
      transfer_consts word_less_nat_alt Extensions_validate_def HARD_MAX_EXTENSION_ENTRIES_def
      Extensions_encode_tail_def Extensions_encode_entries_def put_len_u32_def)

theorem Descriptor_empty_direction_witness:
  "\<exists>b. Descriptor_encode no_direction = Inr b
     \<and> Descriptor_decode b = Inl (Invalid ''transfer direction'')"
  using no_direction_encode Descriptor_empty_direction [of no_direction]
  by (auto simp: is_ok_iff no_direction_def Direction_nonempty_def)

lemma Descriptor_decode_valid: "Descriptor_decode b = Inr d \<Longrightarrow> Descriptor_validate d = Inr ()"
  by (auto simp: Descriptor_decode_iff Descriptor_encode_def enc_iff)

text \<open>
  Upload content stays confidential. An accepted descriptor that carries an upload stage is a
  one-way BYTE transfer from receiver to sender with no credit the other way, and every data, CLOSE and
  RESET event under it must travel in a sensitive frame.
\<close>

theorem upload_stage_sensitive:
  assumes "Descriptor_decode b = Inr d" and "Descriptor_upload_stage d = Inr (Some stage)"
  shows "td_mode d = Byte \<and> td_direction d = RECEIVER_TO_SENDER \<and> td_sender_send_credit d = 0
    \<and> list_all (\<lambda>kind. Descriptor_requires_sensitive_frame d kind = Inr True)
        [KIND_BYTE_DATA, KIND_MESSAGE_DATA, KIND_CLOSE, KIND_RESET]"
  using Descriptor_validate_upload [OF Descriptor_decode_valid [OF assms(1)] assms(2)]
  by (simp add: Descriptor_requires_sensitive_frame_def)

definition upload_descriptor :: Descriptor where
  "upload_descriptor = \<lparr>td_transfer_id = 6, td_mode = Byte, td_direction = RECEIVER_TO_SENDER,
     td_receiver_send_credit = 64, td_sender_send_credit = 0, td_max_item_bytes = 0,
     td_max_chunk_bytes = 4, td_content_family = 2, td_content_kind = 0, td_content_version = 1,
     td_extensions = [\<lparr>e_tag = 2, e_required = True, e_value = []\<rparr>,
       \<lparr>e_tag = 3, e_required = True, e_value = put_u64 77 @ put_u64 1000\<rparr>]\<rparr>"

lemma upload_descriptor_stage:
  "Descriptor_upload_stage upload_descriptor
     = Inr (Some \<lparr>us_staging_handle = 77, us_expires_server_ns = 1000\<rparr>)"
  by (simp add: upload_descriptor_def Descriptor_upload_stage_def find_extension_def
      transfer_consts UploadStage_validate_def Let_def)

lemma upload_descriptor_valid: "Descriptor_validate upload_descriptor = Inr ()"
  using upload_descriptor_stage
  by (simp add: upload_descriptor_def Descriptor_validate_def
      Descriptor_max_open_messages_def Descriptor_sensitive_content_def find_extension_def
      reject_unknown_required_extensions_def RECEIVER_TO_SENDER_def
      transfer_consts word_less_nat_alt word_le_nat_alt Extensions_validate_def
      HARD_MAX_EXTENSION_ENTRIES_def)

lemma upload_descriptor_decodes: "\<exists>b. Descriptor_decode b = Inr upload_descriptor"
proof -
  have "is_ok (Extensions_encode_tail (td_extensions upload_descriptor))"
    by (simp add: upload_descriptor_def Extensions_encode_tail_def Extensions_encode_entries_def
        Extensions_validate_def HARD_MAX_EXTENSION_ENTRIES_def Extension_encode_def put_len_u32_def
        word_le_nat_alt)
  moreover have "Direction_nonempty (td_direction upload_descriptor)"
    by (simp add: upload_descriptor_def Direction_nonempty_def RECEIVER_TO_SENDER_def)
  ultimately show ?thesis
    using upload_descriptor_valid
    by (auto simp: Descriptor_decode_iff Descriptor_encode_def enc_iff is_ok_iff)
qed

theorem upload_stage_sensitive_witness:
  "list_all (\<lambda>kind. Descriptor_requires_sensitive_frame upload_descriptor kind = Inr True)
     [KIND_BYTE_DATA, KIND_MESSAGE_DATA, KIND_CLOSE, KIND_RESET]"
proof -
  from upload_descriptor_decodes obtain b where "Descriptor_decode b = Inr upload_descriptor" by blast
  from upload_stage_sensitive [OF this upload_descriptor_stage] show ?thesis by simp
qed

text \<open>
  An upload stage created at server time \<open>t\<close> is admitted exactly when its handle is not zero and it
  expires strictly later, at most one hour later; the comparison does not wrap around.
\<close>

theorem upload_stage_lifetime:
  "UploadStage_validate_at s t = Inr () \<longleftrightarrow>
     us_staging_handle s \<noteq> 0 \<and> unat t < unat (us_expires_server_ns s)
     \<and> unat (us_expires_server_ns s) \<le> unat t + 3600000000000"
  by (simp add: UploadStage_validate_at_iff MAX_UPLOAD_STAGE_LIFETIME_NS_def)

text \<open>
  A RESET disposes of the right stage. Against the descriptors a client holds, it yields a stage
  exactly when the first descriptor with its transfer id is valid and carries that stage under the
  expected handle.
\<close>

theorem Reset_disposes:
  "Reset_disposed_upload_stage_from r handle ds = Inr (Some stage) \<longleftrightarrow>
     us_staging_handle stage = handle \<and>
     (\<exists>d. find (\<lambda>d. td_transfer_id d = rs_transfer_id r) ds = Some d
        \<and> Descriptor_validate d = Inr () \<and> Descriptor_upload_stage d = Inr (Some stage))"
  by (rule Reset_disposed_from_iff)

text \<open>
  The transfer events and inline-or-transfer delivery have one encoding each: a decoder accepts
  exactly the bytes the encoder writes for the value it returns.
\<close>

theorem Transfer_payloads_canonical:
  "(InlineOrTransfer_decode b = Inr it \<longleftrightarrow> Delivery_ok it \<and> InlineOrTransfer_encode it = Inr b) \<and>
   (ByteData_decode b = Inr bd \<longleftrightarrow> ByteData_encode bd = Inr b) \<and>
   (MessageData_decode b = Inr md \<longleftrightarrow> MessageData_encode md = Inr b) \<and>
   (Credit_decode b = Inr cr \<longleftrightarrow> Credit_encode cr = Inr b) \<and>
   (Close_decode b = Inr cl \<longleftrightarrow> Close_encode cl = Inr b) \<and>
   (Reset_decode b = Inr rs \<longleftrightarrow> Reset_encode rs = Inr b)"
  using InlineOrTransfer_codec.dec_iff ByteData_codec.dec_iff MessageData_codec.dec_iff
    Credit_codec.dec_iff Close_codec.dec_iff Reset_codec.dec_iff
  by simp

end
