(* ===== verification/Wire_Datagram.thy ===== *)
theory Wire_Datagram
  imports Wire_Schema
begin

text \<open>
  The three event payloads that may travel as transport datagrams: Net DATAGRAM
  (\<^verbatim>\<open>crates/yas/src/net.rs\<close>), Surface FRAME (\<^verbatim>\<open>crates/yas/src/surface.rs\<close>) and Media
  FRAME (\<^verbatim>\<open>crates/yas/src/media.rs\<close>), with the predicates that say which frames are eligible.
\<close>

section \<open>Net DATAGRAM\<close>

definition MAX_DATAGRAM_PAYLOAD :: nat where "MAX_DATAGRAM_PAYLOAD = 65507"

record Datagram =
  dg_flow_handle :: u64
  dg_sequence :: u64
  dg_payload :: bytes

definition Datagram_encode :: "Datagram \<Rightarrow> error + bytes" where
  "Datagram_encode v =
     (if dg_flow_handle v = 0 then Inl (Invalid ''zero Net flow handle'')
      else if MAX_DATAGRAM_PAYLOAD < length (dg_payload v)
      then Inl (LimitExceeded ''Net datagram payload bytes'' (of_nat (length (dg_payload v)))
                  (of_nat MAX_DATAGRAM_PAYLOAD))
      else Inr (put_u64 (dg_flow_handle v) @ put_u64 (dg_sequence v) @ dg_payload v))"

definition Datagram_decode :: "bytes \<Rightarrow> error + Datagram" where
  "Datagram_decode =
     rrun (rbind dec_u64 (\<lambda>flow_handle. rbind dec_u64 (\<lambda>sequence. rbind dec_rest (\<lambda>payload.
       let v = \<lparr>dg_flow_handle = flow_handle, dg_sequence = sequence, dg_payload = payload\<rparr> in
       rlift (ebind (Datagram_encode v) (\<lambda>_. Inr v))))))"

section \<open>Surface FRAME\<close>

definition SURFACE_FRAME_KEYFRAME :: u16 where "SURFACE_FRAME_KEYFRAME = 1"
definition SURFACE_FRAME_CODEC_CONFIG :: u16 where "SURFACE_FRAME_CODEC_CONFIG = 2"
definition SURFACE_FRAME_DISCARDABLE :: u16 where "SURFACE_FRAME_DISCARDABLE = 4"
definition SURFACE_FRAME_END_OF_STREAM :: u16 where "SURFACE_FRAME_END_OF_STREAM = 8"
definition SURFACE_FRAME_DATAGRAM_ELIGIBLE :: u16 where "SURFACE_FRAME_DATAGRAM_ELIGIBLE = 32"
definition SURFACE_FRAME_FLAGS_MASK :: u16 where "SURFACE_FRAME_FLAGS_MASK = 63"

definition valid_codec :: "u16 \<Rightarrow> bool" where
  "valid_codec v \<longleftrightarrow> v = 1 \<or> v = 2 \<or> v = 3"

record SurfaceFrame =
  sf_view_id :: u32
  sf_sequence :: u64
  sf_base_sequence :: u64
  sf_capture_ns :: u64
  sf_presentation_ns :: u64
  sf_flags :: u16
  sf_codec_version :: u16
  sf_fragment_index :: u16
  sf_fragment_count :: u16
  sf_complete_len :: u32
  sf_payload :: bytes

definition SurfaceFrame_datagram_eligible :: "SurfaceFrame \<Rightarrow> bool" where
  "SurfaceFrame_datagram_eligible v \<longleftrightarrow>
     sf_flags v AND SURFACE_FRAME_DATAGRAM_ELIGIBLE \<noteq> 0
     \<and> sf_flags v AND SURFACE_FRAME_DISCARDABLE \<noteq> 0
     \<and> sf_flags v AND (SURFACE_FRAME_KEYFRAME OR SURFACE_FRAME_CODEC_CONFIG
          OR SURFACE_FRAME_END_OF_STREAM) = 0"

definition SurfaceFrame_encode :: "SurfaceFrame \<Rightarrow> error + bytes" where
  "SurfaceFrame_encode v =
     (if sf_view_id v = 0 then Inl (Invalid ''zero Surface view ID'')
      else if \<not> valid_codec (sf_codec_version v)
        \<or> sf_flags v AND NOT SURFACE_FRAME_FLAGS_MASK \<noteq> 0
        \<or> sf_fragment_count v = 0
        \<or> sf_fragment_count v \<le> sf_fragment_index v
        \<or> sf_complete_len v = 0
        \<or> sf_payload v = []
        \<or> unat (sf_complete_len v) < length (sf_payload v)
        \<or> unat HARD_MAX_BULK_CHUNK < length (sf_payload v)
      then Inl (Invalid ''Surface FRAME fragments'')
      else Inr (put_u32 (sf_view_id v) @ put_u64 (sf_sequence v) @ put_u64 (sf_base_sequence v)
                @ put_u64 (sf_capture_ns v) @ put_u64 (sf_presentation_ns v) @ put_u16 (sf_flags v)
                @ put_u16 (sf_codec_version v) @ put_u16 (sf_fragment_index v)
                @ put_u16 (sf_fragment_count v) @ put_u32 (sf_complete_len v) @ sf_payload v))"

definition SurfaceFrame_body :: "SurfaceFrame reader" where
  "SurfaceFrame_body =
     rbind dec_u32 (\<lambda>view_id. rbind dec_u64 (\<lambda>sequence. rbind dec_u64 (\<lambda>base_sequence.
     rbind dec_u64 (\<lambda>capture_ns. rbind dec_u64 (\<lambda>presentation_ns. rbind dec_u16 (\<lambda>flags.
     rbind dec_u16 (\<lambda>codec_version. rbind dec_u16 (\<lambda>fragment_index.
     rbind dec_u16 (\<lambda>fragment_count. rbind dec_u32 (\<lambda>complete_len. rbind dec_rest (\<lambda>payload.
       rret \<lparr>sf_view_id = view_id, sf_sequence = sequence, sf_base_sequence = base_sequence,
             sf_capture_ns = capture_ns, sf_presentation_ns = presentation_ns, sf_flags = flags,
             sf_codec_version = codec_version, sf_fragment_index = fragment_index,
             sf_fragment_count = fragment_count, sf_complete_len = complete_len,
             sf_payload = payload\<rparr>)))))))))))"

definition SurfaceFrame_decode :: "bytes \<Rightarrow> error + SurfaceFrame" where
  "SurfaceFrame_decode =
     rrun (rbind SurfaceFrame_body (\<lambda>v. rbind dec_finish (\<lambda>_.
       rlift (ebind (SurfaceFrame_encode v) (\<lambda>_. Inr v)))))"

section \<open>Media FRAME\<close>

definition MEDIA_FRAME_KEYFRAME :: u16 where "MEDIA_FRAME_KEYFRAME = 1"
definition MEDIA_FRAME_END_OF_STREAM :: u16 where "MEDIA_FRAME_END_OF_STREAM = 4"
definition MEDIA_FRAME_DISCARDABLE :: u16 where "MEDIA_FRAME_DISCARDABLE = 8"
definition MEDIA_FRAME_CODEC_CONFIG :: u16 where "MEDIA_FRAME_CODEC_CONFIG = 16"
definition MEDIA_FRAME_FLAGS_MASK :: u16 where "MEDIA_FRAME_FLAGS_MASK = 31"

definition audio_codec :: "u16 \<Rightarrow> bool" where
  "audio_codec c \<longleftrightarrow> c = 1 \<or> c = 2 \<or> c = 3"

definition video_codec :: "u16 \<Rightarrow> bool" where
  "video_codec c \<longleftrightarrow> c = 256 \<or> c = 257 \<or> c = 260 \<or> c = 261 \<or> c = 258 \<or> c = 259"

record MediaFrame =
  mf_stream_handle :: u64
  mf_sequence :: u64
  mf_capture_time :: u64
  mf_presentation_time :: u64
  mf_codec_version :: u16
  mf_flags :: u16
  mf_fragment_index :: u16
  mf_fragment_count :: u16
  mf_complete_len :: u32
  mf_payload :: bytes

definition MediaFrame_datagram_eligible :: "MediaFrame \<Rightarrow> bool" where
  "MediaFrame_datagram_eligible v \<longleftrightarrow>
     mf_flags v AND MEDIA_FRAME_DISCARDABLE \<noteq> 0
     \<and> mf_flags v AND (MEDIA_FRAME_KEYFRAME OR MEDIA_FRAME_CODEC_CONFIG OR MEDIA_FRAME_END_OF_STREAM)
         = 0"

definition MediaFrame_encode :: "MediaFrame \<Rightarrow> error + bytes" where
  "MediaFrame_encode v =
     (if mf_stream_handle v = 0 then Inl (Invalid ''zero Media stream handle'')
      else if (\<not> audio_codec (mf_codec_version v) \<and> \<not> video_codec (mf_codec_version v))
        \<or> mf_flags v AND NOT MEDIA_FRAME_FLAGS_MASK \<noteq> 0
        \<or> mf_fragment_count v = 0
        \<or> mf_fragment_count v \<le> mf_fragment_index v
        \<or> mf_complete_len v = 0
        \<or> mf_payload v = []
        \<or> unat (mf_complete_len v) < length (mf_payload v)
        \<or> unat HARD_MAX_BULK_CHUNK < length (mf_payload v)
      then Inl (Invalid ''Media frame'')
      else Inr (put_u64 (mf_stream_handle v) @ put_u64 (mf_sequence v) @ put_u64 (mf_capture_time v)
                @ put_u64 (mf_presentation_time v) @ put_u16 (mf_codec_version v)
                @ put_u16 (mf_flags v) @ put_u16 (mf_fragment_index v)
                @ put_u16 (mf_fragment_count v) @ put_u32 (mf_complete_len v) @ mf_payload v))"

definition MediaFrame_body :: "MediaFrame reader" where
  "MediaFrame_body =
     rbind dec_u64 (\<lambda>stream_handle. rbind dec_u64 (\<lambda>sequence. rbind dec_u64 (\<lambda>capture_time.
     rbind dec_u64 (\<lambda>presentation_time. rbind dec_u16 (\<lambda>codec_version. rbind dec_u16 (\<lambda>flags.
     rbind dec_u16 (\<lambda>fragment_index. rbind dec_u16 (\<lambda>fragment_count.
     rbind dec_u32 (\<lambda>complete_len. rbind dec_rest (\<lambda>payload.
       rret \<lparr>mf_stream_handle = stream_handle, mf_sequence = sequence,
             mf_capture_time = capture_time, mf_presentation_time = presentation_time,
             mf_codec_version = codec_version, mf_flags = flags,
             mf_fragment_index = fragment_index, mf_fragment_count = fragment_count,
             mf_complete_len = complete_len, mf_payload = payload\<rparr>))))))))))"

definition MediaFrame_decode :: "bytes \<Rightarrow> error + MediaFrame" where
  "MediaFrame_decode =
     rrun (rbind MediaFrame_body (\<lambda>v. rbind dec_finish (\<lambda>_.
       rlift (ebind (MediaFrame_encode v) (\<lambda>_. Inr v)))))"

section \<open>The payloads are canonical\<close>

lemma Datagram_decode_iff: "Datagram_decode b = Inr v \<longleftrightarrow> Datagram_encode v = Inr b"
  by (cases v) (auto simp: Datagram_decode_def Datagram_encode_def Let_def rd_iff enc_iff)

lemma SurfaceFrame_decode_iff: "SurfaceFrame_decode b = Inr v \<longleftrightarrow> SurfaceFrame_encode v = Inr b"
  by (cases v)
    (auto simp: SurfaceFrame_decode_def SurfaceFrame_body_def SurfaceFrame_encode_def rd_iff enc_iff)

lemma MediaFrame_decode_iff: "MediaFrame_decode b = Inr v \<longleftrightarrow> MediaFrame_encode v = Inr b"
  by (cases v)
    (auto simp: MediaFrame_decode_def MediaFrame_body_def MediaFrame_encode_def rd_iff enc_iff)

interpretation Datagram_codec: canonical_codec "\<lambda>_. True" Datagram_encode Datagram_decode
  by unfold_locales (simp add: Datagram_decode_iff)

interpretation SurfaceFrame_codec: canonical_codec "\<lambda>_. True" SurfaceFrame_encode SurfaceFrame_decode
  by unfold_locales (simp add: SurfaceFrame_decode_iff)

interpretation MediaFrame_codec: canonical_codec "\<lambda>_. True" MediaFrame_encode MediaFrame_decode
  by unfold_locales (simp add: MediaFrame_decode_iff)

end
