(* ===== verification/Wire_Frame.thy ===== *)
theory Wire_Frame
  imports Wire_Schema Wire_Datagram
begin

text \<open>
  Frames (\<^verbatim>\<open>crates/yas/src/frame.rs\<close>): headers, envelopes, size limits, and the codec of one
  negotiated direction, which enforces the schema's compression and sensitivity policies, bounds
  what a frame may decode to, prefixes lengths on byte streams and admits transport datagrams.
  The LZ4 block codec is the third-party crate \<^verbatim>\<open>lz4_flex\<close>: \<open>compress\<close> and \<open>decompress\<close> are
  arguments of the definitions that use them, and \<open>lz4_round_trip\<close> and \<open>lz4_bounded\<close> name the
  documented behaviour the theorems rely on. The last part relates the generated header codec of
  \<^verbatim>\<open>generated.rs\<close> to the one of \<^verbatim>\<open>frame.rs\<close>.
\<close>

section \<open>Headers\<close>

definition LZ4_CODEC :: u16 where "LZ4_CODEC = 1"

datatype Class = Event | Request | Result

fun Class_wire :: "Class \<Rightarrow> u8" where
  "Class_wire Event = CLASS_EVENT"
| "Class_wire Request = CLASS_REQUEST"
| "Class_wire Result = CLASS_RESULT"

definition Class_from_meta :: "u8 \<Rightarrow> error + Class" where
  "Class_from_meta meta =
     (let c = meta AND CLASS_MASK in
      if c = CLASS_EVENT then Inr Event else if c = CLASS_REQUEST then Inr Request
      else if c = CLASS_RESULT then Inr Result else Inl (Invalid ''frame class''))"

record FrameHeader =
  fh_family :: u16
  fh_kind :: u16
  fh_class :: Class
  fh_request_id :: "u32 option"
  fh_compressed :: bool
  fh_sensitive :: bool

definition FrameHeader_event :: "u16 \<Rightarrow> u16 \<Rightarrow> FrameHeader" where
  "FrameHeader_event family kind =
     \<lparr>fh_family = family, fh_kind = kind, fh_class = Event, fh_request_id = None,
      fh_compressed = False, fh_sensitive = False\<rparr>"

definition FrameHeader_request :: "u16 \<Rightarrow> u16 \<Rightarrow> u32 \<Rightarrow> FrameHeader" where
  "FrameHeader_request family kind request_id =
     \<lparr>fh_family = family, fh_kind = kind, fh_class = Request, fh_request_id = Some request_id,
      fh_compressed = False, fh_sensitive = False\<rparr>"

definition FrameHeader_result :: "u16 \<Rightarrow> u16 \<Rightarrow> u32 \<Rightarrow> FrameHeader" where
  "FrameHeader_result family kind request_id =
     \<lparr>fh_family = family, fh_kind = kind, fh_class = Result, fh_request_id = Some request_id,
      fh_compressed = False, fh_sensitive = False\<rparr>"

definition FrameHeader_encoded_len :: "FrameHeader \<Rightarrow> nat" where
  "FrameHeader_encoded_len h =
     (case fh_class h of Event \<Rightarrow> EVENT_HEADER_BYTES | _ \<Rightarrow> CORRELATED_HEADER_BYTES)"

definition FrameHeader_validate :: "FrameHeader \<Rightarrow> error + unit" where
  "FrameHeader_validate h =
     (case (fh_class h, fh_request_id h) of
        (Event, None) \<Rightarrow> Inr ()
      | (Request, Some request_id) \<Rightarrow>
          if request_id \<noteq> 0 then Inr () else Inl (Invalid ''request ID presence'')
      | (Result, Some request_id) \<Rightarrow>
          if request_id \<noteq> 0 then Inr () else Inl (Invalid ''request ID presence'')
      | _ \<Rightarrow> Inl (Invalid ''request ID presence''))"

definition FrameHeader_encode :: "FrameHeader \<Rightarrow> error + bytes" where
  "FrameHeader_encode h =
     ebind (FrameHeader_validate h) (\<lambda>_.
       Inr (put_u16 (fh_family h) @ put_u16 (fh_kind h)
            @ put_u8 (Class_wire (fh_class h) OR (if fh_compressed h then META_COMPRESSED else 0)
                      OR (if fh_sensitive h then META_SENSITIVE else 0))
            @ (case fh_request_id h of None \<Rightarrow> [] | Some request_id \<Rightarrow> put_u32 request_id)))"

definition FrameHeader_decode_from :: "FrameHeader reader" where
  "FrameHeader_decode_from =
     rbind dec_u16 (\<lambda>family. rbind dec_u16 (\<lambda>kind. rbind dec_u8 (\<lambda>meta.
     if meta AND META_RESERVED \<noteq> 0 then rfail (Invalid ''frame meta reserved bits'')
     else rbind (rlift (Class_from_meta meta)) (\<lambda>cls.
     rbind (if cls = Event then rret None
            else rbind dec_u32 (\<lambda>request_id. rret (Some request_id))) (\<lambda>request_id.
       rret \<lparr>fh_family = family, fh_kind = kind, fh_class = cls, fh_request_id = request_id,
             fh_compressed = (meta AND META_COMPRESSED \<noteq> 0),
             fh_sensitive = (meta AND META_SENSITIVE \<noteq> 0)\<rparr>)))))"

section \<open>Frames and envelopes\<close>

record Frame =
  fr_header :: FrameHeader
  fr_payload :: bytes

record EventEnvelope =
  ev_family :: u16
  ev_kind :: u16
  ev_payload :: bytes
  ev_compressed :: bool
  ev_sensitive :: bool

record RequestEnvelope =
  rq_family :: u16
  rq_kind :: u16
  rq_request_id :: u32
  rq_payload :: bytes
  rq_compressed :: bool
  rq_sensitive :: bool

record ResultEnvelope =
  re_family :: u16
  re_kind :: u16
  re_request_id :: u32
  re_payload :: bytes
  re_compressed :: bool
  re_sensitive :: bool

datatype Envelope =
    EnvEvent EventEnvelope
  | EnvRequest RequestEnvelope
  | EnvResult ResultEnvelope

fun Frame_from_Envelope :: "Envelope \<Rightarrow> Frame" where
  "Frame_from_Envelope (EnvEvent v) =
     \<lparr>fr_header = \<lparr>fh_family = ev_family v, fh_kind = ev_kind v, fh_class = Event,
        fh_request_id = None, fh_compressed = ev_compressed v, fh_sensitive = ev_sensitive v\<rparr>,
      fr_payload = ev_payload v\<rparr>"
| "Frame_from_Envelope (EnvRequest v) =
     \<lparr>fr_header = \<lparr>fh_family = rq_family v, fh_kind = rq_kind v, fh_class = Request,
        fh_request_id = Some (rq_request_id v), fh_compressed = rq_compressed v,
        fh_sensitive = rq_sensitive v\<rparr>,
      fr_payload = rq_payload v\<rparr>"
| "Frame_from_Envelope (EnvResult v) =
     \<lparr>fr_header = \<lparr>fh_family = re_family v, fh_kind = re_kind v, fh_class = Result,
        fh_request_id = Some (re_request_id v), fh_compressed = re_compressed v,
        fh_sensitive = re_sensitive v\<rparr>,
      fr_payload = re_payload v\<rparr>"

text \<open>\<^verbatim>\<open>Envelope::from\<close> unwraps the request id: \<open>None\<close> is its panic.\<close>

definition Envelope_from_Frame :: "Frame \<Rightarrow> Envelope option" where
  "Envelope_from_Frame f =
     (let h = fr_header f in
      case fh_class h of
        Event \<Rightarrow> Some (EnvEvent \<lparr>ev_family = fh_family h, ev_kind = fh_kind h,
          ev_payload = fr_payload f, ev_compressed = fh_compressed h,
          ev_sensitive = fh_sensitive h\<rparr>)
      | Request \<Rightarrow> map_option (\<lambda>request_id. EnvRequest \<lparr>rq_family = fh_family h,
          rq_kind = fh_kind h, rq_request_id = request_id, rq_payload = fr_payload f,
          rq_compressed = fh_compressed h, rq_sensitive = fh_sensitive h\<rparr>) (fh_request_id h)
      | Result \<Rightarrow> map_option (\<lambda>request_id. EnvResult \<lparr>re_family = fh_family h,
          re_kind = fh_kind h, re_request_id = request_id, re_payload = fr_payload f,
          re_compressed = fh_compressed h, re_sensitive = fh_sensitive h\<rparr>) (fh_request_id h))"

section \<open>Limits\<close>

record FrameLimits =
  fl_max_wire_frame :: u32
  fl_max_decoded_frame :: u32

datatype DatagramContext = NetNativeFlow | SurfaceFrameContext | MediaFrameContext

definition FrameLimits_pre_hello :: FrameLimits where
  "FrameLimits_pre_hello =
     \<lparr>fl_max_wire_frame = PRE_HELLO_MAX_FRAME, fl_max_decoded_frame = PRE_HELLO_MAX_FRAME\<rparr>"

definition FrameLimits_recommended :: FrameLimits where
  "FrameLimits_recommended =
     \<lparr>fl_max_wire_frame = RECOMMENDED_WIRE_FRAME, fl_max_decoded_frame = RECOMMENDED_DECODED_FRAME\<rparr>"

definition FrameLimits_validate :: "FrameLimits \<Rightarrow> error + FrameLimits" where
  "FrameLimits_validate l =
     (if fl_max_wire_frame l < of_nat CORRELATED_HEADER_BYTES then Inl (Invalid ''wire frame limit'')
      else if HARD_MAX_WIRE_FRAME < fl_max_wire_frame l
      then Inl (LimitExceeded ''wire frame'' (ucast (fl_max_wire_frame l)) (ucast HARD_MAX_WIRE_FRAME))
      else if fl_max_decoded_frame l < fl_max_wire_frame l then Inl (Invalid ''decoded frame limit'')
      else if HARD_MAX_DECODED_FRAME < fl_max_decoded_frame l
      then Inl (LimitExceeded ''decoded frame'' (ucast (fl_max_decoded_frame l))
                  (ucast HARD_MAX_DECODED_FRAME))
      else Inr l)"

section \<open>The codec of one direction\<close>

type_synonym key = "u16 \<times> Class \<times> u16"

record FrameCodec =
  fc_limits :: FrameLimits
  fc_codecs :: "u16 set"
  fc_compression_required :: "key set"
  fc_compression_forbidden :: "key set"
  fc_sensitive_required :: "key set"
  fc_sensitive_forbidden :: "key set"
  fc_hello_only :: bool

text \<open>The loop over the negotiated codecs.\<close>

fun negotiate :: "u16 option \<Rightarrow> u16 set \<Rightarrow> u16 list \<Rightarrow> error + u16 set" where
  "negotiate previous codecs [] = Inr codecs"
| "negotiate previous codecs (codec # rest) =
     (if codec = 0 \<or> (case previous of None \<Rightarrow> False | Some p \<Rightarrow> codec \<le> p)
      then Inl (Invalid ''negotiated codec order'')
      else if codec \<noteq> LZ4_CODEC then Inl (UnsupportedCodec codec)
      else negotiate (Some codec) (insert codec codecs) rest)"

text \<open>The keys a schema operation governs: a request's policy covers its result.\<close>

definition operation_keys :: "u16 \<Rightarrow> OperationMetadata \<Rightarrow> error + key set" where
  "operation_keys family_id p =
     (if om_class p = CLASS_EVENT then Inr {(family_id, Event, om_kind p)}
      else if om_class p = CLASS_REQUEST
      then Inr {(family_id, Request, om_kind p), (family_id, Result, om_kind p)}
      else Inl (Invalid ''schema operation class''))"

definition add_operation :: "u16 \<Rightarrow> OperationMetadata \<Rightarrow> FrameCodec \<Rightarrow> error + FrameCodec" where
  "add_operation family_id p c =
     ebind (operation_keys family_id p) (\<lambda>keys.
       let c1 = (if om_compression p = POLICY_REQUIRED
                 then c\<lparr>fc_compression_required := fc_compression_required c \<union> keys\<rparr>
                 else if om_compression p = POLICY_FORBIDDEN
                 then c\<lparr>fc_compression_forbidden := fc_compression_forbidden c \<union> keys\<rparr> else c)
       in Inr (if om_sensitive p = POLICY_REQUIRED
               then c1\<lparr>fc_sensitive_required := fc_sensitive_required c1 \<union> keys\<rparr>
               else if om_sensitive p = POLICY_FORBIDDEN
               then c1\<lparr>fc_sensitive_forbidden := fc_sensitive_forbidden c1 \<union> keys\<rparr> else c1))"

fun add_operations :: "u16 \<Rightarrow> OperationMetadata list \<Rightarrow> FrameCodec \<Rightarrow> error + FrameCodec" where
  "add_operations family_id [] c = Inr c"
| "add_operations family_id (p # ps) c =
     ebind (add_operation family_id p c) (add_operations family_id ps)"

fun add_families :: "FamilyMetadata list \<Rightarrow> FrameCodec \<Rightarrow> error + FrameCodec" where
  "add_families [] c = Inr c"
| "add_families (f # fs) c = ebind (add_operations (fm_id f) (fm_operations f) c) (add_families fs)"

definition FrameCodec_new :: "FrameLimits \<Rightarrow> u16 list \<Rightarrow> error + FrameCodec" where
  "FrameCodec_new limits negotiated_codecs =
     ebind (FrameLimits_validate limits) (\<lambda>limits.
     ebind (negotiate None {} negotiated_codecs) (\<lambda>codecs.
       add_families FAMILIES
         \<lparr>fc_limits = limits, fc_codecs = codecs, fc_compression_required = {},
          fc_compression_forbidden = {}, fc_sensitive_required = {}, fc_sensitive_forbidden = {},
          fc_hello_only = False\<rparr>))"

text \<open>\<^verbatim>\<open>pre_hello\<close> expects that \<^verbatim>\<open>new\<close> accepts the constant limits; an error is its panic.\<close>

definition FrameCodec_pre_hello :: "error + FrameCodec" where
  "FrameCodec_pre_hello =
     ebind (FrameCodec_new FrameLimits_pre_hello []) (\<lambda>c. Inr (c\<lparr>fc_hello_only := True\<rparr>))"

definition FrameCodec_forbid_compression :: "key \<Rightarrow> FrameCodec \<Rightarrow> FrameCodec" where
  "FrameCodec_forbid_compression k c =
     c\<lparr>fc_compression_forbidden := insert k (fc_compression_forbidden c)\<rparr>"

definition FrameCodec_require_compression :: "key \<Rightarrow> FrameCodec \<Rightarrow> FrameCodec" where
  "FrameCodec_require_compression k c =
     c\<lparr>fc_compression_required := insert k (fc_compression_required c)\<rparr>"

definition FrameCodec_require_sensitive :: "key \<Rightarrow> FrameCodec \<Rightarrow> FrameCodec" where
  "FrameCodec_require_sensitive k c =
     c\<lparr>fc_sensitive_required := insert k (fc_sensitive_required c)\<rparr>"

definition FrameCodec_forbid_sensitive :: "key \<Rightarrow> FrameCodec \<Rightarrow> FrameCodec" where
  "FrameCodec_forbid_sensitive k c =
     c\<lparr>fc_sensitive_forbidden := insert k (fc_sensitive_forbidden c)\<rparr>"

definition HELLO_KIND :: u16 where "HELLO_KIND = 0"

definition header_key :: "FrameHeader \<Rightarrow> key" where
  "header_key h = (fh_family h, fh_class h, fh_kind h)"

definition FrameCodec_validate_schema_flags :: "FrameCodec \<Rightarrow> FrameHeader \<Rightarrow> error + unit" where
  "FrameCodec_validate_schema_flags c h =
     (if fc_hello_only c \<and> (fh_family h \<noteq> FAMILY_CORE \<or> fh_kind h \<noteq> HELLO_KIND
          \<or> fh_class h = Event \<or> fh_compressed h)
      then Inl (Invalid ''pre-HELLO frame'')
      else if \<not> fh_compressed h \<and> header_key h \<in> fc_compression_required c
      then Inl (Invalid ''missing required compression'')
      else if fh_compressed h \<and> header_key h \<in> fc_compression_forbidden c
      then Inl (Invalid ''compression-forbidden frame'')
      else if \<not> fh_sensitive h \<and> header_key h \<in> fc_sensitive_required c
      then Inl (Invalid ''missing SENSITIVE flag'')
      else if fh_sensitive h \<and> header_key h \<in> fc_sensitive_forbidden c
      then Inl (Invalid ''forbidden SENSITIVE flag'')
      else Inr ())"

definition FrameCodec_check_wire_len :: "FrameCodec \<Rightarrow> nat \<Rightarrow> error + unit" where
  "FrameCodec_check_wire_len c len =
     (if unat (fl_max_wire_frame (fc_limits c)) < len
      then Inl (LimitExceeded ''wire frame'' (of_nat len) (ucast (fl_max_wire_frame (fc_limits c))))
      else if len < EVENT_HEADER_BYTES
      then Inl (if len = 0 then Invalid ''empty frame'' else Truncated)
      else Inr ())"

text \<open>The sum is a checked \<^verbatim>\<open>usize\<close> addition.\<close>

definition FrameCodec_check_decoded_len :: "FrameCodec \<Rightarrow> nat \<Rightarrow> nat \<Rightarrow> error + unit" where
  "FrameCodec_check_decoded_len c header_len payload_len =
     (if 2 ^ 64 \<le> header_len + payload_len then Inl LengthOverflow
      else if unat (fl_max_decoded_frame (fc_limits c)) < header_len + payload_len
      then Inl (LimitExceeded ''decoded frame'' (of_nat (header_len + payload_len))
                  (ucast (fl_max_decoded_frame (fc_limits c))))
      else Inr ())"

definition FrameCodec_encode :: "(bytes \<Rightarrow> bytes) \<Rightarrow> FrameCodec \<Rightarrow> Frame \<Rightarrow> error + bytes" where
  "FrameCodec_encode compress c f =
     (let h = fr_header f in
      ebind (FrameCodec_validate_schema_flags c h) (\<lambda>_.
      ebind (FrameHeader_validate h) (\<lambda>_.
      ebind (FrameCodec_check_decoded_len c (FrameHeader_encoded_len h) (length (fr_payload f))) (\<lambda>_.
      ebind (FrameHeader_encode h) (\<lambda>head.
      ebind (if fh_compressed h
             then (if header_key h \<in> fc_compression_forbidden c
                   then Inl (Invalid ''compression-forbidden frame'')
                   else if LZ4_CODEC \<notin> fc_codecs c then Inl (UnsupportedCodec LZ4_CODEC)
                   else ebind (put_len_u32 (length (fr_payload f))) (\<lambda>len.
                     Inr (put_u16 LZ4_CODEC @ put_u16 0 @ len @ compress (fr_payload f))))
             else Inr (fr_payload f)) (\<lambda>body.
      ebind (FrameCodec_check_wire_len c (length (head @ body))) (\<lambda>_. Inr (head @ body))))))))"

text \<open>The payload of a frame whose header has been read, from what remains of the input.\<close>

definition FrameCodec_decode_payload ::
  "(bytes \<Rightarrow> nat \<Rightarrow> bytes option) \<Rightarrow> FrameCodec \<Rightarrow> FrameHeader \<Rightarrow> bytes reader" where
  "FrameCodec_decode_payload decompress c h =
     (if fh_compressed h
      then (if header_key h \<in> fc_compression_forbidden c
            then rfail (Invalid ''compression-forbidden frame'')
            else rbind dec_u16 (\<lambda>codec. rbind dec_u16 (\<lambda>reserved.
              if reserved \<noteq> 0 then rfail (Invalid ''compressed payload reserved field'')
              else rbind dec_u32 (\<lambda>decoded_len.
              rbind (rlift (FrameCodec_check_decoded_len c (FrameHeader_encoded_len h)
                              (unat decoded_len))) (\<lambda>_.
              if codec \<notin> fc_codecs c then rfail (UnsupportedCodec codec)
              else if codec = LZ4_CODEC
              then rbind dec_rest (\<lambda>rest.
                     case decompress rest (unat decoded_len) of
                       None \<Rightarrow> rfail Compression | Some payload \<Rightarrow> rret payload)
              else rfail (UnsupportedCodec codec))))))
      else rbind dec_rest (\<lambda>payload.
             rbind (rlift (FrameCodec_check_decoded_len c (FrameHeader_encoded_len h)
                             (length payload))) (\<lambda>_. rret payload)))"

definition FrameCodec_decode ::
  "(bytes \<Rightarrow> nat \<Rightarrow> bytes option) \<Rightarrow> FrameCodec \<Rightarrow> bytes \<Rightarrow> error + Frame" where
  "FrameCodec_decode decompress c input =
     ebind (FrameCodec_check_wire_len c (length input)) (\<lambda>_.
     rrun (rbind FrameHeader_decode_from (\<lambda>header.
           rbind (rlift (FrameHeader_validate header)) (\<lambda>_.
           rbind (rlift (FrameCodec_validate_schema_flags c header)) (\<lambda>_.
           rbind (FrameCodec_decode_payload decompress c header) (\<lambda>payload.
           rbind dec_finish (\<lambda>_. rret \<lparr>fr_header = header, fr_payload = payload\<rparr>)))))) input)"

definition FrameCodec_encode_stream ::
  "(bytes \<Rightarrow> bytes) \<Rightarrow> FrameCodec \<Rightarrow> Frame \<Rightarrow> error + bytes" where
  "FrameCodec_encode_stream compress c f =
     ebind (FrameCodec_encode compress c f) (\<lambda>encoded.
     ebind (put_len_u32 (length encoded)) (\<lambda>len. Inr (len @ encoded)))"

definition FrameCodec_decode_stream ::
  "(bytes \<Rightarrow> nat \<Rightarrow> bytes option) \<Rightarrow> FrameCodec \<Rightarrow> bytes \<Rightarrow> error + Frame \<times> nat" where
  "FrameCodec_decode_stream decompress c input =
     (if length input < 4 then Inl Truncated
      else let len = unat (from_le (take 4 input) :: u32) in
        ebind (FrameCodec_check_wire_len c len) (\<lambda>_.
        if 2 ^ 64 \<le> 4 + len then Inl LengthOverflow
        else if length input < 4 + len then Inl Truncated
        else ebind (FrameCodec_decode decompress c (take len (drop 4 input))) (\<lambda>f.
          Inr (f, 4 + len))))"

section \<open>Datagrams\<close>

definition validate_datagram_header :: "FrameHeader \<Rightarrow> u32 \<Rightarrow> error + unit" where
  "validate_datagram_header h receive_max_datagram =
     (if receive_max_datagram = 0 \<or> HARD_MAX_DATAGRAM < receive_max_datagram
         \<or> fh_class h \<noteq> Event \<or> fh_compressed h
         \<or> fh_family h = FAMILY_CORE \<or> fh_family h = FAMILY_TRANSFER
      then Inl (Invalid ''transport datagram frame'') else Inr ())"

definition check_datagram_len :: "nat \<Rightarrow> u32 \<Rightarrow> error + unit" where
  "check_datagram_len len receive_max_datagram =
     (let maximum = min receive_max_datagram HARD_MAX_DATAGRAM in
      if maximum = 0 \<or> unat maximum < len
      then Inl (LimitExceeded ''transport datagram'' (of_nat len) (ucast maximum)) else Inr ())"

definition FrameCodec_validate_datagram_predicate :: "Frame \<Rightarrow> DatagramContext \<Rightarrow> error + unit" where
  "FrameCodec_validate_datagram_predicate f ctx =
     (case operation (fh_family (fr_header f)) (Class_wire (fh_class (fr_header f)))
             (fh_kind (fr_header f)) of
        None \<Rightarrow> Inl (Invalid ''transport datagram predicate'')
      | Some p \<Rightarrow>
          ebind (if om_datagram p = DATAGRAM_NET_NATIVE_FLOW
                 then Inr (ctx = NetNativeFlow \<and> is_ok (Datagram_decode (fr_payload f)))
                 else if om_datagram p = DATAGRAM_SURFACE_FRAME
                 then Inr (ctx = SurfaceFrameContext
                   \<and> (case SurfaceFrame_decode (fr_payload f) of
                        Inl _ \<Rightarrow> False | Inr v \<Rightarrow> SurfaceFrame_datagram_eligible v))
                 else if om_datagram p = DATAGRAM_MEDIA_FRAME
                 then Inr (ctx = MediaFrameContext
                   \<and> (case MediaFrame_decode (fr_payload f) of
                        Inl _ \<Rightarrow> False | Inr v \<Rightarrow> MediaFrame_datagram_eligible v))
                 else if om_datagram p = DATAGRAM_FORBIDDEN then Inr False
                 else Inl (Invalid ''unknown transport datagram predicate'')) (\<lambda>eligible.
            if eligible then Inr () else Inl (Invalid ''transport datagram predicate'')))"

definition FrameCodec_encode_datagram ::
  "(bytes \<Rightarrow> bytes) \<Rightarrow> FrameCodec \<Rightarrow> Frame \<Rightarrow> u32 \<Rightarrow> DatagramContext \<Rightarrow> error + bytes" where
  "FrameCodec_encode_datagram compress c f receive_max_datagram ctx =
     ebind (validate_datagram_header (fr_header f) receive_max_datagram) (\<lambda>_.
     ebind (FrameCodec_validate_datagram_predicate f ctx) (\<lambda>_.
     ebind (FrameCodec_encode compress c f) (\<lambda>encoded.
     ebind (check_datagram_len (length encoded) receive_max_datagram) (\<lambda>_. Inr encoded))))"

definition FrameCodec_decode_datagram ::
  "(bytes \<Rightarrow> nat \<Rightarrow> bytes option) \<Rightarrow> FrameCodec \<Rightarrow> bytes \<Rightarrow> u32 \<Rightarrow> DatagramContext
    \<Rightarrow> error + Frame" where
  "FrameCodec_decode_datagram decompress c input receive_max_datagram ctx =
     ebind (check_datagram_len (length input) receive_max_datagram) (\<lambda>_.
     ebind (FrameCodec_decode decompress c input) (\<lambda>f.
     ebind (validate_datagram_header (fr_header f) receive_max_datagram) (\<lambda>_.
     ebind (FrameCodec_validate_datagram_predicate f ctx) (\<lambda>_. Inr f))))"

definition validate_preface :: "bytes \<Rightarrow> error + unit" where
  "validate_preface input =
     (if length input < length PREFACE then Inl Truncated
      else if length input \<noteq> length PREFACE \<or> input \<noteq> PREFACE then Inl (Invalid ''preface'')
      else Inr ())"

section \<open>Headers are canonical\<close>

lemma word8_and_255: "(w :: u8) AND 255 = w"
  using take_bit_length_eq [of w] by (simp add: take_bit_eq_mask mask_eq_exp_minus_1)

lemma nat_less_16:
  "n < (16 :: nat) \<longleftrightarrow> n \<in> {0, 1, 2, 3, 4, 5, 6, 7, 8, 9, 10, 11, 12, 13, 14, 15}"
proof -
  have "n < 16 \<longleftrightarrow> n \<in> set [0..<16]" by simp
  also have "[0..<16] = [0, 1, 2, 3, 4, 5, 6, 7, 8, 9, 10, 11, 12, 13, 14, 15 :: nat]"
    by (simp add: upt_rec)
  finally show ?thesis by simp
qed

lemma word8_low_nibble:
  assumes "(w :: u8) AND 240 = 0"
  shows "w \<in> {0, 1, 2, 3, 4, 5, 6, 7, 8, 9, 10, 11, 12, 13, 14, 15}"
proof -
  have "unat w = unat ((w AND 240) OR (w AND 15))"
    by (simp add: bit.conj_disj_distrib [symmetric] word8_and_255)
  also from assms have "\<dots> = unat (w AND 15)" by simp
  also have "\<dots> \<le> unat (15 :: u8)"
    by (rule word_and_le1 [THEN word_le_nat_alt [THEN iffD1]])
  finally have "unat w < 16" by simp
  then show ?thesis unfolding nat_less_16 by (simp add: word_unat_eq_iff)
qed

text \<open>The meta byte: class, compressed, sensitive, and nothing else.\<close>

definition meta_byte :: "Class \<Rightarrow> bool \<Rightarrow> bool \<Rightarrow> u8" where
  "meta_byte cls compressed sensitive =
     (Class_wire cls OR (if compressed then META_COMPRESSED else 0)
      OR (if sensitive then META_SENSITIVE else 0))"

lemma meta_byte_iff:
  "meta AND META_RESERVED = 0 \<and> Class_from_meta meta = Inr cls
     \<and> compressed = (meta AND META_COMPRESSED \<noteq> 0) \<and> sensitive = (meta AND META_SENSITIVE \<noteq> 0)
   \<longleftrightarrow> meta = meta_byte cls compressed sensitive" (is "?lhs \<longleftrightarrow> ?rhs")
proof
  assume ?lhs
  then have "meta \<in> {0, 1, 2, 3, 4, 5, 6, 7, 8, 9, 10, 11, 12, 13, 14, 15}"
    by (intro word8_low_nibble) (simp add: META_RESERVED_def)
  with \<open>?lhs\<close> show ?rhs
    by (elim insertE) (simp_all add: Class_from_meta_def transport_consts meta_byte_def split: if_splits)
next
  assume ?rhs
  then show ?lhs
    by (cases cls; cases compressed; cases sensitive)
      (simp_all add: Class_from_meta_def transport_consts meta_byte_def)
qed

lemma FrameHeader_encode_iff [enc_iff]:
  "FrameHeader_encode h = Inr p \<longleftrightarrow>
     FrameHeader_validate h = Inr () \<and>
     p = put_u16 (fh_family h) @ put_u16 (fh_kind h)
         @ put_u8 (meta_byte (fh_class h) (fh_compressed h) (fh_sensitive h))
         @ (case fh_request_id h of None \<Rightarrow> [] | Some request_id \<Rightarrow> put_u32 request_id)"
  by (auto simp: FrameHeader_encode_def enc_iff meta_byte_def)

lemma FrameHeader_validate_iff:
  "FrameHeader_validate h = Inr () \<longleftrightarrow>
     (if fh_class h = Event then fh_request_id h = None
      else \<exists>request_id. fh_request_id h = Some request_id \<and> request_id \<noteq> 0)"
  by (cases "fh_class h"; cases "fh_request_id h") (simp_all add: FrameHeader_validate_def)

lemma FrameHeader_decode_iff:
  "(FrameHeader_decode_from b = Inr (h, r) \<and> FrameHeader_validate h = Inr ()) \<longleftrightarrow>
     (\<exists>p. FrameHeader_encode h = Inr p \<and> b = p @ r)"
proof (cases h)
  case (fields family kind cls request_id compressed sensitive)
  have "FrameHeader_decode_from b = Inr (h, r) \<longleftrightarrow>
      (\<exists>meta. (meta AND META_RESERVED = 0 \<and> Class_from_meta meta = Inr cls
          \<and> compressed = (meta AND META_COMPRESSED \<noteq> 0) \<and> sensitive = (meta AND META_SENSITIVE \<noteq> 0))
        \<and> (if cls = Event then request_id = None else request_id \<noteq> None)
        \<and> b = put_u16 family @ put_u16 kind @ put_u8 meta
            @ (case request_id of None \<Rightarrow> [] | Some q \<Rightarrow> put_u32 q) @ r)"
    by (cases request_id) (auto simp: FrameHeader_decode_from_def rd_iff fields)
  then show ?thesis
    unfolding meta_byte_iff FrameHeader_encode_iff FrameHeader_validate_iff by (auto simp: fields)
qed

lemma FrameHeader_decode_encode:
  "FrameHeader_encode h = Inr p \<Longrightarrow> FrameHeader_decode_from (p @ r) = Inr (h, r)"
  using FrameHeader_decode_iff [of "p @ r" h r] by blast

lemma FrameHeader_encode_length:
  "FrameHeader_encode h = Inr p \<Longrightarrow> length p = FrameHeader_encoded_len h"
  by (cases "fh_class h"; cases "fh_request_id h")
    (auto simp: FrameHeader_encode_iff FrameHeader_validate_iff FrameHeader_encoded_len_def
      transport_consts put_u8_def)

section \<open>The frame codec\<close>

text \<open>What the theorems use of \<^verbatim>\<open>lz4_flex\<close>: decompression undoes compression when it is given the
  original size, and never returns more than the size it is given.\<close>

definition lz4_round_trip :: "(bytes \<Rightarrow> bytes) \<Rightarrow> (bytes \<Rightarrow> nat \<Rightarrow> bytes option) \<Rightarrow> bool" where
  "lz4_round_trip compress decompress \<longleftrightarrow> (\<forall>p. decompress (compress p) (length p) = Some p)"

definition lz4_bounded :: "(bytes \<Rightarrow> nat \<Rightarrow> bytes option) \<Rightarrow> bool" where
  "lz4_bounded decompress \<longleftrightarrow> (\<forall>z n p. decompress z n = Some p \<longrightarrow> length p \<le> n)"

lemma check_wire_len_iff:
  "FrameCodec_check_wire_len c n = Inr u \<longleftrightarrow>
     EVENT_HEADER_BYTES \<le> n \<and> n \<le> unat (fl_max_wire_frame (fc_limits c))"
  by (auto simp: FrameCodec_check_wire_len_def)

lemma unat_u32_bound: "unat (x :: u32) < 2 ^ 64"
  using unsigned_less [of x, where 'a = nat] by simp

lemma check_decoded_len_iff:
  "FrameCodec_check_decoded_len c h n = Inr u \<longleftrightarrow>
     h + n \<le> unat (fl_max_decoded_frame (fc_limits c))"
  using unat_u32_bound [of "fl_max_decoded_frame (fc_limits c)"]
  by (auto simp: FrameCodec_check_decoded_len_def)

lemma decode_payload_plain:
  assumes "\<not> fh_compressed h"
  shows "FrameCodec_decode_payload decompress c h b = Inr (p, r) \<longleftrightarrow>
     p = b \<and> r = []
     \<and> FrameHeader_encoded_len h + length b \<le> unat (fl_max_decoded_frame (fc_limits c))"
  using assms by (auto simp: FrameCodec_decode_payload_def rd_iff check_decoded_len_iff)

lemma decode_payload_compressed:
  assumes "fh_compressed h"
  shows "FrameCodec_decode_payload decompress c h b = Inr (p, r) \<longleftrightarrow>
     header_key h \<notin> fc_compression_forbidden c \<and> LZ4_CODEC \<in> fc_codecs c \<and> r = [] \<and>
     (\<exists>len z. b = put_u16 LZ4_CODEC @ put_u16 0 @ put_u32 len @ z \<and> decompress z (unat len) = Some p
        \<and> FrameHeader_encoded_len h + unat len \<le> unat (fl_max_decoded_frame (fc_limits c)))"
  using assms by (auto simp: FrameCodec_decode_payload_def rd_iff check_decoded_len_iff)

lemma FrameCodec_decode_iff:
  "FrameCodec_decode decompress c b = Inr f \<longleftrightarrow>
     EVENT_HEADER_BYTES \<le> length b \<and> length b \<le> unat (fl_max_wire_frame (fc_limits c))
     \<and> FrameCodec_validate_schema_flags c (fr_header f) = Inr ()
     \<and> (\<exists>p r. FrameHeader_encode (fr_header f) = Inr p \<and> b = p @ r
          \<and> FrameCodec_decode_payload decompress c (fr_header f) r = Inr (fr_payload f, []))"
  (is "_ \<longleftrightarrow> ?lens \<and> ?lens' \<and> ?flags \<and> ?parts")
proof (cases f)
  case (fields h payload)
  have "FrameCodec_decode decompress c b = Inr f \<longleftrightarrow> ?lens \<and> ?lens' \<and> ?flags \<and>
      (\<exists>r. (FrameHeader_decode_from b = Inr (h, r) \<and> FrameHeader_validate h = Inr ())
         \<and> FrameCodec_decode_payload decompress c h r = Inr (payload, []))"
    by (auto simp: FrameCodec_decode_def rd_iff enc_iff check_wire_len_iff fields)
  then show ?thesis
    unfolding FrameHeader_decode_iff by (auto simp: fields)
qed

lemma FrameCodec_encode_iff:
  "FrameCodec_encode compress c f = Inr b \<longleftrightarrow>
     EVENT_HEADER_BYTES \<le> length b \<and> length b \<le> unat (fl_max_wire_frame (fc_limits c))
     \<and> FrameCodec_validate_schema_flags c (fr_header f) = Inr ()
     \<and> FrameHeader_encoded_len (fr_header f) + length (fr_payload f)
         \<le> unat (fl_max_decoded_frame (fc_limits c))
     \<and> (\<exists>p. FrameHeader_encode (fr_header f) = Inr p \<and>
          (if fh_compressed (fr_header f)
           then header_key (fr_header f) \<notin> fc_compression_forbidden c \<and> LZ4_CODEC \<in> fc_codecs c
             \<and> length (fr_payload f) < 2 ^ 32
             \<and> b = p @ put_u16 LZ4_CODEC @ put_u16 0 @ put_u32 (of_nat (length (fr_payload f)))
                   @ compress (fr_payload f)
           else b = p @ fr_payload f))"
  by (cases "fh_compressed (fr_header f)")
    (auto simp: FrameCodec_encode_def Let_def enc_iff check_wire_len_iff check_decoded_len_iff)

lemma FrameCodec_encode_decode:
  assumes "lz4_round_trip compress decompress" and "FrameCodec_encode compress c f = Inr b"
  shows "FrameCodec_decode decompress c b = Inr f"
proof (cases "fh_compressed (fr_header f)")
  case True
  let ?n = "length (fr_payload f)"
  from assms(2) True have n: "?n < 2 ^ 32" by (auto simp: FrameCodec_encode_iff)
  then have "unat (of_nat ?n :: u32) = ?n" by (simp add: unat_of_nat)
  with assms True show ?thesis
    by (fastforce simp: FrameCodec_encode_iff FrameCodec_decode_iff lz4_round_trip_def
        decode_payload_compressed [OF True])
next
  case False
  with assms(2) show ?thesis
    by (auto simp: FrameCodec_encode_iff FrameCodec_decode_iff decode_payload_plain [OF False])
qed

lemma FrameCodec_decode_bounded:
  assumes "lz4_bounded decompress" and "FrameCodec_decode decompress c b = Inr f"
  shows "FrameHeader_encoded_len (fr_header f) + length (fr_payload f)
    \<le> unat (fl_max_decoded_frame (fc_limits c))"
proof (cases "fh_compressed (fr_header f)")
  case True
  with assms(2) obtain len z where "decompress z (unat len) = Some (fr_payload f)"
    and "FrameHeader_encoded_len (fr_header f) + unat (len :: u32)
      \<le> unat (fl_max_decoded_frame (fc_limits c))"
    by (auto simp: FrameCodec_decode_iff decode_payload_compressed)
  moreover from this(1) assms(1) have "length (fr_payload f) \<le> unat len"
    by (auto simp: lz4_bounded_def)
  ultimately show ?thesis by simp
next
  case False
  with assms(2) show ?thesis
    by (auto simp: FrameCodec_decode_iff decode_payload_plain)
qed

lemma FrameCodec_decode_plain:
  assumes "FrameCodec_decode decompress c b = Inr f" and "\<not> fh_compressed (fr_header f)"
  shows "FrameCodec_encode compress c f = Inr b"
  using assms by (auto simp: FrameCodec_encode_iff FrameCodec_decode_iff decode_payload_plain)

section \<open>Byte streams\<close>

lemma check_wire_len_u32:
  "FrameCodec_check_wire_len c n = Inr u \<Longrightarrow> n < 2 ^ 32"
  using unsigned_less [of "fl_max_wire_frame (fc_limits c)", where 'a = nat]
  by (simp add: check_wire_len_iff)

lemma encode_stream_iff:
  "FrameCodec_encode_stream compress c f = Inr s \<longleftrightarrow>
     (\<exists>b. FrameCodec_encode compress c f = Inr b \<and> length b < 2 ^ 32
        \<and> s = put_u32 (of_nat (length b)) @ b)"
  by (auto simp: FrameCodec_encode_stream_def enc_iff)

lemma from_le_u32: "from_le (put_u32 x) = x"
  using take_bit_length_eq [of x] by (simp add: put_u32_def from_le_le_bytes)

lemma decode_stream_append:
  assumes "lz4_round_trip compress decompress" and "FrameCodec_encode_stream compress c f = Inr s"
  shows "FrameCodec_decode_stream decompress c (s @ rest) = Inr (f, length s)"
proof -
  from assms(2) obtain b where b: "FrameCodec_encode compress c f = Inr b" "length b < 2 ^ 32"
    and s: "s = put_u32 (of_nat (length b)) @ b"
    by (auto simp: encode_stream_iff)
  have "unat (of_nat (length b) :: u32) = length b" using b(2) by (simp add: unat_of_nat)
  moreover have "FrameCodec_check_wire_len c (length b) = Inr ()"
    using b(1) by (simp add: FrameCodec_encode_iff check_wire_len_iff)
  ultimately show ?thesis
    using FrameCodec_encode_decode [OF assms(1) b(1)] b(2)
    by (simp add: s FrameCodec_decode_stream_def from_le_u32 Let_def)
qed

lemma decode_stream_truncated:
  assumes "FrameCodec_encode_stream compress c f = Inr s" and "n < length s"
  shows "FrameCodec_decode_stream decompress c (take n s) = Inl Truncated"
proof (cases "n < 4")
  case True
  then have "length (take n s) < 4" by simp
  then show ?thesis by (simp only: FrameCodec_decode_stream_def if_True)
next
  case False
  from assms(1) obtain b where b: "FrameCodec_encode compress c f = Inr b" "length b < 2 ^ 32"
    and s: "s = put_u32 (of_nat (length b)) @ b"
    by (auto simp: encode_stream_iff)
  have "unat (of_nat (length b) :: u32) = length b" using b(2) by (simp add: unat_of_nat)
  moreover have "FrameCodec_check_wire_len c (length b) = Inr ()"
    using b(1) by (simp add: FrameCodec_encode_iff check_wire_len_iff)
  ultimately show ?thesis
    using False assms(2) b(2)
    by (auto simp: s FrameCodec_decode_stream_def from_le_u32 Let_def min_def)
qed

text \<open>A reader that takes \<open>n\<close> frames off a stream, dropping each frame's consumed bytes.\<close>

fun decode_frames ::
  "(bytes \<Rightarrow> nat \<Rightarrow> bytes option) \<Rightarrow> FrameCodec \<Rightarrow> nat \<Rightarrow> bytes \<Rightarrow> error + Frame list \<times> bytes" where
  "decode_frames decompress c 0 input = Inr ([], input)"
| "decode_frames decompress c (Suc n) input =
     ebind (FrameCodec_decode_stream decompress c input) (\<lambda>(f, consumed).
     ebind (decode_frames decompress c n (drop consumed input)) (\<lambda>(fs, rest).
       Inr (f # fs, rest)))"

lemma decode_frames_encode_all:
  assumes "lz4_round_trip compress decompress"
    and "encode_all (FrameCodec_encode_stream compress c) fs = Inr s"
  shows "decode_frames decompress c (length fs) (s @ rest) = Inr (fs, rest)"
  using assms(2)
proof (induction fs arbitrary: s)
  case Nil
  then show ?case by simp
next
  case (Cons f fs)
  then obtain p q where "FrameCodec_encode_stream compress c f = Inr p"
    and q: "encode_all (FrameCodec_encode_stream compress c) fs = Inr q" and s: "s = p @ q"
    by (auto simp: enc_iff)
  with decode_stream_append [OF assms(1), of c f p "q @ rest"] Cons.IH [OF q] show ?case
    by (simp add: s)
qed

section \<open>Schema policies\<close>

definition keys_of :: "u16 \<Rightarrow> OperationMetadata \<Rightarrow> key set" where
  "keys_of family_id p =
     (if om_class p = CLASS_EVENT then {(family_id, Event, om_kind p)}
      else {(family_id, Request, om_kind p), (family_id, Result, om_kind p)})"

text \<open>The keys the operations \<open>ps\<close> of a family, or the families \<open>fs\<close>, give the policy \<open>v\<close>.\<close>

definition operations_keys ::
  "(OperationMetadata \<Rightarrow> u8) \<Rightarrow> u8 \<Rightarrow> u16 \<Rightarrow> OperationMetadata list \<Rightarrow> key set" where
  "operations_keys pol v family_id ps =
     (\<Union>p\<in>set (filter (\<lambda>p. pol p = v) ps). keys_of family_id p)"

definition schema_keys ::
  "(OperationMetadata \<Rightarrow> u8) \<Rightarrow> u8 \<Rightarrow> FamilyMetadata list \<Rightarrow> key set" where
  "schema_keys pol v fs = (\<Union>f\<in>set fs. operations_keys pol v (fm_id f) (fm_operations f))"

text \<open>Adding keys to the four sets of a codec.\<close>

definition extend ::
  "((OperationMetadata \<Rightarrow> u8) \<Rightarrow> u8 \<Rightarrow> key set) \<Rightarrow> FrameCodec \<Rightarrow> FrameCodec" where
  "extend K c = c\<lparr>
     fc_compression_required := fc_compression_required c \<union> K om_compression POLICY_REQUIRED,
     fc_compression_forbidden := fc_compression_forbidden c \<union> K om_compression POLICY_FORBIDDEN,
     fc_sensitive_required := fc_sensitive_required c \<union> K om_sensitive POLICY_REQUIRED,
     fc_sensitive_forbidden := fc_sensitive_forbidden c \<union> K om_sensitive POLICY_FORBIDDEN\<rparr>"

lemma extend_extend: "extend K (extend J c) = extend (\<lambda>pol v. J pol v \<union> K pol v) c"
  by (simp add: extend_def Un_assoc)

lemma extend_empty: "extend (\<lambda>_ _. {}) c = c"
  by (simp add: extend_def)

lemma add_operation_extend:
  assumes "operation_ok family_id p"
  shows "add_operation family_id p c
    = Inr (extend (\<lambda>pol v. if pol p = v then keys_of family_id p else {}) c)"
  using assms
  by (auto simp: add_operation_def operation_keys_def operation_ok_def keys_of_def extend_def Let_def
      POLICY_REQUIRED_def POLICY_FORBIDDEN_def)

lemma operations_keys_Cons:
  "operations_keys pol v fid (p # ps)
     = (if pol p = v then keys_of fid p else {}) \<union> operations_keys pol v fid ps"
  by (auto simp: operations_keys_def)

lemma add_operations_extend:
  "list_all (operation_ok fid) ps \<Longrightarrow>
     add_operations fid ps c = Inr (extend (\<lambda>pol v. operations_keys pol v fid ps) c)"
proof (induction ps arbitrary: c)
  case Nil
  then show ?case by (simp add: operations_keys_def extend_empty)
next
  case (Cons p ps)
  then show ?case
    by (simp add: add_operation_extend extend_extend operations_keys_Cons)
qed

lemma add_families_extend:
  "list_all family_ok fs \<Longrightarrow> add_families fs c = Inr (extend (\<lambda>pol v. schema_keys pol v fs) c)"
proof (induction fs arbitrary: c)
  case Nil
  then show ?case by (simp add: schema_keys_def extend_empty)
next
  case (Cons f fs)
  then have "list_all (operation_ok (fm_id f)) (fm_operations f)" by (simp add: family_ok_def)
  with Cons show ?case
    by (simp add: add_operations_extend extend_extend schema_keys_def)
qed

lemma negotiate_iff:
  "negotiate None {} cs = Inr S \<longleftrightarrow> cs = [] \<and> S = {} \<or> cs = [LZ4_CODEC] \<and> S = {LZ4_CODEC}"
proof (cases cs)
  case (Cons a ds)
  then show ?thesis
    by (cases ds) (auto simp: LZ4_CODEC_def)
qed auto

lemma FrameLimits_validate_same: "FrameLimits_validate l = Inr l' \<Longrightarrow> l' = l"
  by (auto simp: FrameLimits_validate_def enc_iff)

lemma FrameCodec_new_iff:
  "FrameCodec_new l cs = Inr c \<longleftrightarrow>
     FrameLimits_validate l = Inr l \<and> (cs = [] \<or> cs = [LZ4_CODEC]) \<and>
     c = \<lparr>fc_limits = l, fc_codecs = set cs,
          fc_compression_required = schema_keys om_compression POLICY_REQUIRED FAMILIES,
          fc_compression_forbidden = schema_keys om_compression POLICY_FORBIDDEN FAMILIES,
          fc_sensitive_required = schema_keys om_sensitive POLICY_REQUIRED FAMILIES,
          fc_sensitive_forbidden = schema_keys om_sensitive POLICY_FORBIDDEN FAMILIES,
          fc_hello_only = False\<rparr>"
  unfolding FrameCodec_new_def ebind_Inr_iff negotiate_iff add_families_extend [OF FAMILIES_ok]
  by (auto simp: extend_def dest: FrameLimits_validate_same)

lemma strictly_increasing_distinct: "strictly_increasing xs \<Longrightarrow> distinct xs"
proof -
  have "strictly_increasing (x # ys) \<Longrightarrow> (\<forall>y\<in>set ys. x < y) \<and> distinct ys" for x and ys :: "'a list"
  proof (induction ys arbitrary: x)
    case (Cons y ys)
    then show ?case by fastforce
  qed simp
  then show "strictly_increasing xs \<Longrightarrow> distinct xs" by (cases xs) fastforce+
qed

lemma FAMILIES_distinct:
  assumes "f \<in> set FAMILIES" and "g \<in> set FAMILIES" and "fm_id f = fm_id g"
  shows "f = g"
  using strictly_increasing_distinct [OF FAMILIES_ids] assms by (auto simp: distinct_map inj_on_def)

lemma keys_of_inject:
  assumes "k \<in> keys_of i p" and "k \<in> keys_of j q" and "operation_ok i p" and "operation_ok j q"
  shows "i = j \<and> om_class p = om_class q \<and> om_kind p = om_kind q"
  using assms by (auto simp: keys_of_def operation_ok_def split: if_splits)

lemma schema_key_operation:
  assumes "k \<in> schema_keys pol v FAMILIES" and "k \<in> schema_keys pol w FAMILIES"
  shows "v = w"
proof -
  from assms obtain f p g q where f: "f \<in> set FAMILIES" "p \<in> set (fm_operations f)" "pol p = v"
    and g: "g \<in> set FAMILIES" "q \<in> set (fm_operations g)" "pol q = w"
    and k: "k \<in> keys_of (fm_id f) p" "k \<in> keys_of (fm_id g) q"
    by (auto simp: schema_keys_def operations_keys_def)
  from FAMILIES_ok f g have ok: "family_ok f" "family_ok g" by (auto simp: list_all_iff)
  then have "operation_ok (fm_id f) p" "operation_ok (fm_id g) q"
    using f g by (auto simp: family_ok_def list_all_iff)
  from keys_of_inject [OF k this] have same: "fm_id f = fm_id g"
    "om_class p = om_class q" "om_kind p = om_kind q" by simp_all
  from FAMILIES_distinct [OF f(1) g(1) same(1)] have "f = g" .
  with ok f g same have "p = q" by (auto simp: family_ok_def distinct_map inj_on_def)
  with f g show ?thesis by simp
qed

lemma validate_schema_flags_iff:
  "FrameCodec_validate_schema_flags c h = Inr u \<longleftrightarrow>
     (fc_hello_only c \<longrightarrow> fh_family h = FAMILY_CORE \<and> fh_kind h = HELLO_KIND
        \<and> fh_class h \<noteq> Event \<and> \<not> fh_compressed h)
     \<and> (header_key h \<in> fc_compression_required c \<longrightarrow> fh_compressed h)
     \<and> (header_key h \<in> fc_compression_forbidden c \<longrightarrow> \<not> fh_compressed h)
     \<and> (header_key h \<in> fc_sensitive_required c \<longrightarrow> fh_sensitive h)
     \<and> (header_key h \<in> fc_sensitive_forbidden c \<longrightarrow> \<not> fh_sensitive h)"
  by (auto simp: FrameCodec_validate_schema_flags_def)

section \<open>The generated header codec\<close>

datatype GeneratedHeaderError =
    HdrTruncated | HdrInvalidClass | HdrReservedMeta | HdrRequestIdPresence | HdrZeroRequestId

record GeneratedFrameHeader =
  gh_family :: u16
  gh_kind :: u16
  gh_class :: u8
  gh_request_id :: "u32 option"
  gh_compressed :: bool
  gh_sensitive :: bool

definition GeneratedFrameHeader_encoded_len :: "GeneratedFrameHeader \<Rightarrow> nat" where
  "GeneratedFrameHeader_encoded_len g =
     (if gh_class g = CLASS_EVENT then EVENT_HEADER_BYTES else CORRELATED_HEADER_BYTES)"

text \<open>The nine-byte buffer and how much of it is used.\<close>

definition GeneratedFrameHeader_encode ::
  "GeneratedFrameHeader \<Rightarrow> GeneratedHeaderError + bytes \<times> nat" where
  "GeneratedFrameHeader_encode g =
     (let event = (gh_class g = CLASS_EVENT) in
      if \<not> event \<and> gh_class g \<noteq> CLASS_REQUEST \<and> gh_class g \<noteq> CLASS_RESULT then Inl HdrInvalidClass
      else if event \<noteq> (gh_request_id g = None) then Inl HdrRequestIdPresence
      else if gh_request_id g = Some 0 then Inl HdrZeroRequestId
      else Inr (le_bytes 2 (gh_family g) @ le_bytes 2 (gh_kind g)
           @ [gh_class g OR (if gh_compressed g then META_COMPRESSED else 0)
                OR (if gh_sensitive g then META_SENSITIVE else 0)]
           @ (case gh_request_id g of None \<Rightarrow> [0, 0, 0, 0] | Some q \<Rightarrow> le_bytes 4 q),
           GeneratedFrameHeader_encoded_len g))"

definition GeneratedFrameHeader_decode ::
  "bytes \<Rightarrow> GeneratedHeaderError + GeneratedFrameHeader \<times> nat" where
  "GeneratedFrameHeader_decode input =
     (if length input < EVENT_HEADER_BYTES then Inl HdrTruncated
      else let meta = input ! 4 in
      if meta AND META_RESERVED \<noteq> 0 then Inl HdrReservedMeta
      else let cls = meta AND CLASS_MASK; correlated = (cls = CLASS_REQUEST \<or> cls = CLASS_RESULT) in
      if cls \<noteq> CLASS_EVENT \<and> \<not> correlated then Inl HdrInvalidClass
      else let len = (if correlated then CORRELATED_HEADER_BYTES else EVENT_HEADER_BYTES) in
      if length input < len then Inl HdrTruncated
      else ebind (if correlated
                  then (let v = from_le [input ! 5, input ! 6, input ! 7, input ! 8] in
                        if v = 0 then Inl HdrZeroRequestId else Inr (Some v))
                  else Inr None) (\<lambda>request_id.
        Inr (\<lparr>gh_family = from_le [input ! 0, input ! 1], gh_kind = from_le [input ! 2, input ! 3],
              gh_class = cls, gh_request_id = request_id,
              gh_compressed = (meta AND META_COMPRESSED \<noteq> 0),
              gh_sensitive = (meta AND META_SENSITIVE \<noteq> 0)\<rparr>, len)))"

text \<open>The same header in the two types.\<close>

definition generated_of :: "FrameHeader \<Rightarrow> GeneratedFrameHeader" where
  "generated_of h =
     \<lparr>gh_family = fh_family h, gh_kind = fh_kind h, gh_class = Class_wire (fh_class h),
      gh_request_id = fh_request_id h, gh_compressed = fh_compressed h,
      gh_sensitive = fh_sensitive h\<rparr>"

lemma generated_encode:
  assumes "FrameHeader_encode h = Inr p"
  shows "\<exists>buf. GeneratedFrameHeader_encode (generated_of h) = Inr (buf, length p) \<and> take (length p) buf = p"
  using assms FrameHeader_encode_length [OF assms]
  by (cases "fh_class h"; cases "fh_request_id h")
    (auto simp: GeneratedFrameHeader_encode_def GeneratedFrameHeader_encoded_len_def generated_of_def
      FrameHeader_encode_iff FrameHeader_validate_iff FrameHeader_encoded_len_def Let_def
      transport_consts meta_byte_def put_u8_def put_u16_def put_u32_def)

lemma Class_from_meta_iff: "Class_from_meta m = Inr cls \<longleftrightarrow> m AND CLASS_MASK = Class_wire cls"
  by (cases cls) (auto simp: Class_from_meta_def transport_consts Let_def)

lemma dec_Cons:
  "dec_u8 (a # r) = Inr (a, r)"
  "dec_u16 (a # b # r) = Inr (from_le [a, b], r)"
  "dec_u32 (a # b # c # d # r) = Inr (from_le [a, b, c, d], r)"
  by (simp_all add: dec_u8_def dec_u16_def dec_u32_def dec_take_def rret_def)

lemma four_Cons: "4 \<le> length r \<Longrightarrow> \<exists>e f x y s. r = e # f # x # y # s"
  by (auto simp: Suc_le_length_iff numeral_eq_Suc)

lemma generated_decode_event:
  assumes "m AND CLASS_MASK = CLASS_EVENT"
  shows "GeneratedFrameHeader_decode (a # b # c # d # m # r) = Inr (g, n) \<longleftrightarrow>
     (\<exists>h s. FrameHeader_decode_from (a # b # c # d # m # r) = Inr (h, s)
        \<and> FrameHeader_validate h = Inr () \<and> g = generated_of h \<and> n = 5 + length r - length s)"
proof -
  have "Class_from_meta m = Inr Event" using assms by (simp add: Class_from_meta_iff)
  with assms show ?thesis
    by (auto simp: GeneratedFrameHeader_decode_def FrameHeader_decode_from_def Let_def rbind_def dec_Cons
        rlift_def rret_def rfail_def FrameHeader_validate_iff generated_of_def transport_consts)
qed

lemma generated_decode_correlated:
  assumes "Class_from_meta m = Inr cls" and "cls \<noteq> Event"
  shows "GeneratedFrameHeader_decode (a # b # c # d # m # r) = Inr (g, n) \<longleftrightarrow>
     (\<exists>h s. FrameHeader_decode_from (a # b # c # d # m # r) = Inr (h, s)
        \<and> FrameHeader_validate h = Inr () \<and> g = generated_of h \<and> n = 5 + length r - length s)"
proof -
  from assms have cls: "m AND CLASS_MASK = Class_wire cls" by (simp add: Class_from_meta_iff)
  show ?thesis
  proof (cases "length r < 4")
    case True
    then have "dec_u32 r = Inl Truncated" by (simp add: dec_u32_def dec_take_def)
    with True assms cls show ?thesis
      by (cases cls)
        (auto simp: GeneratedFrameHeader_decode_def FrameHeader_decode_from_def Let_def rbind_def
          dec_Cons rlift_def rret_def rfail_def transport_consts)
  next
    case False
    then obtain e f x y s where r: "r = e # f # x # y # s"
      using four_Cons [of r] by auto
    from assms cls show ?thesis
      by (cases cls)
        (auto simp: r GeneratedFrameHeader_decode_def FrameHeader_decode_from_def Let_def rbind_def
          dec_Cons rlift_def rret_def rfail_def FrameHeader_validate_iff generated_of_def
          transport_consts)
  qed
qed

lemma generated_decode_readers:
  "GeneratedFrameHeader_decode (a # b # c # d # m # r) = Inr (g, n) \<longleftrightarrow>
     (\<exists>h s. FrameHeader_decode_from (a # b # c # d # m # r) = Inr (h, s)
        \<and> FrameHeader_validate h = Inr () \<and> g = generated_of h \<and> n = 5 + length r - length s)"
proof (cases "Class_from_meta m")
  case (Inl e)
  then have "m AND CLASS_MASK \<noteq> Class_wire cls" for cls
    using Class_from_meta_iff [of m cls] by auto
  from this [of Event] this [of Request] this [of Result] Inl show ?thesis
    by (auto simp: GeneratedFrameHeader_decode_def FrameHeader_decode_from_def Let_def rbind_def dec_Cons
        rlift_def rret_def rfail_def transport_consts)
next
  case (Inr cls)
  then show ?thesis
    using generated_decode_event [of m] generated_decode_correlated [OF Inr]
    by (cases "cls = Event") (simp_all add: Class_from_meta_iff)
qed

lemma generated_decode_iff:
  "GeneratedFrameHeader_decode b = Inr (g, n) \<longleftrightarrow>
     (\<exists>h p. FrameHeader_encode h = Inr p \<and> g = generated_of h \<and> n = length p \<and> take n b = p)"
  (is "_ \<longleftrightarrow> ?rhs")
proof -
  have long: "5 \<le> length b" if ?rhs
  proof -
    from that obtain h p where p: "FrameHeader_encode h = Inr p" "take (length p) b = p" by blast
    from FrameHeader_encode_length [OF p(1)] have "5 \<le> length p"
      by (cases "fh_class h") (simp_all add: FrameHeader_encoded_len_def transport_consts)
    with p(2) show ?thesis by (metis length_take min.bounded_iff)
  qed
  show ?thesis
  proof (cases "length b < 5")
    case True
    with long show ?thesis
      by (auto simp: GeneratedFrameHeader_decode_def transport_consts simp del: length_take)
  next
    case False
    then obtain a c d e m r where b: "b = a # c # d # e # m # r"
      using four_Cons [of b] by (cases "drop 4 b") auto
    have "?rhs \<longleftrightarrow> (\<exists>h s. (FrameHeader_decode_from b = Inr (h, s) \<and> FrameHeader_validate h = Inr ())
        \<and> g = generated_of h \<and> n = length b - length s)"
      unfolding FrameHeader_decode_iff
      by (auto simp: append_eq_conv_conj) (metis append_take_drop_id diff_diff_cancel length_append
          length_drop length_take min.absorb4 min.cobounded1 nat_le_linear take_all)
    moreover have "length b = 5 + length r" by (simp add: b)
    ultimately show ?thesis
      using generated_decode_readers [of a c d e m r g n, folded b] by (simp only: conj_assoc)
  qed
qed

section \<open>Properties\<close>

text \<open>
  C31: frames round-trip, compressed or not. What the codec of a direction writes for a frame, the same
  codec reads back as that frame, header and payload.
\<close>

theorem FrameCodec_round_trip:
  assumes "lz4_round_trip compress decompress" and "FrameCodec_encode compress c f = Inr b"
  shows "FrameCodec_decode decompress c b = Inr f"
  using assms by (rule FrameCodec_encode_decode)

text \<open>A stand-in for the block codec that stores its input.\<close>

definition stored :: "bytes \<Rightarrow> bytes" where "stored p = p"

definition unstored :: "bytes \<Rightarrow> nat \<Rightarrow> bytes option" where
  "unstored z n = (if length z \<le> n then Some z else None)"

lemma stored_lz4: "lz4_round_trip stored unstored" "lz4_bounded unstored"
  by (simp_all add: lz4_round_trip_def lz4_bounded_def stored_def unstored_def)

definition sample_codec :: FrameCodec where
  "sample_codec = \<lparr>fc_limits = FrameLimits_recommended, fc_codecs = {LZ4_CODEC},
     fc_compression_required = {}, fc_compression_forbidden = {}, fc_sensitive_required = {},
     fc_sensitive_forbidden = {}, fc_hello_only = False\<rparr>"

definition sample_frame :: Frame where
  "sample_frame = \<lparr>fr_header = \<lparr>fh_family = 16, fh_kind = 3, fh_class = Request,
     fh_request_id = Some 9, fh_compressed = True, fh_sensitive = False\<rparr>, fr_payload = [1, 2, 3]\<rparr>"

definition sample_bytes :: bytes where
  "sample_bytes = put_u16 16 @ put_u16 3 @ [5] @ put_u32 9 @ put_u16 1 @ put_u16 0 @ put_u32 3 @ [1, 2, 3]"

lemmas sample_defs = sample_codec_def sample_frame_def sample_bytes_def FrameLimits_recommended_def
  RECOMMENDED_WIRE_FRAME_def RECOMMENDED_DECODED_FRAME_def transport_consts LZ4_CODEC_def

lemma sample_encode: "FrameCodec_encode stored sample_codec sample_frame = Inr sample_bytes"
  by (simp add: FrameCodec_encode_iff sample_defs stored_def validate_schema_flags_iff
      FrameHeader_encoded_len_def FrameHeader_encode_iff FrameHeader_validate_iff meta_byte_def
      put_u8_def)

theorem FrameCodec_round_trip_witness:
  "FrameCodec_decode unstored sample_codec sample_bytes = Inr sample_frame"
  by (rule FrameCodec_round_trip [OF stored_lz4(1) sample_encode])

text \<open>
  C32: no decompression bomb. Whatever bytes a peer sends, an accepted frame is no larger than the
  direction's decoded limit, header included, and was read from no more bytes than its wire limit.
\<close>

theorem FrameCodec_decode_limits:
  assumes "lz4_bounded decompress" and "FrameCodec_decode decompress c b = Inr f"
  shows "FrameHeader_encoded_len (fr_header f) + length (fr_payload f)
      \<le> unat (fl_max_decoded_frame (fc_limits c))
    \<and> length b \<le> unat (fl_max_wire_frame (fc_limits c))"
  using FrameCodec_decode_bounded [OF assms] assms(2) by (simp add: FrameCodec_decode_iff)

theorem FrameCodec_decode_limits_witness:
  "FrameHeader_encoded_len (fr_header sample_frame) + length (fr_payload sample_frame) \<le> 4194304
    \<and> length sample_bytes \<le> 1048576"
  using FrameCodec_decode_limits
    [OF stored_lz4(2) FrameCodec_encode_decode [OF stored_lz4(1) sample_encode]]
  by (simp add: sample_codec_def FrameLimits_recommended_def RECOMMENDED_WIRE_FRAME_def
      RECOMMENDED_DECODED_FRAME_def)

text \<open>
  An uncompressed frame has one encoding: an accepted byte string is what the encoder writes for
  the frame it decodes to.
\<close>

theorem FrameCodec_plain_canonical:
  assumes "FrameCodec_decode decompress c b = Inr f" and "\<not> fh_compressed (fr_header f)"
  shows "FrameCodec_encode compress c f = Inr b"
  using assms by (rule FrameCodec_decode_plain)

lemma plain_decode:
  "FrameCodec_decode unstored sample_codec (put_u16 16 @ put_u16 3 @ [0] @ [7, 7])
    = Inr \<lparr>fr_header = FrameHeader_event 16 3, fr_payload = [7, 7]\<rparr>"
  by (rule FrameCodec_encode_decode [OF stored_lz4(1)])
    (simp add: FrameCodec_encode_iff sample_defs validate_schema_flags_iff FrameHeader_event_def
      FrameHeader_encoded_len_def FrameHeader_encode_iff FrameHeader_validate_iff meta_byte_def
      put_u8_def)

theorem FrameCodec_plain_canonical_witness:
  "FrameCodec_encode stored sample_codec \<lparr>fr_header = FrameHeader_event 16 3, fr_payload = [7, 7]\<rparr>
    = Inr (put_u16 16 @ put_u16 3 @ [0] @ [7, 7])"
  by (rule FrameCodec_plain_canonical [OF plain_decode]) (simp add: FrameHeader_event_def)

text \<open>
  A byte stream of frames is read back frame by frame. From the concatenation of the encoded
  frames, followed by anything, the reader takes exactly those frames and leaves what followed.
\<close>

theorem stream_round_trip:
  assumes "lz4_round_trip compress decompress"
    and "encode_all (FrameCodec_encode_stream compress c) fs = Inr s"
  shows "decode_frames decompress c (length fs) (s @ rest) = Inr (fs, rest)"
  using assms by (rule decode_frames_encode_all)

lemma sample_encode_stream:
  "FrameCodec_encode_stream stored sample_codec sample_frame = Inr (put_u32 20 @ sample_bytes)"
  by (auto simp: encode_stream_iff sample_encode sample_bytes_def)

lemma sample_encode_two:
  "encode_all (FrameCodec_encode_stream stored sample_codec) [sample_frame, sample_frame]
    = Inr ((put_u32 20 @ sample_bytes) @ put_u32 20 @ sample_bytes)"
  by (simp add: sample_encode_stream)

theorem stream_round_trip_witness:
  "decode_frames unstored sample_codec (Suc (Suc 0))
     (((put_u32 20 @ sample_bytes) @ put_u32 20 @ sample_bytes) @ [42])
    = Inr ([sample_frame, sample_frame], [42])"
  using stream_round_trip [OF stored_lz4(1) sample_encode_two, of "[42]"]
  by (simp only: list.size add_0_right add_Suc_right)

text \<open>
  A frame that has not arrived completely is reported as truncated, wherever the stream was cut,
  so the reader waits for more bytes and never misreads a partial frame.
\<close>

theorem stream_prefix_truncated:
  assumes "FrameCodec_encode_stream compress c f = Inr s" and "n < length s"
  shows "FrameCodec_decode_stream decompress c (take n s) = Inl Truncated"
  using assms by (rule decode_stream_truncated)

theorem stream_prefix_truncated_witness:
  "FrameCodec_decode_stream unstored sample_codec (take 17 (put_u32 20 @ sample_bytes)) = Inl Truncated"
  by (rule stream_prefix_truncated [OF sample_encode_stream]) (simp add: sample_bytes_def)

text \<open>
  C18: the schema's policies hold for every frame that passes a negotiated codec. A frame whose kind the
  schema marks as sensitive carries the SENSITIVE flag, results of such requests included; one it
  forbids does not; compression is used only where it is allowed and negotiated. No kind is both
  required and forbidden, so every kind has an admissible frame.
\<close>

theorem schema_policies_enforced:
  assumes "FrameCodec_new limits codecs = Inr c" and "FrameCodec_decode decompress c b = Inr f"
  shows "(header_key (fr_header f) \<in> schema_keys om_sensitive POLICY_REQUIRED FAMILIES
            \<longrightarrow> fh_sensitive (fr_header f))
    \<and> (header_key (fr_header f) \<in> schema_keys om_sensitive POLICY_FORBIDDEN FAMILIES
            \<longrightarrow> \<not> fh_sensitive (fr_header f))
    \<and> (fh_compressed (fr_header f) \<longrightarrow> LZ4_CODEC \<in> set codecs
         \<and> header_key (fr_header f) \<notin> schema_keys om_compression POLICY_FORBIDDEN FAMILIES)
    \<and> fc_sensitive_required c \<inter> fc_sensitive_forbidden c = {}
    \<and> fc_compression_required c \<inter> fc_compression_forbidden c = {}"
proof -
  have disjoint: "schema_keys pol POLICY_REQUIRED FAMILIES \<inter> schema_keys pol POLICY_FORBIDDEN FAMILIES = {}"
    for pol
    using schema_key_operation [of _ pol POLICY_REQUIRED POLICY_FORBIDDEN]
    by (auto simp: POLICY_REQUIRED_def POLICY_FORBIDDEN_def)
  have "fh_compressed (fr_header f) \<Longrightarrow> LZ4_CODEC \<in> fc_codecs c"
    using assms(2) by (auto simp: FrameCodec_decode_iff decode_payload_compressed)
  with assms disjoint show ?thesis
    by (auto simp: FrameCodec_new_iff FrameCodec_decode_iff validate_schema_flags_iff)
qed

definition ping_codec :: FrameCodec where
  "ping_codec = \<lparr>fc_limits = FrameLimits_recommended, fc_codecs = {},
     fc_compression_required = schema_keys om_compression POLICY_REQUIRED FAMILIES,
     fc_compression_forbidden = schema_keys om_compression POLICY_FORBIDDEN FAMILIES,
     fc_sensitive_required = schema_keys om_sensitive POLICY_REQUIRED FAMILIES,
     fc_sensitive_forbidden = schema_keys om_sensitive POLICY_FORBIDDEN FAMILIES,
     fc_hello_only = False\<rparr>"

lemma ping_codec_new: "FrameCodec_new FrameLimits_recommended [] = Inr ping_codec"
  by (simp add: FrameCodec_new_iff ping_codec_def FrameLimits_validate_def FrameLimits_recommended_def
      RECOMMENDED_WIRE_FRAME_def RECOMMENDED_DECODED_FRAME_def HARD_MAX_WIRE_FRAME_def
      HARD_MAX_DECODED_FRAME_def transport_consts word_less_nat_alt)

definition shutdown_frame :: Frame where
  "shutdown_frame = \<lparr>fr_header = \<lparr>fh_family = 0, fh_kind = 5, fh_class = Request,
     fh_request_id = Some 1, fh_compressed = False, fh_sensitive = True\<rparr>, fr_payload = []\<rparr>"

lemma shutdown_key: "header_key (fr_header shutdown_frame) = (0, Request, 5)"
  by (simp add: header_key_def shutdown_frame_def)

lemma shutdown_operation:
  "\<lparr>fm_name = ''yas.core'', fm_id = 0, fm_version = 1, fm_dependencies = [],
    fm_operations = CORE_OPERATIONS, fm_limits = CORE_LIMITS\<rparr> \<in> set FAMILIES"
  "op_row ''SHUTDOWN'' 1 5 0 1 0 0 \<in> set CORE_OPERATIONS"
  by (simp_all add: FAMILIES_def CORE_OPERATIONS_def)

lemma schema_keysI:
  "f \<in> set fs \<Longrightarrow> p \<in> set (fm_operations f) \<Longrightarrow> pol p = v \<Longrightarrow> k \<in> keys_of (fm_id f) p
    \<Longrightarrow> k \<in> schema_keys pol v fs"
  by (auto simp: schema_keys_def operations_keys_def)

lemma shutdown_required:
  "(0, Request, 5) \<in> schema_keys om_sensitive POLICY_REQUIRED FAMILIES"
  "(0, Request, 5) \<in> schema_keys om_compression POLICY_ALLOWED FAMILIES"
  using shutdown_operation(2)
  by (auto intro!: schema_keysI [OF shutdown_operation(1), of "op_row ''SHUTDOWN'' 1 5 0 1 0 0"]
      simp: keys_of_def op_row_def POLICY_REQUIRED_def POLICY_ALLOWED_def transport_consts)

lemma shutdown_flags: "FrameCodec_validate_schema_flags ping_codec (fr_header shutdown_frame) = Inr ()"
proof -
  have "(0, Request, 5) \<notin> schema_keys om_sensitive POLICY_FORBIDDEN FAMILIES"
    "(0, Request, 5) \<notin> schema_keys om_compression POLICY_REQUIRED FAMILIES"
    using shutdown_required schema_key_operation
    by (fastforce simp: POLICY_REQUIRED_def POLICY_FORBIDDEN_def POLICY_ALLOWED_def)+
  then show ?thesis
    unfolding validate_schema_flags_iff shutdown_key by (simp add: ping_codec_def shutdown_frame_def)
qed

lemma shutdown_decode:
  "FrameCodec_decode unstored ping_codec (put_u16 0 @ put_u16 5 @ [9] @ put_u32 1) = Inr shutdown_frame"
  by (rule FrameCodec_encode_decode [OF stored_lz4(1)])
    (simp add: FrameCodec_encode_iff shutdown_flags,
     simp add: ping_codec_def shutdown_frame_def FrameLimits_recommended_def
      RECOMMENDED_WIRE_FRAME_def RECOMMENDED_DECODED_FRAME_def transport_consts
      FrameHeader_encoded_len_def FrameHeader_encode_iff FrameHeader_validate_iff meta_byte_def
      put_u8_def)

theorem schema_policies_enforced_witness:
  "fh_sensitive (fr_header shutdown_frame)
    \<and> fc_sensitive_required ping_codec \<inter> fc_sensitive_forbidden ping_codec = {}"
  using schema_policies_enforced [OF ping_codec_new shutdown_decode] shutdown_required
  by (simp add: shutdown_key)

lemma pre_hello_ok:
  "FrameCodec_pre_hello = Inr c \<Longrightarrow> fc_hello_only c \<and> fc_limits c = FrameLimits_pre_hello"
  by (auto simp: FrameCodec_pre_hello_def enc_iff FrameCodec_new_iff)

lemma pre_hello_new: "\<exists>c. FrameCodec_pre_hello = Inr c"
proof -
  have "FrameLimits_validate FrameLimits_pre_hello = Inr FrameLimits_pre_hello"
    by (simp add: FrameLimits_validate_def FrameLimits_pre_hello_def PRE_HELLO_MAX_FRAME_def
        HARD_MAX_WIRE_FRAME_def HARD_MAX_DECODED_FRAME_def transport_consts word_less_nat_alt)
  then show ?thesis
    by (auto simp: FrameCodec_pre_hello_def enc_iff FrameCodec_new_iff)
qed

text \<open>
  Before HELLO nothing else gets through. Building the pre-HELLO codec does not panic, and every
  frame it accepts is an uncompressed Core HELLO request or result with a nonzero request id, read from
  at most 64 KiB.
\<close>

theorem pre_hello_only_hello:
  "\<exists>c. FrameCodec_pre_hello = Inr c \<and>
     (\<forall>decompress b f. FrameCodec_decode decompress c b = Inr f \<longrightarrow>
        fh_family (fr_header f) = FAMILY_CORE \<and> fh_kind (fr_header f) = HELLO_KIND
        \<and> fh_class (fr_header f) \<noteq> Event \<and> \<not> fh_compressed (fr_header f)
        \<and> (\<exists>q. fh_request_id (fr_header f) = Some q \<and> q \<noteq> 0) \<and> length b \<le> 65536)"
proof -
  from pre_hello_new obtain c where c: "FrameCodec_pre_hello = Inr c" by blast
  have "fh_family (fr_header f) = FAMILY_CORE \<and> fh_kind (fr_header f) = HELLO_KIND
      \<and> fh_class (fr_header f) \<noteq> Event \<and> \<not> fh_compressed (fr_header f)
      \<and> (\<exists>q. fh_request_id (fr_header f) = Some q \<and> q \<noteq> 0) \<and> length b \<le> 65536"
    if "FrameCodec_decode decompress c b = Inr f" for decompress b f
    using that pre_hello_ok [OF c]
    by (auto simp: FrameCodec_decode_iff validate_schema_flags_iff FrameHeader_encode_iff
        FrameHeader_validate_iff FrameLimits_pre_hello_def PRE_HELLO_MAX_FRAME_def split: if_splits)
  with c show ?thesis by blast
qed

definition hello_header :: FrameHeader where
  "hello_header = FrameHeader_request 0 0 1"

lemma hello_key: "header_key hello_header = (0, Request, 0)"
  by (simp add: header_key_def hello_header_def FrameHeader_request_def)

lemma hello_operation: "op_row ''HELLO'' 1 0 0 0 2 0 \<in> set CORE_OPERATIONS"
  by (simp add: CORE_OPERATIONS_def)

lemma hello_policies:
  "(0, Request, 0) \<in> schema_keys om_sensitive POLICY_ALLOWED FAMILIES"
  "(0, Request, 0) \<in> schema_keys om_compression POLICY_FORBIDDEN FAMILIES"
  using hello_operation
  by (auto intro!: schema_keysI [OF shutdown_operation(1), of "op_row ''HELLO'' 1 0 0 0 2 0"]
      simp: keys_of_def op_row_def POLICY_FORBIDDEN_def POLICY_ALLOWED_def transport_consts)

lemma hello_accepted:
  assumes "FrameCodec_pre_hello = Inr c"
  shows "FrameCodec_decode unstored c (put_u16 0 @ put_u16 0 @ [1] @ put_u32 1)
    = Inr \<lparr>fr_header = hello_header, fr_payload = []\<rparr>"
proof (rule FrameCodec_encode_decode [OF stored_lz4(1)])
  have "(0, Request, 0) \<notin> schema_keys om_sensitive POLICY_REQUIRED FAMILIES"
    "(0, Request, 0) \<notin> schema_keys om_sensitive POLICY_FORBIDDEN FAMILIES"
    "(0, Request, 0) \<notin> schema_keys om_compression POLICY_REQUIRED FAMILIES"
    using hello_policies schema_key_operation
    by (fastforce simp: POLICY_REQUIRED_def POLICY_FORBIDDEN_def POLICY_ALLOWED_def)+
  with assms have "FrameCodec_validate_schema_flags c hello_header = Inr ()"
    unfolding validate_schema_flags_iff hello_key
    by (auto simp: FrameCodec_pre_hello_def enc_iff FrameCodec_new_iff hello_header_def
        FrameHeader_request_def FAMILY_CORE_def HELLO_KIND_def)
  with pre_hello_ok [OF assms]
  show "FrameCodec_encode stored c \<lparr>fr_header = hello_header, fr_payload = []\<rparr>
      = Inr (put_u16 0 @ put_u16 0 @ [1] @ put_u32 1)"
    by (simp add: FrameCodec_encode_iff)
      (simp add: FrameLimits_pre_hello_def PRE_HELLO_MAX_FRAME_def transport_consts hello_header_def
        FrameHeader_request_def FrameHeader_encoded_len_def FrameHeader_encode_iff
        FrameHeader_validate_iff meta_byte_def put_u8_def)
qed

theorem pre_hello_only_hello_witness:
  "\<exists>c. FrameCodec_pre_hello = Inr c
     \<and> FrameCodec_decode unstored c (put_u16 0 @ put_u16 0 @ [1] @ put_u32 1)
         = Inr \<lparr>fr_header = hello_header, fr_payload = []\<rparr>
     \<and> fh_family hello_header = FAMILY_CORE \<and> \<not> fh_compressed hello_header"
proof -
  from pre_hello_only_hello obtain c where c: "FrameCodec_pre_hello = Inr c"
    and all: "FrameCodec_decode d c b = Inr f \<Longrightarrow>
        fh_family (fr_header f) = FAMILY_CORE \<and> \<not> fh_compressed (fr_header f)" for d b f
    by blast
  from all [OF hello_accepted [OF c]] c hello_accepted [OF c] show ?thesis by auto
qed

section \<open>Datagrams\<close>

lemma check_datagram_len_iff:
  "check_datagram_len n m = Inr u \<longleftrightarrow> min m HARD_MAX_DATAGRAM \<noteq> 0 \<and> n \<le> unat (min m HARD_MAX_DATAGRAM)"
  by (auto simp: check_datagram_len_def Let_def)

lemma validate_datagram_header_iff:
  "validate_datagram_header h m = Inr u \<longleftrightarrow> m \<noteq> 0 \<and> m \<le> HARD_MAX_DATAGRAM \<and> fh_class h = Event
     \<and> \<not> fh_compressed h \<and> fh_family h \<noteq> FAMILY_CORE \<and> fh_family h \<noteq> FAMILY_TRANSFER"
  by (auto simp: validate_datagram_header_def)

lemma datagram_predicate_iff:
  "FrameCodec_validate_datagram_predicate f ctx = Inr u \<longleftrightarrow>
     (\<exists>p. operation (fh_family (fr_header f)) (Class_wire (fh_class (fr_header f)))
            (fh_kind (fr_header f)) = Some p \<and>
        (om_datagram p = DATAGRAM_NET_NATIVE_FLOW \<and> ctx = NetNativeFlow
           \<and> (\<exists>v. Datagram_decode (fr_payload f) = Inr v)
         \<or> om_datagram p = DATAGRAM_SURFACE_FRAME \<and> ctx = SurfaceFrameContext
           \<and> (\<exists>v. SurfaceFrame_decode (fr_payload f) = Inr v \<and> SurfaceFrame_datagram_eligible v)
         \<or> om_datagram p = DATAGRAM_MEDIA_FRAME \<and> ctx = MediaFrameContext
           \<and> (\<exists>v. MediaFrame_decode (fr_payload f) = Inr v \<and> MediaFrame_datagram_eligible v)))"
  by (auto simp: FrameCodec_validate_datagram_predicate_def enc_iff is_ok_iff
      DATAGRAM_NET_NATIVE_FLOW_def DATAGRAM_SURFACE_FRAME_def DATAGRAM_MEDIA_FRAME_def
      DATAGRAM_FORBIDDEN_def split: option.splits sum.splits if_splits)

text \<open>
  Transport datagrams. The receiver accepts exactly the datagrams the sender may emit: a byte string
  decodes to a frame under a context and a size limit exactly when the sender, under the same context
  and limit, encodes that frame to it.
\<close>

theorem datagram_round_trip:
  "FrameCodec_decode_datagram decompress c b m ctx = Inr f
     \<longleftrightarrow> FrameCodec_encode_datagram compress c f m ctx = Inr b"
proof (cases "fh_compressed (fr_header f)")
  case True
  then show ?thesis
    by (auto simp: FrameCodec_decode_datagram_def FrameCodec_encode_datagram_def enc_iff
        validate_datagram_header_iff)
next
  case False
  then have "FrameCodec_decode decompress c b = Inr f \<longleftrightarrow> FrameCodec_encode compress c f = Inr b"
    by (auto simp: FrameCodec_encode_iff FrameCodec_decode_iff decode_payload_plain)
  then show ?thesis
    by (auto simp: FrameCodec_decode_datagram_def FrameCodec_encode_datagram_def enc_iff)
qed

text \<open>
  An accepted datagram is an uncompressed event outside Core and Transfer of at most 64 KiB, and its
  payload is of the context's type: a Net datagram, or a Surface or Media frame that may be lost,
  which is to say discardable, not a key frame, not codec configuration and not an end of stream.
\<close>

theorem datagram_safe:
  assumes "FrameCodec_decode_datagram decompress c b m ctx = Inr f"
  shows "fh_class (fr_header f) = Event \<and> \<not> fh_compressed (fr_header f)
    \<and> fh_family (fr_header f) \<notin> {FAMILY_CORE, FAMILY_TRANSFER} \<and> length b \<le> 65536
    \<and> (case ctx of
         NetNativeFlow \<Rightarrow> (\<exists>v. Datagram_encode v = Inr (fr_payload f))
       | SurfaceFrameContext \<Rightarrow>
           (\<exists>v. SurfaceFrame_encode v = Inr (fr_payload f) \<and> SurfaceFrame_datagram_eligible v)
       | MediaFrameContext \<Rightarrow>
           (\<exists>v. MediaFrame_encode v = Inr (fr_payload f) \<and> MediaFrame_datagram_eligible v))"
proof -
  from assms have len: "check_datagram_len (length b) m = Inr ()"
    and head: "validate_datagram_header (fr_header f) m = Inr ()"
    and pred: "FrameCodec_validate_datagram_predicate f ctx = Inr ()"
    by (auto simp: FrameCodec_decode_datagram_def enc_iff)
  have "unat (min m HARD_MAX_DATAGRAM) \<le> 65536"
    by (auto simp: min_def HARD_MAX_DATAGRAM_def word_le_nat_alt)
  with len have "length b \<le> 65536" by (simp add: check_datagram_len_iff)
  with head pred show ?thesis
    by (cases ctx)
      (auto simp: validate_datagram_header_iff datagram_predicate_iff Datagram_codec.dec_iff
        SurfaceFrame_codec.dec_iff MediaFrame_codec.dec_iff)
qed

definition net_frame :: Frame where
  "net_frame = \<lparr>fr_header = (FrameHeader_event 65 0)\<lparr>fh_sensitive := True\<rparr>,
     fr_payload = put_u64 3 @ put_u64 0 @ [1]\<rparr>"

lemma net_operation: "operation 65 0 0 = Some (op_row ''DATAGRAM'' 0 0 2 1 2 1)"
  by code_simp

lemma net_frame_decodes:
  "FrameCodec_decode_datagram unstored sample_codec (put_u16 65 @ put_u16 0 @ [8] @ put_u64 3 @ put_u64 0 @ [1])
     1200 NetNativeFlow = Inr net_frame"
proof -
  have "Datagram_decode (put_u64 3 @ put_u64 0 @ [1])
      = Inr \<lparr>dg_flow_handle = 3, dg_sequence = 0, dg_payload = [1]\<rparr>"
    by (simp add: Datagram_decode_iff Datagram_encode_def MAX_DATAGRAM_PAYLOAD_def)
  moreover have "FrameCodec_encode stored sample_codec net_frame
      = Inr (put_u16 65 @ put_u16 0 @ [8] @ put_u64 3 @ put_u64 0 @ [1])"
    by (simp add: FrameCodec_encode_iff net_frame_def FrameHeader_event_def sample_defs
        validate_schema_flags_iff FrameHeader_encoded_len_def FrameHeader_encode_iff
        FrameHeader_validate_iff meta_byte_def put_u8_def)
  ultimately show ?thesis
    using FrameCodec_encode_decode [OF stored_lz4(1)]
    by (auto simp: FrameCodec_decode_datagram_def enc_iff check_datagram_len_iff
        validate_datagram_header_iff datagram_predicate_iff net_frame_def FrameHeader_event_def
        HARD_MAX_DATAGRAM_def FAMILY_CORE_def FAMILY_TRANSFER_def net_operation op_row_def CLASS_EVENT_def
        DATAGRAM_NET_NATIVE_FLOW_def min_def word_le_nat_alt)
qed

theorem datagram_safe_witness:
  "fh_class (fr_header net_frame) = Event \<and> (\<exists>v. Datagram_encode v = Inr (fr_payload net_frame))"
  using datagram_safe [OF net_frame_decodes] by simp

text \<open>
  The two header codecs agree. The generated decoder accepts exactly the byte strings that start with
  a header \<open>frame.rs\<close> encodes, and returns the same fields and length.
\<close>

theorem generated_header_equivalent:
  "GeneratedFrameHeader_decode b = Inr (g, n) \<longleftrightarrow>
     (\<exists>h p. FrameHeader_encode h = Inr p \<and> g = generated_of h \<and> n = length p \<and> take n b = p)"
  by (rule generated_decode_iff)

lemma Envelope_round_trip: "Envelope_from_Frame (Frame_from_Envelope e) = Some e"
  by (cases e) (simp_all add: Envelope_from_Frame_def Let_def)

lemma decode_request_id:
  assumes "FrameCodec_decode decompress c b = Inr f"
  shows "(fh_request_id (fr_header f) = None) = (fh_class (fr_header f) = Event)"
  using assms by (auto simp: FrameCodec_decode_iff FrameHeader_encode_iff FrameHeader_validate_iff
      split: if_splits)

text \<open>
  Turning an accepted frame into an envelope never panics on its request id, and loses nothing: the
  frame of the envelope is the frame.
\<close>

theorem decoded_envelope:
  assumes "FrameCodec_decode decompress c b = Inr f"
  shows "\<exists>e. Envelope_from_Frame f = Some e \<and> Frame_from_Envelope e = f"
proof (cases f)
  case (fields h payload)
  obtain family kind cls request_id compressed sensitive where
    h: "h = \<lparr>fh_family = family, fh_kind = kind, fh_class = cls, fh_request_id = request_id,
        fh_compressed = compressed, fh_sensitive = sensitive\<rparr>" by (cases h)
  from decode_request_id [OF assms] show ?thesis
    by (cases cls; cases request_id) (simp_all add: fields h Envelope_from_Frame_def Let_def)
qed

theorem decoded_envelope_witness:
  "\<exists>e. Envelope_from_Frame sample_frame = Some e \<and> Frame_from_Envelope e = sample_frame"
  by (rule decoded_envelope [OF FrameCodec_encode_decode [OF stored_lz4(1) sample_encode]])

text \<open>
  The protocol schema is consistent. Family ids are distinct; within a family no two operations share
  class and kind; every policy and datagram predicate is a known one; only uncompressible events
  outside Core and Transfer may be datagrams; limits have distinct tags, consistent bounds and fit their
  width; and a family depends only on families before it.
\<close>

theorem schema_consistent:
  "strictly_increasing (map fm_id FAMILIES) \<and> list_all family_ok FAMILIES"
  using FAMILIES_ids FAMILIES_ok by blast

end
