(* ===== verification/Wire_Core.thy ===== *)
theory Wire_Core
  imports Wire_Schema
begin

unbundle bit_operations_syntax

text \<open>
  The Core family (\<^verbatim>\<open>crates/yas/src/core.rs\<close>), first part: receive limits, the client's HELLO with
  its extensions, Result prefixes and the fixed payloads of PING, CANCEL, SHUTDOWN, GOAWAY and
  SESSION_UPDATE.  The catalogue of families a server selects is in \<^verbatim>\<open>Wire_Catalog\<close>.  Every payload
  interprets \<^verbatim>\<open>canonical_codec\<close> or \<^verbatim>\<open>self_delimiting_codec\<close>.
\<close>

section \<open>Counted lists\<close>

text \<open>
  \<^verbatim>\<open>bounded_count\<close>: a count is refused when the remaining bytes cannot hold that many items.  The
  decoder passes its own \<^verbatim>\<open>remaining()\<close>.
\<close>

definition bounded_count :: "nat \<Rightarrow> nat \<Rightarrow> string \<Rightarrow> nat reader" where
  "bounded_count count minimum_item_bytes ctxt =
     rbind dec_remaining (\<lambda>remaining.
       if remaining div minimum_item_bytes < count then rfail (Invalid ctxt) else rret count)"

text \<open>
  The loop that follows every use of it: \<^verbatim>\<open>for _ in 0..count { items.push(get(decoder)?) }\<close>.
\<close>

definition bounded_list :: "nat \<Rightarrow> nat \<Rightarrow> string \<Rightarrow> 'a reader \<Rightarrow> 'a list reader" where
  "bounded_list count minimum_item_bytes ctxt get =
     rbind (bounded_count count minimum_item_bytes ctxt) (\<lambda>n. rrepeat n get)"

text \<open>\<^verbatim>\<open>u8::try_from(len).map_err(|_| Error::LengthOverflow)\<close> followed by the push.\<close>

definition put_len_u8 :: "nat \<Rightarrow> error + bytes" where
  "put_len_u8 n = (if n < 2 ^ 8 then Inr (put_u8 (of_nat n)) else Inl LengthOverflow)"

section \<open>Receive limits\<close>

record ReceiveLimits =
  rl_max_frame :: u32
  rl_max_decoded :: u32
  rl_max_datagram :: u32
  rl_max_buffered :: u64

definition RECOMMENDED_BUFFERED :: u64 where
  "RECOMMENDED_BUFFERED = 16777216"

definition ReceiveLimits_recommended :: "u32 \<Rightarrow> ReceiveLimits" where
  "ReceiveLimits_recommended max_datagram =
     \<lparr>rl_max_frame = RECOMMENDED_WIRE_FRAME, rl_max_decoded = RECOMMENDED_DECODED_FRAME,
      rl_max_datagram = max_datagram, rl_max_buffered = RECOMMENDED_BUFFERED\<rparr>"

definition ReceiveLimits_validate :: "ReceiveLimits \<Rightarrow> error + unit" where
  "ReceiveLimits_validate l =
     (if rl_max_frame l < of_nat CORRELATED_HEADER_BYTES \<or> HARD_MAX_WIRE_FRAME < rl_max_frame l
      then Inl (Invalid ''HELLO receive_max_frame'')
      else if rl_max_decoded l < rl_max_frame l \<or> HARD_MAX_DECODED_FRAME < rl_max_decoded l
      then Inl (Invalid ''HELLO receive_max_decoded'')
      else if (rl_max_datagram l \<noteq> 0 \<and> rl_max_datagram l < of_nat EVENT_HEADER_BYTES)
              \<or> HARD_MAX_DATAGRAM < rl_max_datagram l
      then Inl (Invalid ''HELLO receive_max_datagram'')
      else if rl_max_buffered l = 0 \<or> HARD_MAX_BUFFERED < rl_max_buffered l
      then Inl (Invalid ''HELLO receive_max_buffered'')
      else Inr ())"

definition ReceiveLimits_validate_update_from :: "ReceiveLimits \<Rightarrow> ReceiveLimits \<Rightarrow> error + unit" where
  "ReceiveLimits_validate_update_from l previous =
     ebind (ReceiveLimits_validate l) (\<lambda>_.
       if rl_max_frame l < rl_max_frame previous \<or> rl_max_decoded l < rl_max_decoded previous
       then Inl (Invalid ''SESSION_UPDATE frame limit reduction'') else Inr ())"

definition ReceiveLimits_encode_to :: "ReceiveLimits \<Rightarrow> error + bytes" where
  "ReceiveLimits_encode_to l =
     ebind (ReceiveLimits_validate l) (\<lambda>_.
       Inr (put_u32 (rl_max_frame l) @ put_u32 (rl_max_decoded l) @ put_u32 (rl_max_datagram l)
            @ put_u64 (rl_max_buffered l)))"

definition ReceiveLimits_decode_from :: "ReceiveLimits reader" where
  "ReceiveLimits_decode_from =
     rbind dec_u32 (\<lambda>max_frame. rbind dec_u32 (\<lambda>max_decoded.
     rbind dec_u32 (\<lambda>max_datagram. rbind dec_u64 (\<lambda>max_buffered.
     let v = \<lparr>rl_max_frame = max_frame, rl_max_decoded = max_decoded,
              rl_max_datagram = max_datagram, rl_max_buffered = max_buffered\<rparr> in
     rbind (rlift (ReceiveLimits_validate v)) (\<lambda>_. rret v)))))"

section \<open>Status and Result prefixes\<close>

datatype Status = StOk | StInvalid | StUnsupported | StNotFound | StConflict | StBusy
  | StUnavailable | StResourceExhausted | StRateLimited | StTimeout | StCancelled | StStale
  | StIo | StInternal | StUnknown u16

fun Status_code :: "Status \<Rightarrow> u16" where
  "Status_code StOk = 0"
| "Status_code StInvalid = 1"
| "Status_code StUnsupported = 2"
| "Status_code StNotFound = 3"
| "Status_code StConflict = 4"
| "Status_code StBusy = 5"
| "Status_code StUnavailable = 6"
| "Status_code StResourceExhausted = 7"
| "Status_code StRateLimited = 8"
| "Status_code StTimeout = 9"
| "Status_code StCancelled = 10"
| "Status_code StStale = 11"
| "Status_code StIo = 12"
| "Status_code StInternal = 13"
| "Status_code (StUnknown c) = c"

definition Status_from_code :: "u16 \<Rightarrow> Status" where
  "Status_from_code c =
     (if c = 0 then StOk else if c = 1 then StInvalid else if c = 2 then StUnsupported
      else if c = 3 then StNotFound else if c = 4 then StConflict else if c = 5 then StBusy
      else if c = 6 then StUnavailable else if c = 7 then StResourceExhausted
      else if c = 8 then StRateLimited else if c = 9 then StTimeout
      else if c = 10 then StCancelled else if c = 11 then StStale else if c = 12 then StIo
      else if c = 13 then StInternal else StUnknown c)"

definition Status_is_ok :: "Status \<Rightarrow> bool" where
  "Status_is_ok s \<longleftrightarrow> s = StOk"

text \<open>
  The statuses \<^const>\<open>Status_from_code\<close> produces: \<^verbatim>\<open>Unknown\<close> holds a code that has no name.
\<close>

definition Status_named :: "Status \<Rightarrow> bool" where
  "Status_named s \<longleftrightarrow> (case s of StUnknown c \<Rightarrow> 14 \<le> c | _ \<Rightarrow> True)"

definition validate_result_or_event_extensions :: "Extensions \<Rightarrow> string \<Rightarrow> error + unit" where
  "validate_result_or_event_extensions es ctxt =
     ebind (Extensions_validate es) (\<lambda>_.
       if list_ex e_required es then Inl (Invalid ctxt) else Inr ())"

record ResultPrefix =
  rp_status :: Status
  rp_detail :: Extensions
  rp_body :: bytes

definition ResultPrefix_encode :: "ResultPrefix \<Rightarrow> error + bytes" where
  "ResultPrefix_encode p =
     (if \<not> Status_is_ok (rp_status p) \<and> rp_body p \<noteq> []
      then Inl (Invalid ''failed Result operation body'')
      else ebind (validate_result_or_event_extensions (rp_detail p) ''required Result detail extension'') (\<lambda>_.
        ebind (Extensions_encode_entries (rp_detail p)) (\<lambda>detail.
        ebind (put_len_u32 (length detail)) (\<lambda>len.
          Inr (put_u16 (Status_code (rp_status p)) @ put_u16 0 @ len @ detail @ rp_body p)))))"

definition ResultPrefix_decode :: "bytes \<Rightarrow> error + ResultPrefix" where
  "ResultPrefix_decode = rrun (
     rbind dec_u16 (\<lambda>code. rbind dec_u16 (\<lambda>flags.
     if flags \<noteq> 0 then rfail (Invalid ''Result flags'')
     else rbind dec_len_bytes_u32 (\<lambda>entries. rbind (rlift (Extensions_decode_entries entries)) (\<lambda>detail.
     rbind dec_rest (\<lambda>body. rbind dec_finish (\<lambda>_.
     let status = Status_from_code code in
     if \<not> Status_is_ok status \<and> body \<noteq> [] then rfail (Invalid ''failed Result operation body'')
     else rbind (rlift (validate_result_or_event_extensions detail ''required Result detail extension'')) (\<lambda>_.
       rret \<lparr>rp_status = status, rp_detail = detail, rp_body = body\<rparr>))))))))"

section \<open>PING, CANCEL, SHUTDOWN, GOAWAY\<close>

text \<open>\<^verbatim>\<open>fixed_u64_codec!(Ping, sender_monotonic_ns)\<close>.\<close>

record Ping =
  ping_sender_monotonic_ns :: u64

definition Ping_encode :: "Ping \<Rightarrow> error + bytes" where
  "Ping_encode p = Inr (put_u64 (ping_sender_monotonic_ns p))"

definition Ping_decode :: "bytes \<Rightarrow> error + Ping" where
  "Ping_decode =
     rrun (rbind (rbind dec_u64 (\<lambda>t. rret \<lparr>ping_sender_monotonic_ns = t\<rparr>))
       (\<lambda>v. rbind dec_finish (\<lambda>_. rlift (Inr v))))"

record PingResult =
  pr_receiver_receive_ns :: u64
  pr_receiver_send_ns :: u64

definition PingResult_validate :: "PingResult \<Rightarrow> error + unit" where
  "PingResult_validate p =
     (if pr_receiver_send_ns p < pr_receiver_receive_ns p
      then Inl (Invalid ''PING Result timestamp order'') else Inr ())"

definition PingResult_encode :: "PingResult \<Rightarrow> error + bytes" where
  "PingResult_encode p =
     ebind (PingResult_validate p) (\<lambda>_.
       Inr (put_u64 (pr_receiver_receive_ns p) @ put_u64 (pr_receiver_send_ns p)))"

definition PingResult_decode :: "bytes \<Rightarrow> error + PingResult" where
  "PingResult_decode =
     rrun (rbind (rbind dec_u64 (\<lambda>r. rbind dec_u64 (\<lambda>s.
         rret \<lparr>pr_receiver_receive_ns = r, pr_receiver_send_ns = s\<rparr>)))
       (\<lambda>v. rbind dec_finish (\<lambda>_. rlift (ebind (PingResult_validate v) (\<lambda>_. Inr v)))))"

record Cancel =
  ca_target_request_id :: u32

definition Cancel_encode :: "Cancel \<Rightarrow> error + bytes" where
  "Cancel_encode c =
     (if ca_target_request_id c = 0 then Inl (Invalid ''zero CANCEL target request ID'')
      else Inr (put_u32 (ca_target_request_id c)))"

definition Cancel_decode :: "bytes \<Rightarrow> error + Cancel" where
  "Cancel_decode =
     rrun (rbind (rbind dec_u32 (\<lambda>t. rret \<lparr>ca_target_request_id = t\<rparr>))
       (\<lambda>v. rbind dec_finish (\<lambda>_.
         rlift (if ca_target_request_id v = 0 then Inl (Invalid ''zero CANCEL target request ID'')
                else Inr v))))"

record Shutdown =
  sh_operation_id :: bytes
  sh_grace_ns :: u64
  sh_reason :: bytes

definition Shutdown_ok :: "Shutdown \<Rightarrow> bool" where
  "Shutdown_ok s \<longleftrightarrow> length (sh_operation_id s) = 16 \<and> utf8_valid (sh_reason s)"

definition Shutdown_validate :: "Shutdown \<Rightarrow> error + unit" where
  "Shutdown_validate s =
     (if sh_operation_id s = replicate 16 0 then Inl (Invalid ''zero SHUTDOWN operation ID'')
      else Inr ())"

definition Shutdown_encode :: "Shutdown \<Rightarrow> error + bytes" where
  "Shutdown_encode s =
     ebind (Shutdown_validate s) (\<lambda>_. ebind (put_string_u32 (sh_reason s)) (\<lambda>reason.
       Inr (sh_operation_id s @ put_u64 (sh_grace_ns s) @ reason)))"

definition Shutdown_decode :: "bytes \<Rightarrow> error + Shutdown" where
  "Shutdown_decode =
     rrun (rbind (rbind dec_array_16 (\<lambda>i. rbind dec_u64 (\<lambda>g. rbind dec_string_u32 (\<lambda>r.
         rret \<lparr>sh_operation_id = i, sh_grace_ns = g, sh_reason = r\<rparr>))))
       (\<lambda>v. rbind dec_finish (\<lambda>_. rlift (ebind (Shutdown_validate v) (\<lambda>_. Inr v)))))"

record GoAway =
  ga_status :: Status
  ga_close_deadline_server_ns :: u64
  ga_detail :: Extensions

definition GOAWAY_REASON_EXTENSION :: u16 where
  "GOAWAY_REASON_EXTENSION = 1"

definition GoAway_reason_detail :: "bytes \<Rightarrow> Extensions" where
  "GoAway_reason_detail reason =
     (if reason = [] then []
      else [\<lparr>e_tag = GOAWAY_REASON_EXTENSION, e_required = False, e_value = reason\<rparr>])"

definition GoAway_encode :: "GoAway \<Rightarrow> error + bytes" where
  "GoAway_encode g =
     ebind (validate_result_or_event_extensions (ga_detail g) ''required GOAWAY detail extension'') (\<lambda>_.
     ebind (Extensions_encode_entries (ga_detail g)) (\<lambda>detail.
     ebind (put_len_u32 (length detail)) (\<lambda>len.
       Inr (put_u16 (Status_code (ga_status g)) @ put_u16 0
            @ put_u64 (ga_close_deadline_server_ns g) @ len @ detail))))"

definition GoAway_body :: "GoAway reader" where
  "GoAway_body =
     rbind dec_u16 (\<lambda>code. rbind dec_u16 (\<lambda>reserved.
     if reserved \<noteq> 0 then rfail (Invalid ''GOAWAY reserved field'')
     else rbind dec_u64 (\<lambda>deadline.
     rbind dec_len_bytes_u32 (\<lambda>entries. rbind (rlift (Extensions_decode_entries entries)) (\<lambda>detail.
       rret \<lparr>ga_status = Status_from_code code, ga_close_deadline_server_ns = deadline,
             ga_detail = detail\<rparr>)))))"

definition GoAway_decode :: "bytes \<Rightarrow> error + GoAway" where
  "GoAway_decode =
     rrun (rbind GoAway_body (\<lambda>v. rbind dec_finish (\<lambda>_.
       rlift (ebind (validate_result_or_event_extensions (ga_detail v)
                       ''required GOAWAY detail extension'') (\<lambda>_. Inr v)))))"

section \<open>Session updates\<close>

datatype CatalogStep = Contiguous | Gap

definition catalog_step :: "u64 \<Rightarrow> u64 \<Rightarrow> error + CatalogStep" where
  "catalog_step current incoming =
     (if incoming \<le> current then Inl (Invalid ''non-increasing catalog revision'')
      else Inr (if checked_add current 1 = Some incoming then Contiguous else Gap))"

record SessionUpdate =
  su_catalog_revision :: u64
  su_receive :: ReceiveLimits
  su_extensions :: Extensions

definition SessionUpdate_encode :: "SessionUpdate \<Rightarrow> error + bytes" where
  "SessionUpdate_encode u =
     (if su_catalog_revision u = 0 then Inl (Invalid ''zero SESSION_UPDATE catalog revision'')
      else ebind (ReceiveLimits_validate (su_receive u)) (\<lambda>_.
        ebind (validate_result_or_event_extensions (su_extensions u) ''required SESSION_UPDATE extension'') (\<lambda>_.
        ebind (ReceiveLimits_encode_to (su_receive u)) (\<lambda>receive.
        ebind (Extensions_encode_tail (su_extensions u)) (\<lambda>tail.
          Inr (put_u64 (su_catalog_revision u) @ receive @ tail))))))"

definition SessionUpdate_body :: "SessionUpdate reader" where
  "SessionUpdate_body =
     rbind dec_u64 (\<lambda>revision. rbind ReceiveLimits_decode_from (\<lambda>receive.
     rbind dec_extensions (\<lambda>extensions.
       rret \<lparr>su_catalog_revision = revision, su_receive = receive, su_extensions = extensions\<rparr>)))"

definition SessionUpdate_decode :: "bytes \<Rightarrow> error + SessionUpdate" where
  "SessionUpdate_decode =
     rrun (rbind SessionUpdate_body (\<lambda>v. rbind dec_finish (\<lambda>_.
       rlift (if su_catalog_revision v = 0 then Inl (Invalid ''zero SESSION_UPDATE catalog revision'')
              else ebind (validate_result_or_event_extensions (su_extensions v)
                            ''required SESSION_UPDATE extension'') (\<lambda>_. Inr v)))))"

definition SessionUpdate_validate_after :: "SessionUpdate \<Rightarrow> u64 \<Rightarrow> ReceiveLimits \<Rightarrow> error + CatalogStep" where
  "SessionUpdate_validate_after u current_revision previous_receive =
     ebind (ReceiveLimits_validate_update_from (su_receive u) previous_receive) (\<lambda>_.
     ebind (validate_result_or_event_extensions (su_extensions u) ''required SESSION_UPDATE extension'') (\<lambda>_.
       catalog_step current_revision (su_catalog_revision u)))"

section \<open>Initial watches\<close>

record InitialWatch =
  iw_family_id :: u16
  iw_family_version :: u16
  iw_watch_payload :: bytes

definition InitialWatch_put :: "InitialWatch \<Rightarrow> error + bytes" where
  "InitialWatch_put w =
     (if iw_family_id w = FAMILY_CORE \<or> iw_family_version w = 0
      then Inl (Invalid ''initial WATCH family'')
      else ebind (put_len_u32 (length (iw_watch_payload w))) (\<lambda>len.
        Inr (put_u16 (iw_family_id w) @ put_u16 (iw_family_version w) @ len @ iw_watch_payload w)))"

definition InitialWatch_get :: "InitialWatch reader" where
  "InitialWatch_get =
     rbind dec_u16 (\<lambda>i. rbind dec_u16 (\<lambda>v. rbind dec_len_bytes_u32 (\<lambda>payload.
     if i = FAMILY_CORE \<or> v = 0 then rfail (Invalid ''initial WATCH family'')
     else rret \<lparr>iw_family_id = i, iw_family_version = v, iw_watch_payload = payload\<rparr>)))"

definition InitialWatches_encode :: "InitialWatch list \<Rightarrow> error + bytes" where
  "InitialWatches_encode ws =
     ebind (put_len_u16 (length ws)) (\<lambda>count. ebind (encode_all InitialWatch_put ws) (\<lambda>items.
       Inr (count @ items)))"

definition InitialWatches_decode :: "bytes \<Rightarrow> error + InitialWatch list" where
  "InitialWatches_decode =
     rrun (rbind (rbind dec_u16 (\<lambda>count.
         bounded_list (unat count) 8 ''initial WATCH count'' InitialWatch_get))
       (\<lambda>v. rbind dec_finish (\<lambda>_. rlift (Inr v))))"

definition CLIENT_HELLO_INITIAL_WATCHES_EXTENSION :: u16 where
  "CLIENT_HELLO_INITIAL_WATCHES_EXTENSION = 3"

definition InitialWatches_extension :: "InitialWatch list \<Rightarrow> error + Extension" where
  "InitialWatches_extension ws =
     ebind (InitialWatches_encode ws) (\<lambda>v.
       Inr \<lparr>e_tag = CLIENT_HELLO_INITIAL_WATCHES_EXTENSION, e_required = False, e_value = v\<rparr>)"

definition InitialWatchResult_put :: "ResultPrefix \<Rightarrow> error + bytes" where
  "InitialWatchResult_put p =
     ebind (ResultPrefix_encode p) (\<lambda>encoded. ebind (put_len_u32 (length encoded)) (\<lambda>len.
       Inr (len @ encoded)))"

definition InitialWatchResult_get :: "ResultPrefix reader" where
  "InitialWatchResult_get = rbind dec_len_bytes_u32 (\<lambda>b. rlift (ResultPrefix_decode b))"

definition InitialWatchResults_encode :: "ResultPrefix list \<Rightarrow> error + bytes" where
  "InitialWatchResults_encode rs =
     ebind (put_len_u16 (length rs)) (\<lambda>count. ebind (encode_all InitialWatchResult_put rs) (\<lambda>items.
       Inr (count @ items)))"

definition InitialWatchResults_decode :: "bytes \<Rightarrow> error + ResultPrefix list" where
  "InitialWatchResults_decode =
     rrun (rbind (rbind dec_u16 (\<lambda>count.
         bounded_list (unat count) 4 ''initial WATCH Result count'' InitialWatchResult_get))
       (\<lambda>v. rbind dec_finish (\<lambda>_. rlift (Inr v))))"

section \<open>Negotiated codecs\<close>

text \<open>\<^verbatim>\<open>windows(2).any(|pair| pair[0] >= pair[1])\<close> is the negation of \<^term>\<open>successively (<)\<close>.\<close>

definition NegotiatedCodecs_validate :: "u16 list \<Rightarrow> error + unit" where
  "NegotiatedCodecs_validate codecs =
     (if 255 < length codecs then Inl LengthOverflow
      else if 0 \<in> set codecs \<or> \<not> successively (<) codecs
      then Inl (Invalid ''negotiated codec order'') else Inr ())"

definition NegotiatedCodecs_encode :: "u16 list \<Rightarrow> error + bytes" where
  "NegotiatedCodecs_encode codecs =
     ebind (NegotiatedCodecs_validate codecs) (\<lambda>_. ebind (put_len_u8 (length codecs)) (\<lambda>count.
       Inr (count @ concat (map put_u16 codecs))))"

definition NegotiatedCodecs_decode :: "bytes \<Rightarrow> error + u16 list" where
  "NegotiatedCodecs_decode =
     rrun (rbind (rbind dec_u8 (\<lambda>count.
         bounded_list (unat count) 2 ''negotiated codec count'' dec_u16))
       (\<lambda>v. rbind dec_finish (\<lambda>_. rlift (ebind (NegotiatedCodecs_validate v) (\<lambda>_. Inr v)))))"

section \<open>Client identifier and platform\<close>

definition MAX_CLIENT_IDENTIFIER_BYTES :: nat where
  "MAX_CLIENT_IDENTIFIER_BYTES = 1024"

definition CLIENT_IDENTIFIER_TAG :: u16 where
  "CLIENT_IDENTIFIER_TAG = 5"

definition check_client_identifier :: "bytes \<Rightarrow> error + bytes" where
  "check_client_identifier v =
     (if MAX_CLIENT_IDENTIFIER_BYTES < length v
      then Inl (LimitExceeded ''client identifier bytes'' (of_nat (length v))
                  (of_nat MAX_CLIENT_IDENTIFIER_BYTES))
      else if utf8_valid v then Inr v else Inl InvalidUtf8)"

definition client_identifier_extension :: "bytes \<Rightarrow> error + Extension" where
  "client_identifier_extension identifier =
     ebind (check_client_identifier identifier) (\<lambda>_.
       Inr \<lparr>e_tag = CLIENT_IDENTIFIER_TAG, e_required = False, e_value = identifier\<rparr>)"

definition client_identifier :: "Extensions \<Rightarrow> error + bytes option" where
  "client_identifier es =
     (case find_extension CLIENT_IDENTIFIER_TAG es of
        None \<Rightarrow> Inr None
      | Some e \<Rightarrow> ebind (check_client_identifier (e_value e)) (\<lambda>v. Inr (Some v)))"

record Platform =
  pl_os :: bytes
  pl_arch :: bytes
  pl_env :: bytes

definition MAX_PLATFORM_FIELD_BYTES :: nat where
  "MAX_PLATFORM_FIELD_BYTES = 64"

definition Platform_validate :: "Platform \<Rightarrow> error + unit" where
  "Platform_validate p =
     (if list_ex (\<lambda>f. MAX_PLATFORM_FIELD_BYTES < length f) [pl_os p, pl_arch p, pl_env p]
      then Inl (Invalid ''HELLO platform field length'') else Inr ())"

definition Platform_encode :: "Platform \<Rightarrow> error + bytes" where
  "Platform_encode p =
     ebind (Platform_validate p) (\<lambda>_. encode_all put_string_u16 [pl_os p, pl_arch p, pl_env p])"

definition Platform_field :: "bytes reader" where
  "Platform_field =
     rbind dec_string_u16 (\<lambda>v.
       if MAX_PLATFORM_FIELD_BYTES < length v then rfail (Invalid ''HELLO platform field length'')
       else rret v)"

definition Platform_decode :: "bytes \<Rightarrow> error + Platform" where
  "Platform_decode =
     rrun (rbind (rbind Platform_field (\<lambda>os. rbind Platform_field (\<lambda>arch. rbind Platform_field (\<lambda>env.
         rret \<lparr>pl_os = os, pl_arch = arch, pl_env = env\<rparr>))))
       (\<lambda>v. rbind dec_finish (\<lambda>_. rlift (Inr v))))"

definition Platform_extension :: "Platform \<Rightarrow> u16 \<Rightarrow> error + Extension" where
  "Platform_extension p tag =
     ebind (Platform_encode p) (\<lambda>v. Inr \<lparr>e_tag = tag, e_required = False, e_value = v\<rparr>)"

definition Platform_from_extensions :: "Extensions \<Rightarrow> u16 \<Rightarrow> Platform option" where
  "Platform_from_extensions es tag =
     (case find_extension tag es of
        None \<Rightarrow> None
      | Some e \<Rightarrow> (case Platform_decode (e_value e) of Inl _ \<Rightarrow> None | Inr p \<Rightarrow> Some p))"

section \<open>The client's HELLO\<close>

record FamilyOffer =
  fo_family_id :: u16
  fo_versions :: "u16 list"
  fo_required :: bool

definition FamilyOffer_validate :: "FamilyOffer \<Rightarrow> error + unit" where
  "FamilyOffer_validate f =
     (if fo_family_id f = FAMILY_CORE \<or> fo_versions f = [] \<or> 0 \<in> set (fo_versions f)
      then Inl (Invalid ''HELLO family offer'')
      else if 255 < length (fo_versions f) \<or> \<not> successively (>) (fo_versions f)
      then Inl (Invalid ''HELLO family version order'')
      else Inr ())"

text \<open>The loop bodies of \<^verbatim>\<open>ClientHello\<close>'s encoder and decoder.\<close>

definition FamilyOffer_put :: "FamilyOffer \<Rightarrow> error + bytes" where
  "FamilyOffer_put f =
     ebind (put_len_u8 (length (fo_versions f))) (\<lambda>count.
       Inr (put_u16 (fo_family_id f) @ count @ put_u8 (if fo_required f then 1 else 0)
            @ concat (map put_u16 (fo_versions f))))"

definition FamilyOffer_get :: "FamilyOffer reader" where
  "FamilyOffer_get =
     rbind dec_u16 (\<lambda>family_id. rbind dec_u8 (\<lambda>version_count. rbind dec_u8 (\<lambda>offer_flags.
     if offer_flags AND NOT 1 \<noteq> 0 then rfail (Invalid ''HELLO family offer flags'')
     else rbind (bounded_list (unat version_count) 2 ''HELLO family version count'' dec_u16) (\<lambda>versions.
       rret \<lparr>fo_family_id = family_id, fo_versions = versions,
             fo_required = (offer_flags AND 1 \<noteq> 0)\<rparr>))))"

record ClientHello =
  ch_min_minor :: u16
  ch_max_minor :: u16
  ch_receive :: ReceiveLimits
  ch_client_instance :: bytes
  ch_client_name :: bytes
  ch_client_release :: bytes
  ch_families :: "FamilyOffer list"
  ch_codecs :: "u16 list"
  ch_extensions :: Extensions

definition CLIENT_HELLO_IDLE_TIMEOUT_EXTENSION :: u16 where
  "CLIENT_HELLO_IDLE_TIMEOUT_EXTENSION = 1"

definition CLIENT_HELLO_PLATFORM_EXTENSION :: u16 where
  "CLIENT_HELLO_PLATFORM_EXTENSION = 2"

definition CLIENT_HELLO_READ_ONLY_SESSION_EXTENSION :: u16 where
  "CLIENT_HELLO_READ_ONLY_SESSION_EXTENSION = 4"

definition ClientHello_validate_extension :: "Extension \<Rightarrow> error + unit" where
  "ClientHello_validate_extension e =
     (if e_tag e = CLIENT_HELLO_IDLE_TIMEOUT_EXTENSION
      then (if length (e_value e) \<noteq> 8 then Inl (Invalid ''HELLO idle timeout extension'') else Inr ())
      else if e_tag e = CLIENT_HELLO_INITIAL_WATCHES_EXTENSION
      then ebind (InitialWatches_decode (e_value e)) (\<lambda>_. Inr ())
      else if e_tag e = CLIENT_HELLO_READ_ONLY_SESSION_EXTENSION
              \<and> (\<not> e_required e \<or> e_value e \<noteq> [])
      then Inl (Invalid ''HELLO read-only session extension'')
      else if e_tag e = CLIENT_IDENTIFIER_TAG
      then ebind (check_client_identifier (e_value e)) (\<lambda>_. Inr ())
      else Inr ())"

text \<open>\<^verbatim>\<open>for x in xs { check(x)?; }\<close>.\<close>

fun check_each :: "('a \<Rightarrow> error + unit) \<Rightarrow> 'a list \<Rightarrow> error + unit" where
  "check_each check [] = Inr ()"
| "check_each check (x # xs) = ebind (check x) (\<lambda>_. check_each check xs)"

definition ClientHello_validate :: "ClientHello \<Rightarrow> error + unit" where
  "ClientHello_validate h =
     (if ch_max_minor h < ch_min_minor h then Inl (Invalid ''HELLO Core minor range'')
      else ebind (ReceiveLimits_validate (ch_receive h)) (\<lambda>_.
      if 65535 < length (ch_families h)
         \<or> \<not> successively (\<lambda>a b. fo_family_id a < fo_family_id b) (ch_families h)
      then Inl (Invalid ''HELLO family order'')
      else ebind (check_each FamilyOffer_validate (ch_families h)) (\<lambda>_.
      if 255 < length (ch_codecs h) then Inl LengthOverflow
      else if 0 \<in> set (ch_codecs h) \<or> \<not> successively (<) (ch_codecs h)
      then Inl (Invalid ''HELLO codec order'')
      else ebind (Extensions_validate (ch_extensions h)) (\<lambda>_.
        check_each ClientHello_validate_extension (ch_extensions h)))))"

definition ClientHello_encode :: "ClientHello \<Rightarrow> error + bytes" where
  "ClientHello_encode h =
     ebind (ClientHello_validate h) (\<lambda>_.
     ebind (ReceiveLimits_encode_to (ch_receive h)) (\<lambda>receive.
     ebind (put_string_u16 (ch_client_name h)) (\<lambda>client_name.
     ebind (put_string_u16 (ch_client_release h)) (\<lambda>client_release.
     ebind (put_len_u16 (length (ch_families h))) (\<lambda>family_count.
     ebind (encode_all FamilyOffer_put (ch_families h)) (\<lambda>families.
     ebind (put_len_u8 (length (ch_codecs h))) (\<lambda>codec_count.
     ebind (Extensions_encode_tail (ch_extensions h)) (\<lambda>tail.
       Inr (put_u16 (ch_min_minor h) @ put_u16 (ch_max_minor h) @ receive @ ch_client_instance h
            @ client_name @ client_release @ family_count @ families
            @ codec_count @ concat (map put_u16 (ch_codecs h)) @ tail)))))))))"

definition ClientHello_body :: "ClientHello reader" where
  "ClientHello_body =
     rbind dec_u16 (\<lambda>min_minor. rbind dec_u16 (\<lambda>max_minor.
     rbind ReceiveLimits_decode_from (\<lambda>receive.
     rbind dec_array_16 (\<lambda>client_instance.
     rbind dec_string_u16 (\<lambda>client_name. rbind dec_string_u16 (\<lambda>client_release.
     rbind dec_u16 (\<lambda>family_count.
     rbind (bounded_list (unat family_count) 4 ''HELLO family count'' FamilyOffer_get) (\<lambda>families.
     rbind dec_u8 (\<lambda>codec_count.
     rbind (bounded_list (unat codec_count) 2 ''HELLO codec count'' dec_u16) (\<lambda>codecs.
     rbind dec_extensions (\<lambda>extensions.
       rret \<lparr>ch_min_minor = min_minor, ch_max_minor = max_minor, ch_receive = receive,
             ch_client_instance = client_instance, ch_client_name = client_name,
             ch_client_release = client_release, ch_families = families, ch_codecs = codecs,
             ch_extensions = extensions\<rparr>)))))))))))"

definition ClientHello_decode :: "bytes \<Rightarrow> error + ClientHello" where
  "ClientHello_decode =
     rrun (rbind ClientHello_body (\<lambda>v. rbind dec_finish (\<lambda>_.
       rlift (ebind (ClientHello_validate v) (\<lambda>_. Inr v)))))"

definition ClientHello_ok :: "ClientHello \<Rightarrow> bool" where
  "ClientHello_ok h \<longleftrightarrow> length (ch_client_instance h) = 16
     \<and> utf8_valid (ch_client_name h) \<and> utf8_valid (ch_client_release h)"

text \<open>\<^verbatim>\<open>hello.codecs.binary_search(codec)\<close> on the validated, sorted list is membership.\<close>

definition NegotiatedCodecs_validate_offered_by :: "u16 list \<Rightarrow> ClientHello \<Rightarrow> error + unit" where
  "NegotiatedCodecs_validate_offered_by codecs hello =
     ebind (NegotiatedCodecs_validate codecs) (\<lambda>_. ebind (ClientHello_validate hello) (\<lambda>_.
       if list_ex (\<lambda>c. c \<notin> set (ch_codecs hello)) codecs
       then Inl (Invalid ''server selected unoffered codec'') else Inr ()))"

section \<open>Counted lists are read back\<close>

lemma put_len_u8_iff [enc_iff]: "put_len_u8 n = Inr b \<longleftrightarrow> n < 2 ^ 8 \<and> b = put_u8 (of_nat n)"
  by (auto simp: put_len_u8_def)

lemma bounded_count_iff:
  "bounded_count n m c b = Inr (k, r) \<longleftrightarrow> k = n \<and> r = b \<and> n \<le> length b div m"
  by (auto simp: bounded_count_def rd_iff)

lemma stable_bounded_count [rd_stable]: "stable (bounded_count n m c)"
  unfolding stable_def bounded_count_iff by (auto intro: le_trans[OF _ div_le_mono])

context wire_item
begin

lemma rrepeat_get_iff:
  "rrepeat n get b = Inr (xs, r) \<longleftrightarrow>
     length xs = n \<and> list_all ok xs \<and> (\<exists>p. encode_all put xs = Inr p \<and> b = p @ r)"
proof (induction n arbitrary: b xs)
  case 0
  then show ?case by (auto simp: rd_iff)
next
  case (Suc n)
  show ?case
  proof (cases xs)
    case Nil
    then show ?thesis by (auto simp: rd_iff)
  next
    case (Cons y ys)
    have "rrepeat (Suc n) get b = Inr (xs, r) \<longleftrightarrow>
        (\<exists>s. get b = Inr (y, s) \<and> rrepeat n get s = Inr (ys, r))"
      by (auto simp: rd_iff Cons)
    then show ?thesis
      by (auto simp: Suc.IH get_iff Cons encode_all_Cons_iff simp del: encode_all.simps(2))
  qed
qed

text \<open>Items of at least \<open>m\<close> bytes: the count check refuses nothing that was encoded.\<close>

lemma bounded_list_iff:
  assumes least: "\<And>x p. put x = Inr p \<Longrightarrow> m \<le> length p" and "0 < m"
  shows "bounded_list n m c get b = Inr (xs, r) \<longleftrightarrow>
     length xs = n \<and> list_all ok xs \<and> (\<exists>p. encode_all put xs = Inr p \<and> b = p @ r)"
proof -
  have "length xs * m \<le> length p" if "encode_all put xs = Inr p" for p
    using that
    by (induction xs arbitrary: p) (auto simp: enc_iff dest!: least intro: add_mono)
  then have "length xs \<le> length (p @ r) div m" if "encode_all put xs = Inr p" for p
    using that assms(2) by (simp add: less_eq_div_iff_mult_less_eq trans_le_add1)
  then show ?thesis
    by (auto simp: bounded_list_def rd_iff bounded_count_iff rrepeat_get_iff)
qed

end

lemma encode_all_field: "encode_all (\<lambda>x. Inr (f x)) xs = Inr (concat (map f xs))"
  by (induction xs) simp_all

lemma bounded_u16s_iff [rd_iff]:
  "bounded_list n 2 c dec_u16 b = Inr (xs, r) \<longleftrightarrow>
     length xs = n \<and> b = concat (map put_u16 xs) @ r"
  by (subst u16_field.bounded_list_iff) (auto simp: encode_all_field list_all_iff)

lemma check_each_iff: "check_each check xs = Inr () \<longleftrightarrow> (\<forall>x\<in>set xs. check x = Inr ())"
  by (induction xs) (auto simp: enc_iff)

lemma unat_u8_count: "n = unat (w :: u8) \<longleftrightarrow> n < 2 ^ 8 \<and> w = of_nat n"
  using word_eq_of_nat_iff[of w n] by auto

lemma unat_u16_count: "n = unat (w :: u16) \<longleftrightarrow> n < 2 ^ 16 \<and> w = of_nat n"
  using word_eq_of_nat_iff[of w n] by auto

section \<open>Every payload is canonical\<close>

lemma ReceiveLimits_item:
  "ReceiveLimits_decode_from b = Inr (l, r) \<longleftrightarrow>
     (\<exists>p. ReceiveLimits_encode_to l = Inr p \<and> b = p @ r)"
  by (cases l) (auto simp: ReceiveLimits_decode_from_def ReceiveLimits_encode_to_def Let_def rd_iff enc_iff)

interpretation receive_item: wire_item "\<lambda>_. True" ReceiveLimits_encode_to ReceiveLimits_decode_from
  by unfold_locales (simp add: ReceiveLimits_item)

lemma Status_from_code_iff: "Status_from_code c = s \<longleftrightarrow> Status_named s \<and> c = Status_code s"
proof
  assume "Status_from_code c = s"
  then show "Status_named s \<and> c = Status_code s"
    by (auto simp: Status_from_code_def Status_named_def split: if_splits) unat_arith+
next
  assume "Status_named s \<and> c = Status_code s"
  then show "Status_from_code c = s"
    by (cases s) (auto simp: Status_from_code_def Status_named_def word_le_nat_alt)
qed

lemma Status_from_code_code: "Status_named s \<Longrightarrow> Status_from_code (Status_code s) = s"
  by (simp add: Status_from_code_iff)

lemma Status_code_from_code [simp]:
  "Status_code (Status_from_code c) = c" "Status_named (Status_from_code c)"
  using Status_from_code_iff[of c "Status_from_code c"] by simp_all

lemma ResultPrefix_decode_iff:
  "ResultPrefix_decode b = Inr p \<longleftrightarrow> Status_named (rp_status p) \<and> ResultPrefix_encode p = Inr b"
  by (cases p) (auto simp: ResultPrefix_decode_def ResultPrefix_encode_def Let_def rd_iff enc_iff
      Extensions_decode_entries_iff Status_from_code_code)

lemma GoAway_decode_iff:
  "GoAway_decode b = Inr g \<longleftrightarrow> Status_named (ga_status g) \<and> GoAway_encode g = Inr b"
  by (cases g) (auto simp: GoAway_decode_def GoAway_body_def GoAway_encode_def rd_iff enc_iff
      Extensions_decode_entries_iff Status_from_code_code)

lemma Ping_decode_iff: "Ping_decode b = Inr v \<longleftrightarrow> Ping_encode v = Inr b"
  by (cases v) (auto simp: Ping_decode_def Ping_encode_def rd_iff enc_iff)

lemma PingResult_decode_iff: "PingResult_decode b = Inr v \<longleftrightarrow> PingResult_encode v = Inr b"
  by (cases v) (auto simp: PingResult_decode_def PingResult_encode_def rd_iff enc_iff)

lemma Cancel_decode_iff: "Cancel_decode b = Inr v \<longleftrightarrow> Cancel_encode v = Inr b"
  by (cases v) (auto simp: Cancel_decode_def Cancel_encode_def rd_iff enc_iff)

lemma Shutdown_decode_iff: "Shutdown_decode b = Inr v \<longleftrightarrow> Shutdown_ok v \<and> Shutdown_encode v = Inr b"
  by (cases v) (auto simp: Shutdown_decode_def Shutdown_encode_def Shutdown_ok_def
      array_16_field.fget_iff rd_iff enc_iff)

lemma SessionUpdate_decode_iff: "SessionUpdate_decode b = Inr v \<longleftrightarrow> SessionUpdate_encode v = Inr b"
  by (cases v) (auto simp: SessionUpdate_decode_def SessionUpdate_body_def SessionUpdate_encode_def
      ReceiveLimits_item ReceiveLimits_encode_to_def rd_iff enc_iff)

lemma InitialWatch_get_iff:
  "InitialWatch_get b = Inr (w, r) \<longleftrightarrow> (\<exists>p. InitialWatch_put w = Inr p \<and> b = p @ r)"
  by (cases w) (auto simp: InitialWatch_get_def InitialWatch_put_def rd_iff enc_iff)

interpretation InitialWatch_item: wire_item "\<lambda>_. True" InitialWatch_put InitialWatch_get
  by unfold_locales (simp add: InitialWatch_get_iff)

lemma InitialWatch_put_least: "InitialWatch_put w = Inr p \<Longrightarrow> 8 \<le> length p"
  by (auto simp: InitialWatch_put_def enc_iff split: if_splits)

lemmas InitialWatch_list_iff [rd_iff] =
  InitialWatch_item.bounded_list_iff[OF InitialWatch_put_least, simplified]

lemma InitialWatches_decode_iff: "InitialWatches_decode b = Inr ws \<longleftrightarrow> InitialWatches_encode ws = Inr b"
  by (auto simp: InitialWatches_decode_def InitialWatches_encode_def rd_iff enc_iff unat_u16_count
      list_all_iff)

interpretation InitialWatchResult_item:
  wire_item "\<lambda>p. Status_named (rp_status p)" InitialWatchResult_put InitialWatchResult_get
  by unfold_locales (auto simp: InitialWatchResult_put_def InitialWatchResult_get_def
      ResultPrefix_decode_iff rd_iff enc_iff)

lemma InitialWatchResult_put_least: "InitialWatchResult_put w = Inr p \<Longrightarrow> 4 \<le> length p"
  by (auto simp: InitialWatchResult_put_def enc_iff)

lemmas InitialWatchResult_list_iff [rd_iff] =
  InitialWatchResult_item.bounded_list_iff[OF InitialWatchResult_put_least, simplified]

lemma InitialWatchResults_decode_iff:
  "InitialWatchResults_decode b = Inr rs \<longleftrightarrow>
     list_all (\<lambda>p. Status_named (rp_status p)) rs \<and> InitialWatchResults_encode rs = Inr b"
  by (auto simp: InitialWatchResults_decode_def InitialWatchResults_encode_def rd_iff enc_iff
      unat_u16_count)

lemma NegotiatedCodecs_decode_iff:
  "NegotiatedCodecs_decode b = Inr cs \<longleftrightarrow> NegotiatedCodecs_encode cs = Inr b"
  by (auto simp: NegotiatedCodecs_decode_def NegotiatedCodecs_encode_def rd_iff enc_iff unat_u8_count)

lemma FamilyOffer_get_iff:
  "FamilyOffer_get b = Inr (f, r) \<longleftrightarrow> (\<exists>p. FamilyOffer_put f = Inr p \<and> b = p @ r)"
  by (cases f) (auto simp: FamilyOffer_get_def FamilyOffer_put_def rd_iff enc_iff unat_u8_count)

interpretation FamilyOffer_item: wire_item "\<lambda>_. True" FamilyOffer_put FamilyOffer_get
  by unfold_locales (simp add: FamilyOffer_get_iff)

lemma FamilyOffer_put_least: "FamilyOffer_put w = Inr p \<Longrightarrow> 4 \<le> length p"
  by (auto simp: FamilyOffer_put_def enc_iff)

lemmas FamilyOffer_list_iff [rd_iff] =
  FamilyOffer_item.bounded_list_iff[OF FamilyOffer_put_least, simplified]

lemma Platform_field_iff [rd_iff]:
  "Platform_field b = Inr (v, r) \<longleftrightarrow> utf8_valid v \<and> length v \<le> MAX_PLATFORM_FIELD_BYTES
     \<and> b = put_u16 (of_nat (length v)) @ v @ r"
  by (auto simp: Platform_field_def rd_iff MAX_PLATFORM_FIELD_BYTES_def)

definition Platform_ok :: "Platform \<Rightarrow> bool" where
  "Platform_ok p \<longleftrightarrow> utf8_valid (pl_os p) \<and> utf8_valid (pl_arch p) \<and> utf8_valid (pl_env p)"

lemma Platform_decode_iff: "Platform_decode b = Inr p \<longleftrightarrow> Platform_ok p \<and> Platform_encode p = Inr b"
  by (cases p) (auto simp: Platform_decode_def Platform_encode_def Platform_validate_def Platform_ok_def
      MAX_PLATFORM_FIELD_BYTES_def rd_iff enc_iff)

lemma ClientHello_body_iff:
  "ClientHello_body b = Inr (h, r) \<longleftrightarrow> ClientHello_ok h \<and>
     (\<exists>rl fs tail. ReceiveLimits_encode_to (ch_receive h) = Inr rl
        \<and> length (ch_client_name h) < 2 ^ 16 \<and> length (ch_client_release h) < 2 ^ 16
        \<and> length (ch_families h) < 2 ^ 16 \<and> encode_all FamilyOffer_put (ch_families h) = Inr fs
        \<and> length (ch_codecs h) < 2 ^ 8 \<and> Extensions_encode_tail (ch_extensions h) = Inr tail
        \<and> b = put_u16 (ch_min_minor h) @ put_u16 (ch_max_minor h) @ rl @ ch_client_instance h
            @ put_u16 (of_nat (length (ch_client_name h))) @ ch_client_name h
            @ put_u16 (of_nat (length (ch_client_release h))) @ ch_client_release h
            @ put_u16 (of_nat (length (ch_families h))) @ fs
            @ put_u8 (of_nat (length (ch_codecs h))) @ concat (map put_u16 (ch_codecs h)) @ tail @ r)"
  by (cases h) (auto simp: ClientHello_body_def ClientHello_ok_def rd_iff ReceiveLimits_item
      array_16_field.fget_iff unat_u16_count unat_u8_count list_all_iff)

lemma ClientHello_decode_iff:
  "ClientHello_decode b = Inr h \<longleftrightarrow> ClientHello_ok h \<and> ClientHello_encode h = Inr b"
  by (auto simp: ClientHello_decode_def ClientHello_encode_def ClientHello_body_iff rd_iff enc_iff)

section \<open>The payload interfaces\<close>

lemma stable_ReceiveLimits_decode_from [rd_stable]: "stable ReceiveLimits_decode_from"
  by (rule receive_item.get_stable)

lemma stable_bounded_list [rd_stable]: "stable get \<Longrightarrow> stable (bounded_list n m c get)"
  unfolding bounded_list_def by (intro rd_stable)

lemmas stable_core_items [rd_stable] =
  FamilyOffer_item.get_stable InitialWatch_item.get_stable InitialWatchResult_item.get_stable

lemma stable_Platform_field [rd_stable]: "stable Platform_field"
  unfolding Platform_field_def by (intro rd_stable)

lemma ClientHello_body_stable: "stable ClientHello_body"
  unfolding ClientHello_body_def by (intro rd_stable)

lemma GoAway_body_stable: "stable GoAway_body"
  unfolding GoAway_body_def by (intro rd_stable)

lemma SessionUpdate_body_stable: "stable SessionUpdate_body"
  unfolding SessionUpdate_body_def by (intro rd_stable)

text \<open>A Result prefix carries the rest of its frame, so it is canonical but not self-delimiting.\<close>

interpretation ResultPrefix_codec:
  canonical_codec "\<lambda>p. Status_named (rp_status p)" ResultPrefix_encode ResultPrefix_decode
  by unfold_locales (rule ResultPrefix_decode_iff)

interpretation ClientHello_codec: self_delimiting_codec ClientHello_ok ClientHello_encode ClientHello_decode
  by unfold_locales (rule ClientHello_decode_iff,
    rule framed_not_ok[OF ClientHello_decode_def ClientHello_body_stable])

interpretation GoAway_codec:
  self_delimiting_codec "\<lambda>g. Status_named (ga_status g)" GoAway_encode GoAway_decode
  by unfold_locales (rule GoAway_decode_iff, rule framed_not_ok[OF GoAway_decode_def GoAway_body_stable])

interpretation SessionUpdate_codec: self_delimiting_codec "\<lambda>_. True" SessionUpdate_encode SessionUpdate_decode
  by unfold_locales (simp add: SessionUpdate_decode_iff,
    rule framed_not_ok[OF SessionUpdate_decode_def SessionUpdate_body_stable])

interpretation Ping_codec: self_delimiting_codec "\<lambda>_. True" Ping_encode Ping_decode
  by unfold_locales (simp add: Ping_decode_iff, rule framed_not_ok[OF Ping_decode_def], intro rd_stable)

interpretation PingResult_codec: self_delimiting_codec "\<lambda>_. True" PingResult_encode PingResult_decode
  by unfold_locales
    (simp add: PingResult_decode_iff, rule framed_not_ok[OF PingResult_decode_def], intro rd_stable)

interpretation Cancel_codec: self_delimiting_codec "\<lambda>_. True" Cancel_encode Cancel_decode
  by unfold_locales (simp add: Cancel_decode_iff, rule framed_not_ok[OF Cancel_decode_def], intro rd_stable)

interpretation Shutdown_codec: self_delimiting_codec Shutdown_ok Shutdown_encode Shutdown_decode
  by unfold_locales
    (rule Shutdown_decode_iff, rule framed_not_ok[OF Shutdown_decode_def], intro rd_stable)

interpretation InitialWatches_codec: self_delimiting_codec "\<lambda>_. True" InitialWatches_encode InitialWatches_decode
  by unfold_locales
    (simp add: InitialWatches_decode_iff, rule framed_not_ok[OF InitialWatches_decode_def], intro rd_stable)

interpretation InitialWatchResults_codec: self_delimiting_codec
  "list_all (\<lambda>p. Status_named (rp_status p))" InitialWatchResults_encode InitialWatchResults_decode
  by unfold_locales (rule InitialWatchResults_decode_iff,
    rule framed_not_ok[OF InitialWatchResults_decode_def], intro rd_stable)

interpretation NegotiatedCodecs_codec: self_delimiting_codec
  "\<lambda>_. True" NegotiatedCodecs_encode NegotiatedCodecs_decode
  by unfold_locales (simp add: NegotiatedCodecs_decode_iff,
    rule framed_not_ok[OF NegotiatedCodecs_decode_def], intro rd_stable)

interpretation Platform_codec: self_delimiting_codec Platform_ok Platform_encode Platform_decode
  by unfold_locales
    (rule Platform_decode_iff, rule framed_not_ok[OF Platform_decode_def], intro rd_stable)

section \<open>Properties\<close>

text \<open>
  The payloads of the Core family have one encoding each, Result prefixes and GOAWAY for the
  statuses a decoder can produce.
\<close>

theorem Core_payloads_canonical:
  "(ClientHello_decode b = Inr h \<longleftrightarrow> ClientHello_ok h \<and> ClientHello_encode h = Inr b)
   \<and> (ResultPrefix_decode b = Inr p \<longleftrightarrow> Status_named (rp_status p) \<and> ResultPrefix_encode p = Inr b)
   \<and> (GoAway_decode b = Inr g \<longleftrightarrow> Status_named (ga_status g) \<and> GoAway_encode g = Inr b)
   \<and> (SessionUpdate_decode b = Inr u \<longleftrightarrow> SessionUpdate_encode u = Inr b)
   \<and> (InitialWatches_decode b = Inr ws \<longleftrightarrow> InitialWatches_encode ws = Inr b)
   \<and> (InitialWatchResults_decode b = Inr rs \<longleftrightarrow>
        list_all (\<lambda>p. Status_named (rp_status p)) rs \<and> InitialWatchResults_encode rs = Inr b)
   \<and> (NegotiatedCodecs_decode b = Inr cs \<longleftrightarrow> NegotiatedCodecs_encode cs = Inr b)
   \<and> (Platform_decode b = Inr pl \<longleftrightarrow> Platform_ok pl \<and> Platform_encode pl = Inr b)
   \<and> (Ping_decode b = Inr pg \<longleftrightarrow> Ping_encode pg = Inr b)
   \<and> (PingResult_decode b = Inr pr \<longleftrightarrow> PingResult_encode pr = Inr b)
   \<and> (Cancel_decode b = Inr c \<longleftrightarrow> Cancel_encode c = Inr b)
   \<and> (Shutdown_decode b = Inr sh \<longleftrightarrow> Shutdown_ok sh \<and> Shutdown_encode sh = Inr b)"
  using ClientHello_codec.dec_iff ResultPrefix_codec.dec_iff GoAway_codec.dec_iff
    SessionUpdate_codec.dec_iff InitialWatches_codec.dec_iff InitialWatchResults_codec.dec_iff
    NegotiatedCodecs_codec.dec_iff Platform_codec.dec_iff Ping_codec.dec_iff PingResult_codec.dec_iff
    Cancel_codec.dec_iff Shutdown_codec.dec_iff by simp

text \<open>
  A Result whose status is \<open>Unknown\<close> of a code that has a name is encoded, and read back as the
  named status.  With code 0 a result the sender marked as not OK is read as a success.
\<close>

theorem ResultPrefix_unknown_status:
  assumes "\<not> Status_named s" and "ResultPrefix_encode \<lparr>rp_status = s, rp_detail = es, rp_body = []\<rparr> = Inr b"
  shows "ResultPrefix_decode b = Inr \<lparr>rp_status = Status_from_code (Status_code s), rp_detail = es, rp_body = []\<rparr>
    \<and> Status_from_code (Status_code s) \<noteq> s"
proof -
  have "ResultPrefix_encode \<lparr>rp_status = Status_from_code (Status_code s), rp_detail = es, rp_body = []\<rparr> = Inr b"
    using assms(2) by (simp add: ResultPrefix_encode_def)
  moreover have "Status_from_code (Status_code s) \<noteq> s"
    using assms(1) by (simp add: Status_from_code_iff)
  ultimately show ?thesis
    by (simp add: ResultPrefix_decode_iff)
qed

theorem ResultPrefix_unknown_status_witness:
  "ResultPrefix_encode \<lparr>rp_status = StUnknown 0, rp_detail = [], rp_body = []\<rparr> = Inr (put_u16 0 @ put_u16 0 @ put_u32 0)
   \<and> ResultPrefix_decode (put_u16 0 @ put_u16 0 @ put_u32 0) = Inr \<lparr>rp_status = StOk, rp_detail = [], rp_body = []\<rparr>"
proof -
  have enc: "ResultPrefix_encode \<lparr>rp_status = StUnknown 0, rp_detail = [], rp_body = []\<rparr>
      = Inr (put_u16 0 @ put_u16 0 @ put_u32 0)"
    by (simp add: ResultPrefix_encode_def validate_result_or_event_extensions_def Extensions_validate_def
        Extensions_encode_entries_def put_len_u32_def)
  have "\<not> Status_named (StUnknown 0)" "Status_from_code (Status_code (StUnknown 0)) = StOk"
    by (simp_all add: Status_named_def Status_from_code_def word_le_nat_alt)
  with ResultPrefix_unknown_status[OF _ enc] enc show ?thesis
    by simp
qed

end
