(* ===== verification/Family_Limits.thy ===== *)
theory Family_Limits
  imports Wire_Codec
begin

text \<open>
  What the family limit blocks share: readers of single limits, rewriting of blocks built from
  \<^const>\<open>limit_u32\<close> and \<^const>\<open>limit_u64\<close>, and the contract every \<^verbatim>\<open>Limits\<close> type of
  \<^verbatim>\<open>crates/yas/src/<family>.rs\<close> fulfils: what is advertised is read back, what is read is
  valid, and entries with unknown tags that are not required do not matter.
\<close>

section \<open>Readers of one limit\<close>

text \<open>The closure \<^verbatim>\<open>valid_u32\<close> of the families' \<^verbatim>\<open>Limits::validate\<close>.\<close>

definition valid_limit :: "'w::len word \<Rightarrow> 'w word \<Rightarrow> bool" where
  "valid_limit v maximum \<longleftrightarrow> v \<noteq> 0 \<and> v \<le> maximum"

text \<open>
  The private \<^verbatim>\<open>read_limit_u32\<close> and \<^verbatim>\<open>read_limit_u64\<close> of the families that word their errors
  with the family's name.
\<close>

definition family_limit_u32 :: "string \<Rightarrow> Extensions \<Rightarrow> u64 \<Rightarrow> error + u32" where
  "family_limit_u32 family es tag =
     (case find_extension (ucast tag) es of
        None \<Rightarrow> Inl (Invalid (''missing '' @ family @ '' family limit''))
      | Some e \<Rightarrow> if length (e_value e) = 4 then Inr (from_le (e_value e))
                  else Inl (Invalid (family @ '' family limit length'')))"

definition family_limit_u64 :: "string \<Rightarrow> Extensions \<Rightarrow> u64 \<Rightarrow> error + u64" where
  "family_limit_u64 family es tag =
     (case find_extension (ucast tag) es of
        None \<Rightarrow> Inl (Invalid (''missing '' @ family @ '' family limit''))
      | Some e \<Rightarrow> if length (e_value e) = 8 then Inr (from_le (e_value e))
                  else Inl (Invalid (family @ '' family limit length'')))"

section \<open>Blocks of limits\<close>

text \<open>The entries of a list whose tags a reader knows.\<close>

definition restrict_tags :: "u16 list \<Rightarrow> Extensions \<Rightarrow> Extensions" where
  "restrict_tags known es = filter (\<lambda>e. e_tag e \<in> set known) es"

named_theorems limit_block

lemma limit_fields [simp]:
  "e_tag (limit_u32 t v) = ucast t" "e_tag (limit_u64 t w) = ucast t"
  "\<not> e_required (limit_u32 t v)" "\<not> e_required (limit_u64 t w)"
  "e_value (limit_u32 t v) = le_bytes 4 v" "e_value (limit_u64 t w) = le_bytes 8 w"
  by (simp_all add: limit_u32_def limit_u64_def)

lemma find_extension_simps [limit_block]:
  "find_extension t [] = None"
  "find_extension t (e # es) = (if e_tag e = t then Some e else find_extension t es)"
  by (simp_all add: find_extension_def)

lemma tags_increase_limits [limit_block]:
  "tags_increase None (e # es) = tags_increase (Some (e_tag e)) es"
  "tags_increase (Some t) (e # es) =
     (if e_tag e \<le> t then Inl (Invalid ''extension tag order'') else tags_increase (Some (e_tag e)) es)"
  "tags_increase p [] = Inr ()"
  by simp_all

lemma from_le_limit [limit_block]:
  "from_le (le_bytes 4 v) = v" "from_le (le_bytes 8 w) = w" for v :: u32 and w :: u64
  by (simp_all add: from_le_le_bytes take_bit_word_eq_self)

lemmas limit_readers [limit_block] =
  read_limit_u32_def read_limit_u64_def family_limit_u32_def family_limit_u64_def

lemma Extensions_validate_limits [limit_block]:
  "length es \<le> 4096 \<Longrightarrow> Extensions_validate es = tags_increase None es"
  by (simp add: Extensions_validate_def HARD_MAX_EXTENSION_ENTRIES_def)

lemma reject_limits [limit_block]:
  "list_all (\<lambda>e. \<not> e_required e) es \<Longrightarrow>
     reject_unknown_required_extensions es known c = Extensions_validate es"
  by (auto simp: reject_unknown_required_extensions_def list_ex_iff list_all_iff ebind_def
      split: sum.splits)

lemma reject_Inr_iff:
  "reject_unknown_required_extensions es known c = Inr u \<longleftrightarrow>
     Extensions_validate es = Inr () \<and> (\<forall>e\<in>set es. e_required e \<longrightarrow> e_tag e \<in> set known)"
  by (auto simp: reject_unknown_required_extensions_def list_ex_iff enc_iff)

lemmas limit_order [limit_block] = word_le_nat_alt

lemma Extensions_validate_restrict:
  "Extensions_validate es = Inr () \<Longrightarrow> Extensions_validate (restrict_tags known es) = Inr ()"
  unfolding Extensions_validate_iff restrict_tags_def
  by (auto intro: le_trans[OF length_filter_le] sorted_wrt_filter simp: filter_map[symmetric])

lemma reject_restricted:
  assumes "Extensions_validate es = Inr ()"
    and "\<And>e. e \<in> set es \<Longrightarrow> e_required e \<Longrightarrow> e_tag e \<in> set known"
  shows "reject_unknown_required_extensions es known c = Inr ()"
    and "reject_unknown_required_extensions (restrict_tags known es) known c = Inr ()"
  using assms Extensions_validate_restrict[OF assms(1), of known]
  by (auto simp: reject_unknown_required_extensions_def list_ex_iff restrict_tags_def)

lemma find_restricted:
  "t \<in> set known \<Longrightarrow> find_extension t (restrict_tags known es) = find_extension t es"
  "t \<in> set known \<Longrightarrow>
     list_ex (\<lambda>e. e_tag e = t) (restrict_tags known es) = list_ex (\<lambda>e. e_tag e = t) es"
  by (induction es) (auto simp: find_extension_def restrict_tags_def)

lemma read_restricted:
  assumes "ucast t \<in> set known"
  shows "read_limit_u32 (restrict_tags known es) t = read_limit_u32 es t"
    and "read_limit_u64 (restrict_tags known es) t = read_limit_u64 es t"
    and "family_limit_u32 f (restrict_tags known es) t = family_limit_u32 f es t"
    and "family_limit_u64 f (restrict_tags known es) t = family_limit_u64 f es t"
  by (simp_all add: limit_readers find_restricted(1)[OF assms])

section \<open>The contract of a limit block\<close>

locale family_limits =
  fixes validate :: "'l \<Rightarrow> error + unit"
    and to_extensions :: "'l \<Rightarrow> error + Extensions"
    and from_extensions :: "Extensions \<Rightarrow> error + 'l"
    and known :: "u16 list"
  assumes to_valid: "to_extensions l = Inr es \<Longrightarrow> validate l = Inr ()"
    and valid_to: "validate l = Inr () \<Longrightarrow> \<exists>es. to_extensions l = Inr es"
    and to_optional: "to_extensions l = Inr es \<Longrightarrow> list_all (\<lambda>e. \<not> e_required e) es"
    and from_to: "to_extensions l = Inr es \<Longrightarrow> from_extensions es = Inr l"
    and from_valid: "from_extensions es = Inr l \<Longrightarrow> validate l = Inr ()"
    and from_wire: "from_extensions es = Inr l \<Longrightarrow> Extensions_validate es = Inr ()"
    and from_known: "Extensions_validate es = Inr () \<Longrightarrow>
      (\<And>e. e \<in> set es \<Longrightarrow> e_required e \<Longrightarrow> e_tag e \<in> set known) \<Longrightarrow>
      from_extensions (restrict_tags known es) = from_extensions es"
begin

lemma advertised_iff: "(\<exists>es. to_extensions l = Inr es) \<longleftrightarrow> validate l = Inr ()"
  using to_valid valid_to by blast

lemma advertised_wire: "to_extensions l = Inr es \<Longrightarrow> Extensions_validate es = Inr ()"
  using from_to from_wire by blast

lemma to_injective: "to_extensions l = Inr es \<Longrightarrow> to_extensions m = Inr es \<Longrightarrow> l = m"
  using from_to by (metis sum.inject(2))

text \<open>Limits that were accepted can be advertised again, and then mean the same.\<close>

lemma readvertise:
  "from_extensions es = Inr l \<Longrightarrow> \<exists>fs. to_extensions l = Inr fs \<and> from_extensions fs = Inr l"
  using from_valid valid_to from_to by blast

text \<open>
  A later revision may add limits: as long as they are not required they change nothing for a
  reader that does not know them.
\<close>

lemma extended_block:
  assumes "to_extensions l = Inr (restrict_tags known es)" and "Extensions_validate es = Inr ()"
    and "\<forall>e\<in>set es. \<not> e_required e"
  shows "from_extensions es = Inr l"
  using from_known[OF assms(2)] from_to[OF assms(1)] assms(3) by simp

end

end
