(* ===== verification/Limits_Session.thy ===== *)
theory Limits_Session
  imports Family_Limits
begin

text \<open>
  The limit blocks of the relay, font, terminal, client, surface, selection, desktop and media
  families (\<^verbatim>\<open>impl Limits\<close> of \<^verbatim>\<open>crates/yas/src/<family>.rs\<close>), with the tags and hard maxima
  the schema gives them.
\<close>

section \<open>Relay\<close>

record relay_Limits =
  relay_max_routes :: u32
  relay_max_links_per_session :: u32
  relay_max_pending_connects :: u32
  relay_max_early_data :: u32
  relay_connect_timeout_ns :: u64
  relay_max_buffered_per_link :: u64

definition relay_HARD :: relay_Limits where
  "relay_HARD = \<lparr>relay_max_routes = 65536, relay_max_links_per_session = 4096,
     relay_max_pending_connects = 1024, relay_max_early_data = 65536,
     relay_connect_timeout_ns = 300000000000, relay_max_buffered_per_link = 1073741824\<rparr>"

definition relay_Limits_validate :: "relay_Limits \<Rightarrow> error + unit" where
  "relay_Limits_validate l =
     (if \<not> valid_limit (relay_max_routes l) (relay_max_routes relay_HARD)
        \<or> \<not> valid_limit (relay_max_links_per_session l) (relay_max_links_per_session relay_HARD)
        \<or> \<not> valid_limit (relay_max_pending_connects l) (relay_max_pending_connects relay_HARD)
        \<or> relay_max_links_per_session l < relay_max_pending_connects l
        \<or> relay_max_early_data relay_HARD < relay_max_early_data l
        \<or> relay_connect_timeout_ns l = 0
        \<or> relay_connect_timeout_ns relay_HARD < relay_connect_timeout_ns l
        \<or> relay_max_buffered_per_link l = 0
        \<or> relay_max_buffered_per_link relay_HARD < relay_max_buffered_per_link l
      then Inl (Invalid ''Relay family limit'') else Inr ())"

definition relay_Limits_to_extensions :: "relay_Limits \<Rightarrow> error + Extensions" where
  "relay_Limits_to_extensions l =
     ebind (relay_Limits_validate l) (\<lambda>_. Inr
       [limit_u32 1 (relay_max_routes l),
        limit_u32 2 (relay_max_links_per_session l),
        limit_u32 3 (relay_max_pending_connects l),
        limit_u32 4 (relay_max_early_data l),
        limit_u64 5 (relay_connect_timeout_ns l),
        limit_u64 6 (relay_max_buffered_per_link l)])"

definition relay_Limits_from_extensions :: "Extensions \<Rightarrow> error + relay_Limits" where
  "relay_Limits_from_extensions es =
     ebind (reject_unknown_required_extensions es [1, 2, 3, 4, 5, 6]
              ''unknown required Relay family limit'') (\<lambda>_.
     ebind (read_limit_u32 es 1) (\<lambda>max_routes.
     ebind (read_limit_u32 es 2) (\<lambda>max_links_per_session.
     ebind (read_limit_u32 es 3) (\<lambda>max_pending_connects.
     ebind (read_limit_u32 es 4) (\<lambda>max_early_data.
     ebind (read_limit_u64 es 5) (\<lambda>connect_timeout_ns.
     ebind (read_limit_u64 es 6) (\<lambda>max_buffered_per_link.
     let v = \<lparr>relay_max_routes = max_routes, relay_max_links_per_session = max_links_per_session,
              relay_max_pending_connects = max_pending_connects,
              relay_max_early_data = max_early_data,
              relay_connect_timeout_ns = connect_timeout_ns,
              relay_max_buffered_per_link = max_buffered_per_link\<rparr> in
     ebind (relay_Limits_validate v) (\<lambda>_. Inr v))))))))"

section \<open>Font\<close>

record font_Limits =
  font_max_families :: u32
  font_max_faces_per_family :: u32
  font_max_description_bytes :: u64
  font_max_face_bytes :: u64
  font_max_concurrent_fetches :: u32
  font_max_scan_duration_ns :: u64
  font_refresh_interval_ns :: u64

definition font_HARD :: font_Limits where
  "font_HARD = \<lparr>font_max_families = 65535, font_max_faces_per_family = 65535,
     font_max_description_bytes = 67108864, font_max_face_bytes = 67108864,
     font_max_concurrent_fetches = 1024, font_max_scan_duration_ns = 300000000000,
     font_refresh_interval_ns = 86400000000000\<rparr>"

definition font_Limits_validate :: "font_Limits \<Rightarrow> error + unit" where
  "font_Limits_validate l =
     (if \<not> valid_limit (font_max_families l) (font_max_families font_HARD)
        \<or> \<not> valid_limit (font_max_faces_per_family l) (font_max_faces_per_family font_HARD)
        \<or> font_max_description_bytes l = 0
        \<or> font_max_description_bytes font_HARD < font_max_description_bytes l
        \<or> font_max_face_bytes l = 0
        \<or> font_max_face_bytes font_HARD < font_max_face_bytes l
        \<or> \<not> valid_limit (font_max_concurrent_fetches l) (font_max_concurrent_fetches font_HARD)
        \<or> font_max_scan_duration_ns l = 0
        \<or> font_max_scan_duration_ns font_HARD < font_max_scan_duration_ns l
        \<or> font_refresh_interval_ns font_HARD < font_refresh_interval_ns l
      then Inl (Invalid ''Font family limit'') else Inr ())"

definition font_Limits_to_extensions :: "font_Limits \<Rightarrow> error + Extensions" where
  "font_Limits_to_extensions l =
     ebind (font_Limits_validate l) (\<lambda>_. Inr
       [limit_u32 1 (font_max_families l),
        limit_u32 2 (font_max_faces_per_family l),
        limit_u64 3 (font_max_description_bytes l),
        limit_u64 4 (font_max_face_bytes l),
        limit_u32 5 (font_max_concurrent_fetches l),
        limit_u64 6 (font_max_scan_duration_ns l),
        limit_u64 7 (font_refresh_interval_ns l)])"

definition font_Limits_from_extensions :: "Extensions \<Rightarrow> error + font_Limits" where
  "font_Limits_from_extensions es =
     ebind (reject_unknown_required_extensions es [1, 2, 3, 4, 5, 6, 7]
              ''unknown required Font family limit'') (\<lambda>_.
     ebind (read_limit_u32 es 1) (\<lambda>max_families.
     ebind (read_limit_u32 es 2) (\<lambda>max_faces_per_family.
     ebind (read_limit_u64 es 3) (\<lambda>max_description_bytes.
     ebind (read_limit_u64 es 4) (\<lambda>max_face_bytes.
     ebind (read_limit_u32 es 5) (\<lambda>max_concurrent_fetches.
     ebind (read_limit_u64 es 6) (\<lambda>max_scan_duration_ns.
     ebind (read_limit_u64 es 7) (\<lambda>refresh_interval_ns.
     let v = \<lparr>font_max_families = max_families, font_max_faces_per_family = max_faces_per_family,
              font_max_description_bytes = max_description_bytes,
              font_max_face_bytes = max_face_bytes,
              font_max_concurrent_fetches = max_concurrent_fetches,
              font_max_scan_duration_ns = max_scan_duration_ns,
              font_refresh_interval_ns = refresh_interval_ns\<rparr> in
     ebind (font_Limits_validate v) (\<lambda>_. Inr v)))))))))"

section \<open>Terminal\<close>

record terminal_Limits =
  terminal_max_terminals_per_session :: u32
  terminal_max_views_per_session :: u32
  terminal_max_view_rows :: u32
  terminal_max_view_cols :: u32
  terminal_max_input_bytes :: u32
  terminal_max_inline_query_bytes :: u32
  terminal_max_query_records :: u32
  terminal_max_hyperlink_uri_bytes :: u32

definition terminal_HARD :: terminal_Limits where
  "terminal_HARD = \<lparr>terminal_max_terminals_per_session = 65535, terminal_max_views_per_session = 4096,
     terminal_max_view_rows = 4096, terminal_max_view_cols = 4096,
     terminal_max_input_bytes = 16384, terminal_max_inline_query_bytes = 32768,
     terminal_max_query_records = 4096, terminal_max_hyperlink_uri_bytes = 4096\<rparr>"

definition terminal_Limits_validate :: "terminal_Limits \<Rightarrow> error + unit" where
  "terminal_Limits_validate l =
     (if \<not> valid_limit (terminal_max_terminals_per_session l) (terminal_max_terminals_per_session terminal_HARD)
        \<or> \<not> valid_limit (terminal_max_views_per_session l) (terminal_max_views_per_session terminal_HARD)
        \<or> \<not> valid_limit (terminal_max_view_rows l) (terminal_max_view_rows terminal_HARD)
        \<or> \<not> valid_limit (terminal_max_view_cols l) (terminal_max_view_cols terminal_HARD)
        \<or> \<not> valid_limit (terminal_max_input_bytes l) (terminal_max_input_bytes terminal_HARD)
        \<or> \<not> valid_limit (terminal_max_inline_query_bytes l) (terminal_max_inline_query_bytes terminal_HARD)
        \<or> \<not> valid_limit (terminal_max_query_records l) (terminal_max_query_records terminal_HARD)
        \<or> \<not> valid_limit (terminal_max_hyperlink_uri_bytes l) (terminal_max_hyperlink_uri_bytes terminal_HARD)
      then Inl (Invalid ''Terminal family limit'') else Inr ())"

definition terminal_Limits_to_extensions :: "terminal_Limits \<Rightarrow> error + Extensions" where
  "terminal_Limits_to_extensions l =
     ebind (terminal_Limits_validate l) (\<lambda>_. Inr
       [limit_u32 1 (terminal_max_terminals_per_session l),
        limit_u32 2 (terminal_max_views_per_session l),
        limit_u32 3 (terminal_max_view_rows l),
        limit_u32 4 (terminal_max_view_cols l),
        limit_u32 5 (terminal_max_input_bytes l),
        limit_u32 6 (terminal_max_inline_query_bytes l),
        limit_u32 7 (terminal_max_query_records l),
        limit_u32 8 (terminal_max_hyperlink_uri_bytes l)])"

definition terminal_Limits_from_extensions :: "Extensions \<Rightarrow> error + terminal_Limits" where
  "terminal_Limits_from_extensions es =
     ebind (reject_unknown_required_extensions es [1, 2, 3, 4, 5, 6, 7, 8]
              ''unknown required Terminal family limit'') (\<lambda>_.
     ebind (read_limit_u32 es 1) (\<lambda>max_terminals_per_session.
     ebind (read_limit_u32 es 2) (\<lambda>max_views_per_session.
     ebind (read_limit_u32 es 3) (\<lambda>max_view_rows.
     ebind (read_limit_u32 es 4) (\<lambda>max_view_cols.
     ebind (read_limit_u32 es 5) (\<lambda>max_input_bytes.
     ebind (read_limit_u32 es 6) (\<lambda>max_inline_query_bytes.
     ebind (read_limit_u32 es 7) (\<lambda>max_query_records.
     ebind (read_limit_u32 es 8) (\<lambda>max_hyperlink_uri_bytes.
     let v = \<lparr>terminal_max_terminals_per_session = max_terminals_per_session,
              terminal_max_views_per_session = max_views_per_session,
              terminal_max_view_rows = max_view_rows, terminal_max_view_cols = max_view_cols,
              terminal_max_input_bytes = max_input_bytes,
              terminal_max_inline_query_bytes = max_inline_query_bytes,
              terminal_max_query_records = max_query_records,
              terminal_max_hyperlink_uri_bytes = max_hyperlink_uri_bytes\<rparr> in
     ebind (terminal_Limits_validate v) (\<lambda>_. Inr v))))))))))"

section \<open>Client\<close>

record client_Limits =
  client_max_published_clients :: u32
  client_max_active_subscriptions :: u32

definition client_HARD :: client_Limits where
  "client_HARD = \<lparr>client_max_published_clients = 4096, client_max_active_subscriptions = 4096\<rparr>"

definition client_Limits_validate :: "client_Limits \<Rightarrow> error + unit" where
  "client_Limits_validate l =
     (if client_max_published_clients l = 0
        \<or> client_max_published_clients client_HARD < client_max_published_clients l
        \<or> client_max_active_subscriptions l = 0
        \<or> client_max_active_subscriptions client_HARD < client_max_active_subscriptions l
      then Inl (Invalid ''Client family limit'') else Inr ())"

definition client_Limits_to_extensions :: "client_Limits \<Rightarrow> error + Extensions" where
  "client_Limits_to_extensions l =
     ebind (client_Limits_validate l) (\<lambda>_. Inr
       [limit_u32 1 (client_max_published_clients l),
        limit_u32 2 (client_max_active_subscriptions l)])"

definition client_Limits_from_extensions :: "Extensions \<Rightarrow> error + client_Limits" where
  "client_Limits_from_extensions es =
     ebind (reject_unknown_required_extensions es [1, 2]
              ''unknown required Client family limit'') (\<lambda>_.
     ebind (read_limit_u32 es 1) (\<lambda>max_published_clients.
     ebind (read_limit_u32 es 2) (\<lambda>max_active_subscriptions.
     let v = \<lparr>client_max_published_clients = max_published_clients,
              client_max_active_subscriptions = max_active_subscriptions\<rparr> in
     ebind (client_Limits_validate v) (\<lambda>_. Inr v))))"

section \<open>Surface\<close>

record surface_Limits =
  surface_max_surfaces_per_session :: u32
  surface_max_views_per_session :: u32
  surface_max_view_dimension :: u32
  surface_max_view_pixels :: u64
  surface_max_frame_rate :: u32
  surface_max_inline_cursor_bytes :: u32
  surface_max_remote_contacts :: u32
  surface_max_app_endpoints_per_session :: u32
  surface_max_app_endpoint_lifetime_ns :: u64

definition surface_HARD :: surface_Limits where
  "surface_HARD = \<lparr>surface_max_surfaces_per_session = 4096, surface_max_views_per_session = 4096,
     surface_max_view_dimension = 4096, surface_max_view_pixels = 16777216,
     surface_max_frame_rate = 240, surface_max_inline_cursor_bytes = 32768,
     surface_max_remote_contacts = 64, surface_max_app_endpoints_per_session = 1024,
     surface_max_app_endpoint_lifetime_ns = 86400000000000\<rparr>"

definition surface_Limits_validate :: "surface_Limits \<Rightarrow> error + unit" where
  "surface_Limits_validate l =
     (if \<not> valid_limit (surface_max_surfaces_per_session l) (surface_max_surfaces_per_session surface_HARD)
        \<or> \<not> valid_limit (surface_max_views_per_session l) (surface_max_views_per_session surface_HARD)
        \<or> \<not> valid_limit (surface_max_view_dimension l) (surface_max_view_dimension surface_HARD)
        \<or> surface_max_view_pixels l = 0
        \<or> surface_max_view_pixels surface_HARD < surface_max_view_pixels l
        \<or> \<not> valid_limit (surface_max_frame_rate l) (surface_max_frame_rate surface_HARD)
        \<or> \<not> valid_limit (surface_max_inline_cursor_bytes l) (surface_max_inline_cursor_bytes surface_HARD)
        \<or> \<not> valid_limit (surface_max_remote_contacts l) (surface_max_remote_contacts surface_HARD)
        \<or> \<not> valid_limit (surface_max_app_endpoints_per_session l) (surface_max_app_endpoints_per_session surface_HARD)
        \<or> surface_max_app_endpoint_lifetime_ns l = 0
        \<or> surface_max_app_endpoint_lifetime_ns surface_HARD < surface_max_app_endpoint_lifetime_ns l
      then Inl (Invalid ''Surface family limit'') else Inr ())"

definition surface_Limits_to_extensions :: "surface_Limits \<Rightarrow> error + Extensions" where
  "surface_Limits_to_extensions l =
     ebind (surface_Limits_validate l) (\<lambda>_. Inr
       [limit_u32 1 (surface_max_surfaces_per_session l),
        limit_u32 2 (surface_max_views_per_session l),
        limit_u32 3 (surface_max_view_dimension l),
        limit_u64 4 (surface_max_view_pixels l),
        limit_u32 5 (surface_max_frame_rate l),
        limit_u32 6 (surface_max_inline_cursor_bytes l),
        limit_u32 7 (surface_max_remote_contacts l),
        limit_u32 8 (surface_max_app_endpoints_per_session l),
        limit_u64 9 (surface_max_app_endpoint_lifetime_ns l)])"

definition surface_Limits_from_extensions :: "Extensions \<Rightarrow> error + surface_Limits" where
  "surface_Limits_from_extensions es =
     ebind (reject_unknown_required_extensions es [1, 2, 3, 4, 5, 6, 7, 8, 9]
              ''unknown required Surface family limit'') (\<lambda>_.
     ebind (read_limit_u32 es 1) (\<lambda>max_surfaces_per_session.
     ebind (read_limit_u32 es 2) (\<lambda>max_views_per_session.
     ebind (read_limit_u32 es 3) (\<lambda>max_view_dimension.
     ebind (read_limit_u64 es 4) (\<lambda>max_view_pixels.
     ebind (read_limit_u32 es 5) (\<lambda>max_frame_rate.
     ebind (read_limit_u32 es 6) (\<lambda>max_inline_cursor_bytes.
     ebind (read_limit_u32 es 7) (\<lambda>max_remote_contacts.
     ebind (read_limit_u32 es 8) (\<lambda>max_app_endpoints_per_session.
     ebind (read_limit_u64 es 9) (\<lambda>max_app_endpoint_lifetime_ns.
     let v = \<lparr>surface_max_surfaces_per_session = max_surfaces_per_session,
              surface_max_views_per_session = max_views_per_session,
              surface_max_view_dimension = max_view_dimension,
              surface_max_view_pixels = max_view_pixels, surface_max_frame_rate = max_frame_rate,
              surface_max_inline_cursor_bytes = max_inline_cursor_bytes,
              surface_max_remote_contacts = max_remote_contacts,
              surface_max_app_endpoints_per_session = max_app_endpoints_per_session,
              surface_max_app_endpoint_lifetime_ns = max_app_endpoint_lifetime_ns\<rparr> in
     ebind (surface_Limits_validate v) (\<lambda>_. Inr v)))))))))))"

section \<open>Selection\<close>

record selection_Limits =
  selection_max_inline_bytes :: u32
  selection_max_items :: u32
  selection_max_mime_bytes :: u32
  selection_max_item_name_bytes :: u32
  selection_max_active_drags_per_session :: u32
  selection_max_stages_per_session :: u32
  selection_max_staged_bytes_per_stage :: u64
  selection_max_mutation_replays :: u32

definition selection_HARD :: selection_Limits where
  "selection_HARD = \<lparr>selection_max_inline_bytes = 32768, selection_max_items = 256,
     selection_max_mime_bytes = 255, selection_max_item_name_bytes = 1024,
     selection_max_active_drags_per_session = 256,
     selection_max_stages_per_session = 256,
     selection_max_staged_bytes_per_stage = 1073741824,
     selection_max_mutation_replays = 65536\<rparr>"

definition selection_Limits_validate :: "selection_Limits \<Rightarrow> error + unit" where
  "selection_Limits_validate l =
     (if \<not> valid_limit (selection_max_inline_bytes l) (selection_max_inline_bytes selection_HARD)
        \<or> \<not> valid_limit (selection_max_items l) (selection_max_items selection_HARD)
        \<or> \<not> valid_limit (selection_max_mime_bytes l) (selection_max_mime_bytes selection_HARD)
        \<or> \<not> valid_limit (selection_max_item_name_bytes l) (selection_max_item_name_bytes selection_HARD)
        \<or> \<not> valid_limit (selection_max_active_drags_per_session l) (selection_max_active_drags_per_session selection_HARD)
        \<or> \<not> valid_limit (selection_max_stages_per_session l) (selection_max_stages_per_session selection_HARD)
        \<or> selection_max_staged_bytes_per_stage l = 0
        \<or> selection_max_staged_bytes_per_stage selection_HARD < selection_max_staged_bytes_per_stage l
        \<or> \<not> valid_limit (selection_max_mutation_replays l) (selection_max_mutation_replays selection_HARD)
      then Inl (Invalid ''Selection family limit'') else Inr ())"

definition selection_Limits_to_extensions :: "selection_Limits \<Rightarrow> error + Extensions" where
  "selection_Limits_to_extensions l =
     ebind (selection_Limits_validate l) (\<lambda>_. Inr
       [limit_u32 1 (selection_max_inline_bytes l),
        limit_u32 2 (selection_max_items l),
        limit_u32 3 (selection_max_mime_bytes l),
        limit_u32 4 (selection_max_item_name_bytes l),
        limit_u32 5 (selection_max_active_drags_per_session l),
        limit_u32 6 (selection_max_stages_per_session l),
        limit_u64 7 (selection_max_staged_bytes_per_stage l),
        limit_u32 8 (selection_max_mutation_replays l)])"

definition selection_Limits_from_extensions :: "Extensions \<Rightarrow> error + selection_Limits" where
  "selection_Limits_from_extensions es =
     ebind (reject_unknown_required_extensions es [1, 2, 3, 4, 5, 6, 7, 8]
              ''unknown required Selection family limit'') (\<lambda>_.
     ebind (read_limit_u32 es 1) (\<lambda>max_inline_bytes.
     ebind (read_limit_u32 es 2) (\<lambda>max_items.
     ebind (read_limit_u32 es 3) (\<lambda>max_mime_bytes.
     ebind (read_limit_u32 es 4) (\<lambda>max_item_name_bytes.
     ebind (read_limit_u32 es 5) (\<lambda>max_active_drags_per_session.
     ebind (read_limit_u32 es 6) (\<lambda>max_stages_per_session.
     ebind (read_limit_u64 es 7) (\<lambda>max_staged_bytes_per_stage.
     ebind (read_limit_u32 es 8) (\<lambda>max_mutation_replays.
     let v = \<lparr>selection_max_inline_bytes = max_inline_bytes, selection_max_items = max_items,
              selection_max_mime_bytes = max_mime_bytes,
              selection_max_item_name_bytes = max_item_name_bytes,
              selection_max_active_drags_per_session = max_active_drags_per_session,
              selection_max_stages_per_session = max_stages_per_session,
              selection_max_staged_bytes_per_stage = max_staged_bytes_per_stage,
              selection_max_mutation_replays = max_mutation_replays\<rparr> in
     ebind (selection_Limits_validate v) (\<lambda>_. Inr v))))))))))"

section \<open>Desktop\<close>

record desktop_Limits =
  desktop_max_tray_items :: u32
  desktop_max_notifications :: u32
  desktop_max_menu_nodes :: u32
  desktop_max_notification_actions :: u32
  desktop_max_inline_menu_bytes :: u32
  desktop_max_inline_asset_bytes :: u32

definition desktop_HARD :: desktop_Limits where
  "desktop_HARD = \<lparr>desktop_max_tray_items = 1024, desktop_max_notifications = 4096,
     desktop_max_menu_nodes = 4096, desktop_max_notification_actions = 256,
     desktop_max_inline_menu_bytes = 32768, desktop_max_inline_asset_bytes = 32768\<rparr>"

definition desktop_Limits_validate :: "desktop_Limits \<Rightarrow> error + unit" where
  "desktop_Limits_validate l =
     (if \<not> valid_limit (desktop_max_tray_items l) (desktop_max_tray_items desktop_HARD)
        \<or> \<not> valid_limit (desktop_max_notifications l) (desktop_max_notifications desktop_HARD)
        \<or> \<not> valid_limit (desktop_max_menu_nodes l) (desktop_max_menu_nodes desktop_HARD)
        \<or> \<not> valid_limit (desktop_max_notification_actions l) (desktop_max_notification_actions desktop_HARD)
        \<or> \<not> valid_limit (desktop_max_inline_menu_bytes l) (desktop_max_inline_menu_bytes desktop_HARD)
        \<or> \<not> valid_limit (desktop_max_inline_asset_bytes l) (desktop_max_inline_asset_bytes desktop_HARD)
      then Inl (Invalid ''Desktop family limit'') else Inr ())"

definition desktop_Limits_to_extensions :: "desktop_Limits \<Rightarrow> error + Extensions" where
  "desktop_Limits_to_extensions l =
     ebind (desktop_Limits_validate l) (\<lambda>_. Inr
       [limit_u32 1 (desktop_max_tray_items l),
        limit_u32 2 (desktop_max_notifications l),
        limit_u32 3 (desktop_max_menu_nodes l),
        limit_u32 4 (desktop_max_notification_actions l),
        limit_u32 5 (desktop_max_inline_menu_bytes l),
        limit_u32 6 (desktop_max_inline_asset_bytes l)])"

definition desktop_Limits_from_extensions :: "Extensions \<Rightarrow> error + desktop_Limits" where
  "desktop_Limits_from_extensions es =
     ebind (reject_unknown_required_extensions es [1, 2, 3, 4, 5, 6]
              ''unknown required Desktop family limit'') (\<lambda>_.
     ebind (read_limit_u32 es 1) (\<lambda>max_tray_items.
     ebind (read_limit_u32 es 2) (\<lambda>max_notifications.
     ebind (read_limit_u32 es 3) (\<lambda>max_menu_nodes.
     ebind (read_limit_u32 es 4) (\<lambda>max_notification_actions.
     ebind (read_limit_u32 es 5) (\<lambda>max_inline_menu_bytes.
     ebind (read_limit_u32 es 6) (\<lambda>max_inline_asset_bytes.
     let v = \<lparr>desktop_max_tray_items = max_tray_items,
              desktop_max_notifications = max_notifications,
              desktop_max_menu_nodes = max_menu_nodes,
              desktop_max_notification_actions = max_notification_actions,
              desktop_max_inline_menu_bytes = max_inline_menu_bytes,
              desktop_max_inline_asset_bytes = max_inline_asset_bytes\<rparr> in
     ebind (desktop_Limits_validate v) (\<lambda>_. Inr v))))))))"

section \<open>Media\<close>

record media_Limits =
  media_max_devices :: u32
  media_max_leases_per_session :: u32
  media_max_streams_per_session :: u32
  media_max_portals_per_session :: u32
  media_max_players :: u32
  media_max_formats :: u32
  media_max_inline_metadata_bytes :: u32
  media_max_inline_asset_bytes :: u32
  media_max_portal_metadata_bytes :: u32
  media_max_portal_string_bytes :: u32
  media_max_portal_body_bytes :: u32
  media_max_portal_choices :: u32
  media_max_portal_choice_options :: u32
  media_max_screencast_candidates :: u32

definition media_HARD :: media_Limits where
  "media_HARD = \<lparr>media_max_devices = 256, media_max_leases_per_session = 64,
     media_max_streams_per_session = 256, media_max_portals_per_session = 64,
     media_max_players = 1024, media_max_formats = 64,
     media_max_inline_metadata_bytes = 32768, media_max_inline_asset_bytes = 32768,
     media_max_portal_metadata_bytes = 32768, media_max_portal_string_bytes = 4096,
     media_max_portal_body_bytes = 16384, media_max_portal_choices = 16,
     media_max_portal_choice_options = 16, media_max_screencast_candidates = 64\<rparr>"

definition media_Limits_validate :: "media_Limits \<Rightarrow> error + unit" where
  "media_Limits_validate l =
     (if \<not> valid_limit (media_max_devices l) (media_max_devices media_HARD)
        \<or> \<not> valid_limit (media_max_leases_per_session l) (media_max_leases_per_session media_HARD)
        \<or> \<not> valid_limit (media_max_streams_per_session l) (media_max_streams_per_session media_HARD)
        \<or> \<not> valid_limit (media_max_portals_per_session l) (media_max_portals_per_session media_HARD)
        \<or> \<not> valid_limit (media_max_players l) (media_max_players media_HARD)
        \<or> \<not> valid_limit (media_max_formats l) (media_max_formats media_HARD)
        \<or> \<not> valid_limit (media_max_inline_metadata_bytes l) (media_max_inline_metadata_bytes media_HARD)
        \<or> \<not> valid_limit (media_max_inline_asset_bytes l) (media_max_inline_asset_bytes media_HARD)
        \<or> \<not> valid_limit (media_max_portal_metadata_bytes l) (media_max_portal_metadata_bytes media_HARD)
        \<or> \<not> valid_limit (media_max_portal_string_bytes l) (media_max_portal_string_bytes media_HARD)
        \<or> \<not> valid_limit (media_max_portal_body_bytes l) (media_max_portal_body_bytes media_HARD)
        \<or> \<not> valid_limit (media_max_portal_choices l) (media_max_portal_choices media_HARD)
        \<or> \<not> valid_limit (media_max_portal_choice_options l) (media_max_portal_choice_options media_HARD)
        \<or> \<not> valid_limit (media_max_screencast_candidates l) (media_max_screencast_candidates media_HARD)
      then Inl (Invalid ''Media family limit'') else Inr ())"

definition media_Limits_to_extensions :: "media_Limits \<Rightarrow> error + Extensions" where
  "media_Limits_to_extensions l =
     ebind (media_Limits_validate l) (\<lambda>_. Inr
       [limit_u32 1 (media_max_devices l),
        limit_u32 2 (media_max_leases_per_session l),
        limit_u32 3 (media_max_streams_per_session l),
        limit_u32 4 (media_max_portals_per_session l),
        limit_u32 5 (media_max_players l),
        limit_u32 6 (media_max_formats l),
        limit_u32 7 (media_max_inline_metadata_bytes l),
        limit_u32 8 (media_max_inline_asset_bytes l),
        limit_u32 9 (media_max_portal_metadata_bytes l),
        limit_u32 10 (media_max_portal_string_bytes l),
        limit_u32 11 (media_max_portal_body_bytes l),
        limit_u32 12 (media_max_portal_choices l),
        limit_u32 13 (media_max_portal_choice_options l),
        limit_u32 14 (media_max_screencast_candidates l)])"

definition media_Limits_from_extensions :: "Extensions \<Rightarrow> error + media_Limits" where
  "media_Limits_from_extensions es =
     ebind (reject_unknown_required_extensions es [1, 2, 3, 4, 5, 6, 7, 8, 9, 10, 11, 12, 13, 14]
              ''unknown required Media family limit'') (\<lambda>_.
     ebind (read_limit_u32 es 1) (\<lambda>max_devices.
     ebind (read_limit_u32 es 2) (\<lambda>max_leases_per_session.
     ebind (read_limit_u32 es 3) (\<lambda>max_streams_per_session.
     ebind (read_limit_u32 es 4) (\<lambda>max_portals_per_session.
     ebind (read_limit_u32 es 5) (\<lambda>max_players.
     ebind (read_limit_u32 es 6) (\<lambda>max_formats.
     ebind (read_limit_u32 es 7) (\<lambda>max_inline_metadata_bytes.
     ebind (read_limit_u32 es 8) (\<lambda>max_inline_asset_bytes.
     ebind (read_limit_u32 es 9) (\<lambda>max_portal_metadata_bytes.
     ebind (read_limit_u32 es 10) (\<lambda>max_portal_string_bytes.
     ebind (read_limit_u32 es 11) (\<lambda>max_portal_body_bytes.
     ebind (read_limit_u32 es 12) (\<lambda>max_portal_choices.
     ebind (read_limit_u32 es 13) (\<lambda>max_portal_choice_options.
     ebind (read_limit_u32 es 14) (\<lambda>max_screencast_candidates.
     let v = \<lparr>media_max_devices = max_devices,
              media_max_leases_per_session = max_leases_per_session,
              media_max_streams_per_session = max_streams_per_session,
              media_max_portals_per_session = max_portals_per_session,
              media_max_players = max_players, media_max_formats = max_formats,
              media_max_inline_metadata_bytes = max_inline_metadata_bytes,
              media_max_inline_asset_bytes = max_inline_asset_bytes,
              media_max_portal_metadata_bytes = max_portal_metadata_bytes,
              media_max_portal_string_bytes = max_portal_string_bytes,
              media_max_portal_body_bytes = max_portal_body_bytes,
              media_max_portal_choices = max_portal_choices,
              media_max_portal_choice_options = max_portal_choice_options,
              media_max_screencast_candidates = max_screencast_candidates\<rparr> in
     ebind (media_Limits_validate v) (\<lambda>_. Inr v))))))))))))))))"

lemma relay_from_to:
  "relay_Limits_to_extensions l = Inr es \<Longrightarrow> relay_Limits_from_extensions es = Inr l"
  by (cases l) (auto simp: relay_Limits_to_extensions_def relay_Limits_from_extensions_def
      limit_block enc_iff Let_def)

lemma relay_from_known:
  "Extensions_validate es = Inr () \<Longrightarrow> (\<And>e. e \<in> set es \<Longrightarrow> e_required e \<Longrightarrow> e_tag e \<in> set [1, 2, 3, 4, 5, 6])
     \<Longrightarrow> relay_Limits_from_extensions (restrict_tags [1, 2, 3, 4, 5, 6] es) = relay_Limits_from_extensions es"
  by (simp add: relay_Limits_from_extensions_def reject_restricted read_restricted)

lemma relay_from_valid:
  "relay_Limits_from_extensions es = Inr l \<Longrightarrow>
     relay_Limits_validate l = Inr () \<and> Extensions_validate es = Inr ()"
  by (clarsimp simp: relay_Limits_from_extensions_def Let_def enc_iff reject_Inr_iff)

lemma relay_to_valid:
  "(\<exists>es. relay_Limits_to_extensions l = Inr es) \<longleftrightarrow> relay_Limits_validate l = Inr ()"
  by (simp add: relay_Limits_to_extensions_def enc_iff Let_def)

lemma relay_to_optional:
  "relay_Limits_to_extensions l = Inr es \<Longrightarrow> list_all (\<lambda>e. \<not> e_required e) es"
  by (auto simp: relay_Limits_to_extensions_def enc_iff)

interpretation relay: family_limits relay_Limits_validate relay_Limits_to_extensions
  relay_Limits_from_extensions "[1, 2, 3, 4, 5, 6]"
  using relay_to_valid by unfold_locales (blast intro: relay_from_to relay_from_known relay_to_optional dest: relay_from_valid)+

lemma font_from_to:
  "font_Limits_to_extensions l = Inr es \<Longrightarrow> font_Limits_from_extensions es = Inr l"
  by (cases l) (auto simp: font_Limits_to_extensions_def font_Limits_from_extensions_def
      limit_block enc_iff Let_def)

lemma font_from_known:
  "Extensions_validate es = Inr () \<Longrightarrow> (\<And>e. e \<in> set es \<Longrightarrow> e_required e \<Longrightarrow> e_tag e \<in> set [1, 2, 3, 4, 5, 6, 7])
     \<Longrightarrow> font_Limits_from_extensions (restrict_tags [1, 2, 3, 4, 5, 6, 7] es) = font_Limits_from_extensions es"
  by (simp add: font_Limits_from_extensions_def reject_restricted read_restricted)

lemma font_from_valid:
  "font_Limits_from_extensions es = Inr l \<Longrightarrow>
     font_Limits_validate l = Inr () \<and> Extensions_validate es = Inr ()"
  by (clarsimp simp: font_Limits_from_extensions_def Let_def enc_iff reject_Inr_iff)

lemma font_to_valid:
  "(\<exists>es. font_Limits_to_extensions l = Inr es) \<longleftrightarrow> font_Limits_validate l = Inr ()"
  by (simp add: font_Limits_to_extensions_def enc_iff Let_def)

lemma font_to_optional:
  "font_Limits_to_extensions l = Inr es \<Longrightarrow> list_all (\<lambda>e. \<not> e_required e) es"
  by (auto simp: font_Limits_to_extensions_def enc_iff)

interpretation font: family_limits font_Limits_validate font_Limits_to_extensions
  font_Limits_from_extensions "[1, 2, 3, 4, 5, 6, 7]"
  using font_to_valid by unfold_locales (blast intro: font_from_to font_from_known font_to_optional dest: font_from_valid)+

lemma terminal_from_to:
  "terminal_Limits_to_extensions l = Inr es \<Longrightarrow> terminal_Limits_from_extensions es = Inr l"
  by (cases l) (auto simp: terminal_Limits_to_extensions_def terminal_Limits_from_extensions_def
      limit_block enc_iff Let_def)

lemma terminal_from_known:
  "Extensions_validate es = Inr () \<Longrightarrow> (\<And>e. e \<in> set es \<Longrightarrow> e_required e \<Longrightarrow> e_tag e \<in> set [1, 2, 3, 4, 5, 6, 7, 8])
     \<Longrightarrow> terminal_Limits_from_extensions (restrict_tags [1, 2, 3, 4, 5, 6, 7, 8] es) = terminal_Limits_from_extensions es"
  by (simp add: terminal_Limits_from_extensions_def reject_restricted read_restricted)

lemma terminal_from_valid:
  "terminal_Limits_from_extensions es = Inr l \<Longrightarrow>
     terminal_Limits_validate l = Inr () \<and> Extensions_validate es = Inr ()"
  by (clarsimp simp: terminal_Limits_from_extensions_def Let_def enc_iff reject_Inr_iff)

lemma terminal_to_valid:
  "(\<exists>es. terminal_Limits_to_extensions l = Inr es) \<longleftrightarrow> terminal_Limits_validate l = Inr ()"
  by (simp add: terminal_Limits_to_extensions_def enc_iff Let_def)

lemma terminal_to_optional:
  "terminal_Limits_to_extensions l = Inr es \<Longrightarrow> list_all (\<lambda>e. \<not> e_required e) es"
  by (auto simp: terminal_Limits_to_extensions_def enc_iff)

interpretation terminal: family_limits terminal_Limits_validate terminal_Limits_to_extensions
  terminal_Limits_from_extensions "[1, 2, 3, 4, 5, 6, 7, 8]"
  using terminal_to_valid by unfold_locales (blast intro: terminal_from_to terminal_from_known terminal_to_optional dest: terminal_from_valid)+

lemma client_from_to:
  "client_Limits_to_extensions l = Inr es \<Longrightarrow> client_Limits_from_extensions es = Inr l"
  by (cases l) (auto simp: client_Limits_to_extensions_def client_Limits_from_extensions_def
      limit_block enc_iff Let_def)

lemma client_from_known:
  "Extensions_validate es = Inr () \<Longrightarrow> (\<And>e. e \<in> set es \<Longrightarrow> e_required e \<Longrightarrow> e_tag e \<in> set [1, 2])
     \<Longrightarrow> client_Limits_from_extensions (restrict_tags [1, 2] es) = client_Limits_from_extensions es"
  by (simp add: client_Limits_from_extensions_def reject_restricted read_restricted)

lemma client_from_valid:
  "client_Limits_from_extensions es = Inr l \<Longrightarrow>
     client_Limits_validate l = Inr () \<and> Extensions_validate es = Inr ()"
  by (clarsimp simp: client_Limits_from_extensions_def Let_def enc_iff reject_Inr_iff)

lemma client_to_valid:
  "(\<exists>es. client_Limits_to_extensions l = Inr es) \<longleftrightarrow> client_Limits_validate l = Inr ()"
  by (simp add: client_Limits_to_extensions_def enc_iff Let_def)

lemma client_to_optional:
  "client_Limits_to_extensions l = Inr es \<Longrightarrow> list_all (\<lambda>e. \<not> e_required e) es"
  by (auto simp: client_Limits_to_extensions_def enc_iff)

interpretation client: family_limits client_Limits_validate client_Limits_to_extensions
  client_Limits_from_extensions "[1, 2]"
  using client_to_valid by unfold_locales (blast intro: client_from_to client_from_known client_to_optional dest: client_from_valid)+

lemma surface_from_to:
  "surface_Limits_to_extensions l = Inr es \<Longrightarrow> surface_Limits_from_extensions es = Inr l"
  by (cases l) (auto simp: surface_Limits_to_extensions_def surface_Limits_from_extensions_def
      limit_block enc_iff Let_def)

lemma surface_from_known:
  "Extensions_validate es = Inr () \<Longrightarrow> (\<And>e. e \<in> set es \<Longrightarrow> e_required e \<Longrightarrow> e_tag e \<in> set [1, 2, 3, 4, 5, 6, 7, 8, 9])
     \<Longrightarrow> surface_Limits_from_extensions (restrict_tags [1, 2, 3, 4, 5, 6, 7, 8, 9] es) = surface_Limits_from_extensions es"
  by (simp add: surface_Limits_from_extensions_def reject_restricted read_restricted)

lemma surface_from_valid:
  "surface_Limits_from_extensions es = Inr l \<Longrightarrow>
     surface_Limits_validate l = Inr () \<and> Extensions_validate es = Inr ()"
  by (clarsimp simp: surface_Limits_from_extensions_def Let_def enc_iff reject_Inr_iff)

lemma surface_to_valid:
  "(\<exists>es. surface_Limits_to_extensions l = Inr es) \<longleftrightarrow> surface_Limits_validate l = Inr ()"
  by (simp add: surface_Limits_to_extensions_def enc_iff Let_def)

lemma surface_to_optional:
  "surface_Limits_to_extensions l = Inr es \<Longrightarrow> list_all (\<lambda>e. \<not> e_required e) es"
  by (auto simp: surface_Limits_to_extensions_def enc_iff)

interpretation surface: family_limits surface_Limits_validate surface_Limits_to_extensions
  surface_Limits_from_extensions "[1, 2, 3, 4, 5, 6, 7, 8, 9]"
  using surface_to_valid by unfold_locales (blast intro: surface_from_to surface_from_known surface_to_optional dest: surface_from_valid)+

lemma selection_from_to:
  "selection_Limits_to_extensions l = Inr es \<Longrightarrow> selection_Limits_from_extensions es = Inr l"
  by (cases l) (auto simp: selection_Limits_to_extensions_def selection_Limits_from_extensions_def
      limit_block enc_iff Let_def)

lemma selection_from_known:
  "Extensions_validate es = Inr () \<Longrightarrow> (\<And>e. e \<in> set es \<Longrightarrow> e_required e \<Longrightarrow> e_tag e \<in> set [1, 2, 3, 4, 5, 6, 7, 8])
     \<Longrightarrow> selection_Limits_from_extensions (restrict_tags [1, 2, 3, 4, 5, 6, 7, 8] es) = selection_Limits_from_extensions es"
  by (simp add: selection_Limits_from_extensions_def reject_restricted read_restricted)

lemma selection_from_valid:
  "selection_Limits_from_extensions es = Inr l \<Longrightarrow>
     selection_Limits_validate l = Inr () \<and> Extensions_validate es = Inr ()"
  by (clarsimp simp: selection_Limits_from_extensions_def Let_def enc_iff reject_Inr_iff)

lemma selection_to_valid:
  "(\<exists>es. selection_Limits_to_extensions l = Inr es) \<longleftrightarrow> selection_Limits_validate l = Inr ()"
  by (simp add: selection_Limits_to_extensions_def enc_iff Let_def)

lemma selection_to_optional:
  "selection_Limits_to_extensions l = Inr es \<Longrightarrow> list_all (\<lambda>e. \<not> e_required e) es"
  by (auto simp: selection_Limits_to_extensions_def enc_iff)

interpretation selection: family_limits selection_Limits_validate selection_Limits_to_extensions
  selection_Limits_from_extensions "[1, 2, 3, 4, 5, 6, 7, 8]"
  using selection_to_valid by unfold_locales (blast intro: selection_from_to selection_from_known selection_to_optional dest: selection_from_valid)+

lemma desktop_from_to:
  "desktop_Limits_to_extensions l = Inr es \<Longrightarrow> desktop_Limits_from_extensions es = Inr l"
  by (cases l) (auto simp: desktop_Limits_to_extensions_def desktop_Limits_from_extensions_def
      limit_block enc_iff Let_def)

lemma desktop_from_known:
  "Extensions_validate es = Inr () \<Longrightarrow> (\<And>e. e \<in> set es \<Longrightarrow> e_required e \<Longrightarrow> e_tag e \<in> set [1, 2, 3, 4, 5, 6])
     \<Longrightarrow> desktop_Limits_from_extensions (restrict_tags [1, 2, 3, 4, 5, 6] es) = desktop_Limits_from_extensions es"
  by (simp add: desktop_Limits_from_extensions_def reject_restricted read_restricted)

lemma desktop_from_valid:
  "desktop_Limits_from_extensions es = Inr l \<Longrightarrow>
     desktop_Limits_validate l = Inr () \<and> Extensions_validate es = Inr ()"
  by (clarsimp simp: desktop_Limits_from_extensions_def Let_def enc_iff reject_Inr_iff)

lemma desktop_to_valid:
  "(\<exists>es. desktop_Limits_to_extensions l = Inr es) \<longleftrightarrow> desktop_Limits_validate l = Inr ()"
  by (simp add: desktop_Limits_to_extensions_def enc_iff Let_def)

lemma desktop_to_optional:
  "desktop_Limits_to_extensions l = Inr es \<Longrightarrow> list_all (\<lambda>e. \<not> e_required e) es"
  by (auto simp: desktop_Limits_to_extensions_def enc_iff)

interpretation desktop: family_limits desktop_Limits_validate desktop_Limits_to_extensions
  desktop_Limits_from_extensions "[1, 2, 3, 4, 5, 6]"
  using desktop_to_valid by unfold_locales (blast intro: desktop_from_to desktop_from_known desktop_to_optional dest: desktop_from_valid)+

lemma media_from_to:
  "media_Limits_to_extensions l = Inr es \<Longrightarrow> media_Limits_from_extensions es = Inr l"
  by (cases l) (auto simp: media_Limits_to_extensions_def media_Limits_from_extensions_def
      limit_block enc_iff Let_def)

lemma media_from_known:
  "Extensions_validate es = Inr () \<Longrightarrow> (\<And>e. e \<in> set es \<Longrightarrow> e_required e \<Longrightarrow> e_tag e \<in> set [1, 2, 3, 4, 5, 6, 7, 8, 9, 10, 11, 12, 13, 14])
     \<Longrightarrow> media_Limits_from_extensions (restrict_tags [1, 2, 3, 4, 5, 6, 7, 8, 9, 10, 11, 12, 13, 14] es) = media_Limits_from_extensions es"
  by (simp add: media_Limits_from_extensions_def reject_restricted read_restricted)

lemma media_from_valid:
  "media_Limits_from_extensions es = Inr l \<Longrightarrow>
     media_Limits_validate l = Inr () \<and> Extensions_validate es = Inr ()"
  by (clarsimp simp: media_Limits_from_extensions_def Let_def enc_iff reject_Inr_iff)

lemma media_to_valid:
  "(\<exists>es. media_Limits_to_extensions l = Inr es) \<longleftrightarrow> media_Limits_validate l = Inr ()"
  by (simp add: media_Limits_to_extensions_def enc_iff Let_def)

lemma media_to_optional:
  "media_Limits_to_extensions l = Inr es \<Longrightarrow> list_all (\<lambda>e. \<not> e_required e) es"
  by (auto simp: media_Limits_to_extensions_def enc_iff)

interpretation media: family_limits media_Limits_validate media_Limits_to_extensions
  media_Limits_from_extensions "[1, 2, 3, 4, 5, 6, 7, 8, 9, 10, 11, 12, 13, 14]"
  using media_to_valid by unfold_locales (blast intro: media_from_to media_from_known media_to_optional dest: media_from_valid)+

end
