(* ===== verification/Limits_Host.thy ===== *)
theory Limits_Host
  imports Family_Limits
begin

text \<open>
  The limit blocks of the fs, git, lsp, kv, net, channel, extension, events and env
  families.  FS carries an optional capability word; the other blocks are flat lists of required
  values.
\<close>

section \<open>FS\<close>

record fs_Limits =
  fs_max_roots_per_session :: u32
  fs_max_watches_per_root :: u32
  fs_max_path_components :: u32
  fs_max_component_bytes :: u32
  fs_max_path_bytes :: u32
  fs_max_inline_bytes :: u32
  fs_max_query_records :: u32
  fs_max_query_bytes :: u32
  fs_max_stages_per_session :: u32
  fs_max_staged_bytes :: u64
  fs_max_batch_items :: u32
  fs_max_query_concurrency :: u32
  fs_max_catalog_entries :: u32
  fs_capabilities :: u32

definition fs_HARD :: fs_Limits where
  "fs_HARD = \<lparr>fs_max_roots_per_session = 64, fs_max_watches_per_root = 32,
     fs_max_path_components = 1024, fs_max_component_bytes = 4096,
     fs_max_path_bytes = 65535, fs_max_inline_bytes = 32768, fs_max_query_records = 8192,
     fs_max_query_bytes = 4194304, fs_max_stages_per_session = 16,
     fs_max_staged_bytes = 67108864, fs_max_batch_items = 256,
     fs_max_query_concurrency = 8, fs_max_catalog_entries = 1000000, fs_capabilities = 127\<rparr>"

definition fs_Limits_validate :: "fs_Limits \<Rightarrow> error + unit" where
  "fs_Limits_validate l =
     (if \<not> valid_limit (fs_max_roots_per_session l) (fs_max_roots_per_session fs_HARD)
        \<or> \<not> valid_limit (fs_max_watches_per_root l) (fs_max_watches_per_root fs_HARD)
        \<or> \<not> valid_limit (fs_max_path_components l) (fs_max_path_components fs_HARD)
        \<or> \<not> valid_limit (fs_max_component_bytes l) (fs_max_component_bytes fs_HARD)
        \<or> \<not> valid_limit (fs_max_path_bytes l) (fs_max_path_bytes fs_HARD)
        \<or> \<not> valid_limit (fs_max_inline_bytes l) (fs_max_inline_bytes fs_HARD)
        \<or> \<not> valid_limit (fs_max_query_records l) (fs_max_query_records fs_HARD)
        \<or> \<not> valid_limit (fs_max_query_bytes l) (fs_max_query_bytes fs_HARD)
        \<or> \<not> valid_limit (fs_max_stages_per_session l) (fs_max_stages_per_session fs_HARD)
        \<or> \<not> valid_limit (fs_max_batch_items l) (fs_max_batch_items fs_HARD)
        \<or> \<not> valid_limit (fs_max_query_concurrency l) (fs_max_query_concurrency fs_HARD)
        \<or> \<not> valid_limit (fs_max_catalog_entries l) (fs_max_catalog_entries fs_HARD)
        \<or> fs_max_staged_bytes l = 0
        \<or> fs_max_staged_bytes fs_HARD < fs_max_staged_bytes l
      then Inl (Invalid ''FS family limit'') else Inr ())"

definition fs_Limits_to_extensions :: "fs_Limits \<Rightarrow> error + Extensions" where
  "fs_Limits_to_extensions l =
     ebind (fs_Limits_validate l) (\<lambda>_. Inr
       ([limit_u32 1 (fs_max_roots_per_session l),
         limit_u32 2 (fs_max_watches_per_root l),
         limit_u32 3 (fs_max_path_components l),
         limit_u32 4 (fs_max_component_bytes l),
         limit_u32 5 (fs_max_path_bytes l),
         limit_u32 6 (fs_max_inline_bytes l),
         limit_u32 7 (fs_max_query_records l),
         limit_u32 8 (fs_max_query_bytes l),
         limit_u32 9 (fs_max_stages_per_session l),
         limit_u64 10 (fs_max_staged_bytes l),
         limit_u32 11 (fs_max_batch_items l),
         limit_u32 12 (fs_max_query_concurrency l),
         limit_u32 13 (fs_max_catalog_entries l)]
        @ (if fs_capabilities l \<noteq> 0 then [limit_u32 14 (fs_capabilities l)] else [])))"

definition fs_Limits_from_extensions :: "Extensions \<Rightarrow> error + fs_Limits" where
  "fs_Limits_from_extensions es =
     ebind (reject_unknown_required_extensions es [1, 2, 3, 4, 5, 6, 7, 8, 9, 10, 11, 12, 13, 14]
              ''unknown required FS family limit'') (\<lambda>_.
     ebind (read_limit_u32 es 1) (\<lambda>max_roots_per_session.
     ebind (read_limit_u32 es 2) (\<lambda>max_watches_per_root.
     ebind (read_limit_u32 es 3) (\<lambda>max_path_components.
     ebind (read_limit_u32 es 4) (\<lambda>max_component_bytes.
     ebind (read_limit_u32 es 5) (\<lambda>max_path_bytes.
     ebind (read_limit_u32 es 6) (\<lambda>max_inline_bytes.
     ebind (read_limit_u32 es 7) (\<lambda>max_query_records.
     ebind (read_limit_u32 es 8) (\<lambda>max_query_bytes.
     ebind (read_limit_u32 es 9) (\<lambda>max_stages_per_session.
     ebind (read_limit_u64 es 10) (\<lambda>max_staged_bytes.
     ebind (read_limit_u32 es 11) (\<lambda>max_batch_items.
     ebind (read_limit_u32 es 12) (\<lambda>max_query_concurrency.
     ebind (read_limit_u32 es 13) (\<lambda>max_catalog_entries.
     ebind (if list_ex (\<lambda>e. e_tag e = 14) es then read_limit_u32 es 14 else Inr 0) (\<lambda>capabilities.
     let v = \<lparr>fs_max_roots_per_session = max_roots_per_session,
              fs_max_watches_per_root = max_watches_per_root,
              fs_max_path_components = max_path_components,
              fs_max_component_bytes = max_component_bytes,
              fs_max_path_bytes = max_path_bytes, fs_max_inline_bytes = max_inline_bytes,
              fs_max_query_records = max_query_records, fs_max_query_bytes = max_query_bytes,
              fs_max_stages_per_session = max_stages_per_session,
              fs_max_staged_bytes = max_staged_bytes, fs_max_batch_items = max_batch_items,
              fs_max_query_concurrency = max_query_concurrency,
              fs_max_catalog_entries = max_catalog_entries, fs_capabilities = capabilities\<rparr> in
     ebind (fs_Limits_validate v) (\<lambda>_. Inr v))))))))))))))))"

section \<open>Git\<close>

record git_Limits =
  git_max_repositories_per_session :: u32
  git_max_watches_per_repository :: u32
  git_max_watched_queries_per_repository :: u32
  git_max_query_records :: u32
  git_max_query_bytes :: u32
  git_max_cursor_bytes :: u32
  git_max_spec_bytes :: u32
  git_max_inline_bytes :: u32
  git_max_concurrent_queries :: u32
  git_max_concurrent_fetches :: u32

definition git_HARD :: git_Limits where
  "git_HARD = \<lparr>git_max_repositories_per_session = 64, git_max_watches_per_repository = 32,
     git_max_watched_queries_per_repository = 16, git_max_query_records = 4096,
     git_max_query_bytes = 4194304, git_max_cursor_bytes = 4096,
     git_max_spec_bytes = 4096, git_max_inline_bytes = 32768,
     git_max_concurrent_queries = 8, git_max_concurrent_fetches = 4\<rparr>"

definition git_Limits_validate :: "git_Limits \<Rightarrow> error + unit" where
  "git_Limits_validate l =
     (if \<not> valid_limit (git_max_repositories_per_session l) (git_max_repositories_per_session git_HARD)
        \<or> \<not> valid_limit (git_max_watches_per_repository l) (git_max_watches_per_repository git_HARD)
        \<or> \<not> valid_limit (git_max_watched_queries_per_repository l) (git_max_watched_queries_per_repository git_HARD)
        \<or> \<not> valid_limit (git_max_query_records l) (git_max_query_records git_HARD)
        \<or> \<not> valid_limit (git_max_query_bytes l) (git_max_query_bytes git_HARD)
        \<or> \<not> valid_limit (git_max_cursor_bytes l) (git_max_cursor_bytes git_HARD)
        \<or> \<not> valid_limit (git_max_spec_bytes l) (git_max_spec_bytes git_HARD)
        \<or> \<not> valid_limit (git_max_inline_bytes l) (git_max_inline_bytes git_HARD)
        \<or> \<not> valid_limit (git_max_concurrent_queries l) (git_max_concurrent_queries git_HARD)
        \<or> \<not> valid_limit (git_max_concurrent_fetches l) (git_max_concurrent_fetches git_HARD)
      then Inl (Invalid ''Git family limit'') else Inr ())"

definition git_Limits_to_extensions :: "git_Limits \<Rightarrow> error + Extensions" where
  "git_Limits_to_extensions l =
     ebind (git_Limits_validate l) (\<lambda>_. Inr
       [limit_u32 1 (git_max_repositories_per_session l),
        limit_u32 2 (git_max_watches_per_repository l),
        limit_u32 3 (git_max_watched_queries_per_repository l),
        limit_u32 4 (git_max_query_records l),
        limit_u32 5 (git_max_query_bytes l),
        limit_u32 6 (git_max_cursor_bytes l),
        limit_u32 7 (git_max_spec_bytes l),
        limit_u32 8 (git_max_inline_bytes l),
        limit_u32 9 (git_max_concurrent_queries l),
        limit_u32 10 (git_max_concurrent_fetches l)])"

definition git_Limits_from_extensions :: "Extensions \<Rightarrow> error + git_Limits" where
  "git_Limits_from_extensions es =
     ebind (reject_unknown_required_extensions es [1, 2, 3, 4, 5, 6, 7, 8, 9, 10]
              ''unknown required Git extension'') (\<lambda>_.
     ebind (read_limit_u32 es 1) (\<lambda>max_repositories_per_session.
     ebind (read_limit_u32 es 2) (\<lambda>max_watches_per_repository.
     ebind (read_limit_u32 es 3) (\<lambda>max_watched_queries_per_repository.
     ebind (read_limit_u32 es 4) (\<lambda>max_query_records.
     ebind (read_limit_u32 es 5) (\<lambda>max_query_bytes.
     ebind (read_limit_u32 es 6) (\<lambda>max_cursor_bytes.
     ebind (read_limit_u32 es 7) (\<lambda>max_spec_bytes.
     ebind (read_limit_u32 es 8) (\<lambda>max_inline_bytes.
     ebind (read_limit_u32 es 9) (\<lambda>max_concurrent_queries.
     ebind (read_limit_u32 es 10) (\<lambda>max_concurrent_fetches.
     let v = \<lparr>git_max_repositories_per_session = max_repositories_per_session,
              git_max_watches_per_repository = max_watches_per_repository,
              git_max_watched_queries_per_repository = max_watched_queries_per_repository,
              git_max_query_records = max_query_records, git_max_query_bytes = max_query_bytes,
              git_max_cursor_bytes = max_cursor_bytes, git_max_spec_bytes = max_spec_bytes,
              git_max_inline_bytes = max_inline_bytes,
              git_max_concurrent_queries = max_concurrent_queries,
              git_max_concurrent_fetches = max_concurrent_fetches\<rparr> in
     ebind (git_Limits_validate v) (\<lambda>_. Inr v))))))))))))"

section \<open>LSP\<close>

record lsp_Limits =
  lsp_max_workspaces_per_session :: u32
  lsp_max_watches_per_workspace :: u32
  lsp_max_query_records :: u32
  lsp_max_query_bytes :: u32
  lsp_max_cursor_bytes :: u32
  lsp_max_inline_buffer_bytes :: u32
  lsp_max_buffer_bytes :: u64
  lsp_max_buffers_per_workspace :: u32
  lsp_max_stages_per_session :: u32
  lsp_max_diagnostics_per_file :: u32
  lsp_max_servers :: u32
  lsp_max_concurrent_queries :: u32

definition lsp_HARD :: lsp_Limits where
  "lsp_HARD = \<lparr>lsp_max_workspaces_per_session = 64, lsp_max_watches_per_workspace = 32,
     lsp_max_query_records = 4096, lsp_max_query_bytes = 4194304,
     lsp_max_cursor_bytes = 4096, lsp_max_inline_buffer_bytes = 32768,
     lsp_max_buffer_bytes = 67108864, lsp_max_buffers_per_workspace = 1024,
     lsp_max_stages_per_session = 16, lsp_max_diagnostics_per_file = 4096,
     lsp_max_servers = 256, lsp_max_concurrent_queries = 8\<rparr>"

definition lsp_Limits_validate :: "lsp_Limits \<Rightarrow> error + unit" where
  "lsp_Limits_validate l =
     (if \<not> valid_limit (lsp_max_workspaces_per_session l) (lsp_max_workspaces_per_session lsp_HARD)
        \<or> \<not> valid_limit (lsp_max_watches_per_workspace l) (lsp_max_watches_per_workspace lsp_HARD)
        \<or> \<not> valid_limit (lsp_max_query_records l) (lsp_max_query_records lsp_HARD)
        \<or> \<not> valid_limit (lsp_max_query_bytes l) (lsp_max_query_bytes lsp_HARD)
        \<or> \<not> valid_limit (lsp_max_cursor_bytes l) (lsp_max_cursor_bytes lsp_HARD)
        \<or> \<not> valid_limit (lsp_max_inline_buffer_bytes l) (lsp_max_inline_buffer_bytes lsp_HARD)
        \<or> \<not> valid_limit (lsp_max_buffers_per_workspace l) (lsp_max_buffers_per_workspace lsp_HARD)
        \<or> \<not> valid_limit (lsp_max_stages_per_session l) (lsp_max_stages_per_session lsp_HARD)
        \<or> \<not> valid_limit (lsp_max_diagnostics_per_file l) (lsp_max_diagnostics_per_file lsp_HARD)
        \<or> \<not> valid_limit (lsp_max_servers l) (lsp_max_servers lsp_HARD)
        \<or> \<not> valid_limit (lsp_max_concurrent_queries l) (lsp_max_concurrent_queries lsp_HARD)
        \<or> lsp_max_buffer_bytes l = 0
        \<or> lsp_max_buffer_bytes lsp_HARD < lsp_max_buffer_bytes l
      then Inl (Invalid ''LSP family limit'') else Inr ())"

definition lsp_Limits_to_extensions :: "lsp_Limits \<Rightarrow> error + Extensions" where
  "lsp_Limits_to_extensions l =
     ebind (lsp_Limits_validate l) (\<lambda>_. Inr
       [limit_u32 1 (lsp_max_workspaces_per_session l),
        limit_u32 2 (lsp_max_watches_per_workspace l),
        limit_u32 3 (lsp_max_query_records l),
        limit_u32 4 (lsp_max_query_bytes l),
        limit_u32 5 (lsp_max_cursor_bytes l),
        limit_u32 6 (lsp_max_inline_buffer_bytes l),
        limit_u64 7 (lsp_max_buffer_bytes l),
        limit_u32 8 (lsp_max_buffers_per_workspace l),
        limit_u32 9 (lsp_max_stages_per_session l),
        limit_u32 10 (lsp_max_diagnostics_per_file l),
        limit_u32 11 (lsp_max_servers l),
        limit_u32 12 (lsp_max_concurrent_queries l)])"

definition lsp_Limits_from_extensions :: "Extensions \<Rightarrow> error + lsp_Limits" where
  "lsp_Limits_from_extensions es =
     ebind (reject_unknown_required_extensions es [1, 2, 3, 4, 5, 6, 7, 8, 9, 10, 11, 12]
              ''unknown required LSP extension'') (\<lambda>_.
     ebind (read_limit_u32 es 1) (\<lambda>max_workspaces_per_session.
     ebind (read_limit_u32 es 2) (\<lambda>max_watches_per_workspace.
     ebind (read_limit_u32 es 3) (\<lambda>max_query_records.
     ebind (read_limit_u32 es 4) (\<lambda>max_query_bytes.
     ebind (read_limit_u32 es 5) (\<lambda>max_cursor_bytes.
     ebind (read_limit_u32 es 6) (\<lambda>max_inline_buffer_bytes.
     ebind (read_limit_u64 es 7) (\<lambda>max_buffer_bytes.
     ebind (read_limit_u32 es 8) (\<lambda>max_buffers_per_workspace.
     ebind (read_limit_u32 es 9) (\<lambda>max_stages_per_session.
     ebind (read_limit_u32 es 10) (\<lambda>max_diagnostics_per_file.
     ebind (read_limit_u32 es 11) (\<lambda>max_servers.
     ebind (read_limit_u32 es 12) (\<lambda>max_concurrent_queries.
     let v = \<lparr>lsp_max_workspaces_per_session = max_workspaces_per_session,
              lsp_max_watches_per_workspace = max_watches_per_workspace,
              lsp_max_query_records = max_query_records, lsp_max_query_bytes = max_query_bytes,
              lsp_max_cursor_bytes = max_cursor_bytes,
              lsp_max_inline_buffer_bytes = max_inline_buffer_bytes,
              lsp_max_buffer_bytes = max_buffer_bytes,
              lsp_max_buffers_per_workspace = max_buffers_per_workspace,
              lsp_max_stages_per_session = max_stages_per_session,
              lsp_max_diagnostics_per_file = max_diagnostics_per_file,
              lsp_max_servers = max_servers, lsp_max_concurrent_queries = max_concurrent_queries\<rparr> in
     ebind (lsp_Limits_validate v) (\<lambda>_. Inr v))))))))))))))"

section \<open>KV\<close>

record kv_Limits =
  kv_max_key_bytes :: u32
  kv_max_value_bytes :: u64
  kv_max_inline_bytes :: u32
  kv_max_entries :: u32
  kv_max_store_bytes :: u64
  kv_max_namespaces_per_session :: u32
  kv_max_stages_per_session :: u32
  kv_max_staged_bytes_per_session :: u64
  kv_max_batch_items :: u32

definition kv_HARD :: kv_Limits where
  "kv_HARD = \<lparr>kv_max_key_bytes = 256, kv_max_value_bytes = 4194304, kv_max_inline_bytes = 32768,
     kv_max_entries = 16384, kv_max_store_bytes = 268435456,
     kv_max_namespaces_per_session = 16, kv_max_stages_per_session = 16,
     kv_max_staged_bytes_per_session = 67108864, kv_max_batch_items = 256\<rparr>"

definition kv_Limits_validate :: "kv_Limits \<Rightarrow> error + unit" where
  "kv_Limits_validate l =
     (if \<not> (0 < kv_max_key_bytes l
        \<and> kv_max_key_bytes l \<le> kv_max_key_bytes kv_HARD
        \<and> kv_max_value_bytes l \<le> kv_max_value_bytes kv_HARD
        \<and> kv_max_inline_bytes l \<le> kv_max_inline_bytes kv_HARD
        \<and> ucast (kv_max_inline_bytes l) \<le> kv_max_value_bytes l
        \<and> 0 < kv_max_entries l
        \<and> kv_max_entries l \<le> kv_max_entries kv_HARD
        \<and> 0 < kv_max_store_bytes l
        \<and> kv_max_store_bytes l \<le> kv_max_store_bytes kv_HARD
        \<and> 0 < kv_max_namespaces_per_session l
        \<and> kv_max_namespaces_per_session l \<le> kv_max_namespaces_per_session kv_HARD
        \<and> 0 < kv_max_stages_per_session l
        \<and> kv_max_stages_per_session l \<le> kv_max_stages_per_session kv_HARD
        \<and> 0 < kv_max_staged_bytes_per_session l
        \<and> kv_max_staged_bytes_per_session l \<le> kv_max_staged_bytes_per_session kv_HARD
        \<and> 0 < kv_max_batch_items l
        \<and> kv_max_batch_items l \<le> kv_max_batch_items kv_HARD)
      then Inl (Invalid ''KV family limits'') else Inr ())"

definition kv_Limits_to_extensions :: "kv_Limits \<Rightarrow> error + Extensions" where
  "kv_Limits_to_extensions l =
     ebind (kv_Limits_validate l) (\<lambda>_. Inr
       [limit_u32 1 (kv_max_key_bytes l),
        limit_u64 2 (kv_max_value_bytes l),
        limit_u32 3 (kv_max_inline_bytes l),
        limit_u32 4 (kv_max_entries l),
        limit_u64 5 (kv_max_store_bytes l),
        limit_u32 6 (kv_max_namespaces_per_session l),
        limit_u32 7 (kv_max_stages_per_session l),
        limit_u64 8 (kv_max_staged_bytes_per_session l),
        limit_u32 9 (kv_max_batch_items l)])"

definition kv_Limits_from_extensions :: "Extensions \<Rightarrow> error + kv_Limits" where
  "kv_Limits_from_extensions es =
     ebind (reject_unknown_required_extensions es [1, 2, 3, 4, 5, 6, 7, 8, 9]
              ''unknown required KV extension'') (\<lambda>_.
     ebind (family_limit_u32 ''KV'' es 1) (\<lambda>max_key_bytes.
     ebind (family_limit_u64 ''KV'' es 2) (\<lambda>max_value_bytes.
     ebind (family_limit_u32 ''KV'' es 3) (\<lambda>max_inline_bytes.
     ebind (family_limit_u32 ''KV'' es 4) (\<lambda>max_entries.
     ebind (family_limit_u64 ''KV'' es 5) (\<lambda>max_store_bytes.
     ebind (family_limit_u32 ''KV'' es 6) (\<lambda>max_namespaces_per_session.
     ebind (family_limit_u32 ''KV'' es 7) (\<lambda>max_stages_per_session.
     ebind (family_limit_u64 ''KV'' es 8) (\<lambda>max_staged_bytes_per_session.
     ebind (family_limit_u32 ''KV'' es 9) (\<lambda>max_batch_items.
     let v = \<lparr>kv_max_key_bytes = max_key_bytes, kv_max_value_bytes = max_value_bytes,
              kv_max_inline_bytes = max_inline_bytes, kv_max_entries = max_entries,
              kv_max_store_bytes = max_store_bytes,
              kv_max_namespaces_per_session = max_namespaces_per_session,
              kv_max_stages_per_session = max_stages_per_session,
              kv_max_staged_bytes_per_session = max_staged_bytes_per_session,
              kv_max_batch_items = max_batch_items\<rparr> in
     ebind (kv_Limits_validate v) (\<lambda>_. Inr v)))))))))))"

section \<open>Net\<close>

record net_Limits =
  net_max_host_bytes :: u32
  net_max_local_address_bytes :: u32
  net_max_pipe_name_bytes :: u32
  net_max_alpn_protocols :: u32
  net_max_alpn_bytes :: u32
  net_max_early_data_bytes :: u32
  net_max_flows_per_session :: u32
  net_max_pending_opens :: u32
  net_max_buffered_per_flow :: u64
  net_max_datagram_payload :: u32
  net_max_datagram_queue :: u32
  net_connect_timeout_ns :: u64
  net_max_mutation_replays :: u32

definition net_HARD :: net_Limits where
  "net_HARD = \<lparr>net_max_host_bytes = 255, net_max_local_address_bytes = 4096,
     net_max_pipe_name_bytes = 4096, net_max_alpn_protocols = 16,
     net_max_alpn_bytes = 255, net_max_early_data_bytes = 16384,
     net_max_flows_per_session = 256, net_max_pending_opens = 32,
     net_max_buffered_per_flow = 8388608, net_max_datagram_payload = 65507,
     net_max_datagram_queue = 256, net_connect_timeout_ns = 10000000000,
     net_max_mutation_replays = 65536\<rparr>"

definition net_Limits_validate :: "net_Limits \<Rightarrow> error + unit" where
  "net_Limits_validate l =
     (if \<not> valid_limit (net_max_host_bytes l) (net_max_host_bytes net_HARD)
        \<or> \<not> valid_limit (net_max_local_address_bytes l) (net_max_local_address_bytes net_HARD)
        \<or> \<not> valid_limit (net_max_pipe_name_bytes l) (net_max_pipe_name_bytes net_HARD)
        \<or> \<not> valid_limit (net_max_alpn_protocols l) (net_max_alpn_protocols net_HARD)
        \<or> \<not> valid_limit (net_max_alpn_bytes l) (net_max_alpn_bytes net_HARD)
        \<or> net_max_early_data_bytes net_HARD < net_max_early_data_bytes l
        \<or> \<not> valid_limit (net_max_flows_per_session l) (net_max_flows_per_session net_HARD)
        \<or> \<not> valid_limit (net_max_pending_opens l) (net_max_pending_opens net_HARD)
        \<or> net_max_buffered_per_flow l = 0
        \<or> net_max_buffered_per_flow net_HARD < net_max_buffered_per_flow l
        \<or> \<not> valid_limit (net_max_datagram_payload l) (net_max_datagram_payload net_HARD)
        \<or> \<not> valid_limit (net_max_datagram_queue l) (net_max_datagram_queue net_HARD)
        \<or> net_connect_timeout_ns l = 0
        \<or> net_connect_timeout_ns net_HARD < net_connect_timeout_ns l
        \<or> \<not> valid_limit (net_max_mutation_replays l) (net_max_mutation_replays net_HARD)
      then Inl (Invalid ''Net family limit'') else Inr ())"

definition net_Limits_to_extensions :: "net_Limits \<Rightarrow> error + Extensions" where
  "net_Limits_to_extensions l =
     ebind (net_Limits_validate l) (\<lambda>_. Inr
       [limit_u32 1 (net_max_host_bytes l),
        limit_u32 2 (net_max_local_address_bytes l),
        limit_u32 3 (net_max_pipe_name_bytes l),
        limit_u32 4 (net_max_alpn_protocols l),
        limit_u32 5 (net_max_alpn_bytes l),
        limit_u32 6 (net_max_early_data_bytes l),
        limit_u32 7 (net_max_flows_per_session l),
        limit_u32 8 (net_max_pending_opens l),
        limit_u64 9 (net_max_buffered_per_flow l),
        limit_u32 10 (net_max_datagram_payload l),
        limit_u32 11 (net_max_datagram_queue l),
        limit_u64 12 (net_connect_timeout_ns l),
        limit_u32 13 (net_max_mutation_replays l)])"

definition net_Limits_from_extensions :: "Extensions \<Rightarrow> error + net_Limits" where
  "net_Limits_from_extensions es =
     ebind (reject_unknown_required_extensions es [1, 2, 3, 4, 5, 6, 7, 8, 9, 10, 11, 12, 13]
              ''unknown required Net extension'') (\<lambda>_.
     ebind (family_limit_u32 ''Net'' es 1) (\<lambda>max_host_bytes.
     ebind (family_limit_u32 ''Net'' es 2) (\<lambda>max_local_address_bytes.
     ebind (family_limit_u32 ''Net'' es 3) (\<lambda>max_pipe_name_bytes.
     ebind (family_limit_u32 ''Net'' es 4) (\<lambda>max_alpn_protocols.
     ebind (family_limit_u32 ''Net'' es 5) (\<lambda>max_alpn_bytes.
     ebind (family_limit_u32 ''Net'' es 6) (\<lambda>max_early_data_bytes.
     ebind (family_limit_u32 ''Net'' es 7) (\<lambda>max_flows_per_session.
     ebind (family_limit_u32 ''Net'' es 8) (\<lambda>max_pending_opens.
     ebind (family_limit_u64 ''Net'' es 9) (\<lambda>max_buffered_per_flow.
     ebind (family_limit_u32 ''Net'' es 10) (\<lambda>max_datagram_payload.
     ebind (family_limit_u32 ''Net'' es 11) (\<lambda>max_datagram_queue.
     ebind (family_limit_u64 ''Net'' es 12) (\<lambda>connect_timeout_ns.
     ebind (family_limit_u32 ''Net'' es 13) (\<lambda>max_mutation_replays.
     let v = \<lparr>net_max_host_bytes = max_host_bytes,
              net_max_local_address_bytes = max_local_address_bytes,
              net_max_pipe_name_bytes = max_pipe_name_bytes,
              net_max_alpn_protocols = max_alpn_protocols, net_max_alpn_bytes = max_alpn_bytes,
              net_max_early_data_bytes = max_early_data_bytes,
              net_max_flows_per_session = max_flows_per_session,
              net_max_pending_opens = max_pending_opens,
              net_max_buffered_per_flow = max_buffered_per_flow,
              net_max_datagram_payload = max_datagram_payload,
              net_max_datagram_queue = max_datagram_queue,
              net_connect_timeout_ns = connect_timeout_ns,
              net_max_mutation_replays = max_mutation_replays\<rparr> in
     ebind (net_Limits_validate v) (\<lambda>_. Inr v)))))))))))))))"

section \<open>Channel\<close>

record channel_Limits =
  channel_max_name_bytes :: u32
  channel_max_metadata_bytes :: u32
  channel_max_listeners_per_session :: u32
  channel_max_channels_per_session :: u32
  channel_max_pending_connects :: u32
  channel_max_message_bytes :: u64
  channel_max_open_messages :: u32
  channel_connect_timeout_ns :: u64
  channel_max_mutation_replays :: u32

definition channel_HARD :: channel_Limits where
  "channel_HARD = \<lparr>channel_max_name_bytes = 255, channel_max_metadata_bytes = 65536,
     channel_max_listeners_per_session = 32, channel_max_channels_per_session = 128,
     channel_max_pending_connects = 32, channel_max_message_bytes = 16777216,
     channel_max_open_messages = 16, channel_connect_timeout_ns = 30000000000,
     channel_max_mutation_replays = 65536\<rparr>"

definition channel_Limits_validate :: "channel_Limits \<Rightarrow> error + unit" where
  "channel_Limits_validate l =
     (if channel_max_name_bytes l = 0
        \<or> channel_max_name_bytes channel_HARD < channel_max_name_bytes l
      then Inl (Invalid ''Channel max name bytes limit'') else
      if channel_max_metadata_bytes channel_HARD < channel_max_metadata_bytes l
      then Inl (Invalid ''Channel max metadata bytes limit'') else
      if channel_max_listeners_per_session l = 0
        \<or> channel_max_listeners_per_session channel_HARD < channel_max_listeners_per_session l
      then Inl (Invalid ''Channel max listeners limit'') else
      if channel_max_channels_per_session l = 0
        \<or> channel_max_channels_per_session channel_HARD < channel_max_channels_per_session l
      then Inl (Invalid ''Channel max channels limit'') else
      if channel_max_pending_connects l = 0
        \<or> channel_max_pending_connects channel_HARD < channel_max_pending_connects l
      then Inl (Invalid ''Channel max pending connects limit'') else
      if channel_max_message_bytes l = 0
        \<or> channel_max_message_bytes channel_HARD < channel_max_message_bytes l
      then Inl (Invalid ''Channel max message bytes limit'') else
      if channel_max_open_messages l = 0
        \<or> channel_max_open_messages channel_HARD < channel_max_open_messages l
      then Inl (Invalid ''Channel max open messages limit'') else
      if channel_connect_timeout_ns l = 0
        \<or> channel_connect_timeout_ns channel_HARD < channel_connect_timeout_ns l
      then Inl (Invalid ''Channel connect timeout limit'') else
      if channel_max_mutation_replays l = 0
        \<or> channel_max_mutation_replays channel_HARD < channel_max_mutation_replays l
      then Inl (Invalid ''Channel mutation replay limit'') else
      Inr ())"

definition channel_Limits_to_extensions :: "channel_Limits \<Rightarrow> error + Extensions" where
  "channel_Limits_to_extensions l =
     ebind (channel_Limits_validate l) (\<lambda>_. Inr
       [limit_u32 1 (channel_max_name_bytes l),
        limit_u32 2 (channel_max_metadata_bytes l),
        limit_u32 3 (channel_max_listeners_per_session l),
        limit_u32 4 (channel_max_channels_per_session l),
        limit_u32 5 (channel_max_pending_connects l),
        limit_u64 6 (channel_max_message_bytes l),
        limit_u32 7 (channel_max_open_messages l),
        limit_u64 8 (channel_connect_timeout_ns l),
        limit_u32 9 (channel_max_mutation_replays l)])"

definition channel_Limits_from_extensions :: "Extensions \<Rightarrow> error + channel_Limits" where
  "channel_Limits_from_extensions es =
     ebind (reject_unknown_required_extensions es [1, 2, 3, 4, 5, 6, 7, 8, 9]
              ''unknown required Channel extension'') (\<lambda>_.
     ebind (family_limit_u32 ''Channel'' es 1) (\<lambda>max_name_bytes.
     ebind (family_limit_u32 ''Channel'' es 2) (\<lambda>max_metadata_bytes.
     ebind (family_limit_u32 ''Channel'' es 3) (\<lambda>max_listeners_per_session.
     ebind (family_limit_u32 ''Channel'' es 4) (\<lambda>max_channels_per_session.
     ebind (family_limit_u32 ''Channel'' es 5) (\<lambda>max_pending_connects.
     ebind (family_limit_u64 ''Channel'' es 6) (\<lambda>max_message_bytes.
     ebind (family_limit_u32 ''Channel'' es 7) (\<lambda>max_open_messages.
     ebind (family_limit_u64 ''Channel'' es 8) (\<lambda>connect_timeout_ns.
     ebind (family_limit_u32 ''Channel'' es 9) (\<lambda>max_mutation_replays.
     let v = \<lparr>channel_max_name_bytes = max_name_bytes,
              channel_max_metadata_bytes = max_metadata_bytes,
              channel_max_listeners_per_session = max_listeners_per_session,
              channel_max_channels_per_session = max_channels_per_session,
              channel_max_pending_connects = max_pending_connects,
              channel_max_message_bytes = max_message_bytes,
              channel_max_open_messages = max_open_messages,
              channel_connect_timeout_ns = connect_timeout_ns,
              channel_max_mutation_replays = max_mutation_replays\<rparr> in
     ebind (channel_Limits_validate v) (\<lambda>_. Inr v)))))))))))"

section \<open>Extension\<close>

record extension_Limits =
  extension_max_name_bytes :: u32
  extension_max_args :: u32
  extension_max_argument_bytes :: u64
  extension_max_object_bytes :: u64
  extension_max_output_record_bytes :: u32
  extension_max_command_descriptor_bytes :: u32
  extension_max_command_records :: u32
  extension_max_definitions :: u32
  extension_max_object_stages_per_session :: u32
  extension_max_follows_per_session :: u32
  extension_max_running_attempts :: u32
  extension_max_memory_bytes :: u64
  extension_max_job_bytes :: u64
  extension_max_mutation_replays :: u32

definition extension_HARD :: extension_Limits where
  "extension_HARD = \<lparr>extension_max_name_bytes = 255, extension_max_args = 1024,
     extension_max_argument_bytes = 1048576, extension_max_object_bytes = 67108864,
     extension_max_output_record_bytes = 1048576,
     extension_max_command_descriptor_bytes = 65536, extension_max_command_records = 32,
     extension_max_definitions = 1024, extension_max_object_stages_per_session = 8,
     extension_max_follows_per_session = 128, extension_max_running_attempts = 32,
     extension_max_memory_bytes = 134217728, extension_max_job_bytes = 67108864,
     extension_max_mutation_replays = 65536\<rparr>"

definition extension_Limits_validate :: "extension_Limits \<Rightarrow> error + unit" where
  "extension_Limits_validate l =
     (if \<not> valid_limit (extension_max_name_bytes l) (extension_max_name_bytes extension_HARD)
        \<or> \<not> valid_limit (extension_max_args l) (extension_max_args extension_HARD)
        \<or> \<not> valid_limit (extension_max_output_record_bytes l) (extension_max_output_record_bytes extension_HARD)
        \<or> \<not> valid_limit (extension_max_command_descriptor_bytes l) (extension_max_command_descriptor_bytes extension_HARD)
        \<or> \<not> valid_limit (extension_max_command_records l) (extension_max_command_records extension_HARD)
        \<or> \<not> valid_limit (extension_max_definitions l) (extension_max_definitions extension_HARD)
        \<or> \<not> valid_limit (extension_max_object_stages_per_session l) (extension_max_object_stages_per_session extension_HARD)
        \<or> \<not> valid_limit (extension_max_follows_per_session l) (extension_max_follows_per_session extension_HARD)
        \<or> \<not> valid_limit (extension_max_running_attempts l) (extension_max_running_attempts extension_HARD)
        \<or> \<not> valid_limit (extension_max_mutation_replays l) (extension_max_mutation_replays extension_HARD)
        \<or> \<not> valid_limit (extension_max_argument_bytes l) (extension_max_argument_bytes extension_HARD)
        \<or> \<not> valid_limit (extension_max_object_bytes l) (extension_max_object_bytes extension_HARD)
        \<or> \<not> valid_limit (extension_max_memory_bytes l) (extension_max_memory_bytes extension_HARD)
        \<or> \<not> valid_limit (extension_max_job_bytes l) (extension_max_job_bytes extension_HARD)
      then Inl (Invalid ''Extension family limit'') else Inr ())"

definition extension_Limits_to_extensions :: "extension_Limits \<Rightarrow> error + Extensions" where
  "extension_Limits_to_extensions l =
     ebind (extension_Limits_validate l) (\<lambda>_. Inr
       [limit_u32 1 (extension_max_name_bytes l),
        limit_u32 2 (extension_max_args l),
        limit_u64 3 (extension_max_argument_bytes l),
        limit_u64 4 (extension_max_object_bytes l),
        limit_u32 5 (extension_max_output_record_bytes l),
        limit_u32 6 (extension_max_command_descriptor_bytes l),
        limit_u32 7 (extension_max_command_records l),
        limit_u32 8 (extension_max_definitions l),
        limit_u32 9 (extension_max_object_stages_per_session l),
        limit_u32 10 (extension_max_follows_per_session l),
        limit_u32 11 (extension_max_running_attempts l),
        limit_u64 12 (extension_max_memory_bytes l),
        limit_u64 13 (extension_max_job_bytes l),
        limit_u32 14 (extension_max_mutation_replays l)])"

definition extension_Limits_from_extensions :: "Extensions \<Rightarrow> error + extension_Limits" where
  "extension_Limits_from_extensions es =
     ebind (reject_unknown_required_extensions es [1, 2, 3, 4, 5, 6, 7, 8, 9, 10, 11, 12, 13, 14]
              ''unknown required Extension extension'') (\<lambda>_.
     ebind (read_limit_u32 es 1) (\<lambda>max_name_bytes.
     ebind (read_limit_u32 es 2) (\<lambda>max_args.
     ebind (read_limit_u64 es 3) (\<lambda>max_argument_bytes.
     ebind (read_limit_u64 es 4) (\<lambda>max_object_bytes.
     ebind (read_limit_u32 es 5) (\<lambda>max_output_record_bytes.
     ebind (read_limit_u32 es 6) (\<lambda>max_command_descriptor_bytes.
     ebind (read_limit_u32 es 7) (\<lambda>max_command_records.
     ebind (read_limit_u32 es 8) (\<lambda>max_definitions.
     ebind (read_limit_u32 es 9) (\<lambda>max_object_stages_per_session.
     ebind (read_limit_u32 es 10) (\<lambda>max_follows_per_session.
     ebind (read_limit_u32 es 11) (\<lambda>max_running_attempts.
     ebind (read_limit_u64 es 12) (\<lambda>max_memory_bytes.
     ebind (read_limit_u64 es 13) (\<lambda>max_job_bytes.
     ebind (read_limit_u32 es 14) (\<lambda>max_mutation_replays.
     let v = \<lparr>extension_max_name_bytes = max_name_bytes, extension_max_args = max_args,
              extension_max_argument_bytes = max_argument_bytes,
              extension_max_object_bytes = max_object_bytes,
              extension_max_output_record_bytes = max_output_record_bytes,
              extension_max_command_descriptor_bytes = max_command_descriptor_bytes,
              extension_max_command_records = max_command_records,
              extension_max_definitions = max_definitions,
              extension_max_object_stages_per_session = max_object_stages_per_session,
              extension_max_follows_per_session = max_follows_per_session,
              extension_max_running_attempts = max_running_attempts,
              extension_max_memory_bytes = max_memory_bytes,
              extension_max_job_bytes = max_job_bytes,
              extension_max_mutation_replays = max_mutation_replays\<rparr> in
     ebind (extension_Limits_validate v) (\<lambda>_. Inr v))))))))))))))))"

section \<open>Events\<close>

record events_Limits =
  events_min_ring_bytes :: u64
  events_max_ring_bytes :: u64
  events_max_streams_per_session :: u32
  events_max_recordings :: u32
  events_max_recording_path_bytes :: u32
  events_max_live_batch_bytes :: u32
  events_max_pending_dumps :: u32
  events_max_mutation_replays :: u32

definition events_HARD :: events_Limits where
  "events_HARD = \<lparr>events_min_ring_bytes = 4096, events_max_ring_bytes = 67104768,
     events_max_streams_per_session = 16, events_max_recordings = 64,
     events_max_recording_path_bytes = 4096, events_max_live_batch_bytes = 65536,
     events_max_pending_dumps = 4, events_max_mutation_replays = 65536\<rparr>"

definition events_Limits_validate :: "events_Limits \<Rightarrow> error + unit" where
  "events_Limits_validate l =
     (if events_min_ring_bytes l < events_min_ring_bytes events_HARD
        \<or> events_max_ring_bytes l < events_min_ring_bytes l
        \<or> events_max_ring_bytes events_HARD < events_max_ring_bytes l
        \<or> \<not> valid_limit (events_max_streams_per_session l) (events_max_streams_per_session events_HARD)
        \<or> \<not> valid_limit (events_max_recordings l) (events_max_recordings events_HARD)
        \<or> \<not> valid_limit (events_max_recording_path_bytes l) (events_max_recording_path_bytes events_HARD)
        \<or> \<not> valid_limit (events_max_live_batch_bytes l) (events_max_live_batch_bytes events_HARD)
        \<or> \<not> valid_limit (events_max_pending_dumps l) (events_max_pending_dumps events_HARD)
        \<or> \<not> valid_limit (events_max_mutation_replays l) (events_max_mutation_replays events_HARD)
      then Inl (Invalid ''Events family limit'') else Inr ())"

definition events_Limits_to_extensions :: "events_Limits \<Rightarrow> error + Extensions" where
  "events_Limits_to_extensions l =
     ebind (events_Limits_validate l) (\<lambda>_. Inr
       [limit_u64 1 (events_min_ring_bytes l),
        limit_u64 2 (events_max_ring_bytes l),
        limit_u32 3 (events_max_streams_per_session l),
        limit_u32 4 (events_max_recordings l),
        limit_u32 5 (events_max_recording_path_bytes l),
        limit_u32 6 (events_max_live_batch_bytes l),
        limit_u32 7 (events_max_pending_dumps l),
        limit_u32 8 (events_max_mutation_replays l)])"

definition events_Limits_from_extensions :: "Extensions \<Rightarrow> error + events_Limits" where
  "events_Limits_from_extensions es =
     ebind (reject_unknown_required_extensions es [1, 2, 3, 4, 5, 6, 7, 8]
              ''unknown required Events extension'') (\<lambda>_.
     ebind (read_limit_u64 es 1) (\<lambda>min_ring_bytes.
     ebind (read_limit_u64 es 2) (\<lambda>max_ring_bytes.
     ebind (read_limit_u32 es 3) (\<lambda>max_streams_per_session.
     ebind (read_limit_u32 es 4) (\<lambda>max_recordings.
     ebind (read_limit_u32 es 5) (\<lambda>max_recording_path_bytes.
     ebind (read_limit_u32 es 6) (\<lambda>max_live_batch_bytes.
     ebind (read_limit_u32 es 7) (\<lambda>max_pending_dumps.
     ebind (read_limit_u32 es 8) (\<lambda>max_mutation_replays.
     let v = \<lparr>events_min_ring_bytes = min_ring_bytes, events_max_ring_bytes = max_ring_bytes,
              events_max_streams_per_session = max_streams_per_session,
              events_max_recordings = max_recordings,
              events_max_recording_path_bytes = max_recording_path_bytes,
              events_max_live_batch_bytes = max_live_batch_bytes,
              events_max_pending_dumps = max_pending_dumps,
              events_max_mutation_replays = max_mutation_replays\<rparr> in
     ebind (events_Limits_validate v) (\<lambda>_. Inr v))))))))))"

section \<open>Env\<close>

record env_Limits =
  env_max_key_bytes :: u32
  env_max_value_bytes :: u32
  env_max_entries :: u32
  env_max_total_data_bytes :: u64
  env_max_inline_bytes :: u32
  env_max_batch_bytes :: u32

definition env_HARD :: env_Limits where
  "env_HARD = \<lparr>env_max_key_bytes = 4096, env_max_value_bytes = 1048576, env_max_entries = 8192,
     env_max_total_data_bytes = 4194304, env_max_inline_bytes = 32768,
     env_max_batch_bytes = 1052686\<rparr>"

definition env_Limits_validate :: "env_Limits \<Rightarrow> error + unit" where
  "env_Limits_validate l =
     (if env_max_key_bytes l = 0
        \<or> env_max_key_bytes env_HARD < env_max_key_bytes l
      then Inl (Invalid ''Env max key bytes limit'') else
      if env_max_value_bytes env_HARD < env_max_value_bytes l
      then Inl (Invalid ''Env max value bytes limit'') else
      if env_max_entries l = 0
        \<or> env_max_entries env_HARD < env_max_entries l
      then Inl (Invalid ''Env max entries limit'') else
      if env_max_total_data_bytes l = 0
        \<or> env_max_total_data_bytes env_HARD < env_max_total_data_bytes l
      then Inl (Invalid ''Env max total data bytes limit'') else
      if env_max_inline_bytes l = 0
        \<or> env_max_inline_bytes env_HARD < env_max_inline_bytes l
      then Inl (Invalid ''Env max inline bytes limit'') else
      if env_max_batch_bytes l = 0
        \<or> env_max_batch_bytes env_HARD < env_max_batch_bytes l
      then Inl (Invalid ''Env max batch bytes limit'') else
      Inr ())"

definition env_Limits_to_extensions :: "env_Limits \<Rightarrow> error + Extensions" where
  "env_Limits_to_extensions l =
     ebind (env_Limits_validate l) (\<lambda>_. Inr
       [limit_u32 1 (env_max_key_bytes l),
        limit_u32 2 (env_max_value_bytes l),
        limit_u32 3 (env_max_entries l),
        limit_u64 4 (env_max_total_data_bytes l),
        limit_u32 5 (env_max_inline_bytes l),
        limit_u32 6 (env_max_batch_bytes l)])"

definition env_Limits_from_extensions :: "Extensions \<Rightarrow> error + env_Limits" where
  "env_Limits_from_extensions es =
     ebind (reject_unknown_required_extensions es [1, 2, 3, 4, 5, 6]
              ''unknown required Env extension'') (\<lambda>_.
     ebind (family_limit_u32 ''Env'' es 1) (\<lambda>max_key_bytes.
     ebind (family_limit_u32 ''Env'' es 2) (\<lambda>max_value_bytes.
     ebind (family_limit_u32 ''Env'' es 3) (\<lambda>max_entries.
     ebind (family_limit_u64 ''Env'' es 4) (\<lambda>max_total_data_bytes.
     ebind (family_limit_u32 ''Env'' es 5) (\<lambda>max_inline_bytes.
     ebind (family_limit_u32 ''Env'' es 6) (\<lambda>max_batch_bytes.
     let v = \<lparr>env_max_key_bytes = max_key_bytes, env_max_value_bytes = max_value_bytes,
              env_max_entries = max_entries, env_max_total_data_bytes = max_total_data_bytes,
              env_max_inline_bytes = max_inline_bytes, env_max_batch_bytes = max_batch_bytes\<rparr> in
     ebind (env_Limits_validate v) (\<lambda>_. Inr v))))))))"

lemma fs_from_to:
  "fs_Limits_to_extensions l = Inr es \<Longrightarrow> fs_Limits_from_extensions es = Inr l"
  by (cases l; cases "fs_capabilities l = 0") (auto simp: fs_Limits_to_extensions_def fs_Limits_from_extensions_def
      limit_block enc_iff Let_def)

lemma fs_from_known:
  "Extensions_validate es = Inr () \<Longrightarrow>
     (\<And>e. e \<in> set es \<Longrightarrow> e_required e \<Longrightarrow> e_tag e \<in> set [1, 2, 3, 4, 5, 6, 7, 8, 9, 10, 11, 12, 13, 14])
     \<Longrightarrow> fs_Limits_from_extensions (restrict_tags [1, 2, 3, 4, 5, 6, 7, 8, 9, 10, 11, 12, 13, 14] es)
       = fs_Limits_from_extensions es"
  by (simp add: fs_Limits_from_extensions_def reject_restricted read_restricted find_restricted)

lemma fs_from_valid:
  "fs_Limits_from_extensions es = Inr l \<Longrightarrow>
     fs_Limits_validate l = Inr () \<and> Extensions_validate es = Inr ()"
  by (clarsimp simp: fs_Limits_from_extensions_def Let_def enc_iff reject_Inr_iff)

lemma fs_to_valid:
  "(\<exists>es. fs_Limits_to_extensions l = Inr es) \<longleftrightarrow> fs_Limits_validate l = Inr ()"
  by (simp add: fs_Limits_to_extensions_def enc_iff Let_def)

lemma fs_to_optional:
  "fs_Limits_to_extensions l = Inr es \<Longrightarrow> list_all (\<lambda>e. \<not> e_required e) es"
  by (auto simp: fs_Limits_to_extensions_def enc_iff)

interpretation fs: family_limits fs_Limits_validate fs_Limits_to_extensions
  fs_Limits_from_extensions "[1, 2, 3, 4, 5, 6, 7, 8, 9, 10, 11, 12, 13, 14]"
  using fs_to_valid by unfold_locales (blast intro: fs_from_to fs_from_known fs_to_optional dest: fs_from_valid)+

lemma git_from_to:
  "git_Limits_to_extensions l = Inr es \<Longrightarrow> git_Limits_from_extensions es = Inr l"
  by (cases l) (auto simp: git_Limits_to_extensions_def git_Limits_from_extensions_def
      limit_block enc_iff Let_def)

lemma git_from_known:
  "Extensions_validate es = Inr () \<Longrightarrow> (\<And>e. e \<in> set es \<Longrightarrow> e_required e \<Longrightarrow> e_tag e \<in> set [1, 2, 3, 4, 5, 6, 7, 8, 9, 10])
     \<Longrightarrow> git_Limits_from_extensions (restrict_tags [1, 2, 3, 4, 5, 6, 7, 8, 9, 10] es) = git_Limits_from_extensions es"
  by (simp add: git_Limits_from_extensions_def reject_restricted read_restricted)

lemma git_from_valid:
  "git_Limits_from_extensions es = Inr l \<Longrightarrow>
     git_Limits_validate l = Inr () \<and> Extensions_validate es = Inr ()"
  by (clarsimp simp: git_Limits_from_extensions_def Let_def enc_iff reject_Inr_iff)

lemma git_to_valid:
  "(\<exists>es. git_Limits_to_extensions l = Inr es) \<longleftrightarrow> git_Limits_validate l = Inr ()"
  by (simp add: git_Limits_to_extensions_def enc_iff Let_def)

lemma git_to_optional:
  "git_Limits_to_extensions l = Inr es \<Longrightarrow> list_all (\<lambda>e. \<not> e_required e) es"
  by (auto simp: git_Limits_to_extensions_def enc_iff)

interpretation git: family_limits git_Limits_validate git_Limits_to_extensions
  git_Limits_from_extensions "[1, 2, 3, 4, 5, 6, 7, 8, 9, 10]"
  using git_to_valid by unfold_locales (blast intro: git_from_to git_from_known git_to_optional dest: git_from_valid)+

lemma lsp_from_to:
  "lsp_Limits_to_extensions l = Inr es \<Longrightarrow> lsp_Limits_from_extensions es = Inr l"
  by (cases l) (auto simp: lsp_Limits_to_extensions_def lsp_Limits_from_extensions_def
      limit_block enc_iff Let_def)

lemma lsp_from_known:
  "Extensions_validate es = Inr () \<Longrightarrow> (\<And>e. e \<in> set es \<Longrightarrow> e_required e \<Longrightarrow> e_tag e \<in> set [1, 2, 3, 4, 5, 6, 7, 8, 9, 10, 11, 12])
     \<Longrightarrow> lsp_Limits_from_extensions (restrict_tags [1, 2, 3, 4, 5, 6, 7, 8, 9, 10, 11, 12] es) = lsp_Limits_from_extensions es"
  by (simp add: lsp_Limits_from_extensions_def reject_restricted read_restricted)

lemma lsp_from_valid:
  "lsp_Limits_from_extensions es = Inr l \<Longrightarrow>
     lsp_Limits_validate l = Inr () \<and> Extensions_validate es = Inr ()"
  by (clarsimp simp: lsp_Limits_from_extensions_def Let_def enc_iff reject_Inr_iff)

lemma lsp_to_valid:
  "(\<exists>es. lsp_Limits_to_extensions l = Inr es) \<longleftrightarrow> lsp_Limits_validate l = Inr ()"
  by (simp add: lsp_Limits_to_extensions_def enc_iff Let_def)

lemma lsp_to_optional:
  "lsp_Limits_to_extensions l = Inr es \<Longrightarrow> list_all (\<lambda>e. \<not> e_required e) es"
  by (auto simp: lsp_Limits_to_extensions_def enc_iff)

interpretation lsp: family_limits lsp_Limits_validate lsp_Limits_to_extensions
  lsp_Limits_from_extensions "[1, 2, 3, 4, 5, 6, 7, 8, 9, 10, 11, 12]"
  using lsp_to_valid by unfold_locales (blast intro: lsp_from_to lsp_from_known lsp_to_optional dest: lsp_from_valid)+

lemma kv_from_to:
  "kv_Limits_to_extensions l = Inr es \<Longrightarrow> kv_Limits_from_extensions es = Inr l"
  by (cases l) (auto simp: kv_Limits_to_extensions_def kv_Limits_from_extensions_def
      limit_block enc_iff Let_def)

lemma kv_from_known:
  "Extensions_validate es = Inr () \<Longrightarrow> (\<And>e. e \<in> set es \<Longrightarrow> e_required e \<Longrightarrow> e_tag e \<in> set [1, 2, 3, 4, 5, 6, 7, 8, 9])
     \<Longrightarrow> kv_Limits_from_extensions (restrict_tags [1, 2, 3, 4, 5, 6, 7, 8, 9] es) = kv_Limits_from_extensions es"
  by (simp add: kv_Limits_from_extensions_def reject_restricted read_restricted)

lemma kv_from_valid:
  "kv_Limits_from_extensions es = Inr l \<Longrightarrow>
     kv_Limits_validate l = Inr () \<and> Extensions_validate es = Inr ()"
  by (clarsimp simp: kv_Limits_from_extensions_def Let_def enc_iff reject_Inr_iff)

lemma kv_to_valid:
  "(\<exists>es. kv_Limits_to_extensions l = Inr es) \<longleftrightarrow> kv_Limits_validate l = Inr ()"
  by (simp add: kv_Limits_to_extensions_def enc_iff Let_def)

lemma kv_to_optional:
  "kv_Limits_to_extensions l = Inr es \<Longrightarrow> list_all (\<lambda>e. \<not> e_required e) es"
  by (auto simp: kv_Limits_to_extensions_def enc_iff)

interpretation kv: family_limits kv_Limits_validate kv_Limits_to_extensions
  kv_Limits_from_extensions "[1, 2, 3, 4, 5, 6, 7, 8, 9]"
  using kv_to_valid by unfold_locales (blast intro: kv_from_to kv_from_known kv_to_optional dest: kv_from_valid)+

lemma net_from_to:
  "net_Limits_to_extensions l = Inr es \<Longrightarrow> net_Limits_from_extensions es = Inr l"
  by (cases l) (auto simp: net_Limits_to_extensions_def net_Limits_from_extensions_def
      limit_block enc_iff Let_def)

lemma net_from_known:
  "Extensions_validate es = Inr () \<Longrightarrow> (\<And>e. e \<in> set es \<Longrightarrow> e_required e \<Longrightarrow> e_tag e \<in> set [1, 2, 3, 4, 5, 6, 7, 8, 9, 10, 11, 12, 13])
     \<Longrightarrow> net_Limits_from_extensions (restrict_tags [1, 2, 3, 4, 5, 6, 7, 8, 9, 10, 11, 12, 13] es) = net_Limits_from_extensions es"
  by (simp add: net_Limits_from_extensions_def reject_restricted read_restricted)

lemma net_from_valid:
  "net_Limits_from_extensions es = Inr l \<Longrightarrow>
     net_Limits_validate l = Inr () \<and> Extensions_validate es = Inr ()"
  by (clarsimp simp: net_Limits_from_extensions_def Let_def enc_iff reject_Inr_iff)

lemma net_to_valid:
  "(\<exists>es. net_Limits_to_extensions l = Inr es) \<longleftrightarrow> net_Limits_validate l = Inr ()"
  by (simp add: net_Limits_to_extensions_def enc_iff Let_def)

lemma net_to_optional:
  "net_Limits_to_extensions l = Inr es \<Longrightarrow> list_all (\<lambda>e. \<not> e_required e) es"
  by (auto simp: net_Limits_to_extensions_def enc_iff)

interpretation net: family_limits net_Limits_validate net_Limits_to_extensions
  net_Limits_from_extensions "[1, 2, 3, 4, 5, 6, 7, 8, 9, 10, 11, 12, 13]"
  using net_to_valid by unfold_locales (blast intro: net_from_to net_from_known net_to_optional dest: net_from_valid)+

lemma channel_from_to:
  "channel_Limits_to_extensions l = Inr es \<Longrightarrow> channel_Limits_from_extensions es = Inr l"
  by (cases l) (auto simp: channel_Limits_to_extensions_def channel_Limits_from_extensions_def
      limit_block enc_iff Let_def)

lemma channel_from_known:
  "Extensions_validate es = Inr () \<Longrightarrow> (\<And>e. e \<in> set es \<Longrightarrow> e_required e \<Longrightarrow> e_tag e \<in> set [1, 2, 3, 4, 5, 6, 7, 8, 9])
     \<Longrightarrow> channel_Limits_from_extensions (restrict_tags [1, 2, 3, 4, 5, 6, 7, 8, 9] es) = channel_Limits_from_extensions es"
  by (simp add: channel_Limits_from_extensions_def reject_restricted read_restricted)

lemma channel_from_valid:
  "channel_Limits_from_extensions es = Inr l \<Longrightarrow>
     channel_Limits_validate l = Inr () \<and> Extensions_validate es = Inr ()"
  by (clarsimp simp: channel_Limits_from_extensions_def Let_def enc_iff reject_Inr_iff)

lemma channel_to_valid:
  "(\<exists>es. channel_Limits_to_extensions l = Inr es) \<longleftrightarrow> channel_Limits_validate l = Inr ()"
  by (simp add: channel_Limits_to_extensions_def enc_iff Let_def)

lemma channel_to_optional:
  "channel_Limits_to_extensions l = Inr es \<Longrightarrow> list_all (\<lambda>e. \<not> e_required e) es"
  by (auto simp: channel_Limits_to_extensions_def enc_iff)

interpretation channel: family_limits channel_Limits_validate channel_Limits_to_extensions
  channel_Limits_from_extensions "[1, 2, 3, 4, 5, 6, 7, 8, 9]"
  using channel_to_valid by unfold_locales (blast intro: channel_from_to channel_from_known channel_to_optional dest: channel_from_valid)+

lemma extension_from_to:
  "extension_Limits_to_extensions l = Inr es \<Longrightarrow> extension_Limits_from_extensions es = Inr l"
  by (cases l) (auto simp: extension_Limits_to_extensions_def extension_Limits_from_extensions_def
      limit_block enc_iff Let_def)

lemma extension_from_known:
  "Extensions_validate es = Inr () \<Longrightarrow> (\<And>e. e \<in> set es \<Longrightarrow> e_required e \<Longrightarrow> e_tag e \<in> set [1, 2, 3, 4, 5, 6, 7, 8, 9, 10, 11, 12, 13, 14])
     \<Longrightarrow> extension_Limits_from_extensions (restrict_tags [1, 2, 3, 4, 5, 6, 7, 8, 9, 10, 11, 12, 13, 14] es) = extension_Limits_from_extensions es"
  by (simp add: extension_Limits_from_extensions_def reject_restricted read_restricted)

lemma extension_from_valid:
  "extension_Limits_from_extensions es = Inr l \<Longrightarrow>
     extension_Limits_validate l = Inr () \<and> Extensions_validate es = Inr ()"
  by (clarsimp simp: extension_Limits_from_extensions_def Let_def enc_iff reject_Inr_iff)

lemma extension_to_valid:
  "(\<exists>es. extension_Limits_to_extensions l = Inr es) \<longleftrightarrow> extension_Limits_validate l = Inr ()"
  by (simp add: extension_Limits_to_extensions_def enc_iff Let_def)

lemma extension_to_optional:
  "extension_Limits_to_extensions l = Inr es \<Longrightarrow> list_all (\<lambda>e. \<not> e_required e) es"
  by (auto simp: extension_Limits_to_extensions_def enc_iff)

interpretation extension: family_limits extension_Limits_validate extension_Limits_to_extensions
  extension_Limits_from_extensions "[1, 2, 3, 4, 5, 6, 7, 8, 9, 10, 11, 12, 13, 14]"
  using extension_to_valid by unfold_locales (blast intro: extension_from_to extension_from_known extension_to_optional dest: extension_from_valid)+

lemma events_from_to:
  "events_Limits_to_extensions l = Inr es \<Longrightarrow> events_Limits_from_extensions es = Inr l"
  by (cases l) (auto simp: events_Limits_to_extensions_def events_Limits_from_extensions_def
      limit_block enc_iff Let_def)

lemma events_from_known:
  "Extensions_validate es = Inr () \<Longrightarrow> (\<And>e. e \<in> set es \<Longrightarrow> e_required e \<Longrightarrow> e_tag e \<in> set [1, 2, 3, 4, 5, 6, 7, 8])
     \<Longrightarrow> events_Limits_from_extensions (restrict_tags [1, 2, 3, 4, 5, 6, 7, 8] es) = events_Limits_from_extensions es"
  by (simp add: events_Limits_from_extensions_def reject_restricted read_restricted)

lemma events_from_valid:
  "events_Limits_from_extensions es = Inr l \<Longrightarrow>
     events_Limits_validate l = Inr () \<and> Extensions_validate es = Inr ()"
  by (clarsimp simp: events_Limits_from_extensions_def Let_def enc_iff reject_Inr_iff)

lemma events_to_valid:
  "(\<exists>es. events_Limits_to_extensions l = Inr es) \<longleftrightarrow> events_Limits_validate l = Inr ()"
  by (simp add: events_Limits_to_extensions_def enc_iff Let_def)

lemma events_to_optional:
  "events_Limits_to_extensions l = Inr es \<Longrightarrow> list_all (\<lambda>e. \<not> e_required e) es"
  by (auto simp: events_Limits_to_extensions_def enc_iff)

interpretation events: family_limits events_Limits_validate events_Limits_to_extensions
  events_Limits_from_extensions "[1, 2, 3, 4, 5, 6, 7, 8]"
  using events_to_valid by unfold_locales (blast intro: events_from_to events_from_known events_to_optional dest: events_from_valid)+

lemma env_from_to:
  "env_Limits_to_extensions l = Inr es \<Longrightarrow> env_Limits_from_extensions es = Inr l"
  by (cases l) (auto simp: env_Limits_to_extensions_def env_Limits_from_extensions_def
      limit_block enc_iff Let_def)

lemma env_from_known:
  "Extensions_validate es = Inr () \<Longrightarrow> (\<And>e. e \<in> set es \<Longrightarrow> e_required e \<Longrightarrow> e_tag e \<in> set [1, 2, 3, 4, 5, 6])
     \<Longrightarrow> env_Limits_from_extensions (restrict_tags [1, 2, 3, 4, 5, 6] es) = env_Limits_from_extensions es"
  by (simp add: env_Limits_from_extensions_def reject_restricted read_restricted)

lemma env_from_valid:
  "env_Limits_from_extensions es = Inr l \<Longrightarrow>
     env_Limits_validate l = Inr () \<and> Extensions_validate es = Inr ()"
  by (clarsimp simp: env_Limits_from_extensions_def Let_def enc_iff reject_Inr_iff)

lemma env_to_valid:
  "(\<exists>es. env_Limits_to_extensions l = Inr es) \<longleftrightarrow> env_Limits_validate l = Inr ()"
  by (simp add: env_Limits_to_extensions_def enc_iff Let_def)

lemma env_to_optional:
  "env_Limits_to_extensions l = Inr es \<Longrightarrow> list_all (\<lambda>e. \<not> e_required e) es"
  by (auto simp: env_Limits_to_extensions_def enc_iff)

interpretation env: family_limits env_Limits_validate env_Limits_to_extensions
  env_Limits_from_extensions "[1, 2, 3, 4, 5, 6]"
  using env_to_valid by unfold_locales (blast intro: env_from_to env_from_known env_to_optional dest: env_from_valid)+

end
