(* ===== verification/Limits_Process.thy ===== *)
theory Limits_Process
  imports Family_Limits
begin

unbundle bit_operations_syntax

text \<open>
  The limit block of the process family (\<^verbatim>\<open>crates/yas/src/process.rs\<close>).  It carries two generations
  of limits: the first ten tags hold values clamped to the original hard maxima, which older clients
  insist on, and the extended tags travel only when they say more.
\<close>

section \<open>Process\<close>

record process_Limits =
  process_max_argc :: u32
  process_max_arg_bytes :: u32
  process_max_envc :: u32
  process_max_env_bytes :: u32
  process_max_processes_per_session :: u32
  process_max_processes :: u32
  process_max_pending_spawns :: u32
  process_max_stream_buffer_bytes :: u64
  process_max_detached_retention_ns :: u64
  process_max_mutation_replays :: u32
  process_launcher_flags :: u32
  process_max_pending_waits :: u32
  process_max_pending_operations :: u32

definition process_HARD :: process_Limits where
  "process_HARD = \<lparr>process_max_argc = 1024, process_max_arg_bytes = 1048576, process_max_envc = 16384,
     process_max_env_bytes = 1048576, process_max_processes_per_session = 16384,
     process_max_processes = 65536, process_max_pending_spawns = 4096,
     process_max_stream_buffer_bytes = 1073741824,
     process_max_detached_retention_ns = 300000000000,
     process_max_mutation_replays = 65536, process_launcher_flags = 60,
     process_max_pending_waits = 65536, process_max_pending_operations = 16384\<rparr>"

definition process_Limits_validate :: "process_Limits \<Rightarrow> error + unit" where
  "process_Limits_validate l =
     (if \<not> valid_limit (process_max_argc l) (process_max_argc process_HARD)
        \<or> \<not> valid_limit (process_max_arg_bytes l) (process_max_arg_bytes process_HARD)
        \<or> \<not> valid_limit (process_max_envc l) (process_max_envc process_HARD)
        \<or> \<not> valid_limit (process_max_env_bytes l) (process_max_env_bytes process_HARD)
        \<or> \<not> valid_limit (process_max_processes_per_session l) (process_max_processes_per_session process_HARD)
        \<or> \<not> valid_limit (process_max_processes l) (process_max_processes process_HARD)
        \<or> \<not> valid_limit (process_max_pending_spawns l) (process_max_pending_spawns process_HARD)
        \<or> process_max_stream_buffer_bytes l = 0
        \<or> process_max_stream_buffer_bytes process_HARD < process_max_stream_buffer_bytes l
        \<or> process_max_detached_retention_ns l = 0
        \<or> process_max_detached_retention_ns process_HARD < process_max_detached_retention_ns l
        \<or> \<not> valid_limit (process_max_mutation_replays l) (process_max_mutation_replays process_HARD)
        \<or> process_launcher_flags l AND NOT (process_launcher_flags process_HARD) \<noteq> 0
        \<or> \<not> valid_limit (process_max_pending_waits l) (process_max_pending_waits process_HARD)
        \<or> \<not> valid_limit (process_max_pending_operations l) (process_max_pending_operations process_HARD)
      then Inl (Invalid ''Process family limit'') else Inr ())"

definition process_DEFAULT :: process_Limits where
  "process_DEFAULT = process_HARD\<lparr>process_max_envc := 256, process_max_processes_per_session := 16,
     process_max_processes := 64, process_max_pending_spawns := 8,
     process_max_stream_buffer_bytes := 8388608, process_max_pending_waits := 32,
     process_max_pending_operations := 16, process_launcher_flags := 0\<rparr>"

definition SPAWN_LAUNCHER_FLAGS :: u32 where
  "SPAWN_LAUNCHER_FLAGS = 12"

definition SPAWN_LAUNCHER_FLAGS_EXTENDED :: u32 where
  "SPAWN_LAUNCHER_FLAGS_EXTENDED = 60"

text \<open>An entry pushed under a condition.\<close>

definition push_if :: "bool \<Rightarrow> 'a \<Rightarrow> 'a list" where
  "push_if c e = (if c then [e] else [])"

definition process_read_optional_limit_u32 :: "Extensions \<Rightarrow> u64 \<Rightarrow> error + u32 option" where
  "process_read_optional_limit_u32 es tag =
     (case find_extension (ucast tag) es of
        None \<Rightarrow> Inr None
      | Some e \<Rightarrow> if length (e_value e) = 4 then Inr (Some (from_le (e_value e)))
                  else Inl (Invalid ''Process family limit length''))"

definition process_read_optional_limit_u64 :: "Extensions \<Rightarrow> u64 \<Rightarrow> error + u64 option" where
  "process_read_optional_limit_u64 es tag =
     (case find_extension (ucast tag) es of
        None \<Rightarrow> Inr None
      | Some e \<Rightarrow> if length (e_value e) = 8 then Inr (Some (from_le (e_value e)))
                  else Inl (Invalid ''Process family limit length''))"

text \<open>The closure \<^verbatim>\<open>u32_or\<close> of \<^verbatim>\<open>from_extensions\<close>, and its 64-bit counterpart.\<close>

definition process_u32_or :: "Extensions \<Rightarrow> u64 \<Rightarrow> u32 \<Rightarrow> error + u32" where
  "process_u32_or es tag fallback =
     ebind (process_read_optional_limit_u32 es tag)
       (\<lambda>r. Inr (case r of None \<Rightarrow> fallback | Some v \<Rightarrow> v))"

definition process_u64_or :: "Extensions \<Rightarrow> u64 \<Rightarrow> u64 \<Rightarrow> error + u64" where
  "process_u64_or es tag fallback =
     ebind (process_read_optional_limit_u64 es tag)
       (\<lambda>r. Inr (case r of None \<Rightarrow> fallback | Some v \<Rightarrow> v))"

text \<open>The entries in the order they are pushed; \<^verbatim>\<open>to_extensions\<close> sorts them by tag.\<close>

definition process_pushed :: "process_Limits \<Rightarrow> Extensions" where
  "process_pushed l =
     (let legacy = process_DEFAULT;
          legacy_launcher_flags = process_launcher_flags l AND SPAWN_LAUNCHER_FLAGS
      in [limit_u32 1 (process_max_argc l),
          limit_u32 2 (process_max_arg_bytes l),
          limit_u32 3 (min (process_max_envc l) (process_max_envc legacy)),
          limit_u32 4 (process_max_env_bytes l),
          limit_u32 5 (min (process_max_processes_per_session l) (process_max_processes_per_session legacy)),
          limit_u32 6 (min (process_max_processes l) (process_max_processes legacy)),
          limit_u32 7 (min (process_max_pending_spawns l) (process_max_pending_spawns legacy)),
          limit_u64 8 (min (process_max_stream_buffer_bytes l) (process_max_stream_buffer_bytes legacy)),
          limit_u64 9 (process_max_detached_retention_ns l),
          limit_u32 10 (process_max_mutation_replays l)]
        @ push_if (process_max_processes_per_session legacy < process_max_processes_per_session l)
            (limit_u32 12 (process_max_processes_per_session l))
        @ push_if (process_max_processes legacy < process_max_processes l)
            (limit_u32 13 (process_max_processes l))
        @ push_if (process_max_pending_spawns legacy < process_max_pending_spawns l)
            (limit_u32 14 (process_max_pending_spawns l))
        @ push_if (process_max_envc legacy < process_max_envc l)
            (limit_u32 16 (process_max_envc l))
        @ push_if (process_max_stream_buffer_bytes legacy < process_max_stream_buffer_bytes l)
            (limit_u64 15 (process_max_stream_buffer_bytes l))
        @ push_if (process_max_pending_waits l \<noteq> process_max_pending_waits legacy)
            (limit_u32 17 (process_max_pending_waits l))
        @ push_if (process_max_pending_operations l \<noteq> process_max_pending_operations legacy)
            (limit_u32 18 (process_max_pending_operations l))
        @ push_if (legacy_launcher_flags \<noteq> 0) (limit_u32 11 legacy_launcher_flags)
        @ push_if (process_launcher_flags l \<noteq> legacy_launcher_flags)
            (limit_u32 19 (process_launcher_flags l)))"

definition process_Limits_to_extensions :: "process_Limits \<Rightarrow> error + Extensions" where
  "process_Limits_to_extensions l =
     ebind (process_Limits_validate l) (\<lambda>_. Inr (sort_key e_tag (process_pushed l)))"

definition process_Limits_from_extensions :: "Extensions \<Rightarrow> error + process_Limits" where
  "process_Limits_from_extensions es =
     ebind (reject_unknown_required_extensions es
              [1, 2, 3, 4, 5, 6, 7, 8, 9, 10, 11, 12, 13, 14, 15, 16, 17, 18, 19]
              ''unknown required Process extension'') (\<lambda>_.
     let legacy = process_DEFAULT in
     ebind (family_limit_u32 ''Process'' es 3) (\<lambda>max_envc.
     ebind (family_limit_u32 ''Process'' es 5) (\<lambda>max_processes_per_session.
     ebind (family_limit_u32 ''Process'' es 6) (\<lambda>max_processes.
     ebind (family_limit_u32 ''Process'' es 7) (\<lambda>max_pending_spawns.
     ebind (family_limit_u64 ''Process'' es 8) (\<lambda>max_stream_buffer_bytes.
     ebind (if list_ex (\<lambda>e. e_tag e = 11) es then family_limit_u32 ''Process'' es 11 else Inr 0)
       (\<lambda>legacy_launcher_flags.
     ebind (family_limit_u32 ''Process'' es 1) (\<lambda>argc.
     ebind (family_limit_u32 ''Process'' es 2) (\<lambda>arg_bytes.
     ebind (process_u32_or es 16 max_envc) (\<lambda>envc.
     ebind (family_limit_u32 ''Process'' es 4) (\<lambda>env_bytes.
     ebind (process_u32_or es 12 max_processes_per_session) (\<lambda>processes_per_session.
     ebind (process_u32_or es 13 max_processes) (\<lambda>processes.
     ebind (process_u32_or es 14 max_pending_spawns) (\<lambda>pending_spawns.
     ebind (process_u64_or es 15 max_stream_buffer_bytes) (\<lambda>stream_buffer_bytes.
     ebind (family_limit_u64 ''Process'' es 9) (\<lambda>detached_retention_ns.
     ebind (family_limit_u32 ''Process'' es 10) (\<lambda>mutation_replays.
     ebind (process_read_optional_limit_u32 es 19) (\<lambda>flags.
     ebind (process_u32_or es 17 (process_max_pending_waits legacy)) (\<lambda>pending_waits.
     ebind (process_u32_or es 18 (process_max_pending_operations legacy)) (\<lambda>pending_operations.
     let v = \<lparr>process_max_argc = argc, process_max_arg_bytes = arg_bytes, process_max_envc = envc,
              process_max_env_bytes = env_bytes,
              process_max_processes_per_session = processes_per_session,
              process_max_processes = processes, process_max_pending_spawns = pending_spawns,
              process_max_stream_buffer_bytes = stream_buffer_bytes,
              process_max_detached_retention_ns = detached_retention_ns,
              process_max_mutation_replays = mutation_replays,
              process_launcher_flags =
                (case flags of None \<Rightarrow> legacy_launcher_flags
                 | Some f \<Rightarrow> f AND SPAWN_LAUNCHER_FLAGS_EXTENDED),
              process_max_pending_waits = pending_waits,
              process_max_pending_operations = pending_operations\<rparr> in
     if process_max_envc legacy < max_envc
        \<or> process_max_processes_per_session legacy < max_processes_per_session
        \<or> process_max_processes legacy < max_processes
        \<or> process_max_pending_spawns legacy < max_pending_spawns
        \<or> process_max_stream_buffer_bytes legacy < max_stream_buffer_bytes
        \<or> process_max_envc v < max_envc
        \<or> process_max_processes_per_session v < max_processes_per_session
        \<or> process_max_processes v < max_processes
        \<or> process_max_pending_spawns v < max_pending_spawns
        \<or> process_max_stream_buffer_bytes v < max_stream_buffer_bytes
        \<or> legacy_launcher_flags AND NOT SPAWN_LAUNCHER_FLAGS \<noteq> 0
        \<or> process_launcher_flags v AND SPAWN_LAUNCHER_FLAGS \<noteq> legacy_launcher_flags
     then Inl (Invalid ''Process family limit'')
     else ebind (process_Limits_validate v) (\<lambda>_. Inr v)))))))))))))))))))))"

lemma find_extension_sort: "find_extension t (sort_key e_tag es) = find_extension t es"
proof -
  have find_hd: "find P xs = (case filter P xs of [] \<Rightarrow> None | x # _ \<Rightarrow> Some x)" for P and xs :: Extensions
    by (induction xs) auto
  show ?thesis
    by (simp add: find_extension_def find_hd sort_key_stable)
qed

lemma find_extension_append:
  "find_extension t (xs @ ys) =
     (case find_extension t xs of None \<Rightarrow> find_extension t ys | Some e \<Rightarrow> Some e)"
  by (induction xs) (simp_all add: find_extension_def)

lemma find_extension_push_if:
  "find_extension t (push_if c e) = (if c \<and> e_tag e = t then Some e else None)"
  by (simp add: find_extension_def push_if_def)

lemma push_if_simps:
  "x \<in> set (push_if c e) \<longleftrightarrow> c \<and> x = e"
  "map f (push_if c e) = push_if c (f e)"
  "distinct (push_if c e)"
  "set (push_if c e) \<inter> S = {} \<longleftrightarrow> (c \<longrightarrow> e \<notin> S)"
  "list_all P (push_if c e) \<longleftrightarrow> (c \<longrightarrow> P e)"
  "list_ex P (push_if c e) \<longleftrightarrow> c \<and> P e"
  by (auto simp: push_if_def)

lemma length_push_if: "length (push_if c e) \<le> 1"
  by (simp add: push_if_def)

lemma Extensions_validate_sort:
  assumes "distinct (map e_tag es)" and "length es \<le> 4096"
  shows "Extensions_validate (sort_key e_tag es) = Inr ()"
proof -
  have "sorted_wrt (<) (map e_tag (sort_key e_tag es))"
    using assms(1) by (simp add: strict_sorted_iff distinct_map)
  then show ?thesis
    using assms(2)
    by (simp add: Extensions_validate_iff HARD_MAX_EXTENSION_ENTRIES_def sorted_wrt_map)
qed

lemma process_pushed_distinct: "distinct (map e_tag (process_pushed l))"
  by (simp add: process_pushed_def Let_def push_if_simps Int_Un_distrib)

lemma process_pushed_optional: "list_all (\<lambda>e. \<not> e_required e) (process_pushed l)"
  by (simp add: process_pushed_def Let_def push_if_simps)

lemma process_pushed_length: "length (process_pushed l) \<le> 4096"
proof -
  have "length (process_pushed l) \<le> 10 + (1 + (1 + (1 + (1 + (1 + (1 + (1 + (1 + 1))))))))"
    unfolding process_pushed_def Let_def length_append
    by (intro add_mono length_push_if) simp
  then show ?thesis
    by simp
qed

lemma process_reject_sorted:
  "reject_unknown_required_extensions (sort_key e_tag (process_pushed l)) known c = Inr ()"
  using Extensions_validate_sort[OF process_pushed_distinct process_pushed_length]
    process_pushed_optional[of l]
  by (simp add: reject_Inr_iff list_all_iff)

lemma read_sorted:
  "family_limit_u32 f (sort_key e_tag es) = family_limit_u32 f es"
  "family_limit_u64 f (sort_key e_tag es) = family_limit_u64 f es"
  "process_read_optional_limit_u32 (sort_key e_tag es) = process_read_optional_limit_u32 es"
  "process_read_optional_limit_u64 (sort_key e_tag es) = process_read_optional_limit_u64 es"
  "list_ex P (sort_key e_tag es) = list_ex P es"
  by (simp_all add: fun_eq_iff family_limit_u32_def family_limit_u64_def list_ex_iff
      process_read_optional_limit_u32_def process_read_optional_limit_u64_def find_extension_sort)

lemmas process_find = process_pushed_def Let_def family_limit_u32_def family_limit_u64_def
  process_read_optional_limit_u32_def process_read_optional_limit_u64_def
  find_extension_append find_extension_push_if find_extension_simps from_le_limit
  process_DEFAULT_def SPAWN_LAUNCHER_FLAGS_def

lemma process_reads:
  "family_limit_u32 f (process_pushed l) 1 = Inr (process_max_argc l)"
  "family_limit_u32 f (process_pushed l) 2 = Inr (process_max_arg_bytes l)"
  "family_limit_u32 f (process_pushed l) 3 = Inr (min (process_max_envc l) 256)"
  "family_limit_u32 f (process_pushed l) 4 = Inr (process_max_env_bytes l)"
  "family_limit_u32 f (process_pushed l) 5 = Inr (min (process_max_processes_per_session l) 16)"
  "family_limit_u32 f (process_pushed l) 6 = Inr (min (process_max_processes l) 64)"
  "family_limit_u32 f (process_pushed l) 7 = Inr (min (process_max_pending_spawns l) 8)"
  "family_limit_u64 f (process_pushed l) 8 = Inr (min (process_max_stream_buffer_bytes l) 8388608)"
  "family_limit_u64 f (process_pushed l) 9 = Inr (process_max_detached_retention_ns l)"
  "family_limit_u32 f (process_pushed l) 10 = Inr (process_max_mutation_replays l)"
  by (simp_all add: process_find)

lemma process_read_flags:
  "(if list_ex (\<lambda>e. e_tag e = 11) (process_pushed l) then family_limit_u32 f (process_pushed l) 11
    else Inr 0) = Inr (process_launcher_flags l AND 12)"
  "process_read_optional_limit_u32 (process_pushed l) 19 =
     Inr (if process_launcher_flags l = process_launcher_flags l AND 12 then None
          else Some (process_launcher_flags l))"
  by (simp_all add: process_find push_if_simps)

lemma process_optional_reads:
  "process_u32_or (process_pushed l) 16 (min (process_max_envc l) 256) = Inr (process_max_envc l)"
  "process_u32_or (process_pushed l) 12 (min (process_max_processes_per_session l) 16)
     = Inr (process_max_processes_per_session l)"
  "process_u32_or (process_pushed l) 13 (min (process_max_processes l) 64) = Inr (process_max_processes l)"
  "process_u32_or (process_pushed l) 14 (min (process_max_pending_spawns l) 8)
     = Inr (process_max_pending_spawns l)"
  "process_u64_or (process_pushed l) 15 (min (process_max_stream_buffer_bytes l) 8388608)
     = Inr (process_max_stream_buffer_bytes l)"
  "process_u32_or (process_pushed l) 17 32 = Inr (process_max_pending_waits l)"
  "process_u32_or (process_pushed l) 18 16 = Inr (process_max_pending_operations l)"
  by (simp_all add: process_u32_or_def process_u64_or_def process_find min_def not_le)

lemma process_valid_flags:
  assumes "process_Limits_validate l = Inr ()"
  shows "process_launcher_flags l AND SPAWN_LAUNCHER_FLAGS_EXTENDED = process_launcher_flags l"
  using assms
  by (intro mask_and) (simp add: process_Limits_validate_def process_HARD_def
      SPAWN_LAUNCHER_FLAGS_EXTENDED_def split: if_splits)

lemma legacy_flags_ok: "(f AND 12) AND - 13 = (0 :: u32)" "(f AND 12) AND 12 = (f AND 12 :: u32)"
  by (simp_all add: and.assoc)

lemma process_from_to:
  assumes "process_Limits_to_extensions l = Inr es"
  shows "process_Limits_from_extensions es = Inr l"
proof -
  have valid: "process_Limits_validate l = Inr ()" and es: "es = sort_key e_tag (process_pushed l)"
    using assms by (auto simp: process_Limits_to_extensions_def enc_iff)
  let ?f = "process_launcher_flags l"
  have flags: "(case if ?f = ?f AND 12 then None else Some ?f of
      None \<Rightarrow> ?f AND 12 | Some f \<Rightarrow> f AND SPAWN_LAUNCHER_FLAGS_EXTENDED) = ?f"
    using process_valid_flags[OF valid] by simp
  have optional: "process_u32_or (sort_key e_tag xs) = process_u32_or xs"
    "process_u64_or (sort_key e_tag xs) = process_u64_or xs" for xs
    by (simp_all add: fun_eq_iff process_u32_or_def process_u64_or_def read_sorted)
  have legacy: "process_max_envc process_DEFAULT = 256"
    "process_max_processes_per_session process_DEFAULT = 16"
    "process_max_processes process_DEFAULT = 64" "process_max_pending_spawns process_DEFAULT = 8"
    "process_max_stream_buffer_bytes process_DEFAULT = 8388608"
    "process_max_pending_waits process_DEFAULT = 32"
    "process_max_pending_operations process_DEFAULT = 16"
    by (simp_all add: process_DEFAULT_def)
  show ?thesis
    unfolding process_Limits_from_extensions_def es process_reject_sorted Let_def read_sorted optional
      ebind_simps process_reads process_read_flags legacy process_optional_reads flags
    using valid by (cases l) (simp add: SPAWN_LAUNCHER_FLAGS_def legacy_flags_ok not_less)
qed

lemma process_read_restricted:
  assumes "ucast t \<in> set known"
  shows "process_read_optional_limit_u32 (restrict_tags known es) t = process_read_optional_limit_u32 es t"
    and "process_u32_or (restrict_tags known es) t = process_u32_or es t"
    and "process_u64_or (restrict_tags known es) t = process_u64_or es t"
  by (simp_all add: fun_eq_iff process_u32_or_def process_u64_or_def process_read_optional_limit_u32_def
      process_read_optional_limit_u64_def find_restricted(1)[OF assms])

lemma process_from_known:
  "Extensions_validate es = Inr () \<Longrightarrow> (\<And>e. e \<in> set es \<Longrightarrow> e_required e \<Longrightarrow>
       e_tag e \<in> set [1, 2, 3, 4, 5, 6, 7, 8, 9, 10, 11, 12, 13, 14, 15, 16, 17, 18, 19]) \<Longrightarrow>
     process_Limits_from_extensions
       (restrict_tags [1, 2, 3, 4, 5, 6, 7, 8, 9, 10, 11, 12, 13, 14, 15, 16, 17, 18, 19] es)
     = process_Limits_from_extensions es"
  by (simp add: process_Limits_from_extensions_def reject_restricted read_restricted find_restricted
      process_read_restricted)

lemma process_from_valid:
  "process_Limits_from_extensions es = Inr l \<Longrightarrow>
     process_Limits_validate l = Inr () \<and> Extensions_validate es = Inr ()"
  by (clarsimp simp: process_Limits_from_extensions_def Let_def enc_iff reject_Inr_iff)

lemma process_to_valid:
  "(\<exists>es. process_Limits_to_extensions l = Inr es) \<longleftrightarrow> process_Limits_validate l = Inr ()"
  by (simp add: process_Limits_to_extensions_def enc_iff Let_def)

lemma process_to_optional:
  "process_Limits_to_extensions l = Inr es \<Longrightarrow> list_all (\<lambda>e. \<not> e_required e) es"
  by (auto simp: process_Limits_to_extensions_def enc_iff list_all_iff process_pushed_optional[unfolded list_all_iff])

interpretation process: family_limits process_Limits_validate process_Limits_to_extensions
  process_Limits_from_extensions "[1, 2, 3, 4, 5, 6, 7, 8, 9, 10, 11, 12, 13, 14, 15, 16, 17, 18, 19]"
  using process_to_valid by unfold_locales (blast intro: process_from_to process_from_known process_to_optional dest: process_from_valid)+

end
