(* ===== verification/Wire_Catalog.thy ===== *)
theory Wire_Catalog
  imports Wire_Core Wire_Frame Limits_Session Limits_Host Limits_Process
begin

unbundle bit_operations_syntax

text \<open>
  The Core family, second part: the catalogue of families a server selects (operations, runtime
  state, limits), the server's HELLO, SESSION_INFO and FAMILY_UPDATE, and the checks that tie them
  to the schema, to the client's HELLO and to the previous catalogue.
\<close>

section \<open>Limits of a known family\<close>

definition FAMILY_FONT :: u16 where "FAMILY_FONT = 0x24"
definition FAMILY_SURFACE :: u16 where "FAMILY_SURFACE = 0x20"
definition FAMILY_SELECTION :: u16 where "FAMILY_SELECTION = 0x21"
definition FAMILY_DESKTOP :: u16 where "FAMILY_DESKTOP = 0x22"
definition FAMILY_MEDIA :: u16 where "FAMILY_MEDIA = 0x23"
definition FAMILY_FS :: u16 where "FAMILY_FS = 0x30"
definition FAMILY_GIT :: u16 where "FAMILY_GIT = 0x31"
definition FAMILY_LSP :: u16 where "FAMILY_LSP = 0x32"
definition FAMILY_PROCESS :: u16 where "FAMILY_PROCESS = 0x40"
definition FAMILY_NET :: u16 where "FAMILY_NET = 0x41"
definition FAMILY_EXTENSION :: u16 where "FAMILY_EXTENSION = 0x43"
definition FAMILY_EVENTS :: u16 where "FAMILY_EVENTS = 0x44"
definition FAMILY_ENV :: u16 where "FAMILY_ENV = 0x45"

lemmas family_consts =
  FAMILY_CORE_def FAMILY_TRANSFER_def FAMILY_RELAY_def FAMILY_TERMINAL_def FAMILY_CLIENT_def
  FAMILY_KV_def FAMILY_CHANNEL_def FAMILY_FONT_def FAMILY_SURFACE_def FAMILY_SELECTION_def FAMILY_DESKTOP_def FAMILY_MEDIA_def
  FAMILY_FS_def FAMILY_GIT_def FAMILY_LSP_def FAMILY_PROCESS_def FAMILY_NET_def
  FAMILY_EXTENSION_def FAMILY_EVENTS_def FAMILY_ENV_def

definition validate_known_family_limits :: "u16 \<Rightarrow> u16 \<Rightarrow> Extensions \<Rightarrow> error + unit" where
  "validate_known_family_limits family_id version limits =
     (if version \<noteq> 1 then Inr ()
      else if family_id = FAMILY_RELAY then ebind (relay_Limits_from_extensions limits) (\<lambda>_. Inr ())
      else if family_id = FAMILY_FONT then ebind (font_Limits_from_extensions limits) (\<lambda>_. Inr ())
      else if family_id = FAMILY_TERMINAL then ebind (terminal_Limits_from_extensions limits) (\<lambda>_. Inr ())
      else if family_id = FAMILY_CLIENT then ebind (client_Limits_from_extensions limits) (\<lambda>_. Inr ())
      else if family_id = FAMILY_SURFACE then ebind (surface_Limits_from_extensions limits) (\<lambda>_. Inr ())
      else if family_id = FAMILY_SELECTION then ebind (selection_Limits_from_extensions limits) (\<lambda>_. Inr ())
      else if family_id = FAMILY_DESKTOP then ebind (desktop_Limits_from_extensions limits) (\<lambda>_. Inr ())
      else if family_id = FAMILY_MEDIA then ebind (media_Limits_from_extensions limits) (\<lambda>_. Inr ())
      else if family_id = FAMILY_FS then ebind (fs_Limits_from_extensions limits) (\<lambda>_. Inr ())
      else if family_id = FAMILY_GIT then ebind (git_Limits_from_extensions limits) (\<lambda>_. Inr ())
      else if family_id = FAMILY_LSP then ebind (lsp_Limits_from_extensions limits) (\<lambda>_. Inr ())
      else if family_id = FAMILY_KV then ebind (kv_Limits_from_extensions limits) (\<lambda>_. Inr ())
      else if family_id = FAMILY_PROCESS then ebind (process_Limits_from_extensions limits) (\<lambda>_. Inr ())
      else if family_id = FAMILY_NET then ebind (net_Limits_from_extensions limits) (\<lambda>_. Inr ())
      else if family_id = FAMILY_CHANNEL then ebind (channel_Limits_from_extensions limits) (\<lambda>_. Inr ())
      else if family_id = FAMILY_EXTENSION then ebind (extension_Limits_from_extensions limits) (\<lambda>_. Inr ())
      else if family_id = FAMILY_EVENTS then ebind (events_Limits_from_extensions limits) (\<lambda>_. Inr ())
      else if family_id = FAMILY_ENV then ebind (env_Limits_from_extensions limits) (\<lambda>_. Inr ())
      else Inr ())"

section \<open>Runtime state and operations\<close>

datatype RuntimeState = Available | Degraded | Unavailable

fun RuntimeState_wire :: "RuntimeState \<Rightarrow> u8" where
  "RuntimeState_wire Available = 0"
| "RuntimeState_wire Degraded = 1"
| "RuntimeState_wire Unavailable = 2"

definition RuntimeState_try_from :: "u8 \<Rightarrow> error + RuntimeState" where
  "RuntimeState_try_from v =
     (if v = 0 then Inr Available else if v = 1 then Inr Degraded
      else if v = 2 then Inr Unavailable else Inl (Invalid ''family runtime state''))"

record Operation =
  opn_server_accepts :: bool
  opn_server_sends :: bool
  opn_class :: Class
  opn_kind :: u16

definition CLIENT_TO_SERVER :: u8 where "CLIENT_TO_SERVER = 0"
definition SERVER_TO_CLIENT :: u8 where "SERVER_TO_CLIENT = 1"
definition DIRECTION_BIDIRECTIONAL :: u8 where "DIRECTION_BIDIRECTIONAL = 2"

definition DIRECTION_ACCEPTS :: u8 where "DIRECTION_ACCEPTS = 1"
definition DIRECTION_SENDS :: u8 where "DIRECTION_SENDS = 2"

definition Operation_from_schema :: "OperationMetadata \<Rightarrow> error + Operation" where
  "Operation_from_schema m =
     ebind (if om_class m = CLASS_EVENT then Inr Event
            else if om_class m = CLASS_REQUEST then Inr Request
            else Inl (Invalid ''schema operation class'')) (\<lambda>cls.
     ebind (if om_direction m = CLIENT_TO_SERVER then Inr (True, False)
            else if om_direction m = SERVER_TO_CLIENT then Inr (False, True)
            else if om_direction m = DIRECTION_BIDIRECTIONAL then Inr (True, True)
            else Inl (Invalid ''schema operation direction'')) (\<lambda>(accepts, sends).
       Inr \<lparr>opn_server_accepts = accepts, opn_server_sends = sends, opn_class = cls,
            opn_kind = om_kind m\<rparr>))"

definition Operation_validate :: "Operation \<Rightarrow> error + unit" where
  "Operation_validate p =
     (if (\<not> opn_server_accepts p \<and> \<not> opn_server_sends p) \<or> opn_class p = Result
      then Inl (Invalid ''family operation class or direction'') else Inr ())"

definition Operation_encode_to :: "Operation \<Rightarrow> error + bytes" where
  "Operation_encode_to p =
     ebind (Operation_validate p) (\<lambda>_.
       Inr (put_u8 ((of_bool (opn_server_accepts p) * DIRECTION_ACCEPTS)
                    OR (of_bool (opn_server_sends p) * DIRECTION_SENDS))
            @ put_u8 (Class_wire (opn_class p)) @ put_u16 (opn_kind p)))"

definition Operation_class :: "u8 \<Rightarrow> error + Class" where
  "Operation_class c =
     (if c = 0 then Inr Event else if c = 1 then Inr Request
      else Inl (Invalid ''family operation class''))"

definition Operation_decode_from :: "Operation reader" where
  "Operation_decode_from =
     rbind dec_u8 (\<lambda>direction.
     if direction = 0 \<or> direction AND NOT (DIRECTION_ACCEPTS OR DIRECTION_SENDS) \<noteq> 0
     then rfail (Invalid ''family operation direction'')
     else rbind dec_u8 (\<lambda>c.
     rbind (rlift (Operation_class c)) (\<lambda>cls.
     rbind dec_u16 (\<lambda>kind.
     let v = \<lparr>opn_server_accepts = (direction AND DIRECTION_ACCEPTS \<noteq> 0),
              opn_server_sends = (direction AND DIRECTION_SENDS \<noteq> 0),
              opn_class = cls, opn_kind = kind\<rparr> in
     rbind (rlift (Operation_validate v)) (\<lambda>_. rret v)))))"

section \<open>Family descriptors\<close>

record FamilyDescriptor =
  fd_family_id :: u16
  fd_version :: u16
  fd_runtime_state :: RuntimeState
  fd_operations :: "Operation list"
  fd_limits :: Extensions

text \<open>The body of the loop over the operations, \<open>before\<close> being the operations already visited.\<close>

definition FamilyDescriptor_check_operation ::
  "FamilyDescriptor \<Rightarrow> Operation list \<Rightarrow> Operation \<Rightarrow> error + unit" where
  "FamilyDescriptor_check_operation d before p =
     (if list_ex (\<lambda>q. opn_class q = opn_class p \<and> opn_kind q = opn_kind p) before
      then Inl (Invalid ''duplicate family operation'')
      else ebind (Operation_validate p) (\<lambda>_.
      case find (\<lambda>f. fm_id f = fd_family_id d \<and> fm_version f = fd_version d) FAMILIES of
        None \<Rightarrow> Inr ()
      | Some family \<Rightarrow>
          (case find (\<lambda>m. om_class m = Class_wire (opn_class p) \<and> om_kind m = opn_kind p)
                  (fm_operations family) of
             None \<Rightarrow> Inr ()
           | Some metadata \<Rightarrow>
               ebind (Operation_from_schema metadata) (\<lambda>allowed.
                 if opn_server_accepts p \<and> \<not> opn_server_accepts allowed
                    \<or> opn_server_sends p \<and> \<not> opn_server_sends allowed
                 then Inl (Invalid ''family operation direction exceeds schema'') else Inr ()))))"

fun FamilyDescriptor_check_operations ::
  "FamilyDescriptor \<Rightarrow> Operation list \<Rightarrow> Operation list \<Rightarrow> error + unit" where
  "FamilyDescriptor_check_operations d before [] = Inr ()"
| "FamilyDescriptor_check_operations d before (p # ps) =
     ebind (FamilyDescriptor_check_operation d before p) (\<lambda>_.
       FamilyDescriptor_check_operations d (before @ [p]) ps)"

text \<open>The body of the loop over the limits the schema lists.\<close>

fun limit_value :: "LimitValueType \<Rightarrow> bytes \<Rightarrow> u64" where
  "limit_value U32 v = ucast (from_le v :: u32)"
| "limit_value U64 v = from_le v"

definition check_limit_policy :: "Extensions \<Rightarrow> LimitMetadata \<Rightarrow> error + unit" where
  "check_limit_policy limits policy =
     (case find_extension (lm_tag policy) limits of
        None \<Rightarrow> if lm_required policy then Inl (Invalid ''missing required family limit'') else Inr ()
      | Some e \<Rightarrow>
          if length (e_value e) \<noteq> LimitValueType_width (lm_value_type policy)
          then Inl (Invalid ''family limit length'')
          else let v = limit_value (lm_value_type policy) (e_value e) in
          if v < lm_hard_min policy then Inl (Invalid ''family limit below hard minimum'')
          else if lm_hard_max policy < v then Inl (LimitExceeded ''family limit'' v (lm_hard_max policy))
          else Inr ())"

definition FamilyDescriptor_validate :: "FamilyDescriptor \<Rightarrow> error + unit" where
  "FamilyDescriptor_validate d =
     (if fd_version d = 0 \<or> 65535 < length (fd_operations d)
      then Inl (Invalid ''family descriptor version or operation count'')
      else ebind (FamilyDescriptor_check_operations d [] (fd_operations d)) (\<lambda>_.
      ebind (Extensions_validate (fd_limits d)) (\<lambda>_.
      if list_ex e_required (fd_limits d) then Inl (Invalid ''required family limit extension'')
      else case family_metadata (fd_family_id d) (fd_version d) of
        None \<Rightarrow> Inr ()
      | Some family \<Rightarrow>
          ebind (check_each (check_limit_policy (fd_limits d)) (fm_limits family)) (\<lambda>_.
            validate_known_family_limits (fd_family_id d) (fd_version d) (fd_limits d)))))"

definition FamilyDescriptor_operation :: "FamilyDescriptor \<Rightarrow> Class \<Rightarrow> u16 \<Rightarrow> Operation option" where
  "FamilyDescriptor_operation d cls kind =
     find (\<lambda>p. opn_class p = cls \<and> opn_kind p = kind) (fd_operations d)"

definition FamilyDescriptor_encode_record :: "FamilyDescriptor \<Rightarrow> error + bytes" where
  "FamilyDescriptor_encode_record d =
     ebind (FamilyDescriptor_validate d) (\<lambda>_.
     ebind (encode_all Operation_encode_to (fd_operations d)) (\<lambda>operations.
     ebind (Extensions_encode_entries (fd_limits d)) (\<lambda>limits.
     ebind (put_len_u32 (length limits)) (\<lambda>limits_len.
     let body = put_u16 (fd_family_id d) @ put_u16 (fd_version d)
                @ put_u8 (RuntimeState_wire (fd_runtime_state d)) @ put_u8 0
                @ put_u16 (of_nat (length (fd_operations d))) @ operations @ limits_len @ limits in
     ebind (put_len_u32 (length body)) (\<lambda>body_len. Inr (body_len @ body))))))"

definition FamilyDescriptor_body :: "FamilyDescriptor reader" where
  "FamilyDescriptor_body =
     rbind dec_u16 (\<lambda>family_id. rbind dec_u16 (\<lambda>version.
     rbind dec_u8 (\<lambda>s. rbind (rlift (RuntimeState_try_from s)) (\<lambda>runtime_state.
     rbind dec_u8 (\<lambda>reserved.
     if reserved \<noteq> 0 then rfail (Invalid ''family descriptor reserved byte'')
     else rbind dec_u16 (\<lambda>operation_count.
     rbind (bounded_list (unat operation_count) 4 ''family operation count'' Operation_decode_from) (\<lambda>operations.
     rbind dec_len_bytes_u32 (\<lambda>entries. rbind (rlift (Extensions_decode_entries entries)) (\<lambda>limits.
       rret \<lparr>fd_family_id = family_id, fd_version = version, fd_runtime_state = runtime_state,
             fd_operations = operations, fd_limits = limits\<rparr>)))))))))"

text \<open>\<^verbatim>\<open>decode_record\<close>: the record is a sub-decoder that must be used up.\<close>

definition FamilyDescriptor_decode_record :: "FamilyDescriptor reader" where
  "FamilyDescriptor_decode_record =
     rbind dec_len_bytes_u32 (\<lambda>record_bytes.
       rlift (rrun (rbind FamilyDescriptor_body (\<lambda>v. rbind dec_finish (\<lambda>_.
         rlift (ebind (FamilyDescriptor_validate v) (\<lambda>_. Inr v))))) record_bytes))"

definition validate_family_dependencies :: "FamilyDescriptor list \<Rightarrow> string \<Rightarrow> error + unit" where
  "validate_family_dependencies families ctxt =
     check_each (\<lambda>family.
       case family_metadata (fd_family_id family) (fd_version family) of
         None \<Rightarrow> Inr ()
       | Some metadata \<Rightarrow>
           if list_ex (\<lambda>dependency. \<not> list_ex (\<lambda>c. fd_family_id c = dependency) families)
                (fm_dependencies metadata)
           then Inl (Invalid ctxt) else Inr ()) families"

definition CORE_VERSION :: u16 where "CORE_VERSION = 1"

text \<open>The check of the family list that the server's HELLO and SESSION_INFO share.\<close>

definition family_order :: "FamilyDescriptor list \<Rightarrow> string \<Rightarrow> error + unit" where
  "family_order families ctxt =
     (if families = [] \<or> fd_family_id (hd families) \<noteq> FAMILY_CORE
         \<or> fd_version (hd families) \<noteq> CORE_VERSION
         \<or> 65535 < length families
         \<or> \<not> successively (\<lambda>a b. fd_family_id a < fd_family_id b) families
      then Inl (Invalid ctxt) else Inr ())"

section \<open>The server's HELLO\<close>

record ServerHello =
  se_minor :: u16
  se_boot_id :: bytes
  se_session_id :: bytes
  se_receive :: ReceiveLimits
  se_server_monotonic_ns :: u64
  se_catalog_revision :: u64
  se_server_name :: bytes
  se_server_release :: bytes
  se_families :: "FamilyDescriptor list"
  se_extensions :: Extensions

definition SERVER_HELLO_INITIAL_WATCH_RESULTS_EXTENSION :: u16 where
  "SERVER_HELLO_INITIAL_WATCH_RESULTS_EXTENSION = 1"

definition SERVER_HELLO_NEGOTIATED_CODECS_EXTENSION :: u16 where
  "SERVER_HELLO_NEGOTIATED_CODECS_EXTENSION = 2"

definition ServerHello_validate_extension :: "Extension \<Rightarrow> error + unit" where
  "ServerHello_validate_extension e =
     (if e_tag e = SERVER_HELLO_INITIAL_WATCH_RESULTS_EXTENSION
      then ebind (InitialWatchResults_decode (e_value e)) (\<lambda>_. Inr ())
      else if e_tag e = SERVER_HELLO_NEGOTIATED_CODECS_EXTENSION
      then ebind (NegotiatedCodecs_decode (e_value e)) (\<lambda>_. Inr ())
      else Inr ())"

definition ServerHello_validate :: "ServerHello \<Rightarrow> error + unit" where
  "ServerHello_validate h =
     ebind (ReceiveLimits_validate (se_receive h)) (\<lambda>_.
     ebind (family_order (se_families h) ''HELLO selected family order'') (\<lambda>_.
     ebind (check_each FamilyDescriptor_validate (se_families h)) (\<lambda>_.
     ebind (validate_family_dependencies (se_families h) ''HELLO missing family dependency'') (\<lambda>_.
     ebind (validate_result_or_event_extensions (se_extensions h) ''required HELLO Result extension'') (\<lambda>_.
       check_each ServerHello_validate_extension (se_extensions h))))))"

definition ServerHello_negotiated_codecs :: "ServerHello \<Rightarrow> error + u16 list" where
  "ServerHello_negotiated_codecs h =
     (case find_extension SERVER_HELLO_NEGOTIATED_CODECS_EXTENSION (se_extensions h) of
        Some e \<Rightarrow> NegotiatedCodecs_decode (e_value e)
      | None \<Rightarrow> Inr [])"

definition check_selected :: "ClientHello \<Rightarrow> FamilyDescriptor \<Rightarrow> error + unit" where
  "check_selected client d =
     (case find (\<lambda>offer. fo_family_id offer = fd_family_id d) (ch_families client) of
        None \<Rightarrow> Inl (Invalid ''server selected unoffered family'')
      | Some offer \<Rightarrow> if fd_version d \<notin> set (fo_versions offer)
                      then Inl (Invalid ''server selected unoffered family version'') else Inr ())"

definition ServerHello_validate_for_client :: "ServerHello \<Rightarrow> ClientHello \<Rightarrow> error + unit" where
  "ServerHello_validate_for_client h client =
     ebind (ServerHello_validate h) (\<lambda>_.
     if se_minor h < ch_min_minor client \<or> ch_max_minor client < se_minor h
     then Inl (Invalid ''server selected unoffered Core minor'')
     else ebind (check_each (check_selected client) (drop 1 (se_families h))) (\<lambda>_.
     if list_ex (\<lambda>offer. fo_required offer
          \<and> \<not> list_ex (\<lambda>family. fd_family_id family = fo_family_id offer) (se_families h))
          (ch_families client)
     then Inl (Invalid ''server omitted required family'')
     else ebind (ServerHello_negotiated_codecs h) (\<lambda>codecs.
       NegotiatedCodecs_validate_offered_by codecs client)))"

definition ServerHello_encode :: "ServerHello \<Rightarrow> error + bytes" where
  "ServerHello_encode h =
     ebind (ServerHello_validate h) (\<lambda>_.
     ebind (ReceiveLimits_encode_to (se_receive h)) (\<lambda>receive.
     ebind (put_string_u16 (se_server_name h)) (\<lambda>server_name.
     ebind (put_string_u16 (se_server_release h)) (\<lambda>server_release.
     ebind (encode_all FamilyDescriptor_encode_record (se_families h)) (\<lambda>families.
     ebind (Extensions_encode_tail (se_extensions h)) (\<lambda>tail.
       Inr (put_u16 (se_minor h) @ put_u16 0 @ se_boot_id h @ se_session_id h @ receive
            @ put_u64 (se_server_monotonic_ns h) @ put_u64 (se_catalog_revision h)
            @ server_name @ server_release
            @ put_u16 (of_nat (length (se_families h))) @ families @ tail)))))))"

definition ServerHello_body :: "ServerHello reader" where
  "ServerHello_body =
     rbind dec_u16 (\<lambda>minor. rbind dec_u16 (\<lambda>reserved.
     if reserved \<noteq> 0 then rfail (Invalid ''HELLO result reserved field'')
     else rbind dec_array_16 (\<lambda>boot_id. rbind dec_array_16 (\<lambda>session_id.
     rbind ReceiveLimits_decode_from (\<lambda>receive.
     rbind dec_u64 (\<lambda>server_monotonic_ns. rbind dec_u64 (\<lambda>catalog_revision.
     rbind dec_string_u16 (\<lambda>server_name. rbind dec_string_u16 (\<lambda>server_release.
     rbind dec_u16 (\<lambda>family_count.
     rbind (bounded_list (unat family_count) 16 ''HELLO selected family count''
              FamilyDescriptor_decode_record) (\<lambda>families.
     rbind dec_extensions (\<lambda>extensions.
       rret \<lparr>se_minor = minor, se_boot_id = boot_id, se_session_id = session_id,
             se_receive = receive, se_server_monotonic_ns = server_monotonic_ns,
             se_catalog_revision = catalog_revision, se_server_name = server_name,
             se_server_release = server_release, se_families = families,
             se_extensions = extensions\<rparr>))))))))))))"

definition ServerHello_decode :: "bytes \<Rightarrow> error + ServerHello" where
  "ServerHello_decode =
     rrun (rbind ServerHello_body (\<lambda>v. rbind dec_finish (\<lambda>_.
       rlift (ebind (ServerHello_validate v) (\<lambda>_. Inr v)))))"

definition ServerHello_ok :: "ServerHello \<Rightarrow> bool" where
  "ServerHello_ok h \<longleftrightarrow> length (se_boot_id h) = 16 \<and> length (se_session_id h) = 16
     \<and> utf8_valid (se_server_name h) \<and> utf8_valid (se_server_release h)"

section \<open>Session information\<close>

record ServerDiagnostics =
  sd_active_sessions :: u32
  sd_relay_active :: u32
  sd_relay_pending :: u32
  sd_aggregate_receive_limit :: u64
  sd_aggregate_receive_buffered :: u64

definition ServerDiagnostics_validate :: "ServerDiagnostics \<Rightarrow> error + unit" where
  "ServerDiagnostics_validate d =
     (if sd_aggregate_receive_limit d < sd_aggregate_receive_buffered d
      then Inl (Invalid ''server diagnostics aggregate receive budget'') else Inr ())"

definition ServerDiagnostics_encode :: "ServerDiagnostics \<Rightarrow> error + bytes" where
  "ServerDiagnostics_encode d =
     ebind (ServerDiagnostics_validate d) (\<lambda>_.
       Inr (put_u32 (sd_active_sessions d) @ put_u32 (sd_relay_active d) @ put_u32 (sd_relay_pending d)
            @ put_u32 0 @ put_u64 (sd_aggregate_receive_limit d)
            @ put_u64 (sd_aggregate_receive_buffered d)))"

definition ServerDiagnostics_body :: "ServerDiagnostics reader" where
  "ServerDiagnostics_body =
     rbind dec_u32 (\<lambda>active. rbind dec_u32 (\<lambda>relay_active. rbind dec_u32 (\<lambda>relay_pending.
     rbind dec_u32 (\<lambda>reserved.
     if reserved \<noteq> 0 then rfail (Invalid ''server diagnostics reserved field'')
     else rbind dec_u64 (\<lambda>receive_limit. rbind dec_u64 (\<lambda>buffered.
       rret \<lparr>sd_active_sessions = active, sd_relay_active = relay_active,
             sd_relay_pending = relay_pending, sd_aggregate_receive_limit = receive_limit,
             sd_aggregate_receive_buffered = buffered\<rparr>))))))"

definition ServerDiagnostics_decode :: "bytes \<Rightarrow> error + ServerDiagnostics" where
  "ServerDiagnostics_decode =
     rrun (rbind ServerDiagnostics_body (\<lambda>v. rbind dec_finish (\<lambda>_.
       rlift (ebind (ServerDiagnostics_validate v) (\<lambda>_. Inr v)))))"

definition SESSION_INFO_SERVER_DIAGNOSTICS_EXTENSION :: u16 where
  "SESSION_INFO_SERVER_DIAGNOSTICS_EXTENSION = 1"

definition ServerDiagnostics_extension :: "ServerDiagnostics \<Rightarrow> error + Extension" where
  "ServerDiagnostics_extension d =
     ebind (ServerDiagnostics_encode d) (\<lambda>v.
       Inr \<lparr>e_tag = SESSION_INFO_SERVER_DIAGNOSTICS_EXTENSION, e_required = False, e_value = v\<rparr>)"

record SessionInfo =
  si_session_id :: bytes
  si_catalog_revision :: u64
  si_receive :: ReceiveLimits
  si_server_monotonic_ns :: u64
  si_families :: "FamilyDescriptor list"
  si_extensions :: Extensions

definition SessionInfo_validate :: "SessionInfo \<Rightarrow> error + unit" where
  "SessionInfo_validate s =
     ebind (ReceiveLimits_validate (si_receive s)) (\<lambda>_.
     ebind (family_order (si_families s) ''SESSION_INFO family order'') (\<lambda>_.
     ebind (check_each FamilyDescriptor_validate (si_families s)) (\<lambda>_.
     ebind (validate_family_dependencies (si_families s) ''SESSION_INFO missing family dependency'') (\<lambda>_.
     ebind (validate_result_or_event_extensions (si_extensions s) ''required SESSION_INFO Result extension'') (\<lambda>_.
     case find_extension SESSION_INFO_SERVER_DIAGNOSTICS_EXTENSION (si_extensions s) of
       None \<Rightarrow> Inr ()
     | Some e \<Rightarrow> ebind (ServerDiagnostics_decode (e_value e)) (\<lambda>_. Inr ()))))))"

definition SessionInfo_server_diagnostics :: "SessionInfo \<Rightarrow> error + ServerDiagnostics option" where
  "SessionInfo_server_diagnostics s =
     (case find_extension SESSION_INFO_SERVER_DIAGNOSTICS_EXTENSION (si_extensions s) of
        None \<Rightarrow> Inr None
      | Some e \<Rightarrow> ebind (ServerDiagnostics_decode (e_value e)) (\<lambda>d. Inr (Some d)))"

definition SessionInfo_validate_after ::
  "SessionInfo \<Rightarrow> bytes \<Rightarrow> u64 \<Rightarrow> ReceiveLimits \<Rightarrow> FamilyDescriptor list \<Rightarrow> error + unit" where
  "SessionInfo_validate_after s session_id current_revision previous_receive previous_families =
     ebind (SessionInfo_validate s) (\<lambda>_.
     if si_session_id s \<noteq> session_id then Inl (Invalid ''SESSION_INFO session ID change'')
     else if si_catalog_revision s < current_revision
     then Inl (Invalid ''SESSION_INFO catalog revision regression'')
     else ebind (ReceiveLimits_validate_update_from (si_receive s) previous_receive) (\<lambda>_.
     if length (si_families s) \<noteq> length previous_families
        \<or> list_ex (\<lambda>(next, previous). fd_family_id next \<noteq> fd_family_id previous
             \<or> fd_version next \<noteq> fd_version previous) (zip (si_families s) previous_families)
     then Inl (Invalid ''SESSION_INFO family or version change'') else Inr ()))"

definition SessionInfo_encode :: "SessionInfo \<Rightarrow> error + bytes" where
  "SessionInfo_encode s =
     ebind (SessionInfo_validate s) (\<lambda>_.
     ebind (ReceiveLimits_encode_to (si_receive s)) (\<lambda>receive.
     ebind (encode_all FamilyDescriptor_encode_record (si_families s)) (\<lambda>families.
     ebind (Extensions_encode_tail (si_extensions s)) (\<lambda>tail.
       Inr (si_session_id s @ put_u64 (si_catalog_revision s) @ receive
            @ put_u64 (si_server_monotonic_ns s)
            @ put_u16 (of_nat (length (si_families s))) @ families @ tail)))))"

definition SessionInfo_body :: "SessionInfo reader" where
  "SessionInfo_body =
     rbind dec_array_16 (\<lambda>session_id. rbind dec_u64 (\<lambda>catalog_revision.
     rbind ReceiveLimits_decode_from (\<lambda>receive. rbind dec_u64 (\<lambda>server_monotonic_ns.
     rbind dec_u16 (\<lambda>family_count.
     rbind (bounded_list (unat family_count) 16 ''SESSION_INFO family count''
              FamilyDescriptor_decode_record) (\<lambda>families.
     rbind dec_extensions (\<lambda>extensions.
       rret \<lparr>si_session_id = session_id, si_catalog_revision = catalog_revision,
             si_receive = receive, si_server_monotonic_ns = server_monotonic_ns,
             si_families = families, si_extensions = extensions\<rparr>)))))))"

definition SessionInfo_decode :: "bytes \<Rightarrow> error + SessionInfo" where
  "SessionInfo_decode =
     rrun (rbind SessionInfo_body (\<lambda>v. rbind dec_finish (\<lambda>_.
       rlift (ebind (SessionInfo_validate v) (\<lambda>_. Inr v)))))"

section \<open>Family updates\<close>

record FamilyUpdate =
  fu_catalog_revision :: u64
  fu_family :: FamilyDescriptor

definition FamilyUpdate_encode :: "FamilyUpdate \<Rightarrow> error + bytes" where
  "FamilyUpdate_encode u =
     (if fu_catalog_revision u = 0 then Inl (Invalid ''zero FAMILY_UPDATE catalog revision'')
      else ebind (FamilyDescriptor_validate (fu_family u)) (\<lambda>_.
        ebind (FamilyDescriptor_encode_record (fu_family u)) (\<lambda>family.
          Inr (put_u64 (fu_catalog_revision u) @ family))))"

definition FamilyUpdate_validate_after :: "FamilyUpdate \<Rightarrow> u64 \<Rightarrow> FamilyDescriptor \<Rightarrow> error + CatalogStep" where
  "FamilyUpdate_validate_after u current_revision previous =
     ebind (FamilyDescriptor_validate (fu_family u)) (\<lambda>_.
     if fd_family_id (fu_family u) \<noteq> fd_family_id previous
        \<or> fd_version (fu_family u) \<noteq> fd_version previous
     then Inl (Invalid ''FAMILY_UPDATE family or version change'')
     else catalog_step current_revision (fu_catalog_revision u))"

definition FamilyUpdate_body :: "FamilyUpdate reader" where
  "FamilyUpdate_body =
     rbind dec_u64 (\<lambda>revision. rbind FamilyDescriptor_decode_record (\<lambda>family.
       rret \<lparr>fu_catalog_revision = revision, fu_family = family\<rparr>))"

definition FamilyUpdate_decode :: "bytes \<Rightarrow> error + FamilyUpdate" where
  "FamilyUpdate_decode =
     rrun (rbind FamilyUpdate_body (\<lambda>v. rbind dec_finish (\<lambda>_.
       rlift (if fu_catalog_revision v = 0 then Inl (Invalid ''zero FAMILY_UPDATE catalog revision'')
              else Inr v))))"

section \<open>Descriptors are canonical\<close>

lemma Operation_class_iff: "Operation_class c = Inr k \<longleftrightarrow> k \<noteq> Result \<and> c = Class_wire k"
  by (cases k) (auto simp: Operation_class_def transport_consts)

lemma Operation_decode_from_iff:
  "Operation_decode_from b = Inr (p, r) \<longleftrightarrow> (\<exists>q. Operation_encode_to p = Inr q \<and> b = q @ r)"
  by (cases p; cases "opn_class p"; cases "opn_server_accepts p"; cases "opn_server_sends p")
    (auto simp: Operation_decode_from_def Operation_encode_to_def Operation_validate_def Let_def
      DIRECTION_ACCEPTS_def DIRECTION_SENDS_def transport_consts rd_iff enc_iff Operation_class_iff)

interpretation Operation_item: wire_item "\<lambda>_. True" Operation_encode_to Operation_decode_from
  by unfold_locales (simp add: Operation_decode_from_iff)

lemma Operation_encode_least: "Operation_encode_to p = Inr q \<Longrightarrow> 4 \<le> length q"
  by (auto simp: Operation_encode_to_def enc_iff)

lemmas Operation_list_iff [rd_iff] =
  Operation_item.bounded_list_iff[OF Operation_encode_least, simplified]

lemma RuntimeState_try_from_iff [rd_iff]: "RuntimeState_try_from v = Inr s \<longleftrightarrow> v = RuntimeState_wire s"
  by (cases s) (auto simp: RuntimeState_try_from_def)

lemma FamilyDescriptor_validate_count:
  "FamilyDescriptor_validate d = Inr () \<Longrightarrow> length (fd_operations d) < 2 ^ 16"
  by (auto simp: FamilyDescriptor_validate_def split: if_splits)

lemma FamilyDescriptor_body_iff:
  "FamilyDescriptor_body b = Inr (d, r) \<longleftrightarrow>
     (\<exists>ops limits. length (fd_operations d) < 2 ^ 16
        \<and> encode_all Operation_encode_to (fd_operations d) = Inr ops
        \<and> Extensions_encode_entries (fd_limits d) = Inr limits \<and> length limits < 2 ^ 32
        \<and> b = put_u16 (fd_family_id d) @ put_u16 (fd_version d)
            @ put_u8 (RuntimeState_wire (fd_runtime_state d)) @ put_u8 0
            @ put_u16 (of_nat (length (fd_operations d))) @ ops
            @ put_u32 (of_nat (length limits)) @ limits @ r)"
  by (cases d) (auto simp: FamilyDescriptor_body_def rd_iff Extensions_decode_entries_iff
      unat_u16_count list_all_iff)

lemma FamilyDescriptor_record_iff:
  "FamilyDescriptor_decode_record b = Inr (d, r) \<longleftrightarrow>
     (\<exists>p. FamilyDescriptor_encode_record d = Inr p \<and> b = p @ r)"
proof (cases "FamilyDescriptor_validate d = Inr ()")
  case True
  then show ?thesis
    using FamilyDescriptor_validate_count[OF True]
    by (auto simp: FamilyDescriptor_decode_record_def FamilyDescriptor_encode_record_def Let_def
        FamilyDescriptor_body_iff rd_iff enc_iff)
next
  case False
  then show ?thesis
    by (auto simp: FamilyDescriptor_decode_record_def FamilyDescriptor_encode_record_def rd_iff enc_iff)
qed

interpretation FamilyDescriptor_item:
  wire_item "\<lambda>_. True" FamilyDescriptor_encode_record FamilyDescriptor_decode_record
  by unfold_locales (simp add: FamilyDescriptor_record_iff)

lemma FamilyDescriptor_encode_least: "FamilyDescriptor_encode_record d = Inr p \<Longrightarrow> 16 \<le> length p"
  by (auto simp: FamilyDescriptor_encode_record_def Let_def enc_iff)

lemmas FamilyDescriptor_list_iff [rd_iff] =
  FamilyDescriptor_item.bounded_list_iff[OF FamilyDescriptor_encode_least, simplified]

lemma family_order_count: "family_order fs c = Inr () \<Longrightarrow> length fs < 2 ^ 16"
  by (auto simp: family_order_def split: if_splits)

lemma ServerHello_decode_iff:
  "ServerHello_decode b = Inr h \<longleftrightarrow> ServerHello_ok h \<and> ServerHello_encode h = Inr b"
proof (cases "ServerHello_validate h = Inr ()")
  case True
  then have "length (se_families h) < 2 ^ 16"
    by (auto simp: ServerHello_validate_def enc_iff dest: family_order_count)
  with True show ?thesis
    by (cases h) (auto simp: ServerHello_decode_def ServerHello_body_def ServerHello_encode_def
        ServerHello_ok_def ReceiveLimits_item array_16_field.fget_iff FamilyDescriptor_record_iff
        rd_iff enc_iff unat_u16_count list_all_iff)
next
  case False
  then show ?thesis
    by (auto simp: ServerHello_decode_def ServerHello_encode_def rd_iff enc_iff)
qed

lemma ServerDiagnostics_decode_iff:
  "ServerDiagnostics_decode b = Inr v \<longleftrightarrow> ServerDiagnostics_encode v = Inr b"
  by (cases v) (auto simp: ServerDiagnostics_decode_def ServerDiagnostics_body_def
      ServerDiagnostics_encode_def rd_iff enc_iff)

lemma SessionInfo_decode_iff:
  "SessionInfo_decode b = Inr s \<longleftrightarrow> length (si_session_id s) = 16 \<and> SessionInfo_encode s = Inr b"
proof (cases "SessionInfo_validate s = Inr ()")
  case True
  then have "length (si_families s) < 2 ^ 16"
    by (auto simp: SessionInfo_validate_def enc_iff dest: family_order_count)
  with True show ?thesis
    by (cases s) (auto simp: SessionInfo_decode_def SessionInfo_body_def SessionInfo_encode_def
        ReceiveLimits_item array_16_field.fget_iff rd_iff enc_iff unat_u16_count list_all_iff)
next
  case False
  then show ?thesis
    by (auto simp: SessionInfo_decode_def SessionInfo_encode_def rd_iff enc_iff)
qed

lemma FamilyUpdate_decode_iff: "FamilyUpdate_decode b = Inr u \<longleftrightarrow> FamilyUpdate_encode u = Inr b"
  by (cases u) (auto simp: FamilyUpdate_decode_def FamilyUpdate_body_def FamilyUpdate_encode_def
      FamilyDescriptor_record_iff FamilyDescriptor_encode_record_def rd_iff enc_iff)

lemmas stable_catalog [rd_stable] = Operation_item.get_stable FamilyDescriptor_item.get_stable

lemma ServerHello_body_stable: "stable ServerHello_body"
  unfolding ServerHello_body_def by (intro rd_stable)

lemma SessionInfo_body_stable: "stable SessionInfo_body"
  unfolding SessionInfo_body_def by (intro rd_stable)

lemma ServerDiagnostics_body_stable: "stable ServerDiagnostics_body"
  unfolding ServerDiagnostics_body_def by (intro rd_stable)

lemma FamilyUpdate_body_stable: "stable FamilyUpdate_body"
  unfolding FamilyUpdate_body_def by (intro rd_stable)

interpretation ServerHello_codec: self_delimiting_codec ServerHello_ok ServerHello_encode ServerHello_decode
  by unfold_locales (rule ServerHello_decode_iff,
    rule framed_not_ok[OF ServerHello_decode_def ServerHello_body_stable])

interpretation SessionInfo_codec:
  self_delimiting_codec "\<lambda>s. length (si_session_id s) = 16" SessionInfo_encode SessionInfo_decode
  by unfold_locales (rule SessionInfo_decode_iff,
    rule framed_not_ok[OF SessionInfo_decode_def SessionInfo_body_stable])

interpretation ServerDiagnostics_codec:
  self_delimiting_codec "\<lambda>_. True" ServerDiagnostics_encode ServerDiagnostics_decode
  by unfold_locales (simp add: ServerDiagnostics_decode_iff,
    rule framed_not_ok[OF ServerDiagnostics_decode_def ServerDiagnostics_body_stable])

interpretation FamilyUpdate_codec:
  self_delimiting_codec "\<lambda>_. True" FamilyUpdate_encode FamilyUpdate_decode
  by unfold_locales (simp add: FamilyUpdate_decode_iff,
    rule framed_not_ok[OF FamilyUpdate_decode_def FamilyUpdate_body_stable])

section \<open>The limit types and the schema agree\<close>

text \<open>
  The schema lists a hard minimum and maximum per limit tag, and \<^verbatim>\<open>FamilyDescriptor::validate\<close> checks
  them before the family's own \<^verbatim>\<open>Limits::from_extensions\<close>.  A block that a family's \<^verbatim>\<open>to_extensions\<close>
  emits passes both.
\<close>

lemma unat_ucast_u64 [simp]: "unat (ucast v :: u64) = unat v" for v :: u32
proof -
  have "unat v < 2 ^ 64"
    using unsigned_less[of v, where 'a = nat] by simp
  then show ?thesis
    by (simp add: unsigned_ucast_eq take_bit_nat_eq_self)
qed

lemma check_limit_row_iff:
  "check_limit_policy es (limit_row name tag U32 required mn mx) = Inr () \<longleftrightarrow>
     (case find_extension tag es of None \<Rightarrow> \<not> required
      | Some e \<Rightarrow> length (e_value e) = 4 \<and> unat mn \<le> unat (from_le (e_value e) :: u32)
          \<and> unat (from_le (e_value e) :: u32) \<le> unat mx)"
  "check_limit_policy es (limit_row name tag U64 required mn mx) = Inr () \<longleftrightarrow>
     (case find_extension tag es of None \<Rightarrow> \<not> required
      | Some e \<Rightarrow> length (e_value e) = 8 \<and> unat mn \<le> unat (from_le (e_value e) :: u64)
          \<and> unat (from_le (e_value e) :: u64) \<le> unat mx)"
  by (auto simp: check_limit_policy_def limit_row_def Let_def word_less_nat_alt not_less
      split: option.splits)

lemma unat_pos_iff: "Suc 0 \<le> unat v \<longleftrightarrow> v \<noteq> 0" for v :: "'w::len word"
  by (simp add: Suc_le_eq unat_gt_0 word_neq_0_conv)

lemmas policy_check = check_each_iff check_limit_row_iff find_extension_simps from_le_limit valid_limit_def
  word_less_nat_alt word_le_nat_alt unat_pos_iff

lemma relay_within_schema:
  "relay_Limits_to_extensions l = Inr es \<Longrightarrow> check_each (check_limit_policy es) RELAY_LIMITS = Inr ()"
  by (auto simp: relay_Limits_to_extensions_def relay_Limits_validate_def relay_HARD_def RELAY_LIMITS_def
      policy_check enc_iff not_less)

lemma font_within_schema:
  "font_Limits_to_extensions l = Inr es \<Longrightarrow> check_each (check_limit_policy es) FONT_LIMITS = Inr ()"
  by (auto simp: font_Limits_to_extensions_def font_Limits_validate_def font_HARD_def FONT_LIMITS_def
      policy_check enc_iff not_less)

lemma terminal_within_schema:
  "terminal_Limits_to_extensions l = Inr es \<Longrightarrow> check_each (check_limit_policy es) TERMINAL_LIMITS = Inr ()"
  by (auto simp: terminal_Limits_to_extensions_def terminal_Limits_validate_def terminal_HARD_def TERMINAL_LIMITS_def
      policy_check enc_iff not_less)

lemma client_within_schema:
  "client_Limits_to_extensions l = Inr es \<Longrightarrow> check_each (check_limit_policy es) CLIENT_LIMITS = Inr ()"
  by (auto simp: client_Limits_to_extensions_def client_Limits_validate_def client_HARD_def CLIENT_LIMITS_def
      policy_check enc_iff not_less)

lemma surface_within_schema:
  "surface_Limits_to_extensions l = Inr es \<Longrightarrow> check_each (check_limit_policy es) SURFACE_LIMITS = Inr ()"
  by (auto simp: surface_Limits_to_extensions_def surface_Limits_validate_def surface_HARD_def SURFACE_LIMITS_def
      policy_check enc_iff not_less)

lemma selection_within_schema:
  "selection_Limits_to_extensions l = Inr es \<Longrightarrow> check_each (check_limit_policy es) SELECTION_LIMITS = Inr ()"
  by (auto simp: selection_Limits_to_extensions_def selection_Limits_validate_def selection_HARD_def SELECTION_LIMITS_def
      policy_check enc_iff not_less)

lemma desktop_within_schema:
  "desktop_Limits_to_extensions l = Inr es \<Longrightarrow> check_each (check_limit_policy es) DESKTOP_LIMITS = Inr ()"
  by (auto simp: desktop_Limits_to_extensions_def desktop_Limits_validate_def desktop_HARD_def DESKTOP_LIMITS_def
      policy_check enc_iff not_less)

lemma media_within_schema:
  "media_Limits_to_extensions l = Inr es \<Longrightarrow> check_each (check_limit_policy es) MEDIA_LIMITS = Inr ()"
  by (auto simp: media_Limits_to_extensions_def media_Limits_validate_def media_HARD_def MEDIA_LIMITS_def
      policy_check enc_iff not_less)

lemma git_within_schema:
  "git_Limits_to_extensions l = Inr es \<Longrightarrow> check_each (check_limit_policy es) GIT_LIMITS = Inr ()"
  by (auto simp: git_Limits_to_extensions_def git_Limits_validate_def git_HARD_def GIT_LIMITS_def
      policy_check enc_iff not_less)

lemma lsp_within_schema:
  "lsp_Limits_to_extensions l = Inr es \<Longrightarrow> check_each (check_limit_policy es) LSP_LIMITS = Inr ()"
  by (auto simp: lsp_Limits_to_extensions_def lsp_Limits_validate_def lsp_HARD_def LSP_LIMITS_def
      policy_check enc_iff not_less)

lemma kv_within_schema:
  "kv_Limits_to_extensions l = Inr es \<Longrightarrow> check_each (check_limit_policy es) KV_LIMITS = Inr ()"
  by (auto simp: kv_Limits_to_extensions_def kv_Limits_validate_def kv_HARD_def KV_LIMITS_def
      policy_check enc_iff not_less)

lemma net_within_schema:
  "net_Limits_to_extensions l = Inr es \<Longrightarrow> check_each (check_limit_policy es) NET_LIMITS = Inr ()"
  by (auto simp: net_Limits_to_extensions_def net_Limits_validate_def net_HARD_def NET_LIMITS_def
      policy_check enc_iff not_less)

lemma channel_within_schema:
  "channel_Limits_to_extensions l = Inr es \<Longrightarrow> check_each (check_limit_policy es) CHANNEL_LIMITS = Inr ()"
  by (auto simp: channel_Limits_to_extensions_def channel_Limits_validate_def channel_HARD_def CHANNEL_LIMITS_def
      policy_check enc_iff not_less)

lemma extension_within_schema:
  "extension_Limits_to_extensions l = Inr es \<Longrightarrow> check_each (check_limit_policy es) EXTENSION_LIMITS = Inr ()"
  by (auto simp: extension_Limits_to_extensions_def extension_Limits_validate_def extension_HARD_def EXTENSION_LIMITS_def
      policy_check enc_iff not_less)

lemma events_within_schema:
  "events_Limits_to_extensions l = Inr es \<Longrightarrow> check_each (check_limit_policy es) EVENTS_LIMITS = Inr ()"
  by (auto simp: events_Limits_to_extensions_def events_Limits_validate_def events_HARD_def EVENTS_LIMITS_def
      policy_check enc_iff not_less)

lemma env_within_schema:
  "env_Limits_to_extensions l = Inr es \<Longrightarrow> check_each (check_limit_policy es) ENV_LIMITS = Inr ()"
  by (auto simp: env_Limits_to_extensions_def env_Limits_validate_def env_HARD_def ENV_LIMITS_def
      policy_check enc_iff not_less)

lemma fs_within_schema:
  "fs_Limits_to_extensions l = Inr es \<Longrightarrow> check_each (check_limit_policy es) FS_LIMITS = Inr ()"
  using unsigned_less[of "fs_capabilities l", where 'a = nat]
  by (cases "fs_capabilities l = 0")
    (auto simp: fs_Limits_to_extensions_def fs_Limits_validate_def fs_HARD_def FS_LIMITS_def
      policy_check enc_iff not_less)

lemma unat_min: "unat (min v w) = min (unat v) (unat w)" for v w :: "'w::len word"
  by (simp add: min_def word_le_nat_alt)

lemma min_eq_zero_iff: "min v w = 0 \<longleftrightarrow> v = 0 \<or> w = 0" for v w :: "'w::len word"
  by (auto simp: min_def)

lemma process_flags_bounds:
  assumes "process_Limits_validate l = Inr ()"
  shows "unat (process_launcher_flags l AND 12) \<le> 12" "unat (process_launcher_flags l) \<le> 65535"
proof -
  show "unat (process_launcher_flags l AND 12) \<le> 12"
    using word_and_le1[of "process_launcher_flags l" 12] by (simp add: word_le_nat_alt)
  have "process_launcher_flags l \<le> 60"
    using process_valid_flags[OF assms] word_and_le1[of "process_launcher_flags l" 60]
    by (simp add: SPAWN_LAUNCHER_FLAGS_EXTENDED_def)
  then show "unat (process_launcher_flags l) \<le> 65535"
    by (simp add: word_le_nat_alt)
qed

lemma check_limit_policy_sort:
  "check_limit_policy (sort_key e_tag es) = check_limit_policy es"
  by (simp add: fun_eq_iff check_limit_policy_def find_extension_sort)

lemma process_within_schema:
  assumes "process_Limits_to_extensions l = Inr es"
  shows "check_each (check_limit_policy es) PROCESS_LIMITS = Inr ()"
proof -
  have valid: "process_Limits_validate l = Inr ()" and es: "es = sort_key e_tag (process_pushed l)"
    using assms by (auto simp: process_Limits_to_extensions_def enc_iff)
  show ?thesis
    using valid process_flags_bounds[OF valid] unfolding es check_limit_policy_sort
    by (auto simp: process_Limits_validate_def process_HARD_def PROCESS_LIMITS_def
        policy_check process_find SPAWN_LAUNCHER_FLAGS_def unat_min min_eq_zero_iff enc_iff not_less)
qed

section \<open>The operation check\<close>

definition operation_key :: "Operation \<Rightarrow> Class \<times> u16" where
  "operation_key p = (opn_class p, opn_kind p)"

lemma check_operation_iff:
  "FamilyDescriptor_check_operation d before p = Inr () \<longleftrightarrow>
     operation_key p \<notin> operation_key ` set before \<and> FamilyDescriptor_check_operation d [] p = Inr ()"
proof -
  have "list_ex (\<lambda>q. opn_class q = opn_class p \<and> opn_kind q = opn_kind p) before \<longleftrightarrow>
      operation_key p \<in> operation_key ` set before"
    by (auto simp: operation_key_def list_ex_iff image_iff intro: rev_bexI)
  then show ?thesis
    by (simp add: FamilyDescriptor_check_operation_def)
qed

lemma check_operations_iff:
  "FamilyDescriptor_check_operations d before ps = Inr () \<longleftrightarrow>
     distinct (map operation_key ps) \<and> operation_key ` set ps \<inter> operation_key ` set before = {}
     \<and> (\<forall>p\<in>set ps. FamilyDescriptor_check_operation d [] p = Inr ())"
proof (induction ps arbitrary: before)
  case (Cons p ps)
  have "FamilyDescriptor_check_operations d before (p # ps) = Inr () \<longleftrightarrow>
      FamilyDescriptor_check_operation d before p = Inr ()
      \<and> FamilyDescriptor_check_operations d (before @ [p]) ps = Inr ()"
    by (auto simp: enc_iff)
  then show ?case
    unfolding Cons.IH check_operation_iff[of d before] by auto
qed simp

section \<open>What a server advertises is accepted\<close>

text \<open>The limit blocks of all families as one type, with the family each belongs to.\<close>

datatype FamilyLimits =
    RelayLimits relay_Limits
  | FontLimits font_Limits
  | TerminalLimits terminal_Limits
  | ClientLimits client_Limits
  | SurfaceLimits surface_Limits
  | SelectionLimits selection_Limits
  | DesktopLimits desktop_Limits
  | MediaLimits media_Limits
  | FsLimits fs_Limits
  | GitLimits git_Limits
  | LspLimits lsp_Limits
  | KvLimits kv_Limits
  | ProcessLimits process_Limits
  | NetLimits net_Limits
  | ChannelLimits channel_Limits
  | ExtensionLimits extension_Limits
  | EventsLimits events_Limits
  | EnvLimits env_Limits

fun FamilyLimits_family :: "FamilyLimits \<Rightarrow> u16" where
  "FamilyLimits_family (RelayLimits l) = FAMILY_RELAY"
| "FamilyLimits_family (FontLimits l) = FAMILY_FONT"
| "FamilyLimits_family (TerminalLimits l) = FAMILY_TERMINAL"
| "FamilyLimits_family (ClientLimits l) = FAMILY_CLIENT"
| "FamilyLimits_family (SurfaceLimits l) = FAMILY_SURFACE"
| "FamilyLimits_family (SelectionLimits l) = FAMILY_SELECTION"
| "FamilyLimits_family (DesktopLimits l) = FAMILY_DESKTOP"
| "FamilyLimits_family (MediaLimits l) = FAMILY_MEDIA"
| "FamilyLimits_family (FsLimits l) = FAMILY_FS"
| "FamilyLimits_family (GitLimits l) = FAMILY_GIT"
| "FamilyLimits_family (LspLimits l) = FAMILY_LSP"
| "FamilyLimits_family (KvLimits l) = FAMILY_KV"
| "FamilyLimits_family (ProcessLimits l) = FAMILY_PROCESS"
| "FamilyLimits_family (NetLimits l) = FAMILY_NET"
| "FamilyLimits_family (ChannelLimits l) = FAMILY_CHANNEL"
| "FamilyLimits_family (ExtensionLimits l) = FAMILY_EXTENSION"
| "FamilyLimits_family (EventsLimits l) = FAMILY_EVENTS"
| "FamilyLimits_family (EnvLimits l) = FAMILY_ENV"

fun FamilyLimits_to_extensions :: "FamilyLimits \<Rightarrow> error + Extensions" where
  "FamilyLimits_to_extensions (RelayLimits l) = relay_Limits_to_extensions l"
| "FamilyLimits_to_extensions (FontLimits l) = font_Limits_to_extensions l"
| "FamilyLimits_to_extensions (TerminalLimits l) = terminal_Limits_to_extensions l"
| "FamilyLimits_to_extensions (ClientLimits l) = client_Limits_to_extensions l"
| "FamilyLimits_to_extensions (SurfaceLimits l) = surface_Limits_to_extensions l"
| "FamilyLimits_to_extensions (SelectionLimits l) = selection_Limits_to_extensions l"
| "FamilyLimits_to_extensions (DesktopLimits l) = desktop_Limits_to_extensions l"
| "FamilyLimits_to_extensions (MediaLimits l) = media_Limits_to_extensions l"
| "FamilyLimits_to_extensions (FsLimits l) = fs_Limits_to_extensions l"
| "FamilyLimits_to_extensions (GitLimits l) = git_Limits_to_extensions l"
| "FamilyLimits_to_extensions (LspLimits l) = lsp_Limits_to_extensions l"
| "FamilyLimits_to_extensions (KvLimits l) = kv_Limits_to_extensions l"
| "FamilyLimits_to_extensions (ProcessLimits l) = process_Limits_to_extensions l"
| "FamilyLimits_to_extensions (NetLimits l) = net_Limits_to_extensions l"
| "FamilyLimits_to_extensions (ChannelLimits l) = channel_Limits_to_extensions l"
| "FamilyLimits_to_extensions (ExtensionLimits l) = extension_Limits_to_extensions l"
| "FamilyLimits_to_extensions (EventsLimits l) = events_Limits_to_extensions l"
| "FamilyLimits_to_extensions (EnvLimits l) = env_Limits_to_extensions l"

fun operations_from_schema :: "OperationMetadata list \<Rightarrow> Operation list" where
  "operations_from_schema [] = []"
| "operations_from_schema (m # ms) =
     (case Operation_from_schema m of Inl _ \<Rightarrow> operations_from_schema ms
      | Inr p \<Rightarrow> p # operations_from_schema ms)"

definition schema_descriptor :: "FamilyMetadata \<Rightarrow> RuntimeState \<Rightarrow> Extensions \<Rightarrow> FamilyDescriptor" where
  "schema_descriptor f s es =
     \<lparr>fd_family_id = fm_id f, fd_version = fm_version f, fd_runtime_state = s,
      fd_operations = operations_from_schema (fm_operations f), fd_limits = es\<rparr>"

lemma Class_wire_inject [simp]: "Class_wire c = Class_wire d \<longleftrightarrow> c = d"
  by (cases c; cases d) (simp_all add: transport_consts)

lemma Operation_from_schema_Inr:
  assumes "Operation_from_schema m = Inr p"
  shows "om_class m = Class_wire (opn_class p)" "om_kind m = opn_kind p" "Operation_validate p = Inr ()"
  using assms
  by (auto simp: Operation_from_schema_def Operation_validate_def enc_iff transport_consts split: if_splits)

lemma find_unique: "m \<in> set xs \<Longrightarrow> distinct (map k xs) \<Longrightarrow> find (\<lambda>x. k x = k m) xs = Some m"
  by (induction xs) (auto simp: image_iff)

lemma FAMILIES_lookup:
  assumes "f \<in> set FAMILIES"
  shows "find (\<lambda>g. fm_id g = fm_id f \<and> fm_version g = fm_version f) FAMILIES = Some f"
proof -
  have "distinct (map fm_id FAMILIES)"
    using FAMILIES_ids by (rule strictly_increasing_distinct)
  then have "distinct (map (\<lambda>g. (fm_id g, fm_version g)) FAMILIES)"
    by (auto simp: distinct_map inj_on_def)
  then show ?thesis
    using find_unique[OF assms, of "\<lambda>g. (fm_id g, fm_version g)"] by simp
qed

lemma schema_operation_lookup:
  assumes "f \<in> set FAMILIES" "m \<in> set (fm_operations f)"
  shows "find (\<lambda>x. om_class x = om_class m \<and> om_kind x = om_kind m) (fm_operations f) = Some m"
proof -
  have "distinct (map (\<lambda>p. (om_class p, om_kind p)) (fm_operations f))"
    using FAMILIES_ok assms(1) by (auto simp: list_all_iff family_ok_def)
  then show ?thesis
    using find_unique[OF assms(2), of "\<lambda>p. (om_class p, om_kind p)"] by simp
qed

lemma schema_operation_ok:
  assumes "f \<in> set FAMILIES" "m \<in> set (fm_operations f)" "Operation_from_schema m = Inr p"
    and "fd_family_id d = fm_id f" "fd_version d = fm_version f"
  shows "FamilyDescriptor_check_operation d [] p = Inr ()"
  using Operation_from_schema_Inr[OF assms(3)] schema_operation_lookup[OF assms(1,2)] assms(3-5)
  by (simp add: FamilyDescriptor_check_operation_def FAMILIES_lookup[OF assms(1)])

lemma operations_from_schema_set:
  "p \<in> set (operations_from_schema ms) \<longleftrightarrow> (\<exists>m\<in>set ms. Operation_from_schema m = Inr p)"
  by (induction ms) (auto split: sum.splits)

lemma operations_from_schema_distinct:
  "distinct (map (\<lambda>p. (om_class p, om_kind p)) ms) \<Longrightarrow>
     distinct (map operation_key (operations_from_schema ms))"
proof (induction ms)
  case (Cons m ms)
  have differ: "operation_key p \<noteq> operation_key q"
    if "Operation_from_schema m = Inr p" "Operation_from_schema n = Inr q" "n \<in> set ms" for p q n
    using Cons.prems that Operation_from_schema_Inr(1,2)[OF that(1)] Operation_from_schema_Inr(1,2)[OF that(2)]
    by (auto simp: image_iff operation_key_def)
  from Cons show ?case
    by (auto simp: image_iff operations_from_schema_set split: sum.splits dest: differ)
qed simp

lemma operations_from_schema_length: "length (operations_from_schema ms) \<le> length ms"
  by (induction ms) (auto split: sum.splits)

lemma operations_from_schema_complete:
  "list_all (\<lambda>p. om_class p \<le> 1 \<and> om_direction p \<le> 2) ms \<Longrightarrow>
     length (operations_from_schema ms) = length ms"
proof (induction ms)
  case (Cons m ms)
  have "w \<le> 2 \<Longrightarrow> w = 0 \<or> w = 1 \<or> w = 2" "w \<le> 1 \<Longrightarrow> w \<noteq> 1 \<Longrightarrow> w = 0" for w :: u8
    by unat_arith+
  with Cons show ?case
    by (auto simp: Operation_from_schema_def transport_consts CLIENT_TO_SERVER_def SERVER_TO_CLIENT_def
        DIRECTION_BIDIRECTIONAL_def)
qed simp

lemma FAMILIES_operations:
  "list_all (\<lambda>f. length (fm_operations f) \<le> 100
     \<and> list_all (\<lambda>p. om_class p \<le> 1 \<and> om_direction p \<le> 2) (fm_operations f)) FAMILIES"
  by code_simp

lemma schema_operations_ok:
  assumes "f \<in> set FAMILIES"
  shows "FamilyDescriptor_check_operations (schema_descriptor f s es) []
     (operations_from_schema (fm_operations f)) = Inr ()"
proof -
  have "distinct (map (\<lambda>p. (om_class p, om_kind p)) (fm_operations f))"
    using FAMILIES_ok assms by (auto simp: list_all_iff family_ok_def)
  then show ?thesis
    using schema_operation_ok[OF assms]
    by (auto simp: check_operations_iff operations_from_schema_distinct operations_from_schema_set
        schema_descriptor_def)
qed

lemma schema_limits:
  "map_option fm_limits (family_metadata FAMILY_RELAY 1) = Some RELAY_LIMITS"
  "map_option fm_limits (family_metadata FAMILY_FONT 1) = Some FONT_LIMITS"
  "map_option fm_limits (family_metadata FAMILY_TERMINAL 1) = Some TERMINAL_LIMITS"
  "map_option fm_limits (family_metadata FAMILY_CLIENT 1) = Some CLIENT_LIMITS"
  "map_option fm_limits (family_metadata FAMILY_SURFACE 1) = Some SURFACE_LIMITS"
  "map_option fm_limits (family_metadata FAMILY_SELECTION 1) = Some SELECTION_LIMITS"
  "map_option fm_limits (family_metadata FAMILY_DESKTOP 1) = Some DESKTOP_LIMITS"
  "map_option fm_limits (family_metadata FAMILY_MEDIA 1) = Some MEDIA_LIMITS"
  "map_option fm_limits (family_metadata FAMILY_FS 1) = Some FS_LIMITS"
  "map_option fm_limits (family_metadata FAMILY_GIT 1) = Some GIT_LIMITS"
  "map_option fm_limits (family_metadata FAMILY_LSP 1) = Some LSP_LIMITS"
  "map_option fm_limits (family_metadata FAMILY_KV 1) = Some KV_LIMITS"
  "map_option fm_limits (family_metadata FAMILY_PROCESS 1) = Some PROCESS_LIMITS"
  "map_option fm_limits (family_metadata FAMILY_NET 1) = Some NET_LIMITS"
  "map_option fm_limits (family_metadata FAMILY_CHANNEL 1) = Some CHANNEL_LIMITS"
  "map_option fm_limits (family_metadata FAMILY_EXTENSION 1) = Some EXTENSION_LIMITS"
  "map_option fm_limits (family_metadata FAMILY_EVENTS 1) = Some EVENTS_LIMITS"
  "map_option fm_limits (family_metadata FAMILY_ENV 1) = Some ENV_LIMITS"
  by (simp_all add: family_metadata_def FAMILIES_def family_consts)

lemmas limits_within_schema =
  relay_within_schema font_within_schema terminal_within_schema client_within_schema surface_within_schema selection_within_schema desktop_within_schema media_within_schema fs_within_schema git_within_schema lsp_within_schema kv_within_schema process_within_schema net_within_schema channel_within_schema extension_within_schema events_within_schema env_within_schema

lemmas limits_from_to =
  relay.from_to font.from_to terminal.from_to client.from_to surface.from_to selection.from_to desktop.from_to media.from_to fs.from_to git.from_to lsp.from_to kv.from_to process.from_to net.from_to channel.from_to extension.from_to events.from_to env.from_to

lemmas limits_wire =
  relay.advertised_wire font.advertised_wire terminal.advertised_wire client.advertised_wire surface.advertised_wire selection.advertised_wire desktop.advertised_wire media.advertised_wire fs.advertised_wire git.advertised_wire lsp.advertised_wire kv.advertised_wire process.advertised_wire net.advertised_wire channel.advertised_wire extension.advertised_wire events.advertised_wire env.advertised_wire

lemma FamilyLimits_known:
  "FamilyLimits_to_extensions v = Inr es \<Longrightarrow>
     validate_known_family_limits (FamilyLimits_family v) 1 es = Inr ()"
  by (cases v) (auto simp: validate_known_family_limits_def family_consts dest: limits_from_to)

lemma FamilyLimits_wire: "FamilyLimits_to_extensions v = Inr es \<Longrightarrow> Extensions_validate es = Inr ()"
  by (cases v) (auto dest: limits_wire)

lemma FamilyLimits_policies:
  assumes "FamilyLimits_to_extensions v = Inr es" "family_metadata (FamilyLimits_family v) 1 = Some f"
  shows "check_each (check_limit_policy es) (fm_limits f) = Inr ()"
  using assms schema_limits by (cases v) (auto dest: limits_within_schema)

definition FamilyLimits_from_extensions :: "u16 \<Rightarrow> Extensions \<Rightarrow> (error + FamilyLimits) option" where
  "FamilyLimits_from_extensions family_id es =
     (if family_id = FAMILY_RELAY then Some (ebind (relay_Limits_from_extensions es) (\<lambda>l. Inr (RelayLimits l)))
      else if family_id = FAMILY_FONT then Some (ebind (font_Limits_from_extensions es) (\<lambda>l. Inr (FontLimits l)))
      else if family_id = FAMILY_TERMINAL then Some (ebind (terminal_Limits_from_extensions es) (\<lambda>l. Inr (TerminalLimits l)))
      else if family_id = FAMILY_CLIENT then Some (ebind (client_Limits_from_extensions es) (\<lambda>l. Inr (ClientLimits l)))
      else if family_id = FAMILY_SURFACE then Some (ebind (surface_Limits_from_extensions es) (\<lambda>l. Inr (SurfaceLimits l)))
      else if family_id = FAMILY_SELECTION then Some (ebind (selection_Limits_from_extensions es) (\<lambda>l. Inr (SelectionLimits l)))
      else if family_id = FAMILY_DESKTOP then Some (ebind (desktop_Limits_from_extensions es) (\<lambda>l. Inr (DesktopLimits l)))
      else if family_id = FAMILY_MEDIA then Some (ebind (media_Limits_from_extensions es) (\<lambda>l. Inr (MediaLimits l)))
      else if family_id = FAMILY_FS then Some (ebind (fs_Limits_from_extensions es) (\<lambda>l. Inr (FsLimits l)))
      else if family_id = FAMILY_GIT then Some (ebind (git_Limits_from_extensions es) (\<lambda>l. Inr (GitLimits l)))
      else if family_id = FAMILY_LSP then Some (ebind (lsp_Limits_from_extensions es) (\<lambda>l. Inr (LspLimits l)))
      else if family_id = FAMILY_KV then Some (ebind (kv_Limits_from_extensions es) (\<lambda>l. Inr (KvLimits l)))
      else if family_id = FAMILY_PROCESS then Some (ebind (process_Limits_from_extensions es) (\<lambda>l. Inr (ProcessLimits l)))
      else if family_id = FAMILY_NET then Some (ebind (net_Limits_from_extensions es) (\<lambda>l. Inr (NetLimits l)))
      else if family_id = FAMILY_CHANNEL then Some (ebind (channel_Limits_from_extensions es) (\<lambda>l. Inr (ChannelLimits l)))
      else if family_id = FAMILY_EXTENSION then Some (ebind (extension_Limits_from_extensions es) (\<lambda>l. Inr (ExtensionLimits l)))
      else if family_id = FAMILY_EVENTS then Some (ebind (events_Limits_from_extensions es) (\<lambda>l. Inr (EventsLimits l)))
      else if family_id = FAMILY_ENV then Some (ebind (env_Limits_from_extensions es) (\<lambda>l. Inr (EnvLimits l)))
      else None)"

fun FamilyLimits_tags :: "FamilyLimits \<Rightarrow> u16 list" where
  "FamilyLimits_tags (RelayLimits l) = [1, 2, 3, 4, 5, 6]"
| "FamilyLimits_tags (FontLimits l) = [1, 2, 3, 4, 5, 6, 7]"
| "FamilyLimits_tags (TerminalLimits l) = [1, 2, 3, 4, 5, 6, 7, 8]"
| "FamilyLimits_tags (ClientLimits l) = [1, 2]"
| "FamilyLimits_tags (SurfaceLimits l) = [1, 2, 3, 4, 5, 6, 7, 8, 9]"
| "FamilyLimits_tags (SelectionLimits l) = [1, 2, 3, 4, 5, 6, 7, 8]"
| "FamilyLimits_tags (DesktopLimits l) = [1, 2, 3, 4, 5, 6]"
| "FamilyLimits_tags (MediaLimits l) = [1, 2, 3, 4, 5, 6, 7, 8, 9, 10, 11, 12, 13, 14]"
| "FamilyLimits_tags (FsLimits l) = [1, 2, 3, 4, 5, 6, 7, 8, 9, 10, 11, 12, 13, 14]"
| "FamilyLimits_tags (GitLimits l) = [1, 2, 3, 4, 5, 6, 7, 8, 9, 10]"
| "FamilyLimits_tags (LspLimits l) = [1, 2, 3, 4, 5, 6, 7, 8, 9, 10, 11, 12]"
| "FamilyLimits_tags (KvLimits l) = [1, 2, 3, 4, 5, 6, 7, 8, 9]"
| "FamilyLimits_tags (ProcessLimits l) = [1, 2, 3, 4, 5, 6, 7, 8, 9, 10, 11, 12, 13, 14, 15, 16, 17, 18, 19]"
| "FamilyLimits_tags (NetLimits l) = [1, 2, 3, 4, 5, 6, 7, 8, 9, 10, 11, 12, 13]"
| "FamilyLimits_tags (ChannelLimits l) = [1, 2, 3, 4, 5, 6, 7, 8, 9]"
| "FamilyLimits_tags (ExtensionLimits l) = [1, 2, 3, 4, 5, 6, 7, 8, 9, 10, 11, 12, 13, 14]"
| "FamilyLimits_tags (EventsLimits l) = [1, 2, 3, 4, 5, 6, 7, 8]"
| "FamilyLimits_tags (EnvLimits l) = [1, 2, 3, 4, 5, 6]"

lemmas limits_extended =
  relay.extended_block font.extended_block terminal.extended_block client.extended_block surface.extended_block selection.extended_block desktop.extended_block media.extended_block fs.extended_block git.extended_block lsp.extended_block kv.extended_block process.extended_block net.extended_block channel.extended_block extension.extended_block events.extended_block env.extended_block

lemmas limits_from_valid =
  relay.readvertise font.readvertise terminal.readvertise client.readvertise surface.readvertise selection.readvertise desktop.readvertise media.readvertise fs.readvertise git.readvertise lsp.readvertise kv.readvertise process.readvertise net.readvertise channel.readvertise extension.readvertise events.readvertise env.readvertise

lemmas limits_optional =
  relay.to_optional font.to_optional terminal.to_optional client.to_optional surface.to_optional selection.to_optional desktop.to_optional media.to_optional fs.to_optional git.to_optional lsp.to_optional kv.to_optional process.to_optional net.to_optional channel.to_optional extension.to_optional events.to_optional env.to_optional

lemma FamilyLimits_optional: "FamilyLimits_to_extensions v = Inr es \<Longrightarrow> list_all (\<lambda>e. \<not> e_required e) es"
  by (cases v) (auto dest: limits_optional)

text \<open>
  A limits block survives the wire and later revisions of the protocol.  Reading back, with the
  reader of its family, the block that \<open>to_extensions\<close> emits gives the limits that were advertised,
  also when entries with unknown tags that are not required have been added to it.
\<close>

theorem family_limits_round_trip:
  assumes "FamilyLimits_to_extensions v = Inr fs"
    and "restrict_tags (FamilyLimits_tags v) es = fs" and "Extensions_validate es = Inr ()"
    and "list_all (\<lambda>e. \<not> e_required e) es"
  shows "FamilyLimits_from_extensions (FamilyLimits_family v) es = Some (Inr v)"
  using assms
  by (cases v) (auto simp: FamilyLimits_from_extensions_def family_consts list_all_iff
      dest!: limits_extended)

definition sample_limits :: FamilyLimits where
  "sample_limits = ClientLimits \<lparr>client_max_published_clients = 64, client_max_active_subscriptions = 8\<rparr>"

definition sample_block :: Extensions where
  "sample_block = [limit_u32 1 64, limit_u32 2 8]"

definition sample_extended :: Extensions where
  "sample_extended = sample_block @ [\<lparr>e_tag = 9, e_required = False, e_value = [1, 2, 3]\<rparr>]"

lemma sample_limits_block: "FamilyLimits_to_extensions sample_limits = Inr sample_block"
  by (simp add: sample_limits_def sample_block_def client_Limits_to_extensions_def
      client_Limits_validate_def client_HARD_def word_less_nat_alt)

theorem family_limits_round_trip_witness:
  "FamilyLimits_from_extensions FAMILY_CLIENT sample_extended = Some (Inr sample_limits)"
  using family_limits_round_trip[OF sample_limits_block, of sample_extended]
  by (simp add: sample_limits_def sample_block_def sample_extended_def restrict_tags_def limit_block)

text \<open>
  The hand-written limit types agree with the schema.  A descriptor that lists a family's schema
  operations, none of them dropped, and carries the limits its \<open>to_extensions\<close> emits passes
  \<open>FamilyDescriptor_validate\<close>, which checks operation directions, the schema's hard bounds per tag
  and the family's own reader.
\<close>

theorem advertised_descriptor_accepted:
  assumes "FamilyLimits_to_extensions v = Inr es"
    and "family_metadata (FamilyLimits_family v) 1 = Some f"
  shows "length (fd_operations (schema_descriptor f s es)) = length (fm_operations f)
    \<and> FamilyDescriptor_validate (schema_descriptor f s es) = Inr ()"
proof -
  from assms(2) have f: "f \<in> set FAMILIES" "fm_id f = FamilyLimits_family v" "fm_version f = 1"
    by (auto simp: family_metadata_def find_Some_iff)
  have ops: "length (operations_from_schema (fm_operations f)) = length (fm_operations f)"
    "length (fm_operations f) \<le> 65535"
    using FAMILIES_operations f(1) by (auto simp: list_all_iff intro!: operations_from_schema_complete)
  have "\<not> list_ex e_required es"
    using FamilyLimits_optional[OF assms(1)] by (auto simp: list_all_iff list_ex_iff)
  then have "FamilyDescriptor_validate (schema_descriptor f s es) = Inr ()"
    using ops f assms(2) schema_operations_ok[OF f(1), of s es] FamilyLimits_wire[OF assms(1)]
      FamilyLimits_policies[OF assms] FamilyLimits_known[OF assms(1)]
    by (simp add: FamilyDescriptor_validate_def schema_descriptor_def)
  with ops(1) show ?thesis
    by (simp add: schema_descriptor_def)
qed

theorem advertised_descriptor_accepted_witness:
  "\<exists>f. family_metadata FAMILY_CLIENT 1 = Some f
     \<and> FamilyDescriptor_validate (schema_descriptor f Degraded sample_block) = Inr ()"
proof -
  obtain f where f: "family_metadata FAMILY_CLIENT 1 = Some f"
    using schema_limits(4) by auto
  with advertised_descriptor_accepted[OF sample_limits_block, of f Degraded] show ?thesis
    by (simp add: sample_limits_def)
qed

section \<open>Negotiation\<close>

text \<open>What a validated catalogue satisfies, as a predicate on the list of descriptors.\<close>

definition catalog_ok :: "FamilyDescriptor list \<Rightarrow> bool" where
  "catalog_ok fs \<longleftrightarrow>
     fs \<noteq> [] \<and> fd_family_id (hd fs) = FAMILY_CORE \<and> fd_version (hd fs) = CORE_VERSION
     \<and> sorted_wrt (\<lambda>a b. fd_family_id a < fd_family_id b) fs
     \<and> (\<forall>d\<in>set fs. FamilyDescriptor_validate d = Inr ())
     \<and> (\<forall>d\<in>set fs. \<forall>m. family_metadata (fd_family_id d) (fd_version d) = Some m \<longrightarrow>
          set (fm_dependencies m) \<subseteq> fd_family_id ` set fs)"

lemma transp_family_order: "transp (\<lambda>a b. fd_family_id a < fd_family_id b)"
  by (auto simp: transp_def)

lemma validate_family_dependencies_iff:
  "validate_family_dependencies fs c = Inr () \<longleftrightarrow>
     (\<forall>d\<in>set fs. \<forall>m. family_metadata (fd_family_id d) (fd_version d) = Some m \<longrightarrow>
        set (fm_dependencies m) \<subseteq> fd_family_id ` set fs)"
  by (auto simp: validate_family_dependencies_def check_each_iff list_ex_iff image_iff subset_iff
      split: option.splits if_splits) metis+

lemma catalog_ok_checks:
  "family_order fs c = Inr () \<and> check_each FamilyDescriptor_validate fs = Inr ()
     \<and> validate_family_dependencies fs d = Inr () \<longleftrightarrow> catalog_ok fs \<and> length fs \<le> 65535"
  by (auto simp: family_order_def catalog_ok_def check_each_iff validate_family_dependencies_iff
      successively_conv_sorted_wrt[OF transp_family_order] enc_iff)

lemma ServerHello_validate_catalog:
  "ServerHello_validate h = Inr () \<Longrightarrow> catalog_ok (se_families h) \<and> ReceiveLimits_validate (se_receive h) = Inr ()"
  using catalog_ok_checks[of "se_families h"] by (auto simp: ServerHello_validate_def enc_iff)

text \<open>The operations of a descriptor never go in a direction the schema does not allow.\<close>

definition directions_ok :: "FamilyDescriptor \<Rightarrow> bool" where
  "directions_ok d \<longleftrightarrow>
     (\<forall>f m p. family_metadata (fd_family_id d) (fd_version d) = Some f \<and> m \<in> set (fm_operations f)
        \<and> p \<in> set (fd_operations d) \<and> om_class m = Class_wire (opn_class p) \<and> om_kind m = opn_kind p \<longrightarrow>
        (opn_server_accepts p \<longrightarrow> om_direction m \<noteq> SERVER_TO_CLIENT)
        \<and> (opn_server_sends p \<longrightarrow> om_direction m \<noteq> CLIENT_TO_SERVER))"

lemma validated_directions:
  assumes "FamilyDescriptor_validate d = Inr ()"
  shows "directions_ok d"
  unfolding directions_ok_def
proof (intro allI impI, elim conjE)
  fix f m p
  assume meta: "family_metadata (fd_family_id d) (fd_version d) = Some f" and "m \<in> set (fm_operations f)"
    and "p \<in> set (fd_operations d)" "om_class m = Class_wire (opn_class p)" "om_kind m = opn_kind p"
  have f: "f \<in> set FAMILIES"
    "find (\<lambda>f. fm_id f = fd_family_id d \<and> fm_version f = fd_version d) FAMILIES = Some f"
    using meta by (auto simp: family_metadata_def find_Some_iff)
  have "FamilyDescriptor_check_operation d [] p = Inr ()"
    using assms \<open>p \<in> set (fd_operations d)\<close>
    by (auto simp: FamilyDescriptor_validate_def enc_iff check_operations_iff split: if_splits)
  then show "(opn_server_accepts p \<longrightarrow> om_direction m \<noteq> SERVER_TO_CLIENT)
      \<and> (opn_server_sends p \<longrightarrow> om_direction m \<noteq> CLIENT_TO_SERVER)"
    using f schema_operation_lookup[OF f(1) \<open>m \<in> set (fm_operations f)\<close>]
      \<open>om_class m = Class_wire (opn_class p)\<close> \<open>om_kind m = opn_kind p\<close>
    by (auto simp: FamilyDescriptor_check_operation_def Operation_from_schema_def enc_iff
        CLIENT_TO_SERVER_def SERVER_TO_CLIENT_def DIRECTION_BIDIRECTIONAL_def split: if_splits)
qed

lemma check_selected_offered:
  "check_selected client d = Inr () \<Longrightarrow> \<exists>offer\<in>set (ch_families client).
     fo_family_id offer = fd_family_id d \<and> fd_version d \<in> set (fo_versions offer)"
  by (fastforce simp: check_selected_def find_Some_iff split: option.splits if_splits)

lemma required_selected:
  "\<not> list_ex (\<lambda>offer. fo_required offer \<and> \<not> list_ex (\<lambda>d. fd_family_id d = fo_family_id offer) fs) offers
   \<Longrightarrow> \<forall>offer\<in>set offers. fo_required offer \<longrightarrow> fo_family_id offer \<in> fd_family_id ` set fs"
  by (simp add: list_ex_iff image_iff) metis

text \<open>
  C8: a server HELLO that the client accepts for its own HELLO is a negotiation of what was offered.
  The Core minor lies in the offered range; the catalogue starts with Core, is ordered by family,
  holds valid descriptors only and is closed under the schema's dependencies; every other family was
  offered in the selected version; every required offer was selected; operations keep to the
  directions of the schema; and the compression codecs are ordered and were all offered.
\<close>

theorem negotiation_sound:
  assumes "ServerHello_validate_for_client h client = Inr ()"
  shows "ch_min_minor client \<le> se_minor h \<and> se_minor h \<le> ch_max_minor client
    \<and> catalog_ok (se_families h)
    \<and> (\<forall>d\<in>set (tl (se_families h)). \<exists>offer\<in>set (ch_families client).
           fo_family_id offer = fd_family_id d \<and> fd_version d \<in> set (fo_versions offer))
    \<and> (\<forall>offer\<in>set (ch_families client). fo_required offer \<longrightarrow>
           fo_family_id offer \<in> fd_family_id ` set (se_families h))
    \<and> (\<forall>d\<in>set (se_families h). directions_ok d)
    \<and> (\<exists>codecs. ServerHello_negotiated_codecs h = Inr codecs \<and> set codecs \<subseteq> set (ch_codecs client)
           \<and> sorted_wrt (<) codecs)"
proof (intro conjI)
  from assms have valid: "ServerHello_validate h = Inr ()"
    and selected: "check_each (check_selected client) (drop 1 (se_families h)) = Inr ()"
    and codecs: "\<exists>codecs. ServerHello_negotiated_codecs h = Inr codecs
          \<and> NegotiatedCodecs_validate_offered_by codecs client = Inr ()"
    by (auto simp: ServerHello_validate_for_client_def enc_iff)
  show "ch_min_minor client \<le> se_minor h" "se_minor h \<le> ch_max_minor client"
    using assms by (auto simp: ServerHello_validate_for_client_def enc_iff not_less)
  show catalog: "catalog_ok (se_families h)"
    using ServerHello_validate_catalog[OF valid] by simp
  then show "\<forall>d\<in>set (se_families h). directions_ok d"
    by (simp add: catalog_ok_def validated_directions)
  show "\<forall>d\<in>set (tl (se_families h)). \<exists>offer\<in>set (ch_families client).
      fo_family_id offer = fd_family_id d \<and> fd_version d \<in> set (fo_versions offer)"
    using selected by (simp add: check_each_iff check_selected_offered drop_Suc)
  show "\<forall>offer\<in>set (ch_families client). fo_required offer \<longrightarrow>
      fo_family_id offer \<in> fd_family_id ` set (se_families h)"
    using assms by (intro required_selected) (auto simp: ServerHello_validate_for_client_def enc_iff)
  show "\<exists>codecs. ServerHello_negotiated_codecs h = Inr codecs \<and> set codecs \<subseteq> set (ch_codecs client)
      \<and> sorted_wrt (<) codecs"
    using codecs by (auto simp: NegotiatedCodecs_validate_offered_by_def NegotiatedCodecs_validate_def
        enc_iff list_ex_iff successively_conv_sorted_wrt)
qed

text \<open>A client that offers Transfer and requires Client, and a server that selects both.\<close>

definition sample_descriptor :: "u16 \<Rightarrow> Extensions \<Rightarrow> FamilyDescriptor" where
  "sample_descriptor i es =
     \<lparr>fd_family_id = i, fd_version = 1, fd_runtime_state = Available, fd_operations = [], fd_limits = es\<rparr>"

definition hello_offer :: ClientHello where
  "hello_offer =
     \<lparr>ch_min_minor = 0, ch_max_minor = 3, ch_receive = ReceiveLimits_recommended 0,
      ch_client_instance = replicate 16 7, ch_client_name = [], ch_client_release = [],
      ch_families = [\<lparr>fo_family_id = FAMILY_TRANSFER, fo_versions = [2, 1], fo_required = False\<rparr>,
                     \<lparr>fo_family_id = FAMILY_CLIENT, fo_versions = [1], fo_required = True\<rparr>],
      ch_codecs = [1], ch_extensions = []\<rparr>"

definition hello_answer :: ServerHello where
  "hello_answer =
     \<lparr>se_minor = 2, se_boot_id = replicate 16 1, se_session_id = replicate 16 2,
      se_receive = ReceiveLimits_recommended 0, se_server_monotonic_ns = 5, se_catalog_revision = 1,
      se_server_name = [], se_server_release = [],
      se_families = [sample_descriptor FAMILY_CORE [], sample_descriptor FAMILY_TRANSFER [],
                     sample_descriptor FAMILY_CLIENT sample_block],
      se_extensions = []\<rparr>"

lemma recommended_valid: "ReceiveLimits_validate (ReceiveLimits_recommended 0) = Inr ()"
  by (simp add: ReceiveLimits_validate_def ReceiveLimits_recommended_def RECOMMENDED_WIRE_FRAME_def
      RECOMMENDED_DECODED_FRAME_def RECOMMENDED_BUFFERED_def HARD_MAX_WIRE_FRAME_def
      HARD_MAX_DECODED_FRAME_def HARD_MAX_DATAGRAM_def HARD_MAX_BUFFERED_def transport_consts
      word_less_nat_alt)

lemma hello_offer_valid: "ClientHello_validate hello_offer = Inr ()"
  by (simp add: ClientHello_validate_def hello_offer_def recommended_valid FamilyOffer_validate_def
      Extensions_validate_def family_consts word_less_nat_alt)

lemma sample_descriptors_valid:
  "FamilyDescriptor_validate (sample_descriptor FAMILY_CORE []) = Inr ()"
  "FamilyDescriptor_validate (sample_descriptor FAMILY_TRANSFER []) = Inr ()"
  "FamilyDescriptor_validate (sample_descriptor FAMILY_CLIENT sample_block) = Inr ()"
proof -
  note eval = FamilyDescriptor_validate_def sample_descriptor_def family_metadata_def FAMILIES_def
    family_consts validate_known_family_limits_def Extensions_validate_def
  show "FamilyDescriptor_validate (sample_descriptor FAMILY_CORE []) = Inr ()"
    "FamilyDescriptor_validate (sample_descriptor FAMILY_TRANSFER []) = Inr ()"
    by (simp_all add: eval CORE_LIMITS_def TRANSFER_LIMITS_def)
  obtain f where f: "family_metadata FAMILY_CLIENT 1 = Some f" "fm_limits f = CLIENT_LIMITS"
    using schema_limits(4) by auto
  have block: "FamilyLimits_family sample_limits = FAMILY_CLIENT" "\<not> list_ex e_required sample_block"
    by (simp_all add: sample_limits_def sample_block_def)
  show "FamilyDescriptor_validate (sample_descriptor FAMILY_CLIENT sample_block) = Inr ()"
    using f block FamilyLimits_wire[OF sample_limits_block] FamilyLimits_known[OF sample_limits_block]
      FamilyLimits_policies[OF sample_limits_block, of f]
    by (simp add: FamilyDescriptor_validate_def sample_descriptor_def)
qed

lemma sample_dependencies:
  "validate_family_dependencies (se_families hello_answer) c = Inr ()"
  by (simp add: validate_family_dependencies_def hello_answer_def sample_descriptor_def family_metadata_def
      FAMILIES_def family_consts)

lemma hello_answer_valid: "ServerHello_validate hello_answer = Inr ()"
  using sample_dependencies
  by (simp add: ServerHello_validate_def hello_answer_def recommended_valid sample_descriptors_valid
      family_order_def validate_result_or_event_extensions_def Extensions_validate_def)
    (simp add: sample_descriptor_def family_consts CORE_VERSION_def word_less_nat_alt)

lemma sample_negotiation: "ServerHello_validate_for_client hello_answer hello_offer = Inr ()"
  using hello_offer_valid hello_answer_valid
  by (simp add: ServerHello_validate_for_client_def ServerHello_negotiated_codecs_def
      NegotiatedCodecs_validate_offered_by_def NegotiatedCodecs_validate_def find_extension_def)
    (simp add: hello_answer_def hello_offer_def sample_descriptor_def check_selected_def family_consts
      word_less_nat_alt)

theorem negotiation_sound_witness:
  "catalog_ok (se_families hello_answer) \<and> se_minor hello_answer \<le> ch_max_minor hello_offer"
  using negotiation_sound[OF sample_negotiation] by simp

section \<open>One encoding each\<close>

text \<open>
  The catalogue payloads have one encoding each: the decoders of the server's HELLO, SESSION_INFO,
  its diagnostics and FAMILY_UPDATE accept exactly the bytes their encoders write, so everything they
  accept has passed the same validation an encoder performs.
\<close>

theorem Catalog_payloads_canonical:
  "(ServerHello_decode b = Inr h \<longleftrightarrow> ServerHello_ok h \<and> ServerHello_encode h = Inr b)
   \<and> (SessionInfo_decode b = Inr s \<longleftrightarrow> length (si_session_id s) = 16 \<and> SessionInfo_encode s = Inr b)
   \<and> (ServerDiagnostics_decode b = Inr d \<longleftrightarrow> ServerDiagnostics_encode d = Inr b)
   \<and> (FamilyUpdate_decode b = Inr u \<longleftrightarrow> FamilyUpdate_encode u = Inr b)"
  using ServerHello_codec.dec_iff SessionInfo_codec.dec_iff ServerDiagnostics_codec.dec_iff
    FamilyUpdate_codec.dec_iff by simp

end
