(* ===== verification/Wire_Attempt.thy ===== *)
theory Wire_Attempt
  imports Wire_Catalog
begin

text \<open>
  The two payloads of the Extension family that a guest exchanges before anything else
  (\<^verbatim>\<open>crates/yas/src/extension.rs\<close>): the \<^verbatim>\<open>ATTEMPT_CONTEXT\<close> it is started with and the
  \<^verbatim>\<open>ATTEMPT_OUTPUT\<close> records it writes.
\<close>

section \<open>Constants and enumerations\<close>

definition EXTENSION_VERSION :: u16 where "EXTENSION_VERSION = 1"
definition ATTEMPT_CONTEXT_KIND :: u16 where "ATTEMPT_CONTEXT_KIND = 2"
definition ATTEMPT_OUTPUT_KIND :: u16 where "ATTEMPT_OUTPUT_KIND = 3"
definition DEFINITION_PERSISTENT :: u16 where "DEFINITION_PERSISTENT = 1"
definition DEFINITION_ENABLED :: u16 where "DEFINITION_ENABLED = 2"
definition DEFINITION_DESIRED_RUNNING :: u16 where "DEFINITION_DESIRED_RUNNING = 4"
definition DEFINITION_DETACHED :: u16 where "DEFINITION_DETACHED = 8"
definition DEFINITION_FLAGS :: u16 where "DEFINITION_FLAGS = 15"
definition MAX_NAME_BYTES :: nat where "MAX_NAME_BYTES = 255"
definition MAX_ARGS :: nat where "MAX_ARGS = 1024"
definition MAX_ARG_BYTES :: nat where "MAX_ARG_BYTES = 65536"
definition MAX_ARGUMENT_BYTES :: nat where "MAX_ARGUMENT_BYTES = 1048576"
definition MAX_OUTPUT_RECORD_BYTES :: nat where "MAX_OUTPUT_RECORD_BYTES = 1048576"

datatype Runtime = RuntimeAuto | Wasmi | QuickJs

definition Runtime_wire :: "Runtime \<Rightarrow> u8" where
  "Runtime_wire r = (case r of RuntimeAuto \<Rightarrow> 0 | Wasmi \<Rightarrow> 1 | QuickJs \<Rightarrow> 2)"

definition Runtime_try_from :: "u8 \<Rightarrow> error + Runtime" where
  "Runtime_try_from v =
     (if v = Runtime_wire RuntimeAuto then Inr RuntimeAuto
      else if v = Runtime_wire Wasmi then Inr Wasmi
      else if v = Runtime_wire QuickJs then Inr QuickJs
      else Inl (Invalid ''Extension runtime''))"

datatype OutputKind = Stdout | Stderr | OutputLog | OutputGap

definition OutputKind_wire :: "OutputKind \<Rightarrow> u8" where
  "OutputKind_wire k = (case k of Stdout \<Rightarrow> 0 | Stderr \<Rightarrow> 1 | OutputLog \<Rightarrow> 2 | OutputGap \<Rightarrow> 3)"

definition OutputKind_try_from :: "u8 \<Rightarrow> error + OutputKind" where
  "OutputKind_try_from v =
     (if v = OutputKind_wire Stdout then Inr Stdout
      else if v = OutputKind_wire Stderr then Inr Stderr
      else if v = OutputKind_wire OutputLog then Inr OutputLog
      else if v = OutputKind_wire OutputGap then Inr OutputGap
      else Inl (Invalid ''Extension output kind''))"

section \<open>Checks\<close>

definition validate_handle :: "u64 \<Rightarrow> string \<Rightarrow> error + unit" where
  "validate_handle handle what = (if handle = 0 then Inl (Invalid what) else Inr ())"

definition validate_identity :: "u64 \<Rightarrow> u64 \<Rightarrow> error + unit" where
  "validate_identity handle generation =
     ebind (validate_handle handle ''Extension handle'') (\<lambda>_.
       if generation = 0 then Inl (Invalid ''zero Extension generation'') else Inr ())"

definition validate_definition_flags :: "u16 \<Rightarrow> error + unit" where
  "validate_definition_flags flags =
     (if flags AND NOT DEFINITION_FLAGS \<noteq> 0
         \<or> flags AND DEFINITION_DESIRED_RUNNING \<noteq> 0 \<and> flags AND DEFINITION_ENABLED = 0
         \<or> flags AND DEFINITION_PERSISTENT \<noteq> 0 \<and> flags AND DEFINITION_DETACHED = 0
      then Inl (Invalid ''Extension definition flags'') else Inr ())"

definition validate_name :: "bytes \<Rightarrow> bool \<Rightarrow> error + unit" where
  "validate_name name required =
     (if required \<and> name = [] \<or> MAX_NAME_BYTES < length name \<or> 0 \<in> set name
      then Inl (Invalid ''Extension name'') else Inr ())"

text \<open>The loop over the arguments; their total is bounded, so the checked sum cannot overflow first.\<close>

fun check_argv :: "nat \<Rightarrow> bytes list \<Rightarrow> error + unit" where
  "check_argv acc [] = Inr ()"
| "check_argv acc (arg # argv) =
     (if MAX_ARG_BYTES < length arg then Inl (Invalid ''Extension argument bytes'')
      else let acc = acc + length arg in
      if MAX_ARGUMENT_BYTES < acc
      then Inl (LimitExceeded ''Extension argument bytes'' (of_nat acc) (of_nat MAX_ARGUMENT_BYTES))
      else check_argv acc argv)"

definition validate_argv :: "bytes list \<Rightarrow> error + unit" where
  "validate_argv argv =
     (if MAX_ARGS < length argv then Inl (Invalid ''Extension argument count'') else check_argv 0 argv)"

definition extension_reject_unknown_required :: "Extensions \<Rightarrow> u16 list \<Rightarrow> error + unit" where
  "extension_reject_unknown_required es known =
     ebind (Extensions_validate es) (\<lambda>_.
       if list_ex (\<lambda>e. e_required e \<and> e_tag e \<notin> set known) es
       then Inl (Invalid ''unknown required Extension extension'') else Inr ())"

section \<open>ATTEMPT_CONTEXT\<close>

record AttemptContext =
  ac_extension_handle :: u64
  ac_generation :: u64
  ac_definition_revision :: u64
  ac_attempt :: u64
  ac_task_id :: u32
  ac_flags :: u16
  ac_runtime :: Runtime
  ac_content_hash :: bytes
  ac_name :: bytes
  ac_argv :: "bytes list"
  ac_extensions :: Extensions

definition AttemptContext_validate :: "AttemptContext \<Rightarrow> error + unit" where
  "AttemptContext_validate c =
     ebind (validate_identity (ac_extension_handle c) (ac_generation c)) (\<lambda>_.
     if ac_definition_revision c = 0 \<or> ac_attempt c = 0 \<or> ac_task_id c = 0 \<or> ac_runtime c = RuntimeAuto
     then Inl (Invalid ''Extension attempt context identity'')
     else ebind (validate_definition_flags (ac_flags c)) (\<lambda>_.
     ebind (validate_name (ac_name c) (ac_flags c AND DEFINITION_PERSISTENT \<noteq> 0)) (\<lambda>_.
     ebind (validate_argv (ac_argv c)) (\<lambda>_.
       extension_reject_unknown_required (ac_extensions c) []))))"

definition AttemptContext_encode :: "AttemptContext \<Rightarrow> error + bytes" where
  "AttemptContext_encode c =
     ebind (AttemptContext_validate c) (\<lambda>_.
     ebind (put_string_u16 (ac_name c)) (\<lambda>name.
     ebind (put_len_u16 (length (ac_argv c))) (\<lambda>argc.
     ebind (encode_all put_bytes_u32 (ac_argv c)) (\<lambda>argv.
     ebind (Extensions_encode_tail (ac_extensions c)) (\<lambda>tail.
       Inr (put_u64 (ac_extension_handle c) @ put_u64 (ac_generation c) @ put_u64 (ac_definition_revision c)
            @ put_u64 (ac_attempt c) @ put_u32 (ac_task_id c) @ put_u16 (ac_flags c)
            @ put_u8 (Runtime_wire (ac_runtime c)) @ put_u8 0 @ ac_content_hash c
            @ name @ argc @ argv @ tail))))))"

definition AttemptContext_body :: "AttemptContext reader" where
  "AttemptContext_body =
     rbind dec_u64 (\<lambda>handle. rbind dec_u64 (\<lambda>generation. rbind dec_u64 (\<lambda>revision.
     rbind dec_u64 (\<lambda>attempt. rbind dec_u32 (\<lambda>task_id. rbind dec_u16 (\<lambda>flags.
     rbind dec_u8 (\<lambda>code. rbind (rlift (Runtime_try_from code)) (\<lambda>runtime.
     rbind dec_u8 (\<lambda>reserved.
     if reserved \<noteq> 0 then rfail (Invalid ''Extension attempt-context reserved byte'')
     else rbind dec_array_32 (\<lambda>content_hash.
     rbind dec_string_u16 (\<lambda>name.
     rbind dec_u16 (\<lambda>argc.
     if MAX_ARGS < unat argc then rfail (Invalid ''Extension attempt argument count'')
     else rbind (bounded_list (unat argc) 4 ''Extension attempt argument count'' dec_len_bytes_u32) (\<lambda>argv.
     rbind dec_extensions (\<lambda>extensions.
       rret \<lparr>ac_extension_handle = handle, ac_generation = generation, ac_definition_revision = revision,
             ac_attempt = attempt, ac_task_id = task_id, ac_flags = flags, ac_runtime = runtime,
             ac_content_hash = content_hash, ac_name = name, ac_argv = argv,
             ac_extensions = extensions\<rparr>))))))))))))))"

definition AttemptContext_decode :: "bytes \<Rightarrow> error + AttemptContext" where
  "AttemptContext_decode =
     rrun (rbind AttemptContext_body (\<lambda>v. rbind dec_finish (\<lambda>_.
       rlift (ebind (AttemptContext_validate v) (\<lambda>_. Inr v)))))"

definition AttemptContext_ok :: "AttemptContext \<Rightarrow> bool" where
  "AttemptContext_ok c \<longleftrightarrow> length (ac_content_hash c) = 32 \<and> utf8_valid (ac_name c)"

section \<open>ATTEMPT_OUTPUT\<close>

record AttemptOutput =
  ao_kind :: OutputKind
  ao_data :: bytes
  ao_extensions :: Extensions

definition AttemptOutput_validate :: "AttemptOutput \<Rightarrow> error + unit" where
  "AttemptOutput_validate r =
     (if ao_kind r = OutputGap then Inl (Invalid ''Extension attempt output kind'')
      else if MAX_OUTPUT_RECORD_BYTES < length (ao_data r)
      then Inl (LimitExceeded ''Extension attempt output bytes'' (of_nat (length (ao_data r)))
                  (of_nat MAX_OUTPUT_RECORD_BYTES))
      else if ao_kind r = OutputLog \<and> \<not> utf8_valid (ao_data r)
      then Inl (Invalid ''Extension attempt log UTF-8'')
      else extension_reject_unknown_required (ao_extensions r) [])"

definition AttemptOutput_encode :: "AttemptOutput \<Rightarrow> error + bytes" where
  "AttemptOutput_encode r =
     ebind (AttemptOutput_validate r) (\<lambda>_.
     ebind (put_bytes_u32 (ao_data r)) (\<lambda>data.
     ebind (Extensions_encode_tail (ao_extensions r)) (\<lambda>tail.
       Inr (put_u8 (OutputKind_wire (ao_kind r)) @ put_u8 0 @ put_u8 0 @ put_u8 0 @ data @ tail))))"

definition AttemptOutput_body :: "AttemptOutput reader" where
  "AttemptOutput_body =
     rbind dec_u8 (\<lambda>code. rbind (rlift (OutputKind_try_from code)) (\<lambda>kind.
     rbind dec_u8 (\<lambda>a.
     if a \<noteq> 0 then rfail (Invalid ''Extension attempt-output reserved bytes'') else
     rbind dec_u8 (\<lambda>b.
     if b \<noteq> 0 then rfail (Invalid ''Extension attempt-output reserved bytes'') else
     rbind dec_u8 (\<lambda>c.
     if c \<noteq> 0 then rfail (Invalid ''Extension attempt-output reserved bytes'') else
     rbind dec_len_bytes_u32 (\<lambda>data. rbind dec_extensions (\<lambda>extensions.
       rret \<lparr>ao_kind = kind, ao_data = data, ao_extensions = extensions\<rparr>)))))))"

definition AttemptOutput_decode :: "bytes \<Rightarrow> error + AttemptOutput" where
  "AttemptOutput_decode =
     rrun (rbind AttemptOutput_body (\<lambda>v. rbind dec_finish (\<lambda>_.
       rlift (ebind (AttemptOutput_validate v) (\<lambda>_. Inr v)))))"

section \<open>One encoding each\<close>

lemma Runtime_try_from_iff [enc_iff]: "Runtime_try_from v = Inr r \<longleftrightarrow> v = Runtime_wire r"
  by (cases r) (auto simp: Runtime_try_from_def Runtime_wire_def)

lemma OutputKind_try_from_iff [enc_iff]: "OutputKind_try_from v = Inr k \<longleftrightarrow> v = OutputKind_wire k"
  by (cases k) (auto simp: OutputKind_try_from_def OutputKind_wire_def)

lemma put_bytes_u32_least: "put_bytes_u32 x = Inr p \<Longrightarrow> 4 \<le> length p"
  by (auto simp: put_bytes_u32_def enc_iff)

lemma argv_list_iff [rd_iff]:
  "bounded_list n 4 c dec_len_bytes_u32 b = Inr (xs, r) \<longleftrightarrow>
     length xs = n \<and> (\<exists>p. encode_all put_bytes_u32 xs = Inr p \<and> b = p @ r)"
  by (subst bytes_u32_item.bounded_list_iff) (auto dest: put_bytes_u32_least simp: list_all_iff)

lemma AttemptContext_decode_iff:
  "AttemptContext_decode b = Inr c \<longleftrightarrow> AttemptContext_ok c \<and> AttemptContext_encode c = Inr b"
proof -
  have "AttemptContext_validate c = Inr () \<Longrightarrow> length (ac_argv c) \<le> MAX_ARGS"
    by (auto simp: AttemptContext_validate_def validate_argv_def enc_iff)
  moreover have "n \<le> MAX_ARGS \<Longrightarrow> unat (of_nat n :: u16) = n" for n
    by (simp add: MAX_ARGS_def unat_of_nat)
  ultimately show ?thesis
    by (cases c) (auto simp: AttemptContext_decode_def AttemptContext_body_def AttemptContext_encode_def
        AttemptContext_ok_def rd_iff enc_iff array_32_field.fget_iff unat_u16_count list_all_iff MAX_ARGS_def)
qed

lemma AttemptOutput_decode_iff:
  "AttemptOutput_decode b = Inr r \<longleftrightarrow> AttemptOutput_encode r = Inr b"
  by (cases r) (auto simp: AttemptOutput_decode_def AttemptOutput_body_def AttemptOutput_encode_def rd_iff enc_iff)

lemma AttemptContext_body_stable: "stable AttemptContext_body"
  unfolding AttemptContext_body_def by (intro rd_stable stable_bounded_list)

lemma AttemptOutput_body_stable: "stable AttemptOutput_body"
  unfolding AttemptOutput_body_def by (intro rd_stable)

interpretation AttemptContext_codec:
  self_delimiting_codec AttemptContext_ok AttemptContext_encode AttemptContext_decode
  by unfold_locales (rule AttemptContext_decode_iff,
    rule framed_not_ok[OF AttemptContext_decode_def AttemptContext_body_stable])

interpretation AttemptOutput_codec: self_delimiting_codec "\<lambda>_. True" AttemptOutput_encode AttemptOutput_decode
  by unfold_locales (simp add: AttemptOutput_decode_iff,
    rule framed_not_ok[OF AttemptOutput_decode_def AttemptOutput_body_stable])

end
