(* ===== verification/Read_Only.thy ===== *)
theory Read_Only
  imports Wire_Catalog
begin

text \<open>
  Read-only sessions (\<^verbatim>\<open>crates/yas/src/read_only.rs\<close>): the ingress that buffers a client's preface and
  HELLO, adds the required read-only extension to it and passes every later byte through.  It is a
  state machine over chunks of a byte stream; the section on chunks shows that it computes a function
  of the stream, and the properties say what that function forwards.
\<close>

section \<open>Restricting a HELLO\<close>

definition READ_ONLY_TAG :: u16 where
  "READ_ONLY_TAG = CLIENT_HELLO_READ_ONLY_SESSION_EXTENSION"

definition is_read_only :: "ClientHello \<Rightarrow> bool" where
  "is_read_only hello \<longleftrightarrow> list_ex (\<lambda>e. e_tag e = READ_ONLY_TAG) (ch_extensions hello)"

text \<open>
  \<^verbatim>\<open>partition_point\<close> of an ordered list is the length of the prefix that satisfies the predicate.
\<close>

definition restrict_hello :: "ClientHello \<Rightarrow> ClientHello" where
  "restrict_hello hello =
     (if is_read_only hello then hello
      else let before = takeWhile (\<lambda>e. e_tag e < READ_ONLY_TAG) (ch_extensions hello);
               after = dropWhile (\<lambda>e. e_tag e < READ_ONLY_TAG) (ch_extensions hello)
           in hello\<lparr>ch_extensions :=
                before @ [\<lparr>e_tag = READ_ONLY_TAG, e_required = True, e_value = []\<rparr>] @ after\<rparr>)"

section \<open>The ingress\<close>

datatype ReadOnlyError = NotYas | HelloTooLarge u32 | InvalidHello error

record ReadOnlyIngress =
  ri_pending :: bytes
  ri_negotiated :: bool

definition ReadOnlyIngress_new :: ReadOnlyIngress where
  "ReadOnlyIngress_new = \<lparr>ri_pending = [], ri_negotiated = False\<rparr>"

definition ReadOnlyIngress_is_negotiated :: "ReadOnlyIngress \<Rightarrow> bool" where
  "ReadOnlyIngress_is_negotiated s = ri_negotiated s"

text \<open>\<^verbatim>\<open>FrameCodec::pre_hello()\<close>, which does not panic (\<^verbatim>\<open>pre_hello_new\<close> of \<^verbatim>\<open>Wire_Frame\<close>).\<close>

definition pre_hello_codec :: FrameCodec where
  "pre_hello_codec = projr FrameCodec_pre_hello"

definition map_error :: "('e \<Rightarrow> 'f) \<Rightarrow> 'e + 'a \<Rightarrow> 'f + 'a" where
  "map_error f m = (case m of Inl e \<Rightarrow> Inl (f e) | Inr a \<Rightarrow> Inr a)"

text \<open>
  The second half of \<^verbatim>\<open>push\<close>: the complete first frame, length prefix included, is decoded, checked to
  be a Core HELLO request, restricted and encoded again.
\<close>

definition rewrite_hello ::
  "(bytes \<Rightarrow> bytes) \<Rightarrow> (bytes \<Rightarrow> nat \<Rightarrow> bytes option) \<Rightarrow> bytes \<Rightarrow> ReadOnlyError + bytes" where
  "rewrite_hello compress decompress first =
     ebind (map_error InvalidHello (FrameCodec_decode_stream decompress pre_hello_codec first)) (\<lambda>(frame, consumed).
     if consumed \<noteq> length first
     then Inl (InvalidHello (TrailingBytes (length first - consumed)))
     else let request_id = (case fh_request_id (fr_header frame) of None \<Rightarrow> 0 | Some q \<Rightarrow> q) in
     if fr_header frame \<noteq> FrameHeader_request FAMILY_CORE HELLO_KIND request_id
        \<or> fh_compressed (fr_header frame)
     then Inl (InvalidHello (Invalid ''first frame (not a Core HELLO request)''))
     else ebind (map_error InvalidHello (ClientHello_decode (fr_payload frame))) (\<lambda>hello.
     ebind (map_error InvalidHello (ClientHello_encode (restrict_hello hello))) (\<lambda>payload.
       map_error InvalidHello
         (FrameCodec_encode_stream compress pre_hello_codec (frame\<lparr>fr_payload := payload\<rparr>)))))"

definition ReadOnlyIngress_push ::
  "(bytes \<Rightarrow> bytes) \<Rightarrow> (bytes \<Rightarrow> nat \<Rightarrow> bytes option) \<Rightarrow> ReadOnlyIngress \<Rightarrow> bytes
    \<Rightarrow> (ReadOnlyError + bytes option) \<times> ReadOnlyIngress" where
  "ReadOnlyIngress_push compress decompress s chunk =
     (if ri_negotiated s then (Inr (if chunk \<noteq> [] then Some chunk else None), s)
      else let pending = ri_pending s @ chunk;
               s1 = s\<lparr>ri_pending := pending\<rparr>;
               compared = min (length pending) (length PREFACE)
           in
      if take compared pending \<noteq> take compared PREFACE then (Inl NotYas, s1)
      else if length pending < length PREFACE + 4 then (Inr None, s1)
      else let len = (from_le (take 4 (drop (length PREFACE) pending)) :: u32) in
      if fl_max_wire_frame FrameLimits_pre_hello < len then (Inl (HelloTooLarge len), s1)
      else let hello_end = length PREFACE + 4 + unat len in
      if length pending < hello_end then (Inr None, s1)
      else (case rewrite_hello compress decompress
                   (take (hello_end - length PREFACE) (drop (length PREFACE) pending)) of
              Inl e \<Rightarrow> (Inl e, s1)
            | Inr hello \<Rightarrow> (Inr (Some (PREFACE @ hello @ drop hello_end pending)),
                            s1\<lparr>ri_pending := [], ri_negotiated := True\<rparr>)))"

section \<open>Chunks\<close>

text \<open>
  A relay that pushes chunks until one is refused: everything it sends to the server, or the error.
\<close>

fun push_all ::
  "(bytes \<Rightarrow> bytes) \<Rightarrow> (bytes \<Rightarrow> nat \<Rightarrow> bytes option) \<Rightarrow> ReadOnlyIngress \<Rightarrow> bytes list
    \<Rightarrow> ReadOnlyError + bytes" where
  "push_all compress decompress s [] = Inr []"
| "push_all compress decompress s (c # cs) =
     (case ReadOnlyIngress_push compress decompress s c of
        (Inl e, _) \<Rightarrow> Inl e
      | (Inr out, t) \<Rightarrow> ebind (push_all compress decompress t cs) (\<lambda>rest.
          Inr ((case out of None \<Rightarrow> [] | Some b \<Rightarrow> b) @ rest)))"

text \<open>What one push of the whole stream into a fresh ingress sends.\<close>

definition forwarded ::
  "(bytes \<Rightarrow> bytes) \<Rightarrow> (bytes \<Rightarrow> nat \<Rightarrow> bytes option) \<Rightarrow> bytes \<Rightarrow> ReadOnlyError + bytes option" where
  "forwarded compress decompress stream =
     fst (ReadOnlyIngress_push compress decompress ReadOnlyIngress_new stream)"

lemma length_PREFACE [simp]: "length PREFACE = 8"
  by (simp add: PREFACE_def)

lemma push_pending:
  "ReadOnlyIngress_push k d \<lparr>ri_pending = p, ri_negotiated = False\<rparr> c =
     ReadOnlyIngress_push k d ReadOnlyIngress_new (p @ c)"
  by (simp add: ReadOnlyIngress_push_def ReadOnlyIngress_new_def Let_def)

lemma push_waiting:
  "forwarded k d b = Inr None \<Longrightarrow>
     snd (ReadOnlyIngress_push k d ReadOnlyIngress_new b) = \<lparr>ri_pending = b, ri_negotiated = False\<rparr>"
  by (auto simp: forwarded_def ReadOnlyIngress_push_def ReadOnlyIngress_new_def Let_def
      split: if_splits sum.splits)

lemma push_done:
  "forwarded k d b = Inr (Some out) \<Longrightarrow> ri_negotiated (snd (ReadOnlyIngress_push k d ReadOnlyIngress_new b))"
  by (auto simp: forwarded_def ReadOnlyIngress_push_def ReadOnlyIngress_new_def Let_def
      split: if_splits sum.splits)

definition preface_ok :: "bytes \<Rightarrow> bool" where
  "preface_ok b \<longleftrightarrow> take (min (length b) 8) b = take (min (length b) 8) PREFACE"

definition hello_len :: "bytes \<Rightarrow> u32" where
  "hello_len b = from_le (take 4 (drop 8 b))"

lemma forwarded_eq:
  "forwarded k d b =
     (if \<not> preface_ok b then Inl NotYas
      else if length b < 12 then Inr None
      else if fl_max_wire_frame FrameLimits_pre_hello < hello_len b then Inl (HelloTooLarge (hello_len b))
      else if length b < 12 + unat (hello_len b) then Inr None
      else ebind (rewrite_hello k d (take (4 + unat (hello_len b)) (drop 8 b))) (\<lambda>hello.
        Inr (Some (PREFACE @ hello @ drop (12 + unat (hello_len b)) b))))"
  by (auto simp: forwarded_def ReadOnlyIngress_push_def ReadOnlyIngress_new_def Let_def preface_ok_def
      hello_len_def ebind_def split: sum.splits)

lemma preface_ok_append: "preface_ok (b @ t) \<Longrightarrow> preface_ok b"
  unfolding preface_ok_def
  by (drule arg_cong[where f = "take (min (length b) 8)"]) (simp add: min_def split: if_splits)

lemma preface_ok_long: "8 \<le> length b \<Longrightarrow> preface_ok (b @ t) = preface_ok b"
  by (simp add: preface_ok_def)

lemma preface_ok_iff: "8 \<le> length b \<Longrightarrow> preface_ok b \<longleftrightarrow> (\<exists>r. b = PREFACE @ r)"
  by (auto simp: preface_ok_def min_def) (metis append_take_drop_id)+

lemma hello_len_append: "12 \<le> length b \<Longrightarrow> hello_len (b @ t) = hello_len b"
  by (simp add: hello_len_def)

lemma forwarded_refused: "forwarded k d b = Inl e \<Longrightarrow> forwarded k d (b @ t) = Inl e"
  using preface_ok_append[of b t] preface_ok_long[of b t] hello_len_append[of b t]
  by (auto simp: forwarded_eq ebind_def split: if_splits sum.splits)

lemma forwarded_sent: "forwarded k d b = Inr (Some out) \<Longrightarrow> forwarded k d (b @ t) = Inr (Some (out @ t))"
  using preface_ok_long[of b t] hello_len_append[of b t]
  by (auto simp: forwarded_eq ebind_def split: if_splits sum.splits)

lemma push_all_negotiated: "ri_negotiated s \<Longrightarrow> push_all k d s cs = Inr (concat cs)"
  by (induction cs) (auto simp: ReadOnlyIngress_push_def)

lemma forwarded_empty: "forwarded k d [] = Inr None"
  by (simp add: forwarded_eq preface_ok_def)

lemma push_all_pending:
  "forwarded k d p = Inr None \<Longrightarrow>
     push_all k d \<lparr>ri_pending = p, ri_negotiated = False\<rparr> cs =
       ebind (forwarded k d (p @ concat cs)) (\<lambda>out. Inr (case out of None \<Rightarrow> [] | Some b \<Rightarrow> b))"
proof (induction cs arbitrary: p)
  case (Cons c cs)
  obtain r t where rt: "ReadOnlyIngress_push k d ReadOnlyIngress_new (p @ c) = (r, t)"
    by (cases "ReadOnlyIngress_push k d ReadOnlyIngress_new (p @ c)")
  then have r: "forwarded k d (p @ c) = r"
    by (simp add: forwarded_def)
  show ?case
  proof (cases r)
    case (Inl e)
    then show ?thesis
      using rt forwarded_refused[of k d "p @ c" e "concat cs"] r by (simp add: push_pending)
  next
    case (Inr out)
    show ?thesis
    proof (cases out)
      case None
      with r Inr have t: "t = \<lparr>ri_pending = p @ c, ri_negotiated = False\<rparr>"
        using push_waiting[of k d "p @ c"] rt by simp
      with None Inr rt r Cons.IH[of "p @ c"] show ?thesis
        by (auto simp: push_pending ebind_def split: sum.splits)
    next
      case (Some b)
      with r Inr have "ri_negotiated t"
        using push_done[of k d "p @ c"] rt by simp
      with Some Inr rt r forwarded_sent[of k d "p @ c" b "concat cs"] show ?thesis
        by (simp add: push_pending push_all_negotiated)
    qed
  qed
qed simp

section \<open>The rewritten HELLO\<close>

lemma restrict_read_only: "is_read_only (restrict_hello h)"
  by (simp add: restrict_hello_def is_read_only_def Let_def)

lemma restrict_extensions:
  assumes "\<not> is_read_only h"
  shows "filter (\<lambda>e. e_tag e \<noteq> READ_ONLY_TAG) (ch_extensions (restrict_hello h)) = ch_extensions h"
proof -
  have "filter (\<lambda>e. e_tag e \<noteq> READ_ONLY_TAG) (ch_extensions (restrict_hello h))
      = filter (\<lambda>e. e_tag e \<noteq> READ_ONLY_TAG) (ch_extensions h)"
    using assms
    by (simp add: restrict_hello_def Let_def)
      (simp only: filter_append[symmetric] takeWhile_dropWhile_id)
  also have "\<dots> = ch_extensions h"
    using assms by (simp add: is_read_only_def list_ex_iff filter_id_conv)
  finally show ?thesis .
qed

lemma restrict_other: "(restrict_hello h)\<lparr>ch_extensions := es\<rparr> = h\<lparr>ch_extensions := es\<rparr>"
  by (simp add: restrict_hello_def Let_def)

lemma restrict_filter:
  "filter (\<lambda>e. e_tag e \<noteq> READ_ONLY_TAG) (ch_extensions (restrict_hello h))
     = filter (\<lambda>e. e_tag e \<noteq> READ_ONLY_TAG) (ch_extensions h)"
proof (cases "is_read_only h")
  case True
  then show ?thesis
    by (simp add: restrict_hello_def)
next
  case False
  then have "filter (\<lambda>e. e_tag e \<noteq> READ_ONLY_TAG) (ch_extensions h) = ch_extensions h"
    by (simp add: is_read_only_def list_ex_iff filter_id_conv)
  with restrict_extensions[OF False] show ?thesis
    by simp
qed

lemma ClientHello_ok_restrict: "ClientHello_ok (restrict_hello h) \<longleftrightarrow> ClientHello_ok h"
  by (simp add: ClientHello_ok_def restrict_hello_def Let_def)

text \<open>The validation a HELLO passes makes the extension required and empty.\<close>

lemma restricted_required:
  assumes "ClientHello_encode (restrict_hello h) = Inr p"
  shows "\<exists>e\<in>set (ch_extensions (restrict_hello h)). e_tag e = READ_ONLY_TAG \<and> e_required e \<and> e_value e = []"
proof -
  obtain e where e: "e \<in> set (ch_extensions (restrict_hello h))" "e_tag e = READ_ONLY_TAG"
    using restrict_read_only[of h] by (auto simp: is_read_only_def list_ex_iff)
  have "ClientHello_validate_extension e = Inr ()"
    using assms e(1)
    by (auto simp: ClientHello_encode_def ClientHello_validate_def enc_iff check_each_iff split: if_splits)
  with e show ?thesis
    by (auto simp: ClientHello_validate_extension_def READ_ONLY_TAG_def CLIENT_HELLO_IDLE_TIMEOUT_EXTENSION_def
        CLIENT_HELLO_INITIAL_WATCHES_EXTENSION_def CLIENT_HELLO_READ_ONLY_SESSION_EXTENSION_def
        split: if_splits)
qed

definition hello_frame :: "u32 \<Rightarrow> bytes \<Rightarrow> Frame" where
  "hello_frame q payload = \<lparr>fr_header = FrameHeader_request FAMILY_CORE HELLO_KIND q, fr_payload = payload\<rparr>"

lemma hello_frame_plain: "\<not> fh_compressed (fr_header (hello_frame q p))"
  by (simp add: hello_frame_def FrameHeader_request_def)

text \<open>A frame that is not compressed: the stream decoder accepts exactly its encoding.\<close>

lemma decode_stream_plain:
  assumes "\<not> fh_compressed (fr_header f)"
  shows "FrameCodec_decode_stream d c b = Inr (f, length b) \<longleftrightarrow> FrameCodec_encode_stream k c f = Inr b"
proof
  assume dec: "FrameCodec_decode_stream d c b = Inr (f, length b)"
  define n where "n = (from_le (take 4 b) :: u32)"
  from dec have b: "length b = 4 + unat n" "FrameCodec_decode d c (drop 4 b) = Inr f"
    by (auto simp: FrameCodec_decode_stream_def Let_def enc_iff n_def split: if_splits)
  have "put_u32 n = take 4 b"
    using le_bytes_from_le[of "take 4 b", where 'a = 32] b(1) by (simp add: put_u32_def n_def)
  moreover have "n = of_nat (length (drop 4 b))"
    using b(1) by simp
  ultimately have "b = put_u32 (of_nat (length (drop 4 b))) @ drop 4 b"
    by (metis append_take_drop_id)
  then show "FrameCodec_encode_stream k c f = Inr b"
    using FrameCodec_decode_plain[OF b(2) assms, of k] b(1) unsigned_less[of n, where 'a = nat]
    by (simp add: encode_stream_iff)
next
  assume enc: "FrameCodec_encode_stream k c f = Inr b"
  then obtain e where e: "FrameCodec_encode k c f = Inr e" "length e < 2 ^ 32"
    and b: "b = put_u32 (of_nat (length e)) @ e"
    by (auto simp: encode_stream_iff)
  have "FrameCodec_decode d c e = Inr f"
    using e(1) assms by (auto simp: FrameCodec_encode_iff FrameCodec_decode_iff decode_payload_plain)
  moreover have "FrameCodec_check_wire_len c (length e) = Inr ()"
    using e(1) by (simp add: FrameCodec_encode_iff check_wire_len_iff)
  ultimately show "FrameCodec_decode_stream d c b = Inr (f, length b)"
    using e(2) by (simp add: b FrameCodec_decode_stream_def from_le_u32 Let_def unat_of_nat)
qed

lemma map_error_iff: "map_error g m = Inr a \<longleftrightarrow> m = Inr a"
  by (auto simp: map_error_def split: sum.splits)

lemma rewrite_hello_iff:
  "rewrite_hello k d first = Inr out \<longleftrightarrow>
     (\<exists>q p h p'. FrameCodec_encode_stream k pre_hello_codec (hello_frame q p) = Inr first
        \<and> ClientHello_decode p = Inr h \<and> ClientHello_encode (restrict_hello h) = Inr p'
        \<and> FrameCodec_encode_stream k pre_hello_codec (hello_frame q p') = Inr out)"
  (is "?lhs \<longleftrightarrow> ?rhs")
proof
  assume ?lhs
  then obtain f h p' where f: "FrameCodec_decode_stream d pre_hello_codec first = Inr (f, length first)"
    and head: "fr_header f = FrameHeader_request FAMILY_CORE HELLO_KIND
        (case fh_request_id (fr_header f) of None \<Rightarrow> 0 | Some q \<Rightarrow> q)"
    and rest: "ClientHello_decode (fr_payload f) = Inr h" "ClientHello_encode (restrict_hello h) = Inr p'"
      "FrameCodec_encode_stream k pre_hello_codec (f\<lparr>fr_payload := p'\<rparr>) = Inr out"
    by (auto simp: rewrite_hello_def Let_def enc_iff map_error_iff split: if_splits)
  define q where "q = (case fh_request_id (fr_header f) of None \<Rightarrow> 0 | Some q \<Rightarrow> q)"
  have eq: "f = hello_frame q (fr_payload f)" "f\<lparr>fr_payload := p'\<rparr> = hello_frame q p'"
    using head by (cases f; simp add: hello_frame_def q_def)+
  have "FrameCodec_encode_stream k pre_hello_codec (hello_frame q (fr_payload f)) = Inr first"
    using f decode_stream_plain[OF hello_frame_plain] eq(1) by metis
  with rest show ?rhs
    unfolding eq(2) by blast
next
  assume ?rhs
  then obtain q p h p' where enc: "FrameCodec_encode_stream k pre_hello_codec (hello_frame q p) = Inr first"
    and rest: "ClientHello_decode p = Inr h" "ClientHello_encode (restrict_hello h) = Inr p'"
      "FrameCodec_encode_stream k pre_hello_codec (hello_frame q p') = Inr out"
    by blast
  have "FrameCodec_decode_stream d pre_hello_codec first = Inr (hello_frame q p, length first)"
    using enc decode_stream_plain[OF hello_frame_plain] by blast
  then show ?lhs
    using rest by (simp add: rewrite_hello_def map_error_def hello_frame_def FrameHeader_request_def)
qed

lemma pre_hello_codec_limits: "fc_limits pre_hello_codec = FrameLimits_pre_hello"
proof -
  obtain c where c: "FrameCodec_pre_hello = Inr c"
    using pre_hello_new by blast
  show ?thesis
    unfolding pre_hello_codec_def c sum.sel by (simp add: pre_hello_ok[OF c])
qed

lemma forwarded_sent_iff:
  "forwarded k d b = Inr (Some out) \<longleftrightarrow>
     (\<exists>first rest hello. b = PREFACE @ first @ rest \<and> rewrite_hello k d first = Inr hello
        \<and> out = PREFACE @ hello @ rest)"
  (is "?lhs \<longleftrightarrow> ?rhs")
proof
  assume ?lhs
  then obtain hello where ok: "preface_ok b" "12 + unat (hello_len b) \<le> length b"
    and hello: "rewrite_hello k d (take (4 + unat (hello_len b)) (drop 8 b)) = Inr hello"
    and out: "out = PREFACE @ hello @ drop (12 + unat (hello_len b)) b"
    by (auto simp: forwarded_eq enc_iff split: if_splits)
  then obtain r where "b = PREFACE @ r"
    using preface_ok_iff[of b] by auto
  then have "b = PREFACE @ take (4 + unat (hello_len b)) (drop 8 b) @ drop (12 + unat (hello_len b)) b"
    by simp
  with hello out show ?rhs
    by blast
next
  assume ?rhs
  then obtain first rest hello where b: "b = PREFACE @ first @ rest"
    and hello: "rewrite_hello k d first = Inr hello" and out: "out = PREFACE @ hello @ rest"
    by blast
  then obtain q p where "FrameCodec_encode_stream k pre_hello_codec (hello_frame q p) = Inr first"
    by (auto simp: rewrite_hello_iff)
  then obtain e where first: "first = put_u32 (of_nat (length e)) @ e"
    and e: "length e < 2 ^ 32" "length e \<le> unat (fl_max_wire_frame (fc_limits pre_hello_codec))"
    by (auto simp: encode_stream_iff FrameCodec_encode_iff)
  have len: "hello_len b = of_nat (length e)" "unat (of_nat (length e) :: u32) = length e"
    using e(1) from_le_u32[of "of_nat (length e)"] by (simp_all add: hello_len_def b first unat_of_nat)
  moreover have "fc_limits pre_hello_codec = FrameLimits_pre_hello"
    by (rule pre_hello_codec_limits)
  moreover have "preface_ok b"
    by (subst preface_ok_iff) (auto simp: b)
  ultimately show ?lhs
    using e hello out by (simp add: forwarded_eq word_less_nat_alt not_less) (simp add: b first)
qed

lemma encode_all_append:
  "encode_all f (xs @ ys) = ebind (encode_all f xs) (\<lambda>a. ebind (encode_all f ys) (\<lambda>b. Inr (a @ b)))"
  by (induction xs) (auto simp: ebind_def split: sum.splits)

abbreviation read_only_extension :: Extension where
  "read_only_extension \<equiv> \<lparr>e_tag = READ_ONLY_TAG, e_required = True, e_value = []\<rparr>"

text \<open>In a HELLO whose tags increase the new extension is inserted where its tag belongs.\<close>

lemma restrict_split:
  assumes "sorted_wrt (\<lambda>x y. e_tag x < e_tag y) (ch_extensions h)" and "\<not> is_read_only h"
  obtains before after where "ch_extensions h = before @ after"
    "restrict_hello h = h\<lparr>ch_extensions := before @ [read_only_extension] @ after\<rparr>"
    "\<And>x. x \<in> set before \<Longrightarrow> e_tag x < READ_ONLY_TAG" "\<And>x. x \<in> set after \<Longrightarrow> READ_ONLY_TAG < e_tag x"
proof (rule that)
  let ?P = "\<lambda>e. e_tag e < READ_ONLY_TAG"
  let ?before = "takeWhile ?P (ch_extensions h)" and ?after = "dropWhile ?P (ch_extensions h)"
  show "ch_extensions h = ?before @ ?after"
    by simp
  show "restrict_hello h = h\<lparr>ch_extensions := ?before @ [read_only_extension] @ ?after\<rparr>"
    using assms(2) by (simp add: restrict_hello_def Let_def)
  show "e_tag x < READ_ONLY_TAG" if "x \<in> set ?before" for x
    using set_takeWhileD[OF that] by simp
  show "READ_ONLY_TAG < e_tag x" if x: "x \<in> set ?after" for x
  proof -
    obtain a as where after: "?after = a # as"
      using x by (cases ?after) auto
    have "\<not> ?P a"
      using after by (simp add: dropWhile_eq_Cons_conv)
    moreover have "e_tag x \<noteq> READ_ONLY_TAG"
      using assms(2) set_dropWhileD[OF x] by (auto simp: is_read_only_def list_ex_iff)
    moreover have "sorted_wrt (\<lambda>x y. e_tag x < e_tag y) (?before @ a # as)"
      using assms(1) after by (metis takeWhile_dropWhile_id)
    then have "x = a \<or> e_tag a < e_tag x"
      using x by (auto simp: after sorted_wrt_append)
    ultimately show ?thesis
      by auto
  qed
qed

text \<open>Restricting a HELLO lengthens its encoding by the eight bytes of one empty extension.\<close>

lemma restricted_encode:
  assumes enc: "ClientHello_encode h = Inr p" and new: "\<not> is_read_only h"
    and room: "length (ch_extensions h) < HARD_MAX_EXTENSION_ENTRIES" "length p + 8 < 2 ^ 32"
  shows "\<exists>p'. ClientHello_encode (restrict_hello h) = Inr p' \<and> length p' = length p + 8"
proof -
  obtain tail where valid: "ClientHello_validate h = Inr ()"
    and tail: "Extensions_encode_tail (ch_extensions h) = Inr tail" "length tail \<le> length p"
    using enc by (auto simp: ClientHello_encode_def enc_iff)
  note sorted = Extensions_tail_valid[OF tail(1), unfolded Extensions_validate_iff, THEN conjunct2]
  obtain before after where es: "ch_extensions h = before @ after"
    and h': "restrict_hello h = h\<lparr>ch_extensions := before @ [read_only_extension] @ after\<rparr>"
    and tags: "\<And>x. x \<in> set before \<Longrightarrow> e_tag x < READ_ONLY_TAG" "\<And>x. x \<in> set after \<Longrightarrow> READ_ONLY_TAG < e_tag x"
    using restrict_split[OF sorted new] by blast
  let ?es = "before @ [read_only_extension] @ after"
  have ext: "Extensions_validate ?es = Inr ()"
    using sorted room(1) tags by (auto simp: Extensions_validate_iff es sorted_wrt_append)
  obtain a b where ab: "encode_all Extension_encode before = Inr a" "encode_all Extension_encode after = Inr b"
    and t: "tail = put_u32 (of_nat (length a + length b)) @ a @ b"
    using tail(1)
    by (auto simp: Extensions_encode_tail_def Extensions_encode_entries_def enc_iff es encode_all_append)
  obtain tail' where tail': "Extensions_encode_tail ?es = Inr tail'" "length tail' = length tail + 8"
    using ext room(2) tail(2)
    by (simp add: t Extensions_encode_tail_def Extensions_encode_entries_def encode_all_append ab
        Extension_encode_def put_len_u32_def)
  have "ClientHello_validate_extension read_only_extension = Inr ()"
    by (simp add: ClientHello_validate_extension_def READ_ONLY_TAG_def CLIENT_HELLO_IDLE_TIMEOUT_EXTENSION_def
        CLIENT_HELLO_INITIAL_WATCHES_EXTENSION_def CLIENT_HELLO_READ_ONLY_SESSION_EXTENSION_def
        CLIENT_IDENTIFIER_TAG_def)
  then have "ClientHello_validate (restrict_hello h) = Inr ()"
    using valid ext by (auto simp: h' es ClientHello_validate_def enc_iff check_each_iff split: if_splits)
  then show ?thesis
    using enc tail tail' by (auto simp: h' ClientHello_encode_def enc_iff)
qed

lemma hello_frame_longer:
  assumes "FrameCodec_encode_stream k pre_hello_codec (hello_frame q p) = Inr first"
    and "length p' + 9 \<le> 65536"
  shows "\<exists>hello. FrameCodec_encode_stream k pre_hello_codec (hello_frame q p') = Inr hello
    \<and> length hello + length p = length first + length p'"
  using assms
  by (auto simp: encode_stream_iff FrameCodec_encode_iff pre_hello_codec_limits hello_frame_def
      FrameHeader_request_def FrameHeader_encode_iff FrameHeader_encoded_len_def transport_consts
      FrameLimits_pre_hello_def PRE_HELLO_MAX_FRAME_def)

lemma push_sent:
  "fst (ReadOnlyIngress_push k d ReadOnlyIngress_new b) = Inr (Some out) \<Longrightarrow>
     ReadOnlyIngress_push k d ReadOnlyIngress_new b = (Inr (Some out), \<lparr>ri_pending = [], ri_negotiated = True\<rparr>)"
  by (auto simp: ReadOnlyIngress_push_def ReadOnlyIngress_new_def Let_def split: if_splits sum.splits)

section \<open>Properties\<close>

text \<open>
  C40: the ingress computes a function of the byte stream.  However a client's bytes are cut into chunks,
  pushing them one after another sends the server the same bytes, and refuses the stream with the same
  error, as pushing the whole stream at once.
\<close>

theorem ingress_chunks:
  "push_all compress decompress ReadOnlyIngress_new chunks =
     ebind (fst (ReadOnlyIngress_push compress decompress ReadOnlyIngress_new (concat chunks)))
       (\<lambda>out. Inr (case out of None \<Rightarrow> [] | Some b \<Rightarrow> b))"
  using push_all_pending[OF forwarded_empty, of compress decompress chunks]
  by (simp add: ReadOnlyIngress_new_def forwarded_def)

text \<open>
  C9: what reaches the server is a read-only session.  Whenever a fresh ingress sends anything, the
  client's stream began with the preface and one complete Core HELLO request, and what is sent is the
  preface, a HELLO request with the same request id, and the client's remaining bytes unchanged.  The
  HELLO that is sent is one the server's decoder accepts, it carries the read-only extension, required
  and empty, and differs from the client's in nothing else.
\<close>

theorem ingress_read_only:
  assumes "fst (ReadOnlyIngress_push compress decompress ReadOnlyIngress_new stream) = Inr (Some sent)"
  shows "\<exists>q first p h hello p' rest.
    stream = PREFACE @ first @ rest \<and> sent = PREFACE @ hello @ rest
    \<and> FrameCodec_decode_stream decompress pre_hello_codec first = Inr (hello_frame q p, length first)
    \<and> ClientHello_decode p = Inr h
    \<and> FrameCodec_decode_stream decompress pre_hello_codec hello = Inr (hello_frame q p', length hello)
    \<and> ClientHello_decode p' = Inr (restrict_hello h)
    \<and> (\<exists>e\<in>set (ch_extensions (restrict_hello h)). e_tag e = READ_ONLY_TAG \<and> e_required e \<and> e_value e = [])
    \<and> (restrict_hello h)\<lparr>ch_extensions := []\<rparr> = h\<lparr>ch_extensions := []\<rparr>
    \<and> filter (\<lambda>e. e_tag e \<noteq> READ_ONLY_TAG) (ch_extensions (restrict_hello h))
        = filter (\<lambda>e. e_tag e \<noteq> READ_ONLY_TAG) (ch_extensions h)"
proof -
  obtain first rest hello q p h p' where b: "stream = PREFACE @ first @ rest" "sent = PREFACE @ hello @ rest"
    and first: "FrameCodec_encode_stream compress pre_hello_codec (hello_frame q p) = Inr first"
    and h: "ClientHello_decode p = Inr h" "ClientHello_encode (restrict_hello h) = Inr p'"
    and hello: "FrameCodec_encode_stream compress pre_hello_codec (hello_frame q p') = Inr hello"
    using assms by (auto simp: forwarded_def[symmetric] forwarded_sent_iff rewrite_hello_iff)
  note decoded = decode_stream_plain[OF hello_frame_plain, THEN iffD2]
  have "ClientHello_decode p' = Inr (restrict_hello h)"
    using h ClientHello_ok_restrict by (simp add: ClientHello_decode_iff)
  then show ?thesis
    using b h(1) decoded[OF first] decoded[OF hello] restricted_required[OF h(2)] restrict_other
      restrict_filter by metis
qed

text \<open>
  The ingress does not get in the way.  A client whose first frame is a valid HELLO is passed: a HELLO
  that already asks for a read-only session as it is, any other whenever the eight bytes of the
  extension still fit, that is, when it has fewer than 4096 extensions and its frame is at least eight
  bytes below the 64 KiB limit of a first frame.
\<close>

theorem ingress_passes:
  assumes "ClientHello_decode p = Inr h"
    and "FrameCodec_encode_stream compress pre_hello_codec (hello_frame q p) = Inr first"
    and "is_read_only h \<or> length (ch_extensions h) < HARD_MAX_EXTENSION_ENTRIES \<and> length p + 17 \<le> 65536"
  shows "\<exists>hello. ReadOnlyIngress_push compress decompress ReadOnlyIngress_new (PREFACE @ first @ rest)
      = (Inr (Some (PREFACE @ hello @ rest)), \<lparr>ri_pending = [], ri_negotiated = True\<rparr>)
    \<and> (if is_read_only h then hello = first else length hello = length first + 8)"
proof -
  have enc: "ClientHello_encode h = Inr p"
    using assms(1) by (simp add: ClientHello_decode_iff)
  have "\<exists>p'. ClientHello_encode (restrict_hello h) = Inr p'
      \<and> (if is_read_only h then p' = p else length p' = length p + 8)"
    using assms(3) restricted_encode[OF enc] enc by (auto simp: restrict_hello_def)
  then obtain p' where p': "ClientHello_encode (restrict_hello h) = Inr p'"
    "if is_read_only h then p' = p else length p' = length p + 8"
    by blast
  have "\<exists>hello. FrameCodec_encode_stream compress pre_hello_codec (hello_frame q p') = Inr hello
      \<and> (if is_read_only h then hello = first else length hello = length first + 8)"
    using hello_frame_longer[OF assms(2), of p'] p'(2) assms(2,3) by (cases "is_read_only h") auto
  then obtain hello where hello: "FrameCodec_encode_stream compress pre_hello_codec (hello_frame q p') = Inr hello"
    "if is_read_only h then hello = first else length hello = length first + 8"
    by blast
  then have "rewrite_hello compress decompress first = Inr hello"
    using assms(1,2) p'(1) unfolding rewrite_hello_iff by blast
  then have "forwarded compress decompress (PREFACE @ first @ rest) = Inr (Some (PREFACE @ hello @ rest))"
    unfolding forwarded_sent_iff by blast
  then show ?thesis
    using push_sent hello(2) unfolding forwarded_def by blast
qed

lemma hello_offer_encoded: "\<exists>p. ClientHello_decode p = Inr hello_offer \<and> length p \<le> 200"
  using hello_offer_valid
  by (simp add: ClientHello_decode_iff ClientHello_encode_def)
    (simp add: ClientHello_ok_def hello_offer_def put_string_u16_def put_bytes_u16_def put_len_u16_def put_len_u8_def
      put_len_u32_def FamilyOffer_put_def FamilyOffer_validate_def Extensions_encode_tail_def
      Extensions_encode_entries_def Extensions_validate_def ReceiveLimits_encode_to_def recommended_valid)

text \<open>A HELLO request that fits a first frame is encoded before negotiation.\<close>

lemma hello_frame_encodes:
  assumes "length p + 9 \<le> 65536"
  shows "\<exists>first. FrameCodec_encode_stream stored pre_hello_codec (hello_frame 1 p) = Inr first"
proof -
  obtain c where c: "FrameCodec_pre_hello = Inr c"
    using pre_hello_new by blast
  have "FrameCodec_encode stored pre_hello_codec (hello_frame 1 []) = Inr (put_u16 0 @ put_u16 0 @ [1] @ put_u32 1)"
    unfolding pre_hello_codec_def c sum.sel
    using FrameCodec_decode_plain[OF hello_accepted[OF c]]
    by (simp add: hello_frame_def hello_header_def FrameHeader_request_def FAMILY_CORE_def HELLO_KIND_def)
  then obtain first where "FrameCodec_encode_stream stored pre_hello_codec (hello_frame 1 []) = Inr first"
    by (auto simp: encode_stream_iff)
  then show ?thesis
    using hello_frame_longer assms by blast
qed

theorem ingress_passes_witness:
  "\<exists>first hello. ReadOnlyIngress_push stored unstored ReadOnlyIngress_new (PREFACE @ first @ [1, 2, 3])
     = (Inr (Some (PREFACE @ hello @ [1, 2, 3])), \<lparr>ri_pending = [], ri_negotiated = True\<rparr>)
   \<and> length hello = length first + 8"
proof -
  obtain p where p: "ClientHello_decode p = Inr hello_offer" "length p \<le> 200"
    using hello_offer_encoded by blast
  moreover obtain first where "FrameCodec_encode_stream stored pre_hello_codec (hello_frame 1 p) = Inr first"
    using hello_frame_encodes[of p] p(2) by auto
  ultimately show ?thesis
    using ingress_passes[of p hello_offer stored 1 first unstored "[1, 2, 3]"]
    by (auto simp: hello_offer_def is_read_only_def HARD_MAX_EXTENSION_ENTRIES_def)
qed

theorem ingress_read_only_witness:
  "\<exists>stream sent q h p' hello rest.
     fst (ReadOnlyIngress_push stored unstored ReadOnlyIngress_new stream) = Inr (Some sent)
     \<and> sent = PREFACE @ hello @ rest
     \<and> FrameCodec_decode_stream unstored pre_hello_codec hello = Inr (hello_frame q p', length hello)
     \<and> ClientHello_decode p' = Inr h \<and> is_read_only h"
proof -
  obtain p where p: "ClientHello_decode p = Inr hello_offer" "length p \<le> 200"
    using hello_offer_encoded by blast
  obtain p' where p': "ClientHello_encode (restrict_hello hello_offer) = Inr p'" "length p' \<le> 208"
    using p restricted_encode[of hello_offer p]
    by (auto simp: ClientHello_decode_iff hello_offer_def is_read_only_def HARD_MAX_EXTENSION_ENTRIES_def)
  obtain first hello where enc: "FrameCodec_encode_stream stored pre_hello_codec (hello_frame 1 p) = Inr first"
    "FrameCodec_encode_stream stored pre_hello_codec (hello_frame 1 p') = Inr hello"
    using hello_frame_encodes[of p] hello_frame_encodes[of p'] p(2) p'(2) by auto
  then have "forwarded stored unstored (PREFACE @ first) = Inr (Some (PREFACE @ hello))"
    using p(1) p'(1) forwarded_sent_iff[of stored unstored "PREFACE @ first" "PREFACE @ hello"]
      rewrite_hello_iff[of stored unstored first hello] by auto
  then have sent: "fst (ReadOnlyIngress_push stored unstored ReadOnlyIngress_new (PREFACE @ first)) = Inr (Some (PREFACE @ hello))"
    by (simp add: forwarded_def)
  with ingress_read_only[OF sent] restrict_read_only show ?thesis
    by blast
qed

end
