(* ===== verification/Uplink_Datagram.thy ===== *)
theory Uplink_Datagram
  imports Yas_Prelude
begin

text \<open>
  Encrypted uplink datagrams (\<^verbatim>\<open>crates/uplink/src/datagram.rs\<close>): the sender's counter, the
  per-epoch keys with their cache, and the receiver's 128-packet replay window.
  HKDF and AES-GCM are third-party code, the fields of \<open>Crypto\<close>, an argument of every definition
  that uses them; \<open>aead_correct\<close> names what the theorems use of them. The window is
  compared with the set of the sequence numbers accepted so far.
\<close>

section \<open>Cryptography\<close>

text \<open>Extract takes salt and input key; expand takes the label and gives the 32 key bytes as an AEAD
  key; seal and open take key, nonce, associated data and text.\<close>

record ('prk, 'key) Crypto =
  hkdf_extract :: "bytes \<Rightarrow> bytes \<Rightarrow> 'prk"
  hkdf_expand :: "'prk \<Rightarrow> bytes \<Rightarrow> 'key"
  aead_seal :: "'key \<Rightarrow> bytes \<Rightarrow> bytes \<Rightarrow> bytes \<Rightarrow> bytes option"
  aead_open :: "'key \<Rightarrow> bytes \<Rightarrow> bytes \<Rightarrow> bytes \<Rightarrow> bytes option"

section \<open>Senders and receivers\<close>

definition DATAGRAM_OVERHEAD :: nat where "DATAGRAM_OVERHEAD = 8 + 16"
definition MAX_PLAINTEXT :: nat where "MAX_PLAINTEXT = 65536 - DATAGRAM_OVERHEAD"
definition REKEY_INTERVAL :: u64 where "REKEY_INTERVAL = 1048576"

text \<open>The bytes of \<^verbatim>\<open>YAS-UPLINK-v2-datagram\<close>.\<close>

definition KEY_LABEL :: bytes where
  "KEY_LABEL = [89, 65, 83, 45, 85, 80, 76, 73, 78, 75, 45, 118, 50, 45, 100, 97, 116, 97, 103, 114,
                97, 109]"

record 'key KeyState =
  ks_root :: bytes
  ks_token :: bytes
  ks_direction :: u8
  ks_cached :: "(u64 \<times> 'key) option"

definition KeyState_new :: "bytes \<Rightarrow> bytes \<Rightarrow> u8 \<Rightarrow> 'key KeyState" where
  "KeyState_new root token direction =
     \<lparr>ks_root = root, ks_token = token, ks_direction = direction, ks_cached = None\<rparr>"

definition KeyState_derive :: "('prk, 'key) Crypto \<Rightarrow> 'key KeyState \<Rightarrow> u64 \<Rightarrow> 'key" where
  "KeyState_derive c ks epoch =
     hkdf_expand c (hkdf_extract c (ks_token ks) (ks_root ks))
       (KEY_LABEL @ [ks_direction ks] @ be_bytes 8 epoch)"

record 'key DatagramSender =
  ds_keys :: "'key KeyState"
  ds_sequence :: "u64 option"

record 'key DatagramReceiver =
  dr_keys :: "'key KeyState"
  dr_highest :: "u64 option"
  dr_window :: "128 word"

definition datagram_pair :: "bytes \<Rightarrow> bytes \<Rightarrow> bool \<Rightarrow> 'key DatagramSender \<times> 'key DatagramReceiver" where
  "datagram_pair material token client =
     (let c2s = KeyState_new (take 32 material) token 0;
          s2c = KeyState_new (drop 32 material) token 1;
          (send, receive) = (if client then (c2s, s2c) else (s2c, c2s))
      in (\<lparr>ds_keys = send, ds_sequence = Some 0\<rparr>,
          \<lparr>dr_keys = receive, dr_highest = None, dr_window = 0\<rparr>))"

definition nonce :: "u64 \<Rightarrow> bytes" where
  "nonce sequence = replicate 4 0 @ be_bytes 8 sequence"

definition aad :: "bytes \<Rightarrow> u64 \<Rightarrow> bytes" where
  "aad token sequence = token @ be_bytes 8 sequence"

text \<open>The cached key when it is of the epoch, else a fresh one.\<close>

definition candidate_key :: "('prk, 'key) Crypto \<Rightarrow> 'key KeyState \<Rightarrow> u64 \<Rightarrow> 'key option" where
  "candidate_key c ks epoch =
     (if (case ks_cached ks of None \<Rightarrow> True | Some (cached, _) \<Rightarrow> cached \<noteq> epoch)
      then Some (KeyState_derive c ks epoch) else None)"

definition DatagramSender_seal ::
  "('prk, 'key) Crypto \<Rightarrow> 'key DatagramSender \<Rightarrow> bytes \<Rightarrow> 'key DatagramSender \<times> bytes option" where
  "DatagramSender_seal c s plaintext =
     (if MAX_PLAINTEXT < length plaintext then (s, None)
      else case ds_sequence s of
        None \<Rightarrow> (s, None)
      | Some sequence \<Rightarrow>
          (let s1 = s\<lparr>ds_sequence := checked_add sequence 1\<rparr>;
               epoch = sequence div REKEY_INTERVAL;
               s2 = (case candidate_key c (ds_keys s1) epoch of
                       None \<Rightarrow> s1
                     | Some key \<Rightarrow> s1\<lparr>ds_keys := (ds_keys s1)\<lparr>ks_cached := Some (epoch, key)\<rparr>\<rparr>)
           in case ks_cached (ds_keys s2) of
                None \<Rightarrow> (s2, None)
              | Some (_, key) \<Rightarrow>
                  (s2, map_option (\<lambda>ciphertext. be_bytes 8 sequence @ ciphertext)
                         (aead_seal c key (nonce sequence) (aad (ks_token (ds_keys s2)) sequence)
                            plaintext))))"

text \<open>The check that a sequence number is neither too old nor seen.\<close>

definition replay_refused :: "'key DatagramReceiver \<Rightarrow> u64 \<Rightarrow> bool" where
  "replay_refused r sequence =
     (case dr_highest r of
        None \<Rightarrow> False
      | Some highest \<Rightarrow>
          sequence \<le> highest
          \<and> (let behind = highest - sequence in
             128 \<le> behind \<or> dr_window r AND push_bit (unat behind) 1 \<noteq> 0))"

text \<open>\<^verbatim>\<open>checked_shl(min(n, 128)).unwrap_or(0)\<close> on the 128-bit window.\<close>

definition shift_window :: "128 word \<Rightarrow> u64 \<Rightarrow> 128 word" where
  "shift_window w n =
     (let s = (if 128 \<le> n then 128 else unat n) in if s < 128 then push_bit s w else 0)"

definition record_sequence :: "'key DatagramReceiver \<Rightarrow> u64 \<Rightarrow> 'key DatagramReceiver" where
  "record_sequence r sequence =
     (case dr_highest r of
        None \<Rightarrow> r\<lparr>dr_highest := Some sequence, dr_window := 1\<rparr>
      | Some highest \<Rightarrow>
          if sequence \<le> highest
          then r\<lparr>dr_window := dr_window r OR push_bit (unat (highest - sequence)) 1\<rparr>
          else r\<lparr>dr_window := shift_window (dr_window r) (sequence - highest) OR 1,
                 dr_highest := Some sequence\<rparr>)"

definition packet_sequence :: "bytes \<Rightarrow> u64" where
  "packet_sequence packet = from_be (take 8 packet)"

definition DatagramReceiver_open ::
  "('prk, 'key) Crypto \<Rightarrow> 'key DatagramReceiver \<Rightarrow> bytes \<Rightarrow> 'key DatagramReceiver \<times> bytes option" where
  "DatagramReceiver_open c r packet =
     (if \<not> (DATAGRAM_OVERHEAD \<le> length packet \<and> length packet \<le> 65536) then (r, None)
      else let sequence = packet_sequence packet in
        if replay_refused r sequence then (r, None)
        else let epoch = sequence div REKEY_INTERVAL;
                 candidate = candidate_key c (dr_keys r) epoch
          in case (case candidate of Some key \<Rightarrow> Some key
                   | None \<Rightarrow> map_option snd (ks_cached (dr_keys r))) of
               None \<Rightarrow> (r, None)
             | Some key \<Rightarrow>
                 (case aead_open c key (nonce sequence) (aad (ks_token (dr_keys r)) sequence)
                         (drop 8 packet) of
                    None \<Rightarrow> (r, None)
                  | Some plaintext \<Rightarrow>
                      (let r1 = (case candidate of
                                   None \<Rightarrow> r
                                 | Some key \<Rightarrow>
                                     r\<lparr>dr_keys := (dr_keys r)\<lparr>ks_cached := Some (epoch, key)\<rparr>\<rparr>)
                       in (record_sequence r1 sequence, Some plaintext))))"

section \<open>Big-endian counters\<close>

lemma from_be_be_bytes_u64 [simp]: "from_be (be_bytes 8 x) = (x :: u64)"
  using take_bit_length_eq [of x] by (simp add: from_be_be_bytes)

lemma packet_sequence_append [simp]: "packet_sequence (be_bytes 8 x @ z) = x"
  by (simp add: packet_sequence_def)

section \<open>The key cache\<close>

definition cache_ok :: "('prk, 'key) Crypto \<Rightarrow> 'key KeyState \<Rightarrow> bool" where
  "cache_ok c ks \<longleftrightarrow>
     (\<forall>epoch key. ks_cached ks = Some (epoch, key) \<longrightarrow> key = KeyState_derive c ks epoch)"

lemma derive_cached [simp]:
  "KeyState_derive c (ks\<lparr>ks_cached := x\<rparr>) epoch = KeyState_derive c ks epoch"
  by (simp add: KeyState_derive_def)

lemma cache_ok_update: "cache_ok c (ks\<lparr>ks_cached := Some (e, KeyState_derive c ks e)\<rparr>)"
  by (simp add: cache_ok_def)

lemma candidate_some: "candidate_key c ks e = Some k \<Longrightarrow> k = KeyState_derive c ks e"
  by (auto simp: candidate_key_def split: if_splits)

lemma candidate_none:
  "cache_ok c ks \<Longrightarrow> candidate_key c ks e = None \<Longrightarrow> ks_cached ks = Some (e, KeyState_derive c ks e)"
  by (auto simp: candidate_key_def cache_ok_def split: if_splits option.splits)

lemma record_sequence_keys [simp]: "dr_keys (record_sequence r s) = dr_keys r"
  by (simp add: record_sequence_def split: option.splits)

lemma cached_refresh:
  "ks_cached (dr_keys r) = Some x \<Longrightarrow> r\<lparr>dr_keys := (dr_keys r)\<lparr>ks_cached := Some x\<rparr>\<rparr> = r"
  by (cases r; cases "dr_keys r") simp

text \<open>With a sound cache, opening is: the length check, the replay check, then authentication under
  the key of the packet's epoch.\<close>

lemma open_unfold:
  assumes "cache_ok c (dr_keys r)"
  shows "DatagramReceiver_open c r packet =
    (if \<not> (DATAGRAM_OVERHEAD \<le> length packet \<and> length packet \<le> 65536)
        \<or> replay_refused r (packet_sequence packet) then (r, None)
     else let s = packet_sequence packet; e = s div REKEY_INTERVAL; k = KeyState_derive c (dr_keys r) e in
       case aead_open c k (nonce s) (aad (ks_token (dr_keys r)) s) (drop 8 packet) of
         None \<Rightarrow> (r, None)
       | Some plaintext \<Rightarrow>
           (record_sequence (r\<lparr>dr_keys := (dr_keys r)\<lparr>ks_cached := Some (e, k)\<rparr>\<rparr>) s, Some plaintext))"
proof (cases "candidate_key c (dr_keys r) (packet_sequence packet div REKEY_INTERVAL)")
  case None
  from candidate_none [OF assms None] have
    cached: "ks_cached (dr_keys r) = Some (packet_sequence packet div REKEY_INTERVAL,
      KeyState_derive c (dr_keys r) (packet_sequence packet div REKEY_INTERVAL))" .
  from None cached show ?thesis
    by (simp add: DatagramReceiver_open_def Let_def cached_refresh [OF cached] split: option.splits)
next
  case (Some k)
  from candidate_some [OF Some] Some show ?thesis
    by (simp add: DatagramReceiver_open_def Let_def split: option.splits)
qed

section \<open>The window is the set of accepted sequence numbers\<close>

text \<open>The receiver has accepted exactly the sequence numbers \<open>S\<close>, as far as its window can see.\<close>

definition window_of :: "'key DatagramReceiver \<Rightarrow> u64 set \<Rightarrow> bool" where
  "window_of r S \<longleftrightarrow>
     (case dr_highest r of
        None \<Rightarrow> S = {}
      | Some h \<Rightarrow> h \<in> S \<and> (\<forall>s\<in>S. s \<le> h)
          \<and> (\<forall>s \<le> h. unat h - unat s < 128 \<longrightarrow> (bit (dr_window r) (unat h - unat s) \<longleftrightarrow> s \<in> S)))"

text \<open>The specification: refuse what was accepted before and what is 128 or more behind.\<close>

definition stale :: "u64 set \<Rightarrow> u64 \<Rightarrow> bool" where
  "stale S s \<longleftrightarrow> s \<in> S \<or> (\<exists>h\<in>S. s \<le> h \<and> 128 \<le> unat h - unat s)"

lemma and_push_bit_1: "(w :: 'a::len word) AND push_bit n 1 \<noteq> 0 \<longleftrightarrow> bit w n"
  by (simp add: bit_iff_and_push_bit_not_eq_0)

lemma and_exp: "(w :: 'a::len word) AND 2 ^ n \<noteq> 0 \<longleftrightarrow> bit w n"
  using and_push_bit_1 [of w n] by (simp add: push_bit_eq_mult)

lemma unat_le_sub: "s \<le> h \<Longrightarrow> unat (h - s) = unat h - unat (s :: u64)"
  by (rule unat_sub)

lemma replay_refused_iff:
  assumes "window_of r S"
  shows "replay_refused r s \<longleftrightarrow> stale S s"
proof (cases "dr_highest r")
  case None
  with assms show ?thesis by (simp add: replay_refused_def stale_def window_of_def)
next
  case (Some h)
  from assms Some have top: "h \<in> S" "\<And>x. x \<in> S \<Longrightarrow> x \<le> h"
    and bits: "\<And>x. x \<le> h \<Longrightarrow> unat h - unat x < 128 \<Longrightarrow>
      bit (dr_window r) (unat h - unat x) \<longleftrightarrow> x \<in> S"
    by (auto simp: window_of_def)
  have "replay_refused r s \<longleftrightarrow> s \<le> h \<and> (128 \<le> unat h - unat s \<or> bit (dr_window r) (unat h - unat s))"
    using Some unat_le_sub [of s h]
    by (auto simp: replay_refused_def Let_def and_exp word_le_nat_alt)
  moreover have "stale S s \<longleftrightarrow> s \<le> h \<and> (128 \<le> unat h - unat s \<or> s \<in> S)"
  proof -
    have "128 \<le> unat h - unat s \<and> s \<le> h" if "x \<in> S" "s \<le> x" "128 \<le> unat x - unat s" for x
      using top(2) [OF that(1)] that by (auto simp: word_le_nat_alt)
    then show ?thesis using top by (auto simp: stale_def)
  qed
  ultimately show ?thesis using bits [of s] by (cases "128 \<le> unat h - unat s") auto
qed

lemma bit_shift_window:
  "i < 128 \<Longrightarrow> bit (shift_window w n) i \<longleftrightarrow> unat n \<le> i \<and> bit w (i - unat n)"
  by (auto simp: shift_window_def Let_def word_le_nat_alt bit_push_bit_iff not_le)

lemma bit_1_word: "bit (1 :: 128 word) i \<longleftrightarrow> i = 0"
  by (auto simp: bit_1_iff)

lemma window_of_record_new:
  assumes "window_of r S" and h: "dr_highest r = Some h" and less: "h < s"
  shows "window_of (record_sequence r s) (insert s S)"
proof -
  from assms have top: "h \<in> S" "\<And>x. x \<in> S \<Longrightarrow> x \<le> h"
    and bits: "\<And>x. x \<le> h \<Longrightarrow> unat h - unat x < 128 \<Longrightarrow>
      bit (dr_window r) (unat h - unat x) \<longleftrightarrow> x \<in> S"
    by (auto simp: window_of_def)
  have diff: "unat (s - h) = unat s - unat h" and hs: "unat h < unat s"
    using less unat_le_sub [of h s] by (simp_all add: word_less_nat_alt less_imp_le)
  have rec: "record_sequence r s
      = r\<lparr>dr_window := shift_window (dr_window r) (s - h) OR 1, dr_highest := Some s\<rparr>"
    using h less by (simp add: record_sequence_def not_le [symmetric])
  have "bit (shift_window (dr_window r) (s - h) OR 1) (unat s - unat x) \<longleftrightarrow> x \<in> insert s S"
    if x: "x \<le> s" "unat s - unat x < 128" for x
  proof (cases "x = s")
    case True
    then show ?thesis by (simp add: bit_or_iff bit_1_word)
  next
    case False
    with x(1) have xs: "unat x < unat s" by (simp add: word_le_nat_alt word_unat_eq_iff)
    show ?thesis
    proof (cases "x \<le> h")
      case True
      then have "unat s - unat x - (unat s - unat h) = unat h - unat x"
        and "unat h - unat x < 128" and "unat s - unat h \<le> unat s - unat x"
        using x(2) hs by (auto simp: word_le_nat_alt)
      with bits [OF True] xs x(2) False show ?thesis
        by (simp add: bit_or_iff bit_1_word bit_shift_window diff)
    next
      case gt: False
      then have "x \<notin> S" and "\<not> unat s - unat h \<le> unat s - unat x"
        using top(2) [of x] xs hs by (auto simp: word_le_nat_alt)
      with xs x(2) False show ?thesis
        by (simp add: bit_or_iff bit_1_word bit_shift_window diff)
    qed
  qed
  moreover have "x \<le> s" if "x \<in> S" for x
    using top(2) [OF that] less by simp
  ultimately show ?thesis by (simp add: window_of_def rec)
qed

lemma window_of_record_old:
  assumes "window_of r S" and h: "dr_highest r = Some h" and le: "s \<le> h" and near: "unat h - unat s < 128"
  shows "window_of (record_sequence r s) (insert s S)"
proof -
  from assms have top: "h \<in> S" "\<And>x. x \<in> S \<Longrightarrow> x \<le> h"
    and bits: "\<And>x. x \<le> h \<Longrightarrow> unat h - unat x < 128 \<Longrightarrow>
      bit (dr_window r) (unat h - unat x) \<longleftrightarrow> x \<in> S"
    by (auto simp: window_of_def)
  have rec: "record_sequence r s
      = r\<lparr>dr_window := dr_window r OR push_bit (unat h - unat s) 1\<rparr>"
    using h le by (simp add: record_sequence_def unat_le_sub)
  have "bit (dr_window r OR push_bit (unat h - unat s) 1) (unat h - unat x) \<longleftrightarrow> x \<in> insert s S"
    if x: "x \<le> h" "unat h - unat x < 128" for x
  proof -
    have "unat h - unat s = unat h - unat x \<longleftrightarrow> s = x"
      using le x(1) by (auto simp: word_le_nat_alt word_unat_eq_iff)
    with bits [OF x] x(2) near show ?thesis
      by (auto simp: bit_or_iff bit_exp_iff)
  qed
  with top le h show ?thesis by (auto simp: window_of_def rec)
qed

lemma window_of_record:
  assumes "window_of r S" and "\<not> stale S s"
  shows "window_of (record_sequence r s) (insert s S)"
proof (cases "dr_highest r")
  case None
  have "bit (1 :: 128 word) (unat s - unat x) \<longleftrightarrow> x = s" if "x \<le> s" for x
    using that by (auto simp: bit_1_word word_le_nat_alt word_unat_eq_iff)
  with None assms(1) show ?thesis
    by (auto simp: window_of_def record_sequence_def)
next
  case (Some h)
  show ?thesis
  proof (cases "s \<le> h")
    case True
    from assms Some have "h \<in> S" by (auto simp: window_of_def)
    with assms(2) True have "unat h - unat s < 128" by (auto simp: stale_def)
    with window_of_record_old [OF assms(1) Some True] show ?thesis by blast
  next
    case False
    with window_of_record_new [OF assms(1) Some] show ?thesis by simp
  qed
qed

lemma window_of_keys: "window_of (r\<lparr>dr_keys := k\<rparr>) S = window_of r S"
  by (simp add: window_of_def split: option.splits)

section \<open>Runs\<close>

fun open_all ::
  "('prk, 'key) Crypto \<Rightarrow> 'key DatagramReceiver \<Rightarrow> bytes list \<Rightarrow> 'key DatagramReceiver \<times> bytes option list"
  where
  "open_all c r [] = (r, [])"
| "open_all c r (p # ps) =
     (let (r', out) = DatagramReceiver_open c r p; (r'', outs) = open_all c r' ps
      in (r'', out # outs))"

text \<open>Authentication alone: length, then AEAD under the key of the packet's epoch.\<close>

definition authentic :: "('prk, 'key) Crypto \<Rightarrow> 'key KeyState \<Rightarrow> bytes \<Rightarrow> bytes option" where
  "authentic c ks packet =
     (if DATAGRAM_OVERHEAD \<le> length packet \<and> length packet \<le> 65536
      then (let s = packet_sequence packet in
            aead_open c (KeyState_derive c ks (s div REKEY_INTERVAL)) (nonce s)
              (aad (ks_token ks) s) (drop 8 packet))
      else None)"

text \<open>The specification keeps the whole set of accepted sequence numbers.\<close>

fun receive_all :: "(bytes \<Rightarrow> bytes option) \<Rightarrow> u64 set \<Rightarrow> bytes list \<Rightarrow> bytes option list" where
  "receive_all auth S [] = []"
| "receive_all auth S (p # ps) =
     (if stale S (packet_sequence p) then None # receive_all auth S ps
      else case auth p of
             None \<Rightarrow> None # receive_all auth S ps
           | Some x \<Rightarrow> Some x # receive_all auth (insert (packet_sequence p) S) ps)"

lemma open_step:
  assumes "cache_ok c (dr_keys r)" and "window_of r S"
  shows "DatagramReceiver_open c r p = (if stale S (packet_sequence p) then (r, None)
    else case authentic c (dr_keys r) p of None \<Rightarrow> (r, None)
      | Some x \<Rightarrow> (record_sequence (r\<lparr>dr_keys := (dr_keys r)\<lparr>ks_cached :=
          Some (packet_sequence p div REKEY_INTERVAL,
            KeyState_derive c (dr_keys r) (packet_sequence p div REKEY_INTERVAL))\<rparr>\<rparr>)
          (packet_sequence p), Some x))"
  unfolding open_unfold [OF assms(1)] replay_refused_iff [OF assms(2)]
  by (simp add: authentic_def Let_def)

lemma authentic_cached [simp]: "authentic c (ks\<lparr>ks_cached := x\<rparr>) p = authentic c ks p"
  by (simp add: authentic_def Let_def)

lemma open_all_receive_all:
  assumes "cache_ok c (dr_keys r)" and "window_of r S"
    and "authentic c (dr_keys r) = auth"
  shows "snd (open_all c r ps) = receive_all auth S ps"
  using assms
proof (induction ps arbitrary: r S)
  case Nil
  then show ?case by simp
next
  case (Cons p ps)
  show ?case
  proof (cases "stale S (packet_sequence p) \<or> auth p = None")
    case True
    with Cons show ?thesis by (auto simp: open_step Let_def split_beta)
  next
    case False
    then obtain x where x: "auth p = Some x" by blast
    let ?r = "r\<lparr>dr_keys := (dr_keys r)\<lparr>ks_cached := Some (packet_sequence p div REKEY_INTERVAL,
        KeyState_derive c (dr_keys r) (packet_sequence p div REKEY_INTERVAL))\<rparr>\<rparr>"
    have "window_of (record_sequence ?r (packet_sequence p)) (insert (packet_sequence p) S)"
      using False Cons.prems(2) by (intro window_of_record) (simp_all add: window_of_keys)
    moreover have "authentic c (dr_keys (record_sequence ?r (packet_sequence p))) = auth"
      using Cons.prems(3) by (auto simp: fun_eq_iff)
    ultimately have "snd (open_all c (record_sequence ?r (packet_sequence p)) ps)
        = receive_all auth (insert (packet_sequence p) S) ps"
      by (intro Cons.IH) (simp_all add: cache_ok_update)
    with False x Cons.prems show ?thesis by (simp add: open_step Let_def split_beta)
  qed
qed

text \<open>The sequence numbers of the packets that gave a plaintext.\<close>

fun accepted :: "bytes list \<Rightarrow> bytes option list \<Rightarrow> u64 list" where
  "accepted (p # ps) (Some x # outs) = packet_sequence p # accepted ps outs"
| "accepted (p # ps) (None # outs) = accepted ps outs"
| "accepted _ _ = []"

lemma receive_all_distinct:
  "distinct (accepted ps (receive_all auth S ps)) \<and> set (accepted ps (receive_all auth S ps)) \<inter> S = {}"
proof (induction ps arbitrary: S)
  case Nil
  then show ?case by simp
next
  case (Cons p ps)
  from Cons [of S] Cons [of "insert (packet_sequence p) S"] show ?case
    by (auto simp: stale_def split: option.splits)
qed

section \<open>Sealing\<close>

text \<open>What the theorems use of AES-GCM: opening undoes sealing under the same key, nonce and
  associated data, and the tag adds sixteen bytes.\<close>

definition aead_correct :: "('prk, 'key) Crypto \<Rightarrow> bool" where
  "aead_correct c \<longleftrightarrow>
     (\<forall>k n a p z. aead_seal c k n a p = Some z \<longrightarrow> aead_open c k n a z = Some p \<and> length z = length p + 16)"

lemma seal_unfold:
  assumes "cache_ok c (ds_keys s)"
  shows "DatagramSender_seal c s plaintext =
    (if MAX_PLAINTEXT < length plaintext then (s, None)
     else case ds_sequence s of
       None \<Rightarrow> (s, None)
     | Some q \<Rightarrow>
         (let e = q div REKEY_INTERVAL; k = KeyState_derive c (ds_keys s) e in
          (s\<lparr>ds_sequence := checked_add q 1, ds_keys := (ds_keys s)\<lparr>ks_cached := Some (e, k)\<rparr>\<rparr>,
           map_option (\<lambda>z. be_bytes 8 q @ z)
             (aead_seal c k (nonce q) (aad (ks_token (ds_keys s)) q) plaintext))))"
proof (cases "ds_sequence s")
  case None
  then show ?thesis by (simp add: DatagramSender_seal_def)
next
  case (Some q)
  show ?thesis
  proof (cases "candidate_key c (ds_keys s) (q div REKEY_INTERVAL)")
    case None
    note cached = candidate_none [OF assms None]
    then have "(ds_keys s)\<lparr>ks_cached := Some (q div REKEY_INTERVAL,
        KeyState_derive c (ds_keys s) (q div REKEY_INTERVAL))\<rparr> = ds_keys s"
      by (cases "ds_keys s") simp
    then have "s\<lparr>ds_sequence := x, ds_keys := (ds_keys s)\<lparr>ks_cached := Some (q div REKEY_INTERVAL,
        KeyState_derive c (ds_keys s) (q div REKEY_INTERVAL))\<rparr>\<rparr> = s\<lparr>ds_sequence := x\<rparr>" for x
      by (cases s) simp
    with Some None cached show ?thesis
      by (simp add: DatagramSender_seal_def Let_def)
  next
    case (Some k)
    from candidate_some [OF Some] Some \<open>ds_sequence s = Some q\<close> show ?thesis
      by (simp add: DatagramSender_seal_def Let_def)
  qed
qed

fun seal_all ::
  "('prk, 'key) Crypto \<Rightarrow> 'key DatagramSender \<Rightarrow> bytes list \<Rightarrow> 'key DatagramSender \<times> bytes option list"
  where
  "seal_all c s [] = (s, [])"
| "seal_all c s (p # ps) =
     (let (s', out) = DatagramSender_seal c s p; (s'', outs) = seal_all c s' ps in (s'', out # outs))"

lemma seal_packet:
  assumes "cache_ok c (ds_keys s)" and "aead_correct c" and "DatagramSender_seal c s p = (s', Some z)"
  shows "ds_sequence s = Some (packet_sequence z) \<and> ds_sequence s' = checked_add (packet_sequence z) 1
    \<and> authentic c (ds_keys s) z = Some p"
proof -
  from assms(1,3) obtain q y where q: "ds_sequence s = Some q" and len: "length p \<le> MAX_PLAINTEXT"
    and y: "aead_seal c (KeyState_derive c (ds_keys s) (q div REKEY_INTERVAL)) (nonce q)
        (aad (ks_token (ds_keys s)) q) p = Some y"
    and z: "z = be_bytes 8 q @ y" and s': "ds_sequence s' = checked_add q 1"
    by (auto simp: seal_unfold Let_def split: if_splits option.splits)
  from assms(2) y have "length y = length p + 16"
    "aead_open c (KeyState_derive c (ds_keys s) (q div REKEY_INTERVAL)) (nonce q)
      (aad (ks_token (ds_keys s)) q) y = Some p"
    by (auto simp: aead_correct_def)
  with len q z s' show ?thesis
    by (simp add: authentic_def Let_def DATAGRAM_OVERHEAD_def MAX_PLAINTEXT_def)
qed

lemma seal_keeps:
  assumes "cache_ok c (ds_keys s)" and "DatagramSender_seal c s p = (s', out)"
  shows "cache_ok c (ds_keys s') \<and> authentic c (ds_keys s') = authentic c (ds_keys s)"
  using assms
  by (auto simp: seal_unfold Let_def fun_eq_iff cache_ok_update split: if_splits option.splits)

lemma seal_sequence:
  assumes "cache_ok c (ds_keys s)" and "DatagramSender_seal c s p = (s', out)"
  shows "(\<forall>z. out = Some z \<longrightarrow> ds_sequence s = Some (packet_sequence z)
      \<and> ds_sequence s' = checked_add (packet_sequence z) 1)
    \<and> (ds_sequence s' = ds_sequence s \<or> (\<exists>q. ds_sequence s = Some q \<and> ds_sequence s' = checked_add q 1))"
  using assms by (auto simp: seal_unfold Let_def split: if_splits option.splits)

text \<open>The sequence numbers of the packets that were sent.\<close>

fun emitted :: "bytes option list \<Rightarrow> u64 list" where
  "emitted [] = []"
| "emitted (Some z # outs) = packet_sequence z # emitted outs"
| "emitted (None # outs) = emitted outs"

lemma checked_add_1_less: "checked_add q 1 = Some q' \<Longrightarrow> q < (q' :: u64)"
  by (simp add: checked_add_Some_iff word_less_nat_alt)

lemma seal_all_increasing:
  assumes "cache_ok c (ds_keys s)"
  shows "sorted_wrt (<) (emitted (snd (seal_all c s ps)))
    \<and> (\<forall>x\<in>set (emitted (snd (seal_all c s ps))). \<exists>q. ds_sequence s = Some q \<and> q \<le> x)"
  using assms
proof (induction ps arbitrary: s)
  case Nil
  then show ?case by simp
next
  case (Cons p ps)
  obtain s' out where step: "DatagramSender_seal c s p = (s', out)" by fastforce
  note sq = seal_sequence [OF Cons.prems step]
  from seal_keeps [OF Cons.prems step] have "cache_ok c (ds_keys s')" by blast
  note IH = Cons.IH [OF this]
  have later: "\<exists>q. ds_sequence s = Some q \<and> q \<le> x"
    if "x \<in> set (emitted (snd (seal_all c s' ps)))" for x
    using IH that sq by (fastforce dest: checked_add_1_less)
  show ?case
  proof (cases out)
    case None
    with IH later show ?thesis by (auto simp: step Let_def split_beta)
  next
    case (Some z)
    with sq have z: "ds_sequence s = Some (packet_sequence z)"
      "ds_sequence s' = checked_add (packet_sequence z) 1" by auto
    with IH have "packet_sequence z < x" if "x \<in> set (emitted (snd (seal_all c s' ps)))" for x
      using that by (fastforce dest: checked_add_1_less)
    with Some IH later z show ?thesis by (auto simp: step Let_def split_beta)
  qed
qed

lemma inj_nonce: "inj nonce"
proof (rule injI)
  fix x y :: u64
  assume "nonce x = nonce y"
  then have "from_be (be_bytes 8 x) = (from_be (be_bytes 8 y) :: u64)"
    by (simp add: nonce_def)
  then show "x = y"
    by simp
qed

text \<open>What the cipher was asked to seal for the packet \<open>z\<close>.\<close>

definition sealed_under :: "('prk, 'key) Crypto \<Rightarrow> 'key KeyState \<Rightarrow> bytes \<Rightarrow> bytes \<Rightarrow> bool" where
  "sealed_under c ks p z \<longleftrightarrow>
     (let q = packet_sequence z in
      \<exists>y. z = be_bytes 8 q @ y \<and> aead_seal c (KeyState_derive c ks (q div REKEY_INTERVAL)) (nonce q) (aad (ks_token ks) q) p = Some y)"

lemma sealed_under_drop:
  assumes "sealed_under c ks p z"
  shows "aead_seal c (KeyState_derive c ks (packet_sequence z div REKEY_INTERVAL)) (nonce (packet_sequence z))
    (aad (ks_token ks) (packet_sequence z)) p = Some (drop 8 z)"
proof -
  obtain y where y: "z = be_bytes 8 (packet_sequence z) @ y"
    "aead_seal c (KeyState_derive c ks (packet_sequence z div REKEY_INTERVAL)) (nonce (packet_sequence z))
      (aad (ks_token ks) (packet_sequence z)) p = Some y"
    using assms unfolding sealed_under_def Let_def by blast
  have "drop 8 z = y"
    by (subst y(1)) simp
  then show ?thesis
    using y(2) by simp
qed

lemma sealed_under_cached [simp]: "sealed_under c (ks\<lparr>ks_cached := x\<rparr>) = sealed_under c ks"
  by (simp add: sealed_under_def fun_eq_iff)

lemma seal_all_sealed:
  "cache_ok c (ds_keys s) \<Longrightarrow> seal_all c s ps = (s', outs) \<Longrightarrow>
     length outs = length ps \<and> (\<forall>i < length ps. \<forall>z. outs ! i = Some z \<longrightarrow> sealed_under c (ds_keys s) (ps ! i) z)"
proof (induction ps arbitrary: s outs)
  case (Cons p ps)
  obtain s1 out outs1 where step: "DatagramSender_seal c s p = (s1, out)" and rest: "seal_all c s1 ps = (s', outs1)" "outs = out # outs1"
    using Cons.prems(2) by (auto simp: Let_def split: prod.splits)
  have "cache_ok c (ds_keys s1)"
    using seal_keeps [OF Cons.prems(1) step] by blast
  from Cons.IH [OF this rest(1)] have IH: "length outs1 = length ps"
    "\<forall>i < length ps. \<forall>z. outs1 ! i = Some z \<longrightarrow> sealed_under c (ds_keys s1) (ps ! i) z"
    by blast+
  have "sealed_under c (ds_keys s1) = sealed_under c (ds_keys s)" "\<forall>z. out = Some z \<longrightarrow> sealed_under c (ds_keys s) p z"
    using step by (auto simp: seal_unfold [OF Cons.prems(1)] Let_def sealed_under_def split: if_splits option.splits)
  then show ?case
    using IH by (auto simp: rest(2) nth_Cons split: nat.split)
qed simp

lemma seal_all_keeps:
  "cache_ok c (ds_keys s) \<Longrightarrow> seal_all c s ps = (s', outs) \<Longrightarrow>
     cache_ok c (ds_keys s') \<and> authentic c (ds_keys s') = authentic c (ds_keys s)"
proof (induction ps arbitrary: s outs)
  case (Cons p ps)
  obtain s1 out where step: "DatagramSender_seal c s p = (s1, out)" by fastforce
  from seal_keeps [OF Cons.prems(1) step] Cons.IH [of s1] Cons.prems(2) show ?case
    by (auto simp: step Let_def split: prod.splits)
qed simp

lemma open_all_window:
  assumes "cache_ok c (dr_keys r)" and "window_of r S" and "open_all c r ps = (r', outs)"
  shows "cache_ok c (dr_keys r') \<and> authentic c (dr_keys r') = authentic c (dr_keys r)
    \<and> window_of r' (S \<union> set (accepted ps outs))"
  using assms
proof (induction ps arbitrary: r S outs)
  case Nil
  then show ?case by simp
next
  case (Cons p ps)
  obtain r1 out outs1 where step: "DatagramReceiver_open c r p = (r1, out)"
    and rest: "open_all c r1 ps = (r', outs1)" and outs: "outs = out # outs1"
    using Cons.prems(3) by (auto simp: Let_def split: prod.splits)
  let ?S = "if out = None then S else insert (packet_sequence p) S"
  have "cache_ok c (dr_keys r1) \<and> authentic c (dr_keys r1) = authentic c (dr_keys r) \<and> window_of r1 ?S"
    using step Cons.prems(1,2)
    by (auto simp: open_step [OF Cons.prems(1,2)] cache_ok_update fun_eq_iff
        intro!: window_of_record simp: window_of_keys split: if_splits option.splits)
  with Cons.IH [OF _ _ rest, of ?S] show ?case by (cases out) (auto simp: outs)
qed

lemma datagram_pair_fresh:
  assumes "datagram_pair material token client = (s, r)"
  shows "cache_ok c (ds_keys s)" and "cache_ok c (dr_keys r)" and "window_of r {}"
  using assms by (auto simp: datagram_pair_def Let_def KeyState_new_def cache_ok_def window_of_def
      split: if_splits)

lemma datagram_pair_peer:
  assumes "datagram_pair material token client = (s, r0)"
    and "datagram_pair material token (\<not> client) = (s0, r)"
  shows "dr_keys r = ds_keys s"
  using assms by (auto simp: datagram_pair_def Let_def split: if_splits)

section \<open>Properties\<close>

text \<open>
  C2: the replay window implements the set of accepted sequence numbers. For any packets an attacker
  or the network delivers, in any order, a fresh receiver returns exactly what the specification does
  that remembers every accepted number: nothing for a number seen before or 128 or more behind the
  newest, else the authenticated plaintext.
\<close>

theorem replay_window_refines:
  assumes "datagram_pair material token client = (s, r)"
  shows "snd (open_all c r ps) = receive_all (authentic c (dr_keys r)) {} ps"
  by (rule open_all_receive_all [OF datagram_pair_fresh(2) [OF assms] datagram_pair_fresh(3) [OF assms] refl])

text \<open>
  C1: no packet is accepted twice. Whatever is delivered, the sequence numbers of the packets a receiver
  opens are distinct.
\<close>

theorem no_replay:
  assumes "datagram_pair material token client = (s, r)"
  shows "distinct (accepted ps (snd (open_all c r ps)))"
  unfolding open_all_receive_all [OF datagram_pair_fresh(2) [OF assms] datagram_pair_fresh(3) [OF assms] refl]
  using receive_all_distinct by blast

text \<open>
  C16: a nonce is never used twice. The packets one sender emits, for any plaintexts, carry strictly
  increasing sequence numbers, for the counter stops instead of wrapping; the ciphertext of each is what the
  cipher makes of its plaintext under the key of its epoch, the nonce of its sequence number and the associated
  data of the session and that number; and all these nonces are different, so that no key and nonce serve twice.
\<close>

theorem no_nonce_reuse:
  assumes "datagram_pair material token client = (s, r)" and "seal_all c s ps = (s', outs)"
  shows "sorted_wrt (<) (emitted outs) \<and> distinct (map nonce (emitted outs)) \<and> length outs = length ps
    \<and> (\<forall>i < length ps. \<forall>z. outs ! i = Some z \<longrightarrow>
         aead_seal c (KeyState_derive c (ds_keys s) (packet_sequence z div REKEY_INTERVAL)) (nonce (packet_sequence z))
           (aad token (packet_sequence z)) (ps ! i) = Some (drop 8 z))"
proof -
  note fresh = datagram_pair_fresh(1) [OF assms(1), of c]
  have increasing: "sorted_wrt (<) (emitted outs)"
    using seal_all_increasing [OF fresh, of ps] assms(2) by simp
  then have "distinct (emitted outs)"
    by (simp add: strict_sorted_iff)
  then have "distinct (map nonce (emitted outs))"
    using inj_on_subset [OF inj_nonce subset_UNIV] by (simp add: distinct_map)
  moreover have "ks_token (ds_keys s) = token"
    using assms(1) by (auto simp: datagram_pair_def KeyState_new_def Let_def split: if_splits)
  ultimately show ?thesis
    using increasing seal_all_sealed [OF fresh assms(2)] sealed_under_drop by fastforce
qed

text \<open>
  C28: delivery. A packet the peer sealed, after any earlier traffic in its direction, is opened to its
  plaintext by a receiver that has processed any packets, unless its number was accepted before or is
  128 or more behind the newest; loss and reordering do no harm.
\<close>

theorem sealed_packet_opens:
  assumes "aead_correct c" and "datagram_pair material token client = (s, r0)"
    and "datagram_pair material token (\<not> client) = (s0, r)"
    and "seal_all c s texts = (s1, sent)" and "DatagramSender_seal c s1 p = (s2, Some z)"
    and "open_all c r ps = (r1, outs)" and "\<not> stale (set (accepted ps outs)) (packet_sequence z)"
  shows "snd (DatagramReceiver_open c r1 z) = Some p"
proof -
  from seal_all_keeps [OF datagram_pair_fresh(1) [OF assms(2)] assms(4)]
  have s1: "cache_ok c (ds_keys s1)" "authentic c (ds_keys s1) = authentic c (ds_keys s)" by simp_all
  from seal_packet [OF s1(1) assms(1,5)] have "authentic c (ds_keys s) z = Some p"
    using s1(2) by simp
  moreover from open_all_window [OF datagram_pair_fresh(2) [OF assms(3)] datagram_pair_fresh(3) [OF assms(3)] assms(6)]
  have "cache_ok c (dr_keys r1)" "authentic c (dr_keys r1) = authentic c (ds_keys s)"
    "window_of r1 (set (accepted ps outs))"
    using datagram_pair_peer [OF assms(2,3)] by simp_all
  ultimately show ?thesis
    using assms(7) open_step by fastforce
qed

text \<open>
  A packet that is refused changes nothing. A forged counter cannot move the window, and a forged
  epoch cannot replace the cached key.
\<close>

theorem refused_packet_no_effect:
  assumes "DatagramReceiver_open c r packet = (r', None)"
  shows "r' = r"
  using assms by (auto simp: DatagramReceiver_open_def Let_def split: if_splits option.splits)

subsection \<open>A concrete pair\<close>

text \<open>A stand-in for the cryptography whose tag is sixteen copies of the first key byte.\<close>

definition sample_crypto :: "(bytes, bytes) Crypto" where
  "sample_crypto = \<lparr>hkdf_extract = (\<lambda>salt root. root @ salt), hkdf_expand = (\<lambda>prk label. prk @ label),
     aead_seal = (\<lambda>k n a p. Some (p @ replicate 16 (hd k))),
     aead_open = (\<lambda>k n a z. if 16 \<le> length z \<and> drop (length z - 16) z = replicate 16 (hd k)
        then Some (take (length z - 16) z) else None)\<rparr>"

lemma sample_crypto_correct: "aead_correct sample_crypto"
  by (simp add: aead_correct_def sample_crypto_def)

definition sample_sender :: "bytes DatagramSender" where
  "sample_sender = fst (datagram_pair (replicate 64 7) (replicate 16 3) True)"

definition sample_server :: "bytes DatagramReceiver" where
  "sample_server = snd (datagram_pair (replicate 64 7) (replicate 16 3) False)"

lemma sample_pairs:
  "datagram_pair (replicate 64 7) (replicate 16 3) True
     = (sample_sender, snd (datagram_pair (replicate 64 7) (replicate 16 3) True))"
  "datagram_pair (replicate 64 7) (replicate 16 3) (\<not> True)
     = (fst (datagram_pair (replicate 64 7) (replicate 16 3) False), sample_server)"
  by (simp_all add: sample_sender_def sample_server_def)

text \<open>Packets 0 and 1 of the client, and one whose tag is wrong.\<close>

definition packet0 :: bytes where "packet0 = be_bytes 8 (0 :: u64) @ [11] @ replicate 16 7"
definition packet1 :: bytes where "packet1 = be_bytes 8 (1 :: u64) @ [22] @ replicate 16 7"
definition forged :: bytes where "forged = be_bytes 8 (9 :: u64) @ [22] @ replicate 16 8"

lemma sample_key: "hd (KeyState_derive sample_crypto (dr_keys sample_server) e) = 7"
  by (simp add: KeyState_derive_def sample_crypto_def sample_server_def datagram_pair_def KeyState_new_def
      Let_def)

lemma sample_authentic:
  "authentic sample_crypto (dr_keys sample_server) (be_bytes 8 (q :: u64) @ [x] @ replicate 16 t)
    = (if t = 7 then Some [x] else None)"
  using sample_key
  by (simp add: authentic_def Let_def DATAGRAM_OVERHEAD_def sample_crypto_def)

lemma sample_sequences [simp]:
  "packet_sequence packet0 = 0" "packet_sequence packet1 = 1" "packet_sequence forged = 9"
  by (simp_all only: packet0_def packet1_def forged_def packet_sequence_append)

lemma sample_authentic_packets [simp]:
  "authentic sample_crypto (dr_keys sample_server) packet0 = Some [11]"
  "authentic sample_crypto (dr_keys sample_server) packet1 = Some [22]"
  "authentic sample_crypto (dr_keys sample_server) forged = None"
  unfolding packet0_def packet1_def forged_def sample_authentic by simp_all

theorem replay_window_refines_witness:
  "snd (open_all sample_crypto sample_server [packet1, forged, packet0, packet1])
     = [Some [22], None, Some [11], None]"
  using replay_window_refines [OF sample_pairs(2), of sample_crypto "[packet1, forged, packet0, packet1]"]
  by (simp add: stale_def)

theorem no_replay_witness:
  "distinct (accepted [packet1, packet0, packet1]
     (snd (open_all sample_crypto sample_server [packet1, packet0, packet1])))"
  by (rule no_replay [OF sample_pairs(2)])

lemma sample_client_key: "hd (KeyState_derive sample_crypto (ds_keys sample_sender) e) = 7"
  by (simp add: KeyState_derive_def sample_crypto_def sample_sender_def datagram_pair_def KeyState_new_def
      Let_def)

lemma sample_seal:
  assumes "ds_keys s = ks" and "cache_ok sample_crypto ks" and "ds_sequence s = Some q"
    and "\<And>e. hd (KeyState_derive sample_crypto ks e) = 7"
  shows "snd (DatagramSender_seal sample_crypto s [x]) = Some (be_bytes 8 q @ [x] @ replicate 16 7)"
  using assms seal_unfold [of sample_crypto s "[x]"]
  by (simp add: Let_def MAX_PLAINTEXT_def DATAGRAM_OVERHEAD_def) (simp add: sample_crypto_def)

lemma sample_seal_first:
  "\<exists>s1. DatagramSender_seal sample_crypto sample_sender [11] = (s1, Some packet0)
     \<and> cache_ok sample_crypto (ds_keys s1) \<and> ds_sequence s1 = Some 1
     \<and> (\<forall>e. hd (KeyState_derive sample_crypto (ds_keys s1) e) = 7)"
proof -
  note fresh = datagram_pair_fresh(1) [OF sample_pairs(1), of sample_crypto]
  have q: "ds_sequence sample_sender = Some 0"
    by (simp add: sample_sender_def datagram_pair_def Let_def)
  have "snd (DatagramSender_seal sample_crypto sample_sender [11]) = Some packet0"
    using sample_seal [OF refl fresh q sample_client_key] by (simp add: packet0_def)
  moreover have "ds_sequence (fst (DatagramSender_seal sample_crypto sample_sender [11])) = Some 1"
    using q by (simp add: seal_unfold [OF fresh] Let_def MAX_PLAINTEXT_def DATAGRAM_OVERHEAD_def
        checked_add_def)
  moreover have "cache_ok sample_crypto (ds_keys (fst (DatagramSender_seal sample_crypto sample_sender [11])))"
    using seal_keeps [OF fresh, of "[11]"] by (metis prod.collapse)
  moreover have "hd (KeyState_derive sample_crypto
      (ds_keys (fst (DatagramSender_seal sample_crypto sample_sender [11]))) e) = 7" for e
    using q sample_client_key
    by (simp add: seal_unfold [OF fresh] Let_def MAX_PLAINTEXT_def DATAGRAM_OVERHEAD_def)
  ultimately show ?thesis by (metis prod.collapse)
qed

lemma sample_seal_second:
  "\<exists>s1 s2. seal_all sample_crypto sample_sender [[11]] = (s1, [Some packet0])
     \<and> DatagramSender_seal sample_crypto s1 [22] = (s2, Some packet1)"
proof -
  from sample_seal_first obtain s1 where
    s1: "DatagramSender_seal sample_crypto sample_sender [11] = (s1, Some packet0)"
    "cache_ok sample_crypto (ds_keys s1)" "ds_sequence s1 = Some 1"
    "\<And>e. hd (KeyState_derive sample_crypto (ds_keys s1) e) = 7" by blast
  from sample_seal [OF refl s1(2,3,4), of 22] have
    "snd (DatagramSender_seal sample_crypto s1 [22]) = Some packet1" by (simp add: packet1_def)
  then have "DatagramSender_seal sample_crypto s1 [22]
      = (fst (DatagramSender_seal sample_crypto s1 [22]), Some packet1)" by (metis prod.collapse)
  with s1(1) show ?thesis by auto
qed

theorem no_nonce_reuse_witness:
  "sorted_wrt (<) [packet_sequence packet0, packet_sequence packet1]
   \<and> distinct [nonce (packet_sequence packet0), nonce (packet_sequence packet1)]
   \<and> (\<exists>key. aead_seal sample_crypto key (nonce (packet_sequence packet1)) (aad (replicate 16 3) (packet_sequence packet1)) [22] = Some (drop 8 packet1))"
proof -
  from sample_seal_second obtain s1 s2 where
    s: "seal_all sample_crypto sample_sender [[11]] = (s1, [Some packet0])"
    "DatagramSender_seal sample_crypto s1 [22] = (s2, Some packet1)" by blast
  then have sealed: "seal_all sample_crypto sample_sender [[11], [22]] = (s2, [Some packet0, Some packet1])"
    by (auto simp: Let_def split: prod.splits)
  have "\<exists>key. aead_seal sample_crypto key (nonce (packet_sequence packet1)) (aad (replicate 16 3) (packet_sequence packet1)) [22] = Some (drop 8 packet1)"
    using no_nonce_reuse [OF sample_pairs(1) sealed] by (auto simp: less_Suc_eq)
  then show ?thesis
    using no_nonce_reuse [OF sample_pairs(1) sealed] by simp
qed

theorem sealed_packet_opens_witness:
  "snd (DatagramReceiver_open sample_crypto sample_server packet1) = Some [22]"
proof -
  from sample_seal_second obtain s1 s2 where
    "seal_all sample_crypto sample_sender [[11]] = (s1, [Some packet0])"
    "DatagramSender_seal sample_crypto s1 [22] = (s2, Some packet1)" by blast
  from sealed_packet_opens [OF sample_crypto_correct sample_pairs this, of "[]" sample_server "[]"]
  show ?thesis by (simp add: stale_def)
qed

theorem refused_packet_no_effect_witness:
  "DatagramReceiver_open sample_crypto sample_server forged = (sample_server, None)"
proof -
  note fresh = datagram_pair_fresh(2) [OF sample_pairs(2), of sample_crypto]
  have "snd (DatagramReceiver_open sample_crypto sample_server forged) = None"
    by (simp add: open_step [OF fresh datagram_pair_fresh(3) [OF sample_pairs(2)]] stale_def)
  then have "DatagramReceiver_open sample_crypto sample_server forged
      = (fst (DatagramReceiver_open sample_crypto sample_server forged), None)"
    by (metis prod.collapse)
  with refused_packet_no_effect [OF this] show ?thesis by simp
qed

end
