(* ===== verification/Guest_Receive.thy ===== *)
theory Guest_Receive
  imports Yas_Prelude
begin

text \<open>
  The receive budget of the guest SDK (\<^verbatim>\<open>crates/guest/src/receive.rs\<close>).  A budget is a counter that all
  its leases share through a reference-counted cell, so each operation on a lease takes the
  shared counter and returns it changed.  \<open>None\<close> is a panic (\<^verbatim>\<open>expect\<close> on an overflowing sum);
  subtraction wraps, as it does in the builds without debug assertions.  The last section puts any
  number of leases next to the counter they share and shows what the accounting guarantees.
\<close>

section \<open>Budgets and leases\<close>

definition DEFAULT_STATE_WINDOW :: u64 where "DEFAULT_STATE_WINDOW = 256 * 1024"

record budget =
  st_maximum :: u64
  st_reserved :: u64

record Lease =
  ls_bytes :: u64
  ls_committed :: bool

definition Budget_new :: "u64 \<Rightarrow> budget" where
  "Budget_new maximum = \<lparr>st_maximum = maximum, st_reserved = 0\<rparr>"

definition Budget_available :: "budget \<Rightarrow> u64" where
  "Budget_available s = (if st_reserved s \<le> st_maximum s then st_maximum s - st_reserved s else 0)"

definition Budget_reserve :: "budget \<Rightarrow> u64 \<Rightarrow> budget option" where
  "Budget_reserve s n = map_option (\<lambda>r. s\<lparr>st_reserved := r\<rparr>) (checked_add (st_reserved s) n)"

definition Budget_lease_up_to :: "budget \<Rightarrow> u64 \<Rightarrow> (Lease \<times> budget) option" where
  "Budget_lease_up_to s maximum =
     (let n = min maximum (Budget_available s) in
      map_option (\<lambda>t. (\<lparr>ls_bytes = n, ls_committed = False\<rparr>, t)) (Budget_reserve s n))"

definition Budget_lease_exact :: "budget \<Rightarrow> u64 \<Rightarrow> (Lease option \<times> budget) option" where
  "Budget_lease_exact s n =
     (if Budget_available s < n then Some (None, s)
      else map_option (\<lambda>t. (Some \<lparr>ls_bytes = n, ls_committed = False\<rparr>, t)) (Budget_reserve s n))"

definition Lease_release_bytes :: "budget \<Rightarrow> Lease \<Rightarrow> u64 \<Rightarrow> budget \<times> Lease" where
  "Lease_release_bytes s l n =
     (if n = 0 then (s, l)
      else (s\<lparr>st_reserved := st_reserved s - n\<rparr>, l\<lparr>ls_bytes := ls_bytes l - n\<rparr>))"

definition Lease_shrink_to :: "budget \<Rightarrow> Lease \<Rightarrow> u64 \<Rightarrow> bool \<times> budget \<times> Lease" where
  "Lease_shrink_to s l n =
     (if n = ls_bytes l then (True, s, l)
      else if ls_committed l \<or> ls_bytes l < n then (False, s, l)
      else (True, Lease_release_bytes s l (ls_bytes l - n)))"

definition Lease_settle_to :: "budget \<Rightarrow> Lease \<Rightarrow> u64 \<Rightarrow> bool \<times> budget \<times> Lease" where
  "Lease_settle_to s l n =
     (if ls_bytes l < n then (False, s, l)
      else (True, Lease_release_bytes s l (ls_bytes l - n)))"

definition Lease_release :: "budget \<Rightarrow> Lease \<Rightarrow> budget \<times> Lease" where
  "Lease_release s l = Lease_release_bytes s l (ls_bytes l)"

definition Lease_commit :: "Lease \<Rightarrow> Lease" where
  "Lease_commit l = l\<lparr>ls_committed := True\<rparr>"

text \<open>\<^verbatim>\<open>impl Drop for Lease\<close>.\<close>

definition Lease_drop :: "budget \<Rightarrow> Lease \<Rightarrow> budget" where
  "Lease_drop s l = (if ls_committed l then s else fst (Lease_release s l))"

section \<open>A budget and all its leases\<close>

text \<open>
  The counter, the leases that are alive, and the bytes of committed leases whose owner dropped them:
  authority the peer still has and that no call gives back.
\<close>

record pool =
  po_budget :: budget
  po_live :: "Lease list"
  po_pinned :: nat

definition drop_nth :: "nat \<Rightarrow> 'a list \<Rightarrow> 'a list" where
  "drop_nth i xs = take i xs @ drop (Suc i) xs"

definition pool_update :: "pool \<Rightarrow> nat \<Rightarrow> budget \<times> Lease \<Rightarrow> pool" where
  "pool_update p i r = p\<lparr>po_budget := fst r, po_live := (po_live p)[i := snd r]\<rparr>"

inductive budget_step :: "pool \<Rightarrow> pool \<Rightarrow> bool" where
  up_to: "Budget_lease_up_to (po_budget p) n = Some (l, s) \<Longrightarrow>
    budget_step p (p\<lparr>po_budget := s, po_live := po_live p @ [l]\<rparr>)"
| exact: "Budget_lease_exact (po_budget p) n = Some (Some l, s) \<Longrightarrow>
    budget_step p (p\<lparr>po_budget := s, po_live := po_live p @ [l]\<rparr>)"
| shrink: "i < length (po_live p) \<Longrightarrow>
    budget_step p (pool_update p i (snd (Lease_shrink_to (po_budget p) (po_live p ! i) n)))"
| settle: "i < length (po_live p) \<Longrightarrow>
    budget_step p (pool_update p i (snd (Lease_settle_to (po_budget p) (po_live p ! i) n)))"
| release: "i < length (po_live p) \<Longrightarrow>
    budget_step p (pool_update p i (Lease_release (po_budget p) (po_live p ! i)))"
| commit: "i < length (po_live p) \<Longrightarrow>
    budget_step p (pool_update p i (po_budget p, Lease_commit (po_live p ! i)))"
| dropped: "i < length (po_live p) \<Longrightarrow>
    budget_step p (p\<lparr>po_budget := Lease_drop (po_budget p) (po_live p ! i),
      po_live := drop_nth i (po_live p),
      po_pinned := po_pinned p + (if ls_committed (po_live p ! i) then unat (ls_bytes (po_live p ! i)) else 0)\<rparr>)"

inductive budget_reach :: "u64 \<Rightarrow> pool \<Rightarrow> bool" for maximum where
  start: "budget_reach maximum \<lparr>po_budget = Budget_new maximum, po_live = [], po_pinned = 0\<rparr>"
| step: "budget_reach maximum p \<Longrightarrow> budget_step p q \<Longrightarrow> budget_reach maximum q"

definition leased :: "Lease list \<Rightarrow> nat" where
  "leased ls = sum_list (map (\<lambda>l. unat (ls_bytes l)) ls)"

definition pool_inv :: "u64 \<Rightarrow> pool \<Rightarrow> bool" where
  "pool_inv maximum p \<longleftrightarrow> st_maximum (po_budget p) = maximum
     \<and> unat (st_reserved (po_budget p)) = leased (po_live p) + po_pinned p
     \<and> leased (po_live p) + po_pinned p \<le> unat maximum"

section \<open>The accounting is exact\<close>

lemma leased_simps [simp]:
  "leased [] = 0" "leased (l # ls) = unat (ls_bytes l) + leased ls" "leased (ls @ ms) = leased ls + leased ms"
  by (simp_all add: leased_def)

lemma leased_split: "i < length ls \<Longrightarrow> leased ls = leased (drop_nth i ls) + unat (ls_bytes (ls ! i))"
  by (subst id_take_nth_drop[of i ls]) (simp_all add: drop_nth_def)

lemma leased_update: "i < length ls \<Longrightarrow> leased (ls[i := l]) = leased (drop_nth i ls) + unat (ls_bytes l)"
  by (simp add: upd_conv_take_nth_drop drop_nth_def)

lemma Budget_available_unat:
  "st_reserved s \<le> st_maximum s \<Longrightarrow> unat (Budget_available s) = unat (st_maximum s) - unat (st_reserved s)"
  by (simp add: Budget_available_def unat_sub)

lemma Budget_reserve_ok:
  assumes "st_reserved s \<le> st_maximum s" and "n \<le> Budget_available s"
  shows "\<exists>r. Budget_reserve s n = Some (s\<lparr>st_reserved := r\<rparr>) \<and> unat r = unat (st_reserved s) + unat n
    \<and> unat r \<le> unat (st_maximum s)"
proof -
  have le: "unat (st_reserved s) + unat n \<le> unat (st_maximum s)"
    using assms Budget_available_unat[of s] by (simp add: word_le_nat_alt)
  then have "unat (st_reserved s) + unat n < 2 ^ LENGTH(64)"
    using unsigned_less[of "st_maximum s", where 'a = nat] by linarith
  then obtain r where "checked_add (st_reserved s) n = Some r"
    by (simp add: checked_add_def)
  with le show ?thesis
    by (auto simp: Budget_reserve_def checked_add_Some_iff)
qed

text \<open>What every operation on a lease does: the counter moves by what the lease gives back.\<close>

definition gives_back :: "budget \<Rightarrow> Lease \<Rightarrow> budget \<times> Lease \<Rightarrow> bool" where
  "gives_back s l r \<longleftrightarrow> st_maximum (fst r) = st_maximum s
     \<and> unat (st_reserved (fst r)) + unat (ls_bytes l) = unat (st_reserved s) + unat (ls_bytes (snd r))
     \<and> unat (ls_bytes (snd r)) \<le> unat (ls_bytes l)"

lemma gives_back_release_bytes:
  "n \<le> ls_bytes l \<Longrightarrow> ls_bytes l \<le> st_reserved s \<Longrightarrow> gives_back s l (Lease_release_bytes s l n)"
  by (auto simp: gives_back_def Lease_release_bytes_def unat_sub word_le_nat_alt)

lemma gives_back_ops:
  assumes "ls_bytes l \<le> st_reserved s"
  shows "gives_back s l (snd (Lease_shrink_to s l n))" "gives_back s l (snd (Lease_settle_to s l n))"
    "gives_back s l (Lease_release s l)" "gives_back s l (s, Lease_commit l)"
proof -
  have sub: "ls_bytes l - n \<le> ls_bytes l" if "n \<le> ls_bytes l"
    using that by (simp add: word_le_nat_alt unat_sub)
  have same: "gives_back s l (s, l)"
    by (simp add: gives_back_def)
  show "gives_back s l (snd (Lease_shrink_to s l n))" "gives_back s l (snd (Lease_settle_to s l n))"
    using gives_back_release_bytes[OF sub assms] same by (auto simp: Lease_shrink_to_def Lease_settle_to_def not_less)
  show "gives_back s l (Lease_release s l)" "gives_back s l (s, Lease_commit l)"
    using gives_back_release_bytes[OF _ assms] by (simp_all add: Lease_release_def gives_back_def Lease_commit_def)
qed

lemma Lease_release_all: "ls_bytes (snd (Lease_release s l)) = 0"
  by (simp add: Lease_release_def Lease_release_bytes_def)

lemma pool_inv_update:
  assumes "pool_inv m p" and "i < length (po_live p)" and "gives_back (po_budget p) (po_live p ! i) r"
  shows "pool_inv m (pool_update p i r)"
  using assms leased_split[OF assms(2)]
  by (auto simp: pool_inv_def pool_update_def gives_back_def leased_update)

lemma pool_inv_reserved:
  "pool_inv m p \<Longrightarrow> i < length (po_live p) \<Longrightarrow> ls_bytes (po_live p ! i) \<le> st_reserved (po_budget p)"
  by (simp add: pool_inv_def leased_split word_le_nat_alt)

lemma pool_inv_available:
  "pool_inv m p \<Longrightarrow> st_reserved (po_budget p) \<le> st_maximum (po_budget p)"
  by (auto simp: pool_inv_def word_le_nat_alt)

lemma pool_inv_new_lease:
  assumes "pool_inv m p" and "n \<le> Budget_available (po_budget p)"
  shows "\<exists>s. Budget_reserve (po_budget p) n = Some s
    \<and> pool_inv m (p\<lparr>po_budget := s, po_live := po_live p @ [\<lparr>ls_bytes = n, ls_committed = c\<rparr>]\<rparr>)"
  using Budget_reserve_ok[OF pool_inv_available[OF assms(1)] assms(2)] assms(1)
  by (auto simp: pool_inv_def)

lemma budget_step_inv: "budget_step p q \<Longrightarrow> pool_inv m p \<Longrightarrow> pool_inv m q"
proof (induction rule: budget_step.induct)
  case (up_to p n l s)
  then show ?case
    using pool_inv_new_lease[of m p "min n (Budget_available (po_budget p))" False]
    by (auto simp: Budget_lease_up_to_def Let_def)
next
  case (exact p n l s)
  then show ?case
    using pool_inv_new_lease[of m p n False] by (auto simp: Budget_lease_exact_def not_less split: if_splits)
next
  case (dropped i p)
  let ?l = "po_live p ! i"
  have "gives_back (po_budget p) ?l (Lease_release (po_budget p) ?l)"
    using dropped by (intro gives_back_ops pool_inv_reserved)
  with dropped show ?case
    using Lease_release_all[of "po_budget p" ?l] leased_split[of i "po_live p"]
    by (auto simp: pool_inv_def Lease_drop_def gives_back_def)
qed (auto intro!: pool_inv_update gives_back_ops pool_inv_reserved)

lemma budget_reach_inv: "budget_reach maximum p \<Longrightarrow> pool_inv maximum p"
proof (induction rule: budget_reach.induct)
  case start
  then show ?case
    by (simp add: pool_inv_def Budget_new_def)
qed (rule budget_step_inv)

inductive_cases budget_stepE: "budget_step p q"

lemma budget_step_pinned: "budget_step p q \<Longrightarrow> po_pinned p \<le> po_pinned q"
  by (erule budget_stepE) (auto simp: pool_update_def)

section \<open>Properties\<close>

text \<open>
  C36: however leases are taken, shrunk, settled, committed, released and dropped, the counter of a budget
  is exactly the bytes of the leases that are alive and of the committed ones that were dropped, and
  never exceeds the maximum; so what \<^verbatim>\<open>available\<close> reports is what is left, both ways of leasing return
  without the overflow panic, an exact lease is refused exactly when it asks for more than that, and
  the bytes pinned by abandoned authority never shrink.
\<close>

theorem receive_budget_exact:
  assumes "budget_reach maximum p"
  shows "unat (st_reserved (po_budget p)) = leased (po_live p) + po_pinned p
    \<and> leased (po_live p) + po_pinned p + unat (Budget_available (po_budget p)) = unat maximum
    \<and> (\<exists>s. Budget_lease_up_to (po_budget p) n =
          Some (\<lparr>ls_bytes = min n (Budget_available (po_budget p)), ls_committed = False\<rparr>, s))
    \<and> (\<exists>r s. Budget_lease_exact (po_budget p) n = Some (r, s)
          \<and> (r = None) = (unat maximum < leased (po_live p) + po_pinned p + unat n))
    \<and> (\<forall>q. budget_step p q \<longrightarrow> po_pinned p \<le> po_pinned q)"
proof -
  have inv: "pool_inv maximum p"
    using assms by (rule budget_reach_inv)
  have avail: "leased (po_live p) + po_pinned p + unat (Budget_available (po_budget p)) = unat maximum"
    using inv Budget_available_unat[OF pool_inv_available[OF inv]] by (simp add: pool_inv_def)
  have "\<exists>s. Budget_lease_up_to (po_budget p) n =
      Some (\<lparr>ls_bytes = min n (Budget_available (po_budget p)), ls_committed = False\<rparr>, s)"
    using Budget_reserve_ok[OF pool_inv_available[OF inv], of "min n (Budget_available (po_budget p))"]
    by (auto simp: Budget_lease_up_to_def Let_def)
  moreover have "\<exists>r s. Budget_lease_exact (po_budget p) n = Some (r, s)
      \<and> (r = None) = (unat maximum < leased (po_live p) + po_pinned p + unat n)"
  proof (cases "Budget_available (po_budget p) < n")
    case True
    with avail show ?thesis
      by (simp add: Budget_lease_exact_def word_less_nat_alt)
  next
    case False
    with avail Budget_reserve_ok[OF pool_inv_available[OF inv], of n] show ?thesis
      by (auto simp: Budget_lease_exact_def word_less_nat_alt word_le_nat_alt)
  qed
  ultimately show ?thesis
    using inv avail budget_step_pinned by (auto simp: pool_inv_def)
qed

definition sample_pool :: pool where
  "sample_pool = \<lparr>po_budget = \<lparr>st_maximum = 10, st_reserved = 7\<rparr>, po_live = [], po_pinned = 7\<rparr>"

lemma sample_pool_reach: "budget_reach 10 sample_pool"
proof -
  let ?s = "\<lparr>st_maximum = 10, st_reserved = 7\<rparr> :: budget"
  have "budget_reach 10 \<lparr>po_budget = Budget_new 10, po_live = [], po_pinned = 0\<rparr>"
    by (rule budget_reach.start)
  moreover have "budget_step \<lparr>po_budget = Budget_new 10, po_live = [], po_pinned = 0\<rparr>
      \<lparr>po_budget = ?s, po_live = [\<lparr>ls_bytes = 7, ls_committed = False\<rparr>], po_pinned = 0\<rparr>"
    using budget_step.up_to[of "\<lparr>po_budget = Budget_new 10, po_live = [], po_pinned = 0\<rparr>" 7]
    by (simp add: Budget_new_def Budget_lease_up_to_def Budget_available_def Budget_reserve_def checked_add_def)
  moreover have "budget_step \<lparr>po_budget = ?s, po_live = [\<lparr>ls_bytes = 7, ls_committed = False\<rparr>], po_pinned = 0\<rparr>
      \<lparr>po_budget = ?s, po_live = [\<lparr>ls_bytes = 7, ls_committed = True\<rparr>], po_pinned = 0\<rparr>"
    using budget_step.commit[of 0 "\<lparr>po_budget = ?s, po_live = [\<lparr>ls_bytes = 7, ls_committed = False\<rparr>], po_pinned = 0\<rparr>"]
    by (simp add: pool_update_def Lease_commit_def)
  moreover have "budget_step \<lparr>po_budget = ?s, po_live = [\<lparr>ls_bytes = 7, ls_committed = True\<rparr>], po_pinned = 0\<rparr> sample_pool"
    using budget_step.dropped[of 0 "\<lparr>po_budget = ?s, po_live = [\<lparr>ls_bytes = 7, ls_committed = True\<rparr>], po_pinned = 0\<rparr>"]
    by (simp add: Lease_drop_def drop_nth_def sample_pool_def)
  ultimately show ?thesis
    by (meson budget_reach.step)
qed

theorem receive_budget_exact_witness:
  "unat (Budget_available (po_budget sample_pool)) = 3
   \<and> (\<exists>s. Budget_lease_exact (po_budget sample_pool) 4 = Some (None, s))"
  using receive_budget_exact[OF sample_pool_reach, of 4] by (auto simp: sample_pool_def)

end
