(* ===== verification/Guest_Host.thy ===== *)
theory Guest_Host
  imports Wire_Catalog
begin

text \<open>
  The host interface of the guest SDK (\<^verbatim>\<open>crates/guest/src/host.rs\<close>), and the two halves of
  \<^verbatim>\<open>crates/guest/src/yas.rs\<close> that move bytes over it: \<^verbatim>\<open>send_stream\<close>, which cuts an encoded frame into
  packets, and \<^verbatim>\<open>StreamReceiver\<close>, which puts packets together again.  The host itself is the embedding
  program: a record of functions over a state of its own, one for each raw import, with no law assumed.
  What is read from the host is bounded whatever it answers, so the receiving loops terminate.
\<close>

section \<open>The host\<close>

text \<open>
  The five raw calls of \<^verbatim>\<open>trait Host\<close>; \<open>raw_recv\<close> is given the capacity of the buffer and returns its result with the
  bytes it wrote at the start of it.  \<open>raw_alloc\<close> is the allocator behind
  \<^verbatim>\<open>try_reserve_exact\<close>, and the last two fields are the LZ4 crate the frame codec calls.
\<close>

record 'h Host =
  raw_send :: "'h \<Rightarrow> bytes \<Rightarrow> int \<times> 'h"
  raw_recv :: "'h \<Rightarrow> nat \<Rightarrow> (int \<times> bytes) \<times> 'h"
  raw_wait :: "'h \<Rightarrow> int \<Rightarrow> int \<times> 'h"
  raw_clock :: "'h \<Rightarrow> int \<Rightarrow> int \<times> 'h"
  raw_random :: "'h \<Rightarrow> nat \<Rightarrow> bytes option \<times> 'h"
  raw_alloc :: "'h \<Rightarrow> nat \<Rightarrow> bool \<times> 'h"
  lz4_compress :: "bytes \<Rightarrow> bytes"
  lz4_decompress :: "bytes \<Rightarrow> nat \<Rightarrow> bytes option"

definition MAX_PACKET_SIZE :: nat where "MAX_PACKET_SIZE = 16 * 1024 * 1024"

datatype SendOutcome = Accepted | SendClosed | RejectedSize
datatype RecvOutcome = RecvClosed | Copied nat | NeedsCapacity nat
datatype WaitOutcome = WaitDeadline | WaitPacket | WaitClosed

datatype HostError =
    EmptyPacket
  | PacketTooLarge nat
  | InvalidSendResult int
  | InvalidRecvResult int
  | InvalidWaitResult int
  | EntropyUnavailable

definition host_send :: "'h Host \<Rightarrow> 'h \<Rightarrow> bytes \<Rightarrow> (HostError + SendOutcome) \<times> 'h" where
  "host_send H h packet =
     (if packet = [] then (Inl EmptyPacket, h)
      else if MAX_PACKET_SIZE < length packet then (Inl (PacketTooLarge (length packet)), h)
      else case raw_send H h packet of (result, h1) \<Rightarrow>
        (if result = 0 then Inr Accepted
         else if result = - 1 then Inr SendClosed
         else if result = - 2 then Inr RejectedSize
         else Inl (InvalidSendResult result), h1))"

text \<open>A write at the start of a slice leaves its length alone.\<close>

definition overlay :: "bytes \<Rightarrow> bytes \<Rightarrow> bytes" where
  "overlay buffer written = take (length buffer) written @ drop (length written) buffer"

definition host_recv :: "'h Host \<Rightarrow> 'h \<Rightarrow> bytes \<Rightarrow> (HostError + RecvOutcome) \<times> bytes \<times> 'h" where
  "host_recv H h buffer =
     (if MAX_PACKET_SIZE < length buffer then (Inl (PacketTooLarge (length buffer)), buffer, h)
      else case raw_recv H h (length buffer) of ((result, written), h1) \<Rightarrow>
        let len = nat result in
        (if result < 0 then Inl (InvalidRecvResult result)
         else if len = 0 then Inr RecvClosed
         else if MAX_PACKET_SIZE < len then Inl (PacketTooLarge len)
         else if length buffer < len then Inr (NeedsCapacity len)
         else Inr (Copied len), overlay buffer written, h1))"

definition host_wait :: "'h Host \<Rightarrow> 'h \<Rightarrow> int \<Rightarrow> (HostError + WaitOutcome) \<times> 'h" where
  "host_wait H h deadline =
     (case raw_wait H h deadline of (result, h1) \<Rightarrow>
        (if result = 0 then Inr WaitDeadline
         else if result = 1 then Inr WaitPacket
         else if result = 2 then Inr WaitClosed
         else Inl (InvalidWaitResult result), h1))"

section \<open>Errors of a session\<close>

datatype GuestError =
    HostFailed HostError
  | WireFailed error
  | EndpointClosed
  | DeadlineExceeded
  | SendRejected
  | AllocationFailed
  | BufferedLimit
  | HelloRejected Status
  | UnexpectedHello
  | ExtensionUnavailable
  | ExpectedAttemptContext
  | PendingBufferFull
  | PendingReadBlocked
  | Poisoned
  | ReceiveBudgetExhausted u64 u64
  | TooManyOutstandingRequests
  | RequestFailed u16 u16 Status Extensions
  | Protocol string
  | GoingAway GoAway

text \<open>How a call ends early: with an error, or with a panic of an \<^verbatim>\<open>expect\<close>.\<close>

datatype stop = Err GuestError | Panic

section \<open>Sending\<close>

definition send_chunk :: "'h Host \<Rightarrow> 'h \<Rightarrow> bytes \<Rightarrow> (stop + unit) \<times> 'h" where
  "send_chunk H h chunk =
     (case host_send H h chunk of (r, h1) \<Rightarrow>
        (case r of
           Inl e \<Rightarrow> Inl (Err (HostFailed e))
         | Inr Accepted \<Rightarrow> Inr ()
         | Inr SendClosed \<Rightarrow> Inl (Err EndpointClosed)
         | Inr RejectedSize \<Rightarrow> Inl (Err SendRejected), h1))"

function send_stream :: "'h Host \<Rightarrow> 'h \<Rightarrow> bytes \<Rightarrow> (stop + unit) \<times> 'h" where
  "send_stream H h b =
     (if b = [] then (Inr (), h)
      else let len = min (length b) MAX_PACKET_SIZE in
        case send_chunk H h (take len b) of
          (Inl e, h1) \<Rightarrow> (Inl e, h1)
        | (Inr _, h1) \<Rightarrow> send_stream H h1 (drop len b))"
  by pat_completeness auto
termination
  by (relation "measure (\<lambda>(_, _, b). length b)") (auto simp: MAX_PACKET_SIZE_def)

declare send_stream.simps [simp del]

section \<open>Receiving\<close>

definition MAX_INSTANT :: int where "MAX_INSTANT = 2 ^ 63 - 1"

definition INITIAL_BUFFER :: nat where "INITIAL_BUFFER = 64 * 1024"

record StreamReceiver =
  sr_host_buffer :: bytes
  sr_stream :: bytes
  sr_maximum :: nat

datatype StreamReceive = ReceivedFrame Frame | ReceiveDeadline | ReceiveClosed

definition StreamReceiver_new :: "nat \<Rightarrow> StreamReceiver" where
  "StreamReceiver_new maximum =
     \<lparr>sr_host_buffer = replicate (min INITIAL_BUFFER maximum) 0, sr_stream = [], sr_maximum = maximum\<rparr>"

text \<open>
  The inner loop of \<^verbatim>\<open>recv_until\<close>: the next packet, growing the buffer while the host asks for more room.
  \<open>None\<close> is a closed endpoint.
\<close>

function recv_chunk ::
  "'h Host \<Rightarrow> nat \<Rightarrow> 'h \<Rightarrow> bytes \<Rightarrow> (stop + bytes option) \<times> bytes \<times> 'h" where
  "recv_chunk H maximum h buffer =
     (case host_recv H h buffer of (r, buffer1, h1) \<Rightarrow>
       (case r of
          Inl e \<Rightarrow> (Inl (Err (HostFailed e)), buffer1, h1)
        | Inr RecvClosed \<Rightarrow> (Inr None, buffer1, h1)
        | Inr (Copied len) \<Rightarrow> (Inr (Some (take len buffer1)), buffer1, h1)
        | Inr (NeedsCapacity required) \<Rightarrow>
            (if maximum < required then (Inl (Err BufferedLimit), buffer1, h1)
             else (case raw_alloc H h1 (required - length buffer1) of
                (False, h2) \<Rightarrow> (Inl (Err AllocationFailed), buffer1, h2)
              | (True, h2) \<Rightarrow>
                  recv_chunk H maximum h2
                    (take required buffer1 @ replicate (required - length buffer1) 0)))))"
  by pat_completeness auto
termination
proof (relation "measure (\<lambda>(_, maximum, _, buffer). maximum - length buffer)", goal_cases)
  case (2 H maximum h buffer r p buffer1 h1 y required)
  then show ?case
    by (auto simp: host_recv_def overlay_def Let_def split: if_splits prod.splits)
qed simp

declare recv_chunk.simps [simp del]

lemma host_recv_buffer: "host_recv H h buffer = (r, buffer1, h1) \<Longrightarrow> length buffer1 = length buffer"
  by (auto simp: host_recv_def overlay_def Let_def split: if_splits prod.splits)

lemma host_recv_Copied:
  "host_recv H h buffer = (Inr (Copied len), buffer1, h1) \<Longrightarrow> 0 < len \<and> len \<le> length buffer1"
  by (frule host_recv_buffer) (auto simp: host_recv_def Let_def split: if_splits prod.splits)

lemma recv_chunk_nonempty:
  "recv_chunk H maximum h buffer = (Inr (Some chunk), buffer1, h1) \<Longrightarrow> chunk \<noteq> []"
  by (induction H maximum h buffer rule: recv_chunk.induct)
    (subst (asm) (2) recv_chunk.simps, auto dest: host_recv_Copied
      split: prod.splits sum.splits RecvOutcome.splits if_splits bool.splits)

text \<open>
  One turn of the loop of \<^verbatim>\<open>recv_until\<close> up to the host call: a complete frame in the stream is decoded and
  removed.
\<close>

definition buffered_frame ::
  "'h Host \<Rightarrow> FrameCodec \<Rightarrow> StreamReceiver \<Rightarrow> (stop + Frame option) \<times> StreamReceiver" where
  "buffered_frame H codec sr =
     (if length (sr_stream sr) < 4 then (Inr None, sr)
      else let total = unat (from_le (take 4 (sr_stream sr)) :: u32) + 4 in
      if sr_maximum sr < total then (Inl (Err BufferedLimit), sr)
      else if length (sr_stream sr) < total then (Inr None, sr)
      else (case FrameCodec_decode_stream (lz4_decompress H) codec (take total (sr_stream sr)) of
              Inl e \<Rightarrow> (Inl (Err (WireFailed e)), sr)
            | Inr (frame, _) \<Rightarrow> (Inr (Some frame), sr\<lparr>sr_stream := drop total (sr_stream sr)\<rparr>)))"

function StreamReceiver_recv_until ::
  "'h Host \<Rightarrow> FrameCodec \<Rightarrow> int \<Rightarrow> StreamReceiver \<Rightarrow> 'h \<Rightarrow> (stop + StreamReceive) \<times> StreamReceiver \<times> 'h" where
  "StreamReceiver_recv_until H codec deadline sr h =
     (case buffered_frame H codec sr of
        (Inl e, sr1) \<Rightarrow> (Inl e, sr1, h)
      | (Inr (Some frame), sr1) \<Rightarrow> (Inr (ReceivedFrame frame), sr1, h)
      | (Inr None, _) \<Rightarrow>
     (case host_wait H h deadline of
        (Inl e, h1) \<Rightarrow> (Inl (Err (HostFailed e)), sr, h1)
      | (Inr WaitDeadline, h1) \<Rightarrow> (Inr ReceiveDeadline, sr, h1)
      | (Inr WaitClosed, h1) \<Rightarrow> (Inr ReceiveClosed, sr, h1)
      | (Inr WaitPacket, h1) \<Rightarrow>
     (case recv_chunk H (sr_maximum sr) h1 (sr_host_buffer sr) of
        (Inl e, buffer, h2) \<Rightarrow> (Inl e, sr\<lparr>sr_host_buffer := buffer\<rparr>, h2)
      | (Inr None, buffer, h2) \<Rightarrow> (Inr ReceiveClosed, sr\<lparr>sr_host_buffer := buffer\<rparr>, h2)
      | (Inr (Some chunk), buffer, h2) \<Rightarrow>
     (if sr_maximum sr < length (sr_stream sr) + length chunk
      then (Inl (Err BufferedLimit), sr\<lparr>sr_host_buffer := buffer\<rparr>, h2)
      else (case raw_alloc H h2 (length chunk) of
          (False, h3) \<Rightarrow> (Inl (Err AllocationFailed), sr\<lparr>sr_host_buffer := buffer\<rparr>, h3)
        | (True, h3) \<Rightarrow>
            StreamReceiver_recv_until H codec deadline
              (sr\<lparr>sr_host_buffer := buffer, sr_stream := sr_stream sr @ chunk\<rparr>) h3)))))"
  by pat_completeness auto
termination
  by (relation "measure (\<lambda>(_, _, _, sr, _). sr_maximum sr - length (sr_stream sr))")
    (auto dest!: recv_chunk_nonempty[OF sym] simp: neq_Nil_conv intro!: diff_less_mono2)

declare StreamReceiver_recv_until.simps [simp del]

definition StreamReceiver_recv ::
  "'h Host \<Rightarrow> FrameCodec \<Rightarrow> StreamReceiver \<Rightarrow> 'h \<Rightarrow> (stop + Frame option) \<times> StreamReceiver \<times> 'h" where
  "StreamReceiver_recv H codec sr h =
     (case StreamReceiver_recv_until H codec MAX_INSTANT sr h of (r, sr1, h1) \<Rightarrow>
        (case r of
           Inl e \<Rightarrow> Inl e
         | Inr (ReceivedFrame frame) \<Rightarrow> Inr (Some frame)
         | Inr ReceiveDeadline \<Rightarrow> Inr None
         | Inr ReceiveClosed \<Rightarrow> Inr None, sr1, h1))"

section \<open>Packets are put together\<close>

text \<open>
  What the documentation of the imports promises: a queued packet wakes \<^verbatim>\<open>wait\<close>, and \<^verbatim>\<open>recv\<close> copies the first
  packet and removes it, or leaves it and returns its length when the buffer is too small.  \<open>queue\<close> is the
  host's mailbox; memory is not exhausted.
\<close>

definition faithful_host :: "'h Host \<Rightarrow> ('h \<Rightarrow> bytes list) \<Rightarrow> bool" where
  "faithful_host H queue \<longleftrightarrow>
     (\<forall>h d. queue h \<noteq> [] \<longrightarrow> (\<exists>h1. raw_wait H h d = (1, h1) \<and> queue h1 = queue h))
     \<and> (\<forall>h n p ps. queue h = p # ps \<and> length p \<le> n \<longrightarrow>
          (\<exists>h1. raw_recv H h n = ((int (length p), p), h1) \<and> queue h1 = ps))
     \<and> (\<forall>h n p ps. queue h = p # ps \<and> n < length p \<longrightarrow>
          (\<exists>h1. raw_recv H h n = ((int (length p), []), h1) \<and> queue h1 = p # ps))
     \<and> (\<forall>h n. \<exists>h1. raw_alloc H h n = (True, h1) \<and> queue h1 = queue h)"

lemma buffered_frame_complete:
  assumes "lz4_round_trip (lz4_compress H) (lz4_decompress H)"
    and "FrameCodec_encode_stream (lz4_compress H) codec f = Inr s"
    and "sr_stream sr = s @ r" and "length s \<le> sr_maximum sr"
  shows "buffered_frame H codec sr = (Inr (Some f), sr\<lparr>sr_stream := r\<rparr>)"
proof -
  obtain e where e: "length e < 2 ^ 32" "s = put_u32 (of_nat (length e)) @ e"
    using assms(2) by (auto simp: encode_stream_iff)
  then have "unat (from_le (take 4 (s @ r)) :: u32) + 4 = length s"
    by (simp add: from_le_u32 unat_of_nat)
  then show ?thesis
    using assms(3,4) e(2) decode_stream_append[OF assms(1,2), of "[]"]
    by (simp add: buffered_frame_def Let_def)
qed

lemma buffered_frame_partial:
  assumes "FrameCodec_encode_stream k codec f = Inr s"
    and "sr_stream sr @ t = s @ r" and "length (sr_stream sr) < length s" and "length s \<le> sr_maximum sr"
  shows "buffered_frame H codec sr = (Inr None, sr)"
proof -
  obtain e where e: "length e < 2 ^ 32" "s = put_u32 (of_nat (length e)) @ e"
    using assms(1) by (auto simp: encode_stream_iff)
  have "take 4 (sr_stream sr) = put_u32 (of_nat (length e))" if "4 \<le> length (sr_stream sr)"
    using that arg_cong[OF assms(2), of "take 4"] e(2) by simp
  then show ?thesis
    using assms(3,4) e by (auto simp: buffered_frame_def Let_def from_le_u32 unat_of_nat not_less)
qed

lemma recv_chunk_faithful:
  assumes host: "faithful_host H queue" and q: "queue h = p # ps" "p \<noteq> []"
    and len: "length p \<le> MAX_PACKET_SIZE" "length p \<le> maximum" "length buffer \<le> MAX_PACKET_SIZE"
  shows "\<exists>buffer1 h1. recv_chunk H maximum h buffer = (Inr (Some p), buffer1, h1)
    \<and> queue h1 = ps \<and> length buffer1 \<le> MAX_PACKET_SIZE"
proof (cases "length p \<le> length buffer")
  case True
  then obtain h1 where "raw_recv H h (length buffer) = ((int (length p), p), h1)" "queue h1 = ps"
    using host q(1) unfolding faithful_host_def by metis
  with True q(2) len show ?thesis
    by (subst recv_chunk.simps) (auto simp: host_recv_def overlay_def)
next
  case False
  then obtain h1 where h1: "raw_recv H h (length buffer) = ((int (length p), []), h1)" "queue h1 = p # ps"
    using host q(1) unfolding faithful_host_def by (metis not_le)
  obtain h2 where h2: "raw_alloc H h1 (length p - length buffer) = (True, h2)" "queue h2 = p # ps"
    using host h1(2) unfolding faithful_host_def by metis
  let ?buffer = "buffer @ replicate (length p - length buffer) 0"
  have size: "length ?buffer = length p"
    using False by simp
  then obtain h3 where h3: "raw_recv H h2 (length ?buffer) = ((int (length p), p), h3)" "queue h3 = ps"
    using host h2(2) unfolding faithful_host_def by (metis order_refl)
  have "recv_chunk H maximum h2 ?buffer = (Inr (Some p), p, h3)"
    using h3 size q(2) len by (subst recv_chunk.simps) (simp add: host_recv_def overlay_def)
  moreover have "recv_chunk H maximum h buffer = recv_chunk H maximum h2 ?buffer"
    using h1(1) h2(1) False q(2) len by (subst recv_chunk.simps) (simp add: host_recv_def overlay_def)
  ultimately show ?thesis
    using h3(2) len(1) by auto
qed

text \<open>One frame, whatever packets it is spread over; the rest of the bytes stay where they are.\<close>

lemma recv_until_frame:
  assumes host: "faithful_host H queue" and lz4: "lz4_round_trip (lz4_compress H) (lz4_decompress H)"
    and enc: "FrameCodec_encode_stream (lz4_compress H) codec f = Inr s"
    and room: "length s + P \<le> sr_maximum sr" "P \<le> MAX_PACKET_SIZE"
  shows "sr_stream sr @ concat (queue h) = s @ r \<Longrightarrow> length (sr_host_buffer sr) \<le> MAX_PACKET_SIZE \<Longrightarrow>
      \<forall>p\<in>set (queue h). p \<noteq> [] \<and> length p \<le> P \<Longrightarrow>
    \<exists>sr1 h1. StreamReceiver_recv_until H codec deadline sr h = (Inr (ReceivedFrame f), sr1, h1)
      \<and> sr_stream sr1 @ concat (queue h1) = r \<and> sr_maximum sr1 = sr_maximum sr
      \<and> length (sr_host_buffer sr1) \<le> MAX_PACKET_SIZE \<and> set (queue h1) \<subseteq> set (queue h)"
  using room
proof (induction "queue h" arbitrary: sr h)
  case Nil
  then have "buffered_frame H codec sr = (Inr (Some f), sr\<lparr>sr_stream := r\<rparr>)"
    by (intro buffered_frame_complete[OF lz4 enc]) auto
  with Nil show ?case
    by (subst StreamReceiver_recv_until.simps) auto
next
  case (Cons p ps)
  show ?case
  proof (cases "length s \<le> length (sr_stream sr)")
    case True
    then have "sr_stream sr = s @ drop (length s) (sr_stream sr)"
      using Cons.prems(1) by (metis append_eq_append_conv_if append_take_drop_id)
    then have "buffered_frame H codec sr = (Inr (Some f), sr\<lparr>sr_stream := drop (length s) (sr_stream sr)\<rparr>)"
      using Cons.prems(4) by (intro buffered_frame_complete[OF lz4 enc]) auto
    moreover have "drop (length s) (sr_stream sr) @ concat (queue h) = r"
      using True arg_cong[OF Cons.prems(1), of "drop (length s)"] by simp
    ultimately show ?thesis
      using Cons.prems(2) by (subst StreamReceiver_recv_until.simps) auto
  next
    case False
    then have part: "buffered_frame H codec sr = (Inr None, sr)"
      using Cons.prems(4) by (intro buffered_frame_partial[OF enc Cons.prems(1)]) auto
    have p: "p \<noteq> []" "length p \<le> P"
      using Cons.prems(3) Cons.hyps(2)[symmetric] by auto
    obtain h1 where h1: "raw_wait H h deadline = (1, h1)" "queue h1 = p # ps"
      using host Cons.hyps(2)[symmetric] unfolding faithful_host_def by (metis list.distinct(1))
    obtain buffer h2 where h2: "recv_chunk H (sr_maximum sr) h1 (sr_host_buffer sr) = (Inr (Some p), buffer, h2)"
      "queue h2 = ps" "length buffer \<le> MAX_PACKET_SIZE"
      using recv_chunk_faithful[OF host h1(2) p(1), of "sr_maximum sr" "sr_host_buffer sr"] p(2) Cons.prems by auto
    obtain h3 where h3: "raw_alloc H h2 (length p) = (True, h3)" "queue h3 = ps"
      using host h2(2) unfolding faithful_host_def by metis
    let ?sr = "sr\<lparr>sr_host_buffer := buffer, sr_stream := sr_stream sr @ p\<rparr>"
    have "StreamReceiver_recv_until H codec deadline sr h = StreamReceiver_recv_until H codec deadline ?sr h3"
      using part h1(1) h2(1) h3(1) False p(2) Cons.prems(4)
      by (subst StreamReceiver_recv_until.simps) (simp add: host_wait_def)
    moreover have "sr_stream ?sr @ concat (queue h3) = s @ r"
      using Cons.prems(1) Cons.hyps(2)[symmetric] h3(2) by simp
    ultimately show ?thesis
      using Cons.hyps(1)[of h3 ?sr] Cons.prems Cons.hyps(2)[symmetric] h2(3) h3(2) by fastforce
  qed
qed

section \<open>A stream is sent in packets\<close>

function packets_of :: "bytes \<Rightarrow> bytes list" where
  "packets_of b = (if b = [] then [] else take MAX_PACKET_SIZE b # packets_of (drop MAX_PACKET_SIZE b))"
  by pat_completeness auto
termination
  by (relation "measure length") (auto simp: MAX_PACKET_SIZE_def)

declare packets_of.simps [simp del]

fun send_packets :: "'h Host \<Rightarrow> 'h \<Rightarrow> bytes list \<Rightarrow> (stop + unit) \<times> 'h" where
  "send_packets H h [] = (Inr (), h)"
| "send_packets H h (p # ps) =
     (case raw_send H h p of (result, h1) \<Rightarrow>
        if result = 0 then send_packets H h1 ps
        else (Inl (Err (if result = - 1 then EndpointClosed
                        else if result = - 2 then SendRejected
                        else HostFailed (InvalidSendResult result))), h1))"

lemma packets_of_ok:
  "concat (packets_of b) = b \<and> (\<forall>p\<in>set (packets_of b). p \<noteq> [] \<and> length p \<le> MAX_PACKET_SIZE)"
proof (induction b rule: packets_of.induct)
  case (1 b)
  then show ?case
    by (cases "b = []") (auto simp: packets_of.simps[of b] packets_of.simps[of "[]"] MAX_PACKET_SIZE_def)
qed

lemma send_chunk_raw:
  assumes "b \<noteq> []"
  shows "send_chunk H h (take MAX_PACKET_SIZE b) =
     (case raw_send H h (take MAX_PACKET_SIZE b) of (result, h1) \<Rightarrow>
        (if result = 0 then Inr () else Inl (Err (if result = - 1 then EndpointClosed
           else if result = - 2 then SendRejected else HostFailed (InvalidSendResult result))), h1))"
  using assms by (simp add: send_chunk_def host_send_def MAX_PACKET_SIZE_def split: prod.splits)

lemma send_stream_step:
  assumes "b \<noteq> []"
  shows "send_stream H h b = (case send_chunk H h (take MAX_PACKET_SIZE b) of
     (Inl e, h1) \<Rightarrow> (Inl e, h1) | (Inr _, h1) \<Rightarrow> send_stream H h1 (drop MAX_PACKET_SIZE b))"
proof -
  have "take (min (length b) MAX_PACKET_SIZE) b = take MAX_PACKET_SIZE b"
    "drop (min (length b) MAX_PACKET_SIZE) b = drop MAX_PACKET_SIZE b"
    by (simp_all add: min_def)
  with assms show ?thesis
    unfolding send_stream.simps[of H h b] Let_def by presburger
qed

lemma send_stream_packets: "send_stream H h b = send_packets H h (packets_of b)"
proof (induction b arbitrary: h rule: packets_of.induct)
  case (1 b)
  show ?case
  proof (cases "b = []")
    case True
    then show ?thesis
      by (simp add: send_stream.simps packets_of.simps)
  next
    case False
    then show ?thesis
      unfolding send_stream_step[OF False] send_chunk_raw[OF False]
      using "1.IH"[OF False] by (simp add: packets_of.simps[of b] split: prod.splits)
  qed
qed

section \<open>The receiver is bounded\<close>

definition receiver_ok :: "StreamReceiver \<Rightarrow> bool" where
  "receiver_ok sr \<longleftrightarrow> length (sr_stream sr) \<le> sr_maximum sr \<and> length (sr_host_buffer sr) \<le> sr_maximum sr"

lemma receiver_ok_new: "receiver_ok (StreamReceiver_new maximum)"
  by (simp add: receiver_ok_def StreamReceiver_new_def)

lemma recv_chunk_buffer:
  "length buffer \<le> maximum \<Longrightarrow> recv_chunk H maximum h buffer = (r, buffer1, h1) \<Longrightarrow> length buffer1 \<le> maximum"
proof (induction H maximum h buffer rule: recv_chunk.induct)
  case (1 H maximum h buffer)
  obtain r0 buffer0 h0 where r0: "host_recv H h buffer = (r0, buffer0, h0)"
    by (cases "host_recv H h buffer")
  then have len: "length buffer0 = length buffer"
    by (rule host_recv_buffer)
  from "1.prems" show ?case
    using len by (subst (asm) recv_chunk.simps)
      (auto simp: r0 dest!: "1.IH"[OF r0[symmetric] refl] split: sum.splits RecvOutcome.splits if_splits prod.splits bool.splits)
qed

lemma buffered_frame_ok:
  "buffered_frame H codec sr = (r, sr1) \<Longrightarrow> sr_maximum sr1 = sr_maximum sr
     \<and> sr_host_buffer sr1 = sr_host_buffer sr \<and> length (sr_stream sr1) \<le> length (sr_stream sr)"
  by (auto simp: buffered_frame_def Let_def split: if_splits sum.splits)

text \<open>A call either ends within one turn of the loop, or appends a packet and turns again.\<close>

lemma recv_until_cases:
  assumes "StreamReceiver_recv_until H codec deadline sr h = (r, sr1, h1)"
  obtains (buffered) e where "buffered_frame H codec sr = (Inl e, sr1)" "r = Inl e" "h1 = h"
  | (frame) f where "buffered_frame H codec sr = (Inr (Some f), sr1)" "r = Inr (ReceivedFrame f)" "h1 = h"
  | (idle) w where "host_wait H h deadline = (w, h1)" "sr1 = sr" "\<And>f. r \<noteq> Inr (ReceivedFrame f)" "r \<noteq> Inl Panic"
  | (refused) h0 c buffer h2 where "host_wait H h deadline = (Inr WaitPacket, h0)"
      "recv_chunk H (sr_maximum sr) h0 (sr_host_buffer sr) = (c, buffer, h2)"
      "sr1 = sr\<lparr>sr_host_buffer := buffer\<rparr>" "\<And>f. r \<noteq> Inr (ReceivedFrame f)"
      "h1 = h2 \<or> (\<exists>n. raw_alloc H h2 n = (False, h1))" "r = Inl Panic \<Longrightarrow> c = Inl Panic"
  | (more) h0 chunk buffer h2 h3 where "host_wait H h deadline = (Inr WaitPacket, h0)"
      "recv_chunk H (sr_maximum sr) h0 (sr_host_buffer sr) = (Inr (Some chunk), buffer, h2)"
      "raw_alloc H h2 (length chunk) = (True, h3)" "length (sr_stream sr) + length chunk \<le> sr_maximum sr"
      "StreamReceiver_recv_until H codec deadline
        (sr\<lparr>sr_host_buffer := buffer, sr_stream := sr_stream sr @ chunk\<rparr>) h3 = (r, sr1, h1)"
proof -
  obtain b sr0 where b: "buffered_frame H codec sr = (b, sr0)"
    by (cases "buffered_frame H codec sr")
  obtain w h0 where w: "host_wait H h deadline = (w, h0)"
    by (cases "host_wait H h deadline")
  obtain c buffer h2 where c: "recv_chunk H (sr_maximum sr) h0 (sr_host_buffer sr) = (c, buffer, h2)"
    by (cases "recv_chunk H (sr_maximum sr) h0 (sr_host_buffer sr)")
  note step = assms[unfolded StreamReceiver_recv_until.simps[of H codec deadline sr h] b w]
  show thesis
  proof (cases "b = Inr None \<and> w = Inr WaitPacket")
    case False
    then show thesis
      using step buffered[unfolded b] frame[unfolded b] idle[unfolded w]
      by (auto split: sum.splits option.splits WaitOutcome.splits)
  next
    case True
    note step2 = step[simplified True sum.case option.case WaitOutcome.case prod.case c]
    show thesis
    proof (cases "\<exists>chunk h3. c = Inr (Some chunk) \<and> length (sr_stream sr) + length chunk \<le> sr_maximum sr
        \<and> raw_alloc H h2 (length chunk) = (True, h3)")
      case True
      then show thesis
        using step2 more[of h0 _ buffer h2] w c \<open>b = Inr None \<and> w = Inr WaitPacket\<close> by auto
    next
      case False
      then have "sr1 = sr\<lparr>sr_host_buffer := buffer\<rparr> \<and> (\<forall>f. r \<noteq> Inr (ReceivedFrame f))
          \<and> (h1 = h2 \<or> (\<exists>n. raw_alloc H h2 n = (False, h1))) \<and> (r = Inl Panic \<longrightarrow> c = Inl Panic)"
        using step2 by (auto split: sum.splits option.splits if_splits prod.splits bool.splits)
      then show thesis
        using refused w c \<open>b = Inr None \<and> w = Inr WaitPacket\<close> by blast
    qed
  qed
qed

lemma recv_until_ok:
  "receiver_ok sr \<Longrightarrow> StreamReceiver_recv_until H codec deadline sr h = (r, sr1, h1) \<Longrightarrow>
     receiver_ok sr1 \<and> sr_maximum sr1 = sr_maximum sr"
proof (induction "sr_maximum sr - length (sr_stream sr)" arbitrary: sr h rule: less_induct)
  case less
  from less.prems(2) show ?case
  proof (cases rule: recv_until_cases)
    case (more h0 chunk buffer h2 h3)
    let ?sr = "sr\<lparr>sr_host_buffer := buffer, sr_stream := sr_stream sr @ chunk\<rparr>"
    have "receiver_ok ?sr"
      using less.prems(1) more(4) recv_chunk_buffer[OF _ more(2)] by (simp add: receiver_ok_def)
    moreover have "chunk \<noteq> []"
      using recv_chunk_nonempty[OF more(2)] .
    ultimately show ?thesis
      using less.hyps[of ?sr h3] more(4,5) by (simp add: neq_Nil_conv) fastforce
  next
    case (buffered e)
    then show ?thesis
      using less.prems(1) buffered_frame_ok[OF buffered(1)] by (simp add: receiver_ok_def)
  next
    case (frame f)
    then show ?thesis
      using less.prems(1) buffered_frame_ok[OF frame(1)] by (simp add: receiver_ok_def)
  next
    case (refused h0 c buffer h2)
    then show ?thesis
      using less.prems(1) recv_chunk_buffer[OF _ refused(2)] by (simp add: receiver_ok_def)
  next
    case (idle w)
    then show ?thesis
      using less.prems(1) by simp
  qed
qed

section \<open>Properties\<close>

text \<open>
  A receiver never holds more than its limit, whatever the host answers.  The stream buffer and the
  packet buffer of a receiver stay within \<^verbatim>\<open>maximum\<close> bytes across every call, the host being any program at
  all: it may return arbitrary lengths, ask for arbitrary capacities, and never stop sending.
\<close>

theorem receiver_bounded:
  assumes "StreamReceiver_recv_until H codec deadline sr h = (r, sr1, h1)"
    and "length (sr_stream sr) \<le> sr_maximum sr" and "length (sr_host_buffer sr) \<le> sr_maximum sr"
  shows "length (sr_stream sr1) \<le> sr_maximum sr1 \<and> length (sr_host_buffer sr1) \<le> sr_maximum sr1
    \<and> sr_maximum sr1 = sr_maximum sr"
  using recv_until_ok[OF _ assms(1)] assms(2,3) by (simp add: receiver_ok_def)

text \<open>
  A frame is handed to the host in packets it accepts.  Sending a byte string makes one raw call for each
  of its packets, in order, and stops at the first that is not accepted, with the error of its result; the
  packets are not empty, no longer than 16 MiB, and together they are the byte string.
\<close>

theorem stream_sent_in_packets:
  "send_stream H h b = send_packets H h (packets_of b) \<and> concat (packets_of b) = b
   \<and> list_all (\<lambda>p. p \<noteq> [] \<and> length p \<le> MAX_PACKET_SIZE) (packets_of b)"
  using send_stream_packets packets_of_ok by (auto simp: list_all_iff)

text \<open>Receiving a number of frames, one call after another.\<close>

fun receive_frames ::
  "'h Host \<Rightarrow> FrameCodec \<Rightarrow> nat \<Rightarrow> StreamReceiver \<Rightarrow> 'h \<Rightarrow> (stop + Frame list) \<times> StreamReceiver \<times> 'h" where
  "receive_frames H codec 0 sr h = (Inr [], sr, h)"
| "receive_frames H codec (Suc n) sr h =
     (case StreamReceiver_recv H codec sr h of
        (Inl e, sr1, h1) \<Rightarrow> (Inl e, sr1, h1)
      | (Inr None, sr1, h1) \<Rightarrow> (Inl (Err EndpointClosed), sr1, h1)
      | (Inr (Some f), sr1, h1) \<Rightarrow>
          (case receive_frames H codec n sr1 h1 of
             (Inl e, sr2, h2) \<Rightarrow> (Inl e, sr2, h2)
           | (Inr fs, sr2, h2) \<Rightarrow> (Inr (f # fs), sr2, h2)))"

lemma receive_frames_all:
  assumes "faithful_host H queue" and "lz4_round_trip (lz4_compress H) (lz4_decompress H)"
    and "P \<le> MAX_PACKET_SIZE"
  shows "encode_all (FrameCodec_encode_stream (lz4_compress H) codec) fs = Inr b \<Longrightarrow>
      sr_stream sr @ concat (queue h) = b \<Longrightarrow> length (sr_host_buffer sr) \<le> MAX_PACKET_SIZE \<Longrightarrow>
      \<forall>p\<in>set (queue h). p \<noteq> [] \<and> length p \<le> P \<Longrightarrow>
      \<forall>f\<in>set fs. \<forall>s. FrameCodec_encode_stream (lz4_compress H) codec f = Inr s \<longrightarrow> length s + P \<le> sr_maximum sr \<Longrightarrow>
    \<exists>sr1 h1. receive_frames H codec (length fs) sr h = (Inr fs, sr1, h1) \<and> sr_stream sr1 = [] \<and> concat (queue h1) = []"
proof (induction fs arbitrary: b sr h)
  case (Cons f fs)
  obtain s r where s: "FrameCodec_encode_stream (lz4_compress H) codec f = Inr s"
    and r: "encode_all (FrameCodec_encode_stream (lz4_compress H) codec) fs = Inr r" and b: "b = s @ r"
    using Cons.prems(1) by (auto simp: enc_iff)
  have fits: "length s + P \<le> sr_maximum sr"
    using Cons.prems(5) s by simp
  obtain sr1 h1 where one: "StreamReceiver_recv_until H codec MAX_INSTANT sr h = (Inr (ReceivedFrame f), sr1, h1)"
    and rest: "sr_stream sr1 @ concat (queue h1) = r" "sr_maximum sr1 = sr_maximum sr"
      "length (sr_host_buffer sr1) \<le> MAX_PACKET_SIZE" "set (queue h1) \<subseteq> set (queue h)"
    using recv_until_frame[OF assms(1,2) s fits assms(3) Cons.prems(2)[unfolded b] Cons.prems(3,4)] by blast
  obtain sr2 h2 where "receive_frames H codec (length fs) sr1 h1 = (Inr fs, sr2, h2)"
    "sr_stream sr2 = []" "concat (queue h2) = []"
    using Cons.IH[OF r rest(1,3)] Cons.prems(4,5) rest(2,4) by auto
  with one show ?case
    by (simp add: StreamReceiver_recv_def)
qed simp

text \<open>
  C38: frames arrive whole and in order, however the host cuts the stream into packets.  When a host that
  keeps the contract of the imports has packets queued whose bytes are the encodings of a
  list of frames, a receiver gives back exactly these frames, one for each call, and nothing is left over;
  the packets may split frames anywhere, provided each frame and one more packet fit the buffer.
\<close>

theorem frames_reassembled:
  assumes "faithful_host H queue" and "lz4_round_trip (lz4_compress H) (lz4_decompress H)"
    and "encode_all (FrameCodec_encode_stream (lz4_compress H) codec) fs = Inr (concat (queue h))"
    and "\<forall>p\<in>set (queue h). p \<noteq> [] \<and> length p \<le> P" and "P \<le> MAX_PACKET_SIZE"
    and "\<forall>f\<in>set fs. \<forall>s. FrameCodec_encode_stream (lz4_compress H) codec f = Inr s \<longrightarrow> length s + P \<le> maximum"
  shows "\<exists>sr1 h1. receive_frames H codec (length fs) (StreamReceiver_new maximum) h = (Inr fs, sr1, h1)
    \<and> sr_stream sr1 = [] \<and> concat (queue h1) = []"
  using receive_frames_all[OF assms(1,2,5,3), of "StreamReceiver_new maximum" h] assms(4,6)
  by (simp add: StreamReceiver_new_def INITIAL_BUFFER_def MAX_PACKET_SIZE_def)

text \<open>A host whose state is its mailbox.\<close>

definition mailbox_host :: "bytes list Host" where
  "mailbox_host =
     \<lparr>raw_send = \<lambda>h _. (0, h),
      raw_recv = \<lambda>h n. (case h of [] \<Rightarrow> ((0, []), h)
        | p # ps \<Rightarrow> if length p \<le> n then ((int (length p), p), ps) else ((int (length p), []), h)),
      raw_wait = \<lambda>h _. (if h = [] then 2 else 1, h), raw_clock = \<lambda>h _. (0, h),
      raw_random = \<lambda>h n. (Some (replicate n 0), h), raw_alloc = \<lambda>h _. (True, h),
      lz4_compress = stored, lz4_decompress = unstored\<rparr>"

lemma mailbox_host_faithful: "faithful_host mailbox_host id"
  by (auto simp: faithful_host_def mailbox_host_def)

theorem receiver_bounded_witness:
  "\<exists>r sr1 h1. StreamReceiver_recv_until mailbox_host sample_codec 0 (StreamReceiver_new 2) [[1], [1, 2]] = (r, sr1, h1)
     \<and> length (sr_stream sr1) \<le> 2"
proof -
  obtain r sr1 h1 where
    *: "StreamReceiver_recv_until mailbox_host sample_codec 0 (StreamReceiver_new 2) [[1], [1, 2]] = (r, sr1, h1)"
    by (metis prod_cases3)
  have "sr_maximum (StreamReceiver_new 2) = 2" "sr_stream (StreamReceiver_new 2) = []"
    "length (sr_host_buffer (StreamReceiver_new 2)) \<le> 2"
    by (simp_all add: StreamReceiver_new_def)
  with receiver_bounded[OF *] * show ?thesis
    by auto
qed

theorem frames_reassembled_witness:
  "\<exists>packets sr1 h1. length packets = 2
     \<and> receive_frames mailbox_host sample_codec 1 (StreamReceiver_new 100) packets = (Inr [sample_frame], sr1, h1)"
proof -
  let ?b = "put_u32 (of_nat (length sample_bytes)) @ sample_bytes"
  let ?packets = "[take 3 ?b, drop 3 ?b]"
  have len: "length sample_bytes \<le> 40" "4 \<le> length ?b"
    by (simp_all add: sample_bytes_def)
  have enc: "FrameCodec_encode_stream stored sample_codec sample_frame = Inr ?b"
    using sample_encode len by (simp add: encode_stream_iff)
  have z: "lz4_compress mailbox_host = stored" "lz4_decompress mailbox_host = unstored"
    by (simp_all add: mailbox_host_def)
  have ne: "put_u32 x \<noteq> []" for x
    by (simp flip: length_greater_0_conv)
  have "\<exists>sr1 h1. receive_frames mailbox_host sample_codec (length [sample_frame]) (StreamReceiver_new 100) ?packets
      = (Inr [sample_frame], sr1, h1) \<and> sr_stream sr1 = [] \<and> concat (id h1) = []"
    by (rule frames_reassembled[OF mailbox_host_faithful, of sample_codec _ _ 50])
      (use enc z stored_lz4 len ne in \<open>auto simp: MAX_PACKET_SIZE_def\<close>)
  then show ?thesis
    by (intro exI[of _ ?packets]) auto
qed

end
