(* ===== verification/Guest_Session.thy ===== *)
theory Guest_Session
  imports Guest_Host Guest_Receive Wire_Attempt "HOL-Library.AList"
begin

text \<open>
  A guest session (\<^verbatim>\<open>struct Client\<close> of \<^verbatim>\<open>crates/guest/src/yas.rs\<close>): its state, the housekeeping it does on
  the Core family, the queue of frames it keeps for later, and the requests it has outstanding.  The
  methods of \<^verbatim>\<open>Client\<close> that wait for the host are loops that a host can keep going for ever, so they are
  partial functions: \<open>None\<close> is a call that does not return.
\<close>

section \<open>State\<close>

definition RECEIVE_MAX_FRAME :: u32 where "RECEIVE_MAX_FRAME = RECOMMENDED_WIRE_FRAME"
definition RECEIVE_MAX_DECODED :: u32 where "RECEIVE_MAX_DECODED = RECOMMENDED_DECODED_FRAME"
definition RECEIVE_CREDIT_BUDGET :: u64 where "RECEIVE_CREDIT_BUDGET = RECOMMENDED_BUFFERED"
definition RECEIVE_PENDING_BUDGET :: u64 where "RECEIVE_PENDING_BUDGET = RECOMMENDED_BUFFERED"
definition RECEIVE_MAX_BUFFERED :: u64 where
  "RECEIVE_MAX_BUFFERED = RECEIVE_CREDIT_BUDGET + RECEIVE_PENDING_BUDGET"
definition MAX_PENDING_FRAMES :: nat where "MAX_PENDING_FRAMES = 1024"
definition MAX_PENDING_BYTES :: nat where "MAX_PENDING_BYTES = unat RECEIVE_PENDING_BUDGET"
definition MAX_OUTSTANDING_REQUESTS :: nat where "MAX_OUTSTANDING_REQUESTS = 1024"

text \<open>The largest \<^verbatim>\<open>usize\<close> of the 32-bit target guests are built for.\<close>

definition USIZE_MAX :: nat where "USIZE_MAX = 2 ^ 32 - 1"

definition PING_KIND :: u16 where "PING_KIND = 1"
definition CANCEL_KIND :: u16 where "CANCEL_KIND = 2"
definition GOAWAY_KIND :: u16 where "GOAWAY_KIND = 0"
definition SESSION_UPDATE_KIND :: u16 where "SESSION_UPDATE_KIND = 1"
definition FAMILY_UPDATE_KIND :: u16 where "FAMILY_UPDATE_KIND = 2"

record PendingFrame =
  pf_frame :: Frame
  pf_lease :: Lease

record Client =
  cl_hello :: ServerHello
  cl_context :: AttemptContext
  cl_inbound :: FrameCodec
  cl_outbound :: FrameCodec
  cl_receiver :: StreamReceiver
  cl_next_request_id :: u32
  cl_outstanding :: "(u32 \<times> u16 \<times> u16) list"
  cl_pending :: "PendingFrame list"
  cl_pending_bytes :: nat
  cl_receive_credit :: budget
  cl_receive_pending :: budget
  cl_poisoned :: bool
  cl_negotiated_codecs :: "u16 list"

record RequestToken =
  rt_request_id :: u32
  rt_family :: u16
  rt_kind :: u16

definition RequestToken_matches :: "RequestToken \<Rightarrow> Frame \<Rightarrow> bool" where
  "RequestToken_matches t f \<longleftrightarrow>
     fh_class (fr_header f) = Result \<and> fh_family (fr_header f) = rt_family t
     \<and> fh_kind (fr_header f) = rt_kind t \<and> fh_request_id (fr_header f) = Some (rt_request_id t)"

section \<open>Calls on a session\<close>

text \<open>
  A call takes the session and the host and returns its result with both; \<^verbatim>\<open>?\<close> is \<open>gbind\<close>, and \<open>gloop\<close>
  is \<^verbatim>\<open>loop\<close>, whose body returns \<open>Some\<close> to leave it and \<open>None\<close> to go round again.
\<close>

type_synonym ('h, 'a) guest = "Client \<times> 'h \<Rightarrow> ((stop + 'a) \<times> Client \<times> 'h) option"

definition gret :: "'a \<Rightarrow> ('h, 'a) guest" where
  "gret a s = Some (Inr a, s)"

definition gstop :: "stop \<Rightarrow> ('h, 'a) guest" where
  "gstop e s = Some (Inl e, s)"

definition gbind :: "('h, 'a) guest \<Rightarrow> ('a \<Rightarrow> ('h, 'b) guest) \<Rightarrow> ('h, 'b) guest" where
  "gbind m f s = Option.bind (m s) (\<lambda>(r, t). case r of Inl e \<Rightarrow> Some (Inl e, t) | Inr a \<Rightarrow> f a t)"

text \<open>A method that touches the session only, one that touches the host only.\<close>

definition gclient :: "(Client \<Rightarrow> (stop + 'a) \<times> Client) \<Rightarrow> ('h, 'a) guest" where
  "gclient f s = (case s of (c, h) \<Rightarrow> case f c of (r, c1) \<Rightarrow> Some (r, c1, h))"

definition ghost :: "(Client \<Rightarrow> 'h \<Rightarrow> (stop + 'a) \<times> 'h) \<Rightarrow> ('h, 'a) guest" where
  "ghost f s = (case s of (c, h) \<Rightarrow> case f c h of (r, h1) \<Rightarrow> Some (r, c, h1))"

definition gcheck :: "(Client \<Rightarrow> stop + 'a) \<Rightarrow> ('h, 'a) guest" where
  "gcheck f = gclient (\<lambda>c. (f c, c))"

definition gcatch :: "('h, 'a) guest \<Rightarrow> (GuestError \<Rightarrow> ('h, 'a) guest) \<Rightarrow> ('h, 'a) guest" where
  "gcatch m handler s =
     Option.bind (m s) (\<lambda>(r, t). case r of Inl (Err e) \<Rightarrow> handler e t | _ \<Rightarrow> Some (r, t))"

text \<open>\<^verbatim>\<open>Err(error) => { cleanup; Err(error) }\<close>.\<close>

definition gfinally :: "(Client \<Rightarrow> (stop + unit) \<times> Client) \<Rightarrow> ('h, 'a) guest \<Rightarrow> ('h, 'a) guest" where
  "gfinally cleanup m = gcatch m (\<lambda>e. gbind (gclient cleanup) (\<lambda>_. gstop (Err e)))"

partial_function (option) gloop :: "('h, 'a option) guest \<Rightarrow> ('h, 'a) guest" where
  "gloop body s =
     Option.bind (body s) (\<lambda>(r, t).
       case r of
         Inl e \<Rightarrow> Some (Inl e, t)
       | Inr None \<Rightarrow> gloop body t
       | Inr (Some a) \<Rightarrow> Some (Inr a, t))"

section \<open>Health\<close>

definition poison :: "Client \<Rightarrow> Client" where
  "poison c = c\<lparr>cl_poisoned := True\<rparr>"

definition poisoning :: "Client \<Rightarrow> (stop + unit) \<times> Client" where
  "poisoning c = (Inr (), poison c)"

definition ensure_healthy :: "Client \<Rightarrow> stop + unit" where
  "ensure_healthy c = (if cl_poisoned c then Inl (Err Poisoned) else Inr ())"

definition ensure_read_headroom :: "Client \<Rightarrow> stop + unit" where
  "ensure_read_headroom c =
     ebind (ensure_healthy c) (\<lambda>_.
       if MAX_PENDING_FRAMES \<le> length (cl_pending c)
          \<or> Budget_available (cl_receive_pending c) < ucast RECEIVE_MAX_DECODED
       then Inl (Err PendingReadBlocked) else Inr ())"

section \<open>The catalogue\<close>

definition Client_family :: "Client \<Rightarrow> u16 \<Rightarrow> FamilyDescriptor option" where
  "Client_family c family_id = find (\<lambda>d. fd_family_id d = family_id) (se_families (cl_hello c))"

definition Client_supports :: "Client \<Rightarrow> u16 \<Rightarrow> Class \<Rightarrow> u16 \<Rightarrow> bool" where
  "Client_supports c family_id cls kind =
     (case Client_family c family_id of
        None \<Rightarrow> False
      | Some d \<Rightarrow> (case FamilyDescriptor_operation d cls kind of
          None \<Rightarrow> False
        | Some p \<Rightarrow> (case cls of
            Request \<Rightarrow> opn_server_accepts p
          | Event \<Rightarrow> opn_server_accepts p \<or> opn_server_sends p
          | Result \<Rightarrow> False)))"

definition wire :: "error + 'a \<Rightarrow> stop + 'a" where
  "wire m = (case m of Inl e \<Rightarrow> Inl (Err (WireFailed e)) | Inr a \<Rightarrow> Inr a)"

definition apply_session_update :: "Client \<Rightarrow> bytes \<Rightarrow> stop + Client" where
  "apply_session_update c payload =
     ebind (wire (SessionUpdate_decode payload)) (\<lambda>update.
     ebind (wire (SessionUpdate_validate_after update (se_catalog_revision (cl_hello c))
                    (se_receive (cl_hello c)))) (\<lambda>step.
     if step = Gap then Inl (Err (Protocol ''SESSION_UPDATE catalogue gap''))
     else ebind (wire (FrameCodec_new
                    \<lparr>fl_max_wire_frame = rl_max_frame (su_receive update),
                     fl_max_decoded_frame = rl_max_decoded (su_receive update)\<rparr>
                    (cl_negotiated_codecs c))) (\<lambda>outbound.
       Inr (c\<lparr>cl_outbound := outbound,
              cl_hello := (cl_hello c)\<lparr>se_receive := su_receive update,
                                       se_catalog_revision := su_catalog_revision update\<rparr>\<rparr>))))"

text \<open>\<^verbatim>\<open>*descriptor = value\<close> for the first element that \<^verbatim>\<open>iter_mut().find\<close> returns.\<close>

fun replace_first :: "('a \<Rightarrow> bool) \<Rightarrow> 'a \<Rightarrow> 'a list \<Rightarrow> 'a list" where
  "replace_first P y [] = []"
| "replace_first P y (x # xs) = (if P x then y # xs else x # replace_first P y xs)"

definition apply_family_update :: "Client \<Rightarrow> bytes \<Rightarrow> stop + Client" where
  "apply_family_update c payload =
     ebind (wire (FamilyUpdate_decode payload)) (\<lambda>update.
     case Client_family c (fd_family_id (fu_family update)) of
       None \<Rightarrow> Inl (Err (Protocol ''FAMILY_UPDATE introduced unknown family''))
     | Some descriptor \<Rightarrow>
     ebind (wire (FamilyUpdate_validate_after update (se_catalog_revision (cl_hello c)) descriptor)) (\<lambda>step.
     if step = Gap then Inl (Err (Protocol ''FAMILY_UPDATE catalogue gap''))
     else Inr (c\<lparr>cl_hello := (cl_hello c)
              \<lparr>se_families := replace_first (\<lambda>d. fd_family_id d = fd_family_id (fu_family update))
                                (fu_family update) (se_families (cl_hello c)),
               se_catalog_revision := fu_catalog_revision update\<rparr>\<rparr>)))"

section \<open>The frames kept for later\<close>

text \<open>\<^verbatim>\<open>iter().position\<close>.\<close>

fun position :: "('a \<Rightarrow> bool) \<Rightarrow> 'a list \<Rightarrow> nat option" where
  "position P [] = None"
| "position P (x # xs) = (if P x then Some 0 else map_option Suc (position P xs))"

definition is_outstanding_result :: "Client \<Rightarrow> Frame \<Rightarrow> bool" where
  "is_outstanding_result c f \<longleftrightarrow>
     fh_class (fr_header f) = Result
     \<and> (case fh_request_id (fr_header f) of
          None \<Rightarrow> False
        | Some q \<Rightarrow> map_of (cl_outstanding c) q = Some (fh_family (fr_header f), fh_kind (fr_header f)))"

definition unsolicited :: "Client \<Rightarrow> Frame \<Rightarrow> bool" where
  "unsolicited c f \<longleftrightarrow> fh_class (fr_header f) = Result \<and> \<not> is_outstanding_result c f"

definition reject_unsolicited_result :: "Frame \<Rightarrow> Client \<Rightarrow> (stop + unit) \<times> Client" where
  "reject_unsolicited_result f c =
     (if unsolicited c f then (Inl (Err (Protocol ''unsolicited Result'')), poison c) else (Inr (), c))"

text \<open>
  \<^verbatim>\<open>VecDeque::remove\<close> and the accounting after it; dropping the lease returns its bytes to the budget.
\<close>

definition remove_pending :: "nat \<Rightarrow> Client \<Rightarrow> (stop + Frame option) \<times> Client" where
  "remove_pending i c =
     (if length (cl_pending c) \<le> i then (Inr None, c)
      else let p = cl_pending c ! i;
               leased = unat (ls_bytes (pf_lease p));
               c1 = c\<lparr>cl_pending := drop_nth i (cl_pending c)\<rparr>
           in
      if USIZE_MAX < leased \<or> cl_pending_bytes c < leased then (Inl Panic, c1)
      else (Inr (Some (pf_frame p)),
            c1\<lparr>cl_pending_bytes := cl_pending_bytes c - leased,
               cl_receive_pending := Lease_drop (cl_receive_pending c) (pf_lease p)\<rparr>))"

definition reject_pending_unsolicited_result :: "Client \<Rightarrow> (stop + unit) \<times> Client" where
  "reject_pending_unsolicited_result c =
     (case position (\<lambda>p. unsolicited c (pf_frame p)) (cl_pending c) of
        None \<Rightarrow> (Inr (), c)
      | Some i \<Rightarrow> (case remove_pending i c of
            (Inl e, c1) \<Rightarrow> (Inl e, c1)
          | (Inr _, c1) \<Rightarrow> (Inl (Err (Protocol ''unsolicited Result'')), poison c1)))"

definition defer_frame :: "Frame \<Rightarrow> Client \<Rightarrow> (stop + unit) \<times> Client" where
  "defer_frame f c =
     (case ensure_healthy c of Inl e \<Rightarrow> (Inl e, c) | Inr _ \<Rightarrow>
     (case reject_unsolicited_result f c of (Inl e, c1) \<Rightarrow> (Inl e, c1) | (Inr _, c1) \<Rightarrow>
     let n = cl_pending_bytes c1 + length (fr_payload f) in
     if USIZE_MAX < n then (Inl (Err PendingBufferFull), poison c1)
     else if MAX_PENDING_FRAMES \<le> length (cl_pending c1) \<or> MAX_PENDING_BYTES < n
     then (Inl (Err PendingBufferFull), poison c1)
     else (case Budget_lease_exact (cl_receive_pending c1) (of_nat (length (fr_payload f))) of
         None \<Rightarrow> (Inl Panic, c1)
       | Some (None, _) \<Rightarrow> (Inl (Err PendingBufferFull), poison c1)
       | Some (Some lease, s) \<Rightarrow>
           (Inr (), c1\<lparr>cl_receive_pending := s, cl_pending_bytes := n,
                       cl_pending := cl_pending c1 @ [\<lparr>pf_frame = f, pf_lease = lease\<rparr>]\<rparr>))))"

definition is_transfer_event :: "u32 list \<Rightarrow> Frame \<Rightarrow> bool" where
  "is_transfer_event ids f \<longleftrightarrow>
     fh_class (fr_header f) = Event \<and> fh_family (fr_header f) = FAMILY_TRANSFER
     \<and> 4 \<le> length (fr_payload f) \<and> (from_le (take 4 (fr_payload f)) :: u32) \<in> set ids"

function purge_from :: "u32 list \<Rightarrow> nat \<Rightarrow> Client \<Rightarrow> (stop + unit) \<times> Client" where
  "purge_from ids i c =
     (if length (cl_pending c) \<le> i then (Inr (), c)
      else if is_transfer_event ids (pf_frame (cl_pending c ! i))
      then (case remove_pending i c of
              (Inl e, c1) \<Rightarrow> (Inl e, c1)
            | (Inr _, c1) \<Rightarrow> purge_from ids i c1)
      else purge_from ids (Suc i) c)"
  by pat_completeness auto
termination
  by (relation "measure (\<lambda>(_, i, c). length (cl_pending c) - i)")
    (auto simp: remove_pending_def drop_nth_def Let_def split: if_splits)

declare purge_from.simps [simp del]

definition purge_pending_transfer_ids :: "u32 list \<Rightarrow> Client \<Rightarrow> (stop + unit) \<times> Client" where
  "purge_pending_transfer_ids ids c = purge_from ids 0 c"

section \<open>Sending\<close>

definition send_frame :: "'h Host \<Rightarrow> Frame \<Rightarrow> Client \<Rightarrow> 'h \<Rightarrow> (stop + unit) \<times> 'h" where
  "send_frame H f c h =
     (case ensure_healthy c of Inl e \<Rightarrow> (Inl e, h) | Inr _ \<Rightarrow>
     (case FrameCodec_encode_stream (lz4_compress H) (cl_outbound c) f of
        Inl e \<Rightarrow> (Inl (Err (WireFailed e)), h)
      | Inr b \<Rightarrow> send_stream H h b))"

definition send_event :: "'h Host \<Rightarrow> u16 \<Rightarrow> u16 \<Rightarrow> bytes \<Rightarrow> bool \<Rightarrow> ('h, unit) guest" where
  "send_event H family kind payload sensitive =
     ghost (send_frame H \<lparr>fr_header = (FrameHeader_event family kind)\<lparr>fh_sensitive := sensitive\<rparr>,
                          fr_payload = payload\<rparr>)"

text \<open>\<^verbatim>\<open>send_typed_event\<close>: the event is given by its encoder's result.\<close>

definition send_typed_event :: "'h Host \<Rightarrow> u16 \<Rightarrow> u16 \<Rightarrow> error + bytes \<Rightarrow> bool \<Rightarrow> ('h, unit) guest" where
  "send_typed_event H family kind event sensitive =
     gbind (gcheck (\<lambda>_. wire event)) (\<lambda>payload. send_event H family kind payload sensitive)"

definition send_typed_terminal_cleanup ::
  "'h Host \<Rightarrow> u16 \<Rightarrow> u16 \<Rightarrow> error + bytes \<Rightarrow> bool \<Rightarrow> ('h, unit) guest" where
  "send_typed_terminal_cleanup H family kind event sensitive =
     gbind (gcheck (\<lambda>_. wire event)) (\<lambda>payload.
     gbind (gcheck (\<lambda>c. wire (FrameCodec_encode_stream (lz4_compress H) (cl_outbound c)
              \<lparr>fr_header = (FrameHeader_event family kind)\<lparr>fh_sensitive := sensitive\<rparr>,
               fr_payload = payload\<rparr>))) (\<lambda>b.
       ghost (\<lambda>_ h. send_stream H h b)))"

definition attempt_output :: "'h Host \<Rightarrow> OutputKind \<Rightarrow> bytes \<Rightarrow> ('h, unit) guest" where
  "attempt_output H kind data =
     send_typed_event H FAMILY_EXTENSION ATTEMPT_OUTPUT_KIND
       (AttemptOutput_encode \<lparr>ao_kind = kind, ao_data = data, ao_extensions = []\<rparr>) True"

definition attempt_stdout :: "'h Host \<Rightarrow> bytes \<Rightarrow> ('h, unit) guest" where
  "attempt_stdout H data = attempt_output H Stdout data"

definition attempt_stderr :: "'h Host \<Rightarrow> bytes \<Rightarrow> ('h, unit) guest" where
  "attempt_stderr H data = attempt_output H Stderr data"

definition attempt_log :: "'h Host \<Rightarrow> bytes \<Rightarrow> ('h, unit) guest" where
  "attempt_log H message = attempt_output H OutputLog message"

text \<open>\<^verbatim>\<open>u64::try_from(i64).unwrap_or(default)\<close>.\<close>

definition clock_u64 :: "u64 \<Rightarrow> int \<Rightarrow> u64" where
  "clock_u64 fallback ns = (if ns < 0 then fallback else of_int ns)"

definition answer_ping :: "'h Host \<Rightarrow> Frame \<Rightarrow> Client \<Rightarrow> 'h \<Rightarrow> (stop + unit) \<times> 'h" where
  "answer_ping H f c h =
     (case fh_request_id (fr_header f) of
        None \<Rightarrow> (Inl (Err (Protocol ''PING has no request ID'')), h)
      | Some q \<Rightarrow>
     (case Ping_decode (fr_payload f) of
        Inl e \<Rightarrow> (Inl (Err (WireFailed e)), h)
      | Inr _ \<Rightarrow>
     (case raw_clock H h 1 of (t1, h1) \<Rightarrow>
     (case raw_clock H h1 1 of (t2, h2) \<Rightarrow>
     let receive_ns = clock_u64 0 t1;
         result = \<lparr>pr_receiver_receive_ns = receive_ns,
                   pr_receiver_send_ns = max (clock_u64 receive_ns t2) receive_ns\<rparr>
     in case ebind (PingResult_encode result) (\<lambda>body.
               ResultPrefix_encode \<lparr>rp_status = StOk, rp_detail = [], rp_body = body\<rparr>) of
        Inl e \<Rightarrow> (Inl (Err (WireFailed e)), h2)
      | Inr payload \<Rightarrow>
          send_frame H \<lparr>fr_header = FrameHeader_result FAMILY_CORE PING_KIND q, fr_payload = payload\<rparr> c h2))))"

section \<open>Reading\<close>

definition replaces :: "(Client \<Rightarrow> stop + Client) \<Rightarrow> Client \<Rightarrow> (stop + unit) \<times> Client" where
  "replaces f c = (case f c of Inl e \<Rightarrow> (Inl e, c) | Inr c1 \<Rightarrow> (Inr (), c1))"

text \<open>
  The part of a turn of \<^verbatim>\<open>read_next_until\<close> that looks at a received frame: \<open>None\<close> when the session consumed it,
  the frame itself when it is the caller's.
\<close>

definition service :: "'h Host \<Rightarrow> Frame \<Rightarrow> ('h, Frame option) guest" where
  "service H f =
     (let head = fr_header f in
      if fh_class head = Request \<and> fh_family head = FAMILY_CORE \<and> fh_kind head = PING_KIND
      then gbind (gfinally poisoning (ghost (answer_ping H f))) (\<lambda>_. gret None)
      else if fh_class head = Request
      then gfinally poisoning (gstop (Err (Protocol ''unsupported server Request'')))
      else if fh_class head = Event \<and> fh_family head = FAMILY_CORE
      then if fh_kind head = GOAWAY_KIND
        then gfinally poisoning (gcheck (\<lambda>_. ebind (wire (GoAway_decode (fr_payload f))) (\<lambda>g. Inl (Err (GoingAway g)))))
        else if fh_kind head = SESSION_UPDATE_KIND
        then gbind (gfinally poisoning (gclient (replaces (\<lambda>c. apply_session_update c (fr_payload f))))) (\<lambda>_. gret None)
        else if fh_kind head = FAMILY_UPDATE_KIND
        then gbind (gfinally poisoning (gclient (replaces (\<lambda>c. apply_family_update c (fr_payload f))))) (\<lambda>_. gret None)
        else gret (Some f)
      else gret (Some f))"

definition receive :: "'h Host \<Rightarrow> int \<Rightarrow> ('h, StreamReceive) guest" where
  "receive H deadline s =
     (case s of (c, h) \<Rightarrow>
      case StreamReceiver_recv_until H (cl_inbound c) deadline (cl_receiver c) h of
        (r, sr, h1) \<Rightarrow> Some (r, c\<lparr>cl_receiver := sr\<rparr>, h1))"

text \<open>One turn of the loop; \<open>Some None\<close> leaves it because the deadline passed.\<close>

definition read_turn :: "'h Host \<Rightarrow> int \<Rightarrow> ('h, Frame option option) guest" where
  "read_turn H deadline =
     gbind (gcheck ensure_read_headroom) (\<lambda>_.
     gbind (gfinally poisoning (receive H deadline)) (\<lambda>outcome.
       case outcome of
         ReceivedFrame f \<Rightarrow> gbind (service H f) (\<lambda>r. gret (map_option Some r))
       | ReceiveDeadline \<Rightarrow>
           (if deadline \<noteq> MAX_INSTANT then gret (Some None)
            else gfinally poisoning (gstop (Err EndpointClosed)))
       | ReceiveClosed \<Rightarrow> gfinally poisoning (gstop (Err EndpointClosed))))"

definition read_next_until :: "'h Host \<Rightarrow> int \<Rightarrow> ('h, Frame option) guest" where
  "read_next_until H deadline = gloop (read_turn H deadline)"

section \<open>The invariant of a session\<close>

definition pending_len :: "PendingFrame list \<Rightarrow> nat" where
  "pending_len ps = sum_list (map (\<lambda>p. length (fr_payload (pf_frame p))) ps)"

text \<open>The queue: its length, its bytes and its leases, all accounted for.\<close>

definition pending_ok :: "Client \<Rightarrow> bool" where
  "pending_ok c \<longleftrightarrow>
     length (cl_pending c) \<le> MAX_PENDING_FRAMES
     \<and> cl_pending_bytes c = pending_len (cl_pending c) \<and> cl_pending_bytes c \<le> MAX_PENDING_BYTES
     \<and> (\<forall>p\<in>set (cl_pending c). unat (ls_bytes (pf_lease p)) = length (fr_payload (pf_frame p))
          \<and> \<not> ls_committed (pf_lease p))
     \<and> st_maximum (cl_receive_pending c) = RECEIVE_PENDING_BUDGET
     \<and> unat (st_reserved (cl_receive_pending c)) = cl_pending_bytes c"

abbreviation limits_of :: "ReceiveLimits \<Rightarrow> FrameLimits" where
  "limits_of l \<equiv> \<lparr>fl_max_wire_frame = rl_max_frame l, fl_max_decoded_frame = rl_max_decoded l\<rparr>"

definition client_inv :: "Client \<Rightarrow> bool" where
  "client_inv c \<longleftrightarrow>
     catalog_ok (se_families (cl_hello c))
     \<and> FrameCodec_new (limits_of (se_receive (cl_hello c))) (cl_negotiated_codecs c) = Inr (cl_outbound c)
     \<and> receiver_ok (cl_receiver c)
     \<and> distinct (map fst (cl_outstanding c)) \<and> length (cl_outstanding c) \<le> MAX_OUTSTANDING_REQUESTS
     \<and> pending_ok c
     \<and> st_reserved (cl_receive_credit c) \<le> st_maximum (cl_receive_credit c)"

text \<open>What a call may change: the catalogue only moves forward, and poison stays.\<close>

definition family_keys :: "Client \<Rightarrow> (u16 \<times> u16) list" where
  "family_keys c = map (\<lambda>d. (fd_family_id d, fd_version d)) (se_families (cl_hello c))"

definition forward :: "Client \<Rightarrow> Client \<Rightarrow> bool" where
  "forward c d \<longleftrightarrow>
     (cl_poisoned c \<longrightarrow> cl_poisoned d)
     \<and> family_keys d = family_keys c
     \<and> se_catalog_revision (cl_hello c) \<le> se_catalog_revision (cl_hello d)
     \<and> rl_max_frame (se_receive (cl_hello c)) \<le> rl_max_frame (se_receive (cl_hello d))
     \<and> rl_max_decoded (se_receive (cl_hello c)) \<le> rl_max_decoded (se_receive (cl_hello d))
     \<and> se_session_id (cl_hello d) = se_session_id (cl_hello c) \<and> se_boot_id (cl_hello d) = se_boot_id (cl_hello c)
     \<and> cl_inbound d = cl_inbound c \<and> cl_negotiated_codecs d = cl_negotiated_codecs c
     \<and> cl_context d = cl_context c"

text \<open>Calls that neither lend nor take back receive credit.\<close>

definition advances :: "Client \<Rightarrow> Client \<Rightarrow> bool" where
  "advances c d \<longleftrightarrow> forward c d \<and> cl_receive_credit d = cl_receive_credit c"

lemma gbind_Some_iff:
  "gbind m f s = Some (r, t) \<longleftrightarrow>
     (\<exists>e. m s = Some (Inl e, t) \<and> r = Inl e) \<or> (\<exists>a u. m s = Some (Inr a, u) \<and> f a u = Some (r, t))"
proof (cases "m s")
  case (Some x)
  then show ?thesis
    by (cases x; cases "fst x") (auto simp: gbind_def)
qed (simp add: gbind_def)

lemma gcatch_Some_iff:
  "gcatch m f s = Some (r, t) \<longleftrightarrow>
     (\<exists>e u. m s = Some (Inl (Err e), u) \<and> f e u = Some (r, t))
     \<or> m s = Some (r, t) \<and> (\<forall>e. r \<noteq> Inl (Err e))"
proof (cases "m s")
  case (Some x)
  then show ?thesis
    by (cases x; cases "fst x"; cases "projl (fst x)") (auto simp: gcatch_def)
qed (simp add: gcatch_def)

lemma gloop_Some_iff:
  "gloop body s = Some (r, t) \<longleftrightarrow>
     (\<exists>e. body s = Some (Inl e, t) \<and> r = Inl e) \<or> (\<exists>a. body s = Some (Inr (Some a), t) \<and> r = Inr a)
     \<or> (\<exists>u. body s = Some (Inr None, u) \<and> gloop body u = Some (r, t))"
proof (cases "body s")
  case (Some x)
  then show ?thesis
    by (subst gloop.simps; cases x; cases "fst x"; cases "projr (fst x)") auto
qed (subst gloop.simps; simp)

text \<open>Induction on the turns of a loop that returns.\<close>

lemma gloop_induct [consumes 1, case_names fails leaves again]:
  assumes "gloop body s = Some (r, t)"
    and "\<And>s e t. body s = Some (Inl e, t) \<Longrightarrow> P s (Inl e) t"
    and "\<And>s a t. body s = Some (Inr (Some a), t) \<Longrightarrow> P s (Inr a) t"
    and "\<And>s u r t. body s = Some (Inr None, u) \<Longrightarrow> P u r t \<Longrightarrow> P s r t"
  shows "P s r t"
proof -
  have "body = body \<longrightarrow> P s (fst (r, t)) (snd (r, t))"
  proof (rule gloop.raw_induct[where P = "\<lambda>b s y. b = body \<longrightarrow> P s (fst y) (snd y)", OF _ assms(1)], intro impI)
    fix loop b s y
    assume IH: "\<And>b s y. loop b s = Some y \<Longrightarrow> b = body \<longrightarrow> P s (fst y) (snd y)"
      and step: "Option.bind (b s) (\<lambda>(r, t). case r of Inl e \<Rightarrow> Some (Inl e, t) | Inr None \<Rightarrow> loop b t
          | Inr (Some a) \<Rightarrow> Some (Inr a, t)) = Some y" and "b = body"
    then obtain r u where b: "body s = Some (r, u)"
      by (auto simp: bind_eq_Some_conv)
    show "P s (fst y) (snd y)"
    proof (cases r)
      case (Inl e)
      then show ?thesis
        using step b assms(2)[of s e u] \<open>b = body\<close> by (cases y) simp
    next
      case (Inr x)
      then show ?thesis
        using step b assms(3)[of s _ u] assms(4)[of s u "fst y" "snd y"] IH[of body u y] \<open>b = body\<close>
        by (cases x; cases y) simp_all
    qed
  qed
  then show ?thesis
    by simp
qed

text \<open>
  Calls and the parts they are made of, over any relation that composes: from a session in good order a call
  leaves one in good order, related to the first, and does not panic.
\<close>

definition client_ok :: "(Client \<Rightarrow> Client \<Rightarrow> bool) \<Rightarrow> (Client \<Rightarrow> (stop + 'a) \<times> Client) \<Rightarrow> bool" where
  "client_ok R f \<longleftrightarrow> (\<forall>c r d. f c = (r, d) \<longrightarrow> client_inv c \<longrightarrow> client_inv d \<and> R c d \<and> r \<noteq> Inl Panic)"

definition run_ok :: "(Client \<Rightarrow> Client \<Rightarrow> bool) \<Rightarrow> ('h, 'a) guest \<Rightarrow> bool" where
  "run_ok R m \<longleftrightarrow> (\<forall>s r t. m s = Some (r, t) \<longrightarrow> client_inv (fst s) \<longrightarrow>
     client_inv (fst t) \<and> R (fst s) (fst t) \<and> r \<noteq> Inl Panic)"

lemma client_okI:
  "(\<And>c r d. f c = (r, d) \<Longrightarrow> client_inv c \<Longrightarrow> client_inv d \<and> R c d \<and> r \<noteq> Inl Panic) \<Longrightarrow> client_ok R f"
  unfolding client_ok_def by blast

lemma client_okD: "client_ok R f \<Longrightarrow> f c = (r, d) \<Longrightarrow> client_inv c \<Longrightarrow> client_inv d \<and> R c d \<and> r \<noteq> Inl Panic"
  unfolding client_ok_def by blast

lemma run_okI:
  "(\<And>s r t. m s = Some (r, t) \<Longrightarrow> client_inv (fst s) \<Longrightarrow> client_inv (fst t) \<and> R (fst s) (fst t) \<and> r \<noteq> Inl Panic)
    \<Longrightarrow> run_ok R m"
  unfolding run_ok_def by blast

lemma run_okD:
  "run_ok R m \<Longrightarrow> m s = Some (r, t) \<Longrightarrow> client_inv (fst s) \<Longrightarrow>
     client_inv (fst t) \<and> R (fst s) (fst t) \<and> r \<noteq> Inl Panic"
  unfolding run_ok_def by blast

lemma run_ok_client: "client_ok R f \<Longrightarrow> run_ok R (gclient f)"
  by (rule run_okI) (auto simp: gclient_def split: prod.splits dest: client_okD)

named_theorems run_ok \<open>calls that keep a session in good order\<close>

locale session_relation =
  fixes R :: "Client \<Rightarrow> Client \<Rightarrow> bool"
  assumes R_refl: "R c c"
    and R_trans: "R c d \<Longrightarrow> R d e \<Longrightarrow> R c e"
begin

lemma ret [run_ok]: "run_ok R (gret a)"
  by (rule run_okI) (auto simp: gret_def R_refl)

lemma gstop_ok [run_ok]: "run_ok R (gstop (Err e))"
  by (rule run_okI) (auto simp: gstop_def R_refl)

lemma bind [run_ok]: "run_ok R m \<Longrightarrow> (\<And>a. run_ok R (f a)) \<Longrightarrow> run_ok R (gbind m f)"
  by (rule run_okI) (auto simp only: gbind_Some_iff dest!: run_okD intro: R_trans)

lemma catch [run_ok]: "run_ok R m \<Longrightarrow> (\<And>e. run_ok R (f e)) \<Longrightarrow> run_ok R (gcatch m f)"
  by (rule run_okI) (auto simp only: gcatch_Some_iff dest!: run_okD intro: R_trans)

lemma host [run_ok]: "(\<And>c h. fst (f c h) \<noteq> Inl Panic) \<Longrightarrow> run_ok R (ghost f)"
  by (rule run_okI) (auto simp: ghost_def R_refl split: prod.splits, metis fst_conv)

lemma check [run_ok]: "(\<And>c. f c \<noteq> Inl Panic) \<Longrightarrow> run_ok R (gcheck f)"
  unfolding gcheck_def by (intro run_ok_client client_okI) (auto simp: R_refl)

lemma cleanup [run_ok]: "client_ok R f \<Longrightarrow> run_ok R m \<Longrightarrow> run_ok R (gfinally f m)"
  unfolding gfinally_def by (intro catch bind run_ok_client gstop_ok)

lemma loop [run_ok]:
  assumes "run_ok R body"
  shows "run_ok R (gloop body)"
proof (rule run_okI)
  fix s r t
  assume "gloop body s = Some (r, t)" and "client_inv (fst s)"
  then show "client_inv (fst t) \<and> R (fst s) (fst t) \<and> r \<noteq> Inl Panic"
  proof (induction rule: gloop_induct)
    case (again s u r t)
    then show ?case
      using run_okD[OF assms again(1)] R_trans by blast
  qed (use run_okD[OF assms] in blast)+
qed

lemma option_case [run_ok]:
  "run_ok R m \<Longrightarrow> (\<And>a. run_ok R (f a)) \<Longrightarrow> run_ok R (case x of None \<Rightarrow> m | Some a \<Rightarrow> f a)"
  by (auto split: option.splits)

lemma if_case [run_ok]: "run_ok R m \<Longrightarrow> run_ok R n \<Longrightarrow> run_ok R (if P then m else n)"
  by simp

end

section \<open>Every part of a call keeps the session in good order\<close>

lemma advances_refl: "advances c c"
  by (simp add: advances_def forward_def)

lemma advances_trans: "advances c d \<Longrightarrow> advances d e \<Longrightarrow> advances c e"
  by (auto simp: advances_def forward_def intro: order_trans)

interpretation adv: session_relation advances
  by unfold_locales (rule advances_refl, rule advances_trans)

lemma poison_ok: "client_inv c \<Longrightarrow> client_inv (poison c) \<and> advances c (poison c)"
  by (simp add: poison_def client_inv_def pending_ok_def advances_def forward_def family_keys_def)

lemma poisoning_ok [run_ok]: "client_ok advances poisoning"
  by (rule client_okI) (auto simp: poisoning_def poison_ok)

lemma wire_no_panic [simp]: "wire m \<noteq> Inl Panic"
  by (cases m) (simp_all add: wire_def)

lemma wire_Inr_iff: "wire m = Inr a \<longleftrightarrow> m = Inr a"
  by (cases m) (simp_all add: wire_def)

lemma ebind_no_panic: "m \<noteq> Inl Panic \<Longrightarrow> (\<And>a. f a \<noteq> Inl Panic) \<Longrightarrow> ebind m f \<noteq> Inl Panic"
  by (cases m) auto

lemma ensure_no_panic [simp]: "ensure_healthy c \<noteq> Inl Panic" "ensure_read_headroom c \<noteq> Inl Panic"
  by (auto simp: ensure_read_headroom_def ensure_healthy_def)

subsection \<open>The catalogue\<close>

lemma not_Gap [simp]: "x \<noteq> Gap \<longleftrightarrow> x = Contiguous"
  by (cases x) simp_all

lemma catalog_step_Contiguous:
  "catalog_step current incoming = Inr Contiguous \<longleftrightarrow> unat incoming = unat current + 1"
  by (auto simp: catalog_step_def checked_add_Some_iff word_le_nat_alt split: if_splits)

lemma apply_session_update_iff:
  "apply_session_update c payload = Inr d \<longleftrightarrow>
     (\<exists>u outbound. SessionUpdate_decode payload = Inr u
        \<and> SessionUpdate_validate_after u (se_catalog_revision (cl_hello c)) (se_receive (cl_hello c)) = Inr Contiguous
        \<and> FrameCodec_new (limits_of (su_receive u)) (cl_negotiated_codecs c) = Inr outbound
        \<and> d = c\<lparr>cl_outbound := outbound,
                cl_hello := (cl_hello c)\<lparr>se_receive := su_receive u, se_catalog_revision := su_catalog_revision u\<rparr>\<rparr>)"
  unfolding apply_session_update_def by (auto simp: enc_iff wire_Inr_iff)

lemma apply_session_update_ok:
  assumes "apply_session_update c payload = Inr d" and "client_inv c"
  shows "client_inv d \<and> advances c d"
proof -
  obtain u outbound where
    u: "SessionUpdate_validate_after u (se_catalog_revision (cl_hello c)) (se_receive (cl_hello c)) = Inr Contiguous"
    and out: "FrameCodec_new (limits_of (su_receive u)) (cl_negotiated_codecs c) = Inr outbound"
    and d: "d = c\<lparr>cl_outbound := outbound,
                cl_hello := (cl_hello c)\<lparr>se_receive := su_receive u, se_catalog_revision := su_catalog_revision u\<rparr>\<rparr>"
    using assms(1) by (auto simp: apply_session_update_iff)
  have "unat (su_catalog_revision u) = unat (se_catalog_revision (cl_hello c)) + 1"
    "rl_max_frame (se_receive (cl_hello c)) \<le> rl_max_frame (su_receive u)"
    "rl_max_decoded (se_receive (cl_hello c)) \<le> rl_max_decoded (su_receive u)"
    using u by (auto simp: SessionUpdate_validate_after_def ReceiveLimits_validate_update_from_def enc_iff
        catalog_step_Contiguous not_less)
  then show ?thesis
    using assms(2) out by (simp add: d client_inv_def pending_ok_def advances_def forward_def family_keys_def word_le_nat_alt)
qed

text \<open>A list keeps the keys of its elements when the element that is replaced has the key of the new one.\<close>

lemma replace_first_keys:
  "find P xs = Some x \<Longrightarrow> key x = key y \<Longrightarrow> map key (replace_first P y xs) = map key xs"
  by (induction xs) (auto split: if_splits)

lemma replace_first_set: "set (replace_first P y xs) \<subseteq> insert y (set xs)"
  by (induction xs) auto

lemma catalog_ok_keys:
  assumes "catalog_ok fs" and keys: "map (\<lambda>d. (fd_family_id d, fd_version d)) gs = map (\<lambda>d. (fd_family_id d, fd_version d)) fs"
    and "\<And>d. d \<in> set gs \<Longrightarrow> FamilyDescriptor_validate d = Inr ()"
  shows "catalog_ok gs"
proof -
  have ids: "map fd_family_id gs = map fd_family_id fs"
    using arg_cong[OF keys, of "map fst"] by (simp add: comp_def)
  have "sorted_wrt (<) (map fd_family_id gs)"
    using assms(1) unfolding ids by (simp add: catalog_ok_def sorted_wrt_map)
  moreover have "\<exists>e\<in>set fs. fd_family_id e = fd_family_id d \<and> fd_version e = fd_version d" if "d \<in> set gs" for d
    using imageI[OF that, of "\<lambda>d. (fd_family_id d, fd_version d)"] arg_cong[OF keys, of set] by auto
  moreover have "fd_family_id ` set gs = fd_family_id ` set fs"
    using arg_cong[OF ids, of set] by simp
  moreover have "gs \<noteq> []" "fd_family_id (hd gs) = fd_family_id (hd fs)" "fd_version (hd gs) = fd_version (hd fs)"
    using keys assms(1) by (cases gs; cases fs; auto simp: catalog_ok_def)+
  ultimately show ?thesis
    using assms(1,3) unfolding catalog_ok_def sorted_wrt_map by metis
qed

lemma apply_family_update_iff:
  "apply_family_update c payload = Inr d \<longleftrightarrow>
     (\<exists>u x. FamilyUpdate_decode payload = Inr u
        \<and> find (\<lambda>d. fd_family_id d = fd_family_id (fu_family u)) (se_families (cl_hello c)) = Some x
        \<and> FamilyUpdate_validate_after u (se_catalog_revision (cl_hello c)) x = Inr Contiguous
        \<and> d = c\<lparr>cl_hello := (cl_hello c)
              \<lparr>se_families := replace_first (\<lambda>d. fd_family_id d = fd_family_id (fu_family u))
                                (fu_family u) (se_families (cl_hello c)),
               se_catalog_revision := fu_catalog_revision u\<rparr>\<rparr>)"
  unfolding apply_family_update_def Client_family_def
  by (auto simp: enc_iff wire_Inr_iff split: option.splits)

lemma apply_family_update_ok:
  assumes "apply_family_update c payload = Inr d" and "client_inv c"
  shows "client_inv d \<and> advances c d"
proof -
  obtain u x where x: "find (\<lambda>d. fd_family_id d = fd_family_id (fu_family u)) (se_families (cl_hello c)) = Some x"
    and u: "FamilyUpdate_validate_after u (se_catalog_revision (cl_hello c)) x = Inr Contiguous"
    and d: "d = c\<lparr>cl_hello := (cl_hello c)
              \<lparr>se_families := replace_first (\<lambda>d. fd_family_id d = fd_family_id (fu_family u))
                                (fu_family u) (se_families (cl_hello c)),
               se_catalog_revision := fu_catalog_revision u\<rparr>\<rparr>"
    using assms(1) unfolding apply_family_update_iff by blast
  have u': "FamilyDescriptor_validate (fu_family u) = Inr ()"
    "fd_family_id x = fd_family_id (fu_family u)" "fd_version x = fd_version (fu_family u)"
    "unat (fu_catalog_revision u) = unat (se_catalog_revision (cl_hello c)) + 1"
    using u by (auto simp: FamilyUpdate_validate_after_def enc_iff catalog_step_Contiguous)
  have keys: "family_keys d = family_keys c"
    using u' replace_first_keys[OF x, of "\<lambda>d. (fd_family_id d, fd_version d)" "fu_family u"]
    by (simp add: family_keys_def d)
  have "FamilyDescriptor_validate e = Inr ()" if "e \<in> set (se_families (cl_hello d))" for e
    using that u'(1) assms(2)
      replace_first_set[of "\<lambda>d. fd_family_id d = fd_family_id (fu_family u)" "fu_family u" "se_families (cl_hello c)"]
    by (auto simp: d client_inv_def catalog_ok_def)
  then have "catalog_ok (se_families (cl_hello d))"
    using assms(2) catalog_ok_keys[OF _ keys[unfolded family_keys_def]] by (simp add: client_inv_def)
  then show ?thesis
    using assms(2) keys u'(4)
    by (simp add: d client_inv_def pending_ok_def advances_def forward_def family_keys_def word_le_nat_alt)
qed

subsection \<open>The queue\<close>

lemma pending_len_simps [simp]:
  "pending_len [] = 0" "pending_len (p # ps) = length (fr_payload (pf_frame p)) + pending_len ps"
  "pending_len (ps @ qs) = pending_len ps + pending_len qs"
  by (simp_all add: pending_len_def)

lemma pending_len_split:
  "i < length ps \<Longrightarrow> pending_len ps = pending_len (drop_nth i ps) + length (fr_payload (pf_frame (ps ! i)))"
  by (subst id_take_nth_drop[of i ps]) (simp_all add: drop_nth_def)

lemma set_drop_nth: "set (drop_nth i xs) \<subseteq> set xs"
  by (auto simp: drop_nth_def dest: in_set_takeD in_set_dropD)

lemma length_drop_nth: "i < length xs \<Longrightarrow> length (drop_nth i xs) = length xs - 1"
  by (simp add: drop_nth_def)

lemma MAX_PENDING_BYTES_value: "MAX_PENDING_BYTES = 16777216"
  by (simp add: MAX_PENDING_BYTES_def RECEIVE_PENDING_BUDGET_def RECOMMENDED_BUFFERED_def)

text \<open>Removing a frame succeeds, and only the queue and its accounting change.\<close>

definition only_queue :: "Client \<Rightarrow> Client \<Rightarrow> bool" where
  "only_queue c d \<longleftrightarrow> d = c\<lparr>cl_pending := cl_pending d, cl_pending_bytes := cl_pending_bytes d,
     cl_receive_pending := cl_receive_pending d\<rparr>"

lemma only_queue_advances: "only_queue c d \<Longrightarrow> advances c d"
  unfolding only_queue_def by (cases c; cases d) (simp add: advances_def forward_def family_keys_def)

lemma only_queue_inv: "only_queue c d \<Longrightarrow> client_inv c \<Longrightarrow> pending_ok d \<Longrightarrow> client_inv d"
  unfolding only_queue_def by (cases c; cases d) (simp add: client_inv_def)

lemma remove_pending_some:
  assumes "pending_ok c" and "i < length (cl_pending c)"
  obtains d where "remove_pending i c = (Inr (Some (pf_frame (cl_pending c ! i))), d)"
    "pending_ok d" "only_queue c d" "cl_pending d = drop_nth i (cl_pending c)"
proof -
  let ?p = "cl_pending c ! i"
  have p: "unat (ls_bytes (pf_lease ?p)) = length (fr_payload (pf_frame ?p))" "\<not> ls_committed (pf_lease ?p)"
    using assms by (auto simp: pending_ok_def)
  have total: "cl_pending_bytes c = pending_len (drop_nth i (cl_pending c)) + unat (ls_bytes (pf_lease ?p))"
    using assms pending_len_split[OF assms(2)] p(1) by (simp add: pending_ok_def)
  let ?d = "c\<lparr>cl_pending := drop_nth i (cl_pending c),
      cl_pending_bytes := cl_pending_bytes c - unat (ls_bytes (pf_lease ?p)),
      cl_receive_pending := Lease_drop (cl_receive_pending c) (pf_lease ?p)\<rparr>"
  have drop: "gives_back (cl_receive_pending c) (pf_lease ?p) (Lease_release (cl_receive_pending c) (pf_lease ?p))"
    using assms(1) total by (intro gives_back_ops) (simp add: pending_ok_def word_le_nat_alt)
  have "pending_ok ?d"
    using assms total p(2) drop Lease_release_all[of "cl_receive_pending c" "pf_lease ?p"]
      set_drop_nth[of i "cl_pending c"] length_drop_nth[OF assms(2)]
    by (auto simp: pending_ok_def Lease_drop_def gives_back_def)
  moreover have "remove_pending i c = (Inr (Some (pf_frame ?p)), ?d)"
    using assms total by (auto simp: remove_pending_def Let_def pending_ok_def MAX_PENDING_BYTES_value USIZE_MAX_def)
  ultimately show thesis
    by (intro that[of ?d]) (simp_all add: only_queue_def)
qed

lemma remove_pending_none: "length (cl_pending c) \<le> i \<Longrightarrow> remove_pending i c = (Inr None, c)"
  by (simp add: remove_pending_def)

lemma pending_of_inv: "client_inv c \<Longrightarrow> pending_ok c"
  by (simp add: client_inv_def)

lemma remove_pending_ok [run_ok]: "client_ok advances (remove_pending i)"
proof (rule client_okI)
  fix c r d
  assume rem: "remove_pending i c = (r, d)" and inv: "client_inv c"
  show "client_inv d \<and> advances c d \<and> r \<noteq> Inl Panic"
  proof (cases "i < length (cl_pending c)")
    case True
    obtain e where e: "remove_pending i c = (Inr (Some (pf_frame (cl_pending c ! i))), e)" "pending_ok e" "only_queue c e"
      using remove_pending_some[OF pending_of_inv[OF inv] True] by blast
    then have "r = Inr (Some (pf_frame (cl_pending c ! i)))" "d = e"
      using rem by simp_all
    then show ?thesis
      using e(2,3) only_queue_inv[OF _ inv] only_queue_advances by simp
  next
    case False
    then show ?thesis
      using rem inv by (auto simp: remove_pending_none advances_refl not_less)
  qed
qed

lemma reject_unsolicited_ok [run_ok]: "client_ok advances (reject_unsolicited_result f)"
  by (rule client_okI) (auto simp: reject_unsolicited_result_def poison_ok advances_refl split: if_splits)

lemma reject_pending_ok [run_ok]: "client_ok advances reject_pending_unsolicited_result"
proof (rule client_okI)
  fix c r d
  assume rej: "reject_pending_unsolicited_result c = (r, d)" and inv: "client_inv c"
  show "client_inv d \<and> advances c d \<and> r \<noteq> Inl Panic"
  proof (cases "position (\<lambda>p. unsolicited c (pf_frame p)) (cl_pending c)")
    case None
    then show ?thesis
      using rej inv by (auto simp: reject_pending_unsolicited_result_def advances_refl)
  next
    case (Some i)
    obtain q e where e: "remove_pending i c = (q, e)"
      by (cases "remove_pending i c")
    have "client_inv e" "advances c e" "q \<noteq> Inl Panic"
      using client_okD[OF remove_pending_ok e inv] by auto
    then show ?thesis
      using rej e Some poison_ok advances_trans
      by (auto simp: reject_pending_unsolicited_result_def split: sum.splits)
  qed
qed

lemma defer_frame_ok [run_ok]: "client_ok advances (defer_frame f)"
proof (rule client_okI)
  fix c r d
  assume def: "defer_frame f c = (r, d)" and inv: "client_inv c"
  let ?n = "cl_pending_bytes c + length (fr_payload f)" and ?w = "of_nat (length (fr_payload f)) :: u64"
  show "client_inv d \<and> advances c d \<and> r \<noteq> Inl Panic"
  proof (cases "\<not> cl_poisoned c \<and> \<not> unsolicited c f \<and> ?n \<le> MAX_PENDING_BYTES \<and> length (cl_pending c) < MAX_PENDING_FRAMES
      \<and> ?w \<le> Budget_available (cl_receive_pending c)")
    case True
    then have w: "unat ?w = length (fr_payload f)"
      by (simp add: MAX_PENDING_BYTES_value unat_of_nat)
    have "st_reserved (cl_receive_pending c) \<le> st_maximum (cl_receive_pending c)"
      using pending_of_inv[OF inv] by (auto simp: pending_ok_def word_le_nat_alt MAX_PENDING_BYTES_def)
    then obtain s where s: "Budget_reserve (cl_receive_pending c) ?w = Some s"
      "st_maximum s = st_maximum (cl_receive_pending c)" "unat (st_reserved s) = unat (st_reserved (cl_receive_pending c)) + unat ?w"
      using Budget_reserve_ok True by fastforce
    then have "Budget_lease_exact (cl_receive_pending c) ?w = Some (Some \<lparr>ls_bytes = ?w, ls_committed = False\<rparr>, s)"
      using True by (simp add: Budget_lease_exact_def leD)
    then have d: "r = Inr ()" "d = c\<lparr>cl_receive_pending := s, cl_pending_bytes := ?n,
        cl_pending := cl_pending c @ [\<lparr>pf_frame = f, pf_lease = \<lparr>ls_bytes = ?w, ls_committed = False\<rparr>\<rparr>]\<rparr>"
      using def True by (auto simp: defer_frame_def ensure_healthy_def reject_unsolicited_result_def Let_def
          MAX_PENDING_BYTES_value USIZE_MAX_def)
    have "pending_ok d"
      using pending_of_inv[OF inv] True s w by (auto simp: d pending_ok_def)
    moreover have "only_queue c d"
      by (simp add: only_queue_def d)
    ultimately show ?thesis
      using d(1) only_queue_inv[OF _ inv] only_queue_advances by simp
  next
    case False
    then show ?thesis
      using def inv poison_ok advances_refl
      by (auto simp: defer_frame_def ensure_healthy_def reject_unsolicited_result_def Let_def
          Budget_lease_exact_def not_le split: if_splits)
  qed
qed

lemma purge_from_ok: "client_ok advances (purge_from ids i)"
proof (rule client_okI)
  fix c r d
  assume "purge_from ids i c = (r, d)" and "client_inv c"
  then show "client_inv d \<and> advances c d \<and> r \<noteq> Inl Panic"
  proof (induction ids i c rule: purge_from.induct)
    case (1 ids i c)
    obtain q e where e: "remove_pending i c = (q, e)"
      by (cases "remove_pending i c")
    have ok: "client_inv e" "advances c e" "q \<noteq> Inl Panic"
      using client_okD[OF remove_pending_ok e "1.prems"(2)] by auto
    show ?case
    proof (cases "i < length (cl_pending c) \<and> is_transfer_event ids (pf_frame (cl_pending c ! i))")
      case True
      then show ?thesis
        using "1.prems"(1)[unfolded purge_from.simps[of ids i c]] "1.IH"(1)[OF _ _ e[symmetric]] ok advances_trans
        by (cases q) (auto simp: e)
    next
      case False
      then show ?thesis
        using "1.prems"[unfolded purge_from.simps[of ids i c]] "1.IH"(2) by (auto simp: advances_refl split: if_splits)
    qed
  qed
qed

lemma purge_pending_ok [run_ok]: "client_ok advances (purge_pending_transfer_ids ids)"
  using purge_from_ok[of ids 0] by (simp add: client_ok_def purge_pending_transfer_ids_def)

subsection \<open>Sending and reading\<close>

lemma send_packets_no_panic: "fst (send_packets H h ps) \<noteq> Inl Panic"
  by (induction ps arbitrary: h) (auto split: prod.splits)

lemma send_stream_no_panic: "fst (send_stream H h b) \<noteq> Inl Panic"
  by (simp add: send_stream_packets send_packets_no_panic)

lemma send_frame_no_panic: "fst (send_frame H f c h) \<noteq> Inl Panic"
  by (auto simp: send_frame_def ensure_healthy_def send_stream_no_panic split: sum.splits)

lemma answer_ping_no_panic: "fst (answer_ping H f c h) \<noteq> Inl Panic"
  by (auto simp: answer_ping_def Let_def send_frame_no_panic split: option.splits sum.splits prod.splits)

lemmas no_panic = send_stream_no_panic send_frame_no_panic answer_ping_no_panic

lemma recv_chunk_no_panic: "fst (recv_chunk H maximum h buffer) \<noteq> Inl Panic"
proof (induction H maximum h buffer rule: recv_chunk.induct)
  case (1 H maximum h buffer)
  obtain r0 buffer0 h0 where r0: "host_recv H h buffer = (r0, buffer0, h0)"
    by (cases "host_recv H h buffer")
  then show ?case
    using "1.IH"[OF r0[symmetric] refl]
    by (auto simp: recv_chunk.simps[of H maximum h buffer] r0
        split: sum.splits RecvOutcome.splits if_splits prod.splits bool.splits)
qed

lemma recv_until_no_panic:
  "StreamReceiver_recv_until H codec deadline sr h = (r, sr1, h1) \<Longrightarrow> r \<noteq> Inl Panic"
proof (induction "sr_maximum sr - length (sr_stream sr)" arbitrary: sr h rule: less_induct)
  case less
  from less.prems show ?case
  proof (cases rule: recv_until_cases)
    case (buffered e)
    then show ?thesis
      by (auto simp: buffered_frame_def Let_def split: if_splits sum.splits)
  next
    case (refused h0 c buffer h2)
    then show ?thesis
      using recv_chunk_no_panic[of H "sr_maximum sr" h0 "sr_host_buffer sr"] by auto
  next
    case (more h0 chunk buffer h2 h3)
    have "chunk \<noteq> []"
      using recv_chunk_nonempty[OF more(2)] .
    then show ?thesis
      using less.hyps[OF _ more(5)] more(4) by (simp add: neq_Nil_conv) fastforce
  qed simp_all
qed

lemma receive_ok [run_ok]: "run_ok advances (receive H deadline)"
proof (rule run_okI)
  fix s r t
  assume rec: "receive H deadline s = Some (r, t)" and inv: "client_inv (fst s)"
  obtain sr h where recv: "StreamReceiver_recv_until H (cl_inbound (fst s)) deadline (cl_receiver (fst s)) (snd s) = (r, sr, h)"
    and t: "fst t = (fst s)\<lparr>cl_receiver := sr\<rparr>"
    using rec by (auto simp: receive_def split: prod.splits)
  then show "client_inv (fst t) \<and> advances (fst s) (fst t) \<and> r \<noteq> Inl Panic"
    using recv_until_ok[OF _ recv] recv_until_no_panic[OF recv] inv
    by (simp add: client_inv_def pending_ok_def advances_def forward_def family_keys_def)
qed

lemma replaces_ok:
  assumes "\<And>c d. f c = Inr d \<Longrightarrow> client_inv c \<Longrightarrow> client_inv d \<and> advances c d" and "\<And>c. f c \<noteq> Inl Panic"
  shows "client_ok advances (replaces f)"
proof (rule client_okI)
  fix c r d
  assume "replaces f c = (r, d)" and "client_inv c"
  then show "client_inv d \<and> advances c d \<and> r \<noteq> Inl Panic"
    using assms(1)[of c d] assms(2)[of c] by (auto simp: replaces_def advances_refl split: sum.splits)
qed

lemma apply_updates_no_panic: "apply_session_update c payload \<noteq> Inl Panic" "apply_family_update c payload \<noteq> Inl Panic"
  unfolding apply_session_update_def apply_family_update_def
  by (intro ebind_no_panic; simp add: ebind_no_panic)
    (intro ebind_no_panic; simp add: ebind_no_panic split: option.splits)

lemma apply_updates_ok [run_ok]:
  "client_ok advances (replaces (\<lambda>c. apply_session_update c payload))"
  "client_ok advances (replaces (\<lambda>c. apply_family_update c payload))"
  using apply_session_update_ok apply_family_update_ok apply_updates_no_panic by (intro replaces_ok; blast)+

lemma service_ok [run_ok]: "run_ok advances (service H f)"
  unfolding service_def Let_def
  by (intro run_ok run_ok_client) (simp_all add: no_panic ebind_no_panic)

lemma read_next_until_ok [run_ok]: "run_ok advances (read_next_until H deadline)"
  unfolding read_next_until_def read_turn_def
  by (intro run_ok) (auto split: StreamReceive.splits intro!: run_ok)

end
