(* ===== verification/Guest_Requests.thy ===== *)
theory Guest_Requests
  imports Guest_Session
begin

text \<open>
  Requests and readers of a guest session (\<^verbatim>\<open>impl Client\<close> of \<^verbatim>\<open>crates/guest/src/yas.rs\<close>): allocation of
  request ids, correlation of Results, cancellation, requests that lend receive credit, the calls that
  wait for events and frames, and the bootstrap that negotiates the session.
\<close>

section \<open>Request ids\<close>

definition allocate_request_id :: "Client \<Rightarrow> u32 \<times> Client" where
  "allocate_request_id c =
     (let id = cl_next_request_id c OR 1;
          next = id + 2
      in (id, c\<lparr>cl_next_request_id := if next = 0 then 3 else next\<rparr>))"

fun find_request_id :: "nat \<Rightarrow> Client \<Rightarrow> (stop + u32) \<times> Client" where
  "find_request_id 0 c = (Inl (Err TooManyOutstandingRequests), c)"
| "find_request_id (Suc n) c =
     (case allocate_request_id c of (q, c1) \<Rightarrow>
        if map_of (cl_outstanding c1) q = None then (Inr q, c1) else find_request_id n c1)"

definition allocate_available_request_id :: "Client \<Rightarrow> (stop + u32) \<times> Client" where
  "allocate_available_request_id c =
     (if MAX_OUTSTANDING_REQUESTS \<le> length (cl_outstanding c)
      then (Inl (Err TooManyOutstandingRequests), c)
      else find_request_id (Suc MAX_OUTSTANDING_REQUESTS) c)"

section \<open>Requests\<close>

definition set_outstanding :: "RequestToken \<Rightarrow> Client \<Rightarrow> Client" where
  "set_outstanding t c =
     c\<lparr>cl_outstanding := AList.update (rt_request_id t) (rt_family t, rt_kind t) (cl_outstanding c)\<rparr>"

definition clear_outstanding :: "u32 \<Rightarrow> Client \<Rightarrow> Client" where
  "clear_outstanding q c = c\<lparr>cl_outstanding := AList.delete q (cl_outstanding c)\<rparr>"

definition allocate_token :: "u16 \<Rightarrow> u16 \<Rightarrow> Client \<Rightarrow> (stop + RequestToken) \<times> Client" where
  "allocate_token family kind c =
     (case allocate_available_request_id c of
        (Inl e, c1) \<Rightarrow> (Inl e, c1)
      | (Inr q, c1) \<Rightarrow>
          let token = \<lparr>rt_request_id = q, rt_family = family, rt_kind = kind\<rparr>
          in (Inr token, set_outstanding token c1))"

definition begin_request :: "'h Host \<Rightarrow> u16 \<Rightarrow> u16 \<Rightarrow> bytes \<Rightarrow> bool \<Rightarrow> ('h, RequestToken) guest" where
  "begin_request H family kind payload sensitive =
     gbind (gcheck ensure_read_headroom) (\<lambda>_.
     gbind (gclient (allocate_token family kind)) (\<lambda>token.
     let header = (FrameHeader_request family kind (rt_request_id token))\<lparr>fh_sensitive := sensitive\<rparr>
     in gbind (gfinally (\<lambda>c. (Inr (), clear_outstanding (rt_request_id token) c))
                (ghost (send_frame H \<lparr>fr_header = header, fr_payload = payload\<rparr>))) (\<lambda>_.
          gret token)))"

definition begin_typed_request :: "'h Host \<Rightarrow> u16 \<Rightarrow> u16 \<Rightarrow> error + bytes \<Rightarrow> bool \<Rightarrow> ('h, RequestToken) guest" where
  "begin_typed_request H family kind request sensitive =
     gbind (gcheck (\<lambda>_. wire request)) (\<lambda>payload. begin_request H family kind payload sensitive)"

definition offer_result :: "RequestToken \<Rightarrow> Frame \<Rightarrow> Client \<Rightarrow> (stop + ResultPrefix option) \<times> Client" where
  "offer_result t f c =
     (if \<not> RequestToken_matches t f then (Inr None, c)
      else if map_of (cl_outstanding c) (rt_request_id t) \<noteq> Some (rt_family t, rt_kind t)
      then (Inl (Err (Protocol ''Result for retired request'')), c)
      else let c1 = clear_outstanding (rt_request_id t) c in
        case ResultPrefix_decode (fr_payload f) of
          Inr prefix \<Rightarrow> (Inr (Some prefix), c1)
        | Inl e \<Rightarrow> (Inl (Err (WireFailed e)), poison c1))"

definition abandon_request :: "RequestToken \<Rightarrow> Client \<Rightarrow> (stop + bool) \<times> Client" where
  "abandon_request t c =
     (let removed = map_of (cl_outstanding c) (rt_request_id t) \<noteq> None;
          c1 = clear_outstanding (rt_request_id t) c
      in case position (\<lambda>p. RequestToken_matches t (pf_frame p)) (cl_pending c1) of
           None \<Rightarrow> (Inr removed, c1)
         | Some i \<Rightarrow> (case remove_pending i c1 of
               (Inl e, c2) \<Rightarrow> (Inl e, c2)
             | (Inr _, c2) \<Rightarrow> (Inr removed, c2)))"

definition poison_and_abandon :: "RequestToken \<Rightarrow> Client \<Rightarrow> (stop + unit) \<times> Client" where
  "poison_and_abandon t c =
     (case abandon_request t (poison c) of (Inl e, c1) \<Rightarrow> (Inl e, c1) | (Inr _, c1) \<Rightarrow> (Inr (), c1))"

text \<open>The Result of a token that is already in the queue.\<close>

definition take_pending_result :: "RequestToken \<Rightarrow> nat \<Rightarrow> ('h, ResultPrefix) guest" where
  "take_pending_result t i =
     gbind (gclient (remove_pending i)) (\<lambda>f.
       case f of
         None \<Rightarrow> gstop (Err (Protocol ''pending Result disappeared''))
       | Some f \<Rightarrow> gbind (gclient (offer_result t f)) (\<lambda>r.
           case r of
             None \<Rightarrow> gstop (Err (Protocol ''correlated Result was not accepted''))
           | Some prefix \<Rightarrow> gret prefix))"

definition await_turn :: "'h Host \<Rightarrow> RequestToken \<Rightarrow> int \<Rightarrow> ('h, ResultPrefix option) guest" where
  "await_turn H t deadline =
     gbind (gfinally (poison_and_abandon t) (read_next_until H deadline)) (\<lambda>got.
       case got of
         None \<Rightarrow>
           (if deadline \<noteq> MAX_INSTANT then gstop (Err DeadlineExceeded)
            else gfinally (poison_and_abandon t) (gstop (Err EndpointClosed)))
       | Some f \<Rightarrow>
           gbind (gfinally (poison_and_abandon t) (gclient (offer_result t f))) (\<lambda>r.
             case r of
               Some prefix \<Rightarrow> gret (Some prefix)
             | None \<Rightarrow>
                 gbind (gfinally (poison_and_abandon t)
                   (gcheck (\<lambda>c. if unsolicited c f then Inl (Err (Protocol ''uncorrelated Result'')) else Inr ()))) (\<lambda>_.
                 gbind (gfinally (poison_and_abandon t) (gclient (defer_frame f))) (\<lambda>_. gret None))))"

definition await_result_until :: "'h Host \<Rightarrow> RequestToken \<Rightarrow> int \<Rightarrow> ('h, ResultPrefix) guest" where
  "await_result_until H t deadline =
     gbind (gcheck (\<lambda>c. Inr (position (\<lambda>p. RequestToken_matches t (pf_frame p)) (cl_pending c)))) (\<lambda>found.
       case found of
         Some i \<Rightarrow> take_pending_result t i
       | None \<Rightarrow> gloop (await_turn H t deadline))"

definition await_result :: "'h Host \<Rightarrow> RequestToken \<Rightarrow> ('h, ResultPrefix) guest" where
  "await_result H t = await_result_until H t MAX_INSTANT"

definition request_result_until ::
  "'h Host \<Rightarrow> u16 \<Rightarrow> u16 \<Rightarrow> bytes \<Rightarrow> bool \<Rightarrow> int \<Rightarrow> ('h, ResultPrefix) guest" where
  "request_result_until H family kind payload sensitive deadline =
     gbind (begin_request H family kind payload sensitive) (\<lambda>t.
       gcatch (await_result_until H t deadline) (\<lambda>e.
         if e = DeadlineExceeded
         then gbind (gclient (poison_and_abandon t)) (\<lambda>_. gstop (Err DeadlineExceeded))
         else gstop (Err e)))"

definition request_result :: "'h Host \<Rightarrow> u16 \<Rightarrow> u16 \<Rightarrow> bytes \<Rightarrow> bool \<Rightarrow> ('h, ResultPrefix) guest" where
  "request_result H family kind payload sensitive =
     request_result_until H family kind payload sensitive MAX_INSTANT"

definition cancel_request_and_wait :: "'h Host \<Rightarrow> RequestToken \<Rightarrow> ('h, ResultPrefix) guest" where
  "cancel_request_and_wait H t =
     gbind (gcheck (\<lambda>c. Inr (position (\<lambda>p. RequestToken_matches t (pf_frame p)) (cl_pending c)))) (\<lambda>found.
       case found of
         Some i \<Rightarrow> take_pending_result t i
       | None \<Rightarrow>
           gbind (gcheck (\<lambda>_. wire (Cancel_encode \<lparr>ca_target_request_id = rt_request_id t\<rparr>))) (\<lambda>payload.
           gbind (request_result H FAMILY_CORE CANCEL_KIND payload False) (\<lambda>_.
             await_result_until H t MAX_INSTANT)))"

definition request_is_resumable :: "RequestToken \<Rightarrow> Client \<Rightarrow> bool" where
  "request_is_resumable t c \<longleftrightarrow>
     \<not> cl_poisoned c \<and> map_of (cl_outstanding c) (rt_request_id t) = Some (rt_family t, rt_kind t)"

definition guest_request :: "'h Host \<Rightarrow> u16 \<Rightarrow> u16 \<Rightarrow> bytes \<Rightarrow> bool \<Rightarrow> ('h, bytes) guest" where
  "guest_request H family kind payload sensitive =
     gbind (request_result H family kind payload sensitive) (\<lambda>prefix.
       if rp_status prefix = StOk then gret (rp_body prefix)
       else gstop (Err (RequestFailed family kind (rp_status prefix) (rp_detail prefix))))"

text \<open>Requests and responses are given by their codecs: \<open>request\<close> is the encoder's result, \<open>decode\<close> the decoder.\<close>

definition decode_result_body :: "(bytes \<Rightarrow> error + 'r) \<Rightarrow> bytes \<Rightarrow> Client \<Rightarrow> (stop + 'r) \<times> Client" where
  "decode_result_body decode body c =
     (case decode body of Inr r \<Rightarrow> (Inr r, c) | Inl e \<Rightarrow> (Inl (Err (WireFailed e)), poison c))"

definition request_typed ::
  "'h Host \<Rightarrow> u16 \<Rightarrow> u16 \<Rightarrow> error + bytes \<Rightarrow> bool \<Rightarrow> (bytes \<Rightarrow> error + 'r) \<Rightarrow> ('h, 'r) guest" where
  "request_typed H family kind request sensitive decode =
     gbind (gcheck (\<lambda>_. wire request)) (\<lambda>payload.
     gbind (guest_request H family kind payload sensitive) (\<lambda>body.
       gclient (decode_result_body decode body)))"

definition guest_ping :: "'h Host \<Rightarrow> ('h, PingResult) guest" where
  "guest_ping H =
     gbind (ghost (\<lambda>_ h. case raw_clock H h 1 of (t, h1) \<Rightarrow> (Inr (clock_u64 0 t), h1))) (\<lambda>now.
       request_typed H FAMILY_CORE PING_KIND (Ping_encode \<lparr>ping_sender_monotonic_ns = now\<rparr>) False PingResult_decode)"

section \<open>Requests that lend receive credit\<close>

definition receive_credit_up_to :: "u64 \<Rightarrow> Client \<Rightarrow> (stop + Lease) \<times> Client" where
  "receive_credit_up_to maximum c =
     (case ensure_healthy c of Inl e \<Rightarrow> (Inl e, c) | Inr _ \<Rightarrow>
     (case Budget_lease_up_to (cl_receive_credit c) maximum of
        None \<Rightarrow> (Inl Panic, c)
      | Some (lease, s) \<Rightarrow>
          if ls_bytes lease = 0
          then (Inl (Err (ReceiveBudgetExhausted maximum 0)), c\<lparr>cl_receive_credit := Lease_drop s lease\<rparr>)
          else (Inr lease, c\<lparr>cl_receive_credit := s\<rparr>)))"

definition receive_credit_exact :: "u64 \<Rightarrow> Client \<Rightarrow> (stop + Lease) \<times> Client" where
  "receive_credit_exact n c =
     (case ensure_healthy c of Inl e \<Rightarrow> (Inl e, c) | Inr _ \<Rightarrow>
     (case Budget_lease_exact (cl_receive_credit c) n of
        None \<Rightarrow> (Inl Panic, c)
      | Some (None, s) \<Rightarrow> (Inl (Err (ReceiveBudgetExhausted n (Budget_available s))), c\<lparr>cl_receive_credit := s\<rparr>)
      | Some (Some lease, s) \<Rightarrow> (Inr lease, c\<lparr>cl_receive_credit := s\<rparr>)))"

fun release_leases :: "Lease list \<Rightarrow> Client \<Rightarrow> (stop + Lease list) \<times> Client" where
  "release_leases [] c = (Inr [], c)"
| "release_leases (l # ls) c =
     (case Lease_release (cl_receive_credit c) l of (s, l1) \<Rightarrow>
      case release_leases ls (c\<lparr>cl_receive_credit := s\<rparr>) of
        (Inl e, c1) \<Rightarrow> (Inl e, c1)
      | (Inr ls1, c1) \<Rightarrow> (Inr (l1 # ls1), c1))"

text \<open>The caller keeps its leases whatever happens, so errors are returned beside them.\<close>

definition gtry :: "('h, 'a) guest \<Rightarrow> ('h, GuestError + 'a) guest" where
  "gtry m = gcatch (gbind m (\<lambda>a. gret (Inr a))) (\<lambda>e. gret (Inl e))"

definition settle_lent ::
  "u16 \<Rightarrow> u16 \<Rightarrow> (bytes \<Rightarrow> error + 'r) \<Rightarrow> Lease list \<Rightarrow> GuestError + ResultPrefix \<Rightarrow>
    ('h, (GuestError + 'r) \<times> Lease list) guest" where
  "settle_lent family kind decode leases r =
     (case r of
        Inl e \<Rightarrow> gret (Inl e, leases)
      | Inr prefix \<Rightarrow>
          if rp_status prefix \<noteq> StOk
          then gbind (gclient (release_leases leases)) (\<lambda>released.
            gret (Inl (RequestFailed family kind (rp_status prefix) (rp_detail prefix)), released))
          else gbind (gtry (gclient (decode_result_body decode (rp_body prefix)))) (\<lambda>d. gret (d, leases)))"

definition request_typed_with_receive_leases ::
  "'h Host \<Rightarrow> u16 \<Rightarrow> u16 \<Rightarrow> error + bytes \<Rightarrow> bool \<Rightarrow> (bytes \<Rightarrow> error + 'r) \<Rightarrow> Lease list \<Rightarrow>
    ('h, (GuestError + 'r) \<times> Lease list) guest" where
  "request_typed_with_receive_leases H family kind request sensitive decode leases =
     gbind (gtry (begin_typed_request H family kind request sensitive)) (\<lambda>b.
       case b of
         Inl e \<Rightarrow> gret (Inl e, leases)
       | Inr t \<Rightarrow> gbind (gtry (await_result_until H t MAX_INSTANT))
           (settle_lent family kind decode (map Lease_commit leases)))"

definition request_typed_with_receive_lease ::
  "'h Host \<Rightarrow> u16 \<Rightarrow> u16 \<Rightarrow> error + bytes \<Rightarrow> bool \<Rightarrow> (bytes \<Rightarrow> error + 'r) \<Rightarrow> Lease \<Rightarrow>
    ('h, (GuestError + 'r) \<times> Lease list) guest" where
  "request_typed_with_receive_lease H family kind request sensitive decode lease =
     request_typed_with_receive_leases H family kind request sensitive decode [lease]"

definition request_typed_with_receive_lease_until ::
  "'h Host \<Rightarrow> u16 \<Rightarrow> u16 \<Rightarrow> error + bytes \<Rightarrow> bool \<Rightarrow> int \<Rightarrow> (bytes \<Rightarrow> error + 'r) \<Rightarrow> Lease \<Rightarrow>
    ('h, (GuestError + 'r) \<times> Lease list) guest" where
  "request_typed_with_receive_lease_until H family kind request sensitive deadline decode lease =
     gbind (gtry (begin_typed_request H family kind request sensitive)) (\<lambda>b.
       case b of
         Inl e \<Rightarrow> gret (Inl e, [lease])
       | Inr t \<Rightarrow>
           gbind (gtry (gcatch (await_result_until H t deadline) (\<lambda>e.
               if e = DeadlineExceeded then gfinally poisoning (cancel_request_and_wait H t)
               else gstop (Err e))))
             (settle_lent family kind decode [Lease_commit lease]))"

section \<open>Waiting for events and frames\<close>

definition next_event_turn :: "'h Host \<Rightarrow> int \<Rightarrow> ('h, Frame option option) guest" where
  "next_event_turn H deadline =
     gbind (read_next_until H deadline) (\<lambda>got.
       case got of
         None \<Rightarrow> gret (Some None)
       | Some f \<Rightarrow>
           if fh_class (fr_header f) = Event then gret (Some (Some f))
           else gbind (gclient (reject_unsolicited_result f)) (\<lambda>_.
                gbind (gclient (defer_frame f)) (\<lambda>_. gret None)))"

definition next_event_until :: "'h Host \<Rightarrow> int \<Rightarrow> ('h, Frame option) guest" where
  "next_event_until H deadline =
     gbind (gcheck ensure_healthy) (\<lambda>_.
     gbind (gclient reject_pending_unsolicited_result) (\<lambda>_.
     gbind (gcheck (\<lambda>c. Inr (position (\<lambda>p. fh_class (fr_header (pf_frame p)) = Event) (cl_pending c)))) (\<lambda>found.
       case found of
         Some i \<Rightarrow> gclient (remove_pending i)
       | None \<Rightarrow> gloop (next_event_turn H deadline))))"

definition next_frame_until :: "'h Host \<Rightarrow> int \<Rightarrow> ('h, Frame option) guest" where
  "next_frame_until H deadline =
     gbind (gcheck ensure_healthy) (\<lambda>_.
     gbind (gclient reject_pending_unsolicited_result) (\<lambda>_.
     gbind (gclient (remove_pending 0)) (\<lambda>got.
       case got of
         Some f \<Rightarrow> gbind (gclient (reject_unsolicited_result f)) (\<lambda>_. gret (Some f))
       | None \<Rightarrow>
           gbind (read_next_until H deadline) (\<lambda>got.
             case got of
               None \<Rightarrow> gret None
             | Some f \<Rightarrow> gbind (gclient (reject_unsolicited_result f)) (\<lambda>_. gret (Some f))))))"

definition expect_frame :: "('h, Frame option) guest \<Rightarrow> ('h, Frame) guest" where
  "expect_frame m = gbind m (\<lambda>got. case got of None \<Rightarrow> gstop (Err EndpointClosed) | Some f \<Rightarrow> gret f)"

definition next_event :: "'h Host \<Rightarrow> ('h, Frame) guest" where
  "next_event H = expect_frame (next_event_until H MAX_INSTANT)"

definition next_frame :: "'h Host \<Rightarrow> ('h, Frame) guest" where
  "next_frame H = expect_frame (next_frame_until H MAX_INSTANT)"

text \<open>The predicates of callers are taken to be functions of the frame.\<close>

definition next_matching_frame_turn :: "'h Host \<Rightarrow> int \<Rightarrow> (Frame \<Rightarrow> bool) \<Rightarrow> ('h, Frame option option) guest" where
  "next_matching_frame_turn H deadline P =
     gbind (read_next_until H deadline) (\<lambda>got.
       case got of
         None \<Rightarrow> gret (Some None)
       | Some f \<Rightarrow> gbind (gclient (reject_unsolicited_result f)) (\<lambda>_.
           if P f then gret (Some (Some f)) else gbind (gclient (defer_frame f)) (\<lambda>_. gret None)))"

definition next_matching_frame_until :: "'h Host \<Rightarrow> int \<Rightarrow> (Frame \<Rightarrow> bool) \<Rightarrow> ('h, Frame option) guest" where
  "next_matching_frame_until H deadline P =
     gbind (gcheck ensure_healthy) (\<lambda>_.
     gbind (gclient reject_pending_unsolicited_result) (\<lambda>_.
     gbind (gcheck (\<lambda>c. Inr (position (\<lambda>p. P (pf_frame p)) (cl_pending c)))) (\<lambda>found.
       case found of
         Some i \<Rightarrow> gbind (gclient (remove_pending i)) (\<lambda>got.
           case got of None \<Rightarrow> gstop (Err (Protocol ''pending frame disappeared'')) | Some f \<Rightarrow> gret (Some f))
       | None \<Rightarrow> gloop (next_matching_frame_turn H deadline P))))"

definition next_matching_frame :: "'h Host \<Rightarrow> (Frame \<Rightarrow> bool) \<Rightarrow> ('h, Frame) guest" where
  "next_matching_frame H P = expect_frame (next_matching_frame_until H MAX_INSTANT P)"

definition next_matching_event_turn :: "'h Host \<Rightarrow> (Frame \<Rightarrow> bool) \<Rightarrow> ('h, Frame option) guest" where
  "next_matching_event_turn H P =
     gbind (expect_frame (read_next_until H MAX_INSTANT)) (\<lambda>f.
       if fh_class (fr_header f) = Event \<and> P f then gret (Some f)
       else gbind (gclient (reject_unsolicited_result f)) (\<lambda>_.
            gbind (gclient (defer_frame f)) (\<lambda>_. gret None)))"

definition next_matching_event :: "'h Host \<Rightarrow> (Frame \<Rightarrow> bool) \<Rightarrow> ('h, Frame) guest" where
  "next_matching_event H P =
     gbind (gcheck ensure_healthy) (\<lambda>_.
     gbind (gclient reject_pending_unsolicited_result) (\<lambda>_.
     gbind (gcheck (\<lambda>c. Inr (position (\<lambda>p. fh_class (fr_header (pf_frame p)) = Event \<and> P (pf_frame p))
                              (cl_pending c)))) (\<lambda>found.
       case found of
         Some i \<Rightarrow> gbind (gclient (remove_pending i)) (\<lambda>got.
           case got of None \<Rightarrow> gstop (Err (Protocol ''pending frame disappeared'')) | Some f \<Rightarrow> gret f)
       | None \<Rightarrow> gloop (next_matching_event_turn H P))))"

text \<open>\<^verbatim>\<open>MonotonicInstant + Duration\<close>, with the duration in nanoseconds.\<close>

definition instant_add :: "int \<Rightarrow> int \<Rightarrow> int" where
  "instant_add t ns = min MAX_INSTANT (t + min MAX_INSTANT ns)"

definition sleep_turn :: "'h Host \<Rightarrow> int \<Rightarrow> ('h, unit option) guest" where
  "sleep_turn H deadline =
     gbind (ghost (\<lambda>_ h. case raw_clock H h 1 of (t, h1) \<Rightarrow> (Inr t, h1))) (\<lambda>now.
       if deadline \<le> now then gret (Some ())
       else gbind (read_next_until H deadline) (\<lambda>got.
         case got of
           Some f \<Rightarrow> gbind (gclient (defer_frame f)) (\<lambda>_. gret None)
         | None \<Rightarrow> gret (Some ())))"

definition guest_sleep :: "'h Host \<Rightarrow> int \<Rightarrow> ('h, unit) guest" where
  "guest_sleep H duration =
     gbind (ghost (\<lambda>_ h. case raw_clock H h 1 of (t, h1) \<Rightarrow> (Inr t, h1))) (\<lambda>now.
       gloop (sleep_turn H (instant_add now duration)))"

section \<open>Request ids\<close>

lemma odd_or_1: "odd w \<Longrightarrow> w OR 1 = w" for w :: u32
  by (simp add: or_one_eq)

lemma allocate_request_id_simps:
  "allocate_request_id c = (cl_next_request_id c OR 1, c\<lparr>cl_next_request_id := (cl_next_request_id c OR 1) + 2\<rparr>)"
proof -
  have "odd (cl_next_request_id c OR 1)"
    by (simp add: or_one_eq)
  then have "odd ((cl_next_request_id c OR 1) + 2)"
    by simp
  then have "(cl_next_request_id c OR 1) + 2 \<noteq> 0"
    by (metis even_zero)
  then show ?thesis
    by (simp add: allocate_request_id_def Let_def)
qed

text \<open>The ids that successive calls return.\<close>

definition nth_id :: "u32 \<Rightarrow> nat \<Rightarrow> u32" where
  "nth_id start k = (start OR 1) + of_nat (2 * k)"

lemma nth_id_Suc: "nth_id start (Suc k) = nth_id ((start OR 1) + 2) k"
proof -
  have "((start OR 1) + 2) OR 1 = (start OR 1) + 2"
    by (rule odd_or_1) (simp add: or_one_eq)
  then show ?thesis
    by (simp add: nth_id_def algebra_simps)
qed

lemma nth_id_inj: "inj_on (nth_id start) {..<2 ^ 31}"
proof (rule inj_onI)
  fix j k
  assume jk: "j \<in> {..<2 ^ 31}" "k \<in> {..<2 ^ 31}" and "nth_id start j = nth_id start k"
  then have "(of_nat (2 * j) :: u32) = of_nat (2 * k)"
    by (simp only: nth_id_def add_left_cancel)
  moreover have "unat (of_nat (2 * i) :: u32) = 2 * i" if "i < 2 ^ 31" for i
    by (subst unat_of_nat) (use that in simp)
  ultimately show "j = k"
    using jk by (metis lessThan_iff mult_cancel1 zero_neq_numeral)
qed

lemma find_request_id_cases:
  "(\<exists>k<n. find_request_id n c = (Inr (nth_id (cl_next_request_id c) k),
        c\<lparr>cl_next_request_id := nth_id (cl_next_request_id c) k + 2\<rparr>)
      \<and> map_of (cl_outstanding c) (nth_id (cl_next_request_id c) k) = None)
   \<or> (\<exists>q. find_request_id n c = (Inl (Err TooManyOutstandingRequests), c\<lparr>cl_next_request_id := q\<rparr>))
     \<and> (\<forall>k<n. map_of (cl_outstanding c) (nth_id (cl_next_request_id c) k) \<noteq> None)"
proof (induction n arbitrary: c)
  case 0
  then show ?case
    by (auto intro: exI[of _ "cl_next_request_id c"])
next
  case (Suc n)
  let ?q = "nth_id (cl_next_request_id c) 0"
  let ?c = "c\<lparr>cl_next_request_id := ?q + 2\<rparr>"
  have alloc: "allocate_request_id c = (?q, ?c)"
    by (simp add: allocate_request_id_simps nth_id_def)
  have next_id: "nth_id (?q + 2) k = nth_id (cl_next_request_id c) (Suc k)" for k
    by (simp add: nth_id_Suc) (simp add: nth_id_def)
  show ?case
  proof (cases "map_of (cl_outstanding c) ?q")
    case None
    then show ?thesis
      by (intro disjI1 exI[of _ 0]) (simp add: alloc)
  next
    case (Some v)
    then have "find_request_id (Suc n) c = find_request_id n ?c"
      by (simp add: alloc)
    then show ?thesis
      using Suc.IH[of ?c] Some by (auto simp: next_id less_Suc_eq_0_disj)
  qed
qed

lemma allocate_available_cases:
  assumes "distinct (map fst (cl_outstanding c))"
  shows "if MAX_OUTSTANDING_REQUESTS \<le> length (cl_outstanding c)
    then allocate_available_request_id c = (Inl (Err TooManyOutstandingRequests), c)
    else \<exists>q. allocate_available_request_id c = (Inr q, c\<lparr>cl_next_request_id := q + 2\<rparr>)
      \<and> odd q \<and> map_of (cl_outstanding c) q = None"
proof (cases "MAX_OUTSTANDING_REQUESTS \<le> length (cl_outstanding c)")
  case False
  let ?n = "Suc MAX_OUTSTANDING_REQUESTS" and ?id = "nth_id (cl_next_request_id c)"
  have "\<exists>k<?n. map_of (cl_outstanding c) (?id k) = None"
  proof (rule ccontr)
    assume "\<not> ?thesis"
    then have "?id ` {..<?n} \<subseteq> set (map fst (cl_outstanding c))"
      by (force simp: map_of_eq_None_iff)
    then have "card (?id ` {..<?n}) \<le> card (set (map fst (cl_outstanding c)))"
      by (intro card_mono) simp_all
    also have "\<dots> \<le> length (cl_outstanding c)"
      using card_length[of "map fst (cl_outstanding c)"] by simp
    finally have "card (?id ` {..<?n}) \<le> length (cl_outstanding c)" .
    moreover have "card (?id ` {..<?n}) = ?n"
      using inj_on_subset[OF nth_id_inj] by (subst card_image) (auto simp: MAX_OUTSTANDING_REQUESTS_def)
    ultimately show False
      using False by simp
  qed
  moreover have "odd (?id k)" for k
    by (simp add: nth_id_def or_one_eq)
  ultimately show ?thesis
    using False find_request_id_cases[of ?n c] unfolding allocate_available_request_id_def by (simp only: if_False) blast
qed (simp add: allocate_available_request_id_def)

section \<open>Every call keeps the session in good order\<close>

lemma length_outstanding_update: "map_of al k = None \<Longrightarrow> length (AList.update k v al) = Suc (length al)"
  by (induction al) auto

lemma only_ids_ok: "client_inv c \<Longrightarrow> client_inv (c\<lparr>cl_next_request_id := q\<rparr>) \<and> advances c (c\<lparr>cl_next_request_id := q\<rparr>)"
  by (simp add: client_inv_def pending_ok_def advances_def forward_def family_keys_def)

lemma clear_outstanding_ok: "client_inv c \<Longrightarrow> client_inv (clear_outstanding q c) \<and> advances c (clear_outstanding q c)"
  using length_delete_le[of q "cl_outstanding c"] distinct_delete[of "cl_outstanding c" q]
  by (simp add: clear_outstanding_def client_inv_def pending_ok_def advances_def forward_def family_keys_def)

lemma clear_ok [run_ok]: "client_ok advances (\<lambda>c. (Inr (), clear_outstanding q c))"
  by (rule client_okI) (use clear_outstanding_ok in auto)

lemma allocate_token_iff:
  assumes "distinct (map fst (cl_outstanding c))"
  shows "if MAX_OUTSTANDING_REQUESTS \<le> length (cl_outstanding c)
    then allocate_token family kind c = (Inl (Err TooManyOutstandingRequests), c)
    else \<exists>q. odd q \<and> map_of (cl_outstanding c) q = None
      \<and> allocate_token family kind c = (Inr \<lparr>rt_request_id = q, rt_family = family, rt_kind = kind\<rparr>,
          c\<lparr>cl_next_request_id := q + 2, cl_outstanding := AList.update q (family, kind) (cl_outstanding c)\<rparr>)"
  using allocate_available_cases[OF assms] by (auto simp: allocate_token_def set_outstanding_def)

lemma allocate_token_ok [run_ok]: "client_ok advances (allocate_token family kind)"
proof (rule client_okI)
  fix c r d
  assume alloc: "allocate_token family kind c = (r, d)" and inv: "client_inv c"
  then have dist: "distinct (map fst (cl_outstanding c))"
    by (simp add: client_inv_def)
  show "client_inv d \<and> advances c d \<and> r \<noteq> Inl Panic"
  proof (cases "MAX_OUTSTANDING_REQUESTS \<le> length (cl_outstanding c)")
    case True
    then show ?thesis
      using allocate_token_iff[OF dist, of family kind] alloc inv by (auto simp: advances_refl)
  next
    case False
    then obtain q where "map_of (cl_outstanding c) q = None" "r \<noteq> Inl Panic"
      "d = c\<lparr>cl_next_request_id := q + 2, cl_outstanding := AList.update q (family, kind) (cl_outstanding c)\<rparr>"
      using allocate_token_iff[OF dist, of family kind] alloc by auto
    then show ?thesis
      using inv False distinct_update[OF dist, of q "(family, kind)"]
      by (simp add: client_inv_def pending_ok_def advances_def forward_def family_keys_def length_outstanding_update)
  qed
qed

lemma offer_result_ok [run_ok]: "client_ok advances (offer_result t f)"
  by (rule client_okI)
    (auto simp: offer_result_def Let_def advances_refl clear_outstanding_ok poison_ok
      split: if_splits sum.splits dest: clear_outstanding_ok poison_ok intro: advances_trans)

lemma abandon_request_ok: "client_ok advances (abandon_request t)"
proof (rule client_okI)
  fix c r d
  assume ab: "abandon_request t c = (r, d)" and inv: "client_inv c"
  let ?c = "clear_outstanding (rt_request_id t) c"
  have c: "client_inv ?c" "advances c ?c"
    using clear_outstanding_ok[OF inv] by auto
  show "client_inv d \<and> advances c d \<and> r \<noteq> Inl Panic"
  proof (cases "position (\<lambda>p. RequestToken_matches t (pf_frame p)) (cl_pending ?c)")
    case None
    then show ?thesis
      using ab c by (auto simp: abandon_request_def Let_def)
  next
    case (Some i)
    obtain q e where e: "remove_pending i ?c = (q, e)"
      by (cases "remove_pending i ?c")
    then show ?thesis
      using client_okD[OF remove_pending_ok e c(1)] ab Some c advances_trans
      by (auto simp: abandon_request_def Let_def split: sum.splits)
  qed
qed

lemma poison_and_abandon_ok [run_ok]: "client_ok advances (poison_and_abandon t)"
proof (rule client_okI)
  fix c r d
  assume ab: "poison_and_abandon t c = (r, d)" and inv: "client_inv c"
  obtain q e where e: "abandon_request t (poison c) = (q, e)"
    by (cases "abandon_request t (poison c)")
  show "client_inv d \<and> advances c d \<and> r \<noteq> Inl Panic"
    using client_okD[OF abandon_request_ok e] poison_ok[OF inv] ab e advances_trans
    by (auto simp: poison_and_abandon_def split: sum.splits)
qed

lemma decode_result_body_ok [run_ok]: "client_ok advances (decode_result_body decode body)"
  by (rule client_okI) (auto simp: decode_result_body_def advances_refl poison_ok split: sum.splits)

lemma begin_request_ok [run_ok]: "run_ok advances (begin_request H family kind payload sensitive)"
  unfolding begin_request_def Let_def by (intro run_ok run_ok_client) (simp_all add: no_panic)

lemma begin_typed_request_ok [run_ok]: "run_ok advances (begin_typed_request H family kind request sensitive)"
  unfolding begin_typed_request_def by (intro run_ok) simp_all

lemma take_pending_result_ok [run_ok]: "run_ok advances (take_pending_result t i)"
  unfolding take_pending_result_def by (intro run_ok run_ok_client)

lemma await_turn_ok [run_ok]: "run_ok advances (await_turn H t deadline)"
  unfolding await_turn_def by (intro run_ok run_ok_client) auto

lemma await_result_until_ok [run_ok]: "run_ok advances (await_result_until H t deadline)"
  unfolding await_result_until_def by (intro run_ok) simp_all

lemma request_result_ok [run_ok]:
  "run_ok advances (request_result_until H family kind payload sensitive deadline)"
  "run_ok advances (request_result H family kind payload sensitive)"
  unfolding request_result_def request_result_until_def by (intro run_ok run_ok_client)+

lemma cancel_request_ok [run_ok]: "run_ok advances (cancel_request_and_wait H t)"
  unfolding cancel_request_and_wait_def by (intro run_ok) simp_all

lemma guest_request_ok [run_ok]: "run_ok advances (guest_request H family kind payload sensitive)"
  unfolding guest_request_def by (intro run_ok)

lemma request_typed_ok [run_ok]: "run_ok advances (request_typed H family kind request sensitive decode)"
  unfolding request_typed_def by (intro run_ok run_ok_client) simp_all

lemma guest_ping_ok [run_ok]: "run_ok advances (guest_ping H)"
  unfolding guest_ping_def by (intro run_ok) (auto split: prod.splits)

lemma send_event_ok [run_ok]: "run_ok advances (send_event H family kind payload sensitive)"
  unfolding send_event_def by (intro run_ok) (simp add: no_panic)

lemma send_typed_ok [run_ok]:
  "run_ok advances (send_typed_event H family kind event sensitive)"
  "run_ok advances (send_typed_terminal_cleanup H family kind event sensitive)"
  "run_ok advances (attempt_output H out data)"
  unfolding attempt_output_def send_typed_event_def send_typed_terminal_cleanup_def
  by (intro run_ok; simp add: no_panic)+

lemma next_event_ok [run_ok]: "run_ok advances (next_event_until H deadline)"
  unfolding next_event_until_def next_event_turn_def by (intro run_ok run_ok_client) simp_all

lemma next_frame_ok [run_ok]: "run_ok advances (next_frame_until H deadline)"
  unfolding next_frame_until_def by (intro run_ok run_ok_client) simp_all

lemma expect_frame_ok [run_ok]: "run_ok advances m \<Longrightarrow> run_ok advances (expect_frame m)"
  unfolding expect_frame_def by (intro run_ok)

lemma next_matching_ok [run_ok]:
  "run_ok advances (next_matching_frame_until H deadline P)" "run_ok advances (next_matching_event H P)"
  unfolding next_matching_frame_until_def next_matching_frame_turn_def next_matching_event_def
    next_matching_event_turn_def
  by (intro run_ok run_ok_client; simp)+

lemma guest_sleep_ok [run_ok]: "run_ok advances (guest_sleep H duration)"
  unfolding guest_sleep_def sleep_turn_def by (intro run_ok run_ok_client) (auto split: prod.splits)

lemma credit_ok: "client_inv c \<Longrightarrow> st_reserved b \<le> st_maximum b \<Longrightarrow>
    client_inv (c\<lparr>cl_receive_credit := b\<rparr>) \<and> forward c (c\<lparr>cl_receive_credit := b\<rparr>)"
  by (simp add: client_inv_def pending_ok_def forward_def family_keys_def)

lemma forward_refl: "forward c c"
  by (simp add: forward_def)

lemma forward_trans: "forward c d \<Longrightarrow> forward d e \<Longrightarrow> forward c e"
  by (auto simp: forward_def intro: order_trans)

lemma Budget_leases:
  assumes "st_reserved b \<le> st_maximum b"
  obtains s where "Budget_lease_up_to b n = Some (\<lparr>ls_bytes = min n (Budget_available b), ls_committed = False\<rparr>, s)"
      "st_reserved s \<le> st_maximum s"
    and "\<exists>l t. Budget_lease_exact b n = Some (l, t) \<and> st_reserved t \<le> st_maximum t"
proof -
  have "\<exists>t. Budget_reserve b k = Some t \<and> st_reserved t \<le> st_maximum t" if "k \<le> Budget_available b" for k
    using Budget_reserve_ok[OF assms that] by (auto simp: word_le_nat_alt)
  note reserve = this[of "min n (Budget_available b)"] this[of n]
  then obtain s where s: "Budget_reserve b (min n (Budget_available b)) = Some s" "st_reserved s \<le> st_maximum s"
    by auto
  have exact: "\<exists>l t. Budget_lease_exact b n = Some (l, t) \<and> st_reserved t \<le> st_maximum t"
    using reserve(2) assms by (auto simp: Budget_lease_exact_def not_less)
  show thesis
    by (rule that[OF _ s(2) exact]) (simp add: Budget_lease_up_to_def Let_def s(1))
qed

lemma receive_credit_ok :
  "client_ok forward (receive_credit_up_to n)" "client_ok forward (receive_credit_exact n)"
proof -
  have "client_inv d \<and> forward c d \<and> r \<noteq> Inl Panic"
    if "receive_credit_up_to n c = (r, d) \<or> receive_credit_exact n c = (r, d)" "client_inv c" for c d and r :: "stop + Lease"
  proof -
    have "st_reserved (cl_receive_credit c) \<le> st_maximum (cl_receive_credit c)"
      using that(2) by (simp add: client_inv_def)
    from Budget_leases[OF this, of n] obtain s l t where
      "Budget_lease_up_to (cl_receive_credit c) n =
        Some (\<lparr>ls_bytes = min n (Budget_available (cl_receive_credit c)), ls_committed = False\<rparr>, s)"
      "st_reserved s \<le> st_maximum s"
      "Budget_lease_exact (cl_receive_credit c) n = Some (l, t)" "st_reserved t \<le> st_maximum t"
      by metis
    then show ?thesis
      using that credit_ok[OF that(2), of s] credit_ok[OF that(2), of t] forward_refl[of c]
      by (auto simp: receive_credit_up_to_def receive_credit_exact_def ensure_healthy_def Lease_drop_def
          Lease_release_def Lease_release_bytes_def split: if_splits option.splits)
  qed
  then show "client_ok forward (receive_credit_up_to n)" "client_ok forward (receive_credit_exact n)"
    by (auto intro!: client_okI)
qed

section \<open>Poison\<close>

text \<open>What a poisoned session does not do: send, read, or take on new work.\<close>

lemma poisoned_gbind: "cl_poisoned (fst s) \<Longrightarrow> gbind (gcheck ensure_healthy) f s = Some (Inl (Err Poisoned), s)"
  by (cases s) (simp add: gbind_def gcheck_def gclient_def ensure_healthy_def)

lemma poisoned_headroom: "cl_poisoned (fst s) \<Longrightarrow> gbind (gcheck ensure_read_headroom) f s = Some (Inl (Err Poisoned), s)"
  by (cases s) (simp add: gbind_def gcheck_def gclient_def ensure_healthy_def ensure_read_headroom_def)

lemma poisoned_read: "cl_poisoned (fst s) \<Longrightarrow> read_next_until H deadline s = Some (Inl (Err Poisoned), s)"
  unfolding read_next_until_def by (subst gloop_Some_iff) (simp add: read_turn_def poisoned_headroom)

text \<open>
  A poisoned session is inert.  Once anything has poisoned it, waiting for events or frames, starting a request,
  sending an event, keeping a frame and taking receive credit all fail with \<^verbatim>\<open>Poisoned\<close>, and change
  neither the session nor the host: nothing is read and nothing is sent.
\<close>

theorem poisoned_inert:
  assumes "cl_poisoned c"
  shows "next_event_until H deadline (c, h) = Some (Inl (Err Poisoned), c, h)
    \<and> next_frame_until H deadline (c, h) = Some (Inl (Err Poisoned), c, h)
    \<and> next_matching_frame_until H deadline P (c, h) = Some (Inl (Err Poisoned), c, h)
    \<and> next_matching_event H P (c, h) = Some (Inl (Err Poisoned), c, h)
    \<and> request_result_until H family kind payload sensitive deadline (c, h) = Some (Inl (Err Poisoned), c, h)
    \<and> begin_request H family kind payload sensitive (c, h) = Some (Inl (Err Poisoned), c, h)
    \<and> send_event H family kind payload sensitive (c, h) = Some (Inl (Err Poisoned), c, h)
    \<and> defer_frame f c = (Inl (Err Poisoned), c)
    \<and> receive_credit_up_to n c = (Inl (Err Poisoned), c) \<and> receive_credit_exact n c = (Inl (Err Poisoned), c)"
proof -
  have s: "cl_poisoned (fst (c, h))"
    using assms by simp
  have "begin_request H family kind payload sensitive (c, h) = Some (Inl (Err Poisoned), c, h)"
    unfolding begin_request_def by (rule poisoned_headroom[OF s])
  then show ?thesis
    using assms unfolding next_event_until_def next_frame_until_def next_matching_frame_until_def
      next_matching_event_def request_result_until_def poisoned_gbind[OF s]
    by (simp add: gbind_Some_iff send_event_def ghost_def send_frame_def ensure_healthy_def defer_frame_def
        receive_credit_up_to_def receive_credit_exact_def)
qed

section \<open>Reading leaves the queue and the requests alone\<close>

definition same_work :: "Client \<Rightarrow> Client \<Rightarrow> bool" where
  "same_work c d \<longleftrightarrow> cl_pending d = cl_pending c \<and> cl_outstanding d = cl_outstanding c
     \<and> cl_next_request_id d = cl_next_request_id c \<and> cl_receive_credit d = cl_receive_credit c"

interpretation work: session_relation same_work
  by unfold_locales (simp_all add: same_work_def)

lemma client_ok_work:
  "client_ok advances f \<Longrightarrow> (\<And>c r d. f c = (r, d) \<Longrightarrow> same_work c d) \<Longrightarrow> client_ok same_work f"
  by (rule client_okI) (metis client_okD)

lemma poisoning_work [run_ok]: "client_ok same_work poisoning"
  by (rule client_ok_work[OF poisoning_ok]) (auto simp: poisoning_def poison_def same_work_def)

lemma replaces_work:
  "client_ok same_work (replaces (\<lambda>c. apply_session_update c payload))"
  "client_ok same_work (replaces (\<lambda>c. apply_family_update c payload))"
  by (rule client_ok_work[OF apply_updates_ok(1)],
      auto simp: replaces_def apply_session_update_iff same_work_def split: sum.splits)
    (rule client_ok_work[OF apply_updates_ok(2)],
      auto simp: replaces_def apply_family_update_iff same_work_def split: sum.splits)

lemma receive_work [run_ok]: "run_ok same_work (receive H deadline)"
proof (rule run_okI)
  fix s r t
  assume rec: "receive H deadline s = Some (r, t)" and inv: "client_inv (fst s)"
  then have "same_work (fst s) (fst t)"
    by (auto simp: receive_def same_work_def split: prod.splits)
  then show "client_inv (fst t) \<and> same_work (fst s) (fst t) \<and> r \<noteq> Inl Panic"
    using run_okD[OF receive_ok rec inv] by simp
qed

lemma read_next_until_work: "run_ok same_work (read_next_until H deadline)"
  unfolding read_next_until_def read_turn_def service_def Let_def
  by (intro run_ok) (auto split: StreamReceive.splits intro!: run_ok run_ok_client replaces_work simp: no_panic ebind_no_panic)

text \<open>The frames a session passes on are Events and Results.\<close>

lemma service_frame: "service H f s = Some (Inr (Some g), t) \<Longrightarrow> g = f \<and> fh_class (fr_header f) \<noteq> Request"
  by (cases "fh_class (fr_header f)")
    (auto simp: service_def Let_def gbind_Some_iff gcatch_Some_iff gfinally_def gret_def gstop_def gcheck_def
      gclient_def enc_iff split: if_splits prod.splits)

lemma read_turn_frame:
  assumes "read_turn H deadline s = Some (Inr (Some (Some f)), t)"
  shows "fh_class (fr_header f) \<noteq> Request"
proof -
  obtain outcome u where "(case outcome of
         ReceivedFrame f \<Rightarrow> gbind (service H f) (\<lambda>r. gret (map_option Some r))
       | ReceiveDeadline \<Rightarrow>
           (if deadline \<noteq> MAX_INSTANT then gret (Some None)
            else gfinally poisoning (gstop (Err EndpointClosed)))
       | ReceiveClosed \<Rightarrow> gfinally poisoning (gstop (Err EndpointClosed))) u = Some (Inr (Some (Some f)), t)"
    using assms unfolding read_turn_def gbind_Some_iff by blast
  then show ?thesis
    by (cases outcome)
      (auto simp: gbind_Some_iff gcatch_Some_iff gfinally_def gret_def gstop_def dest: service_frame split: if_splits)
qed

lemma read_next_until_class:
  "read_next_until H deadline s = Some (Inr (Some f), t) \<Longrightarrow> fh_class (fr_header f) \<noteq> Request"
proof -
  have "r = Inr (Some f) \<longrightarrow> fh_class (fr_header f) \<noteq> Request"
    if "gloop (read_turn H deadline) s = Some (r, t)" for r
    using that by (induction rule: gloop_induct) (auto dest: read_turn_frame)
  then show "read_next_until H deadline s = Some (Inr (Some f), t) \<Longrightarrow> ?thesis"
    unfolding read_next_until_def by blast
qed

section \<open>What readers deliver\<close>

lemma position_Some: "position P xs = Some i \<Longrightarrow> i < length xs \<and> P (xs ! i) \<and> (\<forall>j<i. \<not> P (xs ! j))"
  by (induction xs arbitrary: i) (auto split: if_splits simp: less_Suc_eq_0_disj)

lemma position_None: "position P xs = None \<longleftrightarrow> (\<forall>x\<in>set xs. \<not> P x)"
  by (induction xs) auto

lemma gclient_Some_iff: "gclient f s = Some (r, t) \<longleftrightarrow> f (fst s) = (r, fst t) \<and> snd t = snd s"
  by (cases s; cases t) (auto simp: gclient_def split: prod.splits)

lemma gcheck_Some_iff: "gcheck f s = Some (r, t) \<longleftrightarrow> r = f (fst s) \<and> t = s"
  unfolding gcheck_def gclient_Some_iff by (cases s; cases t) auto

lemma gret_Some_iff: "gret a s = Some (r, t) \<longleftrightarrow> r = Inr a \<and> t = s"
  by (auto simp: gret_def)

lemma gstop_Some_iff: "gstop e s = Some (r, t) \<longleftrightarrow> r = Inl e \<and> t = s"
  by (auto simp: gstop_def)

lemma gcase_option_iff:
  "(case x of None \<Rightarrow> m | Some a \<Rightarrow> f a) s = Some y \<longleftrightarrow> x = None \<and> m s = Some y \<or> (\<exists>a. x = Some a \<and> f a s = Some y)"
  by (cases x) auto

lemma gif_iff: "(if P then m else n) s = Some y \<longleftrightarrow> P \<and> m s = Some y \<or> \<not> P \<and> n s = Some y"
  by simp

lemmas g_iff = gbind_Some_iff gclient_Some_iff gcheck_Some_iff gret_Some_iff gstop_Some_iff gcase_option_iff gif_iff

lemma reject_pending_Inr:
  "reject_pending_unsolicited_result c = (Inr (), d) \<Longrightarrow> d = c \<and> (\<forall>p\<in>set (cl_pending c). \<not> unsolicited c (pf_frame p))"
  by (auto simp: reject_pending_unsolicited_result_def position_None split: option.splits prod.splits sum.splits)

lemma reject_unsolicited_Inr: "reject_unsolicited_result f c = (Inr (), d) \<longleftrightarrow> d = c \<and> \<not> unsolicited c f"
  by (auto simp: reject_unsolicited_result_def)

text \<open>Taking a frame out of the queue.\<close>

lemma remove_pending_Some:
  assumes "remove_pending i c = (Inr (Some f), d)"
  shows "i < length (cl_pending c) \<and> f = pf_frame (cl_pending c ! i) \<and> cl_pending d = drop_nth i (cl_pending c)
    \<and> cl_outstanding d = cl_outstanding c"
  using assms by (auto simp: remove_pending_def Let_def split: if_splits)

lemma remove_pending_None: "remove_pending i c = (Inr None, d) \<Longrightarrow> d = c \<and> length (cl_pending c) \<le> i"
  by (auto simp: remove_pending_def Let_def split: if_splits)

lemma is_outstanding_same: "cl_outstanding d = cl_outstanding c \<Longrightarrow> is_outstanding_result d f = is_outstanding_result c f"
  by (auto simp: is_outstanding_result_def split: option.splits)

text \<open>A Result that is not unsolicited answers an outstanding request.\<close>

lemma solicited: "\<not> unsolicited c f \<Longrightarrow> fh_class (fr_header f) = Result \<Longrightarrow> is_outstanding_result c f"
  by (simp add: unsolicited_def)

lemma matching_loop_solicited:
  "gloop (next_matching_frame_turn H deadline P) s = Some (r, t) \<Longrightarrow>
     r = Inr (Some f) \<Longrightarrow> fh_class (fr_header f) = Result \<Longrightarrow> is_outstanding_result (fst t) f"
proof (induction rule: gloop_induct)
  case (leaves s a t)
  then show ?case
    by (auto simp: next_matching_frame_turn_def g_iff reject_unsolicited_Inr intro: solicited)
qed simp_all

lemma delivered_outstanding:
  assumes "next_frame_until H deadline (c, h) = Some (Inr (Some f), t)
      \<or> next_matching_frame_until H deadline P (c, h) = Some (Inr (Some f), t)"
    and "fh_class (fr_header f) = Result"
  shows "is_outstanding_result (fst t) f"
  using assms(1)
proof
  assume "next_frame_until H deadline (c, h) = Some (Inr (Some f), t)"
  then show ?thesis
    using assms(2)
    by (auto simp: next_frame_until_def g_iff reject_unsolicited_Inr intro: solicited)
next
  assume got: "next_matching_frame_until H deadline P (c, h) = Some (Inr (Some f), t)"
  then have clean: "\<forall>p\<in>set (cl_pending c). \<not> unsolicited c (pf_frame p)"
    by (auto simp: next_matching_frame_until_def g_iff dest: reject_pending_Inr)
  show ?thesis
  proof (cases "position (\<lambda>p. P (pf_frame p)) (cl_pending c)")
    case None
    then show ?thesis
      using got assms(2)
      by (auto simp: next_matching_frame_until_def g_iff dest!: reject_pending_Inr intro: matching_loop_solicited)
  next
    case (Some i)
    then have "remove_pending i c = (Inr (Some f), fst t)"
      using got by (auto simp: next_matching_frame_until_def g_iff dest!: reject_pending_Inr)
    from remove_pending_Some[OF this] clean show ?thesis
      using solicited[of c f] assms(2) is_outstanding_same[of "fst t" c f] by auto
  qed
qed

text \<open>
  C27: no unsolicited Result reaches the application.  A Result that \<^verbatim>\<open>next_frame\<close> or \<^verbatim>\<open>next_matching_frame\<close>
  returns, be it from the queue or from the wire, answers a request that is still outstanding, with the
  family and the kind it was made with.
\<close>

theorem delivered_results_solicited:
  assumes "next_frame_until H deadline (c, h) = Some (Inr (Some f), t)
      \<or> next_matching_frame_until H deadline P (c, h) = Some (Inr (Some f), t)"
    and "fh_class (fr_header f) = Result"
  shows "\<exists>q. fh_request_id (fr_header f) = Some q
    \<and> map_of (cl_outstanding (fst t)) q = Some (fh_family (fr_header f), fh_kind (fr_header f))"
  using delivered_outstanding[OF assms] by (auto simp: is_outstanding_result_def split: option.splits)

text \<open>Keeping a frame puts it at the end of the queue.\<close>

lemma defer_frame_Inr:
  "defer_frame f c = (Inr (), d) \<Longrightarrow> \<exists>l. cl_pending d = cl_pending c @ [\<lparr>pf_frame = f, pf_lease = l\<rparr>]"
  by (auto simp: defer_frame_def ensure_healthy_def reject_unsolicited_result_def Let_def
      split: if_splits option.splits)

abbreviation is_event :: "PendingFrame \<Rightarrow> bool" where
  "is_event p \<equiv> fh_class (fr_header (pf_frame p)) = Event"

lemma next_event_loop:
  "gloop (next_event_turn H deadline) s = Some (r, t) \<Longrightarrow> client_inv (fst s) \<Longrightarrow>
     (\<forall>f. r = Inr (Some f) \<longrightarrow> fh_class (fr_header f) = Event)
     \<and> (\<forall>x. r = Inr x \<longrightarrow> (\<exists>new. cl_pending (fst t) = cl_pending (fst s) @ new \<and> (\<forall>p\<in>set new. \<not> is_event p)))"
proof (induction rule: gloop_induct)
  case (leaves s a t)
  have "same_work (fst s) (fst u)" if "read_next_until H deadline s = Some (Inr x, u)" for x u
    using run_okD[OF read_next_until_work that leaves.prems] by simp
  with leaves(1) show ?case
    by (auto simp: next_event_turn_def g_iff same_work_def)
next
  case (again s u r t)
  then obtain v f where v: "read_next_until H deadline s = Some (Inr (Some f), v)" "fh_class (fr_header f) \<noteq> Event"
    and "defer_frame f (fst v) = (Inr (), fst u)"
    by (auto simp: next_event_turn_def g_iff reject_unsolicited_Inr)
  then obtain l where u: "cl_pending (fst u) = cl_pending (fst v) @ [\<lparr>pf_frame = f, pf_lease = l\<rparr>]"
    using defer_frame_Inr by blast
  have "client_inv (fst v)" "cl_pending (fst v) = cl_pending (fst s)"
    using run_okD[OF read_next_until_work v(1) again.prems] by (auto simp: same_work_def)
  moreover have "client_inv (fst u)"
    using client_okD[OF defer_frame_ok \<open>defer_frame f (fst v) = _\<close>] calculation(1) by simp
  ultimately show ?case
    using again.IH u v(2) by fastforce
qed simp

text \<open>
  Events are delivered first come, first served, and nothing else is lost.  \<^verbatim>\<open>next_event\<close> returns an Event: the
  first one in the queue, which leaves the rest of the queue as it was, or, when the queue has
  none, one read from the wire, every frame read before it having been put at the end of the queue
  in the order of arrival.
\<close>

theorem next_event_first:
  assumes "client_inv c" and "next_event_until H deadline (c, h) = Some (Inr (Some f), t)"
  shows "fh_class (fr_header f) = Event
    \<and> (case position is_event (cl_pending c) of
         Some i \<Rightarrow> f = pf_frame (cl_pending c ! i) \<and> cl_pending (fst t) = drop_nth i (cl_pending c)
       | None \<Rightarrow> \<exists>new. cl_pending (fst t) = cl_pending c @ new \<and> list_all (\<lambda>p. \<not> is_event p) new)"
proof (cases "position is_event (cl_pending c)")
  case None
  then have "gloop (next_event_turn H deadline) (c, h) = Some (Inr (Some f), t)"
    using assms(2) by (auto simp: next_event_until_def g_iff dest!: reject_pending_Inr)
  from next_event_loop[OF this] assms(1) None show ?thesis
    by (auto simp: list_all_iff)
next
  case (Some i)
  then have "remove_pending i c = (Inr (Some f), fst t)"
    using assms(2) by (auto simp: next_event_until_def g_iff dest!: reject_pending_Inr)
  from remove_pending_Some[OF this] position_Some[OF Some] Some show ?thesis
    by simp
qed

section \<open>A read that fails ends the session\<close>

lemma gfinally_poisoning:
  "gfinally poisoning m s = Some (Inl (Err e), t) \<Longrightarrow> cl_poisoned (fst t)"
  by (auto simp: gfinally_def gcatch_Some_iff gbind_Some_iff gclient_Some_iff gstop_Some_iff poisoning_def poison_def)

lemma service_error: "service H f s = Some (Inl (Err e), t) \<Longrightarrow> cl_poisoned (fst t)"
  by (auto simp: service_def Let_def g_iff dest: gfinally_poisoning split: if_splits)

lemma read_turn_error:
  assumes "read_turn H deadline s = Some (Inl (Err e), t)"
  shows "cl_poisoned (fst t) \<or> e = PendingReadBlocked"
proof -
  consider "ensure_read_headroom (fst s) = Inl (Err e)" "t = s"
    | "gfinally poisoning (receive H deadline) s = Some (Inl (Err e), t)"
    | outcome u where "(case outcome of
         ReceivedFrame f \<Rightarrow> gbind (service H f) (\<lambda>r. gret (map_option Some r))
       | ReceiveDeadline \<Rightarrow>
           (if deadline \<noteq> MAX_INSTANT then gret (Some None)
            else gfinally poisoning (gstop (Err EndpointClosed)))
       | ReceiveClosed \<Rightarrow> gfinally poisoning (gstop (Err EndpointClosed))) u = Some (Inl (Err e), t)"
    using assms unfolding read_turn_def gbind_Some_iff gcheck_Some_iff by auto
  then show ?thesis
  proof cases
    case 1
    then show ?thesis
      by (auto simp: ensure_read_headroom_def ensure_healthy_def split: if_splits)
  next
    case (3 outcome u)
    then show ?thesis
      by (cases outcome) (auto simp: gbind_Some_iff gret_Some_iff dest: service_error gfinally_poisoning split: if_splits)
  qed (auto dest: gfinally_poisoning)
qed

text \<open>
  C37: no error of the wire is survived.  Whatever makes reading fail, a host error, a malformed frame,
  a Request the guest does not serve, GOAWAY, a catalogue update that does not follow, a closed endpoint,
  leaves the session poisoned; the one failure that does not is the refusal to read at all while the
  queue has no room for another frame.
\<close>

theorem read_failure_poisons:
  assumes "read_next_until H deadline s = Some (Inl (Err e), t)"
  shows "cl_poisoned (fst t) \<or> e = PendingReadBlocked"
proof -
  have "r = Inl (Err e) \<longrightarrow> cl_poisoned (fst t) \<or> e = PendingReadBlocked"
    if "gloop (read_turn H deadline) s = Some (r, t)" for r
    using that by (induction rule: gloop_induct) (auto dest: read_turn_error)
  then show ?thesis
    using assms unfolding read_next_until_def by blast
qed

section \<open>A Result settles its request\<close>

lemma gfinally_Inr: "gfinally f m s = Some (Inr a, t) \<longleftrightarrow> m s = Some (Inr a, t)"
  by (auto simp: gfinally_def gcatch_Some_iff gbind_Some_iff gstop_Some_iff)

lemma offer_result_Inr:
  "offer_result t f c = (Inr (Some p), d) \<longleftrightarrow> RequestToken_matches t f
     \<and> map_of (cl_outstanding c) (rt_request_id t) = Some (rt_family t, rt_kind t)
     \<and> ResultPrefix_decode (fr_payload f) = Inr p \<and> d = clear_outstanding (rt_request_id t) c"
  "offer_result t f c = (Inr None, d) \<longleftrightarrow> \<not> RequestToken_matches t f \<and> d = c"
  by (auto simp: offer_result_def Let_def split: sum.splits)

lemma defer_frame_outstanding: "defer_frame f c = (Inr (), d) \<Longrightarrow> cl_outstanding d = cl_outstanding c"
  by (auto simp: defer_frame_def ensure_healthy_def reject_unsolicited_result_def Let_def
      split: if_splits option.splits)

text \<open>
  Frames \<open>fs\<close> are read from the host one after the other and kept in the queue; \<open>v\<close> is where that leads.
\<close>

inductive keeps_reading :: "'h Host \<Rightarrow> int \<Rightarrow> Client \<times> 'h \<Rightarrow> Frame list \<Rightarrow> Client \<times> 'h \<Rightarrow> bool" for H deadline where
  stays: "keeps_reading H deadline s [] s"
| keeps: "keeps_reading H deadline s (f # fs) v"
    if "read_next_until H deadline s = Some (Inr (Some f), (c, h))" "defer_frame f c = (Inr (), d)" "keeps_reading H deadline (d, h) fs v"

definition settled_by :: "RequestToken \<Rightarrow> Client \<Rightarrow> Frame \<Rightarrow> ResultPrefix \<Rightarrow> Client \<Rightarrow> bool" where
  "settled_by t c f p d \<longleftrightarrow>
     map_of (cl_outstanding c) (rt_request_id t) = Some (rt_family t, rt_kind t)
     \<and> cl_outstanding d = AList.delete (rt_request_id t) (cl_outstanding c)
     \<and> RequestToken_matches t f \<and> ResultPrefix_decode (fr_payload f) = Inr p"

lemma await_loop_settles:
  "gloop (await_turn H t deadline) s = Some (r, u) \<Longrightarrow> client_inv (fst s) \<Longrightarrow> r = Inr p \<Longrightarrow>
     \<exists>fs f v c. keeps_reading H deadline s fs v \<and> (\<forall>g \<in> set fs. \<not> RequestToken_matches t g)
       \<and> read_next_until H deadline v = Some (Inr (Some f), (c, snd u)) \<and> settled_by t (fst s) f p (fst u)
       \<and> map pf_frame (cl_pending (fst u)) = map pf_frame (cl_pending (fst s)) @ fs"
proof (induction rule: gloop_induct)
  case (leaves s a u)
  then obtain v f where v: "read_next_until H deadline s = Some (Inr (Some f), v)"
    and offer: "offer_result t f (fst v) = (Inr (Some p), fst u)" "snd u = snd v"
    by (auto simp: await_turn_def g_iff gfinally_Inr)
  have "cl_outstanding (fst v) = cl_outstanding (fst s)" "cl_pending (fst v) = cl_pending (fst s)"
    using run_okD[OF read_next_until_work v leaves.prems(1)] by (simp_all add: same_work_def)
  then have "settled_by t (fst s) f p (fst u)" "map pf_frame (cl_pending (fst u)) = map pf_frame (cl_pending (fst s)) @ []"
    using offer(1) by (auto simp: settled_by_def offer_result_Inr clear_outstanding_def)
  then show ?case
    using v offer(2) by (intro exI[of _ "[]"] exI[of _ f] exI[of _ s] exI[of _ "fst v"]) (auto intro: stays simp: prod_eq_iff)
next
  case (again s w r u)
  then obtain v f where v: "read_next_until H deadline s = Some (Inr (Some f), v)"
    and w: "defer_frame f (fst v) = (Inr (), fst w)" "snd w = snd v" "\<not> RequestToken_matches t f"
    by (auto simp: await_turn_def g_iff gfinally_Inr offer_result_Inr)
  have v': "client_inv (fst v)" "cl_outstanding (fst v) = cl_outstanding (fst s)" "cl_pending (fst v) = cl_pending (fst s)"
    using run_okD[OF read_next_until_work v again.prems(1)] by (auto simp: same_work_def)
  have w': "client_inv (fst w)" "cl_outstanding (fst w) = cl_outstanding (fst s)"
    "map pf_frame (cl_pending (fst w)) = map pf_frame (cl_pending (fst s)) @ [f]"
    using client_okD[OF defer_frame_ok w(1) v'(1)] defer_frame_outstanding[OF w(1)] defer_frame_Inr[OF w(1)] v'(2,3) by auto
  obtain fs g x c where rest: "keeps_reading H deadline w fs x" "\<forall>g \<in> set fs. \<not> RequestToken_matches t g"
    "read_next_until H deadline x = Some (Inr (Some g), (c, snd u))" "settled_by t (fst w) g p (fst u)"
    "map pf_frame (cl_pending (fst u)) = map pf_frame (cl_pending (fst w)) @ fs"
    using again.IH[OF w'(1) again.prems(2)] by blast
  have "keeps_reading H deadline s (f # fs) x"
    using keeps[of H deadline s f "fst v" "snd v" "fst w" fs x] v w(1,2) rest(1) by (metis prod.collapse)
  moreover have "settled_by t (fst s) g p (fst u)"
    using rest(4) w'(2) by (simp add: settled_by_def)
  ultimately show ?case
    using rest w(3) w'(3) by (intro exI[of _ "f # fs"] exI[of _ g] exI[of _ x] exI[of _ c]) auto
qed simp

lemma take_pending_settles:
  assumes "take_pending_result t i s = Some (Inr p, u)"
  shows "i < length (cl_pending (fst s)) \<and> settled_by t (fst s) (pf_frame (cl_pending (fst s) ! i)) p (fst u)
    \<and> cl_pending (fst u) = drop_nth i (cl_pending (fst s)) \<and> snd u = snd s"
proof -
  obtain v f where v: "remove_pending i (fst s) = (Inr (Some f), fst v)" "snd v = snd s"
    and "offer_result t f (fst v) = (Inr (Some p), fst u)" "snd u = snd v"
    using assms by (auto simp: take_pending_result_def g_iff)
  then show ?thesis
    using remove_pending_Some[OF v(1)] by (auto simp: settled_by_def offer_result_Inr clear_outstanding_def)
qed

text \<open>
  C22: a Result is given to the request it answers, once.  When waiting for a request returns a Result, the request was
  outstanding; it is not any more, so that no second Result can answer it, and no other request has been touched.  What is returned is decoded
  from a Result frame with the request's id, family and kind: the first such frame in the queue, which leaves the rest of the queue and the host as they were, or, when the queue has none, the
  first such frame that comes from the host, every frame read before it having been put at the end of the queue in the order of arrival.
\<close>

theorem result_settles_request:
  assumes "client_inv c" and "await_result_until H t deadline (c, h) = Some (Inr p, u)"
  shows "map_of (cl_outstanding c) (rt_request_id t) = Some (rt_family t, rt_kind t)
    \<and> map_of (cl_outstanding (fst u)) = (map_of (cl_outstanding c))(rt_request_id t := None)
    \<and> (\<exists>f. fh_class (fr_header f) = Result \<and> fh_request_id (fr_header f) = Some (rt_request_id t)
        \<and> fh_family (fr_header f) = rt_family t \<and> fh_kind (fr_header f) = rt_kind t \<and> ResultPrefix_decode (fr_payload f) = Inr p
        \<and> (case position (\<lambda>p. RequestToken_matches t (pf_frame p)) (cl_pending c) of
             Some i \<Rightarrow> f = pf_frame (cl_pending c ! i) \<and> cl_pending (fst u) = drop_nth i (cl_pending c) \<and> snd u = h
           | None \<Rightarrow> \<exists>fs v d. keeps_reading H deadline (c, h) fs v \<and> list_all (\<lambda>g. \<not> RequestToken_matches t g) fs
               \<and> read_next_until H deadline v = Some (Inr (Some f), (d, snd u))
               \<and> map pf_frame (cl_pending (fst u)) = map pf_frame (cl_pending c) @ fs))"
proof (cases "position (\<lambda>p. RequestToken_matches t (pf_frame p)) (cl_pending c)")
  case None
  then have "gloop (await_turn H t deadline) (c, h) = Some (Inr p, u)"
    using assms(2) by (simp add: await_result_until_def g_iff)
  from await_loop_settles[OF this] assms(1) obtain fs f v d where "keeps_reading H deadline (c, h) fs v"
    "\<forall>g \<in> set fs. \<not> RequestToken_matches t g" "read_next_until H deadline v = Some (Inr (Some f), (d, snd u))" "settled_by t c f p (fst u)"
    "map pf_frame (cl_pending (fst u)) = map pf_frame (cl_pending c) @ fs"
    by auto
  then show ?thesis
    using None by (cases v) (auto simp: settled_by_def delete_conv' RequestToken_matches_def list_all_iff intro!: exI[of _ f])
next
  case (Some i)
  then have "take_pending_result t i (c, h) = Some (Inr p, u)"
    using assms(2) by (simp add: await_result_until_def g_iff)
  from take_pending_settles[OF this] show ?thesis
    using Some by (auto simp: settled_by_def delete_conv' RequestToken_matches_def)
qed

text \<open>
  A request id is there whenever there is room for a request.  With fewer than 1024 requests outstanding,
  the allocator finds an id within its 1025 attempts: odd, as the client's ids are, so never zero, and not the id of any
  outstanding request, also after the counter has wrapped around; with 1024 outstanding it refuses and changes nothing.
\<close>

theorem request_id_available:
  assumes "distinct (map fst (cl_outstanding c))"
  shows "if MAX_OUTSTANDING_REQUESTS \<le> length (cl_outstanding c)
    then allocate_available_request_id c = (Inl (Err TooManyOutstandingRequests), c)
    else \<exists>q. allocate_available_request_id c = (Inr q, c\<lparr>cl_next_request_id := q + 2\<rparr>)
      \<and> odd q \<and> q \<noteq> 0 \<and> map_of (cl_outstanding c) q = None"
  using allocate_available_cases[OF assms] by (auto split: if_splits)

section \<open>Lent credit\<close>

lemma gtry_Some_iff:
  "gtry m s = Some (r, t) \<longleftrightarrow>
     (\<exists>a. m s = Some (Inr a, t) \<and> r = Inr (Inr a)) \<or> (\<exists>e. m s = Some (Inl (Err e), t) \<and> r = Inr (Inl e))
     \<or> m s = Some (Inl Panic, t) \<and> r = Inl Panic"
proof -
  have "x = Panic \<or> (\<exists>e. x = Err e)" for x
    by (cases x) auto
  then show ?thesis
    unfolding gtry_def gcatch_Some_iff gbind_Some_iff gret_Some_iff by (auto; metis)
qed

lemma release_leases_exact:
  "leased ls \<le> unat (st_reserved (cl_receive_credit c)) \<Longrightarrow>
     \<exists>ms b. release_leases ls c = (Inr ms, c\<lparr>cl_receive_credit := b\<rparr>) \<and> list_all (\<lambda>l. ls_bytes l = 0) ms
       \<and> st_maximum b = st_maximum (cl_receive_credit c)
       \<and> unat (st_reserved b) + leased ls = unat (st_reserved (cl_receive_credit c))"
proof (induction ls arbitrary: c)
  case Nil
  then show ?case
    by (auto intro: exI[of _ "cl_receive_credit c"])
next
  case (Cons l ls)
  obtain b m where bm: "Lease_release (cl_receive_credit c) l = (b, m)"
    by (cases "Lease_release (cl_receive_credit c) l")
  have gb: "gives_back (cl_receive_credit c) l (b, m)" "ls_bytes m = 0"
    using gives_back_ops(3)[of l "cl_receive_credit c"] Lease_release_all[of "cl_receive_credit c" l] Cons.prems bm
    by (simp_all add: word_le_nat_alt)
  then have "leased ls \<le> unat (st_reserved b)"
    using Cons.prems by (simp add: gives_back_def)
  then obtain ms d where "release_leases ls (c\<lparr>cl_receive_credit := b\<rparr>) = (Inr ms, c\<lparr>cl_receive_credit := d\<rparr>)"
    "list_all (\<lambda>l. ls_bytes l = 0) ms" "st_maximum d = st_maximum b" "unat (st_reserved d) + leased ls = unat (st_reserved b)"
    using Cons.IH[of "c\<lparr>cl_receive_credit := b\<rparr>"] by auto
  then show ?case
    using gb bm by (intro exI[of _ "m # ms"] exI[of _ d]) (simp add: gives_back_def)
qed

lemma settle_lent_cases:
  assumes "settle_lent family kind decode ls x s = Some (Inr (r, ms), t)"
    and "leased ls \<le> unat (st_reserved (cl_receive_credit (fst s)))"
  shows "ms = ls \<and> cl_receive_credit (fst t) = cl_receive_credit (fst s)
    \<or> (\<exists>status detail. r = Inl (RequestFailed family kind status detail) \<and> status \<noteq> StOk
        \<and> list_all (\<lambda>l. ls_bytes l = 0) ms
        \<and> unat (st_reserved (cl_receive_credit (fst t))) + leased ls = unat (st_reserved (cl_receive_credit (fst s))))"
proof (cases x)
  case (Inl e)
  then show ?thesis
    using assms(1) by (simp add: settle_lent_def gret_Some_iff)
next
  case (Inr p)
  show ?thesis
  proof (cases "rp_status p = StOk")
    case True
    then show ?thesis
      using assms(1) Inr
      by (auto simp: settle_lent_def g_iff gtry_Some_iff decode_result_body_def poison_def split: sum.splits)
  next
    case False
    then show ?thesis
      using assms Inr release_leases_exact[OF assms(2)] by (auto simp: settle_lent_def g_iff)
  qed
qed

lemma leased_commit [simp]: "leased (map Lease_commit ls) = leased ls"
  by (induction ls) (simp_all add: Lease_commit_def)

text \<open>
  C35: credit that was lent is not lent twice.  A request that offers receive credit gives its leases back as they
  were only if the request never reached the host; once it did, they are committed, and stay so with their
  bytes reserved, whatever goes wrong, unless the peer answered with a Result other than OK: then
  they are released and the budget gets back exactly their bytes.
\<close>

theorem lent_credit:
  assumes "client_inv c" and "leased leases \<le> unat (st_reserved (cl_receive_credit c))"
    and "request_typed_with_receive_leases H family kind request sensitive decode leases (c, h) = Some (Inr (r, leases'), t)"
  shows "(\<exists>e. begin_typed_request H family kind request sensitive (c, h) = Some (Inl (Err e), t) \<and> r = Inl e \<and> leases' = leases)
    \<or> (\<exists>token u. begin_typed_request H family kind request sensitive (c, h) = Some (Inr token, u)
        \<and> (leases' = map Lease_commit leases \<and> cl_receive_credit (fst t) = cl_receive_credit c
           \<or> (\<exists>status detail. r = Inl (RequestFailed family kind status detail) \<and> status \<noteq> StOk
              \<and> list_all (\<lambda>l. ls_bytes l = 0) leases'
              \<and> unat (st_reserved (cl_receive_credit (fst t))) + leased leases = unat (st_reserved (cl_receive_credit c)))))"
proof -
  consider e where "begin_typed_request H family kind request sensitive (c, h) = Some (Inl (Err e), t)" "r = Inl e" "leases' = leases"
    | token u v x where "begin_typed_request H family kind request sensitive (c, h) = Some (Inr token, u)"
      "gtry (await_result_until H token MAX_INSTANT) u = Some (Inr x, v)"
      "settle_lent family kind decode (map Lease_commit leases) x v = Some (Inr (r, leases'), t)"
    using assms(3) unfolding request_typed_with_receive_leases_def
    by (auto simp: gbind_Some_iff gtry_Some_iff[of "begin_typed_request H family kind request sensitive"] gret_Some_iff)
  then show ?thesis
  proof cases
    case (2 token u v x)
    have u: "client_inv (fst u)" "cl_receive_credit (fst u) = cl_receive_credit c"
      using run_okD[OF begin_typed_request_ok "2"(1)] assms(1) by (auto simp: advances_def)
    obtain y where "await_result_until H token MAX_INSTANT u = Some (y, v)"
      using "2"(2) by (auto simp: gtry_Some_iff)
    then have v: "cl_receive_credit (fst v) = cl_receive_credit c"
      using run_okD[OF await_result_until_ok] u by (metis advances_def)
    then show ?thesis
      using settle_lent_cases[OF "2"(3)] assms(2) "2"(1) by auto
  qed blast
qed

end
