(* ===== verification/Guest_Returns.thy ===== *)
theory Guest_Returns
  imports Guest_Requests
begin

text \<open>
  When the calls of a guest session return.  A host that never stops sending can keep a call waiting
  for ever, answering pings; on a host that has only finitely many packets left to deliver every
  call comes back, because each turn of its loop uses up bytes that were received.
\<close>

section \<open>Loops that use something up\<close>

definition returns :: "('h, 'a) guest \<Rightarrow> bool" where
  "returns m \<longleftrightarrow> (\<forall>s. m s \<noteq> None)"

named_theorems returns \<open>calls that return\<close>

lemma returns_basic [returns]:
  "returns (gret a)" "returns (gstop e)" "returns (gclient f)" "returns (ghost g)" "returns (gcheck p)"
  "returns (receive H deadline)"
  by (auto simp: returns_def gret_def gstop_def gclient_def ghost_def gcheck_def receive_def split: prod.splits)

lemma returnsD: "returns m \<Longrightarrow> m s \<noteq> None"
  unfolding returns_def by blast

lemma returnsE:
  assumes "returns m"
  obtains r t where "m s = Some (r, t)"
  using returnsD[OF assms, of s] by (cases "m s") auto

lemma returns_bind [returns]:
  assumes "returns m" and "\<And>a. returns (f a)"
  shows "returns (gbind m f)"
  unfolding returns_def
proof
  fix s
  obtain r t where "m s = Some (r, t)"
    using returnsE[OF assms(1)] .
  then show "gbind m f s \<noteq> None"
    using returnsD[OF assms(2), of _ t] by (cases r) (simp_all add: gbind_def)
qed

lemma returns_catch [returns]:
  assumes "returns m" and "\<And>e. returns (f e)"
  shows "returns (gcatch m f)"
  unfolding returns_def
proof
  fix s
  obtain r t where "m s = Some (r, t)"
    using returnsE[OF assms(1)] .
  then show "gcatch m f s \<noteq> None"
    using returnsD[OF assms(2), of _ t] by (cases r; cases "projl r") (simp_all add: gcatch_def)
qed

lemma returns_finally [returns]: "returns m \<Longrightarrow> returns (gfinally f m)"
  unfolding gfinally_def by (intro returns)

lemma returns_cases [returns]:
  "returns m \<Longrightarrow> (\<And>a. returns (f a)) \<Longrightarrow> returns (case x of None \<Rightarrow> m | Some a \<Rightarrow> f a)"
  "returns m \<Longrightarrow> returns n \<Longrightarrow> returns (if P then m else n)"
  by (auto split: option.splits)

lemma returns_sum_case [returns]: "(\<And>a. returns (f a)) \<Longrightarrow> (\<And>b. returns (g b)) \<Longrightarrow> returns (case x of Inl a \<Rightarrow> f a | Inr b \<Rightarrow> g b)"
  by (cases x) simp_all

lemma returns_settle: "returns (settle_lent family kind decode leases r)"
  unfolding settle_lent_def gtry_def by (intro returns)

lemma returns_service [returns]: "returns (service H f)"
  unfolding service_def Let_def by (intro returns)

lemma returns_read_turn [returns]: "returns (read_turn H deadline)"
  unfolding read_turn_def by (intro returns) (auto split: StreamReceive.splits intro!: returns)

lemma returns_loop:
  assumes "wf R" and "returns body" and again: "\<And>s t. body s = Some (Inr None, t) \<Longrightarrow> (t, s) \<in> R"
  shows "returns (gloop body)"
proof -
  have "gloop body s \<noteq> None" for s
    using assms(1)
  proof (induction s rule: wf_induct_rule)
    case (less s)
    obtain r t where b: "body s = Some (r, t)"
      using returnsE[OF assms(2)] .
    show ?case
    proof (cases r)
      case (Inl e)
      with b show ?thesis
        by (subst gloop.simps) simp
    next
      case (Inr x)
      with b less again[of s t] show ?thesis
        by (subst gloop.simps) (cases x; simp)
    qed
  qed
  then show ?thesis
    by (simp add: returns_def)
qed

section \<open>Hosts that fall silent\<close>

text \<open>\<open>left\<close> counts the packets a host has still to deliver.\<close>

definition finite_host :: "'h Host \<Rightarrow> ('h \<Rightarrow> nat) \<Rightarrow> bool" where
  "finite_host H left \<longleftrightarrow>
     (\<forall>h p. left (snd (raw_send H h p)) \<le> left h) \<and> (\<forall>h d. left (snd (raw_wait H h d)) \<le> left h)
     \<and> (\<forall>h k. left (snd (raw_clock H h k)) \<le> left h) \<and> (\<forall>h n. left (snd (raw_alloc H h n)) \<le> left h)
     \<and> (\<forall>h n. left (snd (raw_recv H h n)) \<le> left h)
     \<and> (\<forall>h n r w h1. raw_recv H h n = ((r, w), h1) \<and> 0 < r \<and> nat r \<le> n \<longrightarrow> left h1 < left h)"

lemma finite_hostD:
  assumes "finite_host H left"
  shows "raw_send H h p = (r, h1) \<Longrightarrow> left h1 \<le> left h" "raw_wait H h d = (i, h1) \<Longrightarrow> left h1 \<le> left h"
    "raw_clock H h k = (i, h1) \<Longrightarrow> left h1 \<le> left h" "raw_alloc H h n = (b, h1) \<Longrightarrow> left h1 \<le> left h"
    "raw_recv H h n = (q, h1) \<Longrightarrow> left h1 \<le> left h"
    "raw_recv H h n = ((j, w), h1) \<Longrightarrow> 0 < j \<Longrightarrow> nat j \<le> n \<Longrightarrow> left h1 < left h"
  using assms unfolding finite_host_def by (metis snd_conv)+

lemma host_recv_left:
  assumes "finite_host H left" and "host_recv H h buffer = (r, buffer1, h1)"
  shows "left h1 \<le> left h" "r = Inr (Copied n) \<Longrightarrow> left h1 < left h"
  using assms(2) finite_hostD(5,6)[OF assms(1)]
  by (auto simp: host_recv_def Let_def split: if_splits prod.splits)

lemma recv_chunk_left:
  "finite_host H left \<Longrightarrow> recv_chunk H maximum h buffer = (r, buffer1, h1) \<Longrightarrow>
    left h1 \<le> left h \<and> (\<forall>chunk. r = Inr (Some chunk) \<longrightarrow> left h1 < left h)"
proof (induction H maximum h buffer rule: recv_chunk.induct)
  case (1 H maximum h buffer)
  note finite = "1.prems"(1)
  obtain r0 buffer0 h0 where r0: "host_recv H h buffer = (r0, buffer0, h0)"
    by (cases "host_recv H h buffer")
  note first = host_recv_left[OF finite r0]
  note step = "1.prems"(2)[unfolded recv_chunk.simps[of H maximum h buffer] r0 prod.case]
  show ?case
  proof (cases "\<exists>n. r0 = Inr (NeedsCapacity n) \<and> n \<le> maximum")
    case True
    then obtain n where n: "r0 = Inr (NeedsCapacity n)" "n \<le> maximum"
      by blast
    obtain ok h2 where a: "raw_alloc H h0 (n - length buffer0) = (ok, h2)"
      by (cases "raw_alloc H h0 (n - length buffer0)")
    have "left h2 \<le> left h"
      using finite_hostD(4)[OF finite a] first(1) by simp
    then show ?thesis
      using step n a "1.IH"[OF r0[symmetric] refl n(1) refl _ a[symmetric] _ finite] by (cases ok) auto
  next
    case False
    then show ?thesis
      using step first by (auto split: sum.splits RecvOutcome.splits if_splits)
  qed
qed

text \<open>What is left: packets at the host, then bytes in the buffer.\<close>

definition drained :: "('h \<Rightarrow> nat) \<Rightarrow> ((Client \<times> 'h) \<times> Client \<times> 'h) set" where
  "drained left = inv_image (less_than <*lex*> less_than) (\<lambda>(c, h). (left h, length (sr_stream (cl_receiver c))))"

lemma wf_drained: "wf (drained left)"
  by (simp add: drained_def wf_lex_prod)

lemma drained_iff:
  "((d, k), (c, h)) \<in> drained left \<longleftrightarrow> left k < left h \<or> left k = left h
     \<and> length (sr_stream (cl_receiver d)) < length (sr_stream (cl_receiver c))"
  by (simp add: drained_def)

lemma drained_trans: "(t, s) \<in> drained left \<Longrightarrow> (u, t) \<in> drained left \<Longrightarrow> (u, s) \<in> drained left"
  by (cases s; cases t; cases u) (auto simp: drained_iff)

lemma buffered_frame_shorter:
  "buffered_frame H codec sr = (Inr (Some f), sr1) \<Longrightarrow> length (sr_stream sr1) < length (sr_stream sr)"
  by (auto simp: buffered_frame_def Let_def split: if_splits sum.splits)

lemma recv_until_left:
  assumes finite: "finite_host H left"
  shows "StreamReceiver_recv_until H codec deadline sr h = (r, sr1, h1) \<Longrightarrow>
    r = Inr (ReceivedFrame f) \<Longrightarrow>
    left h1 < left h \<or> left h1 = left h \<and> length (sr_stream sr1) < length (sr_stream sr)"
proof (induction "sr_maximum sr - length (sr_stream sr)" arbitrary: sr h rule: less_induct)
  case less
  from less.prems(1) show ?case
  proof (cases rule: recv_until_cases)
    case (frame g)
    then show ?thesis
      using buffered_frame_shorter by blast
  next
    case (more h0 chunk buffer h2 h3)
    have "left h2 < left h"
      using recv_chunk_left[OF finite more(2)] more(1) finite_hostD(2)[OF finite]
      by (fastforce simp: host_wait_def split: prod.splits)
    then have "left h3 < left h"
      using finite_hostD(4)[OF finite more(3)] by simp
    moreover have "chunk \<noteq> []"
      using recv_chunk_nonempty[OF more(2)] .
    ultimately show ?thesis
      using less.hyps[OF _ more(5) less.prems(2)] more(4) by (simp add: neq_Nil_conv) fastforce
  qed (use less.prems(2) in auto)
qed

lemma receive_drained:
  "finite_host H left \<Longrightarrow> receive H deadline s = Some (Inr (ReceivedFrame f), t) \<Longrightarrow> (t, s) \<in> drained left"
  using recv_until_left by (fastforce simp: receive_def drained_iff split: prod.splits)

lemma send_packets_left: "finite_host H left \<Longrightarrow> left (snd (send_packets H h ps)) \<le> left h"
proof (induction ps arbitrary: h)
  case (Cons p ps)
  obtain r h1 where "raw_send H h p = (r, h1)"
    by (cases "raw_send H h p")
  with Cons finite_hostD(1)[OF Cons.prems this] show ?case
    using le_trans by fastforce
qed simp

lemma send_frame_left: "finite_host H left \<Longrightarrow> left (snd (send_frame H f c h)) \<le> left h"
  by (auto simp: send_frame_def send_stream_packets send_packets_left split: sum.splits)

lemma answer_ping_left:
  assumes "finite_host H left"
  shows "left (snd (answer_ping H f c h)) \<le> left h"
proof -
  obtain t1 h1 t2 h2 where clocks: "raw_clock H h 1 = (t1, h1)" "raw_clock H h1 1 = (t2, h2)"
    by (metis surj_pair)
  then have "left h2 \<le> left h"
    using finite_hostD(3)[OF assms] le_trans by blast
  then have "left (snd (send_frame H g c h2)) \<le> left h" for g
    using send_frame_left[OF assms, of g c h2] by (rule le_trans[rotated])
  then show ?thesis
    using clocks \<open>left h2 \<le> left h\<close>
    by (auto simp: answer_ping_def Let_def split: option.splits sum.splits)
qed

text \<open>Everything but receiving leaves the buffer alone and lets the host deliver nothing.\<close>

definition idle :: "('h \<Rightarrow> nat) \<Rightarrow> Client \<times> 'h \<Rightarrow> Client \<times> 'h \<Rightarrow> bool" where
  "idle left s t \<longleftrightarrow> left (snd t) \<le> left (snd s) \<and> cl_receiver (fst t) = cl_receiver (fst s)"

lemma idle_drained: "idle left s t \<Longrightarrow> (u, t) \<in> drained left \<Longrightarrow> (u, s) \<in> drained left"
  by (cases s; cases t; cases u) (auto simp: idle_def drained_iff)

lemma drained_idle: "(t, s) \<in> drained left \<Longrightarrow> idle left t u \<Longrightarrow> (u, s) \<in> drained left"
  by (cases s; cases t; cases u) (auto simp: idle_def drained_iff)

lemma ghost_Some_iff: "ghost f s = Some (r, t) \<longleftrightarrow> f (fst s) (snd s) = (r, snd t) \<and> fst t = fst s"
  by (cases s; cases t) (auto simp: ghost_def split: prod.splits)

lemma service_idle:
  assumes "finite_host H left" and "service H f s = Some (Inr x, t)"
  shows "idle left s t"
  using assms(2) answer_ping_left[OF assms(1), of f "fst s" "snd s"]
  by (auto simp: service_def Let_def g_iff gfinally_Inr ghost_Some_iff idle_def replaces_def
      apply_session_update_iff apply_family_update_iff split: if_splits sum.splits)

lemma read_turn_drained:
  assumes finite: "finite_host H left" and "read_turn H deadline s = Some (Inr x, t)" and "x \<noteq> Some None"
  shows "(t, s) \<in> drained left"
proof -
  obtain outcome u where u: "receive H deadline s = Some (Inr outcome, u)" and
    "(case outcome of
         ReceivedFrame f \<Rightarrow> gbind (service H f) (\<lambda>r. gret (map_option Some r))
       | ReceiveDeadline \<Rightarrow>
           (if deadline \<noteq> MAX_INSTANT then gret (Some None)
            else gfinally poisoning (gstop (Err EndpointClosed)))
       | ReceiveClosed \<Rightarrow> gfinally poisoning (gstop (Err EndpointClosed))) u = Some (Inr x, t)"
    using assms(2) unfolding read_turn_def gbind_Some_iff gcheck_Some_iff gfinally_Inr by auto
  then obtain f y where f: "outcome = ReceivedFrame f" and "service H f u = Some (Inr y, t)"
    using assms(3) by (cases outcome) (auto simp: g_iff gfinally_Inr split: if_splits)
  then show ?thesis
    using drained_idle[OF receive_drained[OF finite] service_idle[OF finite]] u f by blast
qed

section \<open>Calls return\<close>

lemma returns_read:
  assumes "finite_host H left"
  shows "returns (read_next_until H deadline)"
  unfolding read_next_until_def
  by (rule returns_loop[OF wf_drained returns_read_turn]) (erule read_turn_drained[OF assms], simp)

lemma read_next_drained:
  assumes "finite_host H left" and "read_next_until H deadline s = Some (Inr (Some f), t)"
  shows "(t, s) \<in> drained left"
proof -
  have "(t, s) \<in> drained left" if "gloop (read_turn H deadline) s = Some (r, t)" "r = Inr (Some f)" for r
    using that
  proof (induction rule: gloop_induct)
    case (leaves s a t)
    then show ?case
      using read_turn_drained[OF assms(1)] by simp
  next
    case (again s u r t)
    then show ?case
      using read_turn_drained[OF assms(1) again(1)] drained_trans by blast
  qed simp
  then show ?thesis
    using assms(2) unfolding read_next_until_def by blast
qed

lemma defer_receiver: "defer_frame f c = (r, d) \<Longrightarrow> cl_receiver d = cl_receiver c"
  by (auto simp: defer_frame_def ensure_healthy_def reject_unsolicited_result_def poison_def Let_def
      split: if_splits option.splits)

text \<open>A turn that reads a frame and keeps it.\<close>

lemma kept_drained:
  assumes "finite_host H left" and "read_next_until H deadline s = Some (Inr (Some f), u)"
    and "defer_frame f (fst u) = (r, fst t)" and "snd t = snd u"
  shows "(t, s) \<in> drained left"
proof -
  have "idle left u t"
    using defer_receiver[OF assms(3)] assms(4) by (simp add: idle_def)
  then show ?thesis
    by (rule drained_idle[OF read_next_drained[OF assms(1,2)]])
qed

lemma turns_drained:
  assumes "finite_host H left"
  shows "next_event_turn H deadline s = Some (Inr None, t) \<Longrightarrow> (t, s) \<in> drained left"
    and "next_matching_frame_turn H deadline P s = Some (Inr None, t) \<Longrightarrow> (t, s) \<in> drained left"
    and "next_matching_event_turn H P s = Some (Inr None, t) \<Longrightarrow> (t, s) \<in> drained left"
    and "await_turn H token deadline s = Some (Inr None, t) \<Longrightarrow> (t, s) \<in> drained left"
    and "sleep_turn H deadline s = Some (Inr None, t) \<Longrightarrow> (t, s) \<in> drained left"
proof -
  note kept = kept_drained[OF assms]
  show "next_event_turn H deadline s = Some (Inr None, t) \<Longrightarrow> (t, s) \<in> drained left"
    by (auto simp: next_event_turn_def g_iff reject_unsolicited_Inr intro!: kept)
  show "next_matching_frame_turn H deadline P s = Some (Inr None, t) \<Longrightarrow> (t, s) \<in> drained left"
    by (auto simp: next_matching_frame_turn_def g_iff reject_unsolicited_Inr intro!: kept)
  show "next_matching_event_turn H P s = Some (Inr None, t) \<Longrightarrow> (t, s) \<in> drained left"
    by (auto simp: next_matching_event_turn_def expect_frame_def g_iff reject_unsolicited_Inr intro!: kept)
  show "await_turn H token deadline s = Some (Inr None, t) \<Longrightarrow> (t, s) \<in> drained left"
    by (auto simp: await_turn_def g_iff gfinally_Inr offer_result_Inr intro!: kept)
  show "(t, s) \<in> drained left" if slept: "sleep_turn H deadline s = Some (Inr None, t)"
  proof -
    obtain now u where u: "ghost (\<lambda>_ h. case raw_clock H h 1 of (t, h1) \<Rightarrow> (Inr t, h1)) s = Some (Inr now, u)"
      and turn: "(if deadline \<le> now then gret (Some ()) else gbind (read_next_until H deadline) (\<lambda>got.
         case got of Some f \<Rightarrow> gbind (gclient (defer_frame f)) (\<lambda>_. gret None) | None \<Rightarrow> gret (Some ()))) u = Some (Inr None, t)"
      using slept unfolding sleep_turn_def by (subst (asm) gbind_Some_iff) blast
    have rest: "(t, u) \<in> drained left"
      using turn by (auto simp: g_iff intro!: kept split: if_splits)
    have "idle left s u"
      using u finite_hostD(3)[OF assms] by (auto simp: ghost_Some_iff idle_def split: prod.splits)
    then show ?thesis
      using rest by (rule idle_drained)
  qed
qed

lemma returns_loops:
  assumes finite: "finite_host H left"
  shows "returns (gloop (next_event_turn H deadline))" "returns (gloop (next_matching_frame_turn H deadline P))"
    "returns (gloop (next_matching_event_turn H P))" "returns (gloop (await_turn H token deadline))"
    "returns (gloop (sleep_turn H deadline))"
proof -
  note [returns] = returns_read[OF finite]
  note loop = returns_loop[OF wf_drained]
  show "returns (gloop (next_event_turn H deadline))"
    by (rule loop[OF _ turns_drained(1)[OF finite]]) (unfold next_event_turn_def, intro returns)
  show "returns (gloop (next_matching_frame_turn H deadline P))"
    by (rule loop[OF _ turns_drained(2)[OF finite]]) (unfold next_matching_frame_turn_def, intro returns)
  show "returns (gloop (next_matching_event_turn H P))"
    by (rule loop[OF _ turns_drained(3)[OF finite]]) (unfold next_matching_event_turn_def expect_frame_def, intro returns)
  show "returns (gloop (await_turn H token deadline))"
    by (rule loop[OF _ turns_drained(4)[OF finite]]) (unfold await_turn_def, intro returns)
  show "returns (gloop (sleep_turn H deadline))"
    by (rule loop[OF _ turns_drained(5)[OF finite]]) (unfold sleep_turn_def, intro returns)
qed

text \<open>
  C29: calls return.  On a host that has finitely many packets left to deliver, whatever these packets are and
  whatever it answers to everything else, reading, waiting for an event or a frame, making a
  request, awaiting or cancelling one, pinging and sleeping all return a result or an error.
\<close>

theorem calls_return:
  assumes "finite_host H left"
  shows "(\<exists>y. read_next_until H deadline s = Some y) \<and> (\<exists>y. next_event_until H deadline s = Some y)
    \<and> (\<exists>y. next_frame_until H deadline s = Some y) \<and> (\<exists>y. next_matching_frame_until H deadline P s = Some y)
    \<and> (\<exists>y. next_matching_event H P s = Some y) \<and> (\<exists>y. await_result_until H token deadline s = Some y)
    \<and> (\<exists>y. request_result_until H family kind payload sensitive deadline s = Some y)
    \<and> (\<exists>y. cancel_request_and_wait H token s = Some y) \<and> (\<exists>y. guest_ping H s = Some y)
    \<and> (\<exists>y. guest_sleep H duration s = Some y)
    \<and> (\<exists>y. request_typed_with_receive_leases H family kind request sensitive decode leases s = Some y)
    \<and> (\<exists>y. request_typed_with_receive_lease_until H family kind request sensitive deadline decode lease s = Some y)"
proof -
  note [returns] = returns_read[OF assms] returns_loops[OF assms]
  have await: "returns (await_result_until H t d)" for t d
    unfolding await_result_until_def take_pending_result_def by (intro returns)
  have request: "returns (request_result_until H f k p b d)" for f k p b d
    unfolding request_result_until_def begin_request_def Let_def by (intro returns await)
  have cancel: "returns (cancel_request_and_wait H token)" for token
    unfolding cancel_request_and_wait_def request_result_def take_pending_result_def by (intro returns await request)
  moreover have "returns (guest_ping H)"
    unfolding guest_ping_def request_typed_def guest_request_def request_result_def by (intro returns request)
  moreover have "returns (next_event_until H deadline)" "returns (next_frame_until H deadline)"
    "returns (next_matching_frame_until H deadline P)" "returns (next_matching_event H P)" "returns (guest_sleep H duration)"
    unfolding next_event_until_def next_frame_until_def next_matching_frame_until_def next_matching_event_def guest_sleep_def
    by (intro returns)+
  moreover have "returns (request_typed_with_receive_leases H family kind request sensitive decode leases)"
    "returns (request_typed_with_receive_lease_until H family kind request sensitive deadline decode lease)"
    unfolding request_typed_with_receive_leases_def request_typed_with_receive_lease_until_def gtry_def begin_typed_request_def begin_request_def Let_def
    by (intro returns await cancel returns_settle)+
  ultimately show ?thesis
    using await request cancel returns_read[OF assms] by (metis returnsE)
qed

end
