(* ===== verification/Guest_Bootstrap.thy ===== *)
theory Guest_Bootstrap
  imports Guest_Requests
begin

text \<open>
  How a guest session begins (\<^verbatim>\<open>bootstrap_with_offers\<close> of \<^verbatim>\<open>crates/guest/src/yas.rs\<close>) and everything that can
  happen to it afterwards: the sessions reachable through any sequence of calls, on any host.
\<close>

section \<open>Bootstrap\<close>

definition MAX_RANDOM_CHUNK :: nat where "MAX_RANDOM_CHUNK = 64 * 1024"

function host_random :: "'h Host \<Rightarrow> 'h \<Rightarrow> bytes \<Rightarrow> (HostError + bytes) \<times> 'h" where
  "host_random H h destination =
     (if destination = [] then (Inr [], h)
      else let chunk = take MAX_RANDOM_CHUNK destination in
        case raw_random H h (length chunk) of
          (None, h1) \<Rightarrow> (Inl EntropyUnavailable, h1)
        | (Some written, h1) \<Rightarrow>
            (case host_random H h1 (drop MAX_RANDOM_CHUNK destination) of
               (Inl e, h2) \<Rightarrow> (Inl e, h2)
             | (Inr rest, h2) \<Rightarrow> (Inr (overlay chunk written @ rest), h2)))"
  by pat_completeness auto
termination
  by (relation "measure (\<lambda>(_, _, d). length d)") (auto simp: MAX_RANDOM_CHUNK_def)

declare host_random.simps [simp del]

definition HELLO_REQUEST_ID :: u32 where "HELLO_REQUEST_ID = 1"
definition TRANSFER_VERSION :: u16 where "TRANSFER_VERSION = 1"
definition CHANNEL_VERSION :: u16 where "CHANNEL_VERSION = 1"

text \<open>\<^verbatim>\<open>"yas-guest"\<close>.\<close>

definition GUEST_NAME :: bytes where "GUEST_NAME = [121, 97, 115, 45, 103, 117, 101, 115, 116]"

definition guest_offers :: "FamilyOffer list \<Rightarrow> FamilyOffer list" where
  "guest_offers families =
     sort_key fo_family_id (families @
       [\<lparr>fo_family_id = FAMILY_TRANSFER, fo_versions = [TRANSFER_VERSION], fo_required = True\<rparr>,
        \<lparr>fo_family_id = FAMILY_CHANNEL, fo_versions = [CHANNEL_VERSION], fo_required = True\<rparr>,
        \<lparr>fo_family_id = FAMILY_EXTENSION, fo_versions = [EXTENSION_VERSION], fo_required = True\<rparr>])"

text \<open>\<open>release\<close> is the package version the crate is compiled with.\<close>

definition guest_offer :: "bytes \<Rightarrow> bytes \<Rightarrow> FamilyOffer list \<Rightarrow> ClientHello" where
  "guest_offer release client_instance families =
     \<lparr>ch_min_minor = 1, ch_max_minor = 1,
      ch_receive = \<lparr>rl_max_frame = RECEIVE_MAX_FRAME, rl_max_decoded = RECEIVE_MAX_DECODED,
                    rl_max_datagram = 0, rl_max_buffered = RECEIVE_MAX_BUFFERED\<rparr>,
      ch_client_instance = client_instance, ch_client_name = GUEST_NAME, ch_client_release = release,
      ch_families = guest_offers families, ch_codecs = [], ch_extensions = []\<rparr>"

text \<open>The two operations of the Extension family a guest cannot do without.\<close>

definition check_attempt_operations :: "ServerHello \<Rightarrow> stop + unit" where
  "check_attempt_operations hello =
     (case find (\<lambda>d. fd_family_id d = FAMILY_EXTENSION) (se_families hello) of
        None \<Rightarrow> Inl (Err ExtensionUnavailable)
      | Some extension \<Rightarrow>
     (case FamilyDescriptor_operation extension Event ATTEMPT_CONTEXT_KIND of
        None \<Rightarrow> Inl (Err ExtensionUnavailable)
      | Some attempt \<Rightarrow>
     if opn_server_accepts attempt \<or> \<not> opn_server_sends attempt then Inl (Err ExtensionUnavailable)
     else (case FamilyDescriptor_operation extension Event ATTEMPT_OUTPUT_KIND of
        None \<Rightarrow> Inl (Err ExtensionUnavailable)
      | Some output \<Rightarrow>
     if \<not> opn_server_accepts output \<or> opn_server_sends output then Inl (Err ExtensionUnavailable)
     else Inr ())))"

text \<open>The server's answer to the HELLO, checked against the offer.\<close>

definition accept_hello :: "ClientHello \<Rightarrow> Frame \<Rightarrow> stop + ServerHello" where
  "accept_hello offer response =
     (if fr_header response \<noteq> FrameHeader_result FAMILY_CORE HELLO_KIND HELLO_REQUEST_ID
      then Inl (Err UnexpectedHello)
      else ebind (wire (ResultPrefix_decode (fr_payload response))) (\<lambda>result.
      if rp_status result \<noteq> StOk then Inl (Err (HelloRejected (rp_status result)))
      else ebind (wire (ServerHello_decode (rp_body result))) (\<lambda>hello.
      ebind (wire (ServerHello_validate_for_client hello offer)) (\<lambda>_.
      ebind (check_attempt_operations hello) (\<lambda>_. Inr hello)))))"

definition accept_context :: "Frame \<Rightarrow> stop + AttemptContext" where
  "accept_context f =
     (if fr_header f \<noteq> (FrameHeader_event FAMILY_EXTENSION ATTEMPT_CONTEXT_KIND)\<lparr>fh_sensitive := True\<rparr>
      then Inl (Err ExpectedAttemptContext)
      else wire (AttemptContext_decode (fr_payload f)))"

text \<open>The host part of a bootstrap: \<open>hbind\<close> is \<^verbatim>\<open>?\<close> on calls that only move the host.\<close>

definition hbind :: "('h \<Rightarrow> (stop + 'a) \<times> 'h) \<Rightarrow> ('a \<Rightarrow> 'h \<Rightarrow> (stop + 'b) \<times> 'h) \<Rightarrow> 'h \<Rightarrow> (stop + 'b) \<times> 'h" where
  "hbind m f h = (case m h of (Inl e, h1) \<Rightarrow> (Inl e, h1) | (Inr a, h1) \<Rightarrow> f a h1)"

definition hlift :: "stop + 'a \<Rightarrow> 'h \<Rightarrow> (stop + 'a) \<times> 'h" where
  "hlift r h = (r, h)"

definition recv_frame ::
  "'h Host \<Rightarrow> FrameCodec \<Rightarrow> StreamReceiver \<Rightarrow> 'h \<Rightarrow> (stop + Frame \<times> StreamReceiver) \<times> 'h" where
  "recv_frame H codec sr h =
     (case StreamReceiver_recv H codec sr h of (r, sr1, h1) \<Rightarrow>
        (case r of
           Inl e \<Rightarrow> Inl e
         | Inr None \<Rightarrow> Inl (Err EndpointClosed)
         | Inr (Some f) \<Rightarrow> Inr (f, sr1), h1))"

definition new_client ::
  "ServerHello \<Rightarrow> AttemptContext \<Rightarrow> FrameCodec \<Rightarrow> FrameCodec \<Rightarrow> StreamReceiver \<Rightarrow> u16 list \<Rightarrow> Client" where
  "new_client hello context inbound outbound receiver codecs =
     \<lparr>cl_hello = hello, cl_context = context, cl_inbound = inbound, cl_outbound = outbound,
      cl_receiver = receiver, cl_next_request_id = 2, cl_outstanding = [], cl_pending = [],
      cl_pending_bytes = 0, cl_receive_credit = Budget_new RECEIVE_CREDIT_BUDGET,
      cl_receive_pending = Budget_new RECEIVE_PENDING_BUDGET, cl_poisoned = False,
      cl_negotiated_codecs = codecs\<rparr>"

definition bootstrap_with_offers ::
  "'h Host \<Rightarrow> bytes \<Rightarrow> FamilyOffer list \<Rightarrow> 'h \<Rightarrow> (stop + Client) \<times> 'h" where
  "bootstrap_with_offers H release families =
     (if list_ex (\<lambda>offer. fo_family_id offer \<in>
           {FAMILY_CORE, FAMILY_TRANSFER, FAMILY_CHANNEL, FAMILY_EXTENSION}) families
      then hlift (Inl (Err (WireFailed (Invalid ''guest family offer''))))
      else hbind (\<lambda>h. case host_random H h (replicate 16 0) of
          (Inl e, h1) \<Rightarrow> (Inl (Err (HostFailed e)), h1) | (Inr b, h1) \<Rightarrow> (Inr b, h1)) (\<lambda>client_instance.
      let offer = guest_offer release client_instance families in
      hbind (hlift (wire (ClientHello_validate offer))) (\<lambda>_.
      hbind (\<lambda>h. send_chunk H h PREFACE) (\<lambda>_.
      hbind (hlift (wire (ClientHello_encode offer))) (\<lambda>payload.
      hbind (hlift (case FrameCodec_pre_hello of Inl _ \<Rightarrow> Inl Panic | Inr codec \<Rightarrow> Inr codec)) (\<lambda>pre_hello.
      hbind (hlift (wire (FrameCodec_encode_stream (lz4_compress H) pre_hello
          \<lparr>fr_header = FrameHeader_request FAMILY_CORE HELLO_KIND HELLO_REQUEST_ID, fr_payload = payload\<rparr>))) (\<lambda>b.
      hbind (\<lambda>h. send_stream H h b) (\<lambda>_.
      hbind (recv_frame H pre_hello (StreamReceiver_new (unat RECEIVE_MAX_BUFFERED))) (\<lambda>(response, receiver).
      hbind (hlift (accept_hello offer response)) (\<lambda>hello.
      hbind (hlift (wire (ServerHello_negotiated_codecs hello))) (\<lambda>codecs.
      hbind (hlift (wire (FrameCodec_new \<lparr>fl_max_wire_frame = RECEIVE_MAX_FRAME,
                                          fl_max_decoded_frame = RECEIVE_MAX_DECODED\<rparr> codecs))) (\<lambda>inbound.
      hbind (hlift (wire (FrameCodec_new (limits_of (se_receive hello)) codecs))) (\<lambda>outbound.
      hbind (recv_frame H inbound receiver) (\<lambda>(context_frame, receiver).
      hbind (hlift (accept_context context_frame)) (\<lambda>context.
        hlift (Inr (new_client hello context inbound outbound receiver codecs)))))))))))))))))"

definition bootstrap :: "'h Host \<Rightarrow> bytes \<Rightarrow> 'h \<Rightarrow> (stop + Client) \<times> 'h" where
  "bootstrap H release =
     bootstrap_with_offers H release
       (map (\<lambda>m. \<lparr>fo_family_id = fm_id m, fo_versions = [fm_version m], fo_required = False\<rparr>)
         (filter (\<lambda>m. fm_id m \<notin> {FAMILY_CORE, FAMILY_TRANSFER, FAMILY_CHANNEL, FAMILY_EXTENSION}) FAMILIES))"

section \<open>What a bootstrap establishes\<close>

lemma hbind_Inr_iff: "hbind m f h = (Inr b, h') \<longleftrightarrow> (\<exists>a h1. m h = (Inr a, h1) \<and> f a h1 = (Inr b, h'))"
  by (cases "m h"; cases "fst (m h)") (auto simp: hbind_def)

lemma hlift_Inr_iff: "hlift r h = (Inr a, h') \<longleftrightarrow> r = Inr a \<and> h' = h"
  by (auto simp: hlift_def)

lemma recv_frame_ok:
  assumes "recv_frame H codec sr h = (Inr (f, sr1), h1)" and "receiver_ok sr"
  shows "receiver_ok sr1 \<and> sr_maximum sr1 = sr_maximum sr"
proof -
  obtain r where r: "StreamReceiver_recv_until H codec MAX_INSTANT sr h = (r, sr1, h1)"
    using assms(1)
    by (auto simp: recv_frame_def StreamReceiver_recv_def split: prod.splits sum.splits option.splits StreamReceive.splits)
  show ?thesis
    by (rule recv_until_ok[OF assms(2) r])
qed

lemma bootstrap_parts:
  assumes "bootstrap_with_offers H release families h = (Inr c, h1)"
  shows "\<exists>inst response hello context inbound outbound receiver codecs.
    c = new_client hello context inbound outbound receiver codecs \<and> receiver_ok receiver
    \<and> accept_hello (guest_offer release inst families) response = Inr hello
    \<and> ServerHello_negotiated_codecs hello = Inr codecs
    \<and> FrameCodec_new \<lparr>fl_max_wire_frame = RECEIVE_MAX_FRAME, fl_max_decoded_frame = RECEIVE_MAX_DECODED\<rparr> codecs = Inr inbound
    \<and> FrameCodec_new (limits_of (se_receive hello)) codecs = Inr outbound
    \<and> (\<forall>offer\<in>set families. fo_family_id offer \<notin> {FAMILY_CORE, FAMILY_TRANSFER, FAMILY_CHANNEL, FAMILY_EXTENSION})"
  using assms unfolding bootstrap_with_offers_def list_ex_iff
  by (auto simp: Let_def hbind_Inr_iff hlift_Inr_iff wire_Inr_iff simp del: insert_iff
      dest!: recv_frame_ok intro: receiver_ok_new split: if_splits) blast

lemma validate_for_client_parts:
  assumes "ServerHello_validate_for_client h client = Inr ()"
  shows "catalog_ok (se_families h)"
    and "d \<in> set (tl (se_families h)) \<Longrightarrow> \<exists>offer\<in>set (ch_families client).
      fo_family_id offer = fd_family_id d \<and> fd_version d \<in> set (fo_versions offer)"
    and "offer \<in> set (ch_families client) \<Longrightarrow> fo_required offer \<Longrightarrow>
      fo_family_id offer \<in> fd_family_id ` set (se_families h)"
    and "ServerHello_negotiated_codecs h = Inr codecs \<Longrightarrow> set codecs \<subseteq> set (ch_codecs client)"
proof -
  from assms have valid: "ServerHello_validate h = Inr ()"
    and selected: "check_each (check_selected client) (drop 1 (se_families h)) = Inr ()"
    and required: "\<not> list_ex (\<lambda>offer. fo_required offer
      \<and> \<not> list_ex (\<lambda>family. fd_family_id family = fo_family_id offer) (se_families h)) (ch_families client)"
    and negotiated: "ServerHello_negotiated_codecs h = Inr codecs \<Longrightarrow>
      NegotiatedCodecs_validate_offered_by codecs client = Inr ()"
    by (auto simp: ServerHello_validate_for_client_def enc_iff)
  show "catalog_ok (se_families h)"
    using ServerHello_validate_catalog[OF valid] by simp
  show "\<exists>offer\<in>set (ch_families client). fo_family_id offer = fd_family_id d \<and> fd_version d \<in> set (fo_versions offer)"
    if "d \<in> set (tl (se_families h))"
    using selected that by (auto simp: check_each_iff drop_Suc intro!: check_selected_offered)
  show "fo_family_id offer \<in> fd_family_id ` set (se_families h)"
    if "offer \<in> set (ch_families client)" "fo_required offer"
    using required_selected[OF required] that by blast
  show "set codecs \<subseteq> set (ch_codecs client)" if "ServerHello_negotiated_codecs h = Inr codecs"
    using negotiated[OF that] by (auto simp: NegotiatedCodecs_validate_offered_by_def enc_iff list_ex_iff)
qed

lemma accept_hello_iff:
  "accept_hello offer response = Inr hello \<longleftrightarrow>
     fr_header response = FrameHeader_result FAMILY_CORE HELLO_KIND HELLO_REQUEST_ID
     \<and> (\<exists>result. ResultPrefix_decode (fr_payload response) = Inr result \<and> rp_status result = StOk
          \<and> ServerHello_decode (rp_body result) = Inr hello)
     \<and> ServerHello_validate_for_client hello offer = Inr () \<and> check_attempt_operations hello = Inr ()"
  by (auto simp: accept_hello_def enc_iff wire_Inr_iff)

lemma attempt_output_supported:
  assumes "check_attempt_operations (cl_hello c) = Inr ()"
  shows "Client_supports c FAMILY_EXTENSION Event ATTEMPT_OUTPUT_KIND"
  using assms by (auto simp: check_attempt_operations_def Client_supports_def Client_family_def
      split: option.splits if_splits)

text \<open>
  C15: a bootstrap that succeeds leaves a session in good order, negotiated as the guest asked.  The catalogue is
  the server's, starts with Core, is closed under dependencies, and every other family was offered by the
  guest in the selected version; Transfer, Channel and Extension are selected in version 1, and the guest
  may send ATTEMPT_OUTPUT; no compression is negotiated; frames are sent within
  the server's limits and received within the guest's own.
\<close>

theorem bootstrap_negotiates:
  assumes "bootstrap_with_offers H release families h = (Inr c, h1)"
  shows "client_inv c \<and> \<not> cl_poisoned c \<and> cl_negotiated_codecs c = []
    \<and> fc_limits (cl_outbound c) = limits_of (se_receive (cl_hello c))
    \<and> fc_limits (cl_inbound c) = \<lparr>fl_max_wire_frame = RECEIVE_MAX_FRAME, fl_max_decoded_frame = RECEIVE_MAX_DECODED\<rparr>
    \<and> {(FAMILY_TRANSFER, 1), (FAMILY_CHANNEL, 1), (FAMILY_EXTENSION, 1)} \<subseteq> set (family_keys c)
    \<and> (\<forall>d\<in>set (tl (se_families (cl_hello c))). \<exists>offer\<in>set (guest_offers families).
         fo_family_id offer = fd_family_id d \<and> fd_version d \<in> set (fo_versions offer))
    \<and> Client_supports c FAMILY_EXTENSION Event ATTEMPT_OUTPUT_KIND"
proof -
  obtain inst response hello ctxt inbound outbound receiver codecs where
    c: "c = new_client hello ctxt inbound outbound receiver codecs" and receiver: "receiver_ok receiver"
    and hello: "accept_hello (guest_offer release inst families) response = Inr hello"
    and codecs: "ServerHello_negotiated_codecs hello = Inr codecs"
    and inbound: "FrameCodec_new \<lparr>fl_max_wire_frame = RECEIVE_MAX_FRAME, fl_max_decoded_frame = RECEIVE_MAX_DECODED\<rparr> codecs = Inr inbound"
    and outbound: "FrameCodec_new (limits_of (se_receive hello)) codecs = Inr outbound"
    and foreign: "\<forall>offer\<in>set families. fo_family_id offer \<notin> {FAMILY_CORE, FAMILY_TRANSFER, FAMILY_CHANNEL, FAMILY_EXTENSION}"
    using bootstrap_parts[OF assms] by blast
  have valid: "ServerHello_validate_for_client hello (guest_offer release inst families) = Inr ()"
    and attempt: "check_attempt_operations hello = Inr ()"
    using hello by (auto simp: accept_hello_iff)
  note parts = validate_for_client_parts[OF valid]
  have none: "codecs = []"
    using parts(4)[OF codecs] by (simp add: guest_offer_def)
  have inv: "client_inv c"
    using parts(1) outbound receiver
    by (simp add: c new_client_def client_inv_def pending_ok_def Budget_new_def)
  have offers: "\<forall>d\<in>set (tl (se_families hello)). \<exists>offer\<in>set (guest_offers families).
      fo_family_id offer = fd_family_id d \<and> fd_version d \<in> set (fo_versions offer)"
    using parts(2) by (simp add: guest_offer_def)
  have "(f, 1) \<in> set (family_keys c)" if f: "f \<in> {FAMILY_TRANSFER, FAMILY_CHANNEL, FAMILY_EXTENSION}" for f
  proof -
    have own: "\<exists>offer\<in>set (guest_offers families). fo_family_id offer = f \<and> fo_required offer"
      "offer \<in> set (guest_offers families) \<Longrightarrow> fo_family_id offer = f \<Longrightarrow> fo_versions offer = [1]" for offer
      using f foreign
      by (auto simp: guest_offers_def TRANSFER_VERSION_def CHANNEL_VERSION_def EXTENSION_VERSION_def family_consts)
    then obtain d where d: "d \<in> set (se_families hello)" "fd_family_id d = f"
      using parts(3) by (fastforce simp: guest_offer_def)
    have "f \<noteq> FAMILY_CORE"
      using f by (auto simp: family_consts)
    then have "d \<in> set (tl (se_families hello))"
      using d parts(1) by (cases "se_families hello") (auto simp: catalog_ok_def)
    then have "fd_version d = 1"
      using offers own(2) d(2) by fastforce
    then show ?thesis
      using d by (force simp: family_keys_def c new_client_def)
  qed
  then show ?thesis
    using inv none inbound outbound offers attempt_output_supported[of c] attempt
    by (simp add: c new_client_def FrameCodec_new_iff)
qed

end
