(* ===== verification/Guest_Reach.thy ===== *)
theory Guest_Reach
  imports Guest_Returns Guest_Bootstrap
begin

text \<open>
  Everything that can happen to a guest session after its bootstrap: the step relation of the calls of
  \<^verbatim>\<open>crates/guest/src/yas.rs\<close> that change a session, on an arbitrary host, the sessions it reaches, and the invariants
  these sessions have.  The last section runs a concrete session and host.
\<close>

section \<open>Any sequence of calls\<close>

text \<open>
  One call of the application, whether it succeeds or fails; \<open>lease\<close> is an owner giving back receive credit, and \<open>lends\<close> and \<open>lends_until\<close> are requests that lend it:
  it can be no more than what is reserved.  The calls without a deadline are those with the last instant as deadline.
\<close>

inductive guest_call :: "'h Host \<Rightarrow> Client \<times> 'h \<Rightarrow> Client \<times> 'h \<Rightarrow> bool" for H where
  "begin_request H family kind payload sensitive s = Some (r, t) \<Longrightarrow> guest_call H s t"
| "begin_typed_request H family kind request sensitive s = Some (r, t) \<Longrightarrow> guest_call H s t"
| "await_result_until H token deadline s = Some (r, t) \<Longrightarrow> guest_call H s t"
| "request_result_until H family kind payload sensitive deadline s = Some (r, t) \<Longrightarrow> guest_call H s t"
| "cancel_request_and_wait H token s = Some (r, t) \<Longrightarrow> guest_call H s t"
| "request_typed H family kind request sensitive (decode :: bytes \<Rightarrow> error + bytes) s = Some (r, t) \<Longrightarrow> guest_call H s t"
| "guest_ping H s = Some (r, t) \<Longrightarrow> guest_call H s t"
| "send_event H family kind payload sensitive s = Some (r, t) \<Longrightarrow> guest_call H s t"
| "send_typed_event H family kind event sensitive s = Some (r, t) \<Longrightarrow> guest_call H s t"
| "send_typed_terminal_cleanup H family kind event sensitive s = Some (r, t) \<Longrightarrow> guest_call H s t"
| "attempt_output H out data s = Some (r, t) \<Longrightarrow> guest_call H s t"
| "next_event_until H deadline s = Some (r, t) \<Longrightarrow> guest_call H s t"
| "next_frame_until H deadline s = Some (r, t) \<Longrightarrow> guest_call H s t"
| "next_matching_frame_until H deadline P s = Some (r, t) \<Longrightarrow> guest_call H s t"
| "next_matching_event H P s = Some (r, t) \<Longrightarrow> guest_call H s t"
| "guest_sleep H duration s = Some (r, t) \<Longrightarrow> guest_call H s t"
| "gclient (defer_frame f) s = Some (r, t) \<Longrightarrow> guest_call H s t"
| "gclient (offer_result token f) s = Some (r, t) \<Longrightarrow> guest_call H s t"
| "gclient (abandon_request token) s = Some (r, t) \<Longrightarrow> guest_call H s t"
| "gclient (purge_pending_transfer_ids ids) s = Some (r, t) \<Longrightarrow> guest_call H s t"
| "gclient (receive_credit_up_to n) s = Some (r, t) \<Longrightarrow> guest_call H s t"
| "gclient (receive_credit_exact n) s = Some (r, t) \<Longrightarrow> guest_call H s t"
| "gclient (decode_result_body (decode :: bytes \<Rightarrow> error + bytes) body) s = Some (r, t) \<Longrightarrow> guest_call H s t"
| lends: "request_typed_with_receive_leases H family kind request sensitive (decode :: bytes \<Rightarrow> error + bytes) leases s = Some (r, t) \<Longrightarrow>
    leased leases \<le> unat (st_reserved (cl_receive_credit (fst s))) \<Longrightarrow> guest_call H s t"
| lends_until: "request_typed_with_receive_lease_until H family kind request sensitive deadline (decode :: bytes \<Rightarrow> error + bytes) l s = Some (r, t) \<Longrightarrow>
    leased [l] \<le> unat (st_reserved (cl_receive_credit (fst s))) \<Longrightarrow> guest_call H s t"
| poisons: "guest_call H (c, h) (poison c, h)"
| allocates: "guest_call H (c, h) (snd (allocate_request_id c), h)"
| lease: "ls_bytes l \<le> st_reserved (cl_receive_credit c) \<Longrightarrow>
    guest_call H (c, h) (c\<lparr>cl_receive_credit := Lease_drop (cl_receive_credit c) l\<rparr>, h)"

definition guest_calls :: "'h Host \<Rightarrow> Client \<times> 'h \<Rightarrow> Client \<times> 'h \<Rightarrow> bool" where
  "guest_calls H = (guest_call H)\<^sup>*\<^sup>*"

lemma run_ok_forward: "run_ok advances m \<Longrightarrow> run_ok forward m"
  by (rule run_okI) (auto simp: advances_def dest!: run_okD)

lemma abandon_ok [run_ok]: "client_ok advances (abandon_request t)"
  by (rule abandon_request_ok)

lemma lease_forward:
  assumes "ls_bytes l \<le> st_reserved (cl_receive_credit c)" and "client_inv c"
  shows "client_inv (c\<lparr>cl_receive_credit := Lease_drop (cl_receive_credit c) l\<rparr>)
    \<and> forward c (c\<lparr>cl_receive_credit := Lease_drop (cl_receive_credit c) l\<rparr>)"
proof (rule credit_ok[OF assms(2)])
  have "st_reserved (cl_receive_credit c) - ls_bytes l \<le> st_reserved (cl_receive_credit c)"
    using assms(1) by (rule word_sub_le)
  then show "st_reserved (Lease_drop (cl_receive_credit c) l) \<le> st_maximum (Lease_drop (cl_receive_credit c) l)"
    using assms(2) by (auto simp: client_inv_def Lease_drop_def Lease_release_def Lease_release_bytes_def)
qed

lemma gtry_ok: "run_ok advances m \<Longrightarrow> run_ok advances (gtry m)"
  unfolding gtry_def by (intro run_ok)

lemma settle_lent_forward:
  assumes "settle_lent family kind decode ls x s = Some (r, t)" and "client_inv (fst s)"
    and "leased ls \<le> unat (st_reserved (cl_receive_credit (fst s)))"
  shows "client_inv (fst t) \<and> forward (fst s) (fst t)"
proof (cases x)
  case (Inl e)
  then show ?thesis
    using assms(1,2) by (simp add: settle_lent_def gret_Some_iff forward_refl)
next
  case (Inr p)
  show ?thesis
  proof (cases "rp_status p = StOk")
    case True
    have "run_ok advances (gbind (gtry (gclient (decode_result_body decode (rp_body p)))) (\<lambda>d. gret (d, ls)))"
      by (intro run_ok gtry_ok run_ok_client)
    then show ?thesis
      using assms(1,2) Inr True run_okD by (fastforce simp: settle_lent_def advances_def)
  next
    case False
    then obtain b where "fst t = (fst s)\<lparr>cl_receive_credit := b\<rparr>" "st_maximum b = st_maximum (cl_receive_credit (fst s))"
      "unat (st_reserved b) \<le> unat (st_reserved (cl_receive_credit (fst s)))"
      using assms(1) Inr release_leases_exact[OF assms(3)] by (auto simp: settle_lent_def g_iff)
    then show ?thesis
      using credit_ok[OF assms(2), of b] assms(2) by (auto simp: client_inv_def word_le_nat_alt)
  qed
qed

text \<open>After a step that changes no credit, what was lent can still be settled.\<close>

lemma settled_after:
  assumes "gbind m (settle_lent family kind decode ls) s = Some (r, t)" and "client_inv (fst s)" and "run_ok advances m"
    and "leased ls \<le> unat (st_reserved (cl_receive_credit (fst s)))"
  shows "client_inv (fst t) \<and> forward (fst s) (fst t)"
proof -
  obtain x u where m: "m s = Some (x, u)"
    using assms(1) unfolding gbind_Some_iff by blast
  have u: "client_inv (fst u)" "forward (fst s) (fst u)" "cl_receive_credit (fst u) = cl_receive_credit (fst s)"
    using run_okD[OF assms(3) m assms(2)] by (simp_all add: advances_def)
  show ?thesis
  proof (cases x)
    case (Inl e)
    then show ?thesis
      using assms(1) m u by (auto simp: gbind_Some_iff)
  next
    case (Inr y)
    then have "settle_lent family kind decode ls y u = Some (r, t)"
      using assms(1) m by (auto simp: gbind_Some_iff)
    from settle_lent_forward[OF this u(1)] show ?thesis
      using assms(4) u(2,3) forward_trans by metis
  qed
qed

lemma lends_forward:
  assumes "gbind (gtry (begin_typed_request H family kind request sensitive)) (\<lambda>b.
       case b of Inl e \<Rightarrow> gret (Inl e, ls) | Inr q \<Rightarrow> gbind (m q) (settle_lent family kind decode ls')) s = Some (r, t)"
    and "client_inv (fst s)" and "\<And>q. run_ok advances (m q)" and "leased ls' \<le> unat (st_reserved (cl_receive_credit (fst s)))"
  shows "client_inv (fst t) \<and> forward (fst s) (fst t)"
proof -
  obtain x u where begin_step: "gtry (begin_typed_request H family kind request sensitive) s = Some (x, u)"
    using assms(1) unfolding gbind_Some_iff by blast
  have u: "client_inv (fst u)" "forward (fst s) (fst u)" "cl_receive_credit (fst u) = cl_receive_credit (fst s)"
    using run_okD[OF gtry_ok[OF begin_typed_request_ok] begin_step assms(2)] by (simp_all add: advances_def)
  show ?thesis
  proof (cases "\<exists>q. x = Inr (Inr q)")
    case True
    then obtain q where "x = Inr (Inr q)"
      by blast
    then have "gbind (m q) (settle_lent family kind decode ls') u = Some (r, t)"
      using assms(1) begin_step by (auto simp: gbind_Some_iff [of "gtry (begin_typed_request H family kind request sensitive)"])
    from settled_after[OF this u(1) assms(3)] show ?thesis
      using assms(4) u(2,3) forward_trans by metis
  next
    case False
    then have "t = u"
      using assms(1) begin_step
      by (cases x) (auto simp: gbind_Some_iff [of "gtry (begin_typed_request H family kind request sensitive)"] gret_Some_iff split: sum.splits)
    then show ?thesis
      using u by simp
  qed
qed

lemma lends_leases_forward:
  assumes "request_typed_with_receive_leases H family kind request sensitive decode leases s = Some (r, t)" and "client_inv (fst s)"
    and "leased leases \<le> unat (st_reserved (cl_receive_credit (fst s)))"
  shows "client_inv (fst t) \<and> forward (fst s) (fst t)"
proof (rule lends_forward[OF assms(1)[unfolded request_typed_with_receive_leases_def] assms(2)])
  show "run_ok advances (gtry (await_result_until H q MAX_INSTANT))" for q
    by (intro gtry_ok run_ok)
  show "leased (map Lease_commit leases) \<le> unat (st_reserved (cl_receive_credit (fst s)))"
    using assms(3) by simp
qed

lemma lends_until_forward:
  assumes "request_typed_with_receive_lease_until H family kind request sensitive deadline decode l s = Some (r, t)" and "client_inv (fst s)"
    and "leased [l] \<le> unat (st_reserved (cl_receive_credit (fst s)))"
  shows "client_inv (fst t) \<and> forward (fst s) (fst t)"
proof (rule lends_forward[OF assms(1)[unfolded request_typed_with_receive_lease_until_def] assms(2)])
  show "run_ok advances (gtry (gcatch (await_result_until H t deadline) (\<lambda>e.
      if e = DeadlineExceeded then gfinally poisoning (cancel_request_and_wait H t) else gstop (Err e))))" for t
    by (intro gtry_ok run_ok)
  show "leased [Lease_commit l] \<le> unat (st_reserved (cl_receive_credit (fst s)))"
    using assms(3) leased_commit[of "[l]"] by simp
qed

lemma poison_forward: "client_inv c \<Longrightarrow> client_inv (poison c) \<and> forward c (poison c)"
  using poison_ok by (simp add: advances_def)

lemma allocate_forward: "client_inv c \<Longrightarrow> client_inv (snd (allocate_request_id c)) \<and> forward c (snd (allocate_request_id c))"
  by (simp add: allocate_request_id_def Let_def client_inv_def pending_ok_def forward_def family_keys_def)

text \<open>A call as a function on sessions, so that one rule serves all of them.\<close>

lemma call_step:
  assumes "m s = Some (r, t)" and "run_ok advances m \<or> run_ok forward m" and "client_inv (fst s)"
  shows "client_inv (fst t) \<and> forward (fst s) (fst t)"
  using assms run_okD[of forward m s r t] run_okD[of advances m s r t] by (auto simp: advances_def)

lemma guest_call_forward:
  assumes "guest_call H s t" and "client_inv (fst s)"
  shows "client_inv (fst t) \<and> forward (fst s) (fst t)"
  using assms
proof (induction rule: guest_call.induct)
  case (lease l c h)
  then show ?case
    using lease_forward by simp
next
  case (lends family kind request sensitive decode leases s r t)
  then show ?case
    using lends_leases_forward by blast
next
  case (lends_until family kind request sensitive deadline decode l s r t)
  then show ?case
    using lends_until_forward by blast
next
  case (poisons c h)
  then show ?case
    using poison_forward by simp
next
  case (allocates c h)
  then show ?case
    using allocate_forward by simp
qed (erule call_step, rule disjI1 disjI2, (rule run_ok_client)?, rule run_ok receive_credit_ok, assumption)+

lemma guest_calls_forward:
  assumes "guest_calls H s t" and "client_inv (fst s)"
  shows "client_inv (fst t) \<and> forward (fst s) (fst t)"
  using assms unfolding guest_calls_def
proof (induction rule: rtranclp_induct)
  case base
  then show ?case
    by (simp add: forward_refl)
next
  case (step t u)
  then show ?case
    using guest_call_forward forward_trans by blast
qed

section \<open>A session that runs\<close>

text \<open>
  A session with one PING outstanding whose Result is already in the queue, behind an event of the Extension family.
\<close>

definition sample_context :: AttemptContext where
  "sample_context =
     \<lparr>ac_extension_handle = 1, ac_generation = 1, ac_definition_revision = 1, ac_attempt = 1, ac_task_id = 1,
      ac_flags = 0, ac_runtime = Wasmi, ac_content_hash = replicate 32 0, ac_name = [97], ac_argv = [],
      ac_extensions = []\<rparr>"

definition sample_event :: Frame where
  "sample_event = \<lparr>fr_header = FrameHeader_event FAMILY_EXTENSION 7, fr_payload = []\<rparr>"

definition sample_token :: RequestToken where
  "sample_token = \<lparr>rt_request_id = 3, rt_family = FAMILY_CORE, rt_kind = PING_KIND\<rparr>"

definition sample_result :: Frame where
  "sample_result = \<lparr>fr_header = FrameHeader_result FAMILY_CORE PING_KIND 3, fr_payload = [0, 0, 0, 0, 0, 0, 0, 0]\<rparr>"

definition sample_client :: Client where
  "sample_client =
     \<lparr>cl_hello = hello_answer, cl_context = sample_context, cl_inbound = ping_codec, cl_outbound = ping_codec,
      cl_receiver = StreamReceiver_new 100, cl_next_request_id = 5,
      cl_outstanding = [(3, FAMILY_CORE, PING_KIND)],
      cl_pending = [\<lparr>pf_frame = sample_event, pf_lease = \<lparr>ls_bytes = 0, ls_committed = False\<rparr>\<rparr>,
                    \<lparr>pf_frame = sample_result, pf_lease = \<lparr>ls_bytes = 8, ls_committed = False\<rparr>\<rparr>],
      cl_pending_bytes = 8, cl_receive_credit = \<lparr>st_maximum = 100, st_reserved = 10\<rparr>,
      cl_receive_pending = \<lparr>st_maximum = RECEIVE_PENDING_BUDGET, st_reserved = 8\<rparr>,
      cl_poisoned = False, cl_negotiated_codecs = []\<rparr>"

lemma hello_answer_limits: "limits_of (se_receive hello_answer) = FrameLimits_recommended"
  by (simp add: hello_answer_def ReceiveLimits_recommended_def FrameLimits_recommended_def)

lemma sample_client_inv: "client_inv sample_client"
  using ServerHello_validate_catalog[OF hello_answer_valid] ping_codec_new hello_answer_limits
  by (simp add: client_inv_def sample_client_def receiver_ok_new pending_ok_def pending_len_def
      sample_event_def sample_result_def MAX_PENDING_FRAMES_def MAX_PENDING_BYTES_def RECEIVE_PENDING_BUDGET_def RECOMMENDED_BUFFERED_def
      MAX_OUTSTANDING_REQUESTS_def word_le_nat_alt)

lemma sample_clean: "reject_pending_unsolicited_result sample_client = (Inr (), sample_client)"
  by (simp add: reject_pending_unsolicited_result_def sample_client_def unsolicited_def is_outstanding_result_def
      sample_event_def sample_result_def FrameHeader_event_def FrameHeader_result_def)

lemma sample_take_event:
  "\<exists>c. remove_pending 0 sample_client = (Inr (Some sample_event), c)"
  by (simp add: remove_pending_def sample_client_def USIZE_MAX_def)

lemma sample_result_decodes:
  "ResultPrefix_decode (fr_payload sample_result) = Inr \<lparr>rp_status = StOk, rp_detail = [], rp_body = []\<rparr>"
  by code_simp

lemma sample_take_result: "\<exists>c. remove_pending 1 sample_client = (Inr (Some sample_result), c)"
  by (simp add: remove_pending_def sample_client_def USIZE_MAX_def)

lemma sample_queue:
  "\<not> cl_poisoned sample_client"
  "position (\<lambda>p. fh_class (fr_header (pf_frame p)) = Event) (cl_pending sample_client) = Some 0"
  "position (\<lambda>p. fh_class (fr_header (pf_frame p)) = Result) (cl_pending sample_client) = Some 1"
  "position (\<lambda>p. RequestToken_matches sample_token (pf_frame p)) (cl_pending sample_client) = Some 1"
  by (simp_all add: sample_client_def sample_event_def sample_result_def sample_token_def FrameHeader_event_def
      FrameHeader_result_def RequestToken_matches_def)

lemma sample_events: "\<exists>t. next_event_until H deadline (sample_client, h) = Some (Inr (Some sample_event), t)"
  using sample_take_event
  by (auto simp: next_event_until_def gbind_def gcheck_def gclient_def ensure_healthy_def sample_clean sample_queue)

lemma sample_matching:
  "\<exists>t. next_matching_frame_until H deadline (\<lambda>f. fh_class (fr_header f) = Result) (sample_client, h)
     = Some (Inr (Some sample_result), t)"
  using sample_take_result
  by (auto simp: next_matching_frame_until_def gbind_def gcheck_def gclient_def ensure_healthy_def gret_def sample_clean
      sample_queue)

lemma sample_await:
  "\<exists>t. await_result_until H sample_token deadline (sample_client, h)
     = Some (Inr \<lparr>rp_status = StOk, rp_detail = [], rp_body = []\<rparr>, t)"
proof -
  obtain c where c: "remove_pending 1 sample_client = (Inr (Some sample_result), c)"
    using sample_take_result by blast
  then have "cl_outstanding c = [(3, FAMILY_CORE, PING_KIND)]"
    using remove_pending_Some[OF c] by (simp add: sample_client_def)
  then have "\<exists>d. offer_result sample_token sample_result c = (Inr (Some \<lparr>rp_status = StOk, rp_detail = [], rp_body = []\<rparr>), d)"
    using sample_result_decodes
    by (simp add: offer_result_def RequestToken_matches_def sample_token_def sample_result_def FrameHeader_result_def)
  with c show ?thesis
    by (auto simp: await_result_until_def take_pending_result_def gbind_def gcheck_def gclient_def gret_def sample_queue)
qed

lemma sample_closed:
  "\<exists>t. read_next_until mailbox_host 0 (sample_client, []) = Some (Inl (Err EndpointClosed), t)"
proof -
  have "ensure_read_headroom sample_client = Inr ()"
    by (simp add: ensure_read_headroom_def ensure_healthy_def sample_client_def MAX_PENDING_FRAMES_def Budget_available_def
        RECEIVE_MAX_DECODED_def RECOMMENDED_DECODED_FRAME_def RECEIVE_PENDING_BUDGET_def RECOMMENDED_BUFFERED_def word_less_nat_alt)
  moreover have "StreamReceiver_recv_until mailbox_host c 0 (StreamReceiver_new 100) [] = (Inr ReceiveClosed, StreamReceiver_new 100, [])" for c
    by (simp add: StreamReceiver_recv_until.simps buffered_frame_def StreamReceiver_new_def host_wait_def mailbox_host_def)
  moreover have "cl_receiver sample_client = StreamReceiver_new 100"
    by (simp add: sample_client_def)
  ultimately have "\<exists>t. read_turn mailbox_host 0 (sample_client, []) = Some (Inl (Err EndpointClosed), t)"
    by (simp add: read_turn_def gbind_def gcheck_def gclient_def receive_def gfinally_def gcatch_def gstop_def poisoning_def)
  then show ?thesis
    unfolding read_next_until_def by (subst gloop.simps) auto
qed

lemma mailbox_host_finite: "finite_host mailbox_host length"
  by (auto simp: finite_host_def mailbox_host_def split: list.splits if_splits)

section \<open>Every reachable session\<close>

text \<open>
  C6: a session stays in good order, whatever the application calls and whatever the host does.
  After any sequence of calls, failed ones included, the catalogue is closed and ordered as it was negotiated,
  the codec for sending is the one of the server's current limits, at most 1024 requests
  are outstanding, under distinct ids, and at most 1024 frames are queued, whose payloads are exactly the bytes that are accounted for
  and reserved; the catalogue revision and the limits for sending have not gone down, the selected families and
  versions and the identity of the session are the same, and a poisoned session is still poisoned.
\<close>

theorem session_safe:
  assumes "client_inv c" and "guest_calls H (c, h) (d, h1)"
  shows "catalog_ok (se_families (cl_hello d)) \<and> family_keys d = family_keys c
    \<and> FrameCodec_new (limits_of (se_receive (cl_hello d))) (cl_negotiated_codecs c) = Inr (cl_outbound d)
    \<and> distinct (map fst (cl_outstanding d)) \<and> length (cl_outstanding d) \<le> 1024
    \<and> length (cl_pending d) \<le> 1024
    \<and> unat (st_reserved (cl_receive_pending d)) = pending_len (cl_pending d)
    \<and> pending_len (cl_pending d) \<le> unat RECEIVE_PENDING_BUDGET
    \<and> se_catalog_revision (cl_hello c) \<le> se_catalog_revision (cl_hello d)
    \<and> rl_max_frame (se_receive (cl_hello c)) \<le> rl_max_frame (se_receive (cl_hello d))
    \<and> rl_max_decoded (se_receive (cl_hello c)) \<le> rl_max_decoded (se_receive (cl_hello d))
    \<and> se_session_id (cl_hello d) = se_session_id (cl_hello c) \<and> (cl_poisoned c \<longrightarrow> cl_poisoned d)"
proof -
  have "client_inv d \<and> forward c d"
    using guest_calls_forward[OF assms(2)] assms(1) by simp
  then show ?thesis
    by (auto simp: client_inv_def forward_def pending_ok_def MAX_PENDING_FRAMES_def MAX_OUTSTANDING_REQUESTS_def
        MAX_PENDING_BYTES_def)
qed

theorem session_safe_witness:
  "\<exists>d h. next_event_until mailbox_host 0 (sample_client, []) = Some (Inr (Some sample_event), d, h)
     \<and> length (cl_pending d) \<le> 1024 \<and> family_keys d = family_keys sample_client"
proof -
  obtain d h where got: "next_event_until mailbox_host 0 (sample_client, []) = Some (Inr (Some sample_event), d, h)"
    using sample_events[of mailbox_host 0 "[]"] by auto
  then have "guest_calls mailbox_host (sample_client, []) (d, h)"
    unfolding guest_calls_def by (intro r_into_rtranclp guest_call.intros(12))
  from session_safe[OF sample_client_inv this] got show ?thesis
    by blast
qed

section \<open>The other properties on the sample session\<close>

theorem calls_return_witness: "\<exists>y. next_event_until mailbox_host 0 (sample_client, [[1, 2], [3]]) = Some y"
  using calls_return[OF mailbox_host_finite] by blast

theorem poisoned_inert_witness:
  "next_event_until mailbox_host 0 (poison sample_client, [[1]]) = Some (Inl (Err Poisoned), poison sample_client, [[1]])"
  using poisoned_inert[of "poison sample_client" mailbox_host 0 "[[1]]"] by (simp add: poison_def)

theorem delivered_results_solicited_witness:
  "\<exists>t. next_matching_frame_until mailbox_host 0 (\<lambda>f. fh_class (fr_header f) = Result) (sample_client, [])
       = Some (Inr (Some sample_result), t)
     \<and> (\<exists>q. map_of (cl_outstanding (fst t)) q = Some (FAMILY_CORE, PING_KIND))"
proof -
  have head: "fr_header sample_result = FrameHeader_result FAMILY_CORE PING_KIND 3"
    by (simp add: sample_result_def)
  obtain t where t: "next_matching_frame_until mailbox_host 0 (\<lambda>f. fh_class (fr_header f) = Result) (sample_client, [])
       = Some (Inr (Some sample_result), t)"
    using sample_matching[of mailbox_host 0 "[]"] by blast
  show ?thesis
    using delivered_results_solicited[OF disjI2[OF t]] t by (auto simp: head FrameHeader_result_def)
qed

theorem next_event_first_witness:
  "\<exists>t. next_event_until mailbox_host 0 (sample_client, []) = Some (Inr (Some sample_event), t)
     \<and> cl_pending (fst t) = drop_nth 0 (cl_pending sample_client)"
proof -
  obtain t where t: "next_event_until mailbox_host 0 (sample_client, []) = Some (Inr (Some sample_event), t)"
    using sample_events[of mailbox_host 0 "[]"] by blast
  show ?thesis
    using next_event_first[OF sample_client_inv t] t by (simp add: sample_queue)
qed

theorem read_failure_poisons_witness:
  "\<exists>t. read_next_until mailbox_host 0 (sample_client, []) = Some (Inl (Err EndpointClosed), t) \<and> cl_poisoned (fst t)"
  using sample_closed read_failure_poisons by fastforce

lemma sample_token_id: "rt_request_id sample_token = 3"
  by (simp add: sample_token_def)

theorem result_settles_request_witness:
  "\<exists>t. await_result_until mailbox_host sample_token 0 (sample_client, [])
       = Some (Inr \<lparr>rp_status = StOk, rp_detail = [], rp_body = []\<rparr>, t)
     \<and> map_of (cl_outstanding (fst t)) = (map_of (cl_outstanding sample_client))(3 := None)
     \<and> cl_pending (fst t) = drop_nth 1 (cl_pending sample_client) \<and> snd t = []"
proof -
  obtain t where t: "await_result_until mailbox_host sample_token 0 (sample_client, [])
       = Some (Inr \<lparr>rp_status = StOk, rp_detail = [], rp_body = []\<rparr>, t)"
    using sample_await[of mailbox_host 0 "[]"] by blast
  show ?thesis
    using result_settles_request[OF sample_client_inv t] t sample_token_id by (auto simp: sample_queue(4))
qed

theorem request_id_available_witness:
  "\<exists>q c. allocate_available_request_id sample_client = (Inr q, c) \<and> odd q \<and> map_of (cl_outstanding sample_client) q = None"
proof -
  have "distinct (map fst (cl_outstanding sample_client))" "\<not> MAX_OUTSTANDING_REQUESTS \<le> length (cl_outstanding sample_client)"
    by (simp_all add: sample_client_def MAX_OUTSTANDING_REQUESTS_def)
  with request_id_available[OF this(1)] show ?thesis
    by auto
qed

theorem lent_credit_witness:
  "\<exists>t. request_typed_with_receive_leases mailbox_host FAMILY_CORE PING_KIND (Inr [] :: error + bytes) False PingResult_decode
        [\<lparr>ls_bytes = 10, ls_committed = False\<rparr>] (poison sample_client, [])
      = Some (Inr (Inl Poisoned, [\<lparr>ls_bytes = 10, ls_committed = False\<rparr>]), t)
    \<and> (\<exists>e. begin_typed_request mailbox_host FAMILY_CORE PING_KIND (Inr [] :: error + bytes) False (poison sample_client, [])
             = Some (Inl (Err e), t))"
proof -
  let ?start = "begin_typed_request mailbox_host FAMILY_CORE PING_KIND (Inr [] :: error + bytes) False"
  have refused: "?start (poison sample_client, []) = Some (Inl (Err Poisoned), poison sample_client, [])"
    by (simp add: begin_typed_request_def begin_request_def gbind_def gcheck_def gclient_def wire_def
        ensure_read_headroom_def ensure_healthy_def poison_def)
  have run: "request_typed_with_receive_leases mailbox_host FAMILY_CORE PING_KIND (Inr [] :: error + bytes) False PingResult_decode
      [\<lparr>ls_bytes = 10, ls_committed = False\<rparr>] (poison sample_client, [])
    = Some (Inr (Inl Poisoned, [\<lparr>ls_bytes = 10, ls_committed = False\<rparr>]), poison sample_client, [])"
    using refused
    by (simp add: request_typed_with_receive_leases_def gbind_Some_iff gtry_Some_iff gret_Some_iff)
  have inv: "client_inv (poison sample_client)"
    "leased [\<lparr>ls_bytes = 10, ls_committed = False\<rparr>] \<le> unat (st_reserved (cl_receive_credit (poison sample_client)))"
    using poison_ok[OF sample_client_inv] by (simp_all add: poison_def sample_client_def)
  from lent_credit[OF inv run] run refused show ?thesis
    by auto
qed

end
