(* ===== verification/Guest_Run.thy ===== *)
theory Guest_Run
  imports Guest_Reach Read_Only
begin

text \<open>
  A guest session from its first byte: a server's HELLO and attempt context that a guest accepts, the packets a host
  delivers them in, and the bootstrap that reads them.  It shows that the hypotheses on bootstraps
  can be met, on a host that keeps the contract of its imports.
\<close>

section \<open>The server's answer\<close>

definition extension_block :: Extensions where
  "extension_block = projr (FamilyLimits_to_extensions (ExtensionLimits extension_HARD))"

definition channel_block :: Extensions where
  "channel_block = projr (FamilyLimits_to_extensions (ChannelLimits channel_HARD))"

definition attempt_operations :: "Operation list" where
  "attempt_operations =
     [\<lparr>opn_server_accepts = False, opn_server_sends = True, opn_class = Event, opn_kind = ATTEMPT_CONTEXT_KIND\<rparr>,
      \<lparr>opn_server_accepts = True, opn_server_sends = False, opn_class = Event, opn_kind = ATTEMPT_OUTPUT_KIND\<rparr>]"

definition guest_answer :: ServerHello where
  "guest_answer = hello_answer
     \<lparr>se_minor := 1, se_families :=
        [sample_descriptor FAMILY_CORE [], sample_descriptor FAMILY_TRANSFER [],
         sample_descriptor FAMILY_CHANNEL channel_block,
         (sample_descriptor FAMILY_EXTENSION extension_block)\<lparr>fd_operations := attempt_operations\<rparr>]\<rparr>"

lemma extension_block_ok: "FamilyLimits_to_extensions (ExtensionLimits extension_HARD) = Inr extension_block"
  by (simp add: extension_block_def extension_Limits_to_extensions_def extension_Limits_validate_def valid_limit_def
      extension_HARD_def)

lemma channel_block_ok: "FamilyLimits_to_extensions (ChannelLimits channel_HARD) = Inr channel_block"
  by (simp add: channel_block_def channel_Limits_to_extensions_def channel_Limits_validate_def valid_limit_def
      channel_HARD_def)

lemma block_valid:
  assumes "FamilyLimits_to_extensions v = Inr es" and "\<exists>f. family_metadata (FamilyLimits_family v) 1 = Some f"
    and "FamilyDescriptor_check_operations ((sample_descriptor (FamilyLimits_family v) es)\<lparr>fd_operations := ops\<rparr>) [] ops = Inr ()"
    and "length ops \<le> 65535"
  shows "FamilyDescriptor_validate ((sample_descriptor (FamilyLimits_family v) es)\<lparr>fd_operations := ops\<rparr>) = Inr ()"
proof -
  obtain f where f: "family_metadata (FamilyLimits_family v) 1 = Some f"
    using assms(2) by blast
  have "\<not> list_ex e_required es"
    using FamilyLimits_optional[OF assms(1)] by (auto simp: list_all_iff list_ex_iff)
  then show ?thesis
    using f assms(3,4) FamilyLimits_wire[OF assms(1)] FamilyLimits_policies[OF assms(1) f] FamilyLimits_known[OF assms(1)]
    by (simp add: FamilyDescriptor_validate_def sample_descriptor_def)
qed

lemma guest_descriptors_valid:
  "FamilyDescriptor_validate (sample_descriptor FAMILY_CHANNEL channel_block) = Inr ()"
  "FamilyDescriptor_validate ((sample_descriptor FAMILY_EXTENSION extension_block)\<lparr>fd_operations := attempt_operations\<rparr>) = Inr ()"
proof -
  have meta: "\<exists>f. family_metadata FAMILY_CHANNEL 1 = Some f" "\<exists>f. family_metadata FAMILY_EXTENSION 1 = Some f"
    by (simp_all add: family_metadata_def FAMILIES_def family_consts)
  show "FamilyDescriptor_validate (sample_descriptor FAMILY_CHANNEL channel_block) = Inr ()"
    using block_valid[OF channel_block_ok, of "[]"] meta(1) by (simp add: sample_descriptor_def)
  show "FamilyDescriptor_validate ((sample_descriptor FAMILY_EXTENSION extension_block)\<lparr>fd_operations := attempt_operations\<rparr>) = Inr ()"
    using block_valid[OF extension_block_ok, of attempt_operations] meta(2)
    by (simp add: attempt_operations_def FamilyDescriptor_check_operation_def sample_descriptor_def Operation_validate_def
        FAMILIES_def family_consts EXTENSION_OPERATIONS_def op_row_def ATTEMPT_CONTEXT_KIND_def ATTEMPT_OUTPUT_KIND_def
        Operation_from_schema_def CLIENT_TO_SERVER_def SERVER_TO_CLIENT_def DIRECTION_BIDIRECTIONAL_def transport_consts)
qed

lemma guest_answer_valid: "ServerHello_validate guest_answer = Inr ()"
proof -
  have "validate_family_dependencies (se_families guest_answer) c = Inr ()" for c
    by (simp add: validate_family_dependencies_def guest_answer_def sample_descriptor_def family_metadata_def
        FAMILIES_def family_consts)
  then show ?thesis
    using guest_descriptors_valid sample_descriptors_valid(1,2)
    by (simp add: ServerHello_validate_def guest_answer_def hello_answer_def recommended_valid
        family_order_def validate_result_or_event_extensions_def Extensions_validate_def)
      (simp add: sample_descriptor_def family_consts CORE_VERSION_def word_less_nat_alt)
qed

abbreviation run_offer :: ClientHello where
  "run_offer \<equiv> guest_offer [49] (replicate 16 0) []"

lemma run_offers:
  "guest_offers [] =
     [\<lparr>fo_family_id = FAMILY_TRANSFER, fo_versions = [1], fo_required = True\<rparr>,
      \<lparr>fo_family_id = FAMILY_CHANNEL, fo_versions = [1], fo_required = True\<rparr>,
      \<lparr>fo_family_id = FAMILY_EXTENSION, fo_versions = [1], fo_required = True\<rparr>]"
  by (simp add: guest_offers_def TRANSFER_VERSION_def CHANNEL_VERSION_def EXTENSION_VERSION_def family_consts
      sort_key_def insort_key.simps word_le_nat_alt)

lemma guest_limits_valid:
  "ReceiveLimits_validate \<lparr>rl_max_frame = RECEIVE_MAX_FRAME, rl_max_decoded = RECEIVE_MAX_DECODED,
      rl_max_datagram = 0, rl_max_buffered = RECEIVE_MAX_BUFFERED\<rparr> = Inr ()"
  by (simp add: ReceiveLimits_validate_def RECEIVE_MAX_FRAME_def RECEIVE_MAX_DECODED_def RECEIVE_MAX_BUFFERED_def
      RECEIVE_CREDIT_BUDGET_def RECEIVE_PENDING_BUDGET_def RECOMMENDED_WIRE_FRAME_def
      RECOMMENDED_DECODED_FRAME_def RECOMMENDED_BUFFERED_def HARD_MAX_WIRE_FRAME_def
      HARD_MAX_DECODED_FRAME_def HARD_MAX_DATAGRAM_def HARD_MAX_BUFFERED_def transport_consts
      word_less_nat_alt)

lemma run_offer_valid: "ClientHello_validate run_offer = Inr ()"
  using guest_limits_valid
  by (simp add: ClientHello_validate_def guest_offer_def run_offers FamilyOffer_validate_def
      Extensions_validate_def family_consts word_less_nat_alt)

lemma guest_answer_accepted: "ServerHello_validate_for_client guest_answer run_offer = Inr ()"
  using run_offer_valid guest_answer_valid
  by (simp add: ServerHello_validate_for_client_def ServerHello_negotiated_codecs_def
      NegotiatedCodecs_validate_offered_by_def NegotiatedCodecs_validate_def find_extension_def)
    (simp add: guest_answer_def hello_answer_def guest_offer_def run_offers sample_descriptor_def check_selected_def family_consts
      word_less_nat_alt)

lemma guest_answer_operations: "check_attempt_operations guest_answer = Inr ()"
  by (simp add: check_attempt_operations_def guest_answer_def sample_descriptor_def FamilyDescriptor_operation_def
      attempt_operations_def family_consts ATTEMPT_CONTEXT_KIND_def ATTEMPT_OUTPUT_KIND_def)

section \<open>Its bytes\<close>

lemma entries_bytes:
  "list_all (\<lambda>e. length (e_value e) \<le> 8) es \<Longrightarrow> \<exists>p. encode_all Extension_encode es = Inr p \<and> length p \<le> 16 * length es"
  by (induction es) (auto simp: Extension_encode_def put_len_u32_def)

lemma block_bytes:
  "\<exists>p. Extensions_encode_entries channel_block = Inr p \<and> length p \<le> 300"
  "\<exists>p. Extensions_encode_entries extension_block = Inr p \<and> length p \<le> 300"
proof -
  have valid: "Extensions_validate channel_block = Inr ()" "Extensions_validate extension_block = Inr ()"
    using FamilyLimits_wire[OF channel_block_ok] FamilyLimits_wire[OF extension_block_ok] by simp_all
  have "list_all (\<lambda>e. length (e_value e) \<le> 8) es \<and> length es \<le> 14" if "channel_Limits_to_extensions l = Inr es" for l es
    using that by (auto simp: channel_Limits_to_extensions_def ebind_Inr_iff limit_u32_def limit_u64_def)
  then have "list_all (\<lambda>e. length (e_value e) \<le> 8) channel_block \<and> length channel_block \<le> 14"
    using channel_block_ok by simp
  moreover have "list_all (\<lambda>e. length (e_value e) \<le> 8) es \<and> length es \<le> 14" if "extension_Limits_to_extensions l = Inr es" for l es
    using that by (auto simp: extension_Limits_to_extensions_def ebind_Inr_iff limit_u32_def limit_u64_def)
  then have "list_all (\<lambda>e. length (e_value e) \<le> 8) extension_block \<and> length extension_block \<le> 14"
    using extension_block_ok by simp
  ultimately show "\<exists>p. Extensions_encode_entries channel_block = Inr p \<and> length p \<le> 300"
    "\<exists>p. Extensions_encode_entries extension_block = Inr p \<and> length p \<le> 300"
    using valid entries_bytes[of channel_block] entries_bytes[of extension_block]
    by (fastforce simp: Extensions_encode_entries_def)+
qed

lemma descriptor_bytes:
  assumes "FamilyDescriptor_validate d = Inr ()" and "\<exists>p. Extensions_encode_entries (fd_limits d) = Inr p \<and> length p \<le> 300"
    and "\<exists>p. encode_all Operation_encode_to (fd_operations d) = Inr p \<and> length p \<le> 8"
  shows "\<exists>p. FamilyDescriptor_encode_record d = Inr p \<and> length p \<le> 400"
  using assms by (auto simp: FamilyDescriptor_encode_record_def Let_def put_len_u32_def)

lemma guest_descriptor_bytes:
  "\<exists>p. FamilyDescriptor_encode_record (sample_descriptor FAMILY_CORE []) = Inr p \<and> length p \<le> 400"
  "\<exists>p. FamilyDescriptor_encode_record (sample_descriptor FAMILY_TRANSFER []) = Inr p \<and> length p \<le> 400"
  "\<exists>p. FamilyDescriptor_encode_record (sample_descriptor FAMILY_CHANNEL channel_block) = Inr p \<and> length p \<le> 400"
  "\<exists>p. FamilyDescriptor_encode_record ((sample_descriptor FAMILY_EXTENSION extension_block)\<lparr>fd_operations := attempt_operations\<rparr>) = Inr p
     \<and> length p \<le> 400"
proof -
  note ready = sample_descriptor_def Extensions_encode_entries_def Extensions_validate_def
  show "\<exists>p. FamilyDescriptor_encode_record (sample_descriptor FAMILY_CORE []) = Inr p \<and> length p \<le> 400"
    by (rule descriptor_bytes[OF sample_descriptors_valid(1)]) (simp_all add: ready)
  show "\<exists>p. FamilyDescriptor_encode_record (sample_descriptor FAMILY_TRANSFER []) = Inr p \<and> length p \<le> 400"
    by (rule descriptor_bytes[OF sample_descriptors_valid(2)]) (simp_all add: ready)
  show "\<exists>p. FamilyDescriptor_encode_record (sample_descriptor FAMILY_CHANNEL channel_block) = Inr p \<and> length p \<le> 400"
    by (rule descriptor_bytes[OF guest_descriptors_valid(1)]) (use block_bytes(1) in \<open>simp_all add: sample_descriptor_def\<close>)
  show "\<exists>p. FamilyDescriptor_encode_record ((sample_descriptor FAMILY_EXTENSION extension_block)\<lparr>fd_operations := attempt_operations\<rparr>) = Inr p
     \<and> length p \<le> 400"
    by (rule descriptor_bytes[OF guest_descriptors_valid(2)])
      (use block_bytes(2) in \<open>simp_all add: sample_descriptor_def attempt_operations_def Operation_encode_to_def
        Operation_validate_def put_u8_def\<close>)
qed

lemma guest_answer_bytes: "\<exists>p. ServerHello_decode p = Inr guest_answer \<and> length p \<le> 2000"
proof -
  obtain p where families: "encode_all FamilyDescriptor_encode_record (se_families guest_answer) = Inr p" "length p \<le> 1600"
    using guest_descriptor_bytes by (auto simp: guest_answer_def)
  have fields: "se_receive guest_answer = ReceiveLimits_recommended 0" "se_server_name guest_answer = []"
    "se_server_release guest_answer = []" "se_extensions guest_answer = []" "length (se_boot_id guest_answer) = 16"
    "length (se_session_id guest_answer) = 16"
    by (simp_all add: guest_answer_def hello_answer_def)
  have "\<exists>q. ServerHello_encode guest_answer = Inr q \<and> length q \<le> 2000"
    using families guest_answer_valid
    by (simp add: ServerHello_encode_def fields put_string_u16_def put_bytes_u16_def put_len_u16_def
        put_len_u32_def Extensions_encode_tail_def Extensions_encode_entries_def Extensions_validate_def
        ReceiveLimits_encode_to_def recommended_valid)
  moreover have "ServerHello_ok guest_answer"
    by (simp add: ServerHello_ok_def fields)
  ultimately show ?thesis
    by (simp add: ServerHello_codec.dec_iff)
qed

section \<open>Frames and packets\<close>

lemma plain_frame_encodes:
  assumes "\<not> fh_compressed (fr_header f)" and "FrameHeader_validate (fr_header f) = Inr ()"
    and "FrameCodec_validate_schema_flags c (fr_header f) = Inr ()"
    and "length (fr_payload f) + 9 \<le> unat (fl_max_wire_frame (fc_limits c))"
    and "length (fr_payload f) + 9 \<le> unat (fl_max_decoded_frame (fc_limits c))"
  shows "\<exists>s. FrameCodec_encode_stream compress c f = Inr s \<and> length s \<le> length (fr_payload f) + 13"
proof -
  obtain p where p: "FrameHeader_encode (fr_header f) = Inr p" "5 \<le> length p" "length p \<le> 9"
    using assms(2) by (auto simp: FrameHeader_encode_def split: option.splits)
  moreover have "FrameHeader_encoded_len (fr_header f) \<le> 9"
    by (auto simp: FrameHeader_encoded_len_def transport_consts split: Class.splits)
  ultimately have "FrameCodec_encode compress c f = Inr (p @ fr_payload f)"
    using assms by (simp add: FrameCodec_encode_iff transport_consts)
  moreover have "length (p @ fr_payload f) < 2 ^ 32"
    using p(3) assms(4) unsigned_less[of "fl_max_wire_frame (fc_limits c)", where 'a = nat] by simp
  ultimately show ?thesis
    using p(3) by (auto simp: encode_stream_iff)
qed

lemma hello_result_flags:
  "FrameCodec_validate_schema_flags pre_hello_codec (FrameHeader_result FAMILY_CORE HELLO_KIND HELLO_REQUEST_ID) = Inr ()"
proof -
  obtain c where c: "FrameCodec_pre_hello = Inr c"
    using pre_hello_new by blast
  have "(0, Result, 0) \<in> schema_keys om_sensitive POLICY_ALLOWED FAMILIES"
    "(0, Result, 0) \<in> schema_keys om_compression POLICY_FORBIDDEN FAMILIES"
    using hello_operation
    by (auto intro!: schema_keysI [OF shutdown_operation(1), of "op_row ''HELLO'' 1 0 0 0 2 0"]
        simp: keys_of_def op_row_def POLICY_FORBIDDEN_def POLICY_ALLOWED_def transport_consts)
  then have "(0, Result, 0) \<notin> schema_keys om_sensitive POLICY_REQUIRED FAMILIES"
    "(0, Result, 0) \<notin> schema_keys om_sensitive POLICY_FORBIDDEN FAMILIES"
    "(0, Result, 0) \<notin> schema_keys om_compression POLICY_REQUIRED FAMILIES"
    using schema_key_operation by (fastforce simp: POLICY_REQUIRED_def POLICY_FORBIDDEN_def POLICY_ALLOWED_def)+
  moreover have "fc_compression_required c = schema_keys om_compression POLICY_REQUIRED FAMILIES"
    "fc_sensitive_required c = schema_keys om_sensitive POLICY_REQUIRED FAMILIES"
    using c by (auto simp: FrameCodec_pre_hello_def enc_iff FrameCodec_new_iff)
  ultimately show ?thesis
    unfolding validate_schema_flags_iff pre_hello_codec_def c sum.sel
    by (simp add: header_key_def FrameHeader_result_def FAMILY_CORE_def HELLO_KIND_def)
qed

lemma attempt_context_flags:
  "FrameCodec_validate_schema_flags ping_codec ((FrameHeader_event FAMILY_EXTENSION ATTEMPT_CONTEXT_KIND)\<lparr>fh_sensitive := True\<rparr>) = Inr ()"
proof -
  let ?k = "(FAMILY_EXTENSION, Event, 2)"
  have row: "op_row ''ATTEMPT_CONTEXT'' 0 2 1 1 0 0 \<in> set EXTENSION_OPERATIONS"
    by (simp add: EXTENSION_OPERATIONS_def)
  define f where "f = \<lparr>fm_name = ''yas.extension'', fm_id = 67, fm_version = 1, fm_dependencies = [1, 66],
      fm_operations = EXTENSION_OPERATIONS, fm_limits = EXTENSION_LIMITS\<rparr>"
  then have f: "f \<in> set FAMILIES" "fm_id f = FAMILY_EXTENSION" "fm_operations f = EXTENSION_OPERATIONS"
    by (simp_all add: FAMILIES_def family_consts)
  then have "?k \<in> schema_keys om_sensitive POLICY_REQUIRED FAMILIES" "?k \<in> schema_keys om_compression POLICY_ALLOWED FAMILIES"
    using row
    by (auto intro!: schema_keysI [OF f(1), of "op_row ''ATTEMPT_CONTEXT'' 0 2 1 1 0 0"]
        simp: keys_of_def op_row_def POLICY_REQUIRED_def POLICY_ALLOWED_def transport_consts)
  then have "?k \<notin> schema_keys om_sensitive POLICY_FORBIDDEN FAMILIES" "?k \<notin> schema_keys om_compression POLICY_REQUIRED FAMILIES"
    using schema_key_operation by (fastforce simp: POLICY_REQUIRED_def POLICY_FORBIDDEN_def POLICY_ALLOWED_def)+
  then show ?thesis
    unfolding validate_schema_flags_iff
    by (simp add: ping_codec_def header_key_def FrameHeader_event_def ATTEMPT_CONTEXT_KIND_def)
qed

lemma guest_response:
  "\<exists>f s. FrameCodec_encode_stream stored pre_hello_codec f = Inr s \<and> length s \<le> 3000
     \<and> accept_hello run_offer f = Inr guest_answer"
proof -
  obtain p where p: "ServerHello_decode p = Inr guest_answer" "length p \<le> 2000"
    using guest_answer_bytes by blast
  obtain r where r: "ResultPrefix_decode r = Inr \<lparr>rp_status = StOk, rp_detail = [], rp_body = p\<rparr>" "length r \<le> 2100"
    using p(2)
    by (auto simp: ResultPrefix_decode_iff ResultPrefix_encode_def Status_named_def Status_is_ok_def
        validate_result_or_event_extensions_def Extensions_validate_def Extensions_encode_entries_def put_len_u32_def)
  let ?f = "\<lparr>fr_header = FrameHeader_result FAMILY_CORE HELLO_KIND HELLO_REQUEST_ID, fr_payload = r\<rparr>"
  have "\<exists>s. FrameCodec_encode_stream stored pre_hello_codec ?f = Inr s \<and> length s \<le> length (fr_payload ?f) + 13"
    by (rule plain_frame_encodes)
      (use hello_result_flags r(2) in \<open>simp_all add: FrameHeader_result_def FrameHeader_validate_def HELLO_REQUEST_ID_def
        pre_hello_codec_limits FrameLimits_pre_hello_def PRE_HELLO_MAX_FRAME_def\<close>)
  moreover have "accept_hello run_offer ?f = Inr guest_answer"
    using r(1) p(1) guest_answer_accepted guest_answer_operations by (simp add: accept_hello_iff)
  ultimately show ?thesis
    using r(2) by force
qed

lemma guest_context:
  "\<exists>f s. FrameCodec_encode_stream stored ping_codec f = Inr s \<and> length s \<le> 3000 \<and> accept_context f = Inr sample_context"
proof -
  have valid: "AttemptContext_validate sample_context = Inr ()"
    by code_simp
  have "\<exists>p. AttemptContext_encode sample_context = Inr p \<and> length p \<le> 200"
    by (simp add: AttemptContext_encode_def valid)
      (simp add: sample_context_def put_string_u16_def put_bytes_u16_def put_len_u16_def put_len_u32_def
        Extensions_encode_tail_def Extensions_encode_entries_def Extensions_validate_def put_u8_def)
  moreover have "AttemptContext_ok sample_context"
    by code_simp
  ultimately obtain p where p: "AttemptContext_decode p = Inr sample_context" "length p \<le> 200"
    by (auto simp: AttemptContext_decode_iff)
  let ?f = "\<lparr>fr_header = (FrameHeader_event FAMILY_EXTENSION ATTEMPT_CONTEXT_KIND)\<lparr>fh_sensitive := True\<rparr>, fr_payload = p\<rparr>"
  have "\<exists>s. FrameCodec_encode_stream stored ping_codec ?f = Inr s \<and> length s \<le> length (fr_payload ?f) + 13"
    by (rule plain_frame_encodes)
      (use attempt_context_flags p(2) in \<open>simp_all add: FrameHeader_event_def FrameHeader_validate_def ping_codec_def
        FrameLimits_recommended_def RECOMMENDED_WIRE_FRAME_def RECOMMENDED_DECODED_FRAME_def\<close>)
  moreover have "accept_context ?f = Inr sample_context"
    using p(1) by (simp add: accept_context_def wire_def)
  ultimately show ?thesis
    using p(2) by force
qed

section \<open>The bootstrap\<close>

lemma hbind_run: "m h = (Inr a, h1) \<Longrightarrow> f a h1 = r \<Longrightarrow> hbind m f h = r"
  by (simp add: hbind_def)

lemma wire_Inr: "wire (Inr a) = Inr a"
  by (simp add: wire_def)

lemma mailbox_random: "host_random mailbox_host h (replicate 16 0) = (Inr (replicate 16 0), h)"
  by (simp add: host_random.simps mailbox_host_def MAX_RANDOM_CHUNK_def overlay_def Let_def)

lemma mailbox_send: "p \<noteq> [] \<Longrightarrow> length p \<le> MAX_PACKET_SIZE \<Longrightarrow> send_chunk mailbox_host h p = (Inr (), h)"
  by (simp add: send_chunk_def host_send_def mailbox_host_def)

lemma mailbox_send_stream: "send_stream mailbox_host h b = (Inr (), h)"
proof (induction "length b" arbitrary: b rule: less_induct)
  case less
  then show ?case
    by (subst send_stream.simps) (auto simp: Let_def mailbox_send MAX_PACKET_SIZE_def)
qed

lemma mailbox_recv_frame:
  assumes "FrameCodec_encode_stream stored codec f = Inr s" and "sr_stream sr @ concat h = s @ concat ps"
    and "\<forall>p\<in>set h. p \<noteq> [] \<and> length p \<le> 3000" and "length s \<le> 3000"
    and "length (sr_host_buffer sr) \<le> MAX_PACKET_SIZE" and "6000 \<le> sr_maximum sr"
  shows "\<exists>sr1 h1. recv_frame mailbox_host codec sr h = (Inr (f, sr1), h1) \<and> sr_stream sr1 @ concat h1 = concat ps
    \<and> sr_maximum sr1 = sr_maximum sr \<and> length (sr_host_buffer sr1) \<le> MAX_PACKET_SIZE \<and> set h1 \<subseteq> set h"
proof -
  have lz4: "lz4_compress mailbox_host = stored" "lz4_decompress mailbox_host = unstored"
    by (simp_all add: mailbox_host_def)
  have "\<exists>sr1 h1. StreamReceiver_recv_until mailbox_host codec MAX_INSTANT sr h = (Inr (ReceivedFrame f), sr1, h1)
      \<and> sr_stream sr1 @ concat (id h1) = concat ps \<and> sr_maximum sr1 = sr_maximum sr
      \<and> length (sr_host_buffer sr1) \<le> MAX_PACKET_SIZE \<and> set (id h1) \<subseteq> set (id h)"
    by (rule recv_until_frame[OF mailbox_host_faithful, where P = 3000])
      (use assms stored_lz4 in \<open>simp_all add: lz4 MAX_PACKET_SIZE_def\<close>)
  then show ?thesis
    by (auto simp: recv_frame_def StreamReceiver_recv_def)
qed

lemma run_offer_bytes: "\<exists>p. ClientHello_encode run_offer = Inr p \<and> length p \<le> 300"
  using run_offer_valid
  by (simp add: ClientHello_encode_def)
    (simp add: guest_offer_def run_offers put_string_u16_def put_bytes_u16_def put_len_u16_def put_len_u8_def
      put_len_u32_def FamilyOffer_put_def FamilyOffer_validate_def Extensions_encode_tail_def
      Extensions_encode_entries_def Extensions_validate_def ReceiveLimits_encode_to_def GUEST_NAME_def
      guest_limits_valid)

lemma guest_codecs:
  "FrameCodec_new \<lparr>fl_max_wire_frame = RECEIVE_MAX_FRAME, fl_max_decoded_frame = RECEIVE_MAX_DECODED\<rparr> [] = Inr ping_codec"
  "FrameCodec_new (limits_of (se_receive guest_answer)) [] = Inr ping_codec"
  "ServerHello_negotiated_codecs guest_answer = Inr []"
proof -
  have "limits_of (se_receive guest_answer) = FrameLimits_recommended"
    using hello_answer_limits by (simp add: guest_answer_def)
  then show "FrameCodec_new (limits_of (se_receive guest_answer)) [] = Inr ping_codec"
    "FrameCodec_new \<lparr>fl_max_wire_frame = RECEIVE_MAX_FRAME, fl_max_decoded_frame = RECEIVE_MAX_DECODED\<rparr> [] = Inr ping_codec"
    using ping_codec_new by (simp_all add: FrameLimits_recommended_def RECEIVE_MAX_FRAME_def RECEIVE_MAX_DECODED_def)
  show "ServerHello_negotiated_codecs guest_answer = Inr []"
    by (simp add: ServerHello_negotiated_codecs_def guest_answer_def hello_answer_def find_extension_def)
qed

text \<open>Two packets are enough: the server's HELLO and the attempt context.\<close>

lemma bootstrap_runs:
  "\<exists>packets c h1. length packets = 2 \<and> bootstrap_with_offers mailbox_host [49] [] packets = (Inr c, h1)"
proof -
  obtain f s where f: "FrameCodec_encode_stream stored pre_hello_codec f = Inr s" "length s \<le> 3000"
    "accept_hello run_offer f = Inr guest_answer"
    using guest_response by blast
  obtain g t where g: "FrameCodec_encode_stream stored ping_codec g = Inr t" "length t \<le> 3000"
    "accept_context g = Inr sample_context"
    using guest_context by blast
  have ne: "s \<noteq> []" "t \<noteq> []"
    using f(1) g(1) length_le_bytes[of 4 "0 :: u32"] by (auto simp: encode_stream_iff put_u32_def simp del: length_le_bytes)
  let ?sr = "StreamReceiver_new (unat RECEIVE_MAX_BUFFERED)"
  have maximum: "unat RECEIVE_MAX_BUFFERED = 33554432"
    by (simp add: RECEIVE_MAX_BUFFERED_def RECEIVE_CREDIT_BUDGET_def RECEIVE_PENDING_BUDGET_def RECOMMENDED_BUFFERED_def)
  obtain sr1 h1 where one: "recv_frame mailbox_host pre_hello_codec ?sr [s, t] = (Inr (f, sr1), h1)"
    "sr_stream sr1 @ concat h1 = t" "sr_maximum sr1 = 33554432" "length (sr_host_buffer sr1) \<le> MAX_PACKET_SIZE" "set h1 \<subseteq> {s, t}"
    using mailbox_recv_frame[OF f(1), of ?sr "[s, t]" "[t]"] ne f(2) g(2)
    by (auto simp: StreamReceiver_new_def maximum INITIAL_BUFFER_def MAX_PACKET_SIZE_def)
  obtain sr2 h2 where two: "recv_frame mailbox_host ping_codec sr1 h1 = (Inr (g, sr2), h2)"
    using mailbox_recv_frame[OF g(1), of sr1 h1 "[]"] one ne f(2) g(2) by auto
  obtain p where p: "ClientHello_encode run_offer = Inr p" "length p \<le> 300"
    using run_offer_bytes by blast
  obtain first where "FrameCodec_encode_stream stored pre_hello_codec (hello_frame 1 p) = Inr first"
    using hello_frame_encodes[of p] p(2) by auto
  then have first: "FrameCodec_encode_stream (lz4_compress mailbox_host) pre_hello_codec
      \<lparr>fr_header = FrameHeader_request FAMILY_CORE HELLO_KIND HELLO_REQUEST_ID, fr_payload = p\<rparr> = Inr first"
    by (simp add: hello_frame_def HELLO_REQUEST_ID_def mailbox_host_def)
  have pre: "FrameCodec_pre_hello = Inr pre_hello_codec"
    using pre_hello_new unfolding pre_hello_codec_def by (metis sum.sel(2))
  have preface: "send_chunk mailbox_host [s, t] PREFACE = (Inr (), [s, t])"
    by (rule mailbox_send) (simp_all add: PREFACE_def MAX_PACKET_SIZE_def)
  have random: "(case host_random mailbox_host [s, t] (replicate 16 0) of
      (Inl e, h1) \<Rightarrow> (Inl (Err (HostFailed e)), h1) | (Inr b, h1) \<Rightarrow> (Inr b, h1)) = (Inr (replicate 16 0), [s, t])"
    by (simp only: mailbox_random prod.case sum.case)
  have "bootstrap_with_offers mailbox_host [49] [] [s, t]
      = (Inr (new_client guest_answer sample_context ping_codec ping_codec sr2 []), h2)"
    unfolding bootstrap_with_offers_def Let_def list_ex_Nil_iff if_False
    by (rule hbind_run, rule random,
        rule hbind_run, simp only: hlift_def run_offer_valid wire_Inr,
        rule hbind_run, rule preface,
        rule hbind_run, simp only: hlift_def p(1) wire_Inr,
        rule hbind_run, simp only: hlift_def pre sum.case,
        rule hbind_run, simp only: hlift_def first wire_Inr,
        rule hbind_run, rule mailbox_send_stream,
        rule hbind_run, rule one(1), unfold prod.case,
        rule hbind_run, simp only: hlift_def f(3),
        (rule hbind_run, simp only: hlift_def guest_codecs wire_Inr)+,
        rule hbind_run, rule two, unfold prod.case,
        rule hbind_run, simp only: hlift_def g(3), simp only: hlift_def)
  then show ?thesis
    by (intro exI[of _ "[s, t]"]) auto
qed

theorem bootstrap_negotiates_witness:
  "\<exists>packets c h1. length packets = 2 \<and> bootstrap_with_offers mailbox_host [49] [] packets = (Inr c, h1)
     \<and> client_inv c \<and> \<not> cl_poisoned c"
proof -
  obtain packets c h1 where run: "length packets = 2" "bootstrap_with_offers mailbox_host [49] [] packets = (Inr c, h1)"
    using bootstrap_runs by blast
  with bootstrap_negotiates[OF run(2)] show ?thesis
    by blast
qed

end
