(* ===== verification/Channel_Admission.thy ===== *)
theory Channel_Admission
  imports Yas_Prelude "HOL-Library.AList" "HOL-Library.Multiset"
begin

text \<open>
  The admission counters of the channel fabric (\<^verbatim>\<open>crates/server/src/channel.rs\<close>): connected pairs, their
  flow windows and the handle slots of each endpoint, charged by reference-counted reservations and given
  back when the last reference is dropped.  The locale \<^verbatim>\<open>reservations\<close> is what the fabric relies on.
\<close>

section \<open>Shared references\<close>

text \<open>The allocations behind \<^verbatim>\<open>Arc\<close>: a value and the number of references to it.\<close>

type_synonym 'a arcs = "(nat \<times> 'a \<times> nat) list"

definition arc_clone :: "nat \<Rightarrow> 'a arcs \<Rightarrow> 'a arcs" where
  "arc_clone i h = (case map_of h i of None \<Rightarrow> h | Some (a, n) \<Rightarrow> AList.update i (a, Suc n) h)"

text \<open>Dropping the last reference frees the value, whose \<^verbatim>\<open>Drop\<close> runs then.\<close>

definition arc_drop :: "nat \<Rightarrow> 'a arcs \<Rightarrow> 'a option \<times> 'a arcs" where
  "arc_drop i h =
     (case map_of h i of
        None \<Rightarrow> (None, h)
      | Some (a, n) \<Rightarrow> if n \<le> 1 then (Some a, AList.delete i h) else (None, AList.update i (a, n - 1) h))"

section \<open>The counters\<close>

definition FLOW_WINDOW_BYTES :: u64 where "FLOW_WINDOW_BYTES = 1024 * 1024"
definition DEFAULT_MAX_LISTEN_PER_CLIENT :: u64 where "DEFAULT_MAX_LISTEN_PER_CLIENT = 64"
definition DEFAULT_MAX_LISTENERS :: u64 where "DEFAULT_MAX_LISTENERS = 1024"
definition DEFAULT_MAX_PER_CLIENT :: u64 where "DEFAULT_MAX_PER_CLIENT = 64"
definition DEFAULT_MAX_CONNECTED :: u64 where "DEFAULT_MAX_CONNECTED = 128"
definition DEFAULT_BUFFER_MAX :: u64 where "DEFAULT_BUFFER_MAX = 256 * 1024 * 1024"

text \<open>\<^verbatim>\<open>usize\<close> has 64 bits on the targets of the server.\<close>

record Limits =
  lim_listeners_per_endpoint :: u64
  lim_listeners :: u64
  lim_handles_per_endpoint :: u64
  lim_connected_pairs :: u64
  lim_buffer_bytes :: u64

definition Limits_default :: Limits where
  "Limits_default =
     \<lparr>lim_listeners_per_endpoint = DEFAULT_MAX_LISTEN_PER_CLIENT, lim_listeners = DEFAULT_MAX_LISTENERS,
      lim_handles_per_endpoint = DEFAULT_MAX_PER_CLIENT, lim_connected_pairs = DEFAULT_MAX_CONNECTED,
      lim_buffer_bytes = DEFAULT_BUFFER_MAX\<rparr>"

text \<open>\<^verbatim>\<open>deployment\<close> is what the settings or the environment give for a name, if anything.\<close>

definition Limits_from_env :: "(string \<Rightarrow> u64 option) \<Rightarrow> Limits" where
  "Limits_from_env deployment =
     (let get = (\<lambda>name fallback. case deployment name of None \<Rightarrow> fallback | Some v \<Rightarrow> v);
          defaults = Limits_default
      in \<lparr>lim_listeners_per_endpoint = get ''YAS_CHANNEL_MAX_LISTEN_PER_CLIENT'' (lim_listeners_per_endpoint defaults),
          lim_listeners = get ''YAS_CHANNEL_MAX_LISTENERS'' (lim_listeners defaults),
          lim_handles_per_endpoint = get ''YAS_CHANNEL_MAX_PER_CLIENT'' (lim_handles_per_endpoint defaults),
          lim_connected_pairs = get ''YAS_CHANNEL_MAX_CONNECTED'' (lim_connected_pairs defaults),
          lim_buffer_bytes = get ''YAS_CHANNEL_BUFFER_MAX'' (lim_buffer_bytes defaults)\<rparr>)"

text \<open>
  The three counters the fabric shares with its reservations, and the reservations: the window of each
  \<^verbatim>\<open>PairReservationInner\<close>, the endpoint of each \<^verbatim>\<open>HandleSlotReservationInner\<close>.
\<close>

record admission =
  active_pairs :: u64
  reserved_window_bytes :: u64
  endpoint_slots :: "(u64 \<times> u64) list"
  pair_arcs :: "u64 arcs"
  slot_arcs :: "u64 arcs"
  next_arc :: nat

definition admission_new :: admission where
  "admission_new = \<lparr>active_pairs = 0, reserved_window_bytes = 0, endpoint_slots = [], pair_arcs = [],
     slot_arcs = [], next_arc = 0\<rparr>"

text \<open>\<^verbatim>\<open>impl Drop for PairReservationInner\<close>.\<close>

definition PairReservationInner_drop :: "u64 \<Rightarrow> admission \<Rightarrow> admission" where
  "PairReservationInner_drop window A =
     A\<lparr>active_pairs := active_pairs A - 1, reserved_window_bytes := reserved_window_bytes A - window\<rparr>"

text \<open>\<^verbatim>\<open>impl Drop for HandleSlotReservationInner\<close>.\<close>

definition HandleSlotReservationInner_drop :: "u64 \<Rightarrow> admission \<Rightarrow> admission" where
  "HandleSlotReservationInner_drop endpoint A =
     (case map_of (endpoint_slots A) endpoint of
        None \<Rightarrow> A
      | Some n \<Rightarrow>
          let m = (if n = 0 then 0 else n - 1) in
          A\<lparr>endpoint_slots := if m = 0 then AList.delete endpoint (endpoint_slots A)
                             else AList.update endpoint m (endpoint_slots A)\<rparr>)"

definition drop_pair :: "nat \<Rightarrow> admission \<Rightarrow> admission" where
  "drop_pair i A =
     (case arc_drop i (pair_arcs A) of (freed, h) \<Rightarrow>
        let A1 = A\<lparr>pair_arcs := h\<rparr> in
        case freed of None \<Rightarrow> A1 | Some window \<Rightarrow> PairReservationInner_drop window A1)"

definition drop_slot :: "nat \<Rightarrow> admission \<Rightarrow> admission" where
  "drop_slot i A =
     (case arc_drop i (slot_arcs A) of (freed, h) \<Rightarrow>
        let A1 = A\<lparr>slot_arcs := h\<rparr> in
        case freed of None \<Rightarrow> A1 | Some endpoint \<Rightarrow> HandleSlotReservationInner_drop endpoint A1)"

section \<open>Sides of a pair\<close>

record NativePairSide =
  ps_reservation :: nat
  ps_slot :: nat

definition side_clone :: "NativePairSide \<Rightarrow> admission \<Rightarrow> admission" where
  "side_clone s A = A\<lparr>pair_arcs := arc_clone (ps_reservation s) (pair_arcs A),
                      slot_arcs := arc_clone (ps_slot s) (slot_arcs A)\<rparr>"

definition side_drop :: "NativePairSide \<Rightarrow> admission \<Rightarrow> admission" where
  "side_drop s A = drop_slot (ps_slot s) (drop_pair (ps_reservation s) A)"

section \<open>Reserving\<close>

datatype PairAdmissionError = Connected | Window

definition slot_count :: "admission \<Rightarrow> u64 \<Rightarrow> u64" where
  "slot_count A endpoint = (case map_of (endpoint_slots A) endpoint of None \<Rightarrow> 0 | Some n \<Rightarrow> n)"

definition exceeds :: "u64 option \<Rightarrow> u64 \<Rightarrow> bool" where
  "exceeds n limit = (case n of None \<Rightarrow> True | Some c \<Rightarrow> limit < c)"

definition new_slot :: "u64 \<Rightarrow> admission \<Rightarrow> nat \<times> admission" where
  "new_slot endpoint A =
     (next_arc A, A\<lparr>slot_arcs := (next_arc A, endpoint, 1) # slot_arcs A, next_arc := Suc (next_arc A)\<rparr>)"

definition reserve_handle_slots ::
  "Limits \<Rightarrow> u64 \<Rightarrow> u64 \<Rightarrow> admission \<Rightarrow> (PairAdmissionError + nat \<times> nat) \<times> admission" where
  "reserve_handle_slots l connector accepted A =
     (case (if connector = accepted
            then (case checked_add (slot_count A connector) 2 of
                    None \<Rightarrow> None
                  | Some after \<Rightarrow>
                      if lim_handles_per_endpoint l < after then None
                      else Some (A\<lparr>endpoint_slots := AList.update connector after (endpoint_slots A)\<rparr>))
            else let c = slot_count A connector; a = slot_count A accepted in
              if exceeds (checked_add c 1) (lim_handles_per_endpoint l)
                 \<or> exceeds (checked_add a 1) (lim_handles_per_endpoint l) then None
              else Some (A\<lparr>endpoint_slots := AList.update accepted (a + 1)
                                             (AList.update connector (c + 1) (endpoint_slots A))\<rparr>)) of
        None \<Rightarrow> (Inl Connected, A)
      | Some A1 \<Rightarrow>
          case new_slot connector A1 of (cs, A2) \<Rightarrow>
          case new_slot accepted A2 of (as, A3) \<Rightarrow> (Inr (cs, as), A3))"

definition reserve_pair ::
  "Limits \<Rightarrow> u64 \<Rightarrow> u64 \<Rightarrow> admission \<Rightarrow> (PairAdmissionError + nat \<times> nat \<times> nat) \<times> admission" where
  "reserve_pair l connector accepted A =
     (case reserve_handle_slots l connector accepted A of
        (Inl e, A1) \<Rightarrow> (Inl e, A1)
      | (Inr (cs, as), A1) \<Rightarrow>
          let give_back = drop_slot cs (drop_slot as A1);
              pair_window = FLOW_WINDOW_BYTES * 2
          in
          if lim_connected_pairs l \<le> active_pairs A1 then (Inl Connected, give_back)
          else (case checked_add (reserved_window_bytes A1) pair_window of
                  None \<Rightarrow> (Inl Window, give_back)
                | Some after \<Rightarrow>
                    if lim_buffer_bytes l < after then (Inl Window, give_back)
                    else (Inr (next_arc A1, cs, as),
                          A1\<lparr>active_pairs := active_pairs A1 + 1,
                             reserved_window_bytes := reserved_window_bytes A1 + pair_window,
                             pair_arcs := (next_arc A1, pair_window, 1) # pair_arcs A1,
                             next_arc := Suc (next_arc A1)\<rparr>)))"

section \<open>Counting references\<close>

definition arc_values :: "'a arcs \<Rightarrow> 'a multiset" where
  "arc_values h = image_mset (fst \<circ> snd) (mset h)"

text \<open>\<open>M\<close> is the multiset of all references that exist.\<close>

definition arcs_ok :: "nat multiset \<Rightarrow> 'a arcs \<Rightarrow> bool" where
  "arcs_ok M h \<longleftrightarrow>
     distinct (map fst h)
     \<and> (\<forall>i. count M i = (case map_of h i of None \<Rightarrow> 0 | Some (_, n) \<Rightarrow> n))
     \<and> (\<forall>i a n. (i, a, n) \<in> set h \<longrightarrow> 0 < n)"

lemma arcs_ok_new:
  assumes "arcs_ok M h" and "i \<notin> fst ` set h"
  shows "arcs_ok (add_mset i M) ((i, a, 1) # h)"
proof -
  have "map_of h i = None"
    using assms(2) by (simp add: map_of_eq_None_iff)
  then have "count M i = 0"
    using assms(1) by (simp add: arcs_ok_def)
  then show ?thesis
    using assms by (auto simp: arcs_ok_def)
qed

lemma arcs_ok_live:
  assumes "arcs_ok M h" and "i \<in># M"
  obtains a n where "map_of h i = Some (a, n)" "0 < n" "count M i = n"
proof -
  have count: "count M i = (case map_of h i of None \<Rightarrow> 0 | Some (_, n) \<Rightarrow> n)"
    using assms(1) unfolding arcs_ok_def by blast
  moreover have "0 < count M i"
    using assms(2) by simp
  ultimately obtain a n where "map_of h i = Some (a, n)" "0 < n"
    by (cases "map_of h i") auto
  then show thesis
    using that[of a n] count by simp
qed

lemma mset_update_key:
  "map_of h i = Some v \<Longrightarrow> distinct (map fst h) \<Longrightarrow> mset (AList.update i w h) = add_mset (i, w) (mset h - {#(i, v)#})"
proof (induction h)
  case (Cons p h)
  obtain k u where p: "p = (k, u)"
    by (cases p)
  show ?case
  proof (cases "k = i")
    case True
    with Cons p show ?thesis
      by simp
  next
    case False
    then have "(i, v) \<in># mset h"
      using Cons.prems(1) p by (auto dest: map_of_SomeD)
    then show ?thesis
      using Cons False p by simp
  qed
qed simp

lemma mset_delete_key:
  "map_of h i = Some v \<Longrightarrow> distinct (map fst h) \<Longrightarrow> mset (AList.delete i h) = mset h - {#(i, v)#}"
proof (induction h)
  case (Cons p h)
  obtain k u where p: "p = (k, u)"
    by (cases p)
  show ?case
  proof (cases "k = i")
    case True
    then have "AList.delete i h = h"
      using Cons.prems(2) p by (auto simp: delete_id)
    then show ?thesis
      using Cons.prems(1) True p by simp
  next
    case False
    then have "(i, v) \<in># mset h"
      using Cons.prems(1) p by (auto dest: map_of_SomeD)
    then show ?thesis
      using Cons False p by simp
  qed
qed simp

lemma delete_mem: "x \<in> set (AList.delete i h) \<Longrightarrow> x \<in> set h"
  by (induction h) (auto split: if_splits)

lemma arc_values_mem: "map_of h i = Some (a, n) \<Longrightarrow> a \<in># arc_values h"
  unfolding arc_values_def by (auto dest!: map_of_SomeD intro: rev_image_eqI)

lemma keys_update: "map_of h i = Some v \<Longrightarrow> fst ` set (AList.update i w h) = fst ` set h"
  by (simp add: update_conv' insert_absorb domI flip: dom_map_of_conv_image_fst)

lemma arc_clone_ok:
  assumes "arcs_ok M h" and "i \<in># M"
  shows "arcs_ok (add_mset i M) (arc_clone i h)" "arc_values (arc_clone i h) = arc_values h"
    "fst ` set (arc_clone i h) = fst ` set h"
proof -
  obtain a n where i: "map_of h i = Some (a, n)" "0 < n" "count M i = n"
    using arcs_ok_live[OF assms] .
  have h: "distinct (map fst h)"
    using assms(1) by (simp add: arcs_ok_def)
  have m: "mset (AList.update i (a, Suc n) h) = add_mset (i, a, Suc n) (mset h - {#(i, a, n)#})"
    by (rule mset_update_key[OF i(1) h])
  have "0 < k" if "(j, b, k) \<in> set (AList.update i (a, Suc n) h)" for j b k
    using that assms(1) arg_cong[OF m, of set_mset] unfolding arcs_ok_def
    by (auto dest: in_diffD)
  then show "arcs_ok (add_mset i M) (arc_clone i h)"
    using assms(1) i by (auto simp: arcs_ok_def arc_clone_def update_conv' distinct_update)
  have "(i, a, n) \<in># mset h"
    using i(1) by (auto dest: map_of_SomeD)
  then obtain rest where "mset h = add_mset (i, a, n) rest"
    by (blast dest: multi_member_split)
  then show "arc_values (arc_clone i h) = arc_values h"
    using i(1) m by (simp add: arc_values_def arc_clone_def)
  show "fst ` set (arc_clone i h) = fst ` set h"
    using i(1) keys_update[OF i(1)] by (simp add: arc_clone_def)
qed

lemma arc_drop_ok:
  assumes "arcs_ok (add_mset i M) h" and "arc_drop i h = (freed, h')"
  shows "arcs_ok M h'" "fst ` set h' \<subseteq> fst ` set h"
    "case freed of None \<Rightarrow> arc_values h' = arc_values h | Some a \<Rightarrow> arc_values h = add_mset a (arc_values h')"
proof -
  obtain a n where i: "map_of h i = Some (a, n)" "0 < n" "Suc (count M i) = n"
    using arcs_ok_live[OF assms(1), of i] by auto
  have h: "distinct (map fst h)" "\<And>j. count (add_mset i M) j = (case map_of h j of None \<Rightarrow> 0 | Some (_, k) \<Rightarrow> k)"
    "\<And>j b k. (j, b, k) \<in> set h \<Longrightarrow> 0 < k"
    using assms(1) by (auto simp: arcs_ok_def)
  have "(i, a, n) \<in># mset h"
    using i(1) by (auto dest: map_of_SomeD)
  then obtain rest where rest: "mset h = add_mset (i, a, n) rest"
    by (blast dest: multi_member_split)
  have other: "count M j = (case map_of h j of None \<Rightarrow> 0 | Some (_, k) \<Rightarrow> k)" if "j \<noteq> i" for j
    using h(2)[of j] that by simp
  show "arcs_ok M h'"
  proof (cases "n \<le> 1")
    case True
    then have "h' = AList.delete i h" "count M i = 0"
      using assms(2) i by (auto simp: arc_drop_def)
    then show ?thesis
      using h(1,3) other unfolding arcs_ok_def by (auto simp: delete_conv' distinct_delete dest: delete_mem)
  next
    case False
    then have h': "h' = AList.update i (a, n - 1) h"
      using assms(2) i by (auto simp: arc_drop_def)
    have m: "mset h' = add_mset (i, a, n - 1) (mset h - {#(i, a, n)#})"
      unfolding h' by (rule mset_update_key[OF i(1) h(1)])
    have "0 < k" if "(j, b, k) \<in> set h'" for j b k
      using that h(3) False arg_cong[OF m, of set_mset] by (auto dest: in_diffD)
    then show ?thesis
      using h(1) other i unfolding arcs_ok_def h' by (auto simp: update_conv' distinct_update)
  qed
  show "fst ` set h' \<subseteq> fst ` set h"
  proof (cases "n \<le> 1")
    case True
    then have "h' = AList.delete i h"
      using assms(2) i(1) by (simp add: arc_drop_def)
    then show ?thesis
      by (simp only: dom_delete_subset)
  next
    case False
    then have "h' = AList.update i (a, n - 1) h"
      using assms(2) i(1) by (auto simp: arc_drop_def)
    then show ?thesis
      by (simp add: keys_update[OF i(1)])
  qed
  show "case freed of None \<Rightarrow> arc_values h' = arc_values h | Some a \<Rightarrow> arc_values h = add_mset a (arc_values h')"
    using assms(2) i rest mset_update_key[OF i(1) h(1)] mset_delete_key[OF i(1) h(1)]
    by (auto simp: arc_drop_def arc_values_def split: if_splits)
qed

section \<open>The counters are exact\<close>

definition PAIR_WINDOW :: u64 where "PAIR_WINDOW = FLOW_WINDOW_BYTES * 2"

text \<open>The counters agree with the reservations, and these with the references that exist.\<close>

definition pairs_ok :: "nat multiset \<Rightarrow> admission \<Rightarrow> bool" where
  "pairs_ok R A \<longleftrightarrow>
     arcs_ok R (pair_arcs A) \<and> (\<forall>i \<in> fst ` set (pair_arcs A). i < next_arc A)
     \<and> unat (active_pairs A) = length (pair_arcs A)
     \<and> (\<forall>w \<in># arc_values (pair_arcs A). w = PAIR_WINDOW)
     \<and> unat (reserved_window_bytes A) = unat PAIR_WINDOW * length (pair_arcs A)"

definition slots_ok :: "nat multiset \<Rightarrow> admission \<Rightarrow> bool" where
  "slots_ok S A \<longleftrightarrow>
     arcs_ok S (slot_arcs A) \<and> (\<forall>i \<in> fst ` set (slot_arcs A). i < next_arc A)
     \<and> distinct (map fst (endpoint_slots A)) \<and> (\<forall>e n. map_of (endpoint_slots A) e = Some n \<longrightarrow> n \<noteq> 0)
     \<and> (\<forall>e. unat (slot_count A e) = count (arc_values (slot_arcs A)) e)"

definition admission_ok :: "NativePairSide multiset \<Rightarrow> admission \<Rightarrow> bool" where
  "admission_ok M A \<longleftrightarrow> pairs_ok (image_mset ps_reservation M) A \<and> slots_ok (image_mset ps_slot M) A"

text \<open>What the limits allow.\<close>

definition within_limits :: "Limits \<Rightarrow> admission \<Rightarrow> bool" where
  "within_limits l A \<longleftrightarrow>
     active_pairs A \<le> lim_connected_pairs l \<and> reserved_window_bytes A \<le> lim_buffer_bytes l
     \<and> (\<forall>e. slot_count A e \<le> lim_handles_per_endpoint l)"

lemma size_arc_values: "size (arc_values h) = length h"
  by (simp add: arc_values_def)

lemma admission_new_ok: "admission_ok {#} admission_new" "within_limits l admission_new"
  by (simp_all add: admission_ok_def pairs_ok_def slots_ok_def admission_new_def arcs_ok_def arc_values_def
      slot_count_def within_limits_def)

lemma side_clone_ok:
  assumes "admission_ok M A" and "s \<in># M"
  shows "admission_ok (add_mset s M) (side_clone s A)" "within_limits l (side_clone s A) = within_limits l A"
proof -
  have pair: "ps_reservation s \<in># image_mset ps_reservation M" and slot: "ps_slot s \<in># image_mset ps_slot M"
    using assms(2) by auto
  note p = arc_clone_ok[OF _ pair, of "pair_arcs A"] and q = arc_clone_ok[OF _ slot, of "slot_arcs A"]
  have "length (arc_clone (ps_reservation s) (pair_arcs A)) = length (pair_arcs A)"
    using arg_cong[OF p(2), of size] assms(1) by (simp add: admission_ok_def pairs_ok_def size_arc_values)
  then show "admission_ok (add_mset s M) (side_clone s A)"
    using assms(1) p q by (simp add: admission_ok_def pairs_ok_def slots_ok_def side_clone_def slot_count_def)
  show "within_limits l (side_clone s A) = within_limits l A"
    by (simp add: within_limits_def side_clone_def slot_count_def)
qed

lemma drop_pair_ok:
  assumes "pairs_ok (add_mset i R) A"
  shows "pairs_ok R (drop_pair i A)" "slots_ok S (drop_pair i A) = slots_ok S A"
    "active_pairs (drop_pair i A) \<le> active_pairs A" "reserved_window_bytes (drop_pair i A) \<le> reserved_window_bytes A"
    "endpoint_slots (drop_pair i A) = endpoint_slots A" "slot_arcs (drop_pair i A) = slot_arcs A"
proof -
  obtain freed h where d: "arc_drop i (pair_arcs A) = (freed, h)"
    by (cases "arc_drop i (pair_arcs A)")
  have ok: "arcs_ok (add_mset i R) (pair_arcs A)" "unat (active_pairs A) = length (pair_arcs A)"
    "\<forall>w \<in># arc_values (pair_arcs A). w = PAIR_WINDOW"
    "unat (reserved_window_bytes A) = unat PAIR_WINDOW * length (pair_arcs A)"
    using assms by (simp_all add: pairs_ok_def)
  note drop = arc_drop_ok[OF ok(1) d]
  have keys: "\<forall>i \<in> fst ` set h. i < next_arc A"
  proof
    fix i assume "i \<in> fst ` set h"
    then have "i \<in> fst ` set (pair_arcs A)"
      by (rule subsetD[OF drop(2)])
    moreover have "\<forall>i \<in> fst ` set (pair_arcs A). i < next_arc A"
      using assms unfolding pairs_ok_def by (elim conjE)
    ultimately show "i < next_arc A"
      by (rule bspec[rotated])
  qed
  have all: "pairs_ok R (drop_pair i A) \<and> active_pairs (drop_pair i A) \<le> active_pairs A
      \<and> reserved_window_bytes (drop_pair i A) \<le> reserved_window_bytes A"
  proof (cases freed)
    case None
    then have "length h = length (pair_arcs A)"
      using arg_cong[of _ _ size, OF drop(3)[unfolded None option.case]] by (simp add: size_arc_values)
    then show ?thesis
      using None d drop(1,3) assms keys by (simp add: drop_pair_def pairs_ok_def)
  next
    case (Some w)
    have vals: "arc_values (pair_arcs A) = add_mset w (arc_values h)"
      using drop(3) Some by simp
    then have w: "w = PAIR_WINDOW"
      using ok(3) by simp
    have len: "length (pair_arcs A) = Suc (length h)"
      using arg_cong[OF vals, of size] by (simp only: size_arc_values size_add_mset)
    have le: "1 \<le> active_pairs A" "PAIR_WINDOW \<le> reserved_window_bytes A"
      using ok(2,4) len by (simp_all add: word_le_nat_alt)
    then have "unat (active_pairs A - 1) = length h" "unat (reserved_window_bytes A - PAIR_WINDOW) = unat PAIR_WINDOW * length h"
      using ok(2,4) len by (simp_all add: unat_sub)
    then show ?thesis
      using Some d drop(1) ok(3) keys vals w le
      by (simp add: drop_pair_def pairs_ok_def PairReservationInner_drop_def word_sub_le)
  qed
  then show "pairs_ok R (drop_pair i A)" "active_pairs (drop_pair i A) \<le> active_pairs A"
    "reserved_window_bytes (drop_pair i A) \<le> reserved_window_bytes A"
    by simp_all
  show "slots_ok S (drop_pair i A) = slots_ok S A" "endpoint_slots (drop_pair i A) = endpoint_slots A"
    "slot_arcs (drop_pair i A) = slot_arcs A"
    using d by (simp_all add: drop_pair_def slots_ok_def slot_count_def PairReservationInner_drop_def Let_def
        split: option.split)
qed

lemma HandleSlotReservationInner_drop_count:
  assumes "distinct (map fst (endpoint_slots A))" and "\<forall>e n. map_of (endpoint_slots A) e = Some n \<longrightarrow> n \<noteq> 0"
    and "slot_count A w \<noteq> 0"
  defines "B \<equiv> HandleSlotReservationInner_drop w A"
  shows "slot_count B e = (if e = w then slot_count A e - 1 else slot_count A e)"
    "distinct (map fst (endpoint_slots B))" "\<forall>e n. map_of (endpoint_slots B) e = Some n \<longrightarrow> n \<noteq> 0"
    "pair_arcs B = pair_arcs A" "slot_arcs B = slot_arcs A" "next_arc B = next_arc A"
    "active_pairs B = active_pairs A" "reserved_window_bytes B = reserved_window_bytes A"
proof -
  obtain n where n: "map_of (endpoint_slots A) w = Some n" "n \<noteq> 0"
    using assms(3) by (auto simp: slot_count_def split: option.splits)
  have B: "B = A\<lparr>endpoint_slots := if n - 1 = 0 then AList.delete w (endpoint_slots A)
                                  else AList.update w (n - 1) (endpoint_slots A)\<rparr>"
    using n by (simp add: B_def HandleSlotReservationInner_drop_def Let_def)
  show "slot_count B e = (if e = w then slot_count A e - 1 else slot_count A e)"
    using n by (simp add: B slot_count_def delete_conv' update_conv')
  show "distinct (map fst (endpoint_slots B))"
    using assms(1) by (simp add: B distinct_delete distinct_update)
  show "\<forall>e n. map_of (endpoint_slots B) e = Some n \<longrightarrow> n \<noteq> 0"
    using assms(2) n by (auto simp: B delete_conv' update_conv' split: if_splits)
qed (simp_all add: B_def HandleSlotReservationInner_drop_def Let_def split: option.splits)

lemma drop_slot_ok:
  assumes "slots_ok (add_mset i S) A"
  shows "slots_ok S (drop_slot i A)" "pairs_ok R (drop_slot i A) = pairs_ok R A"
    "slot_count (drop_slot i A) e \<le> slot_count A e"
    "active_pairs (drop_slot i A) = active_pairs A" "reserved_window_bytes (drop_slot i A) = reserved_window_bytes A"
proof -
  obtain freed h where d: "arc_drop i (slot_arcs A) = (freed, h)"
    by (cases "arc_drop i (slot_arcs A)")
  have ok: "arcs_ok (add_mset i S) (slot_arcs A)" "\<And>e. unat (slot_count A e) = count (arc_values (slot_arcs A)) e"
    "distinct (map fst (endpoint_slots A))" "\<forall>e n. map_of (endpoint_slots A) e = Some n \<longrightarrow> n \<noteq> 0"
    using assms unfolding slots_ok_def by blast+
  note drop = arc_drop_ok[OF ok(1) d]
  have keys: "\<forall>i \<in> fst ` set h. i < next_arc A"
  proof
    fix i assume "i \<in> fst ` set h"
    then have "i \<in> fst ` set (slot_arcs A)"
      by (rule subsetD[OF drop(2)])
    moreover have "\<forall>i \<in> fst ` set (slot_arcs A). i < next_arc A"
      using assms unfolding slots_ok_def by (elim conjE)
    ultimately show "i < next_arc A"
      by (rule bspec[rotated])
  qed
  have "slots_ok S (drop_slot i A) \<and> pairs_ok R (drop_slot i A) = pairs_ok R A
      \<and> slot_count (drop_slot i A) e \<le> slot_count A e \<and> active_pairs (drop_slot i A) = active_pairs A
      \<and> reserved_window_bytes (drop_slot i A) = reserved_window_bytes A"
  proof (cases freed)
    case None
    then show ?thesis
      using d drop(1,3) ok(2-4) keys by (simp add: drop_slot_def slots_ok_def pairs_ok_def slot_count_def)
  next
    case (Some w)
    define A1 where "A1 = A\<lparr>slot_arcs := h\<rparr>"
    have count: "slot_count A1 = slot_count A"
      by (simp add: fun_eq_iff A1_def slot_count_def)
    have vals: "arc_values (slot_arcs A) = add_mset w (arc_values h)"
      using drop(3) Some by simp
    then have pos: "slot_count A1 w \<noteq> 0"
      using ok(2)[of w] by (auto simp: count)
    have B: "drop_slot i A = HandleSlotReservationInner_drop w A1"
      using d Some by (simp add: drop_slot_def A1_def)
    have le: "1 \<le> slot_count A w" "unat (slot_count A w - 1) = count (arc_values h) w"
      using pos ok(2)[of w] vals by (simp_all add: count word_le_nat_alt unat_sub unat_gt_0 Suc_leI)
    have ok1: "distinct (map fst (endpoint_slots A1))" "\<forall>e n. map_of (endpoint_slots A1) e = Some n \<longrightarrow> n \<noteq> 0"
      using ok(3,4) by (simp_all add: A1_def)
    note freed = HandleSlotReservationInner_drop_count[OF ok1 pos, folded B]
    have "unat (slot_count (drop_slot i A) e) = count (arc_values h) e" for e
      using freed(1)[of e] le(2) ok(2)[of e] vals by (simp add: count)
    then have "slots_ok S (drop_slot i A)"
      unfolding slots_ok_def using freed(2,3,5,6) drop(1) keys by (simp add: A1_def)
    moreover have "pairs_ok R (drop_slot i A) = pairs_ok R A"
      unfolding pairs_ok_def freed(4,6,7,8) by (simp add: A1_def)
    moreover have "slot_count (drop_slot i A) e \<le> slot_count A e"
      using freed(1)[of e] le(1) by (simp add: count word_sub_le)
    ultimately show ?thesis
      using freed(7,8) by (simp add: A1_def)
  qed
  then show "slots_ok S (drop_slot i A)" "pairs_ok R (drop_slot i A) = pairs_ok R A"
    "slot_count (drop_slot i A) e \<le> slot_count A e"
    "active_pairs (drop_slot i A) = active_pairs A" "reserved_window_bytes (drop_slot i A) = reserved_window_bytes A"
    by simp_all
qed

section \<open>The endpoint a slot is charged to\<close>

definition slot_owner :: "admission \<Rightarrow> NativePairSide \<Rightarrow> u64 option" where
  "slot_owner A s = map_option fst (map_of (slot_arcs A) (ps_slot s))"

lemma arc_clone_value: "map_option fst (map_of (arc_clone i h) j) = map_option fst (map_of h j)"
  by (simp add: arc_clone_def update_conv' split: option.split)

lemma arc_drop_value:
  assumes "arcs_ok (add_mset i M) h" and "j \<in># M"
  shows "map_option fst (map_of (snd (arc_drop i h)) j) = map_option fst (map_of h j)"
proof -
  obtain a n where i: "map_of h i = Some (a, n)" "Suc (count M i) = n"
    using arcs_ok_live[OF assms(1), of i] by auto
  then have "j \<noteq> i" if "n \<le> 1"
    using that assms(2) by (auto simp flip: count_greater_zero_iff)
  then show ?thesis
    using i(1) by (auto simp: arc_drop_def delete_conv' update_conv')
qed

lemma slot_arcs_drop_slot: "slot_arcs (drop_slot i A) = snd (arc_drop i (slot_arcs A))"
  by (simp add: drop_slot_def HandleSlotReservationInner_drop_def Let_def split: prod.split option.split)

lemma slot_owner_clone: "slot_owner (side_clone s A) t = slot_owner A t"
  by (simp add: slot_owner_def side_clone_def arc_clone_value)

lemma side_drop_ok:
  assumes "admission_ok (add_mset s M) A"
  shows "admission_ok M (side_drop s A)" "within_limits l A \<Longrightarrow> within_limits l (side_drop s A)"
    "t \<in># M \<Longrightarrow> slot_owner (side_drop s A) t = slot_owner A t"
proof -
  have a: "pairs_ok (add_mset (ps_reservation s) (image_mset ps_reservation M)) A"
    and b: "slots_ok (add_mset (ps_slot s) (image_mset ps_slot M)) A"
    using assms by (simp_all add: admission_ok_def)
  note pair = drop_pair_ok[OF a]
  have b1: "slots_ok (add_mset (ps_slot s) (image_mset ps_slot M)) (drop_pair (ps_reservation s) A)"
    using b by (simp add: pair(2))
  note slot = drop_slot_ok[OF b1, folded side_drop_def]
  show "admission_ok M (side_drop s A)"
    by (simp add: admission_ok_def slot(1,2) pair(1))
  show "within_limits l (side_drop s A)" if "within_limits l A"
  proof -
    have "slot_count (side_drop s A) e \<le> slot_count A e" for e
      using slot(3)[of e] pair(5) by (simp add: slot_count_def)
    then show ?thesis
      using that slot(4,5) pair(3,4) unfolding within_limits_def by (metis order_trans)
  qed
  show "slot_owner (side_drop s A) t = slot_owner A t" if "t \<in># M"
  proof -
    have "arcs_ok (add_mset (ps_slot s) (image_mset ps_slot M)) (slot_arcs A)"
      using b by (simp add: slots_ok_def)
    then show ?thesis
      using arc_drop_value[of "ps_slot s" "image_mset ps_slot M" "slot_arcs A" "ps_slot t"] that
      by (simp add: slot_owner_def side_drop_def slot_arcs_drop_slot pair(6))
  qed
qed

section \<open>Reserving keeps the counters exact\<close>

lemma reserve_handle_slots_Inl: "reserve_handle_slots l c a A = (Inl e, A') \<Longrightarrow> A' = A"
  by (simp add: reserve_handle_slots_def Let_def new_slot_def split: option.splits if_splits prod.splits)

lemma reserve_handle_slots_Inr:
  assumes "reserve_handle_slots l c a A = (Inr (cs, as), A')"
  obtains slots where
    "A' = A\<lparr>endpoint_slots := slots, slot_arcs := (as, a, 1) # (cs, c, 1) # slot_arcs A, next_arc := Suc as\<rparr>"
    "cs = next_arc A" "as = Suc cs"
    "\<And>e. unat (slot_count A' e) = unat (slot_count A e) + of_bool (e = c) + of_bool (e = a)"
    "\<And>e. e = c \<or> e = a \<Longrightarrow> slot_count A' e \<le> lim_handles_per_endpoint l"
    "distinct (map fst (endpoint_slots A)) \<Longrightarrow> distinct (map fst slots)"
    "\<And>e n. map_of slots e = Some n \<Longrightarrow> n = 0 \<Longrightarrow> map_of (endpoint_slots A) e = Some n"
proof (cases "c = a")
  case True
  then obtain n where n: "checked_add (slot_count A c) 2 = Some n" "n \<le> lim_handles_per_endpoint l"
    and A': "A' = A\<lparr>endpoint_slots := AList.update c n (endpoint_slots A),
                   slot_arcs := (as, a, 1) # (cs, c, 1) # slot_arcs A, next_arc := Suc as\<rparr>"
    "cs = next_arc A" "as = Suc cs"
    using assms by (auto simp: reserve_handle_slots_def new_slot_def not_less split: option.splits if_splits)
  have "unat n = unat (slot_count A c) + 2"
    using n(1) by (simp add: checked_add_Some_iff)
  then show thesis
    using n(2) True
    by (intro that[OF A']) (auto simp: A'(1) slot_count_def update_conv' distinct_update split: if_splits)
next
  case False
  define m where "m = slot_count A c + 1"
  define n where "n = slot_count A a + 1"
  have A': "A' = A\<lparr>endpoint_slots := AList.update a n (AList.update c m (endpoint_slots A)),
                   slot_arcs := (as, a, 1) # (cs, c, 1) # slot_arcs A, next_arc := Suc as\<rparr>"
    "cs = next_arc A" "as = Suc cs"
    and le: "\<not> exceeds (checked_add (slot_count A c) 1) (lim_handles_per_endpoint l)"
    "\<not> exceeds (checked_add (slot_count A a) 1) (lim_handles_per_endpoint l)"
    using assms False by (auto simp: reserve_handle_slots_def new_slot_def Let_def m_def n_def split: if_splits)
  have "unat m = unat (slot_count A c) + 1 \<and> m \<le> lim_handles_per_endpoint l"
    "unat n = unat (slot_count A a) + 1 \<and> n \<le> lim_handles_per_endpoint l"
    using le checked_add_Some_iff[of "slot_count A c" 1 m] checked_add_Some_iff[of "slot_count A a" 1 n]
    by (auto simp: exceeds_def m_def n_def checked_add_def not_less split: option.splits if_splits)
  then show thesis
    using False
    by (intro that[OF A']) (auto simp: A'(1) slot_count_def update_conv' distinct_update split: if_splits)
qed

lemma reserve_handle_slots_ok:
  assumes "reserve_handle_slots l c a A = (Inr (cs, as), A')" and "slots_ok S A" and "pairs_ok R A"
  shows "slots_ok (add_mset cs (add_mset as S)) A'" "pairs_ok R A'"
    "cs \<noteq> as" "cs \<notin># S" "as \<notin># S" "map_of (slot_arcs A') cs = Some (c, 1)" "map_of (slot_arcs A') as = Some (a, 1)"
    "i \<in># S \<Longrightarrow> map_of (slot_arcs A') i = map_of (slot_arcs A) i"
    "active_pairs A' = active_pairs A" "reserved_window_bytes A' = reserved_window_bytes A"
    "within_limits l A \<Longrightarrow> within_limits l A'"
proof -
  obtain slots where A':
    "A' = A\<lparr>endpoint_slots := slots, slot_arcs := (as, a, 1) # (cs, c, 1) # slot_arcs A, next_arc := Suc as\<rparr>"
    "cs = next_arc A" "as = Suc cs"
    "\<And>e. unat (slot_count A' e) = unat (slot_count A e) + of_bool (e = c) + of_bool (e = a)"
    "\<And>e. e = c \<or> e = a \<Longrightarrow> slot_count A' e \<le> lim_handles_per_endpoint l"
    "distinct (map fst (endpoint_slots A)) \<Longrightarrow> distinct (map fst slots)"
    "\<And>e n. map_of slots e = Some n \<Longrightarrow> n = 0 \<Longrightarrow> map_of (endpoint_slots A) e = Some n"
    using reserve_handle_slots_Inr[OF assms(1)] by metis
  have ok: "arcs_ok S (slot_arcs A)" "\<forall>i \<in> fst ` set (slot_arcs A). i < next_arc A"
    "distinct (map fst (endpoint_slots A))" "\<forall>e n. map_of (endpoint_slots A) e = Some n \<longrightarrow> n \<noteq> 0"
    "\<And>e. unat (slot_count A e) = count (arc_values (slot_arcs A)) e"
    using assms(2) unfolding slots_ok_def by (elim conjE, blast)+
  have fresh: "cs \<notin> fst ` set (slot_arcs A)" "as \<notin> fst ` set (slot_arcs A)"
    using bspec[OF ok(2), of cs] bspec[OF ok(2), of as] unfolding A'(2,3) by (metis less_irrefl, metis less_irrefl Suc_lessD)
  show ne: "cs \<noteq> as"
    using A'(3) by simp
  have none: "map_of (slot_arcs A) cs = None" "map_of (slot_arcs A) as = None"
    using fresh by (simp_all add: map_of_eq_None_iff)
  then have "count S cs = 0" "count S as = 0"
    using ok(1) by (simp_all add: arcs_ok_def)
  then show "cs \<notin># S" "as \<notin># S"
    by (simp_all add: not_in_iff)
  have "arcs_ok (add_mset as (add_mset cs S)) (slot_arcs A')"
    using arcs_ok_new[OF arcs_ok_new[OF ok(1) fresh(1), of c], of as a] fresh(2) ne by (simp add: A'(1))
  moreover have "\<forall>i \<in> fst ` set (slot_arcs A'). i < next_arc A'"
    using ok(2) by (auto simp: A'(1-3) less_SucI)
  moreover have "unat (slot_count A' e) = count (arc_values (slot_arcs A')) e" for e
    using A'(4)[of e] ok(5)[of e] by (simp add: A'(1) arc_values_def)
  moreover have "\<forall>e n. map_of slots e = Some n \<longrightarrow> n \<noteq> 0"
    using A'(7) ok(4) by blast
  ultimately show "slots_ok (add_mset cs (add_mset as S)) A'"
    unfolding slots_ok_def using A'(6)[OF ok(3)] by (simp add: A'(1) add_mset_commute)
  show "pairs_ok R A'"
    using assms(3) by (auto simp: pairs_ok_def A'(1-3) less_SucI)
  show "map_of (slot_arcs A') cs = Some (c, 1)" "map_of (slot_arcs A') as = Some (a, 1)"
    "active_pairs A' = active_pairs A" "reserved_window_bytes A' = reserved_window_bytes A"
    using ne by (simp_all add: A'(1))
  show "map_of (slot_arcs A') i = map_of (slot_arcs A) i" if "i \<in># S"
    using that \<open>cs \<notin># S\<close> \<open>as \<notin># S\<close> by (auto simp: A'(1))
  show "within_limits l A'" if "within_limits l A"
  proof -
    have "slot_count A' e \<le> lim_handles_per_endpoint l" for e
      using A'(4,5)[of e] that by (cases "e = c \<or> e = a") (auto simp: within_limits_def word_le_nat_alt)
    then show ?thesis
      using that by (simp add: within_limits_def A'(1))
  qed
qed

text \<open>A refused reservation changes no counter.\<close>

definition drop_reservation :: "nat \<times> nat \<times> nat \<Rightarrow> admission \<Rightarrow> admission" where
  "drop_reservation r A = (case r of (p, cs, as) \<Rightarrow> drop_pair p (drop_slot cs (drop_slot as A)))"

lemma admission_ok_drop_slots:
  assumes "slots_ok (add_mset cs (add_mset as (image_mset ps_slot M))) A" "pairs_ok R A"
  shows "slots_ok (image_mset ps_slot M) (drop_slot cs (drop_slot as A))" "pairs_ok R (drop_slot cs (drop_slot as A))"
    "within_limits l A \<Longrightarrow> within_limits l (drop_slot cs (drop_slot as A))"
proof -
  have a: "slots_ok (add_mset as (add_mset cs (image_mset ps_slot M))) A"
    using assms(1) by (simp add: add_mset_commute)
  note d = drop_slot_ok[OF a]
  note e = drop_slot_ok[OF d(1)]
  show "slots_ok (image_mset ps_slot M) (drop_slot cs (drop_slot as A))"
    by (rule e(1))
  show "pairs_ok R (drop_slot cs (drop_slot as A))"
    using assms(2) by (simp add: e(2) d(2))
  show "within_limits l (drop_slot cs (drop_slot as A))" if "within_limits l A"
    using that d(3-5) e(3-5) unfolding within_limits_def by (metis order_trans)
qed

lemma slot_value_drop_slots:
  assumes "slots_ok (add_mset cs (add_mset as S)) A" and "i \<in># S"
  shows "map_option fst (map_of (slot_arcs (drop_slot cs (drop_slot as A))) i) = map_option fst (map_of (slot_arcs A) i)"
proof -
  have a: "slots_ok (add_mset as (add_mset cs S)) A"
    using assms(1) by (simp add: add_mset_commute)
  have "arcs_ok (add_mset as (add_mset cs S)) (slot_arcs A)" "arcs_ok (add_mset cs S) (slot_arcs (drop_slot as A))"
    using a drop_slot_ok(1)[OF a] by (simp_all add: slots_ok_def)
  then show ?thesis
    using arc_drop_value[of as "add_mset cs S" "slot_arcs A" i] arc_drop_value[of cs S "slot_arcs (drop_slot as A)" i] assms(2)
    by (simp add: slot_arcs_drop_slot)
qed

lemma reserve_pair_refused:
  assumes "reserve_pair l c a A = (Inl e, A')" and "admission_ok M A"
  shows "admission_ok M A'" "within_limits l A \<Longrightarrow> within_limits l A'"
    "t \<in># M \<Longrightarrow> slot_owner A' t = slot_owner A t"
proof -
  have "admission_ok M A' \<and> (within_limits l A \<longrightarrow> within_limits l A')
      \<and> (t \<in># M \<longrightarrow> slot_owner A' t = slot_owner A t)"
  proof (cases "reserve_handle_slots l c a A")
    case (Pair r A1)
    show ?thesis
    proof (cases r)
      case (Inl x)
      then show ?thesis
        using assms Pair reserve_handle_slots_Inl by (fastforce simp: reserve_pair_def)
    next
      case (Inr s)
      obtain cs as where s: "s = (cs, as)"
        by (cases s)
      have A': "A' = drop_slot cs (drop_slot as A1)"
        using assms(1) Pair Inr s by (simp add: reserve_pair_def Let_def split: if_splits option.splits)
      have ok: "slots_ok (image_mset ps_slot M) A" "pairs_ok (image_mset ps_reservation M) A"
        using assms(2) by (simp_all add: admission_ok_def)
      note r = reserve_handle_slots_ok[OF Pair[unfolded Inr s] ok]
      note d = admission_ok_drop_slots[OF r(1,2)]
      have "slot_owner A' t = slot_owner A t" if "t \<in># M"
        using slot_value_drop_slots[OF r(1), of "ps_slot t"] r(8)[of "ps_slot t"] that by (simp add: slot_owner_def A')
      then show ?thesis
        using d r(11) by (simp add: A' admission_ok_def)
    qed
  qed
  then show "admission_ok M A'" "within_limits l A \<Longrightarrow> within_limits l A'"
    "t \<in># M \<Longrightarrow> slot_owner A' t = slot_owner A t"
    by simp_all
qed

lemma reserve_pair_granted:
  assumes "reserve_pair l c a A = (Inr (p, cs, as), A')" and "admission_ok M A" and "within_limits l A"
  shows "pairs_ok (add_mset p (image_mset ps_reservation M)) A'"
    "slots_ok (add_mset cs (add_mset as (image_mset ps_slot M))) A'" "within_limits l A'"
    "p \<notin> ps_reservation ` set_mset M" "cs \<noteq> as" "cs \<notin> ps_slot ` set_mset M" "as \<notin> ps_slot ` set_mset M"
    "map_of (slot_arcs A') cs = Some (c, 1)" "map_of (slot_arcs A') as = Some (a, 1)"
    "t \<in># M \<Longrightarrow> slot_owner A' t = slot_owner A t"
proof -
  obtain A1 where h: "reserve_handle_slots l c a A = (Inr (cs, as), A1)" and p: "p = next_arc A1"
    and lim: "active_pairs A1 < lim_connected_pairs l" "reserved_window_bytes A1 + PAIR_WINDOW \<le> lim_buffer_bytes l"
    "checked_add (reserved_window_bytes A1) PAIR_WINDOW = Some (reserved_window_bytes A1 + PAIR_WINDOW)"
    and A': "A' = A1\<lparr>active_pairs := active_pairs A1 + 1,
                    reserved_window_bytes := reserved_window_bytes A1 + PAIR_WINDOW,
                    pair_arcs := (p, PAIR_WINDOW, 1) # pair_arcs A1, next_arc := Suc p\<rparr>"
    using assms(1)
    by (auto simp: reserve_pair_def Let_def PAIR_WINDOW_def not_le not_less checked_add_def split: sum.splits prod.splits if_splits option.splits)
  have ok: "slots_ok (image_mset ps_slot M) A" "pairs_ok (image_mset ps_reservation M) A"
    using assms(2) by (simp_all add: admission_ok_def)
  note r = reserve_handle_slots_ok[OF h ok]
  show "cs \<noteq> as" "cs \<notin> ps_slot ` set_mset M" "as \<notin> ps_slot ` set_mset M"
    using r(3-5) by simp_all
  show "slots_ok (add_mset cs (add_mset as (image_mset ps_slot M))) A'"
    using r(1) by (auto simp: slots_ok_def A' slot_count_def p less_SucI)
  show "map_of (slot_arcs A') cs = Some (c, 1)" "map_of (slot_arcs A') as = Some (a, 1)"
    using r(6,7) by (simp_all add: A')
  show "slot_owner A' t = slot_owner A t" if "t \<in># M"
    using r(8)[of "ps_slot t"] that by (simp add: slot_owner_def A')
  show "within_limits l A'"
    using r(11)[OF assms(3)] lim(1,2) by (simp add: within_limits_def A' slot_count_def inc_le)
  have fresh: "p \<notin> fst ` set (pair_arcs A1)"
    using r(2) unfolding pairs_ok_def p by (metis less_irrefl)
  then have "map_of (pair_arcs A1) p = None"
    by (simp add: map_of_eq_None_iff)
  then have "count (image_mset ps_reservation M) p = 0"
    using r(2) by (simp add: pairs_ok_def arcs_ok_def)
  then show "p \<notin> ps_reservation ` set_mset M"
    by (simp add: count_eq_zero_iff)
  have "unat (lim_connected_pairs l) < 2 ^ 64"
    by (rule order_less_le_trans[OF unsigned_less]) simp
  then have "checked_add (active_pairs A1) 1 = Some (active_pairs A1 + 1)"
    using lim(1) by (simp add: checked_add_def word_less_nat_alt)
  then have "unat (active_pairs A1 + 1) = Suc (unat (active_pairs A1))"
    by (simp add: checked_add_Some_iff)
  moreover have "unat (reserved_window_bytes A1 + PAIR_WINDOW) = unat (reserved_window_bytes A1) + unat PAIR_WINDOW"
    using lim(3) by (simp add: checked_add_Some_iff)
  ultimately show "pairs_ok (add_mset p (image_mset ps_reservation M)) A'"
    using r(2) arcs_ok_new[OF _ fresh, of "image_mset ps_reservation M" PAIR_WINDOW]
    by (auto simp: pairs_ok_def A' arc_values_def p less_SucI)
qed

section \<open>What a limit bounds\<close>

lemma length_filter_value: "length (filter (\<lambda>p. fst (snd p) = e) h) = count (arc_values h) e"
  by (induction h) (simp_all add: arc_values_def)

lemma owned_slots_le:
  assumes "slots_ok S A" and "distinct js" and "\<And>i. i \<in> set js \<Longrightarrow> map_option fst (map_of (slot_arcs A) i) = Some e"
  shows "length js \<le> unat (slot_count A e)"
proof -
  let ?own = "filter (\<lambda>p. fst (snd p) = e) (slot_arcs A)"
  have "set js \<subseteq> fst ` set ?own"
  proof
    fix i assume "i \<in> set js"
    then obtain n where "map_of (slot_arcs A) i = Some (e, n)"
      using assms(3)[of i] by (cases "map_of (slot_arcs A) i") auto
    then have "(i, e, n) \<in> set ?own"
      by (auto dest: map_of_SomeD)
    then show "i \<in> fst ` set ?own"
      by (rule rev_image_eqI) simp
  qed
  then have "length js \<le> card (fst ` set ?own)"
    using card_mono[of "fst ` set ?own" "set js"] distinct_card[OF assms(2)] by simp
  also have "\<dots> \<le> length ?own"
    using card_length[of "map fst ?own"] by simp
  also have "\<dots> = count (arc_values (slot_arcs A)) e"
    by (rule length_filter_value)
  finally show ?thesis
    using assms(1) by (simp add: slots_ok_def)
qed

lemma live_pairs_le:
  assumes "pairs_ok R A"
  shows "card (set_mset R) = unat (active_pairs A)"
proof -
  have ok: "distinct (map fst (pair_arcs A))" "unat (active_pairs A) = length (pair_arcs A)"
    "\<And>i. count R i = (case map_of (pair_arcs A) i of None \<Rightarrow> 0 | Some (_, n) \<Rightarrow> n)"
    "\<And>i a n. (i, a, n) \<in> set (pair_arcs A) \<Longrightarrow> 0 < n"
    using assms by (auto simp: pairs_ok_def arcs_ok_def)
  have "i \<in># R \<longleftrightarrow> i \<in> dom (map_of (pair_arcs A))" for i
    using ok(3)[of i] ok(4) by (cases "map_of (pair_arcs A) i") (auto simp flip: count_greater_zero_iff dest: map_of_SomeD)
  then have "set_mset R = set (map fst (pair_arcs A))"
    by (auto simp: dom_map_of_conv_image_fst)
  then show ?thesis
    using ok(1,2) by (metis distinct_card length_map)
qed

section \<open>The interface\<close>

text \<open>
  What a holder of reservations relies on: \<open>ok M A\<close> says that the state \<open>A\<close> charges exactly the
  references of \<open>M\<close>.
\<close>

locale reservations =
  fixes clone release :: "'s \<Rightarrow> 'a \<Rightarrow> 'a" and ok :: "'s multiset \<Rightarrow> 'a \<Rightarrow> bool" and owner :: "'a \<Rightarrow> 's \<Rightarrow> 'e option"
  assumes clone_ok: "ok M A \<Longrightarrow> s \<in># M \<Longrightarrow> ok (add_mset s M) (clone s A)"
    and release_ok: "ok (add_mset s M) A \<Longrightarrow> ok M (release s A)"
    and clone_owner: "ok M A \<Longrightarrow> t \<in># M \<Longrightarrow> owner (clone s A) t = owner A t"
    and release_owner: "ok (add_mset s M) A \<Longrightarrow> t \<in># M \<Longrightarrow> owner (release s A) t = owner A t"
begin

lemma clone_release:
  assumes "ok M A" and "s \<in># M"
  shows "ok M (release s (clone s A))" "t \<in># M \<Longrightarrow> owner (release s (clone s A)) t = owner A t"
  using release_ok[OF clone_ok[OF assms]] release_owner[OF clone_ok[OF assms], of t] clone_owner[OF assms(1), of t s]
  by simp_all

lemma release_all:
  "ok (mset ss + M) A \<Longrightarrow> ok M (fold release ss A) \<and> (\<forall>t \<in># M. owner (fold release ss A) t = owner A t)"
proof (induction ss arbitrary: A)
  case (Cons s ss)
  then have "ok (mset ss + M) (release s A)" "\<forall>t \<in># M. owner (release s A) t = owner A t"
    using release_ok[of s "mset ss + M" A] release_owner[of s "mset ss + M" A] by simp_all
  with Cons.IH[of "release s A"] show ?case
    by simp
qed simp

end

interpretation side: reservations side_clone side_drop "\<lambda>M A. admission_ok M A \<and> within_limits l A" slot_owner for l
proof unfold_locales
  fix M A and s t :: NativePairSide
  show "admission_ok (add_mset s M) (side_clone s A) \<and> within_limits l (side_clone s A)"
    if "admission_ok M A \<and> within_limits l A" "s \<in># M"
    using that side_clone_ok[of M A s] by simp
  show "admission_ok M (side_drop s A) \<and> within_limits l (side_drop s A)"
    if "admission_ok (add_mset s M) A \<and> within_limits l A"
    using that side_drop_ok by blast
  show "slot_owner (side_clone s A) t = slot_owner A t"
    by (rule slot_owner_clone)
  show "slot_owner (side_drop s A) t = slot_owner A t"
    if "admission_ok (add_mset s M) A \<and> within_limits l A" "t \<in># M"
    using that side_drop_ok(3) by blast
qed

end
