(* ===== verification/Channel_Fabric.thy ===== *)
theory Channel_Fabric
  imports Channel_Admission
begin

text \<open>
  The process-global registry of named channels (\<^verbatim>\<open>crates/server/src/channel.rs\<close>): listeners, connects in
  progress, linked channel ends and the routing of their events.  The event lanes are
  \<^verbatim>\<open>tokio::sync::mpsc\<close> channels, a parameter of the operations: whether a lane takes an event is its own
  decision.  What a lane took is kept in \<^verbatim>\<open>sent\<close> and \<^verbatim>\<open>sent_terminal\<close> until its consumer lets go of it, since
  the event's guard stays charged that long.
\<close>

section \<open>Data\<close>

definition CHANNEL_MAX_NAME_BYTES :: nat where "CHANNEL_MAX_NAME_BYTES = 255"
definition MAX_METADATA_BYTES :: nat where "MAX_METADATA_BYTES = 65536"
definition MAX_LISTENERS_PER_SESSION :: u64 where "MAX_LISTENERS_PER_SESSION = 32"
definition MAX_PENDING_CONNECTS :: nat where "MAX_PENDING_CONNECTS = 32"
definition MAX_MESSAGE_BYTES :: u64 where "MAX_MESSAGE_BYTES = 16777216"

record Listener =
  li_listener_handle :: u64
  li_registry_id :: u32
  li_generation :: u64
  li_endpoint :: u64
  li_name :: bytes
  li_metadata :: bytes
  li_token :: bytes
  li_owner_session :: bytes
  li_owner_extension :: bool

record NativeListener =
  nl_listener_handle :: u64
  nl_generation :: u64
  nl_owner_session :: bytes
  nl_owner_extension :: bool
  nl_name :: bytes
  nl_metadata :: bytes

record NativeCatalogue =
  nc_revision :: u64
  nc_listeners :: "NativeListener list"

datatype NativeError = Unavailable | Conflict | NotFound | Stale | ResourceExhausted | Backpressured

record NativeMessageFragment =
  mf_sequence :: u64
  mf_fragment_offset :: u64
  mf_start :: bool
  mf_finish :: bool
  mf_data :: bytes

datatype NativeEvent =
    IncomingConnect (ic_connect_id: u64) (ic_listener_handle: u64) (ic_generation: u64) (ic_connector_session: bytes)
      (ic_connector_metadata: bytes) (ic_connector_initial_credit: u64) (ic_listener_metadata: bytes)
  | ConnectPrepared (cp_connect_id: u64) (cp_listener_send_credit: u64) (cp_max_item_bytes: u64)
  | ConnectCommitted (cc_connect_id: u64) (cc_connector_channel_handle: u64) (cc_initial_credit: u64)
      (cc_max_item_bytes: u64)
  | ConnectAborted (ca_connect_id: u64) (ca_reason: NativeError) (ca_guard: NativePairSide)
  | Message (me_channel_handle: u64) (me_fragment: NativeMessageFragment) (me_guard: NativePairSide)
  | Credit (cr_channel_handle: u64) (cr_cumulative_byte_limit: u64) (cr_guard: NativePairSide)
  | Close (cl_channel_handle: u64) (cl_final_data_bytes: u64) (cl_guard: NativePairSide)
  | Reset (re_channel_handle: u64) (re_reason: NativeError) (re_guard: NativePairSide)

datatype NativeTerminalEvent =
    TerminalConnectAborted (ta_connect_id: u64) (ta_reason: NativeError) (ta_guard: NativePairSide)
  | TerminalReset (tr_channel_handle: u64) (tr_reason: NativeError) (tr_guard: NativePairSide)

fun NativeEvent_from :: "NativeTerminalEvent \<Rightarrow> NativeEvent" where
  "NativeEvent_from (TerminalConnectAborted c r g) = ConnectAborted c r g"
| "NativeEvent_from (TerminalReset h r g) = Reset h r g"

text \<open>An endpoint names the lanes its two senders feed.\<close>

record NativeEndpoint =
  ne_session_id :: bytes
  ne_owner_extension :: bool
  ne_events :: nat
  ne_terminal_events :: nat

record NativePendingConnect =
  pc_connector_endpoint :: u64
  pc_listener_endpoint :: u64
  pc_listener_handle :: u64
  pc_listener_metadata :: bytes
  pc_listener_channel_handle :: "u64 option"
  pc_max_item_bytes :: "u64 option"
  pc_connector_side :: NativePairSide
  pc_listener_side :: NativePairSide

record NativeLinkEnd =
  le_connect_id :: u64
  le_peer_endpoint :: u64
  le_peer_channel_handle :: u64
  le_max_item_bytes :: u64
  le_side :: NativePairSide
  le_published :: bool
  le_output_closed :: bool

record NativeConnectInfo =
  ci_peer_session :: bytes
  ci_listener_metadata :: bytes
  ci_peer_channel_handle :: u64
  ci_max_item_bytes :: u64

record ListenerSnapshot =
  ls_endpoint :: u64
  ls_registry_id :: u32
  ls_generation :: u64
  ls_name :: bytes
  ls_token :: bytes

record 'q ChannelFabric =
  enabled :: bool
  shutting_down :: bool
  boot_generation :: u64
  next_listener_generation :: u64
  next_listener_handle :: u64
  next_native_endpoint :: u64
  next_native_connect :: u64
  next_registry_id :: "(u64 \<times> u32) list"
  listener_names :: "(bytes \<times> u64) list"
  listeners :: "(u64 \<times> Listener) list"
  native_endpoints :: "(u64 \<times> NativeEndpoint) list"
  native_pending :: "(u64 \<times> NativePendingConnect) list"
  native_links :: "((u64 \<times> u64) \<times> NativeLinkEnd) list"
  native_revision :: u64
  native_revision_tx :: u64
  adm :: admission
  limits :: Limits
  lanes :: 'q
  sent :: "(nat \<times> NativeEvent) list"
  sent_terminal :: "(nat \<times> NativeTerminalEvent) list"

section \<open>Lanes and guards\<close>

record 'q Lanes =
  try_send :: "'q \<Rightarrow> nat \<Rightarrow> NativeEvent \<Rightarrow> 'q option"
  send_terminal :: "'q \<Rightarrow> nat \<Rightarrow> NativeTerminalEvent \<Rightarrow> 'q option"

fun event_guard :: "NativeEvent \<Rightarrow> NativePairSide option" where
  "event_guard (ConnectAborted _ _ g) = Some g"
| "event_guard (Message _ _ g) = Some g"
| "event_guard (Credit _ _ g) = Some g"
| "event_guard (Close _ _ g) = Some g"
| "event_guard (Reset _ _ g) = Some g"
| "event_guard _ = None"

fun terminal_guard :: "NativeTerminalEvent \<Rightarrow> NativePairSide" where
  "terminal_guard (TerminalConnectAborted _ _ g) = g"
| "terminal_guard (TerminalReset _ _ g) = g"

definition clone_side :: "NativePairSide \<Rightarrow> 'q ChannelFabric \<Rightarrow> 'q ChannelFabric" where
  "clone_side s F = F\<lparr>adm := side_clone s (adm F)\<rparr>"

definition drop_side :: "NativePairSide \<Rightarrow> 'q ChannelFabric \<Rightarrow> 'q ChannelFabric" where
  "drop_side s F = F\<lparr>adm := side_drop s (adm F)\<rparr>"

text \<open>A clone that lives until the function returns.\<close>

definition with_clone ::
  "NativePairSide \<Rightarrow> ('q ChannelFabric \<Rightarrow> 'r \<times> 'q ChannelFabric) \<Rightarrow> 'q ChannelFabric \<Rightarrow> 'r \<times> 'q ChannelFabric" where
  "with_clone s body F = (case body (clone_side s F) of (r, F1) \<Rightarrow> (r, drop_side s F1))"

text \<open>An event a lane refuses is dropped with its guard.\<close>

definition deliver :: "'q Lanes \<Rightarrow> nat \<Rightarrow> NativeEvent \<Rightarrow> 'q ChannelFabric \<Rightarrow> bool \<times> 'q ChannelFabric" where
  "deliver L lane ev F =
     (case try_send L (lanes F) lane ev of
        None \<Rightarrow> (False, case event_guard ev of None \<Rightarrow> F | Some g \<Rightarrow> drop_side g F)
      | Some q \<Rightarrow> (True, F\<lparr>lanes := q, sent := sent F @ [(lane, ev)]\<rparr>))"

definition deliver_terminal :: "'q Lanes \<Rightarrow> nat \<Rightarrow> NativeTerminalEvent \<Rightarrow> 'q ChannelFabric \<Rightarrow> 'q ChannelFabric" where
  "deliver_terminal L lane ev F =
     (case send_terminal L (lanes F) lane ev of
        None \<Rightarrow> drop_side (terminal_guard ev) F
      | Some q \<Rightarrow> F\<lparr>lanes := q, sent_terminal := sent_terminal F @ [(lane, ev)]\<rparr>)"

section \<open>Construction and endpoints\<close>

text \<open>\<open>channels\<close> and \<open>deployment\<close> are the settings of the process (\<^verbatim>\<open>crate::channels_enabled\<close> and
  \<^verbatim>\<open>crate::deployment_usize\<close>, \<^verbatim>\<open>crate::deployment_u64\<close>).\<close>

definition ChannelFabric_new :: "bool \<Rightarrow> (string \<Rightarrow> u64 option) \<Rightarrow> 'q \<Rightarrow> u64 \<Rightarrow> 'q ChannelFabric" where
  "ChannelFabric_new channels deployment q boot =
     \<lparr>enabled = channels, shutting_down = False, boot_generation = boot, next_listener_generation = 1,
      next_listener_handle = 1, next_native_endpoint = push_bit 63 1, next_native_connect = 1,
      next_registry_id = [], listener_names = [], listeners = [], native_endpoints = [], native_pending = [],
      native_links = [], native_revision = 1, native_revision_tx = 1, adm = admission_new,
      limits = Limits_from_env deployment, lanes = q, sent = [], sent_terminal = []\<rparr>"

definition begin_shutdown :: "'q ChannelFabric \<Rightarrow> 'q ChannelFabric" where
  "begin_shutdown F = F\<lparr>shutting_down := True\<rparr>"

definition register_native_endpoint ::
  "bytes \<Rightarrow> bool \<Rightarrow> nat \<Rightarrow> nat \<Rightarrow> 'q ChannelFabric \<Rightarrow> (NativeError + u64) \<times> 'q ChannelFabric" where
  "register_native_endpoint session_id owner_extension events terminal_events F =
     (if list_all (\<lambda>byte. byte = 0) session_id then (Inl ResourceExhausted, F)
      else let endpoint = next_native_endpoint F in
        case checked_add endpoint 1 of
          None \<Rightarrow> (Inl ResourceExhausted, F)
        | Some n \<Rightarrow>
            (Inr endpoint,
             F\<lparr>next_native_endpoint := n,
               native_endpoints := AList.update endpoint
                 \<lparr>ne_session_id = session_id, ne_owner_extension = owner_extension, ne_events = events,
                  ne_terminal_events = terminal_events\<rparr> (native_endpoints F)\<rparr>))"

section \<open>Listeners\<close>

definition native_of :: "Listener \<Rightarrow> NativeListener" where
  "native_of l = \<lparr>nl_listener_handle = li_listener_handle l, nl_generation = li_generation l,
     nl_owner_session = li_owner_session l, nl_owner_extension = li_owner_extension l, nl_name = li_name l,
     nl_metadata = li_metadata l\<rparr>"

definition native_catalogue :: "'q ChannelFabric \<Rightarrow> NativeCatalogue" where
  "native_catalogue F =
     \<lparr>nc_revision = native_revision F,
      nc_listeners = sort_key nl_listener_handle (map (native_of \<circ> snd) (listeners F))\<rparr>"

definition native_revision_receiver :: "'q ChannelFabric \<Rightarrow> u64" where
  "native_revision_receiver F = native_revision_tx F"

definition snapshot_of :: "Listener \<Rightarrow> ListenerSnapshot" where
  "snapshot_of l = \<lparr>ls_endpoint = li_endpoint l, ls_registry_id = li_registry_id l, ls_generation = li_generation l,
     ls_name = li_name l, ls_token = li_token l\<rparr>"

definition native_listener_snapshot :: "u64 \<Rightarrow> u64 \<Rightarrow> u64 \<Rightarrow> 'q ChannelFabric \<Rightarrow> ListenerSnapshot option" where
  "native_listener_snapshot endpoint handle generation F =
     (case map_of (listeners F) handle of
        None \<Rightarrow> None
      | Some l \<Rightarrow> if li_endpoint l = endpoint \<and> li_generation l = generation then Some (snapshot_of l) else None)"

definition native_listener_snapshots :: "u64 \<Rightarrow> 'q ChannelFabric \<Rightarrow> ListenerSnapshot list" where
  "native_listener_snapshots endpoint F =
     map (snapshot_of \<circ> snd) (filter (\<lambda>(_, l). li_endpoint l = endpoint) (listeners F))"

definition valid_name :: "bytes \<Rightarrow> bool" where
  "valid_name name \<longleftrightarrow> name \<noteq> [] \<and> length name \<le> CHANNEL_MAX_NAME_BYTES \<and> 0 \<notin> set name"

definition listener_count :: "u64 \<Rightarrow> 'q ChannelFabric \<Rightarrow> nat" where
  "listener_count endpoint F = length (filter (\<lambda>(_, l). li_endpoint l = endpoint) (listeners F))"

text \<open>The loop of \<^verbatim>\<open>registry_id_candidate\<close> from a candidate on.\<close>

function registry_search :: "(u32 \<Rightarrow> bool) \<Rightarrow> u32 \<Rightarrow> NativeError + u32" where
  "registry_search used candidate =
     (if \<not> used candidate then Inr candidate
      else case checked_add candidate 2 of None \<Rightarrow> Inl ResourceExhausted | Some c \<Rightarrow> registry_search used c)"
  by pat_completeness auto
termination
proof (relation "measure (\<lambda>(_, c). 2 ^ 32 - unat c)")
  fix used :: "u32 \<Rightarrow> bool" and candidate c :: u32
  assume "checked_add candidate 2 = Some c"
  then have "unat c = unat candidate + 2"
    by (simp add: checked_add_Some_iff)
  moreover have "unat c < 2 ^ 32"
    by (rule order_less_le_trans[OF unsigned_less]) simp
  ultimately show "((used, c), used, candidate) \<in> measure (\<lambda>(_, c). 2 ^ 32 - unat c)"
    by simp
qed simp

declare registry_search.simps [simp del]

definition registry_id_candidate :: "u64 \<Rightarrow> 'q ChannelFabric \<Rightarrow> NativeError + u32" where
  "registry_id_candidate endpoint F =
     registry_search (\<lambda>c. list_ex (\<lambda>(_, l). li_endpoint l = endpoint \<and> li_registry_id l = c) (listeners F))
       (case map_of (next_registry_id F) endpoint of None \<Rightarrow> 1 | Some c \<Rightarrow> c)"

definition bump_revision :: "'q ChannelFabric \<Rightarrow> 'q ChannelFabric" where
  "bump_revision F =
     (let revision = max (native_revision F + 1) 1 in F\<lparr>native_revision := revision, native_revision_tx := revision\<rparr>)"

definition remove_listener :: "u64 \<Rightarrow> 'q ChannelFabric \<Rightarrow> 'q ChannelFabric" where
  "remove_listener handle F =
     (case map_of (listeners F) handle of
        None \<Rightarrow> F
      | Some l \<Rightarrow> bump_revision (F\<lparr>listeners := AList.delete handle (listeners F),
                                    listener_names := AList.delete (li_name l) (listener_names F)\<rparr>))"

definition listener_token :: "u64 \<Rightarrow> u64 \<Rightarrow> bytes" where
  "listener_token boot generation = le_bytes 8 boot @ le_bytes 8 generation"

definition native_listen ::
  "u64 \<Rightarrow> bytes \<Rightarrow> bytes \<Rightarrow> bytes \<Rightarrow> 'q ChannelFabric \<Rightarrow> (NativeError + NativeListener) \<times> 'q ChannelFabric" where
  "native_listen endpoint session_id name metadata F =
     (if \<not> enabled F \<or> shutting_down F then (Inl Unavailable, F)
      else case map_of (native_endpoints F) endpoint of
        None \<Rightarrow> (Inl NotFound, F)
      | Some owner \<Rightarrow>
          if ne_session_id owner \<noteq> session_id then (Inl NotFound, F)
          else if \<not> valid_name name \<or> MAX_METADATA_BYTES < length metadata then (Inl ResourceExhausted, F)
          else if map_of (listener_names F) name \<noteq> None then (Inl Conflict, F)
          else let endpoint_limit = min (lim_listeners_per_endpoint (limits F)) MAX_LISTENERS_PER_SESSION in
          if unat (lim_listeners (limits F)) \<le> length (listeners F)
             \<or> unat endpoint_limit \<le> listener_count endpoint F then (Inl ResourceExhausted, F)
          else let handle = next_listener_handle F; generation = next_listener_generation F in
          case registry_id_candidate endpoint F of
            Inl e \<Rightarrow> (Inl e, F)
          | Inr registry_id \<Rightarrow>
              case (checked_add handle 1, checked_add generation 1, checked_add registry_id 2) of
                (Some handle1, Some generation1, Some registry_id1) \<Rightarrow>
                  let listener = \<lparr>li_listener_handle = handle, li_registry_id = registry_id, li_generation = generation,
                        li_endpoint = endpoint, li_name = name, li_metadata = metadata,
                        li_token = listener_token (boot_generation F) generation, li_owner_session = session_id,
                        li_owner_extension = ne_owner_extension owner\<rparr>
                  in (Inr (native_of listener),
                      bump_revision (F\<lparr>next_listener_handle := handle1, next_listener_generation := generation1,
                        next_registry_id := AList.update endpoint registry_id1 (next_registry_id F),
                        listener_names := AList.update name handle (listener_names F),
                        listeners := AList.update handle listener (listeners F)\<rparr>))
              | _ \<Rightarrow> (Inl ResourceExhausted, F))"

section \<open>Connecting\<close>

text \<open>The abort of one role; a role whose endpoint is gone drops its guard.\<close>

definition abort_role ::
  "'q Lanes \<Rightarrow> u64 \<Rightarrow> NativeError \<Rightarrow> u64 \<Rightarrow> NativePairSide \<Rightarrow> 'q ChannelFabric \<Rightarrow> 'q ChannelFabric" where
  "abort_role L connect_id reason target guard F =
     (case map_of (native_endpoints F) target of
        None \<Rightarrow> drop_side guard F
      | Some e \<Rightarrow> deliver_terminal L (ne_terminal_events e) (TerminalConnectAborted connect_id reason guard) F)"

definition native_cancel_connect ::
  "'q Lanes \<Rightarrow> u64 \<Rightarrow> u64 \<Rightarrow> NativeError \<Rightarrow> 'q ChannelFabric \<Rightarrow> 'q ChannelFabric" where
  "native_cancel_connect L endpoint connect_id reason F =
     (case map_of (native_pending F) connect_id of
        None \<Rightarrow> F
      | Some p \<Rightarrow>
          if endpoint \<noteq> pc_connector_endpoint p \<and> endpoint \<noteq> pc_listener_endpoint p then F
          else abort_role L connect_id reason (pc_listener_endpoint p) (pc_listener_side p)
                 (abort_role L connect_id reason (pc_connector_endpoint p) (pc_connector_side p)
                   (F\<lparr>native_pending := AList.delete connect_id (native_pending F)\<rparr>)))"

definition native_close_listener ::
  "'q Lanes \<Rightarrow> u64 \<Rightarrow> u64 \<Rightarrow> u64 \<Rightarrow> 'q ChannelFabric \<Rightarrow> (NativeError + unit) \<times> 'q ChannelFabric" where
  "native_close_listener L endpoint handle generation F =
     (case map_of (listeners F) handle of
        None \<Rightarrow> (Inl NotFound, F)
      | Some l \<Rightarrow>
          if li_endpoint l \<noteq> endpoint then (Inl NotFound, F)
          else if li_generation l \<noteq> generation then (Inl Stale, F)
          else let pending = map fst (filter (\<lambda>(_, p). pc_listener_handle p = handle) (native_pending F))
            in (Inr (), fold (\<lambda>connect_id. native_cancel_connect L endpoint connect_id NotFound) pending
                          (remove_listener handle F)))"

definition native_begin_connect ::
  "'q Lanes \<Rightarrow> u64 \<Rightarrow> u64 \<Rightarrow> u64 \<Rightarrow> u64 \<Rightarrow> bytes \<Rightarrow> 'q ChannelFabric \<Rightarrow> (NativeError + u64) \<times> 'q ChannelFabric" where
  "native_begin_connect L connector_endpoint handle generation initial_credit metadata F =
     (if \<not> enabled F \<or> shutting_down F then (Inl Unavailable, F)
      else if MAX_METADATA_BYTES < length metadata then (Inl ResourceExhausted, F)
      else case map_of (listeners F) handle of
        None \<Rightarrow> (Inl NotFound, F)
      | Some l \<Rightarrow>
      if li_generation l \<noteq> generation then (Inl Stale, F)
      else case map_of (native_endpoints F) connector_endpoint of
        None \<Rightarrow> (Inl NotFound, F)
      | Some connector \<Rightarrow>
      case map_of (native_endpoints F) (li_endpoint l) of
        None \<Rightarrow> (Inl Unavailable, F)
      | Some acceptor \<Rightarrow>
      if MAX_PENDING_CONNECTS
         \<le> length (filter (\<lambda>(_, p). pc_connector_endpoint p = connector_endpoint) (native_pending F))
      then (Inl ResourceExhausted, F)
      else case reserve_pair (limits F) connector_endpoint (li_endpoint l) (adm F) of
        (Inl _, A) \<Rightarrow> (Inl ResourceExhausted, F\<lparr>adm := A\<rparr>)
      | (Inr (reservation, connector_slot, listener_slot), A) \<Rightarrow>
      let connect_id = next_native_connect F in
      case checked_add connect_id 1 of
        None \<Rightarrow> (Inl ResourceExhausted, F\<lparr>adm := drop_reservation (reservation, connector_slot, listener_slot) A\<rparr>)
      | Some n \<Rightarrow>
      let connector_side = \<lparr>ps_reservation = reservation, ps_slot = connector_slot\<rparr>;
          listener_side = \<lparr>ps_reservation = reservation, ps_slot = listener_slot\<rparr>;
          pending = \<lparr>pc_connector_endpoint = connector_endpoint, pc_listener_endpoint = li_endpoint l,
            pc_listener_handle = handle, pc_listener_metadata = li_metadata l, pc_listener_channel_handle = None,
            pc_max_item_bytes = None, pc_connector_side = connector_side, pc_listener_side = listener_side\<rparr>;
          F1 = F\<lparr>next_native_connect := n, adm := A\<lparr>pair_arcs := arc_clone reservation (pair_arcs A)\<rparr>\<rparr>
      in case deliver L (ne_events acceptor)
                (IncomingConnect connect_id handle generation (ne_session_id connector) metadata initial_credit
                   (li_metadata l)) F1 of
        (False, F2) \<Rightarrow> (Inl Backpressured, drop_side listener_side (drop_side connector_side F2))
      | (True, F2) \<Rightarrow>
          (Inr connect_id, F2\<lparr>native_pending := AList.update connect_id pending (native_pending F2)\<rparr>))"

definition native_prepare_connect ::
  "'q Lanes \<Rightarrow> u64 \<Rightarrow> u64 \<Rightarrow> u64 \<Rightarrow> u64 \<Rightarrow> u64 \<Rightarrow> 'q ChannelFabric \<Rightarrow> (NativeError + unit) \<times> 'q ChannelFabric" where
  "native_prepare_connect L listener_endpoint connect_id channel_handle send_credit max_item_bytes F =
     (case map_of (native_pending F) connect_id of
        None \<Rightarrow> (Inl NotFound, F)
      | Some p \<Rightarrow>
          if pc_listener_endpoint p \<noteq> listener_endpoint then (Inl NotFound, F)
          else if pc_listener_channel_handle p \<noteq> None
               \<or> map_of (native_links F) (listener_endpoint, channel_handle) \<noteq> None then (Inl Conflict, F)
          else if max_item_bytes = 0 \<or> send_credit < max_item_bytes \<or> MAX_MESSAGE_BYTES < max_item_bytes
               then (Inl ResourceExhausted, F)
          else case map_of (native_endpoints F) (pc_connector_endpoint p) of
            None \<Rightarrow> (Inl Unavailable, F)
          | Some connector \<Rightarrow>
              case deliver L (ne_events connector) (ConnectPrepared connect_id send_credit max_item_bytes) F of
                (False, F1) \<Rightarrow> (Inl Backpressured, F1)
              | (True, F1) \<Rightarrow>
                  (Inr (), F1\<lparr>native_pending := AList.update connect_id
                     (p\<lparr>pc_listener_channel_handle := Some channel_handle, pc_max_item_bytes := Some max_item_bytes\<rparr>)
                     (native_pending F1)\<rparr>))"

definition native_complete_connect ::
  "u64 \<Rightarrow> u64 \<Rightarrow> u64 \<Rightarrow> u64 \<Rightarrow> 'q ChannelFabric \<Rightarrow> (NativeError + NativeConnectInfo) \<times> 'q ChannelFabric" where
  "native_complete_connect connector_endpoint connect_id channel_handle max_item_bytes F =
     (case map_of (native_pending F) connect_id of
        None \<Rightarrow> (Inl NotFound, F)
      | Some p \<Rightarrow>
          if pc_connector_endpoint p \<noteq> connector_endpoint then (Inl NotFound, F)
          else case pc_listener_channel_handle p of
            None \<Rightarrow> (Inl Conflict, F)
          | Some listener_handle \<Rightarrow>
          case pc_max_item_bytes p of
            None \<Rightarrow> (Inl Conflict, F)
          | Some prepared \<Rightarrow>
          if max_item_bytes = 0 \<or> prepared < max_item_bytes then (Inl ResourceExhausted, F)
          else if map_of (native_links F) (connector_endpoint, channel_handle) \<noteq> None
               \<or> map_of (native_links F) (pc_listener_endpoint p, listener_handle) \<noteq> None
               \<or> connector_endpoint = pc_listener_endpoint p \<and> channel_handle = listener_handle
               then (Inl Conflict, F)
          else case map_of (native_endpoints F) (pc_listener_endpoint p) of
            None \<Rightarrow> (Inl Unavailable, F)
          | Some listener \<Rightarrow>
              (Inr \<lparr>ci_peer_session = ne_session_id listener, ci_listener_metadata = pc_listener_metadata p,
                    ci_peer_channel_handle = listener_handle, ci_max_item_bytes = max_item_bytes\<rparr>,
               F\<lparr>native_pending := AList.delete connect_id (native_pending F),
                 native_links :=
                   AList.update (pc_listener_endpoint p, listener_handle)
                     \<lparr>le_connect_id = connect_id, le_peer_endpoint = connector_endpoint,
                      le_peer_channel_handle = channel_handle, le_max_item_bytes = max_item_bytes,
                      le_side = pc_listener_side p, le_published = False, le_output_closed = False\<rparr>
                   (AList.update (connector_endpoint, channel_handle)
                     \<lparr>le_connect_id = connect_id, le_peer_endpoint = pc_listener_endpoint p,
                      le_peer_channel_handle = listener_handle, le_max_item_bytes = max_item_bytes,
                      le_side = pc_connector_side p, le_published = False, le_output_closed = False\<rparr>
                   (native_links F))\<rparr>))"

section \<open>Linked channels\<close>

definition peer_key :: "NativeLinkEnd \<Rightarrow> u64 \<times> u64" where
  "peer_key link = (le_peer_endpoint link, le_peer_channel_handle link)"

definition native_reset ::
  "'q Lanes \<Rightarrow> u64 \<Rightarrow> u64 \<Rightarrow> NativeError \<Rightarrow> 'q ChannelFabric \<Rightarrow> (NativeError + unit) \<times> 'q ChannelFabric" where
  "native_reset L endpoint channel_handle reason F =
     (case map_of (native_links F) (endpoint, channel_handle) of
        None \<Rightarrow> (Inl NotFound, F)
      | Some link \<Rightarrow>
          let links = AList.delete (endpoint, channel_handle) (native_links F);
              F1 = F\<lparr>native_links := AList.delete (peer_key link) links\<rparr>;
              F2 = (case map_of links (peer_key link) of
                      None \<Rightarrow> F1
                    | Some peer \<Rightarrow>
                        case map_of (native_endpoints F) (le_peer_endpoint link) of
                          None \<Rightarrow> drop_side (le_side peer) F1
                        | Some target \<Rightarrow>
                            deliver_terminal L (ne_terminal_events target)
                              (TerminalReset (le_peer_channel_handle link) reason (le_side peer)) F1)
          in (Inr (), drop_side (le_side link) F2))"

text \<open>\<^verbatim>\<open>None\<close> is the panic of an \<^verbatim>\<open>expect\<close>.\<close>

definition publish_link ::
  "'q Lanes \<Rightarrow> u64 \<Rightarrow> u64 \<Rightarrow> u64 \<Rightarrow> u64 \<Rightarrow> NativeLinkEnd \<Rightarrow> 'q ChannelFabric \<Rightarrow>
   (NativeError + unit) option \<times> 'q ChannelFabric" where
  "publish_link L connector_endpoint connect_id channel_handle initial_credit link F =
     (if le_connect_id link \<noteq> connect_id \<or> le_published link then (Some (Inl Conflict), F)
      else if initial_credit < le_max_item_bytes link then (Some (Inl ResourceExhausted), F)
      else case map_of (native_endpoints F) (le_peer_endpoint link) of
        None \<Rightarrow> (Some (Inl Unavailable), F)
      | Some acceptor \<Rightarrow>
          case deliver L (ne_events acceptor)
                 (ConnectCommitted connect_id channel_handle initial_credit (le_max_item_bytes link)) F of
            (False, F1) \<Rightarrow>
              (Some (Inl Backpressured), snd (native_reset L connector_endpoint channel_handle Backpressured F1))
          | (True, F1) \<Rightarrow>
              let links = AList.update (connector_endpoint, channel_handle) (link\<lparr>le_published := True\<rparr>)
                    (native_links F1)
              in case map_of links (peer_key link) of
                None \<Rightarrow> (None, F1\<lparr>native_links := links\<rparr>)
              | Some peer \<Rightarrow>
                  (Some (Inr ()),
                   F1\<lparr>native_links := AList.update (peer_key link) (peer\<lparr>le_published := True\<rparr>) links\<rparr>))"

definition native_publish_connect ::
  "'q Lanes \<Rightarrow> u64 \<Rightarrow> u64 \<Rightarrow> u64 \<Rightarrow> u64 \<Rightarrow> 'q ChannelFabric \<Rightarrow> (NativeError + unit) option \<times> 'q ChannelFabric" where
  "native_publish_connect L connector_endpoint connect_id channel_handle initial_credit F =
     (case map_of (native_links F) (connector_endpoint, channel_handle) of
        None \<Rightarrow> (Some (Inl NotFound), F)
      | Some link \<Rightarrow>
          with_clone (le_side link) (publish_link L connector_endpoint connect_id channel_handle initial_credit link) F)"

definition peer_side :: "NativeLinkEnd \<Rightarrow> 'q ChannelFabric \<Rightarrow> (NativeError + NativePairSide) \<times> 'q ChannelFabric" where
  "peer_side link F =
     (case map_of (native_links F) (peer_key link) of
        None \<Rightarrow> (Inl NotFound, F)
      | Some peer \<Rightarrow> (Inr (le_side peer), clone_side (le_side peer) F))"

text \<open>The end of \<^verbatim>\<open>native_send_message\<close>, \<^verbatim>\<open>native_send_credit\<close> and \<^verbatim>\<open>native_send_close\<close>: the peer's side is
  charged and the event given to the peer's lane.\<close>

definition route ::
  "'q Lanes \<Rightarrow> NativeLinkEnd \<Rightarrow> (NativePairSide \<Rightarrow> NativeEvent) \<Rightarrow> 'q ChannelFabric \<Rightarrow>
   (NativeError + unit) \<times> 'q ChannelFabric" where
  "route L link ev F =
     (case peer_side link F of
        (Inl e, F1) \<Rightarrow> (Inl e, F1)
      | (Inr guard, F1) \<Rightarrow>
          case map_of (native_endpoints F1) (le_peer_endpoint link) of
            None \<Rightarrow> (Inl Unavailable, drop_side guard F1)
          | Some target \<Rightarrow>
              case deliver L (ne_events target) (ev guard) F1 of
                (False, F2) \<Rightarrow> (Inl Backpressured, F2)
              | (True, F2) \<Rightarrow> (Inr (), F2))"

definition native_send_message ::
  "'q Lanes \<Rightarrow> u64 \<Rightarrow> u64 \<Rightarrow> NativeMessageFragment \<Rightarrow> 'q ChannelFabric \<Rightarrow> (NativeError + unit) \<times> 'q ChannelFabric" where
  "native_send_message L endpoint channel_handle fragment F =
     (if unat MAX_MESSAGE_BYTES < length (mf_data fragment) then (Inl ResourceExhausted, F)
      else case map_of (native_links F) (endpoint, channel_handle) of
        None \<Rightarrow> (Inl NotFound, F)
      | Some link \<Rightarrow> with_clone (le_side link)
          (if \<not> le_published link \<or> le_output_closed link then Pair (Inl Conflict)
           else route L link (Message (le_peer_channel_handle link) fragment)) F)"

definition native_send_credit ::
  "'q Lanes \<Rightarrow> u64 \<Rightarrow> u64 \<Rightarrow> u64 \<Rightarrow> 'q ChannelFabric \<Rightarrow> (NativeError + unit) \<times> 'q ChannelFabric" where
  "native_send_credit L endpoint channel_handle cumulative_byte_limit F =
     (case map_of (native_links F) (endpoint, channel_handle) of
        None \<Rightarrow> (Inl NotFound, F)
      | Some link \<Rightarrow> with_clone (le_side link)
          (if \<not> le_published link then Pair (Inl Conflict)
           else route L link (Credit (le_peer_channel_handle link) cumulative_byte_limit)) F)"

text \<open>Both ends closed: the pair is removed.\<close>

definition close_output :: "u64 \<times> u64 \<Rightarrow> NativeLinkEnd \<Rightarrow> 'q ChannelFabric \<Rightarrow> 'q ChannelFabric" where
  "close_output key link F =
     (let links = AList.update key (link\<lparr>le_output_closed := True\<rparr>) (native_links F);
          F1 = F\<lparr>native_links := links\<rparr>
      in case map_of links (peer_key link) of
           None \<Rightarrow> F1
         | Some peer \<Rightarrow>
             if le_output_closed peer
             then drop_side (le_side peer) (drop_side (le_side link)
                    (F1\<lparr>native_links := AList.delete (peer_key link) (AList.delete key links)\<rparr>))
             else F1)"

definition close_link ::
  "'q Lanes \<Rightarrow> u64 \<times> u64 \<Rightarrow> u64 \<Rightarrow> NativeLinkEnd \<Rightarrow> 'q ChannelFabric \<Rightarrow> (NativeError + unit) \<times> 'q ChannelFabric" where
  "close_link L key final_data_bytes link F =
     (if \<not> le_published link \<or> le_output_closed link then (Inl Conflict, F)
      else case route L link (Close (le_peer_channel_handle link) final_data_bytes) F of
          (Inl e, F1) \<Rightarrow> (Inl e, F1)
        | (Inr u, F1) \<Rightarrow> (Inr u, close_output key link F1))"

definition native_send_close ::
  "'q Lanes \<Rightarrow> u64 \<Rightarrow> u64 \<Rightarrow> u64 \<Rightarrow> 'q ChannelFabric \<Rightarrow> (NativeError + unit) \<times> 'q ChannelFabric" where
  "native_send_close L endpoint channel_handle final_data_bytes F =
     (case map_of (native_links F) (endpoint, channel_handle) of
        None \<Rightarrow> (Inl NotFound, F)
      | Some link \<Rightarrow> with_clone (le_side link) (close_link L (endpoint, channel_handle) final_data_bytes link) F)"

definition unregister_native_endpoint :: "'q Lanes \<Rightarrow> u64 \<Rightarrow> 'q ChannelFabric \<Rightarrow> 'q ChannelFabric" where
  "unregister_native_endpoint L endpoint F =
     (let pending = map fst (filter (\<lambda>(_, p). pc_connector_endpoint p = endpoint \<or> pc_listener_endpoint p = endpoint)
                               (native_pending F));
          F1 = fold (\<lambda>connect_id. native_cancel_connect L endpoint connect_id Unavailable) pending F;
          handles = map snd (filter (\<lambda>(owner, _). owner = endpoint) (map fst (native_links F1)));
          F2 = fold (\<lambda>handle F. snd (native_reset L endpoint handle Unavailable F)) handles F1;
          F3 = F2\<lparr>native_endpoints := AList.delete endpoint (native_endpoints F2)\<rparr>;
          closing = map (li_listener_handle \<circ> snd) (filter (\<lambda>(_, l). li_endpoint l = endpoint) (listeners F3));
          F4 = fold remove_listener closing F3
      in F4\<lparr>next_registry_id := AList.delete endpoint (next_registry_id F4)\<rparr>)"

end
