(* ===== verification/Channel_Invariant.thy ===== *)
theory Channel_Invariant
  imports Channel_Fabric
begin

text \<open>
  The invariant of the channel fabric and what the small mutations its operations are made of do to it: taking and
  giving back sides, delivering events, removing and adding listeners, connects in progress and links.
\<close>

text \<open>Maps are read through \<^const>\<open>map_of\<close>, never as sets of their entries.\<close>

declare map_of_eq_Some_iff [simp del]

section \<open>Who holds a side\<close>

text \<open>A role is one end of a pair, in progress or linked: its connect, its side and its endpoint.\<close>

type_synonym role = "u64 \<times> NativePairSide \<times> u64"

definition connect_roles :: "u64 \<times> NativePendingConnect \<Rightarrow> role multiset" where
  "connect_roles x = (case x of (c, p) \<Rightarrow>
     {#(c, pc_connector_side p, pc_connector_endpoint p), (c, pc_listener_side p, pc_listener_endpoint p)#})"

definition link_role :: "(u64 \<times> u64) \<times> NativeLinkEnd \<Rightarrow> role" where
  "link_role x = (case x of ((endpoint, _), link) \<Rightarrow> (le_connect_id link, le_side link, endpoint))"

definition pending_roles :: "(u64 \<times> NativePendingConnect) list \<Rightarrow> role multiset" where
  "pending_roles ps = \<Sum>\<^sub># (image_mset connect_roles (mset ps))"

definition link_roles :: "((u64 \<times> u64) \<times> NativeLinkEnd) list \<Rightarrow> role multiset" where
  "link_roles ls = image_mset link_role (mset ls)"

definition roles :: "'q ChannelFabric \<Rightarrow> role multiset" where
  "roles F = pending_roles (native_pending F) + link_roles (native_links F)"

abbreviation role_side :: "role \<Rightarrow> NativePairSide" where "role_side r \<equiv> fst (snd r)"
abbreviation role_endpoint :: "role \<Rightarrow> u64" where "role_endpoint r \<equiv> snd (snd r)"

text \<open>The guards of events that are queued or being handled.\<close>

definition guards :: "'q ChannelFabric \<Rightarrow> NativePairSide multiset" where
  "guards F = mset (List.map_filter (event_guard \<circ> snd) (sent F)) + mset (map (terminal_guard \<circ> snd) (sent_terminal F))"

definition held :: "'q ChannelFabric \<Rightarrow> NativePairSide multiset" where
  "held F = image_mset role_side (roles F) + guards F"

text \<open>The roles charge distinct slots, each to its endpoint, and share a reservation exactly within a pair.\<close>

definition roles_ok :: "role multiset \<Rightarrow> admission \<Rightarrow> bool" where
  "roles_ok R A \<longleftrightarrow>
     (\<forall>i. count (image_mset (ps_slot \<circ> role_side) R) i \<le> 1)
     \<and> (\<forall>r \<in># R. slot_owner A (role_side r) = Some (role_endpoint r))
     \<and> (\<forall>r \<in># R. \<forall>r' \<in># R. fst r = fst r' \<longleftrightarrow> ps_reservation (role_side r) = ps_reservation (role_side r'))"

text \<open>\<open>X\<close> are the sides that local variables of a running operation hold.\<close>

definition sides_ok :: "NativePairSide multiset \<Rightarrow> 'q ChannelFabric \<Rightarrow> bool" where
  "sides_ok X F \<longleftrightarrow>
     admission_ok (X + held F) (adm F) \<and> within_limits (limits F) (adm F) \<and> roles_ok (roles F) (adm F)"

subsection \<open>Frames\<close>

lemma clone_side_simps [simp]:
  "enabled (clone_side s F) = enabled F" "shutting_down (clone_side s F) = shutting_down F"
  "boot_generation (clone_side s F) = boot_generation F"
  "next_listener_generation (clone_side s F) = next_listener_generation F"
  "next_listener_handle (clone_side s F) = next_listener_handle F"
  "next_native_endpoint (clone_side s F) = next_native_endpoint F"
  "next_native_connect (clone_side s F) = next_native_connect F" "next_registry_id (clone_side s F) = next_registry_id F"
  "listener_names (clone_side s F) = listener_names F" "listeners (clone_side s F) = listeners F"
  "native_endpoints (clone_side s F) = native_endpoints F" "native_pending (clone_side s F) = native_pending F"
  "native_links (clone_side s F) = native_links F" "native_revision (clone_side s F) = native_revision F"
  "native_revision_tx (clone_side s F) = native_revision_tx F" "limits (clone_side s F) = limits F"
  "lanes (clone_side s F) = lanes F" "sent (clone_side s F) = sent F" "sent_terminal (clone_side s F) = sent_terminal F"
  by (simp_all add: clone_side_def)

lemma drop_side_simps [simp]:
  "enabled (drop_side s F) = enabled F" "shutting_down (drop_side s F) = shutting_down F"
  "boot_generation (drop_side s F) = boot_generation F"
  "next_listener_generation (drop_side s F) = next_listener_generation F"
  "next_listener_handle (drop_side s F) = next_listener_handle F"
  "next_native_endpoint (drop_side s F) = next_native_endpoint F"
  "next_native_connect (drop_side s F) = next_native_connect F" "next_registry_id (drop_side s F) = next_registry_id F"
  "listener_names (drop_side s F) = listener_names F" "listeners (drop_side s F) = listeners F"
  "native_endpoints (drop_side s F) = native_endpoints F" "native_pending (drop_side s F) = native_pending F"
  "native_links (drop_side s F) = native_links F" "native_revision (drop_side s F) = native_revision F"
  "native_revision_tx (drop_side s F) = native_revision_tx F" "limits (drop_side s F) = limits F"
  "lanes (drop_side s F) = lanes F" "sent (drop_side s F) = sent F" "sent_terminal (drop_side s F) = sent_terminal F"
  by (simp_all add: drop_side_def)

text \<open>The registry: everything but the counters and the lanes.\<close>

definition registry :: "'q ChannelFabric \<Rightarrow> unit ChannelFabric" where
  "registry F =
     \<lparr>enabled = enabled F, shutting_down = shutting_down F, boot_generation = boot_generation F,
      next_listener_generation = next_listener_generation F, next_listener_handle = next_listener_handle F,
      next_native_endpoint = next_native_endpoint F, next_native_connect = next_native_connect F,
      next_registry_id = next_registry_id F, listener_names = listener_names F, listeners = listeners F,
      native_endpoints = native_endpoints F, native_pending = native_pending F, native_links = native_links F,
      native_revision = native_revision F, native_revision_tx = native_revision_tx F, adm = admission_new,
      limits = limits F, lanes = (), sent = [], sent_terminal = []\<rparr>"

lemma registry_frame [simp]:
  "registry (clone_side s F) = registry F" "registry (drop_side s F) = registry F"
  "registry (snd (deliver L lane ev F)) = registry F" "registry (deliver_terminal L lane tev F) = registry F"
  by (simp_all add: registry_def deliver_def deliver_terminal_def split: option.split)

lemma registry_eqD:
  assumes "registry F = registry G"
  shows "enabled F = enabled G" "shutting_down F = shutting_down G" "boot_generation F = boot_generation G"
    "next_listener_generation F = next_listener_generation G" "next_listener_handle F = next_listener_handle G"
    "next_native_endpoint F = next_native_endpoint G" "next_native_connect F = next_native_connect G"
    "next_registry_id F = next_registry_id G" "listener_names F = listener_names G" "listeners F = listeners G"
    "native_endpoints F = native_endpoints G" "native_pending F = native_pending G" "native_links F = native_links G"
    "native_revision F = native_revision G" "native_revision_tx F = native_revision_tx G" "limits F = limits G"
  using assms by (simp_all add: registry_def)

lemma deliver_simps [simp]:
  "native_endpoints (snd (deliver L lane ev F)) = native_endpoints F"
  "native_pending (snd (deliver L lane ev F)) = native_pending F"
  "native_links (snd (deliver L lane ev F)) = native_links F" "limits (snd (deliver L lane ev F)) = limits F"
  "listeners (snd (deliver L lane ev F)) = listeners F"
  by (rule registry_eqD, simp)+

lemma deliver_terminal_simps [simp]:
  "native_endpoints (deliver_terminal L lane tev F) = native_endpoints F"
  "native_pending (deliver_terminal L lane tev F) = native_pending F"
  "native_links (deliver_terminal L lane tev F) = native_links F" "limits (deliver_terminal L lane tev F) = limits F"
  "listeners (deliver_terminal L lane tev F) = listeners F"
  by (rule registry_eqD, simp)+

subsection \<open>Taking and giving back sides\<close>

lemma roles_frame [simp]:
  "roles (clone_side s F) = roles F" "roles (drop_side s F) = roles F" "roles (snd (deliver L lane ev F)) = roles F"
  "roles (deliver_terminal L lane tev F) = roles F" "guards (clone_side s F) = guards F" "guards (drop_side s F) = guards F"
  "held (clone_side s F) = held F" "held (drop_side s F) = held F"
  by (simp_all add: roles_def guards_def held_def)

lemma roles_held: "r \<in># roles F \<Longrightarrow> role_side r \<in># held F"
  by (simp add: held_def)

lemma roles_ok_cong: "roles_ok R A \<Longrightarrow> (\<And>r. r \<in># R \<Longrightarrow> slot_owner B (role_side r) = slot_owner A (role_side r)) \<Longrightarrow> roles_ok R B"
  by (simp add: roles_ok_def)

lemma clone_side_ok:
  assumes "sides_ok X F" and "s \<in># X + held F"
  shows "sides_ok (add_mset s X) (clone_side s F)"
proof -
  have ok: "admission_ok (X + held F) (adm F) \<and> within_limits (limits F) (adm F)"
    using assms(1) by (simp add: sides_ok_def)
  have "roles_ok (roles F) (adm F)"
    using assms(1) by (simp add: sides_ok_def)
  then have "roles_ok (roles F) (side_clone s (adm F))"
    by (rule roles_ok_cong) (rule side.clone_owner[OF ok], simp add: roles_held)
  then show ?thesis
    using side.clone_ok[OF ok assms(2)] by (simp add: sides_ok_def clone_side_def roles_def held_def guards_def)
qed

lemma drop_side_ok:
  assumes "sides_ok (add_mset s X) F"
  shows "sides_ok X (drop_side s F)"
proof -
  have ok: "admission_ok (add_mset s (X + held F)) (adm F) \<and> within_limits (limits F) (adm F)"
    using assms by (simp add: sides_ok_def)
  have "roles_ok (roles F) (adm F)"
    using assms by (simp add: sides_ok_def)
  then have "roles_ok (roles F) (side_drop s (adm F))"
    by (rule roles_ok_cong) (rule side.release_owner[OF ok], simp add: roles_held)
  then show ?thesis
    using side.release_ok[OF ok] by (simp add: sides_ok_def drop_side_def roles_def held_def guards_def)
qed

definition guard_mset :: "NativeEvent \<Rightarrow> NativePairSide multiset" where
  "guard_mset ev = (case event_guard ev of None \<Rightarrow> {#} | Some g \<Rightarrow> {#g#})"

lemma deliver_ok:
  assumes "sides_ok (guard_mset ev + X) F"
  shows "sides_ok X (snd (deliver L lane ev F))"
proof (cases "try_send L (lanes F) lane ev")
  case None
  then show ?thesis
    using assms drop_side_ok by (simp add: deliver_def guard_mset_def split: option.splits)
next
  case (Some q)
  have "mset (List.map_filter (event_guard \<circ> snd) (sent F @ [(lane, ev)])) =
      guard_mset ev + mset (List.map_filter (event_guard \<circ> snd) (sent F))"
    by (simp add: guard_mset_def List.map_filter_def split: option.split)
  then have "held (F\<lparr>lanes := q, sent := sent F @ [(lane, ev)]\<rparr>) = guard_mset ev + held F"
    by (simp add: held_def roles_def guards_def)
  then show ?thesis
    using assms Some by (simp add: deliver_def sides_ok_def roles_def ac_simps)
qed

lemma deliver_terminal_ok:
  assumes "sides_ok (add_mset (terminal_guard ev) X) F"
  shows "sides_ok X (deliver_terminal L lane ev F)"
proof (cases "send_terminal L (lanes F) lane ev")
  case None
  then show ?thesis
    using assms drop_side_ok by (simp add: deliver_terminal_def)
next
  case (Some q)
  have "held (F\<lparr>lanes := q, sent_terminal := sent_terminal F @ [(lane, ev)]\<rparr>) = add_mset (terminal_guard ev) (held F)"
    by (simp add: held_def roles_def guards_def)
  then show ?thesis
    using assms Some by (simp add: deliver_terminal_def sides_ok_def roles_def)
qed

lemma with_clone_ok:
  assumes "sides_ok X F" and "s \<in># X + held F"
    and "\<And>F. sides_ok (add_mset s X) F \<Longrightarrow> sides_ok (add_mset s X) (snd (body F))"
  shows "sides_ok X (snd (with_clone s body F))"
  using drop_side_ok[OF assms(3)[OF clone_side_ok[OF assms(1,2)]]] by (simp add: with_clone_def case_prod_beta)

subsection \<open>Moving sides in and out of the maps\<close>

lemma mset_update_new: "map_of h i = None \<Longrightarrow> mset (AList.update i w h) = add_mset (i, w) (mset h)"
  by (induction h) (auto split: if_splits)

lemma mset_take_key:
  "map_of h i = Some v \<Longrightarrow> distinct (map fst h) \<Longrightarrow> mset h = add_mset (i, v) (mset (AList.delete i h))"
  using mset_delete_key[of h i v] map_of_SomeD[of h i v] by (simp only: insert_DiffM set_mset_mset)

lemma link_role_simps [simp]:
  "fst (link_role (k, e)) = le_connect_id e" "role_side (link_role (k, e)) = le_side e"
  "role_endpoint (link_role (k, e)) = fst k"
  by (simp_all add: link_role_def case_prod_beta)

lemma link_roles_delete:
  "map_of ls k = Some e \<Longrightarrow> distinct (map fst ls) \<Longrightarrow>
    link_roles ls = add_mset (link_role (k, e)) (link_roles (AList.delete k ls))"
  using mset_take_key[of ls k e] by (simp add: link_roles_def)

lemma link_roles_new: "map_of ls k = None \<Longrightarrow> link_roles (AList.update k e ls) = add_mset (link_role (k, e)) (link_roles ls)"
  by (simp add: link_roles_def mset_update_new)

lemma link_roles_change:
  assumes "map_of ls k = Some e" and "distinct (map fst ls)" and "link_role (k, e') = link_role (k, e)"
  shows "link_roles (AList.update k e' ls) = link_roles ls"
  using link_roles_delete[OF assms(1,2)] mset_update_key[OF assms(1,2)] mset_delete_key[OF assms(1,2)] assms(3)
  by (simp add: link_roles_def)

lemma pending_roles_delete:
  "map_of ps c = Some p \<Longrightarrow> distinct (map fst ps) \<Longrightarrow>
    pending_roles ps = connect_roles (c, p) + pending_roles (AList.delete c ps)"
  using mset_take_key[of ps c p] by (simp add: pending_roles_def)

lemma pending_roles_new: "map_of ps c = None \<Longrightarrow> pending_roles (AList.update c p ps) = connect_roles (c, p) + pending_roles ps"
  by (simp add: pending_roles_def mset_update_new)

lemma pending_roles_change:
  assumes "map_of ps c = Some p" and "distinct (map fst ps)" and "connect_roles (c, p') = connect_roles (c, p)"
  shows "pending_roles (AList.update c p' ps) = pending_roles ps"
  using pending_roles_delete[OF assms(1,2)] mset_update_key[OF assms(1,2)] mset_delete_key[OF assms(1,2)] assms(3)
  by (simp add: pending_roles_def)

lemma roles_ok_mono: "roles_ok (R + S) A \<Longrightarrow> roles_ok S A"
  unfolding roles_ok_def by (fastforce dest: add_leD2)

lemma sides_ok_take:
  assumes "sides_ok X F" and "roles F = R + roles F'" and "adm F' = adm F" "limits F' = limits F" "guards F' = guards F"
  shows "sides_ok (image_mset role_side R + X) F'"
proof -
  have "held F = image_mset role_side R + held F'"
    by (simp add: held_def assms(2,5))
  then show ?thesis
    using assms roles_ok_mono[of R "roles F'"] by (simp add: sides_ok_def ac_simps)
qed

lemma take_link_ok:
  assumes "sides_ok X F" and "map_of (native_links F) k = Some e" and "distinct (map fst (native_links F))"
  shows "sides_ok (add_mset (le_side e) X) (F\<lparr>native_links := AList.delete k (native_links F)\<rparr>)"
proof -
  have "roles F = {#link_role (k, e)#} + roles (F\<lparr>native_links := AList.delete k (native_links F)\<rparr>)"
    using link_roles_delete[OF assms(2,3)] by (simp add: roles_def)
  from sides_ok_take[OF assms(1) this] show ?thesis
    by (simp add: guards_def)
qed

lemma take_pending_ok:
  assumes "sides_ok X F" and "map_of (native_pending F) c = Some p" and "distinct (map fst (native_pending F))"
  shows "sides_ok (add_mset (pc_connector_side p) (add_mset (pc_listener_side p) X))
           (F\<lparr>native_pending := AList.delete c (native_pending F)\<rparr>)"
proof -
  have "roles F = connect_roles (c, p) + roles (F\<lparr>native_pending := AList.delete c (native_pending F)\<rparr>)"
    using pending_roles_delete[OF assms(2,3)] by (simp add: roles_def ac_simps)
  from sides_ok_take[OF assms(1) this] show ?thesis
    by (simp add: connect_roles_def guards_def)
qed

text \<open>A change that leaves roles, guards, counters and limits as they are.\<close>

lemma sides_ok_same:
  assumes "sides_ok X F" and "roles F' = roles F" "adm F' = adm F" "limits F' = limits F" "guards F' = guards F"
  shows "sides_ok X F'"
  using assms by (simp add: sides_ok_def held_def)

lemma link_role_mem: "map_of (native_links F) k = Some e \<Longrightarrow> link_role (k, e) \<in># roles F"
  by (simp add: roles_def link_roles_def map_of_SomeD)

lemma link_held: "map_of (native_links F) k = Some e \<Longrightarrow> le_side e \<in># held F"
  using roles_held[OF link_role_mem] by fastforce

section \<open>The registry\<close>

definition endpoints_ok :: "'q ChannelFabric \<Rightarrow> bool" where
  "endpoints_ok F \<longleftrightarrow>
     distinct (map fst (native_endpoints F))
     \<and> (\<forall>e x. map_of (native_endpoints F) e = Some x \<longrightarrow> e < next_native_endpoint F)"

definition listener_ok :: "'q ChannelFabric \<Rightarrow> u64 \<Rightarrow> Listener \<Rightarrow> bool" where
  "listener_ok F handle l \<longleftrightarrow>
     li_listener_handle l = handle \<and> handle < next_listener_handle F \<and> li_generation l < next_listener_generation F
     \<and> valid_name (li_name l) \<and> length (li_metadata l) \<le> MAX_METADATA_BYTES
     \<and> li_token l = listener_token (boot_generation F) (li_generation l)
     \<and> map_of (listener_names F) (li_name l) = Some handle"

text \<open>Names and listeners correspond; generations are unique, registry ids are within an endpoint.\<close>

definition listeners_ok :: "'q ChannelFabric \<Rightarrow> bool" where
  "listeners_ok F \<longleftrightarrow>
     distinct (map fst (listeners F)) \<and> distinct (map fst (listener_names F))
     \<and> (\<forall>h l. map_of (listeners F) h = Some l \<longrightarrow> listener_ok F h l)
     \<and> (\<forall>n h. map_of (listener_names F) n = Some h \<longrightarrow> (\<exists>l. map_of (listeners F) h = Some l \<and> li_name l = n))
     \<and> (\<forall>h l h' l'. map_of (listeners F) h = Some l \<longrightarrow> map_of (listeners F) h' = Some l' \<longrightarrow> h \<noteq> h' \<longrightarrow>
          li_generation l \<noteq> li_generation l'
          \<and> (li_endpoint l = li_endpoint l' \<longrightarrow> li_registry_id l \<noteq> li_registry_id l'))
     \<and> length (listeners F) \<le> unat (lim_listeners (limits F))
     \<and> (\<forall>e. listener_count e F \<le> unat (min (lim_listeners_per_endpoint (limits F)) MAX_LISTENERS_PER_SESSION))"

definition owners_ok :: "'q ChannelFabric \<Rightarrow> bool" where
  "owners_ok F \<longleftrightarrow>
     (\<forall>h l. map_of (listeners F) h = Some l \<longrightarrow>
        (\<exists>e. map_of (native_endpoints F) (li_endpoint l) = Some e \<and> ne_session_id e = li_owner_session l
           \<and> ne_owner_extension e = li_owner_extension l))"

definition item_size_ok :: "u64 \<Rightarrow> bool" where
  "item_size_ok n \<longleftrightarrow> 0 < n \<and> n \<le> MAX_MESSAGE_BYTES"

definition connect_count :: "u64 \<Rightarrow> (u64 \<times> NativePendingConnect) list \<Rightarrow> nat" where
  "connect_count e ps = length (filter (\<lambda>(_, p). pc_connector_endpoint p = e) ps)"

definition pending_connects_ok :: "'q ChannelFabric \<Rightarrow> bool" where
  "pending_connects_ok F \<longleftrightarrow>
     distinct (map fst (native_pending F))
     \<and> (\<forall>c p. map_of (native_pending F) c = Some p \<longrightarrow>
          c < next_native_connect F
          \<and> map_of (native_endpoints F) (pc_connector_endpoint p) \<noteq> None
          \<and> map_of (native_endpoints F) (pc_listener_endpoint p) \<noteq> None
          \<and> (pc_listener_channel_handle p = None \<longleftrightarrow> pc_max_item_bytes p = None)
          \<and> (\<forall>n. pc_max_item_bytes p = Some n \<longrightarrow> item_size_ok n))
     \<and> (\<forall>e. connect_count e (native_pending F) \<le> MAX_PENDING_CONNECTS)"

text \<open>A connect in progress is addressed to an open listener.\<close>

definition served :: "'q ChannelFabric \<Rightarrow> NativePendingConnect \<Rightarrow> bool" where
  "served F p \<longleftrightarrow>
     (\<exists>l. map_of (listeners F) (pc_listener_handle p) = Some l \<and> li_endpoint l = pc_listener_endpoint p
        \<and> li_metadata l = pc_listener_metadata p)"

definition pending_served :: "'q ChannelFabric \<Rightarrow> bool" where
  "pending_served F \<longleftrightarrow> (\<forall>c p. map_of (native_pending F) c = Some p \<longrightarrow> served F p)"

text \<open>Links come in pairs that agree; a pair is never closed on both sides.\<close>

definition paired :: "((u64 \<times> u64) \<rightharpoonup> NativeLinkEnd) \<Rightarrow> u64 \<times> u64 \<Rightarrow> NativeLinkEnd \<Rightarrow> bool" where
  "paired m k e \<longleftrightarrow>
     (\<exists>e'. m (peer_key e) = Some e' \<and> peer_key e' = k \<and> peer_key e \<noteq> k \<and> le_connect_id e' = le_connect_id e
        \<and> le_max_item_bytes e' = le_max_item_bytes e \<and> le_published e' = le_published e
        \<and> \<not> (le_output_closed e \<and> le_output_closed e'))"

definition links_map_ok :: "((u64 \<times> u64) \<rightharpoonup> NativeLinkEnd) \<Rightarrow> bool" where
  "links_map_ok m \<longleftrightarrow>
     (\<forall>k e. m k = Some e \<longrightarrow> paired m k e \<and> (le_output_closed e \<longrightarrow> le_published e) \<and> item_size_ok (le_max_item_bytes e))
     \<and> (\<forall>k e k' e'. m k = Some e \<longrightarrow> m k' = Some e' \<longrightarrow> le_connect_id e = le_connect_id e' \<longrightarrow> k' = k \<or> k' = peer_key e)"

definition links_ok :: "'q ChannelFabric \<Rightarrow> bool" where
  "links_ok F \<longleftrightarrow>
     distinct (map fst (native_links F)) \<and> links_map_ok (map_of (native_links F))
     \<and> (\<forall>k e. map_of (native_links F) k = Some e \<longrightarrow>
          le_connect_id e < next_native_connect F \<and> map_of (native_pending F) (le_connect_id e) = None
          \<and> map_of (native_endpoints F) (fst k) \<noteq> None)"

definition revision_ok :: "'q ChannelFabric \<Rightarrow> bool" where
  "revision_ok F \<longleftrightarrow> native_revision_tx F = native_revision F \<and> native_revision F \<noteq> 0"

definition registry_ok :: "'q ChannelFabric \<Rightarrow> bool" where
  "registry_ok F \<longleftrightarrow> endpoints_ok F \<and> listeners_ok F \<and> pending_connects_ok F \<and> links_ok F \<and> revision_ok F"

definition fabric_ok :: "'q ChannelFabric \<Rightarrow> bool" where
  "fabric_ok F \<longleftrightarrow> registry_ok F \<and> owners_ok F \<and> pending_served F \<and> sides_ok {#} F"

lemmas registry_defs = registry_ok_def endpoints_ok_def listener_ok_def listeners_ok_def owners_ok_def pending_connects_ok_def
  served_def pending_served_def links_ok_def revision_ok_def listener_count_def

lemma registry_ok_cong:
  assumes "registry F = registry G"
  shows "registry_ok F = registry_ok G" "owners_ok F = owners_ok G" "pending_served F = pending_served G"
  using registry_eqD[OF assms] by (simp_all add: registry_defs)

subsection \<open>Pairs\<close>

lemma pairedE:
  assumes "links_map_ok m" and "m k = Some e"
  obtains e' where "m (peer_key e) = Some e'" "peer_key e' = k" "peer_key e \<noteq> k" "le_connect_id e' = le_connect_id e"
    "le_max_item_bytes e' = le_max_item_bytes e" "le_published e' = le_published e"
    "\<not> (le_output_closed e \<and> le_output_closed e')"
  using assms unfolding links_map_ok_def paired_def by blast

lemma paired_cong: "links_map_ok m \<Longrightarrow> m k = Some e \<Longrightarrow> m' (peer_key e) = m (peer_key e) \<Longrightarrow> paired m' k e"
  unfolding links_map_ok_def paired_def by metis

lemma links_map_okI:
  assumes "\<And>k e. m k = Some e \<Longrightarrow> paired m k e"
    and "\<And>k e. m k = Some e \<Longrightarrow> (le_output_closed e \<longrightarrow> le_published e) \<and> item_size_ok (le_max_item_bytes e)"
    and "\<And>k e k' e'. m k = Some e \<Longrightarrow> m k' = Some e' \<Longrightarrow> le_connect_id e = le_connect_id e' \<Longrightarrow> k' = k \<or> k' = peer_key e"
  shows "links_map_ok m"
  unfolding links_map_ok_def using assms by blast

lemma links_map_okD:
  assumes "links_map_ok m" and "m k = Some e"
  shows "le_output_closed e \<longrightarrow> le_published e" "item_size_ok (le_max_item_bytes e)"
    "m k' = Some e' \<Longrightarrow> le_connect_id e = le_connect_id e' \<Longrightarrow> k' = k \<or> k' = peer_key e"
  using assms unfolding links_map_ok_def by blast+

lemma links_map_ok_remove:
  assumes "links_map_ok m" and "m k = Some e"
  shows "links_map_ok (m(k := None, peer_key e := None))"
proof -
  let ?m = "m(k := None, peer_key e := None)"
  have "paired ?m k' e'" if e': "?m k' = Some e'" for k' e'
  proof -
    have k': "m k' = Some e'" "k' \<noteq> k" "k' \<noteq> peer_key e"
      using e' by (auto split: if_splits)
    obtain x where x: "m (peer_key e') = Some x" "peer_key x = k'"
      using pairedE[OF assms(1) k'(1)] by metis
    obtain y where y: "m (peer_key e) = Some y" "peer_key y = k"
      using pairedE[OF assms] by metis
    have "peer_key e' \<noteq> k" "peer_key e' \<noteq> peer_key e"
      using x y k' assms(2) by auto
    then show ?thesis
      by (intro paired_cong[OF assms(1) k'(1)]) simp
  qed
  then show ?thesis
  proof (rule links_map_okI)
    fix j x assume "?m j = Some x"
    then have "m j = Some x"
      by (simp split: if_splits)
    note d = links_map_okD[OF assms(1) this]
    show "(le_output_closed x \<longrightarrow> le_published x) \<and> item_size_ok (le_max_item_bytes x)"
      using d(1,2) by simp
    show "j' = j \<or> j' = peer_key x" if "?m j' = Some x'" "le_connect_id x = le_connect_id x'" for j' x'
      using d(3)[of j' x'] that by (simp split: if_splits)
  qed
qed

lemma links_map_ok_add:
  assumes "links_map_ok m" and "m k = None" "m (peer_key e) = None" "peer_key e \<noteq> k" "peer_key e' = k"
    and "le_connect_id e' = le_connect_id e" "le_max_item_bytes e' = le_max_item_bytes e"
    and "\<not> le_published e" "\<not> le_published e'" "\<not> le_output_closed e" "\<not> le_output_closed e'"
    and "item_size_ok (le_max_item_bytes e)" and "\<And>j x. m j = Some x \<Longrightarrow> le_connect_id x \<noteq> le_connect_id e"
  shows "links_map_ok (m(k \<mapsto> e, peer_key e \<mapsto> e'))"
proof -
  let ?m = "m(k \<mapsto> e, peer_key e \<mapsto> e')"
  have "paired ?m j x" if "m j = Some x" for j x
  proof -
    have "peer_key x \<noteq> k" "peer_key x \<noteq> peer_key e"
      using pairedE[OF assms(1) that] assms(2,3) by (metis option.distinct(1))+
    then show ?thesis
      by (intro paired_cong[OF assms(1) that]) simp
  qed
  moreover have "paired ?m k e" "paired ?m (peer_key e) e'"
    using assms by (auto simp: paired_def)
  ultimately have "paired ?m j x" if "?m j = Some x" for j x
    using that by (auto split: if_splits)
  then show ?thesis
  proof (rule links_map_okI)
    fix j x assume x: "?m j = Some x"
    then consider "m j = Some x" "j \<noteq> k" "j \<noteq> peer_key e" | "j = k" "x = e" | "j = peer_key e" "x = e'"
      by (auto split: if_splits)
    note cases = this
    show "(le_output_closed x \<longrightarrow> le_published x) \<and> item_size_ok (le_max_item_bytes x)"
      by (cases rule: cases) (use links_map_okD(1,2)[OF assms(1)] assms in auto)
    show "j' = j \<or> j' = peer_key x" if y: "?m j' = Some y" and id: "le_connect_id x = le_connect_id y" for j' y
    proof (cases rule: cases)
      case 1
      then have "m j' = Some y"
        using y id assms(6) assms(13)[of j x] by (auto split: if_splits)
      then show ?thesis
        using links_map_okD(3)[OF assms(1) 1(1)] id by blast
    qed (use y id assms(5,6) assms(13)[of j' y] in \<open>auto split: if_splits\<close>)
  qed
qed

text \<open>Changing flags of link ends.\<close>

lemma links_map_ok_flags:
  assumes "links_map_ok m" and m': "\<And>j. m' j = map_option (f j) (m j)"
    and same: "\<And>j x. peer_key (f j x) = peer_key x \<and> le_connect_id (f j x) = le_connect_id x
          \<and> le_max_item_bytes (f j x) = le_max_item_bytes x"
    and flags: "\<And>j x y. m j = Some x \<Longrightarrow> m (peer_key x) = Some y \<Longrightarrow>
          le_published (f (peer_key x) y) = le_published (f j x)
          \<and> \<not> (le_output_closed (f j x) \<and> le_output_closed (f (peer_key x) y))
          \<and> (le_output_closed (f j x) \<longrightarrow> le_published (f j x))"
  shows "links_map_ok m'"
proof (rule links_map_okI)
  fix j z assume "m' j = Some z"
  then obtain x where x: "m j = Some x" and z: "z = f j x"
    by (auto simp: m')
  obtain y where y: "m (peer_key x) = Some y" "peer_key y = j" "peer_key x \<noteq> j" "le_connect_id y = le_connect_id x"
    "le_max_item_bytes y = le_max_item_bytes x"
    using pairedE[OF assms(1) x] by metis
  show "paired m' j z"
    using y flags[OF x y(1)] same by (simp add: paired_def z m')
  show "(le_output_closed z \<longrightarrow> le_published z) \<and> item_size_ok (le_max_item_bytes z)"
    using flags[OF x y(1)] links_map_okD(2)[OF assms(1) x] same by (simp add: z)
  show "j' = j \<or> j' = peer_key z" if "m' j' = Some z'" "le_connect_id z = le_connect_id z'" for j' z'
    using that links_map_okD(3)[OF assms(1) x, of j'] same[of j] same[of j'] by (auto simp: m' z)
qed

lemma links_map_ok_publish:
  assumes "links_map_ok m" and "m k = Some e" and "m (peer_key e) = Some e'"
  shows "links_map_ok (m(k \<mapsto> e\<lparr>le_published := True\<rparr>, peer_key e \<mapsto> e'\<lparr>le_published := True\<rparr>))"
proof -
  obtain y where y: "m (peer_key e) = Some y" "peer_key y = k"
    using pairedE[OF assms(1,2)] by metis
  let ?f = "\<lambda>j x. if j = k \<or> j = peer_key e then x\<lparr>le_published := True\<rparr> else x"
  show ?thesis
  proof (rule links_map_ok_flags[OF assms(1), where f = ?f])
    fix j x z assume x: "m j = Some x" and z: "m (peer_key x) = Some z"
    obtain y' where y': "m (peer_key x) = Some y'" "peer_key y' = j" "le_published y' = le_published x"
      "\<not> (le_output_closed x \<and> le_output_closed y')"
      using pairedE[OF assms(1) x] by metis
    have "j = k \<or> j = peer_key e \<longleftrightarrow> peer_key x = k \<or> peer_key x = peer_key e"
      using x y y' assms(2) by auto
    then show "le_published (?f (peer_key x) z) = le_published (?f j x)
        \<and> \<not> (le_output_closed (?f j x) \<and> le_output_closed (?f (peer_key x) z))
        \<and> (le_output_closed (?f j x) \<longrightarrow> le_published (?f j x))"
      using y' z links_map_okD(1)[OF assms(1) x] by auto
  qed (use assms in \<open>auto simp: peer_key_def option.map_ident\<close>)
qed

lemma links_map_ok_close:
  assumes "links_map_ok m" and "m k = Some e" and "le_published e" and "m (peer_key e) = Some e'" and "\<not> le_output_closed e'"
  shows "links_map_ok (m(k \<mapsto> e\<lparr>le_output_closed := True\<rparr>))"
proof -
  obtain y where y: "peer_key e' = k" "peer_key e \<noteq> k"
    using pairedE[OF assms(1,2)] assms(4) by (metis option.inject)
  let ?f = "\<lambda>j x. if j = k then x\<lparr>le_output_closed := True\<rparr> else x"
  show ?thesis
  proof (rule links_map_ok_flags[OF assms(1), where f = ?f])
    fix j x z assume x: "m j = Some x" and z: "m (peer_key x) = Some z"
    obtain y' where y': "m (peer_key x) = Some y'" "peer_key y' = j" "le_published y' = le_published x"
      "\<not> (le_output_closed x \<and> le_output_closed y')" "peer_key x \<noteq> j"
      using pairedE[OF assms(1) x] by metis
    have "x = e" "z = e'" if "j = k"
      using that x z assms(2,4) by auto
    moreover have "x = e'" "j = peer_key e" if "peer_key x = k"
      using that x y y' assms(2,4) by auto
    ultimately show "le_published (?f (peer_key x) z) = le_published (?f j x)
        \<and> \<not> (le_output_closed (?f j x) \<and> le_output_closed (?f (peer_key x) z))
        \<and> (le_output_closed (?f j x) \<longrightarrow> le_published (?f j x))"
      using y' z y assms(3,5) links_map_okD(1)[OF assms(1) x] by auto
  qed (use assms in \<open>auto simp: peer_key_def option.map_ident\<close>)
qed

section \<open>Removing links and connects\<close>

lemma registry_update [simp]:
  "registry (F\<lparr>native_links := x\<rparr>) = (registry F)\<lparr>native_links := x\<rparr>"
  "registry (F\<lparr>native_pending := y\<rparr>) = (registry F)\<lparr>native_pending := y\<rparr>"
  "registry (F\<lparr>adm := a\<rparr>) = registry F" "registry (F\<lparr>lanes := q\<rparr>) = registry F"
  "registry (F\<lparr>next_native_connect := n\<rparr>) = (registry F)\<lparr>next_native_connect := n\<rparr>"
  by (simp_all add: registry_def)

lemma reset_registry:
  "registry (snd (native_reset L ep ch reason F)) =
     (case map_of (native_links F) (ep, ch) of
        None \<Rightarrow> registry F
      | Some e \<Rightarrow> (registry F)\<lparr>native_links := AList.delete (peer_key e) (AList.delete (ep, ch) (native_links F))\<rparr>)"
  by (simp add: native_reset_def Let_def split: option.split)

lemma reset_sides:
  assumes "sides_ok X F" and "distinct (map fst (native_links F))"
  shows "sides_ok X (snd (native_reset L ep ch reason F))"
proof (cases "map_of (native_links F) (ep, ch)")
  case (Some e)
  let ?ls = "AList.delete (ep, ch) (native_links F)"
  have one: "sides_ok (add_mset (le_side e) X) (F\<lparr>native_links := ?ls\<rparr>)"
    by (rule take_link_ok[OF assms(1) Some assms(2)])
  show ?thesis
  proof (cases "map_of ?ls (peer_key e)")
    case None
    then have "AList.delete (peer_key e) ?ls = ?ls"
      by (simp add: delete_id map_of_eq_None_iff)
    then show ?thesis
      using drop_side_ok[OF one] Some None by (simp add: native_reset_def Let_def)
  next
    case (Some peer)
    have two: "sides_ok (add_mset (le_side peer) (add_mset (le_side e) X)) (F\<lparr>native_links := AList.delete (peer_key e) ?ls\<rparr>)"
      using take_link_ok[OF one, of "peer_key e" peer] Some assms(2) by (simp add: distinct_delete)
    have "sides_ok (add_mset (le_side e) X)
       (case map_of (native_endpoints F) (le_peer_endpoint e) of
          None \<Rightarrow> drop_side (le_side peer) (F\<lparr>native_links := AList.delete (peer_key e) ?ls\<rparr>)
        | Some target \<Rightarrow> deliver_terminal L (ne_terminal_events target)
            (TerminalReset (le_peer_channel_handle e) reason (le_side peer)) (F\<lparr>native_links := AList.delete (peer_key e) ?ls\<rparr>))"
      using drop_side_ok[OF two] deliver_terminal_ok[of "TerminalReset _ _ _", simplified, OF two] by (simp split: option.split)
    from drop_side_ok[OF this] show ?thesis
      using \<open>map_of (native_links F) (ep, ch) = Some e\<close> Some by (simp add: native_reset_def Let_def)
  qed
qed (use assms in \<open>simp add: native_reset_def\<close>)

lemma abort_role_registry [simp]: "registry (abort_role L c r target g F) = registry F"
  by (simp add: abort_role_def split: option.split)

lemma abort_role_sides: "sides_ok (add_mset g X) F \<Longrightarrow> sides_ok X (abort_role L c r target g F)"
  using drop_side_ok[of g X F] deliver_terminal_ok[of "TerminalConnectAborted c r g" X F]
  by (simp add: abort_role_def split: option.split)

lemma cancel_registry:
  "registry (native_cancel_connect L ep c reason F) =
     (case map_of (native_pending F) c of
        None \<Rightarrow> registry F
      | Some p \<Rightarrow>
          if ep \<noteq> pc_connector_endpoint p \<and> ep \<noteq> pc_listener_endpoint p then registry F
          else (registry F)\<lparr>native_pending := AList.delete c (native_pending F)\<rparr>)"
  by (simp add: native_cancel_connect_def split: option.split)

lemma cancel_sides:
  assumes "sides_ok X F" and "distinct (map fst (native_pending F))"
  shows "sides_ok X (native_cancel_connect L ep c reason F)"
proof (cases "map_of (native_pending F) c")
  case (Some p)
  show ?thesis
    using assms(1) abort_role_sides[OF abort_role_sides[OF take_pending_ok[OF assms(1) Some assms(2)]]] Some
    by (simp add: native_cancel_connect_def)
qed (use assms in \<open>simp add: native_cancel_connect_def\<close>)

text \<open>What each part of the invariant does not look at.\<close>

lemma links_frame [simp]:
  "endpoints_ok (F\<lparr>native_links := x\<rparr>) = endpoints_ok F" "listeners_ok (F\<lparr>native_links := x\<rparr>) = listeners_ok F"
  "pending_connects_ok (F\<lparr>native_links := x\<rparr>) = pending_connects_ok F" "revision_ok (F\<lparr>native_links := x\<rparr>) = revision_ok F"
  "owners_ok (F\<lparr>native_links := x\<rparr>) = owners_ok F" "pending_served (F\<lparr>native_links := x\<rparr>) = pending_served F"
  by (simp_all add: registry_defs)

lemma pending_frame [simp]:
  "endpoints_ok (F\<lparr>native_pending := x\<rparr>) = endpoints_ok F" "listeners_ok (F\<lparr>native_pending := x\<rparr>) = listeners_ok F"
  "revision_ok (F\<lparr>native_pending := x\<rparr>) = revision_ok F" "owners_ok (F\<lparr>native_pending := x\<rparr>) = owners_ok F"
  "served (F\<lparr>native_pending := x\<rparr>) p = served F p"
  by (simp_all add: registry_defs)

lemma links_ok_remove_pair:
  assumes "links_ok F" and "map_of (native_links F) k = Some e"
  shows "links_ok (F\<lparr>native_links := AList.delete (peer_key e) (AList.delete k (native_links F))\<rparr>)"
proof -
  have "links_map_ok (map_of (native_links F))" "distinct (map fst (native_links F))"
    using assms(1) by (simp_all add: links_ok_def)
  then have "links_map_ok ((map_of (native_links F))(k := None, peer_key e := None))"
    "distinct (map fst (AList.delete (peer_key e) (AList.delete k (native_links F))))"
    using links_map_ok_remove[of "map_of (native_links F)" k e] assms(2) by (simp_all add: distinct_delete)
  then show ?thesis
    using assms(1) unfolding links_ok_def by (auto simp: delete_conv' split: if_splits)
qed

lemma registry_ok_remove_pair:
  "registry_ok F \<Longrightarrow> map_of (native_links F) k = Some e \<Longrightarrow>
    registry_ok (F\<lparr>native_links := AList.delete (peer_key e) (AList.delete k (native_links F))\<rparr>)"
  using links_ok_remove_pair[of F k e] by (simp add: registry_ok_def)

lemma registry_ok_remove_pending:
  assumes "registry_ok F"
  shows "registry_ok (F\<lparr>native_pending := AList.delete c (native_pending F)\<rparr>)"
proof -
  have "connect_count e (AList.delete c ps) \<le> connect_count e ps" for e ps
    by (induction ps) (auto simp: connect_count_def)
  moreover have ok: "pending_connects_ok F" "links_ok F"
    using assms by (simp_all add: registry_ok_def)
  ultimately have "connect_count e (AList.delete c (native_pending F)) \<le> MAX_PENDING_CONNECTS" for e
    unfolding pending_connects_ok_def by (meson order_trans)
  then have "pending_connects_ok (F\<lparr>native_pending := AList.delete c (native_pending F)\<rparr>)"
    using ok(1) unfolding pending_connects_ok_def by (auto simp: distinct_delete delete_conv' split: if_splits)
  moreover have "links_ok (F\<lparr>native_pending := AList.delete c (native_pending F)\<rparr>)"
    using ok(2) unfolding links_ok_def by (auto simp: delete_conv')
  ultimately show ?thesis
    using assms by (simp add: registry_ok_def)
qed

lemma pending_served_remove: "pending_served F \<Longrightarrow> pending_served (F\<lparr>native_pending := AList.delete c (native_pending F)\<rparr>)"
  unfolding pending_served_def by (auto simp: delete_conv' split: if_splits)

section \<open>Removing listeners and endpoints\<close>

lemma bump_revision_frame [simp]:
  "endpoints_ok (bump_revision F) = endpoints_ok F" "listeners_ok (bump_revision F) = listeners_ok F"
  "pending_connects_ok (bump_revision F) = pending_connects_ok F" "links_ok (bump_revision F) = links_ok F"
  "owners_ok (bump_revision F) = owners_ok F" "served (bump_revision F) p = served F p"
  "native_pending (bump_revision F) = native_pending F" "native_links (bump_revision F) = native_links F"
  "listeners (bump_revision F) = listeners F" "native_endpoints (bump_revision F) = native_endpoints F"
  "listener_names (bump_revision F) = listener_names F" "limits (bump_revision F) = limits F"
  "sides_ok X (bump_revision F) = sides_ok X F"
  by (simp_all add: registry_defs bump_revision_def Let_def sides_ok_def held_def roles_def guards_def)

lemma bump_revision_ok [simp]: "revision_ok (bump_revision F)"
  by (auto simp: revision_ok_def bump_revision_def Let_def max_def)

lemma listener_count_delete: "listener_count e (F\<lparr>listeners := AList.delete h (listeners F), listener_names := n\<rparr>) \<le> listener_count e F"
proof -
  have "length (filter P (AList.delete h xs)) \<le> length (filter P xs)" for P and xs :: "(u64 \<times> Listener) list"
    by (induction xs) auto
  then show ?thesis
    by (simp add: listener_count_def)
qed

lemma listeners_ok_delete:
  assumes "listeners_ok F" and "map_of (listeners F) h = Some l"
  shows "listeners_ok (F\<lparr>listeners := AList.delete h (listeners F), listener_names := AList.delete (li_name l) (listener_names F)\<rparr>)"
    (is "listeners_ok ?G")
proof -
  have ok: "\<And>h l. map_of (listeners F) h = Some l \<Longrightarrow> listener_ok F h l"
    "\<And>n h. map_of (listener_names F) n = Some h \<Longrightarrow> \<exists>l. map_of (listeners F) h = Some l \<and> li_name l = n"
    "distinct (map fst (listeners F))" "distinct (map fst (listener_names F))"
    "length (listeners F) \<le> unat (lim_listeners (limits F))"
    "\<And>e. listener_count e F \<le> unat (min (lim_listeners_per_endpoint (limits F)) MAX_LISTENERS_PER_SESSION)"
    using assms(1) unfolding listeners_ok_def by blast+
  have G: "map_of (listeners ?G) = (map_of (listeners F))(h := None)"
    "map_of (listener_names ?G) = (map_of (listener_names F))(li_name l := None)"
    by (simp_all add: delete_conv')
  have "listener_ok ?G h' l'" if "map_of (listeners ?G) h' = Some l'" for h' l'
  proof -
    have h': "map_of (listeners F) h' = Some l'" "h' \<noteq> h"
      using that unfolding G by (auto split: if_splits)
    have "li_name l' \<noteq> li_name l"
      using ok(1)[OF h'(1)] ok(1)[OF assms(2)] h'(2) by (auto simp: listener_ok_def)
    then show ?thesis
      using ok(1)[OF h'(1)] by (simp add: listener_ok_def delete_conv')
  qed
  moreover have "\<exists>l. map_of (listeners ?G) h' = Some l \<and> li_name l = n" if "map_of (listener_names ?G) n = Some h'" for n h'
    using that ok(2)[of n h'] assms(2) unfolding G by (auto split: if_splits)
  moreover have "length (listeners ?G) \<le> unat (lim_listeners (limits ?G))"
    using order_trans[OF length_delete_le ok(5)] by simp
  moreover have "listener_count e ?G \<le> unat (min (lim_listeners_per_endpoint (limits ?G)) MAX_LISTENERS_PER_SESSION)" for e
    using order_trans[OF listener_count_delete ok(6)] by simp
  moreover have "distinct (map fst (listeners ?G))" "distinct (map fst (listener_names ?G))"
    using ok(3,4) by (simp_all add: distinct_delete)
  moreover have "\<forall>h1 l1 h2 l2. map_of (listeners ?G) h1 = Some l1 \<longrightarrow> map_of (listeners ?G) h2 = Some l2 \<longrightarrow> h1 \<noteq> h2 \<longrightarrow>
      li_generation l1 \<noteq> li_generation l2 \<and> (li_endpoint l1 = li_endpoint l2 \<longrightarrow> li_registry_id l1 \<noteq> li_registry_id l2)"
    using assms(1) unfolding G listeners_ok_def by (auto split: if_splits)
  ultimately show ?thesis
    unfolding listeners_ok_def by blast
qed

lemma listeners_frame [simp]:
  "endpoints_ok (F\<lparr>listeners := x, listener_names := y\<rparr>) = endpoints_ok F"
  "pending_connects_ok (F\<lparr>listeners := x, listener_names := y\<rparr>) = pending_connects_ok F"
  "links_ok (F\<lparr>listeners := x, listener_names := y\<rparr>) = links_ok F"
  "sides_ok X (F\<lparr>listeners := x, listener_names := y\<rparr>) = sides_ok X F"
  by (simp_all add: registry_defs sides_ok_def held_def roles_def guards_def)

lemma remove_listener_listeners:
  "map_of (listeners (remove_listener h F)) = (map_of (listeners F))(h := None)"
  "native_pending (remove_listener h F) = native_pending F" "native_links (remove_listener h F) = native_links F"
  "native_endpoints (remove_listener h F) = native_endpoints F"
  by (auto simp: remove_listener_def delete_conv' split: option.split)

lemma remove_listener_ok:
  assumes "registry_ok F"
  shows "registry_ok (remove_listener h F)" "sides_ok X (remove_listener h F) = sides_ok X F"
    "owners_ok F \<Longrightarrow> owners_ok (remove_listener h F)"
proof -
  show "registry_ok (remove_listener h F)"
    using assms listeners_ok_delete[of F h]
    by (simp add: remove_listener_def registry_ok_def split: option.split)
  show "sides_ok X (remove_listener h F) = sides_ok X F"
    by (simp add: remove_listener_def split: option.split)
  show "owners_ok (remove_listener h F)" if "owners_ok F"
    using that unfolding owners_ok_def by (auto simp: remove_listener_listeners split: if_splits)
qed

lemma remove_listener_served: "served F p \<Longrightarrow> pc_listener_handle p \<noteq> h \<Longrightarrow> served (remove_listener h F) p"
  by (auto simp: served_def remove_listener_listeners)

end
