(* ===== verification/Channel_Steps.thy ===== *)
theory Channel_Steps
  imports Channel_Invariant
begin

text \<open>Every operation of the channel fabric preserves its invariant.\<close>

section \<open>Common steps\<close>

lemma update_new: "map_of h i = None \<Longrightarrow> AList.update i w h = h @ [(i, w)]"
  by (induction h) (auto split: if_splits)

lemma delete_update_same: "AList.delete k (AList.update k v h) = AList.delete k h"
  by (induction h) auto

lemma filter_keys_mem:
  "map_of h c = Some p \<Longrightarrow> distinct (map fst h) \<Longrightarrow> c \<in> set (map fst (filter (\<lambda>(_, p). P p) h)) \<longleftrightarrow> P p"
  by (induction h) (force split: if_splits)+

lemma fabric_okI:
  "registry_ok F \<Longrightarrow> owners_ok F \<Longrightarrow> pending_served F \<Longrightarrow> sides_ok {#} F \<Longrightarrow> fabric_ok F"
  by (simp add: fabric_ok_def)

lemma fabric_okD:
  assumes "fabric_ok F"
  shows "registry_ok F" "owners_ok F" "pending_served F" "sides_ok {#} F" "endpoints_ok F" "listeners_ok F" "pending_connects_ok F"
    "links_ok F" "revision_ok F" "distinct (map fst (native_links F))" "distinct (map fst (native_pending F))"
  using assms by (simp_all add: fabric_ok_def registry_ok_def links_ok_def pending_connects_ok_def)

lemma fabric_ok_registry:
  assumes "fabric_ok F" and "registry G = registry F" and "sides_ok {#} G"
  shows "fabric_ok G"
  using assms registry_ok_cong[OF assms(2)] by (simp add: fabric_ok_def)

lemma fabric_ok_registryI:
  assumes "registry_ok F" "owners_ok F" "pending_served F" and "registry G = registry F" and "sides_ok {#} G"
  shows "fabric_ok G"
  using assms registry_ok_cong[OF assms(4)] by (simp add: fabric_ok_def)

section \<open>Shutting down, cancelling, resetting\<close>

lemma begin_shutdown_ok: "fabric_ok F \<Longrightarrow> fabric_ok (begin_shutdown F)"
  by (simp add: fabric_ok_def registry_defs begin_shutdown_def sides_ok_def held_def roles_def guards_def)

lemma cancel_ok:
  assumes "fabric_ok F"
  shows "fabric_ok (native_cancel_connect L ep c reason F)"
proof -
  note ok = fabric_okD[OF assms]
  let ?G = "F\<lparr>native_pending := AList.delete c (native_pending F)\<rparr>"
  have "registry (native_cancel_connect L ep c reason F) = registry F
      \<or> registry (native_cancel_connect L ep c reason F) = registry ?G"
    by (simp add: cancel_registry split: option.split)
  then show ?thesis
    using fabric_ok_registry[OF assms _ cancel_sides[OF ok(4,11)]]
      fabric_ok_registryI[OF registry_ok_remove_pending[OF ok(1)] _ pending_served_remove[OF ok(3)] _ cancel_sides[OF ok(4,11)]]
      ok(2) by auto
qed

lemma reset_ok:
  assumes "fabric_ok F"
  shows "fabric_ok (snd (native_reset L ep ch reason F))"
proof (cases "map_of (native_links F) (ep, ch)")
  case None
  then show ?thesis
    using assms by (simp add: native_reset_def)
next
  case (Some e)
  note ok = fabric_okD[OF assms]
  show ?thesis
    using fabric_ok_registryI[OF registry_ok_remove_pair[OF ok(1) Some] _ _ _ reset_sides[OF ok(4,10)]] ok(2,3) Some
    by (simp add: reset_registry)
qed

section \<open>Endpoints\<close>

lemma register_ok:
  assumes "fabric_ok F"
  shows "fabric_ok (snd (register_native_endpoint session ext ev tev F))"
proof (cases "list_all (\<lambda>byte. byte = 0) session \<or> checked_add (next_native_endpoint F) 1 = None")
  case True
  then show ?thesis
    using assms by (auto simp: register_native_endpoint_def Let_def)
next
  case False
  then obtain n where n: "checked_add (next_native_endpoint F) 1 = Some n"
    by auto
  note ok = fabric_okD[OF assms]
  let ?e = "\<lparr>ne_session_id = session, ne_owner_extension = ext, ne_events = ev, ne_terminal_events = tev\<rparr>"
  define G where "G = F\<lparr>next_native_endpoint := n, native_endpoints := AList.update (next_native_endpoint F) ?e (native_endpoints F)\<rparr>"
  have less: "next_native_endpoint F < n"
    using n by (simp add: checked_add_Some_iff word_less_nat_alt)
  have fresh: "map_of (native_endpoints F) (next_native_endpoint F) = None"
    using ok(5) unfolding endpoints_ok_def by (metis less_irrefl not_Some_eq)
  then have map: "map_of (native_endpoints G) = (map_of (native_endpoints F))(next_native_endpoint F \<mapsto> ?e)"
    by (simp add: G_def update_conv')
  have "endpoints_ok G"
    using ok(5) less unfolding endpoints_ok_def map by (auto simp: G_def distinct_update split: if_splits intro: less_trans)
  moreover have "map_of (native_endpoints G) e \<noteq> None" if "map_of (native_endpoints F) e \<noteq> None" for e
    using that by (auto simp: map)
  then have "pending_connects_ok G" "links_ok G"
    using ok(7,8) unfolding pending_connects_ok_def links_ok_def by (auto simp: G_def)
  moreover have "listeners_ok G" "revision_ok G" "pending_served G" "sides_ok {#} G"
    using ok by (simp_all add: registry_defs G_def sides_ok_def held_def roles_def guards_def)
  moreover have "owners_ok G"
    using ok(2) fresh unfolding owners_ok_def map by (fastforce simp: G_def)
  ultimately have "fabric_ok G"
    by (simp add: fabric_ok_def registry_ok_def)
  then show ?thesis
    using False n by (simp add: register_native_endpoint_def Let_def G_def)
qed

section \<open>Listeners\<close>

lemma registry_search_unused: "registry_search used c = Inr r \<Longrightarrow> \<not> used r"
proof (induction used c rule: registry_search.induct)
  case (1 used c)
  then show ?case
    by (subst (asm) (2) registry_search.simps) (auto split: if_splits option.splits)
qed

lemma registry_id_unused:
  assumes "registry_id_candidate ep F = Inr r" and "map_of (listeners F) h = Some l" and "li_endpoint l = ep"
  shows "li_registry_id l \<noteq> r"
  using registry_search_unused[OF assms(1)[unfolded registry_id_candidate_def]] map_of_SomeD[OF assms(2)] assms(3)
  by (auto simp: list_ex_iff)

text \<open>A listen that succeeds, and the state it leaves.\<close>

definition listening :: "u64 \<Rightarrow> bytes \<Rightarrow> bytes \<Rightarrow> bytes \<Rightarrow> u32 \<Rightarrow> NativeEndpoint \<Rightarrow> 'q ChannelFabric \<Rightarrow> Listener" where
  "listening ep session name metadata r owner F =
     \<lparr>li_listener_handle = next_listener_handle F, li_registry_id = r, li_generation = next_listener_generation F,
      li_endpoint = ep, li_name = name, li_metadata = metadata,
      li_token = listener_token (boot_generation F) (next_listener_generation F), li_owner_session = session,
      li_owner_extension = ne_owner_extension owner\<rparr>"

lemma native_listen_cases:
  obtains (refused) e where "native_listen ep session name metadata F = (Inl e, F)"
  | (opened) owner r h g r1 where
      "native_listen ep session name metadata F =
         (Inr (native_of (listening ep session name metadata r owner F)),
          bump_revision (F\<lparr>next_listener_handle := h, next_listener_generation := g,
            next_registry_id := AList.update ep r1 (next_registry_id F),
            listener_names := AList.update name (next_listener_handle F) (listener_names F),
            listeners := AList.update (next_listener_handle F) (listening ep session name metadata r owner F) (listeners F)\<rparr>))"
      "enabled F" "\<not> shutting_down F"
      "map_of (native_endpoints F) ep = Some owner" "ne_session_id owner = session" "valid_name name"
      "length metadata \<le> MAX_METADATA_BYTES" "map_of (listener_names F) name = None"
      "length (listeners F) < unat (lim_listeners (limits F))"
      "listener_count ep F < unat (min (lim_listeners_per_endpoint (limits F)) MAX_LISTENERS_PER_SESSION)"
      "registry_id_candidate ep F = Inr r" "next_listener_handle F < h" "next_listener_generation F < g"
proof -
  show thesis
  proof (cases "\<exists>e. native_listen ep session name metadata F = (Inl e, F)")
    case True
    then show thesis
      using refused by blast
  next
    case False
    then obtain owner where owner: "map_of (native_endpoints F) ep = Some owner" "ne_session_id owner = session"
      and a: "enabled F" "\<not> shutting_down F" "valid_name name" "length metadata \<le> MAX_METADATA_BYTES"
      "map_of (listener_names F) name = None" "length (listeners F) < unat (lim_listeners (limits F))"
      "listener_count ep F < unat (min (lim_listeners_per_endpoint (limits F)) MAX_LISTENERS_PER_SESSION)"
      by (auto simp: native_listen_def Let_def not_le not_less split: option.splits if_splits)
    have not: "\<not> (\<not> enabled F \<or> shutting_down F)" "\<not> (\<not> valid_name name \<or> MAX_METADATA_BYTES < length metadata)"
      "\<not> (unat (lim_listeners (limits F)) \<le> length (listeners F)
         \<or> unat (min (lim_listeners_per_endpoint (limits F)) MAX_LISTENERS_PER_SESSION) \<le> listener_count ep F)"
      using a by (simp_all add: not_le not_less)
    obtain r h g r1 where r: "registry_id_candidate ep F = Inr r"
      "checked_add (next_listener_handle F) 1 = Some h" "checked_add (next_listener_generation F) 1 = Some g"
      "checked_add r 2 = Some r1"
      using False owner not a(5) by (auto simp: native_listen_def Let_def split: sum.splits option.splits)
    then have "next_listener_handle F < h" "next_listener_generation F < g"
      by (simp_all add: checked_add_Some_iff word_less_nat_alt)
    then show thesis
      using opened[of r owner r1 g h] owner a r not by (simp add: native_listen_def Let_def listening_def)
  qed
qed

lemma listen_ok:
  assumes "fabric_ok F"
  shows "fabric_ok (snd (native_listen ep session name metadata F))"
proof (cases rule: native_listen_cases[of ep session name metadata F])
  case (refused e)
  then show ?thesis
    using assms by simp
next
  case (opened owner r h g r1)
  note ok = fabric_okD[OF assms]
  have ls: "\<And>h l. map_of (listeners F) h = Some l \<Longrightarrow> listener_ok F h l"
    "\<And>n h. map_of (listener_names F) n = Some h \<Longrightarrow> \<exists>l. map_of (listeners F) h = Some l \<and> li_name l = n"
    "distinct (map fst (listeners F))" "distinct (map fst (listener_names F))"
    "\<And>e. listener_count e F \<le> unat (min (lim_listeners_per_endpoint (limits F)) MAX_LISTENERS_PER_SESSION)"
    "\<And>h l h' l'. map_of (listeners F) h = Some l \<Longrightarrow> map_of (listeners F) h' = Some l' \<Longrightarrow> h \<noteq> h' \<Longrightarrow>
          li_generation l \<noteq> li_generation l' \<and> (li_endpoint l = li_endpoint l' \<longrightarrow> li_registry_id l \<noteq> li_registry_id l')"
    using ok(6) unfolding listeners_ok_def by blast+
  define l where "l = listening ep session name metadata r owner F"
  define k where "k = next_listener_handle F"
  define G where "G = F\<lparr>next_listener_handle := h, next_listener_generation := g,
            next_registry_id := AList.update ep r1 (next_registry_id F),
            listener_names := AList.update name k (listener_names F),
            listeners := AList.update k l (listeners F)\<rparr>"
  have fresh: "map_of (listeners F) k = None"
    using ls(1)[of k] by (cases "map_of (listeners F) k") (auto simp: listener_ok_def k_def)
  have map: "map_of (listeners G) = (map_of (listeners F))(k \<mapsto> l)"
    "map_of (listener_names G) = (map_of (listener_names F))(name \<mapsto> k)"
    by (simp_all add: G_def update_conv')
  have old: "listener_ok G j x" if "map_of (listeners F) j = Some x" for j x
    using ls(1)[OF that] opened(12,13) opened(8) unfolding listener_ok_def map
    by (auto simp: G_def intro: less_trans)
  have new: "li_generation x \<noteq> li_generation l \<and> (li_endpoint x = li_endpoint l \<longrightarrow> li_registry_id x \<noteq> li_registry_id l)"
    if "map_of (listeners F) j = Some x" for j x
    using ls(1)[OF that] registry_id_unused[OF opened(11) that] by (auto simp: l_def listening_def listener_ok_def)
  have "listener_ok G k l"
    using opened(6,7,12,13) unfolding listener_ok_def map by (simp add: l_def listening_def k_def G_def)
  with old have "\<forall>j x. map_of (listeners G) j = Some x \<longrightarrow> listener_ok G j x"
    unfolding map by auto
  moreover have "\<exists>x. map_of (listeners G) j = Some x \<and> li_name x = n" if "map_of (listener_names G) n = Some j" for n j
    using that ls(2)[of n j] fresh unfolding map by (auto simp: l_def listening_def split: if_splits)
  moreover have "li_generation x \<noteq> li_generation x' \<and> (li_endpoint x = li_endpoint x' \<longrightarrow> li_registry_id x \<noteq> li_registry_id x')"
    if "map_of (listeners G) j = Some x" "map_of (listeners G) j' = Some x'" "j \<noteq> j'" for j x j' x'
    using that ls(6)[of j x j' x'] new[of j x] new[of j' x'] unfolding map by (auto split: if_splits)
  moreover have "length (listeners G) \<le> unat (lim_listeners (limits G))"
    using opened(9) by (simp add: G_def update_new[OF fresh])
  moreover have "listener_count e G \<le> unat (min (lim_listeners_per_endpoint (limits G)) MAX_LISTENERS_PER_SESSION)" for e
    using opened(10) ls(5)[of e] by (auto simp: G_def listener_count_def update_new[OF fresh] l_def listening_def)
  moreover have "distinct (map fst (listeners G))" "distinct (map fst (listener_names G))"
    using ls(3,4) by (simp_all add: G_def distinct_update)
  ultimately have "listeners_ok G"
    unfolding listeners_ok_def by blast
  moreover have "owners_ok G"
    using ok(2) opened(4,5) unfolding owners_ok_def map by (auto simp: G_def l_def listening_def)
  moreover have "pending_served G"
    using ok(3) fresh unfolding pending_served_def served_def map by (fastforce simp: G_def)
  moreover have "endpoints_ok G" "pending_connects_ok G" "links_ok G" "sides_ok {#} G"
    using ok by (simp_all add: registry_defs G_def sides_ok_def held_def roles_def guards_def)
  ultimately show ?thesis
    using opened(1) by (simp add: fabric_ok_def registry_ok_def pending_served_def G_def l_def k_def)
qed

text \<open>Cancelling several connects of one endpoint.\<close>

lemma map_of_delete_all: "map_of (fold AList.delete cs ps) = (map_of ps) |` (- set cs)"
  by (induction cs arbitrary: ps) (auto simp: delete_conv' restrict_map_def fun_eq_iff)

lemma cancel_all:
  fixes L :: "'q Lanes" and reason :: NativeError
  assumes "registry_ok F" "owners_ok F" "sides_ok {#} F"
    and "\<forall>c p. c \<in> set cs \<longrightarrow> map_of (native_pending F) c = Some p \<longrightarrow> ep = pc_connector_endpoint p \<or> ep = pc_listener_endpoint p"
  defines "G \<equiv> fold (\<lambda>c. native_cancel_connect L ep c reason) cs F"
  shows "registry G = (registry F)\<lparr>native_pending := fold AList.delete cs (native_pending F)\<rparr>"
    "registry_ok G" "owners_ok G" "sides_ok {#} G"
proof -
  have "registry G = (registry F)\<lparr>native_pending := fold AList.delete cs (native_pending F)\<rparr>
      \<and> registry_ok G \<and> owners_ok G \<and> sides_ok {#} G"
    using assms(1-4) unfolding G_def
  proof (induction cs arbitrary: F)
    case Nil
    then show ?case
      by (simp add: registry_def)
  next
    case (Cons c cs)
    let ?F = "native_cancel_connect L ep c reason F"
    let ?G = "F\<lparr>native_pending := AList.delete c (native_pending F)\<rparr>"
    have "registry ?F = registry ?G"
    proof (cases "map_of (native_pending F) c")
      case None
      then have "AList.delete c (native_pending F) = native_pending F"
        by (simp add: delete_id map_of_eq_None_iff)
      then show ?thesis
        using None by (simp add: native_cancel_connect_def registry_def)
    next
      case (Some p)
      then show ?thesis
        using Cons.prems(4) by (auto simp: cancel_registry)
    qed
    note same = registry_ok_cong[OF this] registry_eqD[OF this]
    have "registry_ok ?F" "owners_ok ?F"
      using Cons.prems(1,2) same registry_ok_remove_pending by auto
    moreover have "sides_ok {#} ?F"
      using Cons.prems(1,3) by (intro cancel_sides) (simp_all add: registry_ok_def pending_connects_ok_def)
    moreover have "\<forall>d p. d \<in> set cs \<longrightarrow> map_of (native_pending ?F) d = Some p \<longrightarrow>
        ep = pc_connector_endpoint p \<or> ep = pc_listener_endpoint p"
      using Cons.prems(4) same(15) by (auto simp: delete_conv' split: if_splits)
    ultimately have "registry (fold (\<lambda>c. native_cancel_connect L ep c reason) cs ?F) =
          (registry ?F)\<lparr>native_pending := fold AList.delete cs (native_pending ?F)\<rparr>
        \<and> registry_ok (fold (\<lambda>c. native_cancel_connect L ep c reason) cs ?F)
        \<and> owners_ok (fold (\<lambda>c. native_cancel_connect L ep c reason) cs ?F)
        \<and> sides_ok {#} (fold (\<lambda>c. native_cancel_connect L ep c reason) cs ?F)"
      by (rule Cons.IH)
    then show ?case
      using \<open>registry ?F = registry ?G\<close> same(15) by simp
  qed
  then show "registry G = (registry F)\<lparr>native_pending := fold AList.delete cs (native_pending F)\<rparr>"
    "registry_ok G" "owners_ok G" "sides_ok {#} G"
    by simp_all
qed

lemma close_listener_ok:
  assumes "fabric_ok F"
  shows "fabric_ok (snd (native_close_listener L ep h g F))"
proof (cases "fst (native_close_listener L ep h g F)")
  case (Inl e)
  then show ?thesis
    using assms by (simp add: native_close_listener_def Let_def split: option.splits if_splits)
next
  case (Inr u)
  then obtain l where l: "map_of (listeners F) h = Some l" "li_endpoint l = ep" "li_generation l = g"
    by (auto simp: native_close_listener_def Let_def split: option.splits if_splits)
  note ok = fabric_okD[OF assms]
  let ?cs = "map fst (filter (\<lambda>(_, p). pc_listener_handle p = h) (native_pending F))"
  let ?H = "remove_listener h F"
  let ?G = "fold (\<lambda>c. native_cancel_connect L ep c NotFound) ?cs ?H"
  have mem: "c \<in> set ?cs \<longleftrightarrow> pc_listener_handle p = h" if "map_of (native_pending F) c = Some p" for c p
    by (rule filter_keys_mem[OF that ok(11)])
  have mine: "\<forall>c p. c \<in> set ?cs \<longrightarrow> map_of (native_pending ?H) c = Some p \<longrightarrow>
      ep = pc_connector_endpoint p \<or> ep = pc_listener_endpoint p"
  proof (intro allI impI)
    fix c p assume c: "c \<in> set ?cs" "map_of (native_pending ?H) c = Some p"
    then have p: "map_of (native_pending F) c = Some p"
      by (simp add: remove_listener_listeners)
    then have "served F p" "pc_listener_handle p = h"
      using ok(3) c(1) mem[OF p] by (auto simp: pending_served_def)
    then show "ep = pc_connector_endpoint p \<or> ep = pc_listener_endpoint p"
      using l by (simp add: served_def)
  qed
  have "registry_ok ?H" "owners_ok ?H" "sides_ok {#} ?H"
    using remove_listener_ok[OF ok(1)] ok(2,4) by auto
  note G = cancel_all[OF this mine, where L = L and reason = NotFound]
  have "registry ?G = registry (?H\<lparr>native_pending := fold AList.delete ?cs (native_pending F)\<rparr>)"
    using G(1) by (simp add: remove_listener_listeners)
  note same = registry_eqD[OF this] registry_ok_cong[OF this]
  have "served ?H p" if "map_of (fold AList.delete ?cs (native_pending F)) c = Some p" for c p
  proof -
    have p: "map_of (native_pending F) c = Some p" "c \<notin> set ?cs"
      using that by (auto simp: map_of_delete_all restrict_map_def split: if_splits)
    then show ?thesis
      using ok(3) mem[OF p(1)] remove_listener_served[of F p h] by (simp add: pending_served_def)
  qed
  then have "pending_served ?G"
    unfolding pending_served_def served_def by (simp add: same)
  then have "fabric_ok ?G"
    using G(2-4) by (simp add: fabric_ok_def)
  then show ?thesis
    using l by (simp add: native_close_listener_def Let_def)
qed

section \<open>Beginning a connect\<close>

text \<open>The two sides of a granted reservation.\<close>

lemma reserve_pair_sides:
  fixes p cs as :: nat
  assumes "reserve_pair l c a A = (Inr (p, cs, as), A1)" and "admission_ok M A" and "within_limits l A"
  defines "A2 \<equiv> A1\<lparr>pair_arcs := arc_clone p (pair_arcs A1)\<rparr>"
    and "s \<equiv> \<lparr>ps_reservation = p, ps_slot = cs\<rparr>" and "t \<equiv> \<lparr>ps_reservation = p, ps_slot = as\<rparr>"
  shows "admission_ok (add_mset s (add_mset t M)) A2" "within_limits l A2"
    "slot_owner A2 s = Some c" "slot_owner A2 t = Some a" "u \<in># M \<Longrightarrow> slot_owner A2 u = slot_owner A u"
    "p \<notin> ps_reservation ` set_mset M" "cs \<noteq> as" "cs \<notin> ps_slot ` set_mset M" "as \<notin> ps_slot ` set_mset M"
proof -
  note g = reserve_pair_granted[OF assms(1-3)]
  have ok: "arcs_ok (add_mset p (image_mset ps_reservation M)) (pair_arcs A1)"
    using g(1) by (simp add: pairs_ok_def)
  note clone = arc_clone_ok[OF ok, of p, simplified]
  have "length (arc_clone p (pair_arcs A1)) = length (pair_arcs A1)"
    using arg_cong[OF clone(2), of size] by (simp add: size_arc_values)
  then have "pairs_ok (add_mset p (add_mset p (image_mset ps_reservation M))) A2"
    using g(1) clone by (simp add: pairs_ok_def A2_def)
  moreover have "slots_ok (add_mset cs (add_mset as (image_mset ps_slot M))) A2"
    using g(2) by (simp add: slots_ok_def slot_count_def A2_def)
  ultimately show "admission_ok (add_mset s (add_mset t M)) A2"
    by (simp add: admission_ok_def s_def t_def)
  show "within_limits l A2"
    using g(3) by (simp add: within_limits_def slot_count_def A2_def)
  show "slot_owner A2 s = Some c" "slot_owner A2 t = Some a"
    using g(8,9) by (simp_all add: slot_owner_def A2_def s_def t_def)
  show "slot_owner A2 u = slot_owner A u" if "u \<in># M"
    using g(10)[OF that] by (simp add: slot_owner_def A2_def)
  show "p \<notin> ps_reservation ` set_mset M" "cs \<noteq> as" "cs \<notin> ps_slot ` set_mset M" "as \<notin> ps_slot ` set_mset M"
    using g(4-7) by simp_all
qed

lemma drop_reservation_ok:
  assumes "reserve_pair l c a A = (Inr (p, cs, as), A1)" and "admission_ok M A" and "within_limits l A"
  defines "A2 \<equiv> drop_reservation (p, cs, as) A1"
  shows "admission_ok M A2" "within_limits l A2" "u \<in># M \<Longrightarrow> slot_owner A2 u = slot_owner A u"
proof -
  note g = reserve_pair_granted[OF assms(1-3)]
  let ?B = "drop_slot cs (drop_slot as A1)"
  note d = admission_ok_drop_slots[OF g(2,1)]
  note e = drop_pair_ok[OF d(2)]
  show "admission_ok M A2"
    using e(1,2) d(1) by (simp add: admission_ok_def A2_def drop_reservation_def)
  show "within_limits l A2"
    using d(3)[OF g(3)] e(3-5) unfolding within_limits_def A2_def drop_reservation_def slot_count_def
    by (auto intro: order_trans)
  show "slot_owner A2 u = slot_owner A u" if "u \<in># M"
    using slot_value_drop_slots[OF g(2), of "ps_slot u"] g(10)[OF that] that
    by (simp add: slot_owner_def A2_def drop_reservation_def e(6))
qed

lemma roles_ok_pair:
  assumes "roles_ok R A" and "slot_owner A s = Some e" "slot_owner A t = Some f"
    and "ps_slot s \<noteq> ps_slot t" "ps_reservation s = ps_reservation t"
    and "\<And>r. r \<in># R \<Longrightarrow> ps_slot (role_side r) \<noteq> ps_slot s \<and> ps_slot (role_side r) \<noteq> ps_slot t
           \<and> ps_reservation (role_side r) \<noteq> ps_reservation s \<and> fst r \<noteq> c"
  shows "roles_ok ({#(c, s, e), (c, t, f)#} + R) A"
proof -
  have "count (image_mset (ps_slot \<circ> role_side) R) (ps_slot s) = 0" "count (image_mset (ps_slot \<circ> role_side) R) (ps_slot t) = 0"
    using assms(6) by (fastforce simp: count_eq_zero_iff)+
  then have "\<forall>i. count (image_mset (ps_slot \<circ> role_side) ({#(c, s, e), (c, t, f)#} + R)) i \<le> 1"
    using assms(1,4) by (auto simp: roles_ok_def)
  moreover have "\<forall>r \<in># {#(c, s, e), (c, t, f)#} + R. slot_owner A (role_side r) = Some (role_endpoint r)"
    using assms(1-3) by (auto simp: roles_ok_def)
  moreover have "fst r = fst r' \<longleftrightarrow> ps_reservation (role_side r) = ps_reservation (role_side r')"
    if "r \<in># {#(c, s, e), (c, t, f)#} + R" "r' \<in># {#(c, s, e), (c, t, f)#} + R" for r r'
    using that assms(1,5) assms(6)[of r] assms(6)[of r'] by (auto simp: roles_ok_def)
  ultimately show ?thesis
    unfolding roles_ok_def by blast
qed

text \<open>Delivering an event that carries no guard.\<close>

lemma deliver_quiet:
  assumes "deliver L lane ev F = (b, G)" and "event_guard ev = None"
  shows "sides_ok X F \<Longrightarrow> sides_ok X G" "registry G = registry F" "adm G = adm F" "roles G = roles F" "guards G = guards F"
proof -
  have G: "G = snd (deliver L lane ev F)"
    by (simp add: assms(1))
  show "sides_ok X G" if "sides_ok X F"
    using that assms(2) unfolding G by (intro deliver_ok) (simp add: guard_mset_def)
  show "registry G = registry F" "adm G = adm F" "roles G = roles F" "guards G = guards F"
    unfolding G using assms(2)
    by (simp_all, simp_all add: deliver_def guards_def List.map_filter_def split: option.split)
qed

text \<open>The states of a connect being begun.\<close>

definition connecting :: "u64 \<Rightarrow> u64 \<Rightarrow> Listener \<Rightarrow> nat \<Rightarrow> nat \<Rightarrow> nat \<Rightarrow> NativePendingConnect" where
  "connecting ep h l p cs as =
     \<lparr>pc_connector_endpoint = ep, pc_listener_endpoint = li_endpoint l, pc_listener_handle = h,
      pc_listener_metadata = li_metadata l, pc_listener_channel_handle = None, pc_max_item_bytes = None,
      pc_connector_side = \<lparr>ps_reservation = p, ps_slot = cs\<rparr>, pc_listener_side = \<lparr>ps_reservation = p, ps_slot = as\<rparr>\<rparr>"

definition charged :: "u64 \<Rightarrow> nat \<Rightarrow> admission \<Rightarrow> 'q ChannelFabric \<Rightarrow> 'q ChannelFabric" where
  "charged n p A F = F\<lparr>next_native_connect := n, adm := A\<lparr>pair_arcs := arc_clone p (pair_arcs A)\<rparr>\<rparr>"

lemma begin_connect_cases:
  obtains (refused) e where "native_begin_connect L ep h g credit metadata F = (Inl e, F)"
  | (full) l :: Listener and e A where "reserve_pair (limits F) ep (li_endpoint l) (adm F) = (Inl e, A)"
      "native_begin_connect L ep h g credit metadata F = (Inl ResourceExhausted, F\<lparr>adm := A\<rparr>)"
  | (exhausted) l :: Listener and p cs as A where "reserve_pair (limits F) ep (li_endpoint l) (adm F) = (Inr (p, cs, as), A)"
      "native_begin_connect L ep h g credit metadata F = (Inl ResourceExhausted, F\<lparr>adm := drop_reservation (p, cs, as) A\<rparr>)"
  | (granted) l connector acceptor p cs as A n where
      "enabled F" "\<not> shutting_down F" "length metadata \<le> MAX_METADATA_BYTES"
      "map_of (listeners F) h = Some l" "li_generation l = g" "map_of (native_endpoints F) ep = Some connector"
      "map_of (native_endpoints F) (li_endpoint l) = Some acceptor" "connect_count ep (native_pending F) < MAX_PENDING_CONNECTS"
      "reserve_pair (limits F) ep (li_endpoint l) (adm F) = (Inr (p, cs, as), A)"
      "checked_add (next_native_connect F) 1 = Some n"
      "native_begin_connect L ep h g credit metadata F =
         (case deliver L (ne_events acceptor) (IncomingConnect (next_native_connect F) h g (ne_session_id connector) metadata credit
                 (li_metadata l)) (charged n p A F) of
            (False, G) \<Rightarrow> (Inl Backpressured, drop_side \<lparr>ps_reservation = p, ps_slot = as\<rparr> (drop_side \<lparr>ps_reservation = p, ps_slot = cs\<rparr> G))
          | (True, G) \<Rightarrow> (Inr (next_native_connect F),
              G\<lparr>native_pending := AList.update (next_native_connect F) (connecting ep h l p cs as) (native_pending G)\<rparr>))"
proof -
  show thesis
  proof (cases "\<exists>e. native_begin_connect L ep h g credit metadata F = (Inl e, F)")
    case True
    then show thesis
      using refused by blast
  next
    case False
    then obtain l connector acceptor where a: "enabled F" "\<not> shutting_down F" "length metadata \<le> MAX_METADATA_BYTES"
      "map_of (listeners F) h = Some l" "li_generation l = g" "map_of (native_endpoints F) ep = Some connector"
      "map_of (native_endpoints F) (li_endpoint l) = Some acceptor" "connect_count ep (native_pending F) < MAX_PENDING_CONNECTS"
      by (auto simp: native_begin_connect_def connect_count_def not_le not_less split: option.splits if_splits)
    note eval = native_begin_connect_def connect_count_def not_le not_less
    obtain r A where r: "reserve_pair (limits F) ep (li_endpoint l) (adm F) = (r, A)"
      by (cases "reserve_pair (limits F) ep (li_endpoint l) (adm F)")
    show thesis
    proof (cases r)
      case (Inl e)
      then show thesis
        using a r by (intro full[of l e A]) (simp_all add: eval)
    next
      case (Inr x)
      obtain p cs as where x: "x = (p, cs, as)"
        by (cases x)
      show thesis
      proof (cases "checked_add (next_native_connect F) 1")
        case None
        then show thesis
          using a r Inr x by (intro exhausted[of l p cs as A]) (simp_all add: eval)
      next
        case (Some n)
        then show thesis
          using a r Inr x by (intro granted[of l connector acceptor p cs as A n])
            (simp_all add: eval Let_def charged_def connecting_def split: prod.split bool.split)
      qed
    qed
  qed
qed

lemma fabric_ok_adm:
  assumes "fabric_ok F" and "admission_ok (held F) A" and "within_limits (limits F) A"
    and "\<And>s. s \<in># held F \<Longrightarrow> slot_owner A s = slot_owner (adm F) s"
  shows "fabric_ok (F\<lparr>adm := A\<rparr>)"
proof -
  have "roles_ok (roles F) A"
    using fabric_okD(4)[OF assms(1)] unfolding sides_ok_def
    by (elim conjE, elim roles_ok_cong) (rule assms(4), rule roles_held)
  then have "sides_ok {#} (F\<lparr>adm := A\<rparr>)"
    using assms(2,3) by (simp add: sides_ok_def held_def roles_def guards_def)
  then show ?thesis
    by (intro fabric_ok_registry[OF assms(1)]) simp_all
qed

lemma links_okD:
  assumes "links_ok F" and "map_of (native_links F) k = Some e"
  shows "le_connect_id e < next_native_connect F" "map_of (native_pending F) (le_connect_id e) = None"
    "map_of (native_endpoints F) (fst k) \<noteq> None"
  using assms unfolding links_ok_def by blast+

lemma pending_okD:
  assumes "pending_connects_ok F" and "map_of (native_pending F) c = Some p"
  shows "c < next_native_connect F" "map_of (native_endpoints F) (pc_connector_endpoint p) \<noteq> None"
    "map_of (native_endpoints F) (pc_listener_endpoint p) \<noteq> None"
    "pc_listener_channel_handle p = None \<longleftrightarrow> pc_max_item_bytes p = None"
    "pc_max_item_bytes p = Some n \<Longrightarrow> item_size_ok n"
  using assms unfolding pending_connects_ok_def by blast+

lemma next_connect_frame [simp]:
  "endpoints_ok (F\<lparr>next_native_connect := x\<rparr>) = endpoints_ok F" "listeners_ok (F\<lparr>next_native_connect := x\<rparr>) = listeners_ok F"
  "revision_ok (F\<lparr>next_native_connect := x\<rparr>) = revision_ok F" "owners_ok (F\<lparr>next_native_connect := x\<rparr>) = owners_ok F"
  "pending_served (F\<lparr>next_native_connect := x\<rparr>) = pending_served F"
  by (simp_all add: registry_defs)

lemma registry_ok_next_connect:
  assumes "registry_ok F" and "next_native_connect F \<le> n"
  shows "registry_ok (F\<lparr>next_native_connect := n\<rparr>)"
proof -
  have ok: "pending_connects_ok F" "links_ok F"
    using assms(1) by (simp_all add: registry_ok_def)
  have "c < n" if "map_of (native_pending F) c = Some p" for c p
    using pending_okD(1)[OF ok(1) that] assms(2) by simp
  then have "pending_connects_ok (F\<lparr>next_native_connect := n\<rparr>)"
    using ok(1) by (simp add: pending_connects_ok_def)
  moreover have "le_connect_id e < n" if "map_of (native_links F) k = Some e" for k e
    using links_okD(1)[OF ok(2) that] assms(2) by simp
  then have "links_ok (F\<lparr>next_native_connect := n\<rparr>)"
    using ok(2) by (simp add: links_ok_def)
  ultimately show ?thesis
    using assms(1) by (simp add: registry_ok_def)
qed

lemma role_ids:
  assumes "registry_ok F" and "r \<in># roles F"
  shows "fst r < next_native_connect F"
proof -
  have "fst r < next_native_connect F" if "x \<in> set (native_pending F)" "r \<in># connect_roles x" for x
  proof -
    obtain c p where x: "x = (c, p)"
      by (cases x)
    then have "map_of (native_pending F) c = Some p"
      using that(1) assms(1) by (simp add: registry_ok_def pending_connects_ok_def map_of_is_SomeI)
    then show ?thesis
      using assms(1) that(2) x pending_okD(1)[of F c p] by (auto simp: registry_ok_def connect_roles_def)
  qed
  moreover have "fst r < next_native_connect F" if "x \<in> set (native_links F)" "r = link_role x" for x
  proof -
    obtain k e where x: "x = (k, e)"
      by (cases x)
    then have "map_of (native_links F) k = Some e"
      using that(1) assms(1) by (simp add: registry_ok_def links_ok_def map_of_is_SomeI)
    then show ?thesis
      using assms(1) that(2) x links_okD(1)[of F k e] by (simp add: registry_ok_def)
  qed
  ultimately show ?thesis
    using assms(2) by (auto simp: roles_def pending_roles_def link_roles_def)
qed

lemma sides_ok_give:
  assumes "sides_ok (image_mset role_side R + X) F" and "roles F' = R + roles F" and "roles_ok (R + roles F) (adm F)"
    and "adm F' = adm F" "limits F' = limits F" "guards F' = guards F"
  shows "sides_ok X F'"
  using assms by (simp add: sides_ok_def held_def ac_simps)

lemma registry_ok_begin:
  assumes "registry_ok F" "c < next_native_connect F" "map_of (native_pending F) c = None"
    "\<forall>k e. map_of (native_links F) k = Some e \<longrightarrow> le_connect_id e \<noteq> c"
    "map_of (native_endpoints F) (pc_connector_endpoint p) \<noteq> None" "map_of (native_endpoints F) (pc_listener_endpoint p) \<noteq> None"
    "pc_listener_channel_handle p = None" "pc_max_item_bytes p = None"
    "connect_count (pc_connector_endpoint p) (native_pending F) < MAX_PENDING_CONNECTS"
  shows "registry_ok (F\<lparr>native_pending := AList.update c p (native_pending F)\<rparr>)"
proof -
  have ok: "pending_connects_ok F" "links_ok F"
    using assms(1) by (simp_all add: registry_ok_def)
  have "connect_count e (AList.update c p (native_pending F)) \<le> MAX_PENDING_CONNECTS" for e
    using ok(1) assms(9) by (auto simp: pending_connects_ok_def connect_count_def update_new[OF assms(3)])
  then have "pending_connects_ok (F\<lparr>native_pending := AList.update c p (native_pending F)\<rparr>)"
    using ok(1) assms(2,5-8) by (auto simp: pending_connects_ok_def update_conv' distinct_update split: if_splits)
  moreover have "links_ok (F\<lparr>native_pending := AList.update c p (native_pending F)\<rparr>)"
    using ok(2) assms(4) by (auto simp: links_ok_def update_conv')
  ultimately show ?thesis
    using assms(1) by (simp add: registry_ok_def)
qed

lemma charged_ok:
  assumes "fabric_ok F" and "reserve_pair (limits F) ep (li_endpoint l) (adm F) = (Inr (p, cs, as), A)"
  shows "sides_ok {#\<lparr>ps_reservation = p, ps_slot = cs\<rparr>, \<lparr>ps_reservation = p, ps_slot = as\<rparr>#} (charged n p A F)"
    "roles_ok (connect_roles (next_native_connect F, connecting ep h l p cs as) + roles F) (adm (charged n p A F))"
    "registry (charged n p A F) = registry (F\<lparr>next_native_connect := n\<rparr>)" "roles (charged n p A F) = roles F"
proof -
  have adm: "admission_ok (held F) (adm F)" "within_limits (limits F) (adm F)" "roles_ok (roles F) (adm F)"
    using fabric_okD(4)[OF assms(1)] by (simp_all add: sides_ok_def)
  note r = reserve_pair_sides[OF assms(2) adm(1,2)]
  have roles: "roles_ok (roles F) (adm (charged n p A F))"
    by (rule roles_ok_cong[OF adm(3)]) (simp add: charged_def r(5) roles_held)
  then show "sides_ok {#\<lparr>ps_reservation = p, ps_slot = cs\<rparr>, \<lparr>ps_reservation = p, ps_slot = as\<rparr>#} (charged n p A F)"
    using r(1,2) by (simp add: sides_ok_def charged_def held_def roles_def guards_def)
  have "ps_slot (role_side x) \<noteq> cs \<and> ps_slot (role_side x) \<noteq> as \<and> ps_reservation (role_side x) \<noteq> p
      \<and> fst x \<noteq> next_native_connect F" if "x \<in># roles F" for x
    using roles_held[OF that] role_ids[OF fabric_okD(1)[OF assms(1)] that] r(6,8,9) by (metis image_eqI less_irrefl)
  then show "roles_ok (connect_roles (next_native_connect F, connecting ep h l p cs as) + roles F) (adm (charged n p A F))"
    using roles_ok_pair[OF roles, of "\<lparr>ps_reservation = p, ps_slot = cs\<rparr>" ep "\<lparr>ps_reservation = p, ps_slot = as\<rparr>" "li_endpoint l"] r(3,4,7)
    by (simp add: connect_roles_def connecting_def charged_def)
  show "registry (charged n p A F) = registry (F\<lparr>next_native_connect := n\<rparr>)" "roles (charged n p A F) = roles F"
    by (simp_all add: charged_def registry_def roles_def)
qed

lemma begun_ok:
  assumes "fabric_ok F" and "registry G = registry (F\<lparr>next_native_connect := n\<rparr>)" and "next_native_connect F < n"
    and "sides_ok (image_mset role_side (connect_roles (next_native_connect F, P))) G"
    and "roles_ok (connect_roles (next_native_connect F, P) + roles G) (adm G)" and "served F P"
    and "map_of (native_endpoints F) (pc_connector_endpoint P) \<noteq> None" "map_of (native_endpoints F) (pc_listener_endpoint P) \<noteq> None"
    and "pc_listener_channel_handle P = None" "pc_max_item_bytes P = None"
    and "connect_count (pc_connector_endpoint P) (native_pending F) < MAX_PENDING_CONNECTS"
  shows "fabric_ok (G\<lparr>native_pending := AList.update (next_native_connect F) P (native_pending G)\<rparr>)" (is "fabric_ok ?H")
proof -
  let ?c = "next_native_connect F"
  note ok = fabric_okD[OF assms(1)] and same = registry_ok_cong[OF assms(2)] registry_eqD[OF assms(2)]
  have reg: "registry_ok G" "owners_ok G" "pending_served G"
    using same(1-3) registry_ok_next_connect[OF ok(1) less_imp_le[OF assms(3)]] ok(2,3) by simp_all
  have fresh: "map_of (native_pending G) ?c = None"
    using pending_okD(1)[OF ok(7), of ?c] same(15) by (cases "map_of (native_pending F) ?c") auto
  have "\<forall>k e. map_of (native_links G) k = Some e \<longrightarrow> le_connect_id e \<noteq> ?c"
    using links_okD(1)[OF ok(8)] same(16) by fastforce
  then have "registry_ok ?H"
    using assms(3,7-11) fresh by (intro registry_ok_begin[OF reg(1)]) (simp_all add: same)
  moreover have "owners_ok ?H"
    using reg(2) by simp
  moreover have "served G P"
    using assms(6) by (simp add: served_def same)
  then have "pending_served ?H"
    using reg(3) by (auto simp: pending_served_def update_conv' split: if_splits)
  moreover have "sides_ok {#} ?H"
    using assms(4,5) pending_roles_new[OF fresh, of P]
    by (intro sides_ok_give[of "connect_roles (?c, P)" "{#}" G ?H]) (simp_all add: roles_def guards_def)
  ultimately show ?thesis
    by (rule fabric_okI)
qed

lemma begin_connect_ok:
  assumes "fabric_ok F"
  shows "fabric_ok (snd (native_begin_connect L ep h g credit metadata F))"
proof -
  note ok = fabric_okD[OF assms]
  have adm: "admission_ok (held F) (adm F)" "within_limits (limits F) (adm F)"
    using ok(4) by (simp_all add: sides_ok_def)
  show ?thesis
  proof (cases rule: begin_connect_cases[of L ep h g credit metadata F])
    case (refused e)
    then show ?thesis
      using assms by simp
  next
    case (full l e A)
    then show ?thesis
      using fabric_ok_adm[OF assms reserve_pair_refused(1,2)[OF full(1) adm(1)]] reserve_pair_refused(3)[OF full(1) adm(1)] adm(2)
      by simp
  next
    case (exhausted l p cs as A)
    then show ?thesis
      using fabric_ok_adm[OF assms] drop_reservation_ok[OF exhausted(1) adm(1,2)] by simp
  next
    case (granted l connector acceptor p cs as A n)
    let ?c = "next_native_connect F"
    let ?s = "\<lparr>ps_reservation = p, ps_slot = cs\<rparr>" and ?t = "\<lparr>ps_reservation = p, ps_slot = as\<rparr>"
    define P where "P = connecting ep h l p cs as"
    define ev where "ev = IncomingConnect ?c h g (ne_session_id connector) metadata credit (li_metadata l)"
    note r = charged_ok(1,3,4)[OF assms granted(9), where n = n]
      and roles = charged_ok(2)[OF assms granted(9), where n = n and h = h]
    have less: "?c < n"
      using granted(10) by (simp add: checked_add_Some_iff word_less_nat_alt)
    obtain b G where d: "deliver L (ne_events acceptor) ev (charged n p A F) = (b, G)"
      by (cases "deliver L (ne_events acceptor) ev (charged n p A F)") auto
    have G: "sides_ok {#?s, ?t#} G" "registry G = registry (F\<lparr>next_native_connect := n\<rparr>)" "adm G = adm (charged n p A F)"
      "roles G = roles F"
      using deliver_quiet[OF d] r by (simp_all add: ev_def)
    show ?thesis
    proof (cases b)
      case False
      have "registry_ok (F\<lparr>next_native_connect := n\<rparr>)" "owners_ok (F\<lparr>next_native_connect := n\<rparr>)"
        "pending_served (F\<lparr>next_native_connect := n\<rparr>)"
        using registry_ok_next_connect[OF ok(1) less_imp_le[OF less]] ok(2,3) by simp_all
      moreover have "sides_ok {#} (drop_side ?t (drop_side ?s G))"
        by (rule drop_side_ok, rule drop_side_ok, rule G(1))
      ultimately have "fabric_ok (drop_side ?t (drop_side ?s G))"
        using G(2) by (intro fabric_ok_registryI[of "F\<lparr>next_native_connect := n\<rparr>"]) simp_all
      then show ?thesis
        using granted(11) d False by (simp add: ev_def)
    next
      case True
      have "image_mset role_side (connect_roles (?c, P)) = {#?s, ?t#}"
        by (simp add: connect_roles_def P_def connecting_def)
      then have "fabric_ok (G\<lparr>native_pending := AList.update ?c P (native_pending G)\<rparr>)"
        using G roles granted(4,6-8) by (intro begun_ok[OF assms G(2) less])
          (simp_all add: P_def[symmetric] served_def, simp_all add: P_def connecting_def)
      then show ?thesis
        using granted(11) d True by (simp add: ev_def P_def)
    qed
  qed
qed

section \<open>Preparing and completing a connect\<close>

lemma connect_count_change:
  "map_of ps c = Some p \<Longrightarrow> pc_connector_endpoint p' = pc_connector_endpoint p \<Longrightarrow>
    connect_count e (AList.update c p' ps) = connect_count e ps"
  by (induction ps) (auto simp: connect_count_def split: if_splits)

lemma prepare_ok:
  assumes "fabric_ok F"
  shows "fabric_ok (snd (native_prepare_connect L ep c ch credit n F))"
proof (cases "\<exists>e. native_prepare_connect L ep c ch credit n F = (Inl e, F)")
  case True
  then show ?thesis
    using assms by auto
next
  case False
  then obtain p connector where p: "map_of (native_pending F) c = Some p" "pc_listener_endpoint p = ep"
    "pc_listener_channel_handle p = None" "map_of (native_links F) (ep, ch) = None" "n \<noteq> 0" "n \<le> MAX_MESSAGE_BYTES" "n \<le> credit"
    "map_of (native_endpoints F) (pc_connector_endpoint p) = Some connector"
    by (auto simp: native_prepare_connect_def not_less split: option.splits if_splits)
  obtain b G where d: "deliver L (ne_events connector) (ConnectPrepared c credit n) F = (b, G)"
    by (cases "deliver L (ne_events connector) (ConnectPrepared c credit n) F") auto
  note ok = fabric_okD[OF assms] and q = deliver_quiet[OF d]
  have G: "sides_ok {#} G" "registry G = registry F" "roles G = roles F"
    using q ok(4) by simp_all
  note G_ok = fabric_ok_registry[OF assms G(2,1)] and same = registry_eqD[OF G(2)]
  define p' where "p' = p\<lparr>pc_listener_channel_handle := Some ch, pc_max_item_bytes := Some n\<rparr>"
  let ?H = "G\<lparr>native_pending := AList.update c p' (native_pending G)\<rparr>"
  note okG = fabric_okD[OF G_ok]
  have pG: "map_of (native_pending G) c = Some p"
    using p(1) same by simp
  have "pending_connects_ok ?H"
    using okG(7) pending_okD[OF okG(7) pG] p(5,6) connect_count_change[OF pG, of p']
    unfolding pending_connects_ok_def
    by (auto simp: update_conv' distinct_update p'_def item_size_ok_def word_greater_zero_iff split: if_splits)
  moreover have "links_ok ?H"
    using okG(8) pG unfolding links_ok_def by (auto simp: update_conv')
  moreover have "served G p'"
    using okG(3) pG by (simp add: pending_served_def served_def p'_def)
  then have "pending_served ?H"
    using okG(3) by (auto simp: pending_served_def update_conv' split: if_splits)
  moreover have "sides_ok {#} ?H"
    using pending_roles_change[OF pG okG(11), of p']
    by (intro sides_ok_same[OF okG(4)]) (simp_all add: roles_def guards_def connect_roles_def p'_def)
  ultimately have "fabric_ok ?H"
    using okG by (simp add: fabric_ok_def registry_ok_def)
  then show ?thesis
    using p d G_ok by (auto simp: native_prepare_connect_def not_less p'_def split: bool.split)
qed

lemma complete_ok:
  assumes "fabric_ok F"
  shows "fabric_ok (snd (native_complete_connect ep c ch n F))"
proof (cases "\<exists>e. native_complete_connect ep c ch n F = (Inl e, F)")
  case True
  then show ?thesis
    using assms by auto
next
  case False
  then obtain p lh m listener where p: "map_of (native_pending F) c = Some p" "pc_connector_endpoint p = ep"
    "pc_listener_channel_handle p = Some lh" "pc_max_item_bytes p = Some m" "n \<noteq> 0" "n \<le> m"
    "map_of (native_links F) (ep, ch) = None" "map_of (native_links F) (pc_listener_endpoint p, lh) = None"
    "\<not> (ep = pc_listener_endpoint p \<and> ch = lh)" "map_of (native_endpoints F) (pc_listener_endpoint p) = Some listener"
    by (auto simp: native_complete_connect_def not_less split: option.splits if_splits)
  note ok = fabric_okD[OF assms]
  define e where "e = \<lparr>le_connect_id = c, le_peer_endpoint = pc_listener_endpoint p, le_peer_channel_handle = lh,
    le_max_item_bytes = n, le_side = pc_connector_side p, le_published = False, le_output_closed = False\<rparr>"
  define e' where "e' = \<lparr>le_connect_id = c, le_peer_endpoint = ep, le_peer_channel_handle = ch,
    le_max_item_bytes = n, le_side = pc_listener_side p, le_published = False, le_output_closed = False\<rparr>"
  define H where "H = F\<lparr>native_pending := AList.delete c (native_pending F),
    native_links := AList.update (pc_listener_endpoint p, lh) e' (AList.update (ep, ch) e (native_links F))\<rparr>"
  have pk: "peer_key e = (pc_listener_endpoint p, lh)" "peer_key e' = (ep, ch)"
    by (simp_all add: peer_key_def e_def e'_def)
  have maps: "map_of (native_links H) = (map_of (native_links F))((ep, ch) \<mapsto> e, peer_key e \<mapsto> e')"
    "map_of (native_pending H) = (map_of (native_pending F))(c := None)"
    by (simp_all add: H_def update_conv' delete_conv' pk)
  have size: "item_size_ok n"
    using pending_okD(5)[OF ok(7) p(1,4)] p(5,6) by (auto simp: item_size_ok_def word_greater_zero_iff)
  have fresh: "le_connect_id x \<noteq> c" if "map_of (native_links F) k = Some x" for k x
    using links_okD(2)[OF ok(8) that] p(1) by auto
  have "links_map_ok (map_of (native_links H))"
    unfolding maps using p(7-9) size fresh pk ok(8)
    by (intro links_map_ok_add) (auto simp: links_ok_def e_def e'_def)
  moreover have "distinct (map fst (native_links H))"
    using ok(10) by (simp add: H_def distinct_update)
  moreover have "le_connect_id x < next_native_connect F \<and> map_of (native_pending H) (le_connect_id x) = None
      \<and> map_of (native_endpoints F) (fst k) \<noteq> None" if "map_of (native_links H) k = Some x" for k x
    using that links_okD[OF ok(8)] pending_okD(1-3)[OF ok(7) p(1)] p(2) unfolding maps pk
    by (auto simp: e_def e'_def split: if_splits)
  ultimately have "links_ok H"
    unfolding links_ok_def by (simp add: H_def)
  moreover have "registry_ok (F\<lparr>native_pending := AList.delete c (native_pending F)\<rparr>)"
    by (rule registry_ok_remove_pending[OF ok(1)])
  then have "endpoints_ok H" "listeners_ok H" "pending_connects_ok H" "revision_ok H"
    by (simp_all add: H_def registry_ok_def)
  moreover have "pending_served H" "owners_ok H"
    using pending_served_remove[OF ok(3)] ok(2) by (simp_all add: H_def)
  moreover have "map_of (AList.update (ep, ch) e (native_links F)) (pc_listener_endpoint p, lh) = None"
    using p(8,9) by (auto simp: update_conv')
  from link_roles_new[OF p(7), of e] link_roles_new[OF this, of e'] have "roles H = roles F"
    using pending_roles_delete[OF p(1) ok(11)] p(2)
    by (simp add: H_def roles_def connect_roles_def link_role_def e_def e'_def)
  then have "sides_ok {#} H"
    by (intro sides_ok_same[OF ok(4)]) (simp_all add: H_def guards_def)
  ultimately have "fabric_ok H"
    by (simp add: fabric_ok_def registry_ok_def)
  then show ?thesis
    using p assms by (simp add: native_complete_connect_def not_less H_def e_def e'_def)
qed

section \<open>Linked channels\<close>

text \<open>The invariant while an operation holds the sides \<open>X\<close>.\<close>

definition running :: "NativePairSide multiset \<Rightarrow> 'q ChannelFabric \<Rightarrow> bool" where
  "running X F \<longleftrightarrow> registry_ok F \<and> owners_ok F \<and> pending_served F \<and> sides_ok X F"

lemma running_ok: "running {#} F = fabric_ok F"
  by (simp add: running_def fabric_ok_def)

lemma running_registry: "running X F \<Longrightarrow> registry G = registry F \<Longrightarrow> sides_ok Y G \<Longrightarrow> running Y G"
  using registry_ok_cong[of G F] by (simp add: running_def)

lemma runningD:
  assumes "running X F"
  shows "registry_ok F" "owners_ok F" "pending_served F" "sides_ok X F" "links_ok F" "distinct (map fst (native_links F))"
    "links_map_ok (map_of (native_links F))"
  using assms by (simp_all add: running_def registry_ok_def links_ok_def)

lemma running_clone: "running X F \<Longrightarrow> s \<in># X + held F \<Longrightarrow> running (add_mset s X) (clone_side s F)"
  using running_registry[of X F "clone_side s F"] clone_side_ok[of X F s] by (simp add: running_def)

lemma running_drop: "running (add_mset s X) F \<Longrightarrow> running X (drop_side s F)"
  using running_registry[of "add_mset s X" F "drop_side s F"] drop_side_ok[of s X F] by (simp add: running_def)

lemma running_deliver: "running (guard_mset ev + X) F \<Longrightarrow> running X (snd (deliver L lane ev F))"
  using running_registry[of "guard_mset ev + X" F "snd (deliver L lane ev F)"] deliver_ok[of ev X F L lane]
  by (simp add: running_def)

lemma running_reset:
  assumes "running X F"
  shows "running X (snd (native_reset L ep ch reason F))"
proof (cases "map_of (native_links F) (ep, ch)")
  case None
  then show ?thesis
    using assms by (simp add: native_reset_def)
next
  case (Some e)
  note ok = runningD[OF assms]
  let ?G = "F\<lparr>native_links := AList.delete (peer_key e) (AList.delete (ep, ch) (native_links F))\<rparr>"
  have "registry (snd (native_reset L ep ch reason F)) = registry ?G"
    using Some by (simp add: reset_registry)
  from registry_ok_cong[OF this] registry_ok_remove_pair[OF ok(1) Some] show ?thesis
    using ok(2,3) reset_sides[OF ok(4,6)] by (simp add: running_def)
qed

lemma running_with_clone:
  assumes "fabric_ok F" and "map_of (native_links F) k = Some e"
    and "\<And>G. registry G = registry F \<Longrightarrow> running {#le_side e#} G \<Longrightarrow> running {#le_side e#} (snd (body G))"
  shows "fabric_ok (snd (with_clone (le_side e) body F))"
proof -
  have "running {#le_side e#} (clone_side (le_side e) F)"
    using running_clone[of "{#}" F "le_side e"] assms(1) link_held[OF assms(2)] by (simp add: running_ok)
  from running_drop[OF assms(3)[OF _ this]] show ?thesis
    by (simp add: with_clone_def case_prod_beta running_ok)
qed

lemma running_links:
  assumes "running X F" and "links_map_ok (map_of ls)" and "distinct (map fst ls)"
    and "\<And>k. map_option le_connect_id (map_of ls k) = map_option le_connect_id (map_of (native_links F) k)"
    and "link_roles ls = link_roles (native_links F)"
  shows "running X (F\<lparr>native_links := ls\<rparr>)"
proof -
  have "\<forall>k e. map_of ls k = Some e \<longrightarrow> le_connect_id e < next_native_connect F
      \<and> map_of (native_pending F) (le_connect_id e) = None \<and> map_of (native_endpoints F) (fst k) \<noteq> None"
  proof (intro allI impI)
    fix k e assume "map_of ls k = Some e"
    then obtain x where x: "map_of (native_links F) k = Some x" "le_connect_id x = le_connect_id e"
      using assms(4)[of k] by (cases "map_of (native_links F) k") auto
    show "le_connect_id e < next_native_connect F \<and> map_of (native_pending F) (le_connect_id e) = None
        \<and> map_of (native_endpoints F) (fst k) \<noteq> None"
      using links_okD[OF runningD(5)[OF assms(1)] x(1)] x(2) by simp
  qed
  then have "links_ok (F\<lparr>native_links := ls\<rparr>)"
    using assms(2,3) unfolding links_ok_def by (simp del: split_paired_All)
  moreover have "sides_ok X (F\<lparr>native_links := ls\<rparr>)"
    using assms(5) by (intro sides_ok_same[OF runningD(4)[OF assms(1)]]) (simp_all add: roles_def guards_def)
  ultimately show ?thesis
    using assms(1) by (simp add: running_def registry_ok_def)
qed

lemma publish_running:
  assumes "running X F" and "map_of (native_links F) k = Some e" and "map_of (native_links F) (peer_key e) = Some e'"
  shows "running X (F\<lparr>native_links := AList.update (peer_key e) (e'\<lparr>le_published := True\<rparr>)
                       (AList.update k (e\<lparr>le_published := True\<rparr>) (native_links F))\<rparr>)" (is "running X (F\<lparr>native_links := ?ls\<rparr>)")
proof -
  note ok = runningD[OF assms(1)]
  have ne: "peer_key e \<noteq> k"
    using pairedE[OF ok(7) assms(2)] by metis
  have "link_roles ?ls = link_roles (AList.update k (e\<lparr>le_published := True\<rparr>) (native_links F))"
    using assms(3) ne ok(6) by (intro link_roles_change[of _ _ e']) (auto simp: update_conv' distinct_update link_role_def)
  also have "\<dots> = link_roles (native_links F)"
    using assms(2) ok(6) by (intro link_roles_change[of _ _ e]) (auto simp: link_role_def)
  finally show ?thesis
    using links_map_ok_publish[OF ok(7) assms(2,3)] assms ok(6)
    by (intro running_links[OF assms(1)]) (simp_all add: update_conv' distinct_update)
qed

lemma publish_link_running:
  assumes "running X F" and "map_of (native_links F) (ep, ch) = Some e"
  shows "running X (snd (publish_link L ep c ch credit e F))" "fst (publish_link L ep c ch credit e F) \<noteq> None"
proof -
  have "running X (snd (publish_link L ep c ch credit e F)) \<and> fst (publish_link L ep c ch credit e F) \<noteq> None"
  proof (cases "fst (publish_link L ep c ch credit e F) = Some (Inl Conflict) \<or> credit < le_max_item_bytes e
      \<or> map_of (native_endpoints F) (le_peer_endpoint e) = None")
    case True
    then show ?thesis
      using assms(1) by (auto simp: publish_link_def Let_def split: prod.splits bool.splits option.splits if_splits)
  next
    case False
    then obtain acceptor where a: "map_of (native_endpoints F) (le_peer_endpoint e) = Some acceptor"
      and guard: "le_connect_id e = c" "\<not> le_published e" "\<not> credit < le_max_item_bytes e"
      by (auto simp: publish_link_def split: if_splits)
    obtain b G where d: "deliver L (ne_events acceptor) (ConnectCommitted c ch credit (le_max_item_bytes e)) F = (b, G)"
      by (cases "deliver L (ne_events acceptor) (ConnectCommitted c ch credit (le_max_item_bytes e)) F") auto
    have G: "running X G" "native_links G = native_links F"
      using running_deliver[of "ConnectCommitted c ch credit (le_max_item_bytes e)" X F L "ne_events acceptor"] assms(1) d
        registry_eqD(13)[OF deliver_quiet(2)[OF d]] by (simp_all add: guard_mset_def)
    obtain e' where e': "map_of (native_links G) (peer_key e) = Some e'" "peer_key e \<noteq> (ep, ch)"
      using pairedE[OF runningD(7)[OF assms(1)] assms(2)] G(2) by metis
    show ?thesis
      using guard a d e' publish_running[OF G(1) _ e'(1)] running_reset[OF G(1)] assms(2) G(2)
      by (auto simp: publish_link_def Let_def update_conv' split: bool.split)
  qed
  then show "running X (snd (publish_link L ep c ch credit e F))" "fst (publish_link L ep c ch credit e F) \<noteq> None"
    by simp_all
qed

lemma publish_ok:
  assumes "fabric_ok F"
  shows "fabric_ok (snd (native_publish_connect L ep c ch credit F))" "fst (native_publish_connect L ep c ch credit F) \<noteq> None"
proof -
  have "fabric_ok (snd (native_publish_connect L ep c ch credit F)) \<and> fst (native_publish_connect L ep c ch credit F) \<noteq> None"
  proof (cases "map_of (native_links F) (ep, ch)")
    case None
    then show ?thesis
      using assms by (simp add: native_publish_connect_def)
  next
    case (Some e)
    have "running {#le_side e#} (snd (publish_link L ep c ch credit e G))"
      if "registry G = registry F" "running {#le_side e#} G" for G
      using publish_link_running(1)[OF that(2), of ep ch e] Some registry_eqD(13)[OF that(1)] by simp
    from running_with_clone[OF assms Some this] show ?thesis
      using publish_link_running(2)[of "{#le_side e#}" "clone_side (le_side e) F" ep ch e L c credit]
        running_clone[of "{#}" F "le_side e"] assms link_held[OF Some] Some
      by (simp add: native_publish_connect_def running_ok with_clone_def case_prod_beta)
  qed
  then show "fabric_ok (snd (native_publish_connect L ep c ch credit F))" "fst (native_publish_connect L ep c ch credit F) \<noteq> None"
    by simp_all
qed

lemma route_running:
  assumes "running X F" and "\<And>g. event_guard (ev g) = Some g"
  shows "running X (snd (route L e ev F))" "registry (snd (route L e ev F)) = registry F"
proof -
  have "running X (snd (route L e ev F)) \<and> registry (snd (route L e ev F)) = registry F"
  proof (cases "map_of (native_links F) (peer_key e)")
    case None
    then show ?thesis
      using assms(1) by (simp add: route_def peer_side_def)
  next
    case (Some e')
    let ?G = "clone_side (le_side e') F"
    have G: "running (add_mset (le_side e') X) ?G"
      using running_clone[OF assms(1), of "le_side e'"] link_held[OF Some] by simp
    show ?thesis
    proof (cases "map_of (native_endpoints F) (le_peer_endpoint e)")
      case None
      then show ?thesis
        using Some running_drop[OF G] by (simp add: route_def peer_side_def)
    next
      case (Some target)
      have "running X (snd (deliver L (ne_events target) (ev (le_side e')) ?G))"
        by (rule running_deliver) (simp add: guard_mset_def assms(2) G)
      moreover have "registry (snd (deliver L (ne_events target) (ev (le_side e')) ?G)) = registry F"
        by simp
      ultimately show ?thesis
        using Some \<open>map_of (native_links F) (peer_key e) = Some e'\<close>
        by (cases "deliver L (ne_events target) (ev (le_side e')) ?G") (simp add: route_def peer_side_def split: bool.split)
    qed
  qed
  then show "running X (snd (route L e ev F))" "registry (snd (route L e ev F)) = registry F"
    by simp_all
qed

lemma send_message_ok: "fabric_ok F \<Longrightarrow> fabric_ok (snd (native_send_message L ep ch fragment F))"
  unfolding native_send_message_def by (auto split: option.split intro!: running_with_clone route_running)

lemma send_credit_ok: "fabric_ok F \<Longrightarrow> fabric_ok (snd (native_send_credit L ep ch limit F))"
  unfolding native_send_credit_def by (auto split: option.split intro!: running_with_clone route_running)

lemma close_output_running:
  assumes "running X F" and "map_of (native_links F) k = Some e" and "le_published e"
  shows "running X (close_output k e F)"
proof -
  note ok = runningD[OF assms(1)]
  obtain e' where e': "map_of (native_links F) (peer_key e) = Some e'" "peer_key e \<noteq> k"
    using pairedE[OF ok(7) assms(2)] by metis
  define ls where "ls = AList.update k (e\<lparr>le_output_closed := True\<rparr>) (native_links F)"
  have peer: "map_of ls (peer_key e) = Some e'"
    using e' by (simp add: ls_def update_conv')
  have roles: "link_roles ls = link_roles (native_links F)" "distinct (map fst ls)" "map_of ls k = Some (e\<lparr>le_output_closed := True\<rparr>)"
    using assms(2) ok(6) by (auto simp: ls_def distinct_update link_role_def update_conv' intro!: link_roles_change[of _ _ e])
  show ?thesis
  proof (cases "le_output_closed e'")
    case False
    have "running X (F\<lparr>native_links := ls\<rparr>)"
      using links_map_ok_close[OF ok(7) assms(2,3) e'(1) False] roles assms(2)
      by (intro running_links[OF assms(1)]) (simp_all add: ls_def update_conv')
    then show ?thesis
      using False peer by (simp add: close_output_def Let_def flip: ls_def)
  next
    case True
    let ?H = "F\<lparr>native_links := AList.delete (peer_key e) (AList.delete k ls)\<rparr>"
    have "sides_ok X (F\<lparr>native_links := ls\<rparr>)"
      using roles(1) by (intro sides_ok_same[OF ok(4)]) (simp_all add: roles_def guards_def)
    then have "sides_ok (add_mset (le_side e) X) (F\<lparr>native_links := AList.delete k ls\<rparr>)"
      using take_link_ok[of X "F\<lparr>native_links := ls\<rparr>" k] roles(2,3) by simp
    then have "sides_ok (add_mset (le_side e) (add_mset (le_side e') X)) ?H"
      using take_link_ok[of "add_mset (le_side e) X" "F\<lparr>native_links := AList.delete k ls\<rparr>" "peer_key e" e'] peer e'(2) roles(2)
      by (simp add: delete_conv' distinct_delete add_mset_commute)
    then have sides: "sides_ok X (drop_side (le_side e') (drop_side (le_side e) ?H))"
      by (intro drop_side_ok)
    have "AList.delete k ls = AList.delete k (native_links F)"
      unfolding ls_def by (rule delete_update_same)
    then have "registry_ok ?H"
      using registry_ok_remove_pair[OF ok(1) assms(2)] by simp
    then have "running X (drop_side (le_side e') (drop_side (le_side e) ?H))"
      using ok(2,3) sides registry_ok_cong[of "drop_side (le_side e') (drop_side (le_side e) ?H)" ?H] by (simp add: running_def)
    then show ?thesis
      using True peer by (simp add: close_output_def Let_def flip: ls_def)
  qed
qed

lemma send_close_ok:
  assumes "fabric_ok F"
  shows "fabric_ok (snd (native_send_close L ep ch final F))"
proof (cases "map_of (native_links F) (ep, ch)")
  case None
  then show ?thesis
    using assms by (simp add: native_send_close_def)
next
  case (Some e)
  have "running {#le_side e#} (snd (close_link L (ep, ch) final e G))"
    if G: "registry G = registry F" "running {#le_side e#} G" for G
  proof -
    have r: "running {#le_side e#} (snd (route L e (Close (le_peer_channel_handle e) final) G))"
      "native_links (snd (route L e (Close (le_peer_channel_handle e) final) G)) = native_links F"
      using route_running[OF G(2), of "Close (le_peer_channel_handle e) final" L e] registry_eqD(13)[OF G(1)]
        registry_eqD(13)[of "snd (route L e (Close (le_peer_channel_handle e) final) G)" G] by simp_all
    show ?thesis
      using G(2) r close_output_running[OF r(1), of "(ep, ch)" e] Some
      by (auto simp: close_link_def split: prod.splits sum.splits)
  qed
  from running_with_clone[OF assms Some this] show ?thesis
    using Some by (simp add: native_send_close_def)
qed

section \<open>Unregistering an endpoint\<close>

lemma reset_all_ok: "fabric_ok F \<Longrightarrow> fabric_ok (fold (\<lambda>h F. snd (native_reset L ep h reason F)) hs F)"
  by (induction hs arbitrary: F) (simp_all add: reset_ok)

lemma reset_fields:
  fixes L :: "'q Lanes" and reason :: NativeError and ep :: u64
  defines "R \<equiv> \<lambda>h F. snd (native_reset L ep h reason F)"
  shows "native_endpoints (fold R hs F) = native_endpoints F" "native_pending (fold R hs F) = native_pending F"
    "listeners (fold R hs F) = listeners F" "next_registry_id (fold R hs F) = next_registry_id F"
    "map_of (native_links (fold R hs F)) k = Some e \<Longrightarrow> map_of (native_links F) k = Some e \<and> (\<forall>h \<in> set hs. k \<noteq> (ep, h))"
proof -
  have one: "native_endpoints (R h F) = native_endpoints F" "native_pending (R h F) = native_pending F"
    "listeners (R h F) = listeners F" "next_registry_id (R h F) = next_registry_id F" for h and F :: "'q ChannelFabric"
    using arg_cong[OF reset_registry[of L ep h reason F], of native_endpoints]
      arg_cong[OF reset_registry[of L ep h reason F], of native_pending]
      arg_cong[OF reset_registry[of L ep h reason F], of listeners] arg_cong[OF reset_registry[of L ep h reason F], of next_registry_id]
    by (simp_all add: registry_def R_def split: option.splits)
  show "native_endpoints (fold R hs F) = native_endpoints F" "native_pending (fold R hs F) = native_pending F"
    "listeners (fold R hs F) = listeners F" "next_registry_id (fold R hs F) = next_registry_id F"
    by (induction hs arbitrary: F) (simp_all add: one)
  have link: "map_of (native_links (R h F)) k = Some e \<Longrightarrow> map_of (native_links F) k = Some e \<and> k \<noteq> (ep, h)"
    for h and F :: "'q ChannelFabric"
    using arg_cong[OF reset_registry[of L ep h reason F], of native_links]
    by (auto simp: registry_def R_def delete_conv' split: option.splits if_splits)
  show "map_of (native_links (fold R hs F)) k = Some e \<Longrightarrow> map_of (native_links F) k = Some e \<and> (\<forall>h \<in> set hs. k \<noteq> (ep, h))"
  proof (induction hs arbitrary: F)
    case (Cons h hs)
    then have "map_of (native_links (R h F)) k = Some e \<and> (\<forall>h \<in> set hs. k \<noteq> (ep, h))"
      by simp
    then show ?case
      using link[of h F] by simp
  qed simp
qed

text \<open>Resetting the links of an endpoint keeps every link it is no part of.\<close>

lemma reset_keeps:
  fixes L :: "'q Lanes"
  assumes "fabric_ok F" and "map_of (native_links F) k = Some e" and "fst k \<noteq> ep" and "le_peer_endpoint e \<noteq> ep"
  shows "map_of (native_links (fold (\<lambda>h F. snd (native_reset L ep h reason F)) hs F)) k = Some e"
  using assms
proof (induction hs arbitrary: F)
  case (Cons h hs)
  have "map_of (native_links (snd (native_reset L ep h reason F))) k = Some e"
  proof (cases "map_of (native_links F) (ep, h)")
    case None
    then show ?thesis
      using Cons.prems(2) by (simp add: native_reset_def)
  next
    case (Some x)
    have "links_map_ok (map_of (native_links F))"
      using fabric_okD(8)[OF Cons.prems(1)] by (simp add: links_ok_def)
    then obtain y where "map_of (native_links F) (peer_key x) = Some y" "peer_key y = (ep, h)"
      using pairedE[of "map_of (native_links F)" "(ep, h)" x] Some by metis
    then have "k \<noteq> peer_key x"
      using Cons.prems(2,4) by (auto simp: peer_key_def)
    then show ?thesis
      using arg_cong[OF reset_registry[of L ep h reason F], of native_links] Cons.prems(2,3) Some
      by (auto simp: registry_def delete_conv')
  qed
  then show ?case
    using Cons.IH[OF reset_ok[OF Cons.prems(1)]] Cons.prems(3,4) by simp
qed simp

lemma registry_ok_remove_endpoint:
  assumes "registry_ok F"
    and "\<forall>c p. map_of (native_pending F) c = Some p \<longrightarrow> pc_connector_endpoint p \<noteq> ep \<and> pc_listener_endpoint p \<noteq> ep"
    and "\<forall>k e. map_of (native_links F) k = Some e \<longrightarrow> fst k \<noteq> ep"
  shows "registry_ok (F\<lparr>native_endpoints := AList.delete ep (native_endpoints F)\<rparr>)" (is "registry_ok ?G")
proof -
  have ok: "endpoints_ok F" "listeners_ok F" "pending_connects_ok F" "links_ok F" "revision_ok F"
    using assms(1) by (simp_all add: registry_ok_def)
  have "endpoints_ok ?G"
    using ok(1) by (auto simp: endpoints_ok_def distinct_delete delete_conv' split: if_splits)
  moreover have "pending_connects_ok ?G"
    using ok(3) assms(2) unfolding pending_connects_ok_def by (auto simp: delete_conv')
  moreover have "\<forall>k e. map_of (native_links F) k = Some e \<longrightarrow> map_of (native_endpoints ?G) (fst k) \<noteq> None"
    using assms(3) links_okD(3)[OF ok(4)] by (simp add: delete_conv' del: split_paired_All)
  then have "links_ok ?G"
    using ok(4) unfolding links_ok_def by (simp del: split_paired_All)
  moreover have "listeners_ok ?G" "revision_ok ?G"
    using ok(2,5) by (simp_all add: registry_defs)
  ultimately show ?thesis
    by (simp add: registry_ok_def)
qed

lemma remove_listeners:
  "map_of (listeners (fold remove_listener hs F)) = (map_of (listeners F)) |` (- set hs)"
  "native_pending (fold remove_listener hs F) = native_pending F" "native_links (fold remove_listener hs F) = native_links F"
  "native_endpoints (fold remove_listener hs F) = native_endpoints F"
  "registry_ok F \<Longrightarrow> registry_ok (fold remove_listener hs F)"
  "registry_ok F \<Longrightarrow> sides_ok X (fold remove_listener hs F) = sides_ok X F"
proof -
  show "map_of (listeners (fold remove_listener hs F)) = (map_of (listeners F)) |` (- set hs)"
    by (induction hs arbitrary: F) (auto simp: remove_listener_listeners restrict_map_def fun_eq_iff)
qed (induction hs arbitrary: F; simp add: remove_listener_listeners remove_listener_ok)+

text \<open>The stages of \<^const>\<open>unregister_native_endpoint\<close>.\<close>

lemma unregister_stages:
  fixes L :: "'q Lanes" and ep :: u64
  assumes "fabric_ok F"
  obtains F2 hs where "fabric_ok F2" "listeners F2 = listeners F"
    "native_endpoints F2 = native_endpoints F"
    "\<And>c p. map_of (native_pending F2) c = Some p \<longleftrightarrow>
       map_of (native_pending F) c = Some p \<and> pc_connector_endpoint p \<noteq> ep \<and> pc_listener_endpoint p \<noteq> ep"
    "\<And>k e. map_of (native_links F2) k = Some e \<longleftrightarrow>
       map_of (native_links F) k = Some e \<and> fst k \<noteq> ep \<and> le_peer_endpoint e \<noteq> ep"
    "\<And>h l. map_of (listeners F) h = Some l \<Longrightarrow> h \<in> set hs \<longleftrightarrow> li_endpoint l = ep"
    "unregister_native_endpoint L ep F =
       (let F4 = fold remove_listener hs (F2\<lparr>native_endpoints := AList.delete ep (native_endpoints F2)\<rparr>)
        in F4\<lparr>next_registry_id := AList.delete ep (next_registry_id F4)\<rparr>)"
proof -
  note ok = fabric_okD[OF assms]
  let ?cs = "map fst (filter (\<lambda>(_, p). pc_connector_endpoint p = ep \<or> pc_listener_endpoint p = ep) (native_pending F))"
  define F1 where "F1 = fold (\<lambda>c. native_cancel_connect L ep c Unavailable) ?cs F"
  let ?hs = "map snd (filter (\<lambda>(owner, _). owner = ep) (map fst (native_links F1)))"
  define F2 where "F2 = fold (\<lambda>h F. snd (native_reset L ep h Unavailable F)) ?hs F1"
  let ?ls = "map (li_listener_handle \<circ> snd) (filter (\<lambda>(_, l). li_endpoint l = ep) (listeners F2))"
  have mem: "c \<in> set ?cs \<longleftrightarrow> pc_connector_endpoint p = ep \<or> pc_listener_endpoint p = ep"
    if "map_of (native_pending F) c = Some p" for c p
    by (rule filter_keys_mem[OF that ok(11)])
  then have "\<forall>c p. c \<in> set ?cs \<longrightarrow> map_of (native_pending F) c = Some p \<longrightarrow> ep = pc_connector_endpoint p \<or> ep = pc_listener_endpoint p"
    by blast
  from cancel_all[OF ok(1,2,4) this, of L Unavailable]
  have reg: "registry F1 = registry (F\<lparr>native_pending := fold AList.delete ?cs (native_pending F)\<rparr>)"
    by (simp add: F1_def)
  have "fabric_ok (fold (\<lambda>c. native_cancel_connect L ep c Unavailable) cs F)" for cs
    using assms by (induction cs arbitrary: F) (simp_all add: cancel_ok)
  then have F1: "fabric_ok F1"
    by (simp add: F1_def)
  note same = registry_eqD[OF reg] and fields = reset_fields[of L ep Unavailable ?hs F1, folded F2_def]
  show thesis
  proof (rule that[of F2 ?ls])
    show "fabric_ok F2"
      using reset_all_ok[OF F1] by (simp add: F2_def)
    show "listeners F2 = listeners F" "native_endpoints F2 = native_endpoints F"
      using fields(1-3) same by simp_all
    show "map_of (native_pending F2) c = Some p \<longleftrightarrow>
       map_of (native_pending F) c = Some p \<and> pc_connector_endpoint p \<noteq> ep \<and> pc_listener_endpoint p \<noteq> ep" for c p
      using mem[of c p] by (auto simp: fields(2) same map_of_delete_all restrict_map_def simp del: set_map)
    have own: "map_of (native_links F) k = Some e \<and> fst k \<noteq> ep" if "map_of (native_links F2) k = Some e" for k e
    proof -
      have k: "map_of (native_links F1) k = Some e" "\<forall>h \<in> set ?hs. k \<noteq> (ep, h)"
        using fields(5)[OF that] by auto
      have "snd k \<in> set ?hs" if "fst k = ep"
        using map_of_SomeD[OF k(1)] that by (force simp: image_iff)
      then have "fst k \<noteq> ep"
        using k(2) by (metis prod.collapse)
      then show ?thesis
        using k(1) same(13) by simp
    qed
    have peer: "le_peer_endpoint e \<noteq> ep" if link: "map_of (native_links F2) k = Some e" for k e
    proof -
      have "links_map_ok (map_of (native_links F2))"
        using fabric_okD(8)[OF \<open>fabric_ok F2\<close>] by (simp add: links_ok_def)
      then obtain e' where "map_of (native_links F2) (peer_key e) = Some e'"
        using pairedE[of "map_of (native_links F2)" k e] link by metis
      from own[OF this] show ?thesis
        by (simp add: peer_key_def)
    qed
    show "map_of (native_links F2) k = Some e \<longleftrightarrow>
        map_of (native_links F) k = Some e \<and> fst k \<noteq> ep \<and> le_peer_endpoint e \<noteq> ep" for k e
      using own[of k e] peer[of k e] reset_keeps[OF F1, of k e ep L Unavailable ?hs] same(13) by (auto simp: F2_def)
    show "h \<in> set ?ls \<longleftrightarrow> li_endpoint l = ep" if "map_of (listeners F) h = Some l" for h l
    proof -
      have "li_listener_handle (snd x) = fst x" if "x \<in> set (listeners F)" for x
        using that ok(6) map_of_is_SomeI[of "listeners F" "fst x" "snd x"] unfolding listeners_ok_def listener_ok_def by simp
      then have "?ls = map fst (filter (\<lambda>(_, l). li_endpoint l = ep) (listeners F))"
        using fields(3) same(10) by simp
      then show ?thesis
        using filter_keys_mem[OF that, of "\<lambda>l. li_endpoint l = ep"] ok(6) by (simp add: listeners_ok_def)
    qed
    show "unregister_native_endpoint L ep F =
       (let F4 = fold remove_listener ?ls (F2\<lparr>native_endpoints := AList.delete ep (native_endpoints F2)\<rparr>)
        in F4\<lparr>next_registry_id := AList.delete ep (next_registry_id F4)\<rparr>)"
      by (simp add: unregister_native_endpoint_def Let_def F1_def F2_def)
  qed
qed

lemma unregister_ok:
  assumes "fabric_ok F"
  shows "fabric_ok (unregister_native_endpoint L ep F)"
proof (rule unregister_stages[OF assms, of ep L])
  fix F2 hs
  assume F2: "fabric_ok F2" "listeners F2 = listeners F" "native_endpoints F2 = native_endpoints F"
    and pending: "\<And>c p. map_of (native_pending F2) c = Some p \<longleftrightarrow>
       map_of (native_pending F) c = Some p \<and> pc_connector_endpoint p \<noteq> ep \<and> pc_listener_endpoint p \<noteq> ep"
    and links: "\<And>k e. map_of (native_links F2) k = Some e \<longleftrightarrow>
       map_of (native_links F) k = Some e \<and> fst k \<noteq> ep \<and> le_peer_endpoint e \<noteq> ep"
    and hs: "\<And>h l. map_of (listeners F) h = Some l \<Longrightarrow> h \<in> set hs \<longleftrightarrow> li_endpoint l = ep"
    and result: "unregister_native_endpoint L ep F =
       (let F4 = fold remove_listener hs (F2\<lparr>native_endpoints := AList.delete ep (native_endpoints F2)\<rparr>)
        in F4\<lparr>next_registry_id := AList.delete ep (next_registry_id F4)\<rparr>)"
  note ok = fabric_okD[OF F2(1)]
  define F3 where "F3 = F2\<lparr>native_endpoints := AList.delete ep (native_endpoints F2)\<rparr>"
  define F4 where "F4 = fold remove_listener hs F3"
  have F3: "registry_ok F3"
    unfolding F3_def using pending links by (intro registry_ok_remove_endpoint[OF ok(1)]) blast+
  have "sides_ok {#} F3"
    using ok(4) by (simp add: F3_def sides_ok_def held_def roles_def guards_def)
  then have F4: "registry_ok F4" "sides_ok {#} F4"
    using remove_listeners(5)[OF F3, of hs] remove_listeners(6)[OF F3, of "{#}" hs] by (simp_all add: F4_def)
  have maps: "map_of (listeners F4) = (map_of (listeners F)) |` (- set hs)"
    "native_pending F4 = native_pending F2" "map_of (native_endpoints F4) = (map_of (native_endpoints F))(ep := None)"
    using remove_listeners(1-4)[of hs F3] F2(2,3) by (simp_all add: F4_def F3_def delete_conv')
  have listener: "map_of (listeners F) h = Some l \<and> li_endpoint l \<noteq> ep" if "map_of (listeners F4) h = Some l" for h l
    using that hs[of h l] by (auto simp: maps restrict_map_def split: if_splits)
  have "owners_ok F4"
    using ok(2) listener unfolding owners_ok_def F2(2,3) maps(3) by fastforce
  moreover have "pending_served F4"
    unfolding pending_served_def maps(2)
  proof (intro allI impI)
    fix c p assume p: "map_of (native_pending F2) c = Some p"
    then obtain l where l: "map_of (listeners F) (pc_listener_handle p) = Some l" "li_endpoint l = pc_listener_endpoint p"
      "li_metadata l = pc_listener_metadata p"
      using ok(3) F2(2) by (auto simp: pending_served_def served_def)
    then show "served F4 p"
      using pending[of c p] p hs[OF l(1)] by (simp add: served_def maps restrict_map_def)
  qed
  ultimately have "fabric_ok F4"
    using F4 by (simp add: fabric_ok_def)
  then show ?thesis
    unfolding result
    by (simp add: fabric_ok_def registry_defs sides_ok_def held_def roles_def guards_def Let_def flip: F3_def F4_def)
qed

section \<open>The consumers of events\<close>

text \<open>A consumer lets go of an event it took from its lane: the guard is dropped.\<close>

definition release_event :: "nat \<Rightarrow> 'q ChannelFabric \<Rightarrow> 'q ChannelFabric" where
  "release_event i F =
     (if i < length (sent F)
      then let F1 = F\<lparr>sent := take i (sent F) @ drop (Suc i) (sent F)\<rparr> in
        case event_guard (snd (sent F ! i)) of None \<Rightarrow> F1 | Some g \<Rightarrow> drop_side g F1
      else F)"

definition release_terminal :: "nat \<Rightarrow> 'q ChannelFabric \<Rightarrow> 'q ChannelFabric" where
  "release_terminal i F =
     (if i < length (sent_terminal F)
      then drop_side (terminal_guard (snd (sent_terminal F ! i)))
             (F\<lparr>sent_terminal := take i (sent_terminal F) @ drop (Suc i) (sent_terminal F)\<rparr>)
      else F)"

lemma split_at: "i < length xs \<Longrightarrow> xs = take i xs @ xs ! i # drop (Suc i) xs"
  by (rule id_take_nth_drop)

lemma release_event_ok:
  assumes "fabric_ok F"
  shows "fabric_ok (release_event i F)"
proof (cases "i < length (sent F)")
  case True
  let ?G = "F\<lparr>sent := take i (sent F) @ drop (Suc i) (sent F)\<rparr>"
  have "mset (List.map_filter f xs) = mset (List.map_filter f (take i xs @ drop (Suc i) xs)) + (case f (xs ! i) of None \<Rightarrow> {#} | Some y \<Rightarrow> {#y#})"
    if "i < length xs" for f :: "nat \<times> NativeEvent \<Rightarrow> NativePairSide option" and xs
    by (subst (1) split_at[OF that]) (simp add: List.map_filter_def split: option.split)
  from this[OF True, of "event_guard \<circ> snd"] have "held F = guard_mset (snd (sent F ! i)) + held ?G"
    by (simp add: held_def guards_def roles_def guard_mset_def ac_simps)
  then have sides: "sides_ok (guard_mset (snd (sent F ! i))) ?G"
    using fabric_okD(4)[OF assms] by (simp add: sides_ok_def roles_def)
  have "registry ?G = registry F"
    by (simp add: registry_def)
  then show ?thesis
    using fabric_ok_registry[OF assms, of ?G] fabric_ok_registry[OF assms, of "drop_side _ ?G"] sides drop_side_ok[of _ "{#}" ?G] True
    by (auto simp: release_event_def Let_def guard_mset_def split: option.split)
qed (use assms in \<open>simp add: release_event_def\<close>)

lemma release_terminal_ok:
  assumes "fabric_ok F"
  shows "fabric_ok (release_terminal i F)"
proof (cases "i < length (sent_terminal F)")
  case True
  let ?G = "F\<lparr>sent_terminal := take i (sent_terminal F) @ drop (Suc i) (sent_terminal F)\<rparr>"
  let ?g = "terminal_guard (snd (sent_terminal F ! i))"
  have "mset (map f xs) = add_mset (f (xs ! i)) (mset (map f (take i xs @ drop (Suc i) xs)))"
    if "i < length xs" for f :: "nat \<times> NativeTerminalEvent \<Rightarrow> NativePairSide" and xs
    by (subst (1) split_at[OF that]) simp
  from this[OF True, of "terminal_guard \<circ> snd"] have "held F = add_mset ?g (held ?G)"
    by (simp add: held_def guards_def roles_def)
  then have "sides_ok {#?g#} ?G"
    using fabric_okD(4)[OF assms] by (simp add: sides_ok_def roles_def)
  moreover have "registry ?G = registry F"
    by (simp add: registry_def)
  ultimately show ?thesis
    using fabric_ok_registry[OF assms, of "drop_side ?g ?G"] drop_side_ok[of ?g "{#}" ?G] True by (simp add: release_terminal_def)
qed (use assms in \<open>simp add: release_terminal_def\<close>)

end
