(* ===== verification/Channel_Reach.thy ===== *)
theory Channel_Reach
  imports Channel_Steps
begin

text \<open>
  Runs of the channel fabric: every sequence of its operations, interleaved in any way with the consumers of events,
  on lanes that behave in any way; and what holds after all of them.
\<close>

section \<open>Runs\<close>

datatype 'q fabric_op =
    Shutdown
  | Register bytes bool nat nat
  | Unregister u64
  | Listen u64 bytes bytes bytes
  | CloseListener u64 u64 u64
  | BeginConnect u64 u64 u64 u64 bytes
  | PrepareConnect u64 u64 u64 u64 u64
  | CompleteConnect u64 u64 u64 u64
  | PublishConnect u64 u64 u64 u64
  | CancelConnect u64 u64 NativeError
  | SendMessage u64 u64 NativeMessageFragment
  | SendCredit u64 u64 u64
  | SendClose u64 u64 u64
  | ResetChannel u64 u64 NativeError
  | ReleaseEvent nat
  | ReleaseTerminal nat
  | LanesChange 'q

fun fabric_apply :: "'q Lanes \<Rightarrow> 'q fabric_op \<Rightarrow> 'q ChannelFabric \<Rightarrow> 'q ChannelFabric" where
  "fabric_apply L Shutdown F = begin_shutdown F"
| "fabric_apply L (Register s x e t) F = snd (register_native_endpoint s x e t F)"
| "fabric_apply L (Unregister e) F = unregister_native_endpoint L e F"
| "fabric_apply L (Listen e s n m) F = snd (native_listen e s n m F)"
| "fabric_apply L (CloseListener e h g) F = snd (native_close_listener L e h g F)"
| "fabric_apply L (BeginConnect e h g k m) F = snd (native_begin_connect L e h g k m F)"
| "fabric_apply L (PrepareConnect e c h k n) F = snd (native_prepare_connect L e c h k n F)"
| "fabric_apply L (CompleteConnect e c h n) F = snd (native_complete_connect e c h n F)"
| "fabric_apply L (PublishConnect e c h k) F = snd (native_publish_connect L e c h k F)"
| "fabric_apply L (CancelConnect e c r) F = native_cancel_connect L e c r F"
| "fabric_apply L (SendMessage e h f) F = snd (native_send_message L e h f F)"
| "fabric_apply L (SendCredit e h n) F = snd (native_send_credit L e h n F)"
| "fabric_apply L (SendClose e h n) F = snd (native_send_close L e h n F)"
| "fabric_apply L (ResetChannel e h r) F = snd (native_reset L e h r F)"
| "fabric_apply L (ReleaseEvent i) F = release_event i F"
| "fabric_apply L (ReleaseTerminal i) F = release_terminal i F"
| "fabric_apply L (LanesChange q) F = F\<lparr>lanes := q\<rparr>"

definition fabric_run :: "'q Lanes \<Rightarrow> 'q fabric_op list \<Rightarrow> 'q ChannelFabric \<Rightarrow> 'q ChannelFabric" where
  "fabric_run L ops F = fold (fabric_apply L) ops F"

lemma fabric_run_simps [simp]:
  "fabric_run L [] F = F" "fabric_run L (op # ops) F = fabric_run L ops (fabric_apply L op F)"
  by (simp_all add: fabric_run_def)

lemma fabric_new_ok: "fabric_ok (ChannelFabric_new channels deployment q boot)"
  using admission_new_ok
  by (simp add: fabric_ok_def registry_defs ChannelFabric_new_def sides_ok_def held_def roles_def guards_def roles_ok_def
      pending_roles_def link_roles_def links_map_ok_def connect_count_def List.map_filter_def MAX_PENDING_CONNECTS_def)

lemma fabric_apply_ok: "fabric_ok F \<Longrightarrow> fabric_ok (fabric_apply L op F)"
proof (cases op)
  case (LanesChange q)
  then show "fabric_ok F \<Longrightarrow> ?thesis"
    using fabric_ok_registry[of F "F\<lparr>lanes := q\<rparr>"] fabric_okD(4)[of F] sides_ok_same[of "{#}" F "F\<lparr>lanes := q\<rparr>"]
    by (simp add: roles_def guards_def)
qed (simp_all add: begin_shutdown_ok register_ok unregister_ok listen_ok close_listener_ok begin_connect_ok prepare_ok
    complete_ok publish_ok cancel_ok send_message_ok send_credit_ok send_close_ok reset_ok release_event_ok release_terminal_ok)

lemma fabric_run_ok: "fabric_ok F \<Longrightarrow> fabric_ok (fabric_run L ops F)"
  by (induction ops arbitrary: F) (simp_all add: fabric_apply_ok)

lemmas reached_ok = fabric_run_ok[OF fabric_new_ok]

section \<open>Limits\<close>

text \<open>Pairs in progress or linked, by their connect; ends of pairs that an endpoint holds.\<close>

definition live_pairs :: "'q ChannelFabric \<Rightarrow> u64 set" where
  "live_pairs F = fst ` set (native_pending F) \<union> (le_connect_id \<circ> snd) ` set (native_links F)"

definition open_ends :: "u64 \<Rightarrow> 'q ChannelFabric \<Rightarrow> nat" where
  "open_ends ep F =
     length (filter (\<lambda>(_, p). pc_connector_endpoint p = ep) (native_pending F))
     + length (filter (\<lambda>(_, p). pc_listener_endpoint p = ep) (native_pending F))
     + length (filter (\<lambda>((owner, _), _). owner = ep) (native_links F))"

lemma live_pairs_roles: "live_pairs F = fst ` set_mset (roles F)"
proof -
  have "fst ` set_mset (pending_roles ps) = fst ` set ps" for ps
    by (induction ps) (auto simp: pending_roles_def connect_roles_def image_Un)
  moreover have "fst ` set_mset (link_roles ls) = (le_connect_id \<circ> snd) ` set ls" for ls
    by (induction ls) (auto simp: link_roles_def link_role_def)
  ultimately show ?thesis
    by (simp add: live_pairs_def roles_def image_Un)
qed

lemma open_ends_roles: "open_ends ep F = size (filter_mset (\<lambda>r. role_endpoint r = ep) (roles F))"
proof -
  have "size (filter_mset (\<lambda>r. role_endpoint r = ep) (pending_roles ps)) =
      length (filter (\<lambda>(_, p). pc_connector_endpoint p = ep) ps) + length (filter (\<lambda>(_, p). pc_listener_endpoint p = ep) ps)" for ps
    by (induction ps) (auto simp: pending_roles_def connect_roles_def)
  moreover have "size (filter_mset (\<lambda>r. role_endpoint r = ep) (link_roles ls)) = length (filter (\<lambda>((owner, _), _). owner = ep) ls)" for ls
    by (induction ls) (auto simp: link_roles_def link_role_def)
  ultimately show ?thesis
    by (simp add: open_ends_def roles_def)
qed

lemma card_image_le_image:
  assumes "finite S" and "\<And>x y. x \<in> S \<Longrightarrow> y \<in> S \<Longrightarrow> g x = g y \<Longrightarrow> f x = f y"
  shows "card (f ` S) \<le> card (g ` S)"
proof -
  have "f x = f (inv_into S g (g x))" if "x \<in> S" for x
    using that by (intro assms(2)) (simp_all add: inv_into_into f_inv_into_f)
  then have "f ` S \<subseteq> (\<lambda>y. f (inv_into S g y)) ` g ` S"
    by (auto simp: image_image)
  then show ?thesis
    using assms(1) by (meson card_image_le card_mono finite_imageI order_trans)
qed

lemma live_pairs_charged:
  assumes "fabric_ok F"
  shows "card (live_pairs F) \<le> unat (active_pairs (adm F))"
proof -
  have sides: "admission_ok (held F) (adm F)" "roles_ok (roles F) (adm F)"
    using fabric_okD(4)[OF assms] by (simp_all add: sides_ok_def)
  have "card (live_pairs F) \<le> card ((\<lambda>r. ps_reservation (role_side r)) ` set_mset (roles F))"
    unfolding live_pairs_roles
  proof (rule card_image_le_image)
    fix r r' assume "r \<in># roles F" "r' \<in># roles F" "ps_reservation (role_side r) = ps_reservation (role_side r')"
    then show "fst r = fst r'"
      using sides(2) unfolding roles_ok_def by blast
  qed simp
  also have "\<dots> \<le> card (set_mset (image_mset ps_reservation (held F)))"
    by (rule card_mono) (auto dest: roles_held)
  also have "\<dots> = unat (active_pairs (adm F))"
    using sides(1) by (intro live_pairs_le) (simp add: admission_ok_def)
  finally show ?thesis .
qed

lemma distinct_by_count:
  assumes "\<And>a. count (mset xs) a \<le> 1"
  shows "distinct xs"
  unfolding distinct_count_atmost_1
proof
  fix a
  have "a \<in> set xs \<Longrightarrow> 0 < count (mset xs) a" "a \<notin> set xs \<Longrightarrow> count (mset xs) a = 0"
    by simp_all
  then show "count (mset xs) a = (if a \<in> set xs then 1 else 0)"
    using assms[of a] by (metis One_nat_def Suc_leI antisym)
qed

lemma open_ends_charged:
  assumes "fabric_ok F"
  shows "open_ends ep F \<le> unat (slot_count (adm F) ep)"
proof -
  have sides: "admission_ok (held F) (adm F)" "roles_ok (roles F) (adm F)"
    using fabric_okD(4)[OF assms] by (simp_all add: sides_ok_def)
  obtain rs where rs: "mset rs = filter_mset (\<lambda>r. role_endpoint r = ep) (roles F)"
    using ex_mset by blast
  have count: "count (mset (map (ps_slot \<circ> role_side) rs)) i \<le> 1" for i
  proof -
    have "mset (map (ps_slot \<circ> role_side) rs) \<subseteq># image_mset (ps_slot \<circ> role_side) (roles F)"
      using rs by (simp add: image_mset_subseteq_mono)
    from mset_subset_eq_count[OF this] show ?thesis
      using sides(2) order_trans unfolding roles_ok_def by blast
  qed
  have "distinct (map (ps_slot \<circ> role_side) rs)"
    using count by (rule distinct_by_count)
  moreover have "map_option fst (map_of (slot_arcs (adm F)) i) = Some ep" if "i \<in> set (map (ps_slot \<circ> role_side) rs)" for i
  proof -
    obtain r where r: "r \<in> set rs" "i = ps_slot (role_side r)"
      using \<open>i \<in> _\<close> by auto
    then have "r \<in># filter_mset (\<lambda>r. role_endpoint r = ep) (roles F)"
      by (simp flip: rs)
    then have "r \<in># roles F" "role_endpoint r = ep"
      by simp_all
    then show ?thesis
      using sides(2) r(2) unfolding roles_ok_def slot_owner_def by blast
  qed
  ultimately have "length (map (ps_slot \<circ> role_side) rs) \<le> unat (slot_count (adm F) ep)"
    using sides(1) by (intro owned_slots_le) (auto simp: admission_ok_def)
  then show ?thesis
    using arg_cong[OF rs, of size] by (simp add: open_ends_roles)
qed

text \<open>What the invariant says of the limits.\<close>

lemma within_the_limits:
  assumes "fabric_ok F"
  shows "card (live_pairs F) \<le> unat (lim_connected_pairs (limits F))
     \<and> (\<forall>ep. open_ends ep F \<le> unat (lim_handles_per_endpoint (limits F)))
     \<and> unat (reserved_window_bytes (adm F)) = 2097152 * unat (active_pairs (adm F))
     \<and> reserved_window_bytes (adm F) \<le> lim_buffer_bytes (limits F)
     \<and> length (listeners F) \<le> unat (lim_listeners (limits F))
     \<and> (\<forall>ep. listener_count ep F \<le> min (unat (lim_listeners_per_endpoint (limits F))) 32)
     \<and> (\<forall>ep. connect_count ep (native_pending F) \<le> 32)"
proof (intro conjI allI)
  have adm: "within_limits (limits F) (adm F)" "pairs_ok (image_mset ps_reservation (held F)) (adm F)"
    using fabric_okD(4)[OF assms] by (simp_all add: sides_ok_def admission_ok_def)
  show "card (live_pairs F) \<le> unat (lim_connected_pairs (limits F))"
    using live_pairs_charged[OF assms] adm(1) by (simp add: within_limits_def word_le_nat_alt)
  show "open_ends ep F \<le> unat (lim_handles_per_endpoint (limits F))" for ep
    using open_ends_charged[OF assms, of ep] adm(1) unfolding within_limits_def word_le_nat_alt by (meson order_trans)
  show "unat (reserved_window_bytes (adm F)) = 2097152 * unat (active_pairs (adm F))"
    using adm(2) by (simp add: pairs_ok_def PAIR_WINDOW_def FLOW_WINDOW_BYTES_def)
  show "reserved_window_bytes (adm F) \<le> lim_buffer_bytes (limits F)"
    using adm(1) by (simp add: within_limits_def)
  show "length (listeners F) \<le> unat (lim_listeners (limits F))"
    using fabric_okD(6)[OF assms] by (simp add: listeners_ok_def)
  have "listener_count ep F \<le> unat (min (lim_listeners_per_endpoint (limits F)) MAX_LISTENERS_PER_SESSION)" for ep
    using fabric_okD(6)[OF assms] by (simp add: listeners_ok_def)
  then show "listener_count ep F \<le> min (unat (lim_listeners_per_endpoint (limits F))) 32" for ep
    by (auto simp: min_def word_le_nat_alt MAX_LISTENERS_PER_SESSION_def split: if_splits)
  show "connect_count ep (native_pending F) \<le> 32" for ep
    using fabric_okD(7)[OF assms] by (simp add: pending_connects_ok_def MAX_PENDING_CONNECTS_def)
qed

section \<open>What only moves forward\<close>

text \<open>The listeners and settings, without the connects and links.\<close>

definition listening_part :: "'q ChannelFabric \<Rightarrow> unit ChannelFabric" where
  "listening_part F = (registry F)\<lparr>native_links := [], native_pending := [], next_native_connect := 0\<rparr>"

lemma listening_part_frame [simp]:
  "listening_part (clone_side s F) = listening_part F" "listening_part (drop_side s F) = listening_part F"
  "listening_part (snd (deliver L lane ev F)) = listening_part F" "listening_part (deliver_terminal L lane tev F) = listening_part F"
  "listening_part (F\<lparr>native_links := x\<rparr>) = listening_part F" "listening_part (F\<lparr>native_pending := y\<rparr>) = listening_part F"
  "listening_part (F\<lparr>adm := a\<rparr>) = listening_part F" "listening_part (F\<lparr>lanes := q\<rparr>) = listening_part F"
  "listening_part (F\<lparr>sent := z\<rparr>) = listening_part F" "listening_part (F\<lparr>sent_terminal := w\<rparr>) = listening_part F"
  "listening_part (F\<lparr>next_native_connect := n\<rparr>) = listening_part F"
  by (simp_all add: listening_part_def, simp_all add: registry_def)

lemma with_clone_listening:
  "(\<And>G. listening_part (snd (body G)) = listening_part G) \<Longrightarrow> listening_part (snd (with_clone s body F)) = listening_part F"
  by (simp add: with_clone_def case_prod_beta)

lemma deliver_listening: "deliver L lane ev F = (b, G) \<Longrightarrow> listening_part G = listening_part F"
  using listening_part_frame(3)[of L lane ev F] by simp

lemma connect_ops_listening:
  "listening_part (native_cancel_connect L ep c r F) = listening_part F"
  "listening_part (snd (native_reset L ep ch r F)) = listening_part F"
  "listening_part (snd (native_begin_connect L ep h g credit metadata F)) = listening_part F"
  "listening_part (snd (native_prepare_connect L ep c ch credit n F)) = listening_part F"
  "listening_part (snd (native_complete_connect ep c ch n F)) = listening_part F"
  "listening_part (snd (route L e ev F)) = listening_part F"
  "listening_part (close_output k e F) = listening_part F"
  "listening_part (release_event i F) = listening_part F" "listening_part (release_terminal i F) = listening_part F"
proof -
  show "listening_part (native_cancel_connect L ep c r F) = listening_part F"
    by (simp add: native_cancel_connect_def abort_role_def split: option.split)
  show "listening_part (snd (native_reset L ep ch r F)) = listening_part F"
    by (simp add: native_reset_def Let_def split: option.split)
  show "listening_part (snd (native_begin_connect L ep h g credit metadata F)) = listening_part F"
    by (cases rule: begin_connect_cases[of L ep h g credit metadata F])
      (auto simp: charged_def dest!: deliver_listening split: prod.splits bool.splits)
  show "listening_part (snd (native_prepare_connect L ep c ch credit n F)) = listening_part F"
    by (auto simp: native_prepare_connect_def dest!: deliver_listening split: option.split prod.splits bool.splits)
  show "listening_part (snd (native_complete_connect ep c ch n F)) = listening_part F"
    by (simp add: native_complete_connect_def split: option.split)
  show "listening_part (snd (route L e ev F)) = listening_part F"
    by (auto simp: route_def peer_side_def dest!: deliver_listening split: option.split prod.splits bool.splits)
  show "listening_part (close_output k e F) = listening_part F"
    by (simp add: close_output_def Let_def split: option.split)
  show "listening_part (release_event i F) = listening_part F" "listening_part (release_terminal i F) = listening_part F"
    by (simp_all add: release_event_def release_terminal_def Let_def split: option.split)
qed

lemma link_ops_listening:
  "listening_part (snd (native_publish_connect L ep c ch credit F)) = listening_part F"
  "listening_part (snd (native_send_message L ep ch f F)) = listening_part F"
  "listening_part (snd (native_send_credit L ep ch n F)) = listening_part F"
  "listening_part (snd (native_send_close L ep ch n F)) = listening_part F"
proof -
  have "listening_part (snd (publish_link L ep c ch credit e G)) = listening_part G" for e G
    by (auto simp: publish_link_def Let_def connect_ops_listening dest!: deliver_listening split: option.split prod.splits bool.splits)
  then show "listening_part (snd (native_publish_connect L ep c ch credit F)) = listening_part F"
    by (simp add: native_publish_connect_def with_clone_listening split: option.split)
  show "listening_part (snd (native_send_message L ep ch f F)) = listening_part F"
    "listening_part (snd (native_send_credit L ep ch n F)) = listening_part F"
    by (auto simp: native_send_message_def native_send_credit_def connect_ops_listening intro!: with_clone_listening split: option.split)
  have "listening_part G' = listening_part G" if "route L e ev G = (x, G')" for e ev G x G'
    using connect_ops_listening(6)[of L e ev G] that by simp
  then have "listening_part (snd (close_link L k n e G)) = listening_part G" for k e G
    by (auto simp: close_link_def connect_ops_listening split: prod.splits sum.splits)
  then show "listening_part (snd (native_send_close L ep ch n F)) = listening_part F"
    by (simp add: native_send_close_def with_clone_listening split: option.split)
qed

definition later :: "'q ChannelFabric \<Rightarrow> 'q ChannelFabric \<Rightarrow> bool" where
  "later F G \<longleftrightarrow>
     limits G = limits F \<and> next_listener_handle F \<le> next_listener_handle G
     \<and> (\<forall>h. h < next_listener_handle F \<longrightarrow> map_of (listeners F) h = None \<longrightarrow> map_of (listeners G) h = None)"

lemma later_refl: "later F F"
  by (simp add: later_def)

lemma later_trans: "later F G \<Longrightarrow> later G H \<Longrightarrow> later F H"
  unfolding later_def by (metis order_less_le_trans order_trans)

lemma later_same:
  assumes "listening_part G = listening_part F"
  shows "later F G"
  using arg_cong[OF assms, of limits] arg_cong[OF assms, of next_listener_handle] arg_cong[OF assms, of listeners]
  by (simp add: later_def listening_part_def registry_def)

lemma later_fold: "(\<And>x F. later F (f x F)) \<Longrightarrow> later F (fold f xs F)"
  by (induction xs arbitrary: F) (auto intro: later_refl later_trans)

lemma later_remove_listener: "later F (remove_listener h F)"
proof -
  have "limits (remove_listener h F) = limits F" "next_listener_handle (remove_listener h F) = next_listener_handle F"
    by (simp_all add: remove_listener_def bump_revision_def Let_def split: option.split)
  then show ?thesis
    by (simp add: later_def remove_listener_listeners)
qed

lemma later_listen: "later F (snd (native_listen ep session name metadata F))"
proof (cases rule: native_listen_cases[of ep session name metadata F])
  case (refused e)
  then show ?thesis
    by (simp add: later_refl)
next
  case (opened owner r h g r1)
  have "limits (snd (native_listen ep session name metadata F)) = limits F"
    "next_listener_handle (snd (native_listen ep session name metadata F)) = h"
    "map_of (listeners (snd (native_listen ep session name metadata F))) k = map_of (listeners F) k" if "k \<noteq> next_listener_handle F" for k
    using that by (simp_all add: opened(1) update_conv', simp_all add: bump_revision_def Let_def)
  then show ?thesis
    using opened(12) unfolding later_def
    by (metis less_imp_le less_irrefl)
qed

lemma later_unregister: "later F (unregister_native_endpoint L ep F)"
proof -
  have cancel: "later F (fold (\<lambda>c. native_cancel_connect L ep c Unavailable) cs F)" for cs F
    by (intro later_fold later_same connect_ops_listening)
  have reset: "later F (fold (\<lambda>h F. snd (native_reset L ep h Unavailable F)) hs F)" for hs F
    by (intro later_fold later_same connect_ops_listening)
  have field: "later F (F\<lparr>native_endpoints := x\<rparr>)" "later F (F\<lparr>next_registry_id := y\<rparr>)" for x y F
    by (simp_all add: later_def)
  have remove: "later F (fold remove_listener hs F)" for hs F
    by (intro later_fold later_remove_listener)
  show ?thesis
    unfolding unregister_native_endpoint_def Let_def
    by (rule later_trans[OF later_trans[OF later_trans[OF later_trans[OF cancel reset] field(1)] remove] field(2)])
qed

lemma later_close_listener: "later F (snd (native_close_listener L ep h g F))"
proof -
  have "later F (fold (\<lambda>c. native_cancel_connect L ep c NotFound) cs (remove_listener h F))" for cs
    by (rule later_trans[OF later_remove_listener[of F h]]) (intro later_fold later_same connect_ops_listening)
  then show ?thesis
    by (simp add: native_close_listener_def Let_def later_refl split: option.split)
qed

lemma later_apply: "later F (fabric_apply L op F)"
  by (cases op) (simp_all add: later_same connect_ops_listening link_ops_listening later_listen later_unregister later_close_listener,
      simp_all add: later_def begin_shutdown_def register_native_endpoint_def Let_def split: option.split)

lemma later_run: "later F (fabric_run L ops F)"
  unfolding fabric_run_def by (intro later_fold later_apply)

lemma limits_kept: "limits (fabric_run L ops F) = limits F"
  using later_run[of F L ops] by (simp add: later_def)

text \<open>Where an event goes.\<close>

lemma route_registry: "registry (snd (route L e ev F)) = registry F"
proof -
  have "registry H = registry G" if "deliver L lane v G = (b, H)" for lane v b and G H :: "'a ChannelFabric"
    using registry_frame(3)[of L lane v G] that by simp
  then show ?thesis
    by (auto simp: route_def peer_side_def split: option.split prod.splits bool.splits)
qed

lemma route_result:
  assumes "map_of (native_links F) (peer_key e) = Some e'" and "map_of (native_endpoints F) (le_peer_endpoint e) = Some t"
    and "\<And>g. event_guard (ev g) = Some g"
  shows "case route L e ev F of
       (Inl _, G) \<Rightarrow> sent G = sent F \<and> sent_terminal G = sent_terminal F
     | (Inr _, G) \<Rightarrow> sent G = sent F @ [(ne_events t, ev (le_side e'))] \<and> sent_terminal G = sent_terminal F"
  using assms by (auto simp: route_def peer_side_def deliver_def split: option.split)

lemma message_routed:
  assumes "fabric_ok F"
  shows "case native_send_message L ep ch fragment F of
     (Inl e, G) \<Rightarrow> registry G = registry F \<and> sent G = sent F \<and> sent_terminal G = sent_terminal F
   | (Inr _, G) \<Rightarrow>
       registry G = registry F \<and> sent_terminal G = sent_terminal F \<and> length (mf_data fragment) \<le> 16777216
       \<and> (\<exists>e e' t. map_of (native_links F) (ep, ch) = Some e \<and> le_published e \<and> \<not> le_output_closed e
            \<and> map_of (native_links F) (peer_key e) = Some e' \<and> peer_key e' = (ep, ch) \<and> le_published e'
            \<and> map_of (native_endpoints F) (le_peer_endpoint e) = Some t
            \<and> sent G = sent F @ [(ne_events t, Message (le_peer_channel_handle e) fragment (le_side e'))])"
proof (cases "map_of (native_links F) (ep, ch)")
  case None
  then show ?thesis
    by (simp add: native_send_message_def)
next
  case (Some e)
  note links = fabric_okD(8)[OF assms]
  have "links_map_ok (map_of (native_links F))"
    using links by (simp add: links_ok_def)
  then obtain e' where e': "map_of (native_links F) (peer_key e) = Some e'" "peer_key e' = (ep, ch)" "le_published e' = le_published e"
    using pairedE[of "map_of (native_links F)" "(ep, ch)" e] Some by metis
  from links_okD(3)[OF links this(1)] obtain t where t: "map_of (native_endpoints F) (le_peer_endpoint e) = Some t"
    by (auto simp: peer_key_def)
  let ?F = "clone_side (le_side e) F"
  have routed: "case route L e (Message (le_peer_channel_handle e) fragment) ?F of
       (Inl _, G) \<Rightarrow> sent G = sent F \<and> sent_terminal G = sent_terminal F
     | (Inr _, G) \<Rightarrow> sent G = sent F @ [(ne_events t, Message (le_peer_channel_handle e) fragment (le_side e'))]
         \<and> sent_terminal G = sent_terminal F"
    using route_result[of ?F e e' t "Message (le_peer_channel_handle e) fragment" L] e'(1) t
    unfolding clone_side_simps by simp
  have "registry (snd (route L e (Message (le_peer_channel_handle e) fragment) ?F)) = registry F"
    by (simp add: route_registry)
  then show ?thesis
    using Some t e' routed by (auto simp: native_send_message_def with_clone_def MAX_MESSAGE_BYTES_def split: prod.splits sum.splits)
qed

lemma listener_names_iff:
  assumes "listeners_ok F"
  shows "map_of (listener_names F) n = Some h \<longleftrightarrow> (\<exists>l. map_of (listeners F) h = Some l \<and> li_name l = n)"
  using assms unfolding listeners_ok_def listener_ok_def by blast

lemma unregister_effect:
  assumes "fabric_ok F"
  shows "map_of (native_endpoints (unregister_native_endpoint L ep F)) = (map_of (native_endpoints F))(ep := None)
     \<and> map_of (next_registry_id (unregister_native_endpoint L ep F)) ep = None
     \<and> (\<forall>c p. map_of (native_pending (unregister_native_endpoint L ep F)) c = Some p \<longleftrightarrow>
          map_of (native_pending F) c = Some p \<and> pc_connector_endpoint p \<noteq> ep \<and> pc_listener_endpoint p \<noteq> ep)
     \<and> (\<forall>k e. map_of (native_links (unregister_native_endpoint L ep F)) k = Some e \<longleftrightarrow>
          map_of (native_links F) k = Some e \<and> fst k \<noteq> ep \<and> le_peer_endpoint e \<noteq> ep)
     \<and> (\<forall>h l. map_of (listeners (unregister_native_endpoint L ep F)) h = Some l \<longleftrightarrow> map_of (listeners F) h = Some l \<and> li_endpoint l \<noteq> ep)
     \<and> (\<forall>n h. map_of (listener_names (unregister_native_endpoint L ep F)) n = Some h \<longleftrightarrow>
          (\<exists>l. map_of (listeners F) h = Some l \<and> li_name l = n \<and> li_endpoint l \<noteq> ep))"
proof (rule unregister_stages[OF assms, of ep L])
  fix F2 hs
  assume F2: "fabric_ok F2" "listeners F2 = listeners F" "native_endpoints F2 = native_endpoints F"
    and pending: "\<And>c p. map_of (native_pending F2) c = Some p \<longleftrightarrow>
       map_of (native_pending F) c = Some p \<and> pc_connector_endpoint p \<noteq> ep \<and> pc_listener_endpoint p \<noteq> ep"
    and links: "\<And>k e. map_of (native_links F2) k = Some e \<longleftrightarrow>
       map_of (native_links F) k = Some e \<and> fst k \<noteq> ep \<and> le_peer_endpoint e \<noteq> ep"
    and hs: "\<And>h l. map_of (listeners F) h = Some l \<Longrightarrow> h \<in> set hs \<longleftrightarrow> li_endpoint l = ep"
    and result: "unregister_native_endpoint L ep F =
       (let F4 = fold remove_listener hs (F2\<lparr>native_endpoints := AList.delete ep (native_endpoints F2)\<rparr>)
        in F4\<lparr>next_registry_id := AList.delete ep (next_registry_id F4)\<rparr>)"
  let ?G = "unregister_native_endpoint L ep F"
  note removed = remove_listeners(1-4)[of hs "F2\<lparr>native_endpoints := AList.delete ep (native_endpoints F2)\<rparr>"]
  have "map_of (native_endpoints ?G) = (map_of (native_endpoints F))(ep := None)" "map_of (next_registry_id ?G) ep = None"
    "native_pending ?G = native_pending F2" "native_links ?G = native_links F2"
    using removed F2(3) by (simp_all add: result Let_def delete_conv')
  moreover have listener: "map_of (listeners ?G) h = Some l \<longleftrightarrow> map_of (listeners F) h = Some l \<and> li_endpoint l \<noteq> ep" for h l
    using removed(1) F2(2) hs[of h l] by (auto simp: result Let_def restrict_map_def)
  moreover have "map_of (listener_names ?G) n = Some h \<longleftrightarrow>
      (\<exists>l. map_of (listeners F) h = Some l \<and> li_name l = n \<and> li_endpoint l \<noteq> ep)" for n h
    unfolding listener_names_iff[OF fabric_okD(6)[OF unregister_ok[OF assms]]] listener by blast
  ultimately show ?thesis
    using pending links by simp
qed

lemma reset_effect:
  assumes "fabric_ok F" and "map_of (native_links F) (ep, ch) = Some e"
  obtains e' t where "map_of (native_links F) (peer_key e) = Some e'" "peer_key e' = (ep, ch)"
    "map_of (native_endpoints F) (le_peer_endpoint e) = Some t" "fst (native_reset L ep ch reason F) = Inr ()"
    "map_of (native_links (snd (native_reset L ep ch reason F))) = (map_of (native_links F))((ep, ch) := None, peer_key e := None)"
    "sent (snd (native_reset L ep ch reason F)) = sent F"
    "sent_terminal (snd (native_reset L ep ch reason F)) =
       (case send_terminal L (lanes F) (ne_terminal_events t) (TerminalReset (le_peer_channel_handle e) reason (le_side e')) of
          None \<Rightarrow> sent_terminal F
        | Some _ \<Rightarrow> sent_terminal F @ [(ne_terminal_events t, TerminalReset (le_peer_channel_handle e) reason (le_side e'))])"
proof -
  have links: "links_ok F" "links_map_ok (map_of (native_links F))"
    using fabric_okD(8)[OF assms(1)] by (simp_all add: links_ok_def)
  obtain e' where e': "map_of (native_links F) (peer_key e) = Some e'" "peer_key e' = (ep, ch)" "peer_key e \<noteq> (ep, ch)"
    using pairedE[OF links(2) assms(2)] by metis
  then obtain t where t: "map_of (native_endpoints F) (le_peer_endpoint e) = Some t"
    using links_okD(3)[OF links(1) e'(1)] by (auto simp: peer_key_def)
  show thesis
  proof (rule that[OF e'(1,2) t])
    show "map_of (native_links (snd (native_reset L ep ch reason F))) = (map_of (native_links F))((ep, ch) := None, peer_key e := None)"
      using arg_cong[OF reset_registry[of L ep ch reason F], of native_links] assms(2) by (simp add: registry_def delete_conv')
  qed (use assms(2) e' t in \<open>simp_all add: native_reset_def Let_def delete_conv' deliver_terminal_def split: option.split\<close>)
qed

lemma sorted_key_strict: "distinct (map f xs) \<Longrightarrow> sorted_wrt (<) (map f (sort_key f xs))"
  by (intro strict_sorted_iff[THEN iffD2] conjI) (simp_all add: distinct_map inj_on_def)

text \<open>Nothing held, nothing charged.\<close>

lemma arcs_ok_empty: "arcs_ok {#} h \<Longrightarrow> h = []"
proof (cases h)
  case (Cons x h')
  obtain i a n where x: "x = (i, a, n)"
    by (cases x)
  assume ok: "arcs_ok {#} h"
  then have "count {#} i = (case map_of h i of None \<Rightarrow> 0 | Some (_, n) \<Rightarrow> n)"
    unfolding arcs_ok_def by blast
  moreover have "(i, a, n) \<in> set h"
    by (simp add: Cons x)
  with ok have "0 < n"
    unfolding arcs_ok_def by blast
  ultimately show ?thesis
    by (simp add: Cons x)
qed

lemma nothing_held:
  assumes "admission_ok {#} A"
  shows "active_pairs A = 0" "reserved_window_bytes A = 0" "endpoint_slots A = []"
proof -
  have "arcs_ok {#} (pair_arcs A)" "arcs_ok {#} (slot_arcs A)"
    using assms by (simp_all add: admission_ok_def pairs_ok_def slots_ok_def)
  then have "pair_arcs A = []" "slot_arcs A = []"
    by (simp_all add: arcs_ok_empty)
  then show "active_pairs A = 0" "reserved_window_bytes A = 0"
    using assms by (simp_all add: admission_ok_def pairs_ok_def unat_eq_zero)
  have "map_of (endpoint_slots A) e = None" for e
    using assms \<open>slot_arcs A = []\<close> unfolding admission_ok_def slots_ok_def
    by (cases "map_of (endpoint_slots A) e") (auto simp: slot_count_def arc_values_def unat_eq_zero split: option.splits)
  then show "endpoint_slots A = []"
    by (cases "endpoint_slots A") (fastforce split: if_splits)+
qed

lemma catalogue_ok:
  assumes "fabric_ok F"
  shows "sorted_wrt (<) (map nl_listener_handle (nc_listeners (native_catalogue F)))
     \<and> distinct (map nl_name (nc_listeners (native_catalogue F)))
     \<and> set (nc_listeners (native_catalogue F)) = native_of ` ran (map_of (listeners F))
     \<and> nc_revision (native_catalogue F) = native_revision_receiver F \<and> nc_revision (native_catalogue F) \<noteq> 0"
proof -
  have ok: "distinct (map fst (listeners F))" "\<And>h l. map_of (listeners F) h = Some l \<Longrightarrow> listener_ok F h l"
    using fabric_okD(6)[OF assms] unfolding listeners_ok_def by blast+
  have entry: "li_listener_handle (snd x) = fst x" "map_of (listener_names F) (li_name (snd x)) = Some (fst x)"
    if "x \<in> set (listeners F)" for x
    using ok(2)[OF map_of_is_SomeI[OF ok(1), of "fst x" "snd x"]] that by (simp_all add: listener_ok_def)
  let ?ns = "map (native_of \<circ> snd) (listeners F)"
  have "map nl_listener_handle ?ns = map fst (listeners F)"
    using entry(1) by (simp add: native_of_def)
  then have sorted: "sorted_wrt (<) (map nl_listener_handle (sort_key nl_listener_handle ?ns))"
    using ok(1) by (intro sorted_key_strict) (simp only:)
  have "inj_on (\<lambda>x. li_name (snd x)) (set (listeners F))"
    using entry(2) ok(1) by (intro inj_onI) (metis eq_key_imp_eq_value option.inject prod.collapse)
  moreover have "distinct (listeners F)"
    using ok(1) by (simp add: distinct_map)
  ultimately have "distinct (map nl_name ?ns)"
    by (simp add: distinct_map native_of_def o_def)
  then have "distinct (map nl_name (sort_key nl_listener_handle ?ns))"
    using mset_eq_imp_distinct_iff[of "map nl_name (sort_key nl_listener_handle ?ns)" "map nl_name ?ns"] by (simp only: mset_map mset_sort)
  moreover have "set ?ns = native_of ` ran (map_of (listeners F))"
    by (simp add: ran_distinct[OF ok(1)] image_comp)
  ultimately show ?thesis
    using sorted fabric_okD(9)[OF assms] by (simp add: native_catalogue_def native_revision_receiver_def revision_ok_def)
qed

section \<open>Properties\<close>

text \<open>
  C7: whatever sequence of operations the endpoints perform, and whatever the event lanes and their consumers do in between,
  the fabric satisfies its invariant: names and listeners correspond, generations and registry ids are unique,
  connects in progress and links belong to registered endpoints and open listeners, links come in pairs that agree, and
  the admission counters are exactly what the live sides charge.
\<close>

theorem fabric_invariant: "fabric_ok (fabric_run L ops (ChannelFabric_new channels deployment q boot))"
  by (rule reached_ok)

text \<open>
  C14: the configured limits hold in every reachable state: pairs in progress or linked, the ends an endpoint
  holds, the window bytes reserved (two megabytes for each pair charged), listeners in all and per endpoint, connects in progress
  per connector.
\<close>

theorem fabric_limits:
  "let F = fabric_run L ops (ChannelFabric_new channels deployment q boot); lim = Limits_from_env deployment in
     card (live_pairs F) \<le> unat (lim_connected_pairs lim)
     \<and> (\<forall>ep. open_ends ep F \<le> unat (lim_handles_per_endpoint lim))
     \<and> unat (reserved_window_bytes (adm F)) = 2097152 * unat (active_pairs (adm F))
     \<and> reserved_window_bytes (adm F) \<le> lim_buffer_bytes lim
     \<and> length (listeners F) \<le> unat (lim_listeners lim)
     \<and> (\<forall>ep. listener_count ep F \<le> min (unat (lim_listeners_per_endpoint lim)) 32)
     \<and> (\<forall>ep. connect_count ep (native_pending F) \<le> 32)"
proof -
  have "limits (fabric_run L ops (ChannelFabric_new channels deployment q boot)) = Limits_from_env deployment"
    by (simp add: limits_kept ChannelFabric_new_def)
  from within_the_limits[OF reached_ok, of L ops channels deployment q boot] this show ?thesis
    unfolding Let_def by simp
qed

text \<open>
  Publishing an accepted connect never hits the panic of a missing link end, in any reachable state.
\<close>

theorem publish_never_panics:
  "fst (native_publish_connect L ep c ch credit (fabric_run L ops (ChannelFabric_new channels deployment q boot))) \<noteq> None"
  by (rule publish_ok(2)[OF reached_ok])

text \<open>
  A message, when it is accepted, is one more event on the lane of the endpoint at the other end and nothing else: the link
  is published and not closed, the link at the other end points back, the event names that end's handle and is charged
  to that end's side.  A message that is refused changes neither the registry nor the lanes' contents.
\<close>

theorem message_reaches_peer:
  "let F = fabric_run L ops (ChannelFabric_new channels deployment q boot) in
   case native_send_message L ep ch fragment F of
     (Inl e, G) \<Rightarrow> registry G = registry F \<and> sent G = sent F \<and> sent_terminal G = sent_terminal F
   | (Inr _, G) \<Rightarrow>
       registry G = registry F \<and> sent_terminal G = sent_terminal F \<and> length (mf_data fragment) \<le> 16777216
       \<and> (\<exists>e e' t. map_of (native_links F) (ep, ch) = Some e \<and> le_published e \<and> \<not> le_output_closed e
            \<and> map_of (native_links F) (peer_key e) = Some e' \<and> peer_key e' = (ep, ch) \<and> le_published e'
            \<and> map_of (native_endpoints F) (le_peer_endpoint e) = Some t
            \<and> sent G = sent F @ [(ne_events t, Message (le_peer_channel_handle e) fragment (le_side e'))])"
  unfolding Let_def by (rule message_routed[OF reached_ok])

text \<open>
  C26: an endpoint that is unregistered leaves nothing behind: no connect in progress, no link of its own or towards it, no
  listener, no name of one, no registry id, and the endpoint itself is gone; everything that does not involve it stays.
\<close>

theorem unregister_forgets:
  "let F = fabric_run L ops (ChannelFabric_new channels deployment q boot); G = unregister_native_endpoint L ep F in
     map_of (native_endpoints G) = (map_of (native_endpoints F))(ep := None)
     \<and> map_of (next_registry_id G) ep = None
     \<and> (\<forall>c p. map_of (native_pending G) c = Some p \<longleftrightarrow>
          map_of (native_pending F) c = Some p \<and> pc_connector_endpoint p \<noteq> ep \<and> pc_listener_endpoint p \<noteq> ep)
     \<and> (\<forall>k e. map_of (native_links G) k = Some e \<longleftrightarrow>
          map_of (native_links F) k = Some e \<and> fst k \<noteq> ep \<and> le_peer_endpoint e \<noteq> ep)
     \<and> (\<forall>h l. map_of (listeners G) h = Some l \<longleftrightarrow> map_of (listeners F) h = Some l \<and> li_endpoint l \<noteq> ep)
     \<and> (\<forall>n h. map_of (listener_names G) n = Some h \<longleftrightarrow>
          (\<exists>l. map_of (listeners F) h = Some l \<and> li_name l = n \<and> li_endpoint l \<noteq> ep))"
  unfolding Let_def by (rule unregister_effect[OF reached_ok])

text \<open>
  A listener that was closed is closed for good: its handle is never given out again, and a connect to it is refused whatever
  happens in between.
\<close>

theorem closed_listener_stays_closed:
  assumes "F = fabric_run L ops (ChannelFabric_new channels deployment q boot)"
    and "h < next_listener_handle F" and "map_of (listeners F) h = None"
  shows "map_of (listeners (fabric_run L later_ops F)) h = None
    \<and> fst (native_begin_connect L ep h g credit metadata (fabric_run L later_ops F)) \<in> {Inl Unavailable, Inl ResourceExhausted, Inl NotFound}"
  using later_run[of F L later_ops] assms(2,3) by (simp add: later_def native_begin_connect_def)

text \<open>
  Resetting a channel retires both of its ends at once, and tells the peer on the terminal lane, which is separate
  from the data lane: however full the data lane is, the only thing that can keep the news from the peer is a closed terminal lane.
\<close>

theorem reset_tells_peer:
  "let F = fabric_run L ops (ChannelFabric_new channels deployment q boot); G = snd (native_reset L ep ch reason F) in
   case map_of (native_links F) (ep, ch) of
     None \<Rightarrow> native_reset L ep ch reason F = (Inl NotFound, F)
   | Some e \<Rightarrow> \<exists>e' t.
       fst (native_reset L ep ch reason F) = Inr ()
       \<and> map_of (native_links F) (peer_key e) = Some e' \<and> peer_key e' = (ep, ch)
       \<and> map_of (native_endpoints F) (le_peer_endpoint e) = Some t
       \<and> map_of (native_links G) = (map_of (native_links F))((ep, ch) := None, peer_key e := None)
       \<and> sent G = sent F
       \<and> sent_terminal G =
           (case send_terminal L (lanes F) (ne_terminal_events t) (TerminalReset (le_peer_channel_handle e) reason (le_side e')) of
              None \<Rightarrow> sent_terminal F
            | Some _ \<Rightarrow> sent_terminal F @ [(ne_terminal_events t, TerminalReset (le_peer_channel_handle e) reason (le_side e'))])"
proof -
  have "\<exists>e' t. fst (native_reset L ep ch reason F) = Inr ()
       \<and> map_of (native_links F) (peer_key e) = Some e' \<and> peer_key e' = (ep, ch)
       \<and> map_of (native_endpoints F) (le_peer_endpoint e) = Some t
       \<and> map_of (native_links (snd (native_reset L ep ch reason F))) = (map_of (native_links F))((ep, ch) := None, peer_key e := None)
       \<and> sent (snd (native_reset L ep ch reason F)) = sent F
       \<and> sent_terminal (snd (native_reset L ep ch reason F)) =
           (case send_terminal L (lanes F) (ne_terminal_events t) (TerminalReset (le_peer_channel_handle e) reason (le_side e')) of
              None \<Rightarrow> sent_terminal F
            | Some _ \<Rightarrow> sent_terminal F @ [(ne_terminal_events t, TerminalReset (le_peer_channel_handle e) reason (le_side e'))])"
    if "fabric_ok F" "map_of (native_links F) (ep, ch) = Some e" for e and F :: "'a ChannelFabric"
    by (rule reset_effect[OF that, of L reason]) blast
  from this[OF reached_ok] show ?thesis
    unfolding Let_def by (simp add: native_reset_def split: option.split)
qed

text \<open>
  The catalogue lists every open listener exactly once, in strictly increasing order of handles, with names that are all
  different, under the revision that watchers were last told.
\<close>

theorem catalogue_complete:
  "let F = fabric_run L ops (ChannelFabric_new channels deployment q boot); c = native_catalogue F in
     sorted_wrt (<) (map nl_listener_handle (nc_listeners c))
     \<and> distinct (map nl_name (nc_listeners c))
     \<and> set (nc_listeners c) = native_of ` ran (map_of (listeners F))
     \<and> nc_revision c = native_revision_receiver F \<and> nc_revision c \<noteq> 0"
  unfolding Let_def by (rule catalogue_ok[OF reached_ok])

text \<open>
  C25: nothing leaks.  Once no connect is in progress, no channel is linked and the consumers have let go of their
  events, no pair, no window byte and no handle slot is charged any more.
\<close>

theorem fabric_no_leak:
  assumes "F = fabric_run L ops (ChannelFabric_new channels deployment q boot)"
    and "native_pending F = []" "native_links F = []" "sent F = []" "sent_terminal F = []"
  shows "active_pairs (adm F) = 0 \<and> reserved_window_bytes (adm F) = 0 \<and> endpoint_slots (adm F) = []"
proof -
  have "held F = {#}"
    using assms(2-5) by (simp add: held_def roles_def guards_def pending_roles_def link_roles_def List.map_filter_def)
  then have "admission_ok {#} (adm F)"
    using fabric_okD(4)[OF reached_ok[of L ops channels deployment q boot], folded assms(1)] by (simp add: sides_ok_def)
  then show ?thesis
    by (simp add: nothing_held)
qed

section \<open>A run\<close>

text \<open>Two endpoints; one listens, the other connects, a message goes over, the channel is reset, every event is consumed,
  the listener is closed.\<close>

definition open_lanes :: "unit Lanes" where
  "open_lanes = \<lparr>try_send = (\<lambda>q _ _. Some q), send_terminal = (\<lambda>q _ _. Some q)\<rparr>"

definition sample_fragment :: NativeMessageFragment where
  "sample_fragment = \<lparr>mf_sequence = 0, mf_fragment_offset = 0, mf_start = True, mf_finish = True, mf_data = [104, 105]\<rparr>"

definition first_endpoint :: u64 where "first_endpoint = 9223372036854775808"
definition second_endpoint :: u64 where "second_endpoint = 9223372036854775809"

definition sample_ops :: "unit fabric_op list" where
  "sample_ops =
     [Register [1] False 0 1, Register [2] True 2 3, Listen first_endpoint [1] [99] [],
      BeginConnect second_endpoint 1 1 10 [], PrepareConnect first_endpoint 1 7 100 50,
      CompleteConnect second_endpoint 1 9 40, PublishConnect second_endpoint 1 9 40,
      SendMessage second_endpoint 9 sample_fragment, ResetChannel first_endpoint 7 Stale,
      ReleaseEvent 0, ReleaseEvent 0, ReleaseEvent 0, ReleaseEvent 0, ReleaseTerminal 0,
      CloseListener first_endpoint 1 1]"

definition sample_fabric :: "unit ChannelFabric" where
  "sample_fabric = fabric_run open_lanes sample_ops (ChannelFabric_new True (\<lambda>_. None) () 5)"

lemmas fabric_eval = fabric_apply.simps ChannelFabric_new_def Limits_from_env_def Limits_default_def admission_new_def
  register_native_endpoint_def native_listen_def native_begin_connect_def native_prepare_connect_def native_complete_connect_def
  native_publish_connect_def publish_link_def native_send_message_def route_def peer_side_def native_reset_def
  release_event_def release_terminal_def native_close_listener_def remove_listener_def bump_revision_def
  registry_id_candidate_def registry_search.simps listener_count_def valid_name_def native_of_def
  with_clone_def deliver_def deliver_terminal_def clone_side_def drop_side_def side_clone_def side_drop_def drop_pair_def drop_slot_def
  arc_clone_def arc_drop_def PairReservationInner_drop_def HandleSlotReservationInner_drop_def peer_key_def
  reserve_pair_def reserve_handle_slots_def new_slot_def slot_count_def exceeds_def checked_add_def Let_def
  FLOW_WINDOW_BYTES_def DEFAULT_MAX_LISTEN_PER_CLIENT_def DEFAULT_MAX_LISTENERS_def DEFAULT_MAX_PER_CLIENT_def
  DEFAULT_MAX_CONNECTED_def DEFAULT_BUFFER_MAX_def CHANNEL_MAX_NAME_BYTES_def MAX_METADATA_BYTES_def MAX_LISTENERS_PER_SESSION_def
  MAX_PENDING_CONNECTS_def MAX_MESSAGE_BYTES_def open_lanes_def sample_fragment_def first_endpoint_def second_endpoint_def

lemma sample_fabric_state:
  "native_pending sample_fabric = [] \<and> native_links sample_fabric = [] \<and> sent sample_fabric = [] \<and> sent_terminal sample_fabric = []
    \<and> listeners sample_fabric = [] \<and> next_listener_handle sample_fabric = 2"
  by (simp add: sample_fabric_def sample_ops_def fabric_eval)

text \<open>After the first eight operations the pair is linked, published and charged.\<close>

lemma sample_linked:
  "let F = fabric_run open_lanes (take 8 sample_ops) (ChannelFabric_new True (\<lambda>_. None) () 5) in
     length (native_links F) = 2 \<and> length (sent F) = 4 \<and> active_pairs (adm F) = 1 \<and> reserved_window_bytes (adm F) = 2097152
     \<and> live_pairs F = {1} \<and> open_ends second_endpoint F = 1"
  by (simp add: sample_ops_def fabric_eval live_pairs_def open_ends_def)

theorem closed_listener_stays_closed_witness:
  "map_of (listeners (fabric_run open_lanes [Listen first_endpoint [1] [99] []] sample_fabric)) 1 = None
    \<and> fst (native_begin_connect open_lanes second_endpoint 1 1 10 [] (fabric_run open_lanes [Listen first_endpoint [1] [99] []] sample_fabric))
        \<in> {Inl Unavailable, Inl ResourceExhausted, Inl NotFound}"
  using closed_listener_stays_closed[OF sample_fabric_def, of 1 "[Listen first_endpoint [1] [99] []]" second_endpoint 1 10 "[]"]
    sample_fabric_state by simp

theorem fabric_no_leak_witness:
  "active_pairs (adm sample_fabric) = 0 \<and> reserved_window_bytes (adm sample_fabric) = 0 \<and> endpoint_slots (adm sample_fabric) = []"
  using fabric_no_leak[OF sample_fabric_def] sample_fabric_state by simp

end
