(* ===== verification/Ordered_Map.thy ===== *)
theory Ordered_Map
  imports Yas_Prelude "HOL-Library.List_Lexorder" "HOL-Library.Product_Lexorder" "HOL-Library.Sublist"
begin

text \<open>
  \<^verbatim>\<open>std::collections::BTreeMap\<close>: a map with its entries in the order of the keys.  A map is the list of its
  entries, with strictly increasing keys, so that two maps with the same lookups are equal.  Byte strings are
  ordered lexicographically, as \<^verbatim>\<open>Ord\<close> of \<^verbatim>\<open>Vec<u8>\<close> and \<^verbatim>\<open>[u8; N]\<close> is.
\<close>

section \<open>Sorted entries\<close>

definition ordered :: "('k::linorder \<times> 'v) list \<Rightarrow> bool" where
  "ordered xs \<longleftrightarrow> sorted_wrt (<) (map fst xs)"

fun place :: "'k::linorder \<Rightarrow> 'v \<Rightarrow> ('k \<times> 'v) list \<Rightarrow> ('k \<times> 'v) list" where
  "place k v [] = [(k, v)]"
| "place k v (e # es) = (if fst e < k then e # place k v es else if fst e = k then (k, v) # es else (k, v) # e # es)"

lemma fst_place: "fst ` set (place k v es) = insert k (fst ` set es)"
  by (induction es) auto

lemma ordered_place: "ordered es \<Longrightarrow> ordered (place k v es)"
proof (induction es)
  case (Cons e es)
  have "\<forall>x \<in> set (place k v es). fst e < fst x" if "fst e < k"
  proof -
    have "fst ` set (place k v es) \<subseteq> {x. fst e < x}"
      using Cons.prems that by (auto simp: fst_place ordered_def)
    then show ?thesis
      by auto
  qed
  with Cons show ?case
    by (auto simp: ordered_def)
qed (simp add: ordered_def)

lemma ordered_filter: "ordered es \<Longrightarrow> ordered (filter P es)"
  by (simp add: ordered_def sorted_wrt_map sorted_wrt_filter)

lemma ordered_distinct: "ordered es \<Longrightarrow> distinct (map fst es)"
  by (simp add: ordered_def strict_sorted_iff)

lemma map_of_place: "ordered es \<Longrightarrow> map_of (place k v es) = (map_of es)(k \<mapsto> v)"
proof (induction es)
  case (Cons e es)
  have "map_of es k = None" if "k < fst e"
  proof -
    have "k \<notin> fst ` set es"
      using that Cons.prems by (force simp: ordered_def)
    then show ?thesis
      by (simp add: map_of_eq_None_iff)
  qed
  with Cons show ?case
    by (cases e) (auto simp: ordered_def fun_eq_iff)
qed simp

lemma map_of_filter_key: "map_of (filter (\<lambda>e. fst e \<noteq> k) es) = (map_of es)(k := None)"
  by (induction es) (auto simp: fun_eq_iff)

lemma map_of_filter_pair:
  "distinct (map fst es) \<Longrightarrow>
    map_of (filter (\<lambda>(k, v). P k v) es) k = (case map_of es k of None \<Rightarrow> None | Some v \<Rightarrow> if P k v then Some v else None)"
proof (induction es)
  case (Cons e es)
  then have "map_of es (fst e) = None"
    by (simp add: map_of_eq_None_iff)
  with Cons show ?case
    by (cases e) auto
qed simp

lemma map_of_map_snd: "map_of (map (\<lambda>(k, v). (k, f v)) es) k = map_option f (map_of es k)"
  by (induction es) auto

lemma ordered_unique:
  assumes "ordered xs" "ordered ys" "map_of xs = map_of ys"
  shows "xs = ys"
proof -
  have "set (map fst xs) = set (map fst ys)"
    using arg_cong[OF assms(3), of dom] by (simp add: dom_map_of_conv_image_fst)
  then have keys: "map fst xs = map fst ys"
    using assms(1,2) unfolding ordered_def by (simp add: strict_sorted_equal)
  have all: "zs = map (\<lambda>k. (k, the (map_of zs k))) (map fst zs)" if "ordered zs" for zs :: "('a \<times> 'b) list"
    using ordered_distinct[OF that] by (auto intro!: map_idI[symmetric] simp: comp_def)
  show ?thesis
    using all[OF assms(1)] all[OF assms(2)] keys assms(3) by metis
qed

section \<open>The map\<close>

typedef (overloaded) ('k::linorder, 'v) BTreeMap = "{es :: ('k \<times> 'v) list. ordered es}"
  morphisms entries Abs_BTreeMap
  by (rule exI[of _ "[]"]) (simp add: ordered_def)

setup_lifting type_definition_BTreeMap

lift_definition bt_empty :: "('k::linorder, 'v) BTreeMap" is "[]"
  by (simp add: ordered_def)

lift_definition bt_get :: "('k::linorder, 'v) BTreeMap \<Rightarrow> 'k \<Rightarrow> 'v option" is map_of .

lift_definition bt_insert :: "'k::linorder \<Rightarrow> 'v \<Rightarrow> ('k, 'v) BTreeMap \<Rightarrow> ('k, 'v) BTreeMap" is place
  by (rule ordered_place)

lift_definition bt_remove :: "'k::linorder \<Rightarrow> ('k, 'v) BTreeMap \<Rightarrow> ('k, 'v) BTreeMap" is "\<lambda>k. filter (\<lambda>e. fst e \<noteq> k)"
  by (rule ordered_filter)

lift_definition bt_retain :: "('k \<Rightarrow> 'v \<Rightarrow> bool) \<Rightarrow> ('k::linorder, 'v) BTreeMap \<Rightarrow> ('k, 'v) BTreeMap" is "\<lambda>P. filter (\<lambda>(k, v). P k v)"
  by (rule ordered_filter)

lift_definition bt_map :: "('v \<Rightarrow> 'w) \<Rightarrow> ('k::linorder, 'v) BTreeMap \<Rightarrow> ('k, 'w) BTreeMap" is "\<lambda>f. map (\<lambda>(k, v). (k, f v))"
  by (simp add: ordered_def comp_def case_prod_beta)

definition bt_len :: "('k::linorder, 'v) BTreeMap \<Rightarrow> nat" where
  "bt_len m = length (entries m)"

text \<open>\<^verbatim>\<open>contains_key\<close>, \<^verbatim>\<open>keys\<close>, \<^verbatim>\<open>values\<close>, \<^verbatim>\<open>pop_first\<close>, \<^verbatim>\<open>collect\<close> and \<^verbatim>\<open>range(k..)\<close>.\<close>

definition bt_has :: "('k::linorder, 'v) BTreeMap \<Rightarrow> 'k \<Rightarrow> bool" where
  "bt_has m k \<longleftrightarrow> bt_get m k \<noteq> None"

definition bt_values :: "('k::linorder, 'v) BTreeMap \<Rightarrow> 'v list" where
  "bt_values m = map snd (entries m)"

definition bt_pop_first :: "('k::linorder, 'v) BTreeMap \<Rightarrow> ('k, 'v) BTreeMap" where
  "bt_pop_first m = (case entries m of [] \<Rightarrow> m | e # _ \<Rightarrow> bt_remove (fst e) m)"

definition bt_collect :: "('k::linorder \<times> 'v) list \<Rightarrow> ('k, 'v) BTreeMap" where
  "bt_collect es = fold (\<lambda>(k, v). bt_insert k v) es bt_empty"

definition bt_range_from :: "'k::linorder \<Rightarrow> ('k, 'v) BTreeMap \<Rightarrow> ('k \<times> 'v) list" where
  "bt_range_from k m = filter (\<lambda>e. k \<le> fst e) (entries m)"

section \<open>Lookups\<close>

lemma bt_get_empty [simp]: "bt_get bt_empty = Map.empty"
  by transfer (simp add: fun_eq_iff)

lemma bt_get_insert [simp]: "bt_get (bt_insert k v m) = (bt_get m)(k \<mapsto> v)"
  by transfer (rule map_of_place)

lemma bt_get_remove [simp]: "bt_get (bt_remove k m) = (bt_get m)(k := None)"
  by transfer (rule map_of_filter_key)

lemma bt_eqI: "bt_get m = bt_get n \<Longrightarrow> m = n"
  by transfer (rule ordered_unique)

lemma bt_get_retain: "bt_get (bt_retain P m) k = (case bt_get m k of None \<Rightarrow> None | Some v \<Rightarrow> if P k v then Some v else None)"
  by transfer (rule map_of_filter_pair[OF ordered_distinct])

lemma bt_get_map [simp]: "bt_get (bt_map f m) k = map_option f (bt_get m k)"
  by transfer (rule map_of_map_snd)

lemma distinct_keys [simp]: "distinct (map fst (entries m))"
  using entries[of m] by (simp add: ordered_distinct)

lemma ordered_entries [simp]: "ordered (entries m)"
  using entries[of m] by simp

lemma bt_get_entries: "bt_get m = map_of (entries m)"
  by transfer simp

lemma in_entries_iff: "(k, v) \<in> set (entries m) \<longleftrightarrow> bt_get m k = Some v"
  by (simp add: bt_get_entries)

lemma dom_bt_get: "dom (bt_get m) = fst ` set (entries m)"
  by (simp add: bt_get_entries dom_map_of_conv_image_fst)

lemma finite_dom_bt_get [simp]: "finite (dom (bt_get m))"
  by (simp add: dom_bt_get)

lemma bt_len_card: "bt_len m = card (dom (bt_get m))"
  using distinct_card[of "map fst (entries m)"] by (simp add: bt_len_def dom_bt_get)

lemma bt_values_set: "set (bt_values m) = ran (bt_get m)"
  by (simp add: bt_values_def bt_get_entries ran_distinct)

text \<open>Sums over the entries depend on the lookups only.\<close>

lemma sum_entries: "sum_list (map (\<lambda>(k, v). f k v) (entries m)) = (\<Sum>k \<in> dom (bt_get m). f k (the (bt_get m k)))"
  for f :: "'k::linorder \<Rightarrow> 'v \<Rightarrow> nat"
proof -
  have "sum_list (map (\<lambda>(k, v). f k v) (entries m)) = sum_list (map (\<lambda>k. f k (the (bt_get m k))) (map fst (entries m)))"
    by (auto simp: bt_get_entries intro!: arg_cong[of _ _ sum_list])
  also have "\<dots> = sum (\<lambda>k. f k (the (bt_get m k))) (set (map fst (entries m)))"
    by (rule sum_list_distinct_conv_sum_set) simp
  finally show ?thesis
    by (simp add: dom_bt_get)
qed

lemma bt_get_fold_insert:
  assumes "distinct (map fst es)"
  shows "bt_get (fold (\<lambda>(k, v). bt_insert k v) es m) x = (case map_of es x of None \<Rightarrow> bt_get m x | Some v \<Rightarrow> Some v)"
  using assms
proof (induction es arbitrary: m)
  case (Cons e es)
  then have "map_of es (fst e) = None"
    by (simp add: map_of_eq_None_iff)
  with Cons show ?case
    by (cases e) (auto split: option.split)
qed simp

lemma bt_get_collect: "distinct (map fst es) \<Longrightarrow> bt_get (bt_collect es) = map_of es"
  by (rule ext) (simp add: bt_collect_def bt_get_fold_insert split: option.split)

lemma bt_collect_entries [simp]: "bt_collect (entries m) = m"
  by (rule bt_eqI) (simp add: bt_get_collect, simp add: bt_get_entries)

section \<open>Evaluation\<close>

lemma entries_simps [simp]:
  "entries bt_empty = []" "entries (bt_insert k v m) = place k v (entries m)"
  "entries (bt_remove k m) = filter (\<lambda>e. fst e \<noteq> k) (entries m)"
  by (transfer, simp)+

lemma bt_insert_not_empty [simp]: "bt_insert k v m \<noteq> bt_empty" "bt_empty \<noteq> bt_insert k v m"
proof -
  have "bt_get (bt_insert k v m) k \<noteq> bt_get bt_empty k"
    by simp
  then show "bt_insert k v m \<noteq> bt_empty" "bt_empty \<noteq> bt_insert k v m"
    by metis+
qed

instantiation BTreeMap :: (linorder, type) equal
begin

definition equal_BTreeMap_def: "HOL.equal m n \<longleftrightarrow> entries m = entries n" for m n :: "('a, 'b) BTreeMap"

instance
  by standard (simp add: equal_BTreeMap_def entries_inject)

end

section \<open>Prefixes of byte strings\<close>

text \<open>The keys with a given prefix are next to each other, starting at the first key that is not below the prefix.\<close>

lemma prefix_le: "prefix p k \<Longrightarrow> p \<le> k" for p k :: "'a::linorder list"
proof -
  have "p \<le> p @ t" for t
    by (induction p) auto
  then show "prefix p k \<Longrightarrow> p \<le> k"
    by (auto simp: prefix_def)
qed

lemma prefix_between:
  "p \<le> k \<Longrightarrow> k \<le> l \<Longrightarrow> prefix p l \<Longrightarrow> prefix p k" for p k l :: "'a::linorder list"
proof (induction p arbitrary: k l)
  case (Cons x p)
  obtain l' where l: "l = x # l'" "prefix p l'"
    using Cons.prems(3) by (auto simp: prefix_def)
  obtain y k' where k: "k = y # k'"
    using Cons.prems(1) by (cases k) auto
  have "x = y \<and> p \<le> k' \<and> k' \<le> l'"
    using Cons.prems(1,2) unfolding l(1) k by auto
  with Cons.IH[of k' l'] l(2) k show ?case
    by simp
qed simp

lemma takeWhile_filter:
  assumes "sorted_wrt R xs" and "\<And>x y. x \<in> set xs \<Longrightarrow> y \<in> set xs \<Longrightarrow> R x y \<Longrightarrow> P y \<Longrightarrow> P x"
  shows "takeWhile P xs = filter P xs"
  using assms
proof (induction xs)
  case (Cons x xs)
  have "takeWhile P xs = filter P xs"
    using Cons.prems by (intro Cons.IH) (auto intro: Cons.prems(2))
  moreover have "filter P xs = []" if "\<not> P x"
    using that Cons.prems by (auto simp: filter_empty_conv)
  ultimately show ?case
    by simp
qed simp

lemma range_prefix:
  "takeWhile (\<lambda>e. prefix p (fst e)) (bt_range_from p m) = filter (\<lambda>e. prefix p (fst e)) (entries m)"
  for p :: "'a::linorder list"
proof -
  have sorted: "sorted_wrt (\<lambda>a b. fst a < fst b) (bt_range_from p m)"
    using ordered_filter[OF ordered_entries] by (simp add: ordered_def sorted_wrt_map bt_range_from_def)
  have "takeWhile (\<lambda>e. prefix p (fst e)) (bt_range_from p m) = filter (\<lambda>e. prefix p (fst e)) (bt_range_from p m)"
    by (rule takeWhile_filter[OF sorted]) (auto simp: bt_range_from_def intro: prefix_between[OF _ less_imp_le])
  also have "\<dots> = filter (\<lambda>e. prefix p (fst e)) (entries m)"
    unfolding bt_range_from_def filter_filter by (rule filter_cong) (auto dest: prefix_le)
  finally show ?thesis .
qed

end
