(* ===== verification/Kv_Store.thy ===== *)
theory Kv_Store
  imports Ordered_Map Wire_Core Limits_Host
begin

text \<open>
  The key-value store of the server (\<^verbatim>\<open>server/src/kv.rs\<close>): the map that answers reads, compare-and-swap batches on it,
  the operations it remembers so that a retry is answered and not applied again, the admission of jobs to the writer
  thread, and the records the writer stores.  \<^verbatim>\<open>usize\<close> is 64 bits wide; hashes, fingerprints and operation ids are
  byte strings.  A deployment is the value of each environment variable that is set and parses.
\<close>

section \<open>Budgets\<close>

definition MAX_PENDING_WRITES :: nat where "MAX_PENDING_WRITES = 64"
definition MAX_RECENT_OPERATION_REPLAYS :: nat where "MAX_RECENT_OPERATION_REPLAYS = 1024"
definition OPERATION_RECORD_MAGIC :: bytes where "OPERATION_RECORD_MAGIC = [0x59, 0x4B, 0x4F, 0x31]"
definition OPERATION_RECORD_HEADER_BYTES :: nat where "OPERATION_RECORD_HEADER_BYTES = 56"
definition OPERATION_RESULT_ENCODED_BYTES :: nat where "OPERATION_RESULT_ENCODED_BYTES = 58"
definition OPERATION_PRUNE_BATCH :: nat where "OPERATION_PRUNE_BATCH = 1024"
definition STAGE_WITNESS_ENCODED_BYTES :: nat where "STAGE_WITNESS_ENCODED_BYTES = 50"
definition MAX_STAGE_WITNESSES_PER_OPERATION :: nat where
  "MAX_STAGE_WITNESSES_PER_OPERATION = unat (kv_max_stages_per_session kv_HARD)"
definition MAX_BATCH_ITEMS :: nat where "MAX_BATCH_ITEMS = 256"

definition env_budget :: "(string \<Rightarrow> u64 option) \<Rightarrow> string \<Rightarrow> u64 \<Rightarrow> u64" where
  "env_budget deployment name fallback = (case deployment name of None \<Rightarrow> fallback | Some v \<Rightarrow> v)"

definition value_max :: "(string \<Rightarrow> u64 option) \<Rightarrow> u64" where
  "value_max deployment = env_budget deployment ''YAS_KV_VALUE_MAX'' (4 * 1024 * 1024)"

definition total_max :: "(string \<Rightarrow> u64 option) \<Rightarrow> u64" where
  "total_max deployment = env_budget deployment ''YAS_KV_TOTAL_MAX'' (256 * 1024 * 1024)"

definition max_entries :: "(string \<Rightarrow> u64 option) \<Rightarrow> u64" where
  "max_entries deployment = env_budget deployment ''YAS_KV_MAX_ENTRIES'' 16384"

definition writer_queue_max_bytes :: "(string \<Rightarrow> u64 option) \<Rightarrow> nat" where
  "writer_queue_max_bytes deployment =
     (let vs = min (total_max deployment) (kv_max_store_bytes kv_HARD);
          metadata = saturating_add (saturating_mul (ucast (kv_max_key_bytes kv_HARD)) (of_nat MAX_BATCH_ITEMS))
            (saturating_add
              (saturating_add (of_nat OPERATION_RECORD_HEADER_BYTES)
                (saturating_mul (of_nat OPERATION_RESULT_ENCODED_BYTES) (of_nat MAX_BATCH_ITEMS)))
              (saturating_mul (of_nat MAX_STAGE_WITNESSES_PER_OPERATION) (of_nat STAGE_WITNESS_ENCODED_BYTES)))
      in unat (saturating_add vs metadata :: u64))"

definition native_limits :: "(string \<Rightarrow> u64 option) \<Rightarrow> kv_Limits" where
  "native_limits deployment =
     kv_HARD\<lparr>kv_max_value_bytes := min (value_max deployment) (kv_max_value_bytes kv_HARD),
             kv_max_entries := min (if unat (max_entries deployment) < 2 ^ 32 then ucast (max_entries deployment) else - 1)
                                   (kv_max_entries kv_HARD),
             kv_max_store_bytes := min (total_max deployment) (kv_max_store_bytes kv_HARD)\<rparr>"

section \<open>Data\<close>

record Entry =
  en_value :: bytes
  en_hash :: bytes
  en_mtime_ns :: u64
  en_modification_revision :: u64

record PersistedMutation =
  pm_key :: bytes
  pm_value :: "(bytes \<times> u64 \<times> u64) option"

record WriterBudget =
  wb_jobs :: nat
  wb_bytes :: nat
  wb_max_jobs :: nat
  wb_max_bytes :: nat

definition WriterBudget_new :: "nat \<Rightarrow> nat \<Rightarrow> WriterBudget" where
  "WriterBudget_new max_jobs max_bytes = \<lparr>wb_jobs = 0, wb_bytes = 0, wb_max_jobs = max_jobs, wb_max_bytes = max_bytes\<rparr>"

text \<open>A permit is the number of bytes it holds.\<close>

definition WriterBudget_try_reserve :: "nat \<Rightarrow> WriterBudget \<Rightarrow> (nat \<times> WriterBudget) option" where
  "WriterBudget_try_reserve n b =
     (case checked_nat (wb_jobs b + 1) of None \<Rightarrow> None
      | Some next_jobs \<Rightarrow>
          case checked_nat (wb_bytes b + n) of None \<Rightarrow> None
          | Some next_bytes \<Rightarrow>
              if wb_max_jobs b < next_jobs \<or> wb_max_bytes b < next_bytes then None
              else Some (n, b\<lparr>wb_jobs := next_jobs, wb_bytes := next_bytes\<rparr>))"

definition WriterPermit_drop :: "nat \<Rightarrow> WriterBudget \<Rightarrow> WriterBudget" where
  "WriterPermit_drop n b = b\<lparr>wb_jobs := wb_jobs b - 1, wb_bytes := wb_bytes b - n\<rparr>"

text \<open>A job; \<^verbatim>\<open>wj_reply\<close> names the oneshot channel of a durable request.\<close>

record WriteJob =
  wj_mutations :: "PersistedMutation list"
  wj_operation :: "(bytes \<times> bytes) option"
  wj_evicted_operations :: "bytes list"
  wj_native_reply :: "nat option"
  wj_permit :: nat

record NativeEntry =
  ne_key :: bytes
  ne_value :: bytes
  ne_content_hash :: bytes
  ne_mtime_ns :: u64
  ne_modification_revision :: u64

datatype NativeChangeRecord =
    Upsert NativeEntry bool
  | Remove bytes u64

record NativeChange =
  nc_from_revision :: u64
  nc_to_revision :: u64
  nc_records :: "NativeChangeRecord list"

datatype Precondition = AnyEntry | Absent | HashIs bytes | RevisionIs u64 | HashAndRevision bytes u64

datatype NativeMutation =
    Put bytes Precondition bytes bytes
  | Delete bytes Precondition

record NativeMutationResult =
  mr_status :: Status
  mr_modification_revision :: u64
  mr_mtime_ns :: u64
  mr_content_hash :: bytes
  mr_byte_len :: u64

record NativeStageWitness =
  sw_ordinal :: u16
  sw_original_handle :: u64
  sw_byte_len :: u64
  sw_content_hash :: bytes

record NativeDedupResult =
  dr_fingerprint :: bytes
  dr_store_revision :: u64
  dr_settlement_sequence :: u64
  dr_results :: "NativeMutationResult list"
  dr_stage_witnesses :: "NativeStageWitness list"

record RetainedOperationSet =
  ro_values :: "(bytes, NativeDedupResult) BTreeMap"
  ro_order :: "bytes list"
  ro_maximum_store_revision :: u64
  ro_maximum_sequence :: u64

record OperationReplayPlan =
  rp_values :: "(bytes, NativeDedupResult) BTreeMap"
  rp_order :: "bytes list"
  rp_evicted :: "bytes list"

record NativeCommit =
  cm_store_revision :: u64
  cm_results :: "NativeMutationResult list"
  cm_durable :: "nat option"
  cm_persistence_failed :: bool

datatype NativeMutationError = MutationInvalid | MutationResourceExhausted | MutationOperationConflict

text \<open>
  The channel to the writer thread and what the two sides share: the jobs in it, whether its receiver lives, the budget, the next oneshot
  channel, and what was sent on those.
\<close>

record Writer =
  wr_queue :: "WriteJob list"
  wr_receiver :: bool
  wr_budget :: WriterBudget
  wr_next_reply :: nat
  wr_replies :: "(nat \<times> bool) list"

text \<open>\<^verbatim>\<open>st_writer\<close> says whether the handle to the writer is there; \<^verbatim>\<open>st_native_changes\<close> is everything that was broadcast.\<close>

record Store =
  st_entries :: "(bytes, Entry) BTreeMap"
  st_native_changes :: "NativeChange list"
  st_operations :: "(bytes, NativeDedupResult) BTreeMap"
  st_operation_order :: "bytes list"
  st_next_operation_sequence :: u64
  st_writer :: bool
  st_total_bytes :: u64
  st_revision :: u64

record Kv =
  kv_store :: Store
  kv_writer :: Writer

section \<open>Jobs\<close>

definition reserve_write :: "nat \<Rightarrow> Kv \<Rightarrow> NativeMutationError + nat option \<times> Kv" where
  "reserve_write n K =
     (if \<not> st_writer (kv_store K) then Inr (None, K)
      else case WriterBudget_try_reserve n (wr_budget (kv_writer K)) of
             None \<Rightarrow> Inl MutationResourceExhausted
           | Some (permit, b) \<Rightarrow> Inr (Some permit, K\<lparr>kv_writer := (kv_writer K)\<lparr>wr_budget := b\<rparr>\<rparr>))"

text \<open>A job that is dropped releases its permit and its end of the oneshot channel.\<close>

definition drop_job :: "WriteJob \<Rightarrow> Writer \<Rightarrow> Writer" where
  "drop_job job w = w\<lparr>wr_budget := WriterPermit_drop (wj_permit job) (wr_budget w)\<rparr>"

definition enqueue_job :: "WriteJob \<Rightarrow> Kv \<Rightarrow> bool \<times> Kv" where
  "enqueue_job job K =
     (let w = kv_writer K in
      if \<not> st_writer (kv_store K) then (False, K\<lparr>kv_writer := drop_job job w\<rparr>)
      else if wr_receiver w \<and> length (wr_queue w) < MAX_PENDING_WRITES
        then (True, K\<lparr>kv_writer := w\<lparr>wr_queue := wr_queue w @ [job]\<rparr>\<rparr>)
      else (False, K\<lparr>kv_store := (kv_store K)\<lparr>st_writer := False\<rparr>, kv_writer := drop_job job w\<rparr>))"

section \<open>Operation records\<close>

definition encode_result :: "NativeMutationResult \<Rightarrow> bytes" where
  "encode_result r =
     le_bytes 2 (Status_code (mr_status r)) @ le_bytes 8 (mr_modification_revision r) @ le_bytes 8 (mr_mtime_ns r)
     @ mr_content_hash r @ le_bytes 8 (mr_byte_len r)"

definition encode_witness :: "NativeStageWitness \<Rightarrow> bytes" where
  "encode_witness w =
     le_bytes 2 (sw_ordinal w) @ le_bytes 8 (sw_original_handle w) @ le_bytes 8 (sw_byte_len w) @ sw_content_hash w"

definition encode_native_dedup :: "NativeDedupResult \<Rightarrow> bytes" where
  "encode_native_dedup r =
     OPERATION_RECORD_MAGIC @ le_bytes 8 (dr_settlement_sequence r) @ dr_fingerprint r @ le_bytes 8 (dr_store_revision r)
     @ le_bytes 2 (of_nat (length (dr_results r)) :: u16) @ le_bytes 2 (of_nat (length (dr_stage_witnesses r)) :: u16)
     @ concat (map encode_result (dr_results r)) @ concat (map encode_witness (dr_stage_witnesses r))"

text \<open>\<^verbatim>\<open>raw[a..b]\<close>.\<close>

definition byte_range :: "nat \<Rightarrow> nat \<Rightarrow> bytes \<Rightarrow> bytes" where
  "byte_range a b raw = take (b - a) (drop a raw)"

fun decode_results :: "nat \<Rightarrow> bytes \<Rightarrow> NativeMutationResult list \<times> bytes" where
  "decode_results 0 raw = ([], raw)"
| "decode_results (Suc count) raw =
     (let r = \<lparr>mr_status = Status_from_code (from_le (byte_range 0 2 raw)), mr_modification_revision = from_le (byte_range 2 10 raw),
               mr_mtime_ns = from_le (byte_range 10 18 raw), mr_content_hash = byte_range 18 50 raw, mr_byte_len = from_le (byte_range 50 58 raw)\<rparr>
      in case decode_results count (drop 58 raw) of (rs, rest) \<Rightarrow> (r # rs, rest))"

text \<open>\<open>ordinal\<close> counts up, \<open>count\<close> witnesses are left.\<close>

fun decode_witnesses :: "nat \<Rightarrow> nat \<Rightarrow> bytes \<Rightarrow> NativeStageWitness list option" where
  "decode_witnesses ordinal 0 raw = Some []"
| "decode_witnesses ordinal (Suc count) raw =
     (let encoded_ordinal = from_le (byte_range 0 2 raw) :: u16;
          original_handle = from_le (byte_range 2 10 raw);
          byte_len = from_le (byte_range 10 18 raw)
      in
      if unat encoded_ordinal \<noteq> ordinal then None
      else if original_handle = 0 then None
      else if kv_max_value_bytes kv_HARD < byte_len then None
      else case decode_witnesses (Suc ordinal) count (drop 50 raw) of
             None \<Rightarrow> None
           | Some ws \<Rightarrow>
               Some (\<lparr>sw_ordinal = encoded_ordinal, sw_original_handle = original_handle, sw_byte_len = byte_len,
                      sw_content_hash = byte_range 18 50 raw\<rparr> # ws))"

definition decode_native_dedup :: "bytes \<Rightarrow> NativeDedupResult option" where
  "decode_native_dedup raw =
     (if length raw < OPERATION_RECORD_HEADER_BYTES \<or> take 4 raw \<noteq> OPERATION_RECORD_MAGIC then None
      else
        let settlement_sequence = from_le (byte_range 4 12 raw);
            fingerprint = byte_range 12 44 raw;
            store_revision = from_le (byte_range 44 52 raw);
            count = unat (from_le (byte_range 52 54 raw) :: u16);
            witness_count = unat (from_le (byte_range 54 56 raw) :: u16)
        in
        if MAX_BATCH_ITEMS < count \<or> MAX_STAGE_WITNESSES_PER_OPERATION < witness_count then None
        else
          let expected_len = OPERATION_RECORD_HEADER_BYTES + count * OPERATION_RESULT_ENCODED_BYTES
                + witness_count * STAGE_WITNESS_ENCODED_BYTES
          in
          if length raw \<noteq> expected_len \<or> settlement_sequence = 0 \<or> store_revision = 0 then None
          else case decode_results count (drop OPERATION_RECORD_HEADER_BYTES raw) of (results, rest) \<Rightarrow>
            case decode_witnesses 0 witness_count rest of
              None \<Rightarrow> None
            | Some ws \<Rightarrow>
                Some \<lparr>dr_fingerprint = fingerprint, dr_store_revision = store_revision,
                      dr_settlement_sequence = settlement_sequence, dr_results = results, dr_stage_witnesses = ws\<rparr>)"

section \<open>Retained operations\<close>

definition operation_pins_live_entry :: "NativeDedupResult \<Rightarrow> u64 list \<Rightarrow> bool" where
  "operation_pins_live_entry r live_revisions \<longleftrightarrow>
     dr_store_revision r \<in> set live_revisions \<and> (\<exists>item \<in> set (dr_results r). mr_status item = StOk)"

definition live_revisions :: "(bytes, Entry) BTreeMap \<Rightarrow> u64 list" where
  "live_revisions es = map en_modification_revision (bt_values es)"

text \<open>What the load of the operation table has gathered: \<^verbatim>\<open>pinned\<close>, \<^verbatim>\<open>recent\<close>, \<^verbatim>\<open>maximum_store_revision\<close>, \<^verbatim>\<open>maximum_sequence\<close>.\<close>

record candidates =
  ca_pinned :: "(u64, bytes \<times> NativeDedupResult) BTreeMap"
  ca_recent :: "(u64 \<times> bytes, NativeDedupResult) BTreeMap"
  ca_maximum_store_revision :: u64
  ca_maximum_sequence :: u64

definition retain_operation_candidate :: "u64 list \<Rightarrow> bytes \<Rightarrow> NativeDedupResult \<Rightarrow> candidates \<Rightarrow> candidates" where
  "retain_operation_candidate live operation_id r c =
     (let replace = (case bt_get (ca_pinned c) (dr_store_revision r) of
                       None \<Rightarrow> True
                     | Some (current_id, current) \<Rightarrow>
                         (dr_settlement_sequence current, current_id) < (dr_settlement_sequence r, operation_id));
          pinned = (if operation_pins_live_entry r live \<and> replace
                    then bt_insert (dr_store_revision r) (operation_id, r) (ca_pinned c) else ca_pinned c);
          recent = bt_insert (dr_settlement_sequence r, operation_id) r (ca_recent c)
      in \<lparr>ca_pinned = pinned,
          ca_recent = (if MAX_RECENT_OPERATION_REPLAYS < bt_len recent then bt_pop_first recent else recent),
          ca_maximum_store_revision = max (ca_maximum_store_revision c) (dr_store_revision r),
          ca_maximum_sequence = max (ca_maximum_sequence c) (dr_settlement_sequence r)\<rparr>)"

definition finish_retained_operations :: "candidates \<Rightarrow> RetainedOperationSet" where
  "finish_retained_operations c =
     (let pinned = bt_collect (bt_values (ca_pinned c));
          kept = fold (\<lambda>((_, operation_id), r) m. if bt_has m operation_id then m else bt_insert operation_id r m)
                   (entries (ca_recent c)) pinned;
          ordered = sort (map (\<lambda>(operation_id, r). (dr_settlement_sequence r, operation_id)) (entries kept))
      in \<lparr>ro_values = kept, ro_order = map snd ordered,
          ro_maximum_store_revision = ca_maximum_store_revision c, ro_maximum_sequence = ca_maximum_sequence c\<rparr>)"

definition prune_operation_replays ::
  "(bytes, Entry) BTreeMap \<Rightarrow> (bytes, NativeDedupResult) BTreeMap \<Rightarrow> bytes list \<Rightarrow>
   bytes list \<times> (bytes, NativeDedupResult) BTreeMap \<times> bytes list" where
  "prune_operation_replays es operations order =
     (let live = live_revisions es;
          recent = set (take MAX_RECENT_OPERATION_REPLAYS (rev order));
          pinned_by_revision = fold (\<lambda>operation_id m.
              case bt_get operations operation_id of
                None \<Rightarrow> m
              | Some r \<Rightarrow> if operation_pins_live_entry r live then bt_insert (dr_store_revision r) operation_id m else m)
            order bt_empty;
          pinned = set (bt_values pinned_by_revision);
          evicted = filter (\<lambda>operation_id. operation_id \<notin> pinned \<and> operation_id \<notin> recent) order
      in (sort (remdups evicted), fold bt_remove evicted operations,
          filter (\<lambda>operation_id. operation_id \<notin> set evicted) order))"

definition plan_operation_replay ::
  "(bytes, Entry) BTreeMap \<Rightarrow> (bytes, NativeDedupResult) BTreeMap \<Rightarrow> bytes list \<Rightarrow> bytes \<Rightarrow> NativeDedupResult \<Rightarrow>
   OperationReplayPlan" where
  "plan_operation_replay es operations order operation_id r =
     (case prune_operation_replays es (bt_insert operation_id r operations) (order @ [operation_id]) of
        (evicted, operations', order') \<Rightarrow> \<lparr>rp_values = operations', rp_order = order', rp_evicted = evicted\<rparr>)"

definition write_job_bytes :: "PersistedMutation list \<Rightarrow> nat \<Rightarrow> nat \<Rightarrow> nat option" where
  "write_job_bytes mutations encoded_operation_bytes evicted_operations =
     (case checked_sum 0 (concat (map (\<lambda>m. [length (pm_key m), case pm_value m of None \<Rightarrow> 0 | Some (v, _, _) \<Rightarrow> length v]) mutations)) of
        None \<Rightarrow> None
      | Some mutation_bytes \<Rightarrow>
          case checked_nat (mutation_bytes + encoded_operation_bytes) of
            None \<Rightarrow> None
          | Some n \<Rightarrow>
              case checked_nat (evicted_operations * 16) of
                None \<Rightarrow> None
              | Some m \<Rightarrow> checked_nat (n + m))"

section \<open>Reads and watches\<close>

definition native_entry :: "bytes \<Rightarrow> Entry \<Rightarrow> NativeEntry" where
  "native_entry key e =
     \<lparr>ne_key = key, ne_value = en_value e, ne_content_hash = en_hash e, ne_mtime_ns = en_mtime_ns e,
      ne_modification_revision = en_modification_revision e\<rparr>"

definition native_revision :: "Store \<Rightarrow> u64" where
  "native_revision st = st_revision st"

definition native_get :: "bytes \<Rightarrow> Store \<Rightarrow> NativeEntry option" where
  "native_get key st = map_option (native_entry key) (bt_get (st_entries st) key)"

definition replay_commit :: "NativeDedupResult \<Rightarrow> NativeCommit" where
  "replay_commit previous =
     \<lparr>cm_store_revision = dr_store_revision previous, cm_results = dr_results previous, cm_durable = None,
      cm_persistence_failed = False\<rparr>"

definition native_replay :: "bytes \<Rightarrow> bytes \<Rightarrow> Store \<Rightarrow> NativeMutationError + NativeCommit option" where
  "native_replay operation_id fingerprint st =
     (case bt_get (st_operations st) operation_id of
        None \<Rightarrow> Inr None
      | Some previous \<Rightarrow>
          if dr_fingerprint previous \<noteq> fingerprint then Inl MutationOperationConflict
          else Inr (Some (replay_commit previous)))"

definition native_stage_witnesses :: "bytes \<Rightarrow> Store \<Rightarrow> NativeStageWitness list option" where
  "native_stage_witnesses operation_id st = map_option dr_stage_witnesses (bt_get (st_operations st) operation_id)"

text \<open>A subscription starts at the end of what was broadcast.\<close>

record NativeWatch =
  nw_revision :: u64
  nw_entries :: "NativeEntry list"
  nw_changes :: nat

definition native_watch :: "bytes \<Rightarrow> Store \<Rightarrow> NativeWatch" where
  "native_watch key_prefix st =
     \<lparr>nw_revision = st_revision st,
      nw_entries = map (\<lambda>(key, e). native_entry key e)
                     (takeWhile (\<lambda>e. prefix key_prefix (fst e)) (bt_range_from key_prefix (st_entries st))),
      nw_changes = length (st_native_changes st)\<rparr>"

section \<open>Mutations\<close>

fun mutation_key :: "NativeMutation \<Rightarrow> bytes" where
  "mutation_key (Put key _ _ _) = key"
| "mutation_key (Delete key _) = key"

fun precondition_matches :: "Precondition \<Rightarrow> Entry option \<Rightarrow> bool" where
  "precondition_matches AnyEntry current \<longleftrightarrow> True"
| "precondition_matches Absent current \<longleftrightarrow> current = None"
| "precondition_matches (HashIs hash) current \<longleftrightarrow> (case current of None \<Rightarrow> False | Some e \<Rightarrow> en_hash e = hash)"
| "precondition_matches (RevisionIs revision) current \<longleftrightarrow>
     (case current of None \<Rightarrow> False | Some e \<Rightarrow> en_modification_revision e = revision)"
| "precondition_matches (HashAndRevision hash revision) current \<longleftrightarrow>
     (case current of None \<Rightarrow> False | Some e \<Rightarrow> en_hash e = hash \<and> en_modification_revision e = revision)"

definition result_for :: "Status \<Rightarrow> Entry option \<Rightarrow> NativeMutationResult" where
  "result_for status current =
     (case current of
        None \<Rightarrow> \<lparr>mr_status = status, mr_modification_revision = 0, mr_mtime_ns = 0, mr_content_hash = replicate 32 0, mr_byte_len = 0\<rparr>
      | Some e \<Rightarrow> \<lparr>mr_status = status, mr_modification_revision = en_modification_revision e, mr_mtime_ns = en_mtime_ns e,
                   mr_content_hash = en_hash e, mr_byte_len = of_nat (length (en_value e))\<rparr>)"

text \<open>One pass over the batch on a working copy; \<^verbatim>\<open>None\<close> is the break on a precondition that does not hold.\<close>

fun apply_batch ::
  "u64 \<Rightarrow> u64 \<Rightarrow> NativeMutation list \<Rightarrow> (bytes, Entry) BTreeMap \<Rightarrow> ((bytes, Entry) BTreeMap \<times> NativeMutationResult list) option" where
  "apply_batch mtime_ns commit_revision [] working = Some (working, [])"
| "apply_batch mtime_ns commit_revision (Put key precondition v content_hash # ms) working =
     (if \<not> precondition_matches precondition (bt_get working key) then None
      else
        let working' = bt_insert key \<lparr>en_value = v, en_hash = content_hash, en_mtime_ns = mtime_ns,
                                      en_modification_revision = commit_revision\<rparr> working
        in case apply_batch mtime_ns commit_revision ms working' of
             None \<Rightarrow> None
           | Some (final, rs) \<Rightarrow> Some (final, result_for StOk (bt_get working' key) # rs))"
| "apply_batch mtime_ns commit_revision (Delete key precondition # ms) working =
     (if \<not> precondition_matches precondition (bt_get working key) then None
      else case apply_batch mtime_ns commit_revision ms (bt_remove key working) of
             None \<Rightarrow> None
           | Some (final, rs) \<Rightarrow>
               Some (final, \<lparr>mr_status = StOk, mr_modification_revision = commit_revision, mr_mtime_ns = mtime_ns,
                             mr_content_hash = replicate 32 0, mr_byte_len = 0\<rparr> # rs))"

definition changed_keys :: "(bytes, Entry) BTreeMap \<Rightarrow> NativeMutation list \<Rightarrow> (bytes, bool) BTreeMap" where
  "changed_keys es ms = fold (\<lambda>m. bt_insert (mutation_key m) (\<not> bt_has es (mutation_key m))) ms bt_empty"

definition change_record :: "u64 \<Rightarrow> (bytes, Entry) BTreeMap \<Rightarrow> bytes \<times> bool \<Rightarrow> NativeChangeRecord" where
  "change_record commit_revision working c =
     (case bt_get working (fst c) of
        None \<Rightarrow> Remove (fst c) commit_revision
      | Some e \<Rightarrow> Upsert (native_entry (fst c) e) (snd c))"

definition persisted_row :: "(bytes, Entry) BTreeMap \<Rightarrow> bytes \<times> bool \<Rightarrow> PersistedMutation" where
  "persisted_row working c =
     \<lparr>pm_key = fst c,
      pm_value = map_option (\<lambda>e. (en_value e, en_mtime_ns e, en_modification_revision e)) (bt_get working (fst c))\<rparr>"

text \<open>A oneshot channel for a durable request that holds a permit.\<close>

definition open_reply :: "bool \<Rightarrow> nat option \<Rightarrow> Kv \<Rightarrow> nat option \<times> Kv" where
  "open_reply durable permit K =
     (if durable \<and> permit \<noteq> None
      then (Some (wr_next_reply (kv_writer K)), K\<lparr>kv_writer := (kv_writer K)\<lparr>wr_next_reply := Suc (wr_next_reply (kv_writer K))\<rparr>\<rparr>)
      else (None, K))"

definition enqueue_permitted ::
  "nat option \<Rightarrow> PersistedMutation list \<Rightarrow> bytes \<Rightarrow> bytes \<Rightarrow> bytes list \<Rightarrow> nat option \<Rightarrow> Kv \<Rightarrow> bool \<times> Kv" where
  "enqueue_permitted permit mutations operation_id encoded evicted reply K =
     (case permit of
        None \<Rightarrow> (False, K)
      | Some p \<Rightarrow> enqueue_job \<lparr>wj_mutations = mutations, wj_operation = Some (operation_id, encoded), wj_evicted_operations = evicted,
                               wj_native_reply = reply, wj_permit = p\<rparr> K)"

definition settle_conflict ::
  "bytes \<Rightarrow> bytes \<Rightarrow> bool \<Rightarrow> NativeStageWitness list \<Rightarrow> NativeMutation list \<Rightarrow> Kv \<Rightarrow> (NativeMutationError + NativeCommit) \<times> Kv" where
  "settle_conflict operation_id fingerprint durable stage_witnesses mutations K =
     (let st = kv_store K;
          results = map (\<lambda>m. result_for StConflict (bt_get (st_entries st) (mutation_key m))) mutations;
          dedup = \<lparr>dr_fingerprint = fingerprint, dr_store_revision = st_revision st,
                   dr_settlement_sequence = st_next_operation_sequence st, dr_results = results, dr_stage_witnesses = stage_witnesses\<rparr>;
          encoded = encode_native_dedup dedup;
          plan = plan_operation_replay (st_entries st) (st_operations st) (st_operation_order st) operation_id dedup
      in
      case write_job_bytes [] (length encoded) (length (rp_evicted plan)) of
        None \<Rightarrow> (Inl MutationResourceExhausted, K)
      | Some queued_bytes \<Rightarrow>
          case reserve_write queued_bytes K of
            Inl e \<Rightarrow> (Inl e, K)
          | Inr (permit, K1) \<Rightarrow>
              case open_reply durable permit K1 of (reply, K2) \<Rightarrow>
              let K3 = K2\<lparr>kv_store := (kv_store K2)\<lparr>st_operations := rp_values plan, st_operation_order := rp_order plan,
                            st_next_operation_sequence := saturating_add (st_next_operation_sequence st) 1\<rparr>\<rparr>
              in
              case enqueue_permitted permit [] operation_id encoded (rp_evicted plan) reply K3 of (queued, K4) \<Rightarrow>
              if durable \<and> \<not> queued
              then (Inr \<lparr>cm_store_revision = st_revision st, cm_results = results, cm_durable = None, cm_persistence_failed = True\<rparr>, K4)
              else (Inr \<lparr>cm_store_revision = st_revision st, cm_results = results, cm_durable = reply, cm_persistence_failed = False\<rparr>, K4))"

definition settle_commit ::
  "(string \<Rightarrow> u64 option) \<Rightarrow> u64 \<Rightarrow> bytes \<Rightarrow> bytes \<Rightarrow> bool \<Rightarrow> NativeStageWitness list \<Rightarrow> NativeMutation list \<Rightarrow>
   (bytes, Entry) BTreeMap \<Rightarrow> NativeMutationResult list \<Rightarrow> Kv \<Rightarrow> (NativeMutationError + NativeCommit) \<times> Kv" where
  "settle_commit deployment commit_revision operation_id fingerprint durable stage_witnesses mutations working results K =
     (let st = kv_store K; lim = native_limits deployment in
      case checked_sum 0 (map (\<lambda>(key, e). length key + length (en_value e)) (entries working)) of
        None \<Rightarrow> (Inl MutationResourceExhausted, K)
      | Some total_bytes \<Rightarrow>
          if unat (kv_max_entries lim) < bt_len working \<or> unat (kv_max_store_bytes lim) < total_bytes
          then (Inl MutationResourceExhausted, K)
          else
            let changed = entries (changed_keys (st_entries st) mutations);
                change = \<lparr>nc_from_revision = st_revision st, nc_to_revision = commit_revision,
                          nc_records = map (change_record commit_revision working) changed\<rparr>;
                persisted = map (persisted_row working) changed;
                dedup = \<lparr>dr_fingerprint = fingerprint, dr_store_revision = commit_revision,
                         dr_settlement_sequence = st_next_operation_sequence st, dr_results = results,
                         dr_stage_witnesses = stage_witnesses\<rparr>;
                encoded = encode_native_dedup dedup;
                plan = plan_operation_replay working (st_operations st) (st_operation_order st) operation_id dedup
            in
            case write_job_bytes persisted (length encoded) (length (rp_evicted plan)) of
              None \<Rightarrow> (Inl MutationResourceExhausted, K)
            | Some queued_bytes \<Rightarrow>
                case reserve_write queued_bytes K of
                  Inl e \<Rightarrow> (Inl e, K)
                | Inr (permit, K1) \<Rightarrow>
                    case open_reply durable permit K1 of (reply, K2) \<Rightarrow>
                    let K3 = K2\<lparr>kv_store := (kv_store K2)\<lparr>st_entries := working, st_total_bytes := of_nat total_bytes,
                                  st_revision := commit_revision, st_operations := rp_values plan, st_operation_order := rp_order plan,
                                  st_next_operation_sequence := saturating_add (st_next_operation_sequence st) 1\<rparr>\<rparr>
                    in
                    case enqueue_permitted permit persisted operation_id encoded (rp_evicted plan) reply K3 of (queued, K4) \<Rightarrow>
                    let K5 = K4\<lparr>kv_store := (kv_store K4)\<lparr>st_native_changes := st_native_changes (kv_store K4) @ [change]\<rparr>\<rparr> in
                    (Inr \<lparr>cm_store_revision = commit_revision, cm_results = results, cm_durable = if queued then reply else None,
                          cm_persistence_failed = durable \<and> \<not> queued\<rparr>, K5))"

definition witness_refused :: "(string \<Rightarrow> u64 option) \<Rightarrow> nat \<Rightarrow> NativeStageWitness \<Rightarrow> bool" where
  "witness_refused deployment ordinal w \<longleftrightarrow>
     unat (sw_ordinal w) \<noteq> ordinal \<or> sw_original_handle w = 0 \<or> value_max deployment < sw_byte_len w"

definition mutation_refused :: "kv_Limits \<Rightarrow> NativeMutation \<Rightarrow> bool" where
  "mutation_refused lim m \<longleftrightarrow>
     (let key = mutation_key m in
      key = [] \<or> unat (kv_max_key_bytes lim) < length key \<or> 0 \<in> set key
      \<or> (case m of Put _ _ v _ \<Rightarrow> unat (kv_max_value_bytes lim) < length v | Delete _ _ \<Rightarrow> False))"

definition native_mutate ::
  "(string \<Rightarrow> u64 option) \<Rightarrow> u64 \<Rightarrow> bytes \<Rightarrow> bytes \<Rightarrow> bool \<Rightarrow> NativeStageWitness list \<Rightarrow> NativeMutation list \<Rightarrow> Kv \<Rightarrow>
   (NativeMutationError + NativeCommit) \<times> Kv" where
  "native_mutate deployment now_ns operation_id fingerprint durable stage_witnesses mutations K =
     (if mutations = [] \<or> MAX_BATCH_ITEMS < length mutations then (Inl MutationInvalid, K)
      else if MAX_STAGE_WITNESSES_PER_OPERATION < length stage_witnesses
        \<or> (\<exists>(i, w) \<in> set (enumerate 0 stage_witnesses). witness_refused deployment i w) then (Inl MutationInvalid, K)
      else if \<exists>m \<in> set mutations. mutation_refused (native_limits deployment) m then (Inl MutationInvalid, K)
      else
        let st = kv_store K in
        case bt_get (st_operations st) operation_id of
          Some previous \<Rightarrow>
            if dr_fingerprint previous \<noteq> fingerprint then (Inl MutationOperationConflict, K)
            else (Inr (replay_commit previous), K)
        | None \<Rightarrow>
            let commit_revision = saturating_add (st_revision st) 1 in
            case apply_batch now_ns commit_revision mutations (st_entries st) of
              None \<Rightarrow> settle_conflict operation_id fingerprint durable stage_witnesses mutations K
            | Some (working, results) \<Rightarrow>
                settle_commit deployment commit_revision operation_id fingerprint durable stage_witnesses mutations working results K)"

end
