(* ===== verification/Kv_Writer.thy ===== *)
theory Kv_Writer
  imports Kv_Store
begin

text \<open>
  The disk side of the key-value store (\<^verbatim>\<open>server/src/kv.rs\<close>): the two tables, the writer thread that commits queued
  jobs to them, and the start of the store from them.  The database is a parameter: whether a read transaction
  fails, and what a write transaction reports and leaves in the tables.
\<close>

section \<open>Tables\<close>

text \<open>A table that does not exist is read as an empty one.\<close>

record Tables =
  tb_entries :: "(bytes, bytes) BTreeMap"
  tb_operations :: "(bytes, bytes) BTreeMap"

record 'd Redb =
  rd_read :: "'d \<Rightarrow> bool \<times> 'd"
  rd_commit :: "'d \<Rightarrow> Tables \<Rightarrow> Tables \<Rightarrow> bool \<times> Tables \<times> 'd"

text \<open>Transactions are atomic: the tables are left as they were or as the transaction wrote them, and as it wrote them when it reports success.\<close>

definition atomic_commits :: "'d Redb \<Rightarrow> bool" where
  "atomic_commits R \<longleftrightarrow>
     (\<forall>d old new. case rd_commit R d old new of (ok, t, d') \<Rightarrow> (t = old \<or> t = new) \<and> (ok \<longrightarrow> t = new))"

definition reads_succeed :: "'d Redb \<Rightarrow> bool" where
  "reads_succeed R \<longleftrightarrow> (\<forall>d. fst (rd_read R d))"

section \<open>The writer thread\<close>

definition encode_row :: "bytes \<Rightarrow> u64 \<Rightarrow> u64 \<Rightarrow> bytes" where
  "encode_row v mtime_ns modification_revision = le_bytes 8 mtime_ns @ le_bytes 8 modification_revision @ v"

definition write_mutation :: "PersistedMutation \<Rightarrow> (bytes, bytes) BTreeMap \<Rightarrow> (bytes, bytes) BTreeMap" where
  "write_mutation m t =
     (case pm_value m of
        None \<Rightarrow> bt_remove (pm_key m) t
      | Some (v, mtime_ns, modification_revision) \<Rightarrow> bt_insert (pm_key m) (encode_row v mtime_ns modification_revision) t)"

definition write_operation :: "WriteJob \<Rightarrow> (bytes, bytes) BTreeMap \<Rightarrow> (bytes, bytes) BTreeMap" where
  "write_operation job t =
     fold bt_remove (wj_evicted_operations job)
       (case wj_operation job of None \<Rightarrow> t | Some (operation_id, r) \<Rightarrow> bt_insert operation_id r t)"

definition write_batch :: "WriteJob list \<Rightarrow> Tables \<Rightarrow> Tables" where
  "write_batch batch t =
     \<lparr>tb_entries = fold (\<lambda>job. fold write_mutation (wj_mutations job)) batch (tb_entries t),
      tb_operations = fold write_operation batch (tb_operations t)\<rparr>"

text \<open>
  Where the thread is: gathering a batch, about to commit it, answering the jobs of a batch with the outcome of its transaction, failing the jobs that are still queued, about to
  drop the receiver, gone.
\<close>

datatype writer_thread =
    Gathering "WriteJob list"
  | Committing "WriteJob list"
  | Answering bool "WriteJob list"
  | Draining
  | Leaving
  | Gone

definition answer_job :: "bool \<Rightarrow> WriteJob \<Rightarrow> Writer \<Rightarrow> Writer" where
  "answer_job ok job w =
     drop_job job (case wj_native_reply job of None \<Rightarrow> w | Some i \<Rightarrow> w\<lparr>wr_replies := wr_replies w @ [(i, ok)]\<rparr>)"

record 'd Disk =
  dk_thread :: writer_thread
  dk_tables :: Tables
  dk_db :: 'd

text \<open>One step of the thread; it does nothing when it waits for a job.\<close>

definition writer_step :: "'d Redb \<Rightarrow> Writer \<times> 'd Disk \<Rightarrow> Writer \<times> 'd Disk" where
  "writer_step R s =
     (case s of (w, D) \<Rightarrow>
      case dk_thread D of
        Gathering batch \<Rightarrow>
          (case wr_queue w of
             job # queue \<Rightarrow> (w\<lparr>wr_queue := queue\<rparr>, D\<lparr>dk_thread := Gathering (batch @ [job])\<rparr>)
           | [] \<Rightarrow> (w, if batch = [] then D else D\<lparr>dk_thread := Committing batch\<rparr>))
      | Committing batch \<Rightarrow>
          (case rd_commit R (dk_db D) (dk_tables D) (write_batch batch (dk_tables D)) of (ok, t, d) \<Rightarrow>
             (w, D\<lparr>dk_thread := Answering ok batch, dk_tables := t, dk_db := d\<rparr>))
      | Answering ok batch \<Rightarrow>
          (case batch of
             job # rest \<Rightarrow> (answer_job ok job w, D\<lparr>dk_thread := Answering ok rest\<rparr>)
           | [] \<Rightarrow> (w, D\<lparr>dk_thread := if ok then Gathering [] else Draining\<rparr>))
      | Draining \<Rightarrow>
          (case wr_queue w of
             job # queue \<Rightarrow> (answer_job False job (w\<lparr>wr_queue := queue\<rparr>), D)
           | [] \<Rightarrow> (w, D\<lparr>dk_thread := Leaving\<rparr>))
      | Leaving \<Rightarrow> (fold drop_job (wr_queue w) (w\<lparr>wr_queue := [], wr_receiver := False\<rparr>), D\<lparr>dk_thread := Gone\<rparr>)
      | Gone \<Rightarrow> (w, D))"

section \<open>Starting\<close>

definition no_candidates :: candidates where
  "no_candidates = \<lparr>ca_pinned = bt_empty, ca_recent = bt_empty, ca_maximum_store_revision = 1, ca_maximum_sequence = 0\<rparr>"

definition load_operation_row :: "u64 list \<Rightarrow> bytes \<times> bytes \<Rightarrow> candidates \<Rightarrow> candidates" where
  "load_operation_row live row c =
     (if length (fst row) \<noteq> 16 then c
      else case decode_native_dedup (snd row) of
             None \<Rightarrow> c
           | Some r \<Rightarrow> retain_operation_candidate live (fst row) r c)"

definition load_operation_replays :: "u64 list \<Rightarrow> (bytes, bytes) BTreeMap \<Rightarrow> RetainedOperationSet" where
  "load_operation_replays live t = finish_retained_operations (fold (load_operation_row live) (entries t) no_candidates)"

definition unretained :: "(bytes, NativeDedupResult) BTreeMap \<Rightarrow> Tables \<Rightarrow> bytes list" where
  "unretained retained t = filter (\<lambda>k. \<not> (length k = 16 \<and> bt_has retained k)) (map fst (entries (tb_operations t)))"

text \<open>\<^verbatim>\<open>Some\<close> carries whether the loop ended without an error.\<close>

partial_function (option) prune_persisted_operation_replays ::
  "'d Redb \<Rightarrow> (bytes, NativeDedupResult) BTreeMap \<Rightarrow> Tables \<Rightarrow> 'd \<Rightarrow> (bool \<times> Tables \<times> 'd) option" where
  "prune_persisted_operation_replays R retained t d =
     (case rd_read R d of (ok, d1) \<Rightarrow>
      if \<not> ok then Some (False, t, d1)
      else
        let delete = take OPERATION_PRUNE_BATCH (unretained retained t) in
        if delete = [] then Some (True, t, d1)
        else case rd_commit R d1 t (t\<lparr>tb_operations := fold bt_remove delete (tb_operations t)\<rparr>) of (committed, t1, d2) \<Rightarrow>
          if \<not> committed then Some (False, t1, d2) else prune_persisted_operation_replays R retained t1 d2)"

definition empty_store :: Store where
  "empty_store =
     \<lparr>st_entries = bt_empty, st_native_changes = [], st_operations = bt_empty, st_operation_order = [],
      st_next_operation_sequence = 1, st_writer = False, st_total_bytes = 0, st_revision = 1\<rparr>"

text \<open>\<open>hash\<close> is BLAKE3.\<close>

definition load_row :: "(bytes \<Rightarrow> bytes) \<Rightarrow> bytes \<times> bytes \<Rightarrow> Store \<Rightarrow> Store" where
  "load_row hash row st =
     (case row of (key, raw) \<Rightarrow>
      if length raw < 16 then st
      else
        let mtime_ns = from_le (take 8 raw);
            modification_revision = max (from_le (byte_range 8 16 raw)) 1;
            v = drop 16 raw
        in st\<lparr>st_revision := max (st_revision st) modification_revision,
              st_total_bytes := st_total_bytes st + of_nat (length key + length v),
              st_entries := bt_insert key \<lparr>en_value = v, en_hash = hash v, en_mtime_ns = mtime_ns,
                                           en_modification_revision = modification_revision\<rparr> (st_entries st)\<rparr>)"

definition load_entries :: "(bytes \<Rightarrow> bytes) \<Rightarrow> Tables \<Rightarrow> Store" where
  "load_entries hash t = fold (load_row hash) (entries (tb_entries t)) empty_store"

definition adopt_operations :: "RetainedOperationSet \<Rightarrow> Store \<Rightarrow> Store" where
  "adopt_operations r st =
     st\<lparr>st_operations := ro_values r, st_operation_order := ro_order r,
        st_revision := max (st_revision st) (ro_maximum_store_revision r),
        st_next_operation_sequence := saturating_add (ro_maximum_sequence r) 1\<rparr>"

definition new_writer :: "(string \<Rightarrow> u64 option) \<Rightarrow> Writer" where
  "new_writer deployment =
     \<lparr>wr_queue = [], wr_receiver = True, wr_budget = WriterBudget_new MAX_PENDING_WRITES (writer_queue_max_bytes deployment),
      wr_next_reply = 0, wr_replies = []\<rparr>"

text \<open>What the system answers at start: a path for the database, its creation, the thread.\<close>

record startup =
  su_path :: bool
  su_create :: bool
  su_spawn :: bool

definition Store_open ::
  "(bytes \<Rightarrow> bytes) \<Rightarrow> (string \<Rightarrow> u64 option) \<Rightarrow> startup \<Rightarrow> 'd Redb \<Rightarrow> Tables \<Rightarrow> 'd \<Rightarrow> (Kv \<times> 'd Disk) option" where
  "Store_open hash deployment su R t d =
     (let closed = \<lambda>st t d. (\<lparr>kv_store = st, kv_writer = (new_writer deployment)\<lparr>wr_receiver := False\<rparr>\<rparr>,
                             \<lparr>dk_thread = Gone, dk_tables = t, dk_db = d\<rparr>);
          start = \<lambda>st t d.
            if su_spawn su
            then (\<lparr>kv_store = st\<lparr>st_writer := True\<rparr>, kv_writer = new_writer deployment\<rparr>,
                  \<lparr>dk_thread = Gathering [], dk_tables = t, dk_db = d\<rparr>)
            else closed st t d
      in
      if \<not> su_path su \<or> \<not> su_create su then Some (closed empty_store t d)
      else case rd_read R d of (loaded, d1) \<Rightarrow>
        if \<not> loaded then Some (closed empty_store t d1)
        else
          let st = load_entries hash t in
          case rd_read R d1 of (replays, d2) \<Rightarrow>
          if \<not> replays then Some (start st t d2)
          else
            let retained = load_operation_replays (live_revisions (st_entries st)) (tb_operations t) in
            case prune_persisted_operation_replays R (ro_values retained) t d2 of
              None \<Rightarrow> None
            | Some (_, t1, d3) \<Rightarrow> Some (start (adopt_operations retained st) t1 d3))"

end
