(* ===== verification/Kv_Records.thy ===== *)
theory Kv_Records
  imports Kv_Writer
begin

text \<open>The records of the key-value store: what is written is read back, and nothing else is accepted.\<close>

definition result_ok :: "NativeMutationResult \<Rightarrow> bool" where
  "result_ok r \<longleftrightarrow> length (mr_content_hash r) = 32 \<and> Status_from_code (Status_code (mr_status r)) = mr_status r"

definition witness_ok :: "nat \<Rightarrow> NativeStageWitness \<Rightarrow> bool" where
  "witness_ok ordinal w \<longleftrightarrow>
     unat (sw_ordinal w) = ordinal \<and> sw_original_handle w \<noteq> 0 \<and> sw_byte_len w \<le> kv_max_value_bytes kv_HARD
     \<and> length (sw_content_hash w) = 32"

definition dedup_ok :: "NativeDedupResult \<Rightarrow> bool" where
  "dedup_ok r \<longleftrightarrow>
     length (dr_fingerprint r) = 32 \<and> dr_settlement_sequence r \<noteq> 0 \<and> dr_store_revision r \<noteq> 0
     \<and> length (dr_results r) \<le> MAX_BATCH_ITEMS \<and> list_all result_ok (dr_results r)
     \<and> length (dr_stage_witnesses r) \<le> MAX_STAGE_WITNESSES_PER_OPERATION
     \<and> (\<forall>i < length (dr_stage_witnesses r). witness_ok i (dr_stage_witnesses r ! i))"

lemma byte_range_append:
  "byte_range a b (xs @ ys) = (if length xs \<le> a then byte_range (a - length xs) (b - length xs) ys
     else if b \<le> length xs then byte_range a b xs else byte_range a (length xs) xs @ byte_range 0 (b - length xs) ys)"
  by (auto simp: byte_range_def)

lemma byte_range_all [simp]: "length xs = n \<Longrightarrow> byte_range 0 n xs = xs"
  by (simp add: byte_range_def)

lemma from_le_bytes [simp]:
  "from_le (le_bytes 8 x) = (x :: u64)" "from_le (le_bytes 2 y) = (y :: u16)"
  by (simp_all add: from_le_le_bytes take_bit_word_eq_self)

lemma length_magic [simp]: "length OPERATION_RECORD_MAGIC = 4"
  by (simp add: OPERATION_RECORD_MAGIC_def)

lemma length_encode_result [simp]: "result_ok r \<Longrightarrow> length (encode_result r) = 58"
  by (simp add: encode_result_def result_ok_def)

lemma length_encode_witness [simp]: "witness_ok i w \<Longrightarrow> length (encode_witness w) = 50"
  by (simp add: encode_witness_def witness_ok_def)

lemma decode_encode_results:
  "list_all result_ok rs \<Longrightarrow> decode_results (length rs) (concat (map encode_result rs) @ rest) = (rs, rest)"
proof (induction rs)
  case (Cons r rs)
  then have "result_ok r"
    by simp
  then show ?case
    using Cons by (simp add: encode_result_def byte_range_append result_ok_def)
qed simp

lemma decode_encode_witnesses:
  "(\<forall>i < length ws. witness_ok (n + i) (ws ! i)) \<Longrightarrow> decode_witnesses n (length ws) (concat (map encode_witness ws)) = Some ws"
proof (induction ws arbitrary: n)
  case (Cons w ws)
  have w: "witness_ok n w" "\<forall>i < length ws. witness_ok (Suc n + i) (ws ! i)"
    using Cons.prems by (force simp: All_less_Suc2)+
  then show ?case
    using Cons.IH[OF w(2)] by (simp add: encode_witness_def byte_range_append witness_ok_def Let_def leD)
qed simp

lemma length_concat_same: "(\<And>x. x \<in> set xs \<Longrightarrow> length (f x) = n) \<Longrightarrow> length (concat (map f xs)) = n * length xs"
  by (induction xs) simp_all

lemma dedup_lengths:
  assumes "dedup_ok r"
  shows "length (concat (map encode_result (dr_results r))) = 58 * length (dr_results r)"
    and "length (concat (map encode_witness (dr_stage_witnesses r))) = 50 * length (dr_stage_witnesses r)"
proof -
  show "length (concat (map encode_result (dr_results r))) = 58 * length (dr_results r)"
    using assms by (intro length_concat_same) (simp add: dedup_ok_def list_all_iff)
  show "length (concat (map encode_witness (dr_stage_witnesses r))) = 50 * length (dr_stage_witnesses r)"
    using assms by (intro length_concat_same) (metis dedup_ok_def in_set_conv_nth length_encode_witness)
qed

lemma length_encode_dedup:
  "dedup_ok r \<Longrightarrow> length (encode_native_dedup r) = 56 + 58 * length (dr_results r) + 50 * length (dr_stage_witnesses r)"
  by (simp add: encode_native_dedup_def dedup_lengths) (simp add: dedup_ok_def)

lemma decode_encode:
  assumes "dedup_ok r"
  shows "decode_native_dedup (encode_native_dedup r) = Some r"
proof -
  have ok: "length (dr_fingerprint r) = 32" "length (dr_results r) \<le> 256" "length (dr_stage_witnesses r) \<le> 16"
    using assms by (simp_all add: dedup_ok_def MAX_BATCH_ITEMS_def MAX_STAGE_WITNESSES_PER_OPERATION_def kv_HARD_def)
  note dedup_lengths[OF assms]
  moreover have "unat (of_nat (length (dr_results r)) :: u16) = length (dr_results r)"
    "unat (of_nat (length (dr_stage_witnesses r)) :: u16) = length (dr_stage_witnesses r)"
    using ok by (simp_all add: unat_of_nat)
  ultimately show ?thesis
    using assms ok(1) decode_encode_witnesses[of "dr_stage_witnesses r" 0]
    by (simp add: decode_native_dedup_def encode_native_dedup_def byte_range_append dedup_ok_def decode_encode_results Let_def leD
        OPERATION_RECORD_HEADER_BYTES_def OPERATION_RESULT_ENCODED_BYTES_def STAGE_WITNESS_ENCODED_BYTES_def)
qed

lemma le_bytes_range:
  "b \<le> length raw \<Longrightarrow> b - a = 8 \<Longrightarrow> le_bytes 8 (from_le (byte_range a b raw) :: u64) = byte_range a b raw"
  "b \<le> length raw \<Longrightarrow> b - a = 2 \<Longrightarrow> le_bytes 2 (from_le (byte_range a b raw) :: u16) = byte_range a b raw"
  using le_bytes_from_le[of "byte_range a b raw", where 'a = 64] le_bytes_from_le[of "byte_range a b raw", where 'a = 16]
  by (simp_all add: byte_range_def)

lemma range_join: "a \<le> b \<Longrightarrow> b \<le> c \<Longrightarrow> byte_range a b raw @ byte_range b c raw = byte_range a c raw"
proof -
  assume "a \<le> b" "b \<le> c"
  then have "byte_range a c raw = take ((b - a) + (c - b)) (drop a raw)"
    by (simp add: byte_range_def)
  also have "\<dots> = take (b - a) (drop a raw) @ take (c - b) (drop (b - a) (drop a raw))"
    by (rule take_add)
  finally show ?thesis
    using \<open>a \<le> b\<close> by (simp add: byte_range_def)
qed

lemma range_join_more: "a \<le> b \<Longrightarrow> b \<le> c \<Longrightarrow> byte_range a b raw @ byte_range b c raw @ zs = byte_range a c raw @ zs"
  by (simp add: range_join flip: append_assoc)

lemma length_range: "b \<le> length raw \<Longrightarrow> length (byte_range a b raw) = b - a"
  by (simp add: byte_range_def)

lemma range_drop: "length raw = n \<Longrightarrow> byte_range a n raw = drop a raw" "byte_range 0 n raw = take n raw"
  by (simp_all add: byte_range_def)

lemma encode_decode_results:
  "58 * count \<le> length raw \<Longrightarrow> decode_results count raw = (rs, rest) \<Longrightarrow>
    length rs = count \<and> list_all result_ok rs \<and> raw = concat (map encode_result rs) @ rest \<and> rest = drop (58 * count) raw"
proof (induction count arbitrary: raw rs)
  case (Suc count)
  let ?r = "\<lparr>mr_status = Status_from_code (from_le (byte_range 0 2 raw)), mr_modification_revision = from_le (byte_range 2 10 raw),
      mr_mtime_ns = from_le (byte_range 10 18 raw), mr_content_hash = byte_range 18 50 raw, mr_byte_len = from_le (byte_range 50 58 raw)\<rparr>"
  obtain rs' where rs: "decode_results count (drop 58 raw) = (rs', rest)" "rs = ?r # rs'"
    using Suc.prems(2) by (auto simp: Let_def split: prod.splits)
  have "58 * count \<le> length (drop 58 raw)"
    using Suc.prems(1) by simp
  note IH = Suc.IH[OF this rs(1)]
  have r: "encode_result ?r = take 58 raw"
    using Suc.prems(1) by (simp add: encode_result_def le_bytes_range range_join flip: range_drop(2)[of 58])
  have "concat (map encode_result rs) @ rest = take 58 raw @ (concat (map encode_result rs') @ rest)"
    unfolding rs(2) by (simp add: r)
  also have "concat (map encode_result rs') @ rest = drop 58 raw"
    using IH by simp
  finally have "raw = concat (map encode_result rs) @ rest"
    by simp
  moreover have "result_ok ?r"
    using Suc.prems(1) by (simp add: result_ok_def length_range)
  moreover have "length rs = Suc count" "list_all result_ok rs'" "rest = drop (58 * Suc count) raw"
    using IH by (simp_all add: rs(2) add.commute)
  ultimately show ?case
    by (simp add: rs(2))
qed simp

lemma encode_decode_witnesses:
  "50 * count = length raw \<Longrightarrow> decode_witnesses n count raw = Some ws \<Longrightarrow>
    length ws = count \<and> (\<forall>i < count. witness_ok (n + i) (ws ! i)) \<and> raw = concat (map encode_witness ws)"
proof (induction count arbitrary: n raw ws)
  case (Suc count)
  let ?w = "\<lparr>sw_ordinal = from_le (byte_range 0 2 raw), sw_original_handle = from_le (byte_range 2 10 raw), sw_byte_len = from_le (byte_range 10 18 raw),
      sw_content_hash = byte_range 18 50 raw\<rparr>"
  obtain ws' where ws: "decode_witnesses (Suc n) count (drop 50 raw) = Some ws'" "ws = ?w # ws'"
    and ok: "unat (sw_ordinal ?w) = n" "sw_original_handle ?w \<noteq> 0" "sw_byte_len ?w \<le> kv_max_value_bytes kv_HARD"
    using Suc.prems(2) by (auto simp: Let_def not_less split: if_splits option.splits)
  have IH: "length ws' = count" "\<forall>i < count. witness_ok (Suc n + i) (ws' ! i)" "drop 50 raw = concat (map encode_witness ws')"
    using Suc.IH[OF _ ws(1)] Suc.prems(1) by simp_all
  have "encode_witness ?w = take 50 raw"
    using Suc.prems(1) by (simp add: encode_witness_def le_bytes_range range_join flip: range_drop(2)[of 50])
  then have "raw = concat (map encode_witness ws)"
    unfolding ws(2) by (simp flip: IH(3))
  moreover have "witness_ok n ?w"
    using ok Suc.prems(1) by (simp add: witness_ok_def length_range)
  ultimately show ?case
    using IH by (auto simp: ws(2) All_less_Suc2 nth_Cons split: nat.split)
qed simp

lemma encode_decode:
  assumes "decode_native_dedup raw = Some r"
  shows "dedup_ok r \<and> raw = encode_native_dedup r"
proof -
  let ?count = "unat (from_le (byte_range 52 54 raw) :: u16)" and ?witnesses = "unat (from_le (byte_range 54 56 raw) :: u16)"
  obtain rs rest ws where raw: "56 \<le> length raw" "take 4 raw = OPERATION_RECORD_MAGIC"
    "length raw = 56 + ?count * 58 + ?witnesses * 50" "?count \<le> MAX_BATCH_ITEMS" "?witnesses \<le> MAX_STAGE_WITNESSES_PER_OPERATION"
    and rs: "decode_results ?count (drop 56 raw) = (rs, rest)" and ws: "decode_witnesses 0 ?witnesses rest = Some ws"
    and r: "r = \<lparr>dr_fingerprint = byte_range 12 44 raw, dr_store_revision = from_le (byte_range 44 52 raw),
      dr_settlement_sequence = from_le (byte_range 4 12 raw), dr_results = rs, dr_stage_witnesses = ws\<rparr>"
    and nonzero: "dr_settlement_sequence r \<noteq> 0" "dr_store_revision r \<noteq> 0"
    using assms by (auto simp: decode_native_dedup_def Let_def OPERATION_RECORD_HEADER_BYTES_def OPERATION_RESULT_ENCODED_BYTES_def
        STAGE_WITNESS_ENCODED_BYTES_def not_less split: if_splits prod.splits option.splits)
  have results: "length rs = ?count \<and> list_all result_ok rs \<and> drop 56 raw = concat (map encode_result rs) @ rest
      \<and> rest = drop (58 * ?count) (drop 56 raw)"
    using raw(3) by (intro encode_decode_results[OF _ rs]) simp
  then have "50 * ?witnesses = length rest"
    using raw(3) by simp
  note witnesses = encode_decode_witnesses[OF this ws]
  have len: "of_nat (length rs) = (from_le (byte_range 52 54 raw) :: u16)" "of_nat (length ws) = (from_le (byte_range 54 56 raw) :: u16)"
    using results witnesses by simp_all
  have "encode_native_dedup r = take 4 raw @ byte_range 4 56 raw @ concat (map encode_result rs) @ rest"
    using raw(1) witnesses len
    by (simp add: encode_native_dedup_def r raw(2) le_bytes_range range_join_more)
  also have "\<dots> = byte_range 0 56 raw @ drop 56 raw"
    using results by (simp add: range_join_more flip: range_drop(2)[of 4])
  also have "\<dots> = raw"
    by (simp add: range_drop(2))
  finally have "raw = encode_native_dedup r"
    by (rule sym)
  moreover have "dedup_ok r"
    using raw nonzero results witnesses by (simp add: dedup_ok_def r length_range)
  ultimately show ?thesis
    by simp
qed

text \<open>Rows of the table of entries.\<close>

lemma row_fields [simp]:
  "from_le (take 8 (encode_row v mtime revision)) = mtime" "from_le (byte_range 8 16 (encode_row v mtime revision)) = revision"
  "drop 16 (encode_row v mtime revision) = v" "length (encode_row v mtime revision) = 16 + length v"
  by (simp_all add: encode_row_def byte_range_append)

end
