(* ===== verification/Kv_Retention.thy ===== *)
theory Kv_Retention
  imports Kv_Records
begin

text \<open>
  Which operations the key-value store remembers: the last ones and those that pin a live entry.  Pruning keeps exactly these; loading the table of a pruned
  store gives back what the store remembered, in the same order.
\<close>

section \<open>Pruning\<close>

definition pins_at :: "u64 list \<Rightarrow> (bytes, NativeDedupResult) BTreeMap \<Rightarrow> u64 \<Rightarrow> bytes \<Rightarrow> bool" where
  "pins_at live ops revision operation_id \<longleftrightarrow>
     (case bt_get ops operation_id of None \<Rightarrow> False
      | Some r \<Rightarrow> dr_store_revision r = revision \<and> operation_pins_live_entry r live)"

definition pinned_ids :: "u64 list \<Rightarrow> (bytes, NativeDedupResult) BTreeMap \<Rightarrow> bytes list \<Rightarrow> bytes set" where
  "pinned_ids live ops order = {i. \<exists>revision. find (pins_at live ops revision) (rev order) = Some i}"

definition recent_ids :: "bytes list \<Rightarrow> bytes set" where
  "recent_ids order = set (take MAX_RECENT_OPERATION_REPLAYS (rev order))"

definition kept_ids :: "u64 list \<Rightarrow> (bytes, NativeDedupResult) BTreeMap \<Rightarrow> bytes list \<Rightarrow> bytes set" where
  "kept_ids live ops order = pinned_ids live ops order \<union> recent_ids order"

abbreviation pin_step :: "u64 list \<Rightarrow> (bytes, NativeDedupResult) BTreeMap \<Rightarrow> bytes \<Rightarrow> (u64, bytes) BTreeMap \<Rightarrow> (u64, bytes) BTreeMap" where
  "pin_step live ops \<equiv> \<lambda>operation_id m.
     case bt_get ops operation_id of
       None \<Rightarrow> m
     | Some r \<Rightarrow> if operation_pins_live_entry r live then bt_insert (dr_store_revision r) operation_id m else m"

lemma pinned_by_revision: "bt_get (fold (pin_step live ops) order bt_empty) revision = find (pins_at live ops revision) (rev order)"
  by (induction order rule: rev_induct) (auto simp: pins_at_def split: option.splits)

lemma pinned_values: "set (bt_values (fold (pin_step live ops) order bt_empty)) = pinned_ids live ops order"
  by (auto simp: bt_values_set ran_def pinned_by_revision pinned_ids_def)

lemma bt_get_fold_remove: "bt_get (fold bt_remove ks m) k = (if k \<in> set ks then None else bt_get m k)"
  by (induction ks arbitrary: m) auto

lemma prune_eq:
  assumes "prune_operation_replays es ops order = (evicted, ops', order')"
  shows "order' = filter (\<lambda>i. i \<in> kept_ids (live_revisions es) ops order) order"
    and "set evicted = set order - kept_ids (live_revisions es) ops order"
    and "bt_get ops' i = (if i \<in> set order - kept_ids (live_revisions es) ops order then None else bt_get ops i)"
  using assms
  by (auto simp: prune_operation_replays_def Let_def pinned_values kept_ids_def recent_ids_def bt_get_fold_remove
      intro!: filter_cong)

text \<open>Keeping what is kept changes nothing about what is kept.\<close>

lemma take_filter: "(\<And>x. x \<in> set (take n xs) \<Longrightarrow> P x) \<Longrightarrow> take n (filter P xs) = take n xs"
proof (induction xs arbitrary: n)
  case (Cons x xs)
  then show ?case
    by (cases n) auto
qed simp

lemma find_filter: "(\<And>x. find P xs = Some x \<Longrightarrow> Q x) \<Longrightarrow> find P (filter Q xs) = find P xs"
  by (induction xs) auto

lemma find_cong: "(\<And>x. x \<in> set xs \<Longrightarrow> P x = Q x) \<Longrightarrow> find P xs = find Q xs"
  by (induction xs) auto

lemma find_split: "find P xs = Some x \<Longrightarrow> \<exists>ys zs. xs = ys @ x # zs \<and> P x \<and> (\<forall>y \<in> set ys. \<not> P y)"
proof (induction xs)
  case (Cons a xs)
  show ?case
  proof (cases "P a")
    case False
    then obtain ys zs where "xs = ys @ x # zs" "P x" "\<forall>y \<in> set ys. \<not> P y"
      using Cons by auto
    with False show ?thesis
      by (intro exI[of _ "a # ys"] exI[of _ zs]) simp
  qed (use Cons.prems in force)
qed simp

lemma kept_ids_prune:
  assumes "prune_operation_replays es ops order = (evicted, ops', order')"
  shows "kept_ids (live_revisions es) ops' order' = kept_ids (live_revisions es) ops order"
proof -
  let ?K = "kept_ids (live_revisions es) ops order"
  note eq = prune_eq[OF assms]
  have "recent_ids order' = recent_ids order"
    unfolding recent_ids_def eq(1) rev_filter by (subst take_filter) (auto simp: kept_ids_def recent_ids_def)
  moreover have "find (pins_at (live_revisions es) ops' revision) (rev order') = find (pins_at (live_revisions es) ops revision) (rev order)" for revision
  proof -
    have "find (pins_at (live_revisions es) ops' revision) (rev order') = find (pins_at (live_revisions es) ops revision) (rev order')"
      by (rule find_cong) (simp add: eq(1) pins_at_def eq(3))
    also have "\<dots> = find (pins_at (live_revisions es) ops revision) (rev order)"
      unfolding eq(1) rev_filter by (rule find_filter) (auto simp: kept_ids_def pinned_ids_def)
    finally show ?thesis .
  qed
  ultimately show ?thesis
    by (simp add: kept_ids_def pinned_ids_def)
qed

section \<open>What a store remembers\<close>

definition sequence_of :: "(bytes, NativeDedupResult) BTreeMap \<Rightarrow> bytes \<Rightarrow> u64" where
  "sequence_of ops i = dr_settlement_sequence (the (bt_get ops i))"

definition operations_ok :: "(bytes, Entry) BTreeMap \<Rightarrow> (bytes, NativeDedupResult) BTreeMap \<Rightarrow> bytes list \<Rightarrow> bool" where
  "operations_ok es ops order \<longleftrightarrow>
     distinct order \<and> set order = dom (bt_get ops) \<and> sorted_wrt (<) (map (sequence_of ops) order)
     \<and> set order \<subseteq> kept_ids (live_revisions es) ops order
     \<and> (\<forall>i r. bt_get ops i = Some r \<longrightarrow> length i = 16 \<and> dedup_ok r)"

lemma operations_ok_empty: "operations_ok es bt_empty []"
  by (simp add: operations_ok_def)

lemma plan_ok:
  assumes "operations_ok es0 ops order" and "bt_get ops i = None" "length i = 16" "dedup_ok r"
    and "\<And>j s. bt_get ops j = Some s \<Longrightarrow> dr_settlement_sequence s < dr_settlement_sequence r"
  shows "operations_ok es (rp_values (plan_operation_replay es ops order i r)) (rp_order (plan_operation_replay es ops order i r))"
proof -
  obtain evicted ops' order' where prune: "prune_operation_replays es (bt_insert i r ops) (order @ [i]) = (evicted, ops', order')"
    by (metis prod_cases3)
  let ?ops = "bt_insert i r ops" and ?order = "order @ [i]"
  note eq = prune_eq[OF prune]
  have old: "distinct order" "set order = dom (bt_get ops)" "sorted_wrt (<) (map (sequence_of ops) order)"
    "\<And>j s. bt_get ops j = Some s \<Longrightarrow> length j = 16 \<and> dedup_ok s"
    using assms(1) by (auto simp: operations_ok_def)
  have fresh: "i \<notin> set order"
    using old(2) assms(2) by auto
  have same: "map (sequence_of ?ops) order = map (sequence_of ops) order"
    using fresh by (auto simp: sequence_of_def)
  have last: "sequence_of ops j < sequence_of ?ops i" if "j \<in> set order" for j
    using that old(2) assms(5) by (auto simp: sequence_of_def)
  have sorted: "sorted_wrt (<) (map (sequence_of ?ops) ?order)"
    unfolding map_append same sorted_wrt_append using old(3) last by simp
  have "map (sequence_of ops') order' = map (sequence_of ?ops) order'"
    by (auto simp: eq(1) eq(3) sequence_of_def)
  moreover have "sorted_wrt (<) (map (sequence_of ?ops) order')"
    using sorted unfolding eq(1) sorted_wrt_map by (rule sorted_wrt_filter)
  ultimately have "sorted_wrt (<) (map (sequence_of ops') order')"
    by (simp only:)
  moreover have "set order' = dom (bt_get ops')"
    using old(2) by (auto simp: eq(1) eq(3) dom_def split: if_splits)
  moreover have "distinct order'" "set order' \<subseteq> kept_ids (live_revisions es) ops' order'"
    using old(1) fresh by (simp add: eq(1)) (simp add: kept_ids_prune[OF prune], auto simp: eq(1))
  moreover have "length j = 16 \<and> dedup_ok s" if "bt_get ops' j = Some s" for j s
    using that old(4) assms(3,4) by (auto simp: eq(3) split: if_splits)
  ultimately show ?thesis
    by (simp add: operations_ok_def plan_operation_replay_def prune)
qed

section \<open>Loading\<close>

text \<open>The last \<open>n\<close> of a list.\<close>

definition lastn :: "nat \<Rightarrow> 'a list \<Rightarrow> 'a list" where
  "lastn n xs = drop (length xs - n) xs"

lemma lastn_rev: "lastn n xs = rev (take n (rev xs))"
  by (simp add: lastn_def rev_take)

lemma length_place: "k \<notin> fst ` set es \<Longrightarrow> length (place k v es) = Suc (length es)"
  by (induction es) auto

lemma place_below: "(\<forall>e \<in> set es. k < fst e) \<Longrightarrow> place k v es = (k, v) # es"
  by (cases es) force+

lemma place_append:
  assumes "ordered (p @ t)" "k \<notin> fst ` set (p @ t)"
  shows "place k v (p @ t) = (if p \<noteq> [] \<and> k < fst (last p) then place k v p @ t else p @ place k v t)"
  using assms
proof (induction p)
  case (Cons e p)
  have "ordered (p @ t)" "\<forall>x \<in> set (p @ t). fst e < fst x"
    using Cons.prems(1) by (auto simp: ordered_def)
  note rest = this
  show ?case
  proof (cases "fst e < k")
    case True
    then show ?thesis
      using Cons.IH[OF rest(1)] Cons.prems(2) by auto
  next
    case False
    then have "k < fst e"
      using Cons.prems(2) by auto
    moreover have "k < fst (last (e # p))"
      using calculation rest(2) last_in_set[of p] by (cases "p = []") (auto intro: less_trans)
    ultimately show ?thesis
      using False by auto
  qed
qed simp

lemma lastn_place:
  assumes "ordered s" "k \<notin> fst ` set s"
  shows "lastn n (place k v s) = (let b = place k v (lastn n s) in if n < length b then tl b else b)"
proof (cases "length s \<le> n")
  case True
  then have "lastn n s = s"
    by (simp add: lastn_def)
  then show ?thesis
    using True by (auto simp: Let_def lastn_def length_place[OF assms(2)] Suc_diff_le drop_Suc not_less)
next
  case False
  define p where "p = take (length s - n) s"
  have s: "s = p @ lastn n s" "length (lastn n s) = n" "p \<noteq> []"
    using False by (auto simp: p_def lastn_def)
  have fresh: "k \<notin> fst ` set (lastn n s)" "k \<notin> fst ` set p"
    using assms(2) s(1) by (metis Un_iff image_Un set_append)+
  have "place k v s = (if k < fst (last p) then place k v p @ lastn n s else p @ place k v (lastn n s))"
    using place_append[of p "lastn n s" k v, folded s(1), OF assms] s(3) by (simp only: simp_thms)
  moreover have "place k v (lastn n s) = (k, v) # lastn n s" if "k < fst (last p)"
  proof (rule place_below)
    have "fst (last p) < fst e" if "e \<in> set (lastn n s)" for e
    proof -
      have "sorted_wrt (<) (map fst (p @ lastn n s))"
        using assms(1) unfolding ordered_def by (simp only: s(1)[symmetric])
      then show ?thesis
        using that last_in_set[OF s(3)] by (auto simp: sorted_wrt_append)
    qed
    then show "\<forall>e \<in> set (lastn n s). k < fst e"
      using that by (blast intro: less_trans)
  qed
  ultimately show ?thesis
    using s(2) length_place[OF fresh(1), of v] length_place[OF fresh(2), of v] by (auto simp: Let_def lastn_def drop_Suc)
qed

definition gather :: "u64 list \<Rightarrow> (bytes \<times> NativeDedupResult) list \<Rightarrow> candidates" where
  "gather live rows = fold (\<lambda>(i, r). retain_operation_candidate live i r) rows no_candidates"

lemma gather_snoc: "gather live (rows @ [(i, r)]) = retain_operation_candidate live i r (gather live rows)"
  by (simp add: gather_def)

abbreviation by_sequence :: "(bytes \<times> NativeDedupResult) list \<Rightarrow> (u64 \<times> bytes, NativeDedupResult) BTreeMap" where
  "by_sequence rows \<equiv> bt_collect (map (\<lambda>(i, r). ((dr_settlement_sequence r, i), r)) rows)"

lemma entries_pop_first: "entries (bt_pop_first m) = tl (entries m)"
proof (cases "entries m")
  case (Cons e es)
  then have "fst e \<notin> fst ` set es"
    using distinct_keys[of m] by simp
  then have "filter (\<lambda>x. fst x \<noteq> fst e) es = es"
    by (intro filter_True ballI) (metis imageI)
  with Cons show ?thesis
    by (simp add: bt_pop_first_def)
qed (simp add: bt_pop_first_def)

lemma keys_by_sequence:
  "distinct (map fst rows) \<Longrightarrow> fst ` set (entries (by_sequence rows)) = (\<lambda>(i, r). (dr_settlement_sequence r, i)) ` set rows"
proof -
  assume "distinct (map fst rows)"
  then have "distinct (map fst (map (\<lambda>(i, r). ((dr_settlement_sequence r, i), r)) rows))"
    by (induction rows) (auto simp: rev_image_eqI)
  then show ?thesis
    unfolding dom_bt_get[symmetric] by (simp add: bt_get_collect dom_map_of_conv_image_fst image_image case_prod_beta)
qed

lemma gather_recent:
  "distinct (map fst rows) \<Longrightarrow> entries (ca_recent (gather live rows)) = lastn MAX_RECENT_OPERATION_REPLAYS (entries (by_sequence rows))"
proof (induction rows rule: rev_induct)
  case Nil
  then show ?case
    by (simp add: gather_def no_candidates_def bt_collect_def lastn_def)
next
  case (snoc x rows)
  obtain i r where x: "x = (i, r)"
    by (cases x)
  let ?k = "(dr_settlement_sequence r, i)"
  have fresh: "?k \<notin> fst ` set (entries (by_sequence rows))"
    using snoc.prems by (auto simp: keys_by_sequence x rev_image_eqI)
  have "entries (by_sequence (rows @ [x])) = place ?k r (entries (by_sequence rows))"
    by (simp add: x bt_collect_def)
  then show ?case
    using snoc.IH snoc.prems
    by (simp add: x gather_snoc retain_operation_candidate_def Let_def lastn_place[OF ordered_entries fresh] entries_pop_first bt_len_def)
qed

definition sequence_key :: "bytes \<times> NativeDedupResult \<Rightarrow> u64 \<times> bytes" where
  "sequence_key x = (dr_settlement_sequence (snd x), fst x)"

lemma gather_unpinned:
  "bt_get (ca_pinned (gather live rows)) revision = None \<longleftrightarrow>
    (\<forall>x \<in> set rows. \<not> (operation_pins_live_entry (snd x) live \<and> dr_store_revision (snd x) = revision))"
proof (induction rows rule: rev_induct)
  case (snoc x rows)
  then show ?case
    by (cases x) (auto simp: gather_snoc retain_operation_candidate_def Let_def)
qed (simp add: gather_def no_candidates_def)

lemma gather_pinned:
  "bt_get (ca_pinned (gather live rows)) revision = Some c \<Longrightarrow>
    c \<in> set rows \<and> operation_pins_live_entry (snd c) live \<and> dr_store_revision (snd c) = revision
    \<and> (\<forall>x \<in> set rows. operation_pins_live_entry (snd x) live \<longrightarrow> dr_store_revision (snd x) = revision \<longrightarrow> sequence_key x \<le> sequence_key c)"
proof (induction rows arbitrary: c rule: rev_induct)
  case Nil
  then show ?case
    by (simp add: gather_def no_candidates_def)
next
  case (snoc x rows)
  let ?old = "bt_get (ca_pinned (gather live rows)) revision"
  have step: "bt_get (ca_pinned (gather live (rows @ [x]))) revision =
      (if operation_pins_live_entry (snd x) live \<and> dr_store_revision (snd x) = revision
          \<and> (\<forall>d. ?old = Some d \<longrightarrow> sequence_key d < sequence_key x) then Some x else ?old)"
    by (cases x) (auto simp: gather_snoc retain_operation_candidate_def Let_def sequence_key_def split: option.split)
  show ?case
  proof (cases "operation_pins_live_entry (snd x) live \<and> dr_store_revision (snd x) = revision
          \<and> (\<forall>d. ?old = Some d \<longrightarrow> sequence_key d < sequence_key x)")
    case True
    then have c: "c = x"
      using snoc.prems by (simp add: step)
    have "sequence_key y \<le> sequence_key x"
      if "y \<in> set rows" "operation_pins_live_entry (snd y) live" "dr_store_revision (snd y) = revision" for y
    proof -
      have "?old \<noteq> None"
        using that unfolding gather_unpinned by blast
      then obtain d where d: "?old = Some d"
        by blast
      then show ?thesis
        using snoc.IH[OF d] True that by (blast intro: order_trans less_imp_le)
    qed
    then show ?thesis
      using True by (auto simp: c)
  next
    case False
    then have "?old = Some c"
      using snoc.prems by (simp only: step if_False)
    from snoc.IH[OF this] this False show ?thesis
      by (auto simp: not_less)
  qed
qed

lemma gather_maxima:
  "ca_maximum_store_revision (gather live rows) = fold max (map (dr_store_revision \<circ> snd) rows) 1"
  "ca_maximum_sequence (gather live rows) = fold max (map (dr_settlement_sequence \<circ> snd) rows) 0"
proof (induction rows rule: rev_induct)
  case (snoc x rows)
  case 1
  with snoc show ?case
    by (cases x) (simp add: gather_snoc retain_operation_candidate_def Let_def max.commute)
  case 2
  with snoc show ?case
    by (cases x) (simp add: gather_snoc retain_operation_candidate_def Let_def max.commute)
qed (simp_all add: gather_def no_candidates_def)

lemma load_gathers:
  assumes "\<And>i r. bt_get ops i = Some r \<Longrightarrow> length i = 16 \<and> dedup_ok r"
  shows "load_operation_replays live (bt_map encode_native_dedup ops) = finish_retained_operations (gather live (entries ops))"
proof -
  have "entries (bt_map encode_native_dedup ops) = map (\<lambda>(i, r). (i, encode_native_dedup r)) (entries ops)"
    by transfer simp
  moreover have "fold (load_operation_row live) (map (\<lambda>(i, r). (i, encode_native_dedup r)) rows) c = fold (\<lambda>(i, r). retain_operation_candidate live i r) rows c"
    if "set rows \<subseteq> set (entries ops)" for rows c
    using that
  proof (induction rows arbitrary: c)
    case (Cons x rows)
    then have "length (fst x) = 16 \<and> dedup_ok (snd x)"
      using assms in_entries_iff[of "fst x" "snd x" ops] by simp
    with Cons show ?case
      by (cases x) (simp add: load_operation_row_def decode_encode)
  qed simp
  ultimately show ?thesis
    by (simp add: load_operation_replays_def gather_def)
qed

lemma or_insert_fold:
  "bt_get (fold (\<lambda>((_, i), r) m. if bt_has m i then m else bt_insert i r m) xs m) k =
     (case bt_get m k of Some v \<Rightarrow> Some v | None \<Rightarrow> map_of (map (\<lambda>((_, i), r). (i, r)) xs) k)"
proof (induction xs arbitrary: m)
  case (Cons x xs)
  obtain q i r where x: "x = ((q, i), r)"
    by (cases x) auto
  have "bt_get m i \<noteq> None" if "bt_has m i"
    using that by (simp add: bt_has_def)
  moreover have "bt_get m i = None" if "\<not> bt_has m i"
    using that by (simp add: bt_has_def)
  ultimately show ?case
    by (cases "bt_has m i") (auto simp: x Cons.IH split: option.split)
qed (simp split: option.split)

lemma recent_of_order:
  assumes "operations_ok es ops order"
  shows "entries (by_sequence (entries ops)) = map (\<lambda>i. ((sequence_of ops i, i), the (bt_get ops i))) order"
proof (rule ordered_unique)
  let ?xs = "map (\<lambda>i. ((sequence_of ops i, i), the (bt_get ops i))) order"
  have ok: "distinct order" "set order = dom (bt_get ops)" "sorted_wrt (<) (map (sequence_of ops) order)"
    using assms by (simp_all add: operations_ok_def)
  show "ordered ?xs"
    using ok(3) by (auto simp: ordered_def sorted_wrt_map less_prod_def elim!: sorted_wrt_mono_rel[rotated])
  show "ordered (entries (by_sequence (entries ops)))"
    by simp
  have keys: "distinct (map fst (map (\<lambda>(i, r). ((dr_settlement_sequence r, i), r)) (entries ops)))"
    using distinct_keys[of ops] by (auto simp: distinct_map inj_on_def case_prod_beta)
  have "map_of (entries (by_sequence (entries ops))) = map_of (map (\<lambda>(i, r). ((dr_settlement_sequence r, i), r)) (entries ops))"
    unfolding bt_get_entries[symmetric] by (rule bt_get_collect[OF keys])
  also have "\<dots> = map_of ?xs"
  proof -
    have "distinct (map fst ?xs)"
      using ok(1) by (simp add: distinct_map inj_on_def comp_def)
    moreover have "set (map (\<lambda>(i, r). ((dr_settlement_sequence r, i), r)) (entries ops)) = set ?xs"
      using ok(2) by (force simp: sequence_of_def in_entries_iff)
    ultimately show ?thesis
      using map_of_inject_set[OF keys] by blast
  qed
  finally show "map_of (entries (by_sequence (entries ops))) = map_of ?xs" .
qed

lemma bt_get_collect_rev: "bt_get (bt_collect es) = map_of (rev es)"
  by (induction es rule: rev_induct) (auto simp: bt_collect_def)

lemma bt_eq_from:
  assumes "\<And>k v. bt_get m k = Some v \<Longrightarrow> bt_get n k = Some v" and "\<And>k. k \<in> dom (bt_get n) \<Longrightarrow> bt_get m k \<noteq> None"
  shows "m = n"
proof (intro bt_eqI ext)
  fix k
  show "bt_get m k = bt_get n k"
    using assms(1)[of k] assms(2)[of k] by (cases "bt_get m k"; cases "bt_get n k") auto
qed

lemma pinned_gathered:
  assumes ok: "operations_ok es ops order" and "i \<in> pinned_ids (live_revisions es) ops order"
  shows "i \<in> fst ` set (bt_values (ca_pinned (gather (live_revisions es) (entries ops))))"
proof -
  let ?live = "live_revisions es" and ?pinned = "ca_pinned (gather (live_revisions es) (entries ops))"
  obtain revision where find: "find (pins_at ?live ops revision) (rev order) = Some i"
    using assms(2) by (auto simp: pinned_ids_def)
  then obtain later earlier where split: "rev order = later @ i # earlier" and "pins_at ?live ops revision i"
    and none: "\<forall>j \<in> set later. \<not> pins_at ?live ops revision j"
    using find_split by metis
  then obtain r where r: "bt_get ops i = Some r" "dr_store_revision r = revision" "operation_pins_live_entry r ?live"
    by (auto simp: pins_at_def split: option.splits)
  have "bt_get ?pinned revision \<noteq> None"
    unfolding gather_unpinned using r in_entries_iff[of i r ops] by force
  then obtain c where c: "bt_get ?pinned revision = Some c"
    by blast
  note best = gather_pinned[OF c]
  have "fst c \<in> set (rev order)"
    using best ok in_entries_iff[of "fst c" "snd c" ops] by (auto simp: operations_ok_def)
  moreover have "fst c \<notin> set later"
    using best none in_entries_iff[of "fst c" "snd c" ops] by (auto simp: pins_at_def)
  moreover have "fst c \<notin> set earlier"
  proof
    assume "fst c \<in> set earlier"
    then have "sequence_of ops (fst c) < sequence_of ops i"
      using ok arg_cong[OF split, of rev] by (auto simp: operations_ok_def sorted_wrt_append)
    moreover have "sequence_key (i, r) \<le> sequence_key c"
      using best r in_entries_iff[of i r ops] by auto
    ultimately show False
      using best r(1) in_entries_iff[of "fst c" "snd c" ops] by (auto simp: sequence_key_def sequence_of_def less_eq_prod_def)
  qed
  ultimately have "fst c = i"
    by (auto simp: split)
  then show ?thesis
    using c by (auto simp: bt_values_set ran_def)
qed

lemma load_retained:
  assumes ok: "operations_ok es ops order"
  shows "load_operation_replays (live_revisions es) (bt_map encode_native_dedup ops) =
    \<lparr>ro_values = ops, ro_order = order, ro_maximum_store_revision = fold max (map (dr_store_revision \<circ> snd) (entries ops)) 1,
     ro_maximum_sequence = fold max (map (dr_settlement_sequence \<circ> snd) (entries ops)) 0\<rparr>"
proof -
  let ?c = "gather (live_revisions es) (entries ops)"
  let ?kept = "fold (\<lambda>((_, i), r) m. if bt_has m i then m else bt_insert i r m) (entries (ca_recent ?c)) (bt_collect (bt_values (ca_pinned ?c)))"
  have recent: "entries (ca_recent ?c) = lastn MAX_RECENT_OPERATION_REPLAYS (map (\<lambda>i. ((sequence_of ops i, i), the (bt_get ops i))) order)"
    by (simp add: gather_recent recent_of_order[OF ok])
  have order: "distinct order" "set order = dom (bt_get ops)" "sorted_wrt (<) (map (sequence_of ops) order)"
    using ok by (simp_all add: operations_ok_def)
  have pinned: "bt_get ops i = Some r" if "(i, r) \<in> set (bt_values (ca_pinned ?c))" for i r
    using that gather_pinned[of "live_revisions es" "entries ops" _ "(i, r)"] by (auto simp: bt_values_set ran_def in_entries_iff)
  have sound: "bt_get ops i = Some r" if "bt_get ?kept i = Some r" for i r
    using that unfolding or_insert_fold
    by (auto simp: bt_get_collect_rev recent lastn_def drop_map split: option.splits dest!: map_of_SomeD dest: pinned in_set_dropD)
      (use order(2) in_set_dropD in fastforce)
  have "bt_get ?kept i \<noteq> None" if "i \<in> dom (bt_get ops)" for i
  proof -
    have "i \<in> fst ` set (bt_values (ca_pinned ?c)) \<or> i \<in> recent_ids order"
      using that ok pinned_gathered[OF ok] by (auto simp: operations_ok_def kept_ids_def)
    moreover have "recent_ids order = set (lastn MAX_RECENT_OPERATION_REPLAYS order)"
      by (simp add: recent_ids_def lastn_rev)
    ultimately show ?thesis
      unfolding or_insert_fold
      by (auto simp: bt_get_collect_rev map_of_eq_None_iff recent lastn_def drop_map image_image rev_image_eqI split: option.splits)
  qed
  with sound have kept: "?kept = ops"
    by (rule bt_eq_from)
  have "sort (map (\<lambda>(i, r). (dr_settlement_sequence r, i)) (entries ops)) = map (\<lambda>i. (sequence_of ops i, i)) order"
  proof (rule sorted_distinct_set_unique)
    show "sorted (map (\<lambda>i. (sequence_of ops i, i)) order)"
      using order(3) by (auto simp: sorted_wrt_map less_eq_prod_def elim!: sorted_wrt_mono_rel[rotated])
    show "distinct (sort (map (\<lambda>(i, r). (dr_settlement_sequence r, i)) (entries ops)))"
      using distinct_keys[of ops] by (force simp: distinct_map inj_on_def)
    show "distinct (map (\<lambda>i. (sequence_of ops i, i)) order)"
      using order(1) by (simp add: distinct_map inj_on_def)
    show "set (sort (map (\<lambda>(i, r). (dr_settlement_sequence r, i)) (entries ops))) = set (map (\<lambda>i. (sequence_of ops i, i)) order)"
      using order(2) by (force simp: sequence_of_def in_entries_iff)
  qed simp
  then show ?thesis
    using ok load_gathers[of ops "live_revisions es"]
    by (simp add: finish_retained_operations_def Let_def kept gather_maxima comp_def operations_ok_def)
qed

end
