(* ===== verification/Kv_Settle.thy ===== *)
theory Kv_Settle
  imports Kv_Retention
begin

text \<open>
  What a mutation does to the key-value store: the cases of an answer, the invariant of the store, and the job that is queued, which turns the tables
  of the old store into those of the new one.
\<close>

section \<open>Requests\<close>

record kv_request =
  rq_now_ns :: u64
  rq_operation_id :: bytes
  rq_fingerprint :: bytes
  rq_durable :: bool
  rq_stage_witnesses :: "NativeStageWitness list"
  rq_mutations :: "NativeMutation list"

definition answer_request :: "(string \<Rightarrow> u64 option) \<Rightarrow> kv_request \<Rightarrow> Kv \<Rightarrow> (NativeMutationError + NativeCommit) \<times> Kv" where
  "answer_request deployment rq K =
     native_mutate deployment (rq_now_ns rq) (rq_operation_id rq) (rq_fingerprint rq) (rq_durable rq) (rq_stage_witnesses rq) (rq_mutations rq) K"

text \<open>The fixed widths of the source's arrays; the content hash is the hash of the content, and staged values are within the limit of the family.\<close>

fun mutation_typed :: "(bytes \<Rightarrow> bytes) \<Rightarrow> NativeMutation \<Rightarrow> bool" where
  "mutation_typed hash (Put _ _ v content_hash) \<longleftrightarrow> content_hash = hash v \<and> length content_hash = 32"
| "mutation_typed hash (Delete _ _) \<longleftrightarrow> True"

definition kv_request_typed :: "(bytes \<Rightarrow> bytes) \<Rightarrow> kv_request \<Rightarrow> bool" where
  "kv_request_typed hash rq \<longleftrightarrow>
     length (rq_operation_id rq) = 16 \<and> length (rq_fingerprint rq) = 32 \<and> list_all (mutation_typed hash) (rq_mutations rq)
     \<and> list_all (\<lambda>w. length (sw_content_hash w) = 32 \<and> sw_byte_len w \<le> kv_max_value_bytes kv_HARD) (rq_stage_witnesses rq)"

section \<open>Submitting a job\<close>

definition submit ::
  "bool \<Rightarrow> PersistedMutation list \<Rightarrow> bytes \<Rightarrow> NativeDedupResult \<Rightarrow> bytes list \<Rightarrow> Store \<Rightarrow> Kv \<Rightarrow>
   (NativeMutationError + bool \<times> nat option) \<times> Kv" where
  "submit durable rows operation_id dedup evicted st' K =
     (case write_job_bytes rows (length (encode_native_dedup dedup)) (length evicted) of
        None \<Rightarrow> (Inl MutationResourceExhausted, K)
      | Some n \<Rightarrow>
          case reserve_write n K of
            Inl e \<Rightarrow> (Inl e, K)
          | Inr (permit, K1) \<Rightarrow>
              case open_reply durable permit K1 of (reply, K2) \<Rightarrow>
              case enqueue_permitted permit rows operation_id (encode_native_dedup dedup) evicted reply (K2\<lparr>kv_store := st'\<rparr>) of
                (queued, K3) \<Rightarrow> (Inr (queued, reply), K3))"

lemma submit_cases:
  assumes "st_writer st' = st_writer (kv_store K)"
  obtains
    (refused) "submit durable rows i dedup evicted st' K = (Inl MutationResourceExhausted, K)"
  | (memory) "\<not> st_writer st'" "submit durable rows i dedup evicted st' K = (Inr (False, None), K\<lparr>kv_store := st'\<rparr>)"
  | (queued) job b reply where "st_writer st'" "wr_receiver (kv_writer K)" "length (wr_queue (kv_writer K)) < MAX_PENDING_WRITES"
      "WriterBudget_try_reserve (wj_permit job) (wr_budget (kv_writer K)) = Some (wj_permit job, b)"
      "wj_mutations job = rows" "wj_operation job = Some (i, encode_native_dedup dedup)" "wj_evicted_operations job = evicted"
      "wj_native_reply job = reply" "reply = (if durable then Some (wr_next_reply (kv_writer K)) else None)"
      "submit durable rows i dedup evicted st' K =
        (Inr (True, reply), \<lparr>kv_store = st', kv_writer = (kv_writer K)\<lparr>wr_queue := wr_queue (kv_writer K) @ [job], wr_budget := b,
           wr_next_reply := wr_next_reply (kv_writer K) + (if durable then 1 else 0)\<rparr>\<rparr>)"
  | (lost) reply where "st_writer st'" "\<not> (wr_receiver (kv_writer K) \<and> length (wr_queue (kv_writer K)) < MAX_PENDING_WRITES)"
      "\<exists>n b. WriterBudget_try_reserve n (wr_budget (kv_writer K)) = Some (n, b)"
      "submit durable rows i dedup evicted st' K =
        (Inr (False, reply), \<lparr>kv_store = st'\<lparr>st_writer := False\<rparr>, kv_writer = (kv_writer K)\<lparr>
           wr_next_reply := wr_next_reply (kv_writer K) + (if durable then 1 else 0)\<rparr>\<rparr>)"
proof (cases "write_job_bytes rows (length (encode_native_dedup dedup)) (length evicted)")
  case None
  then show thesis
    by (intro refused) (simp add: submit_def)
next
  case (Some n)
  note bytes = Some
  show thesis
  proof (cases "st_writer (kv_store K)")
    case False
    then show thesis
      using assms by (intro memory) (simp_all add: submit_def bytes reserve_write_def open_reply_def enqueue_permitted_def)
  next
    case True
    note handle = True
    show thesis
    proof (cases "WriterBudget_try_reserve n (wr_budget (kv_writer K))")
      case None
      then show thesis
        using handle by (intro refused) (simp add: submit_def bytes reserve_write_def)
    next
      case (Some pb)
      then obtain b where b: "WriterBudget_try_reserve n (wr_budget (kv_writer K)) = Some (n, b)"
        by (auto simp: WriterBudget_try_reserve_def split: option.splits if_splits)
      have restored: "WriterPermit_drop n b = wr_budget (kv_writer K)"
        using b by (auto simp: WriterBudget_try_reserve_def WriterPermit_drop_def checked_nat_def split: option.splits if_splits)
      let ?job = "\<lparr>wj_mutations = rows, wj_operation = Some (i, encode_native_dedup dedup), wj_evicted_operations = evicted,
        wj_native_reply = if durable then Some (wr_next_reply (kv_writer K)) else None, wj_permit = n\<rparr>"
      show thesis
      proof (cases "wr_receiver (kv_writer K) \<and> length (wr_queue (kv_writer K)) < MAX_PENDING_WRITES")
        case True
        then show thesis
          using handle assms b
          by (intro queued[of ?job b "wj_native_reply ?job"]) (simp_all add: submit_def bytes reserve_write_def open_reply_def enqueue_permitted_def enqueue_job_def)
      next
        case False
        then show thesis
          using handle assms b restored
          by (intro lost[of "if durable then Some (wr_next_reply (kv_writer K)) else None"])
            (auto simp: submit_def bytes reserve_write_def open_reply_def enqueue_permitted_def enqueue_job_def drop_job_def)
      qed
    qed
  qed
qed

section \<open>Settling a request\<close>

definition store_size :: "(bytes, Entry) BTreeMap \<Rightarrow> nat" where
  "store_size es = sum_list (map (\<lambda>(key, e). length key + length (en_value e)) (entries es))"

definition conflicts :: "kv_request \<Rightarrow> Store \<Rightarrow> bool" where
  "conflicts rq st \<longleftrightarrow> apply_batch (rq_now_ns rq) (saturating_add (st_revision st) 1) (rq_mutations rq) (st_entries st) = None"

record settlement =
  se_entries :: "(bytes, Entry) BTreeMap"
  se_revision :: u64
  se_total_bytes :: u64
  se_results :: "NativeMutationResult list"
  se_changes :: "NativeChange list"
  se_rows :: "PersistedMutation list"

definition conflict_settlement :: "kv_request \<Rightarrow> Store \<Rightarrow> settlement" where
  "conflict_settlement rq st =
     \<lparr>se_entries = st_entries st, se_revision = st_revision st, se_total_bytes = st_total_bytes st,
      se_results = map (\<lambda>m. result_for StConflict (bt_get (st_entries st) (mutation_key m))) (rq_mutations rq),
      se_changes = [], se_rows = []\<rparr>"

definition commit_settlement :: "kv_request \<Rightarrow> Store \<Rightarrow> (bytes, Entry) BTreeMap \<Rightarrow> NativeMutationResult list \<Rightarrow> settlement" where
  "commit_settlement rq st es rs =
     (let revision = saturating_add (st_revision st) 1; changed = entries (changed_keys (st_entries st) (rq_mutations rq)) in
      \<lparr>se_entries = es, se_revision = revision, se_total_bytes = of_nat (store_size es), se_results = rs,
       se_changes = [\<lparr>nc_from_revision = st_revision st, nc_to_revision = revision, nc_records = map (change_record revision es) changed\<rparr>],
       se_rows = map (persisted_row es) changed\<rparr>)"

definition settles :: "(string \<Rightarrow> u64 option) \<Rightarrow> kv_request \<Rightarrow> Store \<Rightarrow> settlement \<Rightarrow> bool" where
  "settles deployment rq st se \<longleftrightarrow>
     conflicts rq st \<and> se = conflict_settlement rq st
     \<or> (\<exists>es rs. apply_batch (rq_now_ns rq) (saturating_add (st_revision st) 1) (rq_mutations rq) (st_entries st) = Some (es, rs)
          \<and> se = commit_settlement rq st es rs
          \<and> bt_len es \<le> unat (kv_max_entries (native_limits deployment)) \<and> store_size es \<le> unat (kv_max_store_bytes (native_limits deployment)))"

definition settled_dedup :: "kv_request \<Rightarrow> settlement \<Rightarrow> Store \<Rightarrow> NativeDedupResult" where
  "settled_dedup rq se st =
     \<lparr>dr_fingerprint = rq_fingerprint rq, dr_store_revision = se_revision se, dr_settlement_sequence = st_next_operation_sequence st,
      dr_results = se_results se, dr_stage_witnesses = rq_stage_witnesses rq\<rparr>"

definition settled_plan :: "kv_request \<Rightarrow> settlement \<Rightarrow> Store \<Rightarrow> OperationReplayPlan" where
  "settled_plan rq se st =
     plan_operation_replay (se_entries se) (st_operations st) (st_operation_order st) (rq_operation_id rq) (settled_dedup rq se st)"

definition settled :: "kv_request \<Rightarrow> settlement \<Rightarrow> Store \<Rightarrow> Store" where
  "settled rq se st =
     st\<lparr>st_entries := se_entries se, st_total_bytes := se_total_bytes se, st_revision := se_revision se,
        st_operations := rp_values (settled_plan rq se st), st_operation_order := rp_order (settled_plan rq se st),
        st_next_operation_sequence := saturating_add (st_next_operation_sequence st) 1,
        st_native_changes := st_native_changes st @ se_changes se\<rparr>"

definition settled_commit :: "kv_request \<Rightarrow> settlement \<Rightarrow> bool \<Rightarrow> nat option \<Rightarrow> NativeCommit" where
  "settled_commit rq se queued reply =
     \<lparr>cm_store_revision = se_revision se, cm_results = se_results se, cm_durable = if queued then reply else None,
      cm_persistence_failed = rq_durable rq \<and> \<not> queued\<rparr>"

lemma settled_writer [simp]: "st_writer (settled rq se st) = st_writer st"
  by (simp add: settled_def)

text \<open>What was broadcast plays no part in queueing a job.\<close>

lemma enqueue_changes:
  "enqueue_permitted permit rows i encoded evicted reply (K\<lparr>kv_store := st\<lparr>st_native_changes := c\<rparr>\<rparr>) =
    (case enqueue_permitted permit rows i encoded evicted reply (K\<lparr>kv_store := st\<rparr>) of
       (queued, K') \<Rightarrow> (queued, K'\<lparr>kv_store := (kv_store K')\<lparr>st_native_changes := c\<rparr>\<rparr>))"
  by (auto simp: enqueue_permitted_def enqueue_job_def Let_def split: option.split)

lemma submit_changes:
  "submit durable rows i dedup evicted (st\<lparr>st_native_changes := c\<rparr>) K =
    (case submit durable rows i dedup evicted st K of
       (Inl e, K') \<Rightarrow> (Inl e, K')
     | (Inr r, K') \<Rightarrow> (Inr r, K'\<lparr>kv_store := (kv_store K')\<lparr>st_native_changes := c\<rparr>\<rparr>))"
  by (simp add: submit_def enqueue_changes split: option.split sum.split prod.split)

lemma submit_reply:
  "submit durable rows i dedup evicted st' K = (Inr (queued, reply), K') \<Longrightarrow> \<not> durable \<Longrightarrow> reply = None"
  by (auto simp: submit_def open_reply_def split: option.splits sum.splits prod.splits)

lemma settled_conflict:
  "settled rq (conflict_settlement rq st) st =
     st\<lparr>st_operations := rp_values (settled_plan rq (conflict_settlement rq st) st), st_operation_order := rp_order (settled_plan rq (conflict_settlement rq st) st),
        st_next_operation_sequence := saturating_add (st_next_operation_sequence st) 1\<rparr>"
  by (cases st) (simp add: settled_def conflict_settlement_def)

lemma settle_conflict_eq:
  "settle_conflict (rq_operation_id rq) (rq_fingerprint rq) (rq_durable rq) (rq_stage_witnesses rq) (rq_mutations rq) K =
     (let se = conflict_settlement rq (kv_store K) in
      case submit (rq_durable rq) (se_rows se) (rq_operation_id rq) (settled_dedup rq se (kv_store K))
             (rp_evicted (settled_plan rq se (kv_store K))) (settled rq se (kv_store K)) K of
        (Inl e, K') \<Rightarrow> (Inl e, K) | (Inr (queued, reply), K') \<Rightarrow> (Inr (settled_commit rq se queued reply), K'))"
  unfolding settled_conflict Let_def
  by (auto simp: settle_conflict_def submit_def reserve_write_def open_reply_def settled_plan_def settled_dedup_def conflict_settlement_def
      settled_commit_def Let_def split: option.split sum.split prod.split)

lemma enqueue_keeps_changes:
  "enqueue_permitted permit rows i encoded evicted reply K = (queued, K') \<Longrightarrow> st_native_changes (kv_store K') = st_native_changes (kv_store K)"
  by (auto simp: enqueue_permitted_def enqueue_job_def Let_def split: option.splits if_splits)

lemma submit_keeps_changes:
  "submit durable rows i dedup evicted st K = (Inr r, K') \<Longrightarrow> st_native_changes (kv_store K') = st_native_changes st"
  by (auto simp: submit_def split: option.splits sum.splits prod.splits dest!: enqueue_keeps_changes)

lemma checked_sum_eq: "acc < 2 ^ 64 \<Longrightarrow> checked_sum acc ns = (if acc + sum_list ns < 2 ^ 64 then Some (acc + sum_list ns) else None)"
  by (induction ns arbitrary: acc) (auto simp: checked_nat_def add.assoc)

lemma submit_unfold:
  "(case write_job_bytes rows (length (encode_native_dedup dedup)) (length evicted) of
      None \<Rightarrow> (Inl MutationResourceExhausted, K)
    | Some n \<Rightarrow> case reserve_write n K of Inl e \<Rightarrow> (Inl e, K)
      | Inr (permit, K1) \<Rightarrow> case open_reply durable permit K1 of (reply, K2) \<Rightarrow>
          case enqueue_permitted permit rows i (encode_native_dedup dedup) evicted reply (K2\<lparr>kv_store := f (kv_store K2)\<rparr>) of (queued, K4) \<Rightarrow> g queued reply K4)
   = (case submit durable rows i dedup evicted (f (kv_store K)) K of (Inl e, K') \<Rightarrow> (Inl e, K) | (Inr (queued, reply), K') \<Rightarrow> g queued reply K')"
  by (auto simp: submit_def reserve_write_def open_reply_def split: option.split sum.split prod.split)

lemma settle_commit_eq:
  "settle_commit deployment (saturating_add (st_revision (kv_store K)) 1) (rq_operation_id rq) (rq_fingerprint rq) (rq_durable rq)
      (rq_stage_witnesses rq) (rq_mutations rq) es rs K =
     (let se = commit_settlement rq (kv_store K) es rs in
      if bt_len es \<le> unat (kv_max_entries (native_limits deployment)) \<and> store_size es \<le> unat (kv_max_store_bytes (native_limits deployment))
      then case submit (rq_durable rq) (se_rows se) (rq_operation_id rq) (settled_dedup rq se (kv_store K))
             (rp_evicted (settled_plan rq se (kv_store K))) (settled rq se (kv_store K)) K of
        (Inl e, K') \<Rightarrow> (Inl e, K) | (Inr (queued, reply), K') \<Rightarrow> (Inr (settled_commit rq se queued reply), K')
      else (Inl MutationResourceExhausted, K))"
proof -
  let ?se = "commit_settlement rq (kv_store K) es rs" and ?st = "kv_store K"
  let ?plain = "\<lambda>st. st\<lparr>st_entries := es, st_total_bytes := of_nat (store_size es), st_revision := saturating_add (st_revision ?st) 1,
    st_operations := rp_values (settled_plan rq ?se ?st), st_operation_order := rp_order (settled_plan rq ?se ?st),
    st_next_operation_sequence := saturating_add (st_next_operation_sequence ?st) 1\<rparr>"
  have settled: "settled rq ?se ?st = (?plain ?st)\<lparr>st_native_changes := st_native_changes ?st @ se_changes ?se\<rparr>"
    by (simp add: settled_def commit_settlement_def Let_def)
  have "unat (kv_max_store_bytes (native_limits deployment)) < 2 ^ 64"
    using unsigned_less[of "kv_max_store_bytes (native_limits deployment)"] by simp
  then have total: "checked_sum 0 (map (\<lambda>(key, e). length key + length (en_value e)) (entries es)) =
      (if store_size es < 2 ^ 64 then Some (store_size es) else None)"
    "store_size es \<le> unat (kv_max_store_bytes (native_limits deployment)) \<Longrightarrow> store_size es < 2 ^ 64"
    by (simp_all add: checked_sum_eq store_size_def)
  show ?thesis
  proof (cases "bt_len es \<le> unat (kv_max_entries (native_limits deployment)) \<and> store_size es \<le> unat (kv_max_store_bytes (native_limits deployment))")
    case False
    then show ?thesis
      by (auto simp: settle_commit_def total Let_def not_le)
  next
    case True
    have "settle_commit deployment (saturating_add (st_revision ?st) 1) (rq_operation_id rq) (rq_fingerprint rq) (rq_durable rq)
        (rq_stage_witnesses rq) (rq_mutations rq) es rs K =
      (case submit (rq_durable rq) (se_rows ?se) (rq_operation_id rq) (settled_dedup rq ?se ?st) (rp_evicted (settled_plan rq ?se ?st)) (?plain ?st) K of
         (Inl e, K') \<Rightarrow> (Inl e, K)
       | (Inr (queued, reply), K') \<Rightarrow> (Inr (settled_commit rq ?se queued reply),
           K'\<lparr>kv_store := (kv_store K')\<lparr>st_native_changes := st_native_changes (kv_store K') @ se_changes ?se\<rparr>\<rparr>))"
      unfolding submit_unfold[symmetric, where f = ?plain and g = "\<lambda>queued reply K'. (Inr (settled_commit rq ?se queued reply),
           K'\<lparr>kv_store := (kv_store K')\<lparr>st_native_changes := st_native_changes (kv_store K') @ se_changes ?se\<rparr>\<rparr>)"]
      unfolding settle_commit_def commit_settlement_def settled_plan_def settled_dedup_def settled_commit_def Let_def
      using True total by (simp split: option.split sum.split prod.split)
    also have "\<dots> = (case submit (rq_durable rq) (se_rows ?se) (rq_operation_id rq) (settled_dedup rq ?se ?st)
             (rp_evicted (settled_plan rq ?se ?st)) (settled rq ?se ?st) K of
        (Inl e, K') \<Rightarrow> (Inl e, K) | (Inr (queued, reply), K') \<Rightarrow> (Inr (settled_commit rq ?se queued reply), K'))"
      unfolding settled submit_changes by (auto split: prod.split sum.split dest!: submit_keeps_changes)
    finally show ?thesis
      using True by (simp add: Let_def)
  qed
qed

lemma answer_cases:
  obtains
    (refused) e where "answer_request deployment rq K = (Inl e, K)"
  | (replayed) previous where "bt_get (st_operations (kv_store K)) (rq_operation_id rq) = Some previous"
      "dr_fingerprint previous = rq_fingerprint rq" "answer_request deployment rq K = (Inr (replay_commit previous), K)"
  | (settled) se queued reply K' where "bt_get (st_operations (kv_store K)) (rq_operation_id rq) = None"
      "settles deployment rq (kv_store K) se"
      "submit (rq_durable rq) (se_rows se) (rq_operation_id rq) (settled_dedup rq se (kv_store K))
        (rp_evicted (settled_plan rq se (kv_store K))) (settled rq se (kv_store K)) K = (Inr (queued, reply), K')"
      "answer_request deployment rq K = (Inr (settled_commit rq se queued reply), K')"
      "rq_mutations rq \<noteq> []" "length (rq_mutations rq) \<le> MAX_BATCH_ITEMS" "length (rq_stage_witnesses rq) \<le> MAX_STAGE_WITNESSES_PER_OPERATION"
      "\<forall>i < length (rq_stage_witnesses rq). \<not> witness_refused deployment i (rq_stage_witnesses rq ! i)"
proof (cases "rq_mutations rq = [] \<or> MAX_BATCH_ITEMS < length (rq_mutations rq) \<or> MAX_STAGE_WITNESSES_PER_OPERATION < length (rq_stage_witnesses rq)
    \<or> (\<exists>(i, w) \<in> set (enumerate 0 (rq_stage_witnesses rq)). witness_refused deployment i w)
    \<or> (\<exists>m \<in> set (rq_mutations rq). mutation_refused (native_limits deployment) m)")
  case True
  then have "fst (answer_request deployment rq K) = Inl MutationInvalid" "snd (answer_request deployment rq K) = K"
    unfolding answer_request_def native_mutate_def by auto
  then show thesis
    by (intro refused[of MutationInvalid]) (simp add: prod_eq_iff)
next
  case False
  then have valid: "rq_mutations rq \<noteq> []" "length (rq_mutations rq) \<le> MAX_BATCH_ITEMS" "length (rq_stage_witnesses rq) \<le> MAX_STAGE_WITNESSES_PER_OPERATION"
    "\<forall>i < length (rq_stage_witnesses rq). \<not> witness_refused deployment i (rq_stage_witnesses rq ! i)"
    by (auto simp: not_less in_set_enumerate_eq)
  let ?st = "kv_store K"
  show thesis
  proof (cases "bt_get (st_operations ?st) (rq_operation_id rq)")
    case (Some previous)
    then show thesis
      using False by (cases "dr_fingerprint previous = rq_fingerprint rq")
        (auto simp: answer_request_def native_mutate_def Let_def intro: replayed refused)
  next
    case None
    have eq: "answer_request deployment rq K =
      (case apply_batch (rq_now_ns rq) (saturating_add (st_revision ?st) 1) (rq_mutations rq) (st_entries ?st) of
         None \<Rightarrow> settle_conflict (rq_operation_id rq) (rq_fingerprint rq) (rq_durable rq) (rq_stage_witnesses rq) (rq_mutations rq) K
       | Some (es, rs) \<Rightarrow> settle_commit deployment (saturating_add (st_revision ?st) 1) (rq_operation_id rq) (rq_fingerprint rq) (rq_durable rq)
           (rq_stage_witnesses rq) (rq_mutations rq) es rs K)"
      using False None unfolding answer_request_def native_mutate_def by (simp add: Let_def)
    consider (found) se where "settles deployment rq ?st se" "answer_request deployment rq K =
        (case submit (rq_durable rq) (se_rows se) (rq_operation_id rq) (settled_dedup rq se ?st)
           (rp_evicted (settled_plan rq se ?st)) (settled rq se ?st) K of
          (Inl e, K') \<Rightarrow> (Inl e, K) | (Inr (queued, reply), K') \<Rightarrow> (Inr (settled_commit rq se queued reply), K'))"
      | (full) "answer_request deployment rq K = (Inl MutationResourceExhausted, K)"
    proof (cases "apply_batch (rq_now_ns rq) (saturating_add (st_revision ?st) 1) (rq_mutations rq) (st_entries ?st)")
      case None
      then show thesis
        by (intro found[of "conflict_settlement rq ?st"]) (simp_all add: settles_def conflicts_def eq settle_conflict_eq Let_def)
    next
      case (Some r)
      obtain es rs where r: "r = (es, rs)"
        by (cases r)
      show thesis
      proof (cases "bt_len es \<le> unat (kv_max_entries (native_limits deployment)) \<and> store_size es \<le> unat (kv_max_store_bytes (native_limits deployment))")
        case True
        then show thesis
          using Some by (intro found[of "commit_settlement rq ?st es rs"]) (simp_all add: r settles_def eq settle_commit_eq Let_def)
      next
        case False
        then show thesis
          using Some by (intro full) (auto simp: r eq settle_commit_eq Let_def)
      qed
    qed
    then show thesis
    proof cases
      case found
      then show thesis
        using None valid settled[of se] refused by (auto split: prod.splits sum.splits)
    qed (rule refused)
  qed
qed

end
