(* ===== verification/Kv_Invariant.thy ===== *)
theory Kv_Invariant
  imports Kv_Settle
begin

text \<open>The invariant of the key-value store, kept by every answer, and the tables that hold a store.\<close>

section \<open>A batch\<close>

lemma apply_batch_other:
  "apply_batch now r ms w = Some (w', rs) \<Longrightarrow> k \<notin> mutation_key ` set ms \<Longrightarrow> bt_get w' k = bt_get w k"
proof (induction ms arbitrary: w rs)
  case (Cons m ms)
  then show ?case
    by (cases m) (auto simp: Let_def split: if_splits option.splits)
qed simp

lemma apply_batch_entry:
  "apply_batch now r ms w = Some (w', rs) \<Longrightarrow> list_all (mutation_typed hash) ms \<Longrightarrow> k \<in> mutation_key ` set ms \<Longrightarrow> bt_get w' k = Some e \<Longrightarrow>
    en_modification_revision e = r \<and> en_mtime_ns e = now \<and> en_hash e = hash (en_value e) \<and> length (en_hash e) = 32"
proof (induction ms arbitrary: w rs)
  case (Cons m ms)
  show ?case
  proof (cases "k \<in> mutation_key ` set ms")
    case True
    then show ?thesis
      using Cons by (cases m) (auto simp: Let_def split: if_splits option.splits)
  next
    case False
    then have "k = mutation_key m"
      using Cons.prems(3) by simp
    with False Cons.prems(1,2,4) show ?thesis
      by (cases m) (auto simp: Let_def split: if_splits option.splits dest!: apply_batch_other[where k = k])
  qed
qed simp

lemma result_for_ok:
  "(\<And>e. current = Some e \<Longrightarrow> length (en_hash e) = 32) \<Longrightarrow> s = StOk \<or> s = StConflict \<Longrightarrow> result_ok (result_for s current) \<and> mr_status (result_for s current) = s"
  by (auto simp: result_for_def result_ok_def Status_from_code_def split: option.split)

lemma result_for_written [simp]:
  "length (en_hash e) = 32 \<Longrightarrow> result_ok (result_for StOk (Some e))" "mr_status (result_for s (Some e)) = s"
  by (simp_all add: result_for_def result_ok_def Status_from_code_def)

lemma deleted_ok: "result_ok \<lparr>mr_status = StOk, mr_modification_revision = r, mr_mtime_ns = now, mr_content_hash = replicate 32 0, mr_byte_len = 0\<rparr>"
  by (simp add: result_ok_def Status_from_code_def)

lemma apply_batch_results:
  "apply_batch now r ms w = Some (w', rs) \<Longrightarrow> list_all (mutation_typed hash) ms \<Longrightarrow>
    length rs = length ms \<and> list_all (\<lambda>x. result_ok x \<and> mr_status x = StOk) rs"
proof (induction ms arbitrary: w rs)
  case (Cons m ms)
  then show ?case
    by (cases m) (auto simp: Let_def deleted_ok split: if_splits option.splits)
qed simp

lemma changed_keys_get:
  "bt_get (changed_keys es ms) k = (if k \<in> mutation_key ` set ms then Some (\<not> bt_has es k) else None)"
proof -
  have "bt_get (fold (\<lambda>m. bt_insert (mutation_key m) (\<not> bt_has es (mutation_key m))) ms c) k =
      (if k \<in> mutation_key ` set ms then Some (\<not> bt_has es k) else bt_get c k)" for c
    by (induction ms arbitrary: c) auto
  then show ?thesis
    by (simp add: changed_keys_def)
qed

lemma fold_assign:
  "distinct ks \<Longrightarrow>
    bt_get (fold (\<lambda>k m. case g k of None \<Rightarrow> bt_remove k m | Some v \<Rightarrow> bt_insert k v m) ks m) x = (if x \<in> set ks then g x else bt_get m x)"
  by (induction ks arbitrary: m) (auto split: option.split)

section \<open>Changes\<close>

definition apply_record :: "NativeChangeRecord \<Rightarrow> (bytes, Entry) BTreeMap \<Rightarrow> (bytes, Entry) BTreeMap" where
  "apply_record c es =
     (case c of
        Upsert e _ \<Rightarrow> bt_insert (ne_key e) \<lparr>en_value = ne_value e, en_hash = ne_content_hash e, en_mtime_ns = ne_mtime_ns e,
                                            en_modification_revision = ne_modification_revision e\<rparr> es
      | Remove key _ \<Rightarrow> bt_remove key es)"

definition apply_change :: "NativeChange \<Rightarrow> (bytes, Entry) BTreeMap \<Rightarrow> (bytes, Entry) BTreeMap" where
  "apply_change c es = fold apply_record (nc_records c) es"

definition row_of :: "Entry \<Rightarrow> bytes" where
  "row_of e = encode_row (en_value e) (en_mtime_ns e) (en_modification_revision e)"

definition persist :: "Store \<Rightarrow> Tables" where
  "persist st = \<lparr>tb_entries = bt_map row_of (st_entries st), tb_operations = bt_map encode_native_dedup (st_operations st)\<rparr>"

lemma fold_changed:
  assumes "apply_batch now r ms es = Some (es', rs)" and f: "\<And>c m. f c m = (case g (fst c) of None \<Rightarrow> bt_remove (fst c) m | Some v \<Rightarrow> bt_insert (fst c) v m)"
    and g: "\<And>k. g k = map_option h (bt_get es' k)"
  shows "fold f (entries (changed_keys es ms)) (bt_map h es) = bt_map h es'"
proof (rule bt_eqI, rule ext)
  fix k
  let ?c = "entries (changed_keys es ms)"
  have "fold f ?c (bt_map h es) = fold (\<lambda>k m. case g k of None \<Rightarrow> bt_remove k m | Some v \<Rightarrow> bt_insert k v m) (map fst ?c) (bt_map h es)"
    by (simp add: fold_map comp_def f[abs_def])
  moreover have "set (map fst ?c) = mutation_key ` set ms"
    by (simp flip: dom_bt_get) (auto simp: changed_keys_get split: if_splits)
  ultimately show "bt_get (fold f ?c (bt_map h es)) k = bt_get (bt_map h es') k"
    using apply_batch_other[OF assms(1), of k] by (simp only: fold_assign[OF distinct_keys] g) simp
qed

lemma bt_map_id [simp]: "bt_map (\<lambda>x. x) m = m"
  by (rule bt_eqI) (simp add: fun_eq_iff option.map_ident)

lemma entry_fields [simp]:
  "\<lparr>en_value = en_value e, en_hash = en_hash e, en_mtime_ns = en_mtime_ns e, en_modification_revision = en_modification_revision e\<rparr> = e"
  by (cases e) simp

lemma settles_changes:
  assumes "settles deployment rq st se"
  shows "fold apply_change (se_changes se) (st_entries st) = se_entries se"
proof -
  have "fold apply_record (map (change_record r es') (entries (changed_keys es ms))) es = es'"
    if "apply_batch now r ms es = Some (es', rs)" for now r ms es es' rs
  proof -
    have "(apply_record \<circ> change_record r es') c m = (case bt_get es' (fst c) of None \<Rightarrow> bt_remove (fst c) m | Some v \<Rightarrow> bt_insert (fst c) v m)" for c m
      by (simp add: apply_record_def change_record_def native_entry_def split: option.split)
    from fold_changed[OF that this, where h = "\<lambda>x. x"] show ?thesis
      by (simp add: fold_map comp_def option.map_ident)
  qed
  with assms show ?thesis
    by (auto simp: settles_def conflict_settlement_def commit_settlement_def Let_def apply_change_def)
qed

lemma settles_rows:
  assumes "settles deployment rq st se"
  shows "fold write_mutation (se_rows se) (bt_map row_of (st_entries st)) = bt_map row_of (se_entries se)"
proof -
  have "fold write_mutation (map (persisted_row es') (entries (changed_keys es ms))) (bt_map row_of es) = bt_map row_of es'"
    if "apply_batch now r ms es = Some (es', rs)" for now r ms es es' rs
  proof -
    have "(write_mutation \<circ> persisted_row es') c m =
        (case map_option row_of (bt_get es' (fst c)) of None \<Rightarrow> bt_remove (fst c) m | Some v \<Rightarrow> bt_insert (fst c) v m)" for c m
      by (simp add: write_mutation_def persisted_row_def row_of_def split: option.split)
    from fold_changed[OF that this, where h = row_of] show ?thesis
      by (simp add: fold_map comp_def)
  qed
  with assms show ?thesis
    by (auto simp: settles_def conflict_settlement_def commit_settlement_def Let_def)
qed

text \<open>The job of a settlement writes the difference.\<close>

lemma write_operation_plan:
  "write_operation \<lparr>wj_mutations = ms, wj_operation = Some (i, encode_native_dedup r), wj_evicted_operations = rp_evicted (plan_operation_replay es ops order i r),
      wj_native_reply = reply, wj_permit = p\<rparr> (bt_map encode_native_dedup ops) = bt_map encode_native_dedup (rp_values (plan_operation_replay es ops order i r))"
proof -
  obtain evicted ops' order' where prune: "prune_operation_replays es (bt_insert i r ops) (order @ [i]) = (evicted, ops', order')"
    by (metis prod_cases3)
  show ?thesis
    by (rule bt_eqI, rule ext)
      (auto simp: write_operation_def plan_operation_replay_def prune bt_get_fold_remove prune_eq(2,3)[OF prune])
qed

lemma write_settlement:
  assumes "settles deployment rq st se"
  shows "write_batch [\<lparr>wj_mutations = se_rows se, wj_operation = Some (rq_operation_id rq, encode_native_dedup (settled_dedup rq se st)),
      wj_evicted_operations = rp_evicted (settled_plan rq se st), wj_native_reply = reply, wj_permit = p\<rparr>] (persist st) = persist (settled rq se st)"
  using settles_rows[OF assms] by (simp add: write_batch_def persist_def settled_def settled_plan_def write_operation_plan)

lemma write_batch_append: "write_batch (a @ b) t = write_batch b (write_batch a t)"
  by (simp add: write_batch_def)

lemma write_batch_Nil [simp]: "write_batch [] t = t"
  by (simp add: write_batch_def)

section \<open>The invariant\<close>

definition entry_revisions :: "Store \<Rightarrow> u64 list" where
  "entry_revisions st = map (en_modification_revision \<circ> snd) (entries (st_entries st))"

definition operation_revisions :: "Store \<Rightarrow> u64 list" where
  "operation_revisions st = map (dr_store_revision \<circ> snd) (entries (st_operations st))"

definition operation_sequences :: "Store \<Rightarrow> u64 list" where
  "operation_sequences st = map (dr_settlement_sequence \<circ> snd) (entries (st_operations st))"

definition entry_ok :: "(bytes \<Rightarrow> bytes) \<Rightarrow> Entry \<Rightarrow> bool" where
  "entry_ok hash e \<longleftrightarrow> en_hash e = hash (en_value e) \<and> length (en_hash e) = 32 \<and> en_modification_revision e \<noteq> 0"

definition store_ok :: "(bytes \<Rightarrow> bytes) \<Rightarrow> Store \<Rightarrow> bool" where
  "store_ok hash st \<longleftrightarrow>
     operations_ok (st_entries st) (st_operations st) (st_operation_order st)
     \<and> (\<forall>k e. bt_get (st_entries st) k = Some e \<longrightarrow> entry_ok hash e)
     \<and> st_revision st = max (fold max (entry_revisions st) 1) (fold max (operation_revisions st) 1)
     \<and> st_next_operation_sequence st = saturating_add (fold max (operation_sequences st) 0) 1
     \<and> st_total_bytes st = of_nat (store_size (st_entries st))"

lemma fold_max_iff: "fold max xs a = b \<longleftrightarrow> (b = a \<or> b \<in> set xs) \<and> a \<le> b \<and> (\<forall>x \<in> set xs. x \<le> b)" for a b :: "'a::linorder"
proof (induction xs arbitrary: a)
  case (Cons x xs)
  show ?case
    unfolding fold_simps comp_apply Cons.IH by (auto simp: max_def)
qed auto

lemma in_revisions:
  "r \<in> set (entry_revisions st) \<longleftrightarrow> (\<exists>k e. bt_get (st_entries st) k = Some e \<and> r = en_modification_revision e)"
  "r \<in> set (operation_revisions st) \<longleftrightarrow> (\<exists>i d. bt_get (st_operations st) i = Some d \<and> r = dr_store_revision d)"
  "r \<in> set (operation_sequences st) \<longleftrightarrow> (\<exists>i d. bt_get (st_operations st) i = Some d \<and> r = dr_settlement_sequence d)"
  by (force simp: entry_revisions_def operation_revisions_def operation_sequences_def in_entries_iff[symmetric])+

lemma revision_eq:
  "st_revision st = max (fold max (entry_revisions st) 1) (fold max (operation_revisions st) 1) \<longleftrightarrow>
    (st_revision st = 1 \<or> st_revision st \<in> set (entry_revisions st) \<union> set (operation_revisions st))
    \<and> 1 \<le> st_revision st \<and> (\<forall>r \<in> set (entry_revisions st) \<union> set (operation_revisions st). r \<le> st_revision st)"
proof -
  have start: "fold max ys b = max b (fold max ys a)" if "a \<le> b" for ys and a b :: u64
  proof -
    obtain F where F: "fold max ys a = F"
      by blast
    then have "(F = a \<or> F \<in> set ys) \<and> a \<le> F \<and> (\<forall>x \<in> set ys. x \<le> F)"
      unfolding fold_max_iff by simp
    then show ?thesis
      unfolding F fold_max_iff using that by (auto simp: max_def)
  qed
  have "fold max (entry_revisions st @ operation_revisions st) 1 = max (fold max (entry_revisions st) 1) (fold max (operation_revisions st) 1)"
    using start[of 1 "fold max (entry_revisions st) 1" "operation_revisions st"]
      fold_max_iff[of "entry_revisions st" 1 "fold max (entry_revisions st) 1"] by simp
  then have "st_revision st = max (fold max (entry_revisions st) 1) (fold max (operation_revisions st) 1) \<longleftrightarrow>
      fold max (entry_revisions st @ operation_revisions st) 1 = st_revision st"
    by auto
  then show ?thesis
    unfolding fold_max_iff by simp
qed

lemma store_okD:
  assumes "store_ok hash st"
  shows "operations_ok (st_entries st) (st_operations st) (st_operation_order st)"
    and "bt_get (st_entries st) k = Some e \<Longrightarrow> entry_ok hash e"
    and "bt_get (st_entries st) k = Some e \<Longrightarrow> en_modification_revision e \<le> st_revision st"
    and "bt_get (st_operations st) i = Some d \<Longrightarrow> dr_store_revision d \<le> st_revision st"
    and "1 \<le> st_revision st"
    and "st_next_operation_sequence st \<noteq> 0"
    and "unat (st_next_operation_sequence st) < 2 ^ 64 - 1 \<Longrightarrow> bt_get (st_operations st) i = Some d \<Longrightarrow>
      dr_settlement_sequence d < st_next_operation_sequence st"
proof -
  note ok = assms[unfolded store_ok_def revision_eq in_revisions Un_iff]
  show "operations_ok (st_entries st) (st_operations st) (st_operation_order st)"
    "bt_get (st_entries st) k = Some e \<Longrightarrow> entry_ok hash e" "1 \<le> st_revision st"
    using ok by simp_all
  show "bt_get (st_entries st) k = Some e \<Longrightarrow> en_modification_revision e \<le> st_revision st"
    "bt_get (st_operations st) i = Some d \<Longrightarrow> dr_store_revision d \<le> st_revision st"
    using ok in_revisions by blast+
  let ?top = "fold max (operation_sequences st) 0"
  have seq: "unat (st_next_operation_sequence st) = min (unat ?top + 1) (2 ^ 64 - 1)"
    using ok by (simp add: unat_saturating_add)
  then show "st_next_operation_sequence st \<noteq> 0"
    by (auto simp: min_def split: if_splits)
  show "dr_settlement_sequence d < st_next_operation_sequence st"
    if "unat (st_next_operation_sequence st) < 2 ^ 64 - 1" "bt_get (st_operations st) i = Some d"
  proof -
    have "dr_settlement_sequence d \<le> ?top"
      using fold_max_iff[of "operation_sequences st" 0 ?top] in_revisions(3)[of _ st] that(2) by blast
    then show ?thesis
      using that(1) seq by (simp add: word_less_nat_alt word_le_nat_alt min_def split: if_splits)
  qed
qed

lemma empty_store_ok: "store_ok hash empty_store"
  by (simp add: store_ok_def empty_store_def operations_ok_empty entry_revisions_def operation_revisions_def operation_sequences_def
      store_size_def saturating_add_def checked_add_def)

section \<open>Keeping it\<close>

lemma settled_results_ok:
  assumes "store_ok hash st" "kv_request_typed hash rq" "settles deployment rq st se" "length (rq_mutations rq) \<le> MAX_BATCH_ITEMS"
  shows "length (se_results se) \<le> MAX_BATCH_ITEMS \<and> list_all result_ok (se_results se)"
proof -
  have hashes: "length (en_hash e) = 32" if "bt_get (st_entries st) k = Some e" for k e
    using store_okD(2)[OF assms(1) that] unfolding entry_ok_def by blast
  have typed: "list_all (mutation_typed hash) (rq_mutations rq)"
    using assms(2) by (simp add: kv_request_typed_def)
  consider "se = conflict_settlement rq st"
    | es rs where "apply_batch (rq_now_ns rq) (saturating_add (st_revision st) 1) (rq_mutations rq) (st_entries st) = Some (es, rs)" "se_results se = rs"
    using assms(3) by (auto simp: settles_def commit_settlement_def Let_def)
  then show ?thesis
  proof cases
    case 1
    then show ?thesis
      using assms(4) hashes by (auto simp: conflict_settlement_def list_all_iff intro!: result_for_ok[THEN conjunct1])
  next
    case 2
    then show ?thesis
      using apply_batch_results[OF 2(1) typed] assms(4) by (auto simp: list_all_iff)
  qed
qed

lemma settled_dedup_ok:
  assumes "store_ok hash st" "kv_request_typed hash rq" "settles deployment rq st se" "length (rq_mutations rq) \<le> MAX_BATCH_ITEMS"
    and "length (rq_stage_witnesses rq) \<le> MAX_STAGE_WITNESSES_PER_OPERATION"
    and "\<forall>i < length (rq_stage_witnesses rq). \<not> witness_refused deployment i (rq_stage_witnesses rq ! i)"
  shows "dedup_ok (settled_dedup rq se st)"
proof -
  have "1 \<le> se_revision se"
    using assms(3) store_okD(5)[OF assms(1)] saturating_add_ge[of "st_revision st" 1]
    by (auto simp: settles_def conflict_settlement_def commit_settlement_def Let_def)
  then have "se_revision se \<noteq> 0"
    by auto
  then show ?thesis
    using assms(2,5,6) settled_results_ok[OF assms(1-4)] store_okD(6)[OF assms(1)]
    by (auto simp: dedup_ok_def settled_dedup_def witness_ok_def witness_refused_def kv_request_typed_def list_all_length)
qed

lemma last_kept: "i \<in> kept_ids live ops (order @ [i])"
  by (simp add: kept_ids_def recent_ids_def MAX_RECENT_OPERATION_REPLAYS_def take_Cons')

lemma plan_get:
  "bt_get (rp_values (plan_operation_replay es ops order i r)) i = Some r"
  "bt_get (rp_values (plan_operation_replay es ops order i r)) j = Some s \<Longrightarrow> j \<noteq> i \<Longrightarrow> bt_get ops j = Some s"
proof -
  obtain evicted ops' order' where prune: "prune_operation_replays es (bt_insert i r ops) (order @ [i]) = (evicted, ops', order')"
    by (metis prod_cases3)
  show "bt_get (rp_values (plan_operation_replay es ops order i r)) i = Some r"
    "bt_get (rp_values (plan_operation_replay es ops order i r)) j = Some s \<Longrightarrow> j \<noteq> i \<Longrightarrow> bt_get ops j = Some s"
    using last_kept[of i] by (auto simp: plan_operation_replay_def prune prune_eq(3)[OF prune] split: if_splits)
qed

lemma settled_entries_ok:
  assumes "store_ok hash st" "kv_request_typed hash rq" "settles deployment rq st se"
  shows "st_revision st \<le> se_revision se"
    and "bt_get (se_entries se) k = Some e \<Longrightarrow> entry_ok hash e \<and> en_modification_revision e \<le> se_revision se"
    and "se_total_bytes se = of_nat (store_size (se_entries se))"
proof -
  show rev: "st_revision st \<le> se_revision se"
    using assms(3) saturating_add_ge[of "st_revision st" 1] by (auto simp: settles_def conflict_settlement_def commit_settlement_def Let_def)
  show "se_total_bytes se = of_nat (store_size (se_entries se))"
    using assms(1,3) by (auto simp: store_ok_def settles_def conflict_settlement_def commit_settlement_def Let_def)
  show "entry_ok hash e \<and> en_modification_revision e \<le> se_revision se" if e: "bt_get (se_entries se) k = Some e"
  proof (cases "bt_get (st_entries st) k = Some e")
    case True
    then show ?thesis
      using store_okD(2,3)[OF assms(1) True] rev by auto
  next
    case False
    then obtain rs where batch: "apply_batch (rq_now_ns rq) (se_revision se) (rq_mutations rq) (st_entries st) = Some (se_entries se, rs)"
      using assms(3) e by (auto simp: settles_def conflict_settlement_def commit_settlement_def Let_def)
    have "k \<in> mutation_key ` set (rq_mutations rq)"
      using apply_batch_other[OF batch, of k] False e by auto
    with apply_batch_entry[OF batch _ this e, of hash] assms(2) rev store_okD(5)[OF assms(1)] show ?thesis
      by (auto simp: entry_ok_def kv_request_typed_def)
  qed
qed

lemma settled_ok:
  assumes "store_ok hash st" "kv_request_typed hash rq" "settles deployment rq st se" "length (rq_mutations rq) \<le> MAX_BATCH_ITEMS"
    and "length (rq_stage_witnesses rq) \<le> MAX_STAGE_WITNESSES_PER_OPERATION"
    and "\<forall>i < length (rq_stage_witnesses rq). \<not> witness_refused deployment i (rq_stage_witnesses rq ! i)"
    and "bt_get (st_operations st) (rq_operation_id rq) = None" "unat (st_next_operation_sequence st) < 2 ^ 64 - 1"
  shows "store_ok hash (settled rq se st)"
proof -
  let ?i = "rq_operation_id rq" and ?d = "settled_dedup rq se st" and ?st = "settled rq se st"
  note dedup = settled_dedup_ok[OF assms(1-6)] and ents = settled_entries_ok[OF assms(1-3)]
  have fields: "st_entries ?st = se_entries se" "st_revision ?st = se_revision se" "st_total_bytes ?st = se_total_bytes se"
    "st_operations ?st = rp_values (settled_plan rq se st)" "st_operation_order ?st = rp_order (settled_plan rq se st)"
    "st_next_operation_sequence ?st = saturating_add (st_next_operation_sequence st) 1"
    by (simp_all add: settled_def)
  have ops: "operations_ok (st_entries ?st) (st_operations ?st) (st_operation_order ?st)"
    unfolding fields settled_plan_def
    using store_okD(1)[OF assms(1)] assms(7) dedup store_okD(7)[OF assms(1,8)] assms(2)
    by (intro plan_ok) (auto simp: kv_request_typed_def settled_dedup_def)
  have new: "bt_get (st_operations ?st) ?i = Some ?d"
    and old: "\<And>j s. bt_get (st_operations ?st) j = Some s \<Longrightarrow> j \<noteq> ?i \<Longrightarrow> bt_get (st_operations st) j = Some s"
    unfolding fields settled_plan_def by (rule plan_get(1)) (erule plan_get(2))
  have revisions: "st_revision ?st \<in> set (operation_revisions ?st)" "\<forall>r \<in> set (entry_revisions ?st) \<union> set (operation_revisions ?st). r \<le> st_revision ?st"
  proof -
    show "st_revision ?st \<in> set (operation_revisions ?st)"
      unfolding in_revisions by (intro exI[of _ ?i] exI[of _ ?d] conjI new) (simp add: settled_dedup_def fields(2))
    have "dr_store_revision s \<le> se_revision se" if "bt_get (st_operations ?st) j = Some s" for j s
      using that new old[OF that] store_okD(4)[OF assms(1), of j s] ents(1) by (cases "j = ?i") (auto simp: settled_dedup_def)
    then show "\<forall>r \<in> set (entry_revisions ?st) \<union> set (operation_revisions ?st). r \<le> st_revision ?st"
      using ents(2) by (auto simp: in_revisions fields)
  qed
  have "fold max (operation_sequences ?st) 0 = st_next_operation_sequence st"
  proof -
    have "dr_settlement_sequence s \<le> st_next_operation_sequence st" if "bt_get (st_operations ?st) j = Some s" for j s
      using that new old[OF that] store_okD(7)[OF assms(1,8), of j s] by (cases "j = ?i") (auto simp: settled_dedup_def)
    moreover have "st_next_operation_sequence st \<in> set (operation_sequences ?st)"
      unfolding in_revisions by (intro exI[of _ ?i] exI[of _ ?d] conjI new) (simp add: settled_dedup_def)
    ultimately show ?thesis
      unfolding fold_max_iff by (auto simp: in_revisions)
  qed
  moreover have "1 \<le> st_revision ?st"
    using ents(1) store_okD(5)[OF assms(1)] by (simp add: fields)
  ultimately show ?thesis
    unfolding store_ok_def revision_eq using ops revisions ents by (simp add: fields)
qed

end
