(* ===== verification/Kv_Reach.thy ===== *)
theory Kv_Reach
  imports Kv_Invariant
begin

text \<open>
  Runs of the key-value store: requests and steps of the writer thread in any order, on a database whose transactions may fail, with a stop at any moment
  and a start from the tables that are left.
\<close>

section \<open>Runs\<close>

datatype kv_event = Request kv_request | WriterStep

text \<open>The history is, for each request that was settled, its oneshot channel and the store after it.\<close>

record 'd world =
  wo_kv :: Kv
  wo_disk :: "'d Disk"
  wo_history :: "(nat option \<times> Store) list"

definition settled_now :: "kv_request \<Rightarrow> Kv \<Rightarrow> (NativeMutationError + NativeCommit) \<times> Kv \<Rightarrow> (nat option \<times> Store) list" where
  "settled_now rq K answer =
     (case answer of (Inl _, _) \<Rightarrow> []
      | (Inr c, K') \<Rightarrow> if bt_has (st_operations (kv_store K)) (rq_operation_id rq) then [] else [(cm_durable c, kv_store K')])"

fun kv_apply :: "(string \<Rightarrow> u64 option) \<Rightarrow> 'd Redb \<Rightarrow> kv_event \<Rightarrow> 'd world \<Rightarrow> 'd world" where
  "kv_apply deployment R (Request rq) W =
     (let answer = answer_request deployment rq (wo_kv W) in
      W\<lparr>wo_kv := snd answer, wo_history := wo_history W @ settled_now rq (wo_kv W) answer\<rparr>)"
| "kv_apply deployment R WriterStep W =
     (case writer_step R (kv_writer (wo_kv W), wo_disk W) of (w, D) \<Rightarrow>
        W\<lparr>wo_kv := (wo_kv W)\<lparr>kv_writer := w\<rparr>, wo_disk := D\<rparr>)"

definition kv_run :: "(string \<Rightarrow> u64 option) \<Rightarrow> 'd Redb \<Rightarrow> kv_event list \<Rightarrow> 'd world \<Rightarrow> 'd world" where
  "kv_run deployment R events W = fold (kv_apply deployment R) events W"

lemma kv_run_simps [simp]:
  "kv_run deployment R [] W = W" "kv_run deployment R (e # es) W = kv_run deployment R es (kv_apply deployment R e W)"
  by (simp_all add: kv_run_def)

lemma kv_run_append: "kv_run deployment R (a @ b) W = kv_run deployment R b (kv_run deployment R a W)"
  by (simp add: kv_run_def)

section \<open>The writer's budget\<close>

text \<open>The jobs that hold a permit.\<close>

definition thread_jobs :: "writer_thread \<Rightarrow> WriteJob list" where
  "thread_jobs t = (case t of Gathering b \<Rightarrow> b | Committing b \<Rightarrow> b | Answering _ b \<Rightarrow> b | Draining \<Rightarrow> [] | Leaving \<Rightarrow> [] | Gone \<Rightarrow> [])"

definition held_jobs :: "Writer \<Rightarrow> 'd Disk \<Rightarrow> WriteJob list" where
  "held_jobs w D = thread_jobs (dk_thread D) @ wr_queue w"

definition budget_ok :: "Writer \<Rightarrow> 'd Disk \<Rightarrow> bool" where
  "budget_ok w D \<longleftrightarrow>
     wb_jobs (wr_budget w) = length (held_jobs w D) \<and> wb_bytes (wr_budget w) = sum_list (map wj_permit (held_jobs w D))
     \<and> wb_jobs (wr_budget w) \<le> wb_max_jobs (wr_budget w) \<and> wb_bytes (wr_budget w) \<le> wb_max_bytes (wr_budget w)
     \<and> wb_max_jobs (wr_budget w) = MAX_PENDING_WRITES
     \<and> (wr_receiver w \<longleftrightarrow> dk_thread D \<noteq> Gone) \<and> (dk_thread D = Gone \<longrightarrow> wr_queue w = [])"

lemma answer_budget:
  "wr_queue (answer_job ok job w) = wr_queue w" "wr_receiver (answer_job ok job w) = wr_receiver w"
  "wr_budget (answer_job ok job w) = WriterPermit_drop (wj_permit job) (wr_budget w)"
  "wr_next_reply (answer_job ok job w) = wr_next_reply w"
  "wr_replies (answer_job ok job w) = wr_replies w @ (case wj_native_reply job of None \<Rightarrow> [] | Some i \<Rightarrow> [(i, ok)])"
  by (simp_all add: answer_job_def drop_job_def split: option.split)

lemma drop_jobs:
  "wr_queue (fold drop_job js w) = wr_queue w" "wr_receiver (fold drop_job js w) = wr_receiver w"
  "wr_replies (fold drop_job js w) = wr_replies w" "wr_next_reply (fold drop_job js w) = wr_next_reply w"
  "wr_budget (fold drop_job js w) = fold WriterPermit_drop (map wj_permit js) (wr_budget w)"
  by (induction js arbitrary: w) (simp_all add: drop_job_def)

lemma permit_drops:
  "fold WriterPermit_drop ps b = b\<lparr>wb_jobs := wb_jobs b - length ps, wb_bytes := wb_bytes b - sum_list ps\<rparr>"
  by (induction ps arbitrary: b) (simp_all add: WriterPermit_drop_def)

lemma writer_step_budget:
  assumes "budget_ok w D"
  shows "case writer_step R (w, D) of (w', D') \<Rightarrow> budget_ok w' D'"
proof (cases "dk_thread D")
  case (Gathering b)
  then show ?thesis
    using assms by (cases "wr_queue w") (auto simp: writer_step_def budget_ok_def held_jobs_def thread_jobs_def)
next
  case (Committing b)
  then show ?thesis
    using assms by (auto simp: writer_step_def budget_ok_def held_jobs_def thread_jobs_def split: prod.split)
next
  case (Answering ok b)
  then show ?thesis
    using assms by (cases b) (auto simp: writer_step_def budget_ok_def held_jobs_def thread_jobs_def answer_budget WriterPermit_drop_def)
next
  case Draining
  then show ?thesis
    using assms by (cases "wr_queue w")
      (auto simp: writer_step_def budget_ok_def held_jobs_def thread_jobs_def answer_budget WriterPermit_drop_def)
next
  case Leaving
  then show ?thesis
    using assms by (simp add: writer_step_def budget_ok_def held_jobs_def thread_jobs_def drop_jobs permit_drops)
next
  case Gone
  then show ?thesis
    using assms by (simp add: writer_step_def)
qed

section \<open>The tables and the history\<close>

definition states :: "Store \<Rightarrow> (nat option \<times> Store) list \<Rightarrow> Store list" where
  "states S0 H = S0 # map snd H"

text \<open>The jobs that are not committed yet, while every transaction so far has succeeded.\<close>

definition awaiting :: "writer_thread \<Rightarrow> WriteJob list" where
  "awaiting t = (case t of Gathering b \<Rightarrow> b | Committing b \<Rightarrow> b | _ \<Rightarrow> [])"

definition healthy :: "writer_thread \<Rightarrow> bool" where
  "healthy t = (case t of Gathering _ \<Rightarrow> True | Committing _ \<Rightarrow> True | Answering ok _ \<Rightarrow> ok | _ \<Rightarrow> False)"

text \<open>The jobs \<open>js\<close> lead, one by one, from the \<open>n\<close>th store of the history to the last.\<close>

definition leads :: "Store \<Rightarrow> (nat option \<times> Store) list \<Rightarrow> nat \<Rightarrow> WriteJob list \<Rightarrow> bool" where
  "leads S0 H n js \<longleftrightarrow>
     n + length js = length H
     \<and> (\<forall>k < length js. write_batch [js ! k] (persist (states S0 H ! (n + k))) = persist (states S0 H ! (n + k + 1))
          \<and> wj_native_reply (js ! k) = fst (H ! (n + k)))"

definition confirmed :: "(nat option \<times> Store) list \<Rightarrow> nat \<Rightarrow> nat option \<Rightarrow> bool" where
  "confirmed H n reply \<longleftrightarrow> reply = None \<or> reply \<in> fst ` set (take n H)"

definition world_ok :: "(bytes \<Rightarrow> bytes) \<Rightarrow> Store \<Rightarrow> 'd world \<Rightarrow> nat \<Rightarrow> bool" where
  "world_ok hash S0 W n \<longleftrightarrow>
     (let H = wo_history W; st = kv_store (wo_kv W); w = kv_writer (wo_kv W); D = wo_disk W in
      budget_ok w D \<and> list_all (store_ok hash) (states S0 H) \<and> st = last (states S0 H)
      \<and> unat (st_next_operation_sequence st) \<le> unat (st_next_operation_sequence S0) + length H
      \<and> n \<le> length H \<and> dk_tables D = persist (states S0 H ! n)
      \<and> (\<not> st_writer st \<longrightarrow> dk_thread D = Gone)
      \<and> (healthy (dk_thread D) \<longrightarrow> leads S0 H n (awaiting (dk_thread D) @ wr_queue w))
      \<and> (\<forall>(i, ok) \<in> set (wr_replies w). ok \<longrightarrow> confirmed H n (Some i))
      \<and> (\<forall>js. dk_thread D = Answering True js \<longrightarrow> (\<forall>job \<in> set js. confirmed H n (wj_native_reply job)))
      \<and> distinct (List.map_filter fst H) \<and> (\<forall>i \<in> set (List.map_filter fst H). i < wr_next_reply w))"

lemma store_ok_writer [simp]: "store_ok hash (st\<lparr>st_writer := b\<rparr>) = store_ok hash st"
  by (simp add: store_ok_def entry_revisions_def operation_revisions_def operation_sequences_def)

lemma persist_writer [simp]: "persist (st\<lparr>st_writer := b\<rparr>) = persist st"
  by (simp add: persist_def)

lemma states_snoc: "states S0 (H @ [h]) = states S0 H @ [snd h]" "length (states S0 H) = Suc (length H)" "states S0 H \<noteq> []"
  by (simp_all add: states_def)

lemma states_nth_snoc [simp]: "k \<le> length H \<Longrightarrow> states S0 (H @ [h]) ! k = states S0 H ! k"
  by (simp add: states_snoc nth_append)

lemma confirmed_mono: "confirmed H n r \<Longrightarrow> n \<le> m \<Longrightarrow> confirmed (H @ H') m r"
  using set_take_subset_set_take[of n m H] by (auto simp: confirmed_def)

lemma leads_snoc:
  assumes "leads S0 H n js" "write_batch [job] (persist (last (states S0 H))) = persist S" "wj_native_reply job = r"
  shows "leads S0 (H @ [(r, S)]) n (js @ [job])"
proof -
  have "last (states S0 H) = states S0 H ! length H"
    by (simp add: last_conv_nth states_snoc)
  then show ?thesis
    using assms by (auto simp: leads_def nth_append states_snoc less_Suc_eq)
qed

lemma leads_append:
  assumes "leads S0 H n (b @ js)"
  shows "write_batch b (persist (states S0 H ! n)) = persist (states S0 H ! (n + length b))" "leads S0 H (n + length b) js"
    and "\<forall>job \<in> set b. confirmed H (n + length b) (wj_native_reply job)"
proof -
  have step: "write_batch [(b @ js) ! k] (persist (states S0 H ! (n + k))) = persist (states S0 H ! (n + k + 1))"
    "wj_native_reply ((b @ js) ! k) = fst (H ! (n + k))" if "k < length (b @ js)" for k
    using assms that unfolding leads_def by blast+
  have "write_batch (take k b) (persist (states S0 H ! n)) = persist (states S0 H ! (n + k))" if "k \<le> length b" for k
    using that
  proof (induction k)
    case (Suc k)
    then show ?case
      using step(1)[of k] by (simp add: take_Suc_conv_app_nth write_batch_append nth_append)
  qed simp
  from this[of "length b"] show "write_batch b (persist (states S0 H ! n)) = persist (states S0 H ! (n + length b))"
    by simp
  show "leads S0 H (n + length b) js"
    using assms step[of "length b + _"] by (auto simp: leads_def nth_append add.assoc)
  have len: "n + length b \<le> length H"
    using assms by (simp add: leads_def)
  show "\<forall>job \<in> set b. confirmed H (n + length b) (wj_native_reply job)"
  proof
    fix job assume "job \<in> set b"
    then obtain k where k: "k < length b" "b ! k = job"
      by (auto simp: in_set_conv_nth)
    then have "wj_native_reply job = fst (H ! (n + k))"
      using step(2)[of k] by (simp add: nth_append)
    moreover have "H ! (n + k) \<in> set (take (n + length b) H)"
      using k len by (auto simp: in_set_conv_nth intro!: exI[of _ "n + k"])
    ultimately show "confirmed H (n + length b) (wj_native_reply job)"
      by (auto simp: confirmed_def)
  qed
qed

section \<open>Every step keeps the correspondence\<close>

lemma world_okD:
  assumes "world_ok hash S0 W n"
  shows "budget_ok (kv_writer (wo_kv W)) (wo_disk W)" "list_all (store_ok hash) (states S0 (wo_history W))"
    "kv_store (wo_kv W) = last (states S0 (wo_history W))"
    "unat (st_next_operation_sequence (kv_store (wo_kv W))) \<le> unat (st_next_operation_sequence S0) + length (wo_history W)"
    "n \<le> length (wo_history W)" "dk_tables (wo_disk W) = persist (states S0 (wo_history W) ! n)"
    "\<not> st_writer (kv_store (wo_kv W)) \<Longrightarrow> dk_thread (wo_disk W) = Gone"
    "healthy (dk_thread (wo_disk W)) \<Longrightarrow> leads S0 (wo_history W) n (awaiting (dk_thread (wo_disk W)) @ wr_queue (kv_writer (wo_kv W)))"
    "(i, True) \<in> set (wr_replies (kv_writer (wo_kv W))) \<Longrightarrow> confirmed (wo_history W) n (Some i)"
    "dk_thread (wo_disk W) = Answering True js \<Longrightarrow> job \<in> set js \<Longrightarrow> confirmed (wo_history W) n (wj_native_reply job)"
    "distinct (List.map_filter fst (wo_history W))" "j \<in> set (List.map_filter fst (wo_history W)) \<Longrightarrow> j < wr_next_reply (kv_writer (wo_kv W))"
  using assms by (auto simp: world_ok_def Let_def)

text \<open>A step of the thread that changes neither the tables nor what is outstanding.\<close>

lemma world_ok_thread:
  assumes ok: "world_ok hash S0 W n" and w: "budget_ok w D" "dk_tables D = dk_tables (wo_disk W)" "wr_next_reply w = wr_next_reply (kv_writer (wo_kv W))"
    and thread: "dk_thread (wo_disk W) \<noteq> Gone"
    and replies: "\<And>i. (i, True) \<in> set (wr_replies w) \<Longrightarrow> confirmed (wo_history W) n (Some i)"
    and leads: "healthy (dk_thread D) \<Longrightarrow> leads S0 (wo_history W) n (awaiting (dk_thread D) @ wr_queue w)"
    and answering: "\<And>js job. dk_thread D = Answering True js \<Longrightarrow> job \<in> set js \<Longrightarrow> confirmed (wo_history W) n (wj_native_reply job)"
  shows "world_ok hash S0 (W\<lparr>wo_kv := (wo_kv W)\<lparr>kv_writer := w\<rparr>, wo_disk := D\<rparr>) n"
  using world_okD[OF ok] w thread replies leads answering
  unfolding world_ok_def Let_def by auto

lemma writer_ok:
  assumes ok: "world_ok hash S0 W n" and R: "atomic_commits R"
  shows "\<exists>m \<ge> n. world_ok hash S0 (kv_apply deployment R WriterStep W) m"
proof -
  let ?w = "kv_writer (wo_kv W)" and ?D = "wo_disk W"
  note D = world_okD[OF ok]
  obtain w' D' where step: "writer_step R (?w, ?D) = (w', D')"
    by fastforce
  have budget: "budget_ok w' D'"
    using writer_step_budget[OF D(1), of R] by (simp add: step)
  have apply_eq: "kv_apply deployment R WriterStep W = W\<lparr>wo_kv := (wo_kv W)\<lparr>kv_writer := w'\<rparr>, wo_disk := D'\<rparr>"
    by (simp add: step)
  have same: "?thesis" if "dk_tables D' = dk_tables ?D" "wr_next_reply w' = wr_next_reply ?w" "dk_thread ?D \<noteq> Gone"
    "\<And>i. (i, True) \<in> set (wr_replies w') \<Longrightarrow> confirmed (wo_history W) n (Some i)"
    "healthy (dk_thread D') \<Longrightarrow> leads S0 (wo_history W) n (awaiting (dk_thread D') @ wr_queue w')"
    "\<And>js job. dk_thread D' = Answering True js \<Longrightarrow> job \<in> set js \<Longrightarrow> confirmed (wo_history W) n (wj_native_reply job)"
    unfolding apply_eq by (intro exI[of _ n] conjI order_refl world_ok_thread[OF ok budget]) (rule that; assumption)+
  show ?thesis
  proof (cases "dk_thread ?D")
    case (Gathering b)
    then show ?thesis
      using step D(8,9) by (intro same) (auto simp: writer_step_def healthy_def awaiting_def split: list.splits if_splits)
  next
    case (Committing b)
    have lead: "leads S0 (wo_history W) n (b @ wr_queue ?w)"
      using D(8) Committing by (simp add: healthy_def awaiting_def)
    note after = leads_append[OF lead]
    obtain ok' t d where commit: "rd_commit R (dk_db ?D) (dk_tables ?D) (write_batch b (dk_tables ?D)) = (ok', t, d)"
      by (metis prod_cases3)
    have D': "w' = ?w" "D' = ?D\<lparr>dk_thread := Answering ok' b, dk_tables := t, dk_db := d\<rparr>"
      using step Committing commit by (auto simp: writer_step_def)
    have outcome: "t = dk_tables ?D \<or> t = write_batch b (dk_tables ?D)" "ok' \<Longrightarrow> t = write_batch b (dk_tables ?D)"
      using R commit unfolding atomic_commits_def by (metis (mono_tags, lifting) case_prodD)+
    have written: "write_batch b (dk_tables ?D) = persist (states S0 (wo_history W) ! (n + length b))"
      using after(1) D(6) by simp
    have len: "n + length b \<le> length (wo_history W)"
      using lead by (simp add: leads_def)
    have "world_ok hash S0 (kv_apply deployment R WriterStep W) (n + length b)" if "t = write_batch b (dk_tables ?D)"
      unfolding apply_eq D' using D budget len that written after(2,3) Committing confirmed_mono[of "wo_history W" n _ "n + length b" "[]"]
      unfolding world_ok_def Let_def D' by (auto simp: healthy_def awaiting_def)
    moreover have "world_ok hash S0 (kv_apply deployment R WriterStep W) n" if "t = dk_tables ?D" "\<not> ok'"
      using that D' Committing D by (subst apply_eq) (intro world_ok_thread[OF ok budget]; simp add: healthy_def)
    ultimately show ?thesis
      using outcome by (cases ok') (auto intro: exI[of _ "n + length b"])
  next
    case (Answering ok' b)
    then show ?thesis
      using step D(8,9,10) by (intro same; cases b) (auto simp: writer_step_def healthy_def awaiting_def answer_budget split: option.splits if_splits)
  next
    case Draining
    then show ?thesis
      using step D(9) by (intro same; cases "wr_queue ?w") (auto simp: writer_step_def healthy_def answer_budget split: option.splits)
  next
    case Leaving
    then show ?thesis
      using step D(9) by (intro same) (auto simp: writer_step_def healthy_def drop_jobs)
  next
    case Gone
    then have "kv_apply deployment R WriterStep W = W"
      by (simp add: writer_step_def)
    with ok show ?thesis
      by auto
  qed
qed

lemma map_filter_snoc: "List.map_filter fst (H @ [(r, S)]) = List.map_filter fst H @ (case r of None \<Rightarrow> [] | Some i \<Rightarrow> [i])"
  by (simp add: List.map_filter_def split: option.split)

lemma sequence_step:
  "unat (st_next_operation_sequence st) \<le> k \<Longrightarrow> unat (st_next_operation_sequence (settled rq se st)) \<le> Suc k"
  by (simp add: settled_def unat_saturating_add)

lemma full_impossible:
  assumes "budget_ok w D" "WriterBudget_try_reserve p (wr_budget w) = Some (p, b)"
  shows "length (wr_queue w) < MAX_PENDING_WRITES"
  using assms by (auto simp: budget_ok_def held_jobs_def WriterBudget_try_reserve_def checked_nat_def split: if_splits)

lemma reserve_budget:
  assumes "budget_ok w D" "wr_receiver w" "WriterBudget_try_reserve (wj_permit job) (wr_budget w) = Some (wj_permit job, b)"
  shows "budget_ok (w\<lparr>wr_queue := wr_queue w @ [job], wr_budget := b, wr_next_reply := r\<rparr>) D"
  using assms by (auto simp: budget_ok_def held_jobs_def WriterBudget_try_reserve_def checked_nat_def split: if_splits)

text \<open>Adding a settled store to the history.\<close>

lemma world_ok_settled:
  assumes ok: "world_ok hash S0 W n" and S: "store_ok hash S" "unat (st_next_operation_sequence S) \<le> unat (st_next_operation_sequence S0) + Suc (length (wo_history W))"
    and budget: "budget_ok w (wo_disk W)" and thread: "\<not> st_writer S \<Longrightarrow> dk_thread (wo_disk W) = Gone"
    and replies: "wr_replies w = wr_replies (kv_writer (wo_kv W))"
    and leads: "healthy (dk_thread (wo_disk W)) \<Longrightarrow>
      leads S0 (wo_history W @ [(r, S)]) n (awaiting (dk_thread (wo_disk W)) @ wr_queue w)"
    and fresh: "\<And>i. r = Some i \<Longrightarrow> i = wr_next_reply (kv_writer (wo_kv W)) \<and> i < wr_next_reply w"
    and "wr_next_reply (kv_writer (wo_kv W)) \<le> wr_next_reply w"
  shows "world_ok hash S0 (W\<lparr>wo_kv := \<lparr>kv_store = S, kv_writer = w\<rparr>, wo_history := wo_history W @ [(r, S)]\<rparr>) n"
proof -
  note D = world_okD[OF ok]
  have ids: "distinct (List.map_filter fst (wo_history W @ [(r, S)]))" "\<forall>i \<in> set (List.map_filter fst (wo_history W @ [(r, S)])). i < wr_next_reply w"
    using D(11,12) fresh assms(9) unfolding map_filter_snoc by (fastforce split: option.splits)+
  have grown: "confirmed (wo_history W @ [(r, S)]) n x" if "confirmed (wo_history W) n x" for x
    using that confirmed_mono by blast
  show ?thesis
    using D S budget thread replies leads ids grown unfolding world_ok_def Let_def by (auto simp: states_snoc nth_append)
qed

lemma request_ok:
  assumes ok: "world_ok hash S0 W n" and typed: "kv_request_typed hash rq" and room: "unat (st_next_operation_sequence (kv_store (wo_kv W))) < 2 ^ 64 - 1"
  shows "world_ok hash S0 (kv_apply deployment R (Request rq) W) n"
proof (cases rule: answer_cases[of deployment rq "wo_kv W"])
  case (refused e)
  then show ?thesis
    using ok by (simp add: settled_now_def)
next
  case (replayed previous)
  then show ?thesis
    using ok by (simp add: settled_now_def bt_has_def)
next
  case (settled se queued reply K')
  note D = world_okD[OF ok]
  let ?st = "kv_store (wo_kv W)" and ?S = "settled rq se (kv_store (wo_kv W))"
  let ?dedup = "settled_dedup rq se ?st" and ?evicted = "rp_evicted (settled_plan rq se ?st)"
  have "store_ok hash ?st"
    using D(2,3) last_in_set[OF states_snoc(3)] by (simp add: list_all_iff)
  then have S: "store_ok hash ?S" "unat (st_next_operation_sequence ?S) \<le> unat (st_next_operation_sequence S0) + Suc (length (wo_history W))"
    using settled_ok[OF _ typed settled(2,6,7,8,1) room] sequence_step[OF D(4)] by auto
  have eq: "kv_apply deployment R (Request rq) W =
      W\<lparr>wo_kv := K', wo_history := wo_history W @ [(if queued then reply else None, kv_store K')]\<rparr>"
    using settled(1,4) by (simp add: settled_now_def bt_has_def settled_commit_def)
  have "st_writer ?S = st_writer ?st"
    by simp
  then show ?thesis
  proof (cases rule: submit_cases[of ?S "wo_kv W" "rq_durable rq" "se_rows se" "rq_operation_id rq" ?dedup ?evicted])
    case refused
    with settled(3) show ?thesis
      by simp
  next
    case memory
    then have K': "queued = False" "K' = \<lparr>kv_store = ?S, kv_writer = kv_writer (wo_kv W)\<rparr>"
      using settled(3) by (cases "wo_kv W", simp)+
    show ?thesis
      unfolding eq K' if_False Kv.select_convs
      using memory(1) D(7) by (intro world_ok_settled[OF ok S D(1)]) (simp_all add: healthy_def)
  next
    case (queued job b r)
    have K': "queued = True" "reply = r"
      "K' = \<lparr>kv_store = ?S, kv_writer = (kv_writer (wo_kv W))\<lparr>wr_queue := wr_queue (kv_writer (wo_kv W)) @ [job], wr_budget := b,
           wr_next_reply := wr_next_reply (kv_writer (wo_kv W)) + (if rq_durable rq then 1 else 0)\<rparr>\<rparr>"
      using settled(3) queued(10) by simp_all
    have job: "job = \<lparr>wj_mutations = se_rows se, wj_operation = Some (rq_operation_id rq, encode_native_dedup ?dedup),
        wj_evicted_operations = ?evicted, wj_native_reply = r, wj_permit = wj_permit job\<rparr>"
      using queued(5-8) by (cases job) simp
    have "write_batch [job] (persist (last (states S0 (wo_history W)))) = persist ?S"
      by (subst job) (simp only: write_settlement[OF settled(2)] flip: D(3))
    note leads = leads_snoc[OF D(8) this queued(8)]
    show ?thesis
      unfolding eq K' if_True Kv.select_convs
      using leads queued(1,9) by (intro world_ok_settled[OF ok S reserve_budget[OF D(1) queued(2,4)]]) (auto split: if_splits)
  next
    case (lost r)
    obtain p b where "WriterBudget_try_reserve p (wr_budget (kv_writer (wo_kv W))) = Some (p, b)"
      using lost(3) by blast
    with lost(2) full_impossible[OF D(1)] have gone: "dk_thread (wo_disk W) = Gone"
      using D(1) by (auto simp: budget_ok_def)
    have K': "queued = False" "K' = \<lparr>kv_store = ?S\<lparr>st_writer := False\<rparr>, kv_writer = (kv_writer (wo_kv W))\<lparr>
           wr_next_reply := wr_next_reply (kv_writer (wo_kv W)) + (if rq_durable rq then 1 else 0)\<rparr>\<rparr>"
      using settled(3) lost(4) by simp_all
    have budget: "budget_ok (kv_writer K') (wo_disk W)"
      using D(1) by (simp add: K' budget_ok_def held_jobs_def)
    have "world_ok hash S0 (W\<lparr>wo_kv := \<lparr>kv_store = kv_store K', kv_writer = kv_writer K'\<rparr>, wo_history := wo_history W @ [(None, kv_store K')]\<rparr>) n"
      using S gone by (intro world_ok_settled[OF ok _ _ budget]) (simp_all add: K' healthy_def)
    then show ?thesis
      unfolding eq by (simp add: K')
  qed
qed

fun event_typed :: "(bytes \<Rightarrow> bytes) \<Rightarrow> kv_event \<Rightarrow> bool" where
  "event_typed hash (Request rq) \<longleftrightarrow> kv_request_typed hash rq"
| "event_typed hash WriterStep \<longleftrightarrow> True"

lemma history_step: "\<exists>h. wo_history (kv_apply deployment R e W) = wo_history W @ h \<and> length h \<le> 1"
proof (cases e)
  case (Request rq)
  then show ?thesis
    by (auto simp: settled_now_def Let_def split: sum.splits prod.splits)
qed (auto split: prod.split)

lemma kv_run_ok:
  assumes "world_ok hash S0 W n" "atomic_commits R" "list_all (event_typed hash) events"
    and "unat (st_next_operation_sequence S0) + length (wo_history W) + length events < 2 ^ 64 - 1"
  shows "\<exists>m \<ge> n. world_ok hash S0 (kv_run deployment R events W) m"
  using assms
proof (induction events arbitrary: W n)
  case (Cons e events)
  have "\<exists>m \<ge> n. world_ok hash S0 (kv_apply deployment R e W) m"
  proof (cases e)
    case (Request rq)
    have "unat (st_next_operation_sequence (kv_store (wo_kv W))) < 2 ^ 64 - 1"
      using world_okD(4)[OF Cons.prems(1)] Cons.prems(4) by simp
    then show ?thesis
      using request_ok[OF Cons.prems(1)] Cons.prems(3) Request by fastforce
  next
    case WriterStep
    then show ?thesis
      using writer_ok[OF Cons.prems(1,2)] by simp
  qed
  then obtain m where m: "n \<le> m" "world_ok hash S0 (kv_apply deployment R e W) m"
    by blast
  moreover have "unat (st_next_operation_sequence S0) + length (wo_history (kv_apply deployment R e W)) + length events < 2 ^ 64 - 1"
    using history_step[of deployment R e W] Cons.prems(4) by auto
  ultimately obtain m' where "m \<le> m'" "world_ok hash S0 (kv_run deployment R events (kv_apply deployment R e W)) m'"
    using Cons.IH[OF m(2) Cons.prems(2)] Cons.prems(3) by auto
  then show ?case
    using m(1) order_trans by auto
qed auto

section \<open>Starting from the tables of a store\<close>

lemma entries_bt_map: "entries (bt_map f m) = map (\<lambda>(k, v). (k, f v)) (entries m)"
  by transfer simp

lemma load_rows:
  assumes "list_all (\<lambda>(k, e). entry_ok hash e) xs"
  shows "fold (load_row hash) (map (\<lambda>(k, e). (k, row_of e)) xs) st =
    st\<lparr>st_revision := fold max (map (en_modification_revision \<circ> snd) xs) (st_revision st),
       st_total_bytes := st_total_bytes st + of_nat (sum_list (map (\<lambda>(k, e). length k + length (en_value e)) xs)),
       st_entries := fold (\<lambda>(k, e). bt_insert k e) xs (st_entries st)\<rparr>"
  using assms
proof (induction xs arbitrary: st)
  case (Cons x xs)
  obtain k e where x: "x = (k, e)"
    by (cases x)
  have e: "en_hash e = hash (en_value e)" "en_modification_revision e \<noteq> 0"
    using Cons.prems by (auto simp: x entry_ok_def)
  then have "max (en_modification_revision e) 1 = en_modification_revision e"
    by (metis max.absorb1 max.cobounded1 not_less word_less_1)
  then have "load_row hash (k, row_of e) st = st\<lparr>st_revision := max (st_revision st) (en_modification_revision e),
      st_total_bytes := st_total_bytes st + of_nat (length k + length (en_value e)), st_entries := bt_insert k e (st_entries st)\<rparr>"
    using entry_fields[of e] by (simp add: load_row_def row_of_def Let_def e(1)[symmetric])
  with Cons show ?case
    by (simp add: x max.commute add.assoc)
qed simp

definition restarted :: "Store \<Rightarrow> Store" where
  "restarted S = S\<lparr>st_native_changes := [], st_writer := True\<rparr>"

lemma load_entries_persisted:
  assumes "store_ok hash S"
  shows "load_entries hash (persist S) =
    empty_store\<lparr>st_revision := fold max (entry_revisions S) 1, st_total_bytes := st_total_bytes S, st_entries := st_entries S\<rparr>"
proof -
  have "list_all (\<lambda>(k, e). entry_ok hash e) (entries (st_entries S))"
    using store_okD(2)[OF assms] by (auto simp: list_all_iff in_entries_iff)
  moreover have "fold (\<lambda>(k, e). bt_insert k e) (entries (st_entries S)) bt_empty = st_entries S"
    using bt_collect_entries[of "st_entries S"] by (simp add: bt_collect_def)
  ultimately show ?thesis
    using assms by (simp add: load_entries_def persist_def entries_bt_map load_rows empty_store_def entry_revisions_def store_ok_def store_size_def)
qed

lemma unretained_persisted:
  assumes "store_ok hash S"
  shows "unretained (st_operations S) (persist S) = []"
proof -
  have "length i = 16 \<and> bt_has (st_operations S) i" if "(i, r) \<in> set (entries (st_operations S))" for i r
    using store_okD(1)[OF assms] that by (auto simp: operations_ok_def in_entries_iff bt_has_def)
  then show ?thesis
    by (force simp: unretained_def persist_def entries_bt_map filter_empty_conv)
qed

lemma open_persisted:
  assumes ok: "store_ok hash S" and R: "reads_succeed R" and su: "su_path su" "su_create su" "su_spawn su"
  shows "\<exists>d'. Store_open hash deployment su R (persist S) d =
    Some (\<lparr>kv_store = restarted S, kv_writer = new_writer deployment\<rparr>, \<lparr>dk_thread = Gathering [], dk_tables = persist S, dk_db = d'\<rparr>)"
proof -
  have read: "\<exists>y. rd_read R x = (True, y)" for x
    using R by (metis reads_succeed_def prod.collapse)
  obtain d1 d2 d3 where d: "rd_read R d = (True, d1)" "rd_read R d1 = (True, d2)" "rd_read R d2 = (True, d3)"
    using read by metis
  let ?st = "empty_store\<lparr>st_revision := fold max (entry_revisions S) 1, st_total_bytes := st_total_bytes S, st_entries := st_entries S\<rparr>"
  let ?retained = "\<lparr>ro_values = st_operations S, ro_order = st_operation_order S, ro_maximum_store_revision = fold max (operation_revisions S) 1,
       ro_maximum_sequence = fold max (operation_sequences S) 0\<rparr>"
  have retained: "load_operation_replays (live_revisions (st_entries S)) (tb_operations (persist S)) = ?retained"
    using load_retained[OF store_okD(1)[OF ok]] by (simp add: persist_def operation_revisions_def operation_sequences_def)
  have prune: "prune_persisted_operation_replays R (st_operations S) (persist S) d2 = Some (True, persist S, d3)"
    by (subst prune_persisted_operation_replays.simps) (simp add: d(3) unretained_persisted[OF ok])
  have adopt: "(adopt_operations ?retained ?st)\<lparr>st_writer := True\<rparr> = restarted S"
  proof -
    have "st_revision S = max (fold max (entry_revisions S) 1) (fold max (operation_revisions S) 1)"
      "st_next_operation_sequence S = saturating_add (fold max (operation_sequences S) 0) 1"
      using ok unfolding store_ok_def by blast+
    then show ?thesis
      by (intro Store.equality) (simp_all add: adopt_operations_def restarted_def empty_store_def)
  qed
  show ?thesis
    using su by (simp add: Store_open_def Let_def d(1,2) load_entries_persisted[OF ok] retained prune adopt)
qed

lemma started_ok:
  assumes "store_ok hash S"
  shows "world_ok hash (restarted S)
    \<lparr>wo_kv = \<lparr>kv_store = restarted S, kv_writer = new_writer deployment\<rparr>, wo_disk = \<lparr>dk_thread = Gathering [], dk_tables = persist S, dk_db = d\<rparr>,
     wo_history = []\<rparr> 0"
proof -
  have "store_ok hash (restarted S)" "persist (restarted S) = persist S"
    using assms by (simp_all add: restarted_def store_ok_def entry_revisions_def operation_revisions_def operation_sequences_def persist_def)
  then show ?thesis
    by (simp add: world_ok_def states_def leads_def budget_ok_def held_jobs_def thread_jobs_def new_writer_def WriterBudget_new_def awaiting_def
        restarted_def List.map_filter_def)
qed

end
