(* ===== verification/Kv_Properties.thy ===== *)
theory Kv_Properties
  imports Kv_Reach
begin

text \<open>
  What the key-value store of the server promises: recovery after a stop, retries, the retention of operations, watches, limits, and the progress of its
  writer thread.
\<close>

section \<open>What every request keeps\<close>

lemma same_writer: "\<exists>b. st = st\<lparr>st_writer := b\<rparr>"
  by (rule exI[of _ "st_writer st"]) simp

lemma submit_store:
  assumes "st_writer st' = st_writer (kv_store K)" "submit durable rows i dedup evicted st' K = (Inr r, K')"
  shows "\<exists>b. kv_store K' = st'\<lparr>st_writer := b\<rparr>"
  by (rule submit_cases[OF assms(1), of durable rows i dedup evicted]) (use assms(2) in \<open>auto intro: same_writer\<close>)

lemma answer_store:
  obtains (same) "kv_store (snd (answer_request deployment rq K)) = kv_store K"
  | (settled) se b where "bt_get (st_operations (kv_store K)) (rq_operation_id rq) = None" "settles deployment rq (kv_store K) se"
      "\<forall>m \<in> set (rq_mutations rq). \<not> mutation_refused (native_limits deployment) m"
      "kv_store (snd (answer_request deployment rq K)) = (settled rq se (kv_store K))\<lparr>st_writer := b\<rparr>"
proof (cases rule: answer_cases[of deployment rq K])
  case (settled se queued reply K')
  have "\<exists>b. kv_store K' = (settled rq se (kv_store K))\<lparr>st_writer := b\<rparr>"
    using submit_store[OF settled_writer settled(3)] .
  moreover have "\<forall>m \<in> set (rq_mutations rq). \<not> mutation_refused (native_limits deployment) m"
    using settled(4) by (auto simp: answer_request_def native_mutate_def split: if_splits)
  ultimately show thesis
    using settled(1,2,4) that(2) by auto
qed (simp_all add: that(1))

fun requests :: "kv_event list \<Rightarrow> nat" where
  "requests [] = 0"
| "requests (Request rq # es) = Suc (requests es)"
| "requests (WriterStep # es) = requests es"

lemma requests_idle [simp]: "requests (replicate n WriterStep) = 0"
  by (induction n) simp_all

text \<open>
  A fact \<open>P n\<close> of the store that holds for \<open>n\<close> more requests: it survives one settlement of a request that satisfies \<open>good\<close>, at the cost of one.
\<close>

locale kept =
  fixes deployment :: "string \<Rightarrow> u64 option" and good :: "kv_request \<Rightarrow> bool" and P :: "nat \<Rightarrow> Store \<Rightarrow> bool"
  assumes weaker: "P (Suc n) st \<Longrightarrow> P n st"
    and settling: "P (Suc n) st \<Longrightarrow> good rq \<Longrightarrow> bt_get (st_operations st) (rq_operation_id rq) = None \<Longrightarrow> settles deployment rq st se \<Longrightarrow>
      \<forall>m \<in> set (rq_mutations rq). \<not> mutation_refused (native_limits deployment) m \<Longrightarrow> P n ((settled rq se st)\<lparr>st_writer := b\<rparr>)"
begin

lemma answered: "P (Suc n) (kv_store K) \<Longrightarrow> good rq \<Longrightarrow> P n (kv_store (snd (answer_request deployment rq K)))"
  by (cases rule: answer_store[of deployment rq K]) (auto intro: weaker settling)

lemma after_run:
  assumes "P (requests events + n) (kv_store (wo_kv W))" "\<And>rq. Request rq \<in> set events \<Longrightarrow> good rq"
  shows "P n (kv_store (wo_kv (kv_run deployment R events W)))"
  using assms
proof (induction events arbitrary: W)
  case (Cons e events)
  show ?case
  proof (cases e)
    case (Request rq)
    then show ?thesis
      using Cons.prems answered[of "requests events + n" "wo_kv W" rq] Cons.IH[of "kv_apply deployment R e W"] by (simp add: Let_def)
  next
    case WriterStep
    then show ?thesis
      using Cons.prems Cons.IH[of "kv_apply deployment R e W"] by (simp split: prod.split)
  qed
qed simp

end

section \<open>Recovery\<close>

lemma distinct_map_filter_nth:
  assumes "distinct (List.map_filter fst H)" "m < length H" "k < length H" "fst (H ! m) = Some i" "fst (H ! k) = Some i"
  shows "m = k"
proof -
  have False if "a < b" "b < length H" "fst (H ! a) = Some i" "fst (H ! b) = Some i" for a b
  proof -
    have split: "H = take b H @ H ! b # drop (Suc b) H"
      using that(2) by (simp add: id_take_nth_drop)
    have "H ! a \<in> set (take b H)"
      using that by (auto simp: in_set_conv_nth intro!: exI[of _ a])
    then have "i \<in> set (List.map_filter fst (take b H))"
      using that(3) by (auto simp: List.map_filter_def intro!: image_eqI[of _ _ "H ! a"])
    moreover have "distinct (List.map_filter fst (take b H) @ i # List.map_filter fst (drop (Suc b) H))"
      using assms(1) that(4) by (subst (asm) split) (simp add: List.map_filter_def)
    ultimately show False
      by simp
  qed
  then show ?thesis
    using assms(2-5) by (metis linorder_neqE_nat)
qed

lemma confirmed_nth:
  assumes "distinct (List.map_filter fst H)" "n \<le> length H" "confirmed H n (Some i)" "m < length H" "fst (H ! m) = Some i"
  shows "m < n"
proof -
  obtain k where "k < n" "fst (H ! k) = Some i"
    using assms(2,3) by (fastforce simp: confirmed_def in_set_conv_nth)
  then show ?thesis
    using distinct_map_filter_nth[OF assms(1,4) _ assms(5), of k] assms(2) by auto
qed

lemma restarted_states: "restarted (states (restarted S) H ! n) = restarted (states S H ! n)"
  by (cases n) (simp_all add: states_def restarted_def)

lemma restarted_ok: "store_ok hash (restarted S) = store_ok hash S"
  by (simp add: restarted_def store_ok_def entry_revisions_def operation_revisions_def operation_sequences_def)

lemma restarted_persist: "persist (restarted S) = persist S"
  by (simp add: restarted_def persist_def)

lemma restarted_sequence: "st_next_operation_sequence (restarted S) = st_next_operation_sequence S"
  by (simp add: restarted_def)

text \<open>
  C3: the store survives a stop at any moment.  Start the store on the tables of a store \<open>S\<close>, answer requests and let the writer thread run in any order, with a database whose transactions
  are atomic but may fail, and stop.  What a start on the tables that are left finds, is the store as it was after some number \<open>n\<close> of the requests that were settled, in the order they were settled:
  entries, revisions, the operations it remembers, and the limits it keeps.  Every request that was told that its mutation is durable is among these \<open>n\<close>.
\<close>

theorem kv_crash_recovery:
  assumes "store_ok hash S" "atomic_commits R" "reads_succeed R" "su_path su" "su_create su" "su_spawn su"
    and "Store_open hash deployment su R (persist S) d = Some (K, D)"
    and "list_all (event_typed hash) events" "unat (st_next_operation_sequence S) + length events < 2 ^ 64 - 1"
    and "W = kv_run deployment R events \<lparr>wo_kv = K, wo_disk = D, wo_history = []\<rparr>"
  shows "\<exists>n \<le> length (wo_history W).
    (\<forall>d. \<exists>D'. Store_open hash deployment su R (dk_tables (wo_disk W)) d =
       Some (\<lparr>kv_store = restarted (states S (wo_history W) ! n), kv_writer = new_writer deployment\<rparr>, D'))
    \<and> store_ok hash (states S (wo_history W) ! n)
    \<and> (\<forall>m < length (wo_history W). \<forall>i. fst (wo_history W ! m) = Some i \<and> (i, True) \<in> set (wr_replies (kv_writer (wo_kv W))) \<longrightarrow> m < n)"
proof -
  let ?H = "wo_history W"
  obtain d' where "K = \<lparr>kv_store = restarted S, kv_writer = new_writer deployment\<rparr>" "D = \<lparr>dk_thread = Gathering [], dk_tables = persist S, dk_db = d'\<rparr>"
    using open_persisted[OF assms(1,3-6), of deployment d] assms(7) by auto
  then have "world_ok hash (restarted S) \<lparr>wo_kv = K, wo_disk = D, wo_history = []\<rparr> 0"
    using started_ok[OF assms(1)] by simp
  from kv_run_ok[OF this assms(2,8)] obtain n where ok: "world_ok hash (restarted S) W n"
    using assms(9,10) by (auto simp: restarted_sequence)
  note D = world_okD[OF ok]
  let ?S = "states (restarted S) ?H ! n"
  have S: "store_ok hash ?S"
    using D(2,5) by (simp add: list_all_length states_snoc)
  have "\<exists>D'. Store_open hash deployment su R (dk_tables (wo_disk W)) d = Some (\<lparr>kv_store = restarted (states S ?H ! n), kv_writer = new_writer deployment\<rparr>, D')" for d
    using open_persisted[OF S assms(3-6), of deployment d] unfolding D(6) restarted_states by blast
  moreover have "store_ok hash (states S ?H ! n)"
    using S restarted_ok restarted_states by metis
  moreover have "m < n" if "m < length ?H" "fst (?H ! m) = Some i \<and> (i, True) \<in> set (wr_replies (kv_writer (wo_kv W)))" for m i
    using that confirmed_nth[OF D(11,5) D(9) that(1)] by blast
  ultimately show ?thesis
    using D(5) by blast
qed

definition reliable :: "unit Redb" where
  "reliable = \<lparr>rd_read = \<lambda>d. (True, d), rd_commit = \<lambda>d old new. (True, new, d)\<rparr>"

lemma reliable_ok: "atomic_commits reliable" "reads_succeed reliable"
  by (simp_all add: reliable_def atomic_commits_def reads_succeed_def)

definition sample_hash :: "bytes \<Rightarrow> bytes" where
  "sample_hash v = replicate 32 7"

definition sample_put :: kv_request where
  "sample_put = \<lparr>rq_now_ns = 5, rq_operation_id = replicate 16 1, rq_fingerprint = replicate 32 2, rq_durable = True, rq_stage_witnesses = [],
     rq_mutations = [Put [97] Absent [1, 2, 3] (replicate 32 7)]\<rparr>"

definition ready :: startup where
  "ready = \<lparr>su_path = True, su_create = True, su_spawn = True\<rparr>"

lemma sample_typed: "event_typed sample_hash (Request sample_put)"
  by (simp add: kv_request_typed_def sample_put_def sample_hash_def)

definition sample_run :: "kv_event list" where
  "sample_run = [Request sample_put, WriterStep, WriterStep, WriterStep, WriterStep]"

definition sample_world :: "unit world" where
  "sample_world = \<lparr>wo_kv = \<lparr>kv_store = restarted empty_store, kv_writer = new_writer (\<lambda>_. None)\<rparr>,
     wo_disk = \<lparr>dk_thread = Gathering [], dk_tables = persist empty_store, dk_db = ()\<rparr>, wo_history = []\<rparr>"

lemma sample_native_limits:
  "value_max (\<lambda>_. None) = 4194304" "native_limits (\<lambda>_. None) = kv_HARD"
  by (simp_all add: value_max_def native_limits_def env_budget_def max_entries_def total_max_def kv_HARD_def)

lemma sample_queue_bytes: "writer_queue_max_bytes (\<lambda>_. None) = 268435456 + 65536 + 56 + 58 * 256 + 16 * 50"
  by (simp add: writer_queue_max_bytes_def total_max_def env_budget_def kv_HARD_def OPERATION_RECORD_HEADER_BYTES_def MAX_BATCH_ITEMS_def
      OPERATION_RESULT_ENCODED_BYTES_def MAX_STAGE_WITNESSES_PER_OPERATION_def STAGE_WITNESS_ENCODED_BYTES_def saturating_add_def saturating_mul_def
      checked_add_def)

lemmas sample_kv_defs = sample_put_def sample_native_limits restarted_def empty_store_def new_writer_def sample_queue_bytes MAX_BATCH_ITEMS_def kv_HARD_def
  MAX_STAGE_WITNESSES_PER_OPERATION_def mutation_refused_def

definition sample_results :: "NativeMutationResult list" where
  "sample_results = [\<lparr>mr_status = StOk, mr_modification_revision = 2, mr_mtime_ns = 5, mr_content_hash = replicate 32 7, mr_byte_len = 3\<rparr>]"

definition sample_store :: Store where
  "sample_store = \<lparr>st_entries = bt_insert [97] \<lparr>en_value = [1, 2, 3], en_hash = replicate 32 7, en_mtime_ns = 5, en_modification_revision = 2\<rparr> bt_empty,
     st_native_changes = [\<lparr>nc_from_revision = 1, nc_to_revision = 2, nc_records =
       [Upsert \<lparr>ne_key = [97], ne_value = [1, 2, 3], ne_content_hash = replicate 32 7, ne_mtime_ns = 5, ne_modification_revision = 2\<rparr> True]\<rparr>],
     st_operations = bt_insert (replicate 16 1) \<lparr>dr_fingerprint = replicate 32 2, dr_store_revision = 2, dr_settlement_sequence = 1,
       dr_results = sample_results, dr_stage_witnesses = []\<rparr> bt_empty,
     st_operation_order = [replicate 16 1], st_next_operation_sequence = 2, st_writer = True, st_total_bytes = 4, st_revision = 2\<rparr>"

definition sample_commit :: NativeCommit where
  "sample_commit = \<lparr>cm_store_revision = 2, cm_results = sample_results, cm_durable = Some 0, cm_persistence_failed = False\<rparr>"

lemma sample_answer:
  "\<exists>w job. answer_request (\<lambda>_. None) sample_put (wo_kv sample_world) = (Inr sample_commit, \<lparr>kv_store = sample_store, kv_writer = w\<rparr>)
     \<and> wr_queue w = [job] \<and> wj_native_reply job = Some 0 \<and> wr_replies w = []"
  by (simp add: sample_world_def answer_request_def native_mutate_def sample_kv_defs settle_commit_def saturating_add_def checked_add_def Let_def checked_nat_def
      bt_len_def changed_keys_def change_record_def persisted_row_def plan_operation_replay_def prune_operation_replays_def live_revisions_def bt_values_def
      operation_pins_live_entry_def write_job_bytes_def encode_native_dedup_def encode_result_def reserve_write_def WriterBudget_new_def
      WriterBudget_try_reserve_def open_reply_def enqueue_permitted_def enqueue_job_def MAX_PENDING_WRITES_def MAX_RECENT_OPERATION_REPLAYS_def
      result_for_def OPERATION_RECORD_MAGIC_def sample_store_def sample_results_def sample_commit_def native_entry_def bt_has_def)

lemma sample_history:
  "wo_history (kv_run (\<lambda>_. None) reliable sample_run sample_world) = [(Some 0, sample_store)]"
  "wr_replies (kv_writer (wo_kv (kv_run (\<lambda>_. None) reliable sample_run sample_world))) = [(0, True)]"
proof -
  obtain w job where answer: "answer_request (\<lambda>_. None) sample_put (wo_kv sample_world) = (Inr sample_commit, \<lparr>kv_store = sample_store, kv_writer = w\<rparr>)"
    and w: "wr_queue w = [job]" "wj_native_reply job = Some 0" "wr_replies w = []"
    using sample_answer by blast
  have "settled_now sample_put (wo_kv sample_world) (Inr sample_commit, \<lparr>kv_store = sample_store, kv_writer = w\<rparr>) = [(Some 0, sample_store)]"
    by (simp add: settled_now_def sample_world_def restarted_def empty_store_def bt_has_def sample_commit_def)
  then show "wo_history (kv_run (\<lambda>_. None) reliable sample_run sample_world) = [(Some 0, sample_store)]"
    "wr_replies (kv_writer (wo_kv (kv_run (\<lambda>_. None) reliable sample_run sample_world))) = [(0, True)]"
    using answer w by (simp_all add: sample_run_def Let_def, simp_all add: sample_world_def writer_step_def reliable_def answer_job_def drop_job_def)
qed

lemma sample_open:
  "Store_open sample_hash (\<lambda>_. None) ready reliable (persist empty_store) () = Some (wo_kv sample_world, wo_disk sample_world)"
  using open_persisted[OF empty_store_ok reliable_ok(2), of ready] by (auto simp: ready_def sample_world_def)

lemma sample_run_events: "list_all (event_typed sample_hash) sample_run" "unat (st_next_operation_sequence empty_store) + length sample_run < 2 ^ 64 - 1"
  using sample_typed by (simp_all add: sample_run_def) (simp add: empty_store_def)

lemma sample_start: "sample_world = \<lparr>wo_kv = wo_kv sample_world, wo_disk = wo_disk sample_world, wo_history = []\<rparr>"
  by (simp add: sample_world_def)

theorem kv_crash_recovery_witness:
  "\<exists>D'. Store_open sample_hash (\<lambda>_. None) ready reliable (dk_tables (wo_disk (kv_run (\<lambda>_. None) reliable sample_run sample_world))) () =
     Some (\<lparr>kv_store = restarted sample_store, kv_writer = new_writer (\<lambda>_. None)\<rparr>, D')"
proof -
  let ?W = "kv_run (\<lambda>_. None) reliable sample_run sample_world"
  have "?W = kv_run (\<lambda>_. None) reliable sample_run \<lparr>wo_kv = wo_kv sample_world, wo_disk = wo_disk sample_world, wo_history = []\<rparr>"
    using sample_start by simp
  from kv_crash_recovery[OF empty_store_ok reliable_ok _ _ _ sample_open sample_run_events this]
  obtain n where "n \<le> 1" "\<forall>d. \<exists>D'. Store_open sample_hash (\<lambda>_. None) ready reliable (dk_tables (wo_disk ?W)) d =
      Some (\<lparr>kv_store = restarted (states empty_store [(Some 0, sample_store)] ! n), kv_writer = new_writer (\<lambda>_. None)\<rparr>, D')" "0 < n"
    using sample_history by (auto simp: ready_def)
  then show ?thesis
    by (auto simp: states_def le_Suc_eq)
qed

section \<open>Retries\<close>

text \<open>The operation \<open>i\<close> settled as \<open>d\<close> and is not lost for \<open>n\<close> more requests.\<close>

definition remembered :: "bytes \<Rightarrow> NativeDedupResult \<Rightarrow> nat \<Rightarrow> Store \<Rightarrow> bool" where
  "remembered i d n st \<longleftrightarrow>
     bt_get (st_operations st) i = Some d \<and> i \<in> set (take (MAX_RECENT_OPERATION_REPLAYS - n) (rev (st_operation_order st)))"

lemma in_take_filter: "x \<in> set (take n xs) \<Longrightarrow> Q x \<Longrightarrow> x \<in> set (take n (filter Q xs))"
proof (induction xs arbitrary: n)
  case (Cons y xs)
  then show ?case
    using set_take_subset_set_take[of "n - 1" n "filter Q xs"] by (cases n) auto
qed simp

lemma settled_kept:
  fixes rq se st
  defines "i \<equiv> rq_operation_id rq" and "ops \<equiv> bt_insert (rq_operation_id rq) (settled_dedup rq se st) (st_operations st)"
    and "order \<equiv> st_operation_order st @ [rq_operation_id rq]"
  defines "K \<equiv> kept_ids (live_revisions (se_entries se)) ops order"
  shows "st_operation_order (settled rq se st) = filter (\<lambda>j. j \<in> K) order"
    and "j \<in> K \<or> j \<notin> set order \<Longrightarrow> bt_get (st_operations (settled rq se st)) j = bt_get ops j"
proof -
  obtain evicted ops' order' where prune: "prune_operation_replays (se_entries se) ops order = (evicted, ops', order')"
    by (metis prod_cases3)
  have "st_operation_order (settled rq se st) = order'" "st_operations (settled rq se st) = ops'"
    using prune by (simp_all add: settled_def settled_plan_def plan_operation_replay_def ops_def order_def)
  then show "st_operation_order (settled rq se st) = filter (\<lambda>j. j \<in> K) order"
    "j \<in> K \<or> j \<notin> set order \<Longrightarrow> bt_get (st_operations (settled rq se st)) j = bt_get ops j"
    using prune_eq(1,3)[OF prune] by (auto simp: K_def)
qed

lemma remembered_settled:
  assumes "remembered i d (Suc n) st" "bt_get (st_operations st) (rq_operation_id rq) = None"
  shows "remembered i d n ((settled rq se st)\<lparr>st_writer := b\<rparr>)"
proof -
  let ?M = MAX_RECENT_OPERATION_REPLAYS and ?order = "st_operation_order st @ [rq_operation_id rq]"
  have i: "bt_get (st_operations st) i = Some d" "i \<in> set (take (?M - Suc n) (rev (st_operation_order st)))" "i \<noteq> rq_operation_id rq"
    using assms by (auto simp: remembered_def)
  have "?M - n = Suc (?M - Suc n)"
    using i(2) by (cases "?M - Suc n") auto
  then have recent: "i \<in> set (take (?M - n) (rev ?order))"
    using i(2) by simp
  then have "i \<in> recent_ids ?order"
    using set_take_subset_set_take[of "?M - n" ?M "rev ?order"] by (auto simp: recent_ids_def)
  then have kept: "i \<in> kept_ids live ops ?order" for live ops
    by (simp add: kept_ids_def)
  have "bt_get (st_operations (settled rq se st)) i = Some d"
    using i(1,3) kept by (simp add: settled_kept(2))
  moreover have "i \<in> set (take (?M - n) (rev (st_operation_order (settled rq se st))))"
    unfolding settled_kept(1) rev_filter by (intro in_take_filter recent kept)
  ultimately show ?thesis
    by (simp add: remembered_def)
qed

lemma remembered_first:
  assumes "bt_get (st_operations st) (rq_operation_id rq) = None" "n < MAX_RECENT_OPERATION_REPLAYS"
  shows "remembered (rq_operation_id rq) (settled_dedup rq se st) n ((settled rq se st)\<lparr>st_writer := b\<rparr>)"
  using last_kept[of "rq_operation_id rq"] assms(2)
  by (cases "MAX_RECENT_OPERATION_REPLAYS - n") (simp_all add: remembered_def settled_kept rev_filter)

interpretation memory: kept deployment "\<lambda>_. True" "remembered i d" for deployment i d
proof
  show "remembered i d (Suc n) st \<Longrightarrow> remembered i d n st" for n st
    unfolding remembered_def by (meson diff_le_mono2 le_SucI order_refl set_take_subset_set_take subsetD)
qed (rule remembered_settled)

lemma answer_settled:
  assumes "answer_request deployment rq K = (Inr c, K')" "bt_get (st_operations (kv_store K)) (rq_operation_id rq) = None"
  obtains se b where "settles deployment rq (kv_store K) se" "kv_store K' = (settled rq se (kv_store K))\<lparr>st_writer := b\<rparr>"
    "cm_store_revision c = se_revision se" "cm_results c = se_results se"
proof (cases rule: answer_cases[of deployment rq K])
  case (settled se queued reply K'')
  have "\<exists>b. kv_store K' = (settled rq se (kv_store K))\<lparr>st_writer := b\<rparr>"
    using settled(3,4) assms(1) submit_store[OF settled_writer] by auto
  then show thesis
    using settled(2,4) assms(1) that by (auto simp: settled_commit_def)
qed (use assms in auto)

lemma replayed_answer:
  assumes "fst (answer_request deployment rq K) \<noteq> Inl MutationInvalid" "bt_get (st_operations (kv_store K')) (rq_operation_id rq) = Some d"
  shows "answer_request deployment (rq\<lparr>rq_now_ns := now, rq_fingerprint := f\<rparr>) K' =
    (if dr_fingerprint d = f then Inr (replay_commit d) else Inl MutationOperationConflict, K')"
  using assms by (auto simp: answer_request_def native_mutate_def Let_def split: if_splits)

text \<open>
  C10: a mutation is applied once.  When a request was settled, committed or in conflict, and at most 1023 requests came since, the same request sent again, at any time of the clock, gets
  the same revision and results and changes nothing, whatever the writer thread did meanwhile; a request with the same operation id and another fingerprint is refused.
  The answer to a retry does not say whether the mutation was persisted: it carries no channel and reports no failure.
\<close>

theorem kv_retry_answered:
  assumes "answer_request deployment rq (wo_kv W) = (Inr c, K')" "bt_get (st_operations (kv_store (wo_kv W))) (rq_operation_id rq) = None"
    and "requests later < MAX_RECENT_OPERATION_REPLAYS" "W' = kv_run deployment R (Request rq # later) W"
  shows "answer_request deployment (rq\<lparr>rq_now_ns := now, rq_fingerprint := f\<rparr>) (wo_kv W') =
    (if f = rq_fingerprint rq then Inr (c\<lparr>cm_durable := None, cm_persistence_failed := False\<rparr>) else Inl MutationOperationConflict, wo_kv W')"
proof -
  obtain se b where se: "kv_store K' = (settled rq se (kv_store (wo_kv W)))\<lparr>st_writer := b\<rparr>" "cm_store_revision c = se_revision se" "cm_results c = se_results se"
    using answer_settled[OF assms(1,2)] by metis
  let ?d = "settled_dedup rq se (kv_store (wo_kv W))"
  have "remembered (rq_operation_id rq) ?d (requests later + 0) (kv_store (wo_kv (kv_apply deployment R (Request rq) W)))"
    using remembered_first[OF assms(2,3), of se b] se(1) assms(1) by (simp add: Let_def)
  from memory.after_run[OF this] have "bt_get (st_operations (kv_store (wo_kv W'))) (rq_operation_id rq) = Some ?d"
    by (simp add: assms(4) remembered_def)
  from replayed_answer[OF _ this, of deployment "wo_kv W"] show ?thesis
    using assms(1) se(2,3) by (auto simp: replay_commit_def settled_dedup_def)
qed

theorem kv_retry_answered_witness:
  "answer_request (\<lambda>_. None) (sample_put\<lparr>rq_now_ns := 9\<rparr>) (wo_kv (kv_run (\<lambda>_. None) reliable sample_run sample_world)) =
    (Inr (sample_commit\<lparr>cm_durable := None\<rparr>), wo_kv (kv_run (\<lambda>_. None) reliable sample_run sample_world))"
proof -
  obtain w where answer: "answer_request (\<lambda>_. None) sample_put (wo_kv sample_world) = (Inr sample_commit, \<lparr>kv_store = sample_store, kv_writer = w\<rparr>)"
    using sample_answer by blast
  have fresh: "bt_get (st_operations (kv_store (wo_kv sample_world))) (rq_operation_id sample_put) = None"
    by (simp add: sample_world_def restarted_def empty_store_def)
  have few: "requests (replicate 4 WriterStep) < MAX_RECENT_OPERATION_REPLAYS"
    by (simp add: MAX_RECENT_OPERATION_REPLAYS_def)
  have run: "kv_run (\<lambda>_. None) reliable sample_run sample_world = kv_run (\<lambda>_. None) reliable (Request sample_put # replicate 4 WriterStep) sample_world"
    by (simp add: sample_run_def numeral_eq_Suc)
  from kv_retry_answered[OF answer fresh few run, where now = 9 and f = "rq_fingerprint sample_put"] show ?thesis
    by (simp add: sample_commit_def sample_put_def)
qed

section \<open>Live writes\<close>

text \<open>The operation \<open>i\<close> settled as \<open>d\<close>; while an entry it wrote is there, it is the one that pins that entry.\<close>

definition pinning :: "bytes \<Rightarrow> NativeDedupResult \<Rightarrow> nat \<Rightarrow> Store \<Rightarrow> bool" where
  "pinning i d n st \<longleftrightarrow>
     unat (st_revision st) + n < 2 ^ 64 \<and> dr_store_revision d \<le> st_revision st \<and> (\<exists>item \<in> set (dr_results d). mr_status item = StOk)
     \<and> (dr_store_revision d \<in> set (live_revisions (st_entries st)) \<longrightarrow>
          bt_get (st_operations st) i = Some d \<and> i \<in> set (st_operation_order st)
          \<and> (\<forall>j e. bt_get (st_operations st) j = Some e \<longrightarrow> dr_store_revision e = dr_store_revision d \<longrightarrow>
               (\<exists>item \<in> set (dr_results e). mr_status item = StOk) \<longrightarrow> j = i))"

lemma apply_batch_revision:
  "apply_batch now r ms w = Some (w', rs) \<Longrightarrow> bt_get w' k = Some e \<Longrightarrow> bt_get w k = Some e \<or> en_modification_revision e = r"
proof (induction ms arbitrary: w rs)
  case (Cons m ms)
  then show ?case
    by (cases m) (fastforce simp: Let_def split: if_splits option.splits)+
qed simp

lemma in_live_revisions: "r \<in> set (live_revisions es) \<longleftrightarrow> (\<exists>k e. bt_get es k = Some e \<and> en_modification_revision e = r)"
  by (auto simp: live_revisions_def bt_values_set ran_def)

lemma saturating_Suc: "unat (r :: u64) + 1 < 2 ^ 64 \<Longrightarrow> unat (saturating_add r 1) = unat r + 1"
  by (simp add: unat_saturating_add)

lemma settles_revision:
  assumes "settles deployment rq st se" "unat (st_revision st) + 1 < 2 ^ 64"
  obtains (conflict) "se_revision se = st_revision st" "se_entries se = st_entries st" "\<forall>item \<in> set (se_results se). mr_status item \<noteq> StOk"
  | (commit) "unat (se_revision se) = unat (st_revision st) + 1"
      "\<And>r. r \<in> set (live_revisions (se_entries se)) \<Longrightarrow> r \<noteq> se_revision se \<Longrightarrow> r \<in> set (live_revisions (st_entries st))"
proof (cases "conflicts rq st")
  case True
  then have "se = conflict_settlement rq st"
    using assms(1) by (auto simp: settles_def conflicts_def)
  then show thesis
    by (intro conflict) (auto simp: conflict_settlement_def result_for_def split: option.splits)
next
  case False
  then obtain es rs where batch: "apply_batch (rq_now_ns rq) (saturating_add (st_revision st) 1) (rq_mutations rq) (st_entries st) = Some (es, rs)"
    and "se = commit_settlement rq st es rs"
    using assms(1) by (auto simp: settles_def conflicts_def)
  then show thesis
    using apply_batch_revision[OF batch] saturating_Suc[OF assms(2)]
    by (intro commit) (auto simp: commit_settlement_def Let_def in_live_revisions)
qed

lemma find_only:
  assumes "i \<in> set xs" "Q i" "\<And>j. j \<in> set xs \<Longrightarrow> Q j \<Longrightarrow> j = i"
  shows "find Q xs = Some i"
proof -
  obtain j where j: "find Q xs = Some j"
    using find_None_iff[of Q xs] assms(1,2) by (cases "find Q xs") auto
  then have "j \<in> set xs" "Q j"
    using find_split by fastforce+
  then have "j = i"
    by (rule assms(3))
  with j show ?thesis
    by simp
qed

lemma settled_operation:
  assumes "bt_get (st_operations (settled rq se st)) j = Some e" "j \<noteq> rq_operation_id rq"
  shows "bt_get (st_operations st) j = Some e"
proof -
  have "bt_get (rp_values (plan_operation_replay (se_entries se) (st_operations st) (st_operation_order st) (rq_operation_id rq) (settled_dedup rq se st))) j = Some e"
    using assms(1) by (simp add: settled_def settled_plan_def)
  then show ?thesis
    by (rule plan_get(2)) (rule assms(2))
qed

lemma settled_new: "bt_get (st_operations (settled rq se st)) (rq_operation_id rq) = Some (settled_dedup rq se st)"
  using plan_get(1) by (simp add: settled_def settled_plan_def)

lemma pinning_settled:
  assumes pin: "pinning i d (Suc n) st" and fresh: "bt_get (st_operations st) (rq_operation_id rq) = None" and se: "settles deployment rq st se"
  shows "pinning i d n ((settled rq se st)\<lparr>st_writer := b\<rparr>)"
proof -
  let ?r = "dr_store_revision d" and ?new = "settled rq se st"
  let ?ops = "bt_insert (rq_operation_id rq) (settled_dedup rq se st) (st_operations st)" and ?order = "st_operation_order st @ [rq_operation_id rq]"
  have room: "unat (st_revision st) + 1 < 2 ^ 64" and old: "?r \<le> st_revision st" "\<exists>item \<in> set (dr_results d). mr_status item = StOk"
    using pin by (auto simp: pinning_def)
  have rev: "st_revision st \<le> se_revision se" "unat (se_revision se) \<le> unat (st_revision st) + 1"
    "?r \<in> set (live_revisions (se_entries se)) \<Longrightarrow> ?r \<in> set (live_revisions (st_entries st))"
    "se_revision se = ?r \<Longrightarrow> \<forall>item \<in> set (se_results se). mr_status item \<noteq> StOk"
    using old(1) by (cases rule: settles_revision[OF se room]; force simp: word_le_nat_alt)+
  have "bt_get (st_operations ?new) i = Some d \<and> i \<in> set (st_operation_order ?new)
      \<and> (\<forall>j e. bt_get (st_operations ?new) j = Some e \<longrightarrow> dr_store_revision e = ?r \<longrightarrow> (\<exists>item \<in> set (dr_results e). mr_status item = StOk) \<longrightarrow> j = i)"
    if live: "?r \<in> set (live_revisions (se_entries se))"
  proof -
    have i: "bt_get (st_operations st) i = Some d" "i \<in> set (st_operation_order st)" "i \<noteq> rq_operation_id rq"
      and only: "\<And>j e. bt_get (st_operations st) j = Some e \<Longrightarrow> dr_store_revision e = ?r \<Longrightarrow> \<exists>item \<in> set (dr_results e). mr_status item = StOk \<Longrightarrow> j = i"
      using pin rev(3)[OF live] fresh by (auto simp: pinning_def)
    have only': "j = i" if "bt_get ?ops j = Some e" "dr_store_revision e = ?r" "\<exists>item \<in> set (dr_results e). mr_status item = StOk" for j e
      using that only rev(4) by (auto simp: settled_dedup_def split: if_splits)
    have "find (pins_at (live_revisions (se_entries se)) ?ops ?r) (rev ?order) = Some i"
      using i old(2) live only' by (intro find_only) (auto simp: pins_at_def operation_pins_live_entry_def split: option.splits if_splits)
    then have "i \<in> kept_ids (live_revisions (se_entries se)) ?ops ?order"
      unfolding kept_ids_def pinned_ids_def by blast
    then have "bt_get (st_operations ?new) i = Some d" "i \<in> set (st_operation_order ?new)"
      using i by (simp_all add: settled_kept)
    moreover have "bt_get ?ops j = Some e" if "bt_get (st_operations ?new) j = Some e" for j e
      using that settled_operation[OF that] settled_new[of rq se st] by auto
    ultimately show ?thesis
      using only' by blast
  qed
  then show ?thesis
    using pin rev(1,2) old by (auto simp: pinning_def settled_def)
qed

interpretation live: kept deployment "\<lambda>_. True" "pinning i d" for deployment i d
proof
  show "pinning i d (Suc n) st \<Longrightarrow> pinning i d n st" for n st
    by (auto simp: pinning_def)
qed (rule pinning_settled)

text \<open>
  C24: what is still there can be retried.  When a request committed and an entry with the revision it committed at is in the store, its retry is answered from memory, however many
  requests came since.
\<close>

theorem kv_live_write_remembered:
  assumes "store_ok hash (kv_store (wo_kv W))" "answer_request deployment rq (wo_kv W) = (Inr c, K')"
    and "bt_get (st_operations (kv_store (wo_kv W))) (rq_operation_id rq) = None"
    and "\<exists>item \<in> set (cm_results c). mr_status item = StOk" "unat (st_revision (kv_store (wo_kv W))) + requests later + 1 < 2 ^ 64"
    and "W' = kv_run deployment R (Request rq # later) W" "cm_store_revision c \<in> set (live_revisions (st_entries (kv_store (wo_kv W'))))"
  shows "answer_request deployment (rq\<lparr>rq_now_ns := now, rq_fingerprint := f\<rparr>) (wo_kv W') =
    (if f = rq_fingerprint rq then Inr (c\<lparr>cm_durable := None, cm_persistence_failed := False\<rparr>) else Inl MutationOperationConflict, wo_kv W')"
proof -
  let ?st = "kv_store (wo_kv W)"
  obtain se b where se: "settles deployment rq ?st se" "kv_store K' = (settled rq se ?st)\<lparr>st_writer := b\<rparr>" "cm_store_revision c = se_revision se" "cm_results c = se_results se"
    using answer_settled[OF assms(2,3)] by metis
  let ?d = "settled_dedup rq se ?st"
  have commit: "unat (se_revision se) = unat (st_revision ?st) + 1"
    using assms(4,5) se(4) by (cases rule: settles_revision[OF se(1)]) auto
  have only: "j = rq_operation_id rq" if "bt_get (st_operations (settled rq se ?st)) j = Some e" "dr_store_revision e = se_revision se" for j e
    using that settled_operation[OF that(1)] store_okD(4)[OF assms(1), of j e] commit by (auto simp: word_le_nat_alt)
  have order: "rq_operation_id rq \<in> set (st_operation_order (settled rq se ?st))"
    using last_kept by (simp add: settled_kept)
  have fields: "dr_store_revision ?d = se_revision se" "dr_results ?d = se_results se" "st_revision (settled rq se ?st) = se_revision se"
    "kv_store (wo_kv (kv_apply deployment R (Request rq) W)) = (settled rq se ?st)\<lparr>st_writer := b\<rparr>"
    using assms(2) se(2) by (simp_all add: settled_dedup_def settled_def Let_def)
  have "pinning (rq_operation_id rq) ?d (requests later + 0) (kv_store (wo_kv (kv_apply deployment R (Request rq) W)))"
    using assms(4,5) se(4) order unfolding fields(4) by (simp add: pinning_def fields(1-3) settled_new commit) (use only in blast)
  from live.after_run[OF this] have "bt_get (st_operations (kv_store (wo_kv W'))) (rq_operation_id rq) = Some ?d"
    using assms(7) se(3) by (auto simp: assms(6) pinning_def settled_dedup_def)
  from replayed_answer[OF _ this, of deployment "wo_kv W"] show ?thesis
    using assms(2) se(3,4) by (auto simp: replay_commit_def settled_dedup_def)
qed

theorem kv_live_write_remembered_witness:
  "answer_request (\<lambda>_. None) (sample_put\<lparr>rq_fingerprint := []\<rparr>) (wo_kv (kv_run (\<lambda>_. None) reliable sample_run sample_world)) =
    (Inl MutationOperationConflict, wo_kv (kv_run (\<lambda>_. None) reliable sample_run sample_world))"
proof -
  let ?W = "kv_run (\<lambda>_. None) reliable sample_run sample_world"
  obtain w where answer: "answer_request (\<lambda>_. None) sample_put (wo_kv sample_world) = (Inr sample_commit, \<lparr>kv_store = sample_store, kv_writer = w\<rparr>)"
    using sample_answer by blast
  have start: "store_ok sample_hash (kv_store (wo_kv sample_world))" "bt_get (st_operations (kv_store (wo_kv sample_world))) (rq_operation_id sample_put) = None"
    "st_revision (kv_store (wo_kv sample_world)) = 1"
    using restarted_ok[of sample_hash empty_store] empty_store_ok by (simp_all add: sample_world_def) (simp_all add: restarted_def empty_store_def)
  have run: "?W = kv_run (\<lambda>_. None) reliable (Request sample_put # replicate 4 WriterStep) sample_world"
    by (simp add: sample_run_def numeral_eq_Suc)
  have ok: "\<exists>item \<in> set (cm_results sample_commit). mr_status item = StOk" "unat (st_revision (kv_store (wo_kv sample_world))) + requests (replicate 4 WriterStep) + 1 < 2 ^ 64"
    unfolding start(3) by (simp_all add: sample_commit_def sample_results_def)
  have "kv_store (wo_kv ?W) = sample_store"
    using answer by (simp add: sample_run_def Let_def split: prod.split)
  then have live: "cm_store_revision sample_commit \<in> set (live_revisions (st_entries (kv_store (wo_kv ?W))))"
    by (simp add: sample_store_def sample_commit_def live_revisions_def bt_values_def)
  from kv_live_write_remembered[OF start(1) answer start(2) ok run live, where now = 5 and f = "[]"] show ?thesis
    by (simp add: sample_put_def)
qed

end
