(* ===== verification/Kv_Contract.thy ===== *)
theory Kv_Contract
  imports Kv_Properties
begin

text \<open>
  The rest of the contract of the key-value store: what a batch does, what a watch sees, the limits, the budget and the progress of the writer thread, and that a
  start ends.
\<close>

section \<open>Batches\<close>

definition mutation_precondition :: "NativeMutation \<Rightarrow> Precondition" where
  "mutation_precondition m = (case m of Put _ p _ _ \<Rightarrow> p | Delete _ p \<Rightarrow> p)"

text \<open>What a key holds after the mutations \<open>ms\<close>: what the last of them on this key left there.\<close>

definition left_at :: "u64 \<Rightarrow> u64 \<Rightarrow> NativeMutation list \<Rightarrow> (bytes, Entry) BTreeMap \<Rightarrow> bytes \<Rightarrow> Entry option" where
  "left_at now revision ms es key =
     (case find (\<lambda>m. mutation_key m = key) (rev ms) of
        None \<Rightarrow> bt_get es key
      | Some (Put _ _ v content_hash) \<Rightarrow>
          Some \<lparr>en_value = v, en_hash = content_hash, en_mtime_ns = now, en_modification_revision = revision\<rparr>
      | Some (Delete _ _) \<Rightarrow> None)"

definition preconditions_hold :: "u64 \<Rightarrow> u64 \<Rightarrow> NativeMutation list \<Rightarrow> (bytes, Entry) BTreeMap \<Rightarrow> bool" where
  "preconditions_hold now revision ms es \<longleftrightarrow>
     (\<forall>j < length ms. precondition_matches (mutation_precondition (ms ! j)) (left_at now revision (take j ms) es (mutation_key (ms ! j))))"

definition batch_result :: "u64 \<Rightarrow> u64 \<Rightarrow> NativeMutation \<Rightarrow> NativeMutationResult" where
  "batch_result now revision m =
     (case m of
        Put _ _ v content_hash \<Rightarrow> \<lparr>mr_status = StOk, mr_modification_revision = revision, mr_mtime_ns = now, mr_content_hash = content_hash,
                                   mr_byte_len = of_nat (length v)\<rparr>
      | Delete _ _ \<Rightarrow> \<lparr>mr_status = StOk, mr_modification_revision = revision, mr_mtime_ns = now, mr_content_hash = replicate 32 0, mr_byte_len = 0\<rparr>)"

fun assign :: "u64 \<Rightarrow> u64 \<Rightarrow> NativeMutation \<Rightarrow> (bytes, Entry) BTreeMap \<Rightarrow> (bytes, Entry) BTreeMap" where
  "assign now revision (Put key _ v content_hash) es =
     bt_insert key \<lparr>en_value = v, en_hash = content_hash, en_mtime_ns = now, en_modification_revision = revision\<rparr> es"
| "assign now revision (Delete key _) es = bt_remove key es"

lemma find_append: "find Q (xs @ ys) = (case find Q xs of None \<Rightarrow> find Q ys | Some x \<Rightarrow> Some x)"
  by (induction xs) auto

lemma left_at_Cons: "left_at now r (m # ms) es key = left_at now r ms (assign now r m es) key"
  by (cases m) (auto simp: left_at_def find_append split: option.split)

lemma all_less_Suc: "(\<forall>j < Suc n. Q j) \<longleftrightarrow> Q 0 \<and> (\<forall>j < n. Q (Suc j))"
  by (auto simp: less_Suc_eq_0_disj)

lemma preconditions_Cons:
  "preconditions_hold now r (m # ms) es \<longleftrightarrow>
    precondition_matches (mutation_precondition m) (bt_get es (mutation_key m)) \<and> preconditions_hold now r ms (assign now r m es)"
  by (simp add: preconditions_hold_def all_less_Suc left_at_Cons) (simp add: left_at_def)

lemma apply_batch_eq:
  "apply_batch now r ms es = (if preconditions_hold now r ms es then Some (fold (assign now r) ms es, map (batch_result now r) ms) else None)"
proof (induction ms arbitrary: es)
  case (Cons m ms)
  then show ?case
    by (cases m) (simp_all add: preconditions_Cons Let_def mutation_precondition_def batch_result_def result_for_def)
qed (simp add: preconditions_hold_def)

lemma left_at_fold: "bt_get (fold (assign now r) ms es) key = left_at now r ms es key"
proof (induction ms arbitrary: es)
  case (Cons m ms)
  then show ?case
    by (simp add: left_at_Cons)
qed (simp add: left_at_def)

lemma settles_eq:
  assumes "settles deployment rq st se"
  defines "revision \<equiv> saturating_add (st_revision st) 1"
  shows "if preconditions_hold (rq_now_ns rq) revision (rq_mutations rq) (st_entries st)
    then se_revision se = revision \<and> se_results se = map (batch_result (rq_now_ns rq) revision) (rq_mutations rq)
      \<and> (\<forall>key. bt_get (se_entries se) key = left_at (rq_now_ns rq) revision (rq_mutations rq) (st_entries st) key)
    else se = conflict_settlement rq st"
  using assms by (auto simp: settles_def conflicts_def apply_batch_eq commit_settlement_def Let_def left_at_fold split: if_splits)

text \<open>
  C12: a batch is applied whole or not at all.  A request with a new operation id that is answered, commits exactly when the precondition of each of its mutations holds of what the
  mutations before it have left: then each key holds what the last mutation on it wrote, every mutation reports success, and the revision goes up by one.
  Otherwise entries, revision and broadcast stay, and every mutation reports a conflict with the entry that is there.
\<close>

theorem kv_batch_atomic:
  assumes "answer_request deployment rq K = (Inr c, K')" "bt_get (st_operations (kv_store K)) (rq_operation_id rq) = None"
    and "revision = saturating_add (st_revision (kv_store K)) 1" "ms = rq_mutations rq" "es = st_entries (kv_store K)"
  shows "if preconditions_hold (rq_now_ns rq) revision ms es
    then (\<forall>key. bt_get (st_entries (kv_store K')) key = left_at (rq_now_ns rq) revision ms es key)
      \<and> st_revision (kv_store K') = revision \<and> cm_store_revision c = revision \<and> cm_results c = map (batch_result (rq_now_ns rq) revision) ms
    else st_entries (kv_store K') = es \<and> st_revision (kv_store K') = st_revision (kv_store K)
      \<and> st_native_changes (kv_store K') = st_native_changes (kv_store K) \<and> cm_store_revision c = st_revision (kv_store K)
      \<and> cm_results c = map (\<lambda>m. result_for StConflict (bt_get es (mutation_key m))) ms"
proof -
  obtain se b where se: "settles deployment rq (kv_store K) se" "kv_store K' = (settled rq se (kv_store K))\<lparr>st_writer := b\<rparr>"
    "cm_store_revision c = se_revision se" "cm_results c = se_results se"
    using answer_settled[OF assms(1,2)] by metis
  then show ?thesis
    using settles_eq[OF se(1)] by (auto simp: assms(3-5) settled_def conflict_settlement_def split: if_splits)
qed

theorem kv_batch_atomic_witness:
  "bt_get (st_entries (kv_store (snd (answer_request (\<lambda>_. None) sample_put (wo_kv sample_world))))) [97] =
    left_at 5 2 (rq_mutations sample_put) bt_empty [97]"
proof -
  obtain w where answer: "answer_request (\<lambda>_. None) sample_put (wo_kv sample_world) = (Inr sample_commit, \<lparr>kv_store = sample_store, kv_writer = w\<rparr>)"
    using sample_answer by blast
  have start: "bt_get (st_operations (kv_store (wo_kv sample_world))) (rq_operation_id sample_put) = None"
    "2 = saturating_add (st_revision (kv_store (wo_kv sample_world))) 1" "bt_empty = st_entries (kv_store (wo_kv sample_world))"
    by (simp_all add: sample_world_def restarted_def empty_store_def saturating_add_def checked_add_def)
  have "preconditions_hold (rq_now_ns sample_put) 2 (rq_mutations sample_put) bt_empty"
    by (simp add: preconditions_hold_def sample_put_def mutation_precondition_def left_at_def)
  with kv_batch_atomic[OF answer start(1,2) refl start(3)] show ?thesis
    by (simp add: answer) (simp add: sample_put_def)
qed

section \<open>Watches\<close>

text \<open>A watcher of a prefix holds the entries it was given and applies to them the changes under its prefix.\<close>

definition view_of :: "NativeWatch \<Rightarrow> (bytes, NativeEntry) BTreeMap" where
  "view_of w = bt_collect (map (\<lambda>e. (ne_key e, e)) (nw_entries w))"

fun follow_record :: "bytes \<Rightarrow> NativeChangeRecord \<Rightarrow> (bytes, NativeEntry) BTreeMap \<Rightarrow> (bytes, NativeEntry) BTreeMap" where
  "follow_record p (Upsert e _) m = (if prefix p (ne_key e) then bt_insert (ne_key e) e m else m)"
| "follow_record p (Remove key _) m = (if prefix p key then bt_remove key m else m)"

definition follow :: "bytes \<Rightarrow> NativeChange \<Rightarrow> (bytes, NativeEntry) BTreeMap \<Rightarrow> (bytes, NativeEntry) BTreeMap" where
  "follow p c m = fold (follow_record p) (nc_records c) m"

definition seen :: "bytes \<Rightarrow> (bytes, Entry) BTreeMap \<Rightarrow> (bytes, NativeEntry) BTreeMap" where
  "seen p es = bt_collect (map (\<lambda>(key, e). (key, native_entry key e)) (filter (\<lambda>e. prefix p (fst e)) (entries es)))"

lemma entries_collect: "ordered xs \<Longrightarrow> entries (bt_collect xs) = xs"
  by (rule ordered_unique) (simp_all add: bt_get_collect ordered_distinct flip: bt_get_entries)

lemma ordered_seen: "ordered (map (\<lambda>(key, e). (key, native_entry key e)) (filter (\<lambda>e. prefix p (fst e)) (entries es)))"
  using ordered_filter[OF ordered_entries, of "\<lambda>e. prefix p (fst e)" es] by (simp add: ordered_def comp_def case_prod_beta)

lemma watch_fields: "nw_revision (native_watch p st) = st_revision st" "nw_changes (native_watch p st) = length (st_native_changes st)"
  by (simp_all add: native_watch_def)

lemma view_seen: "view_of (native_watch p st) = seen p (st_entries st)"
  by (auto simp: view_of_def native_watch_def seen_def range_prefix native_entry_def intro!: arg_cong[where f = bt_collect])

lemma entries_seen: "bt_values (seen p (st_entries st)) = nw_entries (native_watch p st)"
  by (simp add: bt_values_def seen_def entries_collect[OF ordered_seen] native_watch_def range_prefix case_prod_beta comp_def)

lemma map_of_restricted:
  "map_of (map (\<lambda>(k, v). (k, f k v)) (filter (\<lambda>e. Q (fst e)) xs)) key = (if Q key then map_option (f key) (map_of xs key) else None)"
  by (induction xs) auto

lemma seen_get: "bt_get (seen p es) key = (if prefix p key then map_option (native_entry key) (bt_get es key) else None)"
proof -
  have "bt_get (seen p es) key = map_of (map (\<lambda>(key, e). (key, native_entry key e)) (filter (\<lambda>e. prefix p (fst e)) (entries es))) key"
    unfolding seen_def by (subst bt_get_collect) (rule ordered_distinct[OF ordered_seen], rule refl)
  also have "\<dots> = (if prefix p key then map_option (native_entry key) (map_of (entries es) key) else None)"
    by (rule map_of_restricted)
  finally show ?thesis
    by (simp add: bt_get_entries)
qed

lemma follow_apply_record: "follow_record p c (seen p es) = seen p (apply_record c es)"
  by (cases c) (auto intro!: bt_eqI simp: fun_eq_iff seen_get apply_record_def native_entry_def)

lemma follow_apply: "follow p c (seen p es) = seen p (apply_change c es)"
proof -
  have "fold (follow_record p) rs (seen p es) = seen p (fold apply_record rs es)" for rs
    by (induction rs arbitrary: es) (simp_all add: follow_apply_record)
  then show ?thesis
    by (simp add: follow_def apply_change_def)
qed

text \<open>The changes that were broadcast since \<open>st\<close> lead from its entries to those of now, and from its revision to that of now without a gap.\<close>

definition broadcast_since :: "Store \<Rightarrow> nat \<Rightarrow> Store \<Rightarrow> bool" where
  "broadcast_since st n now \<longleftrightarrow>
     (\<exists>cs. st_native_changes now = st_native_changes st @ cs \<and> fold apply_change cs (st_entries st) = st_entries now
        \<and> map nc_from_revision cs @ [st_revision now] = st_revision st # map nc_to_revision cs)"

lemma settled_changes:
  assumes "settles deployment rq st se"
  shows "map nc_from_revision (se_changes se) @ [se_revision se] = st_revision st # map nc_to_revision (se_changes se)"
  using assms by (auto simp: settles_def conflict_settlement_def commit_settlement_def Let_def)

lemma broadcast_settled:
  assumes "broadcast_since st0 (Suc n) st" "settles deployment rq st se"
  shows "broadcast_since st0 n ((settled rq se st)\<lparr>st_writer := b\<rparr>)"
proof -
  obtain cs where cs: "st_native_changes st = st_native_changes st0 @ cs" "fold apply_change cs (st_entries st0) = st_entries st"
    "map nc_from_revision cs @ [st_revision st] = st_revision st0 # map nc_to_revision cs"
    using assms(1) by (auto simp: broadcast_since_def)
  have "map nc_from_revision (cs @ se_changes se) @ [se_revision se] = (map nc_from_revision cs @ [st_revision st]) @ map nc_to_revision (se_changes se)"
    using settled_changes[OF assms(2)] by simp
  then show ?thesis
    using settles_changes[OF assms(2)] cs unfolding broadcast_since_def by (intro exI[of _ "cs @ se_changes se"]) (simp add: settled_def)
qed

interpretation broadcast: kept deployment "\<lambda>_. True" "broadcast_since st" for deployment st
proof
  show "broadcast_since st (Suc n) now \<Longrightarrow> broadcast_since st n now" for n now
    by (simp add: broadcast_since_def)
qed (rule broadcast_settled)

text \<open>
  C13: a watch misses nothing.  Whoever takes a snapshot under a prefix and then applies, in order, the changes that are broadcast after it, keeping those under the prefix, holds at any later moment
  what a new snapshot would give; the revisions of these changes follow each other without a gap from the revision of the first snapshot to that of the second.
\<close>

theorem kv_watch_coherent:
  fixes deployment R events W p
  defines "w \<equiv> native_watch p (kv_store (wo_kv W))" and "st' \<equiv> kv_store (wo_kv (kv_run deployment R events W))"
  defines "w' \<equiv> native_watch p st'" and "changes \<equiv> drop (nw_changes w) (st_native_changes st')"
  shows "bt_values (fold (follow p) changes (view_of w)) = nw_entries w'
    \<and> map nc_from_revision changes @ [nw_revision w'] = nw_revision w # map nc_to_revision changes"
proof -
  let ?st = "kv_store (wo_kv W)"
  have "broadcast_since ?st (requests events + 0) ?st"
    by (simp add: broadcast_since_def)
  from broadcast.after_run[OF this, where R = R and deployment = deployment] obtain cs where cs: "st_native_changes st' = st_native_changes ?st @ cs"
    "fold apply_change cs (st_entries ?st) = st_entries st'" "map nc_from_revision cs @ [st_revision st'] = st_revision ?st # map nc_to_revision cs"
    by (auto simp: broadcast_since_def st'_def)
  have "fold (follow p) cs (seen p es) = seen p (fold apply_change cs es)" for es
    by (induction cs arbitrary: es) (simp_all add: follow_apply)
  then show ?thesis
    using cs by (simp add: changes_def w_def w'_def watch_fields view_seen entries_seen)
qed

section \<open>Limits\<close>

definition kv_within_limits :: "(string \<Rightarrow> u64 option) \<Rightarrow> nat \<Rightarrow> Store \<Rightarrow> bool" where
  "kv_within_limits deployment n st \<longleftrightarrow>
     (let lim = native_limits deployment in
      bt_len (st_entries st) \<le> unat (kv_max_entries lim) \<and> store_size (st_entries st) \<le> unat (kv_max_store_bytes lim)
      \<and> st_total_bytes st = of_nat (store_size (st_entries st))
      \<and> (\<forall>key e. bt_get (st_entries st) key = Some e \<longrightarrow>
           key \<noteq> [] \<and> length key \<le> unat (kv_max_key_bytes lim) \<and> 0 \<notin> set key \<and> length (en_value e) \<le> unat (kv_max_value_bytes lim)))"

lemma left_at_cases:
  "left_at now r ms es key = Some e \<Longrightarrow> bt_get es key = Some e \<or> (\<exists>p v h. Put key p v h \<in> set ms \<and> en_value e = v)"
  by (auto simp: left_at_def split: option.splits NativeMutation.splits dest!: find_split) (metis in_set_conv_decomp set_rev)

lemma limits_settled:
  assumes old: "kv_within_limits deployment (Suc n) st" and se: "settles deployment rq st se"
    and valid: "\<forall>m \<in> set (rq_mutations rq). \<not> mutation_refused (native_limits deployment) m"
  shows "kv_within_limits deployment n ((settled rq se st)\<lparr>st_writer := b\<rparr>)"
proof (cases "conflicts rq st")
  case True
  then have "se = conflict_settlement rq st"
    using se by (auto simp: settles_def conflicts_def)
  then show ?thesis
    using old by (simp add: kv_within_limits_def settled_def conflict_settlement_def)
next
  case False
  then obtain es rs where batch: "apply_batch (rq_now_ns rq) (saturating_add (st_revision st) 1) (rq_mutations rq) (st_entries st) = Some (es, rs)"
    and eq: "se = commit_settlement rq st es rs" and size: "bt_len es \<le> unat (kv_max_entries (native_limits deployment))" "store_size es \<le> unat (kv_max_store_bytes (native_limits deployment))"
    using se by (auto simp: settles_def conflicts_def)
  have left: "bt_get es key = left_at (rq_now_ns rq) (saturating_add (st_revision st) 1) (rq_mutations rq) (st_entries st) key" for key
    using batch by (auto simp: apply_batch_eq left_at_fold split: if_splits)
  have "key \<noteq> [] \<and> length key \<le> unat (kv_max_key_bytes (native_limits deployment)) \<and> 0 \<notin> set key
      \<and> length (en_value e) \<le> unat (kv_max_value_bytes (native_limits deployment))" if "bt_get es key = Some e" for key e
    using left_at_cases[OF that[unfolded left]] old valid by (fastforce simp: kv_within_limits_def mutation_refused_def Let_def)
  then show ?thesis
    using size by (simp add: kv_within_limits_def settled_def eq commit_settlement_def Let_def)
qed

interpretation limits: kept deployment "\<lambda>_. True" "kv_within_limits deployment" for deployment
proof
  show "kv_within_limits deployment (Suc n) st \<Longrightarrow> kv_within_limits deployment n st" for n st
    by (simp add: kv_within_limits_def)
qed (rule limits_settled)

text \<open>
  C33: the store stays within its limits.  From a store within the limits of the deployment, no sequence of requests leads out of them: the number of entries, the bytes of keys and values
  together, the length of each key and of each value; keys are not empty and hold no zero byte; and the running total is the bytes that are there.
\<close>

theorem kv_stays_within_limits:
  assumes "kv_within_limits deployment 0 (kv_store (wo_kv W))"
  shows "kv_within_limits deployment 0 (kv_store (wo_kv (kv_run deployment R events W)))"
  using limits.after_run[where n = 0] assms by (simp add: kv_within_limits_def)

theorem kv_stays_within_limits_witness:
  "kv_within_limits (\<lambda>_. None) 0 (kv_store (wo_kv (kv_run (\<lambda>_. None) reliable sample_run sample_world)))"
proof -
  have "kv_within_limits (\<lambda>_. None) 0 (kv_store (wo_kv sample_world))"
    by (simp add: kv_within_limits_def sample_world_def restarted_def empty_store_def bt_len_def store_size_def)
  then show ?thesis
    by (rule kv_stays_within_limits)
qed

section \<open>The writer\<close>

lemma writer_step_max: "wb_max_bytes (wr_budget (fst (writer_step R (w, D)))) = wb_max_bytes (wr_budget w)"
  by (auto simp: writer_step_def answer_budget drop_jobs permit_drops WriterPermit_drop_def split: writer_thread.split list.split prod.split)

lemma submit_max:
  assumes "st_writer st' = st_writer (kv_store K)" "submit durable rows i dedup evicted st' K = (Inr r, K')"
  shows "wb_max_bytes (wr_budget (kv_writer K')) = wb_max_bytes (wr_budget (kv_writer K))"
  by (rule submit_cases[OF assms(1), of durable rows i dedup evicted])
    (use assms(2) in \<open>auto simp: WriterBudget_try_reserve_def split: option.splits if_splits\<close>)

lemma answer_max: "wb_max_bytes (wr_budget (kv_writer (snd (answer_request deployment rq K)))) = wb_max_bytes (wr_budget (kv_writer K))"
  by (cases rule: answer_cases[of deployment rq K]) (auto dest: submit_max[OF settled_writer])

lemma run_max: "wb_max_bytes (wr_budget (kv_writer (wo_kv (kv_run deployment R events W)))) = wb_max_bytes (wr_budget (kv_writer (wo_kv W)))"
proof (induction events arbitrary: W)
  case (Cons e events)
  have "wb_max_bytes (wr_budget (kv_writer (wo_kv (kv_apply deployment R e W)))) = wb_max_bytes (wr_budget (kv_writer (wo_kv W)))"
  proof (cases e)
    case WriterStep
    then show ?thesis
      using writer_step_max[of R "kv_writer (wo_kv W)" "wo_disk W"] by (auto split: prod.split)
  qed (simp add: Let_def answer_max)
  with Cons show ?case
    by simp
qed simp

text \<open>A run of a store that was started on the tables of a store \<open>S\<close>.\<close>

definition started_run :: "(bytes \<Rightarrow> bytes) \<Rightarrow> (string \<Rightarrow> u64 option) \<Rightarrow> 'd Redb \<Rightarrow> Store \<Rightarrow> kv_event list \<Rightarrow> 'd world \<Rightarrow> bool" where
  "started_run hash deployment R S events W \<longleftrightarrow>
     store_ok hash S \<and> list_all (event_typed hash) events \<and> unat (st_next_operation_sequence S) + length events < 2 ^ 64 - 1
     \<and> (\<exists>su d K D. su_path su \<and> su_create su \<and> su_spawn su \<and> Store_open hash deployment su R (persist S) d = Some (K, D)
          \<and> W = kv_run deployment R events \<lparr>wo_kv = K, wo_disk = D, wo_history = []\<rparr>)"

lemma started_run_ok:
  assumes "started_run hash deployment R S events W" "atomic_commits R" "reads_succeed R"
  obtains n d where "world_ok hash (restarted S) W n"
    "W = kv_run deployment R events \<lparr>wo_kv = \<lparr>kv_store = restarted S, kv_writer = new_writer deployment\<rparr>,
       wo_disk = \<lparr>dk_thread = Gathering [], dk_tables = persist S, dk_db = d\<rparr>, wo_history = []\<rparr>"
proof -
  have S: "store_ok hash S" "list_all (event_typed hash) events" "unat (st_next_operation_sequence S) + length events < 2 ^ 64 - 1"
    using assms(1) by (auto simp: started_run_def)
  obtain su d K D where su: "su_path su" "su_create su" "su_spawn su" "Store_open hash deployment su R (persist S) d = Some (K, D)"
    and W: "W = kv_run deployment R events \<lparr>wo_kv = K, wo_disk = D, wo_history = []\<rparr>"
    using assms(1) by (auto simp: started_run_def)
  obtain d' where K: "K = \<lparr>kv_store = restarted S, kv_writer = new_writer deployment\<rparr>" "D = \<lparr>dk_thread = Gathering [], dk_tables = persist S, dk_db = d'\<rparr>"
    using open_persisted[OF S(1) assms(3) su(1-3), of deployment d] su(4) by auto
  have "\<exists>n \<ge> 0. world_ok hash (restarted S) W n"
    unfolding W K using S(2,3) by (intro kv_run_ok[OF started_ok[OF S(1)] assms(2)]) (simp_all add: restarted_sequence)
  then show thesis
    using that W unfolding K by blast
qed

text \<open>
  C30: the writer is never overrun.  Whatever is asked of a running store, at most 64 jobs are queued or in the hands of the writer thread, together they are no larger than the budget of the
  deployment, the budget counts exactly these, and the store gives up its writer only when the thread is gone.
\<close>

theorem kv_writer_bounded:
  assumes "started_run hash deployment R S events W" "atomic_commits R" "reads_succeed R"
  shows "length (held_jobs (kv_writer (wo_kv W)) (wo_disk W)) \<le> 64
    \<and> sum_list (map wj_permit (held_jobs (kv_writer (wo_kv W)) (wo_disk W))) \<le> writer_queue_max_bytes deployment
    \<and> wb_jobs (wr_budget (kv_writer (wo_kv W))) = length (held_jobs (kv_writer (wo_kv W)) (wo_disk W))
    \<and> wb_bytes (wr_budget (kv_writer (wo_kv W))) = sum_list (map wj_permit (held_jobs (kv_writer (wo_kv W)) (wo_disk W)))
    \<and> (st_writer (kv_store (wo_kv W)) \<or> dk_thread (wo_disk W) = Gone)"
proof -
  obtain n d where ok: "world_ok hash (restarted S) W n"
    and W: "W = kv_run deployment R events \<lparr>wo_kv = \<lparr>kv_store = restarted S, kv_writer = new_writer deployment\<rparr>,
       wo_disk = \<lparr>dk_thread = Gathering [], dk_tables = persist S, dk_db = d\<rparr>, wo_history = []\<rparr>"
    using started_run_ok[OF assms] by metis
  have "wb_max_bytes (wr_budget (kv_writer (wo_kv W))) = writer_queue_max_bytes deployment"
    by (simp add: W run_max new_writer_def WriterBudget_new_def)
  then show ?thesis
    using world_okD(1,7)[OF ok] by (auto simp: budget_ok_def MAX_PENDING_WRITES_def)
qed

lemma sample_started: "started_run sample_hash (\<lambda>_. None) reliable empty_store sample_run (kv_run (\<lambda>_. None) reliable sample_run sample_world)"
  unfolding started_run_def using empty_store_ok sample_run_events sample_open sample_start
  by (auto simp: ready_def intro!: exI[of _ ready] exI[of _ "wo_kv sample_world"] exI[of _ "wo_disk sample_world"])

theorem kv_writer_bounded_witness:
  "length (held_jobs (kv_writer (wo_kv (kv_run (\<lambda>_. None) reliable sample_run sample_world))) (wo_disk (kv_run (\<lambda>_. None) reliable sample_run sample_world))) \<le> 64"
  using kv_writer_bounded[OF sample_started reliable_ok] by blast

section \<open>Progress of the writer\<close>

definition commits_succeed :: "'d Redb \<Rightarrow> bool" where
  "commits_succeed R \<longleftrightarrow> (\<forall>d old new. fst (rd_commit R d old new))"

lemma commit_new:
  assumes "atomic_commits R" "commits_succeed R"
  shows "\<exists>d'. rd_commit R d old new = (True, new, d')"
proof -
  obtain ok t d' where commit: "rd_commit R d old new = (ok, t, d')"
    by (metis prod_cases3)
  moreover have "ok"
    using assms(2) commit unfolding commits_succeed_def by (metis fst_conv)
  moreover have "ok \<longrightarrow> t = new"
    using assms(1) commit unfolding atomic_commits_def by (metis (mono_tags, lifting) case_prodD)
  ultimately show ?thesis
    by simp
qed

definition backlog :: "Writer \<Rightarrow> 'd Disk \<Rightarrow> nat" where
  "backlog w D = 5 * length (wr_queue w) +
     (case dk_thread D of Gathering b \<Rightarrow> if b = [] then 0 else length b + 3 | Committing b \<Rightarrow> length b + 2 | Answering _ b \<Rightarrow> length b + 1 | _ \<Rightarrow> 0)"

definition acknowledged :: "WriteJob list \<Rightarrow> (nat \<times> bool) list" where
  "acknowledged jobs = map (\<lambda>i. (i, True)) (List.map_filter wj_native_reply jobs)"

lemma acknowledged_simps [simp]:
  "acknowledged [] = []" "acknowledged (job # jobs) = (case wj_native_reply job of None \<Rightarrow> [] | Some i \<Rightarrow> [(i, True)]) @ acknowledged jobs"
  "acknowledged (a @ b) = acknowledged a @ acknowledged b"
  by (simp_all add: acknowledged_def List.map_filter_def split: option.split)

text \<open>What the thread will have done when it waits for a job again.\<close>

definition disk_drained :: "Writer \<Rightarrow> 'd Disk \<Rightarrow> Tables \<times> (nat \<times> bool) list" where
  "disk_drained w D = (write_batch (awaiting (dk_thread D) @ wr_queue w) (dk_tables D), wr_replies w @ acknowledged (thread_jobs (dk_thread D) @ wr_queue w))"

lemma writer_progress:
  assumes R: "atomic_commits R" "commits_succeed R" and healthy: "healthy (dk_thread D)" and busy: "\<not> (dk_thread D = Gathering [] \<and> wr_queue w = [])"
  shows "case writer_step R (w, D) of (w', D') \<Rightarrow> healthy (dk_thread D') \<and> backlog w' D' < backlog w D \<and> disk_drained w' D' = disk_drained w D"
proof (cases "dk_thread D")
  case (Gathering b)
  then show ?thesis
    using busy by (cases "wr_queue w") (auto simp: writer_step_def healthy_def backlog_def disk_drained_def awaiting_def thread_jobs_def)
next
  case (Committing b)
  obtain d' where "rd_commit R (dk_db D) (dk_tables D) (write_batch b (dk_tables D)) = (True, write_batch b (dk_tables D), d')"
    using commit_new[OF R] by blast
  then show ?thesis
    using Committing by (simp add: writer_step_def healthy_def backlog_def disk_drained_def awaiting_def thread_jobs_def write_batch_append)
next
  case (Answering ok b)
  then show ?thesis
    using healthy by (cases b) (auto simp: writer_step_def healthy_def backlog_def disk_drained_def awaiting_def thread_jobs_def answer_budget split: option.split)
qed (use healthy in \<open>simp_all add: healthy_def\<close>)

lemma writer_drains:
  assumes "atomic_commits R" "commits_succeed R" "healthy (dk_thread (wo_disk W))"
  shows "\<exists>k. let W' = kv_run deployment R (replicate k WriterStep) W in
    kv_store (wo_kv W') = kv_store (wo_kv W) \<and> wr_queue (kv_writer (wo_kv W')) = [] \<and> dk_thread (wo_disk W') = Gathering []
    \<and> (dk_tables (wo_disk W'), wr_replies (kv_writer (wo_kv W'))) = disk_drained (kv_writer (wo_kv W)) (wo_disk W)"
  using assms(3)
proof (induction "backlog (kv_writer (wo_kv W)) (wo_disk W)" arbitrary: W rule: less_induct)
  case less
  let ?w = "kv_writer (wo_kv W)" and ?D = "wo_disk W"
  show ?case
  proof (cases "dk_thread ?D = Gathering [] \<and> wr_queue ?w = []")
    case True
    then show ?thesis
      by (intro exI[of _ 0]) (simp add: disk_drained_def awaiting_def thread_jobs_def)
  next
    case False
    obtain w' D' where step: "writer_step R (?w, ?D) = (w', D')"
      by fastforce
    let ?W = "kv_apply deployment R WriterStep W"
    have W: "wo_disk ?W = D'" "kv_writer (wo_kv ?W) = w'" "kv_store (wo_kv ?W) = kv_store (wo_kv W)"
      by (simp_all add: step)
    have "healthy (dk_thread D')" "backlog w' D' < backlog ?w ?D" "disk_drained w' D' = disk_drained ?w ?D"
      using writer_progress[OF assms(1,2) less.prems False] step by auto
    with less.hyps[of ?W] obtain k where "let W' = kv_run deployment R (replicate k WriterStep) ?W in
        kv_store (wo_kv W') = kv_store (wo_kv W) \<and> wr_queue (kv_writer (wo_kv W')) = [] \<and> dk_thread (wo_disk W') = Gathering []
        \<and> (dk_tables (wo_disk W'), wr_replies (kv_writer (wo_kv W'))) = disk_drained ?w ?D"
      unfolding W by metis
    then show ?thesis
      by (intro exI[of _ "Suc k"]) (simp del: kv_apply.simps)
  qed
qed

text \<open>A thread whose transactions succeed stays healthy, and whoever waits for an answer has a job with it.\<close>

definition kv_served :: "'d world \<Rightarrow> bool" where
  "kv_served W \<longleftrightarrow> healthy (dk_thread (wo_disk W))
     \<and> (\<forall>i \<in> set (List.map_filter fst (wo_history W)). (i, True) \<in> set (snd (disk_drained (kv_writer (wo_kv W)) (wo_disk W))))"

lemma served_step:
  assumes "atomic_commits R" "commits_succeed R" "kv_served W"
  shows "kv_served (kv_apply deployment R WriterStep W)"
proof (cases "dk_thread (wo_disk W) = Gathering [] \<and> wr_queue (kv_writer (wo_kv W)) = []")
  case True
  then have "kv_apply deployment R WriterStep W = W"
    by (simp add: writer_step_def)
  with assms(3) show ?thesis
    by simp
next
  case False
  then show ?thesis
    using writer_progress[OF assms(1,2) _ False] assms(3) by (auto simp: kv_served_def)
qed

lemma submit_drained:
  assumes "st_writer st' = st_writer (kv_store K)" "submit durable rows i dedup evicted st' K = (Inr (queued, reply), K')"
  shows "set (snd (disk_drained (kv_writer K) D)) \<subseteq> set (snd (disk_drained (kv_writer K') D))
    \<and> (\<forall>i. queued \<and> reply = Some i \<longrightarrow> (i, True) \<in> set (snd (disk_drained (kv_writer K') D)))"
  by (rule submit_cases[OF assms(1), of durable rows i dedup evicted]) (use assms(2) in \<open>auto simp: disk_drained_def\<close>)

lemma served_request:
  assumes "kv_served W"
  shows "kv_served (kv_apply deployment R (Request rq) W)"
proof (cases rule: answer_cases[of deployment rq "wo_kv W"])
  case (settled se queued reply K')
  have "set (snd (disk_drained (kv_writer (wo_kv W)) (wo_disk W))) \<subseteq> set (snd (disk_drained (kv_writer K') (wo_disk W)))
      \<and> (\<forall>i. queued \<and> reply = Some i \<longrightarrow> (i, True) \<in> set (snd (disk_drained (kv_writer K') (wo_disk W))))"
    using submit_drained[OF settled_writer settled(3)] .
  moreover have "settled_now rq (wo_kv W) (Inr (settled_commit rq se queued reply), K') = [(if queued then reply else None, kv_store K')]"
    using settled(1) by (simp add: settled_now_def bt_has_def settled_commit_def)
  ultimately show ?thesis
    using assms settled(4) by (auto simp: kv_served_def map_filter_snoc split: option.splits)
qed (use assms in \<open>simp_all add: settled_now_def kv_served_def bt_has_def\<close>)

lemma served_run:
  assumes "atomic_commits R" "commits_succeed R" "kv_served W"
  shows "kv_served (kv_run deployment R events W)"
  using assms(3)
proof (induction events arbitrary: W)
  case (Cons e events)
  then show ?case
    using served_step[OF assms(1,2)] served_request[of W deployment R] by (cases e) (simp_all del: kv_apply.simps)
qed simp

text \<open>
  C23: the disk catches up.  When transactions succeed, then after any run of a started store there is a number of steps of the writer thread, with no new request, after which the tables hold
  the store as it is in memory, nothing is queued, and every durable request that was settled has been told that it is persisted.
\<close>

theorem kv_writer_catches_up:
  assumes "started_run hash deployment R S events W" "atomic_commits R" "reads_succeed R" "commits_succeed R"
  shows "\<exists>k. let W' = kv_run deployment R (replicate k WriterStep) W in
    kv_store (wo_kv W') = kv_store (wo_kv W) \<and> dk_tables (wo_disk W') = persist (kv_store (wo_kv W)) \<and> wr_queue (kv_writer (wo_kv W')) = []
    \<and> (\<forall>i. Some i \<in> fst ` set (wo_history W) \<longrightarrow> (i, True) \<in> set (wr_replies (kv_writer (wo_kv W'))))"
proof -
  obtain n d where ok: "world_ok hash (restarted S) W n"
    and W: "W = kv_run deployment R events \<lparr>wo_kv = \<lparr>kv_store = restarted S, kv_writer = new_writer deployment\<rparr>,
       wo_disk = \<lparr>dk_thread = Gathering [], dk_tables = persist S, dk_db = d\<rparr>, wo_history = []\<rparr>"
    using started_run_ok[OF assms(1-3)] by metis
  note D = world_okD[OF ok]
  have kv_served: "kv_served W"
    unfolding W by (rule served_run[OF assms(2,4)]) (simp add: kv_served_def healthy_def List.map_filter_def)
  then have lead: "leads (restarted S) (wo_history W) n ((awaiting (dk_thread (wo_disk W)) @ wr_queue (kv_writer (wo_kv W))) @ [])"
    using D(8) by (simp add: kv_served_def)
  have "n + length (awaiting (dk_thread (wo_disk W)) @ wr_queue (kv_writer (wo_kv W))) = length (wo_history W)"
    using lead by (simp add: leads_def)
  then have "fst (disk_drained (kv_writer (wo_kv W)) (wo_disk W)) = persist (kv_store (wo_kv W))"
    using leads_append(1)[OF lead] D(3,6) by (simp add: disk_drained_def last_conv_nth states_snoc del: length_append)
  moreover have "\<forall>i. Some i \<in> fst ` set (wo_history W) \<longrightarrow> (i, True) \<in> set (snd (disk_drained (kv_writer (wo_kv W)) (wo_disk W)))"
    using kv_served by (force simp: kv_served_def List.map_filter_def image_iff)
  ultimately show ?thesis
    using writer_drains[OF assms(2,4), of W deployment] kv_served unfolding kv_served_def Let_def by (metis fst_conv snd_conv)
qed

theorem kv_writer_catches_up_witness:
  "\<exists>k. dk_tables (wo_disk (kv_run (\<lambda>_. None) reliable (replicate k WriterStep) (kv_run (\<lambda>_. None) reliable sample_run sample_world))) =
    persist (kv_store (wo_kv (kv_run (\<lambda>_. None) reliable sample_run sample_world)))"
proof -
  have "commits_succeed reliable"
    by (simp add: commits_succeed_def reliable_def)
  from kv_writer_catches_up[OF sample_started reliable_ok this] show ?thesis
    unfolding Let_def by blast
qed

section \<open>Starting ends\<close>

lemma unretained_removed:
  "unretained retained (t\<lparr>tb_operations := fold bt_remove ks (tb_operations t)\<rparr>) = filter (\<lambda>k. k \<notin> set ks) (unretained retained t)"
proof -
  have "entries (fold bt_remove ks m) = filter (\<lambda>e. fst e \<notin> set ks) (entries m)" for m :: "(bytes, bytes) BTreeMap"
    by (induction ks arbitrary: m) (auto intro!: filter_cong)
  then show ?thesis
    by (simp add: unretained_def filter_map comp_def) (metis (no_types, lifting))
qed

lemma prune_returns:
  assumes "atomic_commits R"
  shows "prune_persisted_operation_replays R retained t d \<noteq> None"
proof (induction "length (unretained retained t)" arbitrary: t d rule: less_induct)
  case less
  let ?delete = "take OPERATION_PRUNE_BATCH (unretained retained t)"
  let ?new = "t\<lparr>tb_operations := fold bt_remove ?delete (tb_operations t)\<rparr>"
  obtain ok d1 where read: "rd_read R d = (ok, d1)"
    by fastforce
  obtain committed t1 d2 where commit: "rd_commit R d1 t ?new = (committed, t1, d2)"
    by (metis prod_cases3)
  have t1: "committed \<Longrightarrow> t1 = ?new"
    using assms commit unfolding atomic_commits_def by (metis (mono_tags, lifting) case_prodD)
  show ?case
  proof (cases "ok \<and> ?delete \<noteq> [] \<and> committed")
    case True
    then obtain k where "k \<in> set ?delete" "k \<in> set (unretained retained t)"
      by (metis in_set_takeD list.set_intros(1) neq_Nil_conv)
    then have "length (unretained retained ?new) < length (unretained retained t)"
      unfolding unretained_removed by (intro length_filter_less[of k]) simp_all
    then have "prune_persisted_operation_replays R retained t1 d2 \<noteq> None"
      using less t1 True by simp
    then show ?thesis
      using True by (subst prune_persisted_operation_replays.simps) (simp add: read commit Let_def)
  next
    case False
    then show ?thesis
      by (subst prune_persisted_operation_replays.simps) (auto simp: read commit Let_def)
  qed
qed

text \<open>
  C34: a start always ends.  Whatever the tables hold, whatever reads and transactions report, as long as transactions are atomic, the loop that deletes forgotten operations ends and
  the store opens.
\<close>

theorem kv_open_returns:
  assumes "atomic_commits R"
  shows "\<exists>K D. Store_open hash deployment su R t d = Some (K, D)"
proof -
  obtain loaded d1 replays d2 where read: "rd_read R d = (loaded, d1)" "rd_read R d1 = (replays, d2)"
    by (metis prod.exhaust)
  define retained where "retained = load_operation_replays (live_revisions (st_entries (load_entries hash t))) (tb_operations t)"
  obtain ok t1 d3 where "prune_persisted_operation_replays R (ro_values retained) t d2 = Some (ok, t1, d3)"
    using prune_returns[OF assms] by (metis not_None_eq prod_cases3)
  then show ?thesis
    by (simp add: Store_open_def Let_def read flip: retained_def)
qed

theorem kv_open_returns_witness: "\<exists>K D. Store_open sample_hash (\<lambda>_. None) ready reliable (persist sample_store) () = Some (K, D)"
  using kv_open_returns[OF reliable_ok(1)] by blast

section \<open>Records\<close>

text \<open>
  Operation records have one encoding.  Exactly the encodings of well-formed records are decoded, and each to the record it encodes.
\<close>

theorem kv_record_codec: "decode_native_dedup raw = Some r \<longleftrightarrow> dedup_ok r \<and> raw = encode_native_dedup r"
  using decode_encode encode_decode by metis

end
