(* ===== verification/Wire_Kv.thy ===== *)
theory Wire_Kv
  imports Kv_Store Wire_State Wire_Transfer
begin

text \<open>
  The payloads of the key-value family (\<^verbatim>\<open>crates/yas/src/kv.rs\<close>): namespaces, watches and the records of a watch, reads, staged values, mutations, batches and
  their results.  Operation ids and hashes are byte strings of their fixed length.
\<close>

section \<open>Checks\<close>

definition KV_VERSION :: u16 where "KV_VERSION = 1"
definition KV_VALUE_CONTENT_KIND :: u16 where "KV_VALUE_CONTENT_KIND = 0"
definition KV_MAX_KEY_BYTES :: nat where "KV_MAX_KEY_BYTES = 256"
definition KV_MAX_VALUE_BYTES :: u64 where "KV_MAX_VALUE_BYTES = 4194304"
definition KV_MAX_INLINE_BYTES :: nat where "KV_MAX_INLINE_BYTES = 32768"
definition CONTENT_NONE :: u8 where "CONTENT_NONE = 0"
definition CONTENT_INLINE :: u8 where "CONTENT_INLINE = 1"
definition VALUE_INLINE :: u8 where "VALUE_INLINE = 0"
definition VALUE_STAGED :: u8 where "VALUE_STAGED = 1"
definition MUTATION_PUT :: u8 where "MUTATION_PUT = 0"
definition MUTATION_DELETE :: u8 where "MUTATION_DELETE = 1"
definition MUTATION_DURABLE :: u16 where "MUTATION_DURABLE = 1"

definition kv_validate_prefix :: "bytes \<Rightarrow> error + unit" where
  "kv_validate_prefix p =
     (if KV_MAX_KEY_BYTES < length p
      then Inl (LimitExceeded ''KV namespace prefix bytes'' (of_nat (length p)) (of_nat KV_MAX_KEY_BYTES))
      else if 0 \<in> set p then Inl (Invalid ''KV namespace prefix'') else Inr ())"

definition kv_validate_relative_key :: "bytes \<Rightarrow> error + unit" where
  "kv_validate_relative_key key =
     (if KV_MAX_KEY_BYTES < length key
      then Inl (LimitExceeded ''KV relative key bytes'' (of_nat (length key)) (of_nat KV_MAX_KEY_BYTES))
      else if 0 \<in> set key then Inl (Invalid ''KV relative key'') else Inr ())"

definition kv_validate_full_key :: "bytes \<Rightarrow> bytes \<Rightarrow> error + unit" where
  "kv_validate_full_key p relative_key =
     ebind (kv_validate_prefix p) (\<lambda>_.
     ebind (kv_validate_relative_key relative_key) (\<lambda>_.
       case checked_nat (length p + length relative_key) of
         None \<Rightarrow> Inl LengthOverflow
       | Some len \<Rightarrow> if len = 0 \<or> KV_MAX_KEY_BYTES < len then Inl (Invalid ''KV full key length'') else Inr ()))"

definition kv_validate_operation_id :: "bytes \<Rightarrow> error + unit" where
  "kv_validate_operation_id operation_id =
     (if list_all (\<lambda>b. b = 0) operation_id then Inl (Invalid ''zero KV operation ID'') else Inr ())"

definition kv_validate_value_len :: "u64 \<Rightarrow> error + unit" where
  "kv_validate_value_len byte_len =
     (if KV_MAX_VALUE_BYTES < byte_len then Inl (LimitExceeded ''KV value bytes'' byte_len KV_MAX_VALUE_BYTES) else Inr ())"

definition kv_validate_handle :: "u64 \<Rightarrow> string \<Rightarrow> error + unit" where
  "kv_validate_handle handle what = (if handle = 0 then Inl (Invalid what) else Inr ())"

definition kv_validate_identity_revision :: "u64 \<Rightarrow> u64 \<Rightarrow> string \<Rightarrow> error + unit" where
  "kv_validate_identity_revision handle revision what =
     ebind (kv_validate_handle handle what) (\<lambda>_.
       if revision = 0 then Inl (Invalid ''zero KV store revision'') else Inr ())"

definition kv_reject_unknown_required :: "Extensions \<Rightarrow> u16 list \<Rightarrow> error + unit" where
  "kv_reject_unknown_required es known =
     ebind (Extensions_validate es) (\<lambda>_.
       if list_ex (\<lambda>e. e_required e \<and> e_tag e \<notin> set known) es then Inl (Invalid ''unknown required KV extension'') else Inr ())"

definition kv_validate_mutation_header :: "u64 \<Rightarrow> bytes \<Rightarrow> bytes \<Rightarrow> Extensions \<Rightarrow> error + unit" where
  "kv_validate_mutation_header namespace_handle operation_id relative_key extensions =
     ebind (kv_validate_handle namespace_handle ''KV namespace handle'') (\<lambda>_.
     ebind (kv_validate_operation_id operation_id) (\<lambda>_.
     ebind (kv_validate_relative_key relative_key) (\<lambda>_.
       kv_reject_unknown_required extensions [])))"

definition kv_validate_value_transfer :: "Descriptor \<Rightarrow> Direction \<Rightarrow> error + unit" where
  "kv_validate_value_transfer d direction =
     (let sensitive = list_ex (\<lambda>e. e_tag e = SENSITIVE_CONTENT_EXTENSION \<and> e_required e \<and> e_value e = []) (td_extensions d) in
      if td_mode d \<noteq> Byte \<or> td_direction d \<noteq> direction \<or> td_content_family d \<noteq> FAMILY_KV
         \<or> td_content_kind d \<noteq> KV_VALUE_CONTENT_KIND \<or> td_content_version d \<noteq> KV_VERSION \<or> \<not> sensitive
      then Inl (Invalid ''KV value Transfer descriptor'')
      else Descriptor_validate d)"

section \<open>Namespaces\<close>

record kv_Open =
  op_prefix :: bytes
  op_extensions :: Extensions

definition kv_Open_encode :: "kv_Open \<Rightarrow> error + bytes" where
  "kv_Open_encode v =
     ebind (kv_validate_prefix (op_prefix v)) (\<lambda>_.
     ebind (kv_reject_unknown_required (op_extensions v) []) (\<lambda>_.
     ebind (put_bytes_u16 (op_prefix v)) (\<lambda>p.
     ebind (Extensions_encode_tail (op_extensions v)) (\<lambda>tail.
       Inr (p @ tail)))))"

definition kv_Open_body :: "kv_Open reader" where
  "kv_Open_body =
     rbind dec_len_bytes_u16 (\<lambda>p. rbind dec_extensions (\<lambda>extensions. rret \<lparr>op_prefix = p, op_extensions = extensions\<rparr>))"

definition kv_Open_decode :: "bytes \<Rightarrow> error + kv_Open" where
  "kv_Open_decode =
     rrun (rbind kv_Open_body (\<lambda>v. rbind dec_finish (\<lambda>_.
       rlift (ebind (kv_validate_prefix (op_prefix v)) (\<lambda>_.
              ebind (kv_reject_unknown_required (op_extensions v) []) (\<lambda>_. Inr v))))))"

record kv_OpenResult =
  or_namespace_handle :: u64
  or_store_revision :: u64
  or_extensions :: Extensions

definition kv_OpenResult_encode :: "kv_OpenResult \<Rightarrow> error + bytes" where
  "kv_OpenResult_encode v =
     ebind (kv_validate_identity_revision (or_namespace_handle v) (or_store_revision v) ''KV namespace'') (\<lambda>_.
     ebind (kv_reject_unknown_required (or_extensions v) []) (\<lambda>_.
     ebind (Extensions_encode_tail (or_extensions v)) (\<lambda>tail.
       Inr (put_u64 (or_namespace_handle v) @ put_u64 (or_store_revision v) @ tail))))"

definition kv_OpenResult_body :: "kv_OpenResult reader" where
  "kv_OpenResult_body =
     rbind dec_u64 (\<lambda>handle. rbind dec_u64 (\<lambda>revision. rbind dec_extensions (\<lambda>extensions.
       rret \<lparr>or_namespace_handle = handle, or_store_revision = revision, or_extensions = extensions\<rparr>)))"

definition kv_OpenResult_decode :: "bytes \<Rightarrow> error + kv_OpenResult" where
  "kv_OpenResult_decode =
     rrun (rbind kv_OpenResult_body (\<lambda>v. rbind dec_finish (\<lambda>_.
       rlift (ebind (kv_validate_identity_revision (or_namespace_handle v) (or_store_revision v) ''KV namespace'') (\<lambda>_.
              ebind (kv_reject_unknown_required (or_extensions v) []) (\<lambda>_. Inr v))))))"

record kv_Close =
  cl_namespace_handle :: u64
  cl_extensions :: Extensions

definition kv_Close_encode :: "kv_Close \<Rightarrow> error + bytes" where
  "kv_Close_encode v =
     ebind (kv_validate_handle (cl_namespace_handle v) ''KV namespace handle'') (\<lambda>_.
     ebind (kv_reject_unknown_required (cl_extensions v) []) (\<lambda>_.
     ebind (Extensions_encode_tail (cl_extensions v)) (\<lambda>tail.
       Inr (put_u64 (cl_namespace_handle v) @ tail))))"

definition kv_Close_body :: "kv_Close reader" where
  "kv_Close_body =
     rbind dec_u64 (\<lambda>handle. rbind dec_extensions (\<lambda>extensions.
       rret \<lparr>cl_namespace_handle = handle, cl_extensions = extensions\<rparr>))"

definition kv_Close_decode :: "bytes \<Rightarrow> error + kv_Close" where
  "kv_Close_decode =
     rrun (rbind kv_Close_body (\<lambda>v. rbind dec_finish (\<lambda>_.
       rlift (ebind (kv_validate_handle (cl_namespace_handle v) ''KV namespace handle'') (\<lambda>_.
              ebind (kv_reject_unknown_required (cl_extensions v) []) (\<lambda>_. Inr v))))))"

section \<open>Watches\<close>

record kv_Watch =
  kw_namespace_handle :: u64
  kw_inline_max :: u32
  kw_state :: Watch

definition kv_Watch_encode :: "kv_Watch \<Rightarrow> error + bytes" where
  "kv_Watch_encode v =
     ebind (kv_validate_handle (kw_namespace_handle v) ''KV namespace handle'') (\<lambda>_.
     if KV_MAX_INLINE_BYTES < unat (kw_inline_max v)
     then Inl (LimitExceeded ''KV watch inline bytes'' (ucast (kw_inline_max v)) (of_nat KV_MAX_INLINE_BYTES))
     else ebind (Watch_encode (kw_state v)) (\<lambda>state.
     ebind (put_len_u32 (length state)) (\<lambda>len.
       Inr (put_u64 (kw_namespace_handle v) @ put_u32 (kw_inline_max v) @ put_u32 0 @ len @ state))))"

definition kv_Watch_body :: "kv_Watch reader" where
  "kv_Watch_body =
     rbind dec_u64 (\<lambda>handle. rbind dec_u32 (\<lambda>inline_max. rbind dec_u32 (\<lambda>reserved.
     if reserved \<noteq> 0 then rfail (Invalid ''KV WATCH reserved field'')
     else rbind dec_len_bytes_u32 (\<lambda>raw. rbind (rlift (Watch_decode raw)) (\<lambda>state.
       rret \<lparr>kw_namespace_handle = handle, kw_inline_max = inline_max, kw_state = state\<rparr>)))))"

definition kv_Watch_decode :: "bytes \<Rightarrow> error + kv_Watch" where
  "kv_Watch_decode = rrun (rbind kv_Watch_body (\<lambda>v. rbind dec_finish (\<lambda>_. rlift (ebind (kv_Watch_encode v) (\<lambda>_. Inr v)))))"

record kv_EntryRecord =
  er_relative_key :: bytes
  er_content_hash :: bytes
  er_byte_len :: u64
  er_modification_revision :: u64
  er_modified_unix_ns :: int
  er_inline_value :: "bytes option"
  er_extensions :: Extensions

definition kv_EntryRecord_validate :: "kv_EntryRecord \<Rightarrow> error + unit" where
  "kv_EntryRecord_validate v =
     ebind (kv_validate_relative_key (er_relative_key v)) (\<lambda>_.
     if KV_MAX_VALUE_BYTES < er_byte_len v then Inl (LimitExceeded ''KV value bytes'' (er_byte_len v) KV_MAX_VALUE_BYTES)
     else if er_modification_revision v = 0 then Inl (Invalid ''zero KV modification revision'')
     else if (case er_inline_value v of None \<Rightarrow> False
              | Some value \<Rightarrow> KV_MAX_INLINE_BYTES < length value \<or> of_nat (length value) \<noteq> er_byte_len v)
     then Inl (Invalid ''KV inline value length'')
     else kv_reject_unknown_required (er_extensions v) [])"

definition kv_EntryRecord_encode :: "kv_EntryRecord \<Rightarrow> error + bytes" where
  "kv_EntryRecord_encode v =
     ebind (kv_EntryRecord_validate v) (\<lambda>_.
     ebind (put_bytes_u16 (er_relative_key v)) (\<lambda>key.
     ebind (case er_inline_value v of
              None \<Rightarrow> Inr (put_u8 CONTENT_NONE @ [0, 0, 0])
            | Some value \<Rightarrow> ebind (put_bytes_u32 value) (\<lambda>bs. Inr (put_u8 CONTENT_INLINE @ [0, 0, 0] @ bs))) (\<lambda>content.
     ebind (Extensions_encode_tail (er_extensions v)) (\<lambda>tail.
       Inr (key @ er_content_hash v @ put_u64 (er_byte_len v) @ put_u64 (er_modification_revision v)
            @ put_i64 (er_modified_unix_ns v) @ content @ tail)))))"

definition kv_EntryRecord_body :: "kv_EntryRecord reader" where
  "kv_EntryRecord_body =
     rbind dec_len_bytes_u16 (\<lambda>key. rbind dec_array_32 (\<lambda>content_hash. rbind dec_u64 (\<lambda>byte_len.
     rbind dec_u64 (\<lambda>revision. rbind dec_i64 (\<lambda>modified.
     rbind dec_u8 (\<lambda>content. rbind (dec_take 3) (\<lambda>reserved.
     if reserved \<noteq> [0, 0, 0] then rfail (Invalid ''KV entry reserved bytes'')
     else rbind (if content = CONTENT_NONE then rret None
                 else if content = CONTENT_INLINE then rbind dec_len_bytes_u32 (\<lambda>bs. rret (Some bs))
                 else rfail (Invalid ''KV entry content kind'')) (\<lambda>inline_value.
     rbind dec_extensions (\<lambda>extensions.
       rret \<lparr>er_relative_key = key, er_content_hash = content_hash, er_byte_len = byte_len, er_modification_revision = revision,
             er_modified_unix_ns = modified, er_inline_value = inline_value, er_extensions = extensions\<rparr>)))))))))"

definition kv_EntryRecord_decode :: "bytes \<Rightarrow> error + kv_EntryRecord" where
  "kv_EntryRecord_decode =
     rrun (rbind kv_EntryRecord_body (\<lambda>v. rbind dec_finish (\<lambda>_. rlift (ebind (kv_EntryRecord_validate v) (\<lambda>_. Inr v)))))"

definition kv_EntryRecord_state_record :: "kv_EntryRecord \<Rightarrow> RecordKind \<Rightarrow> error + Record" where
  "kv_EntryRecord_state_record v kind =
     (if \<not> (kind = Add \<or> kind = Replace) then Inl (Invalid ''KV entry state record kind'')
      else ebind (kv_EntryRecord_encode v) (\<lambda>body. Inr \<lparr>r_kind = kind, r_required = False, r_body = body\<rparr>))"

definition kv_entry_from_state_record :: "Record \<Rightarrow> error + kv_EntryRecord" where
  "kv_entry_from_state_record r =
     (if \<not> (r_kind r = Add \<or> r_kind r = Replace) then Inl (Invalid ''KV entry state record kind'')
      else kv_EntryRecord_decode (r_body r))"

record kv_RemovedEntry =
  rm_relative_key :: bytes
  rm_modification_revision :: u64

definition kv_RemovedEntry_state_record :: "kv_RemovedEntry \<Rightarrow> error + Record" where
  "kv_RemovedEntry_state_record v =
     ebind (kv_validate_relative_key (rm_relative_key v)) (\<lambda>_.
     if rm_modification_revision v = 0 then Inl (Invalid ''zero KV modification revision'')
     else ebind (put_bytes_u16 (rm_relative_key v)) (\<lambda>key.
       Inr \<lparr>r_kind = RecordKind.Remove, r_required = False, r_body = key @ put_u64 (rm_modification_revision v)\<rparr>))"

definition kv_RemovedEntry_from_state_record :: "Record \<Rightarrow> error + kv_RemovedEntry" where
  "kv_RemovedEntry_from_state_record r =
     (if r_kind r \<noteq> RecordKind.Remove then Inl (Invalid ''KV remove state record kind'')
      else rrun (rbind (rbind dec_len_bytes_u16 (\<lambda>key. rbind dec_u64 (\<lambda>revision.
               rret \<lparr>rm_relative_key = key, rm_modification_revision = revision\<rparr>))) (\<lambda>v.
             rbind dec_finish (\<lambda>_.
             rlift (ebind (kv_validate_relative_key (rm_relative_key v)) (\<lambda>_.
               if rm_modification_revision v = 0 then Inl (Invalid ''zero KV modification revision'') else Inr v))))) (r_body r))"

section \<open>Reads\<close>

record kv_Get =
  ge_namespace_handle :: u64
  ge_relative_key :: bytes
  ge_initial_receive_credit :: u64
  ge_extensions :: Extensions

definition kv_Get_encode :: "kv_Get \<Rightarrow> error + bytes" where
  "kv_Get_encode v =
     ebind (kv_validate_handle (ge_namespace_handle v) ''KV namespace handle'') (\<lambda>_.
     ebind (kv_validate_relative_key (ge_relative_key v)) (\<lambda>_.
     ebind (kv_reject_unknown_required (ge_extensions v) []) (\<lambda>_.
     ebind (put_bytes_u16 (ge_relative_key v)) (\<lambda>key.
     ebind (Extensions_encode_tail (ge_extensions v)) (\<lambda>tail.
       Inr (put_u64 (ge_namespace_handle v) @ key @ put_u64 (ge_initial_receive_credit v) @ tail))))))"

definition kv_Get_body :: "kv_Get reader" where
  "kv_Get_body =
     rbind dec_u64 (\<lambda>handle. rbind dec_len_bytes_u16 (\<lambda>key. rbind dec_u64 (\<lambda>credit. rbind dec_extensions (\<lambda>extensions.
       rret \<lparr>ge_namespace_handle = handle, ge_relative_key = key, ge_initial_receive_credit = credit, ge_extensions = extensions\<rparr>))))"

definition kv_Get_decode :: "bytes \<Rightarrow> error + kv_Get" where
  "kv_Get_decode = rrun (rbind kv_Get_body (\<lambda>v. rbind dec_finish (\<lambda>_. rlift (ebind (kv_Get_encode v) (\<lambda>_. Inr v)))))"

record kv_GetResult =
  gr_modification_revision :: u64
  gr_value :: InlineOrTransfer

definition kv_GetResult_validate :: "kv_GetResult \<Rightarrow> error + unit" where
  "kv_GetResult_validate v =
     (if gr_modification_revision v = 0 \<or> KV_MAX_VALUE_BYTES < it_byte_len (gr_value v)
      then Inl (Invalid ''KV GET result revision or length'')
      else ebind (case it_delivery (gr_value v) of
                    Inline bs \<Rightarrow> if length bs \<le> KV_MAX_INLINE_BYTES then Inr () else Inl (Invalid ''KV inline GET value length'')
                  | Transfer d \<Rightarrow> kv_validate_value_transfer d SENDER_TO_RECEIVER) (\<lambda>_.
           ebind (InlineOrTransfer_encode (gr_value v)) (\<lambda>_. Inr ())))"

definition kv_GetResult_encode :: "kv_GetResult \<Rightarrow> error + bytes" where
  "kv_GetResult_encode v =
     ebind (kv_GetResult_validate v) (\<lambda>_.
     ebind (InlineOrTransfer_encode (gr_value v)) (\<lambda>value. Inr (put_u64 (gr_modification_revision v) @ value)))"

definition kv_GetResult_body :: "kv_GetResult reader" where
  "kv_GetResult_body =
     rbind dec_u64 (\<lambda>revision. rbind dec_rest (\<lambda>rest. rbind (rlift (InlineOrTransfer_decode rest)) (\<lambda>value.
       rret \<lparr>gr_modification_revision = revision, gr_value = value\<rparr>)))"

definition kv_GetResult_decode :: "bytes \<Rightarrow> error + kv_GetResult" where
  "kv_GetResult_decode =
     rrun (rbind kv_GetResult_body (\<lambda>v. rbind dec_finish (\<lambda>_. rlift (ebind (kv_GetResult_validate v) (\<lambda>_. Inr v)))))"

section \<open>Staged values\<close>

record kv_StageValue =
  sv_byte_len :: u64
  sv_content_hash :: bytes
  sv_extensions :: Extensions

definition kv_StageValue_encode :: "kv_StageValue \<Rightarrow> error + bytes" where
  "kv_StageValue_encode v =
     ebind (kv_validate_value_len (sv_byte_len v)) (\<lambda>_.
     ebind (kv_reject_unknown_required (sv_extensions v) []) (\<lambda>_.
     ebind (Extensions_encode_tail (sv_extensions v)) (\<lambda>tail.
       Inr (put_u64 (sv_byte_len v) @ sv_content_hash v @ tail))))"

definition kv_StageValue_body :: "kv_StageValue reader" where
  "kv_StageValue_body =
     rbind dec_u64 (\<lambda>byte_len. rbind dec_array_32 (\<lambda>content_hash. rbind dec_extensions (\<lambda>extensions.
       rret \<lparr>sv_byte_len = byte_len, sv_content_hash = content_hash, sv_extensions = extensions\<rparr>)))"

definition kv_StageValue_decode :: "bytes \<Rightarrow> error + kv_StageValue" where
  "kv_StageValue_decode =
     rrun (rbind kv_StageValue_body (\<lambda>v. rbind dec_finish (\<lambda>_. rlift (ebind (kv_StageValue_encode v) (\<lambda>_. Inr v)))))"

record kv_StageValueResult =
  sr_staging_handle :: u64
  sr_byte_len :: u64
  sr_content_hash :: bytes
  sr_transfer :: Descriptor

definition kv_StageValueResult_validate :: "kv_StageValueResult \<Rightarrow> error + unit" where
  "kv_StageValueResult_validate v =
     ebind (kv_validate_handle (sr_staging_handle v) ''KV staging handle'') (\<lambda>_.
     ebind (kv_validate_value_len (sr_byte_len v)) (\<lambda>_.
     ebind (kv_validate_value_transfer (sr_transfer v) RECEIVER_TO_SENDER) (\<lambda>_.
     ebind (Descriptor_require_upload_stage (sr_transfer v) (sr_staging_handle v)) (\<lambda>_. Inr ()))))"

definition kv_StageValueResult_stage_discarded_by :: "kv_StageValueResult \<Rightarrow> Reset \<Rightarrow> error + UploadStage option" where
  "kv_StageValueResult_stage_discarded_by v reset =
     ebind (kv_StageValueResult_validate v) (\<lambda>_.
       Reset_disposed_upload_stage_from reset (sr_staging_handle v) [sr_transfer v])"

definition kv_StageValueResult_encode :: "kv_StageValueResult \<Rightarrow> error + bytes" where
  "kv_StageValueResult_encode v =
     ebind (kv_StageValueResult_validate v) (\<lambda>_.
     ebind (Descriptor_encode (sr_transfer v)) (\<lambda>d.
       Inr (put_u64 (sr_staging_handle v) @ put_u64 (sr_byte_len v) @ sr_content_hash v @ d)))"

definition kv_StageValueResult_body :: "kv_StageValueResult reader" where
  "kv_StageValueResult_body =
     rbind dec_u64 (\<lambda>handle. rbind dec_u64 (\<lambda>byte_len. rbind dec_array_32 (\<lambda>content_hash.
     rbind dec_rest (\<lambda>rest. rbind (rlift (Descriptor_decode rest)) (\<lambda>transfer.
       rret \<lparr>sr_staging_handle = handle, sr_byte_len = byte_len, sr_content_hash = content_hash, sr_transfer = transfer\<rparr>)))))"

definition kv_StageValueResult_decode :: "bytes \<Rightarrow> error + kv_StageValueResult" where
  "kv_StageValueResult_decode =
     rrun (rbind kv_StageValueResult_body (\<lambda>v. rbind dec_finish (\<lambda>_. rlift (ebind (kv_StageValueResult_validate v) (\<lambda>_. Inr v)))))"

section \<open>Mutations\<close>

definition Precondition_kind :: "Precondition \<Rightarrow> u8" where
  "Precondition_kind p = (case p of AnyEntry \<Rightarrow> 0 | Absent \<Rightarrow> 1 | HashIs _ \<Rightarrow> 2 | RevisionIs _ \<Rightarrow> 3 | HashAndRevision _ _ \<Rightarrow> 4)"

definition Precondition_encode :: "Precondition \<Rightarrow> error + bytes" where
  "Precondition_encode p =
     ebind (case p of
              AnyEntry \<Rightarrow> Inr []
            | Absent \<Rightarrow> Inr []
            | HashIs hash \<Rightarrow> Inr hash
            | RevisionIs revision \<Rightarrow> if revision = 0 then Inl (Invalid ''zero KV expected revision'') else Inr (put_u64 revision)
            | HashAndRevision hash revision \<Rightarrow>
                if revision = 0 then Inl (Invalid ''zero KV expected revision'') else Inr (hash @ put_u64 revision))
       (\<lambda>expected. Inr (put_u8 (Precondition_kind p) @ [0, 0, 0] @ expected))"

definition Precondition_decode_from :: "Precondition reader" where
  "Precondition_decode_from =
     rbind dec_u8 (\<lambda>kind. rbind (dec_take 3) (\<lambda>reserved.
     if reserved \<noteq> [0, 0, 0] then rfail (Invalid ''KV precondition reserved bytes'')
     else if kind = 0 then rret AnyEntry
     else if kind = 1 then rret Absent
     else if kind = 2 then rbind dec_array_32 (\<lambda>hash. rret (HashIs hash))
     else if kind = 3 then rbind dec_u64 (\<lambda>revision.
       if revision = 0 then rfail (Invalid ''zero KV expected revision'') else rret (RevisionIs revision))
     else if kind = 4 then rbind dec_array_32 (\<lambda>hash. rbind dec_u64 (\<lambda>revision.
       if revision = 0 then rfail (Invalid ''zero KV expected revision'') else rret (HashAndRevision hash revision)))
     else rfail (Invalid ''KV precondition kind'')))"

datatype ValueSource = InlineValue bytes | Staged u64

fun ValueSource_encode :: "ValueSource \<Rightarrow> error + bytes" where
  "ValueSource_encode (InlineValue value) =
     (if KV_MAX_INLINE_BYTES < length value
      then Inl (LimitExceeded ''KV inline mutation bytes'' (of_nat (length value)) (of_nat KV_MAX_INLINE_BYTES))
      else ebind (put_bytes_u32 value) (\<lambda>bs. Inr (put_u8 VALUE_INLINE @ [0, 0, 0] @ bs)))"
| "ValueSource_encode (Staged handle) =
     ebind (kv_validate_handle handle ''KV staging handle'') (\<lambda>_. Inr (put_u8 VALUE_STAGED @ [0, 0, 0] @ put_u64 handle))"

definition ValueSource_decode_from :: "ValueSource reader" where
  "ValueSource_decode_from =
     rbind dec_u8 (\<lambda>kind. rbind (dec_take 3) (\<lambda>reserved.
     if reserved \<noteq> [0, 0, 0] then rfail (Invalid ''KV value source reserved bytes'')
     else if kind = VALUE_INLINE then rbind dec_len_bytes_u32 (\<lambda>bs.
       if KV_MAX_INLINE_BYTES < length bs
       then rfail (LimitExceeded ''KV inline mutation bytes'' (of_nat (length bs)) (of_nat KV_MAX_INLINE_BYTES))
       else rret (InlineValue bs))
     else if kind = VALUE_STAGED then rbind dec_u64 (\<lambda>handle.
       rbind (rlift (kv_validate_handle handle ''KV staging handle'')) (\<lambda>_. rret (Staged handle)))
     else rfail (Invalid ''KV value source kind'')))"

text \<open>The flags of a mutation, whose only bit says that it is durable.\<close>

definition dec_durable :: "string \<Rightarrow> bool reader" where
  "dec_durable ctxt =
     rbind dec_u16 (\<lambda>flags. if flags AND NOT MUTATION_DURABLE \<noteq> 0 then rfail (Invalid ctxt) else rret (flags \<noteq> 0))"

definition put_durable :: "bool \<Rightarrow> bytes" where
  "put_durable durable = put_u16 (if durable then MUTATION_DURABLE else 0)"

record kv_Put =
  pu_namespace_handle :: u64
  pu_operation_id :: bytes
  pu_durable :: bool
  pu_relative_key :: bytes
  pu_precondition :: Precondition
  pu_value :: ValueSource
  pu_extensions :: Extensions

definition kv_Put_encode :: "kv_Put \<Rightarrow> error + bytes" where
  "kv_Put_encode v =
     ebind (kv_validate_mutation_header (pu_namespace_handle v) (pu_operation_id v) (pu_relative_key v) (pu_extensions v)) (\<lambda>_.
     ebind (put_bytes_u16 (pu_relative_key v)) (\<lambda>key.
     ebind (Precondition_encode (pu_precondition v)) (\<lambda>precondition.
     ebind (ValueSource_encode (pu_value v)) (\<lambda>value.
     ebind (Extensions_encode_tail (pu_extensions v)) (\<lambda>tail.
       Inr (put_u64 (pu_namespace_handle v) @ pu_operation_id v @ put_durable (pu_durable v) @ put_u16 0
            @ key @ precondition @ value @ tail))))))"

definition kv_Put_body :: "kv_Put reader" where
  "kv_Put_body =
     rbind dec_u64 (\<lambda>handle. rbind dec_array_16 (\<lambda>operation_id. rbind (dec_durable ''KV PUT flags or reserved field'') (\<lambda>durable.
     rbind dec_u16 (\<lambda>reserved.
     if reserved \<noteq> 0 then rfail (Invalid ''KV PUT flags or reserved field'')
     else rbind dec_len_bytes_u16 (\<lambda>key. rbind Precondition_decode_from (\<lambda>precondition. rbind ValueSource_decode_from (\<lambda>value.
     rbind dec_extensions (\<lambda>extensions.
       rret \<lparr>pu_namespace_handle = handle, pu_operation_id = operation_id, pu_durable = durable, pu_relative_key = key,
             pu_precondition = precondition, pu_value = value, pu_extensions = extensions\<rparr>))))))))"

definition kv_Put_decode :: "bytes \<Rightarrow> error + kv_Put" where
  "kv_Put_decode = rrun (rbind kv_Put_body (\<lambda>v. rbind dec_finish (\<lambda>_. rlift (ebind (kv_Put_encode v) (\<lambda>_. Inr v)))))"

record kv_Delete =
  de_namespace_handle :: u64
  de_operation_id :: bytes
  de_durable :: bool
  de_relative_key :: bytes
  de_precondition :: Precondition
  de_extensions :: Extensions

definition kv_Delete_encode :: "kv_Delete \<Rightarrow> error + bytes" where
  "kv_Delete_encode v =
     ebind (kv_validate_mutation_header (de_namespace_handle v) (de_operation_id v) (de_relative_key v) (de_extensions v)) (\<lambda>_.
     if de_precondition v = Absent then Inl (Invalid ''KV delete-if-absent precondition'')
     else ebind (put_bytes_u16 (de_relative_key v)) (\<lambda>key.
     ebind (Precondition_encode (de_precondition v)) (\<lambda>precondition.
     ebind (Extensions_encode_tail (de_extensions v)) (\<lambda>tail.
       Inr (put_u64 (de_namespace_handle v) @ de_operation_id v @ put_durable (de_durable v) @ put_u16 0
            @ key @ precondition @ tail)))))"

definition kv_Delete_body :: "kv_Delete reader" where
  "kv_Delete_body =
     rbind dec_u64 (\<lambda>handle. rbind dec_array_16 (\<lambda>operation_id. rbind (dec_durable ''KV DELETE flags or reserved field'') (\<lambda>durable.
     rbind dec_u16 (\<lambda>reserved.
     if reserved \<noteq> 0 then rfail (Invalid ''KV DELETE flags or reserved field'')
     else rbind dec_len_bytes_u16 (\<lambda>key. rbind Precondition_decode_from (\<lambda>precondition. rbind dec_extensions (\<lambda>extensions.
       rret \<lparr>de_namespace_handle = handle, de_operation_id = operation_id, de_durable = durable, de_relative_key = key,
             de_precondition = precondition, de_extensions = extensions\<rparr>)))))))"

definition kv_Delete_decode :: "bytes \<Rightarrow> error + kv_Delete" where
  "kv_Delete_decode = rrun (rbind kv_Delete_body (\<lambda>v. rbind dec_finish (\<lambda>_. rlift (ebind (kv_Delete_encode v) (\<lambda>_. Inr v)))))"

datatype Mutation =
    MutPut bytes Precondition ValueSource Extensions
  | MutDelete bytes Precondition Extensions

definition Mutation_encode :: "Mutation \<Rightarrow> error + bytes" where
  "Mutation_encode m =
     ebind (case m of
              MutPut key precondition value extensions \<Rightarrow> Inr (MUTATION_PUT, key, precondition, Some value, extensions)
            | MutDelete key precondition extensions \<Rightarrow>
                if precondition = Absent then Inl (Invalid ''KV delete-if-absent precondition'')
                else Inr (MUTATION_DELETE, key, precondition, None, extensions)) (\<lambda>(kind, relative_key, precondition, value, extensions).
     ebind (kv_validate_relative_key relative_key) (\<lambda>_.
     ebind (kv_reject_unknown_required extensions []) (\<lambda>_.
     ebind (put_bytes_u16 relative_key) (\<lambda>key.
     ebind (Precondition_encode precondition) (\<lambda>expected.
     ebind (case value of None \<Rightarrow> Inr [] | Some source \<Rightarrow> ValueSource_encode source) (\<lambda>source.
     ebind (Extensions_encode_tail extensions) (\<lambda>tail.
       Inr (put_u8 kind @ [0, 0, 0] @ key @ expected @ source @ tail))))))))"

definition Mutation_body :: "Mutation reader" where
  "Mutation_body =
     rbind dec_u8 (\<lambda>kind. rbind (dec_take 3) (\<lambda>reserved.
     if reserved \<noteq> [0, 0, 0] then rfail (Invalid ''KV mutation reserved bytes'')
     else rbind dec_len_bytes_u16 (\<lambda>key. rbind Precondition_decode_from (\<lambda>precondition.
     if kind = MUTATION_PUT
     then rbind ValueSource_decode_from (\<lambda>value. rbind dec_extensions (\<lambda>extensions. rret (MutPut key precondition value extensions)))
     else if kind = MUTATION_DELETE then rbind dec_extensions (\<lambda>extensions. rret (MutDelete key precondition extensions))
     else rfail (Invalid ''KV mutation kind'')))))"

definition Mutation_decode :: "bytes \<Rightarrow> error + Mutation" where
  "Mutation_decode = rrun (rbind Mutation_body (\<lambda>v. rbind dec_finish (\<lambda>_. rlift (ebind (Mutation_encode v) (\<lambda>_. Inr v)))))"

section \<open>Results and batches\<close>

record MutationResult =
  mu_status :: Status
  mu_modification_revision :: u64
  mu_modified_unix_ns :: int
  mu_content_hash :: bytes
  mu_byte_len :: u64
  mu_extensions :: Extensions

definition MutationResult_validate :: "MutationResult \<Rightarrow> error + unit" where
  "MutationResult_validate v =
     (if KV_MAX_VALUE_BYTES < mu_byte_len v then Inl (LimitExceeded ''KV mutation result bytes'' (mu_byte_len v) KV_MAX_VALUE_BYTES)
      else if Status_is_ok (mu_status v) \<and> mu_modification_revision v = 0 then Inl (Invalid ''zero successful KV mutation revision'')
      else kv_reject_unknown_required (mu_extensions v) [])"

definition MutationResult_encode :: "MutationResult \<Rightarrow> error + bytes" where
  "MutationResult_encode v =
     ebind (MutationResult_validate v) (\<lambda>_.
     ebind (Extensions_encode_tail (mu_extensions v)) (\<lambda>tail.
       Inr (put_u16 (Status_code (mu_status v)) @ put_u16 0 @ put_u64 (mu_modification_revision v) @ put_i64 (mu_modified_unix_ns v)
            @ mu_content_hash v @ put_u64 (mu_byte_len v) @ tail)))"

definition MutationResult_body :: "MutationResult reader" where
  "MutationResult_body =
     rbind dec_u16 (\<lambda>code. rbind dec_u16 (\<lambda>reserved.
     if reserved \<noteq> 0 then rfail (Invalid ''KV mutation result reserved field'')
     else rbind dec_u64 (\<lambda>revision. rbind dec_i64 (\<lambda>modified. rbind dec_array_32 (\<lambda>content_hash. rbind dec_u64 (\<lambda>byte_len.
     rbind dec_extensions (\<lambda>extensions.
       rret \<lparr>mu_status = Status_from_code code, mu_modification_revision = revision, mu_modified_unix_ns = modified,
             mu_content_hash = content_hash, mu_byte_len = byte_len, mu_extensions = extensions\<rparr>)))))))"

definition MutationResult_decode :: "bytes \<Rightarrow> error + MutationResult" where
  "MutationResult_decode =
     rrun (rbind MutationResult_body (\<lambda>v. rbind dec_finish (\<lambda>_. rlift (ebind (MutationResult_validate v) (\<lambda>_. Inr v)))))"

text \<open>An item of a batch: its encoding behind a length.\<close>

definition put_item :: "('a \<Rightarrow> error + bytes) \<Rightarrow> 'a \<Rightarrow> error + bytes" where
  "put_item enc v = ebind (enc v) put_bytes_u32"

definition get_item :: "(bytes \<Rightarrow> error + 'a) \<Rightarrow> 'a reader" where
  "get_item dec = rbind dec_len_bytes_u32 (\<lambda>raw. rlift (dec raw))"

record Batch =
  ba_namespace_handle :: u64
  ba_operation_id :: bytes
  ba_durable :: bool
  ba_mutations :: "Mutation list"
  ba_extensions :: Extensions

definition Batch_encode :: "Batch \<Rightarrow> error + bytes" where
  "Batch_encode v =
     ebind (kv_validate_handle (ba_namespace_handle v) ''KV namespace handle'') (\<lambda>_.
     ebind (kv_validate_operation_id (ba_operation_id v)) (\<lambda>_.
     if ba_mutations v = [] \<or> MAX_BATCH_ITEMS < length (ba_mutations v) then Inl (Invalid ''KV batch item count'')
     else ebind (kv_reject_unknown_required (ba_extensions v) []) (\<lambda>_.
     ebind (put_len_u16 (length (ba_mutations v))) (\<lambda>count.
     ebind (encode_all (put_item Mutation_encode) (ba_mutations v)) (\<lambda>mutations.
     ebind (Extensions_encode_tail (ba_extensions v)) (\<lambda>tail.
       Inr (put_u64 (ba_namespace_handle v) @ ba_operation_id v @ put_durable (ba_durable v)
            @ count @ mutations @ tail)))))))"

definition Batch_body :: "Batch reader" where
  "Batch_body =
     rbind dec_u64 (\<lambda>handle. rbind dec_array_16 (\<lambda>operation_id. rbind (dec_durable ''KV BATCH flags'') (\<lambda>durable.
     rbind dec_u16 (\<lambda>count.
     if unat count = 0 \<or> MAX_BATCH_ITEMS < unat count then rfail (Invalid ''KV batch item count'')
     else rbind (rrepeat (unat count) (get_item Mutation_decode)) (\<lambda>mutations. rbind dec_extensions (\<lambda>extensions.
       rret \<lparr>ba_namespace_handle = handle, ba_operation_id = operation_id, ba_durable = durable, ba_mutations = mutations,
             ba_extensions = extensions\<rparr>))))))"

definition Batch_decode :: "bytes \<Rightarrow> error + Batch" where
  "Batch_decode = rrun (rbind Batch_body (\<lambda>v. rbind dec_finish (\<lambda>_. rlift (ebind (Batch_encode v) (\<lambda>_. Inr v)))))"

record BatchResult =
  br_store_revision :: u64
  br_results :: "MutationResult list"
  br_extensions :: Extensions

definition BatchResult_encode :: "BatchResult \<Rightarrow> error + bytes" where
  "BatchResult_encode v =
     (if br_store_revision v = 0 \<or> br_results v = [] \<or> MAX_BATCH_ITEMS < length (br_results v)
      then Inl (Invalid ''KV batch result revision or count'')
      else ebind (kv_reject_unknown_required (br_extensions v) []) (\<lambda>_.
           ebind (put_len_u16 (length (br_results v))) (\<lambda>count.
           ebind (encode_all (put_item MutationResult_encode) (br_results v)) (\<lambda>results.
           ebind (Extensions_encode_tail (br_extensions v)) (\<lambda>tail.
             Inr (put_u64 (br_store_revision v) @ count @ put_u16 0 @ results @ tail))))))"

definition BatchResult_body :: "BatchResult reader" where
  "BatchResult_body =
     rbind dec_u64 (\<lambda>revision. rbind dec_u16 (\<lambda>count. rbind dec_u16 (\<lambda>reserved.
     if reserved \<noteq> 0 \<or> unat count = 0 \<or> MAX_BATCH_ITEMS < unat count then rfail (Invalid ''KV batch result reserved field or count'')
     else rbind (rrepeat (unat count) (get_item MutationResult_decode)) (\<lambda>results. rbind dec_extensions (\<lambda>extensions.
       rret \<lparr>br_store_revision = revision, br_results = results, br_extensions = extensions\<rparr>)))))"

definition BatchResult_decode :: "bytes \<Rightarrow> error + BatchResult" where
  "BatchResult_decode = rrun (rbind BatchResult_body (\<lambda>v. rbind dec_finish (\<lambda>_. rlift (ebind (BatchResult_encode v) (\<lambda>_. Inr v)))))"

section \<open>One encoding each\<close>

lemma zero_bytes_iff: "length x = 3 \<and> x = [0, 0, 0] \<longleftrightarrow> x = [0, 0, 0 :: u8]"
  by auto

definition kv_EntryRecord_ok :: "kv_EntryRecord \<Rightarrow> bool" where
  "kv_EntryRecord_ok v \<longleftrightarrow> length (er_content_hash v) = 32 \<and> fits_i 64 (er_modified_unix_ns v)"

fun Precondition_ok :: "Precondition \<Rightarrow> bool" where
  "Precondition_ok (HashIs hash) \<longleftrightarrow> length hash = 32"
| "Precondition_ok (HashAndRevision hash _) \<longleftrightarrow> length hash = 32"
| "Precondition_ok _ \<longleftrightarrow> True"

lemma kv_Open_decode_iff: "kv_Open_decode b = Inr v \<longleftrightarrow> kv_Open_encode v = Inr b"
  by (cases v) (auto simp: kv_Open_decode_def kv_Open_body_def kv_Open_encode_def rd_iff enc_iff)

lemma kv_OpenResult_decode_iff: "kv_OpenResult_decode b = Inr v \<longleftrightarrow> kv_OpenResult_encode v = Inr b"
  by (cases v) (auto simp: kv_OpenResult_decode_def kv_OpenResult_body_def kv_OpenResult_encode_def rd_iff enc_iff)

lemma kv_Close_decode_iff: "kv_Close_decode b = Inr v \<longleftrightarrow> kv_Close_encode v = Inr b"
  by (cases v) (auto simp: kv_Close_decode_def kv_Close_body_def kv_Close_encode_def rd_iff enc_iff)

lemma kv_Watch_decode_iff: "kv_Watch_decode b = Inr v \<longleftrightarrow> Watch_ok (kw_state v) \<and> kv_Watch_encode v = Inr b"
  by (cases v) (auto simp: kv_Watch_decode_def kv_Watch_body_def kv_Watch_encode_def Watch_decode_iff rd_iff enc_iff)

lemma kv_EntryRecord_decode_iff: "kv_EntryRecord_decode b = Inr v \<longleftrightarrow> kv_EntryRecord_ok v \<and> kv_EntryRecord_encode v = Inr b"
  by (cases v; cases "er_inline_value v")
    (auto simp: kv_EntryRecord_decode_def kv_EntryRecord_body_def kv_EntryRecord_encode_def kv_EntryRecord_ok_def CONTENT_NONE_def CONTENT_INLINE_def
      array_32_field.fget_iff rd_iff enc_iff)

lemma kv_Get_decode_iff: "kv_Get_decode b = Inr v \<longleftrightarrow> kv_Get_encode v = Inr b"
  by (cases v) (auto simp: kv_Get_decode_def kv_Get_body_def kv_Get_encode_def rd_iff enc_iff)

lemma kv_GetResult_decode_iff: "kv_GetResult_decode b = Inr v \<longleftrightarrow> InlineOrTransfer_ok (gr_value v) \<and> kv_GetResult_encode v = Inr b"
proof -
  have "kv_GetResult_validate v = Inr () \<Longrightarrow> Delivery_ok (gr_value v) = InlineOrTransfer_ok (gr_value v)"
    by (auto simp: kv_GetResult_validate_def kv_validate_value_transfer_def Delivery_ok_def SENDER_TO_RECEIVER_def Direction_nonempty_def Let_def enc_iff
        split: if_splits Delivery.splits)
  then show ?thesis
    by (cases v) (auto simp: kv_GetResult_decode_def kv_GetResult_body_def kv_GetResult_encode_def InlineOrTransfer_decode_iff rd_iff enc_iff)
qed

lemma kv_StageValue_decode_iff: "kv_StageValue_decode b = Inr v \<longleftrightarrow> length (sv_content_hash v) = 32 \<and> kv_StageValue_encode v = Inr b"
  by (cases v) (auto simp: kv_StageValue_decode_def kv_StageValue_body_def kv_StageValue_encode_def array_32_field.fget_iff rd_iff enc_iff)

lemma Precondition_decode_from_iff:
  "Precondition_decode_from b = Inr (x, r) \<longleftrightarrow> Precondition_ok x \<and> (\<exists>p. Precondition_encode x = Inr p \<and> b = p @ r)"
  by (cases x) (auto simp: Precondition_decode_from_def Precondition_encode_def Precondition_kind_def array_32_field.fget_iff rd_iff enc_iff)

lemma ValueSource_decode_from_iff: "ValueSource_decode_from b = Inr (x, r) \<longleftrightarrow> (\<exists>p. ValueSource_encode x = Inr p \<and> b = p @ r)"
  by (cases x) (auto simp: ValueSource_decode_from_def VALUE_INLINE_def VALUE_STAGED_def rd_iff enc_iff)

interpretation Precondition_item: wire_item Precondition_ok Precondition_encode Precondition_decode_from
  by unfold_locales (rule Precondition_decode_from_iff)

interpretation ValueSource_item: wire_item "\<lambda>_. True" ValueSource_encode ValueSource_decode_from
  by unfold_locales (simp add: ValueSource_decode_from_iff)

lemma dec_durable_iff [rd_iff]: "dec_durable ctxt b = Inr (durable, r) \<longleftrightarrow> b = put_durable durable @ r"
  by (auto simp: dec_durable_def put_durable_def MUTATION_DURABLE_def word_flag_iff rd_iff)

lemma dec_durable_stable [rd_stable]: "stable (dec_durable ctxt)"
  unfolding dec_durable_def by (intro rd_stable)

lemma Status_eq_iff: "s = Status_from_code c \<longleftrightarrow> Status_named s \<and> c = Status_code s"
  using Status_from_code_iff by metis

lemma kv_StageValueResult_decode_iff:
  "kv_StageValueResult_decode b = Inr v \<longleftrightarrow> length (sr_content_hash v) = 32 \<and> kv_StageValueResult_encode v = Inr b"
proof -
  have "kv_StageValueResult_validate v = Inr () \<Longrightarrow> Direction_nonempty (td_direction (sr_transfer v))"
    by (auto simp: kv_StageValueResult_validate_def kv_validate_value_transfer_def Let_def RECEIVER_TO_SENDER_def Direction_nonempty_def enc_iff split: if_splits)
  then show ?thesis
    by (cases v) (auto simp: kv_StageValueResult_decode_def kv_StageValueResult_body_def kv_StageValueResult_encode_def Descriptor_decode_iff
        array_32_field.fget_iff rd_iff enc_iff)
qed

definition kv_Put_ok :: "kv_Put \<Rightarrow> bool" where
  "kv_Put_ok v \<longleftrightarrow> length (pu_operation_id v) = 16 \<and> Precondition_ok (pu_precondition v)"

definition kv_Delete_ok :: "kv_Delete \<Rightarrow> bool" where
  "kv_Delete_ok v \<longleftrightarrow> length (de_operation_id v) = 16 \<and> Precondition_ok (de_precondition v)"

fun Mutation_ok :: "Mutation \<Rightarrow> bool" where
  "Mutation_ok (MutPut _ precondition _ _) \<longleftrightarrow> Precondition_ok precondition"
| "Mutation_ok (MutDelete _ precondition _) \<longleftrightarrow> Precondition_ok precondition"

text \<open>The fixed sizes of a result, and a result whose status is not \<^verbatim>\<open>Unknown\<close> of a code that has a name.\<close>

definition MutationResult_sized :: "MutationResult \<Rightarrow> bool" where
  "MutationResult_sized v \<longleftrightarrow> fits_i 64 (mu_modified_unix_ns v) \<and> length (mu_content_hash v) = 32"

definition MutationResult_ok :: "MutationResult \<Rightarrow> bool" where
  "MutationResult_ok v \<longleftrightarrow> MutationResult_sized v \<and> Status_named (mu_status v)"

definition Batch_ok :: "Batch \<Rightarrow> bool" where
  "Batch_ok v \<longleftrightarrow> length (ba_operation_id v) = 16 \<and> list_all Mutation_ok (ba_mutations v)"

lemma kv_Put_decode_iff: "kv_Put_decode b = Inr v \<longleftrightarrow> kv_Put_ok v \<and> kv_Put_encode v = Inr b"
  by (cases v) (auto simp: kv_Put_decode_def kv_Put_body_def kv_Put_encode_def kv_Put_ok_def Precondition_decode_from_iff
      ValueSource_decode_from_iff array_16_field.fget_iff rd_iff enc_iff)

lemma kv_Delete_decode_iff: "kv_Delete_decode b = Inr v \<longleftrightarrow> kv_Delete_ok v \<and> kv_Delete_encode v = Inr b"
  by (cases v) (auto simp: kv_Delete_decode_def kv_Delete_body_def kv_Delete_encode_def kv_Delete_ok_def Precondition_decode_from_iff
      array_16_field.fget_iff rd_iff enc_iff)

lemma Mutation_decode_iff: "Mutation_decode b = Inr v \<longleftrightarrow> Mutation_ok v \<and> Mutation_encode v = Inr b"
  by (cases v) (auto simp: Mutation_decode_def Mutation_body_def Mutation_encode_def MUTATION_PUT_def MUTATION_DELETE_def Precondition_decode_from_iff
      ValueSource_decode_from_iff rd_iff enc_iff)

lemma MutationResult_decode_iff: "MutationResult_decode b = Inr v \<longleftrightarrow> MutationResult_ok v \<and> MutationResult_encode v = Inr b"
  by (cases v) (auto simp: MutationResult_decode_def MutationResult_body_def MutationResult_encode_def MutationResult_ok_def MutationResult_sized_def Status_eq_iff
      array_32_field.fget_iff rd_iff enc_iff)

lemma get_item_iff:
  assumes "\<And>b v. dec b = Inr v \<longleftrightarrow> ok v \<and> enc v = Inr b"
  shows "get_item dec b = Inr (v, r) \<longleftrightarrow> ok v \<and> (\<exists>p. put_item enc v = Inr p \<and> b = p @ r)"
  by (auto simp: get_item_def put_item_def assms rd_iff enc_iff)

interpretation Mutation_item: wire_item Mutation_ok "put_item Mutation_encode" "get_item Mutation_decode"
  by unfold_locales (rule get_item_iff[OF Mutation_decode_iff])

interpretation MutationResult_item: wire_item MutationResult_ok "put_item MutationResult_encode" "get_item MutationResult_decode"
  by unfold_locales (rule get_item_iff[OF MutationResult_decode_iff])

lemma unat_batch_count: "n \<le> MAX_BATCH_ITEMS \<Longrightarrow> unat (of_nat n :: u16) = n"
  by (simp add: MAX_BATCH_ITEMS_def unat_of_nat)

lemma Batch_decode_iff: "Batch_decode b = Inr v \<longleftrightarrow> Batch_ok v \<and> Batch_encode v = Inr b"
  by (cases v) (auto simp: Batch_decode_def Batch_body_def Batch_encode_def Batch_ok_def Mutation_item.rrepeat_get_iff
      array_16_field.fget_iff unat_batch_count unat_u16_count not_less rd_iff enc_iff)

lemma BatchResult_decode_iff: "BatchResult_decode b = Inr v \<longleftrightarrow> list_all MutationResult_ok (br_results v) \<and> BatchResult_encode v = Inr b"
  by (cases v) (auto simp: BatchResult_decode_def BatchResult_body_def BatchResult_encode_def MutationResult_item.rrepeat_get_iff
      unat_batch_count unat_u16_count not_less rd_iff enc_iff)

text \<open>Readers that are stable, for the payloads that mark their own end.\<close>

lemmas item_stable [rd_stable] = Precondition_item.get_stable ValueSource_item.get_stable Mutation_item.get_stable MutationResult_item.get_stable

lemma kv_bodies_stable:
  "stable kv_Open_body" "stable kv_OpenResult_body" "stable kv_Close_body" "stable kv_Watch_body" "stable kv_EntryRecord_body" "stable kv_Get_body"
  "stable kv_StageValue_body" "stable kv_Put_body" "stable kv_Delete_body" "stable Mutation_body" "stable MutationResult_body" "stable Batch_body"
  "stable BatchResult_body"
  unfolding kv_Open_body_def kv_OpenResult_body_def kv_Close_body_def kv_Watch_body_def kv_EntryRecord_body_def kv_Get_body_def kv_StageValue_body_def
    kv_Put_body_def kv_Delete_body_def Mutation_body_def MutationResult_body_def Batch_body_def BatchResult_body_def
  by (intro rd_stable)+

interpretation kv_Open_codec: self_delimiting_codec "\<lambda>_. True" kv_Open_encode kv_Open_decode
  by unfold_locales (simp add: kv_Open_decode_iff, rule framed_not_ok[OF kv_Open_decode_def kv_bodies_stable(1)])

interpretation kv_OpenResult_codec: self_delimiting_codec "\<lambda>_. True" kv_OpenResult_encode kv_OpenResult_decode
  by unfold_locales (simp add: kv_OpenResult_decode_iff, rule framed_not_ok[OF kv_OpenResult_decode_def kv_bodies_stable(2)])

interpretation kv_Close_codec: self_delimiting_codec "\<lambda>_. True" kv_Close_encode kv_Close_decode
  by unfold_locales (simp add: kv_Close_decode_iff, rule framed_not_ok[OF kv_Close_decode_def kv_bodies_stable(3)])

interpretation kv_Watch_codec: self_delimiting_codec "\<lambda>v. Watch_ok (kw_state v)" kv_Watch_encode kv_Watch_decode
  by unfold_locales (rule kv_Watch_decode_iff, rule framed_not_ok[OF kv_Watch_decode_def kv_bodies_stable(4)])

interpretation kv_EntryRecord_codec: self_delimiting_codec kv_EntryRecord_ok kv_EntryRecord_encode kv_EntryRecord_decode
  by unfold_locales (rule kv_EntryRecord_decode_iff, rule framed_not_ok[OF kv_EntryRecord_decode_def kv_bodies_stable(5)])

interpretation kv_Get_codec: self_delimiting_codec "\<lambda>_. True" kv_Get_encode kv_Get_decode
  by unfold_locales (simp add: kv_Get_decode_iff, rule framed_not_ok[OF kv_Get_decode_def kv_bodies_stable(6)])

interpretation kv_GetResult_codec: canonical_codec "\<lambda>v. InlineOrTransfer_ok (gr_value v)" kv_GetResult_encode kv_GetResult_decode
  by unfold_locales (rule kv_GetResult_decode_iff)

interpretation kv_StageValue_codec: self_delimiting_codec "\<lambda>v. length (sv_content_hash v) = 32" kv_StageValue_encode kv_StageValue_decode
  by unfold_locales (rule kv_StageValue_decode_iff, rule framed_not_ok[OF kv_StageValue_decode_def kv_bodies_stable(7)])

interpretation kv_StageValueResult_codec: canonical_codec "\<lambda>v. length (sr_content_hash v) = 32" kv_StageValueResult_encode kv_StageValueResult_decode
  by unfold_locales (rule kv_StageValueResult_decode_iff)

interpretation kv_Put_codec: self_delimiting_codec kv_Put_ok kv_Put_encode kv_Put_decode
  by unfold_locales (rule kv_Put_decode_iff, rule framed_not_ok[OF kv_Put_decode_def kv_bodies_stable(8)])

interpretation kv_Delete_codec: self_delimiting_codec kv_Delete_ok kv_Delete_encode kv_Delete_decode
  by unfold_locales (rule kv_Delete_decode_iff, rule framed_not_ok[OF kv_Delete_decode_def kv_bodies_stable(9)])

interpretation Mutation_codec: self_delimiting_codec Mutation_ok Mutation_encode Mutation_decode
  by unfold_locales (rule Mutation_decode_iff, rule framed_not_ok[OF Mutation_decode_def kv_bodies_stable(10)])

interpretation MutationResult_codec: self_delimiting_codec MutationResult_ok MutationResult_encode MutationResult_decode
  by unfold_locales (rule MutationResult_decode_iff, rule framed_not_ok[OF MutationResult_decode_def kv_bodies_stable(11)])

interpretation Batch_codec: self_delimiting_codec Batch_ok Batch_encode Batch_decode
  by unfold_locales (rule Batch_decode_iff, rule framed_not_ok[OF Batch_decode_def kv_bodies_stable(12)])

interpretation BatchResult_codec: self_delimiting_codec "\<lambda>v. list_all MutationResult_ok (br_results v)" BatchResult_encode BatchResult_decode
  by unfold_locales (rule BatchResult_decode_iff, rule framed_not_ok[OF BatchResult_decode_def kv_bodies_stable(13)])

lemma state_record_round_trip:
  "kv_EntryRecord_state_record v kind = Inr r \<Longrightarrow> kv_EntryRecord_ok v \<Longrightarrow> kv_entry_from_state_record r = Inr v"
  by (auto simp: kv_EntryRecord_state_record_def kv_entry_from_state_record_def kv_EntryRecord_decode_iff enc_iff)

lemma removed_record_round_trip:
  "kv_RemovedEntry_from_state_record r = Inr v \<longleftrightarrow> kv_RemovedEntry_state_record v = Inr (r\<lparr>r_required := False\<rparr>)"
  by (cases v; cases r) (auto simp: kv_RemovedEntry_from_state_record_def kv_RemovedEntry_state_record_def rd_iff enc_iff)

text \<open>
  What the decoder makes of a result the encoder wrote: the status is read from its code, and what is then a success without a revision is refused.
\<close>

definition reread :: "MutationResult \<Rightarrow> MutationResult" where
  "reread v = v\<lparr>mu_status := Status_from_code (Status_code (mu_status v))\<rparr>"

lemma reread_encode: "MutationResult_encode v = Inr b \<Longrightarrow> MutationResult_validate (reread v) = Inr () \<Longrightarrow> MutationResult_encode (reread v) = Inr b"
  by (auto simp: MutationResult_encode_def reread_def enc_iff)

lemma reread_same:
  assumes "MutationResult_encode v = Inr b" "MutationResult_sized v" "MutationResult_decode b = Inr w"
  shows "w = reread v"
proof -
  obtain tail where tail: "Extensions_encode_tail (mu_extensions v) = Inr tail"
    and b: "b = put_u16 (Status_code (mu_status v)) @ put_u16 0 @ put_u64 (mu_modification_revision v) @ put_i64 (mu_modified_unix_ns v)
            @ mu_content_hash v @ put_u64 (mu_byte_len v) @ tail"
    using assms(1) by (auto simp: MutationResult_encode_def enc_iff)
  have "MutationResult_body b = Inr (reread v, [])"
    using tail assms(2) unfolding MutationResult_body_def b reread_def
    by (cases v) (auto simp: MutationResult_sized_def array_32_field.fget_iff rd_iff enc_iff)
  moreover have "MutationResult_body b = Inr (w, [])"
    using assms(3) by (auto simp: MutationResult_decode_def rd_iff enc_iff)
  ultimately show ?thesis
    by simp
qed

lemma MutationResult_reread:
  assumes "MutationResult_encode v = Inr b" "MutationResult_sized v"
  shows "case MutationResult_validate (reread v) of Inr _ \<Rightarrow> MutationResult_decode b = Inr (reread v) | Inl _ \<Rightarrow> \<exists>e. MutationResult_decode b = Inl e"
proof (cases "MutationResult_validate (reread v)")
  case (Inl e)
  have "MutationResult_decode b \<noteq> Inr w" for w
    using reread_same [OF assms, of w] Inl by (auto simp: MutationResult_decode_iff MutationResult_encode_def enc_iff)
  then show ?thesis
    using Inl by (cases "MutationResult_decode b") auto
next
  case (Inr x)
  then show ?thesis
    using reread_encode [OF assms(1)] assms(2)
    by (simp add: MutationResult_decode_iff MutationResult_ok_def MutationResult_sized_def) (simp add: reread_def)
qed

text \<open>
  C39: each payload of the key-value family has one encoding.  A decoder accepts exactly the bytes its encoder writes for a value of its type: requests to open, close and watch a namespace, to
  read, stage, put, delete and apply a batch, the mutations of a batch, and the results.  The conditions are the sizes of the fixed arrays and of the signed integer.  Results of mutations are the exception:
  the encoder also writes \<^verbatim>\<open>Unknown\<close> of a code that has a name.  Whatever status it wrote, the decoder reads the status of that code, and refuses the result when it is
  a success with revision 0; what it accepts has a status by its name.
\<close>

theorem kv_payloads_canonical:
  "(kv_Open_decode b = Inr o1 \<longleftrightarrow> kv_Open_encode o1 = Inr b) \<and>
   (kv_OpenResult_decode b = Inr o2 \<longleftrightarrow> kv_OpenResult_encode o2 = Inr b) \<and>
   (kv_Close_decode b = Inr cl \<longleftrightarrow> kv_Close_encode cl = Inr b) \<and>
   (kv_Watch_decode b = Inr w \<longleftrightarrow> Watch_ok (kw_state w) \<and> kv_Watch_encode w = Inr b) \<and>
   (kv_EntryRecord_decode b = Inr e \<longleftrightarrow> kv_EntryRecord_ok e \<and> kv_EntryRecord_encode e = Inr b) \<and>
   (kv_Get_decode b = Inr g \<longleftrightarrow> kv_Get_encode g = Inr b) \<and>
   (kv_GetResult_decode b = Inr gr \<longleftrightarrow> InlineOrTransfer_ok (gr_value gr) \<and> kv_GetResult_encode gr = Inr b) \<and>
   (kv_StageValue_decode b = Inr s \<longleftrightarrow> length (sv_content_hash s) = 32 \<and> kv_StageValue_encode s = Inr b) \<and>
   (kv_StageValueResult_decode b = Inr sr \<longleftrightarrow> length (sr_content_hash sr) = 32 \<and> kv_StageValueResult_encode sr = Inr b) \<and>
   (kv_Put_decode b = Inr p \<longleftrightarrow> kv_Put_ok p \<and> kv_Put_encode p = Inr b) \<and>
   (kv_Delete_decode b = Inr d \<longleftrightarrow> kv_Delete_ok d \<and> kv_Delete_encode d = Inr b) \<and>
   (Mutation_decode b = Inr m \<longleftrightarrow> Mutation_ok m \<and> Mutation_encode m = Inr b) \<and>
   (Batch_decode b = Inr ba \<longleftrightarrow> Batch_ok ba \<and> Batch_encode ba = Inr b) \<and>
   (MutationResult_decode b = Inr r \<longleftrightarrow> MutationResult_sized r \<and> Status_named (mu_status r) \<and> MutationResult_encode r = Inr b) \<and>
   (MutationResult_sized r \<and> MutationResult_encode r = Inr b \<longrightarrow>
      (case MutationResult_validate (reread r) of Inr _ \<Rightarrow> MutationResult_decode b = Inr (reread r) | Inl _ \<Rightarrow> \<exists>e. MutationResult_decode b = Inl e)) \<and>
   (BatchResult_decode b = Inr br \<longleftrightarrow>
      list_all (\<lambda>r. MutationResult_sized r \<and> Status_named (mu_status r)) (br_results br) \<and> BatchResult_encode br = Inr b)"
proof -
  have ok: "MutationResult_ok = (\<lambda>r. MutationResult_sized r \<and> Status_named (mu_status r))"
    by (simp add: MutationResult_ok_def fun_eq_iff)
  show ?thesis
    using MutationResult_reread [of r b] unfolding ok [symmetric]
    by (simp add: kv_Open_decode_iff kv_OpenResult_decode_iff kv_Close_decode_iff kv_Watch_decode_iff kv_EntryRecord_decode_iff kv_Get_decode_iff
        kv_GetResult_decode_iff kv_StageValue_decode_iff kv_StageValueResult_decode_iff kv_Put_decode_iff kv_Delete_decode_iff Mutation_decode_iff
        Batch_decode_iff MutationResult_decode_iff BatchResult_decode_iff MutationResult_ok_def)
qed

text \<open>A result with the status \<^verbatim>\<open>Unknown(0)\<close> and no revision is written, and refused by the decoder, which reads a success.\<close>

definition unknown_result :: MutationResult where
  "unknown_result = \<lparr>mu_status = StUnknown 0, mu_modification_revision = 0, mu_modified_unix_ns = 0, mu_content_hash = replicate 32 0, mu_byte_len = 0,
     mu_extensions = []\<rparr>"

theorem kv_payloads_canonical_witness:
  "\<exists>b e. MutationResult_encode unknown_result = Inr b \<and> MutationResult_decode b = Inl e"
proof -
  have "\<exists>b. MutationResult_encode unknown_result = Inr b"
    by (simp add: unknown_result_def MutationResult_encode_def MutationResult_validate_def KV_MAX_VALUE_BYTES_def Status_is_ok_def kv_reject_unknown_required_def
        Extensions_encode_tail_def Extensions_encode_entries_def Extensions_validate_def put_len_u32_def)
  then obtain b where b: "MutationResult_encode unknown_result = Inr b"
    by blast
  have "MutationResult_sized unknown_result"
    by (simp add: unknown_result_def MutationResult_sized_def fits_i_def)
  moreover have "MutationResult_validate (reread unknown_result) = Inl (Invalid ''zero successful KV mutation revision'')"
    by (simp add: unknown_result_def reread_def MutationResult_validate_def KV_MAX_VALUE_BYTES_def Status_is_ok_def Status_from_code_def)
  ultimately show ?thesis
    using kv_payloads_canonical [where b = b and r = unknown_result] b by auto
qed

end
