(* ===== verification/Session_Credit.thy ===== *)
theory Session_Credit
  imports Yas_Prelude
begin

text \<open>
  The credit of a session (\<^verbatim>\<open>crates/server/src/yas.rs\<close>): the aggregate budget that its transfers and catalogue streams share, the leases on it and the flow control of one
  stream, as the task of the session uses them while no other task does: a compare-exchange loop is its iteration that succeeds, and a lease is the number of bytes it holds.  \<^verbatim>\<open>Credit_Tasks\<close> has
  the operations that run in several tasks at once, one atomic access at a time.
\<close>

text \<open>\<^verbatim>\<open>saturating_sub\<close>.\<close>

definition saturating_sub :: "'a::len word \<Rightarrow> 'a word \<Rightarrow> 'a word" where
  "saturating_sub a b = (if b \<le> a then a - b else 0)"

lemma unat_saturating_sub [simp]: "unat (saturating_sub a b) = unat a - unat b"
  by (simp add: saturating_sub_def unat_sub word_le_nat_alt)

section \<open>Budgets and leases\<close>

record CreditBudget =
  cb_maximum :: u64
  cb_reserved :: u64

definition CreditBudget_new :: "u64 \<Rightarrow> CreditBudget" where
  "CreditBudget_new maximum = \<lparr>cb_maximum = maximum, cb_reserved = 0\<rparr>"

definition CreditBudget_reserve_keeping :: "u64 \<Rightarrow> u64 \<Rightarrow> CreditBudget \<Rightarrow> u64 \<times> CreditBudget" where
  "CreditBudget_reserve_keeping requested keep b =
     (let available = saturating_sub (saturating_sub (cb_maximum b) (cb_reserved b)) keep;
          allocated = min requested available
      in if allocated = 0 then (0, b) else (allocated, b\<lparr>cb_reserved := cb_reserved b + allocated\<rparr>))"

definition CreditBudget_reserve :: "u64 \<Rightarrow> CreditBudget \<Rightarrow> u64 \<times> CreditBudget" where
  "CreditBudget_reserve requested b = CreditBudget_reserve_keeping requested 0 b"

definition CreditBudget_try_reserve_exact :: "u64 \<Rightarrow> CreditBudget \<Rightarrow> CreditBudget option" where
  "CreditBudget_try_reserve_exact requested b =
     (if saturating_sub (cb_maximum b) (cb_reserved b) < requested then None
      else Some (b\<lparr>cb_reserved := cb_reserved b + requested\<rparr>))"

definition CreditBudget_try_lease_exact :: "u64 \<Rightarrow> CreditBudget \<Rightarrow> (u64 \<times> CreditBudget) option" where
  "CreditBudget_try_lease_exact requested b =
     (if cb_maximum b < requested then None
      else case CreditBudget_try_reserve_exact requested b of None \<Rightarrow> None | Some b' \<Rightarrow> Some (requested, b'))"

definition CreditBudget_release :: "u64 \<Rightarrow> CreditBudget \<Rightarrow> CreditBudget" where
  "CreditBudget_release bs b = (if bs = 0 then b else b\<lparr>cb_reserved := cb_reserved b - bs\<rparr>)"

text \<open>Both leases are on the budget of the session.\<close>

definition CreditLease_transfer_to :: "u64 \<Rightarrow> u64 \<Rightarrow> u64 \<Rightarrow> (u64 \<times> u64) option" where
  "CreditLease_transfer_to bs lease retained =
     (if bs = 0 then Some (lease, retained) else if lease < bs then None else Some (lease - bs, retained + bs))"

section \<open>Flow control\<close>

record FlowControl =
  fc_limit :: u64
  fc_requested_limit :: u64
  fc_sent :: u64
  fc_lease :: u64
  fc_cancelled :: bool

definition FlowControl_new :: "u64 \<Rightarrow> CreditBudget \<Rightarrow> FlowControl \<times> CreditBudget" where
  "FlowControl_new requested b =
     (case CreditBudget_reserve requested b of (lease, b') \<Rightarrow>
        (\<lparr>fc_limit = lease, fc_requested_limit = lease, fc_sent = 0, fc_lease = lease, fc_cancelled = False\<rparr>, b'))"

definition FlowControl_cancel :: "FlowControl \<Rightarrow> CreditBudget \<Rightarrow> FlowControl \<times> CreditBudget" where
  "FlowControl_cancel f b = (f\<lparr>fc_cancelled := True, fc_lease := 0\<rparr>, CreditBudget_release (fc_lease f) b)"

section \<open>Accounts\<close>

text \<open>\<open>n\<close> bytes of the budget are in leases.\<close>

definition holds :: "CreditBudget \<Rightarrow> nat \<Rightarrow> bool" where
  "holds b n \<longleftrightarrow> unat (cb_reserved b) = n \<and> n \<le> unat (cb_maximum b)"

lemma unat_plus_bounded: "unat a + unat b \<le> unat c \<Longrightarrow> unat (a + b) = unat a + unat b" for a b c :: "'a::len word"
  using unsigned_less [of c, where ?'a = nat] by (simp add: unat_add_lem [symmetric] del: unsigned_less)

lemma word_facts: "unat (min a b) = min (unat a) (unat b)" "unat (max a b) = max (unat a) (unat b)" "(a = b) \<longleftrightarrow> unat a = unat b" for a b :: "'a::len word"
  by (auto simp: min_def max_def word_le_nat_alt word_unat_eq_iff)

lemma reserve_holds:
  assumes "CreditBudget_reserve_keeping requested keep b = (lease, b')" "holds b n"
  shows "holds b' (n + unat lease)" "cb_maximum b' = cb_maximum b"
    "unat lease = min (unat requested) (unat (cb_maximum b) - n - unat keep)"
proof -
  have bound: "unat lease = min (unat requested) (unat (cb_maximum b) - n - unat keep)"
    using assms by (auto simp: CreditBudget_reserve_keeping_def Let_def word_facts(1,3) holds_def split: if_splits)
  then have "unat (cb_reserved b) + unat lease \<le> unat (cb_maximum b)"
    using assms(2) by (auto simp: holds_def)
  then show "holds b' (n + unat lease)" "cb_maximum b' = cb_maximum b"
    using assms by (auto simp: CreditBudget_reserve_keeping_def Let_def holds_def unat_plus_bounded split: if_splits)
  show "unat lease = min (unat requested) (unat (cb_maximum b) - n - unat keep)"
    by (rule bound)
qed

lemma reserve_exact_holds:
  assumes "CreditBudget_try_lease_exact requested b = Some (lease, b')" "holds b n"
  shows "holds b' (n + unat lease)" "lease = requested" "cb_maximum b' = cb_maximum b"
  using assms unat_plus_bounded [of "cb_reserved b" requested "cb_maximum b"]
  by (auto simp: CreditBudget_try_lease_exact_def CreditBudget_try_reserve_exact_def holds_def word_less_nat_alt not_less split: if_splits option.splits)

lemma release_holds:
  assumes "holds b n" "unat bs \<le> n"
  shows "holds (CreditBudget_release bs b) (n - unat bs)" "cb_maximum (CreditBudget_release bs b) = cb_maximum b"
  using assms by (auto simp: CreditBudget_release_def holds_def unat_sub word_le_nat_alt)

end
