(* ===== verification/Credit_Tasks.thy ===== *)
theory Credit_Tasks
  imports Session_Credit
begin

text \<open>
  The flow control of the streams of a session as its tasks run it at the same time (\<^verbatim>\<open>CreditBudget\<close>, \<^verbatim>\<open>CreditLease\<close> and \<^verbatim>\<open>FlowControl\<close> of \<^verbatim>\<open>crates/server/src/yas.rs\<close>): the task of the session
  opens streams and takes what the peer grants, others wait for credit, send and record what they sent.  Each load, store or exchange of an atomic is a step of its own, and the steps of all tasks interleave in any way.
  A program counter says where in a method a task is and holds what it has loaded.  Notifications only wake tasks, which may go on at any time here.  A stream that is over stays in the list.
\<close>

section \<open>Methods, one atomic access at a time\<close>

text \<open>\<open>fails\<close> is a weak exchange that fails though the value is the expected one.  \<open>reserve_step\<close> is \<^verbatim>\<open>reserve_keeping\<close> with nothing to keep, as \<^verbatim>\<open>reserve\<close> calls it.\<close>

datatype reserve_pc = ReserveLoad | ReserveExchange u64

fun reserve_step :: "bool \<Rightarrow> u64 \<Rightarrow> reserve_pc \<Rightarrow> CreditBudget \<Rightarrow> (reserve_pc + u64) \<times> CreditBudget" where
  "reserve_step fails requested ReserveLoad b = (Inl (ReserveExchange (cb_reserved b)), b)"
| "reserve_step fails requested (ReserveExchange current) b =
     (let allocated = min requested (saturating_sub (cb_maximum b) current) in
      if allocated = 0 then (Inr 0, b)
      else if cb_reserved b = current \<and> \<not> fails then (Inr allocated, b\<lparr>cb_reserved := current + allocated\<rparr>)
      else (Inl (ReserveExchange (cb_reserved b)), b))"

datatype grow_pc = GrowLoad | GrowReserve u64 reserve_pc | GrowAdd u64 u64

fun grow_step :: "bool \<Rightarrow> u64 \<Rightarrow> grow_pc \<Rightarrow> u64 \<Rightarrow> CreditBudget \<Rightarrow> (grow_pc + u64) \<times> u64 \<times> CreditBudget" where
  "grow_step fails requested GrowLoad lease b = (if requested \<le> lease then Inr lease else Inl (GrowReserve lease ReserveLoad), lease, b)"
| "grow_step fails requested (GrowReserve current pc) lease b =
     (case reserve_step fails (requested - current) pc b of
        (Inl pc', b') \<Rightarrow> (Inl (GrowReserve current pc'), lease, b')
      | (Inr allocated, b') \<Rightarrow> (if allocated = 0 then Inr current else Inl (GrowAdd current allocated), lease, b'))"
| "grow_step fails requested (GrowAdd current allocated) lease b = (Inr (current + allocated), lease + allocated, b)"

datatype consume_pc = ConsumeLoad | ConsumeExchange u64 | ConsumeRelease

fun consume_step :: "bool \<Rightarrow> u64 \<Rightarrow> consume_pc \<Rightarrow> u64 \<Rightarrow> CreditBudget \<Rightarrow> (consume_pc + bool) \<times> u64 \<times> CreditBudget" where
  "consume_step fails bs ConsumeLoad lease b = (if bs = 0 then Inr True else Inl (ConsumeExchange lease), lease, b)"
| "consume_step fails bs (ConsumeExchange current) lease b =
     (if current < bs then (Inr False, lease, b)
      else if lease = current \<and> \<not> fails then (Inl ConsumeRelease, current - bs, b)
      else (Inl (ConsumeExchange lease), lease, b))"
| "consume_step fails bs ConsumeRelease lease b = (Inr True, lease, CreditBudget_release bs b)"

text \<open>\<open>GrantResize\<close>, \<open>GrantShrink\<close> and \<open>GrantRelease\<close> are \<^verbatim>\<open>resize_on_grant\<close>.\<close>

datatype grant_pc = GrantCheck | GrantStore | GrantSent | GrantResize u64 | GrantShrink u64 u64 | GrantRelease u64 u64 | GrantGrow u64 grow_pc | GrantLimit u64 u64

fun grant_step :: "bool \<Rightarrow> u64 \<Rightarrow> grant_pc \<Rightarrow> FlowControl \<Rightarrow> CreditBudget \<Rightarrow> (grant_pc + bool) \<times> FlowControl \<times> CreditBudget" where
  "grant_step fails limit GrantCheck f b =
     (if limit < fc_requested_limit f then Inr False else if limit = fc_requested_limit f then Inr True else Inl GrantStore, f, b)"
| "grant_step fails limit GrantStore f b = (Inl GrantSent, f\<lparr>fc_requested_limit := limit\<rparr>, b)"
| "grant_step fails limit GrantSent f b = (Inl (GrantResize (fc_sent f)), f, b)"
| "grant_step fails limit (GrantResize sent) f b =
     (if saturating_sub limit sent < fc_lease f then Inl (GrantShrink sent (fc_lease f)) else Inl (GrantGrow sent GrowLoad), f, b)"
| "grant_step fails limit (GrantShrink sent current) f b = (Inl (GrantRelease sent current), f\<lparr>fc_lease := saturating_sub limit sent\<rparr>, b)"
| "grant_step fails limit (GrantRelease sent current) f b =
     (Inl (GrantLimit sent (saturating_sub limit sent)), f, CreditBudget_release (current - saturating_sub limit sent) b)"
| "grant_step fails limit (GrantGrow sent pc) f b =
     (case grow_step fails (saturating_sub limit sent) pc (fc_lease f) b of
        (Inl pc', lease, b') \<Rightarrow> (Inl (GrantGrow sent pc'), f\<lparr>fc_lease := lease\<rparr>, b')
      | (Inr window, lease, b') \<Rightarrow> (Inl (GrantLimit sent window), f\<lparr>fc_lease := lease\<rparr>, b'))"
| "grant_step fails limit (GrantLimit sent window) f b =
     (Inr True, f\<lparr>fc_limit := max (fc_limit f) (min (saturating_add sent window) limit)\<rparr>, b)"

datatype record_pc = RecordCheck | RecordSent | RecordConsume u64 consume_pc

fun record_sent_step :: "bool \<Rightarrow> u64 \<Rightarrow> record_pc \<Rightarrow> FlowControl \<Rightarrow> CreditBudget \<Rightarrow> (record_pc + bool) \<times> FlowControl \<times> CreditBudget" where
  "record_sent_step fails finish RecordCheck f b = (if fc_limit f < finish then Inr False else Inl RecordSent, f, b)"
| "record_sent_step fails finish RecordSent f b =
     (let previous = fc_sent f in
      (if finish < previous then Inr False else Inl (RecordConsume (finish - previous) ConsumeLoad), f\<lparr>fc_sent := max previous finish\<rparr>, b))"
| "record_sent_step fails finish (RecordConsume bs pc) f b =
     (case consume_step fails bs pc (fc_lease f) b of
        (Inl pc', lease, b') \<Rightarrow> (Inl (RecordConsume bs pc'), f\<lparr>fc_lease := lease\<rparr>, b')
      | (Inr r, lease, b') \<Rightarrow> (Inr r, f\<lparr>fc_lease := lease\<rparr>, b'))"

datatype refresh_pc = RefreshLoad | RefreshSent u64 | RefreshGrow u64 u64 grow_pc | RefreshLimit u64 u64 u64

fun refresh_step :: "bool \<Rightarrow> refresh_pc \<Rightarrow> FlowControl \<Rightarrow> CreditBudget \<Rightarrow> refresh_pc option \<times> FlowControl \<times> CreditBudget" where
  "refresh_step fails RefreshLoad f b = (Some (RefreshSent (fc_requested_limit f)), f, b)"
| "refresh_step fails (RefreshSent requested) f b = (Some (RefreshGrow requested (fc_sent f) GrowLoad), f, b)"
| "refresh_step fails (RefreshGrow requested sent pc) f b =
     (case grow_step fails (saturating_sub requested sent) pc (fc_lease f) b of
        (Inl pc', lease, b') \<Rightarrow> (Some (RefreshGrow requested sent pc'), f\<lparr>fc_lease := lease\<rparr>, b')
      | (Inr window, lease, b') \<Rightarrow> (Some (RefreshLimit requested sent window), f\<lparr>fc_lease := lease\<rparr>, b'))"
| "refresh_step fails (RefreshLimit requested sent window) f b =
     (None, f\<lparr>fc_limit := max (fc_limit f) (min (saturating_add sent window) requested)\<rparr>, b)"

datatype cancel_pc = CancelFlag | CancelSwap | CancelRelease u64

fun cancel_step :: "cancel_pc \<Rightarrow> FlowControl \<Rightarrow> CreditBudget \<Rightarrow> cancel_pc option \<times> FlowControl \<times> CreditBudget" where
  "cancel_step CancelFlag f b = (Some CancelSwap, f\<lparr>fc_cancelled := True\<rparr>, b)"
| "cancel_step CancelSwap f b = (Some (CancelRelease (fc_lease f)), f\<lparr>fc_lease := 0\<rparr>, b)"
| "cancel_step (CancelRelease bs) f b = (None, f, CreditBudget_release bs b)"

text \<open>
  What a task waits for: \<^verbatim>\<open>wait_through\<close> for the credit to send through an offset, \<^verbatim>\<open>available\<close> for room after an offset, for at most so many bytes.  The result is the offset it may send through.
  A task that finds no credit goes round again when it is woken; \<open>fails\<close> is here that the connection or the transfer is cancelled.
\<close>

datatype goal = Through u64 | RoomAfter u64 nat

fun reached :: "goal \<Rightarrow> u64 \<Rightarrow> u64 option" where
  "reached (Through finish) limit = (if finish \<le> limit then Some finish else None)"
| "reached (RoomAfter offset maximum) limit =
     (if offset < limit then Some (offset + of_nat (min (unat (limit - offset)) maximum)) else None)"

datatype wait_pc = WaitFlag | WaitRefresh refresh_pc | WaitLimit

fun wait_step :: "bool \<Rightarrow> goal \<Rightarrow> wait_pc \<Rightarrow> FlowControl \<Rightarrow> CreditBudget \<Rightarrow> (wait_pc + u64 option) \<times> FlowControl \<times> CreditBudget" where
  "wait_step fails goal WaitFlag f b = (if fc_cancelled f \<or> fails then Inr None else Inl (WaitRefresh RefreshLoad), f, b)"
| "wait_step fails goal (WaitRefresh pc) f b =
     (case refresh_step fails pc f b of (pc', f', b') \<Rightarrow> (Inl (case pc' of None \<Rightarrow> WaitLimit | Some pc' \<Rightarrow> WaitRefresh pc'), f', b'))"
| "wait_step fails goal WaitLimit f b =
     (case reached goal (fc_limit f) of Some finish \<Rightarrow> Inr (Some finish) | None \<Rightarrow> Inl WaitFlag, f, b)"

section \<open>Tasks\<close>

text \<open>
  A task that waits for credit sends what it may and records it.  The task of the session is the first; it alone takes grants.
\<close>

datatype task = Idle | Opening u64 reserve_pc | Granting nat u64 grant_pc | Awaiting nat goal wait_pc | Sending nat u64 | Recording nat u64 record_pc | Cancelling nat cancel_pc

text \<open>A stream, the end of what went on the wire, and the credit that the peer has given for it.\<close>

record credit_stream =
  so_flow :: FlowControl
  so_wire :: u64
  so_granted :: u64

record credit_tasks =
  ct_budget :: CreditBudget
  ct_streams :: "credit_stream list"
  ct_tasks :: "task list"

fun task_stream :: "task \<Rightarrow> nat option" where
  "task_stream (Granting i _ _) = Some i"
| "task_stream (Awaiting i _ _) = Some i"
| "task_stream (Sending i _) = Some i"
| "task_stream (Recording i _ _) = Some i"
| "task_stream (Cancelling i _) = Some i"
| "task_stream _ = None"

text \<open>A step of a task on its stream.\<close>

fun stream_step :: "bool \<Rightarrow> task \<Rightarrow> credit_stream \<Rightarrow> CreditBudget \<Rightarrow> task \<times> credit_stream \<times> CreditBudget" where
  "stream_step fails (Granting i limit pc) so b =
     (case grant_step fails limit pc (so_flow so) b of (r, f, b') \<Rightarrow>
        (case r of Inl pc' \<Rightarrow> Granting i limit pc' | Inr _ \<Rightarrow> Idle, so\<lparr>so_flow := f\<rparr>, b'))"
| "stream_step fails (Awaiting i goal pc) so b =
     (case wait_step fails goal pc (so_flow so) b of (r, f, b') \<Rightarrow>
        (case r of Inl pc' \<Rightarrow> Awaiting i goal pc' | Inr None \<Rightarrow> Idle | Inr (Some finish) \<Rightarrow> Sending i finish, so\<lparr>so_flow := f\<rparr>, b'))"
| "stream_step fails (Sending i finish) so b = (Recording i finish RecordCheck, so\<lparr>so_wire := max (so_wire so) finish\<rparr>, b)"
| "stream_step fails (Recording i finish pc) so b =
     (case record_sent_step fails finish pc (so_flow so) b of (r, f, b') \<Rightarrow>
        (case r of Inl pc' \<Rightarrow> Recording i finish pc' | Inr _ \<Rightarrow> Idle, so\<lparr>so_flow := f\<rparr>, b'))"
| "stream_step fails (Cancelling i pc) so b =
     (case cancel_step pc (so_flow so) b of (r, f, b') \<Rightarrow> (case r of Some pc' \<Rightarrow> Cancelling i pc' | None \<Rightarrow> Idle, so\<lparr>so_flow := f\<rparr>, b'))"
| "stream_step fails t so b = (t, so, b)"

definition new_stream :: "u64 \<Rightarrow> credit_stream" where
  "new_stream allocated =
     \<lparr>so_flow = \<lparr>fc_limit = allocated, fc_requested_limit = allocated, fc_sent = 0, fc_lease = allocated, fc_cancelled = False\<rparr>, so_wire = 0, so_granted = allocated\<rparr>"

definition task_step :: "bool \<Rightarrow> nat \<Rightarrow> credit_tasks \<Rightarrow> credit_tasks" where
  "task_step fails k T =
     (case ct_tasks T ! k of
        Opening requested pc \<Rightarrow>
          (case reserve_step fails requested pc (ct_budget T) of
             (Inl pc', b) \<Rightarrow> T\<lparr>ct_budget := b, ct_tasks := (ct_tasks T)[k := Opening requested pc']\<rparr>
           | (Inr allocated, b) \<Rightarrow>
               T\<lparr>ct_budget := b, ct_streams := ct_streams T @ [new_stream allocated], ct_tasks := (ct_tasks T)[k := Idle]\<rparr>)
      | t \<Rightarrow>
          (case task_stream t of
             None \<Rightarrow> T
           | Some i \<Rightarrow>
               (case stream_step fails t (ct_streams T ! i) (ct_budget T) of (t', so, b) \<Rightarrow>
                  T\<lparr>ct_budget := b, ct_streams := (ct_streams T)[i := so], ct_tasks := (ct_tasks T)[k := t']\<rparr>)))"

text \<open>A task is spawned; an idle one opens a stream, takes a grant, starts to send or cancels; a task takes a step.\<close>

datatype task_event = Spawns | Opens nat u64 | Grants nat u64 | Transmits nat nat goal | Cancels nat nat | Steps nat bool

definition is_idle :: "nat \<Rightarrow> credit_tasks \<Rightarrow> bool" where
  "is_idle k T \<longleftrightarrow> k < length (ct_tasks T) \<and> ct_tasks T ! k = Idle"

fun task_event_step :: "task_event \<Rightarrow> credit_tasks \<Rightarrow> credit_tasks" where
  "task_event_step Spawns T = T\<lparr>ct_tasks := ct_tasks T @ [Idle]\<rparr>"
| "task_event_step (Opens k requested) T = (if is_idle k T then T\<lparr>ct_tasks := (ct_tasks T)[k := Opening requested ReserveLoad]\<rparr> else T)"
| "task_event_step (Grants i limit) T =
     (if is_idle 0 T \<and> i < length (ct_streams T)
      then T\<lparr>ct_tasks := (ct_tasks T)[0 := Granting i limit GrantCheck],
             ct_streams := (ct_streams T)[i := (ct_streams T ! i)\<lparr>so_granted := max (so_granted (ct_streams T ! i)) limit\<rparr>]\<rparr>
      else T)"
| "task_event_step (Transmits k i goal) T =
     (if is_idle k T \<and> i < length (ct_streams T) then T\<lparr>ct_tasks := (ct_tasks T)[k := Awaiting i goal WaitFlag]\<rparr> else T)"
| "task_event_step (Cancels k i) T =
     (if is_idle k T \<and> i < length (ct_streams T) then T\<lparr>ct_tasks := (ct_tasks T)[k := Cancelling i CancelFlag]\<rparr> else T)"
| "task_event_step (Steps k fails) T = (if k < length (ct_tasks T) then task_step fails k T else T)"

definition started_tasks :: "u64 \<Rightarrow> credit_tasks" where
  "started_tasks maximum = \<lparr>ct_budget = CreditBudget_new maximum, ct_streams = [], ct_tasks = [Idle]\<rparr>"

section \<open>Accounts under interleaving\<close>

text \<open>What a task has taken from the budget and not yet put into a lease, or taken out of a lease and not yet given back.\<close>

fun grow_flight :: "grow_pc \<Rightarrow> nat" where
  "grow_flight (GrowAdd _ allocated) = unat allocated"
| "grow_flight _ = 0"

fun consume_flight :: "u64 \<Rightarrow> consume_pc \<Rightarrow> nat" where
  "consume_flight bs ConsumeRelease = unat bs"
| "consume_flight bs _ = 0"

fun in_flight :: "task \<Rightarrow> nat" where
  "in_flight (Granting _ _ (GrantGrow _ pc)) = grow_flight pc"
| "in_flight (Awaiting _ _ (WaitRefresh (RefreshGrow _ _ pc))) = grow_flight pc"
| "in_flight (Recording _ _ (RecordConsume bs pc)) = consume_flight bs pc"
| "in_flight (Cancelling _ (CancelRelease bs)) = unat bs"
| "in_flight _ = 0"

text \<open>A grant that found the lease larger than the window it is to have.\<close>

fun shrinking :: "task \<Rightarrow> bool" where
  "shrinking (Granting _ _ (GrantShrink _ _)) = True"
| "shrinking (Granting _ _ (GrantRelease _ _)) = True"
| "shrinking _ = False"

lemma holds_release: "holds b (n + unat bs) \<Longrightarrow> holds (CreditBudget_release bs b) n"
  using release_holds(1) [of b "n + unat bs" bs] by simp

lemma release_maximum [simp]: "cb_maximum (CreditBudget_release bs b) = cb_maximum b"
  by (simp add: CreditBudget_release_def)

lemma reserve_step_holds:
  assumes "reserve_step fails requested pc b = (x, b')" "holds b n"
  shows "holds b' (n + (case x of Inl _ \<Rightarrow> 0 | Inr allocated \<Rightarrow> unat allocated)) \<and> cb_maximum b' = cb_maximum b"
proof (cases pc)
  case ReserveLoad
  then show ?thesis
    using assms by auto
next
  case (ReserveExchange current)
  define allocated where "allocated = min requested (saturating_sub (cb_maximum b) current)"
  have "unat (current + allocated) = unat current + unat allocated \<and> unat current + unat allocated \<le> unat (cb_maximum b)" if "cb_reserved b = current"
    using that assms(2) unat_plus_bounded [of current allocated "cb_maximum b"] by (auto simp: allocated_def holds_def word_facts)
  then show ?thesis
    using assms ReserveExchange by (auto simp: holds_def Let_def allocated_def [symmetric] split: if_splits)
qed

lemma grow_step_holds:
  assumes "grow_step fails requested pc lease b = (x, lease', b')" "holds b (n + unat lease + grow_flight pc)"
  shows "holds b' (n + unat lease' + (case x of Inl pc' \<Rightarrow> grow_flight pc' | Inr _ \<Rightarrow> 0)) \<and> cb_maximum b' = cb_maximum b"
proof (cases pc)
  case (GrowReserve current rpc)
  obtain y b1 where step: "reserve_step fails (requested - current) rpc b = (y, b1)"
    by fastforce
  then show ?thesis
    using assms reserve_step_holds [OF step] GrowReserve by (auto split: sum.splits if_splits)
next
  case (GrowAdd current allocated)
  have "unat (lease + allocated) = unat lease + unat allocated"
    using assms(2) unat_plus_bounded [of lease allocated "cb_maximum b"] by (simp add: GrowAdd holds_def)
  then show ?thesis
    using assms by (auto simp: GrowAdd add.assoc)
qed (use assms in \<open>auto split: if_splits\<close>)

lemma consume_step_holds:
  assumes "consume_step fails bs pc lease b = (x, lease', b')" "holds b (n + unat lease + consume_flight bs pc)"
  shows "holds b' (n + unat lease' + (case x of Inl pc' \<Rightarrow> consume_flight bs pc' | Inr _ \<Rightarrow> 0)) \<and> cb_maximum b' = cb_maximum b"
proof (cases pc)
  case (ConsumeExchange current)
  then show ?thesis
    using assms by (auto simp: unat_sub word_le_nat_alt word_less_nat_alt not_less split: if_splits)
next
  case ConsumeRelease
  then show ?thesis
    using assms holds_release by auto
qed (use assms in \<open>auto split: if_splits\<close>)

abbreviation lease_of :: "credit_stream \<Rightarrow> nat" where
  "lease_of so \<equiv> unat (fc_lease (so_flow so))"

lemma grant_step_holds:
  assumes "grant_step fails limit pc f b = (r, f', b')" "holds b (n + unat (fc_lease f) + in_flight (Granting i limit pc))" "\<not> shrinking (Granting i limit pc)"
  shows "holds b' (n + unat (fc_lease f') + (case r of Inl pc' \<Rightarrow> in_flight (Granting i limit pc') | Inr _ \<Rightarrow> 0)) \<and> cb_maximum b' = cb_maximum b"
proof (cases pc)
  case (GrantGrow sent gpc)
  obtain y lease b1 where step: "grow_step fails (saturating_sub limit sent) gpc (fc_lease f) b = (y, lease, b1)"
    using prod_cases3 by blast
  then show ?thesis
    using assms grow_step_holds [OF step] GrantGrow by (auto split: sum.splits)
qed (use assms in \<open>auto split: if_splits\<close>)

lemma record_step_holds:
  assumes "record_sent_step fails finish pc f b = (r, f', b')" "holds b (n + unat (fc_lease f) + in_flight (Recording i finish pc))"
  shows "holds b' (n + unat (fc_lease f') + (case r of Inl pc' \<Rightarrow> in_flight (Recording i finish pc') | Inr _ \<Rightarrow> 0)) \<and> cb_maximum b' = cb_maximum b"
proof (cases pc)
  case (RecordConsume bs cpc)
  obtain y lease b1 where step: "consume_step fails bs cpc (fc_lease f) b = (y, lease, b1)"
    using prod_cases3 by blast
  then show ?thesis
    using assms consume_step_holds [OF step] RecordConsume by (auto split: sum.splits)
qed (use assms in \<open>auto simp: Let_def split: if_splits\<close>)

lemma wait_step_holds:
  assumes "wait_step fails goal pc f b = (r, f', b')" "holds b (n + unat (fc_lease f) + in_flight (Awaiting i goal pc))"
  shows "holds b' (n + unat (fc_lease f') + (case r of Inl pc' \<Rightarrow> in_flight (Awaiting i goal pc') | Inr _ \<Rightarrow> 0)) \<and> cb_maximum b' = cb_maximum b"
proof (cases pc)
  case (WaitRefresh rpc)
  show ?thesis
  proof (cases rpc)
    case (RefreshGrow requested sent gpc)
    obtain y lease b1 where step: "grow_step fails (saturating_sub requested sent) gpc (fc_lease f) b = (y, lease, b1)"
      using prod_cases3 by blast
    then show ?thesis
      using assms grow_step_holds [OF step] WaitRefresh RefreshGrow by (auto split: sum.splits)
  qed (use assms WaitRefresh in auto)
qed (use assms in \<open>auto split: if_splits option.splits\<close>)

lemma stream_step_holds:
  assumes "stream_step fails t so b = (t', so', b')" "holds b (n + lease_of so + in_flight t)" "\<not> shrinking t"
  shows "holds b' (n + lease_of so' + in_flight t') \<and> cb_maximum b' = cb_maximum b"
proof (cases t)
  case (Granting i limit pc)
  then show ?thesis
    using assms grant_step_holds [of fails limit pc "so_flow so" b _ _ _ n i] by (auto split: prod.splits sum.splits)
next
  case (Awaiting i goal pc)
  then show ?thesis
    using assms wait_step_holds [of fails goal pc "so_flow so" b _ _ _ n i] by (auto split: prod.splits sum.splits option.splits)
next
  case (Recording i finish pc)
  then show ?thesis
    using assms record_step_holds [of fails finish pc "so_flow so" b _ _ _ n i] by (auto split: prod.splits sum.splits)
next
  case (Cancelling i pc)
  then show ?thesis
    using assms holds_release by (cases pc) auto
qed (use assms in auto)

section \<open>Limits under interleaving\<close>

definition stream_ok :: "credit_stream \<Rightarrow> bool" where
  "stream_ok so \<longleftrightarrow> so_wire so \<le> fc_limit (so_flow so) \<and> fc_sent (so_flow so) \<le> fc_limit (so_flow so)
     \<and> fc_limit (so_flow so) \<le> fc_requested_limit (so_flow so) \<and> fc_requested_limit (so_flow so) \<le> so_granted so"

text \<open>What a task has loaded from its stream is not more than what the stream has.\<close>

fun loaded_ok :: "task \<Rightarrow> credit_stream \<Rightarrow> bool" where
  "loaded_ok (Granting _ limit GrantCheck) so \<longleftrightarrow> limit \<le> so_granted so"
| "loaded_ok (Granting _ limit GrantStore) so \<longleftrightarrow> limit \<le> so_granted so \<and> fc_requested_limit (so_flow so) \<le> limit"
| "loaded_ok (Granting _ limit _) so \<longleftrightarrow> limit \<le> fc_requested_limit (so_flow so)"
| "loaded_ok (Awaiting _ _ (WaitRefresh (RefreshSent requested))) so \<longleftrightarrow> requested \<le> fc_requested_limit (so_flow so)"
| "loaded_ok (Awaiting _ _ (WaitRefresh (RefreshGrow requested _ _))) so \<longleftrightarrow> requested \<le> fc_requested_limit (so_flow so)"
| "loaded_ok (Awaiting _ _ (WaitRefresh (RefreshLimit requested _ _))) so \<longleftrightarrow> requested \<le> fc_requested_limit (so_flow so)"
| "loaded_ok (Sending _ finish) so \<longleftrightarrow> finish \<le> fc_limit (so_flow so)"
| "loaded_ok (Recording _ finish RecordSent) so \<longleftrightarrow> finish \<le> fc_limit (so_flow so)"
| "loaded_ok _ so \<longleftrightarrow> True"

fun granting :: "task \<Rightarrow> bool" where
  "granting (Granting _ _ _) = True"
| "granting _ = False"

text \<open>How a stream changes: nothing is taken back, and only a grant changes what is asked for.\<close>

definition moves_on :: "bool \<Rightarrow> credit_stream \<Rightarrow> credit_stream \<Rightarrow> bool" where
  "moves_on grants so so' \<longleftrightarrow> fc_limit (so_flow so) \<le> fc_limit (so_flow so') \<and> fc_requested_limit (so_flow so) \<le> fc_requested_limit (so_flow so')
     \<and> so_granted so \<le> so_granted so' \<and> (grants \<or> fc_requested_limit (so_flow so') = fc_requested_limit (so_flow so))"

lemma loaded_stays:
  assumes "loaded_ok t so" "moves_on grants so so'" "\<not> (granting t \<and> grants)"
  shows "loaded_ok t so'"
  using assms by (cases "(t, so)" rule: loaded_ok.cases) (auto simp: moves_on_def)

lemma reached_within: "reached goal limit = Some finish \<Longrightarrow> finish \<le> limit"
proof (cases goal)
  case (RoomAfter offset maximum)
  assume "reached goal limit = Some finish"
  then have "offset < limit" and finish: "finish = offset + of_nat (min (unat (limit - offset)) maximum)"
    by (simp_all add: RoomAfter split: if_splits)
  then have room: "unat (limit - offset) = unat limit - unat offset" "unat offset < unat limit"
    by (simp_all add: unat_sub word_less_nat_alt word_le_nat_alt)
  define m where "m = min (unat (limit - offset)) maximum"
  have "m \<le> unat limit - unat offset"
    by (simp add: m_def room(1))
  then have "unat (of_nat m :: u64) = m" "unat offset + m \<le> unat limit"
    using room(2) unsigned_less [of limit, where ?'a = nat] by (simp_all add: unat_of_nat)
  then show ?thesis
    using unat_plus_bounded [of offset "of_nat m" limit] by (simp add: finish m_def [symmetric] word_le_nat_alt)
qed (simp split: if_splits)

lemma stream_step_ok:
  assumes "stream_step fails t so b = (t', so', b')" "loaded_ok t so" "stream_ok so"
  shows "stream_ok so' \<and> loaded_ok t' so' \<and> moves_on (granting t) so so' \<and> (t' = Idle \<or> task_stream t' = task_stream t) \<and> (granting t' \<longrightarrow> granting t)"
proof (cases t)
  case (Granting i limit pc)
  then show ?thesis
    using assms by (cases pc) (auto simp: stream_ok_def moves_on_def le_max_iff_disj min_le_iff_disj split: prod.splits sum.splits if_splits)
next
  case (Awaiting i goal pc)
  show ?thesis
  proof (cases pc)
    case (WaitRefresh rpc)
    then show ?thesis
      using assms Awaiting by (cases rpc) (auto simp: stream_ok_def moves_on_def le_max_iff_disj min_le_iff_disj split: prod.splits sum.splits)
  qed (use assms Awaiting reached_within in \<open>auto simp: stream_ok_def moves_on_def split: prod.splits sum.splits option.splits if_splits\<close>)
next
  case (Recording i finish pc)
  then show ?thesis
    using assms by (cases pc) (auto simp: stream_ok_def moves_on_def Let_def split: prod.splits sum.splits if_splits)
next
  case (Cancelling i pc)
  then show ?thesis
    using assms by (cases pc) (auto simp: stream_ok_def moves_on_def)
qed (use assms in \<open>auto simp: stream_ok_def moves_on_def\<close>)

section \<open>Runs\<close>

definition tasks_ok :: "credit_tasks \<Rightarrow> bool" where
  "tasks_ok T \<longleftrightarrow> list_all stream_ok (ct_streams T)
     \<and> (\<forall>k < length (ct_tasks T). (\<forall>i. task_stream (ct_tasks T ! k) = Some i \<longrightarrow> i < length (ct_streams T) \<and> loaded_ok (ct_tasks T ! k) (ct_streams T ! i))
          \<and> (granting (ct_tasks T ! k) \<longrightarrow> k = 0))"

definition total_credit :: "credit_tasks \<Rightarrow> nat" where
  "total_credit T = sum_list (map lease_of (ct_streams T)) + sum_list (map in_flight (ct_tasks T))"

lemma sum_at:
  fixes f :: "'a \<Rightarrow> nat"
  assumes "i < length xs"
  obtains rest where "sum_list (map f xs) = rest + f (xs ! i)" "\<And>y. sum_list (map f (xs[i := y])) = rest + f y"
proof -
  let ?rest = "sum_list (map f (take i xs)) + sum_list (map f (drop (Suc i) xs))"
  have "sum_list (map f xs) = sum_list (map f (take i xs @ xs ! i # drop (Suc i) xs))"
    using assms by (simp add: id_take_nth_drop [symmetric])
  then have "sum_list (map f xs) = ?rest + f (xs ! i)"
    by simp
  moreover have "sum_list (map f (xs[i := y])) = ?rest + f y" for y
    using assms by (simp add: upd_conv_take_nth_drop)
  ultimately show thesis
    by (rule that)
qed

lemma loaded_idle [simp]: "task_stream t = None \<Longrightarrow> in_flight t = 0 \<and> \<not> granting t"
  by (cases t) auto

text \<open>A task that starts something, or stops.\<close>

lemma replace_task_ok:
  assumes "tasks_ok T" "k < length (ct_tasks T)"
    and "\<And>i. task_stream t = Some i \<Longrightarrow> i < length (ct_streams T) \<and> loaded_ok t (ct_streams T ! i)" "granting t \<Longrightarrow> k = 0"
  shows "tasks_ok (T\<lparr>ct_budget := b, ct_tasks := (ct_tasks T)[k := t]\<rparr>)"
  using assms by (auto simp: tasks_ok_def nth_list_update)

lemma replace_task_total:
  assumes "k < length (ct_tasks T)" "in_flight (ct_tasks T ! k) = 0" "in_flight t = 0"
  shows "total_credit (T\<lparr>ct_budget := b, ct_tasks := (ct_tasks T)[k := t]\<rparr>) = total_credit T"
proof -
  obtain rest where "sum_list (map in_flight (ct_tasks T)) = rest + in_flight (ct_tasks T ! k)"
    "\<And>y. sum_list (map in_flight ((ct_tasks T)[k := y])) = rest + in_flight y"
    using sum_at [OF assms(1), of in_flight] by blast
  then show ?thesis
    using assms(2,3) by (simp add: total_credit_def)
qed

text \<open>A task that takes a step on its stream.\<close>

lemma stream_task_ok:
  assumes "tasks_ok T" "k < length (ct_tasks T)" "task_stream (ct_tasks T ! k) = Some i"
    and "stream_step fails (ct_tasks T ! k) (ct_streams T ! i) (ct_budget T) = (t', so, b)"
  shows "tasks_ok (T\<lparr>ct_budget := b, ct_streams := (ct_streams T)[i := so], ct_tasks := (ct_tasks T)[k := t']\<rparr>)"
proof -
  have i: "i < length (ct_streams T)" "loaded_ok (ct_tasks T ! k) (ct_streams T ! i)" "stream_ok (ct_streams T ! i)"
    and zero: "granting (ct_tasks T ! k) \<longrightarrow> k = 0"
    using assms(1-3) by (auto simp: tasks_ok_def list_all_length)
  note step = stream_step_ok [OF assms(4) i(2,3)]
  have others: "j < length (ct_streams T) \<and> loaded_ok (ct_tasks T ! m) ((ct_streams T)[i := so] ! j)"
    if "m < length (ct_tasks T)" "m \<noteq> k" "task_stream (ct_tasks T ! m) = Some j" for m j
  proof -
    have j: "j < length (ct_streams T)" "loaded_ok (ct_tasks T ! m) (ct_streams T ! j)" "granting (ct_tasks T ! m) \<longrightarrow> m = 0"
      using assms(1) that by (auto simp: tasks_ok_def)
    then have "\<not> (granting (ct_tasks T ! m) \<and> granting (ct_tasks T ! k))"
      using zero that(2) by auto
    then show ?thesis
      using j i(1) loaded_stays [OF j(2), of "granting (ct_tasks T ! k)" so] step by (auto simp: nth_list_update)
  qed
  have "list_all stream_ok ((ct_streams T)[i := so])"
    using assms(1) step i(1) by (auto simp: tasks_ok_def list_all_length nth_list_update)
  moreover have "granting t' \<longrightarrow> k = 0" "\<And>j. task_stream t' = Some j \<Longrightarrow> j = i"
    using step zero assms(3) by auto
  ultimately show ?thesis
    using assms(1,2) others step i(1) by (auto simp: tasks_ok_def nth_list_update)
qed

lemma stream_task_total:
  assumes "tasks_ok T" "k < length (ct_tasks T)" "task_stream (ct_tasks T ! k) = Some i" "\<not> shrinking (ct_tasks T ! k)"
    and "stream_step fails (ct_tasks T ! k) (ct_streams T ! i) (ct_budget T) = (t', so, b)" "holds (ct_budget T) (total_credit T)"
  shows "holds b (total_credit (T\<lparr>ct_budget := b, ct_streams := (ct_streams T)[i := so], ct_tasks := (ct_tasks T)[k := t']\<rparr>)) \<and> cb_maximum b = cb_maximum (ct_budget T)"
proof -
  have i: "i < length (ct_streams T)"
    using assms(1-3) by (auto simp: tasks_ok_def)
  obtain r1 where r1: "sum_list (map lease_of (ct_streams T)) = r1 + lease_of (ct_streams T ! i)"
    "\<And>y. sum_list (map lease_of ((ct_streams T)[i := y])) = r1 + lease_of y"
    using sum_at [OF i, of lease_of] by blast
  obtain r2 where r2: "sum_list (map in_flight (ct_tasks T)) = r2 + in_flight (ct_tasks T ! k)"
    "\<And>y. sum_list (map in_flight ((ct_tasks T)[k := y])) = r2 + in_flight y"
    using sum_at [OF assms(2), of in_flight] by blast
  have "holds (ct_budget T) (r1 + r2 + lease_of (ct_streams T ! i) + in_flight (ct_tasks T ! k))"
    using assms(6) by (simp add: total_credit_def r1(1) r2(1) ac_simps)
  from stream_step_holds [OF assms(5) this assms(4)] show ?thesis
    by (simp add: total_credit_def r1(2) r2(2) ac_simps)
qed

lemma task_step_stream:
  "task_stream (ct_tasks T ! k) = Some i \<Longrightarrow> task_step fails k T =
     (case stream_step fails (ct_tasks T ! k) (ct_streams T ! i) (ct_budget T) of (t', so, b) \<Rightarrow>
        T\<lparr>ct_budget := b, ct_streams := (ct_streams T)[i := so], ct_tasks := (ct_tasks T)[k := t']\<rparr>)"
  unfolding task_step_def by (cases "ct_tasks T ! k") (simp_all del: stream_step.simps)

lemma open_stream_ok:
  assumes "tasks_ok T" "k < length (ct_tasks T)"
  shows "tasks_ok (T\<lparr>ct_budget := b, ct_streams := ct_streams T @ [new_stream allocated], ct_tasks := (ct_tasks T)[k := Idle]\<rparr>)"
  using assms by (auto simp: tasks_ok_def nth_list_update nth_append new_stream_def stream_ok_def)

lemma task_step_cases:
  assumes "k < length (ct_tasks T)"
  obtains (still) "task_step fails k T = T"
    | (reserving) requested pc pc' b where "ct_tasks T ! k = Opening requested pc" "reserve_step fails requested pc (ct_budget T) = (Inl pc', b)"
        "task_step fails k T = T\<lparr>ct_budget := b, ct_tasks := (ct_tasks T)[k := Opening requested pc']\<rparr>"
    | (opened) requested pc allocated b where "ct_tasks T ! k = Opening requested pc" "reserve_step fails requested pc (ct_budget T) = (Inr allocated, b)"
        "task_step fails k T = T\<lparr>ct_budget := b, ct_streams := ct_streams T @ [new_stream allocated], ct_tasks := (ct_tasks T)[k := Idle]\<rparr>"
    | (works) i t' so b where "task_stream (ct_tasks T ! k) = Some i" "stream_step fails (ct_tasks T ! k) (ct_streams T ! i) (ct_budget T) = (t', so, b)"
        "task_step fails k T = T\<lparr>ct_budget := b, ct_streams := (ct_streams T)[i := so], ct_tasks := (ct_tasks T)[k := t']\<rparr>"
proof (cases "task_stream (ct_tasks T ! k)")
  case (Some i)
  obtain t' so b where "stream_step fails (ct_tasks T ! k) (ct_streams T ! i) (ct_budget T) = (t', so, b)"
    using prod_cases3 by blast
  then show thesis
    using works [OF Some] task_step_stream [OF Some] by simp
next
  case None
  show thesis
  proof (cases "ct_tasks T ! k")
    case (Opening requested pc)
    obtain x b where x: "reserve_step fails requested pc (ct_budget T) = (x, b)"
      by fastforce
    show thesis
    proof (cases x)
      case (Inl pc')
      then show thesis
        using reserving [OF Opening] x by (simp add: task_step_def Opening)
    next
      case (Inr allocated)
      then show thesis
        using opened [OF Opening] x by (simp add: task_step_def Opening)
    qed
  qed (use None still in \<open>simp_all add: task_step_def\<close>)
qed

lemma task_step_ok:
  assumes "tasks_ok T" "k < length (ct_tasks T)"
  shows "tasks_ok (task_step fails k T)"
  using assms(2)
proof (cases rule: task_step_cases [where fails = fails])
  case (reserving requested pc pc' b)
  then show ?thesis
    using replace_task_ok [OF assms, of "Opening requested pc'" b] by simp
next
  case (opened requested pc allocated b)
  then show ?thesis
    using open_stream_ok [OF assms] by simp
next
  case (works i t' so b)
  then show ?thesis
    using stream_task_ok [OF assms] by simp
qed (use assms in simp)

lemma task_step_total:
  assumes "tasks_ok T" "k < length (ct_tasks T)" "\<not> shrinking (ct_tasks T ! k)" "holds (ct_budget T) (total_credit T)"
  shows "holds (ct_budget (task_step fails k T)) (total_credit (task_step fails k T)) \<and> cb_maximum (ct_budget (task_step fails k T)) = cb_maximum (ct_budget T)"
  using assms(2)
proof (cases rule: task_step_cases [where fails = fails])
  case (reserving requested pc pc' b)
  then show ?thesis
    using reserve_step_holds [OF reserving(2) assms(4)] replace_task_total [OF assms(2), of "Opening requested pc'" b] by simp
next
  case (opened requested pc allocated b)
  have "total_credit (task_step fails k T) = total_credit T + unat allocated"
    using replace_task_total [OF assms(2), of Idle b] opened(1) by (simp add: opened(3) total_credit_def new_stream_def)
  then show ?thesis
    using reserve_step_holds [OF opened(2) assms(4)] by (simp add: opened(3))
next
  case (works i t' so b)
  then show ?thesis
    using stream_task_total [OF assms(1,2) works(1) assms(3) works(2) assms(4)] by simp
qed (use assms in simp)

lemma started_ok_tasks: "tasks_ok (started_tasks maximum)" "holds (ct_budget (started_tasks maximum)) (total_credit (started_tasks maximum))"
  by (simp_all add: started_tasks_def tasks_ok_def total_credit_def holds_def CreditBudget_new_def)

lemma same_budget [simp]: "T\<lparr>ct_budget := ct_budget T, ct_tasks := ts\<rparr> = T\<lparr>ct_tasks := ts\<rparr>"
  by simp

lemma grant_begins_ok:
  assumes "tasks_ok T" "is_idle 0 T" "i < length (ct_streams T)"
  shows "tasks_ok (task_event_step (Grants i limit) T)"
proof -
  let ?so = "(ct_streams T ! i)\<lparr>so_granted := max (so_granted (ct_streams T ! i)) limit\<rparr>"
  have "stream_ok (ct_streams T ! i)"
    using assms(1,3) by (simp add: tasks_ok_def list_all_length)
  then have so: "stream_ok ?so" "moves_on False (ct_streams T ! i) ?so"
    by (auto simp: stream_ok_def moves_on_def le_max_iff_disj)
  have "list_all stream_ok ((ct_streams T)[i := ?so])"
    using assms(1,3) so(1) by (simp add: tasks_ok_def list_all_length nth_list_update)
  moreover have "loaded_ok (ct_tasks T ! m) ((ct_streams T)[i := ?so] ! j)"
    if "m < length (ct_tasks T)" "task_stream (ct_tasks T ! m) = Some j" for m j
    using that assms(1,3) loaded_stays [OF _ so(2)] by (auto simp: tasks_ok_def nth_list_update)
  ultimately show ?thesis
    using assms by (auto simp: tasks_ok_def nth_list_update is_idle_def)
qed

lemma event_ok:
  assumes "tasks_ok T"
  shows "tasks_ok (task_event_step e T)"
proof (cases e)
  case Spawns
  then show ?thesis
    using assms by (auto simp: tasks_ok_def nth_append)
next
  case (Opens k requested)
  then show ?thesis
    using assms replace_task_ok [OF assms, of k "Opening requested ReserveLoad" "ct_budget T"] by (simp add: is_idle_def)
next
  case (Grants i limit)
  then show ?thesis
    using assms grant_begins_ok [OF assms] by (cases "is_idle 0 T \<and> i < length (ct_streams T)") auto
next
  case (Transmits k i goal)
  then show ?thesis
    using assms replace_task_ok [OF assms, of k "Awaiting i goal WaitFlag" "ct_budget T"] by (simp add: is_idle_def)
next
  case (Cancels k i)
  then show ?thesis
    using assms replace_task_ok [OF assms, of k "Cancelling i CancelFlag" "ct_budget T"] by (simp add: is_idle_def)
next
  case (Steps k fails)
  then show ?thesis
    using assms task_step_ok by simp
qed

lemma event_total:
  assumes "tasks_ok T" "\<forall>t \<in> set (ct_tasks T). \<not> shrinking t" "holds (ct_budget T) (total_credit T)"
  shows "holds (ct_budget (task_event_step e T)) (total_credit (task_event_step e T)) \<and> cb_maximum (ct_budget (task_event_step e T)) = cb_maximum (ct_budget T)"
proof -
  have idle: "total_credit (T\<lparr>ct_tasks := (ct_tasks T)[k := t]\<rparr>) = total_credit T" if "is_idle k T" "in_flight t = 0" for k t
    using replace_task_total [of k T t "ct_budget T"] that by (simp add: is_idle_def)
  show ?thesis
  proof (cases e)
    case (Grants i limit)
    have "total_credit (T\<lparr>ct_tasks := ts, ct_streams := (ct_streams T)[i := (ct_streams T ! i)\<lparr>so_granted := g\<rparr>]\<rparr>) = total_credit (T\<lparr>ct_tasks := ts\<rparr>)"
      if "i < length (ct_streams T)" for ts g
    proof -
      have "map lease_of ((ct_streams T)[i := (ct_streams T ! i)\<lparr>so_granted := g\<rparr>]) = map lease_of (ct_streams T)"
        using that by (simp add: map_update list_update_same_conv)
      then show ?thesis
        by (simp add: total_credit_def)
    qed
    then show ?thesis
      using Grants assms(3) idle [of 0 "Granting i limit GrantCheck"] by simp
  next
    case (Steps k fails)
    then show ?thesis
      using assms task_step_total [OF assms(1), of k fails] by simp
  qed (use assms(3) idle in \<open>simp_all add: total_credit_def\<close>)
qed

section \<open>Windows\<close>

text \<open>A recording that has moved \<^verbatim>\<open>sent\<close> and not yet taken the bytes out of the lease, and how many they are.\<close>

fun unsettled :: "task \<Rightarrow> nat" where
  "unsettled (Recording _ _ (RecordConsume bs ConsumeLoad)) = unat bs"
| "unsettled (Recording _ _ (RecordConsume bs (ConsumeExchange _))) = unat bs"
| "unsettled _ = 0"

fun widening :: "task \<Rightarrow> bool" where
  "widening (Granting _ _ _) = True"
| "widening (Awaiting _ _ _) = True"
| "widening _ = False"

text \<open>No grant shrinks a lease, and no grant or refresh of a stream runs while a recording on it is between its two accesses.\<close>

definition calm :: "credit_tasks \<Rightarrow> bool" where
  "calm T \<longleftrightarrow> list_all (\<lambda>t. \<not> shrinking t) (ct_tasks T)
     \<and> list_all (\<lambda>t. 0 < unsettled t \<longrightarrow> list_all (\<lambda>u. \<not> (widening u \<and> task_stream u = task_stream t)) (ct_tasks T)) (ct_tasks T)"

text \<open>What a task that widens a window has loaded is covered by its stream.\<close>

fun grow_covered :: "grow_pc \<Rightarrow> FlowControl \<Rightarrow> bool" where
  "grow_covered GrowLoad f \<longleftrightarrow> True"
| "grow_covered (GrowReserve current _) f \<longleftrightarrow> current \<le> fc_lease f"
| "grow_covered (GrowAdd current _) f \<longleftrightarrow> current \<le> fc_lease f"

fun covered :: "task \<Rightarrow> FlowControl \<Rightarrow> bool" where
  "covered (Granting _ _ (GrantResize sent)) f \<longleftrightarrow> sent \<le> fc_sent f"
| "covered (Granting _ _ (GrantGrow sent pc)) f \<longleftrightarrow> sent \<le> fc_sent f \<and> grow_covered pc f"
| "covered (Granting _ _ (GrantLimit sent window)) f \<longleftrightarrow> unat sent + unat window \<le> unat (fc_sent f) + unat (fc_lease f)"
| "covered (Awaiting _ _ (WaitRefresh (RefreshGrow _ sent pc))) f \<longleftrightarrow> sent \<le> fc_sent f \<and> grow_covered pc f"
| "covered (Awaiting _ _ (WaitRefresh (RefreshLimit _ sent window))) f \<longleftrightarrow> unat sent + unat window \<le> unat (fc_sent f) + unat (fc_lease f)"
| "covered (Cancelling _ CancelSwap) f \<longleftrightarrow> fc_cancelled f"
| "covered (Cancelling _ (CancelRelease _)) f \<longleftrightarrow> fc_cancelled f"
| "covered _ f \<longleftrightarrow> True"

definition loads_covered :: "task \<Rightarrow> FlowControl \<Rightarrow> bool" where
  "loads_covered t f \<longleftrightarrow> covered t f \<or> fc_cancelled f"

definition window_covered :: "nat \<Rightarrow> FlowControl \<Rightarrow> bool" where
  "window_covered pending f \<longleftrightarrow> fc_cancelled f \<or> unat (fc_limit f) + pending \<le> unat (fc_sent f) + unat (fc_lease f)"

lemma grow_covers:
  assumes "grow_step fails requested pc (fc_lease f) b = (x, lease, b')" "holds b (n + unat (fc_lease f) + grow_flight pc)" "grow_covered pc f"
  shows "fc_lease f \<le> lease \<and> (case x of Inl pc' \<Rightarrow> grow_covered pc' (f\<lparr>fc_lease := lease\<rparr>) | Inr window \<Rightarrow> window \<le> lease)"
proof (cases pc)
  case (GrowAdd current allocated)
  have "unat (fc_lease f + allocated) = unat (fc_lease f) + unat allocated" "unat (current + allocated) = unat current + unat allocated"
    using assms(2,3) unat_plus_bounded [of "fc_lease f" allocated "cb_maximum b"] unat_plus_bounded [of current allocated "cb_maximum b"]
    by (simp_all add: GrowAdd holds_def word_le_nat_alt)
  then show ?thesis
    using assms by (auto simp: GrowAdd word_le_nat_alt)
next
  case (GrowReserve current rpc)
  then show ?thesis
    using assms by (auto split: prod.splits sum.splits if_splits)
qed (use assms in \<open>auto split: if_splits\<close>)

lemma window_widens:
  assumes "window_covered 0 f" "unat sent + unat window \<le> unat (fc_sent f) + unat (fc_lease f)"
  shows "window_covered 0 (f\<lparr>fc_limit := max (fc_limit f) (min (saturating_add sent window) cap)\<rparr>)"
proof -
  have "unat (saturating_add sent window) \<le> unat sent + unat window"
    by (simp add: unat_saturating_add)
  then show ?thesis
    using assms by (auto simp: window_covered_def word_facts)
qed

lemma covered_sum: "sent \<le> fc_sent f \<Longrightarrow> window \<le> lease \<Longrightarrow> unat sent + unat window \<le> unat (fc_sent f) + unat lease" for window lease :: u64
  by (simp add: word_le_nat_alt)

lemma grant_covers:
  assumes "grant_step fails limit pc f b = (r, f', b')" "holds b (n + unat (fc_lease f) + in_flight (Granting i limit pc))" "\<not> shrinking (Granting i limit pc)"
    and "loads_covered (Granting i limit pc) f" "window_covered 0 f"
  shows "window_covered 0 f' \<and> (case r of Inl pc' \<Rightarrow> loads_covered (Granting i limit pc') f' | Inr _ \<Rightarrow> True)"
proof (cases pc)
  case (GrantGrow sent gpc)
  obtain y lease b1 where step: "grow_step fails (saturating_sub limit sent) gpc (fc_lease f) b = (y, lease, b1)"
    using prod_cases3 by blast
  have "fc_cancelled f \<or> fc_lease f \<le> lease \<and> sent \<le> fc_sent f \<and> (case y of Inl pc' \<Rightarrow> grow_covered pc' (f\<lparr>fc_lease := lease\<rparr>) | Inr window \<Rightarrow> window \<le> lease)"
    using grow_covers [OF step, of n] assms(2,4) by (auto simp: GrantGrow loads_covered_def)
  then show ?thesis
    using assms(1,5) covered_sum [of sent f _ lease] step GrantGrow
    by (auto simp: loads_covered_def window_covered_def word_le_nat_alt split: sum.splits)
next
  case (GrantLimit sent window)
  then show ?thesis
    using assms(1,4,5) window_widens by (auto simp: loads_covered_def) (simp add: window_covered_def)
qed (use assms in \<open>auto simp: loads_covered_def window_covered_def split: if_splits\<close>)

lemma wait_covers:
  assumes "wait_step fails goal pc f b = (r, f', b')" "holds b (n + unat (fc_lease f) + in_flight (Awaiting i goal pc))"
    and "loads_covered (Awaiting i goal pc) f" "window_covered 0 f"
  shows "window_covered 0 f' \<and> (case r of Inl pc' \<Rightarrow> loads_covered (Awaiting i goal pc') f' | Inr _ \<Rightarrow> True)"
proof (cases pc)
  case (WaitRefresh rpc)
  show ?thesis
  proof (cases rpc)
    case (RefreshGrow requested sent gpc)
    obtain y lease b1 where step: "grow_step fails (saturating_sub requested sent) gpc (fc_lease f) b = (y, lease, b1)"
      using prod_cases3 by blast
    have "fc_cancelled f \<or> fc_lease f \<le> lease \<and> sent \<le> fc_sent f \<and> (case y of Inl pc' \<Rightarrow> grow_covered pc' (f\<lparr>fc_lease := lease\<rparr>) | Inr window \<Rightarrow> window \<le> lease)"
      using grow_covers [OF step, of n] assms(2,3) by (auto simp: WaitRefresh RefreshGrow loads_covered_def)
    then show ?thesis
      using assms(1,4) covered_sum [of sent f _ lease] step WaitRefresh RefreshGrow
      by (auto simp: loads_covered_def window_covered_def word_le_nat_alt split: sum.splits)
  next
    case (RefreshLimit requested sent window)
    then show ?thesis
      using assms(1,3,4) window_widens WaitRefresh by (auto simp: loads_covered_def) (simp add: window_covered_def)
  qed (use assms WaitRefresh in \<open>auto simp: loads_covered_def\<close>)
qed (use assms in \<open>auto simp: loads_covered_def split: if_splits option.splits\<close>)

lemma record_covers:
  assumes "record_sent_step fails finish pc f b = (r, f', b')" "window_covered (rest + unsettled (Recording i finish pc)) f"
  shows "window_covered (rest + (case r of Inl pc' \<Rightarrow> unsettled (Recording i finish pc') | Inr _ \<Rightarrow> 0)) f'"
proof (cases pc)
  case RecordSent
  show ?thesis
  proof (cases "finish < fc_sent f")
    case False
    then have "unat (finish - fc_sent f) = unat finish - unat (fc_sent f)" "unat (fc_sent f) \<le> unat finish"
      by (simp_all add: unat_sub not_less word_le_nat_alt)
    then show ?thesis
      using assms False RecordSent by (auto simp: window_covered_def Let_def max_def not_less)
  next
    case True
    then have "max (fc_sent f) finish = fc_sent f"
      by simp
    then show ?thesis
      using assms RecordSent True by (auto simp: window_covered_def Let_def)
  qed
next
  case (RecordConsume bs cpc)
  show ?thesis
  proof (cases cpc)
    case (ConsumeExchange current)
    then show ?thesis
      using assms RecordConsume by (auto simp: window_covered_def unat_sub word_le_nat_alt word_less_nat_alt not_less split: if_splits)
  qed (use assms RecordConsume in \<open>auto simp: window_covered_def split: if_splits\<close>)
qed (use assms in \<open>auto split: if_splits\<close>)

lemma widening_settled [simp]: "widening t \<Longrightarrow> unsettled t = 0"
  by (cases t) auto

lemma stream_covers:
  assumes "stream_step fails t so b = (t', so', b')" "holds b (n + lease_of so + in_flight t)" "\<not> shrinking t"
    and "loads_covered t (so_flow so)" "window_covered (rest + unsettled t) (so_flow so)" "widening t \<Longrightarrow> rest = 0"
  shows "window_covered (rest + unsettled t') (so_flow so') \<and> loads_covered t' (so_flow so')"
proof (cases t)
  case (Granting i limit pc)
  obtain r f' b1 where step: "grant_step fails limit pc (so_flow so) b = (r, f', b1)"
    using prod_cases3 by blast
  from grant_covers [OF step, of n i] show ?thesis
    using assms Granting step by (auto simp: loads_covered_def split: sum.splits)
next
  case (Awaiting i goal pc)
  obtain r f' b1 where step: "wait_step fails goal pc (so_flow so) b = (r, f', b1)"
    using prod_cases3 by blast
  from wait_covers [OF step, of n i] show ?thesis
    using assms Awaiting step by (auto simp: loads_covered_def split: sum.splits option.splits)
next
  case (Recording i finish pc)
  obtain r f' b1 where step: "record_sent_step fails finish pc (so_flow so) b = (r, f', b1)"
    using prod_cases3 by blast
  from record_covers [OF step, of rest i] show ?thesis
    using assms(1,5) Recording step by (auto simp: loads_covered_def split: sum.splits)
next
  case (Cancelling i pc)
  then show ?thesis
    using assms by (cases pc) (auto simp: loads_covered_def window_covered_def)
qed (use assms in \<open>auto simp: loads_covered_def window_covered_def\<close>)

text \<open>What a step leaves to the other tasks.\<close>

lemma stream_step_monotone:
  assumes "stream_step fails t so b = (t', so', b')" "holds b (n + lease_of so + in_flight t)" "\<not> shrinking t" "loads_covered t (so_flow so)"
  shows "(fc_cancelled (so_flow so) \<longrightarrow> fc_cancelled (so_flow so'))
    \<and> (fc_cancelled (so_flow so') \<or> 0 < unsettled t \<or> fc_sent (so_flow so) \<le> fc_sent (so_flow so') \<and> fc_lease (so_flow so) \<le> fc_lease (so_flow so'))"
proof (cases t)
  case (Granting i limit pc)
  show ?thesis
  proof (cases pc)
    case (GrantGrow sent gpc)
    then show ?thesis
      using assms grow_covers [of fails "saturating_sub limit sent" gpc "so_flow so" b _ _ _ n] Granting
      by (auto simp: loads_covered_def split: prod.splits sum.splits)
  qed (use assms Granting in \<open>auto split: if_splits\<close>)
next
  case (Awaiting i goal pc)
  show ?thesis
  proof (cases pc)
    case (WaitRefresh rpc)
    show ?thesis
    proof (cases rpc)
      case (RefreshGrow requested sent gpc)
      then show ?thesis
        using assms grow_covers [of fails "saturating_sub requested sent" gpc "so_flow so" b _ _ _ n] Awaiting WaitRefresh
        by (auto simp: loads_covered_def split: prod.splits sum.splits)
    qed (use assms Awaiting WaitRefresh in auto)
  qed (use assms Awaiting in \<open>auto split: if_splits option.splits\<close>)
next
  case (Recording i finish pc)
  show ?thesis
  proof (cases pc)
    case (RecordConsume bs cpc)
    then show ?thesis
      using assms Recording by (cases cpc) (auto simp: unat_gt_0 split: if_splits prod.splits sum.splits)
  qed (use assms Recording in \<open>auto simp: Let_def split: if_splits\<close>)
next
  case (Cancelling i pc)
  then show ?thesis
    using assms by (cases pc) (auto simp: loads_covered_def)
qed (use assms in auto)

lemma loads_stay:
  assumes "loads_covered u f" "fc_cancelled f \<longrightarrow> fc_cancelled f'"
    and "fc_cancelled f' \<or> \<not> widening u \<or> fc_sent f \<le> fc_sent f' \<and> fc_lease f \<le> fc_lease f'"
  shows "loads_covered u f'"
proof -
  have grow: "grow_covered pc f \<Longrightarrow> fc_lease f \<le> fc_lease f' \<Longrightarrow> grow_covered pc f'" for pc
    by (cases pc) auto
  show ?thesis
    using assms by (cases "(u, f)" rule: covered.cases) (auto simp: loads_covered_def word_le_nat_alt dest: grow)
qed

definition pend :: "nat \<Rightarrow> task \<Rightarrow> nat" where
  "pend i t = (if task_stream t = Some i then unsettled t else 0)"

definition windows_ok :: "credit_tasks \<Rightarrow> bool" where
  "windows_ok T \<longleftrightarrow> (\<forall>i < length (ct_streams T). window_covered (sum_list (map (pend i) (ct_tasks T))) (so_flow (ct_streams T ! i)))
     \<and> (\<forall>k < length (ct_tasks T). \<forall>i. task_stream (ct_tasks T ! k) = Some i \<longrightarrow> loads_covered (ct_tasks T ! k) (so_flow (ct_streams T ! i)))"

lemma unsettled_stream: "0 < unsettled t \<Longrightarrow> task_stream t \<noteq> None"
  by (cases t) auto

lemma calm_pend:
  assumes "calm T" "k < length (ct_tasks T)" "widening (ct_tasks T ! k)" "task_stream (ct_tasks T ! k) = Some i"
  shows "sum_list (map (pend i) (ct_tasks T)) = 0"
proof -
  have "pend i t = 0" if "t \<in> set (ct_tasks T)" for t
    using assms that by (fastforce simp: calm_def pend_def list_all_iff)
  then show ?thesis
    by simp
qed

lemma replace_task_pend:
  assumes "k < length ts" "pend i t = pend i (ts ! k)"
  shows "sum_list (map (pend i) (ts[k := t])) = sum_list (map (pend i) ts)"
proof -
  obtain rest where "sum_list (map (pend i) ts) = rest + pend i (ts ! k)" "\<And>y. sum_list (map (pend i) (ts[k := y])) = rest + pend i y"
    using sum_at [OF assms(1), of "pend i"] by blast
  then show ?thesis
    using assms(2) by simp
qed

lemma stream_task_windows:
  assumes "tasks_ok T" "k < length (ct_tasks T)" "task_stream (ct_tasks T ! k) = Some i" "calm T" "holds (ct_budget T) (total_credit T)" "windows_ok T"
    and "stream_step fails (ct_tasks T ! k) (ct_streams T ! i) (ct_budget T) = (t', so, b)"
  shows "windows_ok (T\<lparr>ct_budget := b, ct_streams := (ct_streams T)[i := so], ct_tasks := (ct_tasks T)[k := t']\<rparr>)"
proof -
  let ?t = "ct_tasks T ! k" and ?so = "ct_streams T ! i"
  have i: "i < length (ct_streams T)" "loaded_ok ?t ?so" "stream_ok ?so" and shrink: "\<not> shrinking ?t"
    using assms(1-4) by (auto simp: tasks_ok_def list_all_length calm_def)
  have stream: "t' = Idle \<or> task_stream t' = Some i"
    using stream_step_ok [OF assms(7) i(2,3)] assms(3) by auto
  obtain r1 where r1: "sum_list (map lease_of (ct_streams T)) = r1 + lease_of ?so"
    using sum_at [OF i(1), of lease_of] by blast
  obtain r2 where r2: "sum_list (map in_flight (ct_tasks T)) = r2 + in_flight ?t"
    using sum_at [OF assms(2), of in_flight] by blast
  have held: "holds (ct_budget T) (r1 + r2 + lease_of ?so + in_flight ?t)"
    using assms(5) by (simp add: total_credit_def r1 r2 ac_simps)
  obtain rest where rest: "sum_list (map (pend i) (ct_tasks T)) = rest + unsettled ?t" "\<And>y. sum_list (map (pend i) ((ct_tasks T)[k := y])) = rest + pend i y"
    using sum_at [OF assms(2), of "pend i"] assms(3) by (metis pend_def)
  have loads: "loads_covered ?t (so_flow ?so)" and covers: "window_covered (rest + unsettled ?t) (so_flow ?so)"
    using assms(2,3,6) i(1) rest(1) by (auto simp: windows_ok_def)
  have "widening ?t \<Longrightarrow> rest = 0"
    using calm_pend [OF assms(4,2) _ assms(3)] rest(1) by simp
  note now = stream_covers [OF assms(7) held shrink loads covers this] and mono = stream_step_monotone [OF assms(7) held shrink loads]
  have idle: "unsettled t' = pend i t'"
    using stream by (auto simp: pend_def)
  have others: "loads_covered (ct_tasks T ! m) (so_flow so)" if "m < length (ct_tasks T)" "m \<noteq> k" "task_stream (ct_tasks T ! m) = Some i" for m
  proof (rule loads_stay)
    show "loads_covered (ct_tasks T ! m) (so_flow ?so)"
      using assms(6) that by (simp add: windows_ok_def)
    have "0 < unsettled ?t \<longrightarrow> \<not> widening (ct_tasks T ! m)"
      using assms(2-4) that unfolding calm_def list_all_length by metis
    then show "fc_cancelled (so_flow so) \<or> \<not> widening (ct_tasks T ! m) \<or> fc_sent (so_flow ?so) \<le> fc_sent (so_flow so) \<and> fc_lease (so_flow ?so) \<le> fc_lease (so_flow so)"
      using mono by auto
  qed (use mono in blast)
  have pends: "sum_list (map (pend j) ((ct_tasks T)[k := t'])) = sum_list (map (pend j) (ct_tasks T))" if "j \<noteq> i" for j
    using that stream assms(3) by (intro replace_task_pend [OF assms(2)]) (auto simp: pend_def)
  show ?thesis
    unfolding windows_ok_def
  proof (intro conjI allI impI)
    fix j
    assume "j < length (ct_streams (T\<lparr>ct_budget := b, ct_streams := (ct_streams T)[i := so], ct_tasks := (ct_tasks T)[k := t']\<rparr>))"
    then show "window_covered (sum_list (map (pend j) (ct_tasks (T\<lparr>ct_budget := b, ct_streams := (ct_streams T)[i := so], ct_tasks := (ct_tasks T)[k := t']\<rparr>))))
        (so_flow (ct_streams (T\<lparr>ct_budget := b, ct_streams := (ct_streams T)[i := so], ct_tasks := (ct_tasks T)[k := t']\<rparr>) ! j))"
      using now rest(2) [of t'] idle pends [of j] assms(6) i(1) by (cases "j = i") (auto simp: windows_ok_def)
  next
    fix m j
    assume "m < length (ct_tasks (T\<lparr>ct_budget := b, ct_streams := (ct_streams T)[i := so], ct_tasks := (ct_tasks T)[k := t']\<rparr>))"
      "task_stream (ct_tasks (T\<lparr>ct_budget := b, ct_streams := (ct_streams T)[i := so], ct_tasks := (ct_tasks T)[k := t']\<rparr>) ! m) = Some j"
    then show "loads_covered (ct_tasks (T\<lparr>ct_budget := b, ct_streams := (ct_streams T)[i := so], ct_tasks := (ct_tasks T)[k := t']\<rparr>) ! m)
        (so_flow (ct_streams (T\<lparr>ct_budget := b, ct_streams := (ct_streams T)[i := so], ct_tasks := (ct_tasks T)[k := t']\<rparr>) ! j))"
      using now others stream assms(2,6) i(1) by (cases "m = k"; cases "j = i") (auto simp: windows_ok_def)
  qed
qed

lemma pend_idle [simp]: "unsettled t = 0 \<Longrightarrow> pend i t = 0"
  by (simp add: pend_def)

lemma replace_task_windows:
  assumes "windows_ok T" "k < length (ct_tasks T)" "unsettled (ct_tasks T ! k) = 0" "unsettled t = 0" "\<And>f. covered t f"
  shows "windows_ok (T\<lparr>ct_budget := b, ct_tasks := (ct_tasks T)[k := t]\<rparr>)"
  using assms by (auto simp: windows_ok_def replace_task_pend nth_list_update loads_covered_def)

lemma open_stream_windows:
  assumes "tasks_ok T" "windows_ok T" "k < length (ct_tasks T)" "ct_tasks T ! k = Opening requested pc"
  shows "windows_ok (T\<lparr>ct_budget := b, ct_streams := ct_streams T @ [new_stream allocated], ct_tasks := (ct_tasks T)[k := Idle]\<rparr>)"
proof -
  let ?n = "length (ct_streams T)"
  have "pend ?n t = 0" if "t \<in> set (ct_tasks T)" for t
    using that assms(1) by (auto simp: pend_def tasks_ok_def in_set_conv_nth)
  then have "sum_list (map (pend ?n) (ct_tasks T)) = 0"
    by simp
  moreover have "sum_list (map (pend i) ((ct_tasks T)[k := Idle])) = sum_list (map (pend i) (ct_tasks T))" for i
    using assms(3,4) by (simp add: replace_task_pend)
  ultimately show ?thesis
    using assms by (auto simp: windows_ok_def tasks_ok_def nth_append nth_list_update less_Suc_eq new_stream_def window_covered_def)
qed

lemma task_step_windows:
  assumes "tasks_ok T" "k < length (ct_tasks T)" "calm T" "holds (ct_budget T) (total_credit T)" "windows_ok T"
  shows "windows_ok (task_step fails k T)"
  using assms(2)
proof (cases rule: task_step_cases [where fails = fails])
  case (reserving requested pc pc' b)
  then show ?thesis
    using replace_task_windows [OF assms(5,2), of "Opening requested pc'" b] by simp
next
  case (opened requested pc allocated b)
  then show ?thesis
    using open_stream_windows [OF assms(1,5,2)] by simp
next
  case (works i t' so b)
  then show ?thesis
    using stream_task_windows [OF assms(1,2) works(1) assms(3-5)] by simp
qed (use assms in simp)

lemma grant_begins_windows:
  assumes "windows_ok T" "is_idle 0 T"
  shows "windows_ok (task_event_step (Grants i limit) T)"
  using assms by (auto simp: windows_ok_def is_idle_def nth_list_update replace_task_pend loads_covered_def)

lemma event_windows:
  assumes "tasks_ok T" "calm T" "holds (ct_budget T) (total_credit T)" "windows_ok T"
  shows "windows_ok (task_event_step e T)"
proof (cases e)
  case Spawns
  then show ?thesis
    using assms(4) by (auto simp: windows_ok_def nth_append)
next
  case (Opens k requested)
  then show ?thesis
    using assms(4) replace_task_windows [OF assms(4), of k "Opening requested ReserveLoad" "ct_budget T"] by (simp add: is_idle_def)
next
  case (Grants i limit)
  then show ?thesis
    using assms(4) grant_begins_windows [OF assms(4)] by (cases "is_idle 0 T") auto
next
  case (Transmits k i goal)
  then show ?thesis
    using assms(4) replace_task_windows [OF assms(4), of k "Awaiting i goal WaitFlag" "ct_budget T"] by (simp add: is_idle_def)
next
  case (Cancels k i)
  then show ?thesis
    using assms(4) replace_task_windows [OF assms(4), of k "Cancelling i CancelFlag" "ct_budget T"] by (simp add: is_idle_def)
next
  case (Steps k fails)
  then show ?thesis
    using assms task_step_windows by simp
qed

lemma calm_unshrunk: "calm T \<Longrightarrow> \<forall>t \<in> set (ct_tasks T). \<not> shrinking t"
  by (simp add: calm_def list_all_iff)

section \<open>The claim\<close>

definition task_run :: "u64 \<Rightarrow> task_event list \<Rightarrow> credit_tasks" where
  "task_run maximum events = fold task_event_step events (started_tasks maximum)"

lemma task_run_snoc: "task_run maximum (events @ [e]) = task_event_step e (task_run maximum events)"
  by (simp add: task_run_def)

lemma task_run_ok: "tasks_ok (task_run maximum events)"
  by (induction events rule: rev_induct) (simp_all add: task_run_snoc event_ok, simp add: task_run_def started_ok_tasks)

lemma task_run_total:
  "\<forall>n \<le> length events. \<forall>t \<in> set (ct_tasks (task_run maximum (take n events))). \<not> shrinking t \<Longrightarrow>
     holds (ct_budget (task_run maximum events)) (total_credit (task_run maximum events)) \<and> cb_maximum (ct_budget (task_run maximum events)) = maximum"
proof (induction events rule: rev_induct)
  case Nil
  then show ?case
    using started_ok_tasks(2) [of maximum] by (simp add: task_run_def) (simp add: started_tasks_def CreditBudget_new_def)
next
  case (snoc e events)
  have "\<forall>t \<in> set (ct_tasks (task_run maximum (take n events))). \<not> shrinking t" if "n \<le> length events" for n
    using snoc.prems [rule_format, of n] that by simp
  then have before: "\<forall>n \<le> length events. \<forall>t \<in> set (ct_tasks (task_run maximum (take n events))). \<not> shrinking t"
    by blast
  then have "\<forall>t \<in> set (ct_tasks (task_run maximum events)). \<not> shrinking t"
    by (metis order_refl take_all)
  then show ?case
    using event_total [OF task_run_ok, of maximum events e] snoc.IH [OF before] by (simp add: task_run_snoc)
qed

lemma task_run_windows:
  "\<forall>n \<le> length events. calm (task_run maximum (take n events)) \<Longrightarrow> windows_ok (task_run maximum events)"
proof (induction events rule: rev_induct)
  case Nil
  then show ?case
    by (simp add: task_run_def started_tasks_def windows_ok_def)
next
  case (snoc e events)
  have "calm (task_run maximum (take n events))" if "n \<le> length events" for n
    using snoc.prems [rule_format, of n] that by simp
  then have "calm (task_run maximum events)" and before: "\<forall>n \<le> length events. calm (task_run maximum (take n events))"
    by (metis order_refl take_all, blast)
  moreover have "holds (ct_budget (task_run maximum events)) (total_credit (task_run maximum events))"
    using task_run_total before calm_unshrunk by blast
  ultimately show ?case
    using event_windows [OF task_run_ok, of maximum events e] snoc.IH by (simp add: task_run_snoc)
qed

text \<open>The window that a stream still has: what it may send and has not sent.\<close>

definition open_window :: "credit_stream \<Rightarrow> nat" where
  "open_window so = (if fc_cancelled (so_flow so) then 0 else unat (fc_limit (so_flow so)) - unat (fc_sent (so_flow so)))"

lemma windows_within_leases: "windows_ok T \<Longrightarrow> list_all (\<lambda>so. open_window so \<le> lease_of so) (ct_streams T)"
  by (auto simp: windows_ok_def window_covered_def open_window_def list_all_length)

text \<open>
  C20: flow control holds under every interleaving.  However many tasks open streams, wait for credit, send, record and cancel at the same time, each atomic access of each a step of its own, while the peer grants
  what it likes: what a stream has put on the wire and what it has recorded as sent is within its limit, its limit is within what it was asked to send, and that is within what the peer has granted.  As long as
  no grant finds the lease of its stream larger than the window it asks for, which takes a grant between the two accesses with which a sender records, the budget reserves exactly what is in the leases and what tasks
  are moving between a lease and the budget, at most the maximum the peer declared.  And if moreover no grant or refresh of a stream at all runs between these two accesses, everything that the streams which are not
  cancelled may still send is in their leases.
\<close>

theorem credit_never_overcommitted:
  "list_all (\<lambda>so. so_wire so \<le> fc_limit (so_flow so) \<and> fc_sent (so_flow so) \<le> fc_limit (so_flow so)
       \<and> fc_limit (so_flow so) \<le> fc_requested_limit (so_flow so) \<and> fc_requested_limit (so_flow so) \<le> so_granted so) (ct_streams (task_run maximum events))
   \<and> ((\<forall>n \<le> length events. \<forall>t \<in> set (ct_tasks (task_run maximum (take n events))). \<not> shrinking t) \<longrightarrow>
        unat (cb_reserved (ct_budget (task_run maximum events))) =
          sum_list (map (\<lambda>so. unat (fc_lease (so_flow so))) (ct_streams (task_run maximum events))) + sum_list (map in_flight (ct_tasks (task_run maximum events)))
        \<and> cb_reserved (ct_budget (task_run maximum events)) \<le> maximum)
   \<and> ((\<forall>n \<le> length events. calm (task_run maximum (take n events))) \<longrightarrow>
        list_all (\<lambda>so. open_window so \<le> unat (fc_lease (so_flow so))) (ct_streams (task_run maximum events)))"
proof (intro conjI impI)
  show "list_all (\<lambda>so. so_wire so \<le> fc_limit (so_flow so) \<and> fc_sent (so_flow so) \<le> fc_limit (so_flow so)
      \<and> fc_limit (so_flow so) \<le> fc_requested_limit (so_flow so) \<and> fc_requested_limit (so_flow so) \<le> so_granted so) (ct_streams (task_run maximum events))"
    using task_run_ok [of maximum events] by (simp add: tasks_ok_def stream_ok_def [abs_def])
qed (use task_run_total [of events maximum] task_run_windows [of events maximum] windows_within_leases in
      \<open>auto simp: holds_def total_credit_def word_le_nat_alt\<close>)

text \<open>Every state of a run is calm, state by state.\<close>

fun calm_along :: "task_event list \<Rightarrow> credit_tasks \<Rightarrow> bool" where
  "calm_along [] T \<longleftrightarrow> calm T"
| "calm_along (e # es) T \<longleftrightarrow> calm T \<and> calm_along es (task_event_step e T)"

lemma calm_prefixes: "calm_along events T \<Longrightarrow> n \<le> length events \<Longrightarrow> calm (fold task_event_step (take n events) T)"
proof (induction events arbitrary: T n)
  case (Cons e es)
  then show ?case
    by (cases n) auto
qed simp

text \<open>A stream with room for four bytes; the peer grants two more, and a task sends all six.\<close>

abbreviation sender :: task_event where
  "sender \<equiv> Steps 1 False"

abbreviation session_task :: task_event where
  "session_task \<equiv> Steps 0 False"

definition sample_tasks :: "task_event list" where
  "sample_tasks =
     [Spawns, Opens 0 4, session_task, session_task,
      Grants 0 6, session_task, session_task, session_task, session_task, session_task, session_task, session_task, session_task, session_task,
      Transmits 1 0 (Through 6),
      sender, sender, sender, sender, sender, sender, sender, sender, sender, sender, sender, sender]"

lemmas task_defs = task_run_def started_tasks_def CreditBudget_new_def task_step_def is_idle_def new_stream_def saturating_sub_def saturating_add_def checked_add_def
  CreditBudget_release_def Let_def min_def max_def

lemma sample_tasks_run:
  "task_run 10 sample_tasks =
     \<lparr>ct_budget = \<lparr>cb_maximum = 10, cb_reserved = 0\<rparr>,
      ct_streams = [\<lparr>so_flow = \<lparr>fc_limit = 6, fc_requested_limit = 6, fc_sent = 6, fc_lease = 0, fc_cancelled = False\<rparr>, so_wire = 6, so_granted = 6\<rparr>],
      ct_tasks = [Idle, Idle]\<rparr>"
  by (simp add: sample_tasks_def task_defs)

theorem credit_never_overcommitted_witness:
  "unat (cb_reserved (ct_budget (task_run 10 sample_tasks))) = sum_list (map (\<lambda>so. unat (fc_lease (so_flow so))) (ct_streams (task_run 10 sample_tasks)))
   \<and> map so_wire (ct_streams (task_run 10 sample_tasks)) = [6] \<and> map so_granted (ct_streams (task_run 10 sample_tasks)) = [6]
   \<and> list_all (\<lambda>so. open_window so \<le> unat (fc_lease (so_flow so))) (ct_streams (task_run 10 sample_tasks))"
proof -
  have "calm_along sample_tasks (started_tasks 10)"
    by (simp add: sample_tasks_def calm_def task_defs)
  then have calm: "\<forall>n \<le> length sample_tasks. calm (task_run 10 (take n sample_tasks))"
    using calm_prefixes unfolding task_run_def by blast
  then have "\<forall>n \<le> length sample_tasks. \<forall>t \<in> set (ct_tasks (task_run 10 (take n sample_tasks))). \<not> shrinking t"
    using calm_unshrunk by blast
  then show ?thesis
    using credit_never_overcommitted [of 10 sample_tasks] calm by (simp add: sample_tasks_run)
qed

text \<open>
  The other case.  The peer grants one byte more when the sender has moved \<^verbatim>\<open>sent\<close> and not yet consumed its lease.  The grant finds a lease of four bytes for a window of one and
  sets it to one; the sender, which loaded four, has given its four bytes back in between, and the grant gives back three once more.  When all is done the counter of the budget has wrapped below zero, and
  nothing can be reserved any more.
\<close>

definition racing_tasks :: "task_event list" where
  "racing_tasks =
     [Spawns, Opens 0 4, session_task, session_task, Transmits 1 0 (Through 4),
      sender, sender, sender, sender, sender, sender, sender, sender, sender,
      Grants 0 5, session_task, session_task, session_task, session_task,
      sender, sender, sender, session_task, session_task, session_task]"

lemma grant_races_with_send:
  "task_run 10 racing_tasks =
     \<lparr>ct_budget = \<lparr>cb_maximum = 10, cb_reserved = - 3\<rparr>,
      ct_streams = [\<lparr>so_flow = \<lparr>fc_limit = 5, fc_requested_limit = 5, fc_sent = 4, fc_lease = 1, fc_cancelled = False\<rparr>, so_wire = 4, so_granted = 5\<rparr>],
      ct_tasks = [Idle, Idle]\<rparr>"
  by (simp add: racing_tasks_def task_defs)

end
