(* ===== verification/Kv_Session.thy ===== *)
theory Kv_Session
  imports Wire_Kv Session_Credit
begin

text \<open>
  The key-value family in a session of the server (\<^verbatim>\<open>crates/server/src/yas.rs\<close>): namespaces, uploads of staged values, reads, admission of watches, and the path of a mutation
  from its payload to the store and back.  A session with the family selected is a record of what these handlers use of it; the other families are in it where they share its
  transfer ids, subscriptions and credit.  Hash maps are finite maps: no handler depends on their order.  \<open>hash\<close> is BLAKE3 and \<open>now\<close> the monotonic clock; sending a frame
  succeeds.  A handler is one step: \<^verbatim>\<open>mutate_kv\<close> locks the store three times, and what \<^verbatim>\<open>native_mutate\<close> decides under the last lock it decides from the store it finds then.  The refusals of a server
  that shuts down are left out.  Outgoing streams are changed by the tasks that send on them too (\<^verbatim>\<open>Credit_Tasks\<close>); nothing here depends on what they hold.
\<close>

section \<open>State\<close>

record KvStage =
  kg_byte_len :: u64
  kg_content_hash :: bytes
  kg_transfer_id :: u32
  kg_received :: u64
  kg_bytes :: bytes
  kg_sealed :: bool
  kg_expires_server_ns :: u64
  kg_receive_credit :: u64
  kg_retained_credit :: u64

record KvConsumedStage =
  kc_byte_len :: u64
  kc_content_hash :: bytes

record KvConsumedStages =
  kc_values :: "(u64, KvConsumedStage) BTreeMap"
  kc_order :: "u64 list"

record KvRuntime =
  kr_enabled :: bool
  kr_next_namespace_handle :: u64
  kr_namespaces :: "(u64, bytes) BTreeMap"
  kr_next_staging_handle :: u64
  kr_stages :: "(u64, KvStage) BTreeMap"
  kr_consumed_stages :: KvConsumedStages
  kr_transfer_to_stage :: "(u32, u64) BTreeMap"
  kr_staged_bytes :: u64

text \<open>A watcher with its family, its flow control and, when it watches a namespace, the handle and the flags of the watch.\<close>

record Watcher =
  wt_family :: u16
  wt_control :: FlowControl
  wt_kv :: "(u64 \<times> u16) option"

text \<open>A durable mutation that waits for its channel, with what it answers when the channel says that the commit is on disk.\<close>

record KvDurable =
  kd_kind :: u16
  kd_body :: bytes
  kd_channel :: nat

record Session =
  ss_kv :: KvRuntime
  ss_transfer_selected :: bool
  ss_peer_receive :: ReceiveLimits
  ss_inbound_credit :: CreditBudget
  ss_outbound_credit :: CreditBudget
  ss_next_transfer_id :: u32
  ss_next_subscription_id :: u32
  ss_max_outbound_transfers :: nat
  ss_outbound :: "(u32, FlowControl) BTreeMap"
  ss_outbound_sensitive :: "u32 list"
  ss_pending_requests :: "(u32, KvDurable) BTreeMap"
  ss_watchers :: "(u32, Watcher) BTreeMap"

text \<open>How a handler ends: it answers the request, it leaves the request pending, it sends nothing, it resets a transfer, or it ends the session.\<close>

datatype outcome = Reply Status bytes | Waiting | Quiet | ResetSent u32 Status | Broken

definition KvRuntime_new :: "bool \<Rightarrow> KvRuntime" where
  "KvRuntime_new enabled =
     \<lparr>kr_enabled = enabled, kr_next_namespace_handle = 1, kr_namespaces = bt_empty, kr_next_staging_handle = 1, kr_stages = bt_empty,
      kr_consumed_stages = \<lparr>kc_values = bt_empty, kc_order = []\<rparr>, kr_transfer_to_stage = bt_empty, kr_staged_bytes = 0\<rparr>"

text \<open>The loop of \<^verbatim>\<open>KvConsumedStages::insert\<close> that drops the oldest handles.\<close>

fun expire_consumed :: "u64 list \<Rightarrow> (u64, KvConsumedStage) BTreeMap \<Rightarrow> u64 list \<times> (u64, KvConsumedStage) BTreeMap" where
  "expire_consumed (expired # order) vs =
     (if MAX_RECENT_OPERATION_REPLAYS < Suc (length order) then expire_consumed order (bt_remove expired vs) else (expired # order, vs))"
| "expire_consumed [] vs = ([], vs)"

definition KvConsumedStages_insert :: "u64 \<Rightarrow> KvConsumedStage \<Rightarrow> KvConsumedStages \<Rightarrow> KvConsumedStages" where
  "KvConsumedStages_insert staging_handle stage c =
     (let order = (if bt_has (kc_values c) staging_handle then kc_order c else kc_order c @ [staging_handle]) in
      case expire_consumed order (bt_insert staging_handle stage (kc_values c)) of
        (order, vs) \<Rightarrow> \<lparr>kc_values = vs, kc_order = order\<rparr>)"

definition Session_new :: "bool \<Rightarrow> bool \<Rightarrow> ReceiveLimits \<Rightarrow> u64 \<Rightarrow> u64 \<Rightarrow> nat \<Rightarrow> Session" where
  "Session_new kv_enabled transfer_selected peer_receive inbound_max outbound_max outbound_transfers =
     \<lparr>ss_kv = KvRuntime_new kv_enabled, ss_transfer_selected = transfer_selected, ss_peer_receive = peer_receive,
      ss_inbound_credit = CreditBudget_new inbound_max, ss_outbound_credit = CreditBudget_new outbound_max, ss_next_transfer_id = 2,
      ss_next_subscription_id = 1, ss_max_outbound_transfers = outbound_transfers, ss_outbound = bt_empty, ss_outbound_sensitive = [],
      ss_pending_requests = bt_empty, ss_watchers = bt_empty\<rparr>"

section \<open>Namespaces\<close>

definition KV_MAX_NAMESPACES_PER_SESSION :: nat where "KV_MAX_NAMESPACES_PER_SESSION = 16"

definition open_kv :: "bytes \<Rightarrow> Session \<Rightarrow> Kv \<Rightarrow> outcome \<times> Session" where
  "open_kv payload s K =
     (case kv_Open_decode payload of
        Inl _ \<Rightarrow> (Reply StInvalid [], s)
      | Inr request \<Rightarrow>
          let kv = ss_kv s; handle = kr_next_namespace_handle kv in
          if KV_MAX_NAMESPACES_PER_SESSION \<le> bt_len (kr_namespaces kv) then (Reply StResourceExhausted [], s)
          else if handle = 0 then (Reply StResourceExhausted [], s)
          else case checked_add handle 1 of
            None \<Rightarrow> (Reply StResourceExhausted [], s)
          | Some following \<Rightarrow>
              let s1 = s\<lparr>ss_kv := kv\<lparr>kr_next_namespace_handle := following,
                                       kr_namespaces := bt_insert handle (op_prefix request) (kr_namespaces kv)\<rparr>\<rparr>
              in case kv_OpenResult_encode \<lparr>or_namespace_handle = handle, or_store_revision = native_revision (kv_store K), or_extensions = []\<rparr> of
                   Inl _ \<Rightarrow> (Broken, s1)
                 | Inr body \<Rightarrow> (Reply StOk body, s1))"

text \<open>Dropping a watcher returns what its flow control still holds.\<close>

definition drop_watcher :: "u32 \<Rightarrow> Session \<Rightarrow> Session" where
  "drop_watcher subscription_id s =
     (case bt_get (ss_watchers s) subscription_id of
        None \<Rightarrow> s
      | Some watcher \<Rightarrow>
          s\<lparr>ss_watchers := bt_remove subscription_id (ss_watchers s),
            ss_outbound_credit := snd (FlowControl_cancel (wt_control watcher) (ss_outbound_credit s))\<rparr>)"

definition close_kv :: "bytes \<Rightarrow> Session \<Rightarrow> outcome \<times> Session" where
  "close_kv payload s =
     (case kv_Close_decode payload of
        Inl _ \<Rightarrow> (Reply StInvalid [], s)
      | Inr request \<Rightarrow>
          let handle = cl_namespace_handle request; kv = ss_kv s in
          if \<not> bt_has (kr_namespaces kv) handle then (Reply StOk [], s)
          else
            let subscriptions = map fst (filter (\<lambda>(_, watcher). map_option fst (wt_kv watcher) = Some handle) (entries (ss_watchers s)));
                s1 = s\<lparr>ss_kv := kv\<lparr>kr_namespaces := bt_remove handle (kr_namespaces kv)\<rparr>\<rparr>
            in (Reply StOk [], fold drop_watcher subscriptions s1))"

text \<open>The part of \<^verbatim>\<open>unwatch\<close> a request of this family runs.\<close>

definition unwatch_kv :: "bytes \<Rightarrow> Session \<Rightarrow> outcome \<times> Session" where
  "unwatch_kv payload s =
     (case Unwatch_decode payload of
        Inl _ \<Rightarrow> (Reply StInvalid [], s)
      | Inr subscription_id \<Rightarrow>
          case bt_get (ss_watchers s) subscription_id of
            None \<Rightarrow> (Reply StOk [], s)
          | Some watcher \<Rightarrow>
              if wt_family watcher \<noteq> FAMILY_KV then (Reply StNotFound [], s)
              else (Reply StOk [], drop_watcher subscription_id s))"

section \<open>Reads\<close>

definition TRANSFER_CHUNK :: nat where "TRANSFER_CHUNK = 65536"

definition alloc_transfer_id :: "Session \<Rightarrow> (u32 \<times> Session) option" where
  "alloc_transfer_id s =
     (let transfer_id = ss_next_transfer_id s in
      if transfer_id = 0 \<or> \<not> even (unat transfer_id) then None
      else case checked_add transfer_id 2 of None \<Rightarrow> None
           | Some following \<Rightarrow> Some (transfer_id, s\<lparr>ss_next_transfer_id := following\<rparr>))"

definition sensitive_content :: Extension where
  "sensitive_content = \<lparr>e_tag = SENSITIVE_CONTENT_EXTENSION, e_required = True, e_value = []\<rparr>"

definition start_outbound_byte_transfer :: "u64 \<Rightarrow> u16 \<Rightarrow> u16 \<Rightarrow> bool \<Rightarrow> Session \<Rightarrow> Descriptor option \<times> Session" where
  "start_outbound_byte_transfer initial_credit content_family content_kind sensitive s =
     (if ss_max_outbound_transfers s \<le> bt_len (ss_outbound s) then (None, s)
      else case alloc_transfer_id s of
        None \<Rightarrow> (None, s)
      | Some (transfer_id, s1) \<Rightarrow>
          case FlowControl_new initial_credit (ss_outbound_credit s1) of (control, b) \<Rightarrow>
          let d = \<lparr>td_transfer_id = transfer_id, td_mode = Byte, td_direction = SENDER_TO_RECEIVER, td_receiver_send_credit = 0,
                   td_sender_send_credit = fc_limit control, td_max_item_bytes = 0, td_max_chunk_bytes = of_nat TRANSFER_CHUNK,
                   td_content_family = content_family, td_content_kind = content_kind, td_content_version = 1,
                   td_extensions = (if sensitive then [sensitive_content] else [])\<rparr>
          in case Descriptor_validate d of
               Inl _ \<Rightarrow> (None, s1)
             | Inr _ \<Rightarrow> (Some d, s1\<lparr>ss_outbound_credit := b, ss_outbound := bt_insert transfer_id control (ss_outbound s1),
                                          ss_outbound_sensitive := (if sensitive then [transfer_id] else []) @ ss_outbound_sensitive s1\<rparr>))"

definition get_kv :: "bytes \<Rightarrow> Session \<Rightarrow> Kv \<Rightarrow> outcome \<times> Session" where
  "get_kv payload s K =
     (case kv_Get_decode payload of
        Inl _ \<Rightarrow> (Reply StInvalid [], s)
      | Inr request \<Rightarrow>
          case bt_get (kr_namespaces (ss_kv s)) (ge_namespace_handle request) of
            None \<Rightarrow> (Reply StNotFound [], s)
          | Some p \<Rightarrow>
              if \<not> is_ok (kv_validate_full_key p (ge_relative_key request)) then (Reply StInvalid [], s)
              else case native_get (p @ ge_relative_key request) (kv_store K) of
                None \<Rightarrow> (Reply StNotFound [], s)
              | Some entry \<Rightarrow>
                  let answer = \<lambda>delivery. kv_GetResult_encode \<lparr>gr_modification_revision = ne_modification_revision entry,
                        gr_value = \<lparr>it_byte_len = of_nat (length (ne_value entry)), it_content_hash = ne_content_hash entry, it_delivery = delivery\<rparr>\<rparr>
                  in
                  if length (ne_value entry) \<le> KV_MAX_INLINE_BYTES
                  then (case answer (Inline (ne_value entry)) of Inl _ \<Rightarrow> (Broken, s) | Inr body \<Rightarrow> (Reply StOk body, s))
                  else if \<not> ss_transfer_selected s then (Reply StResourceExhausted [], s)
                  else case start_outbound_byte_transfer (ge_initial_receive_credit request) FAMILY_KV KV_VALUE_CONTENT_KIND True s of
                    (None, s1) \<Rightarrow> (Reply StResourceExhausted [], s1)
                  | (Some d, s1) \<Rightarrow> (case answer (Transfer d) of Inl _ \<Rightarrow> (Broken, s1) | Inr body \<Rightarrow> (Reply StOk body, s1)))"

section \<open>Uploads\<close>

definition upload_stage_deadline :: "u64 \<Rightarrow> u64 option" where
  "upload_stage_deadline now = checked_add now MAX_UPLOAD_STAGE_LIFETIME_NS"

definition upload_stage_extensions :: "u64 \<Rightarrow> u64 \<Rightarrow> error + Extensions" where
  "upload_stage_extensions staging_handle expires_server_ns =
     ebind (UploadStage_extension \<lparr>us_staging_handle = staging_handle, us_expires_server_ns = expires_server_ns\<rparr>) (\<lambda>upload.
       Inr [sensitive_content, upload])"

text \<open>Dropping a stage returns the credit its two leases hold.\<close>

definition drop_stage :: "KvStage \<Rightarrow> Session \<Rightarrow> Session" where
  "drop_stage stage s =
     s\<lparr>ss_inbound_credit := CreditBudget_release (kg_retained_credit stage) (CreditBudget_release (kg_receive_credit stage) (ss_inbound_credit s))\<rparr>"

definition staging_descriptor :: "u32 \<Rightarrow> u64 \<Rightarrow> Extensions \<Rightarrow> Descriptor" where
  "staging_descriptor transfer_id byte_len extensions =
     \<lparr>td_transfer_id = transfer_id, td_mode = Byte, td_direction = RECEIVER_TO_SENDER, td_receiver_send_credit = byte_len,
      td_sender_send_credit = 0, td_max_item_bytes = 0, td_max_chunk_bytes = of_nat TRANSFER_CHUNK, td_content_family = FAMILY_KV,
      td_content_kind = KV_VALUE_CONTENT_KIND, td_content_version = KV_VERSION, td_extensions = extensions\<rparr>"

text \<open>
  What follows the checks: a handle for the stage, its deadline and its descriptor.  A lease that was taken is returned when the handler ends before the stage holds it.
\<close>

definition install_stage :: "u64 \<Rightarrow> kv_StageValue \<Rightarrow> u32 \<Rightarrow> Session \<Rightarrow> outcome \<times> Session" where
  "install_stage now request transfer_id s =
     (let kv = ss_kv s; staging_handle = kr_next_staging_handle kv; byte_len = sv_byte_len request;
          dropped = (\<lambda>s. s\<lparr>ss_inbound_credit := CreditBudget_release byte_len (ss_inbound_credit s)\<rparr>)
      in
      if staging_handle = 0 then (Reply StResourceExhausted [], dropped s)
      else case checked_add staging_handle 1 of
        None \<Rightarrow> (Reply StResourceExhausted [], dropped s)
      | Some following \<Rightarrow>
          let s1 = s\<lparr>ss_kv := kv\<lparr>kr_next_staging_handle := following\<rparr>\<rparr> in
          case upload_stage_deadline now of
            None \<Rightarrow> (Broken, dropped s1)
          | Some expires_server_ns \<Rightarrow>
              case upload_stage_extensions staging_handle expires_server_ns of
                Inl _ \<Rightarrow> (Broken, dropped s1)
              | Inr extensions \<Rightarrow>
                  let d = staging_descriptor transfer_id byte_len extensions in
                  case Descriptor_validate d of
                    Inl _ \<Rightarrow> (Broken, dropped s1)
                  | Inr _ \<Rightarrow>
                      let stage = \<lparr>kg_byte_len = byte_len, kg_content_hash = sv_content_hash request, kg_transfer_id = transfer_id, kg_received = 0,
                                   kg_bytes = [], kg_sealed = False, kg_expires_server_ns = expires_server_ns,
                                   kg_receive_credit = byte_len, kg_retained_credit = 0\<rparr>;
                          s2 = s1\<lparr>ss_kv := (ss_kv s1)\<lparr>kr_stages := bt_insert staging_handle stage (kr_stages kv),
                                 kr_transfer_to_stage := bt_insert transfer_id staging_handle (kr_transfer_to_stage kv),
                                 kr_staged_bytes := kr_staged_bytes kv + byte_len\<rparr>\<rparr>
                      in case kv_StageValueResult_encode \<lparr>sr_staging_handle = staging_handle, sr_byte_len = byte_len,
                                sr_content_hash = sv_content_hash request, sr_transfer = d\<rparr> of
                           Inl _ \<Rightarrow> (Broken, s2)
                         | Inr body \<Rightarrow> (Reply StOk body, s2))"

definition stage_kv_value :: "(string \<Rightarrow> u64 option) \<Rightarrow> u64 \<Rightarrow> bytes \<Rightarrow> Session \<Rightarrow> outcome \<times> Session" where
  "stage_kv_value deployment now payload s =
     (case kv_StageValue_decode payload of
        Inl _ \<Rightarrow> (Reply StInvalid [], s)
      | Inr request \<Rightarrow>
          if \<not> ss_transfer_selected s then (Reply StUnsupported [], s)
          else
            let limits = native_limits deployment; kv = ss_kv s; byte_len = sv_byte_len request in
            if unat (kv_max_stages_per_session limits) \<le> bt_len (kr_stages kv)
               \<or> (case checked_add (kr_staged_bytes kv) byte_len of None \<Rightarrow> True | Some bs \<Rightarrow> kv_max_staged_bytes_per_session limits < bs)
            then (Reply StResourceExhausted [], s)
            else case CreditBudget_reserve byte_len (ss_inbound_credit s) of (lease, b) \<Rightarrow>
              if lease \<noteq> byte_len
              then (Reply StResourceExhausted [], s\<lparr>ss_inbound_credit := CreditBudget_release lease b\<rparr>)
              else case alloc_transfer_id (s\<lparr>ss_inbound_credit := b\<rparr>) of
                     None \<Rightarrow> (Reply StResourceExhausted [], s\<lparr>ss_inbound_credit := CreditBudget_release lease b\<rparr>)
                   | Some (transfer_id, s1) \<Rightarrow> install_stage now request transfer_id s1)"

definition remove_kv_stage :: "u64 \<Rightarrow> Session \<Rightarrow> Session" where
  "remove_kv_stage staging_handle s =
     (let kv = ss_kv s in
      case bt_get (kr_stages kv) staging_handle of
        None \<Rightarrow> s
      | Some stage \<Rightarrow>
          drop_stage stage (s\<lparr>ss_kv := kv\<lparr>kr_stages := bt_remove staging_handle (kr_stages kv),
            kr_transfer_to_stage := bt_remove (kg_transfer_id stage) (kr_transfer_to_stage kv),
            kr_staged_bytes := saturating_sub (kr_staged_bytes kv) (kg_byte_len stage)\<rparr>\<rparr>))"

definition consume_kv_stage :: "u64 \<Rightarrow> Session \<Rightarrow> Session" where
  "consume_kv_stage staging_handle s =
     (let kv = ss_kv s in
      case bt_get (kr_stages kv) staging_handle of
        None \<Rightarrow> s
      | Some stage \<Rightarrow>
          drop_stage stage (s\<lparr>ss_kv := kv\<lparr>kr_stages := bt_remove staging_handle (kr_stages kv),
            kr_transfer_to_stage := bt_remove (kg_transfer_id stage) (kr_transfer_to_stage kv),
            kr_staged_bytes := saturating_sub (kr_staged_bytes kv) (kg_byte_len stage),
            kr_consumed_stages := KvConsumedStages_insert staging_handle
              \<lparr>kc_byte_len = kg_byte_len stage, kc_content_hash = kg_content_hash stage\<rparr> (kr_consumed_stages kv)\<rparr>\<rparr>))"

section \<open>Transfers\<close>

text \<open>The transfers here are the uploads of staged values and those the server sends.\<close>

definition transfer_is_sensitive :: "u32 \<Rightarrow> Session \<Rightarrow> bool" where
  "transfer_is_sensitive transfer_id s \<longleftrightarrow> transfer_id \<in> set (ss_outbound_sensitive s) \<or> bt_has (kr_transfer_to_stage (ss_kv s)) transfer_id"

definition abort_transfer :: "u32 \<Rightarrow> Session \<Rightarrow> Session" where
  "abort_transfer transfer_id s =
     (let s1 = (case bt_get (ss_outbound s) transfer_id of
                  None \<Rightarrow> s
                | Some control \<Rightarrow> s\<lparr>ss_outbound := bt_remove transfer_id (ss_outbound s),
                                   ss_outbound_credit := snd (FlowControl_cancel control (ss_outbound_credit s))\<rparr>);
          s2 = s1\<lparr>ss_outbound_sensitive := removeAll transfer_id (ss_outbound_sensitive s1)\<rparr>
      in case bt_get (kr_transfer_to_stage (ss_kv s2)) transfer_id of
           None \<Rightarrow> s2
         | Some staging_handle \<Rightarrow> remove_kv_stage staging_handle s2)"

definition reset_transfer :: "u32 \<Rightarrow> Status \<Rightarrow> Session \<Rightarrow> outcome \<times> Session" where
  "reset_transfer transfer_id status s = (ResetSent transfer_id status, abort_transfer transfer_id s)"

definition set_stage :: "u64 \<Rightarrow> KvStage \<Rightarrow> Session \<Rightarrow> Session" where
  "set_stage staging_handle stage s = s\<lparr>ss_kv := (ss_kv s)\<lparr>kr_stages := bt_insert staging_handle stage (kr_stages (ss_kv s))\<rparr>\<rparr>"

definition byte_data :: "bool \<Rightarrow> bytes \<Rightarrow> Session \<Rightarrow> outcome \<times> Session" where
  "byte_data sensitive payload s =
     (case ByteData_decode payload of
        Inl _ \<Rightarrow> (Broken, s)
      | Inr data \<Rightarrow>
          case bt_get (kr_transfer_to_stage (ss_kv s)) (bd_transfer_id data) of
            None \<Rightarrow> (Quiet, s)
          | Some staging_handle \<Rightarrow>
              case bt_get (kr_stages (ss_kv s)) staging_handle of
                None \<Rightarrow> (Broken, s)
              | Some stage \<Rightarrow>
                  case checked_add (bd_offset data) (of_nat (length (bd_data data))) of
                    None \<Rightarrow> (Broken, s)
                  | Some finish \<Rightarrow>
                      if \<not> sensitive \<or> kg_sealed stage \<or> bd_offset data \<noteq> kg_received stage
                         \<or> TRANSFER_CHUNK < length (bd_data data) \<or> kg_byte_len stage < finish
                      then reset_transfer (bd_transfer_id data) StInvalid s
                      else case CreditLease_transfer_to (of_nat (length (bd_data data))) (kg_receive_credit stage) (kg_retained_credit stage) of
                             None \<Rightarrow> reset_transfer (bd_transfer_id data) StInvalid s
                           | Some (lease, retained) \<Rightarrow>
                               (Quiet, set_stage staging_handle (stage\<lparr>kg_bytes := kg_bytes stage @ bd_data data, kg_received := finish,
                                         kg_receive_credit := lease, kg_retained_credit := retained\<rparr>) s))"

definition close_transfer :: "(bytes \<Rightarrow> bytes) \<Rightarrow> bool \<Rightarrow> bytes \<Rightarrow> Session \<Rightarrow> outcome \<times> Session" where
  "close_transfer hash sensitive payload s =
     (case Close_decode payload of
        Inl _ \<Rightarrow> (Broken, s)
      | Inr close \<Rightarrow>
          case bt_get (kr_transfer_to_stage (ss_kv s)) (cl_transfer_id close) of
            None \<Rightarrow>
              if bt_has (ss_outbound s) (cl_transfer_id close)
              then if transfer_is_sensitive (cl_transfer_id close) s \<and> \<not> sensitive then (Broken, s)
                   else (Quiet, abort_transfer (cl_transfer_id close) s)
              else (Quiet, s)
          | Some staging_handle \<Rightarrow>
              case bt_get (kr_stages (ss_kv s)) staging_handle of
                None \<Rightarrow> reset_transfer (cl_transfer_id close) StInvalid s
              | Some stage \<Rightarrow>
                  if sensitive \<and> \<not> kg_sealed stage \<and> cl_status close = Status_code StOk \<and> cl_final_data_bytes close = kg_received stage
                     \<and> kg_received stage = kg_byte_len stage \<and> hash (kg_bytes stage) = kg_content_hash stage
                  then (Quiet, set_stage staging_handle (stage\<lparr>kg_sealed := True\<rparr>) s)
                  else reset_transfer (cl_transfer_id close) StInvalid s)"

definition reset_received :: "bool \<Rightarrow> bytes \<Rightarrow> Session \<Rightarrow> outcome \<times> Session" where
  "reset_received sensitive payload s =
     (case Reset_decode payload of
        Inl _ \<Rightarrow> (Broken, s)
      | Inr reset \<Rightarrow>
          if transfer_is_sensitive (rs_transfer_id reset) s \<and> \<not> sensitive then (Broken, s)
          else (Quiet, abort_transfer (rs_transfer_id reset) s))"

text \<open>The stages of the family among the uploads whose time is up.\<close>

definition gc_expired_kv_stages :: "u64 \<Rightarrow> Session \<Rightarrow> Session" where
  "gc_expired_kv_stages now s =
     fold (\<lambda>(handle, _). remove_kv_stage handle) (filter (\<lambda>(_, stage). kg_expires_server_ns stage \<le> now) (entries (kr_stages (ss_kv s)))) s"

section \<open>Mutations\<close>

definition kv_hash_field :: "bytes \<Rightarrow> bytes" where
  "kv_hash_field bs = put_u64 (of_nat (length bs)) @ bs"

definition kv_hash_precondition :: "Precondition \<Rightarrow> bytes" where
  "kv_hash_precondition value =
     (case value of
        AnyEntry \<Rightarrow> [0]
      | Absent \<Rightarrow> [1]
      | HashIs hash \<Rightarrow> [2] @ hash
      | RevisionIs revision \<Rightarrow> [3] @ put_u64 revision
      | HashAndRevision content_hash modification_revision \<Rightarrow> [4] @ content_hash @ put_u64 modification_revision)"

text \<open>The length and hash a staged value is known by: of a stage, of one this session consumed, or of one an earlier session did.\<close>

definition stage_metadata :: "KvRuntime \<Rightarrow> NativeStageWitness list \<Rightarrow> u16 \<Rightarrow> u64 \<Rightarrow> Status + u64 \<times> bytes" where
  "stage_metadata runtime retained staged_ordinal handle =
     (case bt_get (kr_stages runtime) handle of
        Some stage \<Rightarrow> if kg_sealed stage then Inr (kg_byte_len stage, kg_content_hash stage) else Inl StBusy
      | None \<Rightarrow>
          case bt_get (kc_values (kr_consumed_stages runtime)) handle of
            Some stage \<Rightarrow> Inr (kc_byte_len stage, kc_content_hash stage)
          | None \<Rightarrow>
              case find (\<lambda>w. sw_ordinal w = staged_ordinal \<and> sw_original_handle w = handle) retained of
                Some w \<Rightarrow> Inr (sw_byte_len w, sw_content_hash w)
              | None \<Rightarrow> Inl StNotFound)"

definition hashed_extensions :: "Extensions \<Rightarrow> Status + bytes" where
  "hashed_extensions extensions = (case Extensions_encode_tail extensions of Inl _ \<Rightarrow> Inl StInvalid | Inr bs \<Rightarrow> Inr (kv_hash_field bs))"

text \<open>What the hasher is fed for the mutations, from the ordinal of the next staged value on.\<close>

fun hashed_mutations :: "KvRuntime \<Rightarrow> NativeStageWitness list \<Rightarrow> u16 \<Rightarrow> Mutation list \<Rightarrow> Status + bytes" where
  "hashed_mutations runtime retained staged_ordinal [] = Inr []"
| "hashed_mutations runtime retained staged_ordinal (MutPut relative_key precondition value extensions # ms) =
     ebind (case value of
              InlineValue bs \<Rightarrow> Inr (staged_ordinal, [0] @ kv_hash_field bs)
            | Staged handle \<Rightarrow>
                ebind (stage_metadata runtime retained staged_ordinal handle) (\<lambda>(byte_len, content_hash).
                  case checked_add staged_ordinal 1 of
                    None \<Rightarrow> Inl StInvalid
                  | Some following \<Rightarrow> Inr (following, [1] @ put_u64 byte_len @ content_hash))) (\<lambda>(following, source).
     ebind (hashed_extensions extensions) (\<lambda>tail.
     ebind (hashed_mutations runtime retained following ms) (\<lambda>rest.
       Inr ([0] @ kv_hash_field relative_key @ kv_hash_precondition precondition @ source @ tail @ rest))))"
| "hashed_mutations runtime retained staged_ordinal (MutDelete relative_key precondition extensions # ms) =
     ebind (hashed_extensions extensions) (\<lambda>tail.
     ebind (hashed_mutations runtime retained staged_ordinal ms) (\<lambda>rest.
       Inr ([1] @ kv_hash_field relative_key @ kv_hash_precondition precondition @ tail @ rest)))"

text \<open>\<^verbatim>\<open>yas.kv.operation.v1\<close> and a zero byte.\<close>

definition FINGERPRINT_DOMAIN :: bytes where
  "FINGERPRINT_DOMAIN = [121, 97, 115, 46, 107, 118, 46, 111, 112, 101, 114, 97, 116, 105, 111, 110, 46, 118, 49, 0]"

definition fingerprint_input :: "u16 \<Rightarrow> bool \<Rightarrow> bytes \<Rightarrow> Extensions \<Rightarrow> Mutation list \<Rightarrow> KvRuntime \<Rightarrow> NativeStageWitness list \<Rightarrow> Status + bytes" where
  "fingerprint_input kind durable p extensions mutations runtime retained =
     ebind (hashed_extensions extensions) (\<lambda>tail.
     ebind (hashed_mutations runtime retained 0 mutations) (\<lambda>rest.
       Inr (FINGERPRINT_DOMAIN @ put_u16 kind @ [of_bool durable] @ kv_hash_field p @ tail @ put_u64 (of_nat (length mutations)) @ rest)))"

definition kv_operation_fingerprint ::
  "(bytes \<Rightarrow> bytes) \<Rightarrow> u16 \<Rightarrow> bool \<Rightarrow> bytes \<Rightarrow> Extensions \<Rightarrow> Mutation list \<Rightarrow> KvRuntime \<Rightarrow> NativeStageWitness list \<Rightarrow> Status + bytes" where
  "kv_operation_fingerprint hash kind durable p extensions mutations runtime retained =
     ebind (fingerprint_input kind durable p extensions mutations runtime retained) (\<lambda>fed. Inr (hash fed))"

definition KV_OPEN :: u16 where "KV_OPEN = 0"
definition KV_CLOSE :: u16 where "KV_CLOSE = 1"
definition KV_WATCH :: u16 where "KV_WATCH = 2"
definition KV_UNWATCH :: u16 where "KV_UNWATCH = 3"
definition KV_GET :: u16 where "KV_GET = 4"
definition KV_STAGE_VALUE :: u16 where "KV_STAGE_VALUE = 5"
definition KV_PUT :: u16 where "KV_PUT = 6"
definition KV_DELETE :: u16 where "KV_DELETE = 7"
definition KV_BATCH :: u16 where "KV_BATCH = 8"

lemmas kv_kind_defs = KV_OPEN_def KV_CLOSE_def KV_WATCH_def KV_UNWATCH_def KV_GET_def KV_STAGE_VALUE_def KV_PUT_def KV_DELETE_def KV_BATCH_def

text \<open>\<^verbatim>\<open>i64::try_from(ns).unwrap_or(i64::MAX)\<close>.\<close>

definition unix_ns :: "u64 \<Rightarrow> int" where
  "unix_ns ns = (if unat ns < 2 ^ 63 then int (unat ns) else 2 ^ 63 - 1)"

definition commit_result :: "NativeMutationResult \<Rightarrow> MutationResult" where
  "commit_result r =
     \<lparr>mu_status = mr_status r, mu_modification_revision = mr_modification_revision r, mu_modified_unix_ns = unix_ns (mr_mtime_ns r),
      mu_content_hash = mr_content_hash r, mu_byte_len = mr_byte_len r, mu_extensions = []\<rparr>"

definition encode_kv_commit :: "u16 \<Rightarrow> NativeCommit \<Rightarrow> bytes option" where
  "encode_kv_commit kind commit =
     (let results = map commit_result (cm_results commit);
          ok = (\<lambda>r. case r of Inl _ \<Rightarrow> None | Inr body \<Rightarrow> Some body)
      in
      if kind = KV_BATCH then ok (BatchResult_encode \<lparr>br_store_revision = cm_store_revision commit, br_results = results, br_extensions = []\<rparr>)
      else case results of [] \<Rightarrow> None | r # _ \<Rightarrow> ok (MutationResult_encode r))"

fun Mutation_relative_key :: "Mutation \<Rightarrow> bytes" where
  "Mutation_relative_key (MutPut relative_key _ _ _) = relative_key"
| "Mutation_relative_key (MutDelete relative_key _ _) = relative_key"

text \<open>The loop that resolves values: the native mutations, the stages they use and the witnesses of these, in the order of the batch.\<close>

fun native_mutations ::
  "(bytes \<Rightarrow> bytes) \<Rightarrow> bytes \<Rightarrow> (u64, KvStage) BTreeMap \<Rightarrow> Mutation list \<Rightarrow> u64 list \<Rightarrow> NativeStageWitness list \<Rightarrow>
   Status + NativeMutation list \<times> u64 list \<times> NativeStageWitness list" where
  "native_mutations hash p stages [] used_stages stage_witnesses = Inr ([], used_stages, stage_witnesses)"
| "native_mutations hash p stages (MutPut relative_key precondition value extensions # ms) used_stages stage_witnesses =
     (case value of
        InlineValue bs \<Rightarrow>
          ebind (native_mutations hash p stages ms used_stages stage_witnesses) (\<lambda>(native, used, witnesses).
            Inr (Put (p @ relative_key) precondition bs (hash bs) # native, used, witnesses))
      | Staged handle \<Rightarrow>
          case bt_get stages handle of
            None \<Rightarrow> Inl StNotFound
          | Some stage \<Rightarrow>
              if \<not> kg_sealed stage then Inl StBusy
              else if handle \<in> set used_stages then Inl StInvalid
              else if 2 ^ 16 \<le> length stage_witnesses then Inl StInvalid
              else
                let w = \<lparr>sw_ordinal = of_nat (length stage_witnesses), sw_original_handle = handle, sw_byte_len = kg_byte_len stage,
                         sw_content_hash = kg_content_hash stage\<rparr>
                in ebind (native_mutations hash p stages ms (used_stages @ [handle]) (stage_witnesses @ [w])) (\<lambda>(native, used, witnesses).
                     Inr (Put (p @ relative_key) precondition (kg_bytes stage) (kg_content_hash stage) # native, used, witnesses)))"
| "native_mutations hash p stages (MutDelete relative_key precondition extensions # ms) used_stages stage_witnesses =
     ebind (native_mutations hash p stages ms used_stages stage_witnesses) (\<lambda>(native, used, witnesses).
       Inr (Delete (p @ relative_key) precondition # native, used, witnesses))"

definition mutation_status :: "NativeMutationError \<Rightarrow> Status" where
  "mutation_status e =
     (case e of MutationInvalid \<Rightarrow> StInvalid | MutationResourceExhausted \<Rightarrow> StResourceExhausted | MutationOperationConflict \<Rightarrow> StConflict)"

text \<open>After the store has settled the operation: the stages of a commit are spent, and the request is answered or waits for the disk.\<close>

definition finish_mutation :: "u16 \<Rightarrow> u32 \<Rightarrow> u64 list \<Rightarrow> NativeCommit \<Rightarrow> Session \<Rightarrow> outcome \<times> Session" where
  "finish_mutation kind request_id used_stages commit s =
     (let s1 = (if list_all (\<lambda>r. mr_status r = StOk) (cm_results commit) then fold consume_kv_stage (sort used_stages) s else s) in
      case encode_kv_commit kind commit of
        None \<Rightarrow> (Broken, s1)
      | Some body \<Rightarrow>
          if cm_persistence_failed commit then (Reply StIo [], s1)
          else case cm_durable commit of
                 Some channel \<Rightarrow>
                   (Waiting, s1\<lparr>ss_pending_requests := bt_insert request_id \<lparr>kd_kind = kind, kd_body = body, kd_channel = channel\<rparr>
                                 (ss_pending_requests s1)\<rparr>)
               | None \<Rightarrow> (Reply StOk body, s1))"

text \<open>Time of the wall clock is \<open>now_ns\<close>; the request that reaches the store is the record of its arguments.\<close>

definition mutate_kv ::
  "(bytes \<Rightarrow> bytes) \<Rightarrow> (string \<Rightarrow> u64 option) \<Rightarrow> u64 \<Rightarrow> u16 \<Rightarrow> u32 \<Rightarrow> u64 \<Rightarrow> bytes \<Rightarrow> bool \<Rightarrow> Extensions \<Rightarrow> Mutation list \<Rightarrow>
   Session \<Rightarrow> Kv \<Rightarrow> outcome \<times> Session \<times> Kv" where
  "mutate_kv hash deployment now_ns kind request_id namespace_handle operation_id durable extensions mutations s K =
     (case bt_get (kr_namespaces (ss_kv s)) namespace_handle of
        None \<Rightarrow> (Reply StNotFound [], s, K)
      | Some p \<Rightarrow>
          if list_ex (\<lambda>m. \<not> is_ok (kv_validate_full_key p (Mutation_relative_key m))) mutations then (Reply StInvalid [], s, K)
          else
            let retained = (case native_stage_witnesses operation_id (kv_store K) of None \<Rightarrow> [] | Some ws \<Rightarrow> ws) in
            case kv_operation_fingerprint hash kind durable p extensions mutations (ss_kv s) retained of
              Inl status \<Rightarrow> (Reply status [], s, K)
            | Inr fingerprint \<Rightarrow>
                case native_replay operation_id fingerprint (kv_store K) of
                  Inl MutationOperationConflict \<Rightarrow> (Reply StConflict [], s, K)
                | Inl _ \<Rightarrow> (Reply StInternal [], s, K)
                | Inr (Some commit) \<Rightarrow>
                    (case encode_kv_commit kind commit of None \<Rightarrow> (Broken, s, K) | Some body \<Rightarrow> (Reply StOk body, s, K))
                | Inr None \<Rightarrow>
                    case native_mutations hash p (kr_stages (ss_kv s)) mutations [] [] of
                      Inl status \<Rightarrow> (Reply status [], s, K)
                    | Inr (native, used_stages, stage_witnesses) \<Rightarrow>
                        case native_mutate deployment now_ns operation_id fingerprint durable stage_witnesses native K of
                          (Inl e, K') \<Rightarrow> (Reply (mutation_status e) [], s, K')
                        | (Inr commit, K') \<Rightarrow>
                            case finish_mutation kind request_id used_stages commit s of (r, s') \<Rightarrow> (r, s', K'))"

definition put_kv :: "(bytes \<Rightarrow> bytes) \<Rightarrow> (string \<Rightarrow> u64 option) \<Rightarrow> u64 \<Rightarrow> u32 \<Rightarrow> bytes \<Rightarrow> Session \<Rightarrow> Kv \<Rightarrow> outcome \<times> Session \<times> Kv" where
  "put_kv hash deployment now_ns request_id payload s K =
     (case kv_Put_decode payload of
        Inl _ \<Rightarrow> (Reply StInvalid [], s, K)
      | Inr r \<Rightarrow>
          mutate_kv hash deployment now_ns KV_PUT request_id (pu_namespace_handle r) (pu_operation_id r) (pu_durable r) []
            [MutPut (pu_relative_key r) (pu_precondition r) (pu_value r) (pu_extensions r)] s K)"

definition delete_kv :: "(bytes \<Rightarrow> bytes) \<Rightarrow> (string \<Rightarrow> u64 option) \<Rightarrow> u64 \<Rightarrow> u32 \<Rightarrow> bytes \<Rightarrow> Session \<Rightarrow> Kv \<Rightarrow> outcome \<times> Session \<times> Kv" where
  "delete_kv hash deployment now_ns request_id payload s K =
     (case kv_Delete_decode payload of
        Inl _ \<Rightarrow> (Reply StInvalid [], s, K)
      | Inr r \<Rightarrow>
          mutate_kv hash deployment now_ns KV_DELETE request_id (de_namespace_handle r) (de_operation_id r) (de_durable r) []
            [MutDelete (de_relative_key r) (de_precondition r) (de_extensions r)] s K)"

definition batch_kv :: "(bytes \<Rightarrow> bytes) \<Rightarrow> (string \<Rightarrow> u64 option) \<Rightarrow> u64 \<Rightarrow> u32 \<Rightarrow> bytes \<Rightarrow> Session \<Rightarrow> Kv \<Rightarrow> outcome \<times> Session \<times> Kv" where
  "batch_kv hash deployment now_ns request_id payload s K =
     (case Batch_decode payload of
        Inl _ \<Rightarrow> (Reply StInvalid [], s, K)
      | Inr r \<Rightarrow>
          mutate_kv hash deployment now_ns KV_BATCH request_id (ba_namespace_handle r) (ba_operation_id r) (ba_durable r) (ba_extensions r)
            (ba_mutations r) s K)"

text \<open>The channel of a durable mutation has its answer.\<close>

definition kv_durable_complete :: "u32 \<Rightarrow> u16 \<Rightarrow> bytes \<Rightarrow> bool \<Rightarrow> Session \<Rightarrow> outcome \<times> Session" where
  "kv_durable_complete request_id kind body persisted s =
     (case bt_get (ss_pending_requests s) request_id of
        None \<Rightarrow> (Quiet, s)
      | Some pending \<Rightarrow>
          let s1 = s\<lparr>ss_pending_requests := bt_remove request_id (ss_pending_requests s)\<rparr> in
          if kd_kind pending \<noteq> kind then (Broken, s1)
          else (Reply (if persisted then StOk else StIo) (if persisted then body else []), s1))"

section \<open>Watches\<close>

definition LEGACY_STATE_EVENT_PAYLOAD_BYTES :: u64 where "LEGACY_STATE_EVENT_PAYLOAD_BYTES = 1048571"
definition BASE_WATCH_LIMIT :: nat where "BASE_WATCH_LIMIT = 16"
definition MAX_WATCHES :: nat where "MAX_WATCHES = 64"

definition watch_limit_for_peer :: "u64 \<Rightarrow> nat" where
  "watch_limit_for_peer peer_max_buffered = min (max (unat (peer_max_buffered div LEGACY_STATE_EVENT_PAYLOAD_BYTES)) BASE_WATCH_LIMIT) MAX_WATCHES"

definition watch_limit :: "Session \<Rightarrow> nat" where
  "watch_limit s = watch_limit_for_peer (rl_max_buffered (ss_peer_receive s))"

definition state_initial_credit :: "u64 \<Rightarrow> Session \<Rightarrow> u64" where
  "state_initial_credit proposed s = min proposed (rl_max_buffered (ss_peer_receive s) div of_nat (watch_limit s))"

definition alloc_subscription_id :: "Session \<Rightarrow> (u32 \<times> Session) option" where
  "alloc_subscription_id s =
     (let subscription_id = ss_next_subscription_id s in
      if subscription_id = 0 then None
      else case checked_add subscription_id 1 of None \<Rightarrow> None
           | Some following \<Rightarrow> Some (subscription_id, s\<lparr>ss_next_subscription_id := following\<rparr>))"

definition has_unknown_required :: "Extensions \<Rightarrow> u16 list \<Rightarrow> bool" where
  "has_unknown_required extensions supported \<longleftrightarrow> list_ex (\<lambda>e. e_required e \<and> e_tag e \<notin> set supported) extensions"

text \<open>The largest payload a STATE event of a subscription may have.\<close>

definition StateEventLimit_new :: "ReceiveLimits \<Rightarrow> u64 \<Rightarrow> nat" where
  "StateEventLimit_new peer credit_window =
     (let header_bytes = of_nat EVENT_HEADER_BYTES;
          wire_payload = saturating_sub (ucast (rl_max_frame peer)) header_bytes;
          decoded_payload = saturating_sub (ucast (rl_max_decoded peer)) header_bytes
      in unat (min (min credit_window wire_payload) decoded_payload))"

definition StateEventLimit_contains :: "nat \<Rightarrow> StateEvent \<Rightarrow> bool" where
  "StateEventLimit_contains max_payload_bytes event =
     (case StateEvent_encode event of Inl _ \<Rightarrow> False | Inr payload \<Rightarrow> length payload \<le> max_payload_bytes)"

definition state_snapshot_begin_event :: "u32 \<Rightarrow> u64 \<Rightarrow> StateEvent" where
  "state_snapshot_begin_event subscription_id revision =
     \<lparr>se_subscription_id = subscription_id, se_phase = SnapshotBegin, se_flags = 0, se_from_revision = 0, se_to_revision = revision, se_records = []\<rparr>"

definition state_snapshot_record_event :: "u32 \<Rightarrow> u64 \<Rightarrow> Record \<Rightarrow> StateEvent" where
  "state_snapshot_record_event subscription_id revision r =
     \<lparr>se_subscription_id = subscription_id, se_phase = SnapshotRecords, se_flags = 0, se_from_revision = revision, se_to_revision = revision,
      se_records = [r]\<rparr>"

definition state_snapshot_end_event :: "u32 \<Rightarrow> u64 \<Rightarrow> StateEvent" where
  "state_snapshot_end_event subscription_id revision =
     \<lparr>se_subscription_id = subscription_id, se_phase = SnapshotEnd, se_flags = 0, se_from_revision = revision, se_to_revision = revision,
      se_records = []\<rparr>"

definition state_reset_event :: "u32 \<Rightarrow> u64 \<Rightarrow> u64 \<Rightarrow> StateEvent" where
  "state_reset_event subscription_id from_revision to_revision =
     \<lparr>se_subscription_id = subscription_id, se_phase = Phase.Reset, se_flags = 0, se_from_revision = from_revision, se_to_revision = to_revision,
      se_records = []\<rparr>"

definition strip_prefix :: "bytes \<Rightarrow> bytes \<Rightarrow> bytes option" where
  "strip_prefix p key = (if prefix p key then Some (drop (length p) key) else None)"

definition kv_state_record :: "NativeEntry \<Rightarrow> bytes \<Rightarrow> u32 \<Rightarrow> RecordKind \<Rightarrow> Record option" where
  "kv_state_record entry p inline_max kind =
     (case strip_prefix p (ne_key entry) of
        None \<Rightarrow> None
      | Some relative_key \<Rightarrow>
          case kv_EntryRecord_state_record \<lparr>er_relative_key = relative_key, er_content_hash = ne_content_hash entry,
                 er_byte_len = of_nat (length (ne_value entry)), er_modification_revision = ne_modification_revision entry,
                 er_modified_unix_ns = unix_ns (ne_mtime_ns entry),
                 er_inline_value = (if length (ne_value entry) \<le> unat inline_max then Some (ne_value entry) else None), er_extensions = []\<rparr> kind of
            Inl _ \<Rightarrow> None
          | Inr r \<Rightarrow> Some r)"

definition maximal_kv_state_record :: "error + Record" where
  "maximal_kv_state_record =
     kv_EntryRecord_state_record \<lparr>er_relative_key = replicate KV_MAX_KEY_BYTES 107, er_content_hash = replicate 32 255,
       er_byte_len = of_nat KV_MAX_INLINE_BYTES, er_modification_revision = - 1, er_modified_unix_ns = 2 ^ 63 - 1,
       er_inline_value = Some (replicate KV_MAX_INLINE_BYTES 255), er_extensions = []\<rparr> Add"

text \<open>\<open>Inl\<close> is the panic of \<^verbatim>\<open>expect\<close>.\<close>

definition state_family_minimum_payload :: "error + nat" where
  "state_family_minimum_payload =
     ebind maximal_kv_state_record (\<lambda>r. ebind (StateEvent_encode (state_snapshot_record_event 1 1 r)) (\<lambda>payload. Inr (length payload)))"

definition state_snapshot_is_admissible :: "u32 \<Rightarrow> u64 \<Rightarrow> Record option list \<Rightarrow> nat \<Rightarrow> bool" where
  "state_snapshot_is_admissible subscription_id revision records max_payload_bytes \<longleftrightarrow>
     (case state_family_minimum_payload of Inl _ \<Rightarrow> False | Inr n \<Rightarrow> n \<le> max_payload_bytes)
     \<and> StateEventLimit_contains max_payload_bytes (state_snapshot_begin_event subscription_id revision)
     \<and> list_all (\<lambda>r. case r of None \<Rightarrow> False
                   | Some r \<Rightarrow> StateEventLimit_contains max_payload_bytes (state_snapshot_record_event subscription_id revision r)) records
     \<and> StateEventLimit_contains max_payload_bytes (state_snapshot_end_event subscription_id revision)"

text \<open>The task of the watch starts from the snapshot taken here, with this limit; \<open>None\<close> when no task starts.\<close>

record WatchTask =
  tk_subscription_id :: u32
  tk_prefix :: bytes
  tk_inline_max :: u32
  tk_snapshot :: NativeWatch
  tk_event_limit :: nat

definition watch_kv :: "bytes \<Rightarrow> Session \<Rightarrow> Kv \<Rightarrow> outcome \<times> Session \<times> WatchTask option" where
  "watch_kv payload s K =
     (case kv_Watch_decode payload of
        Inl _ \<Rightarrow> (Reply StInvalid [], s, None)
      | Inr request \<Rightarrow>
          if has_unknown_required (w_extensions (kw_state request)) [] then (Reply StUnsupported [], s, None)
          else if watch_limit s \<le> bt_len (ss_watchers s) then (Reply StResourceExhausted [], s, None)
          else case bt_get (kr_namespaces (ss_kv s)) (kw_namespace_handle request) of
            None \<Rightarrow> (Reply StNotFound [], s, None)
          | Some p \<Rightarrow>
              let snapshot = native_watch p (kv_store K) in
              case alloc_subscription_id s of
                None \<Rightarrow> (Reply StResourceExhausted [], s, None)
              | Some (subscription_id, s1) \<Rightarrow>
                  case WatchResult_encode \<lparr>wr_subscription_id = subscription_id, wr_mode = ModeSnapshot, wr_current_revision = nw_revision snapshot,
                         wr_extensions = []\<rparr> of
                    Inl _ \<Rightarrow> (Broken, s1, None)
                  | Inr body \<Rightarrow>
                      case FlowControl_new (state_initial_credit (w_initial_credit (kw_state request)) s1) (ss_outbound_credit s1) of (control, b) \<Rightarrow>
                      let event_limit = StateEventLimit_new (ss_peer_receive s1) (fc_limit control) in
                      if \<not> state_snapshot_is_admissible subscription_id (nw_revision snapshot)
                             (map (\<lambda>entry. kv_state_record entry p (kw_inline_max request) Add) (nw_entries snapshot)) event_limit
                      then (Reply StResourceExhausted [], s1\<lparr>ss_outbound_credit := CreditBudget_release (fc_lease control) b\<rparr>, None)
                      else
                        let flags = (if w_resume (kw_state request) = None then 0 else WATCH_RESUME) in
                        (Reply StOk body,
                         s1\<lparr>ss_outbound_credit := b,
                            ss_watchers := bt_insert subscription_id
                              \<lparr>wt_family = FAMILY_KV, wt_control = control, wt_kv = Some (kw_namespace_handle request, flags)\<rparr> (ss_watchers s1)\<rparr>,
                         Some \<lparr>tk_subscription_id = subscription_id, tk_prefix = p, tk_inline_max = kw_inline_max request, tk_snapshot = snapshot,
                               tk_event_limit = event_limit\<rparr>))"

section \<open>Dispatch\<close>

text \<open>\<open>now\<close> is the monotonic clock and \<open>now_ns\<close> the wall clock.\<close>

definition handle_kv_request ::
  "(bytes \<Rightarrow> bytes) \<Rightarrow> (string \<Rightarrow> u64 option) \<Rightarrow> u64 \<Rightarrow> u64 \<Rightarrow> u16 \<Rightarrow> u32 \<Rightarrow> bytes \<Rightarrow> Session \<Rightarrow> Kv \<Rightarrow> outcome \<times> Session \<times> Kv" where
  "handle_kv_request hash deployment now now_ns kind request_id payload s K =
     (let same = (\<lambda>(r, s'). (r, s', K)) in
      if \<not> kr_enabled (ss_kv s) then (Reply StUnavailable [], s, K)
      else if kind = KV_OPEN then same (open_kv payload s K)
      else if kind = KV_CLOSE then same (close_kv payload s)
      else if kind = KV_WATCH then case watch_kv payload s K of (r, s', _) \<Rightarrow> (r, s', K)
      else if kind = KV_UNWATCH then same (unwatch_kv payload s)
      else if kind = KV_GET then same (get_kv payload s K)
      else if kind = KV_STAGE_VALUE then same (stage_kv_value deployment now payload s)
      else if kind = KV_PUT then put_kv hash deployment now_ns request_id payload s K
      else if kind = KV_DELETE then delete_kv hash deployment now_ns request_id payload s K
      else if kind = KV_BATCH then batch_kv hash deployment now_ns request_id payload s K
      else (Reply StUnsupported [], s, K))"

text \<open>
  What reaches a session: a request of the family, the frames of a transfer, and the timer that drops expired uploads.  A request that is still pending keeps its id, so that
  a second request with it ends the session.
\<close>

datatype frame =
    KvRequest u16 u32 bytes
  | ByteDataFrame bool bytes
  | CloseFrame bool bytes
  | ResetFrame bool bytes
  | GcUploadStages

definition handle_frame ::
  "(bytes \<Rightarrow> bytes) \<Rightarrow> (string \<Rightarrow> u64 option) \<Rightarrow> u64 \<Rightarrow> u64 \<Rightarrow> frame \<Rightarrow> Session \<Rightarrow> Kv \<Rightarrow> outcome \<times> Session \<times> Kv" where
  "handle_frame hash deployment now now_ns f s K =
     (let s1 = gc_expired_kv_stages now s; same = (\<lambda>(r, s'). (r, s', K)) in
      case f of
        KvRequest kind request_id payload \<Rightarrow>
          if bt_has (ss_pending_requests s1) request_id then (Broken, s1, K)
          else handle_kv_request hash deployment now now_ns kind request_id payload s1 K
      | ByteDataFrame sensitive payload \<Rightarrow> same (byte_data sensitive payload s1)
      | CloseFrame sensitive payload \<Rightarrow> same (close_transfer hash sensitive payload s1)
      | ResetFrame sensitive payload \<Rightarrow> same (reset_received sensitive payload s1)
      | GcUploadStages \<Rightarrow> (Quiet, s1, K))"

end
