(* ===== verification/Kv_Uploads.thy ===== *)
theory Kv_Uploads
  imports Kv_Session
begin

text \<open>
  The invariant of the uploads of a session: every stage is reached through its transfer, its leases hold what it was granted, a sealed one has the content its hash
  names, and the totals the session keeps are those of its stages.
\<close>

section \<open>Totals over a map\<close>

definition bt_sum :: "('v \<Rightarrow> nat) \<Rightarrow> ('k::linorder, 'v) BTreeMap \<Rightarrow> nat" where
  "bt_sum f m = sum_list (map (\<lambda>(k, v). f v) (entries m))"

lemma bt_sum_dom: "bt_sum f m = (\<Sum>k \<in> dom (bt_get m). f (the (bt_get m k)))"
  by (simp add: bt_sum_def sum_entries)

lemma bt_sum_remove: "bt_get m k = Some v \<Longrightarrow> bt_sum f m = f v + bt_sum f (bt_remove k m)"
proof -
  assume "bt_get m k = Some v"
  then have "bt_sum f m = f v + (\<Sum>j \<in> dom (bt_get m) - {k}. f (the (bt_get m j)))"
    by (simp add: bt_sum_dom sum.remove [of _ k] domI)
  also have "(\<Sum>j \<in> dom (bt_get m) - {k}. f (the (bt_get m j))) = bt_sum f (bt_remove k m)"
    unfolding bt_sum_dom by (rule sum.cong) (auto split: if_splits)
  finally show ?thesis .
qed

lemma bt_sum_insert: "bt_get m k = None \<Longrightarrow> bt_sum f (bt_insert k v m) = f v + bt_sum f m"
proof -
  assume "bt_get m k = None"
  then have "bt_remove k (bt_insert k v m) = m"
    by (intro bt_eqI) (auto simp: fun_eq_iff)
  then show ?thesis
    using bt_sum_remove [of "bt_insert k v m" k v f] by simp
qed

lemma bt_sum_replace:
  assumes "bt_get m k = Some v" "f w = f v"
  shows "bt_sum f (bt_insert k w m) = bt_sum f m"
proof -
  have "bt_remove k (bt_insert k w m) = bt_remove k m"
    by (intro bt_eqI) (auto simp: fun_eq_iff)
  then show ?thesis
    using bt_sum_remove [of "bt_insert k w m" k w f] bt_sum_remove [OF assms(1), of f] assms(2) by simp
qed

lemma bt_len_sum: "bt_len m = bt_sum (\<lambda>_. 1) m"
  by (simp add: bt_len_card bt_sum_dom)

lemma bt_sum_member: "bt_get m k = Some v \<Longrightarrow> f v \<le> bt_sum f m"
  using bt_sum_remove [of m k v f] by simp

section \<open>The invariant\<close>

definition stage_ok :: "(bytes \<Rightarrow> bytes) \<Rightarrow> KvStage \<Rightarrow> bool" where
  "stage_ok hash g \<longleftrightarrow>
     unat (kg_received g) = length (kg_bytes g) \<and> kg_received g \<le> kg_byte_len g
     \<and> unat (kg_retained_credit g) = length (kg_bytes g) \<and> unat (kg_receive_credit g) + unat (kg_retained_credit g) = unat (kg_byte_len g)
     \<and> length (kg_content_hash g) = 32 \<and> kg_byte_len g \<le> KV_MAX_VALUE_BYTES
     \<and> (kg_sealed g \<longrightarrow> kg_received g = kg_byte_len g \<and> hash (kg_bytes g) = kg_content_hash g)"

definition staged :: "KvRuntime \<Rightarrow> nat" where
  "staged kv = bt_sum (\<lambda>g. unat (kg_byte_len g)) (kr_stages kv)"

definition routes_ok :: "KvRuntime \<Rightarrow> bool" where
  "routes_ok kv \<longleftrightarrow>
     (\<forall>h g. bt_get (kr_stages kv) h = Some g \<longrightarrow> bt_get (kr_transfer_to_stage kv) (kg_transfer_id g) = Some h)
     \<and> (\<forall>t h. bt_get (kr_transfer_to_stage kv) t = Some h \<longrightarrow> (\<exists>g. bt_get (kr_stages kv) h = Some g \<and> kg_transfer_id g = t))"

text \<open>What the session has consumed, by the oldest first, and no more than the store remembers of its operations.\<close>

definition consumed_ok :: "KvConsumedStages \<Rightarrow> bool" where
  "consumed_ok c \<longleftrightarrow> distinct (kc_order c) \<and> dom (bt_get (kc_values c)) = set (kc_order c) \<and> length (kc_order c) \<le> MAX_RECENT_OPERATION_REPLAYS
     \<and> (\<forall>h v. bt_get (kc_values c) h = Some v \<longrightarrow> kc_byte_len v \<le> KV_MAX_VALUE_BYTES \<and> length (kc_content_hash v) = 32)"

text \<open>Handles are given out once: a stage and a spent one have handles below the next.\<close>

definition handles_ok :: "Session \<Rightarrow> bool" where
  "handles_ok s \<longleftrightarrow>
     (\<forall>h g. bt_get (kr_stages (ss_kv s)) h = Some g \<longrightarrow>
        h < kr_next_staging_handle (ss_kv s) \<and> h \<noteq> 0 \<and> bt_get (kc_values (kr_consumed_stages (ss_kv s))) h = None)
     \<and> (\<forall>h v. bt_get (kc_values (kr_consumed_stages (ss_kv s))) h = Some v \<longrightarrow> h < kr_next_staging_handle (ss_kv s) \<and> h \<noteq> 0)
     \<and> (\<forall>t h. bt_get (kr_transfer_to_stage (ss_kv s)) t = Some h \<longrightarrow> t < ss_next_transfer_id s)"

definition KV_STAGED_MAX :: nat where "KV_STAGED_MAX = 67108864"
definition KV_STAGES_MAX :: nat where "KV_STAGES_MAX = 16"

text \<open>\<open>other\<close> bytes of the budget are with the other families.\<close>

definition session_ok :: "(bytes \<Rightarrow> bytes) \<Rightarrow> nat \<Rightarrow> Session \<Rightarrow> bool" where
  "session_ok hash other s \<longleftrightarrow>
     (\<forall>h g. bt_get (kr_stages (ss_kv s)) h = Some g \<longrightarrow> stage_ok hash g)
     \<and> routes_ok (ss_kv s) \<and> handles_ok s \<and> consumed_ok (kr_consumed_stages (ss_kv s))
     \<and> unat (kr_staged_bytes (ss_kv s)) = staged (ss_kv s) \<and> staged (ss_kv s) \<le> KV_STAGED_MAX \<and> bt_len (kr_stages (ss_kv s)) \<le> KV_STAGES_MAX
     \<and> holds (ss_inbound_credit s) (other + staged (ss_kv s))"

text \<open>The invariant is about these parts of a session.\<close>

lemma session_ok_cong:
  "ss_kv s = ss_kv t \<Longrightarrow> ss_inbound_credit s = ss_inbound_credit t \<Longrightarrow> ss_next_transfer_id s = ss_next_transfer_id t \<Longrightarrow>
   session_ok hash other s = session_ok hash other t"
  by (simp add: session_ok_def handles_ok_def)

lemma session_ok_later:
  assumes "session_ok hash other s" "ss_kv t = ss_kv s" "ss_inbound_credit t = ss_inbound_credit s" "ss_next_transfer_id s \<le> ss_next_transfer_id t"
  shows "session_ok hash other t"
proof -
  have "handles_ok s"
    using assms(1) by (simp add: session_ok_def)
  then have "handles_ok t"
    using assms(2,4) by (auto simp: handles_ok_def intro: less_le_trans)
  then show ?thesis
    using assms by (simp add: session_ok_def)
qed

lemma new_session_ok: "session_ok hash 0 (Session_new enabled selected peer inbound_max outbound_max transfers)"
  by (auto simp: Session_new_def session_ok_def KvRuntime_new_def routes_ok_def handles_ok_def consumed_ok_def staged_def bt_sum_def bt_len_def holds_def CreditBudget_new_def)

section \<open>Removing a stage\<close>

definition without_stage :: "u64 \<Rightarrow> KvStage \<Rightarrow> KvConsumedStages \<Rightarrow> Session \<Rightarrow> Session" where
  "without_stage h g c s =
     drop_stage g (s\<lparr>ss_kv := (ss_kv s)\<lparr>kr_stages := bt_remove h (kr_stages (ss_kv s)),
       kr_transfer_to_stage := bt_remove (kg_transfer_id g) (kr_transfer_to_stage (ss_kv s)),
       kr_staged_bytes := saturating_sub (kr_staged_bytes (ss_kv s)) (kg_byte_len g), kr_consumed_stages := c\<rparr>\<rparr>)"

lemma remove_stage_eq:
  "remove_kv_stage h s = (case bt_get (kr_stages (ss_kv s)) h of None \<Rightarrow> s | Some g \<Rightarrow> without_stage h g (kr_consumed_stages (ss_kv s)) s)"
  by (simp add: remove_kv_stage_def without_stage_def Let_def split: option.split)

lemma consume_stage_eq:
  "consume_kv_stage h s = (case bt_get (kr_stages (ss_kv s)) h of None \<Rightarrow> s | Some g \<Rightarrow>
     without_stage h g (KvConsumedStages_insert h \<lparr>kc_byte_len = kg_byte_len g, kc_content_hash = kg_content_hash g\<rparr> (kr_consumed_stages (ss_kv s))) s)"
  by (simp add: consume_kv_stage_def without_stage_def Let_def split: option.split)

lemma routes_removed:
  assumes "routes_ok kv" "bt_get (kr_stages kv) h = Some g"
  shows "routes_ok (kv\<lparr>kr_stages := bt_remove h (kr_stages kv), kr_transfer_to_stage := bt_remove (kg_transfer_id g) (kr_transfer_to_stage kv),
    kr_staged_bytes := n, kr_consumed_stages := c\<rparr>)"
proof -
  have to: "bt_get (kr_transfer_to_stage kv) (kg_transfer_id g') = Some h'" if "bt_get (kr_stages kv) h' = Some g'" for h' g'
    using assms(1) that by (simp add: routes_ok_def)
  have fro: "\<exists>g. bt_get (kr_stages kv) h = Some g \<and> kg_transfer_id g = t" if "bt_get (kr_transfer_to_stage kv) t = Some h" for t h
    using assms(1) that by (simp add: routes_ok_def)
  have "bt_get (bt_remove (kg_transfer_id g) (kr_transfer_to_stage kv)) (kg_transfer_id g') = Some h'"
    if "bt_get (bt_remove h (kr_stages kv)) h' = Some g'" for h' g'
    using that to [of h' g'] to [OF assms(2)] by (auto split: if_splits)
  moreover have "\<exists>g. bt_get (bt_remove h (kr_stages kv)) h' = Some g \<and> kg_transfer_id g = t"
    if "bt_get (bt_remove (kg_transfer_id g) (kr_transfer_to_stage kv)) t = Some h'" for t h'
    using that fro [of t h'] assms(2) by (auto split: if_splits)
  ultimately show ?thesis
    unfolding routes_ok_def by simp
qed

lemma drop_stage_holds:
  assumes "holds b (n + unat (kg_byte_len g))" "unat (kg_receive_credit g) + unat (kg_retained_credit g) = unat (kg_byte_len g)"
  shows "holds (CreditBudget_release (kg_retained_credit g) (CreditBudget_release (kg_receive_credit g) b)) n"
proof -
  have "unat (kg_receive_credit g) \<le> n + unat (kg_byte_len g)" "unat (kg_retained_credit g) \<le> n + unat (kg_byte_len g) - unat (kg_receive_credit g)"
    using assms(2) by auto
  note release_holds(1) [OF release_holds(1) [OF assms(1) this(1)] this(2)]
  moreover have "n + unat (kg_byte_len g) - unat (kg_receive_credit g) - unat (kg_retained_credit g) = n"
    using assms(2) by simp
  ultimately show ?thesis
    by simp
qed

lemma without_stage_ok:
  assumes "session_ok hash other s" "bt_get (kr_stages (ss_kv s)) h = Some g"
    and "consumed_ok c" "\<And>v w. bt_get (kc_values c) v = Some w \<Longrightarrow> v = h \<or> bt_get (kc_values (kr_consumed_stages (ss_kv s))) v \<noteq> None"
  shows "session_ok hash other (without_stage h g c s)"
proof -
  let ?kv = "ss_kv s" and ?n = "unat (kg_byte_len g)"
  let ?stages = "bt_remove h (kr_stages ?kv)"
  have g: "stage_ok hash g" "handles_ok s" "routes_ok ?kv"
    using assms(1,2) by (simp_all add: session_ok_def)
  have total: "staged ?kv = ?n + bt_sum (\<lambda>g. unat (kg_byte_len g)) ?stages" "bt_len (kr_stages ?kv) = Suc (bt_len ?stages)"
    using bt_sum_remove [OF assms(2)] by (simp_all add: staged_def bt_len_sum)
  have h: "h < kr_next_staging_handle ?kv" "h \<noteq> 0"
    using g(2) assms(2) by (auto simp: handles_ok_def)
  have c: "v < kr_next_staging_handle ?kv \<and> v \<noteq> 0 \<and> (v = h \<or> bt_get (kr_stages ?kv) v = None)" if "bt_get (kc_values c) v = Some w" for v w
    using assms(4) [OF that] h g(2) unfolding handles_ok_def by (metis not_Some_eq option.discI)
  then have "bt_get (kc_values c) v = None" if "v \<noteq> h" "bt_get (kr_stages ?kv) v = Some w" for v w
    using that by (metis option.discI not_Some_eq)
  then have "handles_ok (without_stage h g c s)"
    using c g(2) by (auto simp: handles_ok_def without_stage_def drop_stage_def split: if_splits)
  moreover have "holds (ss_inbound_credit (without_stage h g c s)) (other + bt_sum (\<lambda>g. unat (kg_byte_len g)) ?stages)"
    using assms(1) g(1) total(1) by (auto simp: without_stage_def drop_stage_def session_ok_def stage_ok_def add_ac intro: drop_stage_holds)
  moreover have "routes_ok (ss_kv (without_stage h g c s))"
    using routes_removed [OF g(3) assms(2)] by (simp add: without_stage_def drop_stage_def)
  ultimately show ?thesis
    using assms(1,3) total by (auto simp: session_ok_def without_stage_def drop_stage_def staged_def)
qed

lemma remove_stage_ok:
  assumes "session_ok hash other s"
  shows "session_ok hash other (remove_kv_stage h s)"
proof (cases "bt_get (kr_stages (ss_kv s)) h")
  case (Some g)
  have "consumed_ok (kr_consumed_stages (ss_kv s))"
    using assms by (simp add: session_ok_def)
  then show ?thesis
    using without_stage_ok [OF assms Some] by (auto simp: remove_stage_eq Some)
qed (simp add: remove_stage_eq assms)

lemma gc_ok: "session_ok hash other s \<Longrightarrow> session_ok hash other (gc_expired_kv_stages now s)"
proof -
  have "session_ok hash other s \<Longrightarrow> session_ok hash other (fold (\<lambda>(h, _). remove_kv_stage h) hs s)" for hs :: "(u64 \<times> KvStage) list"
    by (induction hs arbitrary: s) (auto simp: remove_stage_ok)
  then show "session_ok hash other s \<Longrightarrow> session_ok hash other (gc_expired_kv_stages now s)"
    by (simp add: gc_expired_kv_stages_def)
qed

section \<open>Every handler keeps the invariant\<close>

lemma expire_consumed_ok:
  assumes "distinct order" "dom (bt_get vs) = set order" "expire_consumed order vs = (order', vs')"
  shows "distinct order' \<and> dom (bt_get vs') = set order' \<and> length order' \<le> MAX_RECENT_OPERATION_REPLAYS \<and> set order' \<subseteq> set order
    \<and> (\<forall>h v. bt_get vs' h = Some v \<longrightarrow> bt_get vs h = Some v)"
  using assms
proof (induction order vs rule: expire_consumed.induct)
  case (1 expired order vs)
  show ?case
  proof (cases "MAX_RECENT_OPERATION_REPLAYS < Suc (length order)")
    case True
    have "dom (bt_get (bt_remove expired vs)) = set order"
      using 1(2,3) by (auto split: if_splits)
    then show ?thesis
      using 1(1) [OF True] 1(2,4) True by (fastforce split: if_splits)
  next
    case False
    then show ?thesis
      using 1(2-4) by auto
  qed
qed auto

lemma consumed_insert_ok:
  assumes "consumed_ok c" "kc_byte_len v \<le> KV_MAX_VALUE_BYTES" "length (kc_content_hash v) = 32"
  shows "consumed_ok (KvConsumedStages_insert h v c)"
    and "bt_get (kc_values (KvConsumedStages_insert h v c)) k = Some w \<Longrightarrow> if k = h then w = v else bt_get (kc_values c) k = Some w"
proof -
  define order where "order = (if bt_has (kc_values c) h then kc_order c else kc_order c @ [h])"
  obtain order' vs' where step: "expire_consumed order (bt_insert h v (kc_values c)) = (order', vs')"
    by fastforce
  have c: "distinct (kc_order c)" "dom (bt_get (kc_values c)) = set (kc_order c)"
    using assms(1) by (auto simp: consumed_ok_def)
  moreover have "h \<in> set (kc_order c) \<longleftrightarrow> bt_has (kc_values c) h"
    using c(2) by (auto simp: bt_has_def domIff simp flip: c(2))
  ultimately have "distinct order" "dom (bt_get (bt_insert h v (kc_values c))) = set order"
    by (auto simp: order_def)
  note step' = expire_consumed_ok [OF this step]
  then have kept: "bt_get (bt_insert h v (kc_values c)) k = Some w" if "bt_get vs' k = Some w" for k w
    using that by blast
  have eq: "KvConsumedStages_insert h v c = \<lparr>kc_values = vs', kc_order = order'\<rparr>"
    by (simp add: KvConsumedStages_insert_def Let_def step flip: order_def)
  show *: "if k = h then w = v else bt_get (kc_values c) k = Some w" if "bt_get (kc_values (KvConsumedStages_insert h v c)) k = Some w" for k w
    using kept [of k w] that by (auto simp: eq split: if_splits)
  have "bt_get (kc_values c) k = Some w \<Longrightarrow> kc_byte_len w \<le> KV_MAX_VALUE_BYTES \<and> length (kc_content_hash w) = 32" for k w
    using assms(1) by (auto simp: consumed_ok_def)
  then have "kc_byte_len w \<le> KV_MAX_VALUE_BYTES \<and> length (kc_content_hash w) = 32" if "bt_get vs' k = Some w" for k w
    using * [of k w] that assms(2,3) by (auto simp: eq split: if_splits)
  then show "consumed_ok (KvConsumedStages_insert h v c)"
    using step' by (auto simp: consumed_ok_def eq)
qed

lemma consume_stage_ok:
  assumes "session_ok hash other s"
  shows "session_ok hash other (consume_kv_stage h s)"
proof (cases "bt_get (kr_stages (ss_kv s)) h")
  case (Some g)
  have "consumed_ok (kr_consumed_stages (ss_kv s))" "stage_ok hash g"
    using assms Some by (auto simp: session_ok_def)
  then have "kc_byte_len \<lparr>kc_byte_len = kg_byte_len g, kc_content_hash = kg_content_hash g\<rparr> \<le> KV_MAX_VALUE_BYTES"
    "length (kc_content_hash \<lparr>kc_byte_len = kg_byte_len g, kc_content_hash = kg_content_hash g\<rparr>) = 32"
    by (auto simp: stage_ok_def)
  note c = consumed_insert_ok [OF \<open>consumed_ok (kr_consumed_stages (ss_kv s))\<close> this, of h]
  show ?thesis
    unfolding consume_stage_eq Some option.case
    by (rule without_stage_ok [OF assms Some c(1)]) (use c(2) in \<open>fastforce split: if_splits\<close>)
qed (simp add: consume_stage_eq assms)

lemma consume_stages_ok: "session_ok hash other s \<Longrightarrow> session_ok hash other (fold consume_kv_stage hs s)"
  by (induction hs arbitrary: s) (auto simp: consume_stage_ok)

lemma abort_transfer_ok:
  assumes "session_ok hash other s"
  shows "session_ok hash other (abort_transfer t s)"
proof -
  have "session_ok hash other (s\<lparr>ss_outbound := a, ss_outbound_credit := b, ss_outbound_sensitive := c\<rparr>)"
    "session_ok hash other (s\<lparr>ss_outbound_sensitive := c\<rparr>)" for a b c
    using assms by (auto intro: session_ok_later)
  then show ?thesis
    by (auto simp: abort_transfer_def Let_def intro: remove_stage_ok split: option.splits)
qed

text \<open>A stage that is replaced by one with the same transfer and length.\<close>

lemma set_stage_ok:
  assumes "session_ok hash other s" "bt_get (kr_stages (ss_kv s)) h = Some g" "stage_ok hash g'"
    and "kg_byte_len g' = kg_byte_len g" "kg_transfer_id g' = kg_transfer_id g"
  shows "session_ok hash other (set_stage h g' s)"
proof -
  have total: "bt_sum (\<lambda>g. unat (kg_byte_len g)) (bt_insert h g' (kr_stages (ss_kv s))) = staged (ss_kv s)"
    "bt_len (bt_insert h g' (kr_stages (ss_kv s))) = bt_len (kr_stages (ss_kv s))"
    using bt_sum_replace [OF assms(2)] assms(4) by (auto simp: staged_def bt_len_sum)
  have "routes_ok (ss_kv s)"
    using assms(1) by (simp add: session_ok_def)
  then have "routes_ok (ss_kv (set_stage h g' s))"
    using assms(2,5) by (fastforce simp: routes_ok_def set_stage_def)
  moreover have "handles_ok (set_stage h g' s)"
    using assms(1,2) by (auto simp: session_ok_def handles_ok_def set_stage_def)
  ultimately show ?thesis
    using assms(1,3) total by (auto simp: session_ok_def set_stage_def staged_def)
qed

lemma byte_data_ok:
  assumes "session_ok hash other s"
  shows "session_ok hash other (snd (byte_data sensitive payload s))"
proof -
  have reset: "session_ok hash other (snd (reset_transfer t status s))" for t status
    by (simp add: reset_transfer_def abort_transfer_ok assms)
  have accepted: "session_ok hash other (set_stage h (g\<lparr>kg_bytes := kg_bytes g @ d, kg_received := finish, kg_receive_credit := lease, kg_retained_credit := retained\<rparr>) s)"
    if g: "bt_get (kr_stages (ss_kv s)) h = Some g" and "checked_add (kg_received g) (of_nat (length d)) = Some finish" "\<not> kg_sealed g"
      "\<not> TRANSFER_CHUNK < length d" "\<not> kg_byte_len g < finish"
      "CreditLease_transfer_to (of_nat (length d)) (kg_receive_credit g) (kg_retained_credit g) = Some (lease, retained)" for h g d finish lease retained
  proof (rule set_stage_ok [OF assms g])
    have ok: "stage_ok hash g"
      using assms g by (simp add: session_ok_def)
    have len: "unat (of_nat (length d) :: u64) = length d"
      using that(4) by (simp add: TRANSFER_CHUNK_def unsigned_of_nat take_bit_nat_eq_self)
    have "unat finish = unat (kg_received g) + length d"
      using that(2) by (simp add: checked_add_Some_iff len)
    moreover have "unat lease + length d = unat (kg_receive_credit g) \<and> unat retained = unat (kg_retained_credit g) + length d"
    proof (cases "d = []")
      case True
      then show ?thesis
        using that(6) by (simp add: CreditLease_transfer_to_def)
    next
      case False
      then have w: "of_nat (length d) \<noteq> (0 :: u64)"
        using len by (metis length_0_conv unat_0)
      with that(6) have "of_nat (length d) \<le> kg_receive_credit g" "lease = kg_receive_credit g - of_nat (length d)" "retained = kg_retained_credit g + of_nat (length d)"
        by (auto simp: CreditLease_transfer_to_def split: if_splits)
      moreover have "unat (kg_retained_credit g) + unat (of_nat (length d) :: u64) \<le> unat (kg_byte_len g)"
        using ok calculation(1) by (auto simp: stage_ok_def word_le_nat_alt)
      ultimately show ?thesis
        by (simp add: unat_sub word_le_nat_alt unat_plus_bounded len)
    qed
    ultimately show "stage_ok hash (g\<lparr>kg_bytes := kg_bytes g @ d, kg_received := finish, kg_receive_credit := lease, kg_retained_credit := retained\<rparr>)"
      using ok that(3,5) by (auto simp: stage_ok_def not_less)
  qed simp_all
  show ?thesis
    using assms reset accepted by (auto simp: byte_data_def split: sum.splits option.splits)
qed

lemma close_transfer_ok:
  assumes "session_ok hash other s"
  shows "session_ok hash other (snd (close_transfer hash sensitive payload s))"
proof -
  have "session_ok hash other (set_stage h (g\<lparr>kg_sealed := True\<rparr>) s)"
    if g: "bt_get (kr_stages (ss_kv s)) h = Some g" and "kg_received g = kg_byte_len g" "hash (kg_bytes g) = kg_content_hash g" for h g
  proof (rule set_stage_ok [OF assms g])
    have "stage_ok hash g"
      using assms g by (simp add: session_ok_def)
    then show "stage_ok hash (g\<lparr>kg_sealed := True\<rparr>)"
      using that(2,3) by (auto simp: stage_ok_def)
  qed simp_all
  then show ?thesis
    using assms by (auto simp: close_transfer_def reset_transfer_def abort_transfer_ok split: sum.splits option.splits)
qed

lemma reset_received_ok: "session_ok hash other s \<Longrightarrow> session_ok hash other (snd (reset_received sensitive payload s))"
  by (auto simp: reset_received_def abort_transfer_ok split: sum.splits)

lemma alloc_transfer_id_eq:
  assumes "alloc_transfer_id s = Some (t, s')"
  shows "s' = s\<lparr>ss_next_transfer_id := ss_next_transfer_id s + 2\<rparr>" "t = ss_next_transfer_id s" "t < ss_next_transfer_id s'"
  using assms by (auto simp: alloc_transfer_id_def Let_def checked_add_def word_less_nat_alt unat_word_ariths split: if_splits option.splits)

text \<open>Handles and transfer ids only grow.\<close>

lemma next_handle_ok:
  assumes "session_ok hash other s" "kr_next_staging_handle (ss_kv s) \<le> following" "ss_next_transfer_id s \<le> t"
  shows "session_ok hash other (s\<lparr>ss_kv := (ss_kv s)\<lparr>kr_next_staging_handle := following\<rparr>, ss_next_transfer_id := t\<rparr>)"
proof -
  have "handles_ok s"
    using assms(1) by (simp add: session_ok_def)
  then have "handles_ok (s\<lparr>ss_kv := (ss_kv s)\<lparr>kr_next_staging_handle := following\<rparr>, ss_next_transfer_id := t\<rparr>)"
    using assms(2,3) by (auto simp: handles_ok_def intro: less_le_trans)
  then show ?thesis
    using assms(1) by (simp add: session_ok_def routes_ok_def staged_def)
qed

lemma new_stage_ok:
  assumes "session_ok hash other s" "stage_ok hash g" "h < kr_next_staging_handle (ss_kv s)" "h \<noteq> 0" "kg_transfer_id g < ss_next_transfer_id s"
    and "bt_get (kr_stages (ss_kv s)) h = None" "bt_get (kc_values (kr_consumed_stages (ss_kv s))) h = None" "bt_get (kr_transfer_to_stage (ss_kv s)) (kg_transfer_id g) = None"
    and "staged (ss_kv s) + unat (kg_byte_len g) \<le> KV_STAGED_MAX" "bt_len (kr_stages (ss_kv s)) < KV_STAGES_MAX"
    and "holds b (other + staged (ss_kv s) + unat (kg_byte_len g))"
  shows "session_ok hash other (s\<lparr>ss_inbound_credit := b, ss_kv := (ss_kv s)\<lparr>kr_stages := bt_insert h g (kr_stages (ss_kv s)),
    kr_transfer_to_stage := bt_insert (kg_transfer_id g) h (kr_transfer_to_stage (ss_kv s)), kr_staged_bytes := kr_staged_bytes (ss_kv s) + kg_byte_len g\<rparr>\<rparr>)"
    (is "session_ok hash other ?t")
proof -
  have ok: "routes_ok (ss_kv s)" "handles_ok s" "unat (kr_staged_bytes (ss_kv s)) = staged (ss_kv s)"
    using assms(1) by (simp_all add: session_ok_def)
  have total: "staged (ss_kv ?t) = staged (ss_kv s) + unat (kg_byte_len g)" "bt_len (kr_stages (ss_kv ?t)) = Suc (bt_len (kr_stages (ss_kv s)))"
    using bt_sum_insert [OF assms(6)] by (simp_all add: staged_def bt_len_sum)
  have "unat (kr_staged_bytes (ss_kv s)) + unat (kg_byte_len g) < 2 ^ 64"
    using assms(9) by (simp add: ok(3) KV_STAGED_MAX_def)
  then have bs: "unat (kr_staged_bytes (ss_kv s) + kg_byte_len g) = staged (ss_kv s) + unat (kg_byte_len g)"
    by (simp add: unat_word_ariths ok(3))
  have "routes_ok (ss_kv ?t)"
    unfolding routes_ok_def
  proof (intro conjI allI impI)
    fix h' g' assume "bt_get (kr_stages (ss_kv ?t)) h' = Some g'"
    moreover have "kg_transfer_id g' \<noteq> kg_transfer_id g" if "bt_get (kr_stages (ss_kv s)) h' = Some g'"
      using ok(1) that assms(8) unfolding routes_ok_def by (metis option.discI)
    ultimately show "bt_get (kr_transfer_to_stage (ss_kv ?t)) (kg_transfer_id g') = Some h'"
      using ok(1) assms(8) by (auto simp: routes_ok_def split: if_splits)
  next
    fix t h' assume "bt_get (kr_transfer_to_stage (ss_kv ?t)) t = Some h'"
    then show "\<exists>g'. bt_get (kr_stages (ss_kv ?t)) h' = Some g' \<and> kg_transfer_id g' = t"
      using ok(1) assms(6) by (fastforce simp: routes_ok_def split: if_splits)
  qed
  moreover have "handles_ok ?t"
    using ok(2) assms(3-5,7) by (auto simp: handles_ok_def split: if_splits)
  ultimately show ?thesis
    using assms(1,2,9-11) total bs by (auto simp: session_ok_def add.assoc split: if_splits)
qed

lemma install_stage_ok:
  assumes "session_ok hash other t" "sv_byte_len request \<le> KV_MAX_VALUE_BYTES" "length (sv_content_hash request) = 32"
    and s: "s = t\<lparr>ss_inbound_credit := b, ss_next_transfer_id := ss_next_transfer_id t + 2\<rparr>" and id: "transfer_id = ss_next_transfer_id t"
    and less: "transfer_id < ss_next_transfer_id s" and b: "holds b (other + staged (ss_kv t) + unat (sv_byte_len request))"
    and room: "staged (ss_kv t) + unat (sv_byte_len request) \<le> KV_STAGED_MAX" "bt_len (kr_stages (ss_kv t)) < KV_STAGES_MAX"
  shows "session_ok hash other (snd (install_stage now request transfer_id s))"
proof -
  let ?n = "sv_byte_len request" and ?h = "kr_next_staging_handle (ss_kv t)"
  have "holds (CreditBudget_release ?n b) (other + staged (ss_kv t))"
    using release_holds(1) [OF b, of ?n] by simp
  then have dropped: "session_ok hash other (r\<lparr>ss_inbound_credit := CreditBudget_release ?n b\<rparr>)"
    if "session_ok hash other (r\<lparr>ss_inbound_credit := c\<rparr>)" "staged (ss_kv r) = staged (ss_kv t)" for r c
    using that by (simp add: session_ok_def handles_ok_def)
  have kept: "s\<lparr>ss_inbound_credit := ss_inbound_credit t\<rparr> = t\<lparr>ss_next_transfer_id := ss_next_transfer_id t + 2\<rparr>"
    by (simp add: s)
  have "ss_next_transfer_id t \<le> ss_next_transfer_id t + 2"
    using less by (simp add: s id)
  note later = next_handle_ok [OF assms(1) _ this]
  have base: "session_ok hash other (s\<lparr>ss_inbound_credit := CreditBudget_release ?n b\<rparr>)"
    by (rule dropped [where c = "ss_inbound_credit t"]) (use later [of ?h] in \<open>simp_all add: s\<close>)
  show ?thesis
  proof (cases "?h = 0 \<or> checked_add ?h 1 = None")
    case True
    then show ?thesis
      using base by (auto simp: install_stage_def Let_def s)
  next
    case False
    then obtain following where following: "checked_add ?h 1 = Some following" "?h \<noteq> 0"
      by auto
    then have lt: "?h < following"
      by (simp add: checked_add_Some_iff word_less_nat_alt)
    define u where "u = t\<lparr>ss_kv := (ss_kv t)\<lparr>kr_next_staging_handle := following\<rparr>, ss_next_transfer_id := ss_next_transfer_id t + 2\<rparr>"
    have u: "session_ok hash other u"
      unfolding u_def by (rule later) (use lt in simp)
    have handles: "handles_ok t"
      using assms(1) by (simp add: session_ok_def)
    have fresh: "bt_get (kr_stages (ss_kv u)) ?h = None" "bt_get (kc_values (kr_consumed_stages (ss_kv u))) ?h = None" "bt_get (kr_transfer_to_stage (ss_kv u)) transfer_id = None"
      using handles id unfolding handles_ok_def u_def by (auto simp: not_None_eq [symmetric] simp del: not_None_eq)
    have ended: "session_ok hash other (s\<lparr>ss_kv := (ss_kv t)\<lparr>kr_next_staging_handle := following\<rparr>, ss_inbound_credit := CreditBudget_release ?n b\<rparr>)"
      by (rule session_ok_later [OF dropped [where r = u and c = "ss_inbound_credit t"]]) (use u in \<open>simp_all add: u_def s staged_def\<close>)
    define g where "g expires = \<lparr>kg_byte_len = ?n, kg_content_hash = sv_content_hash request, kg_transfer_id = transfer_id, kg_received = 0,
      kg_bytes = [], kg_sealed = False, kg_expires_server_ns = expires, kg_receive_credit = ?n, kg_retained_credit = 0\<rparr>" for expires
    have added: "session_ok hash other (u\<lparr>ss_inbound_credit := b, ss_kv := (ss_kv u)\<lparr>kr_stages := bt_insert ?h (g expires) (kr_stages (ss_kv u)),
      kr_transfer_to_stage := bt_insert (kg_transfer_id (g expires)) ?h (kr_transfer_to_stage (ss_kv u)),
      kr_staged_bytes := kr_staged_bytes (ss_kv u) + kg_byte_len (g expires)\<rparr>\<rparr>)" for expires
    proof (rule new_stage_ok [OF u])
      show "stage_ok hash (g expires)"
        using assms(2,3) by (simp add: stage_ok_def g_def)
      show "bt_get (kr_transfer_to_stage (ss_kv u)) (kg_transfer_id (g expires)) = None"
        using fresh(3) by (simp add: g_def)
    qed (use fresh lt following room b less in \<open>simp_all add: g_def u_def s staged_def\<close>)
    show ?thesis
      using ended following
      by (auto simp: install_stage_def Let_def s split: option.splits sum.splits intro!: session_ok_later [OF added], simp_all add: u_def g_def)
  qed
qed

lemma StageValue_bounds:
  assumes "kv_StageValue_decode payload = Inr request"
  shows "sv_byte_len request \<le> KV_MAX_VALUE_BYTES" "length (sv_content_hash request) = 32"
  using assms by (auto simp: kv_StageValue_decode_iff kv_StageValue_encode_def kv_validate_value_len_def enc_iff)

lemma stage_kv_value_ok:
  assumes "session_ok hash other s"
  shows "session_ok hash other (snd (stage_kv_value deployment now payload s))"
proof (cases "kv_StageValue_decode payload")
  case (Inr request)
  let ?n = "sv_byte_len request" and ?limits = "native_limits deployment"
  have ok: "holds (ss_inbound_credit s) (other + staged (ss_kv s))" "unat (kr_staged_bytes (ss_kv s)) = staged (ss_kv s)"
    using assms by (simp_all add: session_ok_def)
  obtain lease b where lease: "CreditBudget_reserve ?n (ss_inbound_credit s) = (lease, b)"
    by fastforce
  note b = reserve_holds(1) [OF lease [unfolded CreditBudget_reserve_def] ok(1)]
  have refused: "session_ok hash other (s\<lparr>ss_inbound_credit := CreditBudget_release lease b\<rparr>)"
    using assms release_holds(1) [OF b, of lease] by (simp add: session_ok_def handles_ok_def)
  have installed: "session_ok hash other (snd (install_stage now request t s1))"
    if alloc: "alloc_transfer_id (s\<lparr>ss_inbound_credit := b\<rparr>) = Some (t, s1)" and "lease = ?n"
      and room: "\<not> unat (kv_max_stages_per_session ?limits) \<le> bt_len (kr_stages (ss_kv s))"
        "checked_add (kr_staged_bytes (ss_kv s)) ?n = Some total" "\<not> kv_max_staged_bytes_per_session ?limits < total" for t s1 total
  proof (rule install_stage_ok [OF assms StageValue_bounds [OF Inr]])
    show "s1 = s\<lparr>ss_inbound_credit := b, ss_next_transfer_id := ss_next_transfer_id s + 2\<rparr>" "t = ss_next_transfer_id s" "t < ss_next_transfer_id s1"
      using alloc_transfer_id_eq [OF alloc] by simp_all
    show "holds b (other + staged (ss_kv s) + unat ?n)"
      using b that(2) by simp
    show "staged (ss_kv s) + unat ?n \<le> KV_STAGED_MAX" "bt_len (kr_stages (ss_kv s)) < KV_STAGES_MAX"
      using room ok(2) by (auto simp: checked_add_Some_iff native_limits_def kv_HARD_def KV_STAGED_MAX_def KV_STAGES_MAX_def word_less_nat_alt)
  qed
  show ?thesis
    using assms refused installed
    by (auto simp: stage_kv_value_def Inr Let_def lease split: option.splits)
qed (simp add: stage_kv_value_def assms)

text \<open>The handlers that leave the uploads alone.\<close>

lemma drop_watcher_ok: "session_ok hash other s \<Longrightarrow> session_ok hash other (drop_watcher i s)"
  by (auto simp: drop_watcher_def split: option.split intro: session_ok_later)

lemma drop_watchers_ok: "session_ok hash other s \<Longrightarrow> session_ok hash other (fold drop_watcher is s)"
  by (induction "is" arbitrary: s) (auto simp: drop_watcher_ok)

lemma namespaces_ok:
  "session_ok hash other s \<Longrightarrow> session_ok hash other (s\<lparr>ss_kv := (ss_kv s)\<lparr>kr_next_namespace_handle := n, kr_namespaces := ns\<rparr>\<rparr>)"
  "session_ok hash other s \<Longrightarrow> session_ok hash other (s\<lparr>ss_kv := (ss_kv s)\<lparr>kr_namespaces := ns\<rparr>\<rparr>)"
  by (simp_all add: session_ok_def routes_ok_def handles_ok_def staged_def)

lemma open_kv_ok: "session_ok hash other s \<Longrightarrow> session_ok hash other (snd (open_kv payload s K))"
  by (auto simp: open_kv_def Let_def namespaces_ok split: sum.splits option.splits)

lemma close_kv_ok: "session_ok hash other s \<Longrightarrow> session_ok hash other (snd (close_kv payload s))"
  by (auto simp: close_kv_def Let_def intro!: drop_watchers_ok namespaces_ok split: sum.splits option.splits)

lemma unwatch_kv_ok: "session_ok hash other s \<Longrightarrow> session_ok hash other (snd (unwatch_kv payload s))"
  by (auto simp: unwatch_kv_def drop_watcher_ok split: sum.splits option.splits)

lemma outbound_ok:
  assumes "session_ok hash other s"
  shows "session_ok hash other (snd (start_outbound_byte_transfer credit family kind sensitive s))"
proof -
  have "session_ok hash other s1" if "alloc_transfer_id s = Some (t, s1)" for t s1
    using assms alloc_transfer_id_eq [OF that] by (auto intro!: session_ok_later [OF assms])
  then show ?thesis
    using assms by (auto simp: start_outbound_byte_transfer_def Let_def split: option.splits prod.splits sum.splits intro: session_ok_later)
qed

lemma get_kv_ok:
  assumes "session_ok hash other s"
  shows "session_ok hash other (snd (get_kv payload s K))"
proof -
  have "session_ok hash other s1" if "start_outbound_byte_transfer credit family kind sensitive s = (d, s1)" for credit family kind sensitive d s1
    using outbound_ok [OF assms, of credit family kind sensitive] that by simp
  then show ?thesis
    using assms by (auto simp: get_kv_def Let_def split: sum.splits option.splits prod.splits)
qed

lemma watch_kv_ok:
  assumes "session_ok hash other s"
  shows "session_ok hash other (fst (snd (watch_kv payload s K)))"
proof -
  have "s1 = s\<lparr>ss_next_subscription_id := ss_next_subscription_id s + 1\<rparr>" if "alloc_subscription_id s = Some (i, s1)" for i s1
    using that by (auto simp: alloc_subscription_id_def Let_def checked_add_def split: if_splits option.splits)
  then have "session_ok hash other s1" if "alloc_subscription_id s = Some (i, s1)" for i s1
    using that by (auto intro!: session_ok_later [OF assms])
  then show ?thesis
    using assms by (auto simp: watch_kv_def Let_def split: sum.splits option.splits prod.splits intro: session_ok_later)
qed

lemma finish_mutation_ok:
  assumes "session_ok hash other s"
  shows "session_ok hash other (snd (finish_mutation kind i used commit s))"
  using consume_stages_ok [OF assms, of "sort used"] assms
  by (auto simp: finish_mutation_def Let_def split: option.splits intro: session_ok_later)

lemma mutate_kv_ok:
  assumes "session_ok hash other s"
  shows "session_ok hash other (fst (snd (mutate_kv hash' deployment now_ns kind i h op durable es ms s K)))"
proof -
  have "session_ok hash other s'" if "finish_mutation kind i used commit s = (r, s')" for used commit r s'
    using finish_mutation_ok [OF assms, of kind i used commit] that by simp
  then show ?thesis
    using assms by (auto simp: mutate_kv_def Let_def split: sum.splits option.splits prod.splits NativeMutationError.splits)
qed

lemma handle_frame_ok:
  assumes "session_ok hash other s"
  shows "session_ok hash other (fst (snd (handle_frame hash deployment now now_ns f s K)))"
proof -
  have requests: "session_ok hash other (fst (snd (handle_kv_request hash deployment now now_ns kind i payload s' K)))"
    if "session_ok hash other s'" for kind i payload s'
    unfolding handle_kv_request_def Let_def put_kv_def delete_kv_def batch_kv_def
    using that open_kv_ok [OF that, of payload K] close_kv_ok [OF that, of payload] watch_kv_ok [OF that, of payload K] unwatch_kv_ok [OF that, of payload]
      get_kv_ok [OF that, of payload K] stage_kv_value_ok [OF that, of deployment now payload]
    by (simp add: case_prod_beta mutate_kv_ok [OF that] split: sum.split)
  have "session_ok hash other (gc_expired_kv_stages now s)"
    by (rule gc_ok [OF assms])
  then show ?thesis
    using requests byte_data_ok close_transfer_ok reset_received_ok
    by (cases f) (simp_all add: handle_frame_def Let_def case_prod_beta)
qed

lemma durable_complete_ok: "session_ok hash other s \<Longrightarrow> session_ok hash other (snd (kv_durable_complete i kind body persisted s))"
  by (auto simp: kv_durable_complete_def Let_def split: option.splits intro: session_ok_later)

end
