(* ===== verification/Kv_Server.thy ===== *)
theory Kv_Server
  imports Kv_Uploads Kv_Contract
begin

text \<open>
  The sessions of a server on its key-value store.  Sessions connect, send frames and end in any order while the writer thread runs; what they do to the store is a run of
  well-formed requests, so that what holds of the store holds of the server.
\<close>

section \<open>From a session to the store\<close>

definition kv_rq :: "u64 \<Rightarrow> bytes \<Rightarrow> bytes \<Rightarrow> bool \<Rightarrow> NativeStageWitness list \<Rightarrow> NativeMutation list \<Rightarrow> kv_request" where
  "kv_rq now_ns i fingerprint durable ws ms =
     \<lparr>rq_now_ns = now_ns, rq_operation_id = i, rq_fingerprint = fingerprint, rq_durable = durable, rq_stage_witnesses = ws, rq_mutations = ms\<rparr>"

lemma answer_kv_rq: "answer_request deployment (kv_rq now_ns i fp durable ws ms) K = native_mutate deployment now_ns i fp durable ws ms K"
  by (simp add: answer_request_def kv_rq_def)

definition witness_typed :: "NativeStageWitness \<Rightarrow> bool" where
  "witness_typed w \<longleftrightarrow> length (sw_content_hash w) = 32 \<and> sw_byte_len w \<le> kv_max_value_bytes kv_HARD"

lemma native_mutations_typed:
  assumes "native_mutations hash p stages ms used ws = Inr (native, used', ws')" "\<And>x. length (hash x) = 32"
    and "\<And>h g. bt_get stages h = Some g \<Longrightarrow> stage_ok hash g" "list_all witness_typed ws"
  shows "list_all (mutation_typed hash) native \<and> list_all witness_typed ws' \<and> list_all (\<lambda>m. prefix p (mutation_key m)) native"
  using assms(1,4)
proof (induction ms arbitrary: used ws native)
  case (Cons m ms)
  show ?case
  proof (cases m)
    case (MutDelete key precondition es)
    then show ?thesis
      using Cons by (fastforce simp: enc_iff)
  next
    case (MutPut key precondition v es)
    show ?thesis
    proof (cases v)
      case (InlineValue bs)
      then show ?thesis
        using Cons MutPut assms(2) by (fastforce simp: enc_iff)
    next
      case (Staged h)
      then obtain g where g: "bt_get stages h = Some g" "kg_sealed g"
        using Cons.prems(1) MutPut by (auto split: option.splits if_splits)
      have "stage_ok hash g"
        by (rule assms(3) [OF g(1)])
      then have ok: "hash (kg_bytes g) = kg_content_hash g" "length (kg_content_hash g) = 32" "kg_byte_len g \<le> kv_max_value_bytes kv_HARD"
        using g(2) by (auto simp: stage_ok_def KV_MAX_VALUE_BYTES_def kv_HARD_def)
      define w where "w = \<lparr>sw_ordinal = of_nat (length ws), sw_original_handle = h, sw_byte_len = kg_byte_len g, sw_content_hash = kg_content_hash g\<rparr>"
      obtain rest where rest: "native_mutations hash p stages ms (used @ [h]) (ws @ [w]) = Inr (rest, used', ws')"
        "native = Put (p @ key) precondition (kg_bytes g) (kg_content_hash g) # rest"
        using Cons.prems(1) MutPut Staged g by (auto simp: enc_iff Let_def w_def split: if_splits)
      have "list_all witness_typed (ws @ [w])"
        using Cons.prems(2) ok by (simp add: witness_typed_def w_def list_all_iff)
      from Cons.IH [OF rest(1) this] show ?thesis
        using ok by (simp add: rest(2))
    qed
  qed
qed simp

text \<open>A mutation leaves the store alone or is one well-formed request to it, all of whose keys are in the namespace.\<close>

lemma mutate_kv_store:
  assumes "session_ok hash other s" "\<And>x. length (hash x) = 32" "length operation_id = 16"
    and "mutate_kv hash deployment now_ns kind i h operation_id durable es ms s K = (r, s', K')"
  obtains (same) "K' = K" | (asked) p rq where "bt_get (kr_namespaces (ss_kv s)) h = Some p" "kv_request_typed hash rq" "rq_durable rq = durable" "rq_operation_id rq = operation_id"
    "list_all (\<lambda>m. prefix p (mutation_key m)) (rq_mutations rq)" "bt_get (st_operations (kv_store K)) operation_id = None"
    "K' = snd (answer_request deployment rq K)"
    "\<And>e. fst (answer_request deployment rq K) = Inl e \<Longrightarrow> s' = s \<and> r = Reply (mutation_status e) []"
    "\<And>c. fst (answer_request deployment rq K) = Inr c \<Longrightarrow> \<exists>used. finish_mutation kind i used c s = (r, s')"
proof (cases "K' = K \<or> bt_get (kr_namespaces (ss_kv s)) h = None")
  case True
  then show thesis
    using same assms(4) by (auto simp: mutate_kv_def)
next
  case False
  then obtain p where p: "bt_get (kr_namespaces (ss_kv s)) h = Some p"
    by auto
  define retained where "retained = (case native_stage_witnesses operation_id (kv_store K) of None \<Rightarrow> [] | Some ws \<Rightarrow> ws)"
  note step = assms(4) [unfolded mutate_kv_def p option.case Let_def, folded retained_def]
  obtain fp where fp: "kv_operation_fingerprint hash kind durable p es ms (ss_kv s) retained = Inr fp" "native_replay operation_id fp (kv_store K) = Inr None"
    and stages: "\<not> is_ok (native_mutations hash p (kr_stages (ss_kv s)) ms [] []) \<Longrightarrow> False"
    using step False by (auto split: sum.splits option.splits if_splits NativeMutationError.splits)
  then obtain native used ws where native: "native_mutations hash p (kr_stages (ss_kv s)) ms [] [] = Inr (native, used, ws)"
    by (metis is_ok_iff prod_cases3)
  define rq where "rq = kv_rq now_ns operation_id fp durable ws native"
  have rest: "(case answer_request deployment rq K of (Inl e, K') \<Rightarrow> (Reply (mutation_status e) [], s, K')
      | (Inr c, K') \<Rightarrow> (case finish_mutation kind i used c s of (r, s') \<Rightarrow> (r, s', K'))) = (r, s', K')"
    using step False by (auto simp: rq_def answer_kv_rq fp native split: if_splits)
  have typed: "list_all (mutation_typed hash) native \<and> list_all witness_typed ws \<and> list_all (\<lambda>m. prefix p (mutation_key m)) native"
    using assms(1) by (intro native_mutations_typed [OF native assms(2)]) (auto simp: session_ok_def)
  have "length fp = 32"
    using fp(1) assms(2) by (auto simp: kv_operation_fingerprint_def enc_iff)
  then have "kv_request_typed hash rq"
    using typed assms(3) by (simp add: kv_request_typed_def rq_def kv_rq_def witness_typed_def list_all_iff)
  moreover have "bt_get (st_operations (kv_store K)) operation_id = None"
    using fp(2) by (auto simp: native_replay_def split: option.splits if_splits)
  ultimately show thesis
    using rest typed p by (intro asked [of p rq]) (auto simp: rq_def kv_rq_def split: prod.splits sum.splits)
qed

section \<open>The server\<close>

record 'd server =
  sv_sessions :: "(nat, Session) BTreeMap"
  sv_kv :: Kv
  sv_disk :: "'d Disk"
  sv_durable :: "nat list"

text \<open>
  A session connects, a frame reaches one, the channel of a pending durable mutation of one has its answer or was dropped, the writer thread takes a step, a session ends.
  The channels of the durable mutations whose Result, when it came, said that they succeeded are kept in \<open>sv_durable\<close>.
\<close>

datatype server_event =
    Connects nat bool bool ReceiveLimits u64 u64 nat
  | Arrives nat u64 u64 frame
  | Completes nat u32
  | WriterRuns
  | Disconnects nat

definition put_session :: "nat \<Rightarrow> outcome \<Rightarrow> Session \<Rightarrow> 'd server \<Rightarrow> 'd server" where
  "put_session i r s V = V\<lparr>sv_sessions := if r = Broken then bt_remove i (sv_sessions V) else bt_insert i s (sv_sessions V)\<rparr>"

definition succeeded :: "outcome \<Rightarrow> bool" where
  "succeeded r \<longleftrightarrow> (case r of Reply status _ \<Rightarrow> status = StOk | _ \<Rightarrow> False)"

definition channel_answer :: "nat \<Rightarrow> 'd server \<Rightarrow> bool option" where
  "channel_answer channel V =
     (case map_of (wr_replies (kv_writer (sv_kv V))) channel of
        Some persisted \<Rightarrow> Some persisted
      | None \<Rightarrow>
          if list_ex (\<lambda>j. wj_native_reply j = Some channel) (held_jobs (kv_writer (sv_kv V)) (sv_disk V)) then None else Some False)"

fun server_step :: "(bytes \<Rightarrow> bytes) \<Rightarrow> (string \<Rightarrow> u64 option) \<Rightarrow> 'd Redb \<Rightarrow> server_event \<Rightarrow> 'd server \<Rightarrow> 'd server" where
  "server_step hash deployment R (Connects i enabled selected peer inbound_max outbound_max transfers) V =
     (if bt_has (sv_sessions V) i then V
      else V\<lparr>sv_sessions := bt_insert i (Session_new enabled selected peer inbound_max outbound_max transfers) (sv_sessions V)\<rparr>)"
| "server_step hash deployment R (Arrives i now now_ns f) V =
     (case bt_get (sv_sessions V) i of
        None \<Rightarrow> V
      | Some s \<Rightarrow> (case handle_frame hash deployment now now_ns f s (sv_kv V) of (r, s', K') \<Rightarrow> put_session i r s' (V\<lparr>sv_kv := K'\<rparr>)))"
| "server_step hash deployment R (Completes i request_id) V =
     (case bt_get (sv_sessions V) i of
        None \<Rightarrow> V
      | Some s \<Rightarrow>
          (case bt_get (ss_pending_requests s) request_id of
             None \<Rightarrow> V
           | Some d \<Rightarrow>
               (case channel_answer (kd_channel d) V of
                  None \<Rightarrow> V
                | Some persisted \<Rightarrow>
                    (case kv_durable_complete request_id (kd_kind d) (kd_body d) persisted s of (r, s') \<Rightarrow>
                       put_session i r s' (V\<lparr>sv_durable := (if succeeded r then [kd_channel d] else []) @ sv_durable V\<rparr>)))))"
| "server_step hash deployment R WriterRuns V =
     (case writer_step R (kv_writer (sv_kv V), sv_disk V) of (w, D) \<Rightarrow> V\<lparr>sv_kv := (sv_kv V)\<lparr>kv_writer := w\<rparr>, sv_disk := D\<rparr>)"
| "server_step hash deployment R (Disconnects i) V = V\<lparr>sv_sessions := bt_remove i (sv_sessions V)\<rparr>"

definition server_run :: "(bytes \<Rightarrow> bytes) \<Rightarrow> (string \<Rightarrow> u64 option) \<Rightarrow> 'd Redb \<Rightarrow> server_event list \<Rightarrow> 'd server \<Rightarrow> 'd server" where
  "server_run hash deployment R events V = fold (server_step hash deployment R) events V"

definition started_server :: "Kv \<Rightarrow> 'd Disk \<Rightarrow> 'd server" where
  "started_server K D = \<lparr>sv_sessions = bt_empty, sv_kv = K, sv_disk = D, sv_durable = []\<rparr>"

section \<open>Runs of the server are runs of the store\<close>

text \<open>One frame asks at most one thing of the store.\<close>

definition asks :: "(bytes \<Rightarrow> bytes) \<Rightarrow> (string \<Rightarrow> u64 option) \<Rightarrow> Kv \<Rightarrow> Kv \<Rightarrow> bool" where
  "asks hash deployment K K' \<longleftrightarrow> K' = K \<or> (\<exists>rq. kv_request_typed hash rq \<and> K' = snd (answer_request deployment rq K))"

lemma mutate_asks:
  assumes "session_ok hash other s" "\<And>x. length (hash x) = 32" "length operation_id = 16"
  shows "asks hash deployment K (snd (snd (mutate_kv hash deployment now_ns kind i h operation_id durable es ms s K)))"
proof -
  obtain r s' K' where step: "mutate_kv hash deployment now_ns kind i h operation_id durable es ms s K = (r, s', K')"
    using prod_cases3 by blast
  show ?thesis
    unfolding step by (rule mutate_kv_store [OF assms step]) (auto simp: asks_def)
qed

lemma frame_asks:
  assumes "session_ok hash other s" "\<And>x. length (hash x) = 32"
  shows "asks hash deployment K (snd (snd (handle_frame hash deployment now now_ns f s K)))"
proof -
  have gc: "session_ok hash other (gc_expired_kv_stages now s)"
    by (rule gc_ok [OF assms(1)])
  have "asks hash deployment K (snd (snd (handle_kv_request hash deployment now now_ns kind i payload s' K)))" if "session_ok hash other s'" for kind i payload s'
    unfolding handle_kv_request_def Let_def put_kv_def delete_kv_def batch_kv_def
    using mutate_asks [OF that assms(2)]
    by (auto simp: case_prod_beta asks_def kv_Put_decode_iff kv_Put_ok_def kv_Delete_decode_iff kv_Delete_ok_def Batch_decode_iff Batch_ok_def split: sum.split)
  then show ?thesis
    using gc by (cases f) (simp_all add: handle_frame_def Let_def case_prod_beta asks_def)
qed

definition mirrors :: "'d world \<Rightarrow> 'd server \<Rightarrow> bool" where
  "mirrors W V \<longleftrightarrow> wo_kv W = sv_kv V \<and> wo_disk W = sv_disk V"

definition sessions_ok :: "(bytes \<Rightarrow> bytes) \<Rightarrow> 'd server \<Rightarrow> bool" where
  "sessions_ok hash V \<longleftrightarrow> (\<forall>i s. bt_get (sv_sessions V) i = Some s \<longrightarrow> session_ok hash 0 s)"

lemma put_session_simps [simp]:
  "sv_kv (put_session i r s V) = sv_kv V" "sv_disk (put_session i r s V) = sv_disk V" "sv_durable (put_session i r s V) = sv_durable V"
  by (simp_all add: put_session_def)

lemma sessions_ok_simps [simp]:
  "sessions_ok hash (V\<lparr>sv_kv := K\<rparr>) = sessions_ok hash V" "sessions_ok hash (V\<lparr>sv_disk := D\<rparr>) = sessions_ok hash V"
  "sessions_ok hash (V\<lparr>sv_durable := ds\<rparr>) = sessions_ok hash V"
  by (simp_all add: sessions_ok_def)

lemma put_session_ok: "sessions_ok hash V \<Longrightarrow> session_ok hash 0 s \<Longrightarrow> sessions_ok hash (put_session i r s V)"
  by (auto simp: sessions_ok_def put_session_def split: if_splits)

lemma step_sessions_ok:
  assumes "sessions_ok hash V"
  shows "sessions_ok hash (server_step hash deployment R e V)"
proof (cases e)
  case (Connects i enabled selected peer inbound_max outbound_max transfers)
  then show ?thesis
    using assms new_session_ok by (auto simp: sessions_ok_def)
next
  case (Arrives i now now_ns f)
  have "session_ok hash 0 (fst (snd (handle_frame hash deployment now now_ns f s (sv_kv V))))" if "bt_get (sv_sessions V) i = Some s" for s
    using handle_frame_ok that assms by (simp add: sessions_ok_def)
  then show ?thesis
    using Arrives assms by (auto simp: case_prod_beta intro!: put_session_ok split: option.splits)
next
  case (Completes i request_id)
  have "session_ok hash 0 (snd (kv_durable_complete request_id kind body persisted s))" if "bt_get (sv_sessions V) i = Some s" for s kind body persisted
    using durable_complete_ok that assms by (simp add: sessions_ok_def)
  then show ?thesis
    using Completes assms by (auto simp: case_prod_beta intro!: put_session_ok split: option.splits)
next
  case WriterRuns
  then show ?thesis
    using assms by (simp add: case_prod_beta)
next
  case (Disconnects i)
  then show ?thesis
    using assms by (auto simp: sessions_ok_def split: if_splits)
qed

lemma step_mirrors:
  assumes "sessions_ok hash V" "\<And>x. length (hash x) = 32" "mirrors W V"
  shows "\<exists>asked. length asked \<le> 1 \<and> list_all (event_typed hash) asked \<and> mirrors (kv_run deployment R asked W) (server_step hash deployment R e V)"
proof -
  have none: ?thesis if "sv_kv (server_step hash deployment R e V) = sv_kv V" "sv_disk (server_step hash deployment R e V) = sv_disk V"
    using that assms(3) by (intro exI [of _ "[]"]) (simp add: mirrors_def)
  show ?thesis
  proof (cases e)
    case (Arrives i now now_ns f)
    show ?thesis
    proof (cases "bt_get (sv_sessions V) i")
      case (Some s)
      then have "session_ok hash 0 s"
        using assms(1) by (simp add: sessions_ok_def)
      from frame_asks [OF this assms(2), of deployment "sv_kv V" now now_ns f]
      consider (same) "snd (snd (handle_frame hash deployment now now_ns f s (sv_kv V))) = sv_kv V"
        | (asked) rq where "kv_request_typed hash rq" "snd (snd (handle_frame hash deployment now now_ns f s (sv_kv V))) = snd (answer_request deployment rq (sv_kv V))"
        by (auto simp: asks_def)
      then show ?thesis
      proof cases
        case same
        then show ?thesis
          by (intro none) (simp_all add: Arrives Some case_prod_beta)
      next
        case (asked rq)
        then show ?thesis
          using assms(3) by (intro exI [of _ "[Request rq]"]) (simp add: Arrives Some case_prod_beta mirrors_def Let_def)
      qed
    qed (intro none; simp add: Arrives)
  next
    case WriterRuns
    then show ?thesis
      using assms(3) by (intro exI [of _ "[WriterStep]"]) (simp add: mirrors_def case_prod_beta)
  qed (intro none; auto simp: case_prod_beta split: option.splits)+
qed

lemma run_mirrors:
  assumes "sessions_ok hash V" "\<And>x. length (hash x) = 32" "mirrors W V"
  shows "\<exists>asked. length asked \<le> length events \<and> list_all (event_typed hash) asked \<and> mirrors (kv_run deployment R asked W) (server_run hash deployment R events V)
    \<and> sessions_ok hash (server_run hash deployment R events V)"
  using assms
proof (induction events arbitrary: V W)
  case Nil
  then show ?case
    by (intro exI [of _ "[]"]) (simp add: server_run_def)
next
  case (Cons e events)
  obtain a where a: "length a \<le> 1" "list_all (event_typed hash) a" "mirrors (kv_run deployment R a W) (server_step hash deployment R e V)"
    using step_mirrors [OF Cons.prems] by blast
  obtain b where b: "length b \<le> length events" "list_all (event_typed hash) b"
    "mirrors (kv_run deployment R b (kv_run deployment R a W)) (server_run hash deployment R events (server_step hash deployment R e V))"
    "sessions_ok hash (server_run hash deployment R events (server_step hash deployment R e V))"
    using Cons.IH [OF step_sessions_ok [OF Cons.prems(1)] Cons.prems(2) a(3)] by blast
  show ?case
    using a b by (intro exI [of _ "a @ b"]) (auto simp: kv_run_append server_run_def)
qed

lemma started_ok_sessions: "sessions_ok hash (started_server K D)" "mirrors \<lparr>wo_kv = K, wo_disk = D, wo_history = []\<rparr> (started_server K D)"
  by (simp_all add: sessions_ok_def started_server_def mirrors_def)

text \<open>
  C4: the server refines the store.  Whatever sessions connect, whatever frames they send, in whatever order, and however the writer thread runs beside them: what becomes of the store and of the disk
  is what a run of well-formed requests makes of them, at most one for each event - operation ids and hashes of their length, every value under the hash of its content, a
  staged one included.  And every session keeps its uploads in order: at most 16 stages and 64 MiB, each reached by its own transfer, the credit reserved for them exactly what they hold,
  and a sealed stage has the content its hash names.
\<close>

theorem server_refines_store:
  assumes "\<forall>x. length (hash x) = 32"
  shows "\<exists>asked. length asked \<le> length events \<and> list_all (event_typed hash) asked
    \<and> wo_kv (kv_run deployment R asked \<lparr>wo_kv = K, wo_disk = D, wo_history = []\<rparr>) = sv_kv (server_run hash deployment R events (started_server K D))
    \<and> wo_disk (kv_run deployment R asked \<lparr>wo_kv = K, wo_disk = D, wo_history = []\<rparr>) = sv_disk (server_run hash deployment R events (started_server K D))
    \<and> (\<forall>i s. bt_get (sv_sessions (server_run hash deployment R events (started_server K D))) i = Some s \<longrightarrow>
         (\<forall>h g. bt_get (kr_stages (ss_kv s)) h = Some g \<longrightarrow> stage_ok hash g) \<and> routes_ok (ss_kv s)
         \<and> unat (kr_staged_bytes (ss_kv s)) = staged (ss_kv s) \<and> staged (ss_kv s) \<le> 64 * 1024 * 1024 \<and> bt_len (kr_stages (ss_kv s)) \<le> 16
         \<and> unat (cb_reserved (ss_inbound_credit s)) = staged (ss_kv s))"
  using run_mirrors [OF started_ok_sessions(1), of hash "\<lparr>wo_kv = K, wo_disk = D, wo_history = []\<rparr>" K D events deployment R] assms started_ok_sessions(2) [of K D]
  by (auto simp: mirrors_def sessions_ok_def session_ok_def holds_def KV_STAGED_MAX_def KV_STAGES_MAX_def)

section \<open>Answers that survive\<close>

lemma writer_step_replies: "set (wr_replies w) \<subseteq> set (wr_replies (fst (writer_step R (w, D))))"
proof -
  have "wr_replies (fold drop_job js v) = wr_replies v" for js v
    by (induction js arbitrary: v) (simp_all add: drop_job_def)
  then show ?thesis
    by (auto simp: writer_step_def answer_job_def drop_job_def split: writer_thread.split list.split prod.split option.split)
qed

lemma submit_replies:
  assumes "st_writer st' = st_writer (kv_store K)" "submit durable rows i dedup evicted st' K = (Inr r, K')"
  shows "wr_replies (kv_writer K') = wr_replies (kv_writer K)"
  by (rule submit_cases [OF assms(1), of durable rows i dedup evicted]) (use assms(2) in auto)

lemma answer_replies: "wr_replies (kv_writer (snd (answer_request deployment rq K))) = wr_replies (kv_writer K)"
  by (cases rule: answer_cases [of deployment rq K]) (auto dest: submit_replies [OF settled_writer])

definition durable_ok :: "'d server \<Rightarrow> bool" where
  "durable_ok V \<longleftrightarrow> (\<forall>channel \<in> set (sv_durable V). (channel, True) \<in> set (wr_replies (kv_writer (sv_kv V))))"

lemma step_durable_ok:
  assumes "sessions_ok hash V" "\<And>x. length (hash x) = 32" "durable_ok V"
  shows "durable_ok (server_step hash deployment R e V)"
proof (cases e)
  case (Arrives i now now_ns f)
  have "wr_replies (kv_writer (snd (snd (handle_frame hash deployment now now_ns f s (sv_kv V))))) = wr_replies (kv_writer (sv_kv V))"
    if "bt_get (sv_sessions V) i = Some s" for s
    using frame_asks [of hash 0 s deployment "sv_kv V" now now_ns f] that assms(1,2) answer_replies by (auto simp: asks_def sessions_ok_def)
  then show ?thesis
    using assms(3) by (auto simp: Arrives durable_ok_def case_prod_beta split: option.splits)
next
  case (Completes i request_id)
  have "(channel, True) \<in> set (wr_replies (kv_writer (sv_kv V)))"
    if "channel_answer channel V = Some persisted" "succeeded (fst (kv_durable_complete request_id kind body persisted s))" for channel persisted kind body s
  proof -
    have persisted
      using that(2) by (auto simp: succeeded_def kv_durable_complete_def Let_def split: option.splits if_splits)
    then show ?thesis
      using that(1) by (auto simp: channel_answer_def split: option.splits if_splits dest: map_of_SomeD)
  qed
  then show ?thesis
    using assms(3) by (auto simp: Completes durable_ok_def case_prod_beta split: option.splits)
next
  case WriterRuns
  then show ?thesis
    using assms(3) writer_step_replies [of "kv_writer (sv_kv V)" R "sv_disk V"] by (auto simp: durable_ok_def case_prod_beta)
qed (use assms(3) in \<open>auto simp: durable_ok_def\<close>)

lemma run_durable_ok:
  assumes "sessions_ok hash V" "\<And>x. length (hash x) = 32" "durable_ok V"
  shows "durable_ok (server_run hash deployment R events V)"
  using assms
proof (induction events arbitrary: V)
  case (Cons e events)
  then show ?case
    using Cons.IH [OF step_sessions_ok [OF Cons.prems(1)] Cons.prems(2) step_durable_ok [OF Cons.prems]] by (simp add: server_run_def)
qed (simp add: server_run_def)

text \<open>
  C5: a durable answer survives a crash.  Start the server on the tables of a store \<open>S\<close>, let sessions come, ask and go in any order while the writer thread runs on a database whose transactions are atomic
  but may fail, and stop it at any moment.  The requests that reached the store settle one after the other; a start on the tables that are left finds the store as it was after the first \<open>n\<close> that were settled, and
  every durable mutation whose request waited for the disk and was then answered with success is one of these \<open>n\<close>.  (A retry is answered from memory and does not wait; what it answers is that of the first request.)
\<close>

theorem durable_answer_survives:
  assumes "\<forall>x. length (hash x) = 32" "store_ok hash S" "atomic_commits R" "reads_succeed R" "su_path su" "su_create su" "su_spawn su"
    and "Store_open hash deployment su R (persist S) d = Some (K, D)" "unat (st_next_operation_sequence S) + length events < 2 ^ 64 - 1"
    and "V = server_run hash deployment R events (started_server K D)"
  shows "\<exists>asked H n. H = wo_history (kv_run deployment R asked \<lparr>wo_kv = K, wo_disk = D, wo_history = []\<rparr>)
    \<and> sv_kv V = wo_kv (kv_run deployment R asked \<lparr>wo_kv = K, wo_disk = D, wo_history = []\<rparr>) \<and> n \<le> length H
    \<and> (\<forall>d. \<exists>D'. Store_open hash deployment su R (dk_tables (sv_disk V)) d =
         Some (\<lparr>kv_store = restarted (states S H ! n), kv_writer = new_writer deployment\<rparr>, D'))
    \<and> (\<forall>channel \<in> set (sv_durable V). \<exists>m < n. fst (H ! m) = Some channel)"
proof -
  obtain asked W where asked: "length asked \<le> length events" "list_all (event_typed hash) asked" "mirrors W V"
    and W: "W = kv_run deployment R asked \<lparr>wo_kv = K, wo_disk = D, wo_history = []\<rparr>"
    using run_mirrors [OF started_ok_sessions(1) _ started_ok_sessions(2), of hash events deployment R K D] assms(1,10) by blast
  obtain d' where "K = \<lparr>kv_store = restarted S, kv_writer = new_writer deployment\<rparr>" "D = \<lparr>dk_thread = Gathering [], dk_tables = persist S, dk_db = d'\<rparr>"
    using open_persisted [OF assms(2,4-7), of deployment d] assms(8) by auto
  then have "world_ok hash (restarted S) \<lparr>wo_kv = K, wo_disk = D, wo_history = []\<rparr> 0"
    using started_ok [OF assms(2)] by simp
  from kv_run_ok [OF this assms(3) asked(2)] obtain n where ok: "world_ok hash (restarted S) W n"
    using assms(9) asked(1) unfolding W by (auto simp: restarted_sequence)
  note w = world_okD [OF ok]
  let ?H = "wo_history W"
  have "store_ok hash (states (restarted S) ?H ! n)"
    using w(2,5) by (simp add: list_all_length states_snoc)
  from open_persisted [OF this assms(4-7), of deployment]
  have found: "\<exists>D'. Store_open hash deployment su R (dk_tables (wo_disk W)) d = Some (\<lparr>kv_store = restarted (states S ?H ! n), kv_writer = new_writer deployment\<rparr>, D')" for d
    unfolding w(6) restarted_states by blast
  have "durable_ok V"
    unfolding assms(10) by (rule run_durable_ok [OF started_ok_sessions(1)]) (use assms(1) in \<open>simp_all add: durable_ok_def started_server_def\<close>)
  then have "\<exists>m < n. fst (?H ! m) = Some channel" if "channel \<in> set (sv_durable V)" for channel
    using that w(5,9) asked(3) by (fastforce simp: durable_ok_def mirrors_def confirmed_def in_set_conv_nth)
  then show ?thesis
    using found w(5) asked(3) unfolding mirrors_def W by metis
qed

definition sample_peer :: ReceiveLimits where
  "sample_peer = \<lparr>rl_max_frame = 1048576, rl_max_decoded = 1048576, rl_max_datagram = 0, rl_max_buffered = 16777216\<rparr>"

text \<open>A session opens the namespace \<^verbatim>\<open>a\<close> and stores three bytes under \<^verbatim>\<open>ab\<close> durably; the writer commits and the request is answered.\<close>

definition sample_open_payload :: bytes where
  "sample_open_payload = put_u16 1 @ [97] @ put_u32 0"

definition sample_put_payload :: bytes where
  "sample_put_payload =
     put_u64 1 @ replicate 16 1 @ put_u16 1 @ put_u16 0 @ put_u16 1 @ [98] @ put_u8 0 @ [0, 0, 0] @ put_u8 0 @ [0, 0, 0] @ put_u32 3 @ [1, 2, 3] @ put_u32 0"

definition sample_server_events :: "server_event list" where
  "sample_server_events =
     [Connects 0 True True sample_peer 67108864 67108864 8, Arrives 0 1 1 (KvRequest KV_OPEN 7 sample_open_payload),
      Arrives 0 2 5 (KvRequest KV_PUT 8 sample_put_payload), WriterRuns, WriterRuns, WriterRuns, WriterRuns, Completes 0 8]"

lemmas sample_encode_defs = kv_reject_unknown_required_def Extensions_validate_def put_bytes_u16_def put_bytes_u32_def put_len_u16_def put_len_u32_def
  Extensions_encode_tail_def Extensions_encode_entries_def

lemma sample_open_decode: "kv_Open_decode sample_open_payload = Inr \<lparr>op_prefix = [97], op_extensions = []\<rparr>"
  by (simp add: kv_Open_decode_iff kv_Open_encode_def sample_open_payload_def kv_validate_prefix_def KV_MAX_KEY_BYTES_def sample_encode_defs)

lemma sample_put_decode:
  "kv_Put_decode sample_put_payload = Inr \<lparr>pu_namespace_handle = 1, pu_operation_id = replicate 16 1, pu_durable = True, pu_relative_key = [98],
     pu_precondition = AnyEntry, pu_value = InlineValue [1, 2, 3], pu_extensions = []\<rparr>"
  by (simp add: kv_Put_decode_iff kv_Put_ok_def kv_Put_encode_def sample_put_payload_def kv_validate_mutation_header_def kv_validate_handle_def
      kv_validate_operation_id_def kv_validate_relative_key_def KV_MAX_KEY_BYTES_def KV_MAX_INLINE_BYTES_def Precondition_encode_def Precondition_kind_def
      VALUE_INLINE_def put_durable_def MUTATION_DURABLE_def list_all_iff sample_encode_defs)

lemma sample_mutate:
  "\<exists>st w job. native_mutate (\<lambda>_. None) 5 (replicate 16 1) (replicate 32 7) True [] [Put [97, 98] AnyEntry [1, 2, 3] (replicate 32 7)] (wo_kv sample_world) =
     (Inr sample_commit, \<lparr>kv_store = st, kv_writer = w\<rparr>) \<and> wr_queue w = [job] \<and> wj_native_reply job = Some 0 \<and> wr_replies w = []"
  by (simp add: sample_world_def native_mutate_def sample_kv_defs settle_commit_def saturating_add_def checked_add_def Let_def checked_nat_def
      bt_len_def changed_keys_def change_record_def persisted_row_def plan_operation_replay_def prune_operation_replays_def live_revisions_def bt_values_def
      operation_pins_live_entry_def write_job_bytes_def encode_native_dedup_def encode_result_def reserve_write_def WriterBudget_new_def
      WriterBudget_try_reserve_def open_reply_def enqueue_permitted_def enqueue_job_def MAX_PENDING_WRITES_def MAX_RECENT_OPERATION_REPLAYS_def
      result_for_def OPERATION_RECORD_MAGIC_def sample_results_def sample_commit_def native_entry_def bt_has_def)

definition sample_namespaced :: Session where
  "sample_namespaced = (Session_new True True sample_peer 67108864 67108864 8)\<lparr>ss_kv := (KvRuntime_new True)\<lparr>kr_next_namespace_handle := 2,
     kr_namespaces := bt_insert 1 [97] bt_empty\<rparr>\<rparr>"

lemma sample_opened:
  "\<exists>body. handle_frame sample_hash (\<lambda>_. None) 1 1 (KvRequest KV_OPEN 7 sample_open_payload) (Session_new True True sample_peer 67108864 67108864 8) (wo_kv sample_world) =
     (Reply StOk body, sample_namespaced, wo_kv sample_world)"
  by (simp add: handle_frame_def handle_kv_request_def kv_kind_defs gc_expired_kv_stages_def Session_new_def KvRuntime_new_def open_kv_def sample_open_decode
      Let_def KV_MAX_NAMESPACES_PER_SESSION_def checked_add_def kv_OpenResult_encode_def kv_validate_identity_revision_def kv_validate_handle_def
      native_revision_def sample_world_def restarted_def empty_store_def bt_len_def bt_has_def sample_namespaced_def sample_encode_defs)

lemma sample_mutated:
  "\<exists>s st w job. mutate_kv sample_hash (\<lambda>_. None) 5 KV_PUT 8 1 (replicate 16 1) True [] [MutPut [98] AnyEntry (InlineValue [1, 2, 3]) []] sample_namespaced (wo_kv sample_world) =
     (Waiting, s, \<lparr>kv_store = st, kv_writer = w\<rparr>) \<and> map_option kd_channel (bt_get (ss_pending_requests s) 8) = Some 0
     \<and> wr_queue w = [job] \<and> wj_native_reply job = Some 0 \<and> wr_replies w = [] \<and> bt_get (st_operations st) (replicate 16 1) \<noteq> None"
proof -
  have key: "kv_validate_full_key [97] [98] = Inr ()"
    by (simp add: kv_validate_full_key_def kv_validate_prefix_def kv_validate_relative_key_def KV_MAX_KEY_BYTES_def checked_nat_def)
  have retained: "native_stage_witnesses (replicate 16 1) (kv_store (wo_kv sample_world)) = None"
    "native_replay (replicate 16 1) (replicate 32 7) (kv_store (wo_kv sample_world)) = Inr None"
    by (simp_all add: native_stage_witnesses_def native_replay_def sample_world_def restarted_def empty_store_def)
  have fingerprint: "kv_operation_fingerprint sample_hash KV_PUT True [97] [] [MutPut [98] AnyEntry (InlineValue [1, 2, 3]) []] kv [] = Inr (replicate 32 7)" for kv
    by (simp add: kv_operation_fingerprint_def fingerprint_input_def hashed_extensions_def sample_hash_def sample_encode_defs)
  obtain body where body: "encode_kv_commit KV_PUT sample_commit = Some body"
    by (simp add: encode_kv_commit_def sample_commit_def sample_results_def commit_result_def KV_PUT_def KV_BATCH_def MutationResult_encode_def
        MutationResult_validate_def KV_MAX_VALUE_BYTES_def sample_encode_defs)
  obtain st w job where native: "native_mutate (\<lambda>_. None) 5 (replicate 16 1) (replicate 32 7) True [] [Put [97, 98] AnyEntry [1, 2, 3] (replicate 32 7)] (wo_kv sample_world) =
      (Inr sample_commit, \<lparr>kv_store = st, kv_writer = w\<rparr>)" "wr_queue w = [job]" "wj_native_reply job = Some 0" "wr_replies w = []"
    using sample_mutate by blast
  define rq where "rq = kv_rq 5 (replicate 16 1) (replicate 32 7) True [] [Put [97, 98] AnyEntry [1, 2, 3] (replicate 32 7)]"
  have "answer_request (\<lambda>_. None) rq (wo_kv sample_world) = (Inr sample_commit, \<lparr>kv_store = st, kv_writer = w\<rparr>)"
    "bt_get (st_operations (kv_store (wo_kv sample_world))) (rq_operation_id rq) = None"
    by (simp_all add: rq_def answer_kv_rq native(1)) (simp add: sample_world_def restarted_def empty_store_def)
  then obtain se b where "st = (settled rq se (kv_store (wo_kv sample_world)))\<lparr>st_writer := b\<rparr>"
    by (rule answer_settled) simp
  then have remembered: "bt_get (st_operations st) (replicate 16 1) \<noteq> None"
    using settled_new [of rq se "kv_store (wo_kv sample_world)"] by (simp add: rq_def kv_rq_def)
  have "bt_get (kr_namespaces (ss_kv sample_namespaced)) 1 = Some [97]" "sample_hash [1, 2, 3] = replicate 32 7"
    by (simp_all add: sample_namespaced_def sample_hash_def)
  moreover have "cm_persistence_failed sample_commit = False" "cm_durable sample_commit = Some 0"
    by (simp_all add: sample_commit_def)
  ultimately show ?thesis
    using native remembered by (simp add: mutate_kv_def Let_def key retained fingerprint native(1) finish_mutation_def body)
qed

lemma sample_waiting:
  "\<exists>s st w job. handle_frame sample_hash (\<lambda>_. None) 2 5 (KvRequest KV_PUT 8 sample_put_payload) sample_namespaced (wo_kv sample_world) =
     (Waiting, s, \<lparr>kv_store = st, kv_writer = w\<rparr>) \<and> map_option kd_channel (bt_get (ss_pending_requests s) 8) = Some 0
     \<and> wr_queue w = [job] \<and> wj_native_reply job = Some 0 \<and> wr_replies w = []"
proof -
  have kinds: "KV_PUT \<noteq> KV_OPEN" "KV_PUT \<noteq> KV_CLOSE" "KV_PUT \<noteq> KV_WATCH" "KV_PUT \<noteq> KV_UNWATCH" "KV_PUT \<noteq> KV_GET" "KV_PUT \<noteq> KV_STAGE_VALUE"
    by (simp_all add: kv_kind_defs)
  have dispatch: "handle_frame sample_hash (\<lambda>_. None) 2 5 (KvRequest KV_PUT 8 sample_put_payload) sample_namespaced (wo_kv sample_world) =
      mutate_kv sample_hash (\<lambda>_. None) 5 KV_PUT 8 1 (replicate 16 1) True [] [MutPut [98] AnyEntry (InlineValue [1, 2, 3]) []] sample_namespaced (wo_kv sample_world)"
    by (simp add: handle_frame_def handle_kv_request_def kinds gc_expired_kv_stages_def put_kv_def sample_put_decode sample_namespaced_def Session_new_def
        KvRuntime_new_def bt_has_def)
  show ?thesis
    unfolding dispatch using sample_mutated by blast
qed

definition sample_end :: "unit server" where
  "sample_end = server_run sample_hash (\<lambda>_. None) reliable sample_server_events (started_server (wo_kv sample_world) (wo_disk sample_world))"

lemma sample_durable: "sv_durable sample_end = [0]"
proof -
  obtain body where opened: "handle_frame sample_hash (\<lambda>_. None) 1 1 (KvRequest KV_OPEN 7 sample_open_payload) (Session_new True True sample_peer 67108864 67108864 8)
      (wo_kv sample_world) = (Reply StOk body, sample_namespaced, wo_kv sample_world)"
    using sample_opened by blast
  obtain s st w job where waiting: "handle_frame sample_hash (\<lambda>_. None) 2 5 (KvRequest KV_PUT 8 sample_put_payload) sample_namespaced (wo_kv sample_world) =
      (Waiting, s, \<lparr>kv_store = st, kv_writer = w\<rparr>)"
    and w: "map_option kd_channel (bt_get (ss_pending_requests s) 8) = Some 0" "wr_queue w = [job]" "wj_native_reply job = Some 0" "wr_replies w = []"
    using sample_waiting by blast
  obtain d where d: "bt_get (ss_pending_requests s) 8 = Some d" "kd_channel d = 0"
    using w(1) by auto
  have "wo_disk sample_world = \<lparr>dk_thread = Gathering [], dk_tables = persist empty_store, dk_db = ()\<rparr>"
    by (simp add: sample_world_def)
  then show ?thesis
    by (simp add: sample_end_def sample_server_events_def server_run_def started_server_def bt_has_def opened waiting put_session_def d kv_durable_complete_def succeeded_def
        writer_step_def w reliable_def answer_job_def drop_job_def channel_answer_def case_prod_beta Let_def)
qed

lemma sample_hash_length: "\<forall>x. length (sample_hash x) = 32"
  by (simp add: sample_hash_def)

theorem server_refines_store_witness:
  "\<exists>asked. length asked \<le> 8 \<and> list_all (event_typed sample_hash) asked \<and> wo_kv (kv_run (\<lambda>_. None) reliable asked sample_world) = sv_kv sample_end"
proof -
  have "length sample_server_events = 8"
    by (simp add: sample_server_events_def)
  then show ?thesis
    using server_refines_store [OF sample_hash_length, of sample_server_events "\<lambda>_. None" reliable "wo_kv sample_world" "wo_disk sample_world"] sample_start
    unfolding sample_end_def by auto
qed

theorem durable_answer_survives_witness:
  "\<exists>asked H m n. H = wo_history (kv_run (\<lambda>_. None) reliable asked sample_world) \<and> m < n \<and> n \<le> length H \<and> fst (H ! m) = Some 0
    \<and> (\<exists>D'. Store_open sample_hash (\<lambda>_. None) ready reliable (dk_tables (sv_disk sample_end)) () =
         Some (\<lparr>kv_store = restarted (states empty_store H ! n), kv_writer = new_writer (\<lambda>_. None)\<rparr>, D'))"
proof -
  have "unat (st_next_operation_sequence empty_store) + length sample_server_events < 2 ^ 64 - 1"
    by (simp add: empty_store_def sample_server_events_def)
  from durable_answer_survives [OF sample_hash_length empty_store_ok reliable_ok _ _ _ sample_open this sample_end_def]
  show ?thesis
    using sample_start sample_durable by (fastforce simp: ready_def)
qed

end
