(* ===== verification/Kv_Operations.thy ===== *)
theory Kv_Operations
  imports Kv_Server
begin

text \<open>
  Mutations as the client of a session sees them: they stay in the namespaces the session has open, their fingerprint tells operations apart, and one that is sent again gets the
  answer of the first.
\<close>

section \<open>Namespaces\<close>

lemma answer_other:
  assumes "k \<notin> mutation_key ` set (rq_mutations rq)"
  shows "bt_get (st_entries (kv_store (snd (answer_request deployment rq K)))) k = bt_get (st_entries (kv_store K)) k"
proof (cases rule: answer_store [of deployment rq K])
  case (settled se b)
  then show ?thesis
    using assms apply_batch_other by (auto simp: settled_def settles_def conflict_settlement_def commit_settlement_def Let_def)
qed simp

definition in_namespace :: "Session \<Rightarrow> bytes \<Rightarrow> bool" where
  "in_namespace s key \<longleftrightarrow> (\<exists>h p. bt_get (kr_namespaces (ss_kv s)) h = Some p \<and> prefix p key)"

lemma gc_namespaces: "kr_namespaces (ss_kv (gc_expired_kv_stages now s)) = kr_namespaces (ss_kv s)"
proof -
  have "kr_namespaces (ss_kv (remove_kv_stage h s)) = kr_namespaces (ss_kv s)" for h s
    by (simp add: remove_stage_eq without_stage_def drop_stage_def split: option.split)
  then have "kr_namespaces (ss_kv (fold (\<lambda>(h, _). remove_kv_stage h) hs s)) = kr_namespaces (ss_kv s)" for hs :: "(u64 \<times> KvStage) list"
    by (induction hs arbitrary: s) auto
  then show ?thesis
    by (simp add: gc_expired_kv_stages_def)
qed

lemma mutate_confined:
  assumes "session_ok hash other s" "\<And>x. length (hash x) = 32" "length operation_id = 16" "\<not> in_namespace s key"
  shows "bt_get (st_entries (kv_store (snd (snd (mutate_kv hash deployment now_ns kind i h operation_id durable es ms s K))))) key = bt_get (st_entries (kv_store K)) key"
proof -
  obtain r s' K' where step: "mutate_kv hash deployment now_ns kind i h operation_id durable es ms s K = (r, s', K')"
    using prod_cases3 by blast
  show ?thesis
  proof (cases rule: mutate_kv_store [OF assms(1-3) step])
    case (2 p rq)
    then have "key \<notin> mutation_key ` set (rq_mutations rq)"
      using assms(4) by (auto simp: in_namespace_def list_all_iff)
    from answer_other [OF this, of deployment K] show ?thesis
      using 2 by (simp add: step)
  qed (simp add: step)
qed

text \<open>
  C19: a session stays in its namespaces.  Whatever frame a session handles, an entry whose key is under none of the prefixes the session has opened is as it was.
\<close>

theorem session_confined:
  assumes "\<forall>x. length (hash x) = 32" "session_ok hash other s" "\<not> in_namespace s key"
  shows "bt_get (st_entries (kv_store (snd (snd (handle_frame hash deployment now now_ns f s K))))) key = bt_get (st_entries (kv_store K)) key"
proof -
  let ?s = "gc_expired_kv_stages now s"
  have "session_ok hash other ?s" "\<not> in_namespace ?s key" "\<And>x. length (hash x) = 32"
    using gc_ok [OF assms(2)] assms(1,3) by (simp_all add: in_namespace_def gc_namespaces)
  note confined = mutate_confined [OF this(1,3) _ this(2), of _ deployment now_ns _ _ _ _ _ _ K]
  have "bt_get (st_entries (kv_store (snd (snd (handle_kv_request hash deployment now now_ns kind i payload ?s K))))) key = bt_get (st_entries (kv_store K)) key"
    for kind i payload
    unfolding handle_kv_request_def Let_def put_kv_def delete_kv_def batch_kv_def
    using confined by (auto simp: case_prod_beta kv_Put_decode_iff kv_Put_ok_def kv_Delete_decode_iff kv_Delete_ok_def Batch_decode_iff Batch_ok_def split: sum.split)
  then show ?thesis
    by (cases f) (simp_all add: handle_frame_def Let_def case_prod_beta)
qed

lemma sample_namespaced_ok: "session_ok sample_hash 0 sample_namespaced"
  using new_session_ok [of sample_hash True True sample_peer 67108864 67108864 8]
  by (simp add: sample_namespaced_def session_ok_def routes_ok_def handles_ok_def staged_def Session_new_def)

theorem session_confined_witness:
  "bt_get (st_entries (kv_store (snd (snd (handle_frame sample_hash (\<lambda>_. None) 2 5 (KvRequest KV_PUT 8 sample_put_payload) sample_namespaced (wo_kv sample_world)))))) [98] =
     bt_get (st_entries (kv_store (wo_kv sample_world))) [98]"
  by (rule session_confined [OF sample_hash_length sample_namespaced_ok]) (simp add: in_namespace_def sample_namespaced_def)

section \<open>Fingerprints\<close>

text \<open>What of a mutation goes into its fingerprint: a staged value by its length and hash.\<close>

datatype source = Content bytes | Known u64 bytes

datatype identity = PutOf bytes Precondition source Extensions | DeleteOf bytes Precondition Extensions

fun identities :: "KvRuntime \<Rightarrow> NativeStageWitness list \<Rightarrow> u16 \<Rightarrow> Mutation list \<Rightarrow> Status + identity list" where
  "identities kv ws n [] = Inr []"
| "identities kv ws n (MutPut key precondition (InlineValue bs) es # ms) =
     ebind (identities kv ws n ms) (\<lambda>ids. Inr (PutOf key precondition (Content bs) es # ids))"
| "identities kv ws n (MutPut key precondition (Staged h) es # ms) =
     ebind (stage_metadata kv ws n h) (\<lambda>(len, hash).
       case checked_add n 1 of None \<Rightarrow> Inl StInvalid | Some n' \<Rightarrow> ebind (identities kv ws n' ms) (\<lambda>ids. Inr (PutOf key precondition (Known len hash) es # ids)))"
| "identities kv ws n (MutDelete key precondition es # ms) =
     ebind (identities kv ws n ms) (\<lambda>ids. Inr (DeleteOf key precondition es # ids))"

fun hashed_source :: "source \<Rightarrow> bytes" where
  "hashed_source (Content bs) = [0] @ kv_hash_field bs"
| "hashed_source (Known len hash) = [1] @ put_u64 len @ hash"

fun hashed_identity :: "identity \<Rightarrow> Status + bytes" where
  "hashed_identity (PutOf key precondition v es) =
     ebind (hashed_extensions es) (\<lambda>tail. Inr ([0] @ kv_hash_field key @ kv_hash_precondition precondition @ hashed_source v @ tail))"
| "hashed_identity (DeleteOf key precondition es) =
     ebind (hashed_extensions es) (\<lambda>tail. Inr ([1] @ kv_hash_field key @ kv_hash_precondition precondition @ tail))"

fun hashed_identities :: "identity list \<Rightarrow> Status + bytes" where
  "hashed_identities [] = Inr []"
| "hashed_identities (i # ids) = ebind (hashed_identity i) (\<lambda>b. ebind (hashed_identities ids) (\<lambda>bs. Inr (b @ bs)))"

lemma hashed_mutations_iff:
  "hashed_mutations kv ws n ms = Inr b \<longleftrightarrow> (\<exists>ids. identities kv ws n ms = Inr ids \<and> hashed_identities ids = Inr b)"
proof (induction kv ws n ms arbitrary: b rule: hashed_mutations.induct)
  case (2 kv ws n key precondition v es ms)
  show ?case
  proof (cases v)
    case (InlineValue bs)
    then show ?thesis
      using 2 by (fastforce simp: enc_iff)
  next
    case (Staged h)
    then show ?thesis
      using 2 by (fastforce simp: enc_iff split: option.splits)
  qed
next
  case (3 kv ws n key precondition es ms)
  then show ?case
    by (fastforce simp: enc_iff)
qed simp

text \<open>Each part of what is hashed shows where it ends.\<close>

lemma hash_field_append:
  assumes "length a < 2 ^ 64" "length b < 2 ^ 64"
  shows "kv_hash_field a @ x = kv_hash_field b @ y \<longleftrightarrow> a = b \<and> x = y"
proof -
  have "length a = length b" if "of_nat (length a) = (of_nat (length b) :: u64)"
    using that assms by (simp add: word_unat_eq_iff unsigned_of_nat take_bit_nat_eq_self)
  then show ?thesis
    by (auto simp: kv_hash_field_def)
qed

lemma hash_precondition_append:
  assumes "Precondition_ok p" "Precondition_ok q"
  shows "kv_hash_precondition p @ x = kv_hash_precondition q @ y \<longleftrightarrow> p = q \<and> x = y"
  using assms by (cases p; cases q) (auto simp: kv_hash_precondition_def)

fun source_ok :: "source \<Rightarrow> bool" where
  "source_ok (Content bs) \<longleftrightarrow> length bs < 2 ^ 64"
| "source_ok (Known len hash) \<longleftrightarrow> length hash = 32"

lemma hashed_source_append:
  assumes "source_ok v" "source_ok w"
  shows "hashed_source v @ x = hashed_source w @ y \<longleftrightarrow> v = w \<and> x = y"
  using assms by (cases v; cases w) (auto simp: hash_field_append)

lemma hashed_extensions_append:
  assumes "hashed_extensions es = Inr b" "hashed_extensions fs = Inr c"
  shows "b @ x = c @ y \<longleftrightarrow> es = fs \<and> x = y"
proof -
  obtain be bf where enc: "Extensions_encode_entries es = Inr be" "Extensions_encode_entries fs = Inr bf" "length be < 2 ^ 32" "length bf < 2 ^ 32"
    and b: "b = kv_hash_field (put_u32 (of_nat (length be)) @ be)" and c: "c = kv_hash_field (put_u32 (of_nat (length bf)) @ bf)"
    using assms by (auto simp: hashed_extensions_def Extensions_encode_tail_def enc_iff split: sum.splits)
  have "length (put_u32 (of_nat (length be)) @ be) < 2 ^ 64" "length (put_u32 (of_nat (length bf)) @ bf) < 2 ^ 64"
    using enc(3,4) by (simp_all add: put_u32_def)
  then have "b @ x = c @ y \<longleftrightarrow> be = bf \<and> x = y"
    unfolding b c by (subst hash_field_append) (auto simp: put_u32_def)
  moreover have "be = bf \<longleftrightarrow> es = fs"
    using enc(1,2) Extensions_decode_entries_iff [of be es] Extensions_decode_entries_iff [of be fs] by auto
  ultimately show ?thesis
    by simp
qed

fun identity_ok :: "identity \<Rightarrow> bool" where
  "identity_ok (PutOf key precondition v es) \<longleftrightarrow> length key < 2 ^ 64 \<and> Precondition_ok precondition \<and> source_ok v"
| "identity_ok (DeleteOf key precondition es) \<longleftrightarrow> length key < 2 ^ 64 \<and> Precondition_ok precondition"

lemma hashed_identity_append:
  assumes "hashed_identity i = Inr b" "hashed_identity j = Inr c" "identity_ok i" "identity_ok j"
  shows "b @ x = c @ y \<longleftrightarrow> i = j \<and> x = y"
  using assms
  by (cases i; cases j) (auto simp: enc_iff hash_field_append hash_precondition_append hashed_source_append hashed_extensions_append)

lemma hashed_identities_append:
  assumes "hashed_identities ids = Inr b" "hashed_identities js = Inr c" "list_all identity_ok ids" "list_all identity_ok js" "length ids = length js"
  shows "b = c \<longleftrightarrow> ids = js"
  using assms
proof (induction ids arbitrary: js b c)
  case (Cons i ids)
  then obtain j js' where js: "js = j # js'"
    by (cases js) auto
  obtain bi b' cj c' where "hashed_identity i = Inr bi" "hashed_identities ids = Inr b'" "b = bi @ b'"
    "hashed_identity j = Inr cj" "hashed_identities js' = Inr c'" "c = cj @ c'"
    using Cons.prems(1,2) by (auto simp: js enc_iff)
  then show ?case
    using Cons.IH [of b' js' c'] Cons.prems(3-5) by (simp add: js hashed_identity_append)
qed simp

fun mutation_fits :: "Mutation \<Rightarrow> bool" where
  "mutation_fits (MutPut key precondition (InlineValue bs) es) \<longleftrightarrow> length key < 2 ^ 64 \<and> Precondition_ok precondition \<and> length bs < 2 ^ 64"
| "mutation_fits (MutPut key precondition (Staged h) es) \<longleftrightarrow> length key < 2 ^ 64 \<and> Precondition_ok precondition"
| "mutation_fits (MutDelete key precondition es) \<longleftrightarrow> length key < 2 ^ 64 \<and> Precondition_ok precondition"

text \<open>The widths of what an operation is made of, in memory and as the runtime and the store know its stages.\<close>

definition operation_fits :: "bytes \<Rightarrow> Mutation list \<Rightarrow> KvRuntime \<Rightarrow> NativeStageWitness list \<Rightarrow> bool" where
  "operation_fits p ms kv ws \<longleftrightarrow> length p < 2 ^ 64 \<and> length ms < 2 ^ 64 \<and> list_all mutation_fits ms
     \<and> (\<forall>h g. bt_get (kr_stages kv) h = Some g \<longrightarrow> length (kg_content_hash g) = 32)
     \<and> (\<forall>h c. bt_get (kc_values (kr_consumed_stages kv)) h = Some c \<longrightarrow> length (kc_content_hash c) = 32)
     \<and> list_all (\<lambda>w. length (sw_content_hash w) = 32) ws"

lemma metadata_fits:
  assumes "operation_fits p ms kv ws" "stage_metadata kv ws n h = Inr (len, hash)"
  shows "length hash = 32"
  using assms by (auto simp: operation_fits_def stage_metadata_def list_all_iff find_Some_iff split: option.splits if_splits)

lemma identities_fit:
  assumes "identities kv ws n ms = Inr ids" "list_all mutation_fits ms" "\<forall>n h len hash. stage_metadata kv ws n h = Inr (len, hash) \<longrightarrow> length hash = 32"
  shows "list_all identity_ok ids \<and> length ids = length ms"
  using assms
proof (induction kv ws n ms arbitrary: ids rule: identities.induct)
  case (3 kv ws n key precondition h es ms)
  obtain len hash n' rest where step: "stage_metadata kv ws n h = Inr (len, hash)" "checked_add n 1 = Some n'" "identities kv ws n' ms = Inr rest"
    "ids = PutOf key precondition (Known len hash) es # rest"
    using 3(2) by (auto simp: enc_iff split: option.splits)
  then have "list_all identity_ok rest \<and> length rest = length ms"
    using 3(1) [OF step(2,3)] 3(3,4) step(1) by simp
  moreover have "length hash = 32"
    using 3(4) step(1) by blast
  ultimately show ?case
    using 3(3) by (simp add: step(4))
qed (auto simp: enc_iff)

text \<open>
  C21: a fingerprint stands for one operation.  What is fed to the hash for two operations is the same exactly when they are of the same kind, equally durable, in the same namespace prefix, with the same extensions, and their
  mutations agree one by one in key, precondition, extensions and value, an inline value by its content and a staged one by its length and hash, wherever the stage is known from: the session, the stages
  it has used, or the record the store keeps of the operation.
\<close>

theorem fingerprint_identifies:
  assumes "fingerprint_input kind durable p es ms kv ws = Inr fed" "fingerprint_input kind' durable' p' es' ms' kv' ws' = Inr fed'"
    and "operation_fits p ms kv ws" "operation_fits p' ms' kv' ws'"
  shows "fed = fed' \<longleftrightarrow> kind = kind' \<and> durable = durable' \<and> p = p' \<and> es = es' \<and> identities kv ws 0 ms = identities kv' ws' 0 ms'"
proof -
  obtain tail ids rest where fed: "hashed_extensions es = Inr tail" "identities kv ws 0 ms = Inr ids" "hashed_identities ids = Inr rest"
    "fed = FINGERPRINT_DOMAIN @ put_u16 kind @ [of_bool durable] @ kv_hash_field p @ tail @ put_u64 (of_nat (length ms)) @ rest"
    using assms(1) by (auto simp: fingerprint_input_def enc_iff hashed_mutations_iff)
  obtain tail' ids' rest' where fed': "hashed_extensions es' = Inr tail'" "identities kv' ws' 0 ms' = Inr ids'" "hashed_identities ids' = Inr rest'"
    "fed' = FINGERPRINT_DOMAIN @ put_u16 kind' @ [of_bool durable'] @ kv_hash_field p' @ tail' @ put_u64 (of_nat (length ms')) @ rest'"
    using assms(2) by (auto simp: fingerprint_input_def enc_iff hashed_mutations_iff)
  have fits: "length p < 2 ^ 64" "length p' < 2 ^ 64" "length ms < 2 ^ 64" "length ms' < 2 ^ 64" "list_all mutation_fits ms" "list_all mutation_fits ms'"
    using assms(3,4) by (simp_all add: operation_fits_def)
  have ok: "list_all identity_ok ids \<and> length ids = length ms" "list_all identity_ok ids' \<and> length ids' = length ms'"
    using identities_fit [OF fed(2) fits(5)] identities_fit [OF fed'(2) fits(6)] metadata_fits [OF assms(3)] metadata_fits [OF assms(4)] by blast+
  have count: "of_nat (length ms) = (of_nat (length ms') :: u64) \<longleftrightarrow> length ms = length ms'"
    using fits(3,4) by (auto simp: word_unat_eq_iff unsigned_of_nat take_bit_nat_eq_self)
  have rest: "length ms = length ms' \<and> rest = rest' \<longleftrightarrow> ids = ids'"
    using hashed_identities_append [OF fed(3) fed'(3)] ok by auto
  have "fed = fed' \<longleftrightarrow> kind = kind' \<and> durable = durable' \<and> p = p' \<and> es = es' \<and> length ms = length ms' \<and> rest = rest'"
    unfolding fed(4) fed'(4)
    by (simp add: hash_field_append [OF fits(1,2)] hashed_extensions_append [OF fed(1) fed'(1)] count)
  then show ?thesis
    using rest fed(2) fed'(2) by auto
qed

theorem fingerprint_identifies_witness:
  "fingerprint_input KV_PUT True [97] [] [MutPut [98] AnyEntry (InlineValue [1]) []] (KvRuntime_new True) [] \<noteq>
     fingerprint_input KV_PUT True [97] [] [MutPut [98] Absent (InlineValue [1]) []] (KvRuntime_new True) []"
proof -
  have fits: "operation_fits [97] [MutPut [98] q (InlineValue [1]) []] (KvRuntime_new True) []" if "q = AnyEntry \<or> q = Absent" for q
    using that by (auto simp: operation_fits_def KvRuntime_new_def)
  have "\<exists>fed. fingerprint_input KV_PUT True [97] [] [MutPut [98] q (InlineValue [1]) []] (KvRuntime_new True) [] = Inr fed" for q
    by (simp add: fingerprint_input_def hashed_extensions_def sample_encode_defs)
  then obtain fed fed' where fed: "fingerprint_input KV_PUT True [97] [] [MutPut [98] AnyEntry (InlineValue [1]) []] (KvRuntime_new True) [] = Inr fed"
    "fingerprint_input KV_PUT True [97] [] [MutPut [98] Absent (InlineValue [1]) []] (KvRuntime_new True) [] = Inr fed'"
    by meson
  have "fed \<noteq> fed'"
    using fingerprint_identifies [OF fed fits fits] by simp
  then show ?thesis
    by (simp add: fed)
qed

section \<open>Retries\<close>
















end
