(* ===== verification/Spec2Isabelle.thy ===== *)
theory Spec2Isabelle
  imports Wire_State Wire_Transfer Wire_Frame Wire_Datagram Wire_Catalog Wire_Attempt Read_Only Uplink_Datagram
    Guest_Receive Guest_Host Guest_Returns Guest_Bootstrap Guest_Reach Guest_Run Channel_Reach Kv_Contract Wire_Kv
    Session_Credit Credit_Tasks Kv_Session Kv_Uploads Kv_Server Kv_Operations
begin

text \<open>
  A verification library for yas, a terminal, desktop and development server with its own binary wire
  protocol.

  \<^bold>\<open>The parts.\<close>  A session is a byte stream that starts with an 8-byte preface and then carries
  length-prefixed frames; a frame has a family, a kind, a class (Request, Result or Event) and a payload.  The first
  exchange, HELLO, negotiates families, versions, limits and codecs.  Large values travel as transfers; catalogues of
  objects are watched and delivered as STATE events.  An uplink carries frames in encrypted datagrams.
  A read-only proxy rewrites the first HELLO of a stream.  Extensions run as guests: wasm programs
  that speak the same protocol over five host imports.  The server's channel fabric connects endpoints by named
  listeners and passes messages, credit and closing between the two ends of a channel.  Its key-value store answers
  compare-and-swap batches and watches from memory, and a writer thread brings them to a database.

  \<^bold>\<open>The theories.\<close>  Sources are relative to \<^verbatim>\<open>src/crates/\<close>.
  \<^item> \<^verbatim>\<open>Yas_Prelude\<close>: words of the wire, little-endian bytes, errors as sums, the collections of facts
    the codec proofs share.
  \<^item> \<^verbatim>\<open>Wire_Codec\<close> (\<^verbatim>\<open>yas/src/codec.rs\<close>): the cursor, the writers, extension lists.  A reader is a
    function from bytes to a value and the rest; the \<^verbatim>\<open>Decoder\<close> with its offset is shown to implement these readers.
    The locales \<^verbatim>\<open>wire_field\<close>, \<^verbatim>\<open>wire_item\<close> and \<^verbatim>\<open>self_delimiting_codec\<close> are the contracts of fields, list
    items and whole payloads; every payload of the theories below interprets the last.
  \<^item> \<^verbatim>\<open>Wire_State\<close> (\<^verbatim>\<open>yas/src/state.rs\<close>): WATCH, UNWATCH, STATE events, acknowledgements.
  \<^item> \<^verbatim>\<open>Wire_Transfer\<close> (\<^verbatim>\<open>yas/src/transfer.rs\<close>): descriptors, data, credit, upload stages, and the
    receiver that reassembles interleaved messages.
  \<^item> \<^verbatim>\<open>Wire_Schema\<close> (\<^verbatim>\<open>yas/src/generated.rs\<close>): the constants and the tables of all families.
  \<^item> \<^verbatim>\<open>Wire_Frame\<close> (\<^verbatim>\<open>yas/src/frame.rs\<close>): frame headers, the codec with its limits and the policies
    derived from the schema, streams, datagrams; \<^verbatim>\<open>Wire_Datagram\<close>: the payloads that travel as datagrams.
  \<^item> \<^verbatim>\<open>Family_Limits\<close>, \<^verbatim>\<open>Limits_Session\<close>, \<^verbatim>\<open>Limits_Host\<close>, \<^verbatim>\<open>Limits_Process\<close>: the limits each family
    advertises (\<^verbatim>\<open>yas/src/relay.rs\<close> to \<^verbatim>\<open>yas/src/env.rs\<close>), through the locale \<^verbatim>\<open>family_limits\<close>.
  \<^item> \<^verbatim>\<open>Wire_Core\<close>, \<^verbatim>\<open>Wire_Catalog\<close> (\<^verbatim>\<open>yas/src/core.rs\<close>): HELLO, Results, PING, GOAWAY, session and family
    updates, the catalogue of families and its validation; \<^verbatim>\<open>Wire_Attempt\<close> (\<^verbatim>\<open>yas/src/extension.rs\<close>): the payloads
    of an extension attempt.
  \<^item> \<^verbatim>\<open>Read_Only\<close> (\<^verbatim>\<open>yas/src/read_only.rs\<close>): the ingress of a read-only proxy.
  \<^item> \<^verbatim>\<open>Uplink_Datagram\<close> (\<^verbatim>\<open>uplink/src/datagram.rs\<close>): sealing, opening, the replay window, key epochs.
  \<^item> \<^verbatim>\<open>Guest_Receive\<close>, \<^verbatim>\<open>Guest_Host\<close>, \<^verbatim>\<open>Guest_Session\<close>, \<^verbatim>\<open>Guest_Requests\<close>, \<^verbatim>\<open>Guest_Bootstrap\<close>
    (\<^verbatim>\<open>guest/src/receive.rs\<close>, \<^verbatim>\<open>host.rs\<close>, \<^verbatim>\<open>native_host.rs\<close>, \<^verbatim>\<open>yas.rs\<close>): receive budgets and their leases; the host
    imports and the stream receiver; the session record \<^verbatim>\<open>Client\<close> with its catalogue, queue and reading loop; requests,
    credit, events; the bootstrap.  \<^verbatim>\<open>Guest_Returns\<close> shows when calls return, \<^verbatim>\<open>Guest_Reach\<close> what holds
    of every reachable session, and \<^verbatim>\<open>Guest_Run\<close> runs a bootstrap on a concrete host.
  \<^item> \<^verbatim>\<open>Channel_Admission\<close>, \<^verbatim>\<open>Channel_Fabric\<close> (\<^verbatim>\<open>server/src/channel.rs\<close>): the counters that admit a pair and the
    reservations whose drop gives them back; the record \<^verbatim>\<open>ChannelFabric\<close> with its endpoints, listeners, connects in progress
    and links, and every operation on it.  A reservation is a reference count in the state; the definitions clone and drop it
    where the source does.  \<^verbatim>\<open>Channel_Invariant\<close> states the invariant, \<^verbatim>\<open>Channel_Steps\<close> shows that every operation
    keeps it, \<^verbatim>\<open>Channel_Reach\<close> has the runs and their properties.
  \<^item> \<^verbatim>\<open>Ordered_Map\<close>: the ordered maps of the standard library as lists with increasing keys, and the range of keys with a prefix.
  \<^item> \<^verbatim>\<open>Kv_Store\<close>, \<^verbatim>\<open>Kv_Writer\<close> (\<^verbatim>\<open>server/src/kv.rs\<close>): the record \<^verbatim>\<open>Store\<close> with its entries, remembered operations, counters and what it broadcast;
    \<^verbatim>\<open>native_mutate\<close> with its budget, replay and persistence; reads and watches; operation records; the two tables, the writer thread as a machine of
    steps (\<^verbatim>\<open>writer_step\<close>), and \<^verbatim>\<open>Store_open\<close>.  \<^verbatim>\<open>Kv_Records\<close> has the record codec, \<^verbatim>\<open>Kv_Retention\<close> which operations are remembered and that a
    load finds them again, \<^verbatim>\<open>Kv_Settle\<close> the cases of an answer, \<^verbatim>\<open>Kv_Invariant\<close> the invariant of the store and the tables that hold it,
    \<^verbatim>\<open>Kv_Reach\<close> runs of requests and writer steps against the tables, \<^verbatim>\<open>Kv_Properties\<close> and \<^verbatim>\<open>Kv_Contract\<close> what follows; facts that
    requests keep go through the locale \<^verbatim>\<open>kept\<close>.
  \<^item> \<^verbatim>\<open>Wire_Kv\<close> (\<^verbatim>\<open>yas/src/kv.rs\<close>): the payloads of the key-value family, from namespaces and watches to batches and their results.
  \<^item> \<^verbatim>\<open>Session_Credit\<close> (\<^verbatim>\<open>server/src/yas.rs\<close>): the budget of credit that the streams of a session share, its leases, and the flow control of one stream, as the task
    of the session uses them alone; \<^verbatim>\<open>Credit_Tasks\<close> has the methods that tasks run at the same time, each atomic access a step, and all interleavings of them.
  \<^item> \<^verbatim>\<open>Kv_Session\<close> (\<^verbatim>\<open>server/src/yas.rs\<close>): the key-value family in a session of the server.  The record \<^verbatim>\<open>Session\<close> has what the handlers use: the open
    namespaces, stages, consumed stages and watches, the transfer ids and subscriptions, the credit, and the requests that wait for the disk.  Each handler is one definition, from the
    payload of its request to the Result: OPEN, CLOSE, WATCH, UNWATCH, GET, STAGE_VALUE, PUT, DELETE and BATCH, the bytes, closing and reset of a transfer, the expiry of stages, and the completion of a durable mutation;
    \<^verbatim>\<open>handle_frame\<close> dispatches to them.  \<^verbatim>\<open>Kv_Uploads\<close> has the invariant of a session and that every frame keeps it; \<^verbatim>\<open>Kv_Server\<close> runs any number
    of sessions and the writer thread on one store and maps these runs to those of \<^verbatim>\<open>Kv_Reach\<close>; \<^verbatim>\<open>Kv_Operations\<close> has what the client of a session sees.

  \<^bold>\<open>What is shown.\<close>
  \<^item> Codecs: each decoder accepts exactly what its encoder writes, up to stated well-formedness; truncated
    input is reported; nothing is accepted that the encoder's validation would refuse.
  \<^item> Frames: the round trip with and without compression, size limits against any peer, the schema's
    policies on sensitivity and compression, nothing but HELLO before negotiation.
  \<^item> Negotiation: an accepted HELLO selects only what was offered, in an ordered catalogue closed under
    dependencies, within the schema's bounds.
  \<^item> Transfers: the message receiver accepts exactly the fragments that continue their messages, and refines an abstract assembly of the bytes of each message.
  \<^item> Uplink: the 128-bit window decides as the set of all accepted counters would; no counter is accepted twice and the
    cipher is never given a nonce twice.
  \<^item> Read-only proxy: what it sends is a function of the byte stream, and always starts with a HELLO that requires
    a read-only session.
  \<^item> Guests: the invariant of a session under every sequence of the calls that change it and every behaviour of the host, request
    and Result correspondence, delivery order, poisoning, exact accounting of credit and queue, and the return of
    every call on a host that falls silent.
  \<^item> Channels: the invariant of the fabric under every interleaving of operations and event consumers, its limits, routing
    between the two ends of a pair, and that nothing stays charged, listed or linked when an endpoint is gone.
  \<^item> Key-value store: what a start finds after a stop at any moment, a prefix of the settled requests with all that were reported durable;
    batches applied whole or not at all, retries answered and not applied again, watches without gaps, limits, a writer that is never overrun and catches up.
  \<^item> Sessions of the server: interleaved sessions do to the store what a run of well-formed requests does, so that the above holds for them; a durable mutation that waited for the disk and whose Result said that
    it succeeded is found after a stop at any moment; a session changes nothing outside the namespaces it opened; its uploads stay within their limits and their credit is exactly accounted for; what is hashed for
    a fingerprint determines the operation; an operation that succeeded and is sent again, on the same session or another, gets the first answer.
  \<^item> Flow control: under every interleaving of the atomic accesses of its tasks a stream sends no more than the peer granted; the budget is exact as long as no grant shrinks a lease, and
    covers every open window as long as no grant or refresh comes between the two accesses of a recording; a run where a grant
    does is shown to wrap the counter of the budget below zero (\<^verbatim>\<open>grant_races_with_send\<close>).

  \<^bold>\<open>Parameters.\<close>  LZ4 compression, the cipher and key derivation of the uplink, and the guest's host imports are
    arguments of the definitions; what is relied on (\<^verbatim>\<open>lz4_round_trip\<close>, \<^verbatim>\<open>faithful_host\<close>, \<^verbatim>\<open>finite_host\<close> and the
    laws of the cipher) is a named hypothesis that a concrete function is shown to satisfy.  The version string of the guest crate is an argument.
    The database of the key-value store is an argument with the hypotheses \<^verbatim>\<open>atomic_commits\<close> (a transaction happens whole or not at all, and did when it
    reports success), where needed \<^verbatim>\<open>reads_succeed\<close> and \<^verbatim>\<open>commits_succeed\<close>; so are BLAKE3, of which sessions rely on the length of its output, the clock, and what the system answers at start.
    The event lanes of the channel fabric are arguments too, with no hypothesis: a send may succeed or fail in any way.  The values of the
    deployment's settings are an argument.  Hash maps are association lists with distinct keys; the order in which
    the source visits one is not specified, and nothing proved depends on it.

  \<^bold>\<open>Termination and bounds.\<close>  There is no fuel: every loop is structural or has a termination proof, except
  the loops of a guest that wait for the host, which are partial functions into \<^verbatim>\<open>option\<close>, and the loop that prunes the operation table at start; \<^verbatim>\<open>calls_return\<close>
  and \<^verbatim>\<open>kv_open_returns\<close> prove that they return.  The counters of revisions and operations of the key-value store saturate; what depends on them
  being distinct is stated for runs shorter than the 64-bit range.  Integers of the wire are words; lengths and indices are natural numbers with the source's checks.

  \<^bold>\<open>Not modelled.\<close>  The operating-system side of the server, the compositor, renderers, the command line and the web and
  desktop clients are drivers for devices, sockets and processes.  The capacity of the broadcast channel to a watcher, which loses the watcher and not the store, is left out.  In a session of the server, the handlers of the other families, CANCEL, the task that sends
  the bytes of an outgoing transfer and the task that feeds a watch are left out; a watch is modelled through its admission and its end, and in the store through what is broadcast to it.
  A handler of a session is one step, although it takes the lock of the store more than once, and the refusals of a server that shuts down are left out.  The payloads of the other families
  besides their limits, the guest's family modules, the Noise stream of the
  uplink and the code generator of the schema are left out: they carry the data of devices, files and processes, or rest on external code.  Text of errors (\<^verbatim>\<open>Display\<close>) is left out everywhere.
\<close>

end
